(* ===== verification/Prelude.thy ===== *)
theory Prelude
  imports Complex_Main "HOL-Library.Word" "HOL-Library.Sublist"
begin

text \<open>
  What the components share: named collections of rewrite rules, first/last position in
  a list, substring search, decimal numbers, and durations and instants as the source
  uses them.  A Rust \<open>String\<close> whose code looks only at bytes, or compares and searches
  it as a whole, is a \<open>string\<close> (its UTF-8 bytes); where the code counts characters it
  is a list of code points (theory \<open>Unicode\<close>).
\<close>

named_theorems time_simps "durations and instants"
named_theorems search_simps "positions, prefixes and substrings"

subsection \<open>Runs that may panic\<close>

datatype 'a run = Panic | Ret 'a

primrec bind_run :: "'a run \<Rightarrow> ('a \<Rightarrow> 'b run) \<Rightarrow> 'b run" where
  "bind_run Panic f = Panic"
| "bind_run (Ret x) f = f x"

definition map_run :: "('a \<Rightarrow> 'b) \<Rightarrow> 'a run \<Rightarrow> 'b run" where
  "map_run f r = bind_run r (\<lambda>x. Ret (f x))"

lemma map_run_Panic [simp]: "map_run f r = Panic \<longleftrightarrow> r = Panic"
  by (cases r) (simp_all add: map_run_def)

subsection \<open>First and last position\<close>

primrec position :: "('a \<Rightarrow> bool) \<Rightarrow> 'a list \<Rightarrow> nat option" where
  "position p [] = None"
| "position p (x # xs) = (if p x then Some 0 else map_option Suc (position p xs))"

definition rposition :: "('a \<Rightarrow> bool) \<Rightarrow> 'a list \<Rightarrow> nat option" where
  "rposition p xs = map_option (\<lambda>i. length xs - Suc i) (position p (rev xs))"

lemma position_None_iff [search_simps]: "position p xs = None \<longleftrightarrow> (\<forall>x \<in> set xs. \<not> p x)"
  by (induction xs) auto

lemma position_Some_iff:
  "position p xs = Some i \<longleftrightarrow> i < length xs \<and> p (xs ! i) \<and> (\<forall>j < i. \<not> p (xs ! j))"
proof (induction xs arbitrary: i)
  case Nil
  then show ?case by simp
next
  case (Cons x xs)
  show ?case
    by (cases i) (auto simp: Cons.IH less_Suc_eq_0_disj)
qed

lemma rposition_None_iff [search_simps]: "rposition p xs = None \<longleftrightarrow> (\<forall>x \<in> set xs. \<not> p x)"
  by (simp add: rposition_def position_None_iff)

lemma rposition_SomeD:
  assumes "rposition p xs = Some i"
  shows "i < length xs" "p (xs ! i)" "\<And>j. i < j \<Longrightarrow> j < length xs \<Longrightarrow> \<not> p (xs ! j)"
proof -
  obtain k where k: "position p (rev xs) = Some k" and i: "i = length xs - Suc k"
    using assms by (auto simp: rposition_def)
  from k have kl: "k < length xs" and pk: "p (rev xs ! k)"
    and min: "\<And>j. j < k \<Longrightarrow> \<not> p (rev xs ! j)"
    by (auto simp: position_Some_iff)
  from kl i show il: "i < length xs" by simp
  from pk kl i show "p (xs ! i)" by (simp add: rev_nth)
  fix j assume "i < j" "j < length xs"
  then have "length xs - Suc j < k" "rev xs ! (length xs - Suc j) = xs ! j"
    using i kl by (auto simp: rev_nth)
  with min show "\<not> p (xs ! j)" by metis
qed

lemma rposition_last:
  assumes "p x" "\<forall>y \<in> set ys. \<not> p y"
  shows "rposition p (xs @ x # ys) = Some (length xs)"
proof -
  have "position p (rev ys @ x # zs) = Some (length ys)" for zs
    by (simp add: position_Some_iff nth_append assms)
      (use assms(2) in \<open>metis length_rev nth_mem set_rev\<close>)
  then show ?thesis by (simp add: rposition_def)
qed

subsection \<open>The first alternative that answers\<close>

primrec first_some :: "('a \<Rightarrow> 'b option) \<Rightarrow> 'a list \<Rightarrow> 'b option" where
  "first_some f [] = None"
| "first_some f (x # xs) = (case f x of Some y \<Rightarrow> Some y | None \<Rightarrow> first_some f xs)"

lemma first_some_None_iff: "first_some f xs = None \<longleftrightarrow> (\<forall>x \<in> set xs. f x = None)"
  by (induction xs) (auto split: option.splits)

lemma first_some_SomeD: "first_some f xs = Some y \<Longrightarrow> \<exists>x \<in> set xs. f x = Some y"
  by (induction xs) (auto split: option.splits)

definition or_else :: "'a option \<Rightarrow> 'a option \<Rightarrow> 'a option" where
  "or_else a b = (case a of Some x \<Rightarrow> Some x | None \<Rightarrow> b)"

lemma or_else_simps [simp]: "or_else (Some x) b = Some x" "or_else None b = b"
  by (simp_all add: or_else_def)

lemma or_else_Some_right: "or_else a (Some x) \<noteq> None"
  by (cases a) simp_all

subsection \<open>Substring search\<close>

text \<open>\<open>str_find pat s\<close> is Rust's \<open>s.find(pat)\<close>: the first offset at which \<open>pat\<close> starts.\<close>

primrec str_find :: "'a list \<Rightarrow> 'a list \<Rightarrow> nat option" where
  "str_find pat [] = (if pat = [] then Some 0 else None)"
| "str_find pat (c # cs) =
     (if prefix pat (c # cs) then Some 0 else map_option Suc (str_find pat cs))"

definition contains :: "'a list \<Rightarrow> 'a list \<Rightarrow> bool" where
  "contains s pat \<longleftrightarrow> str_find pat s \<noteq> None"

definition strip_prefix :: "'a list \<Rightarrow> 'a list \<Rightarrow> 'a list option" where
  "strip_prefix pat s = (if prefix pat s then Some (drop (length pat) s) else None)"

lemma str_find_SomeD:
  "str_find pat s = Some i \<Longrightarrow> i + length pat \<le> length s \<and> prefix pat (drop i s)"
proof (induction s arbitrary: i)
  case Nil
  then show ?case by (simp split: if_splits)
next
  case (Cons c cs)
  show ?case
  proof (cases "prefix pat (c # cs)")
    case True
    with Cons.prems show ?thesis by (auto dest: prefix_length_le)
  next
    case False
    with Cons.prems obtain k where "str_find pat cs = Some k" "i = Suc k" by auto
    with Cons.IH show ?thesis by simp
  qed
qed

lemma str_find_first: "str_find pat s = Some i \<Longrightarrow> j < i \<Longrightarrow> \<not> prefix pat (drop j s)"
proof (induction s arbitrary: i j)
  case Nil
  then show ?case by (simp split: if_splits)
next
  case (Cons c cs)
  show ?case
  proof (cases "prefix pat (c # cs)")
    case True
    with Cons.prems show ?thesis by simp
  next
    case False
    with Cons.prems obtain k where k: "str_find pat cs = Some k" "i = Suc k" by auto
    with Cons False show ?thesis by (cases j) auto
  qed
qed

lemma contains_sublist [search_simps]: "contains s pat \<longleftrightarrow> sublist pat s"
proof (induction s)
  case Nil
  then show ?case by (simp add: contains_def)
next
  case (Cons c cs)
  then show ?case by (auto simp: contains_def sublist_Cons_right)
qed

lemma contains_append_left: "contains b pat \<Longrightarrow> contains (a @ b) pat"
  by (auto simp: contains_sublist sublist_append)

lemma contains_append_right: "contains a pat \<Longrightarrow> contains (a @ b) pat"
  by (auto simp: contains_sublist sublist_append)

lemma contains_refl [simp]: "contains s s"
  by (simp add: contains_sublist)

subsection \<open>ASCII case and decimal numbers\<close>

text \<open>\<open>to_ascii_lowercase\<close>; \<open>to_lowercase\<close> agrees with it on the ASCII identifiers it is
  applied to (vendor ids, function names, yes/no words).\<close>

definition lower_char :: "char \<Rightarrow> char" where
  "lower_char c =
     (let n = (of_char c :: nat) in if 65 \<le> n \<and> n \<le> 90 then char_of (n + 32) else c)"

definition to_ascii_lowercase :: "string \<Rightarrow> string" where
  "to_ascii_lowercase = map lower_char"

definition is_digit :: "char \<Rightarrow> bool" where
  "is_digit c \<longleftrightarrow> (let n = (of_char c :: nat) in 48 \<le> n \<and> n \<le> 57)"

definition digit_val :: "char \<Rightarrow> nat" where
  "digit_val c = of_char c - 48"

definition digit_char :: "nat \<Rightarrow> char" where
  "digit_char d = char_of (48 + d)"

lemma of_char_digit_char: "d < 10 \<Longrightarrow> (of_char (digit_char d) :: nat) = 48 + d"
  by (simp add: digit_char_def)

lemma digit_char_simps: "d < 10 \<Longrightarrow> is_digit (digit_char d)" "d < 10 \<Longrightarrow> digit_val (digit_char d) = d"
  by (simp_all add: is_digit_def digit_val_def of_char_digit_char Let_def)

fun show_nat :: "nat \<Rightarrow> string" where
  "show_nat n = (if n < 10 then [digit_char n] else show_nat (n div 10) @ [digit_char (n mod 10)])"

declare show_nat.simps [simp del]

definition digits_val :: "string \<Rightarrow> nat" where
  "digits_val = foldl (\<lambda>a c. 10 * a + digit_val c) 0"

text \<open>Rust's \<open>str::parse\<close> for an unsigned \<open>w\<close>-bit integer: an optional leading \<open>+\<close>, at
  least one digit, digits only, and no overflow.\<close>

definition parse_uint :: "nat \<Rightarrow> string \<Rightarrow> nat option" where
  "parse_uint w s =
     (let ds = (case s of [] \<Rightarrow> [] | c # r \<Rightarrow> if c = CHR ''+'' then r else s)
      in if ds = [] \<or> \<not> list_all is_digit ds then None
         else if digits_val ds < 2 ^ w then Some (digits_val ds) else None)"

lemma show_nat_digits:
  "list_all is_digit (show_nat n)" "digits_val (show_nat n) = n" "show_nat n \<noteq> []"
proof (induction n rule: show_nat.induct)
  case (1 n)
  { case 1 then show ?case
      using "1.IH"(1) by (subst show_nat.simps) (simp add: digit_char_simps) }
  { case 2 then show ?case
      using "1.IH"(2) by (subst show_nat.simps) (simp add: digits_val_def digit_char_simps) }
  { case 3 then show ?case by (subst show_nat.simps) simp }
qed

lemma parse_show_nat: "n < 2 ^ w \<Longrightarrow> parse_uint w (show_nat n) = Some n"
proof -
  assume n: "n < 2 ^ w"
  obtain c r where cr: "show_nat n = c # r" using show_nat_digits(3) by (cases "show_nat n") auto
  have "is_digit c" using show_nat_digits(1) [of n] cr by simp
  then have "c \<noteq> CHR ''+''" by (auto simp: is_digit_def)
  with cr n show_nat_digits [of n] show ?thesis by (simp add: parse_uint_def)
qed

lemma parse_uint_bound: "parse_uint w s = Some n \<Longrightarrow> n < 2 ^ w"
  by (auto simp: parse_uint_def Let_def split: if_splits)

subsection \<open>Durations and instants\<close>

text \<open>A \<open>Duration\<close> is a number of nanoseconds.  An \<open>Instant\<close> is the nanoseconds of the
  monotonic clock, which Linux keeps in a signed 64-bit second count: \<open>Instant + Duration\<close>
  panics when the sum leaves it, which is \<open>None\<close> here.\<close>

definition from_secs :: "nat \<Rightarrow> nat" where [time_simps]: "from_secs s = s * 1000000000"
definition from_millis :: "nat \<Rightarrow> nat" where [time_simps]: "from_millis ms = ms * 1000000"
definition as_secs :: "nat \<Rightarrow> nat" where [time_simps]: "as_secs d = d div 1000000000"

definition instant_add :: "nat \<Rightarrow> nat \<Rightarrow> nat option" where
  "instant_add t d = (if as_secs (t + d) < 2 ^ 63 then Some (t + d) else None)"

lemma as_secs_from_secs [simp]: "as_secs (from_secs s) = s"
  by (simp add: time_simps)

lemma from_secs_mono [simp]: "from_secs a \<le> from_secs b \<longleftrightarrow> a \<le> b" "from_secs a < from_secs b \<longleftrightarrow> a < b"
  by (simp_all add: time_simps)

lemma instant_add_SomeD: "instant_add t d = Some u \<Longrightarrow> u = t + d"
  by (simp add: instant_add_def split: if_splits)

lemma instant_add_ok: "t + d < from_secs (2 ^ 63) \<Longrightarrow> instant_add t d = Some (t + d)"
  unfolding instant_add_def as_secs_def from_secs_def by (simp add: less_mult_imp_div_less)

text \<open>A cooldown that a deadline \<open>now + d\<close> with \<open>d\<close> of \<open>u64::MAX\<close> seconds never fits.\<close>

lemma instant_add_overflow: "2 ^ 63 \<le> s \<Longrightarrow> instant_add t (from_secs s) = None"
proof -
  assume "2 ^ 63 \<le> s"
  then have "(2::nat) ^ 63 * 1000000000 \<le> t + s * 1000000000" by simp
  then have "2 ^ 63 \<le> (t + s * 1000000000) div 1000000000"
    by (metis div_le_mono nonzero_mult_div_cancel_right zero_neq_numeral)
  then show ?thesis by (simp add: instant_add_def as_secs_def from_secs_def)
qed

end
