(* ===== verification/Error_Class.thy ===== *)
theory Error_Class
  imports Prelude
begin

text \<open>
  \<open>providers/error_class.rs\<close>: the classification of a failed provider call by HTTP status,
  vendor business code and message body into a category, and the recovery flags every
  consumer (fallback chain, search cooldown, agent retry) reads.  JSON and RFC 3339 parsing
  (serde\_json, chrono) are the record \<open>json_lib\<close>, an argument; \<open>now\<close> is the wall clock
  since the epoch, \<open>None\<close> when the clock stands before it.
\<close>

subsection \<open>Data\<close>

datatype error_category =
    CAuth | CAuthPermanent | CBilling | CRateLimit | COverloaded | CServerError | CTimeout
  | CModelNotFound | CContextOverflow | CPayloadTooLarge | CFormatError | CContentPolicy
  | CToolCallLost

datatype failover_reason =
    FAuth | FAuthPermanent | FBilling | FRateLimit | FOverloaded | FServerError | FTimeout
  | FContextOverflow | FPayloadTooLarge | FModelNotFound | FFormatError | FContentPolicy
  | FToolCallLost | FUnknown

fun category_name :: "error_category \<Rightarrow> string" where
  "category_name CAuth = ''Auth''"
| "category_name CAuthPermanent = ''AuthPermanent''"
| "category_name CBilling = ''Billing''"
| "category_name CRateLimit = ''RateLimit''"
| "category_name COverloaded = ''Overloaded''"
| "category_name CServerError = ''ServerError''"
| "category_name CTimeout = ''Timeout''"
| "category_name CModelNotFound = ''ModelNotFound''"
| "category_name CContextOverflow = ''ContextOverflow''"
| "category_name CPayloadTooLarge = ''PayloadTooLarge''"
| "category_name CFormatError = ''FormatError''"
| "category_name CContentPolicy = ''ContentPolicy''"
| "category_name CToolCallLost = ''ToolCallLost''"

fun reason_of :: "error_category \<Rightarrow> failover_reason" where
  "reason_of CAuth = FAuth"
| "reason_of CAuthPermanent = FAuthPermanent"
| "reason_of CBilling = FBilling"
| "reason_of CRateLimit = FRateLimit"
| "reason_of COverloaded = FOverloaded"
| "reason_of CServerError = FServerError"
| "reason_of CTimeout = FTimeout"
| "reason_of CContextOverflow = FContextOverflow"
| "reason_of CPayloadTooLarge = FPayloadTooLarge"
| "reason_of CModelNotFound = FModelNotFound"
| "reason_of CFormatError = FFormatError"
| "reason_of CContentPolicy = FContentPolicy"
| "reason_of CToolCallLost = FToolCallLost"

fun category_of :: "failover_reason \<Rightarrow> error_category" where
  "category_of FAuth = CAuth"
| "category_of FAuthPermanent = CAuthPermanent"
| "category_of FBilling = CBilling"
| "category_of FRateLimit = CRateLimit"
| "category_of FOverloaded = COverloaded"
| "category_of FServerError = CServerError"
| "category_of FTimeout = CTimeout"
| "category_of FContextOverflow = CContextOverflow"
| "category_of FPayloadTooLarge = CPayloadTooLarge"
| "category_of FModelNotFound = CModelNotFound"
| "category_of FFormatError = CFormatError"
| "category_of FContentPolicy = CContentPolicy"
| "category_of FToolCallLost = CToolCallLost"
| "category_of FUnknown = CServerError"

record recovery_hints =
  rh_retry :: bool
  rh_cooldown :: "nat option"
  rh_report :: bool

record classified_error =
  category :: error_category
  reason :: failover_reason
  status_code :: "nat option"
  ce_provider :: "string option"
  ce_model :: "string option"
  message :: string
  retry_after :: "nat option"
  retryable :: bool
  should_compress :: bool
  should_rotate_credential :: bool
  should_fallback :: bool
  cooldown :: "nat option"

subsection \<open>Recovery hints and the assembly of a classified error\<close>

definition default_rate_limit_cooldown :: nat where
  "default_rate_limit_cooldown = from_secs 60"

definition long_cooldown_threshold :: nat where
  "long_cooldown_threshold = from_secs 60"

fun recovery_hints_for :: "error_category \<Rightarrow> nat option \<Rightarrow> recovery_hints" where
  "recovery_hints_for CAuth ra =
     \<lparr>rh_retry = False, rh_cooldown = Some (from_secs 1800), rh_report = False\<rparr>"
| "recovery_hints_for CAuthPermanent ra =
     \<lparr>rh_retry = False, rh_cooldown = Some (from_secs (86400 * 7)), rh_report = True\<rparr>"
| "recovery_hints_for CBilling ra =
     \<lparr>rh_retry = False, rh_cooldown = or_else ra (Some (from_secs (5 * 3600))), rh_report = True\<rparr>"
| "recovery_hints_for CRateLimit ra =
     \<lparr>rh_retry = True, rh_cooldown = or_else ra (Some default_rate_limit_cooldown), rh_report = False\<rparr>"
| "recovery_hints_for COverloaded ra =
     \<lparr>rh_retry = True, rh_cooldown = or_else ra (Some (from_secs 30)), rh_report = False\<rparr>"
| "recovery_hints_for CServerError ra =
     \<lparr>rh_retry = True, rh_cooldown = or_else ra (Some (from_secs 300)), rh_report = False\<rparr>"
| "recovery_hints_for CTimeout ra =
     \<lparr>rh_retry = True, rh_cooldown = or_else ra (Some (from_secs 120)), rh_report = False\<rparr>"
| "recovery_hints_for CContextOverflow ra =
     \<lparr>rh_retry = False, rh_cooldown = None, rh_report = True\<rparr>"
| "recovery_hints_for CPayloadTooLarge ra =
     \<lparr>rh_retry = False, rh_cooldown = None, rh_report = True\<rparr>"
| "recovery_hints_for CModelNotFound ra =
     \<lparr>rh_retry = False, rh_cooldown = None, rh_report = False\<rparr>"
| "recovery_hints_for CFormatError ra =
     \<lparr>rh_retry = False, rh_cooldown = None, rh_report = True\<rparr>"
| "recovery_hints_for CContentPolicy ra =
     \<lparr>rh_retry = True, rh_cooldown = None, rh_report = True\<rparr>"
| "recovery_hints_for CToolCallLost ra =
     \<lparr>rh_retry = False, rh_cooldown = None, rh_report = True\<rparr>"

definition from_parts ::
  "error_category \<Rightarrow> nat \<Rightarrow> string \<Rightarrow> string \<Rightarrow> nat option \<Rightarrow> classified_error" where
  "from_parts cat status provider msg ra =
     (let hints = recovery_hints_for cat ra in
      \<lparr>category = cat,
       reason = reason_of cat,
       status_code = (if status > 0 then Some status else None),
       ce_provider = (if provider = [] then None else Some provider),
       ce_model = None,
       message = msg,
       retry_after = ra,
       retryable = rh_retry hints,
       should_compress = (cat = CContextOverflow \<or> cat = CPayloadTooLarge),
       should_rotate_credential = (cat = CAuth \<or> cat = CBilling \<or> cat = CRateLimit),
       should_fallback =
         (cat = CAuth \<or> cat = CAuthPermanent \<or> cat = CBilling \<or> cat = CRateLimit
          \<or> cat = CModelNotFound \<or> cat = COverloaded \<or> cat = CServerError
          \<or> cat = CTimeout \<or> cat = CContentPolicy),
       cooldown = rh_cooldown hints\<rparr>)"

subsection \<open>Layer 1 (HTTP status) and layer 2 (vendor codes)\<close>

definition classify_http :: "nat \<Rightarrow> error_category option" where
  "classify_http status =
     (if status = 401 \<or> status = 403 then Some CAuth
      else if status = 404 then Some CModelNotFound
      else if status = 413 then Some CPayloadTooLarge
      else if status = 500 \<or> status = 502 then Some CServerError
      else if status = 503 \<or> status = 529 then Some COverloaded
      else if status = 504 then Some CTimeout
      else None)"

definition is_billing_quota_body :: "string \<Rightarrow> bool" where
  "is_billing_quota_body bl \<longleftrightarrow>
     contains bl ''usage_limit_reached'' \<or> contains bl ''insufficient_quota''
     \<or> contains bl ''quota_exceeded'' \<or> contains bl ''billing_not_active''
     \<or> contains bl ''exceeded_current_quota''"

definition is_content_policy_body :: "string \<Rightarrow> bool" where
  "is_content_policy_body bl \<longleftrightarrow>
     contains bl ''data_inspection_failed'' \<or> contains bl ''content_policy_violation''
     \<or> contains bl ''content_filter''"

definition body_contains_code :: "string \<Rightarrow> nat \<Rightarrow> bool" where
  "body_contains_code body code \<longleftrightarrow>
     contains body (CHR 0x22 # ''code'' @ CHR 0x22 # '':'' @ show_nat code)
     \<or> contains body (CHR 0x22 # ''code'' @ CHR 0x22 # '': '' @ show_nat code)
     \<or> contains body (CHR 0x22 # ''code'' @ CHR 0x22 # '':'' @ CHR 0x22 # show_nat code @ [CHR 0x22])"

definition classify_provider :: "string \<Rightarrow> nat \<Rightarrow> string \<Rightarrow> error_category option" where
  "classify_provider provider status body =
     (let lp = to_ascii_lowercase provider; bl = to_ascii_lowercase body;
          glm = (contains lp ''glm'' \<or> contains lp ''zhipu'')
      in if status = 429 then
           (if is_billing_quota_body bl then Some CBilling
            else if glm \<and> (body_contains_code body 1305 \<or> body_contains_code body 1312)
              then Some COverloaded
            else if glm \<and> (body_contains_code body 1308 \<or> body_contains_code body 1309)
              then Some CBilling
            else if contains lp ''openai'' \<and> contains bl ''insufficient_quota'' then Some CBilling
            else None)
         else if status = 400 then
           (if glm \<and> body_contains_code body 1261 then Some CContextOverflow
            else if contains body ''context_length_exceeded'' then Some CContextOverflow
            else if is_content_policy_body bl then Some CContentPolicy
            else None)
         else None)"

subsection \<open>Retry-after extraction\<close>

record 'j json_lib =
  json_from_str :: "string \<Rightarrow> 'j option"
  json_get :: "'j \<Rightarrow> string \<Rightarrow> 'j option"
  json_as_u64 :: "'j \<Rightarrow> nat option"
  json_as_f64 :: "'j \<Rightarrow> rat option"
  json_as_str :: "'j \<Rightarrow> string option"
  rfc3339_timestamp :: "string \<Rightarrow> int option"

text \<open>\<open>f as u64\<close> for a finite double: truncation towards zero, saturating at both ends.\<close>

definition f64_as_u64 :: "rat \<Rightarrow> nat" where
  "f64_as_u64 f = min (nat \<lfloor>max 0 f\<rfloor>) (2 ^ 64 - 1)"

definition json_number_u64 :: "'j json_lib \<Rightarrow> 'j \<Rightarrow> nat option" where
  "json_number_u64 J v = or_else (json_as_u64 J v) (map_option f64_as_u64 (json_as_f64 J v))"

definition json_get_seconds :: "'j json_lib \<Rightarrow> 'j \<Rightarrow> string \<Rightarrow> nat option" where
  "json_get_seconds J json key =
     Option.bind (json_get J json key) (\<lambda>val.
     Option.bind (json_number_u64 J val) (\<lambda>secs.
       if secs > 0 then Some (from_secs secs) else None))"

definition reset_duration :: "nat \<Rightarrow> nat" where
  "reset_duration n = (if n > 1000000000000 then from_millis n else from_secs n)"

definition remaining_until :: "nat \<Rightarrow> nat \<Rightarrow> nat option" where
  "remaining_until reset now =
     (if reset < now then None else if reset - now = 0 then None else Some (reset - now))"

definition json_get_reset_at ::
  "'j json_lib \<Rightarrow> nat option \<Rightarrow> 'j \<Rightarrow> string \<Rightarrow> nat option" where
  "json_get_reset_at J unix_now json key =
     Option.bind (json_get J json key) (\<lambda>val.
     Option.bind unix_now (\<lambda>now.
       case json_number_u64 J val of
         Some n \<Rightarrow> remaining_until (reset_duration n) now
       | None \<Rightarrow>
           (case json_as_str J val of
              None \<Rightarrow> None
            | Some s \<Rightarrow>
                (case parse_uint 64 s of
                   Some n \<Rightarrow> remaining_until (reset_duration n) now
                 | None \<Rightarrow>
                     (case rfc3339_timestamp J s of
                        None \<Rightarrow> None
                      | Some ts \<Rightarrow> remaining_until (from_secs (nat (max ts 0))) now)))))"

definition extract_retry_after_from_value ::
  "'j json_lib \<Rightarrow> nat option \<Rightarrow> 'j \<Rightarrow> nat option" where
  "extract_retry_after_from_value J unix_now json =
     or_else
       (first_some (json_get_seconds J json)
          [''retry_after'', ''retry-after'', ''resets_in_seconds'', ''resets_in'',
           ''reset_after'', ''reset_in_seconds''])
       (first_some (json_get_reset_at J unix_now json)
          [''reset_at'', ''resets_at'', ''resetAt'', ''resetsAt''])"

definition extract_retry_after :: "'j json_lib \<Rightarrow> nat option \<Rightarrow> string \<Rightarrow> nat option" where
  "extract_retry_after J unix_now body =
     (if body = [] then None
      else case json_from_str J body of
             None \<Rightarrow> None
           | Some json \<Rightarrow>
               or_else (extract_retry_after_from_value J unix_now json)
                 (Option.bind (json_get J json ''error'')
                    (extract_retry_after_from_value J unix_now)))"

subsection \<open>The classification pipeline\<close>

definition tool_call_parse_loss_tag :: string where
  "tool_call_parse_loss_tag = ''tool_call_parse_loss''"

definition classify_category :: "string \<Rightarrow> nat \<Rightarrow> string \<Rightarrow> error_category" where
  "classify_category provider status body =
     (case classify_http status of
        Some cat \<Rightarrow> cat
      | None \<Rightarrow>
          if status = 0 then CTimeout
          else (case classify_provider provider status body of
                  Some cat \<Rightarrow> cat
                | None \<Rightarrow> if status = 400 then CFormatError else CRateLimit))"

definition classify ::
  "'j json_lib \<Rightarrow> nat option \<Rightarrow> string \<Rightarrow> nat \<Rightarrow> string \<Rightarrow> classified_error" where
  "classify J unix_now provider status body =
     (if status = 0 \<and> contains body tool_call_parse_loss_tag
      then from_parts CToolCallLost status provider body None
      else from_parts (classify_category provider status body) status provider
             (if body \<noteq> [] then body else ''HTTP '' @ show_nat status)
             (extract_retry_after J unix_now body))"

definition new_error :: "failover_reason \<Rightarrow> string \<Rightarrow> classified_error" where
  "new_error r msg = from_parts (category_of r) 0 [] msg None"

definition from_http ::
  "'j json_lib \<Rightarrow> nat option \<Rightarrow> nat \<Rightarrow> string option \<Rightarrow> classified_error" where
  "from_http J unix_now status msg =
     classify J unix_now [] status (case msg of None \<Rightarrow> [] | Some m \<Rightarrow> m)"

definition from_message :: "'j json_lib \<Rightarrow> nat option \<Rightarrow> string \<Rightarrow> classified_error" where
  "from_message J unix_now msg = classify J unix_now [] 0 msg"

definition with_provider :: "classified_error \<Rightarrow> string \<Rightarrow> string \<Rightarrow> classified_error" where
  "with_provider c provider model = c\<lparr>ce_provider := Some provider, ce_model := Some model\<rparr>"

definition is_auth :: "classified_error \<Rightarrow> bool" where
  "is_auth c \<longleftrightarrow> category c = CAuth \<or> category c = CAuthPermanent"

definition cooldown_duration :: "classified_error \<Rightarrow> nat option" where
  "cooldown_duration c = cooldown c"

definition is_long_cooldown :: "classified_error \<Rightarrow> bool" where
  "is_long_cooldown c =
     (case cooldown_duration c of None \<Rightarrow> False | Some d \<Rightarrow> d > long_cooldown_threshold)"

definition should_same_model_retry :: "classified_error \<Rightarrow> bool" where
  "should_same_model_retry c =
     (case category c of
        COverloaded \<Rightarrow> True | CServerError \<Rightarrow> True | CTimeout \<Rightarrow> True
      | CRateLimit \<Rightarrow> \<not> is_long_cooldown c
      | _ \<Rightarrow> False)"

definition recovery_hints :: "classified_error \<Rightarrow> recovery_hints" where
  "recovery_hints c = recovery_hints_for (category c) (retry_after c)"

definition should_report :: "classified_error \<Rightarrow> bool" where
  "should_report c = rh_report (recovery_hints c)"

text \<open>\<open>format_cooldown_zh\<close>: the number and the unit of the Chinese message; \<open>div_ceil\<close> rounds up.\<close>

datatype zh_unit = ZhSeconds | ZhAboutMinutes | ZhAboutHours | ZhAboutDays

definition div_ceil :: "nat \<Rightarrow> nat \<Rightarrow> nat" where
  "div_ceil a b = a div b + (if a mod b > 0 then 1 else 0)"

definition format_cooldown_zh :: "nat \<Rightarrow> nat \<times> zh_unit" where
  "format_cooldown_zh d =
     (let secs = as_secs d in
      if secs < 60 then (secs, ZhSeconds)
      else if secs < 3600 then (div_ceil secs 60, ZhAboutMinutes)
      else if secs < 86400 * 2 then (div_ceil secs 3600, ZhAboutHours)
      else (div_ceil secs 86400, ZhAboutDays))"

subsection \<open>Coherence of the recovery flags\<close>

text \<open>What every error built by \<open>from_parts\<close> satisfies, whatever its parts: the flags follow
  from the category, and the hints recomputed from it are the ones stored in it.\<close>

definition coherent :: "classified_error \<Rightarrow> bool" where
  "coherent c \<longleftrightarrow>
     recovery_hints c = \<lparr>rh_retry = retryable c, rh_cooldown = cooldown c, rh_report = should_report c\<rparr>
     \<and> reason c = reason_of (category c)
     \<and> (should_rotate_credential c \<longrightarrow> should_fallback c \<and> cooldown c \<noteq> None)
     \<and> (retryable c \<longrightarrow> should_fallback c)
     \<and> (should_compress c \<longrightarrow> \<not> should_fallback c \<and> \<not> retryable c \<and> cooldown c = None)
     \<and> (should_same_model_retry c \<longrightarrow> retryable c \<and> cooldown c \<noteq> None)"

lemma from_parts_fields [simp]:
  "category (from_parts cat st p m ra) = cat"
  "reason (from_parts cat st p m ra) = reason_of cat"
  "message (from_parts cat st p m ra) = m"
  "retry_after (from_parts cat st p m ra) = ra"
  "cooldown (from_parts cat st p m ra) = rh_cooldown (recovery_hints_for cat ra)"
  "retryable (from_parts cat st p m ra) = rh_retry (recovery_hints_for cat ra)"
  by (simp_all add: from_parts_def Let_def)

lemma rotates_iff:
  "should_rotate_credential (from_parts cat st p m ra) \<longleftrightarrow> cat \<in> {CAuth, CBilling, CRateLimit}"
  by (simp add: from_parts_def Let_def)

lemma coherent_from_parts: "coherent (from_parts cat st p m ra)"
  by (cases cat)
    (simp_all add: coherent_def from_parts_def Let_def recovery_hints_def should_report_def
      should_same_model_retry_def or_else_Some_right)

lemma with_provider_fields [simp]:
  "category (with_provider c p m) = category c" "cooldown (with_provider c p m) = cooldown c"
  "reason (with_provider c p m) = reason c" "retryable (with_provider c p m) = retryable c"
  "should_rotate_credential (with_provider c p m) = should_rotate_credential c"
  "should_fallback (with_provider c p m) = should_fallback c"
  "should_compress (with_provider c p m) = should_compress c"
  "retry_after (with_provider c p m) = retry_after c"
  "message (with_provider c p m) = message c"
  by (simp_all add: with_provider_def)

lemma with_provider_derived [simp]:
  "is_long_cooldown (with_provider c p m) = is_long_cooldown c"
  "should_same_model_retry (with_provider c p m) = should_same_model_retry c"
  "recovery_hints (with_provider c p m) = recovery_hints c"
  by (simp_all add: is_long_cooldown_def cooldown_duration_def should_same_model_retry_def
      recovery_hints_def split: error_category.split)

lemma coherent_with_provider [simp]: "coherent (with_provider c p m) = coherent c"
  by (simp add: coherent_def should_report_def)

lemma coherent_classify: "coherent (classify J now p st b)"
  by (simp add: classify_def coherent_from_parts)

lemma category_classify:
  "category (classify J now p st b) =
     (if st = 0 \<and> contains b tool_call_parse_loss_tag then CToolCallLost
      else classify_category p st b)"
  by (simp add: classify_def)

lemma coherentD:
  assumes "coherent c"
  shows "should_rotate_credential c \<Longrightarrow> should_fallback c"
    "should_rotate_credential c \<Longrightarrow> cooldown c \<noteq> None"
    "retryable c \<Longrightarrow> should_fallback c"
    "should_same_model_retry c \<Longrightarrow> should_fallback c"
    "rh_retry (recovery_hints c) = retryable c"
  using assms by (auto simp: coherent_def)

text \<open>Every error the classifier produces is coherent: an error that rotates a credential
  carries a cooldown and may fail over, one worth retrying on the same model is retryable and
  may fail over, one that asks for compression is never retried or failed over, and the stored
  flags are the ones \<open>recovery_hints\<close> recomputes.  The same holds for an error built from a
  failover reason.\<close>

theorem classified_errors_coherent:
  "coherent (classify J now p st b) \<and> coherent (new_error r msg)"
  by (simp add: coherent_classify new_error_def coherent_from_parts)

text \<open>A failure that carries no HTTP status (status 0: setup error or stream error) is a
  Timeout, or ToolCallLost when the body carries the parse-loss tag; so it never rotates a
  credential, the claim the fallback chain relies on where it omits the rotation step.\<close>

theorem status_zero_never_rotates:
  "category (classify J now p 0 b) =
     (if contains b tool_call_parse_loss_tag then CToolCallLost else CTimeout)
   \<and> \<not> should_rotate_credential (classify J now p 0 b)"
  by (simp add: classify_def classify_category_def classify_http_def rotates_iff)

lemma classify_provider_only_400_429: "st \<noteq> 400 \<Longrightarrow> st \<noteq> 429 \<Longrightarrow> classify_provider p st b = None"
  by (simp add: classify_provider_def Let_def)

text \<open>The provider id and the body refine the category for the statuses 400 and 429 only:
  for any other status two failures with the same status get the same category.\<close>

theorem body_refines_only_400_429:
  assumes "st \<noteq> 400" "st \<noteq> 429"
  shows "classify_category p st b = classify_category p' st b'"
  using assms by (simp add: classify_category_def classify_provider_only_400_429 split: option.split)

theorem body_refines_only_400_429_witness:
  "classify_category ''glm'' 503 ''usage_limit_reached'' = classify_category [] 503 []
   \<and> classify_category ''glm'' 429 ''usage_limit_reached'' \<noteq> classify_category [] 429 []"
proof
  show "classify_category ''glm'' 503 ''usage_limit_reached'' = classify_category [] 503 []"
    by (rule body_refines_only_400_429) simp_all
  show "classify_category ''glm'' 429 ''usage_limit_reached'' \<noteq> classify_category [] 429 []"
    by code_simp
qed

lemma retry_after_cooldown:
  "cat \<in> {CBilling, CRateLimit, COverloaded, CServerError, CTimeout} \<Longrightarrow>
   rh_cooldown (recovery_hints_for cat (Some d)) = Some d"
  by auto

lemma extract_retry_after_top_level:
  assumes "body \<noteq> []" "json_from_str J body = Some j" "json_get J j ''retry_after'' = Some v"
    "json_as_u64 J v = Some n" "0 < n"
  shows "extract_retry_after J now body = Some (from_secs n)"
  using assms
  by (simp add: extract_retry_after_def extract_retry_after_from_value_def json_get_seconds_def
      json_number_u64_def)

text \<open>A numeric top-level \<open>retry_after\<close> of the body decides the cooldown: whatever the
  other fields of the body say, the error waits exactly that many seconds in every category
  that honours it (all those with a cooldown but the two authentication ones).\<close>

theorem retry_after_honoured:
  assumes "body \<noteq> []" "json_from_str J body = Some j" "json_get J j ''retry_after'' = Some v"
    "json_as_u64 J v = Some n" "0 < n"
    and "classify_category p st body \<in> {CBilling, CRateLimit, COverloaded, CServerError, CTimeout}"
    and "st \<noteq> 0"
  shows "cooldown_duration (classify J now p st body) = Some (from_secs n)"
  using assms extract_retry_after_top_level [OF assms(1-5)] retry_after_cooldown
  by (simp add: classify_def cooldown_duration_def)

definition sample_json :: "nat json_lib" where
  "sample_json = \<lparr>json_from_str = (\<lambda>s. Some 0),
     json_get = (\<lambda>j k. if j = 0 \<and> k = ''retry_after'' then Some 7 else None),
     json_as_u64 = (\<lambda>j. if j = 0 then None else Some j), json_as_f64 = (\<lambda>_. None),
     json_as_str = (\<lambda>_. None), rfc3339_timestamp = (\<lambda>_. None)\<rparr>"

theorem retry_after_honoured_witness:
  "cooldown_duration (classify sample_json None [] 503 ''x'') = Some (from_secs 7)"
proof -
  have "classify_category [] 503 ''x'' = COverloaded" by code_simp
  then show ?thesis
    by (intro retry_after_honoured [where j = 0 and v = 7]) (simp_all add: sample_json_def)
qed

lemma contains_mid: "contains (a @ pat @ b) pat"
  by (simp add: contains_append_left contains_append_right)

text \<open>\<open>body_contains_code\<close> finds the code \<open>n\<close> in any body with the field written
  without quotes, whatever follows the digits.  In particular a longer code that merely starts
  with the digits of \<open>n\<close> is taken for \<open>n\<close>: the body with code 13050 counts as code 1305.\<close>

theorem body_contains_code_prefix:
  "body_contains_code (pre @ CHR 0x22 # ''code'' @ CHR 0x22 # '':'' @ show_nat n @ suf) n
   \<and> body_contains_code (pre @ CHR 0x22 # ''code'' @ CHR 0x22 # '': '' @ show_nat n @ suf) n"
  using contains_mid [of pre "CHR 0x22 # ''code'' @ CHR 0x22 # '':'' @ show_nat n" suf]
    contains_mid [of pre "CHR 0x22 # ''code'' @ CHR 0x22 # '': '' @ show_nat n" suf]
  by (simp add: body_contains_code_def)

fun unit_secs :: "zh_unit \<Rightarrow> nat" where
  "unit_secs ZhSeconds = 1" | "unit_secs ZhAboutMinutes = 60"
| "unit_secs ZhAboutHours = 3600" | "unit_secs ZhAboutDays = 86400"

lemma div_ceil_bounds: "0 < b \<Longrightarrow> a \<le> div_ceil a b * b \<and> div_ceil a b * b < a + b"
proof -
  assume "0 < b"
  then have "a mod b < b" and eq: "a = b * (a div b) + a mod b" by simp_all
  then have "0 < a mod b \<longrightarrow> a \<le> b + b * (a div b) \<and> b * (a div b) < a"
    "a mod b = 0 \<longrightarrow> a \<le> b * (a div b) \<and> b * (a div b) < a + b"
    using \<open>0 < b\<close> by linarith+
  then show ?thesis by (simp add: div_ceil_def algebra_simps)
qed

lemma format_cooldown_never_understates:
  "case format_cooldown_zh d of (n, u) \<Rightarrow>
     as_secs d \<le> n * unit_secs u \<and> n * unit_secs u < as_secs d + unit_secs u"
  using div_ceil_bounds [of 60 "as_secs d"] div_ceil_bounds [of 3600 "as_secs d"]
    div_ceil_bounds [of 86400 "as_secs d"]
  by (simp add: format_cooldown_zh_def Let_def)

lemma new_error_reason: "r \<noteq> FUnknown \<Longrightarrow> reason (new_error r m) = r"
  by (cases r) (simp_all add: new_error_def)

end
