(* ===== verification/Credential_Pool.thy ===== *)
theory Credential_Pool
  imports Prelude
begin

text \<open>
  \<open>providers/credential_pool.rs\<close>: a pool of API keys with four rotation strategies and a
  cooldown per (key, scope).  The pool is the record behind the mutex of
  \<open>SharedCredentialPool\<close>; each of its methods is one function on it.  \<open>now\<close> is the value of
  \<open>Instant::now()\<close>, read once per operation; \<open>rand\<close> stands for \<open>rand::random_range(0..n)\<close>.
  An operation whose result is \<open>None :: pool option\<close> panics (an instant past the clock's range).
\<close>

subsection \<open>State\<close>

datatype rotation_strategy = FillFirst | RoundRobin | RandomKey | LeastUsed

record credential_entry =
  key :: string
  exhausted_until :: "string \<Rightarrow> nat option"
  last_used :: "nat option"
  use_count :: nat

record pool =
  entries :: "credential_entry list"
  strategy :: rotation_strategy
  provider_name :: string
  round_robin_idx :: "64 word"

definition new_entry :: "string \<Rightarrow> credential_entry" where
  "new_entry k = \<lparr>key = k, exhausted_until = (\<lambda>_. None), last_used = None, use_count = 0\<rparr>"

definition new_pool :: "string \<Rightarrow> string list \<Rightarrow> rotation_strategy \<Rightarrow> pool" where
  "new_pool name keys strat =
     \<lparr>entries = map new_entry keys, strategy = strat, provider_name = name, round_robin_idx = 0\<rparr>"

definition pool_len :: "pool \<Rightarrow> nat" where
  "pool_len p = length (entries p)"

subsection \<open>Operations\<close>

definition refresh_entry :: "nat \<Rightarrow> string \<Rightarrow> credential_entry \<Rightarrow> credential_entry" where
  "refresh_entry now scope e =
     (case exhausted_until e scope of
        Some until \<Rightarrow>
          if now \<ge> until then e\<lparr>exhausted_until := (exhausted_until e)(scope := None)\<rparr> else e
      | None \<Rightarrow> e)"

definition refresh :: "nat \<Rightarrow> string \<Rightarrow> pool \<Rightarrow> pool" where
  "refresh now scope p = p\<lparr>entries := map (refresh_entry now scope) (entries p)\<rparr>"

definition active_indices :: "string \<Rightarrow> pool \<Rightarrow> nat list" where
  "active_indices scope p =
     filter (\<lambda>i. exhausted_until (entries p ! i) scope = None) [0..<length (entries p)]"

text \<open>\<open>min_by_key\<close>: the first index with the least key.\<close>

primrec min_by_key :: "('a \<Rightarrow> nat) \<Rightarrow> 'a list \<Rightarrow> 'a option" where
  "min_by_key f [] = None"
| "min_by_key f (x # xs) =
     (case min_by_key f xs of None \<Rightarrow> Some x | Some y \<Rightarrow> if f x \<le> f y then Some x else Some y)"

definition select_index :: "(nat \<Rightarrow> nat) \<Rightarrow> pool \<Rightarrow> nat list \<Rightarrow> nat \<times> pool" where
  "select_index rand p active =
     (case strategy p of
        FillFirst \<Rightarrow> (active ! 0, p)
      | RoundRobin \<Rightarrow>
          (active ! (unat (round_robin_idx p) mod length active),
           p\<lparr>round_robin_idx := round_robin_idx p + 1\<rparr>)
      | RandomKey \<Rightarrow> (active ! rand (length active), p)
      | LeastUsed \<Rightarrow>
          (case min_by_key (\<lambda>i. use_count (entries p ! i)) active of None \<Rightarrow> 0 | Some i \<Rightarrow> i, p))"

definition next_credential ::
  "nat \<Rightarrow> (nat \<Rightarrow> nat) \<Rightarrow> string \<Rightarrow> pool \<Rightarrow> string option \<times> pool" where
  "next_credential now rand scope p =
     (let p1 = refresh now scope p; active = active_indices scope p1 in
      if active = [] then (None, p1)
      else let (i, p2) = select_index rand p1 active; e = entries p2 ! i in
           (Some (key e),
            p2\<lparr>entries := (entries p2)[i := e\<lparr>last_used := Some now, use_count := use_count e + 1\<rparr>]\<rparr>))"

primrec mark_entries ::
  "nat \<Rightarrow> string \<Rightarrow> string \<Rightarrow> credential_entry list \<Rightarrow> credential_entry list" where
  "mark_entries until k scope [] = []"
| "mark_entries until k scope (e # es) =
     (if key e = k then e\<lparr>exhausted_until := (exhausted_until e)(scope := Some until)\<rparr> # es
      else e # mark_entries until k scope es)"

definition mark_exhausted ::
  "nat \<Rightarrow> string \<Rightarrow> string \<Rightarrow> nat \<Rightarrow> pool \<Rightarrow> pool option" where
  "mark_exhausted now k scope d p =
     (if k \<notin> set (map key (entries p)) then Some p
      else map_option (\<lambda>until. p\<lparr>entries := mark_entries until k scope (entries p)\<rparr>)
             (instant_add now d))"

definition recovery_times :: "nat \<Rightarrow> string \<Rightarrow> pool \<Rightarrow> nat list" where
  "recovery_times now scope p =
     map (\<lambda>until. until - now)
       (filter (\<lambda>until. until > now)
          (List.map_filter (\<lambda>e. exhausted_until e scope) (entries p)))"

definition soonest_recovery :: "nat \<Rightarrow> string \<Rightarrow> pool \<Rightarrow> nat option" where
  "soonest_recovery now scope p = min_by_key (\<lambda>d. d) (recovery_times now scope p)"

text \<open>\<open>mask_key\<close> slices bytes: \<open>\<And>key[..4]\<close> panics (\<open>None\<close>) when offset 4, or the offset
  four bytes before the end, is inside a multi-byte character.\<close>

definition is_char_boundary :: "string \<Rightarrow> nat \<Rightarrow> bool" where
  "is_char_boundary s i \<longleftrightarrow>
     i = 0 \<or> i = length s \<or> (i < length s \<and> (of_char (s ! i) :: nat) div 64 \<noteq> 2)"

definition mask_key :: "string \<Rightarrow> string option" where
  "mask_key k =
     (if length k \<le> 8 then Some ''***''
      else if is_char_boundary k 4 \<and> is_char_boundary k (length k - 4)
        then Some (take 4 k @ ''...'' @ drop (length k - 4) k)
      else None)"

definition snapshot :: "nat \<Rightarrow> string \<Rightarrow> pool \<Rightarrow> (string option \<times> nat option) list" where
  "snapshot now scope p =
     map (\<lambda>e. (mask_key (key e),
               map_option (\<lambda>u. if u > now then u - now else 0) (exhausted_until e scope)))
       (entries p)"

subsection \<open>The contract the fallback chain relies on\<close>

text \<open>\<open>avail t sc p\<close>: the keys of the pool that are not cooling for scope \<open>sc\<close> at time \<open>t\<close>.\<close>

locale key_source =
  fixes nxt :: "nat \<Rightarrow> (nat \<Rightarrow> nat) \<Rightarrow> string \<Rightarrow> 'p \<Rightarrow> string option \<times> 'p"
    and mark :: "nat \<Rightarrow> string \<Rightarrow> string \<Rightarrow> nat \<Rightarrow> 'p \<Rightarrow> 'p option"
    and avail :: "nat \<Rightarrow> string \<Rightarrow> 'p \<Rightarrow> string set"
    and keys :: "'p \<Rightarrow> string list"
    and inv :: "'p \<Rightarrow> bool"
    and fair :: "(nat \<Rightarrow> nat) \<Rightarrow> bool"
  assumes nxt_None: "inv p \<Longrightarrow> fair r \<Longrightarrow> (fst (nxt now r sc p) = None) = (avail now sc p = {})"
    and nxt_Some: "inv p \<Longrightarrow> fair r \<Longrightarrow> fst (nxt now r sc p) = Some k \<Longrightarrow> k \<in> avail now sc p"
    and nxt_inv: "inv p \<Longrightarrow> fair r \<Longrightarrow> inv (snd (nxt now r sc p))"
    and nxt_keys: "inv p \<Longrightarrow> fair r \<Longrightarrow> keys (snd (nxt now r sc p)) = keys p"
    and nxt_avail: "inv p \<Longrightarrow> fair r \<Longrightarrow> now \<le> t \<Longrightarrow> avail t sc' (snd (nxt now r sc p)) = avail t sc' p"
    and mark_inv: "inv p \<Longrightarrow> mark now k sc d p = Some p' \<Longrightarrow> inv p'"
    and mark_keys: "inv p \<Longrightarrow> mark now k sc d p = Some p' \<Longrightarrow> keys p' = keys p"
    and mark_avail: "inv p \<Longrightarrow> mark now k sc d p = Some p' \<Longrightarrow> t < now + d \<Longrightarrow>
          avail t sc p' = avail t sc p - {k}"
    and mark_other_scope: "inv p \<Longrightarrow> mark now k sc d p = Some p' \<Longrightarrow> sc' \<noteq> sc \<Longrightarrow>
          avail t sc' p' = avail t sc' p"
    and avail_keys: "avail t sc p \<subseteq> set (keys p)"
begin

text \<open>A rotation: mark the failed key, then take the next one.\<close>

lemma rotate_fresh:
  assumes "inv p" "fair r" "mark now k sc d p = Some p'" "now' < now + d"
    and "fst (nxt now' r sc p') = Some k'"
  shows "k' \<noteq> k \<and> k' \<in> avail now' sc p"
proof -
  have "k' \<in> avail now' sc p'"
    using assms mark_inv by (blast intro: nxt_Some)
  then show ?thesis using mark_avail [OF assms(1,3,4)] by simp
qed

lemma rotate_exhausts:
  assumes "inv p" "fair r" "mark now k sc d p = Some p'" "now' < now + d"
  shows "fst (nxt now' r sc p') = None \<longleftrightarrow> avail now' sc p \<subseteq> {k}"
  using nxt_None [OF mark_inv [OF assms(1,3)] assms(2)] mark_avail [OF assms(1,3,4)] by auto

lemma card_avail_mark:
  assumes "inv p" "mark now k sc d p = Some p'" "t < now + d" "k \<in> avail t sc p"
  shows "card (avail t sc p') < card (avail t sc p)"
proof -
  have "finite (avail t sc p)" by (rule finite_subset [OF avail_keys finite_set])
  moreover have "avail t sc p' \<subset> avail t sc p"
    using assms(4) mark_avail [OF assms(1-3)] by auto
  ultimately show ?thesis by (rule psubset_card_mono)
qed

end

subsection \<open>The pool meets the contract\<close>

definition available :: "nat \<Rightarrow> string \<Rightarrow> pool \<Rightarrow> string set" where
  "available t scope p =
     {key e | e. e \<in> set (entries p) \<and>
        (case exhausted_until e scope of None \<Rightarrow> True | Some until \<Rightarrow> until \<le> t)}"

definition pool_keys :: "pool \<Rightarrow> string list" where
  "pool_keys p = map key (entries p)"

definition pool_inv :: "pool \<Rightarrow> bool" where
  "pool_inv p \<longleftrightarrow> distinct (pool_keys p)"

definition fair_rand :: "(nat \<Rightarrow> nat) \<Rightarrow> bool" where
  "fair_rand r \<longleftrightarrow> (\<forall>n > 0. r n < n)"

definition entry_available :: "nat \<Rightarrow> string \<Rightarrow> credential_entry \<Rightarrow> bool" where
  "entry_available t scope e =
     (case exhausted_until e scope of None \<Rightarrow> True | Some until \<Rightarrow> until \<le> t)"

lemma available_alt: "available t scope p = key ` {e \<in> set (entries p). entry_available t scope e}"
  by (auto simp: available_def entry_available_def)

lemma available_filter: "available t scope p = set (map key (filter (entry_available t scope) (entries p)))"
  by (auto simp: available_alt)

lemma notin_filter_keys: "k \<notin> set (map key es) \<Longrightarrow> k \<notin> set (map key (filter P es))"
  by auto

lemma key_refresh_entry [simp]: "key (refresh_entry now sc e) = key e"
  by (simp add: refresh_entry_def split: option.split)

lemma entry_available_refresh:
  "now \<le> t \<Longrightarrow> entry_available t sc' (refresh_entry now sc e) = entry_available t sc' e"
  by (auto simp: refresh_entry_def entry_available_def split: option.splits)

lemma refresh_entry_None_iff:
  "exhausted_until (refresh_entry now sc e) sc = None \<longleftrightarrow> entry_available now sc e"
  by (auto simp: refresh_entry_def entry_available_def split: option.splits)

lemma refresh_fields [simp]:
  "entries (refresh now sc p) = map (refresh_entry now sc) (entries p)"
  "strategy (refresh now sc p) = strategy p"
  "round_robin_idx (refresh now sc p) = round_robin_idx p"
  by (simp_all add: refresh_def)

lemma min_by_key_None_iff: "min_by_key f xs = None \<longleftrightarrow> xs = []"
  by (cases xs) (auto split: option.splits)

lemma min_by_key_SomeD:
  "min_by_key f xs = Some y \<Longrightarrow> y \<in> set xs \<and> (\<forall>x \<in> set xs. f y \<le> f x)"
proof (induction xs arbitrary: y)
  case Nil
  then show ?case by simp
next
  case (Cons x xs)
  then show ?case
    by (auto split: option.splits if_splits simp: min_by_key_None_iff)
qed

lemma active_indices_refresh:
  "set (active_indices sc (refresh now sc p)) =
     {i. i < length (entries p) \<and> entry_available now sc (entries p ! i)}"
  by (auto simp: active_indices_def refresh_entry_None_iff)

lemma select_index_in:
  assumes "select_index r p active = (i, p2)" "active \<noteq> []" "fair_rand r"
  shows "i \<in> set active \<and> entries p2 = entries p \<and> strategy p2 = strategy p
    \<and> (strategy p \<noteq> RoundRobin \<longrightarrow> p2 = p)"
proof (cases "strategy p")
  case LeastUsed
  then show ?thesis using assms
    by (auto simp: select_index_def min_by_key_None_iff split: option.splits dest: min_by_key_SomeD)
qed (use assms in \<open>auto simp: select_index_def fair_rand_def\<close>)

text \<open>One call: either no entry is available, or the chosen index is an available entry and the
  new pool differs from the refreshed one in that entry's bookkeeping only.\<close>

lemma next_credential_cases:
  assumes "fair_rand r"
  obtains "available now sc p = {}" "next_credential now r sc p = (None, refresh now sc p)"
  | i p2 where "i < length (entries p)" "entry_available now sc (entries p ! i)"
      "select_index r (refresh now sc p) (active_indices sc (refresh now sc p)) = (i, p2)"
      "fst (next_credential now r sc p) = Some (key (entries p ! i))"
      "entries (snd (next_credential now r sc p)) =
         (map (refresh_entry now sc) (entries p))
           [i := (refresh_entry now sc (entries p ! i))\<lparr>last_used := Some now,
              use_count := use_count (refresh_entry now sc (entries p ! i)) + 1\<rparr>]"
proof (cases "active_indices sc (refresh now sc p) = []")
  case True
  have "available now sc p = {}"
    using True active_indices_refresh [of sc now p] by (auto simp: available_alt in_set_conv_nth)
  with True show ?thesis using that(1) by (simp add: next_credential_def)
next
  case False
  obtain i p2 where s: "select_index r (refresh now sc p) (active_indices sc (refresh now sc p)) = (i, p2)"
    by (cases "select_index r (refresh now sc p) (active_indices sc (refresh now sc p))") auto
  from select_index_in [OF s False assms]
  have i: "i < length (entries p)" "entry_available now sc (entries p ! i)"
    and e: "entries p2 = map (refresh_entry now sc) (entries p)"
    using active_indices_refresh [of sc now p] by auto
  show ?thesis
    by (rule that(2) [OF i s]) (use False s i e in \<open>simp_all add: next_credential_def Let_def\<close>)
qed

lemma entry_available_bump [simp]:
  "entry_available t sc (e\<lparr>last_used := a, use_count := b\<rparr>) = entry_available t sc e"
  by (simp add: entry_available_def)

lemma available_of_entries:
  "map (\<lambda>e. (key e, entry_available t sc e)) (entries p)
     = map (\<lambda>e. (key e, entry_available t sc e)) (entries q) \<Longrightarrow> available t sc p = available t sc q"
proof -
  have *: "available t sc x = fst ` {y \<in> set (map (\<lambda>e. (key e, entry_available t sc e)) (entries x)). snd y}"
    for x by (force simp: available_alt)
  assume "map (\<lambda>e. (key e, entry_available t sc e)) (entries p)
     = map (\<lambda>e. (key e, entry_available t sc e)) (entries q)"
  then show ?thesis by (simp only: *)
qed

lemma next_credential_frame:
  assumes "fair_rand r" "now \<le> t"
  shows "map (\<lambda>e. (key e, entry_available t sc' e)) (entries (snd (next_credential now r sc p)))
    = map (\<lambda>e. (key e, entry_available t sc' e)) (entries p)"
proof (rule next_credential_cases [OF assms(1), of now sc p])
  assume "next_credential now r sc p = (None, refresh now sc p)"
  then show ?thesis using assms(2) by (simp add: entry_available_refresh)
next
  fix i p2
  assume i: "i < length (entries p)"
    and e: "entries (snd (next_credential now r sc p)) =
         (map (refresh_entry now sc) (entries p))
           [i := (refresh_entry now sc (entries p ! i))\<lparr>last_used := Some now,
              use_count := use_count (refresh_entry now sc (entries p ! i)) + 1\<rparr>]"
  show ?thesis
    by (rule nth_equalityI)
      (use i e assms(2) in \<open>auto simp: nth_list_update entry_available_refresh\<close>)
qed

lemma next_credential_keys: "fair_rand r \<Longrightarrow> pool_keys (snd (next_credential now r sc p)) = pool_keys p"
  using arg_cong [OF next_credential_frame [of r now now sc sc p], of "map fst"]
  by (simp add: pool_keys_def comp_def)

lemma mark_entries_keys [simp]: "map key (mark_entries u k sc es) = map key es"
  by (induction es) auto

lemma mark_entries_available:
  assumes "distinct (map key es)" "t < u"
  shows "set (map key (filter (entry_available t sc) (mark_entries u k sc es)))
    = set (map key (filter (entry_available t sc) es)) - {k}"
  using assms(1)
proof (induction es)
  case Nil
  then show ?case by simp
next
  case (Cons e es)
  have "\<not> entry_available t sc (e\<lparr>exhausted_until := (exhausted_until e)(sc \<mapsto> u)\<rparr>)"
    using assms(2) by (simp add: entry_available_def)
  moreover have "key e \<notin> set (map key (filter (entry_available t sc) es))"
    using Cons.prems by (intro notin_filter_keys) simp
  ultimately show ?case using Cons
    by (cases "key e = k"; cases "entry_available t sc e") (auto simp del: set_map set_filter simp: set_map [symmetric])
qed

lemma mark_entries_other_scope:
  "sc' \<noteq> sc \<Longrightarrow> map (\<lambda>e. (key e, entry_available t sc' e)) (mark_entries u k sc es)
     = map (\<lambda>e. (key e, entry_available t sc' e)) es"
  by (induction es) (auto simp: entry_available_def)

lemma mark_exhausted_SomeD:
  assumes "mark_exhausted now k sc d p = Some p'"
  shows "(k \<notin> set (pool_keys p) \<and> p' = p)
    \<or> (k \<in> set (pool_keys p) \<and> entries p' = mark_entries (now + d) k sc (entries p)
       \<and> strategy p' = strategy p \<and> round_robin_idx p' = round_robin_idx p)"
  using assms by (auto simp: mark_exhausted_def pool_keys_def dest: instant_add_SomeD split: if_splits)

lemma available_subset: "available t sc p \<subseteq> set (pool_keys p)"
  by (auto simp: available_alt pool_keys_def)

interpretation cp: key_source next_credential mark_exhausted available pool_keys pool_inv fair_rand
proof (unfold_locales, goal_cases)
  case (1 p r now sc)
  then show ?case
    by (elim next_credential_cases [of r now sc p]) (auto simp: available_alt intro: nth_mem)
next
  case (2 p r now sc k)
  then show ?case
    by (elim next_credential_cases [of r now sc p]) (auto simp: available_alt)
next
  case (3 p r now sc)
  then show ?case by (simp add: pool_inv_def next_credential_keys)
next
  case (4 p r now sc)
  then show ?case by (simp add: next_credential_keys)
next
  case (5 p r now t sc' sc)
  then show ?case by (intro available_of_entries next_credential_frame)
next
  case (6 p now k sc d p')
  then show ?case by (auto simp: pool_inv_def pool_keys_def dest: mark_exhausted_SomeD)
next
  case (7 p now k sc d p')
  then show ?case by (auto simp: pool_keys_def dest: mark_exhausted_SomeD)
next
  case (8 p now k sc d p' t)
  from mark_exhausted_SomeD [OF 8(2)] show ?case
  proof
    assume "k \<notin> set (pool_keys p) \<and> p' = p"
    then show ?thesis using available_subset [of t sc p] by auto
  next
    assume "k \<in> set (pool_keys p) \<and> entries p' = mark_entries (now + d) k sc (entries p)
       \<and> strategy p' = strategy p \<and> round_robin_idx p' = round_robin_idx p"
    then show ?thesis using 8(1,3)
      by (simp only: available_filter mark_entries_available pool_inv_def pool_keys_def)
  qed
next
  case (9 p now k sc d p' sc' t)
  then show ?case
    by (intro available_of_entries) (auto simp: mark_entries_other_scope dest: mark_exhausted_SomeD)
next
  case (10 t sc p)
  show ?case by (rule available_subset)
qed

subsection \<open>Selection, rotation and recovery\<close>

lemmas cp_facts = cp.nxt_None cp.nxt_Some cp.nxt_keys cp.nxt_avail

subsection \<open>The choice\<close>

definition candidates :: "nat \<Rightarrow> string \<Rightarrow> pool \<Rightarrow> nat list" where
  "candidates now scope p = filter (\<lambda>i. entry_available now scope (entries p ! i)) [0..<length (entries p)]"

text \<open>What each strategy promises of the index it picks among the available ones.\<close>

definition picked :: "(nat \<Rightarrow> nat) \<Rightarrow> pool \<Rightarrow> nat list \<Rightarrow> nat \<Rightarrow> bool" where
  "picked r p cand i \<longleftrightarrow> i \<in> set cand \<and>
     (case strategy p of
        FillFirst \<Rightarrow> (\<forall>j \<in> set cand. i \<le> j)
      | RoundRobin \<Rightarrow> i = cand ! (unat (round_robin_idx p) mod length cand)
      | RandomKey \<Rightarrow> i = cand ! r (length cand)
      | LeastUsed \<Rightarrow> (\<forall>j \<in> set cand. use_count (entries p ! i) \<le> use_count (entries p ! j)
          \<and> (j < i \<longrightarrow> use_count (entries p ! i) < use_count (entries p ! j))))"

lemma active_candidates: "active_indices sc (refresh now sc p) = candidates now sc p"
  unfolding active_indices_def candidates_def
  by (intro filter_cong) (simp_all add: refresh_entry_None_iff)

lemma min_by_key_first:
  "min_by_key f xs = Some y \<Longrightarrow> sorted_wrt (<) xs \<Longrightarrow> x \<in> set xs \<Longrightarrow> x < y \<Longrightarrow> f y < f (x :: nat)"
proof (induction xs)
  case (Cons a xs)
  show ?case
  proof (cases "min_by_key f xs")
    case None
    then show ?thesis using Cons.prems by (simp add: min_by_key_None_iff)
  next
    case (Some z)
    show ?thesis
    proof (cases "f a \<le> f z")
      case True
      then have "y = a" using Cons.prems(1) Some by simp
      then show ?thesis using Cons.prems by auto
    next
      case False
      then have "y = z" using Cons.prems(1) Some by simp
      then show ?thesis using Cons False Some by auto
    qed
  qed
qed simp

lemma sorted_candidates: "sorted_wrt (<) (candidates now sc p)"
  by (simp add: candidates_def sorted_wrt_filter)

lemma use_count_refresh [simp]: "use_count (refresh_entry now sc e) = use_count e"
  by (simp add: refresh_entry_def split: option.split)

lemma candidates_bound: "i \<in> set (candidates now sc p) \<Longrightarrow> i < length (entries p)"
  by (simp add: candidates_def)

lemma select_picked:
  assumes "select_index r (refresh now sc p) (candidates now sc p) = (i, q)" "candidates now sc p \<noteq> []" "fair_rand r"
  shows "picked r p (candidates now sc p) i
    \<and> round_robin_idx q = (if strategy p = RoundRobin then round_robin_idx p + 1 else round_robin_idx p)"
proof -
  let ?c = "candidates now sc p"
  have i: "i \<in> set ?c" using select_index_in [OF assms] by blast
  show ?thesis
  proof (cases "strategy p")
    case FillFirst
    have "\<forall>j \<in> set ?c. ?c ! 0 \<le> j"
      using sorted_candidates [of now sc p] assms(2) by (cases ?c) auto
    then show ?thesis using assms(1) i FillFirst by (auto simp: select_index_def picked_def)
  next
    case LeastUsed
    let ?u = "\<lambda>i. use_count (entries (refresh now sc p) ! i)"
    have u: "?u j = use_count (entries p ! j)" if "j \<in> set ?c" for j
      using candidates_bound [OF that] by simp
    obtain k where k: "min_by_key ?u ?c = Some k" using assms(2) min_by_key_None_iff [of ?u ?c] by (cases "min_by_key ?u ?c") auto
    then have q: "i = k" "q = refresh now sc p" using assms(1) LeastUsed by (simp_all add: select_index_def)
    have "use_count (entries p ! i) \<le> use_count (entries p ! j)
        \<and> (j < i \<longrightarrow> use_count (entries p ! i) < use_count (entries p ! j))" if "j \<in> set ?c" for j
      using min_by_key_SomeD [OF k] min_by_key_first [OF k sorted_candidates that] u [OF that] u [OF i] q(1) that by auto
    then show ?thesis using i LeastUsed q(2) by (simp add: picked_def)
  qed (use assms(1) i in \<open>auto simp: select_index_def picked_def\<close>)
qed

lemma next_by_strategy:
  assumes "fair_rand r" "candidates now sc p \<noteq> []"
  shows "\<exists>i. picked r p (candidates now sc p) i \<and> fst (next_credential now r sc p) = Some (key (entries p ! i))
    \<and> round_robin_idx (snd (next_credential now r sc p))
        = (if strategy p = RoundRobin then round_robin_idx p + 1 else round_robin_idx p)
    \<and> map use_count (entries (snd (next_credential now r sc p)))
        = (map use_count (entries p))[i := use_count (entries p ! i) + 1]"
proof -
  obtain i q where s: "select_index r (refresh now sc p) (candidates now sc p) = (i, q)" by fastforce
  note pk = select_picked [OF s assms(2,1)]
  have i: "i < length (entries p)" using pk candidates_bound by (auto simp: picked_def)
  have e: "entries q = map (refresh_entry now sc) (entries p)"
    using select_index_in [OF s assms(2,1)] by simp
  have uc: "map (use_count \<circ> refresh_entry now sc) (entries p) = map use_count (entries p)" by simp
  from pk i e s assms(2) show ?thesis
    by (intro exI [of _ i]) (simp add: next_credential_def Let_def active_candidates map_update uc)
qed

text \<open>C8: \<open>next_credential\<close> answers \<open>None\<close> exactly when every key cools for the scope; else it answers the key its
  strategy picks among the available ones - fill-first the first of them, round robin the one at the counter
  modulo their number, and the counter advances, random the one drawn, least-used the first of those with the
  fewest uses - and counts one use of that key and of no other; no key and no availability changes, for any scope and
  at any later time.\<close>

theorem next_credential_correct:
  assumes "pool_inv p" "fair_rand r" "now \<le> t"
  shows "(fst (next_credential now r sc p) = None \<longleftrightarrow> candidates now sc p = [])
    \<and> (candidates now sc p \<noteq> [] \<longrightarrow>
        (\<exists>i. picked r p (candidates now sc p) i \<and> fst (next_credential now r sc p) = Some (key (entries p ! i))
          \<and> round_robin_idx (snd (next_credential now r sc p))
              = (if strategy p = RoundRobin then round_robin_idx p + 1 else round_robin_idx p)
          \<and> map use_count (entries (snd (next_credential now r sc p)))
              = (map use_count (entries p))[i := use_count (entries p ! i) + 1]))
    \<and> pool_keys (snd (next_credential now r sc p)) = pool_keys p
    \<and> available t sc' (snd (next_credential now r sc p)) = available t sc' p"
proof -
  have "candidates now sc p = [] \<longleftrightarrow> available now sc p = {}"
    unfolding candidates_def available_alt filter_empty_conv by (fastforce simp: in_set_conv_nth)
  with cp.nxt_None [OF assms(1,2)] cp.nxt_keys [OF assms(1,2)] cp.nxt_avail [OF assms]
    next_by_strategy [OF assms(2), of now sc p]
  show ?thesis by simp
qed

definition two_keys :: pool where
  "two_keys = new_pool ''glm'' [''key1'', ''key2''] FillFirst"

lemma two_keys_inv: "pool_inv two_keys" "fair_rand (\<lambda>_. 0)"
  by (simp_all add: two_keys_def pool_inv_def pool_keys_def new_pool_def new_entry_def fair_rand_def)

lemma two_keys_available: "available t sc two_keys = {''key1'', ''key2''}"
  by (simp add: two_keys_def available_filter entry_available_def new_pool_def new_entry_def)

text \<open>Two keys with different use: the less used one is handed out, and the counts are then \<open>5\<close> and \<open>3\<close>.\<close>

definition used_keys :: pool where
  "used_keys = (new_pool ''glm'' [''key1'', ''key2''] LeastUsed)
     \<lparr>entries := [(new_entry ''key1'')\<lparr>use_count := 5\<rparr>, (new_entry ''key2'')\<lparr>use_count := 2\<rparr>]\<rparr>"

theorem next_credential_correct_witness:
  "fst (next_credential 5 (\<lambda>_. 0) ''m'' used_keys) = Some ''key2''
   \<and> map use_count (entries (snd (next_credential 5 (\<lambda>_. 0) ''m'' used_keys))) = [5, 3]"
proof -
  have i: "pool_inv used_keys" "fair_rand (\<lambda>_. 0)" "(5::nat) \<le> 9"
    by (simp_all add: used_keys_def pool_inv_def pool_keys_def new_pool_def new_entry_def fair_rand_def)
  have c: "candidates 5 ''m'' used_keys = [0, 1]"
    by (simp add: candidates_def used_keys_def entry_available_def new_pool_def new_entry_def upt_rec)
  then have "candidates 5 ''m'' used_keys \<noteq> []" by simp
  with next_credential_correct [OF i, of "''m''" "''n''"] obtain i where
    "picked (\<lambda>_. 0) used_keys [0, 1] i" "fst (next_credential 5 (\<lambda>_. 0) ''m'' used_keys) = Some (key (entries used_keys ! i))"
    "map use_count (entries (snd (next_credential 5 (\<lambda>_. 0) ''m'' used_keys)))
       = (map use_count (entries used_keys))[i := use_count (entries used_keys ! i) + 1]"
    unfolding c by blast
  moreover from this(1) have "i = 1" by (auto simp: picked_def used_keys_def new_pool_def)
  ultimately show ?thesis by (simp add: used_keys_def new_entry_def)
qed

text \<open>Rotation after a failure: once the failed key is marked exhausted for a scope, the
  next key handed out before the cooldown ends is another one, available before the mark;
  and there is none exactly when the failed key was the only available one.\<close>

theorem rotation_skips_failed_key:
  assumes "pool_inv p" "fair_rand r" "mark_exhausted now k sc d p = Some p'" "now' < now + d"
  shows "(\<forall>k'. fst (next_credential now' r sc p') = Some k' \<longrightarrow> k' \<noteq> k \<and> k' \<in> available now' sc p)
    \<and> (fst (next_credential now' r sc p') = None \<longleftrightarrow> available now' sc p \<subseteq> {k})"
  using cp.rotate_fresh [OF assms] cp.rotate_exhausts [OF assms] by blast

theorem rotation_skips_failed_key_witness:
  "\<exists>p'. mark_exhausted 0 ''key1'' ''m'' (from_secs 60) two_keys = Some p'
     \<and> fst (next_credential 5 (\<lambda>_. 0) ''m'' p') \<noteq> Some ''key1''
     \<and> fst (next_credential 5 (\<lambda>_. 0) ''m'' p') \<noteq> None"
proof -
  have "instant_add 0 (from_secs 60) = Some (from_secs 60)" by (simp add: instant_add_def)
  then obtain p' where p': "mark_exhausted 0 ''key1'' ''m'' (from_secs 60) two_keys = Some p'"
    by (auto simp: mark_exhausted_def two_keys_def new_pool_def new_entry_def)
  have "5 < 0 + from_secs 60" by (simp add: from_secs_def)
  from rotation_skips_failed_key [OF two_keys_inv p' this] show ?thesis
    using p' by (auto simp: two_keys_available)
qed

lemma mark_entries_after:
  assumes "distinct (map key es)" "u \<le> t"
  shows "set (map key (filter (entry_available t sc) (mark_entries u k sc es)))
    = set (map key (filter (entry_available t sc) es)) \<union> ({k} \<inter> set (map key es))"
  using assms(1)
proof (induction es)
  case Nil
  then show ?case by simp
next
  case (Cons e es)
  have "entry_available t sc (e\<lparr>exhausted_until := (exhausted_until e)(sc \<mapsto> u)\<rparr>)"
    using assms(2) by (simp add: entry_available_def)
  moreover have "key e \<notin> set (map key (filter (entry_available t sc) es))"
    using Cons.prems by (intro notin_filter_keys) simp
  ultimately show ?case using Cons
    by (cases "key e = k"; cases "entry_available t sc e") (auto simp del: set_map set_filter simp: set_map [symmetric])
qed

text \<open>Exhaustion is scoped: marking a key for one scope changes the availability of no key
  for any other scope, nor that of any other key; the marked key is back once the cooldown
  ends.\<close>

theorem exhaustion_is_scoped:
  assumes "pool_inv p" "k \<in> set (pool_keys p)" "mark_exhausted now k sc d p = Some p'"
  shows "available t sc' p' =
    (if sc' \<noteq> sc then available t sc' p
     else if t < now + d then available t sc p - {k} else insert k (available t sc p))"
proof (cases "sc' = sc \<and> now + d \<le> t")
  case True
  have "entries p' = mark_entries (now + d) k sc (entries p)"
    using mark_exhausted_SomeD [OF assms(3)] assms(2) by blast
  moreover have "distinct (map key (entries p))" using assms(1) by (simp add: pool_inv_def pool_keys_def)
  ultimately have "available t sc p' = available t sc p \<union> ({k} \<inter> set (map key (entries p)))"
    using True by (simp only: available_filter mark_entries_after)
  with True assms(2) show ?thesis by (auto simp: pool_keys_def)
next
  case False
  then show ?thesis
    using cp.mark_other_scope [OF assms(1,3)] cp.mark_avail [OF assms(1,3)] by auto
qed

theorem exhaustion_is_scoped_witness:
  "\<exists>p'. available 5 ''n'' p' = {''key1'', ''key2''} \<and> available 5 ''m'' p' = {''key2''}
     \<and> available (from_secs 60) ''m'' p' = {''key1'', ''key2''}"
proof -
  have "instant_add 0 (from_secs 60) = Some (from_secs 60)" by (simp add: instant_add_def)
  then obtain p' where p': "mark_exhausted 0 ''key1'' ''m'' (from_secs 60) two_keys = Some p'"
    by (auto simp: mark_exhausted_def two_keys_def new_pool_def new_entry_def)
  have k: "''key1'' \<in> set (pool_keys two_keys)"
    by (simp add: two_keys_def pool_keys_def new_pool_def new_entry_def)
  have "5 < 0 + from_secs 60" by (simp add: from_secs_def)
  then show ?thesis
    using exhaustion_is_scoped [OF two_keys_inv(1) k p', of 5 "''n''"]
      exhaustion_is_scoped [OF two_keys_inv(1) k p', of 5 "''m''"]
      exhaustion_is_scoped [OF two_keys_inv(1) k p', of "from_secs 60" "''m''"]
    by (intro exI [of _ p']) (auto simp: two_keys_available)
qed

lemma recovery_times_iff:
  "d \<in> set (recovery_times now sc p) \<longleftrightarrow>
     (\<exists>e \<in> set (entries p). exhausted_until e sc = Some (now + d)) \<and> 0 < d"
proof
  assume "d \<in> set (recovery_times now sc p)"
  then obtain e u where "e \<in> set (entries p)" "exhausted_until e sc = Some u" "now < u" "d = u - now"
    by (auto simp: recovery_times_def List.map_filter_def)
  then show "(\<exists>e \<in> set (entries p). exhausted_until e sc = Some (now + d)) \<and> 0 < d" by auto
next
  assume "(\<exists>e \<in> set (entries p). exhausted_until e sc = Some (now + d)) \<and> 0 < d"
  then have "now + d \<in> set (List.map_filter (\<lambda>e. exhausted_until e sc) (entries p))" "now < now + d"
    by (force simp: List.map_filter_def)+
  then show "d \<in> set (recovery_times now sc p)"
    by (auto simp: recovery_times_def image_iff intro!: bexI [of _ "now + d"])
qed

lemma cooling_recovery_time:
  "e \<in> set (entries p) \<Longrightarrow> exhausted_until e sc = Some u \<Longrightarrow> now < u \<Longrightarrow>
   u - now \<in> set (recovery_times now sc p)"
  by (auto simp: recovery_times_iff)

text \<open>\<open>soonest_recovery\<close> is the exact time of the next recovery: \<open>None\<close> exactly when every
  key is available now; otherwise, until that much time has passed the set of available keys
  does not change, and then it has grown.\<close>

theorem soonest_recovery_exact:
  assumes "pool_inv p"
  shows "case soonest_recovery now sc p of
      None \<Rightarrow> available now sc p = set (pool_keys p)
    | Some d \<Rightarrow> available now sc p \<subset> available (now + d) sc p
        \<and> (\<forall>t. now \<le> t \<and> t < now + d \<longrightarrow> available t sc p = available now sc p)"
proof (cases "soonest_recovery now sc p")
  case None
  then have "recovery_times now sc p = []"
    by (simp add: soonest_recovery_def min_by_key_None_iff)
  then have "\<forall>e \<in> set (entries p). entry_available now sc e"
    using cooling_recovery_time [of _ p sc _ now]
    by (auto simp: entry_available_def not_less [symmetric] split: option.split)
  then show ?thesis using None by (simp add: available_filter pool_keys_def)
next
  case (Some d)
  from min_by_key_SomeD [OF Some [unfolded soonest_recovery_def]]
  have d: "d \<in> set (recovery_times now sc p)"
    and min: "\<And>x. x \<in> set (recovery_times now sc p) \<Longrightarrow> d \<le> x"
    by auto
  from d obtain e where e: "e \<in> set (entries p)" "exhausted_until e sc = Some (now + d)" "0 < d"
    by (auto simp: recovery_times_iff)
  have stable: "entry_available t sc x = entry_available now sc x"
    if t: "now \<le> t" "t < now + d" and x: "x \<in> set (entries p)" for t x
  proof (cases "exhausted_until x sc")
    case (Some u)
    have "now < u \<Longrightarrow> now + d \<le> u" using min [OF cooling_recovery_time [OF x Some]] by simp
    with t Some show ?thesis by (fastforce simp: entry_available_def)
  qed (simp add: entry_available_def)
  have out: "key e \<notin> available now sc p"
  proof
    assume "key e \<in> available now sc p"
    then obtain x where x: "x \<in> set (entries p)" "key x = key e" "entry_available now sc x"
      by (auto simp: available_alt)
    with assms e(1) have "x = e" by (auto simp: pool_inv_def pool_keys_def distinct_map inj_on_def)
    with x(3) e show False by (simp add: entry_available_def)
  qed
  have "key e \<in> available (now + d) sc p"
    using e by (auto simp: available_alt entry_available_def)
  with out have ne: "available now sc p \<noteq> available (now + d) sc p" by metis
  have mono: "entry_available (now::nat) sc x \<Longrightarrow> entry_available (now + d) sc x" for x
    by (simp add: entry_available_def split: option.splits)
  have sub: "available now sc p \<subseteq> available (now + d) sc p"
    unfolding available_alt by (rule image_mono) (use mono in auto)
  have same: "available t sc p = available now sc p" if "now \<le> t" "t < now + d" for t
  proof -
    have "{x \<in> set (entries p). entry_available t sc x} = {x \<in> set (entries p). entry_available now sc x}"
      using stable [OF that] by (intro Collect_cong) (simp cong: conj_cong)
    then show ?thesis by (simp only: available_alt)
  qed
  from sub ne have "available now sc p \<subset> available (now + d) sc p" by (rule psubsetI)
  with same have "available now sc p \<subset> available (now + d) sc p
      \<and> (\<forall>t. now \<le> t \<and> t < now + d \<longrightarrow> available t sc p = available now sc p)"
    by metis
  then show ?thesis unfolding Some option.case .
qed

theorem soonest_recovery_exact_witness:
  "available 0 ''m'' two_keys = set (pool_keys two_keys)"
proof -
  have "soonest_recovery 0 ''m'' two_keys = None" by code_simp
  with soonest_recovery_exact [OF two_keys_inv(1), of 0 "''m''"] show ?thesis by simp
qed

subsection \<open>Round robin\<close>

primrec take_keys :: "nat \<Rightarrow> (nat \<Rightarrow> nat) \<Rightarrow> string \<Rightarrow> nat \<Rightarrow> pool \<Rightarrow> string option list" where
  "take_keys now r sc 0 p = []"
| "take_keys now r sc (Suc n) p =
     fst (next_credential now r sc p) # take_keys now r sc n (snd (next_credential now r sc p))"

definition all_active :: "string \<Rightarrow> pool \<Rightarrow> bool" where
  "all_active sc p \<longleftrightarrow> (\<forall>e \<in> set (entries p). exhausted_until e sc = None)"

lemma refresh_all_active: "all_active sc p \<Longrightarrow> refresh now sc p = p"
  by (simp add: refresh_def all_active_def refresh_entry_def map_idI)

lemma active_indices_all: "all_active sc p \<Longrightarrow> active_indices sc p = [0..<length (entries p)]"
  by (simp add: active_indices_def all_active_def)

lemma round_robin_step:
  assumes "all_active sc p" "entries p \<noteq> []" "strategy p = RoundRobin"
    and q_def: "q = snd (next_credential now r sc p)"
  shows "fst (next_credential now r sc p)
      = Some (pool_keys p ! (unat (round_robin_idx p) mod length (entries p)))"
    "round_robin_idx q = round_robin_idx p + 1" "all_active sc q" "entries q \<noteq> []"
    "strategy q = RoundRobin" "pool_keys q = pool_keys p"
proof -
  let ?n = "length (entries p)" and ?i = "unat (round_robin_idx p) mod length (entries p)"
  have i: "?i < ?n" using assms(2) by simp
  then have "[0..<?n] ! ?i = ?i" by simp
  then have eq: "next_credential now r sc p = (Some (key (entries p ! ?i)),
      p\<lparr>round_robin_idx := round_robin_idx p + 1, entries := (entries p)[?i :=
        (entries p ! ?i)\<lparr>last_used := Some now, use_count := use_count (entries p ! ?i) + 1\<rparr>]\<rparr>)"
    using assms by (simp add: next_credential_def refresh_all_active active_indices_all
        select_index_def Let_def)
  show "fst (next_credential now r sc p) = Some (pool_keys p ! ?i)"
    using i by (simp add: eq pool_keys_def)
  show "round_robin_idx q = round_robin_idx p + 1" "entries q \<noteq> []" "strategy q = RoundRobin"
    using assms by (simp_all add: q_def eq)
  show "all_active sc q"
    using assms(1) i by (auto simp: q_def eq all_active_def dest!: subsetD [OF set_update_subset_insert])
  show "pool_keys q = pool_keys p"
    using i by (simp add: q_def eq pool_keys_def map_update list_update_same_conv)
qed

text \<open>Round robin is fair: with no key cooling for the scope, \<open>n\<close> consecutive calls hand
  out the keys of the pool in order, starting at the counter and wrapping round at the end of
  the pool, as long as the 64-bit counter itself does not wrap.\<close>

theorem round_robin_in_order:
  assumes "all_active sc p" "entries p \<noteq> []" "strategy p = RoundRobin"
    and "unat (round_robin_idx p) + n < 2 ^ 64"
  shows "take_keys now r sc n p =
    map (\<lambda>j. Some (pool_keys p ! ((unat (round_robin_idx p) + j) mod length (pool_keys p)))) [0..<n]"
  using assms
proof (induction n arbitrary: p)
  case 0
  then show ?case by simp
next
  case (Suc n)
  let ?q = "snd (next_credential now r sc p)"
  note step = round_robin_step [OF Suc.prems(1-3) refl, of now r]
  have "unat (round_robin_idx p + 1) = Suc (unat (round_robin_idx p))"
    using Suc.prems(4) by (simp add: unat_word_ariths)
  then have idx: "unat (round_robin_idx ?q) = Suc (unat (round_robin_idx p))"
    by (simp add: step(2))
  with Suc.prems(4) Suc.IH [OF step(3-5)] step(6)
  have tail: "take_keys now r sc n ?q = map (\<lambda>j. Some (pool_keys p !
      ((unat (round_robin_idx p) + Suc j) mod length (pool_keys p)))) [0..<n]"
    by simp
  have "map f [0..<Suc n] = f 0 # map (\<lambda>j. f (Suc j)) [0..<n]" for f :: "nat \<Rightarrow> string option"
    by (simp add: upt_conv_Cons map_Suc_upt [symmetric] comp_def del: upt_Suc)
  with tail step(1) show ?case by (simp add: pool_keys_def del: upt_Suc)
qed

theorem round_robin_in_order_witness:
  "take_keys 0 (\<lambda>_. 0) ''m'' 3 (new_pool ''p'' [''a'', ''b''] RoundRobin)
     = [Some ''a'', Some ''b'', Some ''a'']"
proof -
  let ?p = "new_pool ''p'' [''a'', ''b''] RoundRobin"
  have "all_active ''m'' ?p" "entries ?p \<noteq> []" "strategy ?p = RoundRobin"
    "unat (round_robin_idx ?p) + 3 < 2 ^ 64" "pool_keys ?p = [''a'', ''b'']" "round_robin_idx ?p = 0"
    by (simp_all add: new_pool_def new_entry_def all_active_def pool_keys_def)
  with round_robin_in_order [of "''m''" ?p 3 0 "\<lambda>_. 0"] show ?thesis by (simp add: upt_rec numeral_3_eq_3)
qed

subsection \<open>Masking\<close>

definition ascii :: "string \<Rightarrow> bool" where
  "ascii s \<longleftrightarrow> (\<forall>c \<in> set s. (of_char c :: nat) < 128)"

lemma ascii_boundary: "ascii s \<Longrightarrow> i \<le> length s \<Longrightarrow> is_char_boundary s i"
proof -
  assume a: "ascii s" "i \<le> length s"
  have "(of_char (s ! i) :: nat) div 64 < 2" if "i < length s"
    using a that by (simp add: ascii_def less_mult_imp_div_less)
  with a(2) show ?thesis by (auto simp: is_char_boundary_def)
qed

text \<open>Masking an ASCII key never panics and shows at most its first and last four bytes; a
  key of eight bytes or fewer is hidden whole.\<close>

theorem mask_key_ascii:
  assumes "ascii k"
  shows "mask_key k = Some (if length k \<le> 8 then ''***''
           else take 4 k @ ''...'' @ drop (length k - 4) k)"
  using ascii_boundary [OF assms, of 4] ascii_boundary [OF assms, of "length k - 4"]
  by (simp add: mask_key_def)

theorem mask_key_ascii_witness:
  "mask_key ''sk-abcdefghijklmnopqrstuvwxyz'' = Some ''sk-a...wxyz''"
proof -
  have "ascii ''sk-abcdefghijklmnopqrstuvwxyz''" by (simp add: ascii_def)
  from mask_key_ascii [OF this] show ?thesis by simp
qed

text \<open>A key whose fourth byte starts a two-byte character makes the slice panic.\<close>

lemma mask_key_panics: "mask_key (''abc'' @ [CHR 0xC3, CHR 0xA9] @ ''fghij'') = None"
  by code_simp

end
