(* ===== verification/Chat_Stream.thy ===== *)
theory Chat_Stream
  imports Prelude
begin

text \<open>
  \<open>providers/capability_chat.rs\<close>: the events of a provider's stream and their assembly into a
  response (\<open>ChatResponse::from_stream\<close>).  A finished stream is the list of its events.
\<close>

datatype stop_reason =
    EndTurn | MaxTokens | StopSequence | ContentFilter | ToolUse | StopTimeout
  | StopContextOverflow | Continue

record chat_usage =
  input_tokens :: "nat option"
  output_tokens :: "nat option"
  cached_input_tokens :: "nat option"
  reasoning_tokens :: "nat option"
  cache_write_tokens :: "nat option"

datatype stream_event =
    Delta string
  | Thinking string
  | ThinkingSignature string
  | ToolCallStart string string string
  | ToolCallDelta nat string string string
  | ToolCallEnd string string string
  | Usage chat_usage
  | ModelUsed string
  | Done stop_reason
  | StreamError string
  | HttpError nat string

definition is_error_event :: "stream_event \<Rightarrow> bool" where
  "is_error_event e = (case e of StreamError _ \<Rightarrow> True | HttpError _ _ \<Rightarrow> True | _ \<Rightarrow> False)"

text \<open>The legacy retry heuristic on events.\<close>

definition is_retryable_error :: "stream_event \<Rightarrow> bool" where
  "is_retryable_error e =
     (case e of
        HttpError status _ \<Rightarrow> status = 429 \<or> status \<ge> 500
      | StreamError msg \<Rightarrow> contains msg ''429'' \<or> contains msg ''503'' \<or> contains msg ''rate_limit''
      | _ \<Rightarrow> False)"

definition is_context_overflow_reason :: "string \<Rightarrow> bool" where
  "is_context_overflow_reason reason =
     (let r = to_ascii_lowercase reason in
      contains r ''context''
      \<and> (contains r ''exceed'' \<or> contains r ''window'' \<or> contains r ''overflow''))"

record stream_tool_call =
  tc_id :: string
  tc_name :: string
  tc_arguments :: string

record chat_response =
  r_text :: string
  r_tool_calls :: "stream_tool_call list"
  r_usage :: "chat_usage option"
  r_reasoning :: "string option"
  r_signature :: "string option"
  r_stop :: stop_reason

subsection \<open>Assembly\<close>

text \<open>The mutable locals of \<open>from_stream\<close>.\<close>

record collect_state =
  c_text :: string
  c_reasoning :: string
  c_signature :: "string option"
  c_calls :: "stream_tool_call list"
  c_stop :: stop_reason
  c_usage :: "chat_usage option"

definition collect_init :: collect_state where
  "collect_init = \<lparr>c_text = [], c_reasoning = [], c_signature = None, c_calls = [],
     c_stop = EndTurn, c_usage = None\<rparr>"

definition empty_call :: stream_tool_call where
  "empty_call = \<lparr>tc_id = [], tc_name = [], tc_arguments = []\<rparr>"

definition apply_call_delta ::
  "nat \<Rightarrow> string \<Rightarrow> string \<Rightarrow> string \<Rightarrow> stream_tool_call list \<Rightarrow> stream_tool_call list" where
  "apply_call_delta idx i n delta calls =
     (let calls1 = calls @ replicate (Suc idx - length calls) empty_call; c = calls1 ! idx in
      calls1[idx := c\<lparr>tc_id := (if i \<noteq> [] then i else tc_id c),
                      tc_name := (if n \<noteq> [] then n else tc_name c),
                      tc_arguments := tc_arguments c @ delta\<rparr>])"

primrec finish_call :: "string \<Rightarrow> string \<Rightarrow> string \<Rightarrow> stream_tool_call list \<Rightarrow> stream_tool_call list" where
  "finish_call i n a [] = []"
| "finish_call i n a (c # cs) =
     (if tc_id c = i then c\<lparr>tc_name := n, tc_arguments := a\<rparr> # cs else c # finish_call i n a cs)"

fun collect :: "stream_event list \<Rightarrow> collect_state \<Rightarrow> string + collect_state" where
  "collect [] s = Inr s"
| "collect (Delta t # es) s = collect es (s\<lparr>c_text := c_text s @ t\<rparr>)"
| "collect (Thinking t # es) s = collect es (s\<lparr>c_reasoning := c_reasoning s @ t\<rparr>)"
| "collect (ToolCallStart i n a # es) s =
     collect es (s\<lparr>c_calls := c_calls s @ [\<lparr>tc_id = i, tc_name = n, tc_arguments = a\<rparr>]\<rparr>)"
| "collect (ToolCallDelta idx i n d # es) s =
     collect es (s\<lparr>c_calls := apply_call_delta idx i n d (c_calls s)\<rparr>)"
| "collect (ToolCallEnd i n a # es) s = collect es (s\<lparr>c_calls := finish_call i n a (c_calls s)\<rparr>)"
| "collect (Usage u # es) s = collect es (s\<lparr>c_usage := Some u\<rparr>)"
| "collect (ModelUsed m # es) s = collect es s"
| "collect (Done r # es) s = Inr (s\<lparr>c_stop := r\<rparr>)"
| "collect (ThinkingSignature g # es) s = collect es (s\<lparr>c_signature := Some g\<rparr>)"
| "collect (HttpError st m # es) s = Inl (''Stream error: HTTP '' @ m)"
| "collect (StreamError m # es) s = Inl (''Stream error: '' @ m)"

definition from_stream :: "stream_event list \<Rightarrow> string + chat_response" where
  "from_stream es =
     (case collect es collect_init of
        Inl e \<Rightarrow> Inl e
      | Inr s \<Rightarrow> Inr \<lparr>r_text = c_text s, r_tool_calls = c_calls s, r_usage = c_usage s,
          r_reasoning = (if c_reasoning s = [] then None else Some (c_reasoning s)),
          r_signature = c_signature s, r_stop = c_stop s\<rparr>)"

subsection \<open>What the assembled response holds\<close>

definition is_done :: "stream_event \<Rightarrow> bool" where
  "is_done e = (case e of Done _ \<Rightarrow> True | _ \<Rightarrow> False)"

text \<open>The events \<open>from_stream\<close> looks at: those before the first \<open>Done\<close>.\<close>

definition before_done :: "stream_event list \<Rightarrow> stream_event list" where
  "before_done = takeWhile (\<lambda>e. \<not> is_done e)"

definition delta_text :: "stream_event list \<Rightarrow> string" where
  "delta_text es = concat (map (\<lambda>e. case e of Delta t \<Rightarrow> t | _ \<Rightarrow> []) es)"

definition reasoning_text :: "stream_event list \<Rightarrow> string" where
  "reasoning_text es = concat (map (\<lambda>e. case e of Thinking t \<Rightarrow> t | _ \<Rightarrow> []) es)"

lemma event_kind_simps [simp]:
  "is_done (Done r)" "\<not> is_done (Delta t)" "\<not> is_done (Thinking t)" "\<not> is_done (ThinkingSignature t)"
  "\<not> is_done (ToolCallStart a b c)" "\<not> is_done (ToolCallDelta k a b c)" "\<not> is_done (ToolCallEnd a b c)"
  "\<not> is_done (Usage u)" "\<not> is_done (ModelUsed t)" "\<not> is_done (StreamError t)" "\<not> is_done (HttpError n t)"
  "is_error_event (StreamError t)" "is_error_event (HttpError n t)"
  "\<not> is_error_event (Delta t)" "\<not> is_error_event (Thinking t)" "\<not> is_error_event (ThinkingSignature t)"
  "\<not> is_error_event (ToolCallStart a b c)" "\<not> is_error_event (ToolCallDelta k a b c)"
  "\<not> is_error_event (ToolCallEnd a b c)" "\<not> is_error_event (Usage u)" "\<not> is_error_event (ModelUsed t)"
  "\<not> is_error_event (Done r)"
  by (simp_all add: is_done_def is_error_event_def)

lemma collect_error_iff:
  "isl (collect es s) \<longleftrightarrow> (\<exists>e \<in> set (before_done es). is_error_event e)"
  by (induction es s rule: collect.induct) (simp_all add: before_done_def)

lemma collect_text:
  "collect es s = Inr s' \<Longrightarrow>
     c_text s' = c_text s @ delta_text (before_done es)
   \<and> c_reasoning s' = c_reasoning s @ reasoning_text (before_done es)"
  by (induction es s rule: collect.induct)
    (auto simp: before_done_def delta_text_def reasoning_text_def)

text \<open>\<open>from_stream\<close> fails exactly when an error event comes before the first \<open>Done\<close>; when
  it succeeds the text and the reasoning are the concatenation of the deltas before the first
  \<open>Done\<close>, and events after it are ignored.\<close>

theorem from_stream_result:
  "case from_stream es of
     Inl _ \<Rightarrow> \<exists>e \<in> set (before_done es). is_error_event e
   | Inr r \<Rightarrow> (\<forall>e \<in> set (before_done es). \<not> is_error_event e)
       \<and> r_text r = delta_text (before_done es)
       \<and> r_reasoning r = (if reasoning_text (before_done es) = [] then None
                          else Some (reasoning_text (before_done es)))"
proof (cases "collect es collect_init")
  case (Inl e)
  then show ?thesis using collect_error_iff [of es collect_init] by (simp add: from_stream_def)
next
  case (Inr s)
  then show ?thesis using collect_error_iff [of es collect_init] collect_text [OF Inr]
    by (simp add: from_stream_def collect_init_def)
qed

theorem from_stream_result_witness:
  "\<exists>r. from_stream [Delta ''a'', Delta ''b'', Done ToolUse, StreamError ''late''] = Inr r \<and> r_text r = ''ab''"
  using from_stream_result [of "[Delta ''a'', Delta ''b'', Done ToolUse, StreamError ''late'']"]
  by (simp add: from_stream_def delta_text_def before_done_def)

subsection \<open>Tool calls\<close>

lemma apply_call_delta_length:
  "length (apply_call_delta idx i n d calls) = max (length calls) (Suc idx)"
  by (simp add: apply_call_delta_def Let_def)

lemma apply_call_delta_other:
  "j < length calls \<Longrightarrow> j \<noteq> idx \<Longrightarrow> apply_call_delta idx i n d calls ! j = calls ! j"
  by (simp add: apply_call_delta_def Let_def nth_append)

lemma apply_call_delta_args:
  "tc_arguments (apply_call_delta idx i n d calls ! idx)
     = (if idx < length calls then tc_arguments (calls ! idx) else []) @ d"
  by (auto simp: apply_call_delta_def Let_def nth_append empty_call_def)

lemma finish_call_ids: "map tc_id (finish_call i n a cs) = map tc_id cs"
  by (induction cs) auto

lemma finish_call_found:
  "i \<in> set (map tc_id cs) \<Longrightarrow> \<exists>c \<in> set (finish_call i n a cs). tc_id c = i \<and> tc_name c = n \<and> tc_arguments c = a"
  by (induction cs) auto

end
