(* ===== verification/Fallback.thy ===== *)
theory Fallback
  imports Error_Class Credential_Pool Chat_Stream
begin

text \<open>
  \<open>providers/fallback.rs\<close>: the chat decorator that walks a chain of models with cooldowns,
  same-model retries and credential rotation.  A chat is the task spawned by
  \<open>FallbackChatProvider::chat\<close>; what it shares with other tasks (the cooldown map, the
  credential pools, the key cells, each reached through an \<open>Arc\<close>) is the record \<open>shared\<close>, with
  pools and cells under reference numbers because several entries may hold the same one.
  The environment \<open>fb_env\<close> says what each provider call answers, how long it takes, and what
  other tasks do to the shared state meanwhile; the code between two awaits is one step.
  A result \<open>None\<close> is a panic of the task.
\<close>

subsection \<open>State and environment\<close>

record fb_entry =
  fe_model :: string
  fe_provider :: string
  fe_pool :: "nat option"
  fe_key :: "nat option"

record shared =
  cooldowns :: "string \<Rightarrow> nat option"
  pools :: "nat \<Rightarrow> pool"
  cells :: "nat \<Rightarrow> string"

text \<open>One provider call as the task made it: a ghost log the properties speak about.\<close>

record call_log =
  cl_model :: string
  cl_key :: "string option"
  cl_at :: nat
  cl_gate :: "nat option"

record fb_state =
  sh :: shared
  clock :: nat
  calls :: "call_log list"
  sent :: "stream_event list"

datatype attempt = Setup_Err string | Stream "stream_event list"

record 'j fb_env =
  env_json :: "'j json_lib"
  env_wall :: "nat \<Rightarrow> nat option"
  env_respond :: "nat \<Rightarrow> attempt"
  env_elapsed :: "nat \<Rightarrow> nat"
  env_rand :: "nat \<Rightarrow> nat \<Rightarrow> nat"
  env_others :: "nat \<Rightarrow> shared \<Rightarrow> shared"
  env_others_asleep :: "nat \<Rightarrow> shared \<Rightarrow> shared"

definition transient_max_retries :: nat where "transient_max_retries = 2"
definition rate_limit_same_model_retries :: nat where "rate_limit_same_model_retries = 1"
definition rate_limit_sleep_cap :: nat where "rate_limit_sleep_cap = from_secs 60"
definition transient_backoff_base :: nat where "transient_backoff_base = from_secs 2"
definition default_exhaustion_cooldown :: nat where "default_exhaustion_cooldown = from_secs 3600"

definition chain_exhausted_tag :: string where "chain_exhausted_tag = ''fallback_chain_exhausted''"
definition chain_all_cooling_tag :: string where "chain_all_cooling_tag = ''fallback_chain_all_cooling''"

subsection \<open>Recovery decisions\<close>

definition is_same_model_retryable :: "classified_error \<Rightarrow> bool" where
  "is_same_model_retryable c = should_same_model_retry c"

definition should_failover_to_next :: "classified_error \<Rightarrow> bool" where
  "should_failover_to_next c \<longleftrightarrow> should_fallback c \<or> rh_retry (recovery_hints c)"

definition transient_backoff :: "nat \<Rightarrow> nat" where
  "transient_backoff attempt = transient_backoff_base * 2 ^ (attempt - 1)"

definition same_model_delay :: "classified_error \<Rightarrow> nat \<Rightarrow> nat" where
  "same_model_delay c attempt =
     (case category c of
        CRateLimit \<Rightarrow>
          min (case cooldown_duration c of Some d \<Rightarrow> d | None \<Rightarrow> rate_limit_sleep_cap)
              rate_limit_sleep_cap
      | _ \<Rightarrow> transient_backoff attempt)"

definition same_model_max_retries :: "classified_error \<Rightarrow> nat" where
  "same_model_max_retries c =
     (case category c of CRateLimit \<Rightarrow> rate_limit_same_model_retries | _ \<Rightarrow> transient_max_retries)"

definition record_cooldown ::
  "nat \<Rightarrow> string \<Rightarrow> classified_error \<Rightarrow> nat option \<Rightarrow> shared \<Rightarrow> shared option" where
  "record_cooldown now model c pool s =
     (let pool_duration = Option.bind pool (\<lambda>p. soonest_recovery now model (pools s p)) in
      case or_else pool_duration (cooldown_duration c) of
        None \<Rightarrow> Some s
      | Some d \<Rightarrow>
          map_option (\<lambda>t. s\<lparr>cooldowns := (cooldowns s)(model \<mapsto> t)\<rparr>) (instant_add now d))"

subsection \<open>One provider call and its stream\<close>

definition send :: "stream_event \<Rightarrow> fb_state \<Rightarrow> fb_state" where
  "send ev st = st\<lparr>sent := sent st @ [ev]\<rparr>"

definition sleep :: "'j fb_env \<Rightarrow> nat \<Rightarrow> fb_state \<Rightarrow> fb_state" where
  "sleep env d st =
     st\<lparr>sh := env_others_asleep env (length (calls st)) (sh st), clock := clock st + d\<rparr>"

text \<open>\<open>entry.provider.chat(req)\<close>: logged, then time passes and other tasks act.\<close>

definition do_call :: "'j fb_env \<Rightarrow> fb_entry \<Rightarrow> fb_state \<Rightarrow> fb_state" where
  "do_call env e st =
     (let n = length (calls st) in
      st\<lparr>sh := env_others env n (sh st),
         clock := clock st + env_elapsed env n,
         calls := calls st @ [\<lparr>cl_model = fe_model e, cl_key = map_option (cells (sh st)) (fe_key e),
                               cl_at = clock st, cl_gate = cooldowns (sh st) (fe_model e)\<rparr>]\<rparr>)"

datatype attempt_result =
    A_return | A_ended | A_failover | A_rotate classified_error

datatype drain_result = D_retry | D_out attempt_result

definition cool_and :: "attempt_result \<Rightarrow> fb_entry \<Rightarrow> classified_error \<Rightarrow> nat option \<Rightarrow> fb_state \<Rightarrow>
    (attempt_result \<times> fb_state) option" where
  "cool_and r e c pool st =
     map_option (\<lambda>s. (r, st\<lparr>sh := s\<rparr>)) (record_cooldown (clock st) (fe_model e) c pool (sh st))"

definition on_stream_error ::
  "'j fb_env \<Rightarrow> fb_entry \<Rightarrow> classified_error \<Rightarrow> stream_event \<Rightarrow> nat \<Rightarrow> bool \<Rightarrow> fb_state \<Rightarrow>
     (drain_result \<times> fb_state) option" where
  "on_stream_error env e c ev ta saw_content st =
     (if should_rotate_credential c \<and> fe_pool e \<noteq> None \<and> fe_key e \<noteq> None
        then Some (D_out (A_rotate c), st)
      else if is_same_model_retryable c \<and> \<not> saw_content \<and> ta < same_model_max_retries c
        then Some (D_retry, sleep env (same_model_delay c (Suc ta)) st)
      else if should_failover_to_next c
        then map_option (\<lambda>(r, st'). (D_out r, st')) (cool_and A_failover e c None st)
      else Some (D_out A_return, send ev st))"

definition classify_at :: "'j fb_env \<Rightarrow> nat \<Rightarrow> fb_entry \<Rightarrow> nat \<Rightarrow> string \<Rightarrow> classified_error" where
  "classify_at env n e status body =
     with_provider (classify (env_json env) (env_wall env n) (fe_provider e) status body)
       (fe_provider e) (fe_model e)"

fun drain ::
  "'j fb_env \<Rightarrow> nat \<Rightarrow> fb_entry \<Rightarrow> nat \<Rightarrow> bool \<Rightarrow> bool \<Rightarrow> stream_event list \<Rightarrow> fb_state \<Rightarrow>
     (drain_result \<times> fb_state) option" where
  "drain env n e ta saw ann [] st = Some (D_out A_ended, st)"
| "drain env n e ta saw ann (HttpError status msg # es) st =
     on_stream_error env e (classify_at env n e status msg) (HttpError status msg) ta saw st"
| "drain env n e ta saw ann (StreamError msg # es) st =
     on_stream_error env e (classify_at env n e 0 msg) (StreamError msg) ta saw st"
| "drain env n e ta saw ann (ev # es) st =
     (let st1 = (if ann then st else send (ModelUsed (fe_model e)) st)
      in drain env n e ta True True es (send ev st1))"

lemma max_retries_le: "same_model_max_retries c \<le> 2"
  by (simp add: same_model_max_retries_def rate_limit_same_model_retries_def
      transient_max_retries_def split: error_category.split)

lemma drain_ok_event:
  "\<not> is_error_event ev \<Longrightarrow> drain env n e ta saw ann (ev # es) st =
     drain env n e ta True True es (send ev (if ann then st else send (ModelUsed (fe_model e)) st))"
  by (cases ev) (simp_all add: Let_def)

lemma drain_retry_bound: "drain env n e ta saw ann es st = Some (D_retry, st') \<Longrightarrow> ta < 2"
proof (induction env n e ta saw ann es st rule: drain.induct)
  case (2 env n e ta saw ann status msg es st)
  then show ?case using max_retries_le [of "classify_at env n e status msg"]
    by (auto simp: on_stream_error_def cool_and_def split: if_splits)
next
  case (3 env n e ta saw ann msg es st)
  then show ?case using max_retries_le [of "classify_at env n e 0 msg"]
    by (auto simp: on_stream_error_def cool_and_def split: if_splits)
qed (simp_all add: Let_def)

subsection \<open>The transient loop, the credential loop and the chain\<close>

function attempts ::
  "'j fb_env \<Rightarrow> fb_entry \<Rightarrow> nat \<Rightarrow> fb_state \<Rightarrow> (attempt_result \<times> fb_state) option" where
  "attempts env e ta st =
     (let n = length (calls st); st1 = do_call env e st in
      case env_respond env n of
        Setup_Err msg \<Rightarrow>
          (let c = classify_at env n e 0 msg in
           if is_same_model_retryable c \<and> ta < same_model_max_retries c
             then attempts env e (Suc ta) (sleep env (same_model_delay c (Suc ta)) st1)
           else if should_failover_to_next c then cool_and A_failover e c None st1
           else Some (A_return, send (StreamError msg) st1))
      | Stream es \<Rightarrow>
          (case drain env n e ta False False es st1 of
             None \<Rightarrow> None
           | Some (D_out r, st2) \<Rightarrow> Some (r, st2)
           | Some (D_retry, st2) \<Rightarrow> attempts env e (Suc ta) st2))"
  by pat_completeness auto
termination
proof (relation "measure (\<lambda>(env, e, ta, st). 2 - ta)", goal_cases)
  case 1
  show ?case by simp
next
  case (2 env e ta st n st1 msg c)
  then show ?case using max_retries_le [of c] by auto
next
  case (3 env e ta st n st1 es p r st2)
  then show ?case using drain_retry_bound [of env n e ta False False es st1 st2] by auto
qed

declare attempts.simps [simp del]

datatype entry_result = R_return | R_broke | R_unbroken

text \<open>The rotation after a credential failure: mark the key of the cell, take the next one.\<close>

definition rotate ::
  "'j fb_env \<Rightarrow> fb_entry \<Rightarrow> nat \<Rightarrow> nat \<Rightarrow> classified_error \<Rightarrow> fb_state \<Rightarrow> (bool \<times> fb_state) option" where
  "rotate env e p k c st =
     (case mark_exhausted (clock st) (cells (sh st) k) (fe_model e)
             (case cooldown_duration c of Some d \<Rightarrow> d | None \<Rightarrow> default_exhaustion_cooldown)
             (pools (sh st) p) of
        None \<Rightarrow> None
      | Some p1 \<Rightarrow>
          (let (nk, p2) = next_credential (clock st) (env_rand env (length (calls st))) (fe_model e) p1;
               s1 = (sh st)\<lparr>pools := (pools (sh st))(p := p2)\<rparr>
           in case nk of
                Some nkey \<Rightarrow> Some (True, st\<lparr>sh := s1\<lparr>cells := (cells s1)(k := nkey)\<rparr>\<rparr>)
              | None \<Rightarrow>
                  map_option (\<lambda>s. (False, st\<lparr>sh := s\<rparr>))
                    (record_cooldown (clock st) (fe_model e) c (fe_pool e) s1)))"

fun rotations :: "'j fb_env \<Rightarrow> fb_entry \<Rightarrow> nat \<Rightarrow> fb_state \<Rightarrow> (entry_result \<times> fb_state) option" where
  "rotations env e 0 st = Some (R_unbroken, st)"
| "rotations env e (Suc r) st =
     (case attempts env e 0 st of
        None \<Rightarrow> None
      | Some (A_return, st1) \<Rightarrow> Some (R_return, st1)
      | Some (A_ended, st1) \<Rightarrow> Some (R_return, st1)
      | Some (A_failover, st1) \<Rightarrow> Some (R_broke, st1)
      | Some (A_rotate c, st1) \<Rightarrow>
          (case (fe_pool e, fe_key e) of
             (Some p, Some k) \<Rightarrow>
               (case rotate env e p k c st1 of
                  None \<Rightarrow> None
                | Some (True, st2) \<Rightarrow> rotations env e r st2
                | Some (False, st2) \<Rightarrow> Some (R_broke, st2))
           | _ \<Rightarrow> Some (R_broke, st1)))"

definition max_rotations :: "fb_entry \<Rightarrow> shared \<Rightarrow> nat" where
  "max_rotations e s = (case fe_pool e of Some p \<Rightarrow> pool_len (pools s p) | None \<Rightarrow> 1)"

definition chain_failed :: "nat option \<Rightarrow> bool \<Rightarrow> fb_state \<Rightarrow> fb_state" where
  "chain_failed soonest any_attempted st =
     (if \<not> any_attempted then
        send (StreamError (chain_all_cooling_tag @ '': all providers on cooldown, retry in ''
          @ show_nat (case soonest of Some t \<Rightarrow> as_secs (t - clock st) | None \<Rightarrow> 0) @ ''s'')) st
      else
        send (StreamError (chain_exhausted_tag
          @ '': All providers in fallback chain failed with retryable errors'')) st)"

fun chain_loop ::
  "'j fb_env \<Rightarrow> fb_entry list \<Rightarrow> nat option \<Rightarrow> bool \<Rightarrow> fb_state \<Rightarrow> fb_state option" where
  "chain_loop env [] soonest any_attempted st = Some (chain_failed soonest any_attempted st)"
| "chain_loop env (e # es) soonest any_attempted st =
     (let gate = cooldowns (sh st) (fe_model e) in
      if (case gate of Some t \<Rightarrow> clock st < t | None \<Rightarrow> False)
      then chain_loop env es
             (Some (case soonest of None \<Rightarrow> the gate | Some s \<Rightarrow> min s (the gate))) any_attempted st
      else
        let st0 = st\<lparr>sh := (sh st)\<lparr>cooldowns := (cooldowns (sh st))(fe_model e := None)\<rparr>\<rparr> in
        case rotations env e (max_rotations e (sh st0)) st0 of
          None \<Rightarrow> None
        | Some (R_return, st1) \<Rightarrow> Some st1
        | Some (R_broke, st1) \<Rightarrow> chain_loop env es soonest True st1
        | Some (R_unbroken, st1) \<Rightarrow>
            (let c = classify (env_json env) (env_wall env (length (calls st1))) (fe_provider e) 503
                       ''all credentials exhausted'' in
             case record_cooldown (clock st1) (fe_model e) c None (sh st1) of
               None \<Rightarrow> None
             | Some s \<Rightarrow> chain_loop env es soonest True (st1\<lparr>sh := s\<rparr>)))"

definition chat :: "'j fb_env \<Rightarrow> fb_entry list \<Rightarrow> shared \<Rightarrow> nat \<Rightarrow> fb_state option" where
  "chat env chain s now =
     chain_loop env chain None False \<lparr>sh = s, clock = now, calls = [], sent = []\<rparr>"

subsection \<open>What one entry adds to a run\<close>

definition clean :: "stream_event list \<Rightarrow> bool" where
  "clean es \<longleftrightarrow> filter is_error_event es = []"

lemma clean_simps [simp]:
  "clean []" "clean (xs @ ys) \<longleftrightarrow> clean xs \<and> clean ys"
  "clean (e # es) \<longleftrightarrow> \<not> is_error_event e \<and> clean es"
  by (simp_all add: clean_def)

lemma clean_butlast: "clean es \<Longrightarrow> clean (butlast es)"
  by (auto simp: clean_def filter_empty_conv dest: in_set_butlastD)

lemma is_error_event_simps [simp]:
  "\<not> is_error_event (ModelUsed m)" "is_error_event (StreamError x)" "is_error_event (HttpError n x)"
  "\<not> is_error_event (Delta x)"
  by (simp_all add: is_error_event_def)

lemma send_simps [simp]:
  "sh (send ev st) = sh st" "clock (send ev st) = clock st" "calls (send ev st) = calls st"
  "sent (send ev st) = sent st @ [ev]"
  by (simp_all add: send_def)

lemma sleep_simps [simp]: "calls (sleep env d st) = calls st" "sent (sleep env d st) = sent st"
  by (simp_all add: sleep_def)

text \<open>\<open>run_ok n lst st st'\<close>: from \<open>st\<close> to \<open>st'\<close> at most \<open>n\<close> calls were made, and no error event
  was forwarded, except, with \<open>lst\<close>, as the very last event.\<close>

definition run_ok :: "nat \<Rightarrow> bool \<Rightarrow> fb_state \<Rightarrow> fb_state \<Rightarrow> bool" where
  "run_ok n lst st st' \<longleftrightarrow>
     (\<exists>cs es. calls st' = calls st @ cs \<and> length cs \<le> n \<and> sent st' = sent st @ es
        \<and> clean (if lst then butlast es else es))"

lemma run_ok_refl: "calls st' = calls st \<Longrightarrow> sent st' = sent st \<Longrightarrow> run_ok n l st st'"
  by (auto simp: run_ok_def)

lemma run_ok_same [simp]: "run_ok n l st st" "run_ok n True st (send ev st)"
  by (simp_all add: run_ok_def)

lemma run_ok_mono: "run_ok n l st st' \<Longrightarrow> n \<le> m \<Longrightarrow> (l \<Longrightarrow> l') \<Longrightarrow> run_ok m l' st st'"
  unfolding run_ok_def by (cases l; cases l') (fastforce dest: clean_butlast)+

lemma run_ok_trans:
  assumes "run_ok n False st st1" "run_ok m l st1 st2"
  shows "run_ok (n + m) l st st2"
proof -
  obtain cs es cs' es' where
    "calls st1 = calls st @ cs" "length cs \<le> n" "sent st1 = sent st @ es" "clean es"
    "calls st2 = calls st1 @ cs'" "length cs' \<le> m" "sent st2 = sent st1 @ es'"
    "clean (if l then butlast es' else es')"
    using assms unfolding run_ok_def by auto
  then show ?thesis unfolding run_ok_def
    by (intro exI [of _ "cs @ cs'"] exI [of _ "es @ es'"])
      (auto simp: butlast_append dest: clean_butlast)
qed

lemma run_ok_step:
  "run_ok 0 False st st1 \<Longrightarrow> run_ok m l st1 st2 \<Longrightarrow> run_ok m l st st2"
  using run_ok_trans [of 0 st st1 m l st2] by simp

lemma do_call_run: "run_ok (Suc 0) False st (do_call env e st)"
  by (auto simp: run_ok_def do_call_def Let_def)

lemma sleep_run: "run_ok 0 False st (sleep env d st)"
  by (auto simp: run_ok_def)

lemma cool_and_run: "cool_and r e c pool st = Some (r', st') \<Longrightarrow> r' = r \<and> run_ok 0 l st st'"
  by (auto simp: cool_and_def intro!: run_ok_refl)

lemma on_stream_error_cases:
  assumes "on_stream_error env e c ev ta saw st = Some (x, st')"
  obtains (rotate) "x = D_out (A_rotate c)" "st' = st" "should_rotate_credential c"
      "fe_pool e \<noteq> None" "fe_key e \<noteq> None"
  | (retry) "x = D_retry" "st' = sleep env (same_model_delay c (Suc ta)) st" "\<not> saw"
      "ta < same_model_max_retries c" "is_same_model_retryable c"
  | (failover) "x = D_out A_failover" "cool_and A_failover e c None st = Some (A_failover, st')"
  | (final) "x = D_out A_return" "st' = send ev st" "\<not> should_failover_to_next c"
  using assms cool_and_run [of A_failover e c None st _ _ False]
  by (auto simp: on_stream_error_def split: if_splits)

lemma on_stream_error_run:
  "on_stream_error env e c ev ta saw st = Some (x, st') \<Longrightarrow> run_ok 0 (x = D_out A_return) st st'"
  by (erule on_stream_error_cases) (auto intro: sleep_run dest: cool_and_run)

lemma drain_run:
  "drain env n e ta saw ann es st = Some (x, st') \<Longrightarrow> run_ok 0 (x = D_out A_return) st st'"
proof (induction es arbitrary: saw ann st)
  case Nil
  then show ?case by (auto intro: run_ok_refl)
next
  case (Cons ev es)
  show ?case
  proof (cases "is_error_event ev")
    case True
    then show ?thesis using Cons.prems
      by (cases ev) (simp_all add: is_error_event_def on_stream_error_run)
  next
    case False
    let ?st = "send ev (if ann then st else send (ModelUsed (fe_model e)) st)"
    have "run_ok 0 False st ?st" using False by (simp add: run_ok_def)
    moreover have "run_ok 0 (x = D_out A_return) ?st st'"
      using Cons.prems False by (intro Cons.IH) (simp add: drain_ok_event)
    ultimately show ?thesis by (rule run_ok_step)
  qed
qed

lemma attempts_run:
  "attempts env e ta st = Some (r, st') \<Longrightarrow> run_ok (Suc (2 - ta)) (r = A_return) st st'"
proof (induction env e ta st rule: attempts.induct)
  case (1 env e ta st)
  let ?n = "length (calls st)" and ?st1 = "do_call env e st"
  have again: "run_ok (Suc (2 - ta)) (r = A_return) st st'"
    if "run_ok 0 False ?st1 st2" "attempts env e (Suc ta) st2 = Some (r, st')" "ta < 2"
      "run_ok (Suc (2 - Suc ta)) (r = A_return) st2 st'" for st2
  proof -
    have "run_ok (Suc 0 + Suc (2 - Suc ta)) (r = A_return) st st'"
      by (rule run_ok_trans [OF do_call_run run_ok_step [OF that(1,4)]])
    then show ?thesis using that(3) by (elim run_ok_mono) auto
  qed
  have last: "run_ok (Suc (2 - ta)) (r = A_return) st st'" if "run_ok 0 (r = A_return) ?st1 st'"
    using run_ok_trans [OF do_call_run that] by (rule run_ok_mono) auto
  show ?case
  proof (cases "env_respond env ?n")
    case (Setup_Err msg)
    let ?c = "classify_at env ?n e 0 msg"
    show ?thesis
    proof (cases "is_same_model_retryable ?c \<and> ta < same_model_max_retries ?c")
      case True
      let ?st2 = "sleep env (same_model_delay ?c (Suc ta)) ?st1"
      have a: "attempts env e (Suc ta) ?st2 = Some (r, st')"
        using "1.prems" True Setup_Err by (simp add: attempts.simps [of env e ta] Let_def)
      from True have "ta < 2" using max_retries_le [of ?c] by simp
      with again [OF sleep_run a] "1.IH"(1) [OF refl refl Setup_Err refl True a] show ?thesis by simp
    next
      case False
      then show ?thesis using "1.prems" Setup_Err
        by (intro last) (auto simp: attempts.simps [of env e ta] Let_def
          split: if_splits dest: cool_and_run)
    qed
  next
    case (Stream es)
    then obtain x st2 where d: "drain env ?n e ta False False es ?st1 = Some (x, st2)"
      using "1.prems" by (simp add: attempts.simps [of env e ta] Let_def split: option.splits) force
    show ?thesis
    proof (cases x)
      case D_retry
      then have a: "attempts env e (Suc ta) st2 = Some (r, st')"
        using "1.prems" Stream d by (simp add: attempts.simps [of env e ta] Let_def)
      from d D_retry have ta: "ta < 2" by (blast intro: drain_retry_bound)
      have "run_ok 0 False ?st1 st2" using drain_run [OF d] D_retry by simp
      with again [OF _ a ta] "1.IH"(2) [OF refl refl Stream d [unfolded D_retry] refl _ a]
      show ?thesis using D_retry by simp
    next
      case (D_out r')
      then show ?thesis using "1.prems" Stream d drain_run [OF d]
        by (intro last) (simp add: attempts.simps [of env e ta] Let_def)
    qed
  qed
qed

subsection \<open>Relations every step of an entry keeps\<close>

text \<open>A relation between the states of a run that is reflexive, transitive and kept by the atomic
  steps of an entry is kept by the whole credential loop of that entry.\<close>

locale entry_relation =
  fixes R :: "'j fb_env \<Rightarrow> fb_entry \<Rightarrow> fb_state \<Rightarrow> fb_state \<Rightarrow> bool"
  assumes R_refl: "R env e st st"
    and R_trans: "R env e st st1 \<Longrightarrow> R env e st1 st2 \<Longrightarrow> R env e st st2"
    and R_call: "R env e st (do_call env e st)"
    and R_sleep: "R env e st (sleep env d st)"
    and R_send: "R env e st (send ev st)"
    and R_cool: "record_cooldown (clock st) (fe_model e) c pool (sh st) = Some s \<Longrightarrow> R env e st (st\<lparr>sh := s\<rparr>)"
    and R_rotate: "rotate env e p k c st = Some (b, st1) \<Longrightarrow> R env e st st1"
begin

lemma cool_and_rel: "cool_and r e c pool st = Some (r', st') \<Longrightarrow> R env e st st'"
  by (auto simp: cool_and_def intro: R_cool)

lemma on_stream_error_rel: "on_stream_error env e c ev ta saw st = Some (x, st') \<Longrightarrow> R env e st st'"
  by (erule on_stream_error_cases) (auto intro: R_refl R_sleep R_send cool_and_rel)

lemma drain_rel: "drain env n e ta saw ann es st = Some (x, st') \<Longrightarrow> R env e st st'"
proof (induction es arbitrary: saw ann st)
  case Nil
  then show ?case by (simp add: R_refl)
next
  case (Cons ev es)
  show ?case
  proof (cases "is_error_event ev")
    case True
    then show ?thesis using Cons.prems
      by (cases ev) (simp_all add: is_error_event_def on_stream_error_rel)
  next
    case False
    let ?st1 = "if ann then st else send (ModelUsed (fe_model e)) st"
    have "R env e st ?st1" by (simp add: R_refl R_send)
    moreover have "R env e ?st1 (send ev ?st1)" by (rule R_send)
    moreover have "R env e (send ev ?st1) st'"
      using Cons.prems False by (intro Cons.IH) (simp add: drain_ok_event)
    ultimately show ?thesis by (blast intro: R_trans)
  qed
qed

lemma attempts_rel: "attempts env e ta st = Some (r, st') \<Longrightarrow> R env e st st'"
proof (induction env e ta st rule: attempts.induct)
  case (1 env e ta st)
  let ?n = "length (calls st)" and ?st1 = "do_call env e st"
  have "R env e ?st1 st'"
  proof (cases "env_respond env ?n")
    case (Setup_Err msg)
    let ?c = "classify_at env ?n e 0 msg"
    show ?thesis
    proof (cases "is_same_model_retryable ?c \<and> ta < same_model_max_retries ?c")
      case True
      let ?st2 = "sleep env (same_model_delay ?c (Suc ta)) ?st1"
      have "attempts env e (Suc ta) ?st2 = Some (r, st')"
        using "1.prems" True Setup_Err by (simp add: attempts.simps [of env e ta] Let_def)
      from "1.IH"(1) [OF refl refl Setup_Err refl True this] R_sleep show ?thesis
        by (blast intro: R_trans)
    next
      case False
      then show ?thesis using "1.prems" Setup_Err
        by (auto simp: attempts.simps [of env e ta] Let_def
          split: if_splits intro: cool_and_rel R_send)
    qed
  next
    case (Stream es)
    then obtain x st2 where d: "drain env ?n e ta False False es ?st1 = Some (x, st2)"
      using "1.prems" by (simp add: attempts.simps [of env e ta] Let_def split: option.splits) force
    show ?thesis
    proof (cases x)
      case D_retry
      then have a: "attempts env e (Suc ta) st2 = Some (r, st')"
        using "1.prems" Stream d by (simp add: attempts.simps [of env e ta] Let_def)
      from "1.IH"(2) [OF refl refl Stream d [unfolded D_retry] refl _ a] drain_rel [OF d]
      show ?thesis using D_retry by (auto intro: R_trans)
    next
      case (D_out r')
      then show ?thesis using "1.prems" Stream d drain_rel [OF d]
        by (simp add: attempts.simps [of env e ta] Let_def)
    qed
  qed
  with R_call show ?case by (blast intro: R_trans)
qed

lemma rotations_rel: "rotations env e r st = Some (x, st') \<Longrightarrow> R env e st st'"
proof (induction r arbitrary: st)
  case 0
  then show ?case by (simp add: R_refl)
next
  case (Suc r)
  then obtain a st1 where a: "attempts env e 0 st = Some (a, st1)" by (auto split: option.splits)
  note R1 = attempts_rel [OF a]
  show ?case
  proof (cases a)
    case (A_rotate c)
    show ?thesis
    proof (cases "\<exists>p k. fe_pool e = Some p \<and> fe_key e = Some k")
      case True
      then obtain p k b st2 where "fe_pool e = Some p" "fe_key e = Some k"
        and rot: "rotate env e p k c st1 = Some (b, st2)"
        using Suc.prems a A_rotate by (auto split: option.splits)
      then have "R env e st2 st'"
        using Suc.prems Suc.IH [of st2] a A_rotate by (cases b) (auto simp: R_refl)
      with R1 R_rotate [OF rot] show ?thesis by (blast intro: R_trans)
    qed (use Suc.prems a A_rotate R1 in \<open>auto split: option.splits\<close>)
  qed (use Suc.prems a R1 in auto)
qed

end

subsection \<open>The pools keep their size\<close>

definition keeps_pools :: "'j fb_env \<Rightarrow> bool" where
  "keeps_pools env \<longleftrightarrow>
     (\<forall>n s p. pool_len (pools (env_others env n s) p) = pool_len (pools s p)
        \<and> pool_len (pools (env_others_asleep env n s) p) = pool_len (pools s p))"

definition pools_kept :: "'j fb_env \<Rightarrow> fb_entry \<Rightarrow> fb_state \<Rightarrow> fb_state \<Rightarrow> bool" where
  "pools_kept env e st st' \<longleftrightarrow>
     (keeps_pools env \<longrightarrow> (\<forall>p. pool_len (pools (sh st') p) = pool_len (pools (sh st) p)))"

lemma length_mark_entries [simp]: "length (mark_entries u k sc es) = length es"
  by (induction es) auto

lemma pool_len_mark: "mark_exhausted now k sc d p = Some p' \<Longrightarrow> pool_len p' = pool_len p"
  by (auto simp: mark_exhausted_def pool_len_def split: if_splits)

lemma select_index_entries: "select_index r p active = (i, p2) \<Longrightarrow> entries p2 = entries p"
  by (auto simp: select_index_def split: rotation_strategy.splits option.splits)

lemma pool_len_next: "next_credential now r sc p = (k, p') \<Longrightarrow> pool_len p' = pool_len p"
  by (auto simp: next_credential_def pool_len_def Let_def split: if_splits prod.splits
      dest: select_index_entries)

lemma record_cooldown_fields:
  "record_cooldown now m c pool s = Some s' \<Longrightarrow>
     pools s' = pools s \<and> cells s' = cells s \<and> (\<forall>m'. m' \<noteq> m \<longrightarrow> cooldowns s' m' = cooldowns s m')"
  by (auto simp: record_cooldown_def split: option.splits)

text \<open>The outcomes of a rotation, in terms of the two pool operations.\<close>

lemma rotate_cases:
  assumes "rotate env e p k c st = Some (b, st')"
  obtains p1 nk p2 s1 where
    "mark_exhausted (clock st) (cells (sh st) k) (fe_model e)
       (case cooldown_duration c of Some d \<Rightarrow> d | None \<Rightarrow> default_exhaustion_cooldown)
       (pools (sh st) p) = Some p1"
    "next_credential (clock st) (env_rand env (length (calls st))) (fe_model e) p1 = (nk, p2)"
    "s1 = (sh st)\<lparr>pools := (pools (sh st))(p := p2)\<rparr>"
    "(\<exists>nkey. nk = Some nkey \<and> b \<and> st' = st\<lparr>sh := s1\<lparr>cells := (cells s1)(k := nkey)\<rparr>\<rparr>)
     \<or> (\<exists>s. nk = None \<and> \<not> b \<and> record_cooldown (clock st) (fe_model e) c (fe_pool e) s1 = Some s
          \<and> st' = st\<lparr>sh := s\<rparr>)"
proof -
  let ?nx = "next_credential (clock st) (env_rand env (length (calls st))) (fe_model e)"
  from assms obtain p1 where p1: "mark_exhausted (clock st) (cells (sh st) k) (fe_model e)
       (case cooldown_duration c of Some d \<Rightarrow> d | None \<Rightarrow> default_exhaustion_cooldown)
       (pools (sh st) p) = Some p1"
    by (auto simp: rotate_def split: option.splits)
  obtain nk p2 where nk: "?nx p1 = (nk, p2)" by fastforce
  show thesis
  proof (cases nk)
    case None
    with assms p1 nk show thesis
      by (intro that [OF p1 nk refl]) (auto simp: rotate_def Let_def)
  next
    case (Some nkey)
    with assms p1 nk show thesis
      by (intro that [OF p1 nk refl]) (auto simp: rotate_def Let_def)
  qed
qed

lemma do_call_pools: "pools (sh (do_call env e st)) = pools (env_others env (length (calls st)) (sh st))"
  by (simp add: do_call_def Let_def)

interpretation kept: entry_relation pools_kept
proof (unfold_locales, goal_cases)
  case (7 env e p k c st b st')
  then show ?case
    by (cases rule: rotate_cases)
      (auto simp: pools_kept_def dest!: pool_len_mark pool_len_next record_cooldown_fields)
qed (auto simp: pools_kept_def keeps_pools_def do_call_pools sleep_def dest: record_cooldown_fields)

subsection \<open>A quiet environment\<close>

text \<open>Other tasks leave the cooldown map alone while the chat runs.\<close>

definition quiet :: "'j fb_env \<Rightarrow> bool" where
  "quiet env \<longleftrightarrow>
     (\<forall>n s. cooldowns (env_others env n s) = cooldowns s
        \<and> cooldowns (env_others_asleep env n s) = cooldowns s)"

definition stays_on :: "'j fb_env \<Rightarrow> fb_entry \<Rightarrow> fb_state \<Rightarrow> fb_state \<Rightarrow> bool" where
  "stays_on env e st st' \<longleftrightarrow>
     clock st \<le> clock st'
     \<and> (\<exists>cs. calls st' = calls st @ cs
          \<and> (\<forall>c \<in> set cs. cl_model c = fe_model e \<and> clock st \<le> cl_at c))
     \<and> (quiet env \<longrightarrow> (\<forall>m. m \<noteq> fe_model e \<longrightarrow> cooldowns (sh st') m = cooldowns (sh st) m))"

interpretation stays: entry_relation stays_on
proof (unfold_locales, goal_cases)
  case (2 env e st st1 st2)
  then obtain cs cs' where
    "calls st1 = calls st @ cs" "\<forall>c \<in> set cs. cl_model c = fe_model e \<and> clock st \<le> cl_at c"
    "calls st2 = calls st1 @ cs'" "\<forall>c \<in> set cs'. cl_model c = fe_model e \<and> clock st1 \<le> cl_at c"
    "clock st \<le> clock st1" "clock st1 \<le> clock st2"
    unfolding stays_on_def by auto
  then have "\<exists>cs. calls st2 = calls st @ cs
      \<and> (\<forall>c \<in> set cs. cl_model c = fe_model e \<and> clock st \<le> cl_at c)" "clock st \<le> clock st2"
    by (auto intro: order_trans exI [of _ "cs @ cs'"])
  with 2 show ?case unfolding stays_on_def by metis
next
  case (7 env e p k c st b st')
  then show ?case
    by (cases rule: rotate_cases) (auto simp: stays_on_def dest!: record_cooldown_fields)
qed (auto simp: stays_on_def quiet_def do_call_def Let_def sleep_def dest!: record_cooldown_fields)

subsection \<open>The whole chain\<close>

lemma rotations_run: "rotations env e r st = Some (x, st') \<Longrightarrow> run_ok (3 * r) (x = R_return) st st'"
proof (induction r arbitrary: st)
  case 0
  then show ?case by simp
next
  case (Suc r)
  then obtain a st1 where a: "attempts env e 0 st = Some (a, st1)" by (auto split: option.splits)
  have R1: "run_ok 3 (a = A_return) st st1" using attempts_run [OF a] by (simp add: numeral_3_eq_3)
  show ?case
  proof (cases a)
    case (A_rotate c)
    show ?thesis
    proof (cases "\<exists>p k. fe_pool e = Some p \<and> fe_key e = Some k")
      case True
      then obtain p k b st2 where "fe_pool e = Some p" "fe_key e = Some k"
        and rot: "rotate env e p k c st1 = Some (b, st2)"
        using Suc.prems a A_rotate by (auto split: option.splits)
      then have "run_ok (3 * r) (x = R_return) st2 st'"
        using Suc.prems Suc.IH [of st2] a A_rotate by (cases b) auto
      moreover have "run_ok 0 False st1 st2"
        using rot by (cases rule: rotate_cases) (auto intro!: run_ok_refl)
      ultimately have "run_ok (3 * r) (x = R_return) st1 st'" by (blast intro: run_ok_step)
      with R1 A_rotate run_ok_trans [of 3 st st1] show ?thesis by auto
    qed (use Suc.prems a A_rotate R1 in \<open>auto split: option.splits elim: run_ok_mono\<close>)
  qed (use Suc.prems a R1 in \<open>auto elim: run_ok_mono\<close>)
qed

definition ungate :: "fb_entry \<Rightarrow> fb_state \<Rightarrow> fb_state" where
  "ungate e st = st\<lparr>sh := (sh st)\<lparr>cooldowns := (cooldowns (sh st))(fe_model e := None)\<rparr>\<rparr>"

definition cooling :: "fb_state \<Rightarrow> fb_entry \<Rightarrow> bool" where
  "cooling st e = (case cooldowns (sh st) (fe_model e) of Some t \<Rightarrow> clock st < t | None \<Rightarrow> False)"

lemma ungate_simps [simp]:
  "clock (ungate e st) = clock st" "calls (ungate e st) = calls st" "sent (ungate e st) = sent st"
  "pools (sh (ungate e st)) = pools (sh st)" "cells (sh (ungate e st)) = cells (sh st)"
  "cooldowns (sh (ungate e st)) m = (if m = fe_model e then None else cooldowns (sh st) m)"
  by (simp_all add: ungate_def)

lemma max_rotations_ungate [simp]: "max_rotations e' (sh (ungate e st)) = max_rotations e' (sh st)"
  by (simp add: max_rotations_def split: option.split)

lemma chain_loop_cooling:
  "cooling st e \<Longrightarrow> chain_loop env (e # es) soon att st =
     chain_loop env es (Some (case soon of None \<Rightarrow> the (cooldowns (sh st) (fe_model e))
       | Some s \<Rightarrow> min s (the (cooldowns (sh st) (fe_model e))))) att st"
  by (simp add: cooling_def Let_def)

lemma chain_loop_tried:
  "\<not> cooling st e \<Longrightarrow> chain_loop env (e # es) soon att st =
     (case rotations env e (max_rotations e (sh st)) (ungate e st) of
          None \<Rightarrow> None
        | Some (R_return, st1) \<Rightarrow> Some st1
        | Some (R_broke, st1) \<Rightarrow> chain_loop env es soon True st1
        | Some (R_unbroken, st1) \<Rightarrow>
            (case record_cooldown (clock st1) (fe_model e)
               (classify (env_json env) (env_wall env (length (calls st1))) (fe_provider e) 503
                  ''all credentials exhausted'') None (sh st1) of
               None \<Rightarrow> None
             | Some s \<Rightarrow> chain_loop env es soon True (st1\<lparr>sh := s\<rparr>)))"
  using max_rotations_ungate [of e e st, unfolded ungate_def]
  by (simp add: cooling_def ungate_def Let_def cong: option.case_cong prod.case_cong entry_result.case_cong)

lemma chain_loop_cases:
  assumes "chain_loop env (e # es) soon att st = Some st'"
  obtains (cooling) soon' where "cooling st e" "chain_loop env es soon' att st = Some st'"
  | (returned) "\<not> cooling st e"
      "rotations env e (max_rotations e (sh st)) (ungate e st) = Some (R_return, st')"
  | (next_entry) x st1 s where "\<not> cooling st e" "x \<noteq> R_return"
      "rotations env e (max_rotations e (sh st)) (ungate e st) = Some (x, st1)"
      "pools s = pools (sh st1)" "\<forall>m. m \<noteq> fe_model e \<longrightarrow> cooldowns s m = cooldowns (sh st1) m"
      "chain_loop env es soon True (st1\<lparr>sh := s\<rparr>) = Some st'"
proof (cases "cooling st e")
  case True
  with assms show ?thesis
    by (intro that(1)) (simp_all only: chain_loop_cooling)
next
  case False
  note eq = chain_loop_tried [OF False, of env es soon att]
  obtain x st1 where r: "rotations env e (max_rotations e (sh st)) (ungate e st) = Some (x, st1)"
    using assms by (simp only: eq split: option.splits) auto
  show ?thesis
  proof (cases x)
    case R_return
    with False r assms show ?thesis by (intro that(2)) (simp_all add: eq del: chain_loop.simps)
  next
    case R_broke
    with False r assms show ?thesis
      by (intro that(3) [OF _ _ r, of "sh st1"]) (simp_all add: eq del: chain_loop.simps)
  next
    case R_unbroken
    with r assms obtain s where s: "record_cooldown (clock st1) (fe_model e)
               (classify (env_json env) (env_wall env (length (calls st1))) (fe_provider e) 503
                  ''all credentials exhausted'') None (sh st1) = Some s"
        "chain_loop env es soon True (st1\<lparr>sh := s\<rparr>) = Some st'"
      by (simp add: eq del: chain_loop.simps split: option.splits)
    with False r R_unbroken record_cooldown_fields [OF s(1)] show ?thesis
      by (intro that(3) [OF _ _ r, of s]) auto
  qed
qed

definition call_budget :: "fb_entry list \<Rightarrow> shared \<Rightarrow> nat" where
  "call_budget es s = (\<Sum>e \<leftarrow> es. 3 * max_rotations e s)"

lemma max_rotations_kept:
  "pools_kept env e st st' \<Longrightarrow> keeps_pools env \<Longrightarrow> max_rotations e' (sh st') = max_rotations e' (sh st)"
  by (simp add: max_rotations_def pools_kept_def split: option.split)

lemma call_budget_kept:
  "pools_kept env e st st' \<Longrightarrow> keeps_pools env \<Longrightarrow> call_budget es (sh st') = call_budget es (sh st)"
  by (simp add: call_budget_def max_rotations_kept)

lemma call_budget_pools: "pools s = pools s' \<Longrightarrow> call_budget es s = call_budget es s'"
  by (simp add: call_budget_def max_rotations_def cong: option.case_cong)

lemma run_ok_congs:
  "run_ok n l (ungate e st) st' = run_ok n l st st'"
  "run_ok n l (st\<lparr>sh := s\<rparr>) st' = run_ok n l st st'"
  by (simp_all add: run_ok_def)

lemma chain_failed_run: "run_ok n True st (chain_failed soon att st)"
  by (simp add: chain_failed_def)

lemma chain_loop_run:
  "chain_loop env es soon att st = Some st' \<Longrightarrow>
     \<exists>n. run_ok n True st st' \<and> (keeps_pools env \<longrightarrow> n \<le> call_budget es (sh st))"
proof (induction es arbitrary: soon att st)
  case Nil
  then show ?case by (auto intro!: exI [of _ 0] chain_failed_run)
next
  case (Cons e es)
  from Cons.prems show ?case
  proof (cases rule: chain_loop_cases)
    case cooling
    from Cons.IH [OF this(2)] show ?thesis by (auto simp: call_budget_def)
  next
    case returned
    from rotations_run [OF this(2)] show ?thesis
      by (auto simp: run_ok_congs call_budget_def intro!: exI [of _ "3 * max_rotations e (sh st)"])
  next
    case (next_entry x st1 s)
    from Cons.IH [OF next_entry(6)] obtain n where
      n: "run_ok n True st1 st'" "keeps_pools env \<longrightarrow> n \<le> call_budget es s"
      by (auto simp: run_ok_congs)
    have "run_ok (3 * max_rotations e (sh st)) False st st1"
      using rotations_run [OF next_entry(3)] next_entry(2) by (simp add: run_ok_congs)
    from run_ok_trans [OF this n(1)]
    have "run_ok (3 * max_rotations e (sh st) + n) True st st'" .
    moreover have "call_budget es s = call_budget es (sh st)" if "keeps_pools env"
      using call_budget_kept [OF kept.rotations_rel [OF next_entry(3)] that]
        call_budget_pools [OF next_entry(4)] call_budget_pools [of "sh (ungate e st)" "sh st"]
      by simp
    ultimately show ?thesis using n(2) by (force simp: call_budget_def)
  qed
qed

subsection \<open>Properties\<close>

text \<open>A chain of two plain entries without pools, and an environment whose n-th call gets the
  n-th answer of a list, one second each, for the closed instances below.\<close>

definition no_json :: "unit json_lib" where
  "no_json = \<lparr>json_from_str = \<lambda>_. None, json_get = \<lambda>_ _. None, json_as_u64 = \<lambda>_. None,
     json_as_f64 = \<lambda>_. None, json_as_str = \<lambda>_. None, rfc3339_timestamp = \<lambda>_. None\<rparr>"

definition script :: "attempt list \<Rightarrow> unit fb_env" where
  "script as = \<lparr>env_json = no_json, env_wall = \<lambda>_. None,
     env_respond = \<lambda>n. if n < length as then as ! n else Stream [], env_elapsed = \<lambda>_. 10 ^ 9,
     env_rand = \<lambda>_ _. 0, env_others = \<lambda>_ s. s, env_others_asleep = \<lambda>_ s. s\<rparr>"

definition plain :: "string \<Rightarrow> fb_entry" where
  "plain m = \<lparr>fe_model = m, fe_provider = ''openai'', fe_pool = None, fe_key = None\<rparr>"

definition idle :: shared where
  "idle = \<lparr>cooldowns = Map.empty, pools = \<lambda>_. new_pool ''p'' [] FillFirst, cells = \<lambda>_. []\<rparr>"

lemma script_ok: "keeps_pools (script as)" "quiet (script as)"
  by (simp_all add: script_def keeps_pools_def quiet_def)

lemma script_respond: "env_respond (script as) n = (if n < length as then as ! n else Stream [])"
  by (simp add: script_def)

definition view :: "fb_state option \<Rightarrow> (string list \<times> stream_event list) option" where
  "view r = map_option (\<lambda>st. (map cl_model (calls st), sent st)) r"

lemma view_SomeD: "view r = Some (ms, es) \<Longrightarrow> \<exists>st. r = Some st \<and> map cl_model (calls st) = ms \<and> sent st = es"
  by (auto simp: view_def)

lemmas run_simps = chat_def attempts.simps rotations.simps script_def plain_def idle_def view_def
  do_call_def cool_and_def record_cooldown_def on_stream_error_def classify_at_def sleep_def
  send_def max_rotations_def chain_failed_def instant_add_def from_secs_def
  classify_def classify_category_def classify_http_def classify_provider_def Let_def
  is_same_model_retryable_def should_same_model_retry_def from_parts_def with_provider_def
  should_failover_to_next_def recovery_hints_def same_model_delay_def same_model_max_retries_def
  extract_retry_after_def no_json_def cooldown_duration_def or_else_def is_long_cooldown_def
  transient_backoff_def transient_max_retries_def transient_backoff_base_def as_secs_def

lemma scripted_failover:
  "view (chat (script [Stream [HttpError 401 ''no''], Stream [Delta ''hi'']]) [plain ''a'', plain ''b'']
      idle 0) = Some ([''a'', ''b''], [ModelUsed ''b'', Delta ''hi''])"
  by (simp add: run_simps)

text \<open>C3: A chat makes a bounded number of provider calls, however the providers answer: at most
  three for each credential of each entry (the first call and two same-model retries).\<close>

theorem chat_call_bound:
  assumes "keeps_pools env" "chat env chain s now = Some st"
  shows "length (calls st) \<le> (\<Sum>e \<leftarrow> chain. 3 * max_rotations e s)"
proof -
  from chain_loop_run [OF assms(2) [unfolded chat_def]] assms(1) show ?thesis
    by (auto simp: run_ok_def call_budget_def)
qed

theorem chat_call_bound_witness:
  "\<exists>st. chat (script [Stream [HttpError 401 ''no''], Stream [Delta ''hi'']])
      [plain ''a'', plain ''b''] idle 0 = Some st \<and> length (calls st) \<le> 6"
proof -
  from view_SomeD [OF scripted_failover] obtain st where
    st: "chat (script [Stream [HttpError 401 ''no''], Stream [Delta ''hi'']])
      [plain ''a'', plain ''b''] idle 0 = Some st" by blast
  from chat_call_bound [OF script_ok(1) st] st show ?thesis by (simp add: max_rotations_def plain_def)
qed

text \<open>Provider errors are not shown to the consumer while the chain can still answer: of the
  events forwarded, only the very last can be an error.\<close>

theorem chat_errors_only_last:
  assumes "chat env chain s now = Some st"
  shows "\<forall>ev \<in> set (butlast (sent st)). \<not> is_error_event ev"
proof -
  from chain_loop_run [OF assms(1) [unfolded chat_def]]
  have "clean (butlast (sent st))" by (auto simp: run_ok_def)
  then show ?thesis by (auto simp: clean_def filter_empty_conv)
qed

theorem chat_errors_only_last_witness:
  "\<exists>st. chat (script [Stream [HttpError 401 ''no''], Stream [Delta ''hi'']])
      [plain ''a'', plain ''b''] idle 0 = Some st \<and> \<not> is_error_event (hd (sent st))"
proof -
  from view_SomeD [OF scripted_failover] obtain st where
    st: "chat (script [Stream [HttpError 401 ''no''], Stream [Delta ''hi'']])
      [plain ''a'', plain ''b''] idle 0 = Some st" "sent st = [ModelUsed ''b'', Delta ''hi'']" by blast
  from chat_errors_only_last [OF st(1)] st show ?thesis by simp
qed

lemma chain_loop_respects:
  assumes "quiet env" "chain_loop env es soon att st = Some st'"
    and "\<forall>m. cooldowns (sh st) m = D m \<or> (case D m of Some t \<Rightarrow> t \<le> clock st | None \<Rightarrow> True)"
    and "\<forall>c \<in> set (calls st). case D (cl_model c) of Some t \<Rightarrow> t \<le> cl_at c | None \<Rightarrow> True"
  shows "\<forall>c \<in> set (calls st'). case D (cl_model c) of Some t \<Rightarrow> t \<le> cl_at c | None \<Rightarrow> True"
  using assms(2-)
proof (induction es arbitrary: soon att st)
  case Nil
  then show ?case by (auto simp: chain_failed_def split: if_splits)
next
  case (Cons e es)
  have here: "case D (fe_model e) of Some t \<Rightarrow> t \<le> clock st | None \<Rightarrow> True" if "\<not> cooling st e"
    using that Cons.prems(2) [rule_format, of "fe_model e"]
    by (auto simp: cooling_def split: option.splits)
  have calls: "\<forall>c \<in> set (calls st1). case D (cl_model c) of Some t \<Rightarrow> t \<le> cl_at c | None \<Rightarrow> True"
    if ne: "\<not> cooling st e" and on: "stays_on env e (ungate e st) st1" for st1
  proof -
    obtain cs where cs: "calls st1 = calls st @ cs"
      "\<forall>c \<in> set cs. cl_model c = fe_model e \<and> clock st \<le> cl_at c"
      using on by (auto simp: stays_on_def)
    then show ?thesis using here [OF ne] Cons.prems(3) by (fastforce split: option.splits)
  qed
  from Cons.prems(1) show ?case
  proof (cases rule: chain_loop_cases)
    case cooling
    show ?thesis by (rule Cons.IH [OF cooling(2) Cons.prems(2,3)])
  next
    case returned
    show ?thesis by (rule calls [OF returned(1) stays.rotations_rel [OF returned(2)]])
  next
    case (next_entry x st1 s)
    note on = stays.rotations_rel [OF next_entry(3)]
    have mono: "clock st \<le> clock st1" using on by (simp add: stays_on_def)
    have "\<forall>m. cooldowns s m = D m \<or> (case D m of Some t \<Rightarrow> t \<le> clock st1 | None \<Rightarrow> True)"
    proof
      fix m
      show "cooldowns s m = D m \<or> (case D m of Some t \<Rightarrow> t \<le> clock st1 | None \<Rightarrow> True)"
      proof (cases "m = fe_model e")
        case True
        then show ?thesis using here [OF next_entry(1)] mono by (auto split: option.splits)
      next
        case False
        then have "cooldowns s m = cooldowns (sh st) m"
          using on assms(1) next_entry(5) by (simp add: stays_on_def)
        then show ?thesis using Cons.prems(2) [rule_format, of m] mono by (auto split: option.splits)
      qed
    qed
    then show ?thesis
      by (intro Cons.IH [OF next_entry(6)])
        (use calls [OF next_entry(1) on] in \<open>simp_all cong: option.case_cong\<close>)
  qed
qed

text \<open>Cooldowns are respected: with no other task touching the cooldown map, a model that is
  cooling when the chat starts is not called before its deadline.\<close>

theorem cooling_models_not_called:
  assumes "quiet env" "chat env chain s now = Some st" "c \<in> set (calls st)"
    and "cooldowns s (cl_model c) = Some t"
  shows "t \<le> cl_at c"
  using chain_loop_respects [OF assms(1) assms(2) [unfolded chat_def], of "cooldowns s"] assms(3,4)
  by fastforce

lemma drain_clean:
  "clean es \<Longrightarrow> drain env n e ta saw ann es st =
     Some (D_out A_ended, st\<lparr>sent := sent st @ (if ann \<or> es = [] then es else ModelUsed (fe_model e) # es)\<rparr>)"
proof (induction es arbitrary: saw ann st)
  case (Cons ev es)
  then show ?case by (simp add: drain_ok_event send_def del: drain.simps(3-))
qed simp

lemma chain_loop_all_cooling:
  "\<forall>e \<in> set es. cooling st e \<Longrightarrow> \<exists>soon'. chain_loop env (es @ es') soon att st = chain_loop env es' soon' att st"
  by (induction es arbitrary: soon) (auto simp: chain_loop_cooling simp del: chain_loop.simps)

lemma attempts_clean:
  assumes "env_respond env (length (calls st)) = Stream es" "clean es"
  shows "attempts env e ta st = Some (A_ended, (do_call env e st)\<lparr>sent := sent st
           @ (if es = [] then [] else ModelUsed (fe_model e) # es)\<rparr>)"
  using assms by (simp add: attempts.simps [of env e] drain_clean do_call_def Let_def)

lemma rotations_clean:
  assumes "env_respond env (length (calls st)) = Stream es" "clean es" "0 < r"
  shows "rotations env e r st = Some (R_return, (do_call env e st)\<lparr>sent := sent st
           @ (if es = [] then [] else ModelUsed (fe_model e) # es)\<rparr>)"
  using assms by (cases r) (simp_all add: attempts_clean)

lemma scripted_cooling:
  "view (chat (script [Stream [Delta ''hi'']]) [plain ''a'', plain ''b'']
      (idle\<lparr>cooldowns := [''a'' \<mapsto> 50, ''b'' \<mapsto> 7]\<rparr>) 9)
     = Some ([''b''], [ModelUsed ''b'', Delta ''hi''])"
  by (simp add: chat_def chain_loop_cooling chain_loop_tried cooling_def max_rotations_def
      attempts_clean [of "script [Stream [Delta ''hi'']]" _ "[Delta ''hi'']"] script_respond
      plain_def idle_def view_def do_call_def Let_def del: chain_loop.simps)

theorem cooling_models_not_called_witness:
  "\<exists>st c. chat (script [Stream [Delta ''hi'']]) [plain ''a'', plain ''b'']
      (idle\<lparr>cooldowns := [''a'' \<mapsto> 50, ''b'' \<mapsto> 7]\<rparr>) 9 = Some st
      \<and> calls st = [c] \<and> 7 \<le> cl_at c"
proof -
  from view_SomeD [OF scripted_cooling] obtain st where
    st: "chat (script [Stream [Delta ''hi'']]) [plain ''a'', plain ''b'']
      (idle\<lparr>cooldowns := [''a'' \<mapsto> 50, ''b'' \<mapsto> 7]\<rparr>) 9 = Some st"
    "map cl_model (calls st) = [''b'']" by (elim exE conjE) (rule that)
  from st(2) obtain c where c: "calls st = [c]" "cl_model c = ''b''"
    by (cases "calls st") simp_all
  have "cooldowns (idle\<lparr>cooldowns := [''a'' \<mapsto> 50, ''b'' \<mapsto> 7]\<rparr>) (cl_model c) = Some 7"
    using c by simp
  from cooling_models_not_called [OF script_ok(2) st(1) _ this] st c show ?thesis by auto
qed

text \<open>The chain has priority order: the first entry that is not cooling is the one called, and
  when its first answer has no error event the consumer gets exactly that answer, announced
  by the name of the model, after one single call.\<close>

theorem chat_first_available_answers:
  assumes "\<forall>e' \<in> set pre. \<exists>t. cooldowns s (fe_model e') = Some t \<and> now < t"
    and "\<forall>t. cooldowns s (fe_model e) = Some t \<longrightarrow> t \<le> now"
    and "0 < max_rotations e s"
    and "env_respond env 0 = Stream es" "\<forall>ev \<in> set es. \<not> is_error_event ev"
  shows "\<exists>st. chat env (pre @ e # post) s now = Some st \<and> map cl_model (calls st) = [fe_model e]
    \<and> sent st = (if es = [] then [] else ModelUsed (fe_model e) # es)"
proof -
  let ?st = "\<lparr>sh = s, clock = now, calls = [], sent = []\<rparr>"
  have "\<forall>e' \<in> set pre. cooling ?st e'" using assms(1) by (auto simp: cooling_def split: option.split)
  from chain_loop_all_cooling [OF this, of env "e # post" None False] obtain so where
    eq: "chat env (pre @ e # post) s now = chain_loop env (e # post) so False ?st"
    by (auto simp: chat_def simp del: chain_loop.simps)
  have nc: "\<not> cooling ?st e" using assms(2) by (auto simp: cooling_def split: option.splits)
  have es: "clean es" using assms(5) by (simp add: clean_def)
  have "rotations env e (max_rotations e s) (ungate e ?st) = Some (R_return,
      (do_call env e (ungate e ?st))\<lparr>sent := if es = [] then [] else ModelUsed (fe_model e) # es\<rparr>)"
    using rotations_clean [OF _ es assms(3), of env "ungate e ?st" e] assms(4) by simp
  then show ?thesis by (simp add: eq chain_loop_tried [OF nc] do_call_def Let_def del: chain_loop.simps)
qed

theorem chat_first_available_answers_witness:
  "\<exists>st. chat (script [Stream [Delta ''hi'']]) ([plain ''a''] @ plain ''b'' # [plain ''c''])
      (idle\<lparr>cooldowns := [''a'' \<mapsto> 50]\<rparr>) 9 = Some st
    \<and> map cl_model (calls st) = [''b''] \<and> sent st = [ModelUsed ''b'', Delta ''hi'']"
proof -
  have "fe_model (plain m) = m" for m by (simp add: plain_def)
  then show ?thesis
    using chat_first_available_answers [of "[plain ''a'']" "idle\<lparr>cooldowns := [''a'' \<mapsto> 50]\<rparr>" 9
        "plain ''b''" "script [Stream [Delta ''hi'']]" "[Delta ''hi'']" "[plain ''c'']"]
    by (simp add: plain_def idle_def script_def max_rotations_def)
qed

lemma chain_loop_cooling_wait:
  assumes "\<forall>e \<in> set es. cooling st e" "\<forall>e \<in> set es. cooldowns (sh st) (fe_model e) = Some (D e)"
  shows "chain_loop env es (Some a) att st = Some (chain_failed (Some (Min (insert a (D ` set es)))) att st)"
  using assms
proof (induction es arbitrary: a)
  case Nil
  then show ?case by simp
next
  case (Cons e es)
  have "Min (insert (min a (D e)) (D ` set es)) = Min (insert a (insert (D e) (D ` set es)))"
    by (cases "set es = {}") (simp_all add: min.assoc)
  then show ?case using Cons by (simp add: chain_loop_cooling del: chain_loop.simps)
qed

text \<open>With every model of the chain cooling, no provider is called, nothing changes, and the
  consumer gets one error: the all-cooling tag with the whole seconds to the earliest
  deadline.\<close>

theorem chat_all_cooling:
  assumes "chain \<noteq> []" "\<forall>e \<in> set chain. cooldowns s (fe_model e) = Some (D e) \<and> now < D e"
  shows "chat env chain s now = Some \<lparr>sh = s, clock = now, calls = [], sent =
    [StreamError (''fallback_chain_all_cooling: all providers on cooldown, retry in ''
       @ show_nat (as_secs (Min (D ` set chain) - now)) @ ''s'')]\<rparr>"
proof -
  let ?st = "\<lparr>sh = s, clock = now, calls = [], sent = []\<rparr>"
  obtain e es where chain: "chain = e # es" using assms(1) by (cases chain) auto
  have c: "\<forall>x \<in> set chain. cooling ?st x" using assms(2) by (auto simp: cooling_def)
  then have "chain_loop env chain None False ?st = chain_loop env es (Some (D e)) False ?st"
    using assms(2) by (simp add: chain chain_loop_cooling del: chain_loop.simps)
  also have "\<dots> = Some (chain_failed (Some (Min (D ` set chain))) False ?st)"
    using chain_loop_cooling_wait [of es ?st D] c assms(2) by (simp add: chain)
  finally show ?thesis
    by (simp add: chat_def chain_failed_def send_def chain_all_cooling_tag_def)
qed

theorem chat_all_cooling_witness:
  "map_option sent (chat (script []) [plain ''a'', plain ''b'']
      (idle\<lparr>cooldowns := [''a'' \<mapsto> from_secs 9, ''b'' \<mapsto> from_secs 7]\<rparr>) 0)
   = Some [StreamError ''fallback_chain_all_cooling: all providers on cooldown, retry in 7s'']"
proof -
  let ?D = "\<lambda>e. if fe_model e = ''a'' then from_secs 9 else from_secs 7"
  have D: "?D ` set [plain ''a'', plain ''b''] = {from_secs 9, from_secs 7}"
    by (auto simp: plain_def)
  have "Min {from_secs 9, from_secs 7} = from_secs 7" by (simp add: min_def)
  moreover have "show_nat 7 = ''7''" by code_simp
  ultimately show ?thesis
    using chat_all_cooling [of "[plain ''a'', plain ''b'']"
        "idle\<lparr>cooldowns := [''a'' \<mapsto> from_secs 9, ''b'' \<mapsto> from_secs 7]\<rparr>" ?D 0 "script []"]
    unfolding D by (simp add: plain_def from_secs_def as_secs_def)
qed

lemma drain_append:
  "clean ds \<Longrightarrow> ds \<noteq> [] \<Longrightarrow> drain env n e ta saw False (ds @ es) st =
     drain env n e ta True True es (st\<lparr>sent := sent st @ ModelUsed (fe_model e) # ds\<rparr>)"
proof -
  have go: "clean ds \<Longrightarrow> drain env n e ta True True (ds @ es) st =
     drain env n e ta True True es (st\<lparr>sent := sent st @ ds\<rparr>)" for ds st
  proof (induction ds arbitrary: st)
    case (Cons d ds)
    then show ?case by (simp add: drain_ok_event send_def del: drain.simps(3-))
  qed simp
  assume "clean ds" "ds \<noteq> []"
  then show ?thesis
    by (cases ds) (simp_all add: drain_ok_event go send_def del: drain.simps(3-))
qed

text \<open>A stream that fails after content was forwarded is not restarted on the same model, but
  it is failed over: the consumer then receives the first model's partial answer followed by
  the whole answer of the next model, in one stream.\<close>

theorem failover_after_content_appends:
  assumes "fe_pool e1 = None" "fe_pool e2 = None" "fe_model e1 \<noteq> fe_model e2" "quiet env"
    and "cooldowns s (fe_model e1) = None" "cooldowns s (fe_model e2) = None"
    and "env_respond env 0 = Stream (ds @ HttpError status msg # rest)"
    and "ds \<noteq> []" "\<forall>ev \<in> set ds. \<not> is_error_event ev"
    and "should_failover_to_next (classify_at env 0 e1 status msg)"
    and "record_cooldown (now + env_elapsed env 0) (fe_model e1) (classify_at env 0 e1 status msg) None
           (env_others env 0 (s\<lparr>cooldowns := (cooldowns s)(fe_model e1 := None)\<rparr>)) \<noteq> None"
    and "env_respond env 1 = Stream es" "es \<noteq> []" "\<forall>ev \<in> set es. \<not> is_error_event ev"
  shows "\<exists>st. chat env (e1 # e2 # post) s now = Some st
    \<and> sent st = ModelUsed (fe_model e1) # ds @ ModelUsed (fe_model e2) # es"
proof -
  let ?st = "\<lparr>sh = s, clock = now, calls = [], sent = []\<rparr>"
  let ?st1 = "do_call env e1 (ungate e1 ?st)"
  let ?c = "classify_at env 0 e1 status msg"
  have ds: "clean ds" "clean es" using assms(9,14) by (simp_all add: clean_def)
  have n1: "\<not> cooling ?st e1" using assms(5) by (simp add: cooling_def)
  have "cooldowns (env_others env 0 (s\<lparr>cooldowns := (cooldowns s)(fe_model e1 := None)\<rparr>)) (fe_model e2) = None"
    using assms(4,6) by (simp add: quiet_def)
  then obtain s2 where s2: "record_cooldown (now + env_elapsed env 0) (fe_model e1) ?c None
      (env_others env 0 (s\<lparr>cooldowns := (cooldowns s)(fe_model e1 := None)\<rparr>)) = Some s2"
    "cooldowns s2 (fe_model e2) = None"
    using assms(3,11) record_cooldown_fields by (metis option.exhaust)
  let ?st2 = "?st1\<lparr>sent := ModelUsed (fe_model e1) # ds, sh := s2\<rparr>"
  have "drain env 0 e1 0 False False (ds @ HttpError status msg # rest) ?st1 = Some (D_out A_failover, ?st2)"
    using assms(1,10) s2 ds(1) assms(8)
    by (simp add: drain_append on_stream_error_def cool_and_def do_call_def Let_def ungate_def)
  then have "attempts env e1 0 (ungate e1 ?st) = Some (A_failover, ?st2)"
    using assms(7) by (simp add: attempts.simps [of env e1] Let_def)
  then have "rotations env e1 (max_rotations e1 s) (ungate e1 ?st) = Some (R_broke, ?st2)"
    using assms(1) by (simp add: max_rotations_def)
  then have "chat env (e1 # e2 # post) s now = chain_loop env (e2 # post) None True ?st2"
    by (simp add: chat_def chain_loop_tried [OF n1] del: chain_loop.simps)
  moreover have "\<not> cooling ?st2 e2" using s2(2) by (simp add: cooling_def)
  moreover have "rotations env e2 (max_rotations e2 s2) (ungate e2 ?st2) = Some (R_return,
      (do_call env e2 (ungate e2 ?st2))\<lparr>sent := (ModelUsed (fe_model e1) # ds) @ ModelUsed (fe_model e2) # es\<rparr>)"
    using rotations_clean [OF _ ds(2), of env "ungate e2 ?st2" "max_rotations e2 s2" e2]
      assms(2,12,13) by (simp add: max_rotations_def do_call_def Let_def)
  ultimately show ?thesis by (simp add: chain_loop_tried del: chain_loop.simps)
qed

theorem failover_after_content_appends_witness:
  "\<exists>st. chat (script [Stream [Delta ''The answer is'', HttpError 401 ''expired''], Stream [Delta ''No.'']])
      [plain ''a'', plain ''b''] idle 0 = Some st
    \<and> sent st = [ModelUsed ''a'', Delta ''The answer is'', ModelUsed ''b'', Delta ''No.'']"
  using failover_after_content_appends [of "plain ''a''" "plain ''b''"
      "script [Stream [Delta ''The answer is'', HttpError 401 ''expired''], Stream [Delta ''No.'']]"
      idle "[Delta ''The answer is'']" 401 "''expired''" "[]" 0 "[Delta ''No.'']" "[]"] script_ok(2)
  by (simp add: script_respond) (simp add: run_simps)

lemma soonest_recovery_cooling:
  assumes "available now sc p = {}" "entries p \<noteq> []"
  shows "soonest_recovery now sc p \<noteq> None"
proof -
  obtain e where e: "e \<in> set (entries p)" using assms(2) by (cases "entries p") auto
  with assms(1) have "\<not> entry_available now sc e" by (auto simp: available_alt)
  then obtain u where "exhausted_until e sc = Some u" "now < u"
    by (auto simp: entry_available_def not_le split: option.splits)
  from cooling_recovery_time [OF e this] show ?thesis
    by (auto simp: soonest_recovery_def min_by_key_None_iff)
qed

text \<open>Credential rotation: when another key of the pool is available for the model, the cell
  the provider reads holds such a key afterwards, never the one that failed; when none is, the
  model cools exactly until the pool's soonest recovery.\<close>

theorem rotation_installs_fresh_key:
  assumes "rotate env e p k c st = Some (b, st')" "fe_pool e = Some p"
    and "pool_inv (pools (sh st) p)" "fair_rand (env_rand env (length (calls st)))"
    and "cooldown_duration c = Some d" "0 < d" "cells (sh st) k \<in> set (pool_keys (pools (sh st) p))"
  shows "if available (clock st) (fe_model e) (pools (sh st) p) \<subseteq> {cells (sh st) k}
    then \<not> b \<and> (\<exists>w. soonest_recovery (clock st) (fe_model e) (pools (sh st') p) = Some w
      \<and> cooldowns (sh st') (fe_model e) = Some (clock st + w))
    else b \<and> cells (sh st') k \<noteq> cells (sh st) k
      \<and> cells (sh st') k \<in> available (clock st) (fe_model e) (pools (sh st) p)"
  using assms(1)
proof (cases rule: rotate_cases)
  case (1 p1 nk p2 s1)
  let ?now = "clock st" and ?sc = "fe_model e" and ?p = "pools (sh st) p" and ?k = "cells (sh st) k"
  have mk: "mark_exhausted ?now ?k ?sc d ?p = Some p1" using 1(1) assms(5) by simp
  have lt: "?now < ?now + d" using assms(6) by simp
  have nk: "fst (next_credential ?now (env_rand env (length (calls st))) ?sc p1) = nk" using 1(2) by simp
  have none: "nk = None \<longleftrightarrow> available ?now ?sc ?p \<subseteq> {?k}"
    using cp.rotate_exhausts [OF assms(3,4) mk lt] nk by simp
  show ?thesis
  proof (cases nk)
    case None
    have inv1: "pool_inv p1" by (rule cp.mark_inv [OF assms(3) mk])
    have "available ?now ?sc p1 = {}"
      using cp.nxt_None [OF inv1 assms(4)] nk None by simp
    then have em: "available ?now ?sc p2 = {}"
      using cp.nxt_avail [OF inv1 assms(4) order_refl, of ?now ?sc ?sc] 1(2) by simp
    have "pool_keys p2 = pool_keys ?p"
      using cp.nxt_keys [OF inv1 assms(4), of ?now ?sc] 1(2) cp.mark_keys [OF assms(3) mk] by simp
    then have "entries p2 \<noteq> []" using assms(7) by (auto simp: pool_keys_def)
    from soonest_recovery_cooling [OF em this] obtain w where
      "soonest_recovery ?now ?sc p2 = Some w" by blast
    with None none 1(3,4) assms(2) show ?thesis
      by (auto simp: record_cooldown_def dest: instant_add_SomeD)
  next
    case (Some nkey)
    with cp.rotate_fresh [OF assms(3,4) mk lt, of nkey] nk none 1(4) show ?thesis by auto
  qed
qed

definition pooled :: fb_entry where
  "pooled = \<lparr>fe_model = ''m'', fe_provider = ''glm'', fe_pool = Some 0, fe_key = Some 0\<rparr>"

definition pooled_state :: fb_state where
  "pooled_state = \<lparr>sh = idle\<lparr>pools := \<lambda>_. two_keys, cells := \<lambda>_. ''key1''\<rparr>, clock = 0, calls = [], sent = []\<rparr>"

theorem rotation_installs_fresh_key_witness:
  "\<exists>st'. rotate (script []) pooled 0 0 (new_error FRateLimit ''slow'') pooled_state = Some (True, st')
     \<and> cells (sh st') 0 = ''key2''"
proof -
  let ?c = "new_error FRateLimit ''slow''"
  have st: "pools (sh pooled_state) 0 = two_keys" "cells (sh pooled_state) 0 = ''key1''"
    "clock pooled_state = 0" "fe_model pooled = ''m''" "fe_pool pooled = Some 0"
    by (simp_all add: pooled_state_def pooled_def)
  have c: "cooldown_duration ?c = Some (from_secs 60)"
    by (simp add: new_error_def cooldown_duration_def default_rate_limit_cooldown_def)
  have "instant_add 0 (from_secs 60) = Some (from_secs 60)" by (simp add: instant_add_def)
  then obtain p1 where p1: "mark_exhausted 0 ''key1'' ''m'' (from_secs 60) two_keys = Some p1"
    by (auto simp: mark_exhausted_def two_keys_def new_pool_def new_entry_def)
  have f: "fair_rand (env_rand (script []) 0)" by (simp add: script_def fair_rand_def)
  have "available 0 ''m'' p1 \<noteq> {}"
    using cp.mark_avail [OF two_keys_inv(1) p1, of 0] by (simp add: two_keys_available from_secs_def)
  then obtain nkey p2 where "next_credential 0 (env_rand (script []) 0) ''m'' p1 = (Some nkey, p2)"
    using cp.nxt_None [OF cp.mark_inv [OF two_keys_inv(1) p1] f, where now = 0 and sc = "''m''"]
    by (cases "next_credential 0 (env_rand (script []) 0) ''m'' p1") auto
  then have "rotate (script []) pooled 0 0 ?c pooled_state \<noteq> None"
    using p1 by (simp add: rotate_def st c pooled_state_def Let_def)
  then obtain b st' where rot: "rotate (script []) pooled 0 0 ?c pooled_state = Some (b, st')" by force
  have "''key1'' \<in> set (pool_keys two_keys)"
    by (simp add: two_keys_def pool_keys_def new_pool_def new_entry_def)
  with rotation_installs_fresh_key [OF rot st(5) _ _ c] two_keys_inv f
  have "b \<and> cells (sh st') 0 \<noteq> ''key1'' \<and> cells (sh st') 0 \<in> {''key1'', ''key2''}"
    by (auto simp: st two_keys_available pooled_state_def from_secs_def)
  then have "b" "cells (sh st') 0 = ''key2''" by blast+
  with rot show ?thesis by simp
qed

lemma instant_add_too_late: "from_secs (2 ^ 63) \<le> d \<Longrightarrow> instant_add t d = None"
proof -
  assume "from_secs (2 ^ 63) \<le> d"
  then have "from_secs (2 ^ 63) div 1000000000 \<le> (t + d) div 1000000000" by (intro div_le_mono) simp
  then show ?thesis by (simp add: instant_add_def as_secs_def from_secs_def)
qed

text \<open>A provider can crash the chat: when the body of a retryable error asks for a retry delay
  of 2^63 seconds or more, recording the model's cooldown overflows the clock and the task
  panics while it holds the lock of the cooldown map.\<close>

theorem huge_retry_after_panics:
  assumes "classify_category p status body \<in> {CBilling, CRateLimit, COverloaded, CServerError, CTimeout}"
    and "status \<noteq> 0" "extract_retry_after J wall body = Some d" "from_secs (2 ^ 63) \<le> d"
  shows "record_cooldown now m (with_provider (classify J wall p status body) p m) None s = None"
proof -
  have "cooldown (classify J wall p status body) = Some d"
    using assms(1-3) by (auto simp: classify_def)
  then show ?thesis
    by (simp add: record_cooldown_def cooldown_duration_def instant_add_too_late [OF assms(4)])
qed

definition hostile_json :: "nat json_lib" where
  "hostile_json = \<lparr>json_from_str = \<lambda>_. Some 0, json_get = \<lambda>j k. if k = ''retry_after'' then Some 1 else None,
     json_as_u64 = \<lambda>_. Some (2 ^ 63), json_as_f64 = \<lambda>_. None,
     json_as_str = \<lambda>_. None, rfc3339_timestamp = \<lambda>_. None\<rparr>"

theorem huge_retry_after_panics_witness:
  "record_cooldown 0 ''m'' (with_provider (classify hostile_json None ''openai'' 503 ''huge'')
     ''openai'' ''m'') None idle = None"
proof -
  have "classify_category ''openai'' 503 ''huge'' = COverloaded" by code_simp
  moreover have "extract_retry_after hostile_json None ''huge'' = Some (from_secs (2 ^ 63))"
    by (simp add: extract_retry_after_def extract_retry_after_from_value_def json_get_seconds_def
        json_number_u64_def hostile_json_def)
  ultimately show ?thesis by (intro huge_retry_after_panics [where d = "from_secs (2 ^ 63)"]) simp_all
qed

end
