(* ===== verification/Loop_Breaker.thy ===== *)
theory Loop_Breaker
  imports Prelude "HOL-Library.Word"
begin

text \<open>
  \<open>agents/loop_breaker.rs\<close> with its configuration \<open>api/loop_breaker.rs\<close>: the per-turn counter
  that records every tool call and stops the turn when the calls repeat.  The window is a list
  with the oldest call first (\<open>push_back\<close> appends); the time of a call is an argument.
\<close>

unbundle bit_operations_syntax

subsection \<open>Configuration, invocations, counter\<close>

record loop_breaker_config =
  max_tool_calls :: nat
  window_size :: nat
  exact_repeat_threshold :: nat
  ping_pong_rounds :: nat
  no_progress_threshold :: nat
  relaxed_tools :: "string list"
  rapid_repeat_window_secs :: nat

definition default_config :: loop_breaker_config where
  "default_config = \<lparr>max_tool_calls = 100, window_size = 20, exact_repeat_threshold = 3,
     ping_pong_rounds = 6, no_progress_threshold = 5,
     relaxed_tools = [''shell'', ''task_update'', ''task_delete''], rapid_repeat_window_secs = 60\<rparr>"

datatype loop_break_reason =
    ExactRepeat string nat nat
  | PingPong string string nat
  | NoProgress string nat
  | MaxCalls nat nat

datatype loop_break = NoLoop | Detected loop_break_reason

record tool_invocation =
  tool_name :: string
  args_hash :: "64 word"
  result_hash :: "64 word"
  is_timeout :: bool
  timestamp :: nat

record loop_counter =
  config :: loop_breaker_config
  total_calls :: nat
  window :: "tool_invocation list"

definition new_counter :: "loop_breaker_config \<Rightarrow> loop_counter" where
  "new_counter cfg = \<lparr>config = cfg, total_calls = 0, window = []\<rparr>"

definition new_counter_with_max :: "loop_breaker_config \<Rightarrow> nat \<Rightarrow> loop_counter" where
  "new_counter_with_max cfg n = new_counter (cfg\<lparr>max_tool_calls := n\<rparr>)"

definition reset :: "loop_counter \<Rightarrow> loop_counter" where
  "reset c = c\<lparr>total_calls := 0, window := []\<rparr>"

text \<open>FNV-1a over the bytes of a string.\<close>

definition fnv_step :: "64 word \<Rightarrow> char \<Rightarrow> 64 word" where
  "fnv_step hash byte = (hash XOR word_of_nat (of_char byte)) * 0x100000001b3"

definition simple_hash :: "string \<Rightarrow> 64 word" where
  "simple_hash s = foldl fnv_step 0xcbf29ce484222325 s"

lemma simple_hash_vectors: "simple_hash [] = 0xcbf29ce484222325" "simple_hash ''a'' = 0xaf63dc4c8601ec8c"
  by (simp_all add: simple_hash_def fnv_step_def)

subsection \<open>Pattern detectors\<close>

text \<open>The loop over the earlier calls, newest first, with its \<open>count\<close> and \<open>streak_start\<close>.\<close>

fun repeat_streak :: "tool_invocation \<Rightarrow> tool_invocation list \<Rightarrow> nat \<Rightarrow> nat \<Rightarrow> nat \<times> nat" where
  "repeat_streak first [] count start = (count, start)"
| "repeat_streak first (iv # rest) count start =
     (if tool_name iv = tool_name first \<and> args_hash iv = args_hash first then
        if is_timeout iv then (count, start)
        else if result_hash iv \<noteq> result_hash first then (count, start)
        else repeat_streak first rest (count + 1) (timestamp iv)
      else (count, start))"

definition check_exact_repeat :: "loop_counter \<Rightarrow> loop_break_reason option" where
  "check_exact_repeat c =
     (case rev (window c) of
        [] \<Rightarrow> None
      | first # rest \<Rightarrow>
          if is_timeout first then None
          else
            let (count, start) = repeat_streak first rest 1 (timestamp first) in
            if count \<ge> exact_repeat_threshold (config c) then
              if as_secs (timestamp first - start) \<ge> rapid_repeat_window_secs (config c) then None
              else Some (ExactRepeat (tool_name first) count (exact_repeat_threshold (config c)))
            else None)"

fun every_other :: "'a list \<Rightarrow> 'a list" where
  "every_other [] = []"
| "every_other [x] = [x]"
| "every_other (x # y # xs) = x # every_other xs"

definition check_ping_pong :: "loop_counter \<Rightarrow> loop_break_reason option" where
  "check_ping_pong c =
     (let n = ping_pong_rounds (config c) in
      if length (window c) < 4 then None
      else if n < 2 then None
      else if length (window c) < n * 2 then None
      else
        let tail = take (n * 2) (rev (window c));
            tool_a = tool_name (tail ! 0); tool_b = tool_name (tail ! 1) in
        if tool_a = tool_b then None
        else if list_ex (\<lambda>(i, iv). tool_name iv \<noteq> (if i mod 2 = 0 then tool_a else tool_b))
                  (enumerate 0 tail) then None
        else
          let args_a = map args_hash (every_other tail);
              args_b = map args_hash (every_other (drop 1 tail)) in
          if card (set args_a) = length args_a \<and> card (set args_b) = length args_b then None
          else Some (PingPong tool_a tool_b n))"

fun no_progress_count :: "tool_invocation \<Rightarrow> tool_invocation list \<Rightarrow> nat \<Rightarrow> nat" where
  "no_progress_count target [] count = count"
| "no_progress_count target (iv # rest) count =
     (if tool_name iv \<noteq> tool_name target \<or> result_hash iv \<noteq> result_hash target then count
      else if args_hash iv = args_hash target then no_progress_count target rest count
      else no_progress_count target rest (count + 1))"

text \<open>\<open>saturating_mul(2)\<close> on a 64-bit \<open>usize\<close>.\<close>

definition no_progress_limit :: "loop_breaker_config \<Rightarrow> string \<Rightarrow> nat" where
  "no_progress_limit cfg tool =
     (if tool \<in> set (relaxed_tools cfg) then max (min (no_progress_threshold cfg * 2) (2 ^ 64 - 1)) 8
      else no_progress_threshold cfg)"

definition check_no_progress :: "loop_counter \<Rightarrow> loop_break_reason option" where
  "check_no_progress c =
     (case rev (window c) of
        [] \<Rightarrow> None
      | target # rest \<Rightarrow>
          let count = no_progress_count target rest 1 in
          if count \<ge> no_progress_limit (config c) (tool_name target)
          then Some (NoProgress (tool_name target) count) else None)"

subsection \<open>Recording a call\<close>

definition invocation :: "nat \<Rightarrow> string \<Rightarrow> string \<Rightarrow> string \<Rightarrow> tool_invocation" where
  "invocation now tool args result =
     \<lparr>tool_name = tool, args_hash = simple_hash args, result_hash = simple_hash result,
      is_timeout = contains result ''timed out'', timestamp = now\<rparr>"

definition push_invocation :: "tool_invocation \<Rightarrow> loop_counter \<Rightarrow> loop_counter" where
  "push_invocation iv c =
     c\<lparr>total_calls := total_calls c + 1,
       window := (if length (window c) \<ge> window_size (config c) then tl (window c) else window c) @ [iv]\<rparr>"

definition check_loops :: "loop_counter \<Rightarrow> loop_break" where
  "check_loops c =
     (if max_tool_calls (config c) > 0 \<and> total_calls c > max_tool_calls (config c)
        then Detected (MaxCalls (total_calls c) (max_tool_calls (config c)))
      else case check_exact_repeat c of Some r \<Rightarrow> Detected r | None \<Rightarrow>
           (case check_ping_pong c of Some r \<Rightarrow> Detected r | None \<Rightarrow>
           (case check_no_progress c of Some r \<Rightarrow> Detected r | None \<Rightarrow> NoLoop)))"

definition record_and_check ::
  "nat \<Rightarrow> string \<Rightarrow> string \<Rightarrow> string \<Rightarrow> loop_counter \<Rightarrow> loop_break \<times> loop_counter" where
  "record_and_check now tool args result c =
     (let c' = push_invocation (invocation now tool args result) c in (check_loops c', c'))"

subsection \<open>The window holds the last calls of the turn\<close>

text \<open>The specification: the whole history of a turn.  The counter is its image.\<close>

type_synonym call = "nat \<times> string \<times> string \<times> string"

definition inv_of :: "call \<Rightarrow> tool_invocation" where
  "inv_of = (\<lambda>(now, tool, args, result). invocation now tool args result)"

definition last_n :: "nat \<Rightarrow> 'a list \<Rightarrow> 'a list" where
  "last_n n xs = drop (length xs - n) xs"

definition counter_of :: "loop_breaker_config \<Rightarrow> call list \<Rightarrow> loop_counter" where
  "counter_of cfg hist = \<lparr>config = cfg, total_calls = length hist,
     window = last_n (max 1 (window_size cfg)) (map inv_of hist)\<rparr>"

primrec run_calls :: "call list \<Rightarrow> loop_counter \<Rightarrow> loop_break list \<times> loop_counter" where
  "run_calls [] c = ([], c)"
| "run_calls (k # ks) c =
     (let (now, tool, args, result) = k; (b, c1) = record_and_check now tool args result c;
          (bs, c2) = run_calls ks c1 in (b # bs, c2))"

lemma last_n_push:
  "(if length (last_n (max 1 w) xs) \<ge> w then tl (last_n (max 1 w) xs) else last_n (max 1 w) xs) @ [x]
     = last_n (max 1 w) (xs @ [x])"
proof (cases w)
  case (Suc v)
  have "Suc (length xs - Suc v) = length xs - v" if "Suc v \<le> length xs - (length xs - Suc v)"
    using that by arith
  then show ?thesis by (auto simp: Suc last_n_def drop_Suc [symmetric] tl_drop)
qed (auto simp: last_n_def drop_Suc [symmetric] tl_drop)

lemma push_counter_of:
  "push_invocation (inv_of k) (counter_of cfg hist) = counter_of cfg (hist @ [k])"
  by (simp only: push_invocation_def counter_of_def loop_counter.simps last_n_push map_append
      list.map length_append) simp

lemma record_counter_of:
  "record_and_check now tool args result (counter_of cfg hist) =
     (let c = counter_of cfg (hist @ [(now, tool, args, result)]) in (check_loops c, c))"
  using push_counter_of [of "(now, tool, args, result)" cfg hist]
  by (simp add: record_and_check_def inv_of_def Let_def)

lemma run_counter_of:
  "run_calls ks (counter_of cfg hist) =
     (map (\<lambda>i. check_loops (counter_of cfg (hist @ take (Suc i) ks))) [0..<length ks],
      counter_of cfg (hist @ ks))"
proof (induction ks arbitrary: hist)
  case Nil
  then show ?case by simp
next
  case (Cons k ks)
  have "map f [0..<Suc n] = f 0 # map (\<lambda>i. f (Suc i)) [0..<n]" for f :: "nat \<Rightarrow> loop_break" and n
    by (simp add: upt_conv_Cons map_Suc_upt [symmetric] comp_def del: upt_Suc)
  with Cons [of "hist @ [k]"] show ?case
    by (cases k) (simp add: record_counter_of Let_def del: upt_Suc)
qed

lemma counter_of_Nil: "counter_of cfg [] = new_counter cfg"
  by (simp add: counter_of_def new_counter_def last_n_def)

text \<open>C9: The counter is the abstraction of the turn's history: after any sequence of calls from a
  fresh counter, it holds their number and the last \<open>window_size\<close> of them (at least one), and
  each answer given on the way is the verdict on the history up to that call.\<close>

theorem run_calls_refines:
  "run_calls ks (new_counter cfg) =
     (map (\<lambda>i. check_loops (counter_of cfg (take (Suc i) ks))) [0..<length ks], counter_of cfg ks)"
  using run_counter_of [of ks cfg "[]"] by (simp add: counter_of_Nil)

lemma check_loops_last:
  "ks \<noteq> [] \<Longrightarrow> last (fst (run_calls ks (new_counter cfg))) = check_loops (counter_of cfg ks)"
  using run_counter_of [of ks cfg "[]"]
  by (cases ks rule: rev_cases) (simp_all add: counter_of_Nil last_map)

subsection \<open>Exact repeats\<close>

definition same_call :: "tool_invocation \<Rightarrow> tool_invocation \<Rightarrow> bool" where
  "same_call first iv \<longleftrightarrow> tool_name iv = tool_name first \<and> args_hash iv = args_hash first
     \<and> result_hash iv = result_hash first \<and> \<not> is_timeout iv"

lemma repeat_streak_takeWhile:
  "repeat_streak first rest count start =
     (let s = takeWhile (same_call first) rest in
      (count + length s, if s = [] then start else timestamp (last s)))"
  by (induction first rest count start rule: repeat_streak.induct)
    (auto simp: same_call_def Let_def)

text \<open>The exact-repeat detector answers on the longest run of newest calls that agree in tool,
  arguments and result and did not time out: it reports when the run has reached the threshold
  and its first and last call are less than the rapid-repeat window apart.\<close>

theorem check_exact_repeat_spec:
  "check_exact_repeat c =
     (case rev (window c) of
        [] \<Rightarrow> None
      | newest # older \<Rightarrow>
          let run = newest # takeWhile (same_call newest) older in
          if \<not> is_timeout newest \<and> exact_repeat_threshold (config c) \<le> length run
             \<and> as_secs (timestamp newest - timestamp (last run)) < rapid_repeat_window_secs (config c)
          then Some (ExactRepeat (tool_name newest) (length run) (exact_repeat_threshold (config c)))
          else None)"
  by (auto simp: check_exact_repeat_def repeat_streak_takeWhile Let_def split: list.split)

lemma last_n_all: "length xs \<le> n \<Longrightarrow> last_n n xs = xs"
  by (simp add: last_n_def)

lemma last_n_append: "length ys \<le> n \<Longrightarrow> last_n n (xs @ ys) = last_n (n - length ys) xs @ ys"
  by (simp add: last_n_def)

definition repeats :: "string \<Rightarrow> string \<Rightarrow> string \<Rightarrow> nat list \<Rightarrow> call list" where
  "repeats tool args result ts = map (\<lambda>t. (t, tool, args, result)) ts"

lemma inv_of_repeats: "map inv_of (repeats tool args result ts) = map (\<lambda>t. invocation t tool args result) ts"
  by (simp add: repeats_def inv_of_def)

lemma same_call_invocation:
  "same_call (invocation t tool args result) (invocation t' tool args result)
     \<longleftrightarrow> \<not> contains result ''timed out''"
  by (simp add: same_call_def invocation_def)

lemma takeWhile_repeats:
  assumes "\<not> contains result ''timed out''"
    and "\<forall>k. rest \<noteq> [] \<and> k = hd rest \<longrightarrow> \<not> same_call (invocation t tool args result) k"
  shows "takeWhile (same_call (invocation t tool args result))
      (map (\<lambda>t. invocation t tool args result) ts @ rest) = map (\<lambda>t. invocation t tool args result) ts"
  using assms by (induction ts) (cases rest, auto simp: same_call_invocation)

text \<open>The exact-repeat verdict when the history ends with calls equal to each other and not to
  the call before them.\<close>

lemma exact_repeat_of_repeats:
  assumes "ts \<noteq> []" "length ts \<le> window_size cfg" "\<not> contains result ''timed out''"
    and "\<forall>k. pre \<noteq> [] \<and> k = last pre \<longrightarrow> \<not> same_call (invocation (last ts) tool args result) (inv_of k)"
  shows "check_exact_repeat (counter_of cfg (pre @ repeats tool args result ts)) =
     (if exact_repeat_threshold cfg \<le> length ts \<and> as_secs (last ts - hd ts) < rapid_repeat_window_secs cfg
      then Some (ExactRepeat tool (length ts) (exact_repeat_threshold cfg)) else None)"
proof -
  let ?iv = "\<lambda>t. invocation t tool args result"
  obtain us u where ts: "ts = us @ [u]" using assms(1) by (cases ts rule: rev_cases) auto
  let ?pre = "last_n (max 1 (window_size cfg) - length ts) (map inv_of pre)"
  have w: "window (counter_of cfg (pre @ repeats tool args result ts)) = ?pre @ map ?iv ts"
    using assms(2) by (simp add: counter_of_def inv_of_repeats last_n_append)
  have hd: "\<not> same_call (?iv u) k" if "rev ?pre \<noteq> []" "k = hd (rev ?pre)" for k
  proof -
    from that have "?pre \<noteq> []" "k = last ?pre" by (simp_all add: hd_rev)
    then have ne: "pre \<noteq> []" by (auto simp: last_n_def)
    with \<open>?pre \<noteq> []\<close> \<open>k = last ?pre\<close> have "k = inv_of (last pre)"
      by (simp add: last_n_def last_map)
    with assms(4) ts ne show ?thesis by simp
  qed
  have run: "takeWhile (same_call (?iv u)) (map ?iv (rev us) @ rev ?pre) = map ?iv (rev us)"
    by (rule takeWhile_repeats [OF assms(3)]) (use hd in blast)
  have last: "last (?iv u # map ?iv (rev us)) = ?iv (hd ts)"
    by (cases us) (simp_all add: ts rev_map [symmetric] last_rev)
  have wr: "rev (window (counter_of cfg (pre @ repeats tool args result ts)))
      = ?iv u # map ?iv (rev us) @ rev ?pre"
    unfolding w by (simp add: ts rev_map)
  have fields: "config (counter_of cfg h) = cfg" "is_timeout (?iv t) = contains result ''timed out''"
    "tool_name (?iv t) = tool" "timestamp (?iv t) = t" "last ts = u" for h t
    by (simp_all add: counter_of_def invocation_def ts)
  have len: "length ts = Suc (length us)" by (simp add: ts)
  show ?thesis using assms(3)
    by (simp only: check_exact_repeat_spec wr list.case Let_def run last fields) (simp add: len)
qed

text \<open>A tight loop is stopped: when a turn's newest calls are the same call with the same
  result, as many as the exact-repeat threshold and within the rapid-repeat window, and the call
  before them is another one, the verdict on the last of them is a detected loop.\<close>

theorem tight_loop_detected:
  assumes "ts \<noteq> []" "length ts \<le> window_size cfg" "\<not> contains result ''timed out''"
    and "\<forall>k. pre \<noteq> [] \<and> k = last pre \<longrightarrow> \<not> same_call (invocation (last ts) tool args result) (inv_of k)"
    and "exact_repeat_threshold cfg \<le> length ts" "as_secs (last ts - hd ts) < rapid_repeat_window_secs cfg"
  shows "\<exists>r. last (fst (run_calls (pre @ repeats tool args result ts) (new_counter cfg))) = Detected r"
proof -
  have "pre @ repeats tool args result ts \<noteq> []" using assms(1) by (simp add: repeats_def)
  with exact_repeat_of_repeats [OF assms(1-4)] assms(5,6) show ?thesis
    by (simp add: check_loops_last check_loops_def)
qed

theorem tight_loop_detected_witness:
  "\<exists>r. last (fst (run_calls ([] @ repeats ''shell'' ''ls'' ''ok'' [0, 5, 9]) (new_counter default_config)))
     = Detected r"
  by (rule tight_loop_detected) (simp_all add: default_config_def as_secs_def contains_def)

lemma same_tool_no_ping_pong:
  assumes "2 \<le> ping_pong_rounds (config c) \<longrightarrow> (\<forall>iv \<in> set (window c). tool_name iv = tool)"
  shows "check_ping_pong c = None"
proof (cases "2 \<le> ping_pong_rounds (config c) \<and> ping_pong_rounds (config c) * 2 \<le> length (window c)")
  case True
  let ?tail = "take (ping_pong_rounds (config c) * 2) (rev (window c))"
  have "\<forall>iv \<in> set ?tail. tool_name iv = tool" using True assms by (auto dest: in_set_takeD)
  moreover have "?tail ! 0 \<in> set ?tail" "?tail ! 1 \<in> set ?tail"
    using True nth_mem [of 0 ?tail] nth_mem [of 1 ?tail] by simp_all
  ultimately show ?thesis by (simp only: check_ping_pong_def Let_def simp_thms if_True if_cancel)
qed (auto simp: check_ping_pong_def Let_def)

lemma same_args_no_progress_count:
  "\<forall>iv \<in> set rest. args_hash iv = args_hash target \<Longrightarrow> no_progress_count target rest n = n"
proof (induction rest)
  case (Cons iv rest)
  have "args_hash iv = args_hash target" by (rule bspec [OF Cons.prems]) simp
  moreover have "no_progress_count target rest n = n"
    using Cons.prems by (intro Cons.IH) simp
  ultimately show ?case by simp
qed simp

text \<open>The rapid-repeat window is measured from the first call of the whole run, so a slow start
  hides a tight loop: once the run of equal calls is as old as the window, any number of
  further equal calls, however fast, is not stopped as a loop while the window still holds
  the first of them.\<close>

theorem slow_start_hides_tight_loop:
  assumes "ts \<noteq> []" "length ts \<le> window_size cfg" "\<not> contains result ''timed out''"
    and "rapid_repeat_window_secs cfg \<le> as_secs (last ts - hd ts)"
    and "max_tool_calls cfg = 0 \<or> length ts \<le> max_tool_calls cfg" "1 < no_progress_threshold cfg"
  shows "last (fst (run_calls (repeats tool args result ts) (new_counter cfg))) = NoLoop"
proof -
  let ?c = "counter_of cfg (repeats tool args result ts)"
  have w: "window ?c = map (\<lambda>t. invocation t tool args result) ts"
    using assms(2) by (simp add: counter_of_def inv_of_repeats last_n_all)
  have "check_exact_repeat ?c = None"
    using exact_repeat_of_repeats [OF assms(1-3), of "[]" tool args] assms(4) by simp
  moreover have "check_ping_pong ?c = None"
    by (rule same_tool_no_ping_pong [of _ tool]) (auto simp: w invocation_def)
  moreover have "check_no_progress ?c = None"
  proof -
    obtain us u where ts: "ts = us @ [u]" using assms(1) by (cases ts rule: rev_cases) auto
    let ?iv = "\<lambda>t. invocation t tool args result"
    have "no_progress_count (?iv u) (map ?iv (rev us)) 1 = 1"
      by (rule same_args_no_progress_count) (simp add: invocation_def)
    moreover have "1 < no_progress_limit cfg (tool_name (?iv u))"
      using assms(6) by (auto simp: no_progress_limit_def)
    moreover have "rev (window ?c) = ?iv u # map ?iv (rev us)" unfolding w by (simp add: ts rev_map)
    moreover have "config ?c = cfg" by (simp add: counter_of_def)
    ultimately show ?thesis by (simp add: check_no_progress_def del: rev_map)
  qed
  moreover have "repeats tool args result ts \<noteq> []" "total_calls ?c = length ts" "config ?c = cfg"
    using assms(1) by (simp_all add: repeats_def counter_of_def)
  ultimately show ?thesis using assms(5)
    by (simp add: check_loops_last check_loops_def not_less)
qed

theorem slow_start_hides_tight_loop_witness:
  "last (fst (run_calls (repeats ''shell'' ''ls'' ''ok''
       (map from_secs [0, 60] @ [60000000001, 60000000002, 60000000003])) (new_counter default_config)))
     = NoLoop"
  by (rule slow_start_hides_tight_loop)
    (simp_all add: default_config_def as_secs_def contains_def from_secs_def)

text \<open>The hard cap is exact: the verdict on the newest call is \<open>MaxCalls\<close> exactly when a cap
  is set and the turn has made more calls than it, and it carries both numbers.\<close>

theorem max_calls_exact:
  assumes "ks \<noteq> []"
  shows "last (fst (run_calls ks (new_counter cfg))) = Detected (MaxCalls n m)
    \<longleftrightarrow> 0 < max_tool_calls cfg \<and> max_tool_calls cfg < length ks
      \<and> n = length ks \<and> m = max_tool_calls cfg"
proof -
  let ?c = "counter_of cfg ks"
  have "check_exact_repeat ?c \<noteq> Some (MaxCalls n m)" "check_ping_pong ?c \<noteq> Some (MaxCalls n m)"
    "check_no_progress ?c \<noteq> Some (MaxCalls n m)"
    by (simp_all add: check_exact_repeat_def check_ping_pong_def check_no_progress_def Let_def
        split: list.split prod.split)
  moreover have "total_calls ?c = length ks" "config ?c = cfg" by (simp_all add: counter_of_def)
  ultimately show ?thesis
    by (auto simp: check_loops_last [OF assms] check_loops_def split: option.split)
qed

theorem max_calls_exact_witness:
  "last (fst (run_calls [(0, ''a'', [], []), (1, ''b'', [], [])]
     (new_counter_with_max default_config 1))) = Detected (MaxCalls 2 1)"
  unfolding new_counter_with_max_def
  by (subst max_calls_exact) (simp_all add: default_config_def)

end
