(* ===== verification/Durable_Queue.thy ===== *)
theory Durable_Queue
  imports Prelude "HOL-Library.AList"
begin

text \<open>
  What the two crash-safe stores of \<open>agents/orchestrator\<close> (\<open>completion_queue.rs\<close> and
  \<open>inbound_spool.rs\<close>) share: a directory with one \<open>{seq}.json\<close> file per entry, the
  write-to-temporary-then-rename protocol with its failure points, and the contract of
  an at-least-once queue, as a locale with the history of its steps.  A file that cannot be read
  or parsed is \<open>Garbage\<close>; the JSON codec itself (serde\_json) is abstracted to the parsed value.
\<close>

subsection \<open>The directory\<close>

datatype 'e file_content = Parsed 'e | Garbage

type_synonym 'e dir = "(string \<times> 'e file_content) list"

text \<open>\<open>Path::file_stem\<close> and \<open>Path::extension\<close> of a file name.\<close>

definition split_ext :: "string \<Rightarrow> string \<times> string option" where
  "split_ext name =
     (case rposition (\<lambda>c. c = CHR ''.'') name of
        None \<Rightarrow> (name, None)
      | Some i \<Rightarrow> if i = 0 then (name, None) else (take i name, Some (drop (Suc i) name)))"

definition is_json :: "string \<Rightarrow> bool" where
  "is_json name \<longleftrightarrow> snd (split_ext name) = Some ''json''"

definition entry_path :: "nat \<Rightarrow> string" where
  "entry_path s = show_nat s @ ''.json''"

definition tmp_path :: "nat \<Rightarrow> string" where
  "tmp_path s = show_nat s @ ''.tmp''"

text \<open>\<open>write_entry\<close>: where it can fail, or the process can die, before the rename.\<close>

datatype write_outcome = W_create_fails | W_write_fails | W_rename_fails | W_ok

definition write_entry :: "write_outcome \<Rightarrow> nat \<Rightarrow> 'e \<Rightarrow> 'e dir \<Rightarrow> bool \<times> 'e dir" where
  "write_entry w s e d =
     (case w of
        W_create_fails \<Rightarrow> (False, d)
      | W_write_fails \<Rightarrow> (False, AList.update (tmp_path s) Garbage d)
      | W_rename_fails \<Rightarrow> (False, AList.update (tmp_path s) (Parsed e) d)
      | W_ok \<Rightarrow> (True, AList.update (entry_path s) (Parsed e) (AList.delete (tmp_path s) d)))"

text \<open>What \<open>open\<close> reads off the listing: the highest sequence number of a file name, parsed or
  not, and the entries that parse.\<close>

definition max_seq :: "'e dir \<Rightarrow> nat" where
  "max_seq d = foldl (\<lambda>m (n, f). if is_json n
     then (case parse_uint 64 (fst (split_ext n)) of Some k \<Rightarrow> max m k | None \<Rightarrow> m) else m) 0 d"

definition parsed_entries :: "'e dir \<Rightarrow> 'e list" where
  "parsed_entries d = List.map_filter
     (\<lambda>(n, f). if is_json n then (case f of Parsed e \<Rightarrow> Some e | Garbage \<Rightarrow> None) else None) d"

subsection \<open>Paths\<close>

lemma image_filter_insert: "P a \<Longrightarrow> f ` {x \<in> insert a S. P x} = insert (f a) (f ` {x \<in> S. P x})"
  by auto

lemma distinct_set_singleton: "set xs = {a} \<Longrightarrow> distinct xs \<Longrightarrow> xs = [a]"
  by (cases xs; cases "tl xs") auto

lemma digit_not_dot: "is_digit c \<Longrightarrow> c \<noteq> CHR ''.''"
  by (auto simp: is_digit_def)

lemma show_nat_inj [simp]: "show_nat a = show_nat b \<longleftrightarrow> a = b"
  using show_nat_digits(2) by metis

lemma split_ext_path [simp]:
  "split_ext (entry_path s) = (show_nat s, Some ''json'')"
  "split_ext (tmp_path s) = (show_nat s, Some ''tmp'')"
proof -
  have *: "split_ext (show_nat s @ CHR ''.'' # e) = (show_nat s, Some e)" if "CHR ''.'' \<notin> set e" for e
  proof -
    have "rposition (\<lambda>c. c = CHR ''.'') (show_nat s @ CHR ''.'' # e) = Some (length (show_nat s))"
      using that by (intro rposition_last) auto
    then show ?thesis using show_nat_digits(3) [of s] by (simp add: split_ext_def)
  qed
  show "split_ext (entry_path s) = (show_nat s, Some ''json'')"
    using * [of "''json''"] by (simp add: entry_path_def)
  show "split_ext (tmp_path s) = (show_nat s, Some ''tmp'')"
    using * [of "''tmp''"] by (simp add: tmp_path_def)
qed

lemma paths [simp]:
  "is_json (entry_path s)" "\<not> is_json (tmp_path s)" "entry_path s \<noteq> tmp_path s'"
  "entry_path s = entry_path s' \<longleftrightarrow> s = s'"
proof -
  show "is_json (entry_path s)" "\<not> is_json (tmp_path s)" by (simp_all add: is_json_def)
  show "entry_path s \<noteq> tmp_path s'" using split_ext_path [of s] split_ext_path [of s'] by force
  show "entry_path s = entry_path s' \<longleftrightarrow> s = s'" by (simp add: entry_path_def)
qed

subsection \<open>The entries on disk\<close>

text \<open>A directory is well formed for \<open>sq\<close> when names are distinct and every parsed entry lies in
  the file of its own number.\<close>

definition stored :: "'e dir \<Rightarrow> 'e set" where
  "stored d = {e. \<exists>n. is_json n \<and> map_of d n = Some (Parsed e)}"

definition wf_dir :: "('e \<Rightarrow> nat) \<Rightarrow> 'e dir \<Rightarrow> bool" where
  "wf_dir sq d \<longleftrightarrow> distinct (map fst d)
     \<and> (\<forall>n e. is_json n \<and> map_of d n = Some (Parsed e) \<longrightarrow> n = entry_path (sq e))"

lemma set_parsed_entries: "distinct (map fst d) \<Longrightarrow> set (parsed_entries d) = stored d"
  by (force simp: parsed_entries_def stored_def List.map_filter_def image_iff
      split: if_splits file_content.splits)

lemma storedI: "map_of d (entry_path s) = Some (Parsed e) \<Longrightarrow> e \<in> stored d"
  by (auto simp: stored_def intro: exI [of _ "entry_path s"])

lemma wf_storedD: "wf_dir sq d \<Longrightarrow> e \<in> stored d \<Longrightarrow> map_of d (entry_path (sq e)) = Some (Parsed e)"
  by (auto simp: wf_dir_def stored_def)

lemma stored_wf: "wf_dir sq d \<Longrightarrow> stored d = {e. map_of d (entry_path (sq e)) = Some (Parsed e)}"
proof (intro set_eqI iffI)
  fix e assume "wf_dir sq d" "e \<in> stored d"
  then show "e \<in> {e. map_of d (entry_path (sq e)) = Some (Parsed e)}" by (simp add: wf_storedD)
next
  fix e assume "e \<in> {e. map_of d (entry_path (sq e)) = Some (Parsed e)}"
  then show "e \<in> stored d" by (simp add: storedI)
qed

lemma stored_cong: "(\<And>n. is_json n \<Longrightarrow> map_of d' n = map_of d n) \<Longrightarrow> stored d' = stored d"
  by (simp add: stored_def cong: conj_cong)

lemma stored_seq_inj: "wf_dir sq d \<Longrightarrow> e \<in> stored d \<Longrightarrow> e' \<in> stored d \<Longrightarrow> sq e = sq e' \<Longrightarrow> e = e'"
proof -
  assume a: "wf_dir sq d" "e \<in> stored d" "e' \<in> stored d" "sq e = sq e'"
  from wf_storedD [OF a(1,2)] wf_storedD [OF a(1,3)] have "Some (Parsed e) = Some (Parsed e')"
    unfolding a(4) by (rule trans [OF sym])
  then show ?thesis by simp
qed

lemma map_of_update [simp]: "map_of (AList.update k v d) = (map_of d)(k \<mapsto> v)"
  by (rule AList.update_conv')

lemma map_of_delete [simp]: "map_of (AList.delete k d) = (map_of d)(k := None)"
  by (rule AList.delete_conv')

lemma write_fails:
  assumes "write_entry w s e d = (False, d')" "wf_dir sq d"
  shows "wf_dir sq d' \<and> stored d' = stored d"
proof -
  have "wf_dir sq (AList.update (tmp_path s) f d) \<and> stored (AList.update (tmp_path s) f d) = stored d" for f
  proof
    show "wf_dir sq (AList.update (tmp_path s) f d)"
      using assms(2) by (auto simp: wf_dir_def distinct_update split: if_splits)
    show "stored (AList.update (tmp_path s) f d) = stored d"
      by (rule stored_cong) auto
  qed
  then show ?thesis using assms by (auto simp: write_entry_def split: write_outcome.splits)
qed

lemma write_ok:
  assumes "write_entry w s e d = (True, d')" "wf_dir sq d" "sq e = s"
  shows "wf_dir sq d' \<and> stored d' = insert e {x \<in> stored d. sq x \<noteq> s}"
proof -
  have d': "d' = AList.update (entry_path s) (Parsed e) (AList.delete (tmp_path s) d)"
    using assms(1) by (auto simp: write_entry_def split: write_outcome.splits)
  have wf: "wf_dir sq d'"
    using assms(2,3) by (auto simp: d' wf_dir_def distinct_update distinct_delete split: if_splits)
  show ?thesis
    unfolding stored_wf [OF wf] stored_wf [OF assms(2)]
    using wf assms(3) by (auto simp: d')
qed

lemma remove_file:
  assumes "wf_dir sq d"
  shows "wf_dir sq (AList.delete (entry_path s) d)
    \<and> stored (AList.delete (entry_path s) d) = {x \<in> stored d. sq x \<noteq> s}"
proof -
  have wf: "wf_dir sq (AList.delete (entry_path s) d)"
    using assms by (auto simp: wf_dir_def distinct_delete split: if_splits)
  show ?thesis unfolding stored_wf [OF wf] stored_wf [OF assms] using wf by auto
qed

lemma distinct_parsed_entries: "wf_dir sq d \<Longrightarrow> distinct (map sq (parsed_entries d))"
proof -
  have "distinct (map fst d) \<Longrightarrow> (\<forall>n e. (n, Parsed e) \<in> set d \<and> is_json n \<longrightarrow> n = entry_path (sq e)) \<Longrightarrow>
      distinct (map sq (parsed_entries d))" for d
  proof (induction d)
    case (Cons x d)
    have IH: "distinct (map sq (parsed_entries d))" using Cons by auto
    obtain n f where x: "x = (n, f)" by fastforce
    show ?case
    proof (cases "\<exists>e. is_json n \<and> f = Parsed e")
      case True
      then obtain e where e: "is_json n" "f = Parsed e" by blast
      have "sq e \<noteq> sq e'" if "e' \<in> set (parsed_entries d)" for e'
      proof
        assume "sq e = sq e'"
        from that obtain n' where n': "(n', Parsed e') \<in> set d" "is_json n'"
          by (auto simp: parsed_entries_def List.map_filter_def split: if_splits file_content.splits)
        with Cons.prems(2) have "n' = entry_path (sq e')" by auto
        moreover have "n = entry_path (sq e)" using Cons.prems(2) x e by auto
        ultimately show False using Cons.prems(1) n' x \<open>sq e = sq e'\<close> by force
      qed
      then show ?thesis using IH x e by (auto simp: parsed_entries_def List.map_filter_simps)
    next
      case False
      then show ?thesis using IH x
        by (auto simp: parsed_entries_def List.map_filter_simps split: file_content.split)
    qed
  qed (simp add: parsed_entries_def List.map_filter_simps)
  moreover assume "wf_dir sq d"
  ultimately show ?thesis unfolding wf_dir_def by (metis map_of_eq_Some_iff)
qed

lemma max_seq_le_iff:
  "max_seq d \<le> m \<longleftrightarrow>
     (\<forall>n k. n \<in> fst ` set d \<and> is_json n \<and> parse_uint 64 (fst (split_ext n)) = Some k \<longrightarrow> k \<le> m)"
proof -
  let ?f = "\<lambda>m (n, f). if is_json n
     then (case parse_uint 64 (fst (split_ext n)) of Some k \<Rightarrow> max m k | None \<Rightarrow> m) else (m::nat)"
  have "foldl ?f i d \<le> m \<longleftrightarrow> i \<le> m \<and>
     (\<forall>n k. n \<in> fst ` set d \<and> is_json n \<and> parse_uint 64 (fst (split_ext n)) = Some k \<longrightarrow> k \<le> m)" for i
  proof (induction d arbitrary: i)
    case (Cons x d)
    have "?f i x \<le> m \<longleftrightarrow> i \<le> m \<and> (is_json (fst x) \<longrightarrow>
        (\<forall>k. parse_uint 64 (fst (split_ext (fst x))) = Some k \<longrightarrow> k \<le> m))"
      by (auto split: option.split prod.split)
    with Cons [of "?f i x"] show ?case by (auto simp: case_prod_beta)
  qed simp
  then show ?thesis by (simp add: max_seq_def)
qed

lemma max_seq_leD:
  "max_seq d \<le> m \<Longrightarrow> map_of d n = Some f \<Longrightarrow> is_json n \<Longrightarrow> parse_uint 64 (fst (split_ext n)) = Some k \<Longrightarrow> k \<le> m"
  using max_seq_le_iff [of d m] by (metis domI dom_map_of_conv_image_fst)

lemma max_seq_leI:
  "(\<And>n f k. map_of d n = Some f \<Longrightarrow> is_json n \<Longrightarrow> parse_uint 64 (fst (split_ext n)) = Some k \<Longrightarrow> k \<le> m)
     \<Longrightarrow> max_seq d \<le> m"
  unfolding max_seq_le_iff by (metis domD dom_map_of_conv_image_fst)

lemma max_seq_ge:
  assumes "wf_dir sq d" "e \<in> stored d" "sq e < 2 ^ 64"
  shows "sq e \<le> max_seq d"
  using max_seq_leD [OF order_refl wf_storedD [OF assms(1,2)]] assms(3) by (simp add: parse_show_nat)

lemma max_seq_write:
  assumes "write_entry w s e d = (b, d')" "max_seq d \<le> m" "s \<le> m" "s < 2 ^ 64"
  shows "max_seq d' \<le> m"
proof (rule max_seq_leI)
  fix n f k assume n: "map_of d' n = Some f" "is_json n" "parse_uint 64 (fst (split_ext n)) = Some k"
  show "k \<le> m"
  proof (cases "n = entry_path s")
    case True
    then show ?thesis using n(3) assms(3,4) by (simp add: parse_show_nat)
  next
    case False
    then have "map_of d n = Some f" using n(1,2) assms(1)
      by (auto simp: write_entry_def split: write_outcome.splits if_splits)
    then show ?thesis using max_seq_leD [OF assms(2)] n by blast
  qed
qed

lemma max_seq_remove: "max_seq d \<le> m \<Longrightarrow> max_seq (AList.delete n d) \<le> m"
  by (rule max_seq_leI) (auto dest: max_seq_leD split: if_splits)

subsection \<open>The contract of an at-least-once queue\<close>

text \<open>
  \<open>'s\<close> is a store: directory and memory together.  \<open>enq\<close> answers \<open>Some k\<close> when the entry was
  accepted under the handle \<open>k\<close>, \<open>ack\<close> answers whether the entry was settled, \<open>restart\<close> is the
  death of the process followed by \<open>open\<close> on what the disk holds, \<open>replay\<close> what start-up recovery
  is handed.  \<open>outst\<close> is the set of handles still pending on disk; \<open>room n\<close> says the 64-bit
  sequence counter is good for \<open>n\<close> more entries.  A history is a list of steps, with the
  handles owed: accepted and not yet settled.
\<close>

datatype ('o, 'e, 'k) queue_step = Enq 'o 'e | Ack 'o 'k | Crash

definition step_queue ::
  "('s \<Rightarrow> 's) \<Rightarrow> ('o \<Rightarrow> 'e \<Rightarrow> 's \<Rightarrow> 'k option \<times> 's) \<Rightarrow> ('o \<Rightarrow> 'k \<Rightarrow> 's \<Rightarrow> bool \<times> 's) \<Rightarrow>
     ('o, 'e, 'k) queue_step \<Rightarrow> 's \<times> 'k set \<Rightarrow> 's \<times> 'k set" where
  "step_queue restart enq ack x h =
     (case x of
        Enq w e \<Rightarrow> (case enq w e (fst h) of
            (Some k, s') \<Rightarrow> (s', insert k (snd h)) | (None, s') \<Rightarrow> (s', snd h))
      | Ack w k \<Rightarrow> (case ack w k (fst h) of
            (True, s') \<Rightarrow> (s', snd h - {k}) | (False, s') \<Rightarrow> (s', snd h))
      | Crash \<Rightarrow> (restart (fst h), snd h))"

definition run_queue ::
  "('s \<Rightarrow> 's) \<Rightarrow> ('o \<Rightarrow> 'e \<Rightarrow> 's \<Rightarrow> 'k option \<times> 's) \<Rightarrow> ('o \<Rightarrow> 'k \<Rightarrow> 's \<Rightarrow> bool \<times> 's) \<Rightarrow>
     ('o, 'e, 'k) queue_step list \<Rightarrow> 's \<times> 'k set \<Rightarrow> 's \<times> 'k set" where
  "run_queue restart enq ack = fold (step_queue restart enq ack)"

locale durable_queue =
  fixes restart :: "'s \<Rightarrow> 's"
    and enq :: "'o \<Rightarrow> 'e \<Rightarrow> 's \<Rightarrow> 'k option \<times> 's"
    and ack :: "'o \<Rightarrow> 'k \<Rightarrow> 's \<Rightarrow> bool \<times> 's"
    and replay :: "'s \<Rightarrow> 'k list"
    and outst :: "'s \<Rightarrow> 'k set"
    and ok :: "'s \<Rightarrow> bool"
    and room :: "nat \<Rightarrow> 's \<Rightarrow> bool"
  assumes restart_ok: "ok s \<Longrightarrow> ok (restart s) \<and> outst (restart s) = outst s"
    and restart_room: "ok s \<Longrightarrow> room n s \<Longrightarrow> room n (restart s)"
    and replay_restart: "ok s \<Longrightarrow> set (replay (restart s)) = outst s \<and> distinct (replay (restart s))"
    and enq_accepts: "ok s \<Longrightarrow> room (Suc n) s \<Longrightarrow> enq w e s = (Some k, s') \<Longrightarrow>
          ok s' \<and> room n s' \<and> k \<notin> outst s \<and> outst s' = insert k (outst s)"
    and enq_refuses: "ok s \<Longrightarrow> room (Suc n) s \<Longrightarrow> enq w e s = (None, s') \<Longrightarrow>
          ok s' \<and> room n s' \<and> outst s' = outst s"
    and ack_settles: "ok s \<Longrightarrow> ack w k s = (True, s') \<Longrightarrow> ok s' \<and> outst s' = outst s - {k}"
    and ack_fails: "ok s \<Longrightarrow> ack w k s = (False, s') \<Longrightarrow> ok s' \<and> outst s' = outst s"
    and ack_room: "ok s \<Longrightarrow> room n s \<Longrightarrow> ack w k s = (b, s') \<Longrightarrow> room n s'"
    and room_Suc: "room (Suc n) s \<Longrightarrow> room n s"
begin

lemma step_invariant:
  assumes "ok s" "room (Suc n) s" "step_queue restart enq ack x (s, outst s) = (s', owed)"
  shows "ok s' \<and> outst s' = owed \<and> room n s'"
proof (cases x)
  case (Enq w e)
  obtain r s1 where "enq w e s = (r, s1)" by fastforce
  with Enq assms enq_accepts [OF assms(1,2), of w e _ s1] enq_refuses [OF assms(1,2), of w e s1]
  show ?thesis by (cases r) (auto simp: step_queue_def)
next
  case (Ack w k)
  obtain b s1 where r: "ack w k s = (b, s1)" by fastforce
  with Ack assms ack_settles [OF assms(1), of w k s1] ack_fails [OF assms(1), of w k s1]
    ack_room [OF assms(1) room_Suc [OF assms(2)] r]
  show ?thesis by (cases b) (auto simp: step_queue_def)
next
  case Crash
  with assms restart_ok [OF assms(1)] restart_room [OF assms(1) room_Suc [OF assms(2)]]
  show ?thesis by (auto simp: step_queue_def)
qed

lemma run_invariant:
  "ok s \<Longrightarrow> room (length xs) s \<Longrightarrow> run_queue restart enq ack xs (s, outst s) = (s', owed)
     \<Longrightarrow> ok s' \<and> outst s' = owed"
proof (induction xs arbitrary: s)
  case (Cons x xs)
  obtain s1 o1 where st: "step_queue restart enq ack x (s, outst s) = (s1, o1)" by fastforce
  with step_invariant [OF Cons.prems(1) _ st, of "length xs"] Cons.prems
  have s1: "ok s1" "room (length xs) s1" "run_queue restart enq ack xs (s1, outst s1) = (s', owed)"
    by (auto simp: run_queue_def)
  show ?case by (rule Cons.IH [OF s1])
qed (simp add: run_queue_def)

lemma at_least_once:
  assumes "ok s" "room (length xs) s" "run_queue restart enq ack xs (s, outst s) = (s', owed)"
  shows "set (replay (restart s')) = owed \<and> distinct (replay (restart s'))"
  using replay_restart run_invariant [OF assms] by blast

end

text \<open>A queue that also refuses what it has seen before: the keys on disk outlive a restart, and
  maintenance does not touch the outstanding entries.\<close>

primrec accepted_keys ::
  "('s \<Rightarrow> 's) \<Rightarrow> ('o \<Rightarrow> 'e \<Rightarrow> 's \<Rightarrow> 'k option \<times> 's) \<Rightarrow> ('o \<Rightarrow> 'k \<Rightarrow> 's \<Rightarrow> bool \<times> 's) \<Rightarrow> ('e \<Rightarrow> 'q) \<Rightarrow>
     ('o, 'e, 'k) queue_step list \<Rightarrow> 's \<Rightarrow> 'q list" where
  "accepted_keys restart enq ack ky [] s = []"
| "accepted_keys restart enq ack ky (x # xs) s =
     (case x of
        Enq w e \<Rightarrow> (case enq w e s of (r, s') \<Rightarrow>
          (if r = None then [] else [ky e]) @ accepted_keys restart enq ack ky xs s')
      | Ack w k \<Rightarrow> (case ack w k s of (b, s') \<Rightarrow> accepted_keys restart enq ack ky xs s')
      | Crash \<Rightarrow> accepted_keys restart enq ack ky xs (restart s))"

locale dedup_queue = durable_queue restart enq ack replay outst ok room
  for restart :: "'s \<Rightarrow> 's"
    and enq :: "'o \<Rightarrow> 'e \<Rightarrow> 's \<Rightarrow> 'k option \<times> 's"
    and ack :: "'o \<Rightarrow> 'k \<Rightarrow> 's \<Rightarrow> bool \<times> 's"
    and replay :: "'s \<Rightarrow> 'k list"
    and outst :: "'s \<Rightarrow> 'k set"
    and ok :: "'s \<Rightarrow> bool"
    and room :: "nat \<Rightarrow> 's \<Rightarrow> bool" +
  fixes ky :: "'e \<Rightarrow> 'q"
    and known :: "'s \<Rightarrow> 'q set"
    and compact :: "'c \<Rightarrow> 's \<Rightarrow> 's"
  assumes known_restart: "ok s \<Longrightarrow> known (restart s) = known s"
    and known_accept: "ok s \<Longrightarrow> room (Suc n) s \<Longrightarrow> enq w e s = (Some k, s') \<Longrightarrow>
          ky e \<notin> known s \<and> known s' = insert (ky e) (known s)"
    and known_refuse: "ok s \<Longrightarrow> room (Suc n) s \<Longrightarrow> enq w e s = (None, s') \<Longrightarrow> known s' = known s"
    and known_ack: "ok s \<Longrightarrow> ack w k s = (b, s') \<Longrightarrow> known s' = known s"
    and compact_ok: "ok s \<Longrightarrow> ok (compact c s) \<and> outst (compact c s) = outst s"
begin

lemma accepted_once:
  "ok s \<Longrightarrow> room (length xs) s \<Longrightarrow>
     distinct (accepted_keys restart enq ack ky xs s)
     \<and> set (accepted_keys restart enq ack ky xs s) \<inter> known s = {}"
proof (induction xs arbitrary: s)
  case (Cons x xs)
  have r: "room (Suc (length xs)) s" using Cons.prems(2) by simp
  show ?case
  proof (cases x)
    case (Enq w e)
    obtain k s1 where q: "enq w e s = (k, s1)" by fastforce
    show ?thesis
    proof (cases k)
      case None
      with q enq_refuses [OF Cons.prems(1) r] known_refuse [OF Cons.prems(1) r] Cons.IH [of s1]
      show ?thesis by (simp add: Enq)
    next
      case (Some k')
      with q enq_accepts [OF Cons.prems(1) r] known_accept [OF Cons.prems(1) r] Cons.IH [of s1]
      show ?thesis by (auto simp: Enq)
    qed
  next
    case (Ack w k)
    obtain b s1 where q: "ack w k s = (b, s1)" by fastforce
    have "ok s1" using ack_settles [OF Cons.prems(1)] ack_fails [OF Cons.prems(1)] q by (cases b) auto
    with Cons.IH [of s1] known_ack [OF Cons.prems(1) q] ack_room [OF Cons.prems(1) room_Suc [OF r] q] q
    show ?thesis by (simp add: Ack)
  next
    case Crash
    with Cons.IH [of "restart s"] known_restart [OF Cons.prems(1)] restart_ok [OF Cons.prems(1)]
      restart_room [OF Cons.prems(1) room_Suc [OF r]]
    show ?thesis by simp
  qed
qed simp

end

end
