(* ===== verification/Completion_Queue.thy ===== *)
theory Completion_Queue
  imports Durable_Queue
begin

text \<open>
  \<open>agents/orchestrator/completion_queue.rs\<close>: the persistent queue of delegation completion
  notices.  The store is one record with its directory; I/O failures are arguments.
\<close>

subsection \<open>State and operations\<close>

datatype delivery_state = NPending | NDelivered

record notice =
  n_seq :: nat
  n_id :: string
  n_sub_session_id :: string
  n_parent_session_id :: string
  n_status :: "string option"
  n_content :: string
  n_silenced_override :: "bool option"
  n_sent_message_count :: nat
  n_enqueued_at :: nat
  n_state :: delivery_state

record notice_store =
  cq_dir :: "notice dir"
  cq_seq :: nat
  cq_seen :: "string set"
  cq_pending :: "notice list"

text \<open>\<open>open\<close>: parse the directory, delete stale delivered files, sort the pending entries.  That deletion is taken to
  succeed; the code ignores its failure, which would leave a file that the next \<open>open\<close> skips in the same way.\<close>

definition is_delivered_file :: "string \<times> notice file_content \<Rightarrow> bool" where
  "is_delivered_file = (\<lambda>(n, f). is_json n \<and>
     (case f of Parsed e \<Rightarrow> n_state e = NDelivered | Garbage \<Rightarrow> False))"

definition cq_open :: "notice dir \<Rightarrow> notice_store" where
  "cq_open d =
     \<lparr>cq_dir = filter (\<lambda>f. \<not> is_delivered_file f) d,
      cq_seq = max_seq d,
      cq_seen = set (map n_id (parsed_entries d)),
      cq_pending = sort_key n_seq (filter (\<lambda>e. n_state e = NPending) (parsed_entries d))\<rparr>"

datatype append_result = Append_err | Append_dup | Append_seq nat

definition next_seq :: "nat \<Rightarrow> nat" where
  "next_seq s = (s + 1) mod 2 ^ 64"

definition cq_append :: "write_outcome \<Rightarrow> notice \<Rightarrow> notice_store \<Rightarrow> append_result \<times> notice_store" where
  "cq_append w e st =
     (if n_id e \<in> cq_seen st then (Append_dup, st)
      else
        let st1 = st\<lparr>cq_seen := insert (n_id e) (cq_seen st), cq_seq := next_seq (cq_seq st)\<rparr>;
            e1 = e\<lparr>n_seq := next_seq (cq_seq st), n_state := NPending\<rparr>
        in case write_entry w (n_seq e1) e1 (cq_dir st1) of
             (False, d) \<Rightarrow> (Append_err, st1\<lparr>cq_dir := d\<rparr>)
           | (True, d) \<Rightarrow> (Append_seq (n_seq e1), st1\<lparr>cq_dir := d, cq_pending := cq_pending st1 @ [e1]\<rparr>))"

text \<open>\<open>mark_delivered\<close> with the outcome of \<open>remove_file\<close>; a missing file counts as removed.
  The result is \<open>Some b\<close> for \<open>Ok(b)\<close> and \<open>None\<close> for an I/O error.\<close>

primrec take_first :: "('a \<Rightarrow> bool) \<Rightarrow> 'a list \<Rightarrow> ('a \<times> 'a list) option" where
  "take_first P [] = None"
| "take_first P (x # xs) =
     (if P x then Some (x, xs) else map_option (\<lambda>(y, ys). (y, x # ys)) (take_first P xs))"

definition cq_mark_delivered :: "bool \<Rightarrow> string \<Rightarrow> notice_store \<Rightarrow> bool option \<times> notice_store" where
  "cq_mark_delivered remove_fails i st =
     (case take_first (\<lambda>e. n_id e = i) (cq_pending st) of
        None \<Rightarrow> (Some False, st)
      | Some (e, rest) \<Rightarrow>
          if map_of (cq_dir st) (entry_path (n_seq e)) = None then (Some True, st\<lparr>cq_pending := rest\<rparr>)
          else if remove_fails then (None, st\<lparr>cq_pending := rest\<rparr>)
          else (Some True, st\<lparr>cq_pending := rest, cq_dir := AList.delete (entry_path (n_seq e)) (cq_dir st)\<rparr>))"

definition cq_pending_entries :: "notice_store \<Rightarrow> notice list" where
  "cq_pending_entries st = sort_key n_seq (cq_pending st)"

definition cq_len :: "notice_store \<Rightarrow> nat" where
  "cq_len st = length (cq_pending st)"

subsection \<open>The store as an at-least-once queue\<close>

text \<open>Handles are notice ids.\<close>

type_synonym cq_io = "write_outcome \<times> bool"

definition cq_restart :: "notice_store \<Rightarrow> notice_store" where
  "cq_restart st = cq_open (cq_dir st)"

definition cq_enq :: "cq_io \<Rightarrow> notice \<Rightarrow> notice_store \<Rightarrow> string option \<times> notice_store" where
  "cq_enq w e st = (case cq_append (fst w) e st of
     (Append_seq _, st') \<Rightarrow> (Some (n_id e), st') | (_, st') \<Rightarrow> (None, st'))"

definition cq_ack :: "cq_io \<Rightarrow> string \<Rightarrow> notice_store \<Rightarrow> bool \<times> notice_store" where
  "cq_ack w i st = (case cq_mark_delivered (snd w) i st of (r, st') \<Rightarrow> (r = Some True, st'))"

definition cq_replay :: "notice_store \<Rightarrow> string list" where
  "cq_replay st = map n_id (cq_pending_entries st)"

definition cq_outstanding :: "notice_store \<Rightarrow> string set" where
  "cq_outstanding st = n_id ` {e \<in> stored (cq_dir st). n_state e = NPending}"

definition cq_room :: "nat \<Rightarrow> notice_store \<Rightarrow> bool" where
  "cq_room n st \<longleftrightarrow> cq_seq st + n < 2 ^ 64"

definition cq_ok :: "notice_store \<Rightarrow> bool" where
  "cq_ok st \<longleftrightarrow> wf_dir n_seq (cq_dir st) \<and> max_seq (cq_dir st) \<le> cq_seq st
     \<and> (\<forall>e \<in> stored (cq_dir st). n_seq e < 2 ^ 64 \<and> n_id e \<in> cq_seen st)
     \<and> inj_on n_id (stored (cq_dir st))
     \<and> distinct (cq_pending st)
     \<and> set (cq_pending st) \<subseteq> {e \<in> stored (cq_dir st). n_state e = NPending}"

lemma take_first_SomeD:
  "take_first P xs = Some (y, ys) \<Longrightarrow>
     P y \<and> set xs = insert y (set ys) \<and> (distinct xs \<longrightarrow> y \<notin> set ys \<and> distinct ys)"
  by (induction xs arbitrary: ys) (auto split: if_splits)

lemma cq_okD:
  assumes "cq_ok st"
  shows "wf_dir n_seq (cq_dir st)" "max_seq (cq_dir st) \<le> cq_seq st"
    "\<And>e. e \<in> stored (cq_dir st) \<Longrightarrow> n_seq e < 2 ^ 64 \<and> n_id e \<in> cq_seen st \<and> n_seq e \<le> cq_seq st"
    "inj_on n_id (stored (cq_dir st))" "distinct (cq_pending st)"
    "set (cq_pending st) \<subseteq> {e \<in> stored (cq_dir st). n_state e = NPending}"
proof -
  show wf: "wf_dir n_seq (cq_dir st)" and m: "max_seq (cq_dir st) \<le> cq_seq st"
    and "inj_on n_id (stored (cq_dir st))" "distinct (cq_pending st)"
    "set (cq_pending st) \<subseteq> {e \<in> stored (cq_dir st). n_state e = NPending}"
    using assms by (simp_all only: cq_ok_def)
  fix e assume e: "e \<in> stored (cq_dir st)"
  then have b: "n_seq e < 2 ^ 64 \<and> n_id e \<in> cq_seen st" using assms unfolding cq_ok_def by blast
  with max_seq_ge [OF wf e] m show "n_seq e < 2 ^ 64 \<and> n_id e \<in> cq_seen st \<and> n_seq e \<le> cq_seq st"
    by simp
qed

lemma set_parsed: "wf_dir sq d \<Longrightarrow> set (parsed_entries d) = stored d"
  by (simp add: wf_dir_def set_parsed_entries)

lemma open_dir:
  assumes "wf_dir n_seq d"
  shows "wf_dir n_seq (cq_dir (cq_open d))"
    "stored (cq_dir (cq_open d)) = {e \<in> stored d. n_state e = NPending}"
    "max_seq (cq_dir (cq_open d)) \<le> max_seq d"
proof -
  have dist: "distinct (map fst d)" using assms by (simp add: wf_dir_def)
  then have mf: "map_of (filter (\<lambda>f. \<not> is_delivered_file f) d) n =
      (case map_of d n of Some f \<Rightarrow> if is_delivered_file (n, f) then None else Some f | None \<Rightarrow> None)" for n
  proof (induction d)
    case (Cons x d)
    then show ?case by (cases x) (auto split: option.splits simp: map_of_eq_None_iff)
  qed simp
  show wf: "wf_dir n_seq (cq_dir (cq_open d))"
  proof -
    have "distinct (map fst (filter (\<lambda>f. \<not> is_delivered_file f) d))"
      using dist by (rule distinct_map_filter)
    moreover have "map_of (filter (\<lambda>f. \<not> is_delivered_file f) d) n = Some f \<Longrightarrow> map_of d n = Some f" for n f
      by (simp add: mf split: option.splits if_splits)
    ultimately show ?thesis using assms unfolding wf_dir_def by (simp add: cq_open_def)
  qed
  show "stored (cq_dir (cq_open d)) = {e \<in> stored d. n_state e = NPending}"
  proof -
    have "map_of (filter (\<lambda>f. \<not> is_delivered_file f) d) n = Some (Parsed e) \<longleftrightarrow>
        map_of d n = Some (Parsed e) \<and> n_state e = NPending" if "is_json n" for n e
    proof -
      have "is_delivered_file (n, Parsed e) \<longleftrightarrow> n_state e = NDelivered" for e
        using that by (simp add: is_delivered_file_def)
      then show ?thesis by (cases "n_state e") (auto simp: mf split: option.splits)
    qed
    then show ?thesis by (auto simp: stored_def cq_open_def)
  qed
  show "max_seq (cq_dir (cq_open d)) \<le> max_seq d"
    by (rule max_seq_leI) (auto simp: cq_open_def mf split: option.splits if_splits
        intro: max_seq_leD [OF order_refl])
qed

lemma cq_open_ok:
  assumes "wf_dir n_seq d" "\<forall>e \<in> stored d. n_seq e < 2 ^ 64" "inj_on n_id (stored d)"
  shows "cq_ok (cq_open d)"
    "cq_outstanding (cq_open d) = n_id ` {e \<in> stored d. n_state e = NPending}"
    "set (cq_replay (cq_open d)) = cq_outstanding (cq_open d)" "distinct (cq_replay (cq_open d))"
proof -
  note od = open_dir [OF assms(1)]
  have pend: "set (cq_pending (cq_open d)) = {e \<in> stored d. n_state e = NPending}"
    by (auto simp: cq_open_def set_parsed [OF assms(1)])
  have dist: "distinct (cq_pending (cq_open d))"
    using distinct_parsed_entries [OF assms(1)] by (simp add: cq_open_def distinct_map)
  have inj: "inj_on n_id {e \<in> stored d. n_state e = NPending}"
    by (rule inj_on_subset [OF assms(3)]) auto
  show "cq_ok (cq_open d)"
    using od assms dist inj pend
    by (auto simp: cq_ok_def set_parsed [OF assms(1)]) (auto simp: cq_open_def set_parsed [OF assms(1)])
  show "cq_outstanding (cq_open d) = n_id ` {e \<in> stored d. n_state e = NPending}"
    by (simp add: cq_outstanding_def od(2) conj_assoc cong: conj_cong)
  show "set (cq_replay (cq_open d)) = cq_outstanding (cq_open d)"
    by (simp add: cq_replay_def cq_pending_entries_def pend cq_outstanding_def od(2) conj_assoc cong: conj_cong)
  show "distinct (cq_replay (cq_open d))"
    using dist inj pend by (simp add: cq_replay_def cq_pending_entries_def distinct_map)
qed

lemma next_seq_room: "cq_room (Suc n) st \<Longrightarrow> next_seq (cq_seq st) = Suc (cq_seq st) \<and> Suc (cq_seq st) + n < 2 ^ 64"
  by (simp add: cq_room_def next_seq_def)

lemma cq_append_accepts:
  assumes ok: "cq_ok st" and room: "cq_room (Suc n) st" and new: "n_id e \<notin> cq_seen st"
    and e1_def: "e1 = e\<lparr>n_seq := Suc (cq_seq st), n_state := NPending\<rparr>"
    and w: "write_entry w (Suc (cq_seq st)) e1 (cq_dir st) = (True, d)"
    and st'_def: "st' = st\<lparr>cq_seen := insert (n_id e) (cq_seen st), cq_seq := Suc (cq_seq st), cq_dir := d,
      cq_pending := cq_pending st @ [e1]\<rparr>"
  shows "cq_ok st' \<and> stored d = insert e1 (stored (cq_dir st)) \<and> e1 \<notin> stored (cq_dir st)"
proof -
  note D = cq_okD [OF ok]
  have fresh: "n_seq x \<noteq> Suc (cq_seq st)" if "x \<in> stored (cq_dir st)" for x using D(3) [OF that] by simp
  then have set: "{x \<in> stored (cq_dir st). n_seq x \<noteq> Suc (cq_seq st)} = stored (cq_dir st)" by auto
  from write_ok [OF w D(1)] have wf: "wf_dir n_seq d" and st: "stored d = insert e1 (stored (cq_dir st))"
    unfolding set by (simp_all add: e1_def)
  have out: "e1 \<notin> stored (cq_dir st)" using fresh [of e1] by (auto simp: e1_def)
  have b: "Suc (cq_seq st) < 2 ^ 64" using next_seq_room [OF room] by simp
  have "max_seq d \<le> Suc (cq_seq st)" by (rule max_seq_write [OF w]) (use D(2) b in auto)
  moreover have "inj_on n_id (stored d)"
    unfolding st using D(3,4) new by (auto simp: e1_def)
  ultimately have "cq_ok st'"
    using wf D(3,5,6) out b unfolding cq_ok_def by (auto simp: st'_def st) (auto simp: e1_def)
  with st out show ?thesis by blast
qed

lemma cq_enq_accepts:
  assumes ok: "cq_ok s" and room: "cq_room (Suc n) s" and r: "cq_enq w e s = (Some k, s')"
  shows "cq_ok s' \<and> cq_room n s' \<and> k \<notin> cq_outstanding s \<and> cq_outstanding s' = insert k (cq_outstanding s)"
proof -
  let ?e1 = "e\<lparr>n_seq := Suc (cq_seq s), n_state := NPending\<rparr>"
  note nx = next_seq_room [OF room]
  from r have new: "n_id e \<notin> cq_seen s" and k: "k = n_id e"
    by (auto simp: cq_enq_def cq_append_def Let_def split: if_splits prod.splits bool.splits)
  with r nx obtain d where w: "write_entry (fst w) (Suc (cq_seq s)) ?e1 (cq_dir s) = (True, d)"
    and s': "s' = s\<lparr>cq_seen := insert (n_id e) (cq_seen s), cq_seq := Suc (cq_seq s), cq_dir := d,
      cq_pending := cq_pending s @ [?e1]\<rparr>"
    by (auto simp: cq_enq_def cq_append_def Let_def split: if_splits prod.splits bool.splits)
  note acc = cq_append_accepts [OF ok room new refl w s']
  have "cq_outstanding s' = insert k (cq_outstanding s)"
    using acc image_filter_insert [of "\<lambda>x. n_state x = NPending" ?e1 n_id "stored (cq_dir s)"]
    by (simp add: cq_outstanding_def s' k)
  moreover have "k \<notin> cq_outstanding s"
    using new cq_okD(3) [OF ok] by (auto simp: k cq_outstanding_def)
  ultimately show ?thesis using acc nx by (simp add: cq_room_def s')
qed

lemma cq_enq_refuses:
  assumes ok: "cq_ok s" and room: "cq_room (Suc n) s" and r: "cq_enq w e s = (None, s')"
  shows "cq_ok s' \<and> cq_room n s' \<and> cq_outstanding s' = cq_outstanding s"
proof (cases "n_id e \<in> cq_seen s")
  case True
  with r have "s' = s" by (auto simp: cq_enq_def cq_append_def)
  with ok room show ?thesis by (simp add: cq_room_def)
next
  case False
  note nx = next_seq_room [OF room] and D = cq_okD [OF ok]
  let ?e1 = "e\<lparr>n_seq := Suc (cq_seq s), n_state := NPending\<rparr>"
  from r False nx obtain d where w: "write_entry (fst w) (Suc (cq_seq s)) ?e1 (cq_dir s) = (False, d)"
    and s': "s' = s\<lparr>cq_seen := insert (n_id e) (cq_seen s), cq_seq := Suc (cq_seq s), cq_dir := d\<rparr>"
    by (auto simp: cq_enq_def cq_append_def Let_def split: if_splits prod.splits bool.splits)
  note wf = write_fails [OF w D(1)]
  have "max_seq d \<le> Suc (cq_seq s)"
    by (rule max_seq_write [OF w]) (use D(2) nx in auto)
  with wf ok D nx show ?thesis
    by (auto simp: s' cq_ok_def cq_outstanding_def cq_room_def)
qed

lemma cq_ack_cases:
  assumes ok: "cq_ok s" and r: "cq_ack w k s = (b, s')"
  shows "cq_ok s' \<and> cq_seq s' = cq_seq s \<and>
    cq_outstanding s' = (if b then cq_outstanding s - {k} else cq_outstanding s)"
proof (cases "take_first (\<lambda>e. n_id e = k) (cq_pending s)")
  case None
  with r ok show ?thesis by (auto simp: cq_ack_def cq_mark_delivered_def)
next
  case (Some p)
  obtain e rest where p: "p = (e, rest)" by fastforce
  note D = cq_okD [OF ok]
  from take_first_SomeD [OF Some [unfolded p]] D(5) have e: "n_id e = k"
    "set (cq_pending s) = insert e (set rest)" "e \<notin> set rest" "distinct rest"
    by auto
  from e(2) D(6) have es: "e \<in> stored (cq_dir s)" "n_state e = NPending" by auto
  have present: "map_of (cq_dir s) (entry_path (n_seq e)) \<noteq> None" using wf_storedD [OF D(1) es(1)] by simp
  note rm = remove_file [OF D(1), of "n_seq e"]
  have only: "{x \<in> stored (cq_dir s). n_seq x \<noteq> n_seq e} = stored (cq_dir s) - {e}"
  proof -
    have "x = e" if "x \<in> stored (cq_dir s)" "n_seq x = n_seq e" for x
      by (rule stored_seq_inj [OF D(1) that(1) es(1) that(2)])
    then show ?thesis by blast
  qed
  show ?thesis
  proof (cases "snd w")
    case True
    then have "b = False" "s' = s\<lparr>cq_pending := rest\<rparr>"
      using r Some p present by (auto simp: cq_ack_def cq_mark_delivered_def)
    then show ?thesis using ok e(2,4) by (auto simp: cq_ok_def cq_outstanding_def)
  next
    case False
    then have b: "b = True" and s': "s' = s\<lparr>cq_pending := rest,
        cq_dir := AList.delete (entry_path (n_seq e)) (cq_dir s)\<rparr>"
      using r Some p present by (auto simp: cq_ack_def cq_mark_delivered_def)
    have st: "stored (cq_dir s') = stored (cq_dir s) - {e}" using rm only by (simp add: s')
    have "cq_outstanding s' = cq_outstanding s - {k}"
      using D(4) es e(1) by (auto simp: cq_outstanding_def st inj_on_def)
    moreover have "cq_ok s'"
      using rm D e max_seq_remove [OF D(2)] unfolding cq_ok_def st
      by (auto simp: s' intro: inj_on_diff)
    ultimately show ?thesis by (simp add: b s')
  qed
qed

lemma cq_restart_facts:
  assumes "cq_ok s"
  shows "cq_ok (cq_restart s)" "cq_outstanding (cq_restart s) = cq_outstanding s"
    "set (cq_replay (cq_restart s)) = cq_outstanding s" "distinct (cq_replay (cq_restart s))"
    "cq_seq (cq_restart s) \<le> cq_seq s"
proof -
  note D = cq_okD [OF assms]
  note op = cq_open_ok [OF D(1) _ D(4)]
  show "cq_ok (cq_restart s)" "cq_outstanding (cq_restart s) = cq_outstanding s"
    "set (cq_replay (cq_restart s)) = cq_outstanding s" "distinct (cq_replay (cq_restart s))"
    using op D(3) by (auto simp: cq_restart_def cq_outstanding_def)
  show "cq_seq (cq_restart s) \<le> cq_seq s" using D(2) by (simp add: cq_restart_def cq_open_def)
qed

interpretation cq: durable_queue cq_restart cq_enq cq_ack cq_replay cq_outstanding cq_ok cq_room
proof (unfold_locales, goal_cases)
  case (2 s n)
  then show ?case using cq_restart_facts(5) [of s] by (auto simp: cq_room_def)
next
  case (4 s n w e k s')
  then show ?case by (rule cq_enq_accepts)
next
  case (5 s n w e s')
  then show ?case by (rule cq_enq_refuses)
next
  case (6 s w k s')
  then show ?case using cq_ack_cases [of s w k True s'] by simp
next
  case (7 s w k s')
  then show ?case using cq_ack_cases [of s w k False s'] by simp
next
  case (8 s n w k b s')
  then show ?case using cq_ack_cases [of s w k b s'] by (simp add: cq_room_def)
qed (simp_all add: cq_restart_facts cq_room_def)

text \<open>C2: Completion notices are delivered at least once: after any history of appends,
  deliveries and crashes, with any writes or deletions failing on the way, the notices start-up
  recovery is handed are exactly the accepted ones not yet marked delivered, each once.\<close>

theorem completion_at_least_once:
  assumes "cq_ok st" "cq_seq st + length steps < 2 ^ 64"
    and "run_queue cq_restart cq_enq cq_ack steps (st, cq_outstanding st) = (st', owed)"
  shows "set (map n_id (cq_pending_entries (cq_open (cq_dir st')))) = owed
    \<and> distinct (map n_id (cq_pending_entries (cq_open (cq_dir st'))))"
  using cq.at_least_once [OF assms(1) _ assms(3)] assms(2)
  by (simp add: cq_room_def cq_restart_def cq_replay_def)

definition sample_notice :: "string \<Rightarrow> notice" where
  "sample_notice i = \<lparr>n_seq = 0, n_id = i, n_sub_session_id = ''sub'', n_parent_session_id = ''main'',
     n_status = None, n_content = ''done'', n_silenced_override = None, n_sent_message_count = 0,
     n_enqueued_at = 0, n_state = NPending\<rparr>"

theorem completion_at_least_once_witness:
  "\<exists>st'. run_queue cq_restart cq_enq cq_ack
      [Enq (W_ok, False) (sample_notice ''a''), Enq (W_ok, False) (sample_notice ''b''),
       Ack (W_ok, False) ''a'', Crash] (cq_open [], {}) = (st', {''b''})
    \<and> map n_id (cq_pending_entries (cq_open (cq_dir st'))) = [''b'']"
proof -
  let ?steps = "[Enq (W_ok, False) (sample_notice ''a''), Enq (W_ok, False) (sample_notice ''b''),
       Ack (W_ok, False) ''a'', Crash]"
  have wf: "wf_dir n_seq ([] :: notice dir)" "stored ([] :: notice dir) = {}"
    by (simp_all add: wf_dir_def stored_def)
  have ok: "cq_ok (cq_open [])" "cq_outstanding (cq_open []) = {}"
    using cq_open_ok(1,2) [OF wf(1)] by (simp_all add: wf(2))
  have run: "snd (run_queue cq_restart cq_enq cq_ack ?steps (cq_open [], {})) = {''b''}"
    by (simp add: run_queue_def step_queue_def cq_enq_def cq_append_def cq_ack_def cq_mark_delivered_def
        cq_open_def max_seq_def parsed_entries_def List.map_filter_simps sample_notice_def write_entry_def
        next_seq_def Let_def) auto
  obtain st' ow where r0: "run_queue cq_restart cq_enq cq_ack ?steps (cq_open [], {}) = (st', ow)"
    by (rule prod.exhaust)
  have "ow = {''b''}" using run unfolding r0 snd_conv .
  then have r: "run_queue cq_restart cq_enq cq_ack ?steps (cq_open [], {}) = (st', {''b''})"
    using r0 by (rule subst)
  have r1: "run_queue cq_restart cq_enq cq_ack ?steps (cq_open [], cq_outstanding (cq_open []))
      = (st', {''b''})" using r unfolding ok(2) .
  have room: "cq_seq (cq_open []) + length ?steps < 2 ^ 64" by (simp add: cq_open_def max_seq_def)
  note res = completion_at_least_once [OF ok(1) room r1]
  have "map n_id (cq_pending_entries (cq_open (cq_dir st'))) = [''b'']"
    by (rule distinct_set_singleton [OF conjunct1 [OF res] conjunct2 [OF res]])
  then show ?thesis by (intro exI [of _ st'] conjI r)
qed

text \<open>A failed append poisons its id: when writing the notice's file fails, the id stays in the
  seen set, so every later append of the same notice by this process is answered as a
  duplicate already on disk, while no file of it exists and a restart recovers nothing.\<close>

theorem failed_append_poisons_id:
  assumes "cq_ok st" "cq_room (Suc 0) st" "cq_append w e st = (Append_err, st')"
  shows "cq_append w' e st' = (Append_dup, st')
    \<and> n_id e \<notin> set (map n_id (cq_pending_entries (cq_open (cq_dir st'))))"
proof -
  have new: "n_id e \<notin> cq_seen st" and seen: "n_id e \<in> cq_seen st'"
    using assms(3) by (auto simp: cq_append_def Let_def split: if_splits prod.splits bool.splits)
  have "cq_enq (w, False) e st = (None, st')" using assms(3) by (simp add: cq_enq_def)
  from cq_enq_refuses [OF assms(1,2) this]
  have "cq_ok st'" "cq_outstanding st' = cq_outstanding st" by simp_all
  moreover have "n_id e \<notin> cq_outstanding st"
    using new cq_okD(3) [OF assms(1)] by (auto simp: cq_outstanding_def)
  ultimately have "n_id e \<notin> set (cq_replay (cq_restart st'))"
    using cq_restart_facts(3) by simp
  with seen show ?thesis by (simp add: cq_append_def cq_replay_def cq_restart_def)
qed

theorem failed_append_poisons_id_witness:
  "\<exists>st'. cq_append W_rename_fails (sample_notice ''a'') (cq_open []) = (Append_err, st')
     \<and> fst (cq_append W_ok (sample_notice ''a'') st') = Append_dup"
proof -
  have wf: "wf_dir n_seq ([] :: notice dir)" "stored ([] :: notice dir) = {}"
    by (simp_all add: wf_dir_def stored_def)
  have ok: "cq_ok (cq_open [])" using cq_open_ok(1) [OF wf(1)] by (simp add: wf(2))
  have room: "cq_room (Suc 0) (cq_open [])" by (simp add: cq_room_def cq_open_def max_seq_def)
  have "fst (cq_append W_rename_fails (sample_notice ''a'') (cq_open [])) = Append_err"
    by (simp add: cq_append_def cq_open_def parsed_entries_def List.map_filter_simps write_entry_def Let_def)
  then obtain st' where r: "cq_append W_rename_fails (sample_notice ''a'') (cq_open []) = (Append_err, st')"
    by (metis prod.collapse)
  from failed_append_poisons_id [OF ok room r, of W_ok] r show ?thesis by auto
qed

end
