(* ===== verification/Inbound_Spool.thy ===== *)
theory Inbound_Spool
  imports Durable_Queue
begin

text \<open>
  \<open>agents/orchestrator/inbound_spool.rs\<close>: the persistent spool of inbound channel messages,
  with the receive path of \<open>agents/orchestrator/mod.rs\<close> that feeds it.  Handled messages stay on
  disk as tombstones until a compaction.  The receiver of a message is carried along
  unread: a type variable.
\<close>

subsection \<open>State and operations\<close>

datatype spool_status = SPending | SDone

record 'r persisted_message =
  m_id :: string
  m_sender_id :: string
  m_receiver :: 'r
  m_text :: string
  m_timestamp :: nat
  m_scope_id :: "string option"

record 'r spool_entry =
  s_seq :: nat
  s_channel :: string
  s_account :: string
  s_msg :: "'r persisted_message"
  s_status :: spool_status
  s_created_at :: nat

record 'r spool =
  sp_dir :: "'r spool_entry dir"
  sp_seq :: nat
  sp_baseline :: nat
  sp_seen :: "string set"
  sp_pending :: "'r spool_entry list"

definition dedup_key :: "string \<Rightarrow> string \<Rightarrow> string \<Rightarrow> string" where
  "dedup_key channel account i = channel @ CHR 0x00 # account @ CHR 0x00 # i"

definition entry_key :: "'r spool_entry \<Rightarrow> string" where
  "entry_key e = dedup_key (s_channel e) (s_account e) (m_id (s_msg e))"

definition sp_open :: "'r spool_entry dir \<Rightarrow> 'r spool" where
  "sp_open d =
     \<lparr>sp_dir = d, sp_seq = max_seq d, sp_baseline = max_seq d,
      sp_seen = set (map entry_key (parsed_entries d)),
      sp_pending = sort_key s_seq (filter (\<lambda>e. s_status e = SPending) (parsed_entries d))\<rparr>"

datatype spool_append = Sp_err | Sp_dup | Sp_seq nat

definition sp_next_seq :: "nat \<Rightarrow> nat" where
  "sp_next_seq s = (s + 1) mod 2 ^ 64"

definition sp_append ::
  "write_outcome \<Rightarrow> nat \<Rightarrow> string \<Rightarrow> string \<Rightarrow> 'r persisted_message \<Rightarrow> 'r spool \<Rightarrow> spool_append \<times> 'r spool" where
  "sp_append w now channel account msg sp =
     (let k = dedup_key channel account (m_id msg) in
      if k \<in> sp_seen sp then (Sp_dup, sp)
      else
        let seq = sp_next_seq (sp_seq sp);
            sp1 = sp\<lparr>sp_seen := insert k (sp_seen sp), sp_seq := seq\<rparr>;
            e = \<lparr>s_seq = seq, s_channel = channel, s_account = account, s_msg = msg,
                 s_status = SPending, s_created_at = now\<rparr>
        in case write_entry w seq e (sp_dir sp1) of
             (False, d) \<Rightarrow> (Sp_err, sp1\<lparr>sp_dir := d\<rparr>)
           | (True, d) \<Rightarrow> (Sp_seq seq, sp1\<lparr>sp_dir := d, sp_pending := sp_pending sp1 @ [e]\<rparr>))"

text \<open>\<open>mark_done\<close>: \<open>None\<close> is an I/O or parse error.\<close>

definition sp_mark_done :: "write_outcome \<Rightarrow> nat \<Rightarrow> 'r spool \<Rightarrow> bool option \<times> 'r spool" where
  "sp_mark_done w seq sp =
     (case map_of (sp_dir sp) (entry_path seq) of
        None \<Rightarrow> (Some False, sp)
      | Some Garbage \<Rightarrow> (None, sp)
      | Some (Parsed e) \<Rightarrow>
          if s_status e = SDone then (Some False, sp)
          else case write_entry w seq (e\<lparr>s_status := SDone\<rparr>) (sp_dir sp) of
                 (False, d) \<Rightarrow> (None, sp\<lparr>sp_dir := d\<rparr>)
               | (True, d) \<Rightarrow> (Some True,
                   sp\<lparr>sp_dir := d, sp_pending := filter (\<lambda>x. s_seq x \<noteq> seq) (sp_pending sp)\<rparr>))"

definition sp_pending_entries :: "'r spool \<Rightarrow> 'r spool_entry list" where
  "sp_pending_entries sp = sort_key s_seq (filter (\<lambda>e. s_seq e \<le> sp_baseline sp) (sp_pending sp))"

definition sp_pending_for :: "string \<Rightarrow> string \<Rightarrow> string \<Rightarrow> 'r spool \<Rightarrow> 'r spool_entry list" where
  "sp_pending_for channel account sender sp =
     filter (\<lambda>e. s_channel e = channel \<and> s_account e = account \<and> m_sender_id (s_msg e) = sender)
       (sp_pending_entries sp)"

definition sp_len :: "'r spool \<Rightarrow> nat" where
  "sp_len sp = length (sp_pending sp)"

text \<open>\<open>compact_if_needed\<close>; \<open>fails n\<close> says removing the file \<open>n\<close> fails, which is ignored.\<close>

definition is_tombstone :: "string \<times> 'r spool_entry file_content \<Rightarrow> bool" where
  "is_tombstone = (\<lambda>(n, f). is_json n \<and>
     (case f of Parsed e \<Rightarrow> s_status e = SDone | Garbage \<Rightarrow> False))"

definition sp_compact_needed :: "nat \<Rightarrow> 'r spool \<Rightarrow> bool" where
  "sp_compact_needed now sp =
     (let files = parsed_entries (sp_dir sp); done = filter (\<lambda>e. s_status e = SDone) files;
          oldest = foldl min (2 ^ 64 - 1) (map s_created_at done)
      in length files > 5000 \<or> (length done > 0 \<and> now - oldest > 7 * 24 * 3600))"

definition sp_compact :: "nat \<Rightarrow> (string \<Rightarrow> bool) \<Rightarrow> 'r spool \<Rightarrow> bool \<times> 'r spool" where
  "sp_compact now fails sp =
     (if \<not> sp_compact_needed now sp then (False, sp)
      else (True, sp\<lparr>sp_dir := filter (\<lambda>f. \<not> is_tombstone f \<or> fails (fst f)) (sp_dir sp)\<rparr>))"

text \<open>The listener: what reaches the event loop, with which sequence number (0: not spooled).\<close>

definition receive ::
  "write_outcome \<Rightarrow> nat \<Rightarrow> string \<Rightarrow> string \<Rightarrow> bool \<Rightarrow> 'r persisted_message \<Rightarrow> 'r spool option \<Rightarrow>
     nat option \<times> 'r spool option" where
  "receive w now channel account has_files msg spool =
     (if has_files then (Some 0, spool)
      else case spool of
        None \<Rightarrow> (Some 0, None)
      | Some sp \<Rightarrow>
          (case sp_append w now channel account msg sp of
             (Sp_seq s, sp') \<Rightarrow> (Some s, Some sp')
           | (Sp_dup, sp') \<Rightarrow> (None, Some sp')
           | (Sp_err, sp') \<Rightarrow> (Some 0, Some sp')))"

subsection \<open>The spool as an at-least-once queue\<close>

text \<open>Handles are sequence numbers; what is appended is a message with its channel and account.\<close>

type_synonym 'r inbound = "nat \<times> string \<times> string \<times> 'r persisted_message"

definition inbound_key :: "'r inbound \<Rightarrow> string" where
  "inbound_key = (\<lambda>(now, channel, account, msg). dedup_key channel account (m_id msg))"

definition sp_restart :: "'r spool \<Rightarrow> 'r spool" where
  "sp_restart sp = sp_open (sp_dir sp)"

definition sp_enq :: "write_outcome \<Rightarrow> 'r inbound \<Rightarrow> 'r spool \<Rightarrow> nat option \<times> 'r spool" where
  "sp_enq w x sp =
     (case x of (now, channel, account, msg) \<Rightarrow>
        (case sp_append w now channel account msg sp of
           (Sp_seq s, sp') \<Rightarrow> (Some s, sp') | (_, sp') \<Rightarrow> (None, sp')))"

definition sp_ack :: "write_outcome \<Rightarrow> nat \<Rightarrow> 'r spool \<Rightarrow> bool \<times> 'r spool" where
  "sp_ack w seq sp = (case sp_mark_done w seq sp of (r, sp') \<Rightarrow> (r = Some True, sp'))"

definition sp_replay :: "'r spool \<Rightarrow> nat list" where
  "sp_replay sp = map s_seq (sp_pending_entries sp)"

definition sp_outstanding :: "'r spool \<Rightarrow> nat set" where
  "sp_outstanding sp = s_seq ` {e \<in> stored (sp_dir sp). s_status e = SPending}"

text \<open>What the spool owes: the pending entries on disk, and what matters of an entry.\<close>

definition sp_pend :: "'r spool \<Rightarrow> 'r spool_entry set" where
  "sp_pend sp = {e \<in> stored (sp_dir sp). s_status e = SPending}"

definition content :: "'r spool_entry \<Rightarrow> nat \<times> string \<times> string \<times> 'r persisted_message" where
  "content e = (s_seq e, s_channel e, s_account e, s_msg e)"

definition sp_known :: "'r spool \<Rightarrow> string set" where
  "sp_known sp = entry_key ` stored (sp_dir sp)"

definition sp_room :: "nat \<Rightarrow> 'r spool \<Rightarrow> bool" where
  "sp_room n sp \<longleftrightarrow> sp_seq sp + n < 2 ^ 64"

definition sp_ok :: "'r spool \<Rightarrow> bool" where
  "sp_ok sp \<longleftrightarrow> wf_dir s_seq (sp_dir sp) \<and> max_seq (sp_dir sp) \<le> sp_seq sp
     \<and> (\<forall>e \<in> stored (sp_dir sp). s_seq e < 2 ^ 64 \<and> entry_key e \<in> sp_seen sp)
     \<and> inj_on entry_key (stored (sp_dir sp))"

lemma sp_okD:
  assumes "sp_ok sp"
  shows "wf_dir s_seq (sp_dir sp)" "max_seq (sp_dir sp) \<le> sp_seq sp"
    "\<And>e. e \<in> stored (sp_dir sp) \<Longrightarrow> s_seq e < 2 ^ 64 \<and> entry_key e \<in> sp_seen sp \<and> s_seq e \<le> sp_seq sp"
    "inj_on entry_key (stored (sp_dir sp))"
proof -
  show wf: "wf_dir s_seq (sp_dir sp)" and m: "max_seq (sp_dir sp) \<le> sp_seq sp"
    and "inj_on entry_key (stored (sp_dir sp))"
    using assms by (simp_all only: sp_ok_def)
  fix e assume e: "e \<in> stored (sp_dir sp)"
  then have b: "s_seq e < 2 ^ 64 \<and> entry_key e \<in> sp_seen sp" using assms unfolding sp_ok_def by blast
  with max_seq_ge [OF wf e] m show "s_seq e < 2 ^ 64 \<and> entry_key e \<in> sp_seen sp \<and> s_seq e \<le> sp_seq sp"
    by simp
qed

lemma sp_restart_facts:
  assumes "sp_ok sp"
  shows "sp_ok (sp_restart sp)" "sp_outstanding (sp_restart sp) = sp_outstanding sp"
    "sp_known (sp_restart sp) = sp_known sp" "sp_seq (sp_restart sp) \<le> sp_seq sp"
    "set (sp_replay (sp_restart sp)) = sp_outstanding sp" "distinct (sp_replay (sp_restart sp))"
    "set (sp_pending_entries (sp_restart sp)) = sp_pend sp"
proof -
  note D = sp_okD [OF assms]
  have ps: "set (parsed_entries (sp_dir sp)) = stored (sp_dir sp)"
    using D(1) by (simp add: wf_dir_def set_parsed_entries)
  have le: "s_seq e \<le> max_seq (sp_dir sp)" if "e \<in> stored (sp_dir sp)" for e
    using max_seq_ge [OF D(1) that] D(3) [OF that] by simp
  show "sp_ok (sp_restart sp)" "sp_outstanding (sp_restart sp) = sp_outstanding sp"
    "sp_known (sp_restart sp) = sp_known sp" "sp_seq (sp_restart sp) \<le> sp_seq sp"
    using D ps by (simp_all add: sp_ok_def sp_restart_def sp_open_def sp_outstanding_def sp_known_def)
  have pend: "set (sp_pending_entries (sp_restart sp)) = {e \<in> stored (sp_dir sp). s_status e = SPending}"
    using ps le by (auto simp: sp_pending_entries_def sp_restart_def sp_open_def)
  then show "set (sp_pending_entries (sp_restart sp)) = sp_pend sp" by (simp add: sp_pend_def)
  show "set (sp_replay (sp_restart sp)) = sp_outstanding sp"
    by (simp add: sp_replay_def pend sp_outstanding_def)
  have "distinct (parsed_entries (sp_dir sp))"
    using distinct_parsed_entries [OF D(1)] by (simp add: distinct_map)
  then have "distinct (sp_pending_entries (sp_restart sp))"
    by (simp add: sp_pending_entries_def sp_restart_def sp_open_def)
  moreover have "inj_on s_seq {e \<in> stored (sp_dir sp). s_status e = SPending}"
    by (rule inj_onI) (auto intro: stored_seq_inj [OF D(1)])
  ultimately show "distinct (sp_replay (sp_restart sp))"
    by (simp add: sp_replay_def distinct_map pend)
qed

lemma sp_next_room: "sp_room (Suc n) sp \<Longrightarrow> sp_next_seq (sp_seq sp) = Suc (sp_seq sp) \<and> Suc (sp_seq sp) + n < 2 ^ 64"
  by (simp add: sp_room_def sp_next_seq_def)

text \<open>The three outcomes of an append, in a store with room.\<close>

lemma sp_enq_cases:
  assumes "sp_room (Suc n) sp" "sp_enq w x sp = (r, sp')"
  obtains (dup) "inbound_key x \<in> sp_seen sp" "r = None" "sp' = sp"
  | (wrote) e d b where "inbound_key x \<notin> sp_seen sp" "s_seq e = Suc (sp_seq sp)" "s_status e = SPending"
      "entry_key e = inbound_key x"
      "write_entry w (Suc (sp_seq sp)) e (sp_dir sp) = (b, d)"
      "r = (if b then Some (Suc (sp_seq sp)) else None)"
      "sp_dir sp' = d" "sp_seq sp' = Suc (sp_seq sp)" "sp_seen sp' = insert (inbound_key x) (sp_seen sp)"
      "content e = (Suc (sp_seq sp), snd x)"
proof -
  obtain now ch ac m where x: "x = (now, ch, ac, m)" by (cases x) auto
  note nx = sp_next_room [OF assms(1)]
  let ?e = "\<lparr>s_seq = Suc (sp_seq sp), s_channel = ch, s_account = ac, s_msg = m,
      s_status = SPending, s_created_at = now\<rparr>"
  obtain b d where w: "write_entry w (Suc (sp_seq sp)) ?e (sp_dir sp) = (b, d)" by fastforce
  show thesis
  proof (cases "inbound_key x \<in> sp_seen sp")
    case True
    with assms(2) show thesis by (intro dup) (auto simp: x sp_enq_def sp_append_def inbound_key_def)
  next
    case False
    with assms(2) nx w show thesis
      by (intro wrote [of ?e b d]; cases b)
        (auto simp: x sp_enq_def sp_append_def inbound_key_def entry_key_def content_def Let_def)
  qed
qed

lemma sp_enq_facts:
  assumes ok: "sp_ok sp" and room: "sp_room (Suc n) sp" and r: "sp_enq w x sp = (r, sp')"
  shows "sp_ok sp' \<and> sp_room n sp' \<and>
    (case r of None \<Rightarrow> sp_outstanding sp' = sp_outstanding sp \<and> sp_known sp' = sp_known sp
     | Some k \<Rightarrow> k \<notin> sp_outstanding sp \<and> sp_outstanding sp' = insert k (sp_outstanding sp)
         \<and> inbound_key x \<notin> sp_known sp \<and> sp_known sp' = insert (inbound_key x) (sp_known sp))
    \<and> (case r of None \<Rightarrow> sp_pend sp' = sp_pend sp
     | Some k \<Rightarrow> \<exists>e. sp_pend sp' = insert e (sp_pend sp) \<and> content e = (k, snd x) \<and> (\<forall>y \<in> sp_pend sp. s_seq y < k))"
  using room r
proof (cases rule: sp_enq_cases)
  case dup
  with ok room show ?thesis by (simp add: sp_room_def)
next
  case (wrote e d b)
  note D = sp_okD [OF ok] and nx = sp_next_room [OF room]
  have fresh: "s_seq y \<noteq> Suc (sp_seq sp)" if "y \<in> stored (sp_dir sp)" for y using D(3) [OF that] by simp
  have mx: "max_seq d \<le> Suc (sp_seq sp)" by (rule max_seq_write [OF wrote(5)]) (use D(2) nx in auto)
  have unknown: "inbound_key x \<notin> sp_known sp" using D(3) wrote(1) by (auto simp: sp_known_def)
  show ?thesis
  proof (cases b)
    case False
    have "wf_dir s_seq d \<and> stored d = stored (sp_dir sp)"
      by (rule write_fails [OF _ D(1)]) (use wrote(5) False in simp)
    with wrote False D mx nx show ?thesis
      by (auto simp: sp_ok_def sp_outstanding_def sp_pend_def sp_known_def sp_room_def)
  next
    case True
    have eqs: "{y \<in> stored (sp_dir sp). s_seq y \<noteq> Suc (sp_seq sp)} = stored (sp_dir sp)"
      using fresh by auto
    from True wrote(5) have we: "write_entry w (Suc (sp_seq sp)) e (sp_dir sp) = (True, d)" by simp
    from write_ok [OF we D(1) wrote(2)] have wf: "wf_dir s_seq d"
      and st: "stored d = insert e (stored (sp_dir sp))"
      unfolding eqs by simp_all
    have "inj_on entry_key (stored d)"
      using D(4) unknown by (auto simp: st wrote(4) sp_known_def)
    then have "sp_ok sp'" using wf mx D(3) nx wrote by (auto simp: sp_ok_def st)
    moreover have "Suc (sp_seq sp) \<notin> sp_outstanding sp"
      using fresh unfolding sp_outstanding_def image_iff by (metis (lifting) mem_Collect_eq)
    moreover have "sp_outstanding sp' = insert (Suc (sp_seq sp)) (sp_outstanding sp)"
      using image_filter_insert [of "\<lambda>y. s_status y = SPending" e s_seq "stored (sp_dir sp)"] wrote(2,3,7)
      by (simp add: sp_outstanding_def st)
    moreover have "sp_known sp' = insert (inbound_key x) (sp_known sp)"
      using wrote(4,7) by (auto simp: sp_known_def st)
    moreover have "sp_pend sp' = insert e (sp_pend sp)" "\<forall>y \<in> sp_pend sp. s_seq y < Suc (sp_seq sp)"
      using wrote(3,7) D(3) by (auto simp: sp_pend_def st less_Suc_eq_le)
    ultimately show ?thesis using True wrote(6,8,10) nx unknown by (auto simp: sp_room_def)
  qed
qed

lemma sp_ack_facts:
  assumes ok: "sp_ok sp" and r: "sp_ack w k sp = (b, sp')"
  shows "sp_ok sp' \<and> sp_seq sp' = sp_seq sp \<and> sp_known sp' = sp_known sp \<and>
    sp_outstanding sp' = (if b then sp_outstanding sp - {k} else sp_outstanding sp) \<and>
    sp_pend sp' = (if b then {y \<in> sp_pend sp. s_seq y \<noteq> k} else sp_pend sp)"
proof (cases "\<exists>e. map_of (sp_dir sp) (entry_path k) = Some (Parsed e) \<and> s_status e \<noteq> SDone")
  case False
  with r ok show ?thesis
    by (auto simp: sp_ack_def sp_mark_done_def split: option.splits file_content.splits if_splits)
next
  case True
  then obtain e where e: "map_of (sp_dir sp) (entry_path k) = Some (Parsed e)" "s_status e \<noteq> SDone" by blast
  then have pend: "s_status e = SPending" by (cases "s_status e") auto
  note D = sp_okD [OF ok]
  have es: "e \<in> stored (sp_dir sp)" by (rule storedI [OF e(1)])
  have k: "s_seq e = k" using wf_storedD [OF D(1) es] e(1) D(1) unfolding wf_dir_def by (metis paths(1,4))
  obtain c d where w: "write_entry w k (e\<lparr>s_status := SDone\<rparr>) (sp_dir sp) = (c, d)" by fastforce
  have sp': "sp_dir sp' = d" "sp_seq sp' = sp_seq sp" "sp_seen sp' = sp_seen sp" "b = c"
    using r e w by (cases c; auto simp: sp_ack_def sp_mark_done_def)+
  have mx: "max_seq d \<le> sp_seq sp"
    by (rule max_seq_write [OF w D(2)]) (use D(3) [OF es] k in auto)
  show ?thesis
  proof (cases c)
    case False
    have "wf_dir s_seq d \<and> stored d = stored (sp_dir sp)"
      by (rule write_fails [OF _ D(1)]) (use w False in simp)
    with D mx sp' False show ?thesis by (auto simp: sp_ok_def sp_known_def sp_outstanding_def sp_pend_def)
  next
    case True
    let ?e = "e\<lparr>s_status := SDone\<rparr>"
    have only: "{y \<in> stored (sp_dir sp). s_seq y \<noteq> k} = stored (sp_dir sp) - {e}"
    proof -
      have "y = e" if "y \<in> stored (sp_dir sp)" "s_seq y = k" for y
        by (rule stored_seq_inj [OF D(1) that(1) es]) (simp add: k that(2))
      then show ?thesis using k by auto
    qed
    from True w have "write_entry w k ?e (sp_dir sp) = (True, d)" by simp
    from write_ok [OF this D(1)] have wf: "wf_dir s_seq d"
      and st: "stored d = insert ?e (stored (sp_dir sp) - {e})"
      by (simp_all add: k only)
    have ne: "e \<noteq> ?e"
    proof
      assume "e = ?e"
      then have "s_status e = s_status ?e" by (rule arg_cong)
      with pend show False by simp
    qed
    have key: "entry_key ?e = entry_key e" by (simp add: entry_key_def)
    then have known: "entry_key ` stored d = entry_key ` stored (sp_dir sp)"
      using es by (auto simp: st)
    have "inj_on entry_key (stored d)"
      using D(4) es key by (auto simp: st inj_on_def)
    then have "sp_ok sp'" using wf mx D(3) es key k sp' by (auto simp: sp_ok_def st)
    moreover have "sp_outstanding sp' = sp_outstanding sp - {k}"
    proof -
      have "sp_outstanding sp' = s_seq ` ({y \<in> stored (sp_dir sp). s_status y = SPending} - {e})"
        unfolding sp_outstanding_def sp'(1) st by (rule arg_cong [of _ _ "image s_seq"]) (use ne in auto)
      also have "\<dots> = s_seq ` {y \<in> stored (sp_dir sp). s_status y = SPending} - {k}"
        using only k by auto
      finally show ?thesis by (simp add: sp_outstanding_def)
    qed
    moreover have "sp_pend sp' = {y \<in> sp_pend sp. s_seq y \<noteq> k}"
    proof -
      have "{y \<in> stored (sp_dir sp). s_status y = SPending \<and> s_seq y \<noteq> k} = {y \<in> stored (sp_dir sp) - {e}. s_status y = SPending}"
        unfolding only [symmetric] by blast
      moreover have "s_status ?e = SDone" by simp
      ultimately show ?thesis unfolding sp_pend_def sp'(1) st by fastforce
    qed
    ultimately show ?thesis using True sp' known by (simp add: sp_known_def)
  qed
qed

lemma sp_compact_facts:
  assumes "sp_ok sp"
  shows "sp_ok (snd (sp_compact now fails sp))
    \<and> sp_outstanding (snd (sp_compact now fails sp)) = sp_outstanding sp
    \<and> sp_pend (snd (sp_compact now fails sp)) = sp_pend sp \<and> sp_seq (snd (sp_compact now fails sp)) = sp_seq sp"
proof (cases "sp_compact_needed now sp")
  case False
  with assms show ?thesis by (simp add: sp_compact_def)
next
  case True
  note D = sp_okD [OF assms]
  let ?keep = "\<lambda>f. is_tombstone f \<longrightarrow> fails (fst f)"
  have dist: "distinct (map fst (sp_dir sp))" using D(1) by (simp add: wf_dir_def)
  have mf: "map_of (filter ?keep (sp_dir sp)) n = Some f \<longleftrightarrow> map_of (sp_dir sp) n = Some f \<and> ?keep (n, f)" for n f
    using dist distinct_map_filter [OF dist, of ?keep] by (simp add: map_of_eq_Some_iff conj_commute)
  have sub: "stored (filter ?keep (sp_dir sp)) \<subseteq> stored (sp_dir sp)"
    by (auto simp: stored_def mf)
  have wf: "wf_dir s_seq (filter ?keep (sp_dir sp))"
    using D(1) distinct_map_filter [OF dist, of ?keep] unfolding wf_dir_def by (simp add: mf)
  have mx: "max_seq (filter ?keep (sp_dir sp)) \<le> sp_seq sp"
    by (rule max_seq_leI) (auto simp: mf intro: max_seq_leD [OF D(2)])
  have pend: "e \<in> stored (filter ?keep (sp_dir sp)) \<longleftrightarrow> e \<in> stored (sp_dir sp)" if "s_status e = SPending" for e
  proof -
    have "\<not> is_tombstone (n, Parsed e)" for n using that by (simp add: is_tombstone_def)
    then show ?thesis by (simp add: stored_def mf)
  qed
  have "{e \<in> stored (filter ?keep (sp_dir sp)). s_status e = SPending}
      = {e \<in> stored (sp_dir sp). s_status e = SPending}"
    using pend by blast
  moreover have "inj_on entry_key (stored (filter ?keep (sp_dir sp)))"
    by (rule inj_on_subset [OF D(4) sub])
  ultimately show ?thesis
    using True wf mx D(3) sub by (auto simp: sp_compact_def sp_ok_def sp_outstanding_def sp_pend_def)
qed

definition sp_maintain :: "nat \<times> (string \<Rightarrow> bool) \<Rightarrow> 'r spool \<Rightarrow> 'r spool" where
  "sp_maintain c sp = snd (sp_compact (fst c) (snd c) sp)"

interpretation sp: dedup_queue sp_restart sp_enq sp_ack sp_replay sp_outstanding sp_ok sp_room
  inbound_key sp_known sp_maintain
proof (unfold_locales, goal_cases)
  case (2 s n)
  then show ?case using sp_restart_facts(4) [of s] by (auto simp: sp_room_def)
next
  case (4 s n w e k s')
  then show ?case using sp_enq_facts [of s n w e "Some k" s'] by simp
next
  case (5 s n w e s')
  then show ?case using sp_enq_facts [of s n w e None s'] by simp
next
  case (6 s w k s')
  then show ?case using sp_ack_facts [of s w k True s'] by simp
next
  case (7 s w k s')
  then show ?case using sp_ack_facts [of s w k False s'] by simp
next
  case (8 s n w k b s')
  then show ?case using sp_ack_facts [of s w k b s'] by (simp add: sp_room_def)
next
  case (11 s n w e k s')
  then show ?case using sp_enq_facts [of s n w e "Some k" s'] by simp
next
  case (12 s n w e s')
  then show ?case using sp_enq_facts [of s n w e None s'] by simp
next
  case (13 s w k b s')
  then show ?case using sp_ack_facts [of s w k b s'] by simp
next
  case (14 s c)
  then show ?case using sp_compact_facts [of s] by (simp add: sp_maintain_def)
qed (simp_all add: sp_restart_facts sp_room_def)

subsection \<open>Histories of the listener\<close>

text \<open>What happens to a spool: a message is received, a dispatch returned, files are compacted, the process dies and
  a new one opens the directory.  The ledger holds the messages the listener let into the event loop under a
  number of their own and whose dispatch was not yet recorded, in the order of their arrival.\<close>

datatype 'r spool_op =
    Sp_Receive write_outcome nat string string bool "'r persisted_message"
  | Sp_Dispatched write_outcome nat
  | Sp_Compact nat "string \<Rightarrow> bool"
  | Sp_Restart

type_synonym 'r ledger = "(nat \<times> string \<times> string \<times> 'r persisted_message) list"

fun spool_step :: "'r spool_op \<Rightarrow> 'r spool \<times> 'r ledger \<Rightarrow> 'r spool \<times> 'r ledger" where
  "spool_step (Sp_Receive w now channel account has_files msg) (sp, owed) =
     (case receive w now channel account has_files msg (Some sp) of
        (Some k, Some sp') \<Rightarrow> (sp', if k = 0 then owed else owed @ [(k, channel, account, msg)])
      | (None, Some sp') \<Rightarrow> (sp', owed)
      | (_, None) \<Rightarrow> (sp, owed))"
| "spool_step (Sp_Dispatched w k) (sp, owed) =
     (case sp_mark_done w k sp of
        (r, sp') \<Rightarrow> (sp', if r = Some True then filter (\<lambda>x. fst x \<noteq> k) owed else owed))"
| "spool_step (Sp_Compact now fails) (sp, owed) = (snd (sp_compact now fails sp), owed)"
| "spool_step Sp_Restart (sp, owed) = (sp_open (sp_dir sp), owed)"

definition replayed :: "'r spool \<Rightarrow> 'r ledger" where
  "replayed sp = map content (sp_pending_entries (sp_open (sp_dir sp)))"

lemma receive_enq:
  "receive w now channel account False msg (Some sp) =
     (case sp_enq w (now, channel, account, msg) sp of
        (Some k, sp') \<Rightarrow> (Some k, Some sp')
      | (None, sp') \<Rightarrow> (if dedup_key channel account (m_id msg) \<in> sp_seen sp then None else Some 0, Some sp'))"
  by (auto simp: receive_def sp_enq_def sp_append_def Let_def split: prod.split bool.split)

lemma replayed_facts:
  assumes "sp_ok sp"
  shows "set (replayed sp) = content ` sp_pend sp" "sorted (map fst (replayed sp))" "distinct (map fst (replayed sp))"
proof -
  have m: "map fst (replayed sp) = sp_replay (sp_restart sp)"
    by (simp add: replayed_def sp_replay_def sp_restart_def content_def comp_def)
  show "set (replayed sp) = content ` sp_pend sp"
    using sp_restart_facts(7) [OF assms] by (simp add: replayed_def sp_restart_def)
  show "distinct (map fst (replayed sp))" unfolding m by (rule sp_restart_facts(6) [OF assms])
  show "sorted (map fst (replayed sp))" unfolding m by (simp add: sp_replay_def sp_pending_entries_def)
qed

lemma replayed_eqI:
  assumes "sp_ok sp" "set xs = content ` sp_pend sp" "sorted (map fst xs)" "distinct (map fst xs)"
  shows "replayed sp = xs"
  using replayed_facts [OF assms(1)] assms(2-4)
  by (intro map_sorted_distinct_set_unique [of fst]) (simp_all add: distinct_map)

lemma replayed_same: "sp_ok sp \<Longrightarrow> sp_ok sp' \<Longrightarrow> sp_pend sp' = sp_pend sp \<Longrightarrow> replayed sp' = replayed sp"
  by (rule replayed_eqI) (simp_all add: replayed_facts)

lemma replayed_enq:
  assumes "sp_ok sp" "sp_room (Suc n) sp" "sp_enq w x sp = (r, sp')"
  shows "sp_ok sp' \<and> sp_room n sp' \<and> replayed sp' = (case r of Some k \<Rightarrow> replayed sp @ [(k, snd x)] | None \<Rightarrow> replayed sp)
    \<and> r \<noteq> Some 0"
proof (cases r)
  case None
  with sp_enq_facts [OF assms] replayed_same [OF assms(1), of sp'] show ?thesis by simp
next
  case (Some k)
  with sp_enq_facts [OF assms] obtain e where f: "sp_ok sp'" "sp_room n sp'" "sp_pend sp' = insert e (sp_pend sp)"
    "content e = (k, snd x)" "\<forall>y \<in> sp_pend sp. s_seq y < k" by auto
  have lt: "\<forall>y \<in> set (map fst (replayed sp)). y < k"
    using f(5) replayed_facts(1) [OF assms(1)] by (auto simp: content_def)
  have "k \<noteq> 0"
    using assms(2,3) Some by (cases rule: sp_enq_cases) (auto split: if_splits)
  moreover have "replayed sp' = replayed sp @ [(k, snd x)]"
    by (rule replayed_eqI [OF f(1)])
      (use f(3,4) replayed_facts [OF assms(1)] lt in \<open>auto simp: sorted_append less_imp_le\<close>)
  ultimately show ?thesis using f(1,2) Some by simp
qed

lemma sp_room_Suc: "sp_room (Suc n) sp \<Longrightarrow> sp_room n sp"
  by (simp add: sp_room_def)

lemma step_replayed:
  assumes "sp_ok sp" "sp_room (Suc n) sp" "spool_step x (sp, replayed sp) = (sp', owed)"
  shows "sp_ok sp' \<and> sp_room n sp' \<and> owed = replayed sp'"
proof (cases x)
  case (Sp_Receive w now channel account has_files msg)
  show ?thesis
  proof (cases has_files)
    case True
    with assms sp_room_Suc [OF assms(2)] Sp_Receive show ?thesis by (auto simp: receive_def)
  next
    case False
    obtain r q where e: "sp_enq w (now, channel, account, msg) sp = (r, q)" by fastforce
    from replayed_enq [OF assms(1,2) e] assms(3) Sp_Receive False e show ?thesis
      by (auto simp: receive_enq split: option.splits if_splits)
  qed
next
  case (Sp_Dispatched w k)
  obtain r q where m: "sp_mark_done w k sp = (r, q)" by fastforce
  then have "sp_ack w k sp = (r = Some True, q)" by (simp add: sp_ack_def)
  from sp_ack_facts [OF assms(1) this] have f: "sp_ok q" "sp_seq q = sp_seq sp"
    "sp_pend q = (if r = Some True then {y \<in> sp_pend sp. s_seq y \<noteq> k} else sp_pend sp)" by simp_all
  have "replayed q = (if r = Some True then filter (\<lambda>x. fst x \<noteq> k) (replayed sp) else replayed sp)"
  proof (rule replayed_eqI [OF f(1)])
    show "set (if r = Some True then filter (\<lambda>x. fst x \<noteq> k) (replayed sp) else replayed sp) = content ` sp_pend q"
      using replayed_facts(1) [OF assms(1)] by (auto simp: f(3) content_def)
    show "sorted (map fst (if r = Some True then filter (\<lambda>x. fst x \<noteq> k) (replayed sp) else replayed sp))"
      using replayed_facts(2) [OF assms(1)] by (simp add: sorted_filter)
    show "distinct (map fst (if r = Some True then filter (\<lambda>x. fst x \<noteq> k) (replayed sp) else replayed sp))"
      using replayed_facts(3) [OF assms(1)] by (simp add: distinct_map_filter)
  qed
  with f m assms(2,3) Sp_Dispatched show ?thesis by (auto simp: sp_room_def)
next
  case (Sp_Compact now fails)
  with assms sp_compact_facts [OF assms(1), of now fails] replayed_same [OF assms(1), of "snd (sp_compact now fails sp)"]
  show ?thesis by (auto simp: sp_room_def)
next
  case Sp_Restart
  have q: "sp' = sp_restart sp" "owed = replayed sp" using assms(3) Sp_Restart by (simp_all add: sp_restart_def)
  have "replayed sp' = replayed sp" by (simp add: q(1) replayed_def sp_restart_def sp_open_def)
  with q sp_restart_facts(1,4) [OF assms(1)] assms(2) show ?thesis by (auto simp: sp_room_def)
qed

text \<open>C1: Inbound messages are handled at least once: after any history of receipts, finished dispatches, compactions
  and crashes, with any write failing on the way, what start-up recovery replays is exactly the list of messages
  the listener accepted into the spool and whose dispatch was not recorded - number, channel, account and body, in the
  order of their arrival, each once.  (A message with attachments, or one whose file cannot be written, is delivered
  live under the number 0 and not owed.)\<close>

theorem spool_at_least_once:
  assumes "sp_ok sp" "sp_seq sp + length steps < 2 ^ 64"
    and "fold spool_step steps (sp, replayed sp) = (sp', owed)"
  shows "map content (sp_pending_entries (sp_open (sp_dir sp'))) = owed \<and> distinct (map fst owed)"
proof -
  have "sp_ok sp \<Longrightarrow> sp_room (length steps) sp \<Longrightarrow> fold spool_step steps (sp, replayed sp) = (sp', owed) \<Longrightarrow>
      sp_ok sp' \<and> owed = replayed sp'" for sp :: "'a spool"
  proof (induction steps arbitrary: sp)
    case (Cons x xs)
    obtain sp1 o1 where s: "spool_step x (sp, replayed sp) = (sp1, o1)" by fastforce
    have "sp_room (Suc (length xs)) sp" using Cons.prems(2) by simp
    from step_replayed [OF Cons.prems(1) this s] Cons.IH [of sp1] Cons.prems(3) s show ?case by simp
  qed simp
  with assms have "sp_ok sp' \<and> owed = replayed sp'" by (simp add: sp_room_def)
  then show ?thesis using replayed_facts(3) [of sp'] by (simp add: replayed_def)
qed

text \<open>No message is accepted twice: over any history with crashes but no compaction, the dedup
  keys of the accepted messages are pairwise different, and different from those of every entry,
  pending or done, that was on disk before.\<close>

theorem spool_accepts_once:
  assumes "sp_ok sp" "sp_seq sp + length steps < 2 ^ 64"
  shows "distinct (accepted_keys sp_restart sp_enq sp_ack inbound_key steps sp)
    \<and> set (accepted_keys sp_restart sp_enq sp_ack inbound_key steps sp) \<inter> sp_known sp = {}"
  using sp.accepted_once [OF assms(1)] assms(2) by (simp add: sp_room_def)

definition empty_spool :: "unit spool" where
  "empty_spool = sp_open []"

lemma empty_spool_ok:
  "sp_ok empty_spool" "sp_outstanding empty_spool = {}" "sp_known empty_spool = {}" "sp_seq empty_spool = 0"
  by (simp_all add: empty_spool_def sp_open_def sp_ok_def wf_dir_def stored_def max_seq_def
      sp_outstanding_def sp_known_def)

definition hello :: "string \<Rightarrow> unit inbound" where
  "hello i = (0, ''telegram'', ''bot'', \<lparr>m_id = i, m_sender_id = ''u'', m_receiver = (), m_text = ''hi'',
     m_timestamp = 0, m_scope_id = None\<rparr>)"

definition hello_steps :: "(write_outcome, unit inbound, nat) queue_step list" where
  "hello_steps = [Enq W_ok (hello ''1''), Enq W_ok (hello ''1''), Enq W_ok (hello ''2''), Ack W_ok 1]"

lemmas spool_run_simps = run_queue_def step_queue_def sp_enq_def sp_append_def sp_ack_def
  sp_mark_done_def hello_def hello_steps_def sp_open_def max_seq_def parsed_entries_def
  List.map_filter_simps write_entry_def sp_next_seq_def Let_def dedup_key_def empty_spool_def

text \<open>Two messages and a duplicate; the first is dispatched, a crash follows.\<close>

definition said :: "string \<Rightarrow> unit persisted_message" where
  "said i = \<lparr>m_id = i, m_sender_id = ''u'', m_receiver = (), m_text = ''hi'', m_timestamp = 0, m_scope_id = None\<rparr>"

definition hello_ops :: "unit spool_op list" where
  "hello_ops = [Sp_Receive W_ok 0 ''telegram'' ''bot'' False (said ''1''), Sp_Receive W_ok 0 ''telegram'' ''bot'' False (said ''1''),
     Sp_Receive W_ok 0 ''telegram'' ''bot'' False (said ''2''), Sp_Dispatched W_ok 1, Sp_Restart]"

lemma hello_owed: "snd (fold spool_step hello_ops (empty_spool, [])) = [(2, ''telegram'', ''bot'', said ''2'')]"
  by (simp add: hello_ops_def said_def receive_def spool_run_simps)

theorem spool_at_least_once_witness:
  "\<exists>sp' :: unit spool. map content (sp_pending_entries (sp_open (sp_dir sp'))) = [(2, ''telegram'', ''bot'', said ''2'')]"
proof -
  have e: "replayed empty_spool = []"
    by (simp add: replayed_def empty_spool_def sp_open_def sp_pending_entries_def parsed_entries_def List.map_filter_simps)
  obtain sp' owed where r: "fold spool_step hello_ops (empty_spool, replayed empty_spool) = (sp', owed)" by fastforce
  have o: "owed = [(2, ''telegram'', ''bot'', said ''2'')]" using hello_owed r by (simp add: e)
  have "sp_seq empty_spool + length hello_ops < 2 ^ 64" by (simp add: empty_spool_ok hello_ops_def)
  from spool_at_least_once [OF empty_spool_ok(1) this r] show ?thesis by (intro exI [of _ sp']) (simp only: o)
qed

theorem spool_accepts_once_witness:
  "distinct (accepted_keys sp_restart sp_enq sp_ack inbound_key hello_steps empty_spool)
    \<and> accepted_keys sp_restart sp_enq sp_ack inbound_key hello_steps empty_spool \<noteq> []"
proof -
  have "sp_seq empty_spool + length hello_steps < 2 ^ 64" by (simp add: empty_spool_ok hello_steps_def)
  note res = spool_accepts_once [OF empty_spool_ok(1) this]
  have "accepted_keys sp_restart sp_enq sp_ack inbound_key hello_steps empty_spool \<noteq> []"
    by (simp add: spool_run_simps)
  with res show ?thesis by blast
qed

end
