(* ===== verification/Ask_Router.thy ===== *)
theory Ask_Router
  imports Prelude
begin

text \<open>
  \<open>agents/ask_router.rs\<close>: the table of pending \<open>ask_user\<close> calls.  Every call of
  \<open>wait_for_reply\<close> is a \<open>wait\<close>, named by its generation: its session, the state of its oneshot
  channel and where its future stands.  The operations on the map and the counter are
  atomic; everything between them interleaves, so a call takes its generation and enters
  the map in two steps, and a future that has its result, or is cancelled, runs its guard
  in a later step.  The generation counter is not bounded here (64 bits in the code).
\<close>

subsection \<open>State and operations\<close>

datatype 'm cell = Empty | Value 'm | Closed

datatype 'm phase =
    Fresh | Waiting | Finishing "'m option" | Finished "'m option" | Dropping | Dropped

record 'm wait =
  w_session :: string
  w_cell :: "'m cell"
  w_phase :: "'m phase"

record 'm router =
  pending :: "string \<Rightarrow> nat option"
  next_gen :: nat
  waits :: "nat \<Rightarrow> 'm wait option"

definition new_router :: "'m router" where
  "new_router = \<lparr>pending = \<lambda>_. None, next_gen = 0, waits = \<lambda>_. None\<rparr>"

definition set_cell :: "nat \<Rightarrow> 'm cell \<Rightarrow> 'm router \<Rightarrow> 'm router" where
  "set_cell g c R = R\<lparr>waits := (waits R)(g := map_option (\<lambda>w. w\<lparr>w_cell := c\<rparr>) (waits R g))\<rparr>"

definition set_phase :: "nat \<Rightarrow> 'm phase \<Rightarrow> 'm router \<Rightarrow> 'm router" where
  "set_phase g p R = R\<lparr>waits := (waits R)(g := map_option (\<lambda>w. w\<lparr>w_phase := p\<rparr>) (waits R g))\<rparr>"

text \<open>\<open>next_gen.fetch_add(1)\<close>.\<close>

definition begin_wait :: "string \<Rightarrow> 'm router \<Rightarrow> 'm router" where
  "begin_wait s R =
     R\<lparr>next_gen := next_gen R + 1,
       waits := (waits R)(next_gen R \<mapsto> \<lparr>w_session = s, w_cell = Empty, w_phase = Fresh\<rparr>)\<rparr>"

text \<open>\<open>pending.insert\<close>: the sender of a replaced entry is dropped, which closes its channel.\<close>

definition register :: "nat \<Rightarrow> string \<Rightarrow> 'm router \<Rightarrow> 'm router" where
  "register g s R =
     (let R1 = (case pending R s of None \<Rightarrow> R | Some h \<Rightarrow> set_cell h Closed R)
      in (set_phase g Waiting R1)\<lparr>pending := (pending R)(s \<mapsto> g)\<rparr>)"

text \<open>\<open>fulfill\<close>: the slot is removed and the reply sent; the send is lost when the receiver is
  gone, and the answer is true all the same.\<close>

definition fulfill :: "string \<Rightarrow> 'm \<Rightarrow> 'm router \<Rightarrow> bool \<times> 'm router" where
  "fulfill s m R =
     (case pending R s of
        None \<Rightarrow> (False, R)
      | Some g \<Rightarrow>
          (True, (set_cell g
             (case waits R g of
                Some w \<Rightarrow> if w_phase w = Waiting then Value m else Closed
              | None \<Rightarrow> Closed) R)\<lparr>pending := (pending R)(s := None)\<rparr>))"

text \<open>\<open>PendingGuard::drop\<close>: \<open>remove_if\<close> the slot still holds this generation.\<close>

definition drop_guard :: "nat \<Rightarrow> string \<Rightarrow> 'm router \<Rightarrow> 'm router" where
  "drop_guard g s R =
     (if pending R s = Some g then (set_cell g Closed R)\<lparr>pending := (pending R)(s := None)\<rparr> else R)"

subsection \<open>Steps\<close>

text \<open>A step is labelled with the wait it registers, if it registers one; a state is reached with the
  registrations of its past, the latest first.\<close>

inductive step :: "'m router \<Rightarrow> nat option \<Rightarrow> 'm router \<Rightarrow> bool" where
  step_begin: "step R None (begin_wait s R)"
| step_register: "waits R g = Some w \<Longrightarrow> w_phase w = Fresh \<Longrightarrow> step R (Some g) (register g (w_session w) R)"
| step_fulfill: "step R None (snd (fulfill s m R))"
| step_reply: "waits R g = Some w \<Longrightarrow> w_phase w = Waiting \<Longrightarrow> w_cell w = Value m \<Longrightarrow>
    step R None (set_phase g (Finishing (Some m)) R)"
| step_superseded: "waits R g = Some w \<Longrightarrow> w_phase w = Waiting \<Longrightarrow> w_cell w = Closed \<Longrightarrow>
    step R None (set_phase g (Finishing None) R)"
| step_cancel: "waits R g = Some w \<Longrightarrow> w_phase w = Waiting \<Longrightarrow> step R None (set_phase g Dropping R)"
| step_finish: "waits R g = Some w \<Longrightarrow> w_phase w = Finishing r \<Longrightarrow>
    step R None (set_phase g (Finished r) (drop_guard g (w_session w) R))"
| step_dropped: "waits R g = Some w \<Longrightarrow> w_phase w = Dropping \<Longrightarrow>
    step R None (set_phase g Dropped (drop_guard g (w_session w) R))"

definition logged :: "nat option \<Rightarrow> nat list \<Rightarrow> nat list" where
  "logged l regs = (case l of Some g \<Rightarrow> g # regs | None \<Rightarrow> regs)"

inductive reachable :: "'m router \<Rightarrow> nat list \<Rightarrow> bool" where
  reach_new: "reachable new_router []"
| reach_step: "reachable R regs \<Longrightarrow> step R l R' \<Longrightarrow> reachable R' (logged l regs)"

definition asks_of :: "'m router \<Rightarrow> string \<Rightarrow> nat \<Rightarrow> bool" where
  "asks_of R s g \<longleftrightarrow> map_option w_session (waits R g) = Some s"

text \<open>The ask of a session that was registered last.\<close>

definition newest_ask :: "'m router \<Rightarrow> nat list \<Rightarrow> string \<Rightarrow> nat option" where
  "newest_ask R regs s = find (asks_of R s) regs"

subsection \<open>The invariant\<close>

text \<open>A slot belongs to a wait of that session whose guard has not run and whose channel is open;
  a future that waits on an open channel is in the map.\<close>

definition router_inv :: "'m router \<Rightarrow> bool" where
  "router_inv R \<longleftrightarrow>
     (\<forall>g \<ge> next_gen R. waits R g = None)
     \<and> (\<forall>s g. pending R s = Some g \<longrightarrow>
          (\<exists>w. waits R g = Some w \<and> w_session w = s \<and> w_cell w = Empty \<and> w_phase w \<in> {Waiting, Dropping}))
     \<and> (\<forall>g w. waits R g = Some w \<and> w_phase w = Waiting \<and> w_cell w = Empty \<longrightarrow> pending R (w_session w) = Some g)
     \<and> (\<forall>g w. waits R g = Some w \<and> w_phase w = Fresh \<longrightarrow> w_cell w = Empty)"

lemma router_invI:
  assumes "\<And>g. next_gen R \<le> g \<Longrightarrow> waits R g = None"
    and "\<And>s g. pending R s = Some g \<Longrightarrow>
      \<exists>w. waits R g = Some w \<and> w_session w = s \<and> w_cell w = Empty \<and> w_phase w \<in> {Waiting, Dropping}"
    and "\<And>g w. waits R g = Some w \<Longrightarrow> w_phase w = Waiting \<Longrightarrow> w_cell w = Empty \<Longrightarrow>
      pending R (w_session w) = Some g"
    and "\<And>g w. waits R g = Some w \<Longrightarrow> w_phase w = Fresh \<Longrightarrow> w_cell w = Empty"
  shows "router_inv R"
  unfolding router_inv_def using assms by blast

lemma router_invD:
  assumes "router_inv R"
  shows "next_gen R \<le> g \<Longrightarrow> waits R g = None"
    "pending R s = Some g \<Longrightarrow>
      \<exists>w. waits R g = Some w \<and> w_session w = s \<and> w_cell w = Empty \<and> w_phase w \<in> {Waiting, Dropping}"
    "waits R g = Some w \<Longrightarrow> w_phase w = Waiting \<Longrightarrow> w_cell w = Empty \<Longrightarrow> pending R (w_session w) = Some g"
    "waits R g = Some w \<Longrightarrow> w_phase w = Fresh \<Longrightarrow> w_cell w = Empty"
  using assms by (simp_all add: router_inv_def)

lemma waits_simps [simp]:
  "waits (set_cell g c R) h = (if h = g then map_option (\<lambda>w. w\<lparr>w_cell := c\<rparr>) (waits R g) else waits R h)"
  "waits (set_phase g p R) h = (if h = g then map_option (\<lambda>w. w\<lparr>w_phase := p\<rparr>) (waits R g) else waits R h)"
  "pending (set_cell g c R) = pending R" "pending (set_phase g p R) = pending R"
  "next_gen (set_cell g c R) = next_gen R" "next_gen (set_phase g p R) = next_gen R"
  by (simp_all add: set_cell_def set_phase_def)

lemma pending_gen_session:
  assumes "router_inv R" "pending R s = Some g" "pending R s' = Some g"
  shows "s = s'"
  using router_invD(2) [OF assms(1,2)] router_invD(2) [OF assms(1,3)] by auto

lemma inv_begin:
  assumes "router_inv R"
  shows "router_inv (begin_wait s R)"
proof (rule router_invI)
  note D = router_invD [OF assms]
  have none: "waits R (next_gen R) = None" by (simp add: D(1))
  fix g
  show "next_gen (begin_wait s R) \<le> g \<Longrightarrow> waits (begin_wait s R) g = None"
    by (simp add: begin_wait_def D(1))
  show "pending (begin_wait s R) s' = Some g \<Longrightarrow> \<exists>w. waits (begin_wait s R) g = Some w
      \<and> w_session w = s' \<and> w_cell w = Empty \<and> w_phase w \<in> {Waiting, Dropping}" for s'
    using D(2) [of s' g] none by (auto simp: begin_wait_def)
  show "waits (begin_wait s R) g = Some w \<Longrightarrow> w_phase w = Waiting \<Longrightarrow> w_cell w = Empty \<Longrightarrow>
      pending (begin_wait s R) (w_session w) = Some g" for w
    by (auto simp: begin_wait_def D(3) split: if_splits)
  show "waits (begin_wait s R) g = Some w \<Longrightarrow> w_phase w = Fresh \<Longrightarrow> w_cell w = Empty" for w
    by (auto simp: begin_wait_def D(4) split: if_splits)
qed

lemma inv_register:
  assumes "router_inv R" "waits R g = Some w" "w_phase w = Fresh"
  shows "router_inv (register g (w_session w) R)"
proof (rule router_invI)
  note D = router_invD [OF assms(1)]
  let ?s = "w_session w" and ?R = "register g (w_session w) R"
  have slot: "k \<noteq> g" if "pending R s' = Some k" for s' k using D(2) [OF that] assms(2,3) by auto
  have pend: "pending ?R = (pending R)(?s \<mapsto> g)" by (simp add: register_def Let_def)
  have wt: "waits ?R k = (if k = g then Some (w\<lparr>w_phase := Waiting\<rparr>)
      else if pending R ?s = Some k then map_option (\<lambda>v. v\<lparr>w_cell := Closed\<rparr>) (waits R k) else waits R k)" for k
    using assms(2) slot [of ?s g] by (auto simp: register_def Let_def split: option.split)
  have ng: "next_gen ?R = next_gen R" by (simp add: register_def Let_def split: option.split)
  fix k
  show "next_gen ?R \<le> k \<Longrightarrow> waits ?R k = None" using D(1) [of k] assms(2) by (auto simp: ng wt)
  show "pending ?R s' = Some k \<Longrightarrow> \<exists>v. waits ?R k = Some v
      \<and> w_session v = s' \<and> w_cell v = Empty \<and> w_phase v \<in> {Waiting, Dropping}" for s'
    using D(2) [of s' k] D(4) [OF assms(2,3)] slot [of s' k] pending_gen_session [OF assms(1), of ?s k s']
    by (auto simp: pend wt split: if_splits)
  show "waits ?R k = Some v \<Longrightarrow> w_phase v = Waiting \<Longrightarrow> w_cell v = Empty \<Longrightarrow>
      pending ?R (w_session v) = Some k" for v
    using D(3) [of k v] by (auto simp: pend wt split: if_splits)
  show "waits ?R k = Some v \<Longrightarrow> w_phase v = Fresh \<Longrightarrow> w_cell v = Empty" for v
    using D(2) [of ?s k] D(4) [of k v] by (auto simp: wt split: if_splits)
qed

text \<open>Removing the slot of a wait and resolving its channel.\<close>

lemma inv_resolve:
  assumes "router_inv R" "pending R s = Some g" "c \<noteq> Empty"
  shows "router_inv ((set_cell g c R)\<lparr>pending := (pending R)(s := None)\<rparr>)"
proof (rule router_invI)
  note D = router_invD [OF assms(1)]
  let ?R = "(set_cell g c R)\<lparr>pending := (pending R)(s := None)\<rparr>"
  have wt: "waits ?R k = waits (set_cell g c R) k" for k by simp
  obtain w where w: "waits R g = Some w" "w_session w = s" "w_phase w \<in> {Waiting, Dropping}"
    using D(2) [OF assms(2)] by blast
  fix k
  show "next_gen ?R \<le> k \<Longrightarrow> waits ?R k = None" using D(1) by simp
  show "pending ?R s' = Some k \<Longrightarrow> \<exists>v. waits ?R k = Some v
      \<and> w_session v = s' \<and> w_cell v = Empty \<and> w_phase v \<in> {Waiting, Dropping}" for s'
    using D(2) [of s' k] pending_gen_session [OF assms(1,2), of s'] by (auto split: if_splits)
  show "waits ?R k = Some v \<Longrightarrow> w_phase v = Waiting \<Longrightarrow> w_cell v = Empty \<Longrightarrow>
      pending ?R (w_session v) = Some k" for v
    using D(3) [of k v] assms(2,3) by (auto split: if_splits)
  show "waits ?R k = Some v \<Longrightarrow> w_phase v = Fresh \<Longrightarrow> w_cell v = Empty" for v
    using D(4) [of k v] w by (auto split: if_splits)
qed

lemma inv_fulfill: "router_inv R \<Longrightarrow> router_inv (snd (fulfill s m R))"
  by (auto simp: fulfill_def intro!: inv_resolve split: option.split)

lemma inv_drop_guard: "router_inv R \<Longrightarrow> router_inv (drop_guard g s R)"
  by (auto simp: drop_guard_def intro!: inv_resolve)

text \<open>A phase change of a wait that is past registration and either holds no slot or only stops
  listening.\<close>

lemma inv_set_phase:
  assumes "router_inv R" "waits R g = Some w" "w_phase w \<noteq> Fresh" "p \<notin> {Fresh, Waiting}"
    and "p = Dropping \<or> (\<forall>s. pending R s \<noteq> Some g)"
  shows "router_inv (set_phase g p R)"
proof (rule router_invI)
  note D = router_invD [OF assms(1)]
  fix k
  show "next_gen (set_phase g p R) \<le> k \<Longrightarrow> waits (set_phase g p R) k = None" using D(1) by simp
  show "pending (set_phase g p R) s' = Some k \<Longrightarrow> \<exists>v. waits (set_phase g p R) k = Some v
      \<and> w_session v = s' \<and> w_cell v = Empty \<and> w_phase v \<in> {Waiting, Dropping}" for s'
  proof -
    assume "pending (set_phase g p R) s' = Some k"
    then have pk: "pending R s' = Some k" by simp
    from D(2) [OF this] obtain v where v: "waits R k = Some v" "w_session v = s'" "w_cell v = Empty"
      "w_phase v \<in> {Waiting, Dropping}" by blast
    show ?thesis
    proof (cases "k = g")
      case True
      then have "p = Dropping" using assms(5) pk by blast
      with True v show ?thesis by simp
    next
      case False
      with v show ?thesis by simp
    qed
  qed
  have V: "k = g \<and> w_phase v = p \<or> waits R k = Some v" if "waits (set_phase g p R) k = Some v" for v
    using that by (cases "k = g") auto
  show "waits (set_phase g p R) k = Some v \<Longrightarrow> w_phase v = Waiting \<Longrightarrow> w_cell v = Empty \<Longrightarrow>
      pending (set_phase g p R) (w_session v) = Some k" for v
  proof -
    assume v: "waits (set_phase g p R) k = Some v" "w_phase v = Waiting" "w_cell v = Empty"
    from V [OF v(1)] v(2) assms(4) have "waits R k = Some v" by blast
    with D(3) v show ?thesis by simp
  qed
  show "waits (set_phase g p R) k = Some v \<Longrightarrow> w_phase v = Fresh \<Longrightarrow> w_cell v = Empty" for v
  proof -
    assume v: "waits (set_phase g p R) k = Some v" "w_phase v = Fresh"
    from V [OF v(1)] v(2) assms(4) have "waits R k = Some v" by blast
    with D(4) v show ?thesis by simp
  qed
qed

lemma no_slot_after_guard:
  assumes "router_inv R" "waits R g = Some w"
  shows "pending (drop_guard g (w_session w) R) s \<noteq> Some g"
  using router_invD(2) [OF assms(1), of s g] assms(2) by (auto simp: drop_guard_def)

lemma waits_drop_guard: "waits (drop_guard g s R) g = (if pending R s = Some g
    then map_option (\<lambda>w. w\<lparr>w_cell := Closed\<rparr>) (waits R g) else waits R g)"
  by (simp add: drop_guard_def)

lemma inv_guard_phase:
  assumes "router_inv R" "waits R g = Some w" "w_phase w \<noteq> Fresh" "p \<notin> {Fresh, Waiting}"
  shows "router_inv (set_phase g p (drop_guard g (w_session w) R))"
proof -
  obtain v where v: "waits (drop_guard g (w_session w) R) g = Some v" "w_phase v = w_phase w"
    using assms(2) that
    by (cases "pending R (w_session w) = Some g") (simp_all add: waits_drop_guard)
  then show ?thesis
    using no_slot_after_guard [OF assms(1,2)] assms(3,4)
    by (intro inv_set_phase [OF inv_drop_guard [OF assms(1)] v(1)]) (simp_all add: v(2))
qed

lemma inv_step: "step R l R' \<Longrightarrow> router_inv R \<Longrightarrow> router_inv R'"
proof (induction rule: step.induct)
  case (step_reply R g w m)
  then show ?case
    using router_invD(2) [OF step_reply(4), of _ g] by (intro inv_set_phase) auto
next
  case (step_superseded R g w)
  then show ?case
    using router_invD(2) [OF step_superseded(4), of _ g] by (intro inv_set_phase) auto
next
  case (step_cancel R g w)
  then show ?case by (intro inv_set_phase) auto
qed (simp_all add: inv_begin inv_register inv_fulfill inv_guard_phase)

lemma inv_reachable: "reachable R regs \<Longrightarrow> router_inv R"
proof (induction rule: reachable.induct)
  case reach_new
  show ?case by (simp add: new_router_def router_inv_def)
qed (rule inv_step)

text \<open>No step changes the session of a wait, and only a registration fills a slot.\<close>

lemma step_sessions:
  assumes "step R l R'" "waits R g \<noteq> None" "router_inv R"
  shows "map_option w_session (waits R' g) = map_option w_session (waits R g)"
  using assms(1)
proof cases
  case (step_begin s)
  then show ?thesis using assms(2) router_invD(1) [OF assms(3), of "next_gen R"]
    by (auto simp: begin_wait_def)
next
  case (step_register h w)
  then show ?thesis by (auto simp: register_def Let_def option.map_comp comp_def split: option.split)
next
  case (step_fulfill s m)
  then show ?thesis by (auto simp: fulfill_def option.map_comp comp_def split: option.split)
qed (auto simp: drop_guard_def option.map_comp comp_def)

lemma step_slots:
  assumes "step R l R'" "pending R' s = Some g"
  shows "(case l of None \<Rightarrow> pending R s = Some g
     | Some h \<Rightarrow> if asks_of R s h then g = h else pending R s = Some g)"
  using assms
proof cases
  case (step_register h w)
  then show ?thesis using assms(2) by (auto simp: register_def Let_def asks_of_def split: if_splits)
next
  case (step_fulfill t m)
  then show ?thesis using assms(2) by (auto simp: fulfill_def split: option.splits if_splits)
qed (use assms(2) in \<open>auto simp: begin_wait_def drop_guard_def split: if_splits\<close>)

lemma find_cong: "(\<And>x. x \<in> set xs \<Longrightarrow> P x = Q x) \<Longrightarrow> find P xs = find Q xs"
  by (induction xs) auto

lemma logged_waits:
  "reachable R regs \<Longrightarrow> (\<forall>g \<in> set regs. waits R g \<noteq> None) \<and> (\<forall>s g. pending R s = Some g \<longrightarrow> newest_ask R regs s = Some g)"
proof (induction rule: reachable.induct)
  case reach_new
  show ?case by (simp add: new_router_def)
next
  case (reach_step R regs l R')
  note inv = inv_reachable [OF reach_step(1)] and IH = reach_step(3)
  have same: "map_option w_session (waits R' g) = map_option w_session (waits R g)" if "g \<in> set regs" for g
    using step_sessions [OF reach_step(2) _ inv] IH that by blast
  have reg: "waits R h \<noteq> None" if "l = Some h" for h
    using reach_step(2) that by cases auto
  have regs: "\<forall>g \<in> set regs. waits R' g \<noteq> None"
    using same IH by (metis option.map_disc_iff)
  have new: "map_option w_session (waits R' h) = map_option w_session (waits R h)" if "l = Some h" for h
    using step_sessions [OF reach_step(2) reg [OF that] inv] .
  have old: "newest_ask R' regs s = newest_ask R regs s" for s
    unfolding newest_ask_def asks_of_def by (rule find_cong) (simp add: same)
  have "newest_ask R' (logged l regs) s = Some g" if "pending R' s = Some g" for s g
    using step_slots [OF reach_step(2) that] IH old [of s] new
    by (cases l) (auto simp: logged_def newest_ask_def asks_of_def split: if_splits)
  moreover have "\<forall>g \<in> set (logged l regs). waits R' g \<noteq> None"
    using regs new reg by (cases l) (auto simp: logged_def)
  ultimately show ?case by blast
qed

subsection \<open>Properties\<close>

text \<open>C4: In every reachable state of the ask router, however calls, replies, cancellations and guards interleave,
  the slot of a session holds the ask of that session that was registered last, and that ask's guard has not run
  yet (no slot leaks, and a guard evicts nobody else's slot); and an ask that still waits on an open channel is the
  one in its session's slot, so every older ask of the session has been answered or closed.\<close>

theorem ask_router_slots:
  assumes "reachable R regs"
  shows "(\<forall>s g. pending R s = Some g \<longrightarrow> newest_ask R regs s = Some g
      \<and> (\<exists>w. waits R g = Some w \<and> w_session w = s \<and> w_phase w \<in> {Waiting, Dropping}))
    \<and> (\<forall>g w. waits R g = Some w \<and> w_phase w = Waiting \<and> w_cell w = Empty \<longrightarrow>
      pending R (w_session w) = Some g \<and> newest_ask R regs (w_session w) = Some g)"
  using router_invD(2,3) [OF inv_reachable [OF assms]] logged_waits [OF assms] by blast

definition asked_twice :: "string router" where
  "asked_twice = register 1 ''s'' (register 0 ''s'' (begin_wait ''s'' (begin_wait ''s'' new_router)))"

lemma asked_twice_waits:
  "waits asked_twice 0 = Some \<lparr>w_session = ''s'', w_cell = Closed, w_phase = Waiting\<rparr>"
  "waits asked_twice 1 = Some \<lparr>w_session = ''s'', w_cell = Empty, w_phase = Waiting\<rparr>"
  "pending asked_twice = [''s'' \<mapsto> 1]"
  by (simp_all add: asked_twice_def register_def begin_wait_def new_router_def Let_def set_phase_def set_cell_def)

lemma asked_twice_reachable: "reachable asked_twice [1, 0]"
proof -
  let ?R2 = "begin_wait ''s'' (begin_wait ''s'' new_router) :: string router"
  have r1: "reachable (begin_wait ''s'' new_router :: string router) []"
    using reach_step [OF reach_new step_begin] by (simp add: logged_def)
  have r2: "reachable ?R2 []"
    using reach_step [OF r1 step_begin] by (simp add: logged_def)
  have w0: "waits ?R2 0 = Some \<lparr>w_session = ''s'', w_cell = Empty, w_phase = Fresh\<rparr>"
    by (simp add: begin_wait_def new_router_def)
  have r3: "reachable (register 0 ''s'' ?R2) [0]"
    using reach_step [OF r2 step_register [OF w0]] by (simp add: logged_def)
  have w1: "waits (register 0 ''s'' ?R2) 1 = Some \<lparr>w_session = ''s'', w_cell = Empty, w_phase = Fresh\<rparr>"
    by (simp add: register_def begin_wait_def new_router_def Let_def set_phase_def)
  show ?thesis using reach_step [OF r3 step_register [OF w1]] by (simp add: asked_twice_def logged_def)
qed

theorem ask_router_slots_witness:
  "\<exists>w. waits asked_twice 1 = Some w \<and> pending asked_twice (w_session w) = Some 1
     \<and> newest_ask asked_twice [1, 0] (w_session w) = Some 1"
  using conjunct2 [OF ask_router_slots [OF asked_twice_reachable], rule_format, of 1] asked_twice_waits
  by simp

text \<open>A reply goes to the newest ask and to nobody else: if some wait of the session is still
  open, \<open>fulfill\<close> answers true, hands that wait the message, and changes no other wait; if it
  answers false, no wait of the session was open.\<close>

theorem fulfill_reaches_open_wait:
  assumes "reachable R regs"
  shows "(case fulfill s m R of (b, R') \<Rightarrow>
      (\<forall>g w. waits R g = Some w \<and> w_session w = s \<and> w_phase w = Waiting \<and> w_cell w = Empty \<longrightarrow>
         b \<and> waits R' g = Some (w\<lparr>w_cell := Value m\<rparr>) \<and> (\<forall>h. h \<noteq> g \<longrightarrow> waits R' h = waits R h)))"
  using router_invD(3) [OF inv_reachable [OF assms]]
  by (auto simp: fulfill_def split: option.split)

theorem fulfill_reaches_open_wait_witness:
  "waits (snd (fulfill ''s'' ''yes'' asked_twice)) 1
     = Some \<lparr>w_session = ''s'', w_cell = Value ''yes'', w_phase = Waiting\<rparr>"
proof -
  obtain b R' where r: "fulfill ''s'' ''yes'' asked_twice = (b, R')" by (rule prod.exhaust)
  let ?w = "\<lparr>w_session = ''s'', w_cell = Empty, w_phase = Waiting\<rparr>"
  from fulfill_reaches_open_wait [OF asked_twice_reachable, of "''s''" "''yes''", unfolded r prod.case,
      rule_format, of 1 ?w]
  have "waits R' 1 = Some (?w\<lparr>w_cell := Value ''yes''\<rparr>)" using asked_twice_waits(2) by simp
  then show ?thesis by (simp add: r)
qed

end
