(* ===== verification/Ids.thy ===== *)
theory Ids
  imports Prelude
begin

text \<open>
  \<open>ids/mod.rs\<close>: the qualified ids \<open><namespace>/<type>/<uuid>\<close> and their escaping into directory
  names.  The \<open>uuid\<close> crate is the record \<open>uuid_lib\<close>, an argument.
\<close>

subsection \<open>Qualified ids\<close>

record 'u uuid_lib =
  uuid_parse :: "string \<Rightarrow> 'u option"
  uuid_show :: "'u \<Rightarrow> string"

record 'u fqid =
  f_namespace :: string
  f_type_seg :: string
  f_uuid :: 'u

definition default_namespace :: string where
  "default_namespace = ''myclaw''"

definition known_types :: "string list" where
  "known_types = [''u'', ''t'', ''msg'', ''s'', ''job'', ''mem'']"

definition is_known_type :: "string \<Rightarrow> bool" where
  "is_known_type t \<longleftrightarrow> t \<in> set known_types"

definition split_once :: "'a \<Rightarrow> 'a list \<Rightarrow> ('a list \<times> 'a list) option" where
  "split_once c s = map_option (\<lambda>i. (take i s, drop (Suc i) s)) (position (\<lambda>x. x = c) s)"

definition fqid_parse :: "'u uuid_lib \<Rightarrow> string \<Rightarrow> string \<Rightarrow> 'u fqid option" where
  "fqid_parse U s namespace =
     (case split_once CHR ''/'' s of
        None \<Rightarrow> None
      | Some (ns, rest) \<Rightarrow>
          if ns \<noteq> namespace then None
          else case split_once CHR ''/'' rest of
            None \<Rightarrow> None
          | Some (type_seg, uuid_str) \<Rightarrow>
              if type_seg = [] \<or> uuid_str = [] then None
              else case uuid_parse U uuid_str of
                None \<Rightarrow> None
              | Some u \<Rightarrow> Some \<lparr>f_namespace = ns, f_type_seg = type_seg, f_uuid = u\<rparr>)"

definition uuid_str :: "'u uuid_lib \<Rightarrow> 'u fqid \<Rightarrow> string" where
  "uuid_str U f = uuid_show U (f_uuid f)"

definition fqid_as_str :: "'u uuid_lib \<Rightarrow> 'u fqid \<Rightarrow> string" where
  "fqid_as_str U f = f_namespace f @ CHR ''/'' # f_type_seg f @ CHR ''/'' # uuid_show U (f_uuid f)"

subsection \<open>Directory names\<close>

definition replace_char :: "char \<Rightarrow> string \<Rightarrow> string \<Rightarrow> string" where
  "replace_char c rep s = concat (map (\<lambda>x. if x = c then rep else [x]) s)"

definition dir_name :: "string \<Rightarrow> string" where
  "dir_name i = replace_char CHR ''/'' ''_'' (replace_char CHR ''_'' ''__'' i)"

fun id_from_dir :: "string \<Rightarrow> string" where
  "id_from_dir [] = []"
| "id_from_dir [c] = [if c = CHR ''_'' then CHR ''/'' else c]"
| "id_from_dir (c # d # cs) =
     (if c = CHR ''_'' then
        if d = CHR ''_'' then CHR ''_'' # id_from_dir cs
        else CHR ''/'' # id_from_dir (d # cs)
      else c # id_from_dir (d # cs))"

definition bare_dir_name :: "'u uuid_lib \<Rightarrow> string \<Rightarrow> string" where
  "bare_dir_name U i =
     (case fqid_parse U i default_namespace of Some f \<Rightarrow> uuid_str U f | None \<Rightarrow> dir_name i)"

subsection \<open>Round trips\<close>

lemma replace_char_simps [simp]:
  "replace_char c rep [] = []"
  "replace_char c rep (x # s) = (if x = c then rep else [x]) @ replace_char c rep s"
  "replace_char c rep (s @ t) = replace_char c rep s @ replace_char c rep t"
  by (simp_all add: replace_char_def)

lemma dir_name_simps [simp]:
  "dir_name [] = []"
  "dir_name (c # s) = (if c = CHR ''_'' then ''__'' else if c = CHR ''/'' then ''_'' else [c]) @ dir_name s"
  by (simp_all add: dir_name_def)

lemma id_from_dir_other: "c \<noteq> CHR ''_'' \<Longrightarrow> id_from_dir (c # s) = c # id_from_dir s"
  by (cases s) simp_all

lemma id_from_dir_slash: "s = [] \<or> hd s \<noteq> CHR ''_'' \<Longrightarrow> id_from_dir (CHR ''_'' # s) = CHR ''/'' # id_from_dir s"
  by (cases s) simp_all

lemma dir_name_hd: "s \<noteq> [] \<Longrightarrow>
  hd (dir_name s) = (if hd s = CHR ''/'' then CHR ''_'' else hd s) \<and> dir_name s \<noteq> []"
  by (cases s) simp_all

text \<open>An id in which a slash is followed by a slash or an underscore.\<close>

fun ambiguous :: "string \<Rightarrow> bool" where
  "ambiguous (c # d # s) \<longleftrightarrow> (c = CHR ''/'' \<and> (d = CHR ''/'' \<or> d = CHR ''_'')) \<or> ambiguous (d # s)"
| "ambiguous _ \<longleftrightarrow> False"

text \<open>Escaping an id into a directory name is undone by \<open>id_from_dir\<close> exactly for the ids in
  which no slash is followed by a slash or an underscore.\<close>

theorem dir_name_roundtrip_iff: "id_from_dir (dir_name i) = i \<longleftrightarrow> \<not> ambiguous i"
proof (induction i rule: ambiguous.induct)
  case (1 c d s)
  show ?case
  proof (cases "c = CHR ''/''")
    case True
    show ?thesis
    proof (cases "d = CHR ''/'' \<or> d = CHR ''_''")
      case True
      then show ?thesis using \<open>c = CHR ''/''\<close> by auto
    next
      case False
      then have "id_from_dir (dir_name (c # d # s)) = CHR ''/'' # id_from_dir (dir_name (d # s))"
        using \<open>c = CHR ''/''\<close> by (auto simp: id_from_dir_slash)
      then show ?thesis using 1 False True by simp
    qed
  next
    case False
    then have "id_from_dir (dir_name (c # d # s)) = c # id_from_dir (dir_name (d # s))"
      by (cases "c = CHR ''_''") (simp_all add: id_from_dir_other)
    then show ?thesis using 1 False by simp
  qed
qed simp_all

text \<open>Two ids can share a directory.\<close>

lemma dir_name_collision: "dir_name ''a/_b'' = dir_name ''a_/b''"
  by simp

definition uuid_lib_ok :: "'u uuid_lib \<Rightarrow> bool" where
  "uuid_lib_ok U \<longleftrightarrow> (\<forall>u. uuid_parse U (uuid_show U u) = Some u \<and> uuid_show U u \<noteq> [])"

lemma split_once_first: "c \<notin> set s \<Longrightarrow> split_once c (s @ c # t) = Some (s, t)"
proof -
  assume "c \<notin> set s"
  then have "position (\<lambda>x. x = c) (s @ c # t) = Some (length s)"
    by (auto simp: position_Some_iff nth_append dest: nth_mem)
  then show ?thesis by (simp add: split_once_def)
qed

text \<open>A qualified id survives printing and parsing, whenever its namespace and its type hold no
  slash and the type is not empty; in the default namespace its directory is named by the
  uuid alone.\<close>

theorem fqid_roundtrip:
  assumes "uuid_lib_ok U" "CHR ''/'' \<notin> set (f_namespace f)" "CHR ''/'' \<notin> set (f_type_seg f)" "f_type_seg f \<noteq> []"
  shows "fqid_parse U (fqid_as_str U f) (f_namespace f) = Some f
    \<and> (f_namespace f = default_namespace \<longrightarrow> bare_dir_name U (fqid_as_str U f) = uuid_str U f)"
proof -
  have "fqid_parse U (fqid_as_str U f) (f_namespace f) = Some f"
    using assms by (simp add: fqid_parse_def fqid_as_str_def split_once_first uuid_lib_ok_def)
  then show ?thesis by (auto simp: bare_dir_name_def)
qed

definition string_uuid :: "string uuid_lib" where
  "string_uuid = \<lparr>uuid_parse = \<lambda>s. if s = [] then None else Some (tl s), uuid_show = \<lambda>u. CHR ''#'' # u\<rparr>"

theorem fqid_roundtrip_witness:
  "fqid_parse string_uuid ''myclaw/s/#0190'' ''myclaw''
     = Some \<lparr>f_namespace = ''myclaw'', f_type_seg = ''s'', f_uuid = ''0190''\<rparr>
   \<and> bare_dir_name string_uuid ''myclaw/s/#0190'' = ''#0190''"
proof -
  have "uuid_lib_ok string_uuid" by (simp add: uuid_lib_ok_def string_uuid_def)
  from fqid_roundtrip [OF this, of "\<lparr>f_namespace = ''myclaw'', f_type_seg = ''s'', f_uuid = ''0190''\<rparr>"]
  show ?thesis by (simp add: fqid_as_str_def uuid_str_def string_uuid_def default_namespace_def)
qed

end
