(* ===== verification/Unicode.thy ===== *)
theory Unicode
  imports Prelude
begin

text \<open>
  Text as the source's \<open>chars()\<close> sees it: a list of code points, with its length in the
  three units of \<open>LenUnit\<close> (\<open>api/message.rs\<close>), Unicode white space, trimming and lines.
\<close>

type_synonym utext = "nat list"

definition cps :: "string \<Rightarrow> utext" where
  "cps s = map of_char s"

datatype len_unit = Codepoints | Utf16Units | Bytes

definition char_cost :: "len_unit \<Rightarrow> nat \<Rightarrow> nat" where
  "char_cost u c =
     (case u of
        Codepoints \<Rightarrow> 1
      | Utf16Units \<Rightarrow> if c < 0x10000 then 1 else 2
      | Bytes \<Rightarrow> if c < 0x80 then 1 else if c < 0x800 then 2 else if c < 0x10000 then 3 else 4)"

definition measure_text :: "len_unit \<Rightarrow> utext \<Rightarrow> nat" where
  "measure_text u s = sum_list (map (char_cost u) s)"

definition is_space :: "nat \<Rightarrow> bool" where
  "is_space c \<longleftrightarrow> (9 \<le> c \<and> c \<le> 13) \<or> c = 32 \<or> c = 0x85 \<or> c = 0xA0 \<or> c = 0x1680
     \<or> (0x2000 \<le> c \<and> c \<le> 0x200A) \<or> c = 0x2028 \<or> c = 0x2029 \<or> c = 0x202F \<or> c = 0x205F \<or> c = 0x3000"

definition trim_start_of :: "(nat \<Rightarrow> bool) \<Rightarrow> utext \<Rightarrow> utext" where
  "trim_start_of P s = dropWhile P s"

definition trim_end_of :: "(nat \<Rightarrow> bool) \<Rightarrow> utext \<Rightarrow> utext" where
  "trim_end_of P s = rev (dropWhile P (rev s))"

definition trim_start :: "utext \<Rightarrow> utext" where "trim_start = trim_start_of is_space"
definition trim_end :: "utext \<Rightarrow> utext" where "trim_end = trim_end_of is_space"
definition trim :: "utext \<Rightarrow> utext" where "trim s = trim_start (trim_end s)"

definition trim_matches :: "(nat \<Rightarrow> bool) \<Rightarrow> utext \<Rightarrow> utext" where
  "trim_matches P s = trim_start_of P (trim_end_of P s)"

text \<open>\<open>str::lines\<close>: split at newlines, one trailing carriage return dropped from each line, no
  empty line after a final newline.\<close>

definition chomp_cr :: "utext \<Rightarrow> utext" where
  "chomp_cr l = (if l \<noteq> [] \<and> last l = 13 then butlast l else l)"

function text_lines :: "utext \<Rightarrow> utext list" where
  "text_lines [] = []"
| "text_lines (c # s) =
     (let l = takeWhile (\<lambda>x. x \<noteq> 10) (c # s); r = drop (length l) (c # s) in
      (if r = [] then l else chomp_cr l) # text_lines (tl r))"
  by pat_completeness auto
termination
  by (relation "measure length") (auto simp: Let_def)

text \<open>ASCII lower case, and \<open>str::split\<close> at a character.\<close>

definition lower_cp :: "nat \<Rightarrow> nat" where
  "lower_cp c = (if 65 \<le> c \<and> c \<le> 90 then c + 32 else c)"

function split_on :: "nat \<Rightarrow> utext \<Rightarrow> utext list" where
  "split_on d s =
     (let l = takeWhile (\<lambda>c. c \<noteq> d) s; r = drop (length l) s in
      if r = [] then [l] else l # split_on d (tl r))"
  by pat_completeness auto
termination
  by (relation "measure (\<lambda>(d, s). length s)") auto

declare split_on.simps [simp del]

lemma measure_simps [simp]:
  "measure_text u [] = 0" "measure_text u (c # s) = char_cost u c + measure_text u s"
  "measure_text u (s @ t) = measure_text u s + measure_text u t"
  by (simp_all add: measure_text_def)

lemma char_cost_bounds: "1 \<le> char_cost u c" "char_cost u c \<le> 4"
  by (simp_all add: char_cost_def split: len_unit.split)

lemma measure_take: "measure_text u (take n s) \<le> measure_text u s"
  using measure_simps(3) [of u "take n s" "drop n s"] by simp

lemma trim_end_prefix: "prefix (trim_end s) s"
proof -
  have "rev s = takeWhile is_space (rev s) @ dropWhile is_space (rev s)" by simp
  then have "s = rev (dropWhile is_space (rev s)) @ rev (takeWhile is_space (rev s))"
    by (metis rev_append rev_rev_ident)
  then show ?thesis unfolding trim_end_def trim_end_of_def prefix_def by blast
qed

lemma measure_prefix: "prefix s t \<Longrightarrow> measure_text u s \<le> measure_text u t"
  by (auto simp: prefix_def)

lemma measure_trim_end: "measure_text u (trim_end s) \<le> measure_text u s"
  by (rule measure_prefix [OF trim_end_prefix])

lemma filter_dropWhile: "(\<And>x. P x \<Longrightarrow> \<not> Q x) \<Longrightarrow> filter Q (dropWhile P s) = filter Q s"
  by (induction s) auto

lemma filter_trim_end: "(\<And>x. is_space x \<Longrightarrow> \<not> Q x) \<Longrightarrow> filter Q (trim_end s) = filter Q s"
  unfolding trim_end_def trim_end_of_def using filter_dropWhile [of is_space Q "rev s"]
  by (simp add: rev_filter [symmetric])

end
