(* ===== verification/Chunking.thy ===== *)
theory Chunking
  imports Unicode
begin

text \<open>
  \<open>channels/message/chunking.rs\<close>: splitting an outgoing message into chunks for a channel with
  a length limit, keeping code fences, tables, inline markers and links intact where possible.
  Text is a list of code points and every position is a code-point index.  The two loops that
  need not end (the search for a cut inside a fence, and the splitter itself) are partial
  functions: \<open>None\<close> is a run that never returns.
\<close>

subsection \<open>Searching\<close>

primrec rfind :: "(nat \<Rightarrow> bool) \<Rightarrow> nat \<Rightarrow> nat option" where
  "rfind P 0 = None"
| "rfind P (Suc n) = (if P n then Some n else rfind P n)"

definition find_last_pattern :: "utext \<Rightarrow> utext \<Rightarrow> nat option" where
  "find_last_pattern chars pat =
     (if pat = [] \<or> length chars < length pat then None
      else rfind (\<lambda>i. take (length pat) (drop i chars) = pat) (Suc (length chars - length pat)))"

definition find_last_char :: "utext \<Rightarrow> nat \<Rightarrow> nat option" where
  "find_last_char chars t = rfind (\<lambda>i. chars ! i = t) (length chars)"

text \<open>The longest prefix whose cost stays within the budget.\<close>

fun cap_count :: "len_unit \<Rightarrow> nat \<Rightarrow> nat \<Rightarrow> utext \<Rightarrow> nat" where
  "cap_count u budget acc [] = 0"
| "cap_count u budget acc (c # s) =
     (if acc + char_cost u c > budget then 0 else Suc (cap_count u budget (acc + char_cost u c) s))"

definition trim_to_unit_budget :: "utext \<Rightarrow> nat \<Rightarrow> len_unit \<Rightarrow> utext" where
  "trim_to_unit_budget s budget u =
     (if measure_text u s \<le> budget then s else take (cap_count u budget 0 s) s)"

subsection \<open>Inline markers\<close>

datatype marker = Bold | Strike | Code

fun marker_token :: "marker \<Rightarrow> utext" where
  "marker_token Bold = [42, 42]"
| "marker_token Strike = [126, 126]"
| "marker_token Code = [96]"

definition toggle_marker :: "marker list \<Rightarrow> marker \<Rightarrow> marker list" where
  "toggle_marker stack m =
     (case rposition (\<lambda>t. t = m) stack of
        Some i \<Rightarrow> take i stack @ drop (Suc i) stack
      | None \<Rightarrow> stack @ [m])"

subsection \<open>Fences\<close>

lemma replicate_three [simp]: "replicate 3 x = [x, x, x]"
  by (simp add: numeral_3_eq_3)

record fence_carry =
  fc_marker :: nat
  fc_len :: nat
  fc_info :: utext

definition open_line :: "fence_carry \<Rightarrow> utext" where
  "open_line fc = replicate (fc_len fc) (fc_marker fc) @ fc_info fc @ [10]"

definition close_suffix :: "fence_carry \<Rightarrow> utext" where
  "close_suffix fc = 10 # replicate (fc_len fc) (fc_marker fc)"

record fence_region =
  fr_start :: nat
  fr_body_start :: nat
  fr_end :: nat
  fr_closed :: bool
  fr_carry :: fence_carry

record fence_line =
  fl_marker :: nat
  fl_len :: nat
  fl_info_start :: nat
  fl_info_end :: nat
  fl_closing :: bool

definition parse_fence_line :: "utext \<Rightarrow> fence_line option" where
  "parse_fence_line line =
     (let i = length (takeWhile (\<lambda>c. c = 32) (take 3 line)) in
      if i \<ge> length line then None
      else
        let m = line ! i in
        if m \<noteq> 96 \<and> m \<noteq> 126 then None
        else
          let n = length (takeWhile (\<lambda>c. c = m) (drop i line)); rest = drop (i + n) line;
              closing = list_all (\<lambda>c. c = 32 \<or> c = 9) rest in
          if n < 3 then None
          else if m = 96 \<and> 96 \<in> set rest \<and> \<not> closing then None
          else Some \<lparr>fl_marker = m, fl_len = n, fl_info_start = i + n, fl_info_end = length line,
                     fl_closing = closing\<rparr>)"

definition closes :: "fence_carry \<Rightarrow> utext \<Rightarrow> bool" where
  "closes fc line =
     (case parse_fence_line line of
        None \<Rightarrow> False
      | Some fl \<Rightarrow> fl_closing fl \<and> fl_marker fl = fc_marker fc \<and> fl_len fl \<ge> fc_len fc)"

definition fence_info :: "utext \<Rightarrow> fence_line \<Rightarrow> utext" where
  "fence_info line fl =
     (if fl_closing fl then []
      else trim_matches (\<lambda>c. c = 32 \<or> c = 9)
             (take (fl_info_end fl - fl_info_start fl) (drop (fl_info_start fl) line)))"

text \<open>The line loop of \<open>scan_fence_regions\<close>, at position \<open>i\<close> with the text left and the fence open,
  if any: its start, the start of its body and its carry.\<close>

function scan_lines ::
  "nat \<Rightarrow> utext \<Rightarrow> (nat \<times> nat \<times> fence_carry) option \<Rightarrow> fence_region list" where
  "scan_lines i rest open_fence =
     (if rest = [] then
        (case open_fence of
           None \<Rightarrow> []
         | Some (start, body, fc) \<Rightarrow>
             [\<lparr>fr_start = start, fr_body_start = body, fr_end = i, fr_closed = False, fr_carry = fc\<rparr>])
      else
        let line = takeWhile (\<lambda>c. c \<noteq> 10) rest; rest' = drop (Suc (length line)) rest;
            after = i + min (Suc (length line)) (length rest) in
        case open_fence of
          Some (start, body, fc) \<Rightarrow>
            if closes fc line
            then \<lparr>fr_start = start, fr_body_start = body, fr_end = after, fr_closed = True,
                   fr_carry = fc\<rparr> # scan_lines after rest' None
            else scan_lines after rest' open_fence
        | None \<Rightarrow>
            (case parse_fence_line line of
               Some fl \<Rightarrow>
                 if \<not> fl_closing fl \<or> fl_len fl \<ge> 3
                 then scan_lines after rest' (Some (i, after,
                        \<lparr>fc_marker = fl_marker fl, fc_len = fl_len fl, fc_info = fence_info line fl\<rparr>))
                 else scan_lines after rest' None
             | None \<Rightarrow> scan_lines after rest' None))"
  by pat_completeness auto
termination
  by (relation "measure (\<lambda>(i, rest, _). length rest)") auto

declare scan_lines.simps [simp del]

definition scan_fence_regions :: "utext \<Rightarrow> fence_carry option \<Rightarrow> fence_region list" where
  "scan_fence_regions txt start_carry =
     scan_lines 0 txt (map_option (\<lambda>fc. (0, 0, fc)) start_carry)"

definition trailing_open_carry :: "utext \<Rightarrow> fence_carry option \<Rightarrow> fence_carry option" where
  "trailing_open_carry txt start_carry =
     (let rs = scan_fence_regions txt start_carry in
      if rs = [] then None
      else let r = last rs in
        if \<not> fr_closed r \<and> fr_end r = length txt then Some (fr_carry r) else None)"

definition region_containing :: "fence_region list \<Rightarrow> nat \<Rightarrow> fence_region option" where
  "region_containing rs pos = List.find (\<lambda>r. fr_start r \<le> pos \<and> pos < fr_end r) rs"

subsection \<open>Open markers, links and tables\<close>

function inline_markers ::
  "utext \<Rightarrow> nat \<Rightarrow> fence_region list \<Rightarrow> nat \<Rightarrow> marker list \<Rightarrow> marker list" where
  "inline_markers chars stop rs i stack =
     (if i \<ge> stop then stack
      else if region_containing rs i \<noteq> None then inline_markers chars stop rs (i + 1) stack
      else if stack \<noteq> [] \<and> last stack = Code then
        inline_markers chars stop rs (i + 1) (if chars ! i = 96 then butlast stack else stack)
      else if i + 1 < length chars \<and> chars ! i = 126 \<and> chars ! (i + 1) = 126 then
        inline_markers chars stop rs (i + 2) (toggle_marker stack Strike)
      else if i + 1 < length chars \<and> chars ! i = 42 \<and> chars ! (i + 1) = 42 then
        inline_markers chars stop rs (i + 2) (toggle_marker stack Bold)
      else if chars ! i = 96 then inline_markers chars stop rs (i + 1) (stack @ [Code])
      else inline_markers chars stop rs (i + 1) stack)"
  by pat_completeness auto
termination
  by (relation "measure (\<lambda>(chars, stop, rs, i, stack). stop - i)") auto

declare inline_markers.simps [simp del]

definition open_inline_markers ::
  "utext \<Rightarrow> nat \<Rightarrow> marker list \<Rightarrow> fence_region list \<Rightarrow> marker list" where
  "open_inline_markers chars stop start rs = inline_markers chars (min stop (length chars)) rs 0 start"

definition parse_link_end :: "utext \<Rightarrow> nat \<Rightarrow> nat option" where
  "parse_link_end chars start =
     (let label = takeWhile (\<lambda>c. c \<noteq> 93) (drop (start + 1) chars); i = start + 1 + length label in
      if 10 \<in> set label then None
      else if i \<ge> length chars \<or> i + 1 \<ge> length chars \<or> chars ! (i + 1) \<noteq> 40 then None
      else
        let url = takeWhile (\<lambda>c. c \<noteq> 41) (drop (i + 2) chars); j = i + 2 + length url in
        if 10 \<in> set url then None
        else if j \<ge> length chars then None
        else Some (j + 1))"

definition link_scan_window :: nat where
  "link_scan_window = 4096"

definition link_start_before :: "utext \<Rightarrow> nat \<Rightarrow> nat option" where
  "link_start_before chars index =
     rfind (\<lambda>p. p \<ge> index - link_scan_window \<and> chars ! p = 91 \<and>
        (case parse_link_end chars p of Some e \<Rightarrow> p < index \<and> index < e | None \<Rightarrow> False))
       (min index (length chars))"

definition is_table_row :: "utext \<Rightarrow> bool" where
  "is_table_row line \<longleftrightarrow> trim line \<noteq> [] \<and> 124 \<in> set (trim line)"

definition is_table_delimiter :: "utext \<Rightarrow> bool" where
  "is_table_delimiter line \<longleftrightarrow>
     list_all (\<lambda>c. c \<in> {45, 124, 58, 32, 9}) (trim line) \<and> 45 \<in> set (trim line)"

text \<open>The line loop of \<open>open_table_header\<close>: the open table's header and delimiter, if any.\<close>

fun table_scan ::
  "utext list \<Rightarrow> utext option \<Rightarrow> (utext \<times> utext) option \<Rightarrow> (utext \<times> utext) option" where
  "table_scan [] prev tab = tab"
| "table_scan (line # ls) prev tab =
     (let tab1 = (if tab \<noteq> None \<and> \<not> is_table_row line then None else tab);
          tab2 = (case (tab1, prev) of
                    (None, Some p) \<Rightarrow>
                      if is_table_delimiter line \<and> is_table_row p then Some (p, line) else None
                  | _ \<Rightarrow> tab1)
      in table_scan ls (Some line) tab2)"

definition open_table_header :: "utext \<Rightarrow> utext \<Rightarrow> utext option" where
  "open_table_header chunk rest =
     (case List.find (\<lambda>l. trim l \<noteq> []) (text_lines rest) of
        None \<Rightarrow> None
      | Some nxt \<Rightarrow>
          if \<not> is_table_row nxt then None
          else map_option (\<lambda>(h, d). h @ [10] @ d @ [10]) (table_scan (text_lines chunk) None None))"

subsection \<open>Choosing the cut\<close>

definition cost_of :: "utext \<Rightarrow> len_unit \<Rightarrow> nat \<Rightarrow> nat" where
  "cost_of chars u stop = measure_text u (take stop chars)"

definition boundary_within :: "utext \<Rightarrow> nat \<Rightarrow> nat" where
  "boundary_within chars cap0 =
     (let cap = min cap0 (length chars); s = take cap chars in
      if cap = 0 then 0
      else case find_last_pattern s [10, 10] of
        Some p \<Rightarrow> p + 2
      | None \<Rightarrow>
          (case find_last_char s 10 of
             Some p \<Rightarrow> p + 1
           | None \<Rightarrow>
               (case find_last_char s 32 of
                  Some p \<Rightarrow> p + 1
                | None \<Rightarrow> min (max cap 1) (length chars))))"

text \<open>The end of the body of a fence that must be cut: the start of its closing line.\<close>

definition body_limit :: "utext \<Rightarrow> fence_region \<Rightarrow> nat" where
  "body_limit chars reg =
     (if fr_closed reg then
        let line_start = (case rfind (\<lambda>i. i \<ge> fr_body_start reg \<and> chars ! i = 10) (fr_end reg) of
                            Some p \<Rightarrow> p + 1 | None \<Rightarrow> min (fr_body_start reg) (fr_end reg));
            last_line = takeWhile (\<lambda>c. c \<noteq> 10)
                          (take (min (fr_end reg) (length chars) - line_start) (drop line_start chars))
        in if closes (fr_carry reg) last_line then line_start else fr_end reg
      else fr_end reg)"

definition adjust_for_fences ::
  "utext \<Rightarrow> len_unit \<Rightarrow> fence_region list \<Rightarrow> nat \<Rightarrow> nat \<Rightarrow> nat \<times> fence_carry option" where
  "adjust_for_fences chars u rs index0 budget =
     (let len = length chars; index = (if index0 = 0 then min 1 len else index0) in
      case region_containing rs index of
        None \<Rightarrow> (index, None)
      | Some reg \<Rightarrow>
          if cost_of chars u (fr_end reg) \<le> budget then (min (max (fr_end reg) 1) len, None)
          else if fr_start reg > 0 \<and> cost_of chars u (fr_start reg) \<le> budget then (fr_start reg, None)
          else
            let close_cost = measure_text u (close_suffix (fr_carry reg));
                lim = body_limit chars reg;
                cap0 = min (cap_count u (budget - close_cost) 0 chars) lim
            in if cap0 < fr_body_start reg \<and> fr_start reg > 0 then (fr_start reg, None)
            else
              let cap = (if cap0 < fr_body_start reg then max (min (fr_body_start reg + 1) lim) 1 else cap0);
                  cut0 = (if cap > fr_body_start reg then
                            (let local = boundary_within chars cap in
                             if local > fr_body_start reg then local
                             else max cap (fr_body_start reg + min 1 (lim - fr_body_start reg)))
                          else max (min (fr_body_start reg + 1) lim) 1);
                  cut = max (min cut0 lim) 1
              in if cut \<le> fr_start reg then (max (fr_start reg) 1, None)
              else if cut < fr_body_start reg \<and> fr_start reg > 0 then (fr_start reg, None)
              else
                let cut2 = (if cut < fr_body_start reg then max (min (fr_body_start reg) lim) 1 else cut) in
                if cut2 \<le> fr_body_start reg \<and> fr_start reg > 0 then (fr_start reg, None)
                else (cut2, Some (fr_carry reg)))"

text \<open>The re-validation loop inside a fence: it may never end.\<close>

partial_function (option) fence_loop ::
  "utext \<Rightarrow> len_unit \<Rightarrow> fence_region list \<Rightarrow> nat \<Rightarrow> nat \<Rightarrow> nat \<Rightarrow> fence_carry option \<Rightarrow>
     (nat \<times> fence_carry option) option" where
  "fence_loop chars u rs limit close_cost index carry =
     (if index > 0 \<and> cost_of chars u index + close_cost > limit then
        (let (i2, fc2) = adjust_for_fences chars u rs (max (boundary_within chars (index - 1)) 1) limit in
         if fc2 = None then Some (i2, fc2) else fence_loop chars u rs limit close_cost i2 fc2)
      else Some (index, carry))"

declare fence_loop.simps [code]

function clamp_loop :: "utext \<Rightarrow> len_unit \<Rightarrow> nat \<Rightarrow> nat \<Rightarrow> nat \<Rightarrow> nat" where
  "clamp_loop chars u limit close_cost index =
     (if index > 1 \<and> cost_of chars u index + close_cost > limit
      then clamp_loop chars u limit close_cost (index - 1) else index)"
  by pat_completeness auto
termination
  by (relation "measure (\<lambda>(chars, u, limit, close_cost, index). index)") auto

declare clamp_loop.simps [simp del]

lemma rfind_SomeD: "rfind P n = Some i \<Longrightarrow> i < n \<and> P i \<and> (\<forall>j. i < j \<and> j < n \<longrightarrow> \<not> P j)"
  by (induction n) (auto split: if_splits simp: less_Suc_eq)

lemma boundary_within_le: "boundary_within chars cap \<le> cap"
proof -
  let ?c = "min cap (length chars)"
  have "find_last_pattern (take ?c chars) [10, 10] = Some p \<Longrightarrow> p + 2 \<le> cap" for p
    by (auto simp: find_last_pattern_def Let_def split: if_splits dest!: rfind_SomeD)
  moreover have "find_last_char (take ?c chars) t = Some p \<Longrightarrow> p + 1 \<le> cap" for p t
    by (auto simp: find_last_char_def dest!: rfind_SomeD)
  ultimately show ?thesis
    by (auto simp: boundary_within_def Let_def split: option.split)
qed

function plain_loop :: "utext \<Rightarrow> len_unit \<Rightarrow> nat \<Rightarrow> nat \<Rightarrow> nat" where
  "plain_loop chars u limit index =
     (if index > 1 \<and> cost_of chars u index > limit
      then plain_loop chars u limit (max (boundary_within chars (index - 1)) 1) else index)"
  by pat_completeness auto
termination
proof (relation "measure (\<lambda>(chars, u, limit, index). index)", goal_cases)
  case (2 chars u limit index)
  then show ?case using boundary_within_le [of chars "index - 1"] by auto
qed simp

declare plain_loop.simps [simp del]

record split_point =
  sp_index :: nat
  sp_carry :: "fence_carry option"
  sp_markers :: "marker list"

definition initial_cut ::
  "utext \<Rightarrow> nat \<Rightarrow> len_unit \<Rightarrow> fence_region list \<Rightarrow> (nat \<times> fence_carry option) option" where
  "initial_cut chars limit u rs =
     (let hard_cap = min (max (cap_count u limit 0 chars) 1) (length chars);
          b = boundary_within chars hard_cap; (index, carry) =
            adjust_for_fences chars u rs (if b = 0 then hard_cap else b) limit
      in case carry of
           None \<Rightarrow> Some (plain_loop chars u limit index, None)
         | Some fc \<Rightarrow>
             (case fence_loop chars u rs limit (measure_text u (close_suffix fc)) index carry of
                None \<Rightarrow> None
              | Some (i, None) \<Rightarrow> Some (i, None)
              | Some (i, Some fc') \<Rightarrow>
                  Some (clamp_loop chars u limit (measure_text u (close_suffix fc')) i, Some fc')))"

definition find_split_point ::
  "utext \<Rightarrow> nat \<Rightarrow> len_unit \<Rightarrow> fence_carry option \<Rightarrow> marker list \<Rightarrow> split_point option" where
  "find_split_point chars limit u start_carry start_markers =
     (let rs = scan_fence_regions chars start_carry in
      case initial_cut chars limit u rs of
        None \<Rightarrow> None
      | Some (i0, carry) \<Rightarrow>
          let i1 = (if i0 = 0 then min 1 (length chars) else i0);
              index = (if i1 > length chars then length chars else i1)
          in Some (if carry = None then
                     (let i2 = (case link_start_before chars index of
                                  Some a \<Rightarrow> if a > 0 then a else index | None \<Rightarrow> index)
                      in \<lparr>sp_index = i2, sp_carry = None,
                          sp_markers = open_inline_markers chars i2 start_markers rs\<rparr>)
                   else \<lparr>sp_index = index, sp_carry = carry, sp_markers = []\<rparr>))"

subsection \<open>The splitter\<close>

record chunk_state =
  remaining :: utext
  st_fence :: "fence_carry option"
  st_table :: "utext option"
  st_inline :: "marker list"

definition chunk_prefix :: "chunk_state \<Rightarrow> utext" where
  "chunk_prefix st =
     (case st_fence st of
        Some fc \<Rightarrow> open_line fc
      | None \<Rightarrow> (case st_table st of Some h \<Rightarrow> h | None \<Rightarrow> []))
     @ concat (map marker_token (st_inline st))"

definition content_limit :: "nat \<Rightarrow> len_unit \<Rightarrow> chunk_state \<Rightarrow> nat" where
  "content_limit limit u st =
     limit - measure_text u (chunk_prefix st)
       - (if st_fence st \<noteq> None then 0 else measure_text u (cps ''**~~`''))"

text \<open>The last piece of a fence whose synthetic close would overflow.\<close>

definition overflow_piece ::
  "nat \<Rightarrow> len_unit \<Rightarrow> chunk_state \<Rightarrow> fence_carry \<Rightarrow> (utext \<times> chunk_state) option" where
  "overflow_piece limit u st fc =
     (let prefix = chunk_prefix st; n = length (remaining st);
          limit1 = max (limit - measure_text u prefix - measure_text u (close_suffix fc)) 1
      in case find_split_point (remaining st) limit1 u (st_fence st) (st_inline st) of
           None \<Rightarrow> None
         | Some split \<Rightarrow>
             let p0 = min (sp_index split) n; p = (if p0 = 0 \<or> p0 \<ge> n then min 1 (n - 1) else p0);
                 fc_use = (case sp_carry split of Some c \<Rightarrow> c | None \<Rightarrow> fc);
                 budget = limit - measure_text u prefix - measure_text u (close_suffix fc_use);
                 b0 = trim_to_unit_budget (trim_end (take p (remaining st))) budget u;
                 body = (if b0 = [] \<and> remaining st \<noteq> [] then take 1 (remaining st) else b0)
             in Some (prefix @ body @ close_suffix fc_use,
                  \<lparr>remaining = drop (length body) (remaining st), st_fence = Some fc_use,
                   st_table = None, st_inline = []\<rparr>))"

text \<open>One chunk cut off the front.\<close>

definition cut_piece :: "nat \<Rightarrow> len_unit \<Rightarrow> chunk_state \<Rightarrow> (utext \<times> chunk_state) option" where
  "cut_piece limit u st =
     (case find_split_point (remaining st) (content_limit limit u st) u (st_fence st) (st_inline st) of
        None \<Rightarrow> None
      | Some split \<Rightarrow>
          let head = take (sp_index split) (remaining st); rest = drop (sp_index split) (remaining st);
              chunk = chunk_prefix st @ trim_end head
          in case sp_carry split of
               Some fc \<Rightarrow> Some (chunk @ close_suffix fc,
                 \<lparr>remaining = rest, st_fence = Some fc, st_table = None, st_inline = []\<rparr>)
             | None \<Rightarrow>
                 let chunk1 = chunk @ concat (map marker_token (rev (sp_markers split)))
                 in Some (chunk1,
                   \<lparr>remaining = trim_start_of (\<lambda>c. c = 32 \<or> c = 9) rest, st_fence = None,
                    st_table = open_table_header chunk1 rest, st_inline = sp_markers split\<rparr>))"

text \<open>The body of the loop: the chunk, and the state of the next round, if any.\<close>

definition chunk_step :: "nat \<Rightarrow> len_unit \<Rightarrow> chunk_state \<Rightarrow> (utext \<times> chunk_state option) option" where
  "chunk_step limit u st =
     (if measure_text u (remaining st) \<le> content_limit limit u st then
        let chunk = chunk_prefix st @ trim_end (remaining st) in
        case trailing_open_carry (remaining st) (st_fence st) of
          None \<Rightarrow> Some (chunk, None)
        | Some fc \<Rightarrow>
            if measure_text u (chunk @ close_suffix fc) \<le> limit then Some (chunk @ close_suffix fc, None)
            else map_option (\<lambda>(c, st'). (c, Some st')) (overflow_piece limit u st fc)
      else map_option (\<lambda>(c, st'). (c, Some st')) (cut_piece limit u st))"

partial_function (option) split_loop ::
  "nat \<Rightarrow> len_unit \<Rightarrow> chunk_state \<Rightarrow> utext list option" where
  "split_loop limit u st =
     (if remaining st = [] then Some []
      else Option.bind (chunk_step limit u st) (\<lambda>(c, nxt).
        case nxt of
          None \<Rightarrow> Some [c]
        | Some st' \<Rightarrow> Option.bind (split_loop limit u st') (\<lambda>cs. Some (c # cs))))"

declare split_loop.simps [code]

definition split_message_chunk :: "utext \<Rightarrow> nat \<Rightarrow> len_unit \<Rightarrow> utext list option" where
  "split_message_chunk message limit u =
     (let start = \<lparr>remaining = message, st_fence = None, st_table = None, st_inline = []\<rparr> in
      if measure_text u message \<le> limit then
        (case trailing_open_carry message None of
           None \<Rightarrow> Some [message]
         | Some fc \<Rightarrow>
             if measure_text u (trim_end message @ close_suffix fc) \<le> limit
             then Some [trim_end message @ close_suffix fc]
             else split_loop limit u start)
      else split_loop limit u start)"

end
