(* ===== verification/Chunking_Split.thy ===== *)
theory Chunking_Split
  imports Chunking
begin

text \<open>
  What \<open>split_message_chunk\<close> does with a message over the limit: text with no fence and no table is
  cut into chunks within the limit that keep everything visible, and a fence whose opening line
  alone is over the limit is never cut: the search for a cut does not end.
\<close>

subsection \<open>Text without fences\<close>

definition fence_free :: "utext \<Rightarrow> bool" where
  "fence_free s \<longleftrightarrow> \<not> sublist (replicate 3 96) s \<and> \<not> sublist (replicate 3 126) s"

lemma fence_free_sub: "fence_free s \<Longrightarrow> sublist t s \<Longrightarrow> fence_free t"
  unfolding fence_free_def by (meson sublist_order.order_trans)

lemma parse_fence_line_run:
  assumes "parse_fence_line line = Some fl"
  shows "\<exists>m \<in> {96, 126}. sublist (replicate 3 m) line"
proof -
  define i where "i = length (takeWhile (\<lambda>c. c = 32) (take 3 line))"
  define m where "m = line ! i"
  define r where "r = takeWhile (\<lambda>c. c = m) (drop i line)"
  have m: "m \<in> {96, 126}" and r: "length r \<ge> 3"
    using assms unfolding parse_fence_line_def Let_def i_def [symmetric] m_def [symmetric]
      r_def [symmetric] by (auto split: if_splits)
  have "set r \<subseteq> {m}" unfolding r_def by (auto dest: set_takeWhileD)
  then have "r = replicate (length r) m"
    by (simp add: replicate_length_same subset_iff)
  also have "\<dots> = replicate 3 m @ replicate (length r - 3) m"
    using r by (simp add: replicate_add [symmetric] del: replicate_three)
  finally have "sublist (replicate 3 m) r" by (metis prefixI prefix_imp_sublist)
  moreover have "sublist r line"
    unfolding r_def
    by (meson prefix_imp_sublist sublist_drop sublist_order.order_trans takeWhile_is_prefix)
  ultimately show ?thesis using m by (meson sublist_order.order_trans)
qed

lemma fence_free_parse: "fence_free line \<Longrightarrow> parse_fence_line line = None"
  using parse_fence_line_run [of line] unfolding fence_free_def by (cases "parse_fence_line line") auto

lemma scan_lines_fence_free: "fence_free rest \<Longrightarrow> scan_lines i rest None = []"
proof (induction "length rest" arbitrary: rest i rule: less_induct)
  case less
  define line where "line = takeWhile (\<lambda>c. c \<noteq> 10) rest"
  have "fence_free line"
    using less.prems unfolding line_def
    by (rule fence_free_sub) (simp add: prefix_imp_sublist takeWhile_is_prefix)
  then have line: "parse_fence_line line = None" by (rule fence_free_parse)
  have rest: "fence_free (drop (Suc (length line)) rest)"
    using less.prems by (rule fence_free_sub) (rule sublist_drop)
  show ?case
  proof (cases "rest = []")
    case False
    then have "length (drop (Suc (length line)) rest) < length rest" by simp
    from less.hyps [OF this rest] False line show ?thesis
      by (subst scan_lines.simps) (simp add: line_def Let_def)
  qed (simp add: scan_lines.simps)
qed

lemma no_regions: "fence_free s \<Longrightarrow> scan_fence_regions s None = []"
  by (simp add: scan_fence_regions_def scan_lines_fence_free)

lemma no_trailing_carry: "fence_free s \<Longrightarrow> trailing_open_carry s None = None"
  by (simp add: trailing_open_carry_def no_regions)

subsection \<open>Open markers\<close>

definition wf_markers :: "marker list \<Rightarrow> bool" where
  "wf_markers ms \<longleftrightarrow> distinct ms \<and> (Code \<in> set ms \<longrightarrow> last ms = Code)"

lemma wf_markers_butlast: "wf_markers ms \<Longrightarrow> last ms = Code \<Longrightarrow> wf_markers (butlast ms)"
  by (cases ms rule: rev_cases) (auto simp: wf_markers_def)

lemma wf_markers_push: "wf_markers ms \<Longrightarrow> last ms \<noteq> Code \<or> ms = [] \<Longrightarrow> wf_markers (ms @ [Code])"
  by (auto simp: wf_markers_def)

lemma wf_markers_toggle:
  assumes "wf_markers ms" "last ms \<noteq> Code \<or> ms = []" "m \<noteq> Code"
  shows "wf_markers (toggle_marker ms m)"
proof -
  have nc: "Code \<notin> set ms" using assms by (auto simp: wf_markers_def)
  show ?thesis
  proof (cases "rposition (\<lambda>t. t = m) ms")
    case None
    then have "m \<notin> set ms" by (auto simp: rposition_None_iff)
    then show ?thesis using assms nc None by (auto simp: toggle_marker_def wf_markers_def)
  next
    case (Some i)
    have "set (take i ms) \<inter> set (drop (Suc i) ms) = {}"
      using assms(1) by (intro set_take_disj_set_drop_if_distinct) (auto simp: wf_markers_def)
    then show ?thesis using assms(1) nc Some
      by (auto simp: toggle_marker_def wf_markers_def dest: in_set_takeD in_set_dropD)
  qed
qed

lemma inline_markers_wf: "wf_markers ms \<Longrightarrow> wf_markers (inline_markers chars stop rs i ms)"
proof (induction chars stop rs i ms rule: inline_markers.induct)
  case (1 chars stop rs i ms)
  consider (stop) "i \<ge> stop" | (region) "i < stop" "region_containing rs i \<noteq> None"
    | (code) "i < stop" "region_containing rs i = None" "ms \<noteq> []" "last ms = Code"
    | (plain) "i < stop" "region_containing rs i = None" "\<not> (ms \<noteq> [] \<and> last ms = Code)"
    by (cases "i \<ge> stop"; cases "region_containing rs i") auto
  then show ?case
  proof cases
    case stop
    then show ?thesis using "1.prems" by (subst inline_markers.simps) simp
  next
    case region
    then show ?thesis using "1.IH"(1) "1.prems" by (subst inline_markers.simps) simp
  next
    case code
    then have "wf_markers (if chars ! i = 96 then butlast ms else ms)"
      using "1.prems" wf_markers_butlast by auto
    then show ?thesis using code "1.IH"(2) by (subst inline_markers.simps) simp
  next
    case plain
    have t: "wf_markers (toggle_marker ms Strike)" "wf_markers (toggle_marker ms Bold)"
        "wf_markers (ms @ [Code])"
      using "1.prems" plain wf_markers_toggle wf_markers_push by auto
    show ?thesis
      using plain t "1.IH"(3-6) "1.prems"
      by (subst inline_markers.simps) (simp split del: if_split, simp split: if_split, blast)
  qed
qed

lemma measure_markers:
  assumes "wf_markers ms"
  shows "measure_text u (concat (map marker_token ms)) \<le> 5"
proof -
  have e: "measure_text u (concat (map marker_token ms))
      = sum_list (map (\<lambda>m. measure_text u (marker_token m)) ms)"
    by (induction ms) auto
  also have "\<dots> = (\<Sum>m \<in> set ms. measure_text u (marker_token m))"
    using assms by (simp add: wf_markers_def sum_list_distinct_conv_sum_set)
  also have "\<dots> \<le> (\<Sum>m \<in> {Bold, Strike, Code}. measure_text u (marker_token m))"
    by (rule sum_mono2) (auto intro: marker.exhaust)
  also have "\<dots> = 5" by (simp add: char_cost_def split: len_unit.split)
  finally show ?thesis .
qed

lemma inline_reserve: "measure_text u (cps ''**~~`'') = 5"
  by (simp add: cps_def char_cost_def split: len_unit.split)

lemma measure_rev_concat: "measure_text u (concat (map marker_token (rev ms))) = measure_text u (concat (map marker_token ms))"
  by (induction ms) auto

subsection \<open>The cut of plain text\<close>

lemma boundary_within_pos: "0 < cap \<Longrightarrow> chars \<noteq> [] \<Longrightarrow> 0 < boundary_within chars cap"
  by (auto simp: boundary_within_def Let_def split: option.split)

lemma cost_of_mono: "i \<le> j \<Longrightarrow> cost_of chars u i \<le> cost_of chars u j"
  unfolding cost_of_def by (rule measure_prefix) (metis min.absorb1 prefixI take_add take_take le_iff_add)

lemma cost_of_one: "cost_of chars u 1 \<le> 4"
  using char_cost_bounds(2) [of u] by (cases chars) (auto simp: cost_of_def)

lemma cap_count_le: "cap_count u b acc s \<le> length s"
  by (induction s arbitrary: acc) auto

lemma cap_count_cost: "acc + measure_text u (take (cap_count u b acc s) s) \<le> max b acc"
proof (induction s arbitrary: acc)
  case (Cons c s)
  show ?case using Cons.IH [of "acc + char_cost u c"] by (auto simp: add.assoc max_def split: if_splits)
qed simp

lemma plain_loop_bounds:
  assumes "1 \<le> index" "chars \<noteq> []" "4 \<le> limit"
  shows "1 \<le> plain_loop chars u limit index \<and> plain_loop chars u limit index \<le> index
    \<and> cost_of chars u (plain_loop chars u limit index) \<le> limit"
  using assms
proof (induction chars u limit index rule: plain_loop.induct)
  case (1 chars u limit index)
  show ?case
  proof (cases "index > 1 \<and> cost_of chars u index > limit")
    case True
    let ?j = "max (boundary_within chars (index - 1)) 1"
    have le: "?j \<le> index" using boundary_within_le [of chars "index - 1"] True by simp
    have "1 \<le> plain_loop chars u limit ?j \<and> plain_loop chars u limit ?j \<le> ?j
      \<and> cost_of chars u (plain_loop chars u limit ?j) \<le> limit"
      using 1 True by simp
    moreover have "plain_loop chars u limit index = plain_loop chars u limit ?j"
      using True by (subst plain_loop.simps) simp
    ultimately show ?thesis using le by (metis order_trans)
  next
    case False
    then have "plain_loop chars u limit index = index" by (subst plain_loop.simps) auto
    moreover have "cost_of chars u index \<le> limit"
      using False 1 cost_of_one [of chars u] by (cases "index = 1") auto
    ultimately show ?thesis using 1 by simp
  qed
qed

lemma link_start_before_less: "link_start_before chars index = Some a \<Longrightarrow> a < index"
  by (auto simp: link_start_before_def dest: rfind_SomeD)

lemma initial_cut_plain:
  assumes "chars \<noteq> []" "4 \<le> limit"
  shows "\<exists>i. initial_cut chars limit u [] = Some (i, None) \<and> 1 \<le> i \<and> i \<le> length chars
    \<and> cost_of chars u i \<le> limit"
proof -
  let ?h = "min (max (cap_count u limit 0 chars) 1) (length chars)"
  let ?b = "boundary_within chars ?h"
  have b: "0 < ?b" using assms by (intro boundary_within_pos) (auto simp: Suc_le_eq)
  have le: "?b \<le> length chars" using boundary_within_le [of chars ?h] by simp
  have "initial_cut chars limit u [] = Some (plain_loop chars u limit ?b, None)"
    using b by (simp add: initial_cut_def Let_def adjust_for_fences_def region_containing_def)
  moreover have "1 \<le> plain_loop chars u limit ?b \<and> plain_loop chars u limit ?b \<le> ?b
      \<and> cost_of chars u (plain_loop chars u limit ?b) \<le> limit"
    using b by (intro plain_loop_bounds assms) simp
  ultimately show ?thesis using le order_trans by blast
qed

lemma find_split_point_plain:
  assumes "fence_free s" "s \<noteq> []" "4 \<le> limit" "wf_markers ms"
  shows "\<exists>i ms'. find_split_point s limit u None ms
      = Some \<lparr>sp_index = i, sp_carry = None, sp_markers = ms'\<rparr>
    \<and> 1 \<le> i \<and> i \<le> length s \<and> cost_of s u i \<le> limit \<and> wf_markers ms'"
proof -
  obtain i where i: "initial_cut s limit u [] = Some (i, None)" "1 \<le> i" "i \<le> length s"
      "cost_of s u i \<le> limit"
    using initial_cut_plain [OF assms(2,3)] by auto
  define j where "j = (case link_start_before s i of Some a \<Rightarrow> if a > 0 then a else i | None \<Rightarrow> i)"
  have j: "1 \<le> j" "j \<le> i"
    using i(2) link_start_before_less [of s i] by (auto simp: j_def split: option.split)
  have "find_split_point s limit u None ms = Some \<lparr>sp_index = j, sp_carry = None,
      sp_markers = open_inline_markers s j ms []\<rparr>"
    using i(1-3) by (simp add: find_split_point_def Let_def no_regions [OF assms(1)] j_def)
  moreover have "cost_of s u j \<le> limit" using cost_of_mono [OF j(2), of s u] i(4) by simp
  moreover have "wf_markers (open_inline_markers s j ms [])"
    by (simp add: open_inline_markers_def inline_markers_wf assms(4))
  ultimately show ?thesis using i j by (intro exI [of _ j]) auto
qed

subsection \<open>Splitting plain text\<close>

text \<open>Plain text: no run of three fence characters and no table bar.  What a chunk keeps of it: all
  but white space and the three marker characters.\<close>

definition plain_text :: "utext \<Rightarrow> bool" where
  "plain_text s \<longleftrightarrow> fence_free s \<and> 124 \<notin> set s"

definition visible :: "nat \<Rightarrow> bool" where
  "visible c \<longleftrightarrow> \<not> is_space c \<and> c \<notin> {42, 126, 96}"

definition plain_state :: "chunk_state \<Rightarrow> bool" where
  "plain_state st \<longleftrightarrow>
     plain_text (remaining st) \<and> st_fence st = None \<and> st_table st = None \<and> wf_markers (st_inline st)"

lemma plain_text_drop: "plain_text s \<Longrightarrow> plain_text (drop n s)"
  unfolding plain_text_def by (auto intro: fence_free_sub dest: in_set_dropD)

lemma plain_text_trim: "plain_text s \<Longrightarrow> plain_text (trim_start_of P s)"
  unfolding trim_start_of_def plain_text_def dropWhile_eq_drop
  by (auto intro: fence_free_sub dest: in_set_dropD)

lemma in_if_Cons: "l \<in> set ((if b then x else y) # ls) \<Longrightarrow> l = x \<or> l = y \<or> l \<in> set ls"
  by (auto split: if_splits)

lemma text_lines_subset: "l \<in> set (text_lines s) \<Longrightarrow> set l \<subseteq> set s"
proof (induction s rule: text_lines.induct)
  case (2 c s)
  let ?l = "takeWhile (\<lambda>x. x \<noteq> 10) (c # s)"
  have "set (chomp_cr ?l) \<subseteq> set ?l" by (auto simp: chomp_cr_def dest: in_set_butlastD)
  moreover have "set ?l \<subseteq> set (c # s)" by (auto dest: set_takeWhileD simp del: takeWhile.simps)
  moreover have "set (tl (drop (length ?l) (c # s))) \<subseteq> set (c # s)"
    by (metis drop_Suc order_trans set_drop_subset tl_drop)
  moreover have "l = ?l \<or> l = chomp_cr ?l \<or> l \<in> set (text_lines (tl (drop (length ?l) (c # s))))"
    using 2(2) unfolding text_lines.simps(2) Let_def by (rule in_if_Cons)
  moreover have "set l \<subseteq> set (tl (drop (length ?l) (c # s)))"
    if "l \<in> set (text_lines (tl (drop (length ?l) (c # s))))"
    by (rule "2.IH" [OF refl refl that])
  ultimately show ?case by (elim disjE) (auto simp del: takeWhile.simps set_simps)
qed simp

lemma no_table: "124 \<notin> set rest \<Longrightarrow> open_table_header chunk rest = None"
proof -
  assume a: "124 \<notin> set rest"
  have "\<not> is_table_row l" if "l \<in> set (text_lines rest)" for l
  proof -
    have "set (trim l) \<subseteq> set l"
      unfolding trim_def trim_start_def trim_end_def trim_start_of_def trim_end_of_def
      by (auto dest!: set_dropWhileD)
    then show ?thesis using text_lines_subset [OF that] a by (auto simp: is_table_row_def)
  qed
  then show ?thesis
    by (auto simp: open_table_header_def find_Some_iff split: option.split)
qed

lemma visible_markers: "filter visible (concat (map marker_token ms)) = []"
proof (induction ms)
  case (Cons m ms)
  then show ?case by (cases m) (simp_all add: visible_def)
qed simp

lemma visible_trim_end: "filter visible (trim_end s) = filter visible s"
  by (rule filter_trim_end) (simp add: visible_def)

lemma visible_trim_start:
  "filter visible (trim_start_of (\<lambda>c. c = 32 \<or> c = 9) s) = filter visible s"
  unfolding trim_start_of_def by (rule filter_dropWhile) (auto simp: visible_def is_space_def)

lemma content_limit_plain:
  assumes "plain_state st" "14 \<le> limit"
  shows "4 \<le> content_limit limit u st"
    "measure_text u (chunk_prefix st) + content_limit limit u st + 5 = limit"
    "filter visible (chunk_prefix st) = []"
  using assms measure_markers [of "st_inline st" u] visible_markers
  by (auto simp: content_limit_def chunk_prefix_def plain_state_def inline_reserve)

lemma chunk_step_plain:
  assumes st: "plain_state st" and limit: "14 \<le> limit" and ne: "remaining st \<noteq> []"
  shows "\<exists>c nxt. chunk_step limit u st = Some (c, nxt) \<and> measure_text u c \<le> limit
    \<and> (case nxt of
         None \<Rightarrow> filter visible c = filter visible (remaining st)
       | Some st' \<Rightarrow> plain_state st' \<and> length (remaining st') < length (remaining st)
           \<and> filter visible c @ filter visible (remaining st') = filter visible (remaining st))"
proof -
  let ?L = "content_limit limit u st" and ?P = "chunk_prefix st"
  note L = content_limit_plain(1,2) [OF st limit, of u] content_limit_plain(3) [OF st limit]
  have ff: "fence_free (remaining st)" and bar: "124 \<notin> set (remaining st)"
    and none: "st_fence st = None" and wf: "wf_markers (st_inline st)"
    using st by (auto simp: plain_state_def plain_text_def)
  show ?thesis
  proof (cases "measure_text u (remaining st) \<le> ?L")
    case True
    then have "chunk_step limit u st = Some (?P @ trim_end (remaining st), None)"
      by (simp add: chunk_step_def none no_trailing_carry [OF ff])
    moreover have "measure_text u (?P @ trim_end (remaining st)) \<le> limit"
      using True L(2) measure_trim_end [of u "remaining st"] by simp
    ultimately show ?thesis by (simp add: visible_trim_end L(3))
  next
    case False
    obtain i ms where sp: "find_split_point (remaining st) ?L u None (st_inline st)
          = Some \<lparr>sp_index = i, sp_carry = None, sp_markers = ms\<rparr>"
        and i: "1 \<le> i" "i \<le> length (remaining st)" "cost_of (remaining st) u i \<le> ?L"
        and ms: "wf_markers ms"
      using find_split_point_plain [OF ff ne L(1) wf, of u] by auto
    define rest where "rest = drop i (remaining st)"
    define c where "c = (?P @ trim_end (take i (remaining st))) @ concat (map marker_token (rev ms))"
    define st' where "st' = \<lparr>remaining = trim_start_of (\<lambda>c. c = 32 \<or> c = 9) rest, st_fence = None,
      st_table = None, st_inline = ms\<rparr>"
    have "open_table_header c rest = None"
      using bar by (intro no_table) (auto simp: rest_def dest: in_set_dropD)
    then have step: "chunk_step limit u st = Some (c, Some st')"
      using False sp by (simp add: chunk_step_def cut_piece_def none Let_def c_def st'_def rest_def)
    have "measure_text u (take i (remaining st)) \<le> ?L" using i(3) by (simp add: cost_of_def)
    then have m: "measure_text u c \<le> limit"
      using L(2) measure_markers [OF ms, of u] measure_trim_end [of u "take i (remaining st)"]
      by (simp add: c_def measure_rev_concat)
    have p: "plain_state st'"
      using st ms by (simp add: plain_state_def st'_def rest_def plain_text_drop plain_text_trim)
    have "length (remaining st') \<le> length rest"
      by (simp add: st'_def trim_start_of_def length_dropWhile_le)
    then have len: "length (remaining st') < length (remaining st)"
      using i ne by (simp add: rest_def)
    have "filter visible c @ filter visible (remaining st')
        = filter visible (take i (remaining st)) @ filter visible rest"
      using visible_markers [of "rev ms"]
      by (simp add: c_def st'_def visible_trim_end visible_trim_start L(3))
    also have "\<dots> = filter visible (remaining st)"
      unfolding rest_def filter_append [symmetric] by simp
    finally show ?thesis using step m p len by simp
  qed
qed

lemma split_loop_plain:
  assumes "plain_state st" "14 \<le> limit"
  shows "\<exists>cs. split_loop limit u st = Some cs \<and> (\<forall>c \<in> set cs. measure_text u c \<le> limit)
    \<and> filter visible (concat cs) = filter visible (remaining st)"
  using assms(1)
proof (induction "length (remaining st)" arbitrary: st rule: less_induct)
  case less
  show ?case
  proof (cases "remaining st = []")
    case True
    then show ?thesis by (subst split_loop.simps) simp
  next
    case False
    obtain c nxt where step: "chunk_step limit u st = Some (c, nxt)" "measure_text u c \<le> limit"
      and nxt: "case nxt of
         None \<Rightarrow> filter visible c = filter visible (remaining st)
       | Some st' \<Rightarrow> plain_state st' \<and> length (remaining st') < length (remaining st)
           \<and> filter visible c @ filter visible (remaining st') = filter visible (remaining st)"
      using chunk_step_plain [OF less.prems assms(2) False, of u] by (elim exE conjE) (rule that)
    show ?thesis
    proof (cases nxt)
      case None
      then show ?thesis using step nxt False by (subst split_loop.simps) simp
    next
      case (Some st')
      then have st': "plain_state st'" "length (remaining st') < length (remaining st)"
        "filter visible c @ filter visible (remaining st') = filter visible (remaining st)"
        using nxt by simp_all
      obtain cs where cs: "split_loop limit u st' = Some cs"
          "\<forall>c \<in> set cs. measure_text u c \<le> limit"
          "filter visible (concat cs) = filter visible (remaining st')"
        using less.hyps [OF st'(2,1)] by (elim exE conjE) (rule that)
      have "split_loop limit u st = Some (c # cs)"
        using False step(1) Some cs(1) by (subst split_loop.simps) simp
      then show ?thesis using cs(2,3) step(2) st'(3) by simp
    qed
  qed
qed

lemma split_plain:
  assumes "plain_text message" "14 \<le> limit"
  shows "\<exists>cs. split_message_chunk message limit u = Some cs
    \<and> (\<forall>c \<in> set cs. measure_text u c \<le> limit)
    \<and> filter visible (concat cs) = filter visible message"
proof (cases "measure_text u message \<le> limit")
  case True
  then have "split_message_chunk message limit u = Some [message]"
    using assms(1) by (simp add: split_message_chunk_def no_trailing_carry plain_text_def)
  then show ?thesis using True by simp
next
  case False
  let ?st = "\<lparr>remaining = message, st_fence = None, st_table = None, st_inline = []\<rparr>"
  have "plain_state ?st" using assms(1) by (simp add: plain_state_def wf_markers_def)
  from split_loop_plain [OF this assms(2), of u] False show ?thesis
    by (simp add: split_message_chunk_def)
qed

subsection \<open>An opening line longer than the limit\<close>

lemma scan_lines_open:
  "rest \<noteq> [] \<Longrightarrow> \<exists>reg rs. scan_lines i rest (Some (a, b, fc)) = reg # rs \<and> fr_start reg = a
     \<and> fr_body_start reg = b \<and> i < fr_end reg \<and> fr_end reg \<le> i + length rest"
proof (induction "length rest" arbitrary: rest i rule: less_induct)
  case less
  define line where "line = takeWhile (\<lambda>c. c \<noteq> 10) rest"
  define rest' where "rest' = drop (Suc (length line)) rest"
  define after where "after = i + min (Suc (length line)) (length rest)"
  have after: "i < after" "after + length rest' = i + length rest"
    using less.prems by (auto simp: after_def rest'_def)
  have step: "scan_lines i rest (Some (a, b, fc)) =
      (if closes fc line
       then \<lparr>fr_start = a, fr_body_start = b, fr_end = after, fr_closed = True, fr_carry = fc\<rparr>
         # scan_lines after rest' None
       else scan_lines after rest' (Some (a, b, fc)))"
    using less.prems by (subst scan_lines.simps) (simp add: line_def rest'_def after_def Let_def)
  show ?case
  proof (cases "closes fc line")
    case True
    then show ?thesis using step after by simp
  next
    case False
    show ?thesis
    proof (cases "rest' = []")
      case True
      have "scan_lines after [] (Some (a, b, fc)) = [\<lparr>fr_start = a, fr_body_start = b,
          fr_end = after, fr_closed = False, fr_carry = fc\<rparr>]"
        by (subst scan_lines.simps) simp
      then show ?thesis using step False True after by simp
    next
      case ne: False
      have "length rest' < length rest" using less.prems by (simp add: rest'_def)
      from less.hyps [OF this ne, of after] show ?thesis using step False after by auto
    qed
  qed
qed

lemma scan_opening_line:
  assumes "parse_fence_line line \<noteq> None" "10 \<notin> set line" "body \<noteq> []"
  shows "\<exists>reg rs. scan_fence_regions (line @ 10 # body) None = reg # rs \<and> fr_start reg = 0
     \<and> fr_body_start reg = Suc (length line) \<and> Suc (length line) < fr_end reg
     \<and> fr_end reg \<le> length (line @ 10 # body)"
proof -
  obtain fl where fl: "parse_fence_line line = Some fl" using assms(1) by auto
  have len: "fl_len fl \<ge> 3"
    using fl by (auto simp: parse_fence_line_def Let_def split: if_splits)
  have tw: "takeWhile (\<lambda>c. c \<noteq> 10) (line @ 10 # body) = line"
    using assms(2) by (subst takeWhile_append2) auto
  let ?fc = "\<lparr>fc_marker = fl_marker fl, fc_len = fl_len fl, fc_info = fence_info line fl\<rparr>"
  have "scan_fence_regions (line @ 10 # body) None
      = scan_lines (Suc (length line)) body (Some (0, Suc (length line), ?fc))"
    unfolding scan_fence_regions_def
    using len by (subst scan_lines.simps) (simp add: tw fl Let_def)
  then show ?thesis
    using scan_lines_open [OF assms(3), of "Suc (length line)" 0 "Suc (length line)" ?fc] by auto
qed

text \<open>The state the loop cannot leave: the text starts with a fence whose opening line alone is over
  the limit.\<close>

definition stuck :: "utext \<Rightarrow> len_unit \<Rightarrow> fence_region list \<Rightarrow> nat \<Rightarrow> bool" where
  "stuck chars u rs limit \<longleftrightarrow> rs \<noteq> [] \<and> fr_start (hd rs) = 0
     \<and> 0 < fr_body_start (hd rs) \<and> fr_body_start (hd rs) < fr_end (hd rs)
     \<and> fr_end (hd rs) \<le> length chars \<and> limit < cost_of chars u (fr_body_start (hd rs))"

lemma cap_count_less:
  assumes "b < cost_of chars u n"
  shows "cap_count u b 0 chars < n"
proof (rule ccontr)
  assume "\<not> ?thesis"
  then have "cost_of chars u n \<le> cost_of chars u (cap_count u b 0 chars)" by (intro cost_of_mono) simp
  also have "\<dots> \<le> b" using cap_count_cost [of 0 u b chars] by (simp add: cost_of_def)
  finally show False using assms by simp
qed

lemma body_limit_ge: "fr_body_start reg \<le> fr_end reg \<Longrightarrow> fr_body_start reg \<le> body_limit chars reg"
  by (auto simp: body_limit_def Let_def split: option.split dest: rfind_SomeD)

lemma adjust_stuck:
  assumes st: "stuck chars u rs limit" and i: "0 < i" "i \<le> fr_body_start (hd rs)"
  shows "\<exists>j. adjust_for_fences chars u rs i limit = (j, Some (fr_carry (hd rs)))
     \<and> fr_body_start (hd rs) \<le> j \<and> j \<le> Suc (fr_body_start (hd rs))"
proof -
  let ?reg = "hd rs" and ?B = "fr_body_start (hd rs)"
  define lim where "lim = body_limit chars ?reg"
  note st' = st [unfolded stuck_def]
  have reg: "region_containing rs i = Some ?reg"
    using st' i by (cases rs) (auto simp: region_containing_def)
  have lim: "?B \<le> lim" using st' unfolding lim_def by (intro body_limit_ge) simp
  have "cost_of chars u ?B \<le> cost_of chars u (fr_end ?reg)" using st' by (intro cost_of_mono) simp
  then have big: "\<not> cost_of chars u (fr_end ?reg) \<le> limit" using st' by simp
  have small: "limit < cost_of chars u ?B" using st' by simp
  have cap: "cap_count u (limit - measure_text u (close_suffix (fr_carry ?reg))) 0 chars < ?B"
    using small by (intro cap_count_less) arith
  have nz: "(if i = 0 then min 1 (length chars) else i) = i" using i by simp
  have local: "boundary_within chars (Suc ?B) \<le> Suc ?B" by (rule boundary_within_le)
  show ?thesis
    unfolding adjust_for_fences_def Let_def nz reg option.case lim_def [symmetric]
    using big cap lim local st' i by (cases "lim = ?B") (auto simp: min_def max_def)
qed

lemma fence_loop_stuck:
  assumes "stuck chars u rs limit" "fr_body_start (hd rs) \<le> i" "i \<le> Suc (fr_body_start (hd rs))"
  shows "fence_loop chars u rs limit cc i carry = None"
proof -
  have "\<not> (stuck chars u rs limit \<and> fr_body_start (hd rs) \<le> i \<and> i \<le> Suc (fr_body_start (hd rs)))"
    if "fence_loop chars u rs limit cc i carry = Some y" for y
    using that
  proof (induction chars u rs limit cc i carry y rule: fence_loop.raw_induct [rotated, consumes 1])
    case (1 loop chars u rs limit cc i carry y)
    show ?case
    proof
      assume st: "stuck chars u rs limit \<and> fr_body_start (hd rs) \<le> i \<and> i \<le> Suc (fr_body_start (hd rs))"
      then have "cost_of chars u (fr_body_start (hd rs)) \<le> cost_of chars u i" by (intro cost_of_mono) simp
      then have over: "i > 0 \<and> cost_of chars u i + cc > limit" using st by (auto simp: stuck_def)
      let ?k = "max (boundary_within chars (i - 1)) 1"
      have k: "0 < ?k" "?k \<le> fr_body_start (hd rs)"
        using boundary_within_le [of chars "i - 1"] st by (auto simp: stuck_def)
      obtain j where j: "adjust_for_fences chars u rs ?k limit = (j, Some (fr_carry (hd rs)))"
          "fr_body_start (hd rs) \<le> j" "j \<le> Suc (fr_body_start (hd rs))"
        using adjust_stuck [OF conjunct1 [OF st] k] by auto
      have "loop chars u rs limit cc j (Some (fr_carry (hd rs))) = Some y"
        using "1"(2) over j(1) by simp
      from "1"(1) [OF this] show False using st j by simp
    qed
  qed
  with assms show ?thesis by (cases "fence_loop chars u rs limit cc i carry") auto
qed

lemma initial_cut_stuck:
  assumes st: "stuck chars u rs limit"
  shows "initial_cut chars limit u rs = None"
proof -
  let ?h = "min (max (cap_count u limit 0 chars) 1) (length chars)"
  let ?b = "boundary_within chars ?h"
  have ne: "chars \<noteq> []" using st by (auto simp: stuck_def)
  have "cap_count u limit 0 chars < fr_body_start (hd rs)"
    using st by (intro cap_count_less) (simp add: stuck_def)
  then have h: "?h \<le> fr_body_start (hd rs)" "0 < ?h" using ne by (auto simp: stuck_def)
  have b: "0 < ?b" "?b \<le> fr_body_start (hd rs)"
    using boundary_within_pos [OF h(2) ne] order_trans [OF boundary_within_le h(1)] by simp_all
  obtain j where j: "adjust_for_fences chars u rs ?b limit = (j, Some (fr_carry (hd rs)))"
      "fr_body_start (hd rs) \<le> j" "j \<le> Suc (fr_body_start (hd rs))"
    using adjust_stuck [OF st b] by auto
  show ?thesis
    using b(1) j(1) fence_loop_stuck [OF st j(2,3)] by (simp add: initial_cut_def Let_def)
qed

lemma long_opening_line:
  assumes "parse_fence_line line \<noteq> None" "10 \<notin> set line" "body \<noteq> []"
    and "limit < measure_text u line + 6" "limit < measure_text u (line @ 10 # body)"
  shows "split_message_chunk (line @ 10 # body) limit u = None"
proof -
  let ?m = "line @ 10 # body" and ?st = "\<lparr>remaining = line @ 10 # body, st_fence = None, st_table = None, st_inline = []\<rparr>"
  obtain reg rs where rs: "scan_fence_regions ?m None = reg # rs" "fr_start reg = 0"
      "fr_body_start reg = Suc (length line)" "Suc (length line) < fr_end reg" "fr_end reg \<le> length ?m"
    using scan_opening_line [OF assms(1-3)] by (elim exE conjE) (rule that)
  have cost: "cost_of ?m u (Suc (length line)) = Suc (measure_text u line)"
    by (simp add: cost_of_def char_cost_def split: len_unit.split)
  have st: "stuck ?m u (reg # rs) (limit - 5)"
    using rs(2-5) assms(4) by (simp add: stuck_def cost)
  have limit: "content_limit limit u ?st = limit - 5"
    by (simp add: content_limit_def chunk_prefix_def inline_reserve)
  have "find_split_point ?m (limit - 5) u None [] = None"
    by (simp add: find_split_point_def rs(1) initial_cut_stuck [OF st])
  moreover have "\<not> measure_text u ?m \<le> limit - 5" "\<not> measure_text u ?m \<le> limit"
    using assms(5) by linarith+
  ultimately have "chunk_step limit u ?st = None" "\<not> measure_text u ?m \<le> limit"
    by (simp_all add: chunk_step_def limit cut_piece_def del: measure_simps)
  moreover from this have "split_loop limit u ?st = None" by (subst split_loop.simps) simp
  ultimately show ?thesis by (simp add: split_message_chunk_def del: measure_simps)
qed
subsection \<open>Properties\<close>

text \<open>C6: The splitter ends on plain text (no run of three fence characters, no table bar) and every
  chunk is within the limit, markers closed and reopened around each cut included, in each of the
  three units, as soon as the limit is at least 14.\<close>

theorem split_within_limit:
  assumes "plain_text message" "14 \<le> limit"
  shows "\<exists>cs. split_message_chunk message limit u = Some cs \<and> (\<forall>c \<in> set cs. measure_text u c \<le> limit)"
  using split_plain [OF assms, of u] by (elim exE conjE) (intro exI conjI)

definition long_words :: utext where
  "long_words = replicate 20 97 @ [32, 42, 42] @ replicate 10 98"

lemma long_words_plain: "plain_text long_words"
proof -
  have "\<not> sublist (replicate 3 (x :: nat)) long_words" if "x \<notin> set long_words" for x
    using that set_mono_sublist [of "replicate 3 x" long_words] by auto
  then show ?thesis by (simp add: plain_text_def fence_free_def long_words_def)
qed

theorem split_within_limit_witness:
  "\<exists>cs. split_message_chunk long_words 14 Bytes = Some cs \<and> (\<forall>c \<in> set cs. measure_text Bytes c \<le> 14)"
  by (rule split_within_limit [OF long_words_plain]) simp



text \<open>C5: The splitter never returns on a message over the limit that starts with a fence whose opening
  line does not leave six units of the limit: the search for a cut inside the fence alternates
  between the opening line and the first character of the body for ever.\<close>

theorem long_fence_line_hangs:
  assumes "parse_fence_line line \<noteq> None" "10 \<notin> set line" "body \<noteq> []"
    and "limit < measure_text u line + 6" "limit < measure_text u (line @ 10 # body)"
  shows "split_message_chunk (line @ 10 # body) limit u = None"
  by (rule long_opening_line [OF assms])

theorem long_fence_line_hangs_witness:
  "split_message_chunk ((replicate 3 96 @ replicate 20 97) @ 10 # [96, 96, 96]) 20 Codepoints = None"
  by (rule long_fence_line_hangs)
    (simp_all add: parse_fence_line_def char_cost_def Let_def measure_text_def sum_list_replicate)

end
