(* ===== verification/Chunking_Fences.thy ===== *)
theory Chunking_Fences
  imports Chunking
begin

text \<open>
  A message that fits in one chunk (\<open>split_message_chunk\<close>, first branch): the fence left open at
  its end is closed.  The scan over regions is related to a fold over lines, which says what
  fence is open after a text.
\<close>

text \<open>The fence open after a line, and after a text.\<close>

definition line_step :: "fence_carry option \<Rightarrow> utext \<Rightarrow> fence_carry option" where
  "line_step op line =
     (case op of
        Some fc \<Rightarrow> if closes fc line then None else Some fc
      | None \<Rightarrow> map_option (\<lambda>fl. \<lparr>fc_marker = fl_marker fl, fc_len = fl_len fl,
                    fc_info = fence_info line fl\<rparr>) (parse_fence_line line))"

function open_after :: "utext \<Rightarrow> fence_carry option \<Rightarrow> fence_carry option" where
  "open_after s op =
     (if s = [] then op
      else let line = takeWhile (\<lambda>c. c \<noteq> 10) s in
        open_after (drop (Suc (length line)) s) (line_step op line))"
  by pat_completeness auto
termination
  by (relation "measure (\<lambda>(s, _). length s)") auto

declare open_after.simps [simp del]

lemma open_after_Nil [simp]: "open_after [] op = op"
  by (simp add: open_after.simps)

lemma parse_fence_line_valid:
  "parse_fence_line line = Some fl \<Longrightarrow> fl_marker fl \<in> {96, 126} \<and> fl_len fl \<ge> 3"
  by (auto simp: parse_fence_line_def Let_def split: if_splits)

definition trailing :: "fence_region list \<Rightarrow> fence_carry option" where
  "trailing rs = (if rs = [] \<or> fr_closed (last rs) then None else Some (fr_carry (last rs)))"

lemma scan_lines_trailing:
  "trailing (scan_lines i rest op) = open_after rest (map_option (\<lambda>(_, _, fc). fc) op)
   \<and> (scan_lines i rest op \<noteq> [] \<longrightarrow> fr_closed (last (scan_lines i rest op))
       \<or> fr_end (last (scan_lines i rest op)) = i + length rest)"
proof (induction "length rest" arbitrary: rest i op rule: less_induct)
  case less
  show ?case
  proof (cases "rest = []")
    case True
    then show ?thesis by (cases op) (auto simp: scan_lines.simps trailing_def)
  next
    case False
    define line where "line = takeWhile (\<lambda>c. c \<noteq> 10) rest"
    define rest' where "rest' = drop (Suc (length line)) rest"
    define after where "after = i + min (Suc (length line)) (length rest)"
    have after: "after + length rest' = i + length rest"
      using False by (auto simp: after_def rest'_def)
    have "length rest' < length rest" using False by (simp add: rest'_def)
    note IH = less.hyps [OF this, of after]
    have oa: "open_after rest o' = open_after rest' (line_step o' line)" for o'
      using False by (subst open_after.simps) (simp add: line_def rest'_def Let_def)
    show ?thesis
    proof (cases op)
      case None
      let ?next = "map_option (\<lambda>fl. (i, after, \<lparr>fc_marker = fl_marker fl, fc_len = fl_len fl,
        fc_info = fence_info line fl\<rparr>)) (parse_fence_line line)"
      have "scan_lines i rest op = scan_lines after rest' ?next"
        using False None parse_fence_line_valid [of line]
        by (subst scan_lines.simps)
          (auto simp: line_def [symmetric] rest'_def [symmetric] after_def [symmetric] Let_def
            split: option.split)
      moreover have "map_option (\<lambda>(_, _, fc). fc) ?next = line_step None line"
        by (cases "parse_fence_line line") (simp_all add: line_step_def)
      ultimately show ?thesis using IH [of ?next] after None oa by simp
    next
      case (Some t)
      obtain a b fc where t: "t = (a, b, fc)" by (rule prod_cases3)
      let ?reg = "\<lparr>fr_start = a, fr_body_start = b, fr_end = after, fr_closed = True, fr_carry = fc\<rparr>"
      have step: "scan_lines i rest op = (if closes fc line then ?reg # scan_lines after rest' None
          else scan_lines after rest' op)"
        using False Some t
        by (subst scan_lines.simps) (simp add: line_def rest'_def after_def Let_def)
      have ls: "line_step (Some fc) line = (if closes fc line then None else Some fc)"
        by (simp add: line_step_def)
      show ?thesis
      proof (cases "closes fc line")
        case True
        have "trailing (?reg # rs) = trailing rs" for rs by (simp add: trailing_def)
        then show ?thesis using IH [of None] True step ls oa Some t after by simp
      next
        case False
        then show ?thesis using IH [of op] step ls oa Some t after by simp
      qed
    qed
  qed
qed

lemma trailing_open_carry_eq: "trailing_open_carry s None = open_after s None"
proof -
  note * = scan_lines_trailing [of 0 s None]
  show ?thesis
  proof (cases "scan_lines 0 s None = [] \<or> fr_closed (last (scan_lines 0 s None))")
    case True
    then show ?thesis
      using * by (auto simp: trailing_open_carry_def scan_fence_regions_def trailing_def Let_def)
  next
    case False
    then show ?thesis
      using * by (simp add: trailing_open_carry_def scan_fence_regions_def trailing_def Let_def)
  qed
qed

lemma line_step_Nil [simp]: "line_step op [] = op"
  by (simp add: line_step_def closes_def parse_fence_line_def split: option.split)

lemma open_after_one: "10 \<notin> set s \<Longrightarrow> open_after s op = line_step op s"
proof (cases "s = []")
  case False
  assume "10 \<notin> set s"
  then have tw: "takeWhile (\<lambda>c. c \<noteq> 10) s = s" by (auto simp: takeWhile_eq_all_conv)
  show ?thesis using False by (subst open_after.simps) (simp add: tw Let_def)
qed simp

lemma open_after_line:
  "10 \<notin> set l \<Longrightarrow> open_after (l @ 10 # t) op = open_after t (line_step op l)"
proof -
  assume "10 \<notin> set l"
  then have "takeWhile (\<lambda>c. c \<noteq> 10) (l @ 10 # t) = l" by (subst takeWhile_append2) auto
  then show ?thesis by (subst open_after.simps) (simp add: Let_def)
qed

lemma split_at_newline:
  assumes "10 \<in> set (s :: utext)"
  obtains l r where "s = l @ 10 # r" "10 \<notin> set l"
  using split_list_first [OF assms] by (elim exE conjE) (rule that)

lemma open_after_append: "open_after (s @ 10 # t) op = open_after t (open_after s op)"
proof (induction "length s" arbitrary: s op rule: less_induct)
  case less
  show ?case
  proof (cases "10 \<in> set s")
    case True
    then obtain l r where s: "s = l @ 10 # r" "10 \<notin> set l" by (rule split_at_newline)
    then show ?thesis using less.hyps [of r] by (simp add: open_after_line)
  next
    case False
    then show ?thesis by (simp add: open_after_line open_after_one)
  qed
qed

definition indent :: "utext \<Rightarrow> nat" where
  "indent s = length (takeWhile (\<lambda>c. c = 32) (take 3 s))"

lemma length_takeWhile_take: "length (takeWhile P (take n xs)) = min n (length (takeWhile P xs))"
proof (induction xs arbitrary: n)
  case (Cons x xs)
  then show ?case by (cases n) auto
qed simp

lemma indent_snoc:
  assumes "indent s < length s"
  shows "indent (s @ [c]) = indent s"
proof (cases "\<forall>x \<in> set s. x = 32")
  case True
  then have k: "length (takeWhile (\<lambda>c. c = 32) (s @ t)) = length s + length (takeWhile (\<lambda>c. c = 32) t)" for t
    by (simp add: takeWhile_append2)
  show ?thesis using assms k [of "[c]"] k [of "[]"] by (simp add: indent_def length_takeWhile_take min_def split: if_splits)
next
  case False
  then obtain x where "x \<in> set s" "x \<noteq> 32" by auto
  then have "takeWhile (\<lambda>c. c = 32) (s @ [c]) = takeWhile (\<lambda>c. c = 32) s"
    by (intro takeWhile_append1) auto
  then show ?thesis unfolding indent_def length_takeWhile_take by simp
qed

lemma indent_all:
  assumes "\<not> indent s < length s"
  shows "s = replicate (length s) 32" "length s \<le> 3"
proof -
  have l: "length s \<le> min 3 (length (takeWhile (\<lambda>c. c = 32) s))"
    using assms by (simp only: indent_def length_takeWhile_take not_less)
  then show "length s \<le> 3" by simp
  have "takeWhile (\<lambda>c. c = 32) s = s"
    by (subst takeWhile_eq_take) (use l in simp)
  then have "\<forall>x \<in> set s. x = 32" by (simp add: takeWhile_eq_all_conv)
  then show "s = replicate (length s) 32" by (intro replicate_eqI) auto
qed

lemma parse_fence_line_snoc:
  assumes "c = 32 \<or> c = 9"
  shows "parse_fence_line (s @ [c])
    = map_option (\<lambda>fl. fl\<lparr>fl_info_end := length (s @ [c])\<rparr>) (parse_fence_line s)"
proof (cases "indent s < length s")
  case True
  define i where "i = indent s"
  define m where "m = s ! i"
  define n where "n = length (takeWhile (\<lambda>c. c = m) (drop i s))"
  have i: "i < length s" using True by (simp add: i_def)
  have m: "(s @ [c]) ! i = m" using i by (simp add: m_def nth_append)
  have d: "drop i (s @ [c]) = drop i s @ [c]" using i by simp
  have n: "m \<noteq> c \<Longrightarrow> length (takeWhile (\<lambda>c. c = m) (drop i s @ [c])) = n"
    by (simp add: n_def takeWhile_tail)
  have "n \<le> length s - i" unfolding n_def by (metis length_drop length_takeWhile_le)
  then have r: "drop (i + n) (s @ [c]) = drop (i + n) s @ [c]" using i by simp
  have all: "list_all (\<lambda>c. c = 32 \<or> c = 9) (l @ [c]) = list_all (\<lambda>c. c = 32 \<or> c = 9) l" for l
    using assms by auto
  have ls: "\<not> length (s @ [c]) \<le> i" "\<not> length s \<le> i" using i by simp_all
  show ?thesis
  proof (cases "m = 96 \<or> m = 126")
    case True
    then have mc: "m \<noteq> c" "c \<noteq> 96" using assms by auto
    show ?thesis
      unfolding parse_fence_line_def Let_def indent_def [symmetric] indent_snoc [OF \<open>indent s < length s\<close>]
        i_def [symmetric] m m_def [symmetric] d n_def [symmetric] n [OF mc(1)] r all
      using True mc(2) ls by auto
  next
    case False
    then show ?thesis
      unfolding parse_fence_line_def Let_def indent_def [symmetric] indent_snoc [OF \<open>indent s < length s\<close>]
        i_def [symmetric] m m_def [symmetric]
      using ls by simp
  qed
next
  case False
  note s = indent_all [OF False]
  have "parse_fence_line s = None"
    using False by (simp add: parse_fence_line_def indent_def [symmetric] Let_def)
  moreover have "parse_fence_line (replicate k 32 @ [c]) = None" if "k \<le> 3" for k
  proof -
    have "k = 0 \<or> k = 1 \<or> k = 2 \<or> k = 3" using that by auto
    then show ?thesis using assms
      by (elim disjE) (simp_all add: parse_fence_line_def numeral_eq_Suc)
  qed
  ultimately show ?thesis using s by (metis option.map_disc_iff)
qed

lemma line_step_snoc:
  assumes "c = 32 \<or> c = 9"
  shows "line_step op (s @ [c]) = line_step op s"
proof -
  have info: "fence_info (s @ [c]) (fl\<lparr>fl_info_end := length (s @ [c])\<rparr>) = fence_info s fl"
    if fl: "parse_fence_line s = Some fl" for fl
  proof -
    have e: "fl_info_end fl = length s" "fl_info_start fl \<le> length s"
      using fl length_takeWhile_le [of "\<lambda>c. c = s ! indent s" "drop (indent s) s"]
      by (auto simp: parse_fence_line_def indent_def [symmetric] Let_def split: if_splits)
    have "trim_matches (\<lambda>c. c = 32 \<or> c = 9) (t @ [c]) = trim_matches (\<lambda>c. c = 32 \<or> c = 9) t" for t
      using assms by (simp add: trim_matches_def trim_end_of_def)
    then show ?thesis using e by (simp add: fence_info_def)
  qed
  show ?thesis
    using info unfolding line_step_def closes_def parse_fence_line_snoc [OF assms]
    by (cases "parse_fence_line s") (auto split: option.split)
qed

lemma open_after_snoc:
  assumes "c \<in> {9, 10, 32}"
  shows "open_after (s @ [c]) op = open_after s op"
proof (cases "c = 10")
  case True
  then show ?thesis using open_after_append [of s "[]"] by simp
next
  case False
  show ?thesis
  proof (induction "length s" arbitrary: s op rule: less_induct)
    case less
    show ?case
    proof (cases "10 \<in> set s")
      case True
      then obtain l r where s: "s = l @ 10 # r" "10 \<notin> set l" by (rule split_at_newline)
      then show ?thesis using less.hyps [of r] by (simp add: open_after_line)
    next
      case no: False
      then have "10 \<notin> set (s @ [c])" using False by simp
      moreover have "line_step op (s @ [c]) = line_step op s"
        using assms False by (intro line_step_snoc) auto
      ultimately show ?thesis using no by (simp add: open_after_one)
    qed
  qed
qed

lemma open_after_blank: "set t \<subseteq> {9, 10, 32} \<Longrightarrow> open_after (s @ t) op = open_after s op"
proof (induction t arbitrary: s)
  case (Cons c t)
  then have "open_after ((s @ [c]) @ t) op = open_after (s @ [c]) op" by (intro Cons.IH) simp
  then show ?case using Cons.prems open_after_snoc [of c s op] by simp
qed simp

lemma trim_end_split: "\<exists>t. s = trim_end s @ t \<and> (\<forall>c \<in> set t. is_space c)"
proof -
  have "rev s = takeWhile is_space (rev s) @ dropWhile is_space (rev s)" by simp
  then have "s = trim_end s @ rev (takeWhile is_space (rev s))"
    unfolding trim_end_def trim_end_of_def by (metis rev_append rev_rev_ident)
  then show ?thesis by (intro exI conjI) (auto dest: set_takeWhileD)
qed

definition blanks_plain :: "utext \<Rightarrow> bool" where
  "blanks_plain s \<longleftrightarrow> list_all (\<lambda>c. is_space c \<longrightarrow> c \<in> {9, 10, 32}) s"

lemma open_after_trim_end:
  assumes "blanks_plain s"
  shows "open_after (trim_end s) op = open_after s op"
proof -
  obtain t where t: "s = trim_end s @ t" "\<forall>c \<in> set t. is_space c" using trim_end_split by blast
  then have "set t \<subseteq> set s" by (metis set_append sup_ge2)
  then have "set t \<subseteq> {9, 10, 32}" using t(2) assms by (auto simp: blanks_plain_def list_all_iff)
  from open_after_blank [OF this, of "trim_end s" op] t(1) show ?thesis by simp
qed

definition valid_carry :: "fence_carry \<Rightarrow> bool" where
  "valid_carry fc \<longleftrightarrow> fc_marker fc \<in> {96, 126} \<and> 3 \<le> fc_len fc"

lemma open_after_valid: "pred_option valid_carry op \<Longrightarrow> pred_option valid_carry (open_after s op)"
proof (induction s op rule: open_after.induct)
  case (1 s op)
  have "pred_option valid_carry (line_step op l)" for l
    using 1(2) parse_fence_line_valid [of l]
    by (cases "parse_fence_line l") (auto simp: line_step_def valid_carry_def split: option.split)
  then show ?case using 1 by (subst open_after.simps) (simp add: Let_def)
qed

lemma close_line: "valid_carry fc \<Longrightarrow> closes fc (replicate (fc_len fc) (fc_marker fc))"
proof -
  assume v: "valid_carry fc"
  let ?l = "replicate (fc_len fc) (fc_marker fc)"
  have "takeWhile (\<lambda>c. c = 32) (take 3 ?l) = []"
    using v by (cases "fc_len fc") (auto simp: valid_carry_def take_Cons')
  then show ?thesis
    using v by (auto simp: closes_def parse_fence_line_def valid_carry_def Let_def)
qed

lemma closed_short:
  assumes "blanks_plain s" "trailing_open_carry s None = Some fc"
  shows "trailing_open_carry (trim_end s @ close_suffix fc) None = None"
proof -
  let ?l = "replicate (fc_len fc) (fc_marker fc)"
  have op: "open_after s None = Some fc" using assms(2) by (simp add: trailing_open_carry_eq)
  then have v: "valid_carry fc" using open_after_valid [of None s] by simp
  have "open_after (trim_end s @ 10 # ?l) None = open_after ?l (Some fc)"
    using open_after_append op open_after_trim_end [OF assms(1)] by simp
  also have "\<dots> = line_step (Some fc) ?l"
    using v by (intro open_after_one) (auto simp: valid_carry_def)
  also have "\<dots> = None" using close_line [OF v] by (simp add: line_step_def)
  finally show ?thesis by (simp add: trailing_open_carry_eq close_suffix_def)
qed

subsection \<open>Text with carriage returns\<close>

lemma marker_in_line:
  assumes "parse_fence_line line = Some fl"
  shows "fl_marker fl \<in> set line"
proof -
  have "fl_marker fl = line ! indent line" "indent line < length line"
    using assms by (auto simp: parse_fence_line_def indent_def [symmetric] Let_def split: if_splits)
  then show ?thesis by simp
qed

lemma no_close: "96 \<notin> set s \<Longrightarrow> fc_marker fc = 96 \<Longrightarrow> open_after s (Some fc) = Some fc"
proof (induction "length s" arbitrary: s rule: less_induct)
  case less
  define line where "line = takeWhile (\<lambda>c. c \<noteq> 10) s"
  have "96 \<notin> set line" using less.prems(1) unfolding line_def by (auto dest: set_takeWhileD)
  moreover have "fl_marker fl \<in> set line" if "parse_fence_line line = Some fl" for fl
    using that by (rule marker_in_line)
  ultimately have keep: "line_step (Some fc) line = Some fc"
    using less.prems(2) by (auto simp: line_step_def closes_def split: option.split)
  show ?case
  proof (cases "s = []")
    case False
    have "open_after (drop (Suc (length line)) s) (Some fc) = Some fc"
      using False less.prems by (intro less.hyps) (auto dest: in_set_dropD)
    then show ?thesis using False keep by (subst open_after.simps) (simp add: line_def Let_def)
  qed simp
qed

lemma fence_lines:
  "line_step None [96, 96, 96, 13] = Some \<lparr>fc_marker = 96, fc_len = 3, fc_info = [13]\<rparr>"
  "line_step (Some \<lparr>fc_marker = 96, fc_len = 3, fc_info = [13]\<rparr>) [96, 96, 96, 13]
     = Some \<lparr>fc_marker = 96, fc_len = 3, fc_info = [13]\<rparr>"
  "line_step (Some \<lparr>fc_marker = 96, fc_len = 3, fc_info = [13]\<rparr>) [96, 96, 96] = None"
  "line_step None [96, 96, 96] = Some \<lparr>fc_marker = 96, fc_len = 3, fc_info = []\<rparr>"
  by (simp_all add: line_step_def closes_def parse_fence_line_def fence_info_def trim_matches_def
    trim_start_of_def trim_end_of_def)

subsection \<open>Properties\<close>

text \<open>A message that fits is sent as one chunk, and that chunk never leaves a code fence open:
  an unclosed fence is closed with a line of its own, provided there is room for it and the only
  white space of the text is the space, the tab and the newline.\<close>

theorem short_message_balanced:
  assumes "blanks_plain message" "measure_text u message \<le> limit"
    and "\<forall>fc. trailing_open_carry message None = Some fc \<longrightarrow>
           measure_text u (trim_end message @ close_suffix fc) \<le> limit"
  shows "\<exists>c. split_message_chunk message limit u = Some [c]
    \<and> measure_text u c \<le> limit \<and> trailing_open_carry c None = None"
proof (cases "trailing_open_carry message None")
  case None
  then show ?thesis using assms(2) by (simp add: split_message_chunk_def)
next
  case (Some fc)
  then show ?thesis
    using assms closed_short [OF assms(1) Some] by (simp add: split_message_chunk_def)
qed

definition open_block :: utext where
  "open_block = [96, 96, 96, 10, 120, 10]"

theorem short_message_balanced_witness:
  "\<exists>c. split_message_chunk open_block 10 Codepoints = Some [c]
    \<and> measure_text Codepoints c \<le> 10 \<and> trailing_open_carry c None = None"
proof (rule short_message_balanced)
  have carry: "trailing_open_carry open_block None = Some \<lparr>fc_marker = 96, fc_len = 3, fc_info = []\<rparr>"
    using open_after_line [of "[96, 96, 96]" "[120, 10]" None] fence_lines(4)
      no_close [of "[120, 10]" "\<lparr>fc_marker = 96, fc_len = 3, fc_info = []\<rparr>"]
    by (simp add: trailing_open_carry_eq open_block_def)
  show "blanks_plain open_block" by (simp add: blanks_plain_def open_block_def is_space_def)
  show "measure_text Codepoints open_block \<le> 10"
    by (simp add: open_block_def char_cost_def)
  show "\<forall>fc. trailing_open_carry open_block None = Some fc \<longrightarrow>
      measure_text Codepoints (trim_end open_block @ close_suffix fc) \<le> 10"
    unfolding carry by (simp add: open_block_def trim_end_def trim_end_of_def is_space_def
      close_suffix_def char_cost_def)
qed

text \<open>With carriage returns the repair breaks a correct block: a complete backtick block whose
  lines end in CR LF is taken to be open, because its closing line holds a carriage return, and
  the chunk that is sent ends inside a fence.\<close>

theorem crlf_block_left_open:
  assumes "96 \<notin> set body"
    and "measure_text u ([96, 96, 96, 13, 10] @ body @ [10, 96, 96, 96, 13, 10]) + 4 \<le> limit"
  shows "\<exists>c. split_message_chunk ([96, 96, 96, 13, 10] @ body @ [10, 96, 96, 96, 13, 10]) limit u
      = Some [c] \<and> trailing_open_carry c None \<noteq> None"
proof -
  let ?m = "[96, 96, 96, 13, 10] @ body @ [10, 96, 96, 96, 13, 10]"
  let ?fc = "\<lparr>fc_marker = 96, fc_len = 3, fc_info = [13]\<rparr> :: fence_carry"
  let ?c = "trim_end ?m @ close_suffix ?fc"
  have first: "open_after ([96, 96, 96, 13, 10] @ body @ 10 # t) None = open_after t (Some ?fc)" for t
    using open_after_line [of "[96, 96, 96, 13]" "body @ 10 # t" None] fence_lines(1)
      open_after_append [of body t "Some ?fc"] no_close [OF assms(1), of ?fc] by simp
  have carry: "trailing_open_carry ?m None = Some ?fc"
    using first [of "[96, 96, 96, 13, 10]"] open_after_line [of "[96, 96, 96, 13]" "[]" "Some ?fc"]
      fence_lines(2) by (simp add: trailing_open_carry_eq)
  have trim: "trim_end ?m = [96, 96, 96, 13, 10] @ body @ 10 # [96, 96, 96]"
    by (simp add: trim_end_def trim_end_of_def is_space_def)
  have c: "?c = [96, 96, 96, 13, 10] @ body @ 10 # ([96, 96, 96] @ 10 # [96, 96, 96])"
    unfolding trim by (simp add: close_suffix_def)
  have "trailing_open_carry ?c None = Some \<lparr>fc_marker = 96, fc_len = 3, fc_info = []\<rparr>"
    unfolding c trailing_open_carry_eq first
    using open_after_line [of "[96, 96, 96]" "[96, 96, 96]" "Some ?fc"]
      open_after_one [of "[96, 96, 96]" None] fence_lines(3,4) by simp
  moreover have "measure_text u (close_suffix ?fc) = 4"
    by (simp add: close_suffix_def char_cost_def split: len_unit.split)
  then have "measure_text u ?c \<le> limit" "measure_text u ?m \<le> limit"
    using assms(2) measure_trim_end [of u ?m] by (simp_all del: append.simps)
  ultimately show ?thesis
    using carry by (simp add: split_message_chunk_def del: append.simps measure_simps)
qed

theorem crlf_block_left_open_witness:
  "\<exists>c. split_message_chunk ([96, 96, 96, 13, 10] @ [120, 13] @ [10, 96, 96, 96, 13, 10]) 40 Codepoints
      = Some [c] \<and> trailing_open_carry c None \<noteq> None"
  by (rule crlf_block_left_open) (simp_all add: char_cost_def)

end
