(* ===== verification/Str_Utils.thy ===== *)
theory Str_Utils
  imports Unicode
begin

text \<open>
  \<open>str_utils.rs\<close>: truncation, neutralising of spoofing characters and the small YAML reader of skill
  and agent files.  Text is a list of code points.  Slicing a string can panic, so the results
  of the reader are runs; byte offsets are sums of UTF-8 lengths.
\<close>

subsection \<open>Truncation\<close>

definition char_offset :: "utext \<Rightarrow> nat \<Rightarrow> nat" where
  "char_offset s max_chars = measure_text Bytes (take max_chars s)"

definition truncate_chars :: "utext \<Rightarrow> nat \<Rightarrow> utext" where
  "truncate_chars s max_chars = take max_chars s"

text \<open>The subtraction wraps at 64 bits, as in the release profile.\<close>

definition truncate_line :: "utext \<Rightarrow> nat \<Rightarrow> utext" where
  "truncate_line s max_chars =
     (let first = (case text_lines s of [] \<Rightarrow> [] | l # _ \<Rightarrow> l) in
      if length first \<le> max_chars then first
      else truncate_chars first (nat ((int max_chars - 3) mod 2 ^ 64)) @ [46, 46, 46])"

subsection \<open>Spoofing characters\<close>

definition is_spoofing :: "nat \<Rightarrow> bool" where
  "is_spoofing c \<longleftrightarrow> (0x202A \<le> c \<and> c \<le> 0x202E) \<or> (0x2066 \<le> c \<and> c \<le> 0x2069)
     \<or> (0x200B \<le> c \<and> c \<le> 0x200D) \<or> c = 0xFEFF \<or> c = 0x2060"

definition hex_digit :: "nat \<Rightarrow> nat" where
  "hex_digit d = (if d < 10 then 48 + d else 55 + d)"

definition spoofing_marker :: "nat \<Rightarrow> utext" where
  "spoofing_marker c =
     [91, 85, 43] @ map (\<lambda>k. hex_digit (c div 16 ^ k mod 16)) [3, 2, 1, 0] @ [93]"

definition neutralize_spoofing :: "utext \<Rightarrow> utext" where
  "neutralize_spoofing s = concat (map (\<lambda>c. if is_spoofing c then spoofing_marker c else [c]) s)"

definition has_spoofing_chars :: "utext \<Rightarrow> bool" where
  "has_spoofing_chars s = list_ex is_spoofing s"

subsection \<open>Front matter and scalar values\<close>

definition parse_front_matter :: "utext \<Rightarrow> utext \<times> utext" where
  "parse_front_matter content =
     (let trimmed = trim content in
      if \<not> prefix [45, 45, 45] trimmed then ([], trimmed)
      else case str_find [10, 45, 45, 45] (drop 3 trimmed) of
        Some e \<Rightarrow> (trim (take e (drop 3 trimmed)), trim (drop (3 + e + 4) trimmed))
      | None \<Rightarrow> ([], trimmed))"

text \<open>\<open>&value[1..value.len() - 1]\<close> under the test for quotes: a lone quote starts and ends with a
  quote, and the slice from 1 to 0 panics.\<close>

definition unquote :: "utext \<Rightarrow> utext run" where
  "unquote v =
     (if v \<noteq> [] \<and> ((hd v = 34 \<and> last v = 34) \<or> (hd v = 39 \<and> last v = 39))
      then if length v < 2 then Panic else Ret (butlast (tl v))
      else Ret v)"

definition key_value :: "utext \<Rightarrow> utext \<Rightarrow> utext option" where
  "key_value k line = map_option trim (strip_prefix (k @ [58]) (trim line))"

primrec yaml_string_lines :: "utext \<Rightarrow> utext list \<Rightarrow> utext option run" where
  "yaml_string_lines k [] = Ret None"
| "yaml_string_lines k (line # ls) =
     (case key_value k line of
        Some v \<Rightarrow> map_run Some (unquote v)
      | None \<Rightarrow> yaml_string_lines k ls)"

definition extract_yaml_string :: "utext \<Rightarrow> utext \<Rightarrow> utext option run" where
  "extract_yaml_string yaml k = yaml_string_lines k (text_lines yaml)"

text \<open>No character outside ASCII has a lower case among the letters of the six words, so ASCII
  lower case decides the comparison.\<close>

definition yes_no :: "utext \<Rightarrow> bool option" where
  "yes_no v =
     (let w = map lower_cp v in
      if w \<in> {cps ''true'', cps ''yes'', cps ''on''} then Some True
      else if w \<in> {cps ''false'', cps ''no'', cps ''off''} then Some False
      else None)"

definition extract_yaml_bool :: "utext \<Rightarrow> utext \<Rightarrow> bool option run" where
  "extract_yaml_bool yaml k = map_run (\<lambda>o'. Option.bind o' yes_no) (extract_yaml_string yaml k)"

subsection \<open>Lists\<close>

definition inline_items :: "utext \<Rightarrow> utext list" where
  "inline_items rest =
     filter (\<lambda>s. s \<noteq> [])
       (map (\<lambda>s. trim_matches (\<lambda>c. c = 34 \<or> c = 39) (trim s))
         (split_on 44 (trim_matches (\<lambda>c. c = 91 \<or> c = 93) rest)))"

fun yaml_list_lines :: "utext \<Rightarrow> bool \<Rightarrow> utext list \<Rightarrow> utext list run" where
  "yaml_list_lines k in_list [] = Ret []"
| "yaml_list_lines k True (line # ls) =
     (let trimmed = trim line in
      case strip_prefix [45, 32] trimmed of
        Some item \<Rightarrow>
          bind_run (unquote (trim item)) (\<lambda>v. map_run (Cons v) (yaml_list_lines k True ls))
      | None \<Rightarrow>
          if trimmed \<noteq> [] \<and> hd trimmed \<noteq> 35 then Ret [] else yaml_list_lines k True ls)"
| "yaml_list_lines k False (line # ls) =
     (case key_value k line of
        None \<Rightarrow> yaml_list_lines k False ls
      | Some rest \<Rightarrow>
          if rest \<noteq> [] \<and> hd rest = 91 then Ret (inline_items rest)
          else yaml_list_lines k (rest = []) ls)"

definition extract_yaml_list :: "utext \<Rightarrow> utext \<Rightarrow> utext list run" where
  "extract_yaml_list yaml k = yaml_list_lines k False (text_lines yaml)"

subsection \<open>Blocks\<close>

definition starts_blank :: "utext \<Rightarrow> bool" where
  "starts_blank l \<longleftrightarrow> l \<noteq> [] \<and> is_space (hd l)"

definition opener_rest :: "utext \<Rightarrow> utext \<Rightarrow> utext option" where
  "opener_rest k line = strip_prefix (k @ [58]) (trim_end line)"

primrec join_lines :: "utext list \<Rightarrow> utext" where
  "join_lines [] = []"
| "join_lines (l # ls) = (if ls = [] then l else l @ 10 # join_lines ls)"

definition is_opener :: "utext \<Rightarrow> utext \<Rightarrow> bool" where
  "is_opener k line \<longleftrightarrow> (case opener_rest k line of Some rest \<Rightarrow> trim rest = [] | None \<Rightarrow> False)"

function strip_lines :: "utext \<Rightarrow> utext list \<Rightarrow> utext list" where
  "strip_lines k [] = []"
| "strip_lines k (line # ls) =
     (if starts_blank line \<or> \<not> is_opener k line then line # strip_lines k ls
      else strip_lines k (dropWhile (\<lambda>l. trim l = [] \<or> starts_blank l) ls))"
  by pat_completeness auto
termination
  by (relation "measure (\<lambda>(k, ls). length ls)") (auto simp: le_imp_less_Suc length_dropWhile_le)

definition strip_yaml_block :: "utext \<Rightarrow> utext \<Rightarrow> utext" where
  "strip_yaml_block yaml k = join_lines (strip_lines k (text_lines yaml))"

text \<open>\<open>next_line[indent..]\<close>: a panic inside a character.\<close>

fun drop_bytes :: "nat \<Rightarrow> utext \<Rightarrow> utext run" where
  "drop_bytes n s =
     (if n = 0 then Ret s
      else case s of
        [] \<Rightarrow> Panic
      | c # s' \<Rightarrow> if char_cost Bytes c \<le> n then drop_bytes (n - char_cost Bytes c) s' else Panic)"

declare drop_bytes.simps [simp del]

definition indent_of :: "utext \<Rightarrow> nat" where
  "indent_of l = measure_text Bytes l - measure_text Bytes (trim_start l)"

fun block_lines :: "nat option \<Rightarrow> utext list \<Rightarrow> utext list run" where
  "block_lines ind [] = Ret []"
| "block_lines ind (l # ls) =
     (if trim l = [] then map_run (Cons []) (block_lines ind ls)
      else
        let this = indent_of l; i = (case ind of Some i \<Rightarrow> i | None \<Rightarrow> this) in
        if this = 0 \<or> this < i then Ret []
        else bind_run (drop_bytes i l) (\<lambda>x. map_run (Cons x) (block_lines (Some i) ls)))"

primrec yaml_block_lines :: "utext \<Rightarrow> utext list \<Rightarrow> utext option run" where
  "yaml_block_lines k [] = Ret None"
| "yaml_block_lines k (line # ls) =
     (if starts_blank line then yaml_block_lines k ls
      else case opener_rest k line of
        None \<Rightarrow> yaml_block_lines k ls
      | Some rest \<Rightarrow>
          if trim rest \<noteq> [] then Ret None
          else map_run (\<lambda>b. if list_all (\<lambda>l. trim l = []) b then None else Some (join_lines b))
                 (block_lines None ls))"

definition extract_yaml_block :: "utext \<Rightarrow> utext \<Rightarrow> utext option run" where
  "extract_yaml_block yaml k = yaml_block_lines k (text_lines yaml)"

subsection \<open>Lemmas\<close>

lemma hex_digit_clean: "\<not> is_spoofing (hex_digit (n mod 16))"
proof -
  have "hex_digit (n mod 16) < 71" by (simp add: hex_digit_def)
  then show ?thesis by (auto simp: is_spoofing_def)
qed

lemma spoofing_append:
  "has_spoofing_chars (s @ t) \<longleftrightarrow> has_spoofing_chars s \<or> has_spoofing_chars t"
  by (simp add: has_spoofing_chars_def)

lemma spoofing_marker_clean: "\<not> has_spoofing_chars (spoofing_marker c)"
  using hex_digit_clean [of "c div 16 ^ 3"] hex_digit_clean [of "c div 16 ^ 2"]
    hex_digit_clean [of "c div 16 ^ 1"] hex_digit_clean [of "c div 16 ^ 0"]
  unfolding has_spoofing_chars_def spoofing_marker_def list.map list_ex_append
  by (simp only: list_ex_Cons_iff list_ex_Nil_iff simp_thms) (simp add: is_spoofing_def)

lemma neutralize_clean: "\<not> has_spoofing_chars (neutralize_spoofing s)"
proof (induction s)
  case (Cons c s)
  have "neutralize_spoofing (c # s)
      = (if is_spoofing c then spoofing_marker c else [c]) @ neutralize_spoofing s"
    by (simp add: neutralize_spoofing_def)
  moreover have "\<not> has_spoofing_chars (if is_spoofing c then spoofing_marker c else [c])"
    using spoofing_marker_clean [of c] by (simp add: has_spoofing_chars_def)
  ultimately show ?case using Cons by (simp only: spoofing_append simp_thms)
qed (simp add: neutralize_spoofing_def has_spoofing_chars_def)

lemma neutralize_id: "\<not> has_spoofing_chars s \<Longrightarrow> neutralize_spoofing s = s"
  by (induction s) (auto simp: neutralize_spoofing_def has_spoofing_chars_def)

lemma unquote_panics: "unquote v = Panic \<longleftrightarrow> v = [34] \<or> v = [39]"
  by (cases v; cases "tl v") (auto simp: unquote_def)

text \<open>The value a scalar lookup reads: that of the first line with the key.\<close>

definition first_value :: "utext \<Rightarrow> utext \<Rightarrow> utext option" where
  "first_value yaml k = first_some (key_value k) (text_lines yaml)"

lemma yaml_string_lines_eq:
  "yaml_string_lines k ls =
     (case first_some (key_value k) ls of None \<Rightarrow> Ret None | Some v \<Rightarrow> map_run Some (unquote v))"
  by (induction ls) (simp_all split: option.split)

lemma extract_yaml_string_eq:
  "extract_yaml_string yaml k =
     (case first_value yaml k of None \<Rightarrow> Ret None | Some v \<Rightarrow> map_run Some (unquote v))"
  by (simp add: extract_yaml_string_def first_value_def yaml_string_lines_eq)

subsection \<open>Properties\<close>

text \<open>Neutralised text holds no spoofing character (no bidirectional control, zero-width
  character, byte order mark or word joiner), and exactly the text without any is left as it is.\<close>

theorem neutralize_spoofing_correct:
  "\<not> has_spoofing_chars (neutralize_spoofing s)
    \<and> (neutralize_spoofing s = s \<longleftrightarrow> \<not> has_spoofing_chars s)"
  using neutralize_clean [of s] neutralize_id [of s] by metis

text \<open>Reading a scalar of the front matter panics exactly when the first line with that key has a
  lone quote character as its value.\<close>

theorem yaml_lone_quote_panics:
  "extract_yaml_string yaml k = Panic \<longleftrightarrow> first_value yaml k \<in> {Some [34], Some [39]}"
  by (cases "first_value yaml k") (simp_all add: extract_yaml_string_eq unquote_panics)

end
