(* ===== verification/Chat_Message.thy ===== *)
theory Chat_Message
  imports Unicode
begin

text \<open>
  \<open>providers/capability_chat.rs\<close>: the messages of a conversation.  A message is text (code points)
  and media parts with a role; an assistant message may call tools, a tool message answers a
  call by its id.
\<close>

datatype content_part =
    Text_Part utext
  | File_Part utext "utext option" "utext option" "nat option"
  | Thinking_Part utext "utext option"

record tool_call =
  call_id :: utext
  call_name :: utext
  call_arguments :: utext

record message_usage =
  mu_provider :: "utext option"
  mu_model :: "utext option"
  mu_input_tokens :: "nat option"
  mu_cached_input_tokens :: "nat option"
  mu_output_tokens :: "nat option"
  mu_reasoning_tokens :: "nat option"
  mu_cache_write_tokens :: "nat option"
  mu_stop_reason :: "utext option"

record chat_message =
  cm_role :: string
  cm_parts :: "content_part list"
  cm_name :: "utext option"
  cm_tool_call_id :: "utext option"
  cm_tool_calls :: "tool_call list option"
  cm_is_error :: "bool option"
  cm_model :: "utext option"
  cm_usage :: "message_usage option"

definition text_message :: "string \<Rightarrow> utext \<Rightarrow> chat_message" where
  "text_message r t =
     \<lparr>cm_role = r, cm_parts = [Text_Part t], cm_name = None, cm_tool_call_id = None,
      cm_tool_calls = None, cm_is_error = None, cm_model = None, cm_usage = None\<rparr>"

definition user_text :: "utext \<Rightarrow> chat_message" where "user_text = text_message ''user''"
definition assistant_text :: "utext \<Rightarrow> chat_message" where "assistant_text = text_message ''assistant''"
definition system_text :: "utext \<Rightarrow> chat_message" where "system_text = text_message ''system''"

fun part_text :: "content_part \<Rightarrow> utext" where
  "part_text (Text_Part t) = t"
| "part_text _ = []"

definition text_content :: "chat_message \<Rightarrow> utext" where
  "text_content m = concat (map part_text (cm_parts m))"

subsection \<open>Calls and roles\<close>

text \<open>The calls of a message, an absent list being an empty one; what the code asks of roles.\<close>

definition calls_of :: "chat_message \<Rightarrow> tool_call list" where
  "calls_of m = (case cm_tool_calls m of Some cs \<Rightarrow> cs | None \<Rightarrow> [])"

definition call_ids :: "chat_message \<Rightarrow> utext set" where
  "call_ids m = call_id ` set (calls_of m)"

abbreviation is_user :: "chat_message \<Rightarrow> bool" where
  "is_user m \<equiv> cm_role m = ''user''"

abbreviation is_assistant :: "chat_message \<Rightarrow> bool" where
  "is_assistant m \<equiv> cm_role m = ''assistant''"

abbreviation is_tool :: "chat_message \<Rightarrow> bool" where
  "is_tool m \<equiv> cm_role m = ''tool''"

lemma message_simps [simp]:
  "cm_role (text_message r t) = r" "cm_parts (text_message r t) = [Text_Part t]"
  "cm_tool_calls (text_message r t) = None" "cm_tool_call_id (text_message r t) = None"
  "cm_role (user_text t) = ''user''" "cm_role (assistant_text t) = ''assistant''"
  "cm_role (system_text t) = ''system''"
  "cm_tool_calls (user_text t) = None" "cm_tool_calls (assistant_text t) = None"
  "cm_tool_calls (system_text t) = None"
  "cm_tool_call_id (user_text t) = None" "cm_tool_call_id (assistant_text t) = None"
  by (simp_all add: text_message_def user_text_def assistant_text_def system_text_def)

lemma text_content_text [simp]: "text_content (text_message r t) = t"
  by (simp add: text_content_def)

lemma calls_of_text [simp]:
  "calls_of (text_message r t) = []" "calls_of (user_text t) = []" "calls_of (assistant_text t) = []"
  by (simp_all add: calls_of_def)

end
