(* ===== verification/Media.thy ===== *)
theory Media
  imports Chat_Message
begin

text \<open>
  \<open>providers/media.rs\<close>: what kind of media a file part is, whether a model takes it inline or as a
  text marker, and where a path of the conversation is found on disk.  The file system and the
  working directory are an environment; paths are those of a Unix system.
\<close>

record fs_env =
  fs_cwd :: utext
  fs_data_dir :: "utext option"
  fs_read :: "utext \<Rightarrow> nat list option"
  fs_size :: "utext \<Rightarrow> nat option"

subsection \<open>Paths\<close>

text \<open>\<open>Path::components\<close> without the root, \<open>Path::extension\<close> and \<open>PathBuf::join\<close>.\<close>

definition path_components :: "utext \<Rightarrow> utext list" where
  "path_components p = filter (\<lambda>s. s \<noteq> [] \<and> s \<noteq> [46]) (split_on 47 p)"

definition is_absolute :: "utext \<Rightarrow> bool" where
  "is_absolute p \<longleftrightarrow> p \<noteq> [] \<and> hd p = 47"

definition join_path :: "utext \<Rightarrow> utext \<Rightarrow> utext" where
  "join_path base p =
     (if is_absolute p then p
      else if base = [] \<or> last base = 47 then base @ p else base @ 47 # p)"

definition file_extension :: "utext \<Rightarrow> utext" where
  "file_extension p =
     (let cs = path_components p in
      if cs = [] \<or> last cs = [46, 46] then []
      else case rposition (\<lambda>c. c = 46) (last cs) of
        None \<Rightarrow> []
      | Some i \<Rightarrow> if i = 0 then [] else drop (Suc i) (last cs))"

function trim_start_pat :: "utext \<Rightarrow> utext \<Rightarrow> utext" where
  "trim_start_pat pat s =
     (if pat \<noteq> [] \<and> prefix pat s then trim_start_pat pat (drop (length pat) s) else s)"
  by pat_completeness auto
termination
  by (relation "measure (\<lambda>(pat, s). length s)") (auto simp: prefix_def)

declare trim_start_pat.simps [simp del]

definition is_session_media_path :: "utext \<Rightarrow> bool" where
  "is_session_media_path path =
     (let normalized = trim_start_pat [46, 47] (map (\<lambda>c. if c = 92 then 47 else c) path);
          segs = split_on 47 normalized
      in if list_ex (\<lambda>s. s = [46, 46] \<or> s = [46]) segs then False
         else case segs of
           a # i # f # name # _ \<Rightarrow>
             a = cps ''sessions'' \<and> i \<noteq> [] \<and> f = cps ''files'' \<and> name \<noteq> []
         | _ \<Rightarrow> False)"

definition resolve_path_with_dir :: "fs_env \<Rightarrow> utext \<Rightarrow> utext \<Rightarrow> utext" where
  "resolve_path_with_dir E path data_dir =
     (if is_absolute path then path
      else if is_session_media_path path then join_path data_dir path
      else join_path (fs_cwd E) path)"

definition resolve_path :: "fs_env \<Rightarrow> utext \<Rightarrow> utext" where
  "resolve_path E path =
     (if is_absolute path then path
      else if is_session_media_path path then
        (case fs_data_dir E of Some d \<Rightarrow> join_path d path | None \<Rightarrow> join_path (fs_cwd E) path)
      else join_path (fs_cwd E) path)"

subsection \<open>Modality\<close>

datatype file_modality = Image | Audio | Video | Other

definition bytes_at :: "nat \<Rightarrow> string \<Rightarrow> nat list \<Rightarrow> bool" where
  "bytes_at i s bytes \<longleftrightarrow> length bytes \<ge> i + length s \<and> take (length s) (drop i bytes) = cps s"

definition sniff_modality_from_bytes :: "nat list \<Rightarrow> file_modality" where
  "sniff_modality_from_bytes bytes =
     (if length bytes < 4 then Other
      else if prefix [0xFF, 0xD8, 0xFF] bytes then Image
      else if prefix [0x89, 0x50, 0x4E, 0x47] bytes then Image
      else if bytes_at 0 ''GIF87a'' bytes \<or> bytes_at 0 ''GIF89a'' bytes then Image
      else if bytes_at 0 ''RIFF'' bytes \<and> bytes_at 8 ''WEBP'' bytes then Image
      else if prefix [0x42, 0x4D] bytes then Image
      else if bytes_at 0 ''ID3'' bytes
        \<or> (bytes ! 0 = 0xFF \<and> bytes ! 1 div 32 mod 8 = 7) then Audio
      else if bytes_at 0 ''OggS'' bytes then Audio
      else if bytes_at 0 ''RIFF'' bytes \<and> bytes_at 8 ''WAVE'' bytes then Audio
      else if bytes_at 0 ''fLaC'' bytes then Audio
      else if bytes_at 4 ''ftyp'' bytes \<and> length bytes \<ge> 12 then Video
      else if prefix [0x1A, 0x45, 0xDF, 0xA3] bytes then Video
      else Other)"

definition sniff_modality_from_path :: "fs_env \<Rightarrow> utext \<Rightarrow> file_modality" where
  "sniff_modality_from_path E path =
     (case fs_read E (resolve_path E path) of
        None \<Rightarrow> Other | Some bytes \<Rightarrow> sniff_modality_from_bytes bytes)"

definition mime_modality :: "utext \<Rightarrow> file_modality option" where
  "mime_modality mime =
     (let m = map lower_cp (trim (takeWhile (\<lambda>c. c \<noteq> 59) mime)) in
      if prefix (cps ''image/'') m then Some Image
      else if prefix (cps ''audio/'') m then Some Audio
      else if prefix (cps ''video/'') m then Some Video
      else None)"

definition modality_from_mime :: "fs_env \<Rightarrow> utext option \<Rightarrow> utext \<Rightarrow> file_modality" where
  "modality_from_mime E mime path =
     (case Option.bind mime mime_modality of
        Some m \<Rightarrow> m
      | None \<Rightarrow>
          (let ext = map lower_cp (file_extension path) in
           if ext \<in> set (map cps [''jpg'', ''jpeg'', ''png'', ''gif'', ''webp'', ''bmp'']) then Image
           else if ext \<in> set (map cps [''ogg'', ''mp3'', ''wav'', ''flac'', ''m4a'', ''aac'']) then Audio
           else if ext \<in> set (map cps [''mp4'', ''webm'', ''mov'', ''mkv'']) then Video
           else sniff_modality_from_path E path))"

fun modality_word :: "file_modality \<Rightarrow> string" where
  "modality_word Image = ''image''"
| "modality_word Audio = ''audio''"
| "modality_word Video = ''video''"
| "modality_word Other = ''file''"

definition marker_for_file :: "fs_env \<Rightarrow> utext \<Rightarrow> utext option \<Rightarrow> utext" where
  "marker_for_file E path mime =
     91 # cps (modality_word (modality_from_mime E mime path)) @ [58, 32] @ path @ [93]"

fun age_part :: "fs_env \<Rightarrow> content_part \<Rightarrow> content_part" where
  "age_part E (File_Part path mime name sz) = Text_Part (marker_for_file E path mime)"
| "age_part E p = p"

fun is_file :: "content_part \<Rightarrow> bool" where
  "is_file (File_Part _ _ _ _) = True"
| "is_file _ = False"

definition age_media_in_message :: "fs_env \<Rightarrow> chat_message \<Rightarrow> bool \<times> chat_message" where
  "age_media_in_message E m =
     (list_ex is_file (cm_parts m), m\<lparr>cm_parts := map (age_part E) (cm_parts m)\<rparr>)"

subsection \<open>Inline or marker\<close>

datatype media_transport = Marker_Transport | Inline_Base64

datatype marker_reason = Model_Unsupported | Protocol_Unsupported | Size_Exceeded

datatype inline_decision = Inline | Marker marker_reason

record input_policy =
  model_supports :: bool
  transport :: media_transport
  max_inline_bytes :: "nat option"

definition marker_policy :: "bool \<Rightarrow> input_policy" where
  "marker_policy s = \<lparr>model_supports = s, transport = Marker_Transport, max_inline_bytes = None\<rparr>"

definition inline_base64 :: "bool \<Rightarrow> nat option \<Rightarrow> input_policy" where
  "inline_base64 s mx = \<lparr>model_supports = s, transport = Inline_Base64, max_inline_bytes = mx\<rparr>"

definition decision :: "input_policy \<Rightarrow> nat option \<Rightarrow> inline_decision" where
  "decision p sz =
     (if \<not> model_supports p then Marker Model_Unsupported
      else if transport p \<noteq> Inline_Base64 then Marker Protocol_Unsupported
      else case (max_inline_bytes p, sz) of
        (Some mx, Some n) \<Rightarrow> if n > mx then Marker Size_Exceeded else Inline
      | _ \<Rightarrow> Inline)"

record media_policy =
  mp_image :: input_policy
  mp_audio :: input_policy
  mp_video :: input_policy
  mp_other :: input_policy

datatype protocol = Chat_Completions | Messages | Generate_Content | Responses

text \<open>\<open>for_protocol_model\<close>; the three flags are what the model takes as input.\<close>

definition megabytes :: "nat \<Rightarrow> nat" where
  "megabytes n = n * 1024 * 1024"

definition from_model_support :: "bool \<Rightarrow> bool \<Rightarrow> bool \<Rightarrow> media_policy" where
  "from_model_support img aud vid =
     \<lparr>mp_image = inline_base64 img (Some (megabytes 25)), mp_audio = marker_policy aud,
      mp_video = marker_policy vid, mp_other = marker_policy False\<rparr>"

definition for_protocol_model :: "protocol \<Rightarrow> bool \<Rightarrow> bool \<Rightarrow> bool \<Rightarrow> media_policy" where
  "for_protocol_model pr img aud vid =
     (if pr = Messages then
        \<lparr>mp_image = inline_base64 img (Some (megabytes 25)), mp_audio = marker_policy aud,
         mp_video = marker_policy vid, mp_other = marker_policy False\<rparr>
      else
        \<lparr>mp_image = inline_base64 img (Some (megabytes 25)),
         mp_audio = inline_base64 aud (Some (megabytes 25)),
         mp_video = inline_base64 vid (Some (megabytes 50)), mp_other = marker_policy False\<rparr>)"

definition decision_for :: "media_policy \<Rightarrow> file_modality \<Rightarrow> nat option \<Rightarrow> inline_decision" where
  "decision_for p m sz =
     decision (case m of Image \<Rightarrow> mp_image p | Audio \<Rightarrow> mp_audio p | Video \<Rightarrow> mp_video p
                       | Other \<Rightarrow> mp_other p) sz"

subsection \<open>Lowering\<close>

definition lower_file_part ::
  "fs_env \<Rightarrow> media_policy \<Rightarrow> utext \<Rightarrow> utext option \<Rightarrow> utext option \<Rightarrow> nat option \<Rightarrow> content_part" where
  "lower_file_part E p path mime name sz =
     (case decision_for p (modality_from_mime E mime path) sz of
        Inline \<Rightarrow> File_Part path mime name sz
      | Marker _ \<Rightarrow> Text_Part (marker_for_file E path mime))"

fun lower_part :: "fs_env \<Rightarrow> media_policy \<Rightarrow> content_part \<Rightarrow> content_part" where
  "lower_part E p (File_Part path mime name sz) = lower_file_part E p path mime name sz"
| "lower_part E p other = other"

definition lower_media_for :: "fs_env \<Rightarrow> media_policy \<Rightarrow> chat_message list \<Rightarrow> chat_message list option" where
  "lower_media_for E p ms =
     (if \<not> list_ex (\<lambda>m. list_ex is_file (cm_parts m)) ms then None
      else Some (map (\<lambda>m. if \<not> list_ex is_file (cm_parts m) then m
                          else m\<lparr>cm_parts := map (lower_part E p) (cm_parts m)\<rparr>) ms))"

text \<open>\<open>MediaLoweringProvider::chat\<close>: the messages the wrapped provider is asked with.\<close>

definition lowered_request :: "fs_env \<Rightarrow> media_policy \<Rightarrow> chat_message list \<Rightarrow> chat_message list" where
  "lowered_request E p ms = (case lower_media_for E p ms of None \<Rightarrow> ms | Some l \<Rightarrow> l)"

subsection \<open>Splitting at a separator\<close>

lemma takeWhile_stop: "d \<notin> set x \<Longrightarrow> takeWhile (\<lambda>c. c \<noteq> d) (x @ d # t) = x"
  by (subst takeWhile_append2) auto

lemma split_on_iff:
  "x \<in> set (split_on d s) \<longleftrightarrow>
     d \<notin> set x \<and> (\<exists>a b. s = a @ x @ b \<and> (a = [] \<or> last a = d) \<and> (b = [] \<or> hd b = d))"
proof (induction "length s" arbitrary: s rule: less_induct)
  case less
  define l where "l = takeWhile (\<lambda>c. c \<noteq> d) s"
  have dl: "d \<notin> set l" unfolding l_def by (auto dest: set_takeWhileD)
  show ?case
  proof (cases "drop (length l) s = []")
    case True
    then have s: "l = s" unfolding l_def
      by (metis append_Nil2 append_take_drop_id takeWhile_eq_take)
    have "split_on d s = [s]"
      using True s by (subst split_on.simps) (simp add: l_def [symmetric] Let_def)
    moreover have "x = s" if "s = a @ x @ b" "a = [] \<or> last a = d" "b = [] \<or> hd b = d" for a b
      using that dl s by (cases a rule: rev_cases; cases b) auto
    moreover have "\<exists>a b. s = a @ s @ b \<and> (a = [] \<or> last a = d) \<and> (b = [] \<or> hd b = d)"
      by (intro exI [of _ "[]"]) simp
    ultimately show ?thesis using dl s by auto
  next
    case False
    then obtain c r where cr: "drop (length l) s = c # r" by (cases "drop (length l) s") auto
    have s: "s = l @ c # r" using cr by (metis append_take_drop_id l_def takeWhile_eq_take)
    have "dropWhile (\<lambda>c. c \<noteq> d) s = c # r" using cr by (simp add: dropWhile_eq_drop l_def)
    then have "c = d" using hd_dropWhile [of "\<lambda>c. c \<noteq> d" s] by simp
    then have s: "s = l @ d # r" using s by simp
    have step: "split_on d s = l # split_on d r"
      using False cr by (subst split_on.simps) (auto simp: l_def [symmetric] Let_def)
    have IH: "x \<in> set (split_on d r) \<longleftrightarrow>
        d \<notin> set x \<and> (\<exists>a b. r = a @ x @ b \<and> (a = [] \<or> last a = d) \<and> (b = [] \<or> hd b = d))"
      using s by (intro less.hyps) simp
    show ?thesis
    proof
      assume "x \<in> set (split_on d s)"
      then consider "x = l" | "x \<in> set (split_on d r)" unfolding step by auto
      then show "d \<notin> set x \<and> (\<exists>a b. s = a @ x @ b \<and> (a = [] \<or> last a = d) \<and> (b = [] \<or> hd b = d))"
      proof cases
        case 1
        then show ?thesis using dl s by (intro conjI exI [of _ "[]"] exI [of _ "d # r"]) auto
      next
        case 2
        then obtain a b where ab: "d \<notin> set x" "r = a @ x @ b" "a = [] \<or> last a = d" "b = [] \<or> hd b = d"
          using IH by auto
        then show ?thesis using s
          by (intro conjI exI [of _ "l @ d # a"] exI [of _ b]) auto
      qed
    next
      assume "d \<notin> set x \<and> (\<exists>a b. s = a @ x @ b \<and> (a = [] \<or> last a = d) \<and> (b = [] \<or> hd b = d))"
      then obtain a b where ab: "d \<notin> set x" "s = a @ x @ b" "a = [] \<or> last a = d" "b = [] \<or> hd b = d"
        by auto
      show "x \<in> set (split_on d s)"
      proof (cases "length a \<le> length l")
        case True
        have "a = []"
        proof (rule ccontr)
          assume "a \<noteq> []"
          then have "d \<in> set a" using ab(3) by (metis last_in_set)
          moreover have "a = take (length a) l" using ab(2) s True
            by (metis append_eq_append_conv_if append_take_drop_id take_append)
          ultimately show False using dl by (metis in_set_takeD)
        qed
        then have "x @ b = l @ d # r" using ab(2) s by simp
        moreover have "takeWhile (\<lambda>c. c \<noteq> d) (l @ d # r) = l" using dl by (rule takeWhile_stop)
        ultimately have "takeWhile (\<lambda>c. c \<noteq> d) (x @ b) = l" by simp
        moreover have "takeWhile (\<lambda>c. c \<noteq> d) (x @ b) = x"
          using ab(1,4) by (cases b) (auto simp: takeWhile_eq_all_conv takeWhile_stop)
        ultimately show ?thesis by (simp add: step)
      next
        case False
        then have "length a = Suc (length l + (length a - Suc (length l)))" by simp
        moreover have "a = take (length a) (l @ d # r)" using ab(2) s by (metis append_eq_conv_conj)
        ultimately have "a = l @ d # take (length a - Suc (length l)) r"
          by (metis add_Suc_right add_diff_cancel_left' append_take_drop_id diff_Suc_Suc take_Suc_Cons take_add take_all_iff
            le_add1 same_append_eq take_append)
        then obtain a' where a': "a = l @ d # a'" by blast
        then have "r = a' @ x @ b" using ab(2) s by simp
        moreover have "a' = [] \<or> last a' = d" using ab(3) a' by (cases "a' = []") auto
        ultimately show ?thesis using IH ab step by auto
      qed
    qed
  qed
qed


lemma split_on_dotdot:
  assumes "[46, 46] \<in> set (split_on 47 s)"
  shows "[46, 46] \<in> set (split_on 47 (map (\<lambda>c. if c = 92 then 47 else c) s))"
proof -
  let ?f = "\<lambda>c. if c = 92 then 47 else (c :: nat)"
  obtain a b where ab: "s = a @ [46, 46] @ b" "a = [] \<or> last a = 47" "b = [] \<or> hd b = 47"
    using assms unfolding split_on_iff by auto
  have "map ?f s = map ?f a @ [46, 46] @ map ?f b" using ab(1) by simp
  moreover have "map ?f a = [] \<or> last (map ?f a) = 47" using ab(2) by (cases "a = []") (auto simp: last_map)
  moreover have "map ?f b = [] \<or> hd (map ?f b) = 47" using ab(3) by (cases b) auto
  ultimately show ?thesis unfolding split_on_iff by auto
qed

lemma split_on_trim:
  assumes "[46, 46] \<in> set (split_on 47 s)"
  shows "[46, 46] \<in> set (split_on 47 (trim_start_pat [46, 47] s))"
  using assms
proof (induction "[46, 47] :: utext" s rule: trim_start_pat.induct)
  case (1 s)
  show ?case
  proof (cases "prefix [46, 47] s")
    case True
    then obtain r where s: "s = 46 # 47 # r" by (auto simp: prefix_def)
    have "split_on 47 s = [46] # split_on 47 r"
      by (subst split_on.simps) (simp add: s Let_def)
    then have "[46, 46] \<in> set (split_on 47 r)" using 1(2) by simp
    then have "[46, 46] \<in> set (split_on 47 (trim_start_pat [46, 47] r))"
      using 1(1) True s by simp
    then show ?thesis using True s by (subst trim_start_pat.simps) simp
  next
    case False
    then show ?thesis using 1(2) by (subst trim_start_pat.simps) simp
  qed
qed

lemma session_media_no_dotdot:
  assumes "is_session_media_path p"
  shows "[46, 46] \<notin> set (path_components p)"
proof
  assume "[46, 46] \<in> set (path_components p)"
  then have "[46, 46] \<in> set (split_on 47 p)" by (simp add: path_components_def)
  define segs where "segs = split_on 47 (trim_start_pat [46, 47] (map (\<lambda>c. if c = 92 then 47 else c) p))"
  have "[46, 46] \<in> set segs"
    unfolding segs_def using \<open>[46, 46] \<in> set (split_on 47 p)\<close> by (intro split_on_trim split_on_dotdot)
  then have "list_ex (\<lambda>s. s = [46, 46] \<or> s = [46]) segs" unfolding list_ex_iff by blast
  then have "\<not> is_session_media_path p"
    unfolding is_session_media_path_def Let_def segs_def [symmetric] by (simp only: if_True not_False_eq_True)
  with assms show False by simp
qed

subsection \<open>Properties\<close>

text \<open>A session-media path stays below the data directory: it is resolved to a path that starts
  with the data directory and has no parent component, so no file outside is reached.\<close>

theorem session_media_confined:
  assumes "is_session_media_path path" "\<not> is_absolute path"
  shows "resolve_path_with_dir E path d = join_path d path
    \<and> prefix d (join_path d path) \<and> [46, 46] \<notin> set (path_components path)"
  using assms session_media_no_dotdot [OF assms(1)]
  by (simp add: resolve_path_with_dir_def join_path_def)

definition sample_fs :: fs_env where
  "sample_fs = \<lparr>fs_cwd = cps ''/'', fs_data_dir = None, fs_read = \<lambda>_. None, fs_size = \<lambda>_. None\<rparr>"

theorem session_media_confined_witness:
  "resolve_path_with_dir sample_fs
      (cps ''sessions/a/files/b.png'') (cps ''/data'') = join_path (cps ''/data'') (cps ''sessions/a/files/b.png'')
    \<and> prefix (cps ''/data'') (join_path (cps ''/data'') (cps ''sessions/a/files/b.png''))
    \<and> [46, 46] \<notin> set (path_components (cps ''sessions/a/files/b.png''))"
  by (rule session_media_confined)
    (simp_all add: is_session_media_path_def is_absolute_def cps_def trim_start_pat.simps
      split_on.simps Let_def)

end
