(* ===== verification/Tokens.thy ===== *)
theory Tokens
  imports Media
begin

text \<open>
  \<open>providers/tokens.rs\<close>: how many tokens a text, a file part, a message and a whole request are
  estimated at, and the tracker that adds the usage the provider reported to what is pending.
  Counters are 64-bit: \<open>saturating_add\<close> and the wrapping \<open>+\<close> of a release build are written out.
\<close>

definition u64_max :: nat where "u64_max = 2 ^ 64 - 1"

definition sat_add :: "nat \<Rightarrow> nat \<Rightarrow> nat" where
  "sat_add a b = (if a + b \<le> u64_max then a + b else u64_max)"

definition wrap_add :: "nat \<Rightarrow> nat \<Rightarrow> nat" where
  "wrap_add a b = (a + b) mod 2 ^ 64"

subsection \<open>Text\<close>

definition is_cjk :: "nat \<Rightarrow> bool" where
  "is_cjk c \<longleftrightarrow> (0x4E00 \<le> c \<and> c \<le> 0x9FFF) \<or> (0x3400 \<le> c \<and> c \<le> 0x4DBF)
     \<or> (0x3040 \<le> c \<and> c \<le> 0x30FF) \<or> (0xAC00 \<le> c \<and> c \<le> 0xD7AF) \<or> (0xFF00 \<le> c \<and> c \<le> 0xFFEF)"

definition div_ceil :: "nat \<Rightarrow> nat \<Rightarrow> nat" where
  "div_ceil n d = (n + d - 1) div d"

fun count_chars :: "utext \<Rightarrow> nat \<Rightarrow> nat \<Rightarrow> nat \<times> nat" where
  "count_chars [] cjk other = (cjk, other)"
| "count_chars (c # s) cjk other =
     (if is_cjk c then count_chars s (cjk + 1) other
      else count_chars s cjk (other + char_cost Bytes c))"

definition estimate_tokens :: "utext \<Rightarrow> nat" where
  "estimate_tokens s = (case count_chars s 0 0 of (cjk, other) \<Rightarrow> cjk + div_ceil other 4)"

subsection \<open>Parts, messages and requests\<close>

definition resolve_file_size :: "fs_env \<Rightarrow> utext \<Rightarrow> nat option \<Rightarrow> nat option" where
  "resolve_file_size E path sz =
     (case sz of Some n \<Rightarrow> Some n | None \<Rightarrow> fs_size E (resolve_path E path))"

definition estimate_file_part_tokens ::
  "fs_env \<Rightarrow> utext \<Rightarrow> utext option \<Rightarrow> nat option \<Rightarrow> media_policy option \<Rightarrow> nat" where
  "estimate_file_part_tokens E path mime sz policy =
     (let size' = resolve_file_size E path sz in
      case (case policy of
              Some p \<Rightarrow> decision_for p (modality_from_mime E mime path) size'
            | None \<Rightarrow> Marker Model_Unsupported) of
        Inline \<Rightarrow>
          estimate_tokens path + 12 + (case size' of Some n \<Rightarrow> n | None \<Rightarrow> 0) div 3
      | Marker _ \<Rightarrow> estimate_tokens (marker_for_file E path mime) + 4)"

fun estimate_part :: "fs_env \<Rightarrow> media_policy option \<Rightarrow> content_part \<Rightarrow> nat" where
  "estimate_part E policy (Text_Part t) = estimate_tokens t"
| "estimate_part E policy (File_Part path mime name sz) = estimate_file_part_tokens E path mime sz policy"
| "estimate_part E policy (Thinking_Part t sig) = estimate_tokens t"

definition estimate_message_tokens_with_media ::
  "fs_env \<Rightarrow> media_policy option \<Rightarrow> chat_message \<Rightarrow> nat" where
  "estimate_message_tokens_with_media E policy m =
     4 + sum_list (map (estimate_part E policy) (cm_parts m))
     + sum_list (map (\<lambda>tc. estimate_tokens (call_id tc) + estimate_tokens (call_name tc)
                          + estimate_tokens (call_arguments tc) + 8) (calls_of m))
     + (case cm_tool_call_id m of Some i \<Rightarrow> estimate_tokens i + 4 | None \<Rightarrow> 0)"

definition estimate_message_tokens :: "fs_env \<Rightarrow> chat_message \<Rightarrow> nat" where
  "estimate_message_tokens E m = estimate_message_tokens_with_media E None m"

definition estimate_history_tokens_with_media ::
  "fs_env \<Rightarrow> utext \<Rightarrow> chat_message list \<Rightarrow> media_policy option \<Rightarrow> nat" where
  "estimate_history_tokens_with_media E system_prompt history policy =
     (if system_prompt = [] then 0 else estimate_tokens system_prompt + 4)
     + sum_list (map (estimate_message_tokens_with_media E policy) history)"

definition estimate_history_tokens :: "fs_env \<Rightarrow> utext \<Rightarrow> chat_message list \<Rightarrow> nat" where
  "estimate_history_tokens E system_prompt history =
     estimate_history_tokens_with_media E system_prompt history None"

subsection \<open>The tracker\<close>

record token_tracker =
  last_input_tokens :: nat
  last_cached_tokens :: nat
  last_output_tokens :: nat
  pending_estimated_tokens :: nat

definition new_tracker :: token_tracker where
  "new_tracker = \<lparr>last_input_tokens = 0, last_cached_tokens = 0, last_output_tokens = 0,
                  pending_estimated_tokens = 0\<rparr>"

definition update_from_usage :: "nat \<Rightarrow> nat \<Rightarrow> nat \<Rightarrow> token_tracker \<Rightarrow> token_tracker" where
  "update_from_usage inp out cached t =
     t\<lparr>last_input_tokens := inp, last_output_tokens := out, last_cached_tokens := cached,
       pending_estimated_tokens := 0\<rparr>"

definition record_pending :: "nat \<Rightarrow> token_tracker \<Rightarrow> token_tracker" where
  "record_pending n t =
     t\<lparr>pending_estimated_tokens := wrap_add (pending_estimated_tokens t) n\<rparr>"

definition seed_from_history :: "fs_env \<Rightarrow> utext \<Rightarrow> chat_message list \<Rightarrow> token_tracker \<Rightarrow> token_tracker" where
  "seed_from_history E system_prompt history t =
     record_pending (estimate_history_tokens E system_prompt history) t"

definition total_tokens :: "token_tracker \<Rightarrow> nat" where
  "total_tokens t =
     sat_add (sat_add (sat_add (last_input_tokens t) (last_cached_tokens t)) (last_output_tokens t))
       (pending_estimated_tokens t)"

definition is_fresh :: "token_tracker \<Rightarrow> bool" where
  "is_fresh t \<longleftrightarrow> last_input_tokens t = 0 \<and> last_cached_tokens t = 0 \<and> pending_estimated_tokens t = 0"

definition adjust_for_compaction :: "nat \<Rightarrow> nat \<Rightarrow> token_tracker \<Rightarrow> token_tracker" where
  "adjust_for_compaction removed added t =
     (let net_reduction = removed - added;
          from_pending = min net_reduction (pending_estimated_tokens t)
      in t\<lparr>pending_estimated_tokens := pending_estimated_tokens t - from_pending,
           last_input_tokens := last_input_tokens t - (net_reduction - from_pending)\<rparr>)"

definition is_write_tool :: "utext \<Rightarrow> bool" where
  "is_write_tool name \<longleftrightarrow> name \<in> set (map cps [''shell'', ''shell_kill'', ''file_write'', ''file_edit'',
     ''file_delete'', ''agent_delegate'', ''agent_kill'', ''http''])"

subsection \<open>Facts\<close>

lemma count_chars_acc:
  "count_chars s a b = (a + length (filter is_cjk s), b + measure_text Bytes (filter (\<lambda>c. \<not> is_cjk c) s))"
  by (induction s a b rule: count_chars.induct) auto

lemma estimate_tokens_eq:
  "estimate_tokens s =
     length (filter is_cjk s) + div_ceil (measure_text Bytes (filter (\<lambda>c. \<not> is_cjk c) s)) 4"
  by (simp add: estimate_tokens_def count_chars_acc)

lemma div_ceil_add: "0 < d \<Longrightarrow> div_ceil (a + b) d \<le> div_ceil a d + div_ceil b d"
proof -
  assume d: "0 < d"
  have *: "n \<le> d * div_ceil n d" for n
  proof -
    have "n + d - 1 < d * ((n + d - 1) div d) + d" using d
      by (metis add_less_cancel_left mod_less_divisor mult_div_mod_eq)
    then show ?thesis using d unfolding div_ceil_def by linarith
  qed
  have "a + b + d - 1 < d * (div_ceil a d + div_ceil b d + 1)"
    using * [of a] * [of b] d by (simp add: algebra_simps)
  then have "(a + b + d - 1) div d < div_ceil a d + div_ceil b d + 1"
    using d by (simp add: div_less_iff_less_mult mult.commute)
  then show ?thesis unfolding div_ceil_def by simp
qed

lemma div_ceil_mono: "a \<le> b \<Longrightarrow> div_ceil a d \<le> div_ceil b d"
  unfolding div_ceil_def by (simp add: div_le_mono)

lemma estimate_tokens_append: "estimate_tokens (s @ t) \<le> estimate_tokens s + estimate_tokens t"
  using div_ceil_add [of 4] by (simp add: estimate_tokens_eq add_mono)

lemma estimate_tokens_mono: "prefix s t \<Longrightarrow> estimate_tokens s \<le> estimate_tokens t"
  by (auto simp: prefix_def estimate_tokens_eq intro!: add_mono div_ceil_mono)

lemma estimate_message_pos: "4 \<le> estimate_message_tokens_with_media E p m"
  by (simp add: estimate_message_tokens_with_media_def)

lemma sat_add_min: "sat_add a b = min u64_max (a + b)"
  by (simp add: sat_add_def min_def)

lemma total_tokens_eq:
  "total_tokens t = min u64_max (last_input_tokens t + last_cached_tokens t + last_output_tokens t
     + pending_estimated_tokens t)"
  by (simp add: total_tokens_def sat_add_min)

lemma adjust_fields:
  "last_cached_tokens (adjust_for_compaction r a t) = last_cached_tokens t"
  "last_output_tokens (adjust_for_compaction r a t) = last_output_tokens t"
  "pending_estimated_tokens (adjust_for_compaction r a t)
     = pending_estimated_tokens t - min (r - a) (pending_estimated_tokens t)"
  "last_input_tokens (adjust_for_compaction r a t)
     = last_input_tokens t - ((r - a) - min (r - a) (pending_estimated_tokens t))"
  by (simp_all add: adjust_for_compaction_def Let_def)

text \<open>What a request is estimated at is what its lowered messages cost: a file that stays inline its
  payload, a file that became a marker the text of the marker and a framing of four tokens.\<close>

fun lowered_cost :: "fs_env \<Rightarrow> content_part \<Rightarrow> content_part \<Rightarrow> nat" where
  "lowered_cost E (File_Part path mime name sz) (Text_Part t) = estimate_tokens t + 4"
| "lowered_cost E p (Text_Part t) = estimate_tokens t"
| "lowered_cost E p (Thinking_Part t sig) = estimate_tokens t"
| "lowered_cost E p (File_Part path mime name sz) =
     estimate_tokens path + 12 + (case sz of Some n \<Rightarrow> n | None \<Rightarrow> 0) div 3"

fun size_recorded :: "content_part \<Rightarrow> bool" where
  "size_recorded (File_Part path mime name sz) \<longleftrightarrow> sz \<noteq> None"
| "size_recorded _ \<longleftrightarrow> True"

lemma estimate_part_lowered:
  "size_recorded q \<Longrightarrow> estimate_part E (Some p) q = lowered_cost E q (lower_part E p q)"
  by (cases q)
    (auto simp: estimate_file_part_tokens_def resolve_file_size_def lower_file_part_def Let_def
      split: inline_decision.split)

subsection \<open>Properties\<close>

text \<open>The estimate of a history is the cost of the request that is really sent: when every file part
  records its size, the parts of each message count as much as the parts that
  \<open>MediaLoweringProvider\<close> makes of them under the same policy, file by file.\<close>

theorem estimate_agrees_with_lowering:
  assumes "\<forall>m \<in> set ms. \<forall>q \<in> set (cm_parts m). size_recorded q"
  shows "map (\<lambda>m. sum_list (map (estimate_part E (Some p)) (cm_parts m))) ms
    = map2 (\<lambda>m l. sum_list (map2 (lowered_cost E) (cm_parts m) (cm_parts l))) ms (lowered_request E p ms)"
proof -
  have keep: "map (lower_part E p) qs = qs" if "\<not> list_ex is_file qs" for qs
  proof (rule map_idI)
    fix q assume "q \<in> set qs"
    with that show "lower_part E p q = q" by (cases q) (auto simp: list_ex_iff)
  qed
  have lowered: "lowered_request E p ms = map (\<lambda>m. m\<lparr>cm_parts := map (lower_part E p) (cm_parts m)\<rparr>) ms"
    unfolding lowered_request_def lower_media_for_def
    by (auto simp: list_ex_iff keep intro!: map_idI [symmetric])
  have part: "map (estimate_part E (Some p)) qs = map2 (lowered_cost E) qs (map (lower_part E p) qs)"
    if "\<forall>q \<in> set qs. size_recorded q" for qs
    using that by (induction qs) (simp_all add: estimate_part_lowered)
  show ?thesis
    unfolding lowered using assms by (induction ms) (simp_all add: part)
qed

theorem estimate_agrees_with_lowering_witness:
  "map (\<lambda>m. sum_list (map (estimate_part sample_fs (Some (for_protocol_model Messages True True True))) (cm_parts m)))
      [user_text (cps ''hi'')\<lparr>cm_parts := [File_Part (cps ''/a.png'') None None (Some 30), Text_Part (cps ''hi'')]\<rparr>]
    = map2 (\<lambda>m l. sum_list (map2 (lowered_cost sample_fs) (cm_parts m) (cm_parts l)))
      [user_text (cps ''hi'')\<lparr>cm_parts := [File_Part (cps ''/a.png'') None None (Some 30), Text_Part (cps ''hi'')]\<rparr>]
      (lowered_request sample_fs (for_protocol_model Messages True True True)
        [user_text (cps ''hi'')\<lparr>cm_parts := [File_Part (cps ''/a.png'') None None (Some 30), Text_Part (cps ''hi'')]\<rparr>])"
  by (rule estimate_agrees_with_lowering) simp

text \<open>With the size unrecorded the two disagree: the estimate looks the size up on disk and prices a
  large picture as a short marker, while the request carries the whole file inline, because the
  lowering uses the recorded size only.\<close>

theorem unrecorded_size_sent_inline:
  assumes "fs_size E (resolve_path E path) = Some n" "n > megabytes 25"
    and "Option.bind mime mime_modality = Some Image"
  shows "estimate_part E (Some (for_protocol_model pr True aud vid)) (File_Part path mime name None)
      = estimate_tokens (marker_for_file E path mime) + 4
    \<and> lower_part E (for_protocol_model pr True aud vid) (File_Part path mime name None)
      = File_Part path mime name None"
  using assms
  by (simp add: estimate_file_part_tokens_def resolve_file_size_def lower_file_part_def
      for_protocol_model_def decision_for_def decision_def inline_base64_def modality_from_mime_def)

theorem unrecorded_size_sent_inline_witness:
  "\<exists>E. estimate_part E (Some (for_protocol_model Responses True True True))
        (File_Part (cps ''/a.png'') (Some (cps ''image/png'')) None None)
      = estimate_tokens (marker_for_file E (cps ''/a.png'') (Some (cps ''image/png''))) + 4
    \<and> lower_part E (for_protocol_model Responses True True True)
        (File_Part (cps ''/a.png'') (Some (cps ''image/png'')) None None)
      = File_Part (cps ''/a.png'') (Some (cps ''image/png'')) None None"
  by (rule exI [of _ "\<lparr>fs_cwd = cps ''/'', fs_data_dir = None, fs_read = \<lambda>_. None, fs_size = \<lambda>_. Some (megabytes 30)\<rparr>"],
      rule unrecorded_size_sent_inline [where n = "megabytes 30"])
    (simp_all add: megabytes_def mime_modality_def cps_def trim_def trim_start_def trim_end_def
      trim_start_of_def trim_end_of_def is_space_def lower_cp_def Let_def)

text \<open>After a compaction the tracker's total falls by exactly the net number of tokens removed,
  pending estimates first, and never below what the other counters hold: the total of the
  counters that may shrink is the old one less the reduction.\<close>

theorem adjust_for_compaction_exact:
  "last_input_tokens (adjust_for_compaction r a t) + pending_estimated_tokens (adjust_for_compaction r a t)
      = (last_input_tokens t + pending_estimated_tokens t) - (r - a)
    \<and> last_cached_tokens (adjust_for_compaction r a t) = last_cached_tokens t
    \<and> last_output_tokens (adjust_for_compaction r a t) = last_output_tokens t
    \<and> total_tokens (adjust_for_compaction r a t) \<le> total_tokens t"
  unfolding total_tokens_eq adjust_fields
  by (intro conjI min.mono) (simp_all add: min_def algebra_simps)

end
