(* ===== verification/Work_Unit.thy ===== *)
theory Work_Unit
  imports Tokens
begin

text \<open>
  \<open>scheduling_runtime/work_unit.rs\<close>: a history is cut into work units - an assistant message, the
  user message before it and the tool results after it - and a compaction boundary is the user
  start of a unit.  Indexing and slicing out of range panics.
\<close>

record work_unit =
  wu_user_start :: nat
  wu_start :: nat
  wu_end :: nat

subsection \<open>Extraction\<close>

text \<open>The inner loop: consume the tool messages that answer a call; the index of the first message
  that does not, and of the last that does.\<close>

definition answers :: "utext set \<Rightarrow> chat_message \<Rightarrow> bool" where
  "answers ids m \<longleftrightarrow> is_tool m \<and> (case cm_tool_call_id m of Some t \<Rightarrow> t \<in> ids | None \<Rightarrow> False)"

function consume_results :: "utext set \<Rightarrow> chat_message list \<Rightarrow> nat \<Rightarrow> nat \<Rightarrow> nat \<times> nat" where
  "consume_results ids h j e =
     (if j < length h \<and> answers ids (h ! j) then consume_results ids h (Suc j) j else (j, e))"
  by pat_completeness auto
termination
  by (relation "measure (\<lambda>(ids, h, j, e). length h - j)") auto

declare consume_results.simps [simp del]

lemma consume_ge: "j \<le> fst (consume_results ids h j e)"
proof (induction ids h j e rule: consume_results.induct)
  case (1 ids h j e)
  then show ?case by (subst consume_results.simps) (auto intro: Suc_leD)
qed

definition unit_user_start :: "chat_message list \<Rightarrow> nat \<Rightarrow> nat" where
  "unit_user_start h i = (case rposition is_user (take i h) of Some u \<Rightarrow> u | None \<Rightarrow> i)"

function units_from :: "chat_message list \<Rightarrow> nat \<Rightarrow> work_unit list" where
  "units_from h i =
     (if i < length h then
        if \<not> is_assistant (h ! i) then units_from h (Suc i)
        else if call_ids (h ! i) = {} then
          \<lparr>wu_user_start = unit_user_start h i, wu_start = i, wu_end = i\<rparr> # units_from h (Suc i)
        else \<lparr>wu_user_start = unit_user_start h i, wu_start = i,
               wu_end = snd (consume_results (call_ids (h ! i)) h (Suc i) i)\<rparr>
             # units_from h (fst (consume_results (call_ids (h ! i)) h (Suc i) i))
      else [])"
  by pat_completeness auto
termination
proof (relation "measure (\<lambda>(h, i). length h - i)", goal_cases)
  case (4 h i)
  then show ?case
    using consume_ge [of "Suc i" "call_ids (h ! i)" h i] by (simp add: diff_less_mono2 Suc_le_eq)
qed auto

declare units_from.simps [simp del]

definition extract_work_units :: "chat_message list \<Rightarrow> work_unit list" where
  "extract_work_units h = units_from h 0"

subsection \<open>Boundaries\<close>

definition find_compaction_boundary :: "chat_message list \<Rightarrow> nat \<Rightarrow> nat run" where
  "find_compaction_boundary h retain_count =
     (if length h \<le> 1 then Ret (length h)
      else
        let units = extract_work_units h in
        if length units \<le> retain_count then Ret (length h)
        else if retain_count = 0 then Panic
        else Ret (wu_user_start (units ! (length units - retain_count))))"

definition slice_tokens :: "fs_env \<Rightarrow> chat_message list \<Rightarrow> nat \<Rightarrow> nat \<Rightarrow> nat" where
  "slice_tokens E h a b = sum_list (map (estimate_message_tokens E) (drop a (take b h)))"

function budget_loop ::
  "fs_env \<Rightarrow> chat_message list \<Rightarrow> nat \<Rightarrow> work_unit list \<Rightarrow> nat \<Rightarrow> nat \<Rightarrow> nat \<Rightarrow> nat option \<Rightarrow> nat option run"
where
  "budget_loop E h budget units max_count k prefix_tokens best =
     (if max_count < k then Ret best
      else if length units \<le> k then Panic
      else
        let prev = (if k = 1 then 0 else wu_user_start (units ! (k - 1)));
            boundary = wu_user_start (units ! k) in
        if boundary < prev \<or> length h < boundary then Panic
        else
          let tokens = prefix_tokens + slice_tokens E h prev boundary in
          if tokens \<le> budget
          then budget_loop E h budget units max_count (Suc k) tokens (Some boundary)
          else Ret best)"
  by pat_completeness auto
termination
  by (relation "measure (\<lambda>(E, h, budget, units, m, k, t, b). Suc m - k)") auto

declare budget_loop.simps [simp del]

definition find_compaction_boundary_for_budget ::
  "fs_env \<Rightarrow> chat_message list \<Rightarrow> nat \<Rightarrow> nat \<Rightarrow> nat option run" where
  "find_compaction_boundary_for_budget E h compress_budget retain_work_units =
     (let units = extract_work_units h in
      if length units \<le> retain_work_units then Ret None
      else budget_loop E h compress_budget units (length units - retain_work_units) 1 0 None)"

subsection \<open>What a unit is\<close>

text \<open>The indices of a unit: the assistant message, the last user message before it (or itself), and
  answers of its own calls up to the end.\<close>

definition unit_ok :: "chat_message list \<Rightarrow> work_unit \<Rightarrow> bool" where
  "unit_ok h u \<longleftrightarrow>
     wu_start u < length h \<and> is_assistant (h ! wu_start u)
     \<and> wu_user_start u = unit_user_start h (wu_start u)
     \<and> wu_start u \<le> wu_end u \<and> wu_end u < length h
     \<and> (\<forall>j. wu_start u < j \<longrightarrow> j \<le> wu_end u \<longrightarrow> answers (call_ids (h ! wu_start u)) (h ! j))"

lemma consume_spec:
  assumes "consume_results ids h j e = (j', e')"
  shows "\<forall>k. j \<le> k \<longrightarrow> k < j' \<longrightarrow> k < length h \<and> answers ids (h ! k)"
    and "e' = (if j' = j then e else j' - 1)"
  using assms
proof (induction ids h j e rule: consume_results.induct)
  case (1 ids h j e)
  { case 1
    show ?case
    proof (cases "j < length h \<and> answers ids (h ! j)")
      case True
      then have eq: "consume_results ids h (Suc j) j = (j', e')"
        using 1 by (subst (asm) consume_results.simps) simp
      have IH: "\<forall>k. Suc j \<le> k \<longrightarrow> k < j' \<longrightarrow> k < length h \<and> answers ids (h ! k)"
        by (rule "1.IH"(1) [OF True eq])
      show ?thesis
      proof (intro allI impI)
        fix k assume "j \<le> k" "k < j'"
        then show "k < length h \<and> answers ids (h ! k)"
          using IH True by (cases "k = j") auto
      qed
    next
      case False
      then show ?thesis using 1 by (subst (asm) consume_results.simps) auto
    qed }
  { case 2
    show ?case
    proof (cases "j < length h \<and> answers ids (h ! j)")
      case True
      then have eq: "consume_results ids h (Suc j) j = (j', e')"
        using 2 by (subst (asm) consume_results.simps) simp
      then have "Suc j \<le> j'" using consume_ge [of "Suc j" ids h j] by simp
      then show ?thesis using "1.IH"(2) [OF True eq] by (auto split: if_splits)
    next
      case False
      then show ?thesis using 2 by (subst (asm) consume_results.simps) auto
    qed }
qed

lemma filter_upt_skip:
  "i < j \<Longrightarrow> j \<le> n \<Longrightarrow> P i \<Longrightarrow> (\<And>k. i < k \<Longrightarrow> k < j \<Longrightarrow> \<not> P k) \<Longrightarrow>
   filter P [i..<n] = i # filter P [j..<n]"
proof -
  assume a: "i < j" "j \<le> n" "P i" "\<And>k. i < k \<Longrightarrow> k < j \<Longrightarrow> \<not> P k"
  have "[i..<n] = i # [Suc i..<j] @ [j..<n]"
    using a(1,2) upt_add_eq_append [of "Suc i" j "n - j"] by (simp add: upt_conv_Cons)
  moreover have "filter P [Suc i..<j] = []" using a(4) by (auto simp: filter_empty_conv)
  ultimately show ?thesis using a(3) by simp
qed

lemma units_from_spec:
  "list_all (unit_ok h) (units_from h i)
   \<and> map wu_start (units_from h i) = filter (\<lambda>k. is_assistant (h ! k)) [i..<length h]
   \<and> sorted_wrt (\<lambda>u v. wu_end u < wu_start v) (units_from h i)
   \<and> (\<forall>u \<in> set (units_from h i). i \<le> wu_start u)"
proof (induction h i rule: units_from.induct)
  case (1 h i)
  show ?case
  proof (cases "i < length h")
    case False
    then show ?thesis by (subst (1 2 3 4) units_from.simps) simp
  next
    case i: True
    consider (skip) "\<not> is_assistant (h ! i)" | (plain) "is_assistant (h ! i)" "call_ids (h ! i) = {}"
      | (round) "is_assistant (h ! i)" "call_ids (h ! i) \<noteq> {}" by blast
    then show ?thesis
    proof cases
      case skip
      have step: "units_from h i = units_from h (Suc i)"
        using i skip by (subst units_from.simps) simp
      show ?thesis unfolding step using "1.IH"(1) [OF i skip] i skip
        by (auto simp: upt_conv_Cons intro: Suc_leD)
    next
      case plain
      have step: "units_from h i =
          \<lparr>wu_user_start = unit_user_start h i, wu_start = i, wu_end = i\<rparr> # units_from h (Suc i)"
        using i plain by (subst units_from.simps) simp
      show ?thesis unfolding step using "1.IH"(2) [OF i] plain i
        by (auto simp: upt_conv_Cons unit_ok_def Suc_le_eq intro: less_imp_le)
    next
      case round
      obtain j e where je: "consume_results (call_ids (h ! i)) h (Suc i) i = (j, e)" by fastforce
      have step: "units_from h i =
          \<lparr>wu_user_start = unit_user_start h i, wu_start = i, wu_end = e\<rparr> # units_from h j"
        using i round je by (subst units_from.simps) simp
      have ij: "Suc i \<le> j" using consume_ge [of "Suc i" "call_ids (h ! i)" h i] je by simp
      note sp = consume_spec [OF je]
      have jl: "j \<le> length h"
      proof (cases "j = Suc i")
        case False
        then have "Suc i \<le> j - 1" "j - 1 < j" using ij by simp_all
        then have "j - 1 < length h" using sp(1) by blast
        then show ?thesis by simp
      qed (use i in simp)
      have e: "e = j - 1" "i \<le> e" using sp(2) ij by auto
      have el: "e < length h" using e ij jl i by simp
      have ans: "\<forall>k. i < k \<longrightarrow> k \<le> e \<longrightarrow> answers (call_ids (h ! i)) (h ! k)"
      proof (intro allI impI)
        fix k assume "i < k" "k \<le> e"
        then show "answers (call_ids (h ! i)) (h ! k)" using sp(1) e(1) ij by simp
      qed
      have "\<not> is_assistant (h ! k)" if "i < k" "k < j" for k
        using sp(1) that by (auto simp: answers_def)
      then have "filter (\<lambda>k. is_assistant (h ! k)) [i..<length h] =
          i # filter (\<lambda>k. is_assistant (h ! k)) [j..<length h]"
        using ij jl round(1) by (intro filter_upt_skip) auto
      moreover have "unit_ok h \<lparr>wu_user_start = unit_user_start h i, wu_start = i, wu_end = e\<rparr>"
        unfolding unit_ok_def using i round e(2) el ans by simp
      moreover have IH: "list_all (unit_ok h) (units_from h j)"
        "map wu_start (units_from h j) = filter (\<lambda>k. is_assistant (h ! k)) [j..<length h]"
        "sorted_wrt (\<lambda>u v. wu_end u < wu_start v) (units_from h j)"
        "\<forall>u \<in> set (units_from h j). j \<le> wu_start u"
        using "1.IH"(3) [OF i] round je by simp_all
      moreover have "\<forall>u \<in> set (units_from h j). e < wu_start u \<and> i \<le> wu_start u"
        using IH(4) e ij by fastforce
      ultimately show ?thesis unfolding step using IH by simp
    qed
  qed
qed

lemma extract_ok: "u \<in> set (extract_work_units h) \<Longrightarrow> unit_ok h u"
  using units_from_spec [of h 0] by (simp add: extract_work_units_def list_all_iff)

lemma extract_sorted: "sorted_wrt (\<lambda>u v. wu_end u < wu_start v) (extract_work_units h)"
  using units_from_spec [of h 0] by (simp add: extract_work_units_def)

lemma unit_user_start_cases:
  assumes "i \<le> length h"
  obtains (none) "unit_user_start h i = i" "\<forall>j < i. \<not> is_user (h ! j)"
  | (user) "unit_user_start h i < i" "is_user (h ! unit_user_start h i)"
      "\<forall>j. unit_user_start h i < j \<longrightarrow> j < i \<longrightarrow> \<not> is_user (h ! j)"
proof (cases "rposition is_user (take i h)")
  case None
  have "\<not> is_user (h ! j)" if "j < i" for j
  proof -
    have "take i h ! j \<in> set (take i h)" using that assms by (intro nth_mem) simp
    then show ?thesis using None that by (simp add: rposition_None_iff)
  qed
  then show ?thesis using None none by (simp add: unit_user_start_def)
next
  case (Some q)
  from rposition_SomeD [OF this] assms
  have "q < i" "is_user (h ! q)" "\<forall>j. q < j \<longrightarrow> j < i \<longrightarrow> \<not> is_user (h ! j)" by auto
  then show ?thesis using Some user by (simp add: unit_user_start_def)
qed

lemma user_start_between:
  assumes u: "unit_ok h u" and v: "unit_ok h v" and uv: "wu_end u < wu_start v"
  shows "wu_user_start u = wu_user_start v \<or> wu_end u < wu_user_start v"
proof -
  have vs: "wu_start v \<le> length h" "wu_user_start v = unit_user_start h (wu_start v)"
    using v by (auto simp: unit_ok_def)
  have us: "wu_start u \<le> length h" "wu_user_start u = unit_user_start h (wu_start u)"
    using u by (auto simp: unit_ok_def)
  show ?thesis
  proof (rule unit_user_start_cases [OF vs(1)], goal_cases)
    case 1
    then show ?case using vs uv by simp
  next
    case 2
    let ?q = "unit_user_start h (wu_start v)"
    show ?case
    proof (cases "wu_end u < ?q")
      case False
      have "?q \<noteq> wu_start u" using u 2 by (auto simp: unit_ok_def)
      moreover have "\<not> (wu_start u < ?q \<and> ?q \<le> wu_end u)"
        using u 2 by (auto simp: unit_ok_def answers_def)
      ultimately have q: "?q < wu_start u" using False by linarith
      have lt: "wu_start u < wu_start v" using u uv by (auto simp: unit_ok_def)
      have "unit_user_start h (wu_start u) = ?q"
      proof (rule unit_user_start_cases [OF us(1)], goal_cases)
        case 1
        then show ?case using q 2(2) by blast
      next
        case 22: 2
        show ?case
        proof (rule linorder_cases [of "unit_user_start h (wu_start u)" ?q])
          assume "unit_user_start h (wu_start u) < ?q"
          then show ?thesis using 22(3) q 2(2) by blast
        next
          assume "?q < unit_user_start h (wu_start u)"
          then show ?thesis using 2(3) 22(1,2) lt by (meson less_trans)
        qed
      qed
      then show ?thesis using us vs by simp
    qed (use vs in simp)
  qed
qed

lemma user_start_le: "unit_ok h u \<Longrightarrow> wu_user_start u \<le> wu_start u"
  by (rule unit_user_start_cases [of "wu_start u" h]) (auto simp: unit_ok_def)

lemma extract_nth:
  assumes "i < j" "j < length (extract_work_units h)"
  shows "wu_end (extract_work_units h ! i) < wu_start (extract_work_units h ! j)"
    "wu_user_start (extract_work_units h ! i) \<le> wu_user_start (extract_work_units h ! j)"
proof -
  let ?u = "extract_work_units h ! i" and ?v = "extract_work_units h ! j"
  show s: "wu_end ?u < wu_start ?v"
    using extract_sorted assms by (simp add: sorted_wrt_iff_nth_less)
  have ok: "unit_ok h ?u" "unit_ok h ?v" using assms by (auto intro: extract_ok)
  have "wu_user_start ?u \<le> wu_end ?u" using user_start_le [OF ok(1)] ok(1) by (simp add: unit_ok_def)
  then show "wu_user_start ?u \<le> wu_user_start ?v" using user_start_between [OF ok s] by auto
qed

text \<open>No unit straddles the user start of another.\<close>

lemma user_start_clean:
  assumes "u \<in> set (extract_work_units h)" "v \<in> set (extract_work_units h)"
  shows "wu_end u < wu_user_start v \<or> wu_user_start v \<le> wu_user_start u"
proof -
  obtain i j where ij: "i < length (extract_work_units h)" "u = extract_work_units h ! i"
    "j < length (extract_work_units h)" "v = extract_work_units h ! j"
    using assms by (auto simp: in_set_conv_nth)
  show ?thesis
  proof (cases "i < j")
    case True
    then show ?thesis
      using user_start_between [OF extract_ok [OF assms(1)] extract_ok [OF assms(2)]]
        extract_nth(1) [OF True ij(3)] ij by auto
  next
    case False
    then show ?thesis using extract_nth(2) [of j i h] ij by (cases "i = j") auto
  qed
qed

subsection \<open>The budget walk\<close>

lemma slice_tokens_split: "a \<le> b \<Longrightarrow> slice_tokens E h 0 a + slice_tokens E h a b = slice_tokens E h 0 b"
proof -
  assume "a \<le> b"
  then have "take b h = take a h @ drop a (take b h)"
    by (metis append_take_drop_id min.absorb1 take_take)
  then have "sum_list (map (estimate_message_tokens E) (take b h)) =
      sum_list (map (estimate_message_tokens E) (take a h))
      + sum_list (map (estimate_message_tokens E) (drop a (take b h)))"
    by (metis map_append sum_list_append)
  then show ?thesis unfolding slice_tokens_def by simp
qed

lemma slice_tokens_mono: "a \<le> b \<Longrightarrow> slice_tokens E h 0 a \<le> slice_tokens E h 0 b"
  using slice_tokens_split by (metis le_add1)

text \<open>The reference: of the user starts of the units \<open>1..max\<close> those whose whole prefix fits, and of
  these the latest.\<close>

definition candidates :: "chat_message list \<Rightarrow> nat \<Rightarrow> nat list" where
  "candidates h retain =
     map wu_user_start (drop 1 (take (Suc (length (extract_work_units h) - retain)) (extract_work_units h)))"

definition latest_fitting :: "fs_env \<Rightarrow> chat_message list \<Rightarrow> nat \<Rightarrow> nat list \<Rightarrow> nat option" where
  "latest_fitting E h budget bs =
     (case filter (\<lambda>b. slice_tokens E h 0 b \<le> budget) bs of [] \<Rightarrow> None | x # xs \<Rightarrow> Some (last (x # xs)))"

lemma latest_fitting_Cons:
  "latest_fitting E h budget (b # bs) =
     (case latest_fitting E h budget bs of
        Some c \<Rightarrow> Some c | None \<Rightarrow> if slice_tokens E h 0 b \<le> budget then Some b else None)"
  by (auto simp: latest_fitting_def split: list.split)

lemma latest_fitting_none:
  "(\<And>b. b \<in> set bs \<Longrightarrow> \<not> slice_tokens E h 0 b \<le> budget) \<Longrightarrow> latest_fitting E h budget bs = None"
  by (simp add: latest_fitting_def filter_empty_conv [THEN iffD2] del: not_le)

lemma budget_loop_spec:
  assumes "units = extract_work_units h" "m < length units" "1 \<le> k"
    and "tokens = slice_tokens E h 0 (if k = 1 then 0 else wu_user_start (units ! (k - 1)))"
  shows "budget_loop E h budget units m k tokens best =
    Ret (case latest_fitting E h budget (map wu_user_start (drop k (take (Suc m) units))) of
           Some c \<Rightarrow> Some c | None \<Rightarrow> best)"
  using assms
proof (induction E h budget units m k tokens best rule: budget_loop.induct)
  case (1 E h budget units m k tokens best)
  show ?case
  proof (cases "m < k")
    case True
    then show ?thesis by (subst budget_loop.simps) (simp add: latest_fitting_def)
  next
    case False
    let ?prev = "if k = 1 then 0 else wu_user_start (units ! (k - 1))"
    let ?b = "wu_user_start (units ! k)" and ?t = "slice_tokens E h 0 (wu_user_start (units ! k))"
    let ?rest = "map wu_user_start (drop (Suc k) (take (Suc m) units))"
    have k: "\<not> m < k" "\<not> length units \<le> k" "k < length units" using False 1(3) by auto
    have ok: "unit_ok h (units ! k)" using 1(2) k by (auto intro: extract_ok)
    have pb: "?prev \<le> ?b"
      using extract_nth(2) [of "k - 1" k h] 1(2,4) k by simp
    have bl: "?b \<le> length h" using user_start_le [OF ok] ok by (simp add: unit_ok_def)
    have sum: "tokens + slice_tokens E h ?prev ?b = ?t"
      unfolding 1(5) using slice_tokens_split [OF pb] .
    have cons: "map wu_user_start (drop k (take (Suc m) units)) = ?b # ?rest"
      using k by (simp add: Cons_nth_drop_Suc [symmetric])
    show ?thesis
    proof (cases "?t \<le> budget")
      case True
      have nb: "\<not> (?b < ?prev \<or> length h < ?b)" using pb bl by simp
      have IH: "budget_loop E h budget units m (Suc k) ?t (Some ?b) =
          Ret (case latest_fitting E h budget ?rest of Some c \<Rightarrow> Some c | None \<Rightarrow> Some ?b)"
        using "1.IH" [OF k(1,2) refl refl nb refl] True sum 1(2,3,4) by simp
      have "budget_loop E h budget units m k tokens best = budget_loop E h budget units m (Suc k) ?t (Some ?b)"
        using k nb True sum by (subst budget_loop.simps) (simp add: Let_def)
      then show ?thesis unfolding cons latest_fitting_Cons IH using True by (simp split: option.split)
    next
      case over: False
      have nb: "\<not> (?b < ?prev \<or> length h < ?b)" using pb bl by simp
      have "budget_loop E h budget units m k tokens best = Ret best"
        using k nb over sum by (subst budget_loop.simps) (simp add: Let_def)
      moreover have "latest_fitting E h budget ?rest = None"
      proof (rule latest_fitting_none)
        fix c assume "c \<in> set ?rest"
        then obtain i where "i < m - k" "c = wu_user_start (units ! Suc (k + i))"
          using 1(3) by (auto simp: in_set_conv_nth)
        then obtain j where j: "k < j" "j < length units" "c = wu_user_start (units ! j)"
          using 1(3) by (intro that [of "Suc (k + i)"]) auto
        then have "?b \<le> c" using extract_nth(2) [of k j h] 1(2) by simp
        then show "\<not> slice_tokens E h 0 c \<le> budget" using over slice_tokens_mono order_trans by blast
      qed
      ultimately show ?thesis unfolding cons latest_fitting_Cons using over by simp
    qed
  qed
qed

subsection \<open>Properties\<close>

text \<open>The work units of a history are exactly its assistant messages, in order; the units do not overlap, and
  the messages of a unit after its assistant message are all answers to its own calls.\<close>

theorem work_units_exact:
  "map wu_start (extract_work_units h) = filter (\<lambda>k. is_assistant (h ! k)) [0..<length h]
   \<and> list_all (unit_ok h) (extract_work_units h)
   \<and> sorted_wrt (\<lambda>u v. wu_end u < wu_start v) (extract_work_units h)"
  using units_from_spec [of h 0] by (simp add: extract_work_units_def)

definition sample_history :: "chat_message list" where
  "sample_history = [user_text (cps ''a''), assistant_text (cps ''b''), user_text (cps ''c''),
     assistant_text (cps ''d''), user_text (cps ''e''), assistant_text (cps ''f'')]"

lemma sample_units:
  "extract_work_units sample_history = map (\<lambda>i. \<lparr>wu_user_start = i, wu_start = i + 1, wu_end = i + 1\<rparr>) [0, 2, 4]"
  by (simp add: extract_work_units_def units_from.simps sample_history_def unit_user_start_def
      rposition_def call_ids_def)

lemma latest_fitting_in: "latest_fitting E h budget bs = Some b \<Longrightarrow> b \<in> set bs \<and> slice_tokens E h 0 b \<le> budget"
proof -
  assume b: "latest_fitting E h budget bs = Some b"
  have "b \<in> set (filter (\<lambda>b. slice_tokens E h 0 b \<le> budget) bs)"
    using b last_in_set [of "filter (\<lambda>b. slice_tokens E h 0 b \<le> budget) bs"]
    unfolding latest_fitting_def by (auto split: list.splits if_splits simp del: set_filter)
  then show ?thesis by simp
qed

lemma walk_finds_latest:
  assumes "1 \<le> retain"
  shows "find_compaction_boundary_for_budget E h budget retain =
    Ret (latest_fitting E h budget (candidates h retain))"
proof (cases "length (extract_work_units h) \<le> retain")
  case True
  then show ?thesis
    by (cases "extract_work_units h")
      (simp_all add: find_compaction_boundary_for_budget_def candidates_def latest_fitting_def)
next
  case False
  then have "budget_loop E h budget (extract_work_units h) (length (extract_work_units h) - retain) 1 0 None
      = Ret (latest_fitting E h budget (candidates h retain))"
    using assms by (subst budget_loop_spec [OF refl])
      (auto simp: slice_tokens_def candidates_def split: option.split)
  then show ?thesis using False by (simp add: find_compaction_boundary_for_budget_def Let_def)
qed

text \<open>The budget walk equals its specification: with at least one unit retained it never panics and
  returns, of the user starts of the units that may be compressed, the latest whose whole prefix
  fits the budget.\<close>

theorem budget_boundary_latest:
  assumes "1 \<le> retain"
  shows "find_compaction_boundary_for_budget E h budget retain =
    Ret (latest_fitting E h budget (candidates h retain))"
  using assms by (rule walk_finds_latest)

theorem budget_boundary_latest_witness:
  "find_compaction_boundary_for_budget sample_fs sample_history 1000 1 =
    Ret (latest_fitting sample_fs sample_history 1000 (candidates sample_history 1))"
  by (rule budget_boundary_latest) simp

text \<open>A compaction boundary never splits a work unit: each unit ends before the boundary or lies
  behind it with its user message, so no tool result is parted from its call.\<close>

theorem boundary_splits_no_unit:
  assumes "find_compaction_boundary h retain = Ret b
      \<or> find_compaction_boundary_for_budget E h budget retain = Ret (Some b)"
    and "1 \<le> retain" and "u \<in> set (extract_work_units h)"
  shows "wu_end u < b \<or> b \<le> wu_user_start u"
proof -
  have "b = length h \<or> b \<in> wu_user_start ` set (extract_work_units h)"
    using assms(1)
  proof
    assume "find_compaction_boundary h retain = Ret b"
    then show ?thesis
      by (auto simp: find_compaction_boundary_def Let_def split: if_splits)
  next
    assume "find_compaction_boundary_for_budget E h budget retain = Ret (Some b)"
    then have "b \<in> set (candidates h retain)"
      using walk_finds_latest [OF assms(2)] latest_fitting_in by (metis run.inject)
    then show ?thesis
      unfolding candidates_def by (auto dest!: in_set_dropD in_set_takeD)
  qed
  then show ?thesis
    using user_start_clean [OF assms(3)] extract_ok [OF assms(3)] by (auto simp: unit_ok_def)
qed

theorem boundary_splits_no_unit_witness:
  "wu_end \<lparr>wu_user_start = 2, wu_start = 3, wu_end = 3\<rparr> < (2 :: nat)
    \<or> 2 \<le> wu_user_start \<lparr>wu_user_start = 2, wu_start = 3, wu_end = 3\<rparr>"
proof (rule boundary_splits_no_unit [of sample_history 2 _ sample_fs 0])
  have "find_compaction_boundary sample_history 2 = Ret 2"
    unfolding find_compaction_boundary_def sample_units by (simp add: sample_history_def Let_def)
  then show "find_compaction_boundary sample_history 2 = Ret 2
      \<or> find_compaction_boundary_for_budget sample_fs sample_history 0 2 = Ret (Some 2)" ..
qed (simp_all add: sample_units)

text \<open>With nothing to retain the boundary search indexes past its units: \<open>find_compaction_boundary\<close>
  panics exactly when it is asked to retain none of a history with an assistant message.\<close>

theorem boundary_panics_iff:
  "find_compaction_boundary h retain = Panic \<longleftrightarrow>
     retain = 0 \<and> 1 < length h \<and> filter is_assistant h \<noteq> []"
proof -
  have "extract_work_units h = [] \<longleftrightarrow> map wu_start (extract_work_units h) = []" by simp
  also have "\<dots> \<longleftrightarrow> filter (\<lambda>k. is_assistant (h ! k)) [0..<length h] = []"
    using units_from_spec [of h 0] by (simp add: extract_work_units_def)
  also have "\<dots> \<longleftrightarrow> filter is_assistant h = []"
    using all_set_conv_all_nth [of h "\<lambda>m. \<not> is_assistant m"] by (simp add: filter_empty_conv Ball_def)
  finally show ?thesis
    by (auto simp: find_compaction_boundary_def Let_def)
qed

end
