(* ===== verification/History_Repair.thy ===== *)
theory History_Repair
  imports Tokens
begin

text \<open>
  \<open>agents/session/session_override.rs\<close>: the repair of a history before it is sent to a provider or
  reloaded - orphan tool results, interrupted tool rounds, adjacent messages of one role, a
  missing user message.
\<close>

subsection \<open>Orphans and the unfulfilled tail\<close>

definition known_tool_ids :: "chat_message list \<Rightarrow> utext set" where
  "known_tool_ids h = \<Union> (set (map call_ids (filter is_assistant h)))"

definition keep_message :: "utext set \<Rightarrow> chat_message \<Rightarrow> bool" where
  "keep_message known m =
     (if is_tool m then (case cm_tool_call_id m of Some t \<Rightarrow> t \<in> known | None \<Rightarrow> False) else True)"

definition remove_orphans :: "chat_message list \<Rightarrow> chat_message list" where
  "remove_orphans h = filter (keep_message (known_tool_ids h)) h"

definition fulfilled_ids :: "chat_message list \<Rightarrow> utext set" where
  "fulfilled_ids h = set (List.map_filter cm_tool_call_id (filter is_tool h))"

definition unfulfilled_round :: "utext set \<Rightarrow> chat_message \<Rightarrow> bool" where
  "unfulfilled_round fulfilled m \<longleftrightarrow>
     is_assistant m \<and> calls_of m \<noteq> [] \<and> list_all (\<lambda>tc. call_id tc \<notin> fulfilled) (calls_of m)"

function trim_unfulfilled :: "utext set \<Rightarrow> chat_message list \<Rightarrow> chat_message list" where
  "trim_unfulfilled fulfilled h =
     (if h \<noteq> [] \<and> unfulfilled_round fulfilled (last h) then trim_unfulfilled fulfilled (butlast h) else h)"
  by pat_completeness auto
termination
  by (relation "measure (\<lambda>(f, h). length h)") auto

declare trim_unfulfilled.simps [simp del]

subsection \<open>Interrupted rounds\<close>

definition cancelled_result :: "tool_call \<Rightarrow> chat_message" where
  "cancelled_result tc = (text_message ''tool'' (cps ''cancelled: turn interrupted''))
     \<lparr>cm_tool_call_id := Some (call_id tc), cm_name := Some (call_name tc), cm_is_error := Some True\<rparr>"

definition placeholder :: chat_message where
  "placeholder = assistant_text [0xFF08, 0x7EE7, 0x7EED, 0xFF09]"

text \<open>The loop walks the history once and inserts only behind its index, so it is a recursion on the
  part not yet walked: the round of an assistant message is the tool messages that follow it.\<close>

definition round_results :: "chat_message list \<Rightarrow> chat_message list" where
  "round_results = takeWhile is_tool"

definition after_round :: "chat_message list \<Rightarrow> chat_message list" where
  "after_round = dropWhile is_tool"

definition missing_calls :: "chat_message \<Rightarrow> chat_message list \<Rightarrow> tool_call list" where
  "missing_calls m results =
     filter (\<lambda>tc. call_id tc \<notin> set (List.map_filter cm_tool_call_id results)) (calls_of m)"

lemma after_round_length: "length (after_round h) \<le> length h"
  by (simp add: after_round_def length_dropWhile_le)

function close_interrupted_tool_rounds :: "chat_message list \<Rightarrow> chat_message list" where
  "close_interrupted_tool_rounds [] = []"
| "close_interrupted_tool_rounds (m # h) =
     (if \<not> is_assistant m \<or> calls_of m = [] then m # close_interrupted_tool_rounds h
      else if after_round h = [] then m # h
      else m # round_results h @ map cancelled_result (missing_calls m (round_results h)) @
        (if is_user (hd (after_round h))
         then placeholder # hd (after_round h) # close_interrupted_tool_rounds (tl (after_round h))
         else close_interrupted_tool_rounds (after_round h)))"
  by pat_completeness auto
termination
  by (relation "measure length")
    (auto simp: after_round_length less_Suc_eq_le intro: le_trans [OF diff_le_self after_round_length])

declare close_interrupted_tool_rounds.simps(2) [simp del]

subsection \<open>Adjacent messages of one role\<close>

definition can_merge :: "chat_message \<Rightarrow> bool" where
  "can_merge m \<longleftrightarrow> (is_user m \<or> is_assistant m) \<and> calls_of m = []"

fun has_text :: "content_part \<Rightarrow> bool" where
  "has_text (Text_Part t) \<longleftrightarrow> t \<noteq> []"
| "has_text _ \<longleftrightarrow> False"

definition merge_two :: "chat_message \<Rightarrow> chat_message \<Rightarrow> chat_message" where
  "merge_two l m =
     l\<lparr>cm_parts := cm_parts l
         @ (if list_ex has_text (cm_parts l) \<and> list_ex has_text (cm_parts m) then [Text_Part [10, 10]] else [])
         @ cm_parts m,
       cm_model := (case cm_model m of Some x \<Rightarrow> Some x | None \<Rightarrow> cm_model l),
       cm_usage := (case cm_usage m of Some x \<Rightarrow> Some x | None \<Rightarrow> cm_usage l)\<rparr>"

definition same_turn :: "chat_message \<Rightarrow> chat_message \<Rightarrow> bool" where
  "same_turn l m \<longleftrightarrow> can_merge m \<and> can_merge l \<and> cm_role l = cm_role m"

text \<open>The last message of the output so far is the head of the accumulator.\<close>

fun merge_loop :: "chat_message list \<Rightarrow> chat_message list \<Rightarrow> chat_message list" where
  "merge_loop out [] = rev out"
| "merge_loop [] (m # ms) = merge_loop [m] ms"
| "merge_loop (l # out) (m # ms) =
     (if same_turn l m then merge_loop (merge_two l m # out) ms else merge_loop (m # l # out) ms)"

definition merge_adjacent_same_role :: "chat_message list \<Rightarrow> chat_message list" where
  "merge_adjacent_same_role h = (if length h < 2 then h else merge_loop [] h)"

subsection \<open>The whole repair\<close>

definition recovery_empty :: chat_message where
  "recovery_empty = user_text (cps
     ''[CONTEXT RECOVERY] prior turns were dropped; continue from the latest request.'')"

definition recovery_prefix :: chat_message where
  "recovery_prefix = user_text (cps
     ''[CONTEXT RECOVERY] earlier user turns were dropped to fit the context window; treat the following as prior work product and continue.'')"

definition ensure_at_least_one_user :: "chat_message list \<Rightarrow> chat_message list" where
  "ensure_at_least_one_user h =
     (if list_ex is_user h then h else if h = [] then [recovery_empty] else recovery_prefix # h)"

definition sanitize_history :: "chat_message list \<Rightarrow> chat_message list" where
  "sanitize_history h =
     (let kept = remove_orphans h;
          trimmed = trim_unfulfilled (fulfilled_ids kept) kept
      in ensure_at_least_one_user
           (merge_adjacent_same_role (close_interrupted_tool_rounds trimmed)))"

text \<open>The variant for reloading keeps each message with its id and neither closes nor merges.\<close>

function trim_paired :: "utext set \<Rightarrow> (int \<times> chat_message) list \<Rightarrow> (int \<times> chat_message) list" where
  "trim_paired fulfilled ps =
     (if ps \<noteq> [] \<and> unfulfilled_round fulfilled (snd (last ps)) then trim_paired fulfilled (butlast ps) else ps)"
  by pat_completeness auto
termination
  by (relation "measure (\<lambda>(f, h). length h)") auto

declare trim_paired.simps [simp del]

definition sanitize_paired :: "(int \<times> chat_message) list \<Rightarrow> (int \<times> chat_message) list" where
  "sanitize_paired ps =
     (let known = known_tool_ids (map snd ps);
          result = filter (\<lambda>p. keep_message known (snd p)) ps
      in trim_paired (fulfilled_ids (map snd result)) result)"

subsection \<open>What a repaired history is\<close>

text \<open>Every tool round that is not the live tail answers all its calls and is not followed by a user
  message at once.\<close>

fun rounds_closed :: "chat_message list \<Rightarrow> bool" where
  "rounds_closed [] \<longleftrightarrow> True"
| "rounds_closed (m # h) \<longleftrightarrow>
     (is_assistant m \<and> calls_of m \<noteq> [] \<and> after_round h \<noteq> [] \<longrightarrow>
        missing_calls m (round_results h) = [] \<and> \<not> is_user (hd (after_round h)))
     \<and> rounds_closed h"

definition declared :: "chat_message list \<Rightarrow> bool" where
  "declared h \<longleftrightarrow> list_all (\<lambda>m. is_tool m \<longrightarrow>
     (case cm_tool_call_id m of Some t \<Rightarrow> t \<in> known_tool_ids h | None \<Rightarrow> False)) h"

definition alternating :: "chat_message list \<Rightarrow> bool" where
  "alternating h \<longleftrightarrow> successively (\<lambda>l m. \<not> same_turn l m) h"

lemma round_append:
  "list_all is_tool ts \<Longrightarrow> \<not> is_tool x \<Longrightarrow> round_results (ts @ x # h) = ts"
  "list_all is_tool ts \<Longrightarrow> \<not> is_tool x \<Longrightarrow> after_round (ts @ x # h) = x # h"
  by (simp_all add: round_results_def after_round_def list_all_iff takeWhile_append2 dropWhile_append2)

lemma round_split:
  "\<not> is_tool x \<Longrightarrow> round_results (a @ x # b) = round_results a"
  "\<not> is_tool x \<Longrightarrow> after_round (a @ x # b) = after_round a @ x # b"
  by (induction a) (auto simp: round_results_def after_round_def)

lemma round_parts: "round_results h @ after_round h = h"
  by (simp add: round_results_def after_round_def)

lemma round_results_tools: "list_all is_tool (round_results h)"
  by (auto simp: round_results_def list_all_iff dest: set_takeWhileD)

lemma after_round_hd: "after_round h \<noteq> [] \<Longrightarrow> \<not> is_tool (hd (after_round h))"
  unfolding after_round_def by (rule hd_dropWhile)

lemma rounds_closed_tools: "list_all is_tool ts \<Longrightarrow> rounds_closed (ts @ h) = rounds_closed h"
  by (induction ts) auto

lemma rounds_closed_after: "rounds_closed (after_round h) = rounds_closed h"
  using rounds_closed_tools [OF round_results_tools, of h "after_round h"] by (simp add: round_parts)

lemma cancelled_simps [simp]:
  "cm_role (cancelled_result tc) = ''tool''"
  "cm_tool_call_id (cancelled_result tc) = Some (call_id tc)"
  "cm_role placeholder = ''assistant''" "calls_of placeholder = []" "cm_tool_call_id placeholder = None"
  by (simp_all add: cancelled_result_def placeholder_def)

lemma cancelled_tools [simp]: "list_all is_tool (map cancelled_result tcs)"
  by (simp add: list_all_iff)

lemma map_filter_append: "List.map_filter f (xs @ ys) = List.map_filter f xs @ List.map_filter f ys"
  by (simp add: List.map_filter_def)

lemma missing_closed: "missing_calls m (rs @ map cancelled_result (missing_calls m rs)) = []"
proof -
  have "List.map_filter cm_tool_call_id (map cancelled_result tcs) = map call_id tcs" for tcs
    by (induction tcs) (simp_all add: List.map_filter_simps)
  then show ?thesis by (auto simp: missing_calls_def filter_empty_conv map_filter_append)
qed

subsection \<open>Closing rounds\<close>

lemma close_hd: "h \<noteq> [] \<Longrightarrow> close_interrupted_tool_rounds h \<noteq> [] \<and> hd (close_interrupted_tool_rounds h) = hd h"
  by (cases h) (simp_all add: close_interrupted_tool_rounds.simps)

lemma close_step:
  assumes "is_assistant m" "calls_of m \<noteq> []" "after_round h = x # r"
  shows "close_interrupted_tool_rounds (m # h) =
    m # (round_results h @ map cancelled_result (missing_calls m (round_results h))) @
      (if is_user x then placeholder # x # close_interrupted_tool_rounds r
       else close_interrupted_tool_rounds (x # r))"
  using assms by (simp add: close_interrupted_tool_rounds.simps(2))

text \<open>The cases of the loop as one induction rule.\<close>

lemma close_induct [case_names Nil Other Tail Round]:
  assumes "P []"
    and "\<And>m h. \<not> is_assistant m \<or> calls_of m = [] \<Longrightarrow> P h \<Longrightarrow> P (m # h)"
    and "\<And>m h. is_assistant m \<Longrightarrow> calls_of m \<noteq> [] \<Longrightarrow> after_round h = [] \<Longrightarrow> P (m # h)"
    and "\<And>m h x r. is_assistant m \<Longrightarrow> calls_of m \<noteq> [] \<Longrightarrow> after_round h = x # r \<Longrightarrow> \<not> is_tool x \<Longrightarrow>
      (is_user x \<Longrightarrow> P r) \<Longrightarrow> (\<not> is_user x \<Longrightarrow> P (x # r)) \<Longrightarrow> P (m # h)"
  shows "P h"
proof (induction h rule: close_interrupted_tool_rounds.induct)
  case (2 m h)
  show ?case
  proof (cases "\<not> is_assistant m \<or> calls_of m = []")
    case True
    then show ?thesis using 2(1) assms(2) by blast
  next
    case False
    then show ?thesis
    proof (cases "after_round h")
      case Nil
      then show ?thesis using False assms(3) by blast
    next
      case (Cons x r)
      then have "\<not> is_tool x" using after_round_hd [of h] by simp
      then show ?thesis using False Cons 2(2,3) assms(4) [of m h x r] by simp
    qed
  qed
qed (rule assms(1))

lemma closed_round:
  assumes "list_all is_tool ts" "\<not> is_tool x" "\<not> is_user x" "missing_calls m ts = []"
    "rounds_closed (x # y)"
  shows "rounds_closed (m # ts @ x # y)"
  using assms round_append [OF assms(1,2), of y] rounds_closed_tools [OF assms(1), of "x # y"]
  by (simp del: rounds_closed.simps add: rounds_closed.simps(2) [of m])

lemma close_closed: "rounds_closed (close_interrupted_tool_rounds h)"
proof (induction h rule: close_induct)
  case (Other m h)
  then show ?case by (auto simp: close_interrupted_tool_rounds.simps(2))
next
  case (Tail m h)
  then have "rounds_closed h" using rounds_closed_after [of h] by simp
  then show ?case using Tail by (simp add: close_interrupted_tool_rounds.simps(2))
next
  case (Round m h x r)
  let ?ts = "round_results h @ map cancelled_result (missing_calls m (round_results h))"
  have ts: "list_all is_tool ?ts" using round_results_tools by simp
  show ?case
  proof (cases "is_user x")
    case True
    then have "rounds_closed (placeholder # x # close_interrupted_tool_rounds r)"
      using Round by (simp add: round_results_def)
    then have "rounds_closed (m # ?ts @ placeholder # x # close_interrupted_tool_rounds r)"
      by (intro closed_round [OF ts] missing_closed) simp_all
    then show ?thesis unfolding close_step [OF Round(1-3)] using True by simp
  next
    case False
    obtain y where y: "close_interrupted_tool_rounds (x # r) = x # y"
      using close_hd [of "x # r"] by (cases "close_interrupted_tool_rounds (x # r)") auto
    then have "rounds_closed (x # y)" using Round False by metis
    then have "rounds_closed (m # ?ts @ x # y)"
      using False Round(4) by (intro closed_round [OF ts] missing_closed)
    then show ?thesis unfolding close_step [OF Round(1-3)] using False y by simp
  qed
qed simp

lemma close_id: "rounds_closed h \<Longrightarrow> close_interrupted_tool_rounds h = h"
proof (induction h rule: close_induct)
  case (Other m h)
  then show ?case by (simp add: close_interrupted_tool_rounds.simps(2))
next
  case (Tail m h)
  then show ?case by (simp add: close_interrupted_tool_rounds.simps(2))
next
  case (Round m h x r)
  have "rounds_closed (x # r)" using Round rounds_closed_after [of h] by simp
  moreover have "\<not> is_user x" "missing_calls m (round_results h) = []" using Round by auto
  ultimately show ?case unfolding close_step [OF Round(1-3)]
    using Round round_parts [of h] by simp
qed simp

lemma close_last: "h \<noteq> [] \<Longrightarrow> last (close_interrupted_tool_rounds h) = last h"
proof (induction h rule: close_induct)
  case (Other m h)
  then show ?case
    using close_hd [of h] by (cases "h = []") (auto simp: close_interrupted_tool_rounds.simps(2))
next
  case (Round m h x r)
  have "last (m # h) = last (x # r)"
    using round_parts [of h] Round(3) by (metis last.simps last_append list.discI append_is_Nil_conv)
  moreover have "last (close_interrupted_tool_rounds (m # h)) = last (x # r)"
    unfolding close_step [OF Round(1-3)] using Round close_hd [of r] close_hd [of "x # r"]
    by (cases "is_user x"; cases "r = []") auto
  ultimately show ?case by simp
qed (simp_all add: close_interrupted_tool_rounds.simps(2))

lemma known_append [simp]: "known_tool_ids (a @ b) = known_tool_ids a \<union> known_tool_ids b"
  by (simp add: known_tool_ids_def)

lemma known_Cons: "known_tool_ids (m # h) = (if is_assistant m then call_ids m else {}) \<union> known_tool_ids h"
  by (simp add: known_tool_ids_def)

lemma known_Nil [simp]: "known_tool_ids [] = {}"
  by (simp add: known_tool_ids_def)

lemma known_tools: "list_all is_tool ts \<Longrightarrow> known_tool_ids ts = {}"
  by (induction ts) (auto simp: known_Cons)

lemma close_known: "known_tool_ids (close_interrupted_tool_rounds h) = known_tool_ids h"
proof (induction h rule: close_induct)
  case (Other m h)
  then show ?case by (simp add: close_interrupted_tool_rounds.simps(2) known_Cons)
next
  case (Round m h x r)
  have "known_tool_ids h = known_tool_ids (round_results h @ x # r)"
    using round_parts [of h] Round(3) by simp
  moreover have "call_ids placeholder = {}" by (simp add: call_ids_def)
  ultimately show ?case unfolding close_step [OF Round(1-3)] using Round
    by (cases "is_user x") (simp_all add: known_Cons known_tools round_results_tools)
qed (simp_all add: close_interrupted_tool_rounds.simps(2))

lemma close_users:
  "filter is_user (close_interrupted_tool_rounds h) = filter is_user h"
proof (induction h rule: close_induct)
  case (Other m h)
  then show ?case by (simp add: close_interrupted_tool_rounds.simps(2))
next
  case (Round m h x r)
  have none: "filter is_user ts = []" if "list_all is_tool ts" for ts
    using that by (induction ts) auto
  have "filter is_user h = filter is_user (x # r)"
    using round_parts [of h] Round(3) none [OF round_results_tools]
    by (metis append_self_conv2 filter_append)
  then show ?case unfolding close_step [OF Round(1-3)] using Round none [OF round_results_tools]
    none [OF cancelled_tools]
    by (cases "is_user x") simp_all
qed (simp_all add: close_interrupted_tool_rounds.simps(2))

lemma close_tools:
  "m \<in> set (close_interrupted_tool_rounds h) \<Longrightarrow> is_tool m \<Longrightarrow>
     m \<in> set h \<or> (\<exists>t. cm_tool_call_id m = Some t \<and> t \<in> known_tool_ids h)"
proof (induction h rule: close_induct)
  case (Other k h)
  then show ?case by (auto simp: close_interrupted_tool_rounds.simps(2) known_Cons)
next
  case (Round k h x r)
  have h: "h = round_results h @ x # r" using round_parts [of h] Round(3) by simp
  have kn: "known_tool_ids (k # h) = call_ids k \<union> known_tool_ids (x # r)"
    using Round(1) by (subst h) (simp add: known_Cons known_tools round_results_tools)
  have "set (missing_calls k (round_results h)) \<subseteq> set (calls_of k)"
    by (auto simp: missing_calls_def)
  then have cancelled: "call_id tc \<in> known_tool_ids (k # h)"
    if "tc \<in> set (missing_calls k (round_results h))" for tc
    using that kn by (auto simp: call_ids_def)
  have m: "m \<noteq> placeholder" using Round(8) by auto
  have mem: "set h = set (round_results h) \<union> {x} \<union> set r" by (subst h) auto
  show ?case using Round(7) unfolding close_step [OF Round(1-3)] kn
    using cancelled Round(5,6,8) m mem unfolding kn
    by (cases "is_user x") (auto simp: known_Cons)
qed (simp_all add: close_interrupted_tool_rounds.simps(2))

subsection \<open>Trimming\<close>

lemma trim_step:
  "h \<noteq> [] \<Longrightarrow> unfulfilled_round f (last h) \<Longrightarrow> trim_unfulfilled f h = trim_unfulfilled f (butlast h)"
  by (subst trim_unfulfilled.simps) simp

lemma trim_id: "h = [] \<or> \<not> unfulfilled_round f (last h) \<Longrightarrow> trim_unfulfilled f h = h"
  by (subst trim_unfulfilled.simps) auto

lemma trim_split:
  "\<exists>d. h = trim_unfulfilled f h @ d \<and> list_all (unfulfilled_round f) d"
proof (induction f h rule: trim_unfulfilled.induct)
  case (1 f h)
  show ?case
  proof (cases "h \<noteq> [] \<and> unfulfilled_round f (last h)")
    case True
    then obtain d where d: "butlast h = trim_unfulfilled f (butlast h) @ d" "list_all (unfulfilled_round f) d"
      using 1 by blast
    have "h = butlast h @ [last h]" using True by simp
    also have "\<dots> = trim_unfulfilled f (butlast h) @ d @ [last h]" using d(1) by simp
    finally have "h = trim_unfulfilled f h @ d @ [last h]"
      using True trim_step [of h f] by simp
    then show ?thesis using d(2) True by (intro exI [of _ "d @ [last h]"]) simp
  next
    case False
    then have "trim_unfulfilled f h = h" by (intro trim_id) blast
    then show ?thesis by (intro exI [of _ "[]"]) simp
  qed
qed

lemma trim_last: "trim_unfulfilled f h \<noteq> [] \<Longrightarrow> \<not> unfulfilled_round f (last (trim_unfulfilled f h))"
proof (induction f h rule: trim_unfulfilled.induct)
  case (1 f h)
  show ?case
  proof (cases "h \<noteq> [] \<and> unfulfilled_round f (last h)")
    case True
    then show ?thesis using 1 trim_step [of h f] by simp
  next
    case False
    then show ?thesis using 1(2) trim_id [of h f] by auto
  qed
qed

lemma fulfilled_append [simp]: "fulfilled_ids (a @ b) = fulfilled_ids a \<union> fulfilled_ids b"
  by (simp add: fulfilled_ids_def map_filter_append)

lemma fulfilled_iff: "t \<in> fulfilled_ids h \<longleftrightarrow> (\<exists>m \<in> set h. is_tool m \<and> cm_tool_call_id m = Some t)"
  by (induction h) (auto simp: fulfilled_ids_def List.map_filter_simps split: option.splits)

lemma unfulfilled_not_tools: "list_all (unfulfilled_round f) d \<Longrightarrow> fulfilled_ids d = {}"
  by (auto simp: fulfilled_iff list_all_iff unfulfilled_round_def)

lemma keep_orphans_known: "known_tool_ids (remove_orphans h) = known_tool_ids h"
proof -
  have "filter is_assistant (filter (keep_message k) h) = filter is_assistant h" for k
    by (induction h) (auto simp: keep_message_def)
  then show ?thesis by (simp add: known_tool_ids_def remove_orphans_def)
qed

lemma declared_iff:
  "declared h \<longleftrightarrow> (\<forall>m \<in> set h. is_tool m \<longrightarrow> (\<exists>t \<in> known_tool_ids h. cm_tool_call_id m = Some t))"
  by (auto simp: declared_def list_all_iff split: option.splits)

lemma orphans_declared: "declared (remove_orphans h)"
  unfolding declared_iff keep_orphans_known
  by (auto simp: remove_orphans_def keep_message_def split: option.splits if_splits)

lemma orphans_id: "declared h \<Longrightarrow> remove_orphans h = h"
  by (auto simp: remove_orphans_def declared_iff keep_message_def filter_id_conv split: option.splits)

lemma trim_declared:
  assumes "declared h"
  shows "declared (trim_unfulfilled (fulfilled_ids h) h)"
    "fulfilled_ids (trim_unfulfilled (fulfilled_ids h) h) = fulfilled_ids h"
proof -
  let ?t = "trim_unfulfilled (fulfilled_ids h) h"
  obtain d where d: "h = ?t @ d" "list_all (unfulfilled_round (fulfilled_ids h)) d"
    using trim_split by blast
  have "fulfilled_ids h = fulfilled_ids ?t \<union> fulfilled_ids d" by (subst d(1)) simp
  then show ft: "fulfilled_ids ?t = fulfilled_ids h" using unfulfilled_not_tools [OF d(2)] by simp
  have kd: "known_tool_ids d \<inter> fulfilled_ids h = {}"
    using d(2) by (induction d) (auto simp: known_Cons unfulfilled_round_def call_ids_def list_all_iff)
  have kh: "known_tool_ids h = known_tool_ids ?t \<union> known_tool_ids d" by (subst d(1)) simp
  show "declared ?t" unfolding declared_iff
  proof (intro ballI impI)
    fix m assume m: "m \<in> set ?t" "is_tool m"
    then have "m \<in> set h" by (subst d(1)) simp
    then obtain t where t: "cm_tool_call_id m = Some t" "t \<in> known_tool_ids h"
      using assms m by (auto simp: declared_iff)
    moreover have "t \<in> fulfilled_ids h" using m t(1) \<open>m \<in> set h\<close> by (auto simp: fulfilled_iff)
    ultimately show "\<exists>t \<in> known_tool_ids ?t. cm_tool_call_id m = Some t" using kd kh by blast
  qed
qed

lemma trim_users: "filter is_user (trim_unfulfilled f h) = filter is_user h"
proof -
  obtain d where d: "h = trim_unfulfilled f h @ d" "list_all (unfulfilled_round f) d"
    using trim_split by blast
  have "filter is_user d = []" using d(2) by (induction d) (auto simp: unfulfilled_round_def)
  then show ?thesis by (subst (2) d(1)) simp
qed

lemma orphans_users: "filter is_user (remove_orphans h) = filter is_user h"
proof -
  have "filter is_user (filter (keep_message k) h) = filter is_user h" for k
    by (induction h) (auto simp: keep_message_def)
  then show ?thesis by (simp add: remove_orphans_def)
qed

subsection \<open>Merging\<close>

lemma merge_two_simps [simp]:
  "cm_role (merge_two l m) = cm_role l" "calls_of (merge_two l m) = calls_of l"
  "cm_tool_call_id (merge_two l m) = cm_tool_call_id l" "call_ids (merge_two l m) = call_ids l"
  "cm_tool_calls (merge_two l m) = cm_tool_calls l"
  by (simp_all add: merge_two_def calls_of_def call_ids_def)

text \<open>Whatever one merge of two neighbours keeps, the whole pass keeps.\<close>

lemma merge_loop_keeps:
  assumes "\<And>a l m b. same_turn l m \<Longrightarrow> Q (a @ l # m # b) \<Longrightarrow> Q (a @ merge_two l m # b)"
    and "Q (rev out @ ms)"
  shows "Q (merge_loop out ms)"
  using assms(2)
proof (induction out ms rule: merge_loop.induct)
  case (3 l out m ms)
  then show ?case using assms(1) [of l m "rev out" ms] by (cases "same_turn l m") simp_all
qed simp_all

lemma merge_keeps:
  assumes "\<And>a l m b. same_turn l m \<Longrightarrow> Q (a @ l # m # b) \<Longrightarrow> Q (a @ merge_two l m # b)" and "Q h"
  shows "Q (merge_adjacent_same_role h)"
  using merge_loop_keeps [of Q "[]" h] assms by (simp add: merge_adjacent_same_role_def)

lemma same_turn_merged [simp]:
  "same_turn (merge_two l m) k = same_turn l k" "same_turn k (merge_two l m) = same_turn k l"
  by (simp_all add: same_turn_def can_merge_def)

lemma merge_loop_alternating: "alternating (rev out) \<Longrightarrow> alternating (merge_loop out ms)"
proof (induction out ms rule: merge_loop.induct)
  case (3 l out m ms)
  have snoc: "alternating (xs @ [y]) \<longleftrightarrow> alternating xs \<and> (xs = [] \<or> \<not> same_turn (last xs) y)" for xs y
    by (auto simp: alternating_def successively_append_iff)
  show ?case
  proof (cases "same_turn l m")
    case True
    then show ?thesis using 3 snoc by simp
  next
    case False
    have "alternating (rev (m # l # out))"
      using 3(3) False snoc [of "rev (l # out)" m] by simp
    then show ?thesis using 3(2) [OF False] False by simp
  qed
qed (simp_all add: alternating_def)

lemma merge_alternating: "alternating (merge_adjacent_same_role h)"
proof (cases "length h < 2")
  case True
  then show ?thesis by (cases h; cases "tl h") (auto simp: merge_adjacent_same_role_def alternating_def)
next
  case False
  then show ?thesis using merge_loop_alternating [of "[]" h]
    by (simp add: merge_adjacent_same_role_def alternating_def)
qed

lemma merge_loop_id: "alternating (rev out @ ms) \<Longrightarrow> merge_loop out ms = rev out @ ms"
proof (induction out ms rule: merge_loop.induct)
  case (3 l out m ms)
  then have "\<not> same_turn l m" by (auto simp: alternating_def successively_append_iff)
  then show ?case using 3 by simp
qed simp_all

lemma merge_id: "alternating h \<Longrightarrow> merge_adjacent_same_role h = h"
  using merge_loop_id [of "[]" h] by (simp add: merge_adjacent_same_role_def)

lemma same_turn_roles: "same_turn l m \<Longrightarrow> \<not> is_tool l \<and> \<not> is_tool m \<and> calls_of l = [] \<and> calls_of m = []"
  by (auto simp: same_turn_def can_merge_def)

lemma merge_closed: "rounds_closed h \<Longrightarrow> rounds_closed (merge_adjacent_same_role h)"
proof (rule merge_keeps)
  fix a l m b assume st: "same_turn l m" and "rounds_closed (a @ l # m # b)"
  note r = same_turn_roles [OF st]
  from \<open>rounds_closed (a @ l # m # b)\<close> show "rounds_closed (a @ merge_two l m # b)"
  proof (induction a)
    case (Cons x a)
    have "hd (after_round a @ l # m # b) = hd (after_round a @ [l])"
      and "cm_role (hd (after_round a @ merge_two l m # b)) = cm_role (hd (after_round a @ [l]))"
      by (cases "after_round a"; simp)+
    then show ?case using Cons r by (simp add: round_split)
  qed (use r in auto)
qed

lemma merge_known: "known_tool_ids (merge_adjacent_same_role h) = known_tool_ids h"
proof (rule merge_keeps [where Q = "\<lambda>x. known_tool_ids x = known_tool_ids h"])
  fix a l m b assume "same_turn l m" "known_tool_ids (a @ l # m # b) = known_tool_ids h"
  moreover from this(1) have "call_ids l = {}" "call_ids m = {}"
    using same_turn_roles by (simp_all add: call_ids_def)
  ultimately show "known_tool_ids (a @ merge_two l m # b) = known_tool_ids h"
    by (simp add: known_Cons split: if_splits)
qed simp

lemma merge_tools: "filter is_tool (merge_adjacent_same_role h) = filter is_tool h"
  by (rule merge_keeps [where Q = "\<lambda>x. filter is_tool x = filter is_tool h"])
    (auto dest: same_turn_roles)

lemma merge_last:
  assumes "h = [] \<or> \<not> unfulfilled_round f (last h)"
  shows "merge_adjacent_same_role h = [] \<or> \<not> unfulfilled_round f (last (merge_adjacent_same_role h))"
proof (rule merge_keeps [where Q = "\<lambda>x. x = [] \<or> \<not> unfulfilled_round f (last x)"])
  fix a l m b
  assume "same_turn l m" "a @ l # m # b = [] \<or> \<not> unfulfilled_round f (last (a @ l # m # b))"
  then show "a @ merge_two l m # b = [] \<or> \<not> unfulfilled_round f (last (a @ merge_two l m # b))"
    by (cases "b = []") (auto simp: unfulfilled_round_def dest: same_turn_roles)
qed (rule assms)

definition user_parts :: "chat_message list \<Rightarrow> content_part list" where
  "user_parts h = concat (map cm_parts (filter is_user h))"

lemma merge_user_parts: "subseq (user_parts h) (user_parts (merge_adjacent_same_role h))"
proof (rule merge_keeps [where Q = "\<lambda>x. subseq (user_parts h) (user_parts x)"])
  fix a l m b
  assume st: "same_turn l m" and sub: "subseq (user_parts h) (user_parts (a @ l # m # b))"
  have "subseq (user_parts (a @ l # m # b)) (user_parts (a @ merge_two l m # b))"
  proof (cases "is_user l")
    case True
    then have "is_user m" using st by (simp add: same_turn_def)
    then have "user_parts (a @ l # m # b) = user_parts a @ (cm_parts l @ cm_parts m) @ user_parts b"
      using True by (simp add: user_parts_def)
    moreover obtain sep where "cm_parts (merge_two l m) = cm_parts l @ sep @ cm_parts m"
      by (simp add: merge_two_def)
    then have "user_parts (a @ merge_two l m # b) = user_parts a @ (cm_parts l @ sep @ cm_parts m) @ user_parts b"
      using True by (simp add: user_parts_def)
    ultimately show ?thesis
      by (simp only:) (intro list_emb_append_mono list_emb_append2 subseq_order.refl)
  next
    case False
    then have "\<not> is_user m" using st by (simp add: same_turn_def)
    then show ?thesis using False by (simp add: user_parts_def)
  qed
  with sub show "subseq (user_parts h) (user_parts (a @ merge_two l m # b))"
    by (rule subseq_order.trans)
qed simp

subsection \<open>The repair\<close>

lemma merge_no_users: "filter is_user h = [] \<Longrightarrow> filter is_user (merge_adjacent_same_role h) = []"
  by (rule merge_keeps [where Q = "\<lambda>x. filter is_user x = []"]) (auto simp: same_turn_def split: if_splits)

lemma merge_nonempty: "h \<noteq> [] \<Longrightarrow> merge_adjacent_same_role h \<noteq> []"
  by (rule merge_keeps [where Q = "\<lambda>x. x \<noteq> []"]) auto

lemma system_not_round: "\<not> unfulfilled_round f (system_text t)"
  by (simp add: unfulfilled_round_def)

lemma close_superset: "set h \<subseteq> set (close_interrupted_tool_rounds h)"
proof (induction h rule: close_induct)
  case (Other m h)
  then show ?case by (auto simp: close_interrupted_tool_rounds.simps(2))
next
  case (Round m h x r)
  have "set h = set (round_results h) \<union> {x} \<union> set r"
    using round_parts [of h] Round(3) by (metis Un_assoc insert_is_Un list.simps(15) set_append)
  then show ?case unfolding close_step [OF Round(1-3)] using Round
    by (cases "is_user x") auto
qed (simp_all add: close_interrupted_tool_rounds.simps(2))

definition repaired :: "chat_message list \<Rightarrow> bool" where
  "repaired h \<longleftrightarrow> list_ex is_user h \<and> rounds_closed h \<and> declared h \<and> alternating h
     \<and> \<not> unfulfilled_round (fulfilled_ids h) (last h)"

lemma ensure_keeps:
  assumes "rounds_closed h" "declared h" "alternating h" "h = [] \<or> \<not> unfulfilled_round (fulfilled_ids h) (last h)"
  shows "repaired (ensure_at_least_one_user h)"
proof (cases "list_ex is_user h")
  case True
  then have "h \<noteq> []" by auto
  then show ?thesis using True assms by (simp add: repaired_def ensure_at_least_one_user_def)
next
  case False
  have fresh: "\<not> same_turn u (hd h)" if "h \<noteq> []" "is_user u" for u
    using that False by (cases h) (auto simp: same_turn_def)
  have users: "is_user recovery_empty" "is_user recovery_prefix"
    by (simp_all add: recovery_empty_def recovery_prefix_def)
  have one: "repaired [u]" if "is_user u" for u
    using that by (simp add: repaired_def declared_def alternating_def unfulfilled_round_def after_round_def)
  have more: "repaired (u # h)" if "is_user u" "h \<noteq> []" for u
  proof -
    have "fulfilled_ids (u # h) = fulfilled_ids h" "known_tool_ids (u # h) = known_tool_ids h"
      using that(1) by (auto simp: fulfilled_iff known_Cons)
    moreover from this(2) have "declared (u # h)"
      using assms(2) that(1) by (simp add: declared_iff)
    moreover have "alternating (u # h)"
      using assms(3) fresh [OF that(2,1)] that(2) by (cases h) (simp_all add: alternating_def)
    ultimately show ?thesis using that assms by (simp add: repaired_def)
  qed
  show ?thesis using False one [OF users(1)] more [OF users(2)]
    by (auto simp: ensure_at_least_one_user_def)
qed

lemma sanitize_repaired: "repaired (sanitize_history h)"
proof -
  let ?k = "remove_orphans h"
  let ?t = "trim_unfulfilled (fulfilled_ids ?k) ?k"
  let ?c = "close_interrupted_tool_rounds ?t"
  let ?m = "merge_adjacent_same_role ?c"
  note t = trim_declared [OF orphans_declared, of h]
  have dc: "declared ?c" unfolding declared_iff close_known
    using close_tools t(1) unfolding declared_iff by metis
  have dm: "declared ?m" unfolding declared_iff merge_known
  proof (intro ballI impI)
    fix x assume "x \<in> set ?m" "is_tool x"
    then have "x \<in> set (filter is_tool ?m)" by simp
    then have "x \<in> set ?c" unfolding merge_tools by simp
    then show "\<exists>t \<in> known_tool_ids ?c. cm_tool_call_id x = Some t"
      using dc \<open>is_tool x\<close> unfolding declared_iff by blast
  qed
  have lt: "?t = [] \<or> \<not> unfulfilled_round (fulfilled_ids ?k) (last ?t)"
    using trim_last by blast
  have "fulfilled_ids ?k \<subseteq> fulfilled_ids ?c"
  proof
    fix i assume "i \<in> fulfilled_ids ?k"
    then obtain m where "m \<in> set ?t" "is_tool m" "cm_tool_call_id m = Some i"
      using t(2) by (metis fulfilled_iff)
    moreover have "set ?t \<subseteq> set ?c" by (rule close_superset)
    ultimately show "i \<in> fulfilled_ids ?c" by (auto simp: fulfilled_iff)
  qed
  moreover have "fulfilled_ids ?m = fulfilled_ids ?c"
    using merge_tools [of ?c] by (simp add: fulfilled_ids_def)
  moreover have "?c = [] \<or> \<not> unfulfilled_round (fulfilled_ids ?k) (last ?c)"
    using lt close_last [of ?t] by (cases "?t = []") auto
  ultimately have "?m = [] \<or> \<not> unfulfilled_round (fulfilled_ids ?m) (last ?m)"
    using merge_last [of ?c "fulfilled_ids ?k"] by (auto simp: unfulfilled_round_def list_all_iff)
  then show ?thesis unfolding sanitize_history_def Let_def
    by (intro ensure_keeps dm merge_closed close_closed merge_alternating)
qed

lemma repaired_fixed: "repaired h \<Longrightarrow> sanitize_history h = h"
  by (simp add: repaired_def sanitize_history_def orphans_id trim_id close_id merge_id
      ensure_at_least_one_user_def)

lemma trim_paired_map: "map snd (trim_paired f ps) = trim_unfulfilled f (map snd ps) \<and> prefix (trim_paired f ps) ps"
proof (induction f ps rule: trim_paired.induct)
  case (1 f ps)
  show ?case
  proof (cases "ps \<noteq> [] \<and> unfulfilled_round f (snd (last ps))")
    case True
    then have "trim_paired f ps = trim_paired f (butlast ps)" by (subst trim_paired.simps) simp
    moreover have "trim_unfulfilled f (map snd ps) = trim_unfulfilled f (map snd (butlast ps))"
      using True trim_step [of "map snd ps" f] by (simp add: last_map map_butlast)
    ultimately show ?thesis using 1 True by (metis prefix_order.trans prefixeq_butlast)
  next
    case False
    then have "trim_paired f ps = ps" by (subst trim_paired.simps) auto
    moreover have "trim_unfulfilled f (map snd ps) = map snd ps"
      using False by (intro trim_id) (auto simp: last_map)
    ultimately show ?thesis by simp
  qed
qed

lemma sanitize_user_parts: "subseq (user_parts h) (user_parts (sanitize_history h))"
proof -
  define c where "c = close_interrupted_tool_rounds
    (trim_unfulfilled (fulfilled_ids (remove_orphans h)) (remove_orphans h))"
  have "user_parts c = user_parts h"
    by (simp add: c_def user_parts_def close_users trim_users orphans_users)
  then have "subseq (user_parts h) (user_parts (merge_adjacent_same_role c))"
    using merge_user_parts [of c] by simp
  moreover have "subseq (user_parts x) (user_parts (ensure_at_least_one_user x))" for x
    by (auto simp: ensure_at_least_one_user_def user_parts_def recovery_empty_def recovery_prefix_def
        intro: list_emb_append2)
  ultimately have "subseq (user_parts h) (user_parts (ensure_at_least_one_user (merge_adjacent_same_role c)))"
    using subseq_order.trans by blast
  then show ?thesis by (simp add: sanitize_history_def Let_def c_def)
qed

subsection \<open>Properties\<close>

text \<open>Each tool result stands in the run of results behind the assistant message that declares its call.
  \<open>ids\<close>: the calls of the round that is open at the head.\<close>

fun placed :: "utext set \<Rightarrow> chat_message list \<Rightarrow> bool" where
  "placed ids [] \<longleftrightarrow> True"
| "placed ids (m # h) \<longleftrightarrow>
     (if is_tool m then (\<exists>i \<in> ids. cm_tool_call_id m = Some i) \<and> placed ids h
      else placed (if is_assistant m then call_ids m else {}) h)"

lemma placed_tools:
  "list_all is_tool ts \<Longrightarrow> placed ids (ts @ h) \<longleftrightarrow> (\<forall>m \<in> set ts. \<exists>i \<in> ids. cm_tool_call_id m = Some i) \<and> placed ids h"
  by (induction ts) auto

lemma placed_prefix: "placed ids (a @ b) \<Longrightarrow> placed ids a"
  by (induction a arbitrary: ids) (auto split: if_splits)

lemma placed_suffix: "(\<And>ids. placed ids x = placed ids y) \<Longrightarrow> placed ids (a @ x) = placed ids (a @ y)"
  by (induction a arbitrary: ids) auto

lemma placed_declared: "placed ids h \<Longrightarrow> r \<in> set h \<Longrightarrow> is_tool r \<Longrightarrow> \<exists>i \<in> ids \<union> known_tool_ids h. cm_tool_call_id r = Some i"
proof (induction h arbitrary: ids)
  case (Cons m h)
  show ?case
  proof (cases "r = m")
    case True
    then show ?thesis using Cons.prems by auto
  next
    case False
    then have r: "r \<in> set h" using Cons.prems(2) by simp
    show ?thesis
    proof (cases "is_tool m")
      case True
      with Cons.prems(1) have "placed ids h" by simp
      from Cons.IH [OF this r Cons.prems(3)] True show ?thesis by (simp add: known_Cons)
    next
      case notool: False
      with Cons.prems(1) have "placed (if is_assistant m then call_ids m else {}) h" by simp
      from Cons.IH [OF this r Cons.prems(3)] show ?thesis by (auto simp: known_Cons split: if_splits)
    qed
  qed
qed simp

lemma placed_close: "placed ids h \<Longrightarrow> placed ids (close_interrupted_tool_rounds h)"
proof (induction h arbitrary: ids rule: close_induct)
  case (Other m h)
  then show ?case by (auto simp: close_interrupted_tool_rounds.simps(2) split: if_splits)
next
  case (Tail m h)
  then show ?case by (simp add: close_interrupted_tool_rounds.simps(2))
next
  case (Round m h x r)
  let ?ts = "round_results h @ map cancelled_result (missing_calls m (round_results h))"
  have h: "placed (call_ids m) (round_results h @ x # r)"
    using Round(7) Round(1) round_parts [of h] Round(3) by simp
  have ts: "list_all is_tool ?ts" "list_all is_tool (round_results h)" using round_results_tools by simp_all
  have "\<forall>k \<in> set ?ts. \<exists>i \<in> call_ids m. cm_tool_call_id k = Some i"
    using h ts(2) by (auto simp: placed_tools missing_calls_def call_ids_def)
  moreover have x: "placed (call_ids m) (x # r)" using h ts(2) by (simp add: placed_tools)
  have "placed (call_ids m) (if is_user x then placeholder # x # close_interrupted_tool_rounds r
      else close_interrupted_tool_rounds (x # r))"
  proof (cases "is_user x")
    case True
    with x have "placed {} r" by simp
    from Round(5) [OF True this] True show ?thesis by simp
  next
    case False
    from Round(6) [OF False x] False show ?thesis by simp
  qed
  ultimately have "placed (call_ids m) (?ts @ (if is_user x then placeholder # x # close_interrupted_tool_rounds r
      else close_interrupted_tool_rounds (x # r)))"
    using placed_tools [OF ts(1)] by blast
  then show ?case unfolding close_step [OF Round(1-3)] using Round(1) by simp
qed simp

lemma placed_merge: "placed {} h \<Longrightarrow> placed {} (merge_adjacent_same_role h)"
proof (rule merge_keeps)
  fix a l m b assume s: "same_turn l m" and p: "placed {} (a @ l # m # b)"
  note r = same_turn_roles [OF s]
  then have "call_ids l = {}" "call_ids m = {}" by (simp_all add: call_ids_def)
  then have "placed ids (l # m # b) = placed ids (merge_two l m # b)" for ids using r by simp
  from placed_suffix [OF this] p show "placed {} (a @ merge_two l m # b)" by blast
qed

lemma placed_sanitize: "placed {} h \<Longrightarrow> placed {} (sanitize_history h)"
proof -
  assume p: "placed {} h"
  then have k: "remove_orphans h = h"
    using placed_declared [OF p] by (intro orphans_id) (auto simp: declared_iff)
  obtain d where "h = trim_unfulfilled (fulfilled_ids h) h @ d" using trim_split by blast
  then have "placed {} (trim_unfulfilled (fulfilled_ids h) h)" using p placed_prefix by metis
  then have "placed {} (merge_adjacent_same_role (close_interrupted_tool_rounds (trim_unfulfilled (fulfilled_ids h) h)))"
    by (intro placed_merge placed_close)
  then show "placed {} (sanitize_history h)"
    by (simp add: sanitize_history_def k Let_def ensure_at_least_one_user_def recovery_empty_def recovery_prefix_def)
qed

lemma closed_answers:
  assumes "rounds_closed h" "h = a @ m # b" "is_assistant m" "calls_of m \<noteq> []" "after_round b \<noteq> []"
  shows "(\<forall>c \<in> set (calls_of m). \<exists>r \<in> set (round_results b). cm_tool_call_id r = Some (call_id c))
     \<and> \<not> is_user (hd (after_round b))"
proof -
  have "rounds_closed (m # b)" using assms(1) unfolding assms(2) by (induction a) auto
  then have "missing_calls m (round_results b) = []" "\<not> is_user (hd (after_round b))" using assms(3-5) by simp_all
  then show ?thesis by (fastforce simp: missing_calls_def filter_empty_conv List.map_filter_def)
qed


text \<open>A round that was cut off by the next message of the user.\<close>

definition asked :: chat_message where
  "asked = (assistant_text (cps ''look''))\<lparr>cm_tool_calls := Some [\<lparr>call_id = [49], call_name = cps ''grep'', call_arguments = []\<rparr>]\<rparr>"

definition cut_off :: "chat_message list" where
  "cut_off = [user_text (cps ''a''), asked, user_text (cps ''b'')]"


text \<open>A result that stands behind a later message of the user is kept there, although its round has been closed with
  another result of the same call.\<close>

definition found :: chat_message where
  "found = (text_message ''tool'' (cps ''found''))\<lparr>cm_tool_call_id := Some [49]\<rparr>"

definition late_result :: "chat_message list" where
  "late_result = [user_text (cps ''a''), asked, user_text (cps ''b''), found, user_text (cps ''c'')]"

lemma asked_simps [simp]:
  "cm_role asked = ''assistant''" "calls_of asked = [\<lparr>call_id = [49], call_name = cps ''grep'', call_arguments = []\<rparr>]"
  "cm_role found = ''tool''" "calls_of found = []" "cm_tool_call_id found = Some [49]"
  "cm_role (user_text t) = ''user''" "calls_of (user_text t) = []"
  by (simp_all add: asked_def found_def user_text_def assistant_text_def text_message_def calls_of_def)

lemma late_result_survives: "\<not> placed {} (sanitize_history late_result)"
proof -
  let ?cancelled = "cancelled_result \<lparr>call_id = [49], call_name = cps ''grep'', call_arguments = []\<rparr>"
  have "declared late_result" by (simp add: declared_iff late_result_def known_Cons call_ids_def)
  then have k: "remove_orphans late_result = late_result" by (rule orphans_id)
  have t: "trim_unfulfilled f late_result = late_result" for f
    by (rule trim_id) (simp add: unfulfilled_round_def late_result_def)
  have "close_interrupted_tool_rounds (asked # user_text (cps ''b'') # [found, user_text (cps ''c'')])
      = asked # [?cancelled] @ placeholder # user_text (cps ''b'') # close_interrupted_tool_rounds [found, user_text (cps ''c'')]"
    by (subst close_step [where x = "user_text (cps ''b'')" and r = "[found, user_text (cps ''c'')]"])
      (simp_all add: after_round_def round_results_def missing_calls_def List.map_filter_simps)
  then have c: "close_interrupted_tool_rounds late_result
      = [user_text (cps ''a''), asked, ?cancelled, placeholder, user_text (cps ''b''), found, user_text (cps ''c'')]"
    by (simp add: late_result_def close_interrupted_tool_rounds.simps(2))
  show ?thesis
    by (simp add: sanitize_history_def k t c Let_def merge_adjacent_same_role_def same_turn_def can_merge_def
        ensure_at_least_one_user_def call_ids_def)
qed

text \<open>The repair is idempotent: a history that was repaired is sent as it is.\<close>

theorem sanitize_idempotent: "sanitize_history (sanitize_history h) = sanitize_history h"
  by (rule repaired_fixed [OF sanitize_repaired])

text \<open>The repair loses nothing the user said: the parts of the user messages of the history are, in
  their order, among those of the repaired one.\<close>

theorem sanitize_keeps_user_parts: "subseq (user_parts h) (user_parts (sanitize_history h))"
  by (rule sanitize_user_parts)

text \<open>Reloading keeps ids and messages together: the pairs that survive are among the pairs read, in
  their order, and their messages are what the first two steps of the repair keep.\<close>

theorem sanitize_paired_keeps_ids:
  "subseq (sanitize_paired ps) ps
   \<and> map snd (sanitize_paired ps)
     = trim_unfulfilled (fulfilled_ids (remove_orphans (map snd ps))) (remove_orphans (map snd ps))"
proof -
  let ?f = "filter (\<lambda>p. keep_message (known_tool_ids (map snd ps)) (snd p)) ps"
  have "map snd ?f = remove_orphans (map snd ps)"
    by (simp add: remove_orphans_def filter_map comp_def)
  moreover have "subseq (trim_paired f ?f) ps" for f
    using trim_paired_map [of f ?f] subseq_filter_left
    by (meson prefix_imp_subseq subseq_order.trans)
  ultimately show ?thesis using trim_paired_map by (simp add: sanitize_paired_def Let_def)
qed

text \<open>The request of a compacted session without a user message no longer starts with the system prompt:
  the recovery message of the user is put before it.\<close>

theorem recovery_precedes_system_prompt:
  assumes "\<not> list_ex is_user history"
  shows "hd (sanitize_history (system_text prompt # history)) = recovery_prefix"
proof -
  let ?h = "system_text prompt # history"
  define c where "c = close_interrupted_tool_rounds
    (trim_unfulfilled (fulfilled_ids (remove_orphans ?h)) (remove_orphans ?h))"
  have "filter is_user c = []"
    unfolding c_def close_users trim_users orphans_users
    using assms by (auto simp: list_ex_iff filter_empty_conv)
  then have "filter is_user (merge_adjacent_same_role c) = []"
    by (rule merge_no_users)
  then have nu: "\<not> list_ex is_user (merge_adjacent_same_role c)"
    by (auto simp: list_ex_iff filter_empty_conv)
  have "system_text prompt \<in> set (remove_orphans ?h)"
    by (simp add: remove_orphans_def keep_message_def)
  then have "system_text prompt \<in> set (trim_unfulfilled (fulfilled_ids (remove_orphans ?h)) (remove_orphans ?h))"
    using trim_split [of "remove_orphans ?h" "fulfilled_ids (remove_orphans ?h)"]
    by (metis (no_types, lifting) Un_iff list_all_iff set_append system_not_round)
  then have "system_text prompt \<in> set c" unfolding c_def using close_superset by blast
  then have "c \<noteq> []" by auto
  then have "merge_adjacent_same_role c \<noteq> []" by (rule merge_nonempty)
  then show ?thesis
    using nu by (simp add: sanitize_history_def Let_def c_def [symmetric] ensure_at_least_one_user_def)
qed

theorem recovery_precedes_system_prompt_witness:
  "hd (sanitize_history (system_text (cps ''You are an agent'') # [assistant_text (cps ''Done'')])) = recovery_prefix"
  by (rule recovery_precedes_system_prompt) simp

end
