(* ===== verification/Session_History.thy ===== *)
theory Session_History
  imports History_Repair "HOL-Library.AList"
begin

text \<open>
  \<open>agents/session/types.rs\<close>, \<open>agents/session/breakpoint_detect.rs\<close>, the loading of a session in
  \<open>agents/session/manager.rs\<close> and \<open>history_has_incomplete_turn\<close> of \<open>agents/orchestrator/mod.rs\<close>: the
  state of one conversation and what changes its history.  The persistence hook and the backend
  are arguments; transient handles (channels, streams, inboxes) are left out.
\<close>

record summary_metadata =
  sm_version :: nat
  sm_token_estimate :: nat
  sm_up_to_message :: int

record pending_yield =
  py_tool_call_id :: utext
  py_implicit :: bool

text \<open>The overrides of the slash commands; a float is a rational.\<close>

datatype permission_mode = Full | Default | Read_Only

datatype run_mode = Interactive | Background

record thinking_config =
  tc_enabled :: bool
  tc_effort :: "utext option"

record session_override =
  so_model :: "utext option"
  so_thinking :: "bool option"
  so_effort :: "utext option"
  so_permission_mode :: "permission_mode option"
  so_run_mode :: "run_mode option"
  so_max_tool_calls :: "nat option"
  so_compact_threshold :: "rat option"
  so_retain_work_units :: "nat option"
  so_system_prompt :: "utext option"

definition no_override :: session_override where
  "no_override = \<lparr>so_model = None, so_thinking = None, so_effort = None, so_permission_mode = None,
     so_run_mode = None, so_max_tool_calls = None, so_compact_threshold = None,
     so_retain_work_units = None, so_system_prompt = None\<rparr>"

definition override_is_empty :: "session_override \<Rightarrow> bool" where
  "override_is_empty o' \<longleftrightarrow> so_model o' = None \<and> so_thinking o' = None \<and> so_effort o' = None
     \<and> so_permission_mode o' = None \<and> so_run_mode o' = None \<and> so_max_tool_calls o' = None
     \<and> so_compact_threshold o' = None \<and> so_retain_work_units o' = None \<and> so_system_prompt o' = None"

definition to_thinking_config :: "session_override \<Rightarrow> thinking_config option" where
  "to_thinking_config o' =
     (case so_thinking o' of
        Some True \<Rightarrow> Some \<lparr>tc_enabled = True, tc_effort = so_effort o'\<rparr>
      | Some False \<Rightarrow> Some \<lparr>tc_enabled = False, tc_effort = None\<rparr>
      | None \<Rightarrow> None)"

record 'm session =
  s_id :: utext
  s_owner :: utext
  s_agent_name :: utext
  s_parent :: "utext option"
  s_history :: "chat_message list"
  s_message_ids :: "int list"
  s_compact_version :: nat
  s_summary :: "summary_metadata option"
  s_override :: session_override
  s_incomplete_turn :: bool
  s_last_message :: "'m option"
  s_tracker :: token_tracker
  s_pending_yield :: "pending_yield option"

definition new_session :: "utext \<Rightarrow> 'm session" where
  "new_session i =
     \<lparr>s_id = i, s_owner = [], s_agent_name = cps ''main'', s_parent = None, s_history = [],
      s_message_ids = [], s_compact_version = 0, s_summary = None, s_override = no_override, s_incomplete_turn = False,
      s_last_message = None, s_tracker = new_tracker, s_pending_yield = None\<rparr>"

subsection \<open>Appending\<close>

definition push_message :: "chat_message \<Rightarrow> 'm session \<Rightarrow> 'm session" where
  "push_message m s = s\<lparr>s_history := s_history s @ [m], s_message_ids := s_message_ids s @ [0]\<rparr>"

definition add_user :: "utext \<Rightarrow> 'm session \<Rightarrow> 'm session" where
  "add_user t = push_message (user_text t)"

definition add_user_with_media :: "utext \<Rightarrow> content_part list \<Rightarrow> 'm session \<Rightarrow> 'm session" where
  "add_user_with_media t media = push_message ((user_text t)\<lparr>cm_parts := media @ [Text_Part t]\<rparr>)"

definition add_assistant :: "utext \<Rightarrow> 'm session \<Rightarrow> 'm session" where
  "add_assistant t s = (if trim t = [] then s else push_message (assistant_text t) s)"

definition add_assistant_with_tools ::
  "utext \<Rightarrow> tool_call list \<Rightarrow> utext option \<Rightarrow> utext option \<Rightarrow> utext option \<Rightarrow> message_usage option
    \<Rightarrow> 'm session \<Rightarrow> 'm session" where
  "add_assistant_with_tools t calls' thinking sig model usage s =
     (if trim t = [] \<and> calls' = [] then s
      else push_message
        ((assistant_text t)\<lparr>cm_tool_calls := Some calls', cm_model := model, cm_usage := usage,
          cm_parts := (case (thinking, sig) of
              (Some th, _) \<Rightarrow> [Thinking_Part th sig, Text_Part t]
            | (None, Some g) \<Rightarrow> [Thinking_Part [] (Some g), Text_Part t]
            | (None, None) \<Rightarrow> [Text_Part t])\<rparr>) s)"

definition add_tool_result :: "utext \<Rightarrow> utext \<Rightarrow> utext \<Rightarrow> bool \<Rightarrow> 'm session \<Rightarrow> 'm session" where
  "add_tool_result tcid name content err =
     push_message ((text_message ''tool'' content)
       \<lparr>cm_tool_call_id := Some tcid, cm_name := Some name, cm_is_error := Some err\<rparr>)"

definition add_system_text :: "utext \<Rightarrow> 'm session \<Rightarrow> 'm session" where
  "add_system_text t = push_message (system_text t)"

type_synonym persist_hook = "(utext \<Rightarrow> chat_message \<Rightarrow> int option) option"

definition persist_last :: "persist_hook \<Rightarrow> 'm session \<Rightarrow> 'm session" where
  "persist_last hook s =
     (case hook of
        None \<Rightarrow> s
      | Some f \<Rightarrow>
          (if s_history s = [] then s
           else case f (s_id s) (last (s_history s)) of
             None \<Rightarrow> s
           | Some i \<Rightarrow> (if s_message_ids s = [] then s
                        else s\<lparr>s_message_ids := butlast (s_message_ids s) @ [i]\<rparr>)))"

text \<open>The id of an implicit yield carries a fresh UUID, an argument here.\<close>

definition insert_implicit_yield :: "persist_hook \<Rightarrow> utext \<Rightarrow> 'm session \<Rightarrow> 'm session" where
  "insert_implicit_yield hook uuid s =
     (let tcid = cps ''call_implicit_yield_'' @ uuid in
      (persist_last hook
        (add_assistant_with_tools []
          [\<lparr>call_id = tcid, call_name = cps ''sessions_yield'', call_arguments = cps ''{}''\<rparr>]
          None None None None s))
      \<lparr>s_pending_yield := Some \<lparr>py_tool_call_id = tcid, py_implicit = True\<rparr>\<rparr>)"

text \<open>\<open>record_inbound\<close>: the receiver id decides whether the message is kept.\<close>

definition record_inbound :: "utext \<Rightarrow> 'm \<Rightarrow> 'm session \<Rightarrow> 'm session" where
  "record_inbound receiver m s = (if receiver = [] then s else s\<lparr>s_last_message := Some m\<rparr>)"

subsection \<open>Removing\<close>

primrec strip_in_rev :: "nat \<Rightarrow> chat_message list \<Rightarrow> chat_message list" where
  "strip_in_rev n [] = []"
| "strip_in_rev n (m # ms) =
     (if is_assistant m
      then m\<lparr>cm_tool_calls := map_option (\<lambda>cs. take (length cs - n) cs) (cm_tool_calls m)\<rparr> # ms
      else m # strip_in_rev n ms)"

definition strip_trailing_tool_calls :: "nat \<Rightarrow> 'm session \<Rightarrow> 'm session" where
  "strip_trailing_tool_calls n s =
     (if n = 0 then s else s\<lparr>s_history := rev (strip_in_rev n (rev (s_history s)))\<rparr>)"

definition pop_last :: "'m session \<Rightarrow> 'm session" where
  "pop_last s = s\<lparr>s_history := butlast (s_history s), s_message_ids := butlast (s_message_ids s)\<rparr>"

definition pop_last_assistant :: "'m session \<Rightarrow> 'm session" where
  "pop_last_assistant s =
     (if s_history s \<noteq> [] \<and> is_assistant (last (s_history s)) then pop_last s else s)"

definition rollback_to :: "nat \<Rightarrow> 'm session \<Rightarrow> 'm session" where
  "rollback_to n s = s\<lparr>s_history := take n (s_history s), s_message_ids := take n (s_message_ids s)\<rparr>"

text \<open>\<open>Vec::drain\<close> panics on a range that is reversed or out of bounds.\<close>

definition drain :: "nat \<Rightarrow> nat \<Rightarrow> 'a list \<Rightarrow> 'a list run" where
  "drain a b xs = (if b < a \<or> length xs < b then Panic else Ret (take a xs @ drop b xs))"

definition apply_compaction ::
  "nat \<Rightarrow> nat \<Rightarrow> chat_message \<Rightarrow> nat \<Rightarrow> int \<Rightarrow> nat \<Rightarrow> 'm session \<Rightarrow> 'm session run" where
  "apply_compaction a b summary version up_to tokens s =
     bind_run (drain a b (s_history s)) (\<lambda>h.
     bind_run (drain a b (s_message_ids s)) (\<lambda>ids.
       Ret (s\<lparr>s_history := take a h @ summary # drop a h,
              s_message_ids := take a ids @ 0 # drop a ids,
              s_compact_version := version,
              s_summary := Some \<lparr>sm_version = version, sm_token_estimate = tokens,
                                 sm_up_to_message = up_to\<rparr>\<rparr>)))"

definition drop_pre_boundary :: "nat \<Rightarrow> nat \<Rightarrow> 'm session \<Rightarrow> 'm session run" where
  "drop_pre_boundary b version s =
     bind_run (drain 0 b (s_history s)) (\<lambda>h.
     bind_run (drain 0 b (s_message_ids s)) (\<lambda>ids.
       Ret (s\<lparr>s_history := h, s_message_ids := ids, s_compact_version := version\<rparr>)))"

subsection \<open>The open tail\<close>

text \<open>The walk back over the tool results at the tail to the assistant message that called them: the
  calls without a result and whether there were results.\<close>

fun tail_walk :: "chat_message list \<Rightarrow> utext set \<Rightarrow> bool \<Rightarrow> tool_call list \<times> bool" where
  "tail_walk [] completed tools = ([], tools)"
| "tail_walk (m # ms) completed tools =
     (if is_tool m then
        tail_walk ms (case cm_tool_call_id m of Some t \<Rightarrow> insert t completed | None \<Rightarrow> completed) True
      else if is_assistant m then (filter (\<lambda>c. call_id c \<notin> completed) (calls_of m), tools)
      else ([], tools))"

definition history_has_incomplete_turn :: "chat_message list \<Rightarrow> bool" where
  "history_has_incomplete_turn h =
     (if h = [] then False
      else if is_user (last h) then True
      else case tail_walk (rev h) {} False of (pending, tools) \<Rightarrow> pending \<noteq> [] \<or> tools)"

function drop_trailing_users :: "'m session \<Rightarrow> nat \<Rightarrow> 'm session \<times> nat" where
  "drop_trailing_users s n =
     (if s_history s \<noteq> [] \<and> is_user (last (s_history s)) then drop_trailing_users (pop_last s) (Suc n)
      else (s, n))"
  by pat_completeness auto
termination
  by (relation "measure (\<lambda>(s, n). length (s_history s))") (auto simp: pop_last_def)

declare drop_trailing_users.simps [simp del]

definition cancelled_text :: utext where "cancelled_text = [0xFF08, 0x5DF2, 0x53D6, 0x6D88, 0xFF09]"

definition cancel_call :: "tool_call \<Rightarrow> 'm session \<Rightarrow> 'm session" where
  "cancel_call c = add_tool_result (call_id c) (call_name c) (cps ''cancelled: aborted by user'') True"

definition close_incomplete_turn_on_abort :: "'m session \<Rightarrow> 'm session \<times> nat" where
  "close_incomplete_turn_on_abort s =
     (if s_history s = [] then (s\<lparr>s_incomplete_turn := False\<rparr>, 0)
      else if is_user (last (s_history s)) then
        (case drop_trailing_users s 0 of (s', n) \<Rightarrow> (s'\<lparr>s_incomplete_turn := False\<rparr>, n))
      else case tail_walk (rev (s_history s)) {} False of (pending, tools) \<Rightarrow>
        (if pending = [] \<and> \<not> tools then (s\<lparr>s_incomplete_turn := False\<rparr>, 0)
         else ((add_assistant cancelled_text (fold cancel_call pending s))\<lparr>s_incomplete_turn := False\<rparr>, 0)))"

subsection \<open>Breakpoints\<close>

record breakpoint_item =
  bp_id :: utext
  bp_name :: utext
  bp_arguments :: utext

text \<open>The \<open>HashMap\<close> of pending calls is an association list without duplicate keys; the order of the
  result, which the code leaves open, is that of the list.\<close>

definition note_message ::
  "(utext \<times> utext \<times> utext) list \<Rightarrow> chat_message \<Rightarrow> (utext \<times> utext \<times> utext) list" where
  "note_message pending m =
     (if is_assistant m then
        foldl (\<lambda>p c. AList.update (call_id c) (call_name c, call_arguments c) p) pending (calls_of m)
      else if is_tool m then
        (case cm_tool_call_id m of Some t \<Rightarrow> AList.delete t pending | None \<Rightarrow> pending)
      else pending)"

definition identify_breakpoint :: "chat_message list \<Rightarrow> breakpoint_item list" where
  "identify_breakpoint h =
     map (\<lambda>(i, n, a). \<lparr>bp_id = i, bp_name = n, bp_arguments = a\<rparr>) (foldl note_message [] h)"

definition sole_sessions_yield_orphan ::
  "chat_message list \<Rightarrow> pending_yield option \<Rightarrow> utext option" where
  "sole_sessions_yield_orphan h py =
     (case identify_breakpoint h of
        [b] \<Rightarrow>
          (if bp_name b \<noteq> cps ''sessions_yield'' then None
           else case py of
             Some p \<Rightarrow> if py_tool_call_id p = bp_id b then Some (bp_id b) else None
           | None \<Rightarrow> None)
      | _ \<Rightarrow> None)"

definition detect_incomplete_turn :: "chat_message list \<Rightarrow> bool" where
  "detect_incomplete_turn h \<longleftrightarrow> h \<noteq> [] \<and> is_assistant (last h) \<and> calls_of (last h) \<noteq> []"

subsection \<open>Loading\<close>

text \<open>What a load reads from the backend; the override is the stored JSON as parsed.\<close>

record 'm backend =
  be_token_count :: "utext \<Rightarrow> nat option"
  be_override :: "utext \<Rightarrow> session_override option"
  be_summary :: "utext \<Rightarrow> (nat \<times> nat option \<times> int) option"
  be_rows :: "utext \<Rightarrow> (int \<times> chat_message) list"
  be_agent_name :: "utext \<Rightarrow> utext option"
  be_parent :: "utext \<Rightarrow> utext option"
  be_last_message :: "utext \<Rightarrow> 'm option"

definition loaded_pairs :: "(int \<times> chat_message) list \<Rightarrow> (int \<times> chat_message) list" where
  "loaded_pairs rows =
     (if identify_breakpoint (map snd rows) \<noteq> [] then
        filter (\<lambda>p. keep_message (known_tool_ids (map snd rows)) (snd p)) rows
      else sanitize_paired rows)"

definition reloaded_yield :: "breakpoint_item list \<Rightarrow> pending_yield option" where
  "reloaded_yield bps =
     (case bps of
        [b] \<Rightarrow> if bp_name b = cps ''sessions_yield''
               then Some \<lparr>py_tool_call_id = bp_id b,
                          py_implicit = prefix (cps ''call_implicit_yield_'') (bp_id b)\<rparr>
               else None
      | _ \<Rightarrow> None)"

definition load_session :: "'m backend \<Rightarrow> utext \<Rightarrow> utext \<Rightarrow> 'm session" where
  "load_session B i owner =
     (let pairs = loaded_pairs (be_rows B i) in
      \<lparr>s_id = i, s_owner = owner,
       s_agent_name = (case be_agent_name B i of Some n \<Rightarrow> n | None \<Rightarrow> cps ''main''),
       s_parent = be_parent B i,
       s_history = map snd pairs, s_message_ids = map fst pairs,
       s_compact_version = (case be_summary B i of Some (v, _, _) \<Rightarrow> v | None \<Rightarrow> 0),
       s_summary = map_option (\<lambda>(v, est, up). \<lparr>sm_version = v,
           sm_token_estimate = (case est of Some n \<Rightarrow> n | None \<Rightarrow> 0), sm_up_to_message = up\<rparr>) (be_summary B i),
       s_override = (case be_override B i of Some ov \<Rightarrow> ov | None \<Rightarrow> no_override),
       s_incomplete_turn = history_has_incomplete_turn (map snd pairs),
       s_last_message = be_last_message B i,
       s_tracker = (case be_token_count B i of
           Some n \<Rightarrow> update_from_usage n 0 0 new_tracker | None \<Rightarrow> new_tracker),
       s_pending_yield =
         reloaded_yield (identify_breakpoint (map snd (be_rows B i)))\<rparr>)"

text \<open>The delivery account of a routing key \<open>channel:account:sender\<close>.\<close>

definition account_key_for_routing_key :: "utext \<Rightarrow> (utext \<times> utext) option" where
  "account_key_for_routing_key rk =
     (if prefix (cps ''_'') rk \<or> prefix (cps ''myclaw/s/'') rk then None
      else case split_on 58 rk of
        channel_type # account # _ \<Rightarrow>
          if channel_type = [] \<or> account = [] then None else Some (channel_type, account)
      | _ \<Rightarrow> None)"

subsection \<open>Deadlines of delegations\<close>

text \<open>Unix seconds are signed 64-bit numbers; sums wrap as in the release profile.  The clock is an
  argument.\<close>

definition wrap_i64 :: "int \<Rightarrow> int" where
  "wrap_i64 x = (x + 2 ^ 63) mod 2 ^ 64 - 2 ^ 63"

record delegation_deadline =
  dd_deadline_unix :: int
  dd_total_secs :: nat

definition deadline_from_now :: "int \<Rightarrow> nat \<Rightarrow> delegation_deadline" where
  "deadline_from_now now secs =
     \<lparr>dd_deadline_unix = wrap_i64 (now + wrap_i64 (int secs)), dd_total_secs = secs\<rparr>"

definition remaining_secs :: "int \<Rightarrow> delegation_deadline \<Rightarrow> nat" where
  "remaining_secs now d = nat (max (wrap_i64 (dd_deadline_unix d - now)) 0)"

definition is_low :: "int \<Rightarrow> delegation_deadline \<Rightarrow> bool" where
  "is_low now d \<longleftrightarrow> dd_total_secs d > 0 \<and> (remaining_secs now d * 5) mod 2 ^ 64 \<le> dd_total_secs d"

definition render_reminder :: "int \<Rightarrow> delegation_deadline \<Rightarrow> utext" where
  "render_reminder now d =
     (if is_low now d then
        cps ''<system-reminder>Delegation deadline warning: only '' @ cps (show_nat (remaining_secs now d))
        @ cps ''s remain of the '' @ cps (show_nat (dd_total_secs d))
        @ cps ''s wall-clock budget. STOP starting new work. Wrap up NOW: finish the current step, write the summary/deliverable for the parent agent, and end your turn. Anything unfinished at the deadline is lost.</system-reminder>''
      else
        cps ''<system-reminder>Delegation budget: '' @ cps (show_nat (remaining_secs now d))
        @ cps ''s remaining of the '' @ cps (show_nat (dd_total_secs d))
        @ cps ''s wall-clock budget. The delegation is killed at the deadline '' @ [0x2014]
        @ cps '' plan to finish and deliver before it runs out.</system-reminder>'')"

subsection \<open>Operations on one session, in any order\<close>

datatype session_op =
    Op_User utext
  | Op_Media utext "content_part list"
  | Op_Assistant utext
  | Op_Calls utext "tool_call list" "utext option" "utext option" "utext option" "message_usage option"
  | Op_Result utext utext utext bool
  | Op_System utext
  | Op_Persist persist_hook
  | Op_Yield persist_hook utext
  | Op_Strip nat
  | Op_Pop
  | Op_Abort
  | Op_Rollback nat
  | Op_Compact nat nat chat_message nat int nat
  | Op_Drop nat nat

fun run_op :: "session_op \<Rightarrow> 'm session \<Rightarrow> 'm session run" where
  "run_op (Op_User t) s = Ret (add_user t s)"
| "run_op (Op_Media t ps) s = Ret (add_user_with_media t ps s)"
| "run_op (Op_Assistant t) s = Ret (add_assistant t s)"
| "run_op (Op_Calls t cs th g model usage) s = Ret (add_assistant_with_tools t cs th g model usage s)"
| "run_op (Op_Result i n c e) s = Ret (add_tool_result i n c e s)"
| "run_op (Op_System t) s = Ret (add_system_text t s)"
| "run_op (Op_Persist hook) s = Ret (persist_last hook s)"
| "run_op (Op_Yield hook u) s = Ret (insert_implicit_yield hook u s)"
| "run_op (Op_Strip n) s = Ret (strip_trailing_tool_calls n s)"
| "run_op Op_Pop s = Ret (pop_last_assistant s)"
| "run_op Op_Abort s = Ret (fst (close_incomplete_turn_on_abort s))"
| "run_op (Op_Rollback n) s = Ret (rollback_to n s)"
| "run_op (Op_Compact a b m v up tk) s = apply_compaction a b m v up tk s"
| "run_op (Op_Drop b v) s = drop_pre_boundary b v s"

primrec run_ops :: "session_op list \<Rightarrow> 'm session \<Rightarrow> 'm session run" where
  "run_ops [] s = Ret s"
| "run_ops (x # xs) s = bind_run (run_op x s) (run_ops xs)"

definition parallel :: "'m session \<Rightarrow> bool" where
  "parallel s \<longleftrightarrow> length (s_message_ids s) = length (s_history s)"

named_theorems parallel_intros "operations that keep ids and history parallel"

lemma parallel_simps [simp]:
  "parallel (s\<lparr>s_pending_yield := py\<rparr>) = parallel s"
  "parallel (s\<lparr>s_incomplete_turn := f\<rparr>) = parallel s"
  "parallel (s\<lparr>s_compact_version := v\<rparr>) = parallel s"
  by (simp_all add: parallel_def)

lemma parallel_push [parallel_intros]: "parallel s \<Longrightarrow> parallel (push_message m s)"
  by (simp add: parallel_def push_message_def)

lemma parallel_adds [parallel_intros]:
  "parallel s \<Longrightarrow> parallel (add_user t s)"
  "parallel s \<Longrightarrow> parallel (add_user_with_media t ps s)"
  "parallel s \<Longrightarrow> parallel (add_assistant t s)"
  "parallel s \<Longrightarrow> parallel (add_assistant_with_tools t cs th g model usage s)"
  "parallel s \<Longrightarrow> parallel (add_tool_result i n c e s)"
  "parallel s \<Longrightarrow> parallel (add_system_text t s)"
  by (simp_all add: add_user_def add_user_with_media_def add_assistant_def add_assistant_with_tools_def
      add_tool_result_def add_system_text_def parallel_push)

lemma parallel_persist [parallel_intros]: "parallel s \<Longrightarrow> parallel (persist_last hook s)"
  by (auto simp: persist_last_def parallel_def split: option.split)

lemma length_strip [simp]: "length (strip_in_rev n h) = length h"
  by (induction h) auto

lemma parallel_removals [parallel_intros]:
  "parallel s \<Longrightarrow> parallel (strip_trailing_tool_calls n s)"
  "parallel s \<Longrightarrow> parallel (pop_last s)"
  "parallel s \<Longrightarrow> parallel (pop_last_assistant s)"
  "parallel s \<Longrightarrow> parallel (rollback_to n s)"
  by (simp_all add: strip_trailing_tool_calls_def pop_last_assistant_def pop_last_def rollback_to_def
      parallel_def)

lemma parallel_yield [parallel_intros]: "parallel s \<Longrightarrow> parallel (insert_implicit_yield hook u s)"
  by (simp add: insert_implicit_yield_def Let_def parallel_intros)

lemma drain_ok: "a \<le> b \<Longrightarrow> b \<le> length xs \<Longrightarrow> drain a b xs = Ret (take a xs @ drop b xs)"
  by (simp add: drain_def)

lemma parallel_compaction:
  assumes "parallel s" "apply_compaction a b m v up tk s = Ret s'"
  shows "parallel s'"
  using assms by (auto simp: apply_compaction_def drain_def parallel_def split: if_splits)

lemma parallel_drop: "parallel s \<Longrightarrow> drop_pre_boundary b v s = Ret s' \<Longrightarrow> parallel s'"
  by (auto simp: drop_pre_boundary_def drain_def parallel_def split: if_splits)

lemma drop_users_spec:
  "drop_trailing_users s n = (s', k) \<Longrightarrow> parallel s \<Longrightarrow>
     parallel s' \<and> (\<exists>us. s_history s = s_history s' @ us \<and> list_all is_user us \<and> k = n + length us)
     \<and> (s_history s' = [] \<or> \<not> is_user (last (s_history s')))"
proof (induction s n rule: drop_trailing_users.induct)
  case (1 s n)
  show ?case
  proof (cases "s_history s \<noteq> [] \<and> is_user (last (s_history s))")
    case True
    then have "drop_trailing_users (pop_last s) (Suc n) = (s', k)"
      using 1(2) by (subst (asm) drop_trailing_users.simps) simp
    then have "parallel s' \<and> (\<exists>us. s_history (pop_last s) = s_history s' @ us \<and> list_all is_user us
        \<and> k = Suc n + length us) \<and> (s_history s' = [] \<or> \<not> is_user (last (s_history s')))"
      by (rule "1.IH" [OF True]) (simp add: parallel_intros 1(3))
    then obtain us where us: "butlast (s_history s) = s_history s' @ us" "list_all is_user us"
      "k = Suc n + length us" "parallel s'" "s_history s' = [] \<or> \<not> is_user (last (s_history s'))"
      by (auto simp: pop_last_def)
    have "s_history s = s_history s' @ (us @ [last (s_history s)])"
      using True us(1) by (metis append.assoc append_butlast_last_id)
    then show ?thesis using us True by (intro conjI exI [of _ "us @ [last (s_history s)]"]) auto
  next
    case False
    then have "s' = s \<and> k = n" using 1(2) by (subst (asm) drop_trailing_users.simps) auto
    then show ?thesis using False 1(3) by auto
  qed
qed

definition abort_result :: "tool_call \<Rightarrow> chat_message" where
  "abort_result c = (text_message ''tool'' (cps ''cancelled: aborted by user''))
     \<lparr>cm_tool_call_id := Some (call_id c), cm_name := Some (call_name c), cm_is_error := Some True\<rparr>"

lemma cancel_call_eq: "cancel_call c = push_message (abort_result c)"
  by (simp add: cancel_call_def add_tool_result_def abort_result_def fun_eq_iff)

lemma fold_cancel_history: "s_history (fold cancel_call cs s) = s_history s @ map abort_result cs"
  by (induction cs arbitrary: s) (simp_all add: cancel_call_eq push_message_def)

lemma fold_cancel [parallel_intros]: "parallel s \<Longrightarrow> parallel (fold cancel_call cs s)"
  by (induction cs arbitrary: s) (simp_all add: cancel_call_eq parallel_push)

lemma parallel_abort [parallel_intros]:
  "parallel s \<Longrightarrow> parallel (fst (close_incomplete_turn_on_abort s))"
  unfolding close_incomplete_turn_on_abort_def
  using drop_users_spec [of s 0]
  by (auto split: prod.split intro!: parallel_intros)

lemma parallel_op: "parallel s \<Longrightarrow> run_op x s = Ret s' \<Longrightarrow> parallel s'"
  by (cases x) (auto intro: parallel_intros parallel_compaction parallel_drop)

lemma parallel_ops: "run_ops xs s = Ret s' \<Longrightarrow> parallel s \<Longrightarrow> parallel s'"
proof (induction xs arbitrary: s)
  case (Cons x xs)
  then show ?case using parallel_op [of s x] by (cases "run_op x s") auto
qed simp

subsection \<open>The tail of a history\<close>

lemma tail_walk_tools:
  "list_all is_tool ts \<Longrightarrow>
     tail_walk (rev ts @ ms) C b = tail_walk ms (C \<union> fulfilled_ids ts) (b \<or> ts \<noteq> [])"
proof (induction ts arbitrary: ms C b)
  case (Cons t ts)
  have "fulfilled_ids (t # ts) = fulfilled_ids [t] \<union> fulfilled_ids ts"
    using fulfilled_append [of "[t]" ts] by simp
  moreover have "fulfilled_ids [t] = (case cm_tool_call_id t of Some i \<Rightarrow> {i} | None \<Rightarrow> {})"
    using Cons.prems by (simp add: fulfilled_ids_def List.map_filter_simps split: option.split)
  ultimately show ?case using Cons by (cases "cm_tool_call_id t") simp_all
qed (simp add: fulfilled_ids_def List.map_filter_simps)

lemma tail_cases:
  obtains (tools) "list_all is_tool h"
  | (msg) a m ts where "h = a @ m # ts" "\<not> is_tool m" "list_all is_tool ts"
proof (cases "list_all is_tool h")
  case False
  then obtain x where "x \<in> set h" "\<not> is_tool x" by (auto simp: list_all_iff)
  then obtain a m ts where "h = a @ m # ts" "\<not> is_tool m" "\<forall>x \<in> set ts. is_tool x"
    using split_list_last_prop [of h "\<lambda>x. \<not> is_tool x"] by auto
  then show ?thesis using msg by (simp add: list_all_iff)
qed (rule tools)

definition pending_of :: "chat_message \<Rightarrow> chat_message list \<Rightarrow> tool_call list" where
  "pending_of m ts = (if is_assistant m then filter (\<lambda>c. call_id c \<notin> fulfilled_ids ts) (calls_of m) else [])"

lemma tail_walk_msg:
  "\<not> is_tool m \<Longrightarrow> list_all is_tool ts \<Longrightarrow>
     tail_walk (rev (a @ m # ts)) {} False = (pending_of m ts, ts \<noteq> [])"
  using tail_walk_tools [of ts "m # rev a" "{}" False] by (simp add: pending_of_def)

lemma tail_walk_all: "list_all is_tool h \<Longrightarrow> tail_walk (rev h) {} False = ([], h \<noteq> [])"
  using tail_walk_tools [of h "[]" "{}" False] by simp

lemma abort_result_simps [simp]:
  "cm_role (abort_result c) = ''tool''" "cm_tool_call_id (abort_result c) = Some (call_id c)"
  by (simp_all add: abort_result_def)

lemma abort_results_tools [simp]: "list_all is_tool (map abort_result cs)"
  by (simp add: list_all_iff)

lemma missing_aborted:
  assumes "is_assistant m" "list_all is_tool ts"
  shows "missing_calls m (ts @ map abort_result (pending_of m ts)) = []"
proof -
  have "List.map_filter cm_tool_call_id (map abort_result cs) = map call_id cs" for cs
    by (induction cs) (simp_all add: List.map_filter_simps)
  moreover have "set (List.map_filter cm_tool_call_id ts) = fulfilled_ids ts"
    using assms(2) by (simp add: fulfilled_ids_def filter_id_conv [THEN iffD2] list_all_iff)
  ultimately show ?thesis
    using assms(1) by (auto simp: missing_calls_def filter_empty_conv map_filter_append pending_of_def)
qed

lemma rounds_closed_split:
  "\<not> is_tool m \<Longrightarrow> rounds_closed (a @ m # b) \<longleftrightarrow> rounds_closed (a @ [m]) \<and> rounds_closed (m # b)"
proof (induction a)
  case (Cons x a)
  have "cm_role (hd (after_round a @ m # b)) = cm_role (hd (after_round a @ [m]))"
    by (cases "after_round a") simp_all
  then show ?case using Cons by (auto simp: round_split)
qed (auto simp: after_round_def)

lemma close_message: "trim cancelled_text \<noteq> []"
  by (simp add: cancelled_text_def trim_def trim_start_def trim_end_def trim_start_of_def trim_end_of_def is_space_def)

lemma abort_history:
  assumes "\<not> is_user m" "\<not> is_tool m" "list_all is_tool ts" "s_history s = a @ m # ts"
  shows "close_incomplete_turn_on_abort s =
    (if pending_of m ts = [] \<and> ts = [] then (s\<lparr>s_incomplete_turn := False\<rparr>, 0)
     else ((add_assistant cancelled_text (fold cancel_call (pending_of m ts) s))\<lparr>s_incomplete_turn := False\<rparr>, 0))"
proof -
  have "\<not> is_user (last (a @ m # ts))"
    using assms(1,3) by (cases ts rule: rev_cases) auto
  then show ?thesis using tail_walk_msg [OF assms(2,3), of a]
    by (simp add: close_incomplete_turn_on_abort_def assms(4))
qed

lemma rounds_closed_snoc_user:
  assumes "rounds_closed (a @ m # ts)" "\<not> is_tool m" "list_all is_tool ts" "is_user u"
    "is_assistant m \<longrightarrow> missing_calls m (ts @ cs) = []" "list_all is_tool cs" "ts @ cs \<noteq> [] \<or> closing \<noteq> []"
    "closing = [c] \<and> is_assistant c \<and> calls_of c = []"
  shows "rounds_closed (a @ m # (ts @ cs) @ closing @ [u])"
proof -
  have "rounds_closed (a @ [m])" using assms(1,2) rounds_closed_split by blast
  moreover have "rounds_closed (m # (ts @ cs) @ c # [u])"
  proof (cases "is_assistant m")
    case True
    then show ?thesis using assms(3-6,8) by (intro closed_round) (auto simp: after_round_def)
  next
    case False
    then show ?thesis using assms(3,4,6,8) rounds_closed_tools [of "ts @ cs" "c # [u]"]
      by (simp add: after_round_def)
  qed
  ultimately show ?thesis using rounds_closed_split [OF assms(2), of a "(ts @ cs) @ c # [u]"] assms(8) by simp
qed

lemma users_suffix_unique:
  assumes "a @ us = b @ vs" "list_all is_user us" "list_all is_user vs"
    "a = [] \<or> \<not> is_user (last a)" "b = [] \<or> \<not> is_user (last b)"
  shows "a = b"
proof -
  have drop: "rev (dropWhile is_user (rev (x @ ws))) = x"
    if "list_all is_user ws" "x = [] \<or> \<not> is_user (last x)" for x ws
  proof -
    have "dropWhile is_user (rev ws @ rev x) = dropWhile is_user (rev x)"
      using that(1) by (intro dropWhile_append2) (auto simp: list_all_iff)
    then show ?thesis using that(2) by (cases x rule: rev_cases) simp_all
  qed
  show ?thesis using drop [OF assms(2,4)] drop [OF assms(3,5)] assms(1) by simp
qed

lemma abort_user_tools:
  assumes "is_user m" "list_all is_tool ts" "ts \<noteq> []" "s_history s = a @ m # ts" "is_user u"
    "rounds_closed (a @ m # ts)"
  shows "\<exists>added. s_history (fst (close_incomplete_turn_on_abort s)) = s_history s @ added
    \<and> snd (close_incomplete_turn_on_abort s) = 0
    \<and> \<not> history_has_incomplete_turn (s_history s @ added)
    \<and> rounds_closed (s_history s @ added @ [u])"
proof -
  have m: "\<not> is_tool m" "\<not> is_assistant m" using assms(1) by simp_all
  have "\<not> is_user (last (a @ m # ts))" using assms(2,3) by (cases ts rule: rev_cases) auto
  then have ab: "close_incomplete_turn_on_abort s =
      ((add_assistant cancelled_text s)\<lparr>s_incomplete_turn := False\<rparr>, 0)"
    using tail_walk_msg [OF m(1) assms(2), of a] m assms(3,4)
    by (simp add: close_incomplete_turn_on_abort_def pending_of_def)
  have "rounds_closed (a @ m # (ts @ []) @ [assistant_text cancelled_text] @ [u])"
    using assms m by (intro rounds_closed_snoc_user [where c = "assistant_text cancelled_text"]) auto
  then show ?thesis unfolding ab using assms(4) close_message
    by (intro exI [of _ "[assistant_text cancelled_text]"])
      (simp add: add_assistant_def push_message_def history_has_incomplete_turn_def)
qed

subsection \<open>Breakpoints\<close>

text \<open>A call is unanswered when the last message that declares or answers its id declares it.\<close>

definition unanswered :: "chat_message list \<Rightarrow> utext \<Rightarrow> bool" where
  "unanswered h t \<longleftrightarrow> (\<exists>a m b. h = a @ m # b \<and> is_assistant m \<and> t \<in> call_ids m
     \<and> \<not> (\<exists>x \<in> set b. is_tool x \<and> cm_tool_call_id x = Some t))"

lemma unanswered_snoc:
  "unanswered (h @ [m]) t \<longleftrightarrow> (is_assistant m \<and> t \<in> call_ids m)
     \<or> (unanswered h t \<and> \<not> (is_tool m \<and> cm_tool_call_id m = Some t))"
  (is "?l \<longleftrightarrow> ?r")
proof
  assume ?l
  then obtain a x b where d: "h @ [m] = a @ x # b" "is_assistant x" "t \<in> call_ids x"
    "\<not> (\<exists>y \<in> set b. is_tool y \<and> cm_tool_call_id y = Some t)"
    unfolding unanswered_def by blast
  show ?r
  proof (cases b rule: rev_cases)
    case Nil
    then show ?thesis using d by simp
  next
    case (snoc b' y)
    then have "h = a @ x # b'" "y = m" using d(1) by (simp_all add: append.assoc [symmetric] del: append.assoc)
    then show ?thesis using d snoc unfolding unanswered_def by auto
  qed
next
  assume ?r
  then show ?l
  proof (elim disjE conjE)
    assume "is_assistant m" "t \<in> call_ids m"
    then show ?l unfolding unanswered_def by (intro exI [of _ h] exI [of _ m] exI [of _ "[]"]) simp
  next
    assume "unanswered h t" and n: "\<not> (is_tool m \<and> cm_tool_call_id m = Some t)"
    then obtain a x b where "h = a @ x # b" "is_assistant x" "t \<in> call_ids x"
      "\<not> (\<exists>y \<in> set b. is_tool y \<and> cm_tool_call_id y = Some t)"
      unfolding unanswered_def by blast
    then show ?l using n unfolding unanswered_def
      by (intro exI [of _ a] exI [of _ x] exI [of _ "b @ [m]"]) auto
  qed
qed

lemma update_calls:
  "fst ` set (foldl (\<lambda>p c. AList.update (call_id c) (call_name c, call_arguments c) p) p cs)
     = fst ` set p \<union> call_id ` set cs"
  by (induction cs arbitrary: p) (auto simp: dom_update)

lemma update_calls_distinct:
  "distinct (map fst p) \<Longrightarrow>
     distinct (map fst (foldl (\<lambda>p c. AList.update (call_id c) (call_name c, call_arguments c) p) p cs))"
  by (induction cs arbitrary: p) (simp_all add: distinct_update)

lemma pending_distinct: "distinct (map fst (foldl note_message [] h))"
  by (induction h rule: rev_induct)
    (auto simp: note_message_def update_calls_distinct distinct_delete split: option.split)

lemma delete_ids: "fst ` set (AList.delete k al) = fst ` set al - {k}"
  by (auto simp: AList.delete_eq)

lemma pending_ids: "fst ` set (foldl note_message [] h) = {t. unanswered h t}"
proof (induction h rule: rev_induct)
  case Nil
  then show ?case by (simp add: unanswered_def)
next
  case (snoc m h)
  have "fst ` set (note_message p m) =
      (if is_assistant m then fst ` set p \<union> call_ids m
       else if is_tool m then fst ` set p - {t. cm_tool_call_id m = Some t} else fst ` set p)" for p
    by (auto simp: note_message_def update_calls call_ids_def delete_ids split: option.split)
  then show ?case using snoc by (auto simp: unanswered_snoc)
qed

lemma breakpoint_ids: "bp_id ` set (identify_breakpoint h) = {t. unanswered h t}"
proof -
  have "bp_id ` set (identify_breakpoint h) = fst ` set (foldl note_message [] h)"
    unfolding identify_breakpoint_def by force
  then show ?thesis by (simp add: pending_ids)
qed

lemma breakpoints_distinct: "distinct (map bp_id (identify_breakpoint h))"
proof -
  have "map bp_id (identify_breakpoint h) = map fst (foldl note_message [] h)"
    by (simp add: identify_breakpoint_def comp_def split_def)
  then show ?thesis by (simp add: pending_distinct)
qed

lemma loaded_declared: "declared (map snd (loaded_pairs rows))"
proof (cases "identify_breakpoint (map snd rows) = []")
  case True
  let ?f = "filter (\<lambda>p. keep_message (known_tool_ids (map snd rows)) (snd p)) rows"
  have "map snd ?f = remove_orphans (map snd rows)" by (simp add: remove_orphans_def filter_map comp_def)
  then show ?thesis
    using True trim_paired_map [of "fulfilled_ids (map snd ?f)" ?f] trim_declared(1) [OF orphans_declared]
    by (simp add: loaded_pairs_def sanitize_paired_def Let_def)
next
  case False
  have "map snd (filter (\<lambda>p. keep_message (known_tool_ids (map snd rows)) (snd p)) rows)
      = remove_orphans (map snd rows)"
    by (simp add: remove_orphans_def filter_map comp_def)
  then show ?thesis using False orphans_declared by (simp add: loaded_pairs_def)
qed

lemma reloaded_yield_SomeD:
  "reloaded_yield bps = Some p \<Longrightarrow> \<exists>b. bps = [b] \<and> bp_id b = py_tool_call_id p \<and> bp_name b = cps ''sessions_yield''"
  by (auto simp: reloaded_yield_def split: list.splits if_splits)

subsection \<open>Properties\<close>

text \<open>C11: History and message ids stay parallel: from any loaded session, whatever sequence of operations
  is run on it, each message has exactly one id slot.\<close>

theorem session_ids_parallel:
  assumes "run_ops xs (load_session B i owner) = Ret s"
  shows "length (s_message_ids s) = length (s_history s)"
  using parallel_ops [OF assms] by (simp add: parallel_def load_session_def Let_def)

definition empty_backend :: "unit backend" where
  "empty_backend = \<lparr>be_token_count = \<lambda>_. None, be_override = \<lambda>_. None, be_summary = \<lambda>_. None,
     be_rows = \<lambda>_. [(7, user_text (cps ''hi''))], be_agent_name = \<lambda>_. None, be_parent = \<lambda>_. None,
     be_last_message = \<lambda>_. None\<rparr>"

theorem session_ids_parallel_witness:
  "\<exists>s. run_ops [Op_User (cps ''a''), Op_Compact 0 1 (user_text (cps ''summary'')) 1 7 5, Op_Abort]
        (load_session empty_backend (cps ''s1'') (cps ''me'')) = Ret s
     \<and> length (s_message_ids s) = length (s_history s)"
proof -
  have pairs: "loaded_pairs [(7, user_text (cps ''hi''))] = [(7, user_text (cps ''hi''))]"
    by (simp add: loaded_pairs_def identify_breakpoint_def note_message_def sanitize_paired_def
        keep_message_def trim_paired.simps unfulfilled_round_def Let_def)
  obtain s where s: "run_ops [Op_User (cps ''a''), Op_Compact 0 1 (user_text (cps ''summary'')) 1 7 5, Op_Abort]
        (load_session empty_backend (cps ''s1'') (cps ''me'')) = Ret s"
    by (simp add: load_session_def empty_backend_def pairs Let_def apply_compaction_def drain_def
        add_user_def push_message_def)
  then show ?thesis using session_ids_parallel [OF s] by blast
qed

text \<open>Aborting an interrupted turn leaves a history the next user message may follow: unless the
  history ends in user messages, nothing is removed, the turn is no longer incomplete, and with all
  earlier rounds closed every round is closed and separated from the user message that comes next.\<close>

theorem abort_closes_turn:
  assumes "rounds_closed (s_history s)" "s_history s \<noteq> []" "\<not> is_user (last (s_history s))" "is_user u"
  shows "\<exists>added. s_history (fst (close_incomplete_turn_on_abort s)) = s_history s @ added
    \<and> snd (close_incomplete_turn_on_abort s) = 0
    \<and> \<not> history_has_incomplete_turn (s_history s @ added)
    \<and> rounds_closed (s_history s @ added @ [u])"
proof (rule tail_cases [of "s_history s"])
  assume all: "list_all is_tool (s_history s)"
  have "close_incomplete_turn_on_abort s =
      ((add_assistant cancelled_text s)\<lparr>s_incomplete_turn := False\<rparr>, 0)"
    using assms(2,3) tail_walk_all [OF all] by (simp add: close_incomplete_turn_on_abort_def)
  moreover have "rounds_closed (s_history s @ [assistant_text cancelled_text] @ [u])"
    using rounds_closed_tools [OF all] assms(4) by simp
  ultimately show ?thesis using close_message
    by (intro exI [of _ "[assistant_text cancelled_text]"])
      (simp add: add_assistant_def push_message_def history_has_incomplete_turn_def)
next
  fix a m ts assume h: "s_history s = a @ m # ts" "\<not> is_tool m" "list_all is_tool ts"
  show ?thesis
  proof (cases "is_user m")
    case True
    have "ts \<noteq> []" using assms(3) h True by (cases ts) auto
    then show ?thesis using abort_user_tools [OF True h(3) _ h(1) assms(4)] assms(1) h(1) by metis
  next
    case nu: False
    note ab = abort_history [OF nu h(2,3,1)]
    show ?thesis
    proof (cases "pending_of m ts = [] \<and> ts = []")
      case True
      then have "is_assistant m \<longrightarrow> calls_of m = []"
        by (auto simp: pending_of_def fulfilled_ids_def List.map_filter_simps split: if_splits)
      moreover have "rounds_closed (a @ [m])" using assms(1) h(1) True by simp
      ultimately have "rounds_closed (a @ m # [u])"
        unfolding rounds_closed_split [OF h(2), of a "[u]"] using assms(4) by auto
      moreover have "\<not> history_has_incomplete_turn (s_history s)"
      proof -
        have p: "pending_of m [] = []" and e: "ts = []" using True by auto
        show ?thesis unfolding history_has_incomplete_turn_def h(1) tail_walk_msg [OF h(2,3)]
          using nu p e by simp
      qed
      ultimately show ?thesis unfolding ab if_P [OF True] using True h by (intro exI [of _ "[]"]) simp
    next
      case False
      let ?cs = "map abort_result (pending_of m ts)"
      have "rounds_closed (a @ m # (ts @ ?cs) @ [assistant_text cancelled_text] @ [u])"
        using assms(1,4) h missing_aborted [OF _ h(3)]
        by (intro rounds_closed_snoc_user [where c = "assistant_text cancelled_text"]) auto
      then show ?thesis unfolding ab using False h close_message
        by (intro exI [of _ "?cs @ [assistant_text cancelled_text]"])
          (simp add: add_assistant_def push_message_def fold_cancel_history history_has_incomplete_turn_def)
    qed
  qed
qed

definition open_session :: "chat_message list \<Rightarrow> unit session" where
  "open_session h = (new_session (cps ''s1''))\<lparr>s_history := h, s_message_ids := replicate (length h) 0\<rparr>"

definition open_call :: chat_message where
  "open_call = (assistant_text (cps ''look''))
     \<lparr>cm_tool_calls := Some [\<lparr>call_id = cps ''c1'', call_name = cps ''shell'', call_arguments = cps ''{}''\<rparr>]\<rparr>"

lemma open_call_simps [simp]:
  "is_assistant open_call"
  "calls_of open_call = [\<lparr>call_id = cps ''c1'', call_name = cps ''shell'', call_arguments = cps ''{}''\<rparr>]"
  by (simp_all add: open_call_def calls_of_def assistant_text_def text_message_def)

theorem abort_closes_turn_witness:
  "\<exists>added. s_history (fst (close_incomplete_turn_on_abort (open_session [user_text (cps ''a''), open_call])))
      = s_history (open_session [user_text (cps ''a''), open_call]) @ added
    \<and> snd (close_incomplete_turn_on_abort (open_session [user_text (cps ''a''), open_call])) = 0
    \<and> \<not> history_has_incomplete_turn (s_history (open_session [user_text (cps ''a''), open_call]) @ added)
    \<and> rounds_closed (s_history (open_session [user_text (cps ''a''), open_call]) @ added @ [user_text (cps ''b'')])"
  by (rule abort_closes_turn) (simp_all add: open_session_def after_round_def)

text \<open>A user message at the tail hides an open round from the abort: the user messages are dropped, the
  session is marked complete, and the history is left ending in tool calls without results.\<close>

theorem abort_leaves_open_round:
  assumes "s_history s = h @ a # us" "is_assistant a" "calls_of a \<noteq> []"
    "list_all is_user us" "us \<noteq> []" "parallel s"
  shows "s_history (fst (close_incomplete_turn_on_abort s)) = h @ [a]
    \<and> \<not> s_incomplete_turn (fst (close_incomplete_turn_on_abort s))
    \<and> history_has_incomplete_turn (s_history (fst (close_incomplete_turn_on_abort s)))"
proof -
  obtain s' k where d: "drop_trailing_users s 0 = (s', k)" by fastforce
  from drop_users_spec [OF d assms(6)] obtain vs where vs: "s_history s = s_history s' @ vs"
    "list_all is_user vs" "s_history s' = [] \<or> \<not> is_user (last (s_history s'))" by blast
  have eq: "s_history s' = h @ [a]"
    using users_suffix_unique [of "h @ [a]" us "s_history s'" vs] vs assms(1,2,4) by simp
  have "is_user (last (s_history s))" "s_history s \<noteq> []"
    using assms(1,4,5) by (cases us rule: rev_cases; simp)+
  then have "fst (close_incomplete_turn_on_abort s) = s'\<lparr>s_incomplete_turn := False\<rparr>"
    using d by (simp add: close_incomplete_turn_on_abort_def)
  then show ?thesis using eq assms(2,3)
    by (simp add: history_has_incomplete_turn_def)
qed

theorem abort_leaves_open_round_witness:
  "s_history (fst (close_incomplete_turn_on_abort (open_session ([user_text (cps ''a'')] @ open_call # [user_text (cps ''b'')]))))
      = [user_text (cps ''a'')] @ [open_call]
    \<and> \<not> s_incomplete_turn (fst (close_incomplete_turn_on_abort
        (open_session ([user_text (cps ''a'')] @ open_call # [user_text (cps ''b'')]))))
    \<and> history_has_incomplete_turn (s_history (fst (close_incomplete_turn_on_abort
        (open_session ([user_text (cps ''a'')] @ open_call # [user_text (cps ''b'')])))))"
  by (rule abort_leaves_open_round [where us = "[user_text (cps ''b'')]"])
    (simp_all add: open_session_def parallel_def)

text \<open>The breakpoints of a history are exactly its unanswered calls, each reported once.\<close>

theorem breakpoints_exact:
  "bp_id ` set (identify_breakpoint h) = {t. unanswered h t} \<and> distinct (map bp_id (identify_breakpoint h))"
  using breakpoint_ids breakpoints_distinct by blast

text \<open>The calls of a history in order, and the name under which an id was declared last.\<close>

definition declared_calls :: "chat_message list \<Rightarrow> (utext \<times> utext) list" where
  "declared_calls h = concat (map (\<lambda>m. if is_assistant m then map (\<lambda>c. (call_id c, call_name c)) (calls_of m) else []) h)"

definition declared_name :: "chat_message list \<Rightarrow> utext \<Rightarrow> utext option" where
  "declared_name h t = map_of (rev (declared_calls h)) t"

lemma declared_name_snoc:
  "declared_name (h @ [m]) t =
     (case (if is_assistant m then map_of (rev (map (\<lambda>c. (call_id c, call_name c)) (calls_of m))) t else None) of
        Some n \<Rightarrow> Some n | None \<Rightarrow> declared_name h t)"
  by (auto simp: declared_name_def declared_calls_def map_add_def split: option.split)

lemma update_calls_names:
  "map_option fst (map_of (foldl (\<lambda>p c. AList.update (call_id c) (call_name c, call_arguments c) p) p cs) t)
     = (case map_of (rev (map (\<lambda>c. (call_id c, call_name c)) cs)) t of
          Some n \<Rightarrow> Some n | None \<Rightarrow> map_option fst (map_of p t))"
proof (induction cs arbitrary: p)
  case (Cons c cs)
  show ?case by (simp add: Cons.IH update_conv' map_add_def split: option.split)
qed simp

lemma pending_names:
  "map_of (foldl note_message [] h) t = Some x \<Longrightarrow> declared_name h t = Some (fst x)"
proof (induction h arbitrary: x rule: rev_induct)
  case (snoc m h)
  let ?p = "foldl note_message [] h"
  have IH: "map_option fst (map_of ?p t) = Some n \<Longrightarrow> declared_name h t = Some n" for n
    using snoc.IH by auto
  show ?case
  proof (cases "is_assistant m")
    case True
    have "map_option fst (map_of (foldl note_message [] (h @ [m])) t) = Some (fst x)" using snoc.prems by simp
    then show ?thesis using True IH
      by (auto simp: note_message_def update_calls_names declared_name_snoc split: option.splits)
  next
    case False
    have "map_of (note_message ?p m) t = Some x" using snoc.prems by simp
    with False have "map_of ?p t = Some x"
      by (auto simp: note_message_def [of ?p] delete_conv' split: if_splits option.splits)
    then show ?thesis using False snoc.IH by (simp add: declared_name_snoc)
  qed
qed simp

lemma breakpoint_name:
  assumes "identify_breakpoint h = [b]"
  shows "declared_name h (bp_id b) = Some (bp_name b)"
proof -
  obtain i n a where f: "foldl note_message [] h = [(i, n, a)]" "b = \<lparr>bp_id = i, bp_name = n, bp_arguments = a\<rparr>"
    using assms by (auto simp: identify_breakpoint_def)
  then have "map_of (foldl note_message [] h) i = Some (n, a)" by simp
  from pending_names [OF this] show ?thesis by (simp add: f(2))
qed

lemma sole_breakpoint:
  "{t. unanswered h t} = {i} \<longleftrightarrow> (\<exists>b. identify_breakpoint h = [b] \<and> bp_id b = i)"
proof
  assume u: "{t. unanswered h t} = {i}"
  then have s: "set (map bp_id (identify_breakpoint h)) = {i}" using breakpoint_ids [of h] by simp
  have "map bp_id (identify_breakpoint h) = [i]" using breakpoints_distinct [of h] s
    by (cases "map bp_id (identify_breakpoint h)"; cases "tl (map bp_id (identify_breakpoint h))") auto
  then show "\<exists>b. identify_breakpoint h = [b] \<and> bp_id b = i" by auto
next
  assume "\<exists>b. identify_breakpoint h = [b] \<and> bp_id b = i"
  then show "{t. unanswered h t} = {i}" using breakpoint_ids [of h] by auto
qed

lemma reloaded_yield_iff:
  "reloaded_yield (identify_breakpoint h) = Some p \<longleftrightarrow>
     {t. unanswered h t} = {py_tool_call_id p} \<and> declared_name h (py_tool_call_id p) = Some (cps ''sessions_yield'')
     \<and> py_implicit p = prefix (cps ''call_implicit_yield_'') (py_tool_call_id p)"
  (is "?l \<longleftrightarrow> ?r")
proof
  assume ?l
  then obtain b where b: "identify_breakpoint h = [b]" "bp_name b = cps ''sessions_yield''"
      "p = \<lparr>py_tool_call_id = bp_id b, py_implicit = prefix (cps ''call_implicit_yield_'') (bp_id b)\<rparr>"
    by (auto simp: reloaded_yield_def split: list.splits if_splits)
  then show ?r using sole_breakpoint [of h "bp_id b"] breakpoint_name [OF b(1)] by simp
next
  assume r: ?r
  then obtain b where b: "identify_breakpoint h = [b]" "bp_id b = py_tool_call_id p"
    using sole_breakpoint [of h "py_tool_call_id p"] by blast
  then have "bp_name b = cps ''sessions_yield''" using breakpoint_name [OF b(1)] r by simp
  then show ?l using b r by (cases p) (simp add: reloaded_yield_def)
qed

lemma loaded_pairs_sub: "subseq (loaded_pairs rows) rows"
  using sanitize_paired_keeps_ids [of rows] by (simp add: loaded_pairs_def)

lemma loaded_users: "filter is_user (map snd (loaded_pairs rows)) = filter is_user (map snd rows)"
proof -
  let ?f = "filter (\<lambda>p. keep_message (known_tool_ids (map snd rows)) (snd p)) rows"
  have f: "map snd ?f = remove_orphans (map snd rows)" by (simp add: remove_orphans_def filter_map comp_def)
  have "map snd (loaded_pairs rows) = remove_orphans (map snd rows)
     \<or> map snd (loaded_pairs rows) = trim_unfulfilled (fulfilled_ids (map snd ?f)) (remove_orphans (map snd rows))"
    using trim_paired_map [of "fulfilled_ids (map snd ?f)" ?f] f
    by (auto simp: loaded_pairs_def sanitize_paired_def Let_def)
  then show ?thesis using trim_users orphans_users by metis
qed

lemma tail_walk_flag: "snd (tail_walk ms c True)"
  by (induction ms arbitrary: c) auto

lemma incomplete_iff:
  "history_has_incomplete_turn h \<longleftrightarrow>
     h \<noteq> [] \<and> (is_user (last h) \<or> is_tool (last h) \<or> is_assistant (last h) \<and> calls_of (last h) \<noteq> [])"
proof (cases h rule: rev_cases)
  case (snoc g m)
  show ?thesis
  proof (cases "is_tool m")
    case True
    obtain ps b where w: "tail_walk (rev g) (case cm_tool_call_id m of Some t \<Rightarrow> insert t {} | None \<Rightarrow> {}) True = (ps, b)"
      by fastforce
    then have "b" using tail_walk_flag by (metis snd_conv)
    with True snoc w show ?thesis by (auto simp: history_has_incomplete_turn_def)
  qed (auto simp: snoc history_has_incomplete_turn_def)
qed (simp add: history_has_incomplete_turn_def)

text \<open>C16: A reloaded session: its messages are stored rows, each with its own id and in their order, all user
  messages among them; every tool result answers an id that some message of it declares; its turn is incomplete
  exactly when its last message is of the user, is a tool result or declares calls; and it waits on a yield exactly when the
  stored history has one unanswered call only and that call was declared as \<open>sessions_yield\<close>.\<close>

theorem load_session_sound:
  "subseq (zip (s_message_ids (load_session B i owner)) (s_history (load_session B i owner))) (be_rows B i)
   \<and> length (s_message_ids (load_session B i owner)) = length (s_history (load_session B i owner))
   \<and> filter is_user (s_history (load_session B i owner)) = filter is_user (map snd (be_rows B i))
   \<and> declared (s_history (load_session B i owner))
   \<and> (s_incomplete_turn (load_session B i owner) \<longleftrightarrow>
        (let h = s_history (load_session B i owner) in
         h \<noteq> [] \<and> (is_user (last h) \<or> is_tool (last h) \<or> is_assistant (last h) \<and> calls_of (last h) \<noteq> [])))
   \<and> (s_pending_yield (load_session B i owner) = Some p \<longleftrightarrow>
        {t. unanswered (map snd (be_rows B i)) t} = {py_tool_call_id p}
        \<and> declared_name (map snd (be_rows B i)) (py_tool_call_id p) = Some (cps ''sessions_yield'')
        \<and> py_implicit p = prefix (cps ''call_implicit_yield_'') (py_tool_call_id p))"
proof -
  have "zip (map fst xs) (map snd xs) = xs" for xs :: "(int \<times> chat_message) list" by (rule zip_map_fst_snd)
  then show ?thesis
    using loaded_pairs_sub loaded_users loaded_declared by (simp add: load_session_def Let_def reloaded_yield_iff incomplete_iff)
qed

end
