(* ===== verification/Tool_Filter.thy ===== *)
theory Tool_Filter
  imports Session_History
begin

text \<open>
  \<open>agents/agent/tool_filter.rs\<close> and \<open>rebuild_messages\<close> of \<open>agents/compaction_engine/engine.rs\<close>: which
  tools a request offers, and how the calls of a tool it does not offer are folded into text.
\<close>

subsection \<open>Tools by name\<close>

text \<open>What a turn's session and channel say about the two send tools.\<close>

record channel_info =
  ch_supports_file_send :: bool

definition keeps_turn_tool :: "'m session \<Rightarrow> channel_info option \<Rightarrow> string \<Rightarrow> bool" where
  "keeps_turn_tool s channel name =
     (if name = ''send_message'' then
        (if s_parent s \<noteq> None then True
         else case channel of
           Some ch \<Rightarrow> s_last_message s \<noteq> None \<or> ch_supports_file_send ch
         | None \<Rightarrow> False)
      else if name = ''send_media'' then False
      else if name \<in> set [''friend_request'', ''friend_accept'', ''friend_decline'', ''friend_list''] then
        s_parent s = None
      else True)"

definition filter_turn_scoped_tools ::
  "string list option \<Rightarrow> 'm session \<Rightarrow> channel_info option \<Rightarrow> string list \<Rightarrow> string list" where
  "filter_turn_scoped_tools allowlist s channel tools =
     filter (keeps_turn_tool s channel)
       (case allowlist of Some l \<Rightarrow> filter (\<lambda>t. t \<in> set l) tools | None \<Rightarrow> tools)"

subsection \<open>Native media\<close>

fun inline_modality :: "fs_env \<Rightarrow> media_policy \<Rightarrow> content_part \<Rightarrow> file_modality option" where
  "inline_modality E p (File_Part path mime name sz) =
     (let m = modality_from_mime E mime path in
      if decision_for p m sz = Inline then Some m else None)"
| "inline_modality E p _ = None"

fun note_modality :: "file_modality option \<Rightarrow> bool \<times> bool \<times> bool \<Rightarrow> bool \<times> bool \<times> bool" where
  "note_modality (Some Image) (i, a, v) = (True, a, v)"
| "note_modality (Some Audio) (i, a, v) = (i, True, v)"
| "note_modality (Some Video) (i, a, v) = (i, a, True)"
| "note_modality _ x = x"

definition native_media_availability ::
  "fs_env \<Rightarrow> media_policy \<Rightarrow> chat_message list \<Rightarrow> bool \<times> bool \<times> bool" where
  "native_media_availability E p ms =
     foldl (\<lambda>acc m. foldl (\<lambda>acc q. note_modality (inline_modality E p q) acc) acc (cm_parts m))
       (False, False, False) ms"

definition filter_modality_redundant_tools ::
  "fs_env \<Rightarrow> media_policy \<Rightarrow> chat_message list \<Rightarrow> string list \<Rightarrow> string list" where
  "filter_modality_redundant_tools E p ms tools =
     (case native_media_availability E p ms of (img, aud, vid) \<Rightarrow>
        filter (\<lambda>t. \<not> (if t = ''view_video'' then vid else if t = ''view_image'' then img
                      else if t = ''hear_audio'' then aud else False)) tools)"

subsection \<open>Folding the calls of an absent tool\<close>

definition absent_ids :: "utext \<Rightarrow> chat_message list \<Rightarrow> utext set" where
  "absent_ids tool ms =
     set (map call_id (filter (\<lambda>tc. call_name tc = tool)
       (concat (map calls_of (filter is_assistant ms)))))"

text \<open>The results by id; a later result of the same id replaces an earlier one.\<close>

primrec absent_results :: "utext set \<Rightarrow> chat_message list \<Rightarrow> utext \<Rightarrow> utext option" where
  "absent_results ids [] = Map.empty"
| "absent_results ids (m # ms) =
     (case (absent_results ids ms, cm_tool_call_id m) of
        (r, Some t) \<Rightarrow>
          if is_tool m \<and> t \<in> ids \<and> r t = None then r(t \<mapsto> text_content m) else r
      | (r, None) \<Rightarrow> r)"

definition fold_message :: "utext \<Rightarrow> utext \<Rightarrow> (utext \<Rightarrow> utext option) \<Rightarrow> chat_message \<Rightarrow> chat_message" where
  "fold_message tool label results m =
     (if \<not> is_assistant m then m
      else case cm_tool_calls m of
        None \<Rightarrow> m
      | Some tcs \<Rightarrow>
          let mine = filter (\<lambda>tc. call_name tc = tool) tcs;
              rest = filter (\<lambda>tc. call_name tc \<noteq> tool) tcs
          in m\<lparr>cm_tool_calls := (if rest = [] then None else Some rest),
               cm_parts := cm_parts m @ List.map_filter (\<lambda>tc.
                 case results (call_id tc) of
                   Some out \<Rightarrow> if out \<noteq> [] then Some (Text_Part (91 # label @ [93, 58, 32] @ out)) else None
                 | None \<Rightarrow> None) mine\<rparr>)"

definition fold_absent_tool :: "utext list \<Rightarrow> utext \<Rightarrow> utext \<Rightarrow> chat_message list \<Rightarrow> chat_message list" where
  "fold_absent_tool specs tool label ms =
     (if tool \<in> set specs then ms
      else
        let ids = absent_ids tool ms in
        if ids = {} then ms
        else
          filter (\<lambda>m. \<not> (is_tool m \<and> (case cm_tool_call_id m of Some t \<Rightarrow> t \<in> ids | None \<Rightarrow> False)))
            (map (fold_message tool label (absent_results ids ms)) ms))"

definition message_label :: utext where
  "message_label = [0x6D88, 0x606F, 0x53D1, 0x9001, 0x7ED3, 0x679C]"

definition media_label :: utext where
  "media_label = [0x5A92, 0x4F53, 0x53D1, 0x9001, 0x7ED3, 0x679C]"

definition rebuild_messages :: "utext \<Rightarrow> chat_message list \<Rightarrow> utext list \<Rightarrow> chat_message list" where
  "rebuild_messages system_prompt history specs =
     fold_absent_tool specs (cps ''send_media'') media_label
       (fold_absent_tool specs (cps ''send_message'') message_label
         (sanitize_history (system_text system_prompt # history)))"

subsection \<open>Facts\<close>

lemma fold_message_role [simp]: "cm_role (fold_message tool label r m) = cm_role m"
  "cm_tool_call_id (fold_message tool label r m) = cm_tool_call_id m"
  by (simp_all add: fold_message_def Let_def split: option.split)

lemma fold_message_calls:
  "is_assistant m \<Longrightarrow> calls_of (fold_message tool label r m) = filter (\<lambda>tc. call_name tc \<noteq> tool) (calls_of m)"
  by (auto simp: fold_message_def calls_of_def Let_def split: option.split)

lemma fold_message_other: "\<not> is_assistant m \<Longrightarrow> fold_message tool label r m = m"
  by (simp add: fold_message_def)

lemma known_iff:
  "t \<in> known_tool_ids ms \<longleftrightarrow> (\<exists>m \<in> set ms. is_assistant m \<and> (\<exists>tc \<in> set (calls_of m). call_id tc = t))"
  by (auto simp: known_tool_ids_def call_ids_def)

lemma fold_known:
  "t \<in> known_tool_ids (map (fold_message tool label r) ms) \<longleftrightarrow>
     (\<exists>m \<in> set ms. is_assistant m \<and> (\<exists>tc \<in> set (calls_of m). call_id tc = t \<and> call_name tc \<noteq> tool))"
proof -
  have "(is_assistant (fold_message tool label r m)
        \<and> (\<exists>tc \<in> set (calls_of (fold_message tool label r m)). call_id tc = t)) \<longleftrightarrow>
      is_assistant m \<and> (\<exists>tc \<in> set (calls_of m). call_id tc = t \<and> call_name tc \<noteq> tool)" for m
    by (cases "is_assistant m") (auto simp: fold_message_calls)
  then show ?thesis by (simp add: known_iff)
qed

lemma known_tools_filter: "(\<And>m. is_assistant m \<Longrightarrow> P m) \<Longrightarrow> known_tool_ids (filter P ms) = known_tool_ids ms"
  by (induction ms) (auto simp: known_Cons)

lemma absent_ids_empty: "absent_ids tool ms = {} \<longleftrightarrow>
    (\<forall>m \<in> set ms. is_assistant m \<longrightarrow> (\<forall>tc \<in> set (calls_of m). call_name tc \<noteq> tool))"
  by (auto simp: absent_ids_def filter_empty_conv)

lemma fold_declared:
  assumes "declared ms"
  shows "declared (fold_absent_tool specs tool label ms)"
proof (cases "tool \<in> set specs \<or> absent_ids tool ms = {}")
  case True
  then show ?thesis using assms by (auto simp: fold_absent_tool_def Let_def)
next
  case False
  let ?ids = "absent_ids tool ms"
  let ?g = "fold_message tool label (absent_results ?ids ms)"
  let ?keep = "\<lambda>m. \<not> (is_tool m \<and> (case cm_tool_call_id m of Some t \<Rightarrow> t \<in> ?ids | None \<Rightarrow> False))"
  have eq: "fold_absent_tool specs tool label ms = filter ?keep (map ?g ms)"
    using False by (simp add: fold_absent_tool_def Let_def)
  have known: "known_tool_ids (filter ?keep (map ?g ms)) = known_tool_ids (map ?g ms)"
    by (rule known_tools_filter) simp
  show ?thesis unfolding eq declared_iff known
  proof (intro ballI impI)
    fix x assume x: "x \<in> set (filter ?keep (map ?g ms))" "is_tool x"
    then obtain m where m: "m \<in> set ms" "x = ?g m" "is_tool m" by auto
    then obtain t where t: "cm_tool_call_id m = Some t" "t \<in> known_tool_ids ms"
      using assms by (auto simp: declared_iff)
    then have "t \<notin> ?ids" using x m by auto
    obtain k tc where k: "k \<in> set ms" "is_assistant k" "tc \<in> set (calls_of k)" "call_id tc = t"
      using t(2) by (auto simp: known_iff)
    then have "call_name tc \<noteq> tool" using \<open>t \<notin> ?ids\<close> by (auto simp: absent_ids_def)
    then have "t \<in> known_tool_ids (map ?g ms)" unfolding fold_known using k by blast
    then show "\<exists>t \<in> known_tool_ids (map ?g ms). cm_tool_call_id x = Some t" using t m by auto
  qed
qed

definition calls_tool :: "utext \<Rightarrow> chat_message \<Rightarrow> bool" where
  "calls_tool tool m \<longleftrightarrow> is_assistant m \<and> list_ex (\<lambda>tc. call_name tc = tool) (calls_of m)"

lemma fold_removes_calls:
  "tool \<notin> set specs \<Longrightarrow> \<not> list_ex (calls_tool tool) (fold_absent_tool specs tool label ms)"
  by (auto simp: fold_absent_tool_def Let_def list_ex_iff calls_tool_def absent_ids_empty fold_message_calls)

lemma fold_keeps_absence:
  "\<not> list_ex (calls_tool t) ms \<Longrightarrow> \<not> list_ex (calls_tool t) (fold_absent_tool specs tool label ms)"
  by (auto simp: fold_absent_tool_def Let_def list_ex_iff calls_tool_def fold_message_calls) blast+

lemma fold_users:
  "filter is_user (fold_absent_tool specs tool label ms) = filter is_user ms"
proof -
  have "filter is_user (filter P (map (fold_message tool label r) ms)) = filter is_user ms"
    if "\<And>m. is_user m \<Longrightarrow> P m" for P r
    using that by (induction ms) (auto simp: fold_message_other)
  then show ?thesis by (simp add: fold_absent_tool_def Let_def)
qed

subsection \<open>Properties\<close>

text \<open>A rebuilt request names only tools it offers as far as the two send tools go: no call of
  \<open>send_message\<close> or \<open>send_media\<close> is left when the tool is not offered, every tool result still answers
  a declared call, and no user message is lost on the way.\<close>

theorem rebuild_offers_what_it_calls:
  "(cps ''send_message'' \<in> set specs \<or> filter (calls_tool (cps ''send_message'')) (rebuild_messages p h specs) = [])
   \<and> (cps ''send_media'' \<in> set specs \<or> filter (calls_tool (cps ''send_media'')) (rebuild_messages p h specs) = [])
   \<and> declared (rebuild_messages p h specs)
   \<and> subseq (user_parts h) (user_parts (rebuild_messages p h specs))"
proof -
  let ?r = "sanitize_history (system_text p # h)"
  have "user_parts (rebuild_messages p h specs) = user_parts ?r"
    by (simp add: rebuild_messages_def user_parts_def fold_users)
  moreover have "user_parts (system_text p # h) = user_parts h" by (simp add: user_parts_def)
  moreover have "subseq (user_parts (system_text p # h)) (user_parts ?r)" by (rule sanitize_user_parts)
  moreover have "declared ?r" using sanitize_repaired by (simp add: repaired_def)
  moreover have "filter (calls_tool t) ms = [] \<longleftrightarrow> \<not> list_ex (calls_tool t) ms" for t ms
    by (auto simp: filter_empty_conv list_ex_iff)
  ultimately show ?thesis
    by (auto simp: rebuild_messages_def intro: fold_declared dest: fold_removes_calls fold_keeps_absence)
qed

definition send_call :: "utext \<Rightarrow> utext \<Rightarrow> chat_message" where
  "send_call i args = (assistant_text (cps ''sending''))
     \<lparr>cm_tool_calls := Some [\<lparr>call_id = i, call_name = cps ''send_message'', call_arguments = args\<rparr>]\<rparr>"

definition send_result :: "utext \<Rightarrow> utext \<Rightarrow> chat_message" where
  "send_result i out = (text_message ''tool'' out)\<lparr>cm_tool_call_id := Some i\<rparr>"

text \<open>The folding runs after the repair that separates the turns, so a rebuilt request can hold two
  assistant messages in a row: the folded call of a tool that is no longer offered and the answer
  that followed its result.\<close>

theorem rebuild_adjacent_assistants:
  "\<not> alternating (rebuild_messages p
     [user_text u, send_call i args, send_result i out, assistant_text t] [])"
proof -
  let ?h = "[system_text p, user_text u, send_call i args, send_result i out, assistant_text t]"
  have roles: "cm_role (send_call i args) = ''assistant''" "cm_role (send_result i out) = ''tool''"
    "cm_tool_call_id (send_result i out) = Some i"
    "calls_of (send_call i args) = [\<lparr>call_id = i, call_name = cps ''send_message'', call_arguments = args\<rparr>]"
    "calls_of (send_result i out) = []" "calls_of (system_text p) = []"
    by (simp_all add: send_call_def send_result_def calls_of_def system_text_def text_message_def
        assistant_text_def)
  have "repaired ?h"
    by (simp add: repaired_def declared_def alternating_def same_turn_def can_merge_def roles
        round_results_def after_round_def missing_calls_def List.map_filter_simps known_tool_ids_def
        call_ids_def unfulfilled_round_def)
  then have san: "sanitize_history ?h = ?h" by (rule repaired_fixed)
  have ids: "absent_ids (cps ''send_message'') ?h = {i}" by (simp add: absent_ids_def roles)
  define m where "m = fold_message (cps ''send_message'') message_label
    (absent_results {i} ?h) (send_call i args)"
  have m: "is_assistant m" "calls_of m = []"
    by (simp_all add: m_def roles fold_message_calls)
  have f: "fold_absent_tool [] (cps ''send_message'') message_label ?h
      = [system_text p, user_text u, m, fold_message (cps ''send_message'') message_label
          (absent_results {i} ?h) (assistant_text t)]"
    unfolding fold_absent_tool_def Let_def ids
    by (simp add: roles fold_message_other m_def)
  define k where "k = fold_message (cps ''send_message'') message_label (absent_results {i} ?h) (assistant_text t)"
  have k: "is_assistant k" "calls_of k = []" by (simp_all add: k_def fold_message_calls)
  have "absent_ids (cps ''send_media'') [system_text p, user_text u, m, k] = {}"
    by (simp add: absent_ids_def m k roles)
  then have "rebuild_messages p (tl ?h) [] = [system_text p, user_text u, m, k]"
    unfolding rebuild_messages_def list.sel san f k_def [symmetric]
    by (simp add: fold_absent_tool_def Let_def)
  then show ?thesis using m k by (simp add: alternating_def same_turn_def can_merge_def)
qed

end
