(* ===== verification/Fold.thy ===== *)
theory Fold
  imports Tokens
begin

text \<open>
  \<open>agents/compaction_engine/fold.rs\<close>, \<open>evidence.rs\<close> and the audit of \<open>summarizer.rs\<close>: which slice of a
  history is compacted, which trailing user messages are protected, the deterministic fold that
  stands in for a summary, and the evidence index.  The four regular expressions of the index are
  a record of functions that list the matches of a text.
\<close>

definition compaction_marker :: utext where
  "compaction_marker = cps ''[CONTEXT COMPACTION '' @ [0x2014] @ cps '' REFERENCE ONLY]''"

definition starts_marked :: "chat_message \<Rightarrow> bool" where
  "starts_marked m \<longleftrightarrow> prefix compaction_marker (text_content m)"

subsection \<open>Ranges\<close>

definition find_incremental_range ::
  "chat_message list \<Rightarrow> nat \<Rightarrow> nat \<times> nat \<times> nat \<times> utext option" where
  "find_incremental_range h boundary =
     (case rposition (\<lambda>m. is_user m \<and> starts_marked m) (take boundary h) of
        Some i \<Rightarrow> (i, i + 1, boundary, Some (text_content (h ! i)))
      | None \<Rightarrow> (0, 0, boundary, None))"

fun streak_back :: "chat_message list \<Rightarrow> nat \<Rightarrow> nat" where
  "streak_back h 0 = 0"
| "streak_back h (Suc n) = (if is_user (h ! n) then streak_back h n else Suc n)"

function skip_summaries :: "chat_message list \<Rightarrow> nat \<Rightarrow> nat" where
  "skip_summaries h n =
     (if n < length h \<and> starts_marked (h ! n) then skip_summaries h (Suc n) else n)"
  by pat_completeness auto
termination
  by (relation "measure (\<lambda>(h, n). length h - n)") auto

declare skip_summaries.simps [simp del]

definition open_user_protected_from :: "chat_message list \<Rightarrow> nat option" where
  "open_user_protected_from h =
     (if h = [] then None
      else
        let streak_start = streak_back h (length h) in
        if streak_start = length h then None
        else
          let protected = skip_summaries h streak_start in
          if length h \<le> protected then None else Some protected)"

subsection \<open>The hard fold\<close>

definition strip_leading_system_reminder :: "utext \<Rightarrow> utext" where
  "strip_leading_system_reminder t =
     (case strip_prefix (cps ''<system-reminder>'') (trim_start t) of
        Some rest \<Rightarrow>
          (case str_find (cps ''</system-reminder>'') rest of
             Some e \<Rightarrow> trim (drop (e + length (cps ''</system-reminder>'')) rest)
           | None \<Rightarrow> t)
      | None \<Rightarrow> t)"

definition hard_prior_summary_chars :: nat where "hard_prior_summary_chars = 6000"
definition hard_msg_chars :: nat where "hard_msg_chars = 400"
definition hard_tool_chars :: nat where "hard_tool_chars = 200"
definition hard_total_chars :: nat where "hard_total_chars = 12000"

definition truncate_ellipsis :: "utext \<Rightarrow> nat \<Rightarrow> utext" where
  "truncate_ellipsis s mx = (if length s \<le> mx then s else take (mx - 1) s @ [0x2026])"

definition truncate_chars_prefer_tail :: "utext \<Rightarrow> nat \<Rightarrow> utext" where
  "truncate_chars_prefer_tail s mx =
     (if length s \<le> mx then s else 0x2026 # drop (length s - (mx - 1)) s)"

definition prior_summary_note :: "utext \<Rightarrow> utext" where
  "prior_summary_note t =
     cps ''[prior compaction summary, '' @ cps (show_nat (length t)) @ cps '' chars]''"

definition user_text_for_hard_fold :: "utext \<Rightarrow> utext" where
  "user_text_for_hard_fold t =
     (if prefix compaction_marker t then prior_summary_note t
      else
        let body = strip_leading_system_reminder t in
        if body = [] then
          (if contains t (cps ''<system-reminder>'') then cps ''[system-reminder only]'' else [])
        else if length body \<le> hard_msg_chars then body
        else truncate_chars_prefer_tail body hard_msg_chars)"

fun join_with :: "utext \<Rightarrow> utext list \<Rightarrow> utext" where
  "join_with sep [] = []"
| "join_with sep [x] = x"
| "join_with sep (x # xs) = x @ sep @ join_with sep xs"

fun media_marker :: "fs_env \<Rightarrow> content_part \<Rightarrow> utext option" where
  "media_marker E (File_Part path mime name sz) = Some (marker_for_file E path mime)"
| "media_marker E _ = None"

definition media_markers_for_hard_fold :: "fs_env \<Rightarrow> chat_message \<Rightarrow> utext" where
  "media_markers_for_hard_fold E m = join_with [32] (List.map_filter (media_marker E) (cm_parts m))"

record fold_counts =
  fc_user :: nat
  fc_assistant :: nat
  fc_tool :: nat

definition numbered :: "char \<Rightarrow> nat \<Rightarrow> utext" where
  "numbered c n = of_char c # cps (show_nat n)"

definition user_line :: "fs_env \<Rightarrow> chat_message \<Rightarrow> utext" where
  "user_line E m =
     (let t = text_content m; media = media_markers_for_hard_fold E m in
      if prefix compaction_marker t then prior_summary_note t
      else
        let body = user_text_for_hard_fold t in
        if body = [] then media
        else if media = [] then body
        else media @ [32] @ body)"

definition assistant_line :: "chat_message \<Rightarrow> utext" where
  "assistant_line m =
     (let t = text_content m; tools = join_with [44] (map call_name (calls_of m)) in
      if trim t = [] \<and> tools \<noteq> [] then cps ''[tools: '' @ tools @ cps '']''
      else if tools \<noteq> [] then
        truncate_ellipsis (trim t) hard_msg_chars @ cps '' [tools: '' @ tools @ cps '']''
      else truncate_ellipsis (trim t) hard_msg_chars)"

definition tool_line :: "chat_message \<Rightarrow> nat \<Rightarrow> utext" where
  "tool_line m n =
     numbered (CHR ''T'') n @ (if cm_is_error m = Some True then cps '' ERR'' else []) @ [32]
     @ (case cm_name m of Some x \<Rightarrow> x | None \<Rightarrow> cps ''tool'') @ [35]
     @ (case cm_tool_call_id m of Some x \<Rightarrow> x | None \<Rightarrow> cps ''?'') @ [58, 32]
     @ truncate_ellipsis (trim (text_content m)) hard_tool_chars"

fun fold_lines :: "fs_env \<Rightarrow> fold_counts \<Rightarrow> chat_message list \<Rightarrow> utext list \<times> fold_counts" where
  "fold_lines E k [] = ([], k)"
| "fold_lines E k (m # ms) =
     (let (line, k') =
        (if is_user m then
           (numbered (CHR ''U'') (fc_user k + 1) @ [58, 32] @ user_line E m, k\<lparr>fc_user := fc_user k + 1\<rparr>)
         else if is_assistant m then
           (numbered (CHR ''A'') (fc_assistant k + 1) @ [58, 32] @ assistant_line m,
            k\<lparr>fc_assistant := fc_assistant k + 1\<rparr>)
         else if is_tool m then (tool_line m (fc_tool k + 1), k\<lparr>fc_tool := fc_tool k + 1\<rparr>)
         else (cps (cm_role m) @ [58, 32] @ truncate_ellipsis (trim (text_content m)) hard_msg_chars, k));
        (lines, k'') = fold_lines E k' ms
      in (line # lines, k''))"

definition fold_banner :: utext where
  "fold_banner = cps ''[HARD FOLD] Summarizer skipped or failed; deterministic history fold. Do NOT invent user tasks from this fold; only continue work the user explicitly requested in clear text.''"

definition fold_footer :: "fold_counts \<Rightarrow> nat \<Rightarrow> utext" where
  "fold_footer k n =
     [10] @ cps ''## Counts'' @ [10] @ cps ''user='' @ cps (show_nat (fc_user k))
     @ cps '' assistant='' @ cps (show_nat (fc_assistant k)) @ cps '' tool='' @ cps (show_nat (fc_tool k))
     @ cps '' total='' @ cps (show_nat n)"

definition cap_total :: "utext \<Rightarrow> utext" where
  "cap_total out =
     (if length out > hard_total_chars then
        take (hard_total_chars * 2 div 3) out @ [10, 0x2026, 10]
        @ drop (length out - hard_total_chars div 3) out
      else out)"

definition hard_fold_history :: "fs_env \<Rightarrow> chat_message list \<Rightarrow> utext" where
  "hard_fold_history E ms =
     (let (lines, k) = fold_lines E \<lparr>fc_user = 0, fc_assistant = 0, fc_tool = 0\<rparr> ms in
      cap_total (join_with [10] (fold_banner # lines @ [fold_footer k (length ms)])))"

definition strip_images :: "fs_env \<Rightarrow> chat_message \<Rightarrow> chat_message" where
  "strip_images E m = m\<lparr>cm_parts := map (age_part E) (cm_parts m)\<rparr>"

subsection \<open>Evidence\<close>

record evidence_re =
  re_commands :: "utext \<Rightarrow> utext list"
  re_commits :: "utext \<Rightarrow> utext list"
  re_runs :: "utext \<Rightarrow> utext list"
  re_paths :: "utext \<Rightarrow> utext list"

fun replace_all :: "utext \<Rightarrow> utext \<Rightarrow> utext \<Rightarrow> utext" where
  "replace_all pat rep [] = []"
| "replace_all pat rep (c # s) =
     (if pat \<noteq> [] \<and> prefix pat (c # s) then rep @ replace_all pat rep (drop (length pat - 1) s)
      else c # replace_all pat rep s)"

fun first_seen :: "utext set \<Rightarrow> utext list \<Rightarrow> utext list" where
  "first_seen seen [] = []"
| "first_seen seen (x # xs) =
     (if x \<in> seen then first_seen seen xs else x # first_seen (insert x seen) xs)"

definition extract_matches :: "(utext \<Rightarrow> utext list) \<Rightarrow> chat_message list \<Rightarrow> utext list" where
  "extract_matches f ms = first_seen {} (concat (map (\<lambda>m. f (text_content m)) ms))"

definition extract_shell_commands :: "evidence_re \<Rightarrow> chat_message list \<Rightarrow> utext list" where
  "extract_shell_commands R =
     extract_matches (\<lambda>t. map (replace_all [92, 110] [32]) (re_commands R t))"

definition extract_commit_hashes :: "evidence_re \<Rightarrow> chat_message list \<Rightarrow> utext list" where
  "extract_commit_hashes R = extract_matches (re_commits R)"

definition extract_ci_runs :: "evidence_re \<Rightarrow> chat_message list \<Rightarrow> utext list" where
  "extract_ci_runs R = extract_matches (re_runs R)"

definition extract_file_paths :: "evidence_re \<Rightarrow> chat_message list \<Rightarrow> utext list" where
  "extract_file_paths R = extract_matches (re_paths R)"

definition evidence_item :: "string \<Rightarrow> nat \<Rightarrow> string \<Rightarrow> utext list \<Rightarrow> utext" where
  "evidence_item label n sep xs =
     (if xs = [] then [] else cps ''- '' @ cps label @ join_with (cps sep) (take n xs) @ [10])"

definition append_evidence_index ::
  "evidence_re \<Rightarrow> utext \<Rightarrow> chat_message list \<Rightarrow> nat \<Rightarrow> nat \<Rightarrow> nat \<Rightarrow> utext \<Rightarrow> utext" where
  "append_evidence_index R summary ms start end' boundary model =
     summary
     @ (if contains summary (cps ''## Evidence Index'') \<or> contains summary (cps ''Evidence Index'')
        then [10, 10] @ cps ''Additional evidence captured by compaction:'' @ [10]
        else [10, 10] @ cps ''## Evidence Index'' @ [10])
     @ cps ''- Compaction range: compact_start='' @ cps (show_nat start) @ cps '', compact_end=''
     @ cps (show_nat end') @ cps '', boundary='' @ cps (show_nat boundary) @ cps '', messages_compacted=''
     @ cps (show_nat (length ms)) @ cps '', model='' @ model @ [10]
     @ evidence_item ''File paths: '' 20 '', '' (extract_file_paths R ms)
     @ evidence_item ''Commands: '' 10 '' | '' (extract_shell_commands R ms)
     @ evidence_item ''Commit hashes: '' 20 '', '' (extract_commit_hashes R ms)
     @ evidence_item ''CI/run IDs: '' 20 '', '' (extract_ci_runs R ms)"

definition audit_summary_quality :: "evidence_re \<Rightarrow> chat_message list \<Rightarrow> utext \<Rightarrow> bool \<times> utext list" where
  "audit_summary_quality R ms summary =
     (let short = (if length summary < 100
          then [cps ''summary too short: '' @ cps (show_nat (length summary)) @ cps '' chars (minimum 100)'']
          else []);
        paths = extract_file_paths R ms;
        lost = (if paths \<noteq> [] \<and> list_all (\<lambda>p. \<not> contains summary p) paths \<and> length paths \<le> 5
          then [cps ''no file paths preserved (original had '' @ cps (show_nat (length paths)) @ cps '')'']
          else [])
      in (short @ lost = [], short @ lost))"

subsection \<open>Facts\<close>

lemma streak_back_spec:
  "streak_back h n \<le> n" "streak_back h n \<le> k \<Longrightarrow> k < n \<Longrightarrow> is_user (h ! k)"
  "0 < streak_back h n \<Longrightarrow> \<not> is_user (h ! (streak_back h n - 1))"
  by (induction n) (auto split: if_splits elim: less_SucE simp: le_SucI)

lemma skip_step:
  "n < length h \<Longrightarrow> starts_marked (h ! n) \<Longrightarrow> skip_summaries h n = skip_summaries h (Suc n)"
  by (subst skip_summaries.simps) simp

lemma skip_stop: "\<not> (n < length h \<and> starts_marked (h ! n)) \<Longrightarrow> skip_summaries h n = n"
  by (subst skip_summaries.simps) auto

lemma skip_summaries_spec:
  "n \<le> skip_summaries h n" "n \<le> length h \<Longrightarrow> skip_summaries h n \<le> length h"
  "n \<le> k \<Longrightarrow> k < skip_summaries h n \<Longrightarrow> starts_marked (h ! k)"
  "skip_summaries h n < length h \<Longrightarrow> \<not> starts_marked (h ! skip_summaries h n)"
proof (induction h n rule: skip_summaries.induct)
  case (1 h n)
  { case 1 then show ?case using "1.IH"(1) by (subst skip_summaries.simps) (simp add: Suc_le_eq order_less_imp_le) }
  { case 2 then show ?case using "1.IH"(2) by (subst skip_summaries.simps) simp }
  { case 3
    show ?case
    proof (cases "n < length h \<and> starts_marked (h ! n)")
      case True
      then show ?thesis using 3 "1.IH"(3) [OF True]
        by (subst (asm) skip_summaries.simps) (cases "k = n"; simp)
    next
      case False
      then show ?thesis using 3 by (subst (asm) skip_summaries.simps) auto
    qed }
  { case 4
    show ?case
    proof (cases "n < length h \<and> starts_marked (h ! n)")
      case True
      then show ?thesis using 4 "1.IH"(4) skip_step by simp
    next
      case False
      then show ?thesis using 4 skip_stop by simp
    qed }
qed

text \<open>What is protected: the trailing user messages from the first that is not a summary; before them,
  back to the last message of another role, there are summaries only.\<close>

lemma protected_Some:
  assumes "open_user_protected_from h = Some p"
  shows "p < length h" "\<not> starts_marked (h ! p)" "\<forall>k. p \<le> k \<longrightarrow> k < length h \<longrightarrow> is_user (h ! k)"
proof -
  let ?s = "streak_back h (length h)"
  have p: "p = skip_summaries h ?s" "p < length h"
    using assms by (auto simp: open_user_protected_from_def Let_def split: if_splits)
  then show "p < length h" "\<not> starts_marked (h ! p)" using skip_summaries_spec(4) [of h ?s] by simp_all
  show "\<forall>k. p \<le> k \<longrightarrow> k < length h \<longrightarrow> is_user (h ! k)"
    using streak_back_spec(2) [of h "length h"] skip_summaries_spec(1) [of ?s h] p(1) by auto
qed

lemma protected_None:
  assumes "open_user_protected_from h = None" "h \<noteq> []" "is_user (last h)"
  shows "starts_marked (last h)"
proof -
  let ?s = "streak_back h (length h)"
  have l: "last h = h ! (length h - 1)" "0 < length h" using assms(2) by (simp_all add: last_conv_nth)
  have "?s < length h"
    using streak_back_spec(1) [of h "length h"] streak_back_spec(3) [of h "length h"] l assms(3)
    by (cases "?s = length h") auto
  then have "length h \<le> skip_summaries h ?s"
    using assms by (auto simp: open_user_protected_from_def Let_def split: if_splits)
  then show ?thesis
    using skip_summaries_spec(3) [of ?s "length h - 1" h] \<open>?s < length h\<close> l by simp
qed

lemma range_bounds:
  assumes "find_incremental_range h b = (rs, cs, ce, ex)" "b \<le> length h"
  shows "rs \<le> cs" "cs \<le> b" "ce = b" "cs \<le> rs + 1"
proof -
  have "i < b" if "rposition P (take b h) = Some i" for P i
    using rposition_SomeD(1) [OF that] assms(2) by simp
  then have "rs \<le> cs \<and> cs \<le> b \<and> ce = b \<and> cs \<le> rs + 1"
    using assms(1) by (auto simp: find_incremental_range_def Suc_le_eq split: option.splits)
  then show "rs \<le> cs" "cs \<le> b" "ce = b" "cs \<le> rs + 1" by simp_all
qed

lemma truncate_ellipsis_length: "0 < mx \<Longrightarrow> length (truncate_ellipsis s mx) \<le> mx"
  by (simp add: truncate_ellipsis_def)

lemma prefer_tail_length: "0 < mx \<Longrightarrow> length (truncate_chars_prefer_tail s mx) \<le> mx"
  by (simp add: truncate_chars_prefer_tail_def)

lemma cap_total_length: "length (cap_total s) \<le> hard_total_chars + 3"
  by (simp add: cap_total_def hard_total_chars_def)

lemma fold_lines_counts:
  "fold_lines E k ms = (lines, k') \<Longrightarrow>
     length lines = length ms
     \<and> fc_user k' = fc_user k + length (filter is_user ms)
     \<and> fc_assistant k' = fc_assistant k + length (filter is_assistant ms)
     \<and> fc_tool k' = fc_tool k + length (filter is_tool ms)"
proof (induction ms arbitrary: k lines k')
  case (Cons m ms)
  then show ?case by (auto simp: Let_def split: prod.splits if_splits)
qed simp

subsection \<open>Properties\<close>

text \<open>The deterministic fold is bounded however large the history is, and a fold that was not cut
  says exactly how many messages of each role it stands for.\<close>

theorem hard_fold_bounded:
  "length (hard_fold_history E ms) \<le> hard_total_chars + 3
   \<and> (hard_total_chars \<le> length (hard_fold_history E ms) \<or>
       suffix (fold_footer \<lparr>fc_user = length (filter is_user ms),
           fc_assistant = length (filter is_assistant ms), fc_tool = length (filter is_tool ms)\<rparr> (length ms))
         (hard_fold_history E ms))"
proof -
  obtain lines k where lk: "fold_lines E \<lparr>fc_user = 0, fc_assistant = 0, fc_tool = 0\<rparr> ms = (lines, k)"
    by fastforce
  have k: "k = \<lparr>fc_user = length (filter is_user ms),
      fc_assistant = length (filter is_assistant ms), fc_tool = length (filter is_tool ms)\<rparr>"
    using fold_lines_counts [OF lk] by (intro fold_counts.equality) simp_all
  have last: "suffix x (join_with sep (xs @ [x]))" for sep x and xs :: "utext list"
    by (induction xs rule: induct_list012) (auto simp: suffix_def)
  let ?out = "join_with [10] ((fold_banner # lines) @ [fold_footer k (length ms)])"
  have h: "hard_fold_history E ms = cap_total ?out"
    by (simp add: hard_fold_history_def lk)
  have "length (cap_total ?out) < hard_total_chars \<Longrightarrow> cap_total ?out = ?out"
    by (simp add: cap_total_def hard_total_chars_def split: if_splits)
  then show ?thesis
    unfolding h k [symmetric] using cap_total_length [of ?out] last by (metis not_le)
qed

end
