(* ===== verification/Summarizer.thy ===== *)
theory Summarizer
  imports Fold Chat_Stream
begin

text \<open>
  The summarizer of \<open>agents/compaction_engine/engine.rs\<close> (\<open>summarize\<close>, \<open>do_summarize\<close>,
  \<open>collect_summary_stream\<close>) and the tool gate \<open>MemoryToolExecutor\<close> of \<open>agents/tool_executor.rs\<close>: an LLM
  is asked for a summary and may call a few tools over several rounds.  The provider, the tools,
  the wording of the prompt and the decoding of UTF-8 are an environment.  A stream is the list of
  its events with a flag that says whether it ended in a timeout.
\<close>

datatype tool_outcome =
    Tool_Failed utext
  | Tool_Done bool utext "utext option"

record summarizer_env =
  sz_chat :: "nat \<Rightarrow> chat_message list \<Rightarrow> (stream_event list \<times> bool) option"
  sz_tool :: "tool_call \<Rightarrow> tool_outcome option"
  sz_prompt :: "nat \<Rightarrow> utext option \<Rightarrow> utext"
  sz_decode :: "string \<Rightarrow> utext"
  sz_max_rounds :: nat

subsection \<open>The stream\<close>

record summary_response =
  sr_text :: string
  sr_reasoning :: "string option"
  sr_signature :: "string option"
  sr_calls :: "stream_tool_call list"
  sr_usage :: "chat_usage option"

definition merge_usage :: "chat_usage option \<Rightarrow> chat_usage \<Rightarrow> chat_usage" where
  "merge_usage old u =
     (case old of
        None \<Rightarrow> u
      | Some e \<Rightarrow> e\<lparr>input_tokens := or_else (input_tokens u) (input_tokens e),
                   output_tokens := or_else (output_tokens u) (output_tokens e),
                   cached_input_tokens := or_else (cached_input_tokens u) (cached_input_tokens e)\<rparr>)"

fun collect_summary :: "stream_event list \<Rightarrow> bool \<Rightarrow> summary_response \<Rightarrow> string + summary_response" where
  "collect_summary [] timeout r = (if timeout then Inl ''summarizer stream chunk timeout after 300s'' else Inr r)"
| "collect_summary (Delta t # es) timeout r = collect_summary es timeout (r\<lparr>sr_text := sr_text r @ t\<rparr>)"
| "collect_summary (Thinking t # es) timeout r =
     collect_summary es timeout
       (if t = [] then r
        else r\<lparr>sr_reasoning := Some ((case sr_reasoning r of Some x \<Rightarrow> x | None \<Rightarrow> []) @ t)\<rparr>)"
| "collect_summary (ToolCallStart i n a # es) timeout r =
     collect_summary es timeout (r\<lparr>sr_calls := sr_calls r @ [\<lparr>tc_id = i, tc_name = n, tc_arguments = a\<rparr>]\<rparr>)"
| "collect_summary (ToolCallDelta idx i n d # es) timeout r =
     collect_summary es timeout (r\<lparr>sr_calls := apply_call_delta idx i n d (sr_calls r)\<rparr>)"
| "collect_summary (ToolCallEnd i n a # es) timeout r =
     collect_summary es timeout (r\<lparr>sr_calls := finish_call i n a (sr_calls r)\<rparr>)"
| "collect_summary (Usage u # es) timeout r =
     collect_summary es timeout (r\<lparr>sr_usage := Some (merge_usage (sr_usage r) u)\<rparr>)"
| "collect_summary (Done reason # es) timeout r = Inr r"
| "collect_summary (ThinkingSignature g # es) timeout r =
     collect_summary es timeout (r\<lparr>sr_signature := Some g\<rparr>)"
| "collect_summary (HttpError st m # es) timeout r = Inl (''summarizer stream error: '' @ m)"
| "collect_summary (StreamError m # es) timeout r = Inl (''summarizer stream error: '' @ m)"
| "collect_summary (ModelUsed m # es) timeout r = collect_summary es timeout r"

definition empty_response :: summary_response where
  "empty_response = \<lparr>sr_text = [], sr_reasoning = None, sr_signature = None, sr_calls = [], sr_usage = None\<rparr>"

definition collect_summary_stream :: "stream_event list \<Rightarrow> bool \<Rightarrow> string + summary_response" where
  "collect_summary_stream es timeout = collect_summary es timeout empty_response"

subsection \<open>The tool gate\<close>

definition allowed_tools :: "utext list" where
  "allowed_tools = map cps [''file_read'', ''file_write'', ''file_edit'', ''shell'', ''memory_manage'']"

text \<open>The outcome of a call and the calls that were run for it.\<close>

definition memory_execute :: "summarizer_env \<Rightarrow> tool_call \<Rightarrow> tool_outcome \<times> tool_call list" where
  "memory_execute Z tc =
     (if call_name tc \<notin> set allowed_tools then
        (Tool_Done False [] (Some (cps ''tool '' @ [39] @ call_name tc @ [39]
           @ cps '' not available during compaction summarization'')), [])
      else case sz_tool Z tc of
        None \<Rightarrow> (Tool_Failed (cps ''tool '' @ [39] @ call_name tc @ [39] @ cps '' not found in registry''), [])
      | Some out \<Rightarrow> (out, [tc]))"

fun outcome_text :: "tool_outcome \<Rightarrow> utext \<times> bool" where
  "outcome_text (Tool_Done ok out err) =
     ((case err of Some e \<Rightarrow> if out = [] then cps ''error: '' @ e else out | None \<Rightarrow> out), \<not> ok)"
| "outcome_text (Tool_Failed e) = (cps ''error: '' @ e, True)"

definition result_message :: "tool_call \<Rightarrow> tool_outcome \<Rightarrow> chat_message" where
  "result_message tc out =
     (text_message ''tool'' (fst (outcome_text out)))
       \<lparr>cm_tool_call_id := Some (call_id tc), cm_is_error := Some (snd (outcome_text out))\<rparr>"

subsection \<open>The rounds\<close>

definition decode_call :: "(string \<Rightarrow> utext) \<Rightarrow> stream_tool_call \<Rightarrow> tool_call" where
  "decode_call d c = \<lparr>call_id = d (tc_id c), call_name = d (tc_name c), call_arguments = d (tc_arguments c)\<rparr>"

definition round_message :: "(string \<Rightarrow> utext) \<Rightarrow> summary_response \<Rightarrow> chat_message" where
  "round_message d r =
     (assistant_text (d (sr_text r)))
       \<lparr>cm_tool_calls := Some (map (decode_call d) (sr_calls r)),
        cm_parts := (case sr_reasoning r of
            Some t \<Rightarrow> [Thinking_Part (d t) (map_option d (sr_signature r)), Text_Part (d (sr_text r))]
          | None \<Rightarrow> [Text_Part (d (sr_text r))])\<rparr>"

text \<open>What a run leaves behind: how many requests were made so far, and the tools that were run.\<close>

record summarizer_log =
  sl_requests :: nat
  sl_tools :: "tool_call list"

function summarize_rounds ::
  "summarizer_env \<Rightarrow> nat \<Rightarrow> chat_message list \<Rightarrow> summarizer_log \<Rightarrow> utext option \<times> summarizer_log" where
  "summarize_rounds Z rnd messages l =
     (if sz_max_rounds Z < rnd then (None, l)
      else
        let l1 = l\<lparr>sl_requests := sl_requests l + 1\<rparr> in
        case sz_chat Z (sl_requests l) messages of
          None \<Rightarrow> (None, l1)
        | Some (es, timeout) \<Rightarrow>
            (case collect_summary_stream es timeout of
               Inl e \<Rightarrow> (None, l1)
             | Inr r \<Rightarrow>
                 if sr_calls r = [] then (Some (sz_decode Z (sr_text r)), l1)
                 else
                   let tcs = map (decode_call (sz_decode Z)) (sr_calls r);
                       executed = map (memory_execute Z) tcs
                   in summarize_rounds Z (Suc rnd)
                        (messages @ round_message (sz_decode Z) r # map2 result_message tcs (map fst executed))
                        (l1\<lparr>sl_tools := sl_tools l1 @ concat (map snd executed)\<rparr>)))"
  by pat_completeness auto
termination
  by (relation "measure (\<lambda>(Z, rnd, ms, l). Suc (sz_max_rounds Z) - rnd)") auto

declare summarize_rounds.simps [simp del]

definition do_summarize ::
  "summarizer_env \<Rightarrow> fs_env \<Rightarrow> utext \<Rightarrow> chat_message list \<Rightarrow> utext option \<Rightarrow> summarizer_log
    \<Rightarrow> utext option \<times> summarizer_log" where
  "do_summarize Z E system_prompt to_compact existing l =
     summarize_rounds Z 1
       ((if system_prompt = [] then [] else [system_text system_prompt])
        @ map (strip_images E) to_compact
        @ [user_text (sz_prompt Z (length to_compact) existing)]) l"

definition summarize ::
  "summarizer_env \<Rightarrow> fs_env \<Rightarrow> utext \<Rightarrow> chat_message list \<Rightarrow> utext option \<Rightarrow> summarizer_log
    \<Rightarrow> utext option \<times> summarizer_log" where
  "summarize Z E system_prompt to_compact existing l =
     (case do_summarize Z E system_prompt to_compact existing l of
        (Some s, l') \<Rightarrow> (if trim s \<noteq> [] then Some s else None, l')
      | (None, l') \<Rightarrow> (None, l'))"

subsection \<open>Facts\<close>

lemma memory_execute_allowed: "tc \<in> set (snd (memory_execute Z c)) \<Longrightarrow> call_name tc \<in> set allowed_tools"
  by (auto simp: memory_execute_def split: if_splits option.splits)

definition log_step :: "nat \<Rightarrow> summarizer_log \<Rightarrow> summarizer_log \<Rightarrow> bool" where
  "log_step n l l' \<longleftrightarrow> sl_requests l' \<le> sl_requests l + n
     \<and> (\<exists>executed. sl_tools l' = sl_tools l @ executed \<and> (\<forall>tc \<in> set executed. call_name tc \<in> set allowed_tools))"

lemma log_step_refl [simp]: "log_step n l l"
  by (simp add: log_step_def)

lemma log_step_mono: "log_step n l l' \<Longrightarrow> n \<le> m \<Longrightarrow> log_step m l l'"
  by (auto simp: log_step_def)

lemma log_step_trans: "log_step n l l' \<Longrightarrow> log_step m l' l'' \<Longrightarrow> log_step (n + m) l l''"
  unfolding log_step_def by fastforce

lemma log_step_request: "log_step 1 l (l\<lparr>sl_requests := sl_requests l + 1\<rparr>)"
  by (simp add: log_step_def)

lemma log_step_tools: "\<forall>tc \<in> set executed. call_name tc \<in> set allowed_tools \<Longrightarrow> log_step 0 l (l\<lparr>sl_tools := sl_tools l @ executed\<rparr>)"
  by (simp add: log_step_def)

lemma summarize_rounds_log:
  "log_step (Suc (sz_max_rounds Z) - rnd) l (snd (summarize_rounds Z rnd messages l))"
proof (induction Z rnd messages l rule: summarize_rounds.induct)
  case (1 Z rnd messages l)
  let ?l1 = "l\<lparr>sl_requests := sl_requests l + 1\<rparr>"
  show ?case
  proof (cases "sz_max_rounds Z < rnd")
    case True
    then show ?thesis by (subst summarize_rounds.simps) simp
  next
    case False
    then have one: "log_step (Suc (sz_max_rounds Z) - rnd) l ?l1"
      by (intro log_step_mono [OF log_step_request]) simp
    show ?thesis
    proof (cases "sz_chat Z (sl_requests l) messages")
      case None
      then show ?thesis using False one by (subst summarize_rounds.simps) (simp add: Let_def)
    next
      case (Some p)
      obtain es timeout where p: "p = (es, timeout)" by (cases p)
      show ?thesis
      proof (cases "collect_summary_stream es timeout")
        case (Inl e)
        then show ?thesis using False one Some p by (subst summarize_rounds.simps) (simp add: Let_def)
      next
        case (Inr r)
        show ?thesis
        proof (cases "sr_calls r = []")
          case True
          then show ?thesis using False one Some p Inr by (subst summarize_rounds.simps) (simp add: Let_def)
        next
          case calls: False
          let ?tcs = "map (decode_call (sz_decode Z)) (sr_calls r)"
          let ?l2 = "?l1\<lparr>sl_tools := sl_tools ?l1 @ concat (map snd (map (memory_execute Z) ?tcs))\<rparr>"
          let ?ms = "messages @ round_message (sz_decode Z) r
            # map2 result_message ?tcs (map fst (map (memory_execute Z) ?tcs))"
          have IH: "log_step (Suc (sz_max_rounds Z) - Suc rnd) ?l2 (snd (summarize_rounds Z (Suc rnd) ?ms ?l2))"
            using 1 [OF False refl Some p [symmetric] Inr calls refl refl] by simp
          have "log_step 0 ?l1 ?l2"
            by (intro log_step_tools) (auto dest: memory_execute_allowed)
          then have "log_step (1 + 0 + (Suc (sz_max_rounds Z) - Suc rnd)) l
              (snd (summarize_rounds Z (Suc rnd) ?ms ?l2))"
            using log_step_trans [OF log_step_trans [OF log_step_request] IH] by blast
          moreover have "summarize_rounds Z rnd messages l = summarize_rounds Z (Suc rnd) ?ms ?l2"
            using False Some p Inr calls by (subst summarize_rounds.simps) (simp add: Let_def comp_assoc)
          ultimately show ?thesis using False by (simp add: Suc_diff_le)
        qed
      qed
    qed
  qed
qed

lemma summarize_snd: "snd (summarize Z E p ms ex l) = snd (do_summarize Z E p ms ex l)"
  by (simp add: summarize_def split: prod.split option.split)

lemma summarize_log: "log_step (sz_max_rounds Z) l (snd (summarize Z E p ms ex l))"
  using summarize_rounds_log [of Z 1] by (simp add: summarize_snd do_summarize_def)

lemma summarize_nonblank: "fst (summarize Z E p ms ex l) = Some s \<Longrightarrow> trim s \<noteq> []"
  by (auto simp: summarize_def split: prod.splits option.splits if_splits)

end
