(* ===== verification/Compaction.thy ===== *)
theory Compaction
  imports Work_Unit Tool_Filter Summarizer
begin

text \<open>
  \<open>agents/compaction_engine/engine.rs\<close>: when the estimate of a history crosses a threshold of the
  context window, a prefix of it is replaced by a summary.  The configuration, the registry's
  answers about the model, the threshold (a float product) and the regular expressions are an
  environment.  Every slice and drain that could panic is a \<open>run\<close>.
\<close>

record tool_spec =
  ts_name :: utext
  ts_description :: "utext option"
  ts_schema :: utext

record engine_env =
  en_fs :: fs_env
  en_re :: evidence_re
  en_summarizer :: summarizer_env
  en_window :: "nat option option"
  en_policy :: "media_policy option"
  en_threshold :: "nat \<Rightarrow> nat"
  en_retain :: nat
  en_model :: utext
  en_persist :: bool
  en_tasks :: "utext option"

datatype persist_event =
    Saved_Compaction nat utext int nat
  | Rotated_History "(int \<times> chat_message) list"

record compaction_result =
  cr_start :: nat
  cr_end :: nat
  cr_summary :: utext
  cr_summary_tokens :: nat
  cr_removed_tokens :: nat
  cr_count :: nat

record 'm engine_state =
  es_session :: "'m session"
  es_log :: summarizer_log
  es_persisted :: "persist_event list"

definition summary_output_reserve :: nat where "summary_output_reserve = 20000"
definition compression_safety_margin :: nat where "compression_safety_margin = 4000"

subsection \<open>Budget and boundary\<close>

definition should_compact :: "engine_env \<Rightarrow> nat \<Rightarrow> nat \<Rightarrow> bool" where
  "should_compact G tokens window \<longleftrightarrow> en_threshold G window \<le> tokens"

definition compress_budget :: "nat \<Rightarrow> nat \<Rightarrow> nat \<Rightarrow> nat" where
  "compress_budget window sys_tokens spec_tokens =
     window - summary_output_reserve - sys_tokens - spec_tokens - compression_safety_margin"

definition compaction_boundary_with_retain ::
  "engine_env \<Rightarrow> chat_message list \<Rightarrow> nat \<Rightarrow> nat \<Rightarrow> nat \<Rightarrow> nat option \<Rightarrow> nat option run" where
  "compaction_boundary_with_retain G h window sys_tokens spec_tokens override =
     (let budget = compress_budget window sys_tokens spec_tokens in
      if budget = 0 then Ret None
      else find_compaction_boundary_for_budget (en_fs G) h budget
             (max (case override of Some n \<Rightarrow> n | None \<Rightarrow> en_retain G) 1))"

subsection \<open>One compaction\<close>

definition message_tokens :: "engine_env \<Rightarrow> chat_message list \<Rightarrow> nat" where
  "message_tokens G ms = sum_list (map (estimate_message_tokens (en_fs G)) ms)"

definition with_prior_summary :: "utext option \<Rightarrow> utext \<Rightarrow> utext" where
  "with_prior_summary existing body =
     (case existing of
        None \<Rightarrow> body
      | Some ex \<Rightarrow>
          let prior = trim (case strip_prefix compaction_marker ex of Some r \<Rightarrow> r | None \<Rightarrow> ex) in
          if prior = [] then body
          else cps ''## Prior Summary'' @ [10] @ truncate_ellipsis prior hard_prior_summary_chars
               @ [10, 10] @ cps ''## Folded Updates'' @ [10] @ body)"

definition no_content :: string where "no_content = ''no content to compact''"

definition is_empty_compact_error :: "string \<Rightarrow> bool" where
  "is_empty_compact_error e = contains e no_content"

definition slice_summary ::
  "engine_env \<Rightarrow> utext \<Rightarrow> chat_message list \<Rightarrow> utext option \<Rightarrow> nat option \<Rightarrow> summarizer_log
    \<Rightarrow> utext \<times> summarizer_log" where
  "slice_summary G system_prompt to_compact existing budget l =
     (let folded = with_prior_summary existing (hard_fold_history (en_fs G) to_compact) in
      if (case budget of Some b \<Rightarrow> b = 0 \<or> b < message_tokens G to_compact | None \<Rightarrow> False) then (folded, l)
      else case summarize (en_summarizer G) (en_fs G) system_prompt to_compact existing l of
        (Some s, l') \<Rightarrow> (s, l')
      | (None, l') \<Rightarrow> (folded, l'))"

definition slice :: "nat \<Rightarrow> nat \<Rightarrow> 'a list \<Rightarrow> 'a list" where
  "slice a b xs = drop a (take b xs)"

definition execute_compaction ::
  "engine_env \<Rightarrow> utext \<Rightarrow> chat_message list \<Rightarrow> nat \<Rightarrow> nat option \<Rightarrow> summarizer_log
    \<Rightarrow> (string + compaction_result) \<times> summarizer_log" where
  "execute_compaction G system_prompt h boundary budget l =
     (let protected_from = (case open_user_protected_from h of Some p \<Rightarrow> p | None \<Rightarrow> length h);
          boundary = min boundary protected_from;
          (rs, cs, ce, existing) = find_incremental_range h boundary;
          to_compact = slice cs ce h
      in if to_compact = [] then (Inl no_content, l)
         else
           let (body, l') = slice_summary G system_prompt to_compact existing budget l;
               summary = append_evidence_index (en_re G) body to_compact cs ce boundary (en_model G)
           in (Inr \<lparr>cr_start = rs, cr_end = ce, cr_summary = summary,
                 cr_summary_tokens = estimate_message_tokens (en_fs G) (user_text summary),
                 cr_removed_tokens = message_tokens G (slice rs ce h),
                 cr_count = length to_compact\<rparr>, l'))"

definition execute_full_fold_compaction ::
  "engine_env \<Rightarrow> utext \<Rightarrow> chat_message list \<Rightarrow> nat \<Rightarrow> summarizer_log
    \<Rightarrow> (string + compaction_result) \<times> summarizer_log" where
  "execute_full_fold_compaction G system_prompt h budget l =
     (if h = [] then (Inl no_content, l)
      else
        let fold_end = (case open_user_protected_from h of Some p \<Rightarrow> p | None \<Rightarrow> length h) in
        if fold_end = 0 then (Inl no_content, l)
        else
          let (rs, cs, ce, existing) = find_incremental_range h fold_end in
          if ce \<le> cs then
            let summary = hard_fold_history (en_fs G) (take fold_end h) in
            (Inr \<lparr>cr_start = 0, cr_end = fold_end, cr_summary = summary,
               cr_summary_tokens = estimate_message_tokens (en_fs G) (user_text summary),
               cr_removed_tokens = message_tokens G (take fold_end h), cr_count = fold_end\<rparr>, l)
          else
            case execute_compaction G system_prompt h fold_end (Some budget) l of
              (Inl e, l') \<Rightarrow> (Inl e, l')
            | (Inr r, l') \<Rightarrow>
                let e = min (cr_end r) fold_end in
                (Inr (r\<lparr>cr_start := 0, cr_end := e,
                        cr_removed_tokens := message_tokens G (take e h), cr_count := e\<rparr>), l'))"

text \<open>The outcome is applied to the session: the summary replaces its range, the tracker is adjusted
  and, with a persistence hook, the compaction and the surviving history are stored.\<close>

definition persist_compaction ::
  "engine_env \<Rightarrow> nat \<Rightarrow> utext \<Rightarrow> int \<Rightarrow> nat \<Rightarrow> 'm session \<Rightarrow> persist_event list" where
  "persist_compaction G version summary up_to tokens s =
     (if en_persist G then
        [Saved_Compaction version summary up_to tokens,
         Rotated_History (zip (s_message_ids s) (s_history s))]
      else [])"

definition id_at :: "int list \<Rightarrow> nat \<Rightarrow> int" where
  "id_at ids n = (if n < length ids then ids ! n else 0)"

definition install_summary ::
  "engine_env \<Rightarrow> utext \<Rightarrow> compaction_result \<Rightarrow> 'm engine_state \<Rightarrow> 'm engine_state run" where
  "install_summary G note r st =
     (let s = es_session st;
          version = s_compact_version s + 1;
          last_id = id_at (s_message_ids s) (cr_end r - 1)
      in bind_run (apply_compaction (cr_start r) (cr_end r) (user_text note) version last_id
             (cr_summary_tokens r) s) (\<lambda>s1.
           let s2 = s1\<lparr>s_tracker := adjust_for_compaction (cr_removed_tokens r) (cr_summary_tokens r) (s_tracker s1)\<rparr>
           in Ret (st\<lparr>es_session := s2,
                es_persisted := es_persisted st
                  @ persist_compaction G version (cr_summary r) last_id (cr_summary_tokens r) s2\<rparr>)))"

definition summary_note :: "engine_env \<Rightarrow> utext \<Rightarrow> utext" where
  "summary_note G summary =
     compaction_marker @ [32] @ summary @ (case en_tasks G of Some t \<Rightarrow> [10, 10] @ t | None \<Rightarrow> [])"

definition spec_tokens :: "tool_spec list \<Rightarrow> nat" where
  "spec_tokens specs = sum_list (map (\<lambda>s. estimate_tokens (ts_name s)
     + (case ts_description s of Some d \<Rightarrow> estimate_tokens d | None \<Rightarrow> 0)
     + estimate_tokens (ts_schema s) + 8) specs)"

text \<open>The log of the summarizer is part of the state, so that requests and tools add up over passes.\<close>

definition compact_outcome ::
  "engine_env \<Rightarrow> utext \<Rightarrow> nat \<Rightarrow> nat \<Rightarrow> nat option \<Rightarrow> chat_message list \<Rightarrow> summarizer_log
    \<Rightarrow> ((string + compaction_result) \<times> summarizer_log) run" where
  "compact_outcome G system_prompt window specs override h l =
     (let sys = estimate_tokens system_prompt;
          budget = compress_budget window sys specs
      in map_run (\<lambda>boundary.
           case boundary of
             Some b \<Rightarrow>
               (case execute_compaction G system_prompt h b (Some budget) l of
                  (Inr r, l') \<Rightarrow> (Inr r, l')
                | (Inl e, l') \<Rightarrow>
                    if is_empty_compact_error e
                    then execute_full_fold_compaction G system_prompt h budget l'
                    else (Inl e, l'))
           | None \<Rightarrow> execute_full_fold_compaction G system_prompt h budget l)
         (compaction_boundary_with_retain G h window sys specs override))"

definition maybe_compact ::
  "engine_env \<Rightarrow> utext \<Rightarrow> tool_spec list \<Rightarrow> bool \<Rightarrow> nat option \<Rightarrow> 'm engine_state
    \<Rightarrow> ((chat_message list \<times> nat \<times> nat) option \<times> 'm engine_state) run" where
  "maybe_compact G system_prompt specs force override st =
     (case en_window G of
        None \<Rightarrow> Ret (None, st)
      | Some None \<Rightarrow> Ret (None, st)
      | Some (Some window) \<Rightarrow>
          let h = s_history (es_session st);
              estimate = estimate_history_tokens_with_media (en_fs G) system_prompt h (en_policy G)
          in if \<not> force \<and> \<not> should_compact G estimate window then Ret (None, st)
             else bind_run (compact_outcome G system_prompt window (spec_tokens specs) override h (es_log st))
               (\<lambda>(outcome, l). let st1 = st\<lparr>es_log := l\<rparr> in
                  case outcome of
                    Inl e \<Rightarrow> Ret (None, st1)
                  | Inr r \<Rightarrow> bind_run (install_summary G (summary_note G (cr_summary r)) r st1) (\<lambda>st2.
                      Ret (Some (rebuild_messages system_prompt (s_history (es_session st2)) (map ts_name specs),
                             cr_removed_tokens r, cr_summary_tokens r), st2))))"

subsection \<open>Until the history fits\<close>

text \<open>The shares are exact below \<open>2 ^ 50\<close> tokens, where the division of floats decides as the rationals.\<close>

definition max_passes :: nat where "max_passes = 10"

definition stalled :: "nat \<Rightarrow> nat \<Rightarrow> bool" where
  "stalled removed summary \<longleftrightarrow> 0 < removed \<and> 20 * (removed - summary) < removed"

function passes ::
  "engine_env \<Rightarrow> utext \<Rightarrow> tool_spec list \<Rightarrow> bool \<Rightarrow> nat \<Rightarrow> nat \<Rightarrow> nat \<Rightarrow> chat_message list option
    \<Rightarrow> 'm engine_state \<Rightarrow> (chat_message list option \<times> 'm engine_state) run" where
  "passes G system_prompt specs force pass retain stall latest st =
     (if max_passes \<le> pass then Ret (latest, st)
      else bind_run (maybe_compact G system_prompt specs (force \<and> pass = 0)
               (if retain \<noteq> en_retain G then Some retain else None) st)
        (\<lambda>(res, st1).
          case res of
            None \<Rightarrow> Ret (latest, st1)
          | Some (messages, removed, summary) \<Rightarrow>
              let stall1 = (if stalled removed summary then stall + 1 else 0);
                  lower = (2 \<le> stall1 \<and> 1 < retain)
              in passes G system_prompt specs force (Suc pass) (if lower then retain - 1 else retain)
                   (if lower then 0 else stall1) (Some messages) st1))"
  by pat_completeness auto
termination
  by (relation "measure (\<lambda>(G, sp, specs, f, pass, r, s, l, st). max_passes - pass)") auto

declare passes.simps [simp del]

definition last_resort ::
  "engine_env \<Rightarrow> utext \<Rightarrow> tool_spec list \<Rightarrow> 'm engine_state
    \<Rightarrow> (chat_message list option \<times> 'm engine_state) run" where
  "last_resort G system_prompt specs st =
     (let h = s_history (es_session st);
          fold_end = (case open_user_protected_from h of Some p \<Rightarrow> p | None \<Rightarrow> length h)
      in if fold_end = 0 then Ret (None, st)
         else
           let hard = hard_fold_history (en_fs G) (take fold_end h);
               note = compaction_marker @ [32] @ hard
           in bind_run (install_summary G note
                \<lparr>cr_start = 0, cr_end = fold_end, cr_summary = hard,
                 cr_summary_tokens = estimate_message_tokens (en_fs G) (user_text note),
                 cr_removed_tokens = message_tokens G (take fold_end h), cr_count = fold_end\<rparr> st)
              (\<lambda>st1. Ret (Some (rebuild_messages system_prompt (s_history (es_session st1)) (map ts_name specs)), st1)))"

definition compact_until_fit ::
  "engine_env \<Rightarrow> utext \<Rightarrow> tool_spec list \<Rightarrow> bool \<Rightarrow> 'm engine_state
    \<Rightarrow> (chat_message list option \<times> 'm engine_state) run" where
  "compact_until_fit G system_prompt specs force st =
     bind_run (passes G system_prompt specs force 0 (en_retain G) 0 None st)
       (\<lambda>(latest, st1).
         if latest = None \<and> force \<and> s_history (es_session st1) \<noteq> []
         then last_resort G system_prompt specs st1
         else Ret (latest, st1))"

subsection \<open>What one compaction may replace\<close>

definition fold_limit :: "chat_message list \<Rightarrow> nat" where
  "fold_limit h = (case open_user_protected_from h of Some p \<Rightarrow> p | None \<Rightarrow> length h)"

lemma fold_limit_le: "fold_limit h \<le> length h"
  using protected_Some(1) [of h] by (auto simp: fold_limit_def split: option.split intro: less_imp_le)

definition range_ok :: "chat_message list \<Rightarrow> compaction_result \<Rightarrow> bool" where
  "range_ok h r \<longleftrightarrow> cr_start r < cr_end r \<and> cr_end r \<le> fold_limit h"

lemma slice_summary_log:
  "slice_summary G sp ms ex b l = (body, l') \<Longrightarrow> log_step (sz_max_rounds (en_summarizer G)) l l'"
  using summarize_log [of "en_summarizer G" l "en_fs G" sp ms ex]
  by (auto simp: slice_summary_def Let_def split: if_splits prod.splits option.splits)

lemma execute_ok:
  assumes "execute_compaction G sp h b budget l = (x, l')"
  shows "log_step (sz_max_rounds (en_summarizer G)) l l'"
    "x = Inl e \<Longrightarrow> l' = l \<and> e = no_content" "x = Inr r \<Longrightarrow> range_ok h r"
proof -
  let ?b = "min b (fold_limit h)"
  obtain rs cs ce ex where rg: "find_incremental_range h ?b = (rs, cs, ce, ex)" by (metis surj_pair)
  have bl: "?b \<le> length h" using fold_limit_le [of h] by simp
  note rb = range_bounds [OF rg bl]
  obtain body l1 where body: "slice_summary G sp (slice cs ce h) ex budget l = (body, l1)" by fastforce
  have step: "execute_compaction G sp h b budget l =
      (if slice cs ce h = [] then (Inl no_content, l)
       else (Inr \<lparr>cr_start = rs, cr_end = ce,
           cr_summary = append_evidence_index (en_re G) body (slice cs ce h) cs ce ?b (en_model G),
           cr_summary_tokens = estimate_message_tokens (en_fs G)
             (user_text (append_evidence_index (en_re G) body (slice cs ce h) cs ce ?b (en_model G))),
           cr_removed_tokens = message_tokens G (slice rs ce h),
           cr_count = length (slice cs ce h)\<rparr>, l1))"
    unfolding execute_compaction_def fold_limit_def [symmetric] Let_def rg by (simp add: body)
  show "log_step (sz_max_rounds (en_summarizer G)) l l'"
    using assms step slice_summary_log [OF body] by (auto split: if_splits)
  show "x = Inl e \<Longrightarrow> l' = l \<and> e = no_content" using assms step by (auto split: if_splits)
  show "x = Inr r \<Longrightarrow> range_ok h r"
  proof -
    assume "x = Inr r"
    then have "slice cs ce h \<noteq> []" "cr_start r = rs" "cr_end r = ce"
      using assms step by (auto split: if_splits)
    moreover from this(1) have "cs < ce" by (auto simp: slice_def)
    ultimately show "range_ok h r" using rb by (simp add: range_ok_def)
  qed
qed

lemma full_fold_empty:
  "h = [] \<or> fold_limit h = 0 \<Longrightarrow> execute_full_fold_compaction G sp h budget l = (Inl no_content, l)"
  by (auto simp: execute_full_fold_compaction_def fold_limit_def Let_def)

lemma full_fold_hard:
  assumes "h \<noteq> []" "fold_limit h \<noteq> 0" "find_incremental_range h (fold_limit h) = (rs, cs, ce, ex)" "ce \<le> cs"
  obtains r where "execute_full_fold_compaction G sp h budget l = (Inr r, l)" "range_ok h r"
proof -
  have "\<exists>r. execute_full_fold_compaction G sp h budget l = (Inr r, l) \<and> cr_start r = 0 \<and> cr_end r = fold_limit h"
    unfolding execute_full_fold_compaction_def fold_limit_def [symmetric] Let_def
    by (simp add: assms)
  then show ?thesis using assms(2) that by (auto simp: range_ok_def)
qed

lemma full_fold_execute:
  assumes "h \<noteq> []" "fold_limit h \<noteq> 0" "find_incremental_range h (fold_limit h) = (rs, cs, ce, ex)" "cs < ce"
    and "execute_compaction G sp h (fold_limit h) (Some budget) l = (y, l1)"
  shows "y = Inl e \<Longrightarrow> execute_full_fold_compaction G sp h budget l = (Inl e, l1)"
    "y = Inr r1 \<Longrightarrow> execute_full_fold_compaction G sp h budget l =
      (let e = min (cr_end r1) (fold_limit h) in
       (Inr (r1\<lparr>cr_start := 0, cr_end := e, cr_removed_tokens := message_tokens G (take e h), cr_count := e\<rparr>), l1))"
  unfolding execute_full_fold_compaction_def fold_limit_def [symmetric] Let_def
  using assms by simp_all

lemma full_fold_ok:
  assumes "execute_full_fold_compaction G sp h budget l = (x, l')"
  shows "log_step (sz_max_rounds (en_summarizer G)) l l'" "x = Inr r \<Longrightarrow> range_ok h r"
proof -
  obtain rs cs ce ex where rg: "find_incremental_range h (fold_limit h) = (rs, cs, ce, ex)" by (metis surj_pair)
  obtain y l1 where y: "execute_compaction G sp h (fold_limit h) (Some budget) l = (y, l1)" by fastforce
  note ok = execute_ok [OF y]
  have "log_step (sz_max_rounds (en_summarizer G)) l l' \<and> (\<forall>r. x = Inr r \<longrightarrow> range_ok h r)"
  proof (cases "h = [] \<or> fold_limit h = 0")
    case True
    then show ?thesis using assms full_fold_empty [OF True] by auto
  next
    case False
    show ?thesis
    proof (cases "ce \<le> cs")
      case True
      then show ?thesis using assms False full_fold_hard [OF _ _ rg True] by (metis Pair_inject log_step_refl sum.inject(2))
    next
      case ne: False
      show ?thesis
      proof (cases y)
        case (Inl e)
        then show ?thesis using assms ok(1) full_fold_execute(1) [OF _ _ rg _ y] False ne by auto
      next
        case (Inr r1)
        then show ?thesis using assms ok(1) ok(3) [OF Inr] full_fold_execute(2) [OF _ _ rg _ y Inr] False ne
          by (auto simp: range_ok_def Let_def)
      qed
    qed
  qed
  then show "log_step (sz_max_rounds (en_summarizer G)) l l'" "x = Inr r \<Longrightarrow> range_ok h r" by simp_all
qed

lemma boundary_total: "\<exists>b. compaction_boundary_with_retain G h window sys specs override = Ret b"
proof -
  have "1 \<le> max n 1" for n :: nat by simp
  from walk_finds_latest [OF this] show ?thesis
    by (auto simp: compaction_boundary_with_retain_def Let_def)
qed

lemma outcome_ok:
  obtains x l' where "compact_outcome G sp window specs override h l = Ret (x, l')"
    "log_step (sz_max_rounds (en_summarizer G)) l l'" "\<And>r. x = Inr r \<Longrightarrow> range_ok h r"
proof -
  obtain b where b: "compaction_boundary_with_retain G h window (estimate_tokens sp) specs override = Ret b"
    using boundary_total by blast
  let ?budget = "compress_budget window (estimate_tokens sp) specs"
  obtain fx fl where f: "execute_full_fold_compaction G sp h ?budget l = (fx, fl)" by fastforce
  show ?thesis
  proof (cases b)
    case None
    have "compact_outcome G sp window specs override h l = Ret (fx, fl)"
      using None b f by (simp add: compact_outcome_def Let_def map_run_def)
    then show ?thesis using that full_fold_ok [OF f] by blast
  next
    case (Some i)
    obtain y l1 where y: "execute_compaction G sp h i (Some ?budget) l = (y, l1)" by fastforce
    show ?thesis
    proof (cases y)
      case (Inl e)
      then have "l1 = l" "e = no_content" using execute_ok(2) [OF y] by simp_all
      then have "compact_outcome G sp window specs override h l = Ret (fx, fl)"
        using Some b f y Inl by (simp add: compact_outcome_def Let_def map_run_def is_empty_compact_error_def)
      then show ?thesis using that full_fold_ok [OF f] by blast
    next
      case (Inr r)
      then have "compact_outcome G sp window specs override h l = Ret (y, l1)"
        using Some b y by (simp add: compact_outcome_def Let_def map_run_def)
      then show ?thesis using that execute_ok [OF y] by blast
    qed
  qed
qed

lemma install_ok:
  assumes "parallel (es_session st)" "cr_start r \<le> cr_end r" "cr_end r \<le> length (s_history (es_session st))"
  obtains st' where "install_summary G note r st = Ret st'" "parallel (es_session st')"
    "s_history (es_session st') = take (cr_start r) (s_history (es_session st)) @ user_text note
      # drop (cr_end r) (s_history (es_session st))"
    "es_log st' = es_log st"
    "s_compact_version (es_session st') = s_compact_version (es_session st) + 1"
proof -
  let ?s = "es_session st"
  have len: "cr_end r \<le> length (s_message_ids ?s)" using assms by (simp add: parallel_def)
  have "apply_compaction (cr_start r) (cr_end r) (user_text note) v up tk ?s =
      Ret (?s\<lparr>s_history := take (cr_start r) (s_history ?s) @ user_text note # drop (cr_end r) (s_history ?s),
              s_message_ids := take (cr_start r) (s_message_ids ?s) @ 0 # drop (cr_end r) (s_message_ids ?s),
              s_compact_version := v,
              s_summary := Some \<lparr>sm_version = v, sm_token_estimate = tk, sm_up_to_message = up\<rparr>\<rparr>)" for v up tk
    using assms(2,3) len by (simp add: apply_compaction_def drain_ok min_def)
  then have "\<exists>st'. install_summary G note r st = Ret st' \<and> es_log st' = es_log st
      \<and> s_history (es_session st') = take (cr_start r) (s_history ?s) @ user_text note # drop (cr_end r) (s_history ?s)
      \<and> s_message_ids (es_session st') = take (cr_start r) (s_message_ids ?s) @ 0 # drop (cr_end r) (s_message_ids ?s)
      \<and> s_compact_version (es_session st') = s_compact_version ?s + 1"
    by (simp add: install_summary_def Let_def)
  then obtain st' where st': "install_summary G note r st = Ret st'" "es_log st' = es_log st"
    "s_history (es_session st') = take (cr_start r) (s_history ?s) @ user_text note # drop (cr_end r) (s_history ?s)"
    "s_message_ids (es_session st') = take (cr_start r) (s_message_ids ?s) @ 0 # drop (cr_end r) (s_message_ids ?s)"
    "s_compact_version (es_session st') = s_compact_version ?s + 1"
    by blast
  have "parallel (es_session st')" using st'(3,4) assms len by (simp add: parallel_def)
  then show ?thesis using that st' by blast
qed

subsection \<open>The protected tail\<close>

definition open_tail :: "chat_message list \<Rightarrow> chat_message list \<Rightarrow> bool" where
  "open_tail t h \<longleftrightarrow> suffix t h \<and> (t = [] \<or> list_all is_user t \<and> \<not> starts_marked (hd t))"

lemma open_tail_limit: "open_tail t h \<Longrightarrow> fold_limit h + length t \<le> length h"
proof (cases "t = []")
  case True
  then show ?thesis using fold_limit_le by simp
next
  case False
  assume "open_tail t h"
  then obtain a where h: "h = a @ t" and t: "list_all is_user t" "\<not> starts_marked (hd t)"
    using False by (auto simp: open_tail_def suffix_def)
  let ?s = "streak_back h (length h)"
  have users: "is_user (h ! k)" if "length a \<le> k" "k < length h" for k
    using that h t(1) by (simp add: nth_append list_all_length)
  have s: "?s \<le> length a"
  proof (rule ccontr)
    assume "\<not> ?s \<le> length a"
    then have "is_user (h ! (?s - 1))"
      using users [of "?s - 1"] streak_back_spec(1) [of h "length h"] by simp
    then show False using streak_back_spec(3) [of h "length h"] \<open>\<not> ?s \<le> length a\<close> by simp
  qed
  have "skip_summaries h ?s \<le> length a"
  proof (rule ccontr)
    assume "\<not> skip_summaries h ?s \<le> length a"
    then have "starts_marked (h ! length a)" using s by (intro skip_summaries_spec(3) [of ?s]) simp_all
    then show False using h t(2) False by (simp add: nth_append hd_conv_nth)
  qed
  note sk = this
  have al: "length a < length h" "length h = length a + length t" "h \<noteq> []" using h False by simp_all
  have "open_user_protected_from h = Some (skip_summaries h ?s)"
    unfolding open_user_protected_from_def Let_def using sk s al(1,3) by simp
  then show ?thesis using sk al(2) by (simp add: fold_limit_def)
qed

lemma open_tail_install:
  "open_tail t h \<Longrightarrow> e \<le> fold_limit h \<Longrightarrow> open_tail t (take b h @ x # drop e h)"
proof -
  assume t: "open_tail t h" and e: "e \<le> fold_limit h"
  obtain a where h: "h = a @ t" using t by (auto simp: open_tail_def suffix_def)
  have "e \<le> length a" using open_tail_limit [OF t] e h by simp
  then have "drop e h = drop e a @ t" using h by simp
  then show ?thesis using t by (simp add: open_tail_def suffix_append suffix_Cons)
qed

lemma open_tail_protected: "open_user_protected_from h = Some p \<Longrightarrow> open_tail (drop p h) h"
  using protected_Some [of h p] by (auto simp: open_tail_def suffix_drop list_all_length hd_drop_conv_nth)

subsection \<open>Passes\<close>

text \<open>A pass never panics, keeps ids and history parallel, keeps the open tail and adds a bounded number
  of requests; without a result it leaves the session alone.\<close>

definition good_pass :: "nat \<Rightarrow> chat_message list \<Rightarrow> 'm engine_state \<Rightarrow> 'm engine_state \<Rightarrow> bool" where
  "good_pass n t st st' \<longleftrightarrow> parallel (es_session st') \<and> open_tail t (s_history (es_session st'))
     \<and> log_step n (es_log st) (es_log st')"

lemma maybe_compact_good:
  assumes "parallel (es_session st)" "open_tail t (s_history (es_session st))"
  obtains res st' where "maybe_compact G sp specs force override st = Ret (res, st')"
    "good_pass (sz_max_rounds (en_summarizer G)) t st st'" "res = None \<Longrightarrow> es_session st' = es_session st"
proof -
  let ?h = "s_history (es_session st)"
  have same: "good_pass (sz_max_rounds (en_summarizer G)) t st st" using assms by (simp add: good_pass_def)
  show ?thesis
  proof (cases "\<exists>w. en_window G = Some (Some w)
      \<and> (force \<or> should_compact G (estimate_history_tokens_with_media (en_fs G) sp ?h (en_policy G)) w)")
    case False
    then have "maybe_compact G sp specs force override st = Ret (None, st)"
      by (auto simp: maybe_compact_def Let_def split: option.split)
    then show ?thesis using that same by blast
  next
    case True
    then obtain w where w: "en_window G = Some (Some w)"
      and go: "force \<or> should_compact G (estimate_history_tokens_with_media (en_fs G) sp ?h (en_policy G)) w"
      by blast
    obtain x l where x: "compact_outcome G sp w (spec_tokens specs) override ?h (es_log st) = Ret (x, l)"
      "log_step (sz_max_rounds (en_summarizer G)) (es_log st) l" "\<And>r. x = Inr r \<Longrightarrow> range_ok ?h r"
      using outcome_ok by blast
    show ?thesis
    proof (cases x)
      case (Inl e)
      have "maybe_compact G sp specs force override st = Ret (None, st\<lparr>es_log := l\<rparr>)"
        using w go x(1) Inl by (auto simp: maybe_compact_def Let_def)
      moreover have "good_pass (sz_max_rounds (en_summarizer G)) t st (st\<lparr>es_log := l\<rparr>)"
        using assms x(2) by (simp add: good_pass_def)
      ultimately show ?thesis using that by (metis engine_state.select_convs(1) engine_state.surjective engine_state.update_convs(2))
    next
      case (Inr r)
      note ok = x(3) [OF Inr, unfolded range_ok_def]
      have le: "cr_end r \<le> length ?h" using ok fold_limit_le [of ?h] by simp
      obtain st' where st': "install_summary G (summary_note G (cr_summary r)) r (st\<lparr>es_log := l\<rparr>) = Ret st'"
        "parallel (es_session st')"
        "s_history (es_session st') = take (cr_start r) ?h @ user_text (summary_note G (cr_summary r)) # drop (cr_end r) ?h"
        "es_log st' = l"
        using install_ok [of "st\<lparr>es_log := l\<rparr>" r G "summary_note G (cr_summary r)"] assms(1) ok le
        by (auto simp: less_imp_le)
      have "\<exists>y. maybe_compact G sp specs force override st = Ret (Some y, st')"
        using w go x(1) Inr st'(1) by (auto simp: maybe_compact_def Let_def)
      moreover have "good_pass (sz_max_rounds (en_summarizer G)) t st st'"
        using st' x(2) assms(2) ok by (simp add: good_pass_def open_tail_install)
      ultimately show ?thesis using that by blast
    qed
  qed
qed

lemma passes_good:
  assumes "parallel (es_session st)" "open_tail t (s_history (es_session st))"
  shows "\<exists>res st'. passes G sp specs force pass retain stall latest st = Ret (res, st')
    \<and> good_pass ((max_passes - pass) * sz_max_rounds (en_summarizer G)) t st st'
    \<and> (latest \<noteq> None \<longrightarrow> res \<noteq> None) \<and> (res = None \<longrightarrow> es_session st' = es_session st)"
  using assms
proof (induction G sp specs force pass retain stall latest st rule: passes.induct)
  case (1 G sp specs force pass retain stall latest st)
  let ?R = "sz_max_rounds (en_summarizer G)"
  let ?ov = "if retain \<noteq> en_retain G then Some retain else None"
  show ?case
  proof (cases "max_passes \<le> pass")
    case True
    then have "passes G sp specs force pass retain stall latest st = Ret (latest, st)"
      by (subst passes.simps) simp
    then show ?thesis using 1(2,3) by (auto simp: good_pass_def)
  next
    case False
    obtain res st1 where mc: "maybe_compact G sp specs (force \<and> pass = 0) ?ov st = Ret (res, st1)"
      and g: "good_pass ?R t st st1" and same: "res = None \<Longrightarrow> es_session st1 = es_session st"
      using maybe_compact_good [OF 1(2,3)] by blast
    have split: "(max_passes - pass) * ?R = ?R + (max_passes - Suc pass) * ?R"
      using False by (simp add: Suc_diff_Suc [symmetric])
    show ?thesis
    proof (cases res)
      case None
      then have "passes G sp specs force pass retain stall latest st = Ret (latest, st1)"
        using False mc by (subst passes.simps) simp
      moreover have "good_pass ((max_passes - pass) * ?R) t st st1"
        using g by (auto simp: good_pass_def split intro: log_step_mono)
      ultimately show ?thesis using same [OF None] by blast
    next
      case (Some y)
      obtain ms removed summary where y: "y = (ms, removed, summary)" by (cases y)
      let ?stall = "if stalled removed summary then stall + 1 else 0"
      let ?lower = "2 \<le> ?stall \<and> 1 < retain"
      have pt: "parallel (es_session st1)" "open_tail t (s_history (es_session st1))"
        using g by (simp_all add: good_pass_def)
      have eq: "passes G sp specs force pass retain stall latest st =
          passes G sp specs force (Suc pass) (if ?lower then retain - 1 else retain)
            (if ?lower then 0 else ?stall) (Some ms) st1"
        using False mc Some y by (subst passes.simps) (simp add: Let_def)
      obtain res' st' where IH: "passes G sp specs force (Suc pass) (if ?lower then retain - 1 else retain)
            (if ?lower then 0 else ?stall) (Some ms) st1 = Ret (res', st')"
          "good_pass ((max_passes - Suc pass) * ?R) t st1 st'" "res' \<noteq> None"
        using "1.IH" [OF False Some y [symmetric] refl refl refl pt] by (metis option.discI)
      have "good_pass ((max_passes - pass) * ?R) t st st'"
        using g IH(2) log_step_trans unfolding good_pass_def split by blast
      then show ?thesis unfolding eq using IH by blast
    qed
  qed
qed

lemma last_resort_good:
  assumes "parallel (es_session st)" "open_tail t (s_history (es_session st))"
  shows "\<exists>res st'. last_resort G sp specs st = Ret (res, st') \<and> good_pass 0 t st st'
    \<and> (fold_limit (s_history (es_session st)) \<noteq> 0 \<longrightarrow> res \<noteq> None)"
proof (cases "fold_limit (s_history (es_session st)) = 0")
  case True
  then show ?thesis using assms
    by (simp add: last_resort_def fold_limit_def [symmetric] Let_def good_pass_def)
next
  case False
  let ?h = "s_history (es_session st)"
  let ?note = "compaction_marker @ [32] @ hard_fold_history (en_fs G) (take (fold_limit ?h) ?h)"
  let ?r = "\<lparr>cr_start = 0, cr_end = fold_limit ?h,
    cr_summary = hard_fold_history (en_fs G) (take (fold_limit ?h) ?h),
    cr_summary_tokens = estimate_message_tokens (en_fs G) (user_text ?note),
    cr_removed_tokens = message_tokens G (take (fold_limit ?h) ?h), cr_count = fold_limit ?h\<rparr>"
  obtain st' where st': "install_summary G ?note ?r st = Ret st'" "parallel (es_session st')"
    "s_history (es_session st') = take 0 ?h @ user_text ?note # drop (fold_limit ?h) ?h" "es_log st' = es_log st"
    using install_ok [OF assms(1), of ?r G ?note] fold_limit_le [of ?h]
    by (metis compaction_result.select_convs(1,2) le0)
  have "last_resort G sp specs st =
      Ret (Some (rebuild_messages sp (s_history (es_session st')) (map ts_name specs)), st')"
    unfolding last_resort_def fold_limit_def [symmetric] Let_def using False st'(1) by simp
  moreover have "good_pass 0 t st st'"
    using st'(2,4) open_tail_install [OF assms(2) order.refl, of 0 "user_text ?note"]
    unfolding good_pass_def st'(3) by simp
  ultimately show ?thesis by blast
qed

lemma compact_good:
  assumes "parallel (es_session st)" "open_tail t (s_history (es_session st))"
  shows "\<exists>res st'. compact_until_fit G sp specs force st = Ret (res, st')
    \<and> good_pass (max_passes * sz_max_rounds (en_summarizer G)) t st st'
    \<and> (force \<and> fold_limit (s_history (es_session st)) \<noteq> 0 \<longrightarrow> res \<noteq> None)"
proof -
  obtain res st1 where p: "passes G sp specs force 0 (en_retain G) 0 None st = Ret (res, st1)"
    "good_pass (max_passes * sz_max_rounds (en_summarizer G)) t st st1"
    "res = None \<longrightarrow> es_session st1 = es_session st"
    using passes_good [OF assms, of G sp specs force 0 "en_retain G" 0 None] by auto
  show ?thesis
  proof (cases "res = None \<and> force \<and> s_history (es_session st1) \<noteq> []")
    case False
    then have "compact_until_fit G sp specs force st = Ret (res, st1)"
      using p(1) by (auto simp: compact_until_fit_def)
    moreover have "fold_limit [] = 0" by (simp add: fold_limit_def open_user_protected_from_def)
    ultimately show ?thesis using p False by auto
  next
    case True
    obtain res' st' where l: "last_resort G sp specs st1 = Ret (res', st')" "good_pass 0 t st1 st'"
      "fold_limit (s_history (es_session st1)) \<noteq> 0 \<longrightarrow> res' \<noteq> None"
      using last_resort_good p(2) unfolding good_pass_def by blast
    have "compact_until_fit G sp specs force st = Ret (res', st')"
      using True p(1) l(1) by (simp add: compact_until_fit_def)
    moreover have "good_pass (max_passes * sz_max_rounds (en_summarizer G)) t st st'"
      using p(2) l(2) log_step_trans [of _ _ _ 0] unfolding good_pass_def by (metis add.right_neutral)
    ultimately show ?thesis using l(3) p(3) True by auto
  qed
qed

subsection \<open>Fold limits of a suffix\<close>

lemma streak_back_append:
  "n \<le> length b \<Longrightarrow> \<exists>k < n. \<not> is_user (b ! k) \<Longrightarrow>
     streak_back (a @ b) (length a + n) = length a + streak_back b n"
proof (induction n)
  case (Suc n)
  then show ?case
    by (cases "is_user (b ! n)") (auto simp: nth_append elim!: less_SucE)
qed simp

lemma skip_summaries_append: "skip_summaries (a @ b) (length a + k) = length a + skip_summaries b k"
proof (induction b k rule: skip_summaries.induct)
  case (1 b k)
  then show ?case
    by (cases "k < length b \<and> starts_marked (b ! k)")
      (simp_all add: skip_step [of "length a + k"] skip_step [of k] skip_stop [of "length a + k"] skip_stop [of k])
qed

lemma fold_limit_append:
  assumes "\<not> list_all is_user b"
  shows "fold_limit (a @ b) = length a + fold_limit b" "0 < fold_limit b"
proof -
  have ex: "\<exists>k < length b. \<not> is_user (b ! k)" using assms by (auto simp: list_all_length)
  have s: "streak_back (a @ b) (length a + length b) = length a + streak_back b (length b)"
    using streak_back_append [of "length b" b a] ex by simp
  have b: "b \<noteq> []" using ex by auto
  show "fold_limit (a @ b) = length a + fold_limit b"
    using b by (simp add: fold_limit_def open_user_protected_from_def Let_def s skip_summaries_append)
  have "0 < streak_back b (length b)"
    using streak_back_spec(2) [of b "length b"] ex by (metis gr0I le0)
  then have "0 < skip_summaries b (streak_back b (length b))"
    using skip_summaries_spec(1) [of "streak_back b (length b)" b] by simp
  then show "0 < fold_limit b"
    using b by (simp add: fold_limit_def open_user_protected_from_def Let_def)
qed

lemma range_after_mark:
  assumes "is_user m" "starts_marked m" "\<not> list_ex (\<lambda>x. is_user x \<and> starts_marked x) b" "length a < n"
  shows "find_incremental_range (a @ m # b) n = (length a, length a + 1, n, Some (text_content m))"
proof -
  have "n - length a = Suc (n - Suc (length a))" using assms(4) by simp
  then have "take n (a @ m # b) = a @ m # take (n - Suc (length a)) b" using assms(4) by simp
  moreover have "\<forall>x \<in> set (take k b). \<not> (is_user x \<and> starts_marked x)" for k
    using assms(3) by (auto simp: list_ex_iff dest: in_set_takeD)
  ultimately show ?thesis
    using rposition_last [of "\<lambda>x. is_user x \<and> starts_marked x" m] assms(1,2)
    by (simp add: find_incremental_range_def nth_append)
qed

subsection \<open>Properties\<close>

text \<open>C12: A compaction never swallows the request in progress: whatever the provider answers and however
  many passes it takes, the engine does not panic and the open user messages at the end of the
  history are still there, unchanged and in place.\<close>

theorem compaction_keeps_open_user:
  assumes "parallel (es_session st)" "open_user_protected_from (s_history (es_session st)) = Some p"
  shows "\<exists>res st'. compact_until_fit G sp specs force st = Ret (res, st')
    \<and> suffix (drop p (s_history (es_session st))) (s_history (es_session st'))"
  using compact_good [OF assms(1) open_tail_protected [OF assms(2)]]
  unfolding good_pass_def open_tail_def by blast

definition sample_env :: engine_env where
  "sample_env =
     \<lparr>en_fs = sample_fs,
      en_re = \<lparr>re_commands = \<lambda>_. [], re_commits = \<lambda>_. [], re_runs = \<lambda>_. [], re_paths = \<lambda>_. []\<rparr>,
      en_summarizer = \<lparr>sz_chat = \<lambda>_ _. None, sz_tool = \<lambda>_. None, sz_prompt = \<lambda>_ _. [], sz_decode = cps,
                       sz_max_rounds = 30\<rparr>,
      en_window = Some (Some 100000), en_policy = None, en_threshold = (\<lambda>w. w div 2), en_retain = 2,
      en_model = cps ''m'', en_persist = True, en_tasks = None\<rparr>"

definition sample_state :: "unit engine_state" where
  "sample_state = \<lparr>es_session = open_session [user_text (cps ''a''), assistant_text (cps ''b''), user_text (cps ''c'')],
     es_log = \<lparr>sl_requests = 0, sl_tools = []\<rparr>, es_persisted = []\<rparr>"

lemma sample_state_simps [simp]:
  "s_history (es_session sample_state) = [user_text (cps ''a''), assistant_text (cps ''b''), user_text (cps ''c'')]"
  "parallel (es_session sample_state)"
  by (simp_all add: sample_state_def open_session_def parallel_def)

lemma sample_protected:
  "open_user_protected_from [user_text (cps ''a''), assistant_text (cps ''b''), user_text (cps ''c'')] = Some 2"
proof -
  have "streak_back [user_text (cps ''a''), assistant_text (cps ''b''), user_text (cps ''c'')] 3 = 2"
    by (simp add: eval_nat_numeral)
  moreover have "skip_summaries [user_text (cps ''a''), assistant_text (cps ''b''), user_text (cps ''c'')] 2 = 2"
    by (rule skip_stop) (simp add: starts_marked_def compaction_marker_def user_text_def cps_def)
  ultimately show ?thesis by (simp add: open_user_protected_from_def Let_def eval_nat_numeral)
qed

theorem compaction_keeps_open_user_witness:
  "\<exists>res st'. compact_until_fit sample_env [] [] True sample_state = Ret (res, st')
    \<and> suffix (drop 2 (s_history (es_session sample_state))) (s_history (es_session st'))"
  by (rule compaction_keeps_open_user) (simp_all add: sample_protected)

text \<open>C14: A compaction ends after a bounded number of requests: at most ten passes of at most
  \<open>max_rounds\<close> summarizer requests each, whatever the provider answers, and ids and history stay
  parallel.\<close>

theorem compaction_requests_bounded:
  assumes "parallel (es_session st)"
  shows "\<exists>res st'. compact_until_fit G sp specs force st = Ret (res, st')
    \<and> sl_requests (es_log st') \<le> sl_requests (es_log st) + 10 * sz_max_rounds (en_summarizer G)
    \<and> length (s_message_ids (es_session st')) = length (s_history (es_session st'))"
proof -
  have "open_tail [] (s_history (es_session st))" by (simp add: open_tail_def)
  from compact_good [OF assms this] show ?thesis
    unfolding good_pass_def log_step_def parallel_def max_passes_def by blast
qed

theorem compaction_requests_bounded_witness:
  "\<exists>res st'. compact_until_fit sample_env [] [] True sample_state = Ret (res, st')
    \<and> sl_requests (es_log st') \<le> sl_requests (es_log sample_state) + 10 * sz_max_rounds (en_summarizer sample_env)
    \<and> length (s_message_ids (es_session st')) = length (s_history (es_session st'))"
  by (rule compaction_requests_bounded) simp

text \<open>The summarizer runs only the tools it is granted: over a whole compaction, every tool call that
  is executed names one of the five allowed tools, whatever calls the model makes.\<close>

theorem summarizer_tools_confined:
  assumes "parallel (es_session st)"
  shows "\<exists>res st' executed. compact_until_fit G sp specs force st = Ret (res, st')
    \<and> sl_tools (es_log st') = sl_tools (es_log st) @ executed
    \<and> list_all (\<lambda>tc. call_name tc \<in> set allowed_tools) executed"
proof -
  have "open_tail [] (s_history (es_session st))" by (simp add: open_tail_def)
  from compact_good [OF assms this] show ?thesis
    unfolding good_pass_def log_step_def list_all_iff by blast
qed

theorem summarizer_tools_confined_witness:
  "\<exists>res st' executed. compact_until_fit sample_env [] [] True sample_state = Ret (res, st')
    \<and> sl_tools (es_log st') = sl_tools (es_log sample_state) @ executed
    \<and> list_all (\<lambda>tc. call_name tc \<in> set allowed_tools) executed"
  by (rule summarizer_tools_confined) simp



text \<open>A full fold drops what stands before the last marked user message without summarising it: two
  histories that differ only there get the same summary, and all of it is replaced by that summary.
  The mark is plain text, so any user message that starts with it erases what came before.\<close>

theorem full_fold_forgets_prefix:
  assumes "is_user m" "starts_marked m" "\<not> list_ex (\<lambda>x. is_user x \<and> starts_marked x) b"
    and "\<not> list_all is_user b" "length a1 = length a2"
  shows "\<exists>r1 r2 l'. execute_full_fold_compaction G sp (a1 @ m # b) budget l = (Inr r1, l')
    \<and> execute_full_fold_compaction G sp (a2 @ m # b) budget l = (Inr r2, l')
    \<and> cr_summary r1 = cr_summary r2 \<and> cr_start r1 = 0 \<and> length a1 < cr_end r1"
proof -
  let ?n = "Suc (length a1) + fold_limit b"
  have lim: "fold_limit (a @ m # b) = Suc (length a) + fold_limit b" for a
    using fold_limit_append(1) [OF assms(4), of "a @ [m]"] by simp
  have pos: "0 < fold_limit b" using fold_limit_append(2) [OF assms(4)] .
  have lb: "fold_limit b \<le> length b" by (rule fold_limit_le)
  define body where "body = slice_summary G sp (take (fold_limit b) b) (Some (text_content m)) (Some budget) l"
  have exec: "\<exists>r. execute_compaction G sp (a @ m # b) ?n (Some budget) l = (Inr r, snd body)
      \<and> cr_end r = ?n \<and> cr_summary r = append_evidence_index (en_re G) (fst body) (take (fold_limit b) b)
          (Suc (length a1)) ?n ?n (en_model G)" if "length a = length a1" for a
  proof -
    have sl: "slice (length a + 1) ?n (a @ m # b) = take (fold_limit b) b"
      using that by (simp add: slice_def)
    have rg: "find_incremental_range (a @ m # b) ?n = (length a, length a + 1, ?n, Some (text_content m))"
      using that by (intro range_after_mark assms) simp
    have ne: "take (fold_limit b) b \<noteq> []" using pos lb by auto
    show ?thesis
      unfolding execute_compaction_def fold_limit_def [symmetric] Let_def lim that min.idem rg
      using ne sl that by (simp add: body_def split: prod.split)
  qed
  have full: "\<exists>r. execute_full_fold_compaction G sp (a @ m # b) budget l = (Inr r, snd body)
      \<and> cr_start r = 0 \<and> cr_end r = ?n \<and> cr_summary r = append_evidence_index (en_re G) (fst body)
          (take (fold_limit b) b) (Suc (length a1)) ?n ?n (en_model G)" if eq: "length a = length a1" for a
  proof -
    obtain r where r: "execute_compaction G sp (a @ m # b) (fold_limit (a @ m # b)) (Some budget) l = (Inr r, snd body)"
      "cr_end r = ?n" "cr_summary r = append_evidence_index (en_re G) (fst body) (take (fold_limit b) b)
          (Suc (length a1)) ?n ?n (en_model G)"
      using exec [OF eq] lim [of a] eq by auto
    have rg: "find_incremental_range (a @ m # b) (fold_limit (a @ m # b))
        = (length a, length a + 1, fold_limit (a @ m # b), Some (text_content m))"
      using lim by (intro range_after_mark assms) simp
    show ?thesis
      using full_fold_execute(2) [OF _ _ rg _ r(1) refl] lim [of a] pos r(2,3) eq by (simp add: Let_def)
  qed
  show ?thesis using full [OF refl] full [OF assms(5) [symmetric]] by fastforce
qed

theorem full_fold_forgets_prefix_witness:
  "\<exists>r1 r2 l'. execute_full_fold_compaction sample_env []
      ([user_text (cps ''a'')] @ user_text compaction_marker # [assistant_text (cps ''x'')]) 0 (es_log sample_state)
      = (Inr r1, l')
    \<and> execute_full_fold_compaction sample_env []
      ([user_text (cps ''b'')] @ user_text compaction_marker # [assistant_text (cps ''x'')]) 0 (es_log sample_state)
      = (Inr r2, l')
    \<and> cr_summary r1 = cr_summary r2 \<and> cr_start r1 = 0 \<and> length [user_text (cps ''a'')] < cr_end r1"
  by (rule full_fold_forgets_prefix) (simp_all add: starts_marked_def user_text_def)

end
