(* ===== verification/Truncation.thy ===== *)
theory Truncation
  imports Unicode
begin

text \<open>
  \<open>tools/truncation.rs\<close>: the output of a tool is cut to a budget of tokens, keeping its head and its
  tail.  Offsets are bytes; a slice that is not at a character boundary panics.
\<close>

subsection \<open>Byte offsets\<close>

text \<open>\<open>byte_split n s\<close> is \<open>(&s[..n], &s[n..])\<close>.\<close>

fun byte_split :: "nat \<Rightarrow> utext \<Rightarrow> (utext \<times> utext) run" where
  "byte_split 0 s = Ret ([], s)"
| "byte_split (Suc n) [] = Panic"
| "byte_split (Suc n) (c # s) =
     (if char_cost Bytes c \<le> Suc n
      then map_run (\<lambda>(a, b). (c # a, b)) (byte_split (Suc n - char_cost Bytes c) s)
      else Panic)"

abbreviation byte_len :: "utext \<Rightarrow> nat" where
  "byte_len \<equiv> measure_text Bytes"

definition is_char_boundary :: "utext \<Rightarrow> nat \<Rightarrow> bool" where
  "is_char_boundary s n \<longleftrightarrow> byte_split n s \<noteq> Panic"

definition approx_tokens :: "utext \<Rightarrow> nat" where
  "approx_tokens s = (byte_len s + 3) div 4"

fun boundary_down :: "utext \<Rightarrow> nat \<Rightarrow> nat" where
  "boundary_down s 0 = 0"
| "boundary_down s (Suc n) = (if is_char_boundary s (Suc n) then Suc n else boundary_down s n)"

definition find_char_boundary_near :: "utext \<Rightarrow> nat \<Rightarrow> nat" where
  "find_char_boundary_near s n = (if byte_len s \<le> n then byte_len s else boundary_down s n)"

function boundary_up :: "utext \<Rightarrow> nat \<Rightarrow> nat" where
  "boundary_up s n = (if \<not> is_char_boundary s n \<and> n < byte_len s then boundary_up s (Suc n) else n)"
  by pat_completeness auto
termination
  by (relation "measure (\<lambda>(s, n). byte_len s - n)") auto

declare boundary_up.simps [simp del]

definition find_char_boundary_near_from_end :: "utext \<Rightarrow> nat \<Rightarrow> nat" where
  "find_char_boundary_near_from_end s n = (if byte_len s \<le> n then byte_len s else boundary_up s n)"

subsection \<open>Truncation\<close>

definition omission_note :: "nat \<Rightarrow> nat \<Rightarrow> utext" where
  "omission_note bytes tokens =
     [10, 10] @ cps ''... [~'' @ cps (show_nat bytes) @ cps '' bytes / ~'' @ cps (show_nat tokens)
     @ cps '' tokens omitted] ...'' @ [10, 10]"

definition truncate_output :: "utext \<Rightarrow> nat \<Rightarrow> utext run" where
  "truncate_output s max_tokens =
     (if approx_tokens s \<le> max_tokens then Ret s
      else
        let max_bytes = max_tokens * 4;
            head_bytes = max_bytes * 80 div 100;
            tail_bytes = max_bytes * 15 div 100;
            n = byte_len s;
            head_end = find_char_boundary_near s (min head_bytes n);
            tail_start = find_char_boundary_near_from_end s (n - tail_bytes)
        in bind_run (byte_split head_end s) (\<lambda>(head, rest).
           bind_run (byte_split tail_start s) (\<lambda>(front, tail).
             if tail_start < head_end then Panic
             else bind_run (byte_split (tail_start - head_end) rest) (\<lambda>(omitted, _).
               Ret (head @ omission_note (tail_start - head_end) (approx_tokens omitted) @ tail)))))"

subsection \<open>Facts\<close>

lemma byte_split_Ret: "byte_split n s = Ret (a, b) \<longleftrightarrow> s = a @ b \<and> byte_len a = n"
proof (induction n s arbitrary: a b rule: byte_split.induct)
  case (1 s)
  have "byte_len a = 0 \<longleftrightarrow> a = []" by (cases a) (use char_cost_bounds(1) [of Bytes] in \<open>auto simp: Suc_le_eq\<close>)
  then show ?case by auto
next
  case (2 n)
  then show ?case by auto
next
  case (3 n c s)
  show ?case
  proof (cases "char_cost Bytes c \<le> Suc n")
    case True
    have "byte_split (Suc n) (c # s) = Ret (a, b) \<longleftrightarrow>
        (\<exists>a'. a = c # a' \<and> byte_split (Suc n - char_cost Bytes c) s = Ret (a', b))"
      using True by (cases "byte_split (Suc n - char_cost Bytes c) s") (auto simp: map_run_def)
    also have "\<dots> \<longleftrightarrow> (\<exists>a'. a = c # a' \<and> s = a' @ b \<and> byte_len a' = Suc n - char_cost Bytes c)"
      using 3 True by simp
    also have "\<dots> \<longleftrightarrow> c # s = a @ b \<and> byte_len a = Suc n"
      using True by (cases a) auto
    finally show ?thesis .
  next
    case False
    then show ?thesis by (cases a) auto
  qed
qed

lemma is_char_boundary_iff: "is_char_boundary s n \<longleftrightarrow> (\<exists>a b. s = a @ b \<and> byte_len a = n)"
proof (cases "byte_split n s")
  case Panic
  then show ?thesis using byte_split_Ret by (metis is_char_boundary_def run.distinct(1))
next
  case (Ret p)
  then show ?thesis using byte_split_Ret [of n s "fst p" "snd p"]
    unfolding is_char_boundary_def by auto
qed

lemma boundary_ends [simp]: "is_char_boundary s 0" "is_char_boundary s (byte_len s)"
  by (auto simp: is_char_boundary_iff intro: exI [of _ "[]"])

lemma boundary_down_spec: "is_char_boundary s (boundary_down s n) \<and> boundary_down s n \<le> n"
  by (induction n) (auto simp: le_SucI)

lemma near_spec:
  "is_char_boundary s (find_char_boundary_near s n)" "find_char_boundary_near s n \<le> n"
  "find_char_boundary_near s n \<le> byte_len s"
  using boundary_down_spec [of s n] by (auto simp: find_char_boundary_near_def)

lemma boundary_up_spec:
  "n \<le> byte_len s \<Longrightarrow> is_char_boundary s (boundary_up s n) \<and> n \<le> boundary_up s n \<and> boundary_up s n \<le> byte_len s"
proof (induction s n rule: boundary_up.induct)
  case (1 s n)
  show ?case
  proof (cases "\<not> is_char_boundary s n \<and> n < byte_len s")
    case True
    then have "boundary_up s n = boundary_up s (Suc n)" by (subst boundary_up.simps) simp
    then show ?thesis using 1 True by simp
  next
    case False
    then have "boundary_up s n = n" by (subst boundary_up.simps) auto
    then show ?thesis using False 1(2) by (cases "n = byte_len s") auto
  qed
qed

lemma from_end_spec:
  "is_char_boundary s (find_char_boundary_near_from_end s n)"
  "find_char_boundary_near_from_end s n \<le> byte_len s"
  "n \<le> byte_len s \<Longrightarrow> n \<le> find_char_boundary_near_from_end s n"
  using boundary_up_spec by (auto simp: find_char_boundary_near_from_end_def)

lemma truncate_parts:
  "\<exists>head omitted tail. s = head @ omitted @ tail
    \<and> truncate_output s m = Ret (if approx_tokens s \<le> m then s
        else head @ omission_note (byte_len omitted) (approx_tokens omitted) @ tail)
    \<and> byte_len head * 100 \<le> m * 320 \<and> byte_len tail * 100 \<le> m * 60"
proof (cases "approx_tokens s \<le> m")
  case True
  then show ?thesis
    by (intro exI [of _ "[]"] exI [of _ s]) (simp add: truncate_output_def)
next
  case False
  let ?n = "byte_len s"
  let ?h = "m * 4 * 80 div 100" and ?t = "m * 4 * 15 div 100"
  let ?he = "find_char_boundary_near s (min ?h ?n)" and ?ts = "find_char_boundary_near_from_end s (?n - ?t)"
  have big: "m * 4 < ?n" using False unfolding approx_tokens_def by linarith
  have he: "?he \<le> ?h" "?he \<le> ?n" using near_spec(2,3) [of s "min ?h ?n"] by auto
  have ts: "?n - ?t \<le> ?ts" "?ts \<le> ?n" using from_end_spec(2) [of s "?n - ?t"] from_end_spec(3) [of "?n - ?t" s] by auto
  have ht: "?h + ?t \<le> m * 4" by linarith
  have le: "?he \<le> ?ts" using he ts ht big by linarith
  obtain head rest where hd: "byte_split ?he s = Ret (head, rest)"
    using near_spec(1) [of s "min ?h ?n"] unfolding is_char_boundary_def by (cases "byte_split ?he s") auto
  obtain front tail where tl: "byte_split ?ts s = Ret (front, tail)"
    using from_end_spec(1) [of s "?n - ?t"] unfolding is_char_boundary_def by (cases "byte_split ?ts s") auto
  have h: "s = head @ rest" "byte_len head = ?he" and t: "s = front @ tail" "byte_len front = ?ts"
    using hd tl byte_split_Ret by blast+
  have "length head \<le> length front"
  proof (rule ccontr)
    assume "\<not> length head \<le> length front"
    then obtain x where "head = front @ x" "x \<noteq> []"
      using h(1) t(1) by (metis append_eq_append_conv2 append_Nil2 le_add1 length_append nat_le_linear order_refl)
    then show False using h(2) t(2) le char_cost_bounds(1) [of Bytes "hd x"] by (cases x) auto
  qed
  then obtain x where x: "front = head @ x" using h(1) t(1)
    by (metis append_eq_append_conv_if append_take_drop_id take_append)
  have rest: "rest = x @ tail" "byte_len x = ?ts - ?he" using h t x by auto
  have om: "byte_split (?ts - ?he) rest = Ret (x, tail)" unfolding byte_split_Ret using rest by blast
  have out: "truncate_output s m = Ret (head @ omission_note (byte_len x) (approx_tokens x) @ tail)"
    unfolding rest(2) truncate_output_def Let_def hd tl bind_run.simps prod.case om using False le by simp
  have hb: "byte_len head * 100 \<le> m * 320" using h(2) he(1) by linarith
  have tb: "byte_len tail * 100 \<le> m * 60"
  proof -
    have "byte_len tail = ?n - ?ts" using t by simp
    then have "byte_len tail \<le> ?t" using ts(1) by linarith
    then show ?thesis by linarith
  qed
  have "s = head @ x @ tail" using h(1) rest(1) by simp
  then show ?thesis unfolding if_not_P [OF False]
    by (intro exI [of _ head] exI [of _ x] exI [of _ tail] conjI out hb tb)
qed

lemma truncate_total: "\<exists>out. truncate_output s m = Ret out"
  using truncate_parts [of s m] by blast

subsection \<open>Properties\<close>

text \<open>Truncation never panics and keeps both ends: an output that fits is unchanged; else the result is a
  head of at most four fifths of the budget, a note with the exact number of bytes left out, and
  a tail of at most 15 percent, each ending at a character boundary.\<close>

theorem truncate_output_spec:
  "\<exists>head omitted tail. s = head @ omitted @ tail
    \<and> truncate_output s m = Ret (if approx_tokens s \<le> m then s
        else head @ omission_note (byte_len omitted) (approx_tokens omitted) @ tail)
    \<and> byte_len head * 100 \<le> m * 320 \<and> byte_len tail * 100 \<le> m * 60"
  by (rule truncate_parts)

end
