(* ===== verification/Tool_Executor.thy ===== *)
theory Tool_Executor
  imports Truncation Session_History
begin

text \<open>
  \<open>agents/tool_executor.rs\<close>: one tool call is run under the permission mode, the approval gate for
  dangerous shell commands, the low-memory guard, a watchdog and the truncation of its output.
  \<open>serde_json\<close>, the tools, the channel, the user's reply and \<open>/proc/meminfo\<close> are arguments.
\<close>

record 'j args_lib =
  aj_parse :: "utext \<Rightarrow> 'j option"
  aj_command :: "'j \<Rightarrow> utext option"
  aj_empty :: 'j
  aj_raw :: "utext \<Rightarrow> 'j"

record tool_result =
  tr_success :: bool
  tr_output :: utext
  tr_error :: "utext option"

text \<open>A tool runs for a number of nanoseconds and answers with an error or a result.\<close>

record 'j tool_def =
  td_name :: utext
  td_preferred_secs :: "nat option"
  td_blocks_on_human :: bool
  td_max_output_tokens :: nat
  td_run :: "'j \<Rightarrow> nat \<times> (utext + tool_result)"

subsection \<open>Shell commands\<close>

fun split_where :: "(nat \<Rightarrow> bool) \<Rightarrow> utext \<Rightarrow> utext \<Rightarrow> utext list" where
  "split_where P cur [] = [cur]"
| "split_where P cur (c # s) =
     (if P c then cur # split_where P [] s else split_where P (cur @ [c]) s)"

definition is_separator :: "nat \<Rightarrow> bool" where
  "is_separator c \<longleftrightarrow> c \<in> set [124, 38, 59, 10]"

definition first_token :: "utext \<Rightarrow> utext option" where
  "first_token s =
     (let t = takeWhile (\<lambda>c. \<not> is_space c) (dropWhile is_space s) in if t = [] then None else Some t)"

definition basename :: "utext \<Rightarrow> utext" where
  "basename t = rev (takeWhile (\<lambda>c. c \<noteq> 47) (rev t))"

definition segment_runs :: "utext list \<Rightarrow> utext \<Rightarrow> bool" where
  "segment_runs names seg =
     (case first_token (trim seg) of None \<Rightarrow> False | Some t \<Rightarrow> basename t \<in> set names)"

definition shell_runs :: "utext list \<Rightarrow> utext \<Rightarrow> bool" where
  "shell_runs names command = list_ex (segment_runs names) (split_where is_separator [] command)"

definition dangerous_commands :: "utext list" where
  "dangerous_commands = map cps [''kill'', ''pkill'', ''killall'', ''systemctl'', ''service'',
     ''reboot'', ''shutdown'', ''poweroff'', ''halt'']"

definition shell_has_dangerous_command :: "utext \<Rightarrow> bool" where
  "shell_has_dangerous_command = shell_runs dangerous_commands"

definition build_commands :: "utext list" where
  "build_commands = map cps [''cargo'', ''rustc'', ''make'', ''cmake'']"

definition shell_has_heavy_build :: "utext \<Rightarrow> bool" where
  "shell_has_heavy_build = shell_runs build_commands"

subsection \<open>Memory guard\<close>

definition parse_u64_text :: "utext \<Rightarrow> nat option" where
  "parse_u64_text s = (if list_all (\<lambda>c. c < 128) s then parse_uint 64 (map char_of s) else None)"

primrec mem_available_lines :: "utext list \<Rightarrow> nat option" where
  "mem_available_lines [] = None"
| "mem_available_lines (l # ls) =
     (case strip_prefix (cps ''MemAvailable:'') l of
        Some rest \<Rightarrow> Option.bind (first_token rest) parse_u64_text
      | None \<Rightarrow> mem_available_lines ls)"

definition read_mem_available_kb :: "utext option \<Rightarrow> nat option" where
  "read_mem_available_kb meminfo = Option.bind meminfo (\<lambda>content. mem_available_lines (text_lines content))"

definition min_avail_kb :: nat where "min_avail_kb = 512 * 1024"

definition command_of :: "'j args_lib \<Rightarrow> utext \<Rightarrow> utext" where
  "command_of J arguments =
     (case Option.bind (aj_parse J arguments) (aj_command J) of Some c \<Rightarrow> c | None \<Rightarrow> [])"

definition memory_rejection :: tool_result where
  "memory_rejection = \<lparr>tr_success = False, tr_output = [],
     tr_error = Some (cps ''cargo/rustc rejected: insufficient memory (<512MB available) on this host. Use CI instead.'')\<rparr>"

definition check_memory_guard :: "'j args_lib \<Rightarrow> utext option \<Rightarrow> utext \<Rightarrow> tool_result option" where
  "check_memory_guard J meminfo arguments =
     (if \<not> shell_has_heavy_build (command_of J arguments) then None
      else case read_mem_available_kb meminfo of
        None \<Rightarrow> None
      | Some kb \<Rightarrow> if min_avail_kb \<le> kb then None else Some memory_rejection)"

subsection \<open>Approval\<close>

datatype approval_decision = Approved | Denied | Skipped

text \<open>The approval channel: whether there is a router, a channel (and whether the prompt is delivered), a
  reply target, and the reply (\<open>None\<close> when the wait fails).\<close>

record approval_env =
  ap_router :: bool
  ap_channel_sends :: "bool option"
  ap_reply_target :: "utext option"
  ap_reply :: "utext option"

definition is_approval_exempt :: "utext \<Rightarrow> bool" where
  "is_approval_exempt name \<longleftrightarrow> name \<in> set (map cps [''agent_delegate'', ''agent_kill'', ''shell_kill''])"

definition needs_approval :: "'j args_lib \<Rightarrow> utext \<Rightarrow> utext \<Rightarrow> bool" where
  "needs_approval J name arguments =
     (if name \<noteq> cps ''shell'' then False else shell_has_dangerous_command (command_of J arguments))"

definition format_args_preview :: "utext \<Rightarrow> nat \<Rightarrow> utext run" where
  "format_args_preview args max_chars =
     (if byte_len args \<le> max_chars then Ret args
      else map_run (\<lambda>(a, b). a @ [0x2026]) (byte_split max_chars args))"

text \<open>Only the ASCII letters of the reply matter to the three tests, so ASCII lower case decides them.\<close>

definition denies :: "utext \<Rightarrow> bool" where
  "denies reply =
     (let d = map lower_cp (trim reply) in
      prefix (cps ''deny'') d \<or> contains d [0x62D2, 0x7EDD] \<or> contains d [0x274C])"

definition request_approval :: "approval_env \<Rightarrow> tool_call \<Rightarrow> approval_decision run" where
  "request_approval A tc =
     (if \<not> ap_router A then Ret Skipped
      else case ap_channel_sends A of
        None \<Rightarrow> Ret Skipped
      | Some sent \<Rightarrow>
          (case ap_reply_target A of
             None \<Rightarrow> Ret Skipped
           | Some rt \<Rightarrow>
               bind_run (format_args_preview (call_arguments tc) 500) (\<lambda>preview.
                 if \<not> sent then Ret Skipped
                 else case ap_reply A of
                   Some reply \<Rightarrow> Ret (if denies reply then Denied else Approved)
                 | None \<Rightarrow> Ret Denied)))"

subsection \<open>Execution\<close>

definition watchdog_headroom_secs :: nat where "watchdog_headroom_secs = 30"

definition effective_timeout_secs :: "nat option \<Rightarrow> nat \<Rightarrow> nat" where
  "effective_timeout_secs preferred configured =
     (case preferred of
        Some p \<Rightarrow> if configured \<le> p then p + watchdog_headroom_secs else configured
      | None \<Rightarrow> configured)"

definition parse_tool_args :: "'j args_lib \<Rightarrow> utext \<Rightarrow> 'j" where
  "parse_tool_args J arguments =
     (if arguments = [] then aj_empty J
      else case aj_parse J arguments of Some v \<Rightarrow> v | None \<Rightarrow> aj_raw J arguments)"

definition timeout_result :: "utext \<Rightarrow> nat \<Rightarrow> tool_result" where
  "timeout_result name secs = \<lparr>tr_success = False,
     tr_output = cps ''Tool '' @ [39] @ name @ [39] @ cps '' timed out after '' @ cps (show_nat secs) @ cps ''s'',
     tr_error = Some (cps ''timeout'')\<rparr>"

definition run_tool :: "nat \<Rightarrow> 'j tool_def \<Rightarrow> utext \<Rightarrow> 'j \<Rightarrow> (utext + tool_result) run" where
  "run_tool timeout_secs t name args =
     (let (time, answer) = td_run t args;
          secs = effective_timeout_secs (td_preferred_secs t) timeout_secs;
          raw = (if timeout_secs > 0 \<and> \<not> td_blocks_on_human t \<and> from_secs secs < time
                 then Inr (timeout_result name secs) else answer)
      in case raw of
           Inl e \<Rightarrow> Ret (Inl e)
         | Inr r \<Rightarrow> map_run (\<lambda>out. Inr (r\<lparr>tr_output := out\<rparr>))
             (truncate_output (tr_output r) (td_max_output_tokens t)))"

record 'j exec_env =
  ex_args :: "'j args_lib"
  ex_approval :: approval_env
  ex_meminfo :: "utext option"
  ex_timeout_secs :: nat
  ex_allowed :: "'j tool_def list"

definition read_only_result :: "utext \<Rightarrow> tool_result" where
  "read_only_result name = \<lparr>tr_success = False,
     tr_output = cps ''Tool '' @ [39] @ name @ [39] @ cps '' is not allowed in read-only mode (autonomy: ReadOnly).'',
     tr_error = Some (cps ''autonomy_policy: ReadOnly'')\<rparr>"

definition denied_result :: "utext \<Rightarrow> tool_result" where
  "denied_result name = \<lparr>tr_success = False,
     tr_output = cps ''User denied execution of tool '' @ [39] @ name @ [39, 46],
     tr_error = Some (cps ''user_denied'')\<rparr>"

text \<open>The answer and whether the tool was run.\<close>

definition dispatch_tool :: "'j exec_env \<Rightarrow> tool_call \<Rightarrow> ((utext + tool_result) \<times> bool) run" where
  "dispatch_tool X tc =
     (case (if call_name tc = cps ''shell''
            then check_memory_guard (ex_args X) (ex_meminfo X) (call_arguments tc) else None) of
        Some rejection \<Rightarrow> Ret (Inr rejection, False)
      | None \<Rightarrow>
          (case find (\<lambda>t. td_name t = call_name tc) (ex_allowed X) of
             None \<Rightarrow> Ret (Inl (cps ''Unknown tool: '' @ [39] @ call_name tc @ [39]), False)
           | Some t \<Rightarrow> map_run (\<lambda>r. (r, True))
               (run_tool (ex_timeout_secs X) t (call_name tc) (parse_tool_args (ex_args X) (call_arguments tc)))))"

definition execute_tool ::
  "'j exec_env \<Rightarrow> permission_mode option \<Rightarrow> tool_call \<Rightarrow> ((utext + tool_result) \<times> bool) run" where
  "execute_tool X autonomy tc =
     (if autonomy = Some Read_Only \<and> is_write_tool (call_name tc)
      then Ret (Inr (read_only_result (call_name tc)), False)
      else if autonomy = Some Default \<and> \<not> is_approval_exempt (call_name tc)
        \<and> needs_approval (ex_args X) (call_name tc) (call_arguments tc)
      then bind_run (request_approval (ex_approval X) tc) (\<lambda>d.
        if d = Denied then Ret (Inr (denied_result (call_name tc)), False) else dispatch_tool X tc)
      else dispatch_tool X tc)"

subsection \<open>Facts\<close>

lemma split_where_append:
  "P c \<Longrightarrow> split_where P cur (a @ c # b) = split_where P cur a @ split_where P [] b"
  by (induction a arbitrary: cur) auto

lemma split_where_none: "list_all (\<lambda>c. \<not> P c) s \<Longrightarrow> split_where P cur s = [cur @ s]"
  by (induction s arbitrary: cur) auto

lemma shell_runs_append: "is_separator c \<Longrightarrow> shell_runs names (a @ c # b) \<longleftrightarrow> shell_runs names a \<or> shell_runs names b"
  by (simp add: shell_runs_def split_where_append)

lemma byte_len_ascii: "list_all (\<lambda>c. c < 0x80) s \<Longrightarrow> byte_len s = length s"
  by (induction s) (simp_all add: char_cost_def)

lemma run_tool_returns: "\<exists>r. run_tool n t name args = Ret r"
proof -
  obtain time answer where "td_run t args = (time, answer)" by fastforce
  moreover have "\<exists>out. truncate_output s m = Ret out" for s m
    using truncate_total by blast
  ultimately show ?thesis
    by (auto simp: run_tool_def Let_def map_run_def split: sum.split)
      (metis bind_run.simps(2))+
qed

lemma needs_approval_shell: "needs_approval J name args \<Longrightarrow> name = cps ''shell''"
  by (simp add: needs_approval_def split: if_splits)

lemma shell_not_exempt: "\<not> is_approval_exempt (cps ''shell'')"
  by (simp add: is_approval_exempt_def cps_def)

lemma gate_asks:
  assumes "needs_approval (ex_args X) (call_name tc) (call_arguments tc)"
  shows "execute_tool X (Some Default) tc = bind_run (request_approval (ex_approval X) tc) (\<lambda>d.
    if d = Denied then Ret (Inr (denied_result (call_name tc)), False) else dispatch_tool X tc)"
  using assms needs_approval_shell [OF assms] shell_not_exempt by (simp add: execute_tool_def)

lemma first_token_word:
  "w \<noteq> [] \<Longrightarrow> list_all (\<lambda>c. \<not> is_space c) w \<Longrightarrow> is_space d \<Longrightarrow> first_token (w @ d # s) = Some w"
proof -
  assume w: "w \<noteq> []" "list_all (\<lambda>c. \<not> is_space c) w" "is_space d"
  have "dropWhile is_space (w @ d # s) = w @ d # s" using w by (cases w) auto
  moreover have "takeWhile (\<lambda>c. \<not> is_space c) (w @ d # s) = w"
    using w by (simp add: list_all_iff takeWhile_append2)
  ultimately show ?thesis using w by (simp add: first_token_def Let_def)
qed

lemma first_token_whole: "w \<noteq> [] \<Longrightarrow> list_all (\<lambda>c. \<not> is_space c) w \<Longrightarrow> first_token w = Some w"
proof -
  assume w: "w \<noteq> []" "list_all (\<lambda>c. \<not> is_space c) w"
  have dr: "dropWhile is_space w = w" using w by (cases w) auto
  have tk: "takeWhile (\<lambda>c. \<not> is_space c) w = w"
    using w by (simp add: takeWhile_eq_all_conv list_all_iff)
  show ?thesis unfolding first_token_def Let_def dr tk using w(1) by simp
qed

text \<open>Trimming a segment that starts with a word keeps that word and, before anything else, a space.\<close>

lemma trim_word:
  assumes "w \<noteq> []" "list_all (\<lambda>c. \<not> is_space c) w" "is_space d"
  shows "trim (w @ d # s) = w \<or> (\<exists>s'. trim (w @ d # s) = w @ d # s')"
proof -
  have start: "trim_start (w @ r) = w @ r" for r
    using assms by (cases w) (auto simp: trim_start_def trim_start_of_def)
  obtain r where "prefix (trim_end (w @ d # s)) (w @ d # s)" using trim_end_prefix by blast
  moreover have "prefix w (trim_end (w @ d # s))"
  proof -
    have "trim_end (w @ x) = w @ trim_end x" for x
    proof (cases "trim_end x = []")
      case True
      then have "list_all is_space x"
        by (auto simp: trim_end_def trim_end_of_def list_all_iff dropWhile_eq_Nil_conv)
      then have "dropWhile is_space (rev x @ rev w) = dropWhile is_space (rev w)"
        by (intro dropWhile_append2) (auto simp: list_all_iff)
      moreover have "dropWhile is_space (rev w) = rev w"
        using assms by (cases w rule: rev_cases) (auto simp: list_all_iff)
      ultimately show ?thesis using True by (simp add: trim_end_def trim_end_of_def)
    next
      case False
      then show ?thesis
        by (auto simp: trim_end_def trim_end_of_def dropWhile_append1 dropWhile_eq_Nil_conv dropWhile_append)
    qed
    then show ?thesis by simp
  qed
  ultimately have "trim_end (w @ d # s) = w \<or> (\<exists>s'. trim_end (w @ d # s) = w @ d # s')"
    by (auto simp: prefix_def append_eq_append_conv2 Cons_eq_append_conv)
  then show ?thesis unfolding trim_def using start [of "[]"] start by auto
qed

lemma segment_word:
  assumes "w \<noteq> []" "list_all (\<lambda>c. \<not> is_space c) w" "is_space d"
  shows "segment_runs names (w @ d # s) \<longleftrightarrow> basename w \<in> set names"
  using trim_word [OF assms, of s] first_token_word [OF assms] first_token_whole [OF assms(1,2)]
  by (auto simp: segment_runs_def)

subsection \<open>Properties\<close>

text \<open>In read-only mode no writing tool runs: the call is answered with the policy error at once,
  whatever the arguments and the approval channel say.\<close>

theorem read_only_blocks_writes:
  assumes "is_write_tool (call_name tc)"
  shows "execute_tool X (Some Read_Only) tc = Ret (Inr (read_only_result (call_name tc)), False)"
  using assms by (simp add: execute_tool_def)

definition shell_call :: "utext \<Rightarrow> tool_call" where
  "shell_call args = \<lparr>call_id = cps ''c1'', call_name = cps ''shell'', call_arguments = args\<rparr>"

lemma shell_call_simps [simp]:
  "call_name (shell_call args) = cps ''shell''" "call_arguments (shell_call args) = args"
  by (simp_all add: shell_call_def)

text \<open>C15: In the default mode a dangerous shell command runs only after a reply that is not a denial, as long
  as there is a way to ask: a router, a reply target and a channel that delivers the prompt.\<close>

theorem dangerous_command_asks:
  assumes "needs_approval (ex_args X) (call_name tc) (call_arguments tc)"
    "execute_tool X (Some Default) tc = Ret (r, True)"
    "ap_router (ex_approval X)" "ap_channel_sends (ex_approval X) = Some True"
    "ap_reply_target (ex_approval X) = Some rt"
  shows "\<exists>reply. ap_reply (ex_approval X) = Some reply \<and> \<not> denies reply"
proof (cases "format_args_preview (call_arguments tc) 500")
  case Panic
  then have "execute_tool X (Some Default) tc = Panic"
    using assms(3-5) unfolding gate_asks [OF assms(1)] by (simp add: request_approval_def)
  then show ?thesis using assms(2) by simp
next
  case (Ret p)
  then show ?thesis using assms(2-5) unfolding gate_asks [OF assms(1)]
    by (auto simp: request_approval_def split: option.splits if_splits)
qed

text \<open>The library of a shell tool whose arguments are the command itself.\<close>

definition plain_args :: "utext args_lib" where
  "plain_args = \<lparr>aj_parse = \<lambda>s. Some s, aj_command = \<lambda>s. Some s, aj_empty = [], aj_raw = \<lambda>s. s\<rparr>"

definition shell_env :: "bool \<Rightarrow> utext \<Rightarrow> utext exec_env" where
  "shell_env sends reply =
     \<lparr>ex_args = plain_args,
      ex_approval = \<lparr>ap_router = True, ap_channel_sends = Some sends, ap_reply_target = Some (cps ''me''),
                     ap_reply = Some reply\<rparr>,
      ex_meminfo = None, ex_timeout_secs = 60,
      ex_allowed = [\<lparr>td_name = cps ''shell'', td_preferred_secs = None, td_blocks_on_human = False,
        td_max_output_tokens = 10, td_run = \<lambda>_. (0, Inr \<lparr>tr_success = True, tr_output = [], tr_error = None\<rparr>)\<rparr>]\<rparr>"

theorem read_only_blocks_writes_witness:
  "execute_tool (shell_env True []) (Some Read_Only) (shell_call (cps ''{}''))
    = Ret (Inr (read_only_result (call_name (shell_call (cps ''{}'')))), False)"
  by (rule read_only_blocks_writes) (simp add: is_write_tool_def)

lemma kill_is_dangerous: "shell_has_dangerous_command (cps ''kill'' @ 32 # cps ''1'')"
proof -
  have "split_where is_separator [] (cps ''kill'' @ 32 # cps ''1'') = [cps ''kill'' @ 32 # cps ''1'']"
    by (subst split_where_none) (simp_all add: is_separator_def cps_def)
  moreover have "segment_runs dangerous_commands (cps ''kill'' @ 32 # cps ''1'')"
    by (subst segment_word) (simp_all add: is_space_def cps_def basename_def dangerous_commands_def)
  ultimately show ?thesis by (simp add: shell_has_dangerous_command_def shell_runs_def)
qed

lemma kill_not_build: "\<not> shell_has_heavy_build (cps ''kill'' @ 32 # cps ''1'')"
proof -
  have "split_where is_separator [] (cps ''kill'' @ 32 # cps ''1'') = [cps ''kill'' @ 32 # cps ''1'']"
    by (subst split_where_none) (simp_all add: is_separator_def cps_def)
  moreover have "\<not> segment_runs build_commands (cps ''kill'' @ 32 # cps ''1'')"
    by (subst segment_word) (simp_all add: is_space_def cps_def basename_def build_commands_def)
  ultimately show ?thesis by (simp add: shell_has_heavy_build_def shell_runs_def)
qed

lemma denies_words: "\<not> denies (cps ''no'')" "\<not> denies (cps ''yes'')" "denies (cps ''deny'')"
  by (simp_all add: denies_def Let_def trim_def trim_start_def trim_end_def trim_start_of_def
      trim_end_of_def is_space_def lower_cp_def cps_def contains_def)

lemma dispatch_shell:
  assumes "call_name tc = cps ''shell''" "\<not> shell_has_heavy_build (command_of (ex_args X) (call_arguments tc))"
    "find (\<lambda>t. td_name t = cps ''shell'') (ex_allowed X) = Some t"
  obtains r where "dispatch_tool X tc = Ret (r, True)"
proof -
  obtain r where "run_tool (ex_timeout_secs X) t (cps ''shell'')
      (parse_tool_args (ex_args X) (call_arguments tc)) = Ret r"
    using run_tool_returns [of "ex_timeout_secs X" t "cps ''shell''"
        "parse_tool_args (ex_args X) (call_arguments tc)"] by (elim exE)
  then have "dispatch_tool X tc = Ret (r, True)"
    using assms by (simp add: dispatch_tool_def check_memory_guard_def map_run_def)
  then show ?thesis by (rule that)
qed

lemma shell_env_simps [simp]:
  "ex_args (shell_env b t) = plain_args" "ap_router (ex_approval (shell_env b t))"
  "ap_channel_sends (ex_approval (shell_env b t)) = Some b"
  "ap_reply_target (ex_approval (shell_env b t)) = Some (cps ''me'')"
  "ap_reply (ex_approval (shell_env b t)) = Some t" "command_of plain_args a = a"
  by (simp_all add: shell_env_def plain_args_def command_of_def)

lemma kill_needs_approval:
  "needs_approval plain_args (cps ''shell'') (cps ''kill'' @ 32 # cps ''1'')"
  using kill_is_dangerous by (simp add: needs_approval_def)

lemma kill_runs:
  "find (\<lambda>t. td_name t = cps ''shell'') (ex_allowed (shell_env b t)) \<noteq> None"
  by (simp add: shell_env_def)

lemma kill_bytes: "byte_len (cps ''kill'' @ 32 # cps ''1'') \<le> 500"
  by (simp add: cps_def char_cost_def)

text \<open>Any reply that is not spelt as a denial is taken as consent: a dangerous command runs after the
  reply \<open>no\<close>, and also when the prompt could not be delivered at all.\<close>

theorem unclear_reply_approves:
  assumes "needs_approval (ex_args X) (call_name tc) (call_arguments tc)"
    "ap_router (ex_approval X)" "ap_reply_target (ex_approval X) = Some rt"
    "ap_channel_sends (ex_approval X) = Some False
      \<or> (ap_channel_sends (ex_approval X) = Some True \<and> ap_reply (ex_approval X) = Some (cps ''no''))"
    "byte_len (call_arguments tc) \<le> 500"
    "\<not> shell_has_heavy_build (command_of (ex_args X) (call_arguments tc))"
    "find (\<lambda>t. td_name t = cps ''shell'') (ex_allowed X) = Some t"
  shows "\<exists>r. execute_tool X (Some Default) tc = Ret (r, True)"
proof -
  obtain r where r: "dispatch_tool X tc = Ret (r, True)"
    using dispatch_shell [OF needs_approval_shell [OF assms(1)] assms(6,7)] .
  have "request_approval (ex_approval X) tc \<in> {Ret Skipped, Ret Approved}"
    using assms(2-5) denies_words(1) by (auto simp: request_approval_def format_args_preview_def)
  then show ?thesis unfolding gate_asks [OF assms(1)] using r by auto
qed

theorem unclear_reply_approves_witness:
  "\<exists>r. execute_tool (shell_env True (cps ''no'')) (Some Default) (shell_call (cps ''kill'' @ 32 # cps ''1''))
    = Ret (r, True)"
proof -
  obtain t where "find (\<lambda>t. td_name t = cps ''shell'') (ex_allowed (shell_env True (cps ''no''))) = Some t"
    using kill_runs by blast
  then show ?thesis using kill_needs_approval kill_bytes kill_not_build
    by (intro unclear_reply_approves [where rt = "cps ''me''" and t = t]) (simp_all del: append.simps)
qed

theorem dangerous_command_asks_witness:
  "\<exists>reply. ap_reply (ex_approval (shell_env True (cps ''yes''))) = Some reply \<and> \<not> denies reply"
proof -
  obtain t where t: "find (\<lambda>t. td_name t = cps ''shell'') (ex_allowed (shell_env True (cps ''yes''))) = Some t"
    using kill_runs by blast
  let ?tc = "shell_call (cps ''kill'' @ 32 # cps ''1'')"
  have na: "needs_approval (ex_args (shell_env True (cps ''yes''))) (call_name ?tc) (call_arguments ?tc)"
    using kill_needs_approval by simp
  obtain r where r: "dispatch_tool (shell_env True (cps ''yes'')) ?tc = Ret (r, True)"
    using dispatch_shell [of ?tc, OF _ _ t] kill_not_build by auto
  have "request_approval (ex_approval (shell_env True (cps ''yes''))) ?tc = Ret Approved"
    using kill_bytes denies_words(2) by (simp add: request_approval_def format_args_preview_def del: append.simps)
  then have "execute_tool (shell_env True (cps ''yes'')) (Some Default) ?tc = Ret (r, True)"
    unfolding gate_asks [OF na] using r by simp
  then show ?thesis using dangerous_command_asks [OF na] by simp
qed

text \<open>The gate sees every command of a pipeline or list: a command line is dangerous exactly when one of
  the two sides of any of its separators is.\<close>

theorem dangerous_in_any_segment:
  assumes "is_separator c"
  shows "shell_has_dangerous_command (a @ c # b)
    \<longleftrightarrow> shell_has_dangerous_command a \<or> shell_has_dangerous_command b"
  unfolding shell_has_dangerous_command_def by (rule shell_runs_append [OF assms])

theorem dangerous_in_any_segment_witness:
  "shell_has_dangerous_command (cps ''ps aux'' @ 124 # cps ''kill 1'')
    \<longleftrightarrow> shell_has_dangerous_command (cps ''ps aux'') \<or> shell_has_dangerous_command (cps ''kill 1'')"
  by (rule dangerous_in_any_segment) (simp add: is_separator_def)

text \<open>A wrapper hides a dangerous command from the gate: behind \<open>sudo\<close> no command of a single segment is
  ever found dangerous, so it runs without approval.\<close>

theorem sudo_hides_command:
  assumes "list_all (\<lambda>c. \<not> is_separator c) command"
  shows "\<not> shell_has_dangerous_command (cps ''sudo'' @ 32 # command)"
proof -
  have "list_all (\<lambda>c. \<not> is_separator c) (cps ''sudo'' @ 32 # command)"
    using assms by (simp add: is_separator_def cps_def)
  then have "split_where is_separator [] (cps ''sudo'' @ 32 # command) = [cps ''sudo'' @ 32 # command]"
    by (simp add: split_where_none del: list_all_append)
  moreover have "\<not> segment_runs dangerous_commands (cps ''sudo'' @ 32 # command)"
    by (subst segment_word) (simp_all add: is_space_def cps_def basename_def dangerous_commands_def)
  ultimately show ?thesis by (simp add: shell_has_dangerous_command_def shell_runs_def)
qed

theorem sudo_hides_command_witness:
  "\<not> shell_has_dangerous_command (cps ''sudo'' @ 32 # cps ''reboot'')"
  by (rule sudo_hides_command) (simp add: is_separator_def cps_def)

text \<open>The approval prompt cuts its preview at byte 500 wherever that falls: when a character of the
  arguments straddles it, asking for approval panics.\<close>

theorem approval_prompt_panics:
  assumes "needs_approval (ex_args X) (call_name tc) (call_arguments tc)"
    "ap_router (ex_approval X)" "ap_channel_sends (ex_approval X) = Some sent"
    "ap_reply_target (ex_approval X) = Some rt"
    "call_arguments tc = a @ c # b" "byte_len a < 500" "500 < byte_len a + char_cost Bytes c"
  shows "execute_tool X (Some Default) tc = Panic"
proof -
  have "\<not> is_char_boundary (a @ c # b) 500"
  proof
    assume "is_char_boundary (a @ c # b) 500"
    then obtain x y where xy: "a @ c # b = x @ y" "byte_len x = 500"
      by (auto simp: is_char_boundary_iff)
    show False
    proof (cases "length x \<le> length a")
      case True
      have "prefix a (x @ y)" unfolding xy(1) [symmetric] by simp
      then have "prefix x a" using True by (intro prefix_length_prefix [of x "x @ y" a]) simp_all
      then show False using measure_prefix [of x a Bytes] xy(2) assms(6) by simp
    next
      case False
      have "prefix (a @ [c]) (x @ y)" unfolding xy(1) [symmetric] by simp
      then have "prefix (a @ [c]) x"
        using False by (intro prefix_length_prefix [of "a @ [c]" "x @ y" x]) simp_all
      then show False using measure_prefix [of "a @ [c]" x Bytes] xy(2) assms(7) by simp
    qed
  qed
  then have "format_args_preview (call_arguments tc) 500 = Panic"
    unfolding format_args_preview_def assms(5) using assms(7)
    by (simp add: is_char_boundary_def map_run_def)
  then show ?thesis unfolding gate_asks [OF assms(1)] using assms(2-4) by (simp add: request_approval_def)
qed

lemma long_kill:
  "shell_has_dangerous_command (cps ''kill'' @ 32 # replicate n 97 @ [0x4E2D])"
proof -
  have "split_where is_separator [] (cps ''kill'' @ 32 # replicate n 97 @ [0x4E2D])
      = [cps ''kill'' @ 32 # replicate n 97 @ [0x4E2D]]"
    by (subst split_where_none) (simp_all add: is_separator_def cps_def list_all_iff)
  moreover have "segment_runs dangerous_commands (cps ''kill'' @ 32 # replicate n 97 @ [0x4E2D])"
    by (subst segment_word) (simp_all add: is_space_def cps_def basename_def dangerous_commands_def)
  ultimately show ?thesis by (simp add: shell_has_dangerous_command_def shell_runs_def)
qed

theorem approval_prompt_panics_witness:
  "execute_tool (shell_env True (cps ''yes'')) (Some Default)
    (shell_call ((cps ''kill'' @ 32 # replicate 494 97) @ 0x4E2D # [])) = Panic"
proof (rule approval_prompt_panics [where a = "cps ''kill'' @ 32 # replicate 494 97" and c = "0x4E2D" and b = "[]"])
  have "byte_len (cps ''kill'' @ 32 # replicate 494 97) = length (cps ''kill'' @ 32 # replicate 494 97)"
    by (rule byte_len_ascii) (simp add: cps_def list_all_iff)
  then have len: "byte_len (cps ''kill'' @ 32 # replicate 494 97) = 499" by (simp add: cps_def)
  then show "byte_len (cps ''kill'' @ 32 # replicate 494 97) < 500"
    "500 < byte_len (cps ''kill'' @ 32 # replicate 494 97) + char_cost Bytes 0x4E2D"
    by (simp_all only: char_cost_def len_unit.case) simp_all
  show "needs_approval (ex_args (shell_env True (cps ''yes'')))
      (call_name (shell_call ((cps ''kill'' @ 32 # replicate 494 97) @ 0x4E2D # [])))
      (call_arguments (shell_call ((cps ''kill'' @ 32 # replicate 494 97) @ 0x4E2D # [])))"
    using long_kill [of 494] by (simp add: needs_approval_def)
qed (rule shell_env_simps shell_call_simps)+

text \<open>The watchdog never beats a tool to its own deadline: a tool that ends by the time it prefers
  answers for itself, because the outer timeout is strictly later.\<close>

theorem watchdog_after_deadline:
  assumes "td_preferred_secs t = Some p" "td_run t args = (time, answer)" "time \<le> from_secs p"
  shows "p < effective_timeout_secs (td_preferred_secs t) n
    \<and> run_tool n t name args = (case answer of
        Inl e \<Rightarrow> Ret (Inl e)
      | Inr r \<Rightarrow> map_run (\<lambda>out. Inr (r\<lparr>tr_output := out\<rparr>))
          (truncate_output (tr_output r) (td_max_output_tokens t)))"
proof -
  have late: "p < effective_timeout_secs (td_preferred_secs t) n"
    using assms(1) by (simp add: effective_timeout_secs_def watchdog_headroom_secs_def)
  then have "\<not> from_secs (effective_timeout_secs (td_preferred_secs t) n) < time"
    using assms(3) by (simp add: time_simps)
  then show ?thesis using late assms(2) by (simp add: run_tool_def Let_def)
qed

theorem watchdog_after_deadline_witness:
  "300 < effective_timeout_secs (td_preferred_secs (\<lparr>td_name = cps ''shell'', td_preferred_secs = Some 300,
        td_blocks_on_human = False, td_max_output_tokens = 10,
        td_run = \<lambda>_. (from_secs 299, Inl (cps ''x''))\<rparr> :: utext tool_def)) 180
    \<and> run_tool 180 (\<lparr>td_name = cps ''shell'', td_preferred_secs = Some 300, td_blocks_on_human = False,
        td_max_output_tokens = 10, td_run = \<lambda>_. (from_secs 299, Inl (cps ''x''))\<rparr> :: utext tool_def) (cps ''shell'') []
      = (case Inl (cps ''x'') of
          Inl e \<Rightarrow> Ret (Inl e)
        | Inr r \<Rightarrow> map_run (\<lambda>out. Inr (r\<lparr>tr_output := out\<rparr>)) (truncate_output (tr_output r) 10))"
  using watchdog_after_deadline [of "\<lparr>td_name = cps ''shell'', td_preferred_secs = Some 300,
      td_blocks_on_human = False, td_max_output_tokens = 10,
      td_run = \<lambda>_. (from_secs 299, Inl (cps ''x''))\<rparr> :: utext tool_def" 300 "[]" "from_secs 299" "Inl (cps ''x'')" 180]
  by simp

end
