(* ===== verification/Utf8.thy ===== *)
theory Utf8
  imports Unicode
begin

text \<open>
  UTF-8 as \<open>str::from_utf8\<close> reads it, and the \<open>Utf8StreamDecoder\<close> of \<open>providers/infra.rs\<close>: it decodes a
  byte stream whose chunk boundaries may fall inside a character.  A byte is a natural number
  below 256, a character its code point.
\<close>

subsection \<open>One character\<close>

datatype utf8_item = Chr nat nat | Cut | Bad nat

definition is_cont :: "nat \<Rightarrow> bool" where "is_cont b \<longleftrightarrow> 0x80 \<le> b \<and> b < 0xC0"

text \<open>The allowed second bytes of the longer sequences: no overlong forms, no surrogates, nothing
  above the last code point.\<close>

definition second_ok :: "nat \<Rightarrow> nat \<Rightarrow> bool" where
  "second_ok b0 b1 \<longleftrightarrow> is_cont b1 \<and> (b0 = 0xE0 \<longrightarrow> 0xA0 \<le> b1) \<and> (b0 = 0xED \<longrightarrow> b1 < 0xA0)
     \<and> (b0 = 0xF0 \<longrightarrow> 0x90 \<le> b1) \<and> (b0 = 0xF4 \<longrightarrow> b1 < 0x90)"

text \<open>\<open>Chr c w\<close>: a character of \<open>w\<close> bytes; \<open>Cut\<close>: the bytes end inside a sequence (\<open>error_len\<close> is
  \<open>None\<close>); \<open>Bad n\<close>: \<open>n\<close> bytes that start no character.\<close>

definition decode_one :: "nat list \<Rightarrow> utf8_item" where
  "decode_one bs =
     (case bs of
        [] \<Rightarrow> Cut
      | b0 # r0 \<Rightarrow>
          if b0 < 0x80 then Chr b0 1
          else if b0 < 0xC2 \<or> 0xF4 < b0 then Bad 1
          else case r0 of
            [] \<Rightarrow> Cut
          | b1 # r1 \<Rightarrow>
              if b0 < 0xE0 then
                (if is_cont b1 then Chr ((b0 - 0xC0) * 64 + (b1 - 0x80)) 2 else Bad 1)
              else if \<not> second_ok b0 b1 then Bad 1
              else case r1 of
                [] \<Rightarrow> Cut
              | b2 # r2 \<Rightarrow>
                  if \<not> is_cont b2 then Bad 2
                  else if b0 < 0xF0 then Chr ((b0 - 0xE0) * 4096 + (b1 - 0x80) * 64 + (b2 - 0x80)) 3
                  else case r2 of
                    [] \<Rightarrow> Cut
                  | b3 # _ \<Rightarrow>
                      if \<not> is_cont b3 then Bad 3
                      else Chr ((b0 - 0xF0) * 262144 + (b1 - 0x80) * 4096 + (b2 - 0x80) * 64 + (b3 - 0x80)) 4)"

text \<open>Encoding, as \<open>char::encode_utf8\<close>, and the code points a \<open>char\<close> can hold.\<close>

definition scalar :: "nat \<Rightarrow> bool" where
  "scalar c \<longleftrightarrow> c < 0x110000 \<and> \<not> (0xD800 \<le> c \<and> c < 0xE000)"

definition encode_one :: "nat \<Rightarrow> nat list" where
  "encode_one c =
     (if c < 0x80 then [c]
      else if c < 0x800 then [0xC0 + c div 64, 0x80 + c mod 64]
      else if c < 0x10000 then [0xE0 + c div 4096, 0x80 + c div 64 mod 64, 0x80 + c mod 64]
      else [0xF0 + c div 262144, 0x80 + c div 4096 mod 64, 0x80 + c div 64 mod 64, 0x80 + c mod 64])"

definition encode :: "utext \<Rightarrow> nat list" where
  "encode s = concat (map encode_one s)"

text \<open>The bytes of a text as the \<open>string\<close>s of the other theories, and back.\<close>

definition utf8_bytes :: "utext \<Rightarrow> string" where
  "utf8_bytes s = map char_of (encode s)"

subsection \<open>\<open>str::from_utf8\<close>\<close>

datatype utf8_end = Whole | Ends_Cut | Ends_Bad nat

lemma decode_one_width:
  "decode_one bs = Chr c w \<Longrightarrow> 0 < w \<and> w \<le> length bs"
  "decode_one bs = Bad n \<Longrightarrow> 0 < n \<and> n \<le> length bs"
  by (auto simp: decode_one_def split: list.splits if_splits)

text \<open>The valid prefix as text, its length in bytes (\<open>valid_up_to\<close>) and how it ended.\<close>

function from_utf8 :: "nat list \<Rightarrow> utext \<times> nat \<times> utf8_end" where
  "from_utf8 bs =
     (if bs = [] then ([], 0, Whole)
      else case decode_one bs of
        Chr c w \<Rightarrow> (case from_utf8 (drop w bs) of (s, n, e) \<Rightarrow> (c # s, w + n, e))
      | Cut \<Rightarrow> ([], 0, Ends_Cut)
      | Bad n \<Rightarrow> ([], 0, Ends_Bad n))"
  by pat_completeness auto
termination
  by (relation "measure length") (auto dest: decode_one_width)

declare from_utf8.simps [simp del]

subsection \<open>The stream decoder\<close>

text \<open>A push returns the text, the skipped sequences with their offsets, and the bytes kept.\<close>

lemma from_utf8_bad:
  "from_utf8 bs = (s, n, Ends_Bad k) \<Longrightarrow> 0 < k \<and> n + k \<le> length bs"
proof (induction bs arbitrary: s n rule: from_utf8.induct)
  case (1 bs)
  show ?case
  proof (cases "decode_one bs")
    case (Chr c w)
    then show ?thesis using 1 decode_one_width(1) [OF Chr]
      by (subst (asm) from_utf8.simps) (fastforce split: if_splits prod.splits)
  next
    case Cut
    then show ?thesis using 1 by (subst (asm) from_utf8.simps) (auto split: if_splits)
  next
    case (Bad m)
    then show ?thesis using 1 decode_one_width(2) [OF Bad]
      by (subst (asm) from_utf8.simps) (auto split: if_splits)
  qed
qed

function push_loop :: "nat list \<Rightarrow> utext \<Rightarrow> (nat \<times> nat) list \<Rightarrow> utext \<times> (nat \<times> nat) list \<times> nat list" where
  "push_loop buf out ds =
     (case from_utf8 buf of
        (s, valid, e) \<Rightarrow>
          (case e of
             Whole \<Rightarrow> (out @ s, ds, [])
           | Ends_Cut \<Rightarrow>
               if valid = 0 \<and> length buf < 4 then (out, ds, buf) else (out @ s, ds, drop valid buf)
           | Ends_Bad k \<Rightarrow> push_loop (drop (valid + k) buf) (out @ s) (ds @ [(valid, k)])))"
  by pat_completeness auto
termination
  by (relation "measure (\<lambda>(buf, out, ds). length buf)") (auto dest!: sym [of "(_, _, _)"] from_utf8_bad)

declare push_loop.simps [simp del]

definition utf8_push :: "nat list \<Rightarrow> nat list \<Rightarrow> utext \<times> (nat \<times> nat) list \<times> nat list" where
  "utf8_push buf bytes = push_loop (buf @ bytes) [] []"

text \<open>A stream of chunks: the pieces of text in order and what is left in the buffer.\<close>

primrec utf8_stream :: "nat list \<Rightarrow> nat list list \<Rightarrow> utext list \<times> nat list" where
  "utf8_stream buf [] = ([], buf)"
| "utf8_stream buf (c # cs) =
     (case utf8_push buf c of (t, _, buf1) \<Rightarrow>
        (case utf8_stream buf1 cs of (ts, buf2) \<Rightarrow> (t # ts, buf2)))"


subsection \<open>One pass over all the bytes\<close>

text \<open>The reference: decode the whole input, drop what is invalid, keep an unfinished end.\<close>

function decode_all :: "nat list \<Rightarrow> utext \<times> nat list" where
  "decode_all bs =
     (if bs = [] then ([], [])
      else case decode_one bs of
        Chr c w \<Rightarrow> (case decode_all (drop w bs) of (s, r) \<Rightarrow> (c # s, r))
      | Cut \<Rightarrow> ([], bs)
      | Bad n \<Rightarrow> decode_all (drop n bs))"
  by pat_completeness auto
termination
  by (relation "measure length") (auto dest: decode_one_width)

declare decode_all.simps [simp del]

lemma decode_all_cases:
  "decode_all [] = ([], [])"
  "decode_one bs = Chr c w \<Longrightarrow> decode_all bs = (c # fst (decode_all (drop w bs)), snd (decode_all (drop w bs)))"
  "decode_one bs = Cut \<Longrightarrow> decode_all bs = ([], bs)"
  "decode_one bs = Bad n \<Longrightarrow> decode_all bs = decode_all (drop n bs)"
proof -
  show "decode_all [] = ([], [])" by (simp add: decode_all.simps)
  show "decode_one bs = Chr c w \<Longrightarrow> decode_all bs = (c # fst (decode_all (drop w bs)), snd (decode_all (drop w bs)))"
    using decode_one_width(1) [of bs c w] by (subst decode_all.simps) (auto split: prod.splits)
  show "decode_one bs = Cut \<Longrightarrow> decode_all bs = ([], bs)"
    by (subst decode_all.simps) auto
  show "decode_one bs = Bad n \<Longrightarrow> decode_all bs = decode_all (drop n bs)"
    using decode_one_width(2) [of bs n] by (subst decode_all.simps) auto
qed

lemma from_utf8_cases:
  "from_utf8 [] = ([], 0, Whole)"
  "decode_one bs = Chr c w \<Longrightarrow> from_utf8 bs =
     (case from_utf8 (drop w bs) of (s, n, e) \<Rightarrow> (c # s, w + n, e))"
  "bs \<noteq> [] \<Longrightarrow> decode_one bs = Cut \<Longrightarrow> from_utf8 bs = ([], 0, Ends_Cut)"
  "decode_one bs = Bad n \<Longrightarrow> from_utf8 bs = ([], 0, Ends_Bad n)"
proof -
  show "from_utf8 [] = ([], 0, Whole)" by (simp add: from_utf8.simps)
  show "decode_one bs = Chr c w \<Longrightarrow> from_utf8 bs = (case from_utf8 (drop w bs) of (s, n, e) \<Rightarrow> (c # s, w + n, e))"
    using decode_one_width(1) [of bs c w] by (subst from_utf8.simps) auto
  show "bs \<noteq> [] \<Longrightarrow> decode_one bs = Cut \<Longrightarrow> from_utf8 bs = ([], 0, Ends_Cut)"
    by (subst from_utf8.simps) auto
  show "decode_one bs = Bad n \<Longrightarrow> from_utf8 bs = ([], 0, Ends_Bad n)"
    using decode_one_width(2) [of bs n] by (subst from_utf8.simps) auto
qed

lemma decode_all_from_utf8:
  "from_utf8 bs = (s, n, e) \<Longrightarrow> decode_all bs =
     (case e of
        Whole \<Rightarrow> (s, [])
      | Ends_Cut \<Rightarrow> (s, drop n bs)
      | Ends_Bad k \<Rightarrow> (s @ fst (decode_all (drop (n + k) bs)), snd (decode_all (drop (n + k) bs))))
   \<and> (n = 0 \<longrightarrow> s = [])"
proof (induction bs arbitrary: s n rule: from_utf8.induct)
  case (1 bs)
  show ?case
  proof (cases "bs = []")
    case True
    then show ?thesis using "1.prems" by (auto simp: from_utf8_cases decode_all_cases)
  next
    case False
    show ?thesis
    proof (cases "decode_one bs")
      case (Chr c w)
      obtain s' n' where r: "from_utf8 (drop w bs) = (s', n', e)" "s = c # s'" "n = w + n'"
        using "1.prems" by (auto simp: from_utf8_cases(2) [OF Chr] split: prod.splits)
      have "0 < w" using decode_one_width(1) [OF Chr] by simp
      then show ?thesis
        using "1.IH" [OF False Chr r(1)] r
        by (auto simp: decode_all_cases(2) [OF Chr] add.commute add.left_commute split: utf8_end.splits)
    next
      case Cut
      then show ?thesis using "1.prems" False
        by (auto simp: from_utf8_cases(3) decode_all_cases(3))
    next
      case (Bad m)
      then show ?thesis using "1.prems"
        by (auto simp: from_utf8_cases(4) decode_all_cases(4))
    qed
  qed
qed

lemma push_loop_decodes:
  "push_loop buf out ds = (t, ds', r) \<Longrightarrow> t = out @ fst (decode_all buf) \<and> r = snd (decode_all buf)"
proof (induction buf out ds rule: push_loop.induct)
  case (1 buf out ds)
  obtain s n e where f: "from_utf8 buf = (s, n, e)" by (cases "from_utf8 buf") auto
  note d = decode_all_from_utf8 [OF f]
  show ?case
  proof (cases e)
    case (Ends_Bad k)
    have "push_loop (drop (n + k) buf) (out @ s) (ds @ [(n, k)]) = (t, ds', r)"
      using "1.prems" f Ends_Bad by (subst (asm) push_loop.simps) simp
    with "1.IH" [OF f [symmetric] refl Ends_Bad] d Ends_Bad show ?thesis by simp
  qed (use "1.prems" f d in \<open>subst (asm) push_loop.simps, auto split: if_splits\<close>)+
qed

lemma push_decodes:
  "fst (utf8_push buf bytes) = fst (decode_all (buf @ bytes))"
  "snd (snd (utf8_push buf bytes)) = snd (decode_all (buf @ bytes))"
  using push_loop_decodes [of "buf @ bytes" "[]" "[]"]
  by (cases "push_loop (buf @ bytes) [] []"; simp add: utf8_push_def)+

lemma decode_one_append: "decode_one bs \<noteq> Cut \<Longrightarrow> decode_one (bs @ ys) = decode_one bs"
proof -
  assume n: "decode_one bs \<noteq> Cut"
  then obtain b0 r0 where b: "bs = b0 # r0" by (cases bs) (simp_all add: decode_one_def)
  show ?thesis
  proof (cases r0)
    case Nil
    then show ?thesis using n
      by (cases "b0 < 0x80"; cases "b0 < 0xC2 \<or> 0xF4 < b0") (simp_all add: b decode_one_def)
  next
    case r0: (Cons b1 r1)
    show ?thesis
    proof (cases r1)
      case Nil
      then show ?thesis using n
        by (cases "b0 < 0x80"; cases "b0 < 0xC2 \<or> 0xF4 < b0"; cases "b0 < 0xE0"; cases "second_ok b0 b1")
          (simp_all add: b r0 decode_one_def)
    next
      case r1: (Cons b2 r2)
      then show ?thesis using n
        by (cases r2; cases "b0 < 0x80"; cases "b0 < 0xC2 \<or> 0xF4 < b0"; cases "second_ok b0 b1";
            cases "is_cont b2"; cases "b0 < 0xF0") (simp_all add: b r0 decode_one_def)
    qed
  qed
qed

lemma decode_all_append:
  "decode_all (bs @ ys) =
     (fst (decode_all bs) @ fst (decode_all (snd (decode_all bs) @ ys)),
      snd (decode_all (snd (decode_all bs) @ ys)))"
proof (induction bs rule: decode_all.induct)
  case (1 bs)
  show ?case
  proof (cases "bs = []")
    case True
    then show ?thesis by (simp add: decode_all_cases)
  next
    case False
    show ?thesis
    proof (cases "decode_one bs")
      case (Chr c w)
      then have "decode_one (bs @ ys) = Chr c w" "w \<le> length bs"
        using decode_one_append [of bs ys] decode_one_width(1) [OF Chr] by simp_all
      with "1.IH"(1) [OF False Chr] show ?thesis
        by (simp add: decode_all_cases(2) [OF Chr] decode_all_cases(2))
    next
      case Cut
      then show ?thesis by (simp add: decode_all_cases)
    next
      case (Bad n)
      then have "decode_one (bs @ ys) = Bad n" "n \<le> length bs"
        using decode_one_append [of bs ys] decode_one_width(2) [OF Bad] by simp_all
      with "1.IH"(2) [OF False Bad] show ?thesis
        by (simp add: decode_all_cases(4) [OF Bad] decode_all_cases(4))
    qed
  qed
qed

lemma decode_rest: "decode_all (snd (decode_all bs)) = ([], snd (decode_all bs))"
proof (induction bs rule: decode_all.induct)
  case (1 bs)
  show ?case
    by (cases "bs = []"; cases "decode_one bs") (use 1 in \<open>auto simp: decode_all_cases\<close>)
qed

lemma stream_decodes:
  assumes "decode_all buf = ([], buf)"
  shows "concat (fst (utf8_stream buf cs)) = fst (decode_all (buf @ concat cs))
    \<and> snd (utf8_stream buf cs) = snd (decode_all (buf @ concat cs))"
  using assms
proof (induction cs arbitrary: buf)
  case Nil
  then show ?case by simp
next
  case (Cons c cs)
  obtain t ds b where p: "utf8_push buf c = (t, ds, b)" by (cases "utf8_push buf c") auto
  have tb: "t = fst (decode_all (buf @ c))" "b = snd (decode_all (buf @ c))"
    using push_decodes [of buf c] p by simp_all
  have "decode_all b = ([], b)" using decode_rest tb by simp
  moreover obtain ts b2 where st: "utf8_stream b cs = (ts, b2)" by (cases "utf8_stream b cs") auto
  moreover from p st have step: "utf8_stream buf (c # cs) = (t # ts, b2)" by simp
  ultimately have "concat ts = fst (decode_all (b @ concat cs))" "b2 = snd (decode_all (b @ concat cs))"
    using Cons.IH [of b] by simp_all
  then show ?case
    using decode_all_append [of "buf @ c" "concat cs"] tb step by simp
qed

subsection \<open>Encoding\<close>

lemma decode_sequences:
  "2 \<le> x \<Longrightarrow> x < 32 \<Longrightarrow> y < 64 \<Longrightarrow> decode_one ((0xC0 + x) # (0x80 + y) # r) = Chr (x * 64 + y) 2"
  "x < 16 \<Longrightarrow> y < 64 \<Longrightarrow> z < 64 \<Longrightarrow> (x = 0 \<Longrightarrow> 32 \<le> y) \<Longrightarrow> (x = 13 \<Longrightarrow> y < 32)
    \<Longrightarrow> decode_one ((0xE0 + x) # (0x80 + y) # (0x80 + z) # r) = Chr (x * 4096 + y * 64 + z) 3"
  "x < 5 \<Longrightarrow> y < 64 \<Longrightarrow> z < 64 \<Longrightarrow> u < 64 \<Longrightarrow> (x = 0 \<Longrightarrow> 16 \<le> y) \<Longrightarrow> (x = 4 \<Longrightarrow> y < 16)
    \<Longrightarrow> decode_one ((0xF0 + x) # (0x80 + y) # (0x80 + z) # (0x80 + u) # r)
      = Chr (x * 262144 + y * 4096 + z * 64 + u) 4"
  by (simp_all add: decode_one_def is_cont_def second_ok_def)

lemma base_64:
  "c div 4096 * 4096 + c div 64 mod 64 * 64 + c mod 64 = c"
  "c div 262144 * 262144 + c div 4096 mod 64 * 4096 + c div 64 mod 64 * 64 + c mod 64 = c" for c :: nat
proof -
  have d: "c div 4096 = c div 64 div 64" "c div 262144 = c div 4096 div 64"
    by (simp_all add: div_mult2_eq [symmetric])
  have m: "c div 64 * 64 + c mod 64 = c" "c div 64 div 64 * 64 + c div 64 mod 64 = c div 64"
    "c div 4096 div 64 * 64 + c div 4096 mod 64 = c div 4096" by (rule div_mult_mod_eq)+
  from m show "c div 4096 * 4096 + c div 64 mod 64 * 64 + c mod 64 = c"
    "c div 262144 * 262144 + c div 4096 mod 64 * 4096 + c div 64 mod 64 * 64 + c mod 64 = c"
    unfolding d by linarith+
qed

lemma encode_one_scalar:
  assumes "scalar c"
  shows "decode_one (encode_one c @ r) = Chr c (length (encode_one c))"
proof -
  have m: "c mod 64 < 64" "c div 64 mod 64 < 64" "c div 4096 mod 64 < 64" by simp_all
  consider "c < 0x80" | "0x80 \<le> c" "c < 0x800" | "0x800 \<le> c" "c < 0x10000" | "0x10000 \<le> c" by linarith
  then show ?thesis
  proof cases
    case 1
    then show ?thesis by (simp add: encode_one_def decode_one_def)
  next
    case 2
    have "2 \<le> c div 64" "c div 64 < 32" using 2 by linarith+
    from decode_sequences(1) [OF this m(1), of r] 2 show ?thesis by (simp add: encode_one_def)
  next
    case 3
    note e = base_64(1) [of c]
    have "c div 4096 < 16" using 3 by linarith
    moreover have "32 \<le> c div 64 mod 64" if "c div 4096 = 0" using that 3 e m by linarith
    moreover have "c div 64 mod 64 < 32" if "c div 4096 = 13"
      using that e m assms unfolding scalar_def by linarith
    ultimately show ?thesis
      using decode_sequences(2) [of "c div 4096" "c div 64 mod 64" "c mod 64" r] e m 3
      by (simp add: encode_one_def)
  next
    case 4
    note e = base_64(2) [of c]
    have "c div 262144 < 5" using assms unfolding scalar_def by linarith
    moreover have "16 \<le> c div 4096 mod 64" if "c div 262144 = 0" using that 4 e m by linarith
    moreover have "c div 4096 mod 64 < 16" if "c div 262144 = 4"
      using that e m assms unfolding scalar_def by linarith
    ultimately show ?thesis
      using decode_sequences(3) [of "c div 262144" "c div 4096 mod 64" "c div 64 mod 64" "c mod 64" r] e m 4
      by (simp add: encode_one_def)
  qed
qed

lemma decode_encode: "list_all scalar s \<Longrightarrow> decode_all (encode s) = (s, [])"
proof (induction s)
  case Nil
  then show ?case by (simp add: encode_def decode_all_cases)
next
  case (Cons c s)
  then have "decode_one (encode (c # s)) = Chr c (length (encode_one c))"
    using encode_one_scalar [of c "encode s"] by (simp add: encode_def)
  with Cons show ?case by (simp add: decode_all_cases(2) encode_def)
qed

text \<open>The characters of a \<open>String\<close> given by its bytes.\<close>

definition utf8_chars :: "string \<Rightarrow> utext" where
  "utf8_chars b = fst (decode_all (map of_char b))"

lemma encode_bytes: "list_all scalar s \<Longrightarrow> \<forall>b \<in> set (encode s). b < 256"
proof -
  have "\<forall>b \<in> set (encode_one c). b < 256" if "scalar c" for c
  proof -
    have "c div 64 < 32" if "c < 0x800" using that by linarith
    moreover have "c div 4096 < 16" if "c < 0x10000" using that by linarith
    moreover have "c div 262144 < 5" using \<open>scalar c\<close> unfolding scalar_def by linarith
    moreover have "c mod 64 < 64" "c div 64 mod 64 < 64" "c div 4096 mod 64 < 64" by simp_all
    ultimately show ?thesis unfolding encode_one_def by (auto intro: less_trans)
  qed
  then show "list_all scalar s \<Longrightarrow> \<forall>b \<in> set (encode s). b < 256"
    by (induction s) (auto simp: encode_def)
qed

lemma utf8_chars_bytes: "list_all scalar s \<Longrightarrow> utf8_chars (utf8_bytes s) = s"
proof -
  assume s: "list_all scalar s"
  have "map (of_char \<circ> char_of) (encode s) = encode s"
    using encode_bytes [OF s] by (intro map_idI) simp
  then show ?thesis using s by (simp add: utf8_chars_def utf8_bytes_def decode_encode)
qed

subsection \<open>Properties\<close>

text \<open>The text of a stream depends on its bytes only, not on where the chunks were cut, also when it
  holds invalid sequences.\<close>

theorem chunking_irrelevant:
  assumes "concat cs = concat cs'"
  shows "concat (fst (utf8_stream [] cs)) = concat (fst (utf8_stream [] cs'))
    \<and> snd (utf8_stream [] cs) = snd (utf8_stream [] cs')"
  using stream_decodes [of "[]" cs] stream_decodes [of "[]" cs'] assms by (simp add: decode_all_cases)

text \<open>C17: A text sent as UTF-8 arrives unchanged however the network cuts its bytes into chunks: the
  pieces the decoder returns join to the text and nothing stays in its buffer.\<close>

theorem utf8_stream_roundtrip:
  assumes "list_all scalar s" "concat cs = encode s"
  shows "concat (fst (utf8_stream [] cs)) = s \<and> snd (utf8_stream [] cs) = []"
  using stream_decodes [of "[]" cs] assms by (simp add: decode_all_cases decode_encode)

theorem utf8_stream_roundtrip_witness:
  "concat (fst (utf8_stream [] [[0x61, 0xE4], [0xB8], [], [0xAD, 0xF0, 0x9F], [0x98, 0x80]])) = [0x61, 0x4E2D, 0x1F600]
    \<and> snd (utf8_stream [] [[0x61, 0xE4], [0xB8], [], [0xAD, 0xF0, 0x9F], [0x98, 0x80]]) = []"
  by (rule utf8_stream_roundtrip) (simp_all add: scalar_def encode_def encode_one_def)

end
