(* ===== verification/User_Registry.thy ===== *)
theory User_Registry
  imports Unicode "HOL-Library.AList"
begin

text \<open>
  \<open>identity/user_registry.rs\<close>: the users with their unique e-mail addresses and user names, their two
  indexes and the directory that stores them.  A \<open>HashMap\<close> whose iteration order is visible is an
  association list; Unicode's lower case, the directory name of an id, a fresh uuid and the clock
  are arguments.  A write to the disk succeeds here (the code logs a failure and goes on).
\<close>

record user =
  u_uid :: utext
  u_username :: utext
  u_email :: "utext option"
  u_active :: bool
  u_created_ms :: nat

datatype register_error =
    Bad_Length nat
  | Bad_Characters
  | Reserved_Username utext
  | Username_Taken utext
  | Invalid_Email
  | Email_Taken utext
  | No_Such_User utext

text \<open>The registry; \<open>ur_disk\<close> holds the \<open>meta.json\<close> of each user directory, \<open>None\<close> in memory mode.\<close>

record registry =
  ur_users :: "(utext \<times> user) list"
  ur_emails :: "utext \<rightharpoonup> utext"
  ur_usernames :: "utext \<rightharpoonup> utext"
  ur_namespace :: utext
  ur_disk :: "(utext \<times> user) list option"

record text_lib =
  tl_lower :: "utext \<Rightarrow> utext"
  tl_dir :: "utext \<Rightarrow> utext"

definition reserved_usernames :: "utext list" where
  "reserved_usernames = map cps [''root'', ''admin'', ''system'', ''bot'', ''help'', ''register'']"

definition root_username :: utext where "root_username = cps ''root''"

subsection \<open>Ids\<close>

definition user_prefix :: "utext \<Rightarrow> utext" where
  "user_prefix ns = ns @ cps ''/u/''"

definition user_id :: "utext \<Rightarrow> utext \<Rightarrow> utext" where
  "user_id ns uid = (if prefix (user_prefix ns) uid then uid else user_prefix ns @ uid)"

definition is_user_id :: "registry \<Rightarrow> utext \<Rightarrow> bool" where
  "is_user_id r s \<longleftrightarrow> prefix (user_prefix (ur_namespace r)) s
     \<and> measure_text Bytes s > measure_text Bytes (ur_namespace r) + 3"

definition uid_of :: "registry \<Rightarrow> utext \<Rightarrow> utext option" where
  "uid_of r s =
     (case strip_prefix (user_prefix (ur_namespace r)) s of
        None \<Rightarrow> None
      | Some rest \<Rightarrow> Some (if prefix (user_prefix (ur_namespace r)) rest then rest else s))"

definition username_of :: "registry \<Rightarrow> utext \<Rightarrow> utext option" where
  "username_of r s =
     (case uid_of r s of
        None \<Rightarrow> None
      | Some uid \<Rightarrow>
          (case map_of (ur_users r) uid of
             None \<Rightarrow> None
           | Some u \<Rightarrow> if u_username u = [] then None else Some (u_username u)))"

definition display_user :: "registry \<Rightarrow> utext \<Rightarrow> utext" where
  "display_user r s = (case username_of r s of Some n \<Rightarrow> 64 # n | None \<Rightarrow> s)"

subsection \<open>Lookup\<close>

definition normalize :: "text_lib \<Rightarrow> utext \<Rightarrow> utext" where
  "normalize L s = tl_lower L (trim s)"

definition find_by_uid :: "registry \<Rightarrow> utext \<Rightarrow> user option" where
  "find_by_uid r uid =
     (case map_of (ur_users r) uid of
        Some u \<Rightarrow> Some u
      | None \<Rightarrow>
          let bare = (case strip_prefix (user_prefix (ur_namespace r)) uid of Some b \<Rightarrow> b | None \<Rightarrow> uid) in
          (case map_of (ur_users r) bare of
             Some u \<Rightarrow> Some u
           | None \<Rightarrow> map_option snd (find (\<lambda>p. suffix (47 # bare) (fst p)) (ur_users r))))"

definition via_index :: "(utext \<rightharpoonup> utext) \<Rightarrow> (utext \<times> user) list \<Rightarrow> utext \<Rightarrow> user option" where
  "via_index ix us k = (case ix k of None \<Rightarrow> None | Some uid \<Rightarrow> map_of us uid)"

definition find_by_username :: "text_lib \<Rightarrow> registry \<Rightarrow> utext \<Rightarrow> user option" where
  "find_by_username L r n = via_index (ur_usernames r) (ur_users r) (normalize L n)"

definition find_by_email :: "text_lib \<Rightarrow> registry \<Rightarrow> utext \<Rightarrow> user option" where
  "find_by_email L r e = via_index (ur_emails r) (ur_users r) (normalize L e)"

definition username_taken :: "text_lib \<Rightarrow> registry \<Rightarrow> utext \<Rightarrow> bool" where
  "username_taken L r n \<longleftrightarrow> ur_usernames r (normalize L n) \<noteq> None"

subsection \<open>Validation\<close>

definition username_char :: "nat \<Rightarrow> bool" where
  "username_char c \<longleftrightarrow> (97 \<le> c \<and> c \<le> 122) \<or> (48 \<le> c \<and> c \<le> 57) \<or> c = 95"

definition validate_username :: "text_lib \<Rightarrow> utext \<Rightarrow> register_error + utext" where
  "validate_username L s =
     (let n = normalize L s; len = measure_text Bytes n in
      if len < 3 \<or> 32 < len then Inl (Bad_Length len)
      else if \<not> list_all username_char n then Inl Bad_Characters
      else if n \<in> set reserved_usernames then Inl (Reserved_Username n)
      else Inr n)"

definition validate_email :: "text_lib \<Rightarrow> utext \<Rightarrow> register_error + utext" where
  "validate_email L s =
     (let e = normalize L s in
      if e = [] \<or> 64 \<notin> set e \<or> 254 < measure_text Bytes e then Inl Invalid_Email
      else
        let local_part = takeWhile (\<lambda>c. c \<noteq> 64) e; domain = tl (dropWhile (\<lambda>c. c \<noteq> 64) e) in
        if local_part = [] \<or> domain = [] \<or> 64 \<in> set domain then Inl Invalid_Email else Inr e)"

subsection \<open>Writing\<close>

definition save_user :: "text_lib \<Rightarrow> utext \<Rightarrow> registry \<Rightarrow> registry" where
  "save_user L uid r =
     (case ur_disk r of
        None \<Rightarrow> r
      | Some d \<Rightarrow>
          (case map_of (ur_users r) uid of
             None \<Rightarrow> r
           | Some u \<Rightarrow> r\<lparr>ur_disk := Some (AList.update (tl_dir L uid) u d)\<rparr>))"

text \<open>\<open>register\<close>: \<open>uid\<close> is the id just drawn, \<open>now\<close> the time.\<close>

definition register_user ::
  "text_lib \<Rightarrow> utext \<Rightarrow> nat \<Rightarrow> utext \<Rightarrow> utext \<Rightarrow> registry \<Rightarrow> (register_error + user) \<times> registry" where
  "register_user L uid now email username r =
     (case validate_username L username of
        Inl e \<Rightarrow> (Inl e, r)
      | Inr n \<Rightarrow>
          (case validate_email L email of
             Inl e \<Rightarrow> (Inl e, r)
           | Inr em \<Rightarrow>
               if ur_usernames r n \<noteq> None then (Inl (Username_Taken n), r)
               else if ur_emails r em \<noteq> None then (Inl (Email_Taken em), r)
               else
                 let u = \<lparr>u_uid = uid, u_username = n, u_email = Some em, u_active = True, u_created_ms = now\<rparr>
                 in (Inr u, save_user L uid
                       (r\<lparr>ur_users := AList.update uid u (ur_users r),
                          ur_emails := (ur_emails r)(em \<mapsto> uid),
                          ur_usernames := (ur_usernames r)(n \<mapsto> uid)\<rparr>))))"

definition set_email ::
  "text_lib \<Rightarrow> utext \<Rightarrow> utext \<Rightarrow> registry \<Rightarrow> register_error option \<times> registry" where
  "set_email L uid new r =
     (case validate_email L new of
        Inl e \<Rightarrow> (Some e, r)
      | Inr em \<Rightarrow>
          (case map_of (ur_users r) uid of
             None \<Rightarrow> (Some (No_Such_User uid), r)
           | Some u \<Rightarrow>
               if u_email u = Some em then (None, r)
               else
                 let freed = (case u_email u of Some old \<Rightarrow> (ur_emails r)(old := None) | None \<Rightarrow> ur_emails r) in
                 if freed em \<noteq> None then
                   (Some (Email_Taken em),
                    r\<lparr>ur_emails := (case u_email u of Some old \<Rightarrow> freed(old \<mapsto> uid) | None \<Rightarrow> freed)\<rparr>)
                 else
                   (None, save_user L uid
                      (r\<lparr>ur_users := AList.update uid (u\<lparr>u_email := Some em\<rparr>) (ur_users r),
                         ur_emails := freed(em \<mapsto> uid)\<rparr>))))"

definition set_username ::
  "text_lib \<Rightarrow> utext \<Rightarrow> utext \<Rightarrow> registry \<Rightarrow> register_error option \<times> registry" where
  "set_username L uid new r =
     (case validate_username L new of
        Inl e \<Rightarrow> (Some e, r)
      | Inr n \<Rightarrow>
          (case map_of (ur_users r) uid of
             None \<Rightarrow> (Some (No_Such_User uid), r)
           | Some u \<Rightarrow>
               if u_username u = n then (None, r)
               else if (case ur_usernames r n of Some owner \<Rightarrow> owner \<noteq> uid | None \<Rightarrow> False)
               then (Some (Username_Taken n), r)
               else
                 let freed = (if u_username u = [] then ur_usernames r
                              else (ur_usernames r)(u_username u := None)) in
                 (None, save_user L uid
                    (r\<lparr>ur_users := AList.update uid (u\<lparr>u_username := n\<rparr>) (ur_users r),
                       ur_usernames := freed(n \<mapsto> uid)\<rparr>))))"

definition ensure_root :: "text_lib \<Rightarrow> utext \<Rightarrow> nat \<Rightarrow> registry \<Rightarrow> registry" where
  "ensure_root L uid now r =
     (if ur_usernames r root_username \<noteq> None then r
      else save_user L uid
        (r\<lparr>ur_users := AList.update uid \<lparr>u_uid = uid, u_username = root_username, u_email = None,
                          u_active = True, u_created_ms = now\<rparr> (ur_users r),
           ur_usernames := (ur_usernames r)(root_username \<mapsto> uid)\<rparr>))"

subsection \<open>Loading\<close>

definition index_user :: "utext \<Rightarrow> user \<Rightarrow> registry \<Rightarrow> registry" where
  "index_user k u r =
     r\<lparr>ur_emails := (case u_email u of Some e \<Rightarrow> (ur_emails r)(e \<mapsto> k) | None \<Rightarrow> ur_emails r),
       ur_usernames := (if u_username u = [] then ur_usernames r else (ur_usernames r)(u_username u \<mapsto> k)),
       ur_users := AList.update k u (ur_users r)\<rparr>"

definition empty_registry :: "utext \<Rightarrow> (utext \<times> user) list option \<Rightarrow> registry" where
  "empty_registry ns d = \<lparr>ur_users = [], ur_emails = Map.empty, ur_usernames = Map.empty,
     ur_namespace = ns, ur_disk = d\<rparr>"

text \<open>The directory wins; the legacy \<open>users.json\<close> (its map, when it parses) is read when no user was found
  there.\<close>

definition load_registry :: "utext \<Rightarrow> (utext \<times> user) list \<Rightarrow> (utext \<times> user) list option \<Rightarrow> registry" where
  "load_registry ns dirs legacy =
     (let r = empty_registry ns (Some dirs) in
      if dirs \<noteq> [] then fold (\<lambda>p. index_user (u_uid (snd p)) (snd p)) dirs r
      else case legacy of Some us \<Rightarrow> fold (\<lambda>p. index_user (fst p) (snd p)) us r | None \<Rightarrow> r)"

subsection \<open>Targets of commands\<close>

datatype target_error = Target_Empty | No_User_Id utext | No_At_Names | No_User_Email utext | Not_A_Target utext

definition parse_target :: "text_lib \<Rightarrow> registry \<Rightarrow> utext \<Rightarrow> target_error + utext" where
  "parse_target L r a =
     (let arg = trim a in
      if arg = [] then Inl Target_Empty
      else
        let lower = tl_lower L arg in
        case or_else (strip_prefix (cps ''u/'') lower) (strip_prefix (user_prefix (ur_namespace r)) lower) of
          Some uid0 \<Rightarrow>
            (let uid = trim uid0 in
             if uid = [] then Inl Target_Empty
             else case or_else (find_by_uid r uid) (find_by_username L r uid) of
               Some u \<Rightarrow> Inr (user_id (ur_namespace r) (u_uid u))
             | None \<Rightarrow> Inl (No_User_Id uid))
        | None \<Rightarrow>
            if prefix [64] arg then Inl No_At_Names
            else if 64 \<in> set arg then
              (case find_by_email L r arg of
                 Some u \<Rightarrow> Inr (user_id (ur_namespace r) (u_uid u))
               | None \<Rightarrow> Inl (No_User_Email arg))
            else Inl (Not_A_Target arg))"


subsection \<open>An index is the inverse of a field\<close>

definition indexes :: "(utext \<rightharpoonup> utext) \<Rightarrow> (utext \<rightharpoonup> user) \<Rightarrow> (user \<Rightarrow> utext option) \<Rightarrow> bool" where
  "indexes ix us f \<longleftrightarrow> (\<forall>x k. ix x = Some k \<longleftrightarrow> (\<exists>u. us k = Some u \<and> f u = Some x))"

definition name_field :: "user \<Rightarrow> utext option" where
  "name_field u = (if u_username u = [] then None else Some (u_username u))"

definition free_old :: "(utext \<rightharpoonup> utext) \<Rightarrow> utext option \<Rightarrow> utext \<rightharpoonup> utext" where
  "free_old ix old = (case old of Some x \<Rightarrow> ix(x := None) | None \<Rightarrow> ix)"

definition old_value :: "(utext \<rightharpoonup> user) \<Rightarrow> (user \<Rightarrow> utext option) \<Rightarrow> utext \<Rightarrow> utext option" where
  "old_value us f k = (case us k of Some u \<Rightarrow> f u | None \<Rightarrow> None)"

lemma indexesD: "indexes ix us f \<Longrightarrow> ix x = Some k \<longleftrightarrow> (\<exists>u. us k = Some u \<and> f u = Some x)"
  by (simp add: indexes_def)

lemma indexes_unique: "indexes ix us f \<Longrightarrow> indexes ix' us f \<Longrightarrow> ix = ix'"
proof
  fix x
  assume "indexes ix us f" "indexes ix' us f"
  then have "ix x = Some k \<longleftrightarrow> ix' x = Some k" for k by (simp add: indexesD)
  then show "ix x = ix' x" by (metis not_None_eq)
qed

lemma indexes_same:
  assumes i: "indexes ix us f" and f: "f u = old_value us f k"
  shows "indexes ix (us(k \<mapsto> u)) f"
proof -
  have "ix x = Some j \<longleftrightarrow> (\<exists>v. (us(k \<mapsto> u)) j = Some v \<and> f v = Some x)" for x j
  proof (cases "j = k")
    case True
    with indexesD [OF i, of x k] f show ?thesis by (cases "us k") (simp_all add: old_value_def)
  next
    case False
    with indexesD [OF i, of x j] show ?thesis by simp
  qed
  then show ?thesis by (simp add: indexes_def)
qed

lemma indexes_move:
  assumes i: "indexes ix us f" and fu: "f u = Some x" and free: "free_old ix (old_value us f k) x = None"
  shows "indexes ((free_old ix (old_value us f k))(x \<mapsto> k)) (us(k \<mapsto> u)) f"
proof -
  have "((free_old ix (old_value us f k))(x \<mapsto> k)) y = Some j \<longleftrightarrow> (\<exists>v. (us(k \<mapsto> u)) j = Some v \<and> f v = Some y)"
    for y j
  proof (cases "y = x")
    case True
    have "\<not> (us j = Some v \<and> f v = Some x)" if "j \<noteq> k" for v
    proof
      assume v: "us j = Some v \<and> f v = Some x"
      then have "ix x = Some j" using indexesD [OF i] by blast
      moreover have "\<not> (us k = Some w \<and> f w = Some x)" for w
        using indexesD [OF i, of x k] \<open>ix x = Some j\<close> that by auto
      ultimately show False using free
        by (auto simp: free_old_def old_value_def split: option.splits if_splits)
    qed
    with True fu show ?thesis by auto
  next
    case False
    have "free_old ix (old_value us f k) y = Some j \<longleftrightarrow> ix y = Some j \<and> j \<noteq> k"
      using indexesD [OF i, of y j] indexesD [OF i, of y k]
      by (auto simp: free_old_def old_value_def split: option.splits)
    with False fu indexesD [OF i, of y j] show ?thesis by auto
  qed
  then show ?thesis by (simp add: indexes_def)
qed

subsection \<open>The invariant\<close>

definition disk_ok :: "text_lib \<Rightarrow> registry \<Rightarrow> bool" where
  "disk_ok L r \<longleftrightarrow> (case ur_disk r of
     None \<Rightarrow> True
   | Some d \<Rightarrow> distinct (map fst d) \<and> inj_on (tl_dir L) (dom (map_of (ur_users r)))
       \<and> set d = (\<lambda>(k, u). (tl_dir L k, u)) ` set (ur_users r))"

definition registry_ok :: "text_lib \<Rightarrow> registry \<Rightarrow> bool" where
  "registry_ok L r \<longleftrightarrow> distinct (map fst (ur_users r)) \<and> (\<forall>(k, u) \<in> set (ur_users r). u_uid u = k)
     \<and> indexes (ur_emails r) (map_of (ur_users r)) u_email
     \<and> indexes (ur_usernames r) (map_of (ur_users r)) name_field
     \<and> disk_ok L r"

text \<open>The steps of a registry in memory or on disk; a drawn id is new, and so is its directory.\<close>

definition new_id :: "text_lib \<Rightarrow> registry \<Rightarrow> utext \<Rightarrow> bool" where
  "new_id L r uid \<longleftrightarrow> uid \<notin> fst ` set (ur_users r) \<and> tl_dir L uid \<notin> tl_dir L ` fst ` set (ur_users r)"

inductive registry_step :: "text_lib \<Rightarrow> registry \<Rightarrow> registry \<Rightarrow> bool" for L where
  registered: "new_id L r uid \<Longrightarrow> registry_step L r (snd (register_user L uid now email name r))"
| email_set: "registry_step L r (snd (set_email L uid email r))"
| username_set: "registry_step L r (snd (set_username L uid name r))"
| root_ensured: "new_id L r uid \<Longrightarrow> registry_step L r (ensure_root L uid now r)"

lemma update_set:
  "distinct (map fst al) \<Longrightarrow> set (AList.update k v al) = insert (k, v) {p \<in> set al. fst p \<noteq> k}"
proof (induction al)
  case (Cons p al)
  then show ?case by (cases p) (force simp: image_iff)
qed simp

lemma saved_ok:
  assumes d: "distinct (map fst us)" and k: "disk_ok L r" "ur_users r = us"
    and new: "ur_disk r \<noteq> None \<Longrightarrow> tl_dir L uid \<notin> tl_dir L ` (fst ` set us - {uid})"
  shows "disk_ok L (save_user L uid (r\<lparr>ur_users := AList.update uid u us, ur_emails := e, ur_usernames := n'\<rparr>))"
proof (cases "ur_disk r")
  case None
  then show ?thesis by (simp add: save_user_def disk_ok_def)
next
  case (Some dk)
  then have n: "tl_dir L uid \<notin> tl_dir L ` (fst ` set us - {uid})" using new by simp
  from k Some have dk: "distinct (map fst dk)" "inj_on (tl_dir L) (dom (map_of us))"
    "set dk = (\<lambda>(k, u). (tl_dir L k, u)) ` set us"
    by (simp_all add: disk_ok_def)
  let ?us = "AList.update uid u us"
  have m: "map_of ?us uid = Some u" by (simp add: update_conv')
  have doms: "dom (map_of ?us) = insert uid (dom (map_of us))" by (simp add: update_conv')
  have inj: "inj_on (tl_dir L) (dom (map_of ?us))"
    using dk(2) n unfolding doms by (simp add: dom_map_of_conv_image_fst)
  have "set (AList.update (tl_dir L uid) u dk) = insert (tl_dir L uid, u) {p \<in> set dk. fst p \<noteq> tl_dir L uid}"
    by (rule update_set [OF dk(1)])
  also have "{p \<in> set dk. fst p \<noteq> tl_dir L uid} = (\<lambda>(k, u). (tl_dir L k, u)) ` {p \<in> set us. fst p \<noteq> uid}"
  proof -
    have sep: "tl_dir L k = tl_dir L uid \<longleftrightarrow> k = uid" if "(k, v) \<in> set us" for k v
    proof
      assume eq: "tl_dir L k = tl_dir L uid"
      show "k = uid"
      proof (rule ccontr)
        assume "k \<noteq> uid"
        then have "k \<in> fst ` set us - {uid}" using that by force
        with n eq show False by (metis imageI)
      qed
    qed simp
    show ?thesis unfolding dk(3)
    proof (intro set_eqI iffI)
      fix p assume "p \<in> {p \<in> (\<lambda>(k, u). (tl_dir L k, u)) ` set us. fst p \<noteq> tl_dir L uid}"
      then obtain k v where "(k, v) \<in> set us" "p = (tl_dir L k, v)" "tl_dir L k \<noteq> tl_dir L uid" by force
      moreover from this have "k \<noteq> uid" by auto
      ultimately show "p \<in> (\<lambda>(k, u). (tl_dir L k, u)) ` {p \<in> set us. fst p \<noteq> uid}" by force
    next
      fix p assume "p \<in> (\<lambda>(k, u). (tl_dir L k, u)) ` {p \<in> set us. fst p \<noteq> uid}"
      then obtain k v where kv: "(k, v) \<in> set us" "p = (tl_dir L k, v)" "k \<noteq> uid" by auto
      then show "p \<in> {p \<in> (\<lambda>(k, u). (tl_dir L k, u)) ` set us. fst p \<noteq> tl_dir L uid}"
        using sep [OF kv(1)] by force
    qed
  qed
  also have "insert (tl_dir L uid, u) \<dots> = (\<lambda>(k, u). (tl_dir L k, u)) ` set ?us"
    unfolding update_set [OF d] by simp
  finally show ?thesis
    using inj distinct_update [OF dk(1)] by (simp add: save_user_def Some m disk_ok_def)
qed

lemma save_user_fields [simp]:
  "ur_users (save_user L uid r) = ur_users r" "ur_emails (save_user L uid r) = ur_emails r"
  "ur_usernames (save_user L uid r) = ur_usernames r" "ur_namespace (save_user L uid r) = ur_namespace r"
  by (auto simp: save_user_def split: option.splits)


lemma registry_ok_write:
  assumes ok: "registry_ok L r" and uid: "u_uid u = uid"
    and n: "new_id L r uid \<or> uid \<in> fst ` set (ur_users r)"
    and e: "indexes ems ((map_of (ur_users r))(uid \<mapsto> u)) u_email"
    and nm: "indexes nms ((map_of (ur_users r))(uid \<mapsto> u)) name_field"
  shows "registry_ok L (save_user L uid
    (r\<lparr>ur_users := AList.update uid u (ur_users r), ur_emails := ems, ur_usernames := nms\<rparr>))"
proof -
  have d: "distinct (map fst (ur_users r))" "disk_ok L r"
    "\<forall>(k, u) \<in> set (ur_users r). u_uid u = k"
    using ok by (simp_all add: registry_ok_def)
  have "tl_dir L uid \<notin> tl_dir L ` (fst ` set (ur_users r) - {uid})" if dk: "ur_disk r \<noteq> None"
  proof (cases "new_id L r uid")
    case True
    then show ?thesis by (auto simp: new_id_def)
  next
    case False
    with n have "uid \<in> fst ` set (ur_users r)" by blast
    moreover have "inj_on (tl_dir L) (fst ` set (ur_users r))"
      using dk d(2) by (auto simp: disk_ok_def dom_map_of_conv_image_fst)
    ultimately show ?thesis by (simp add: inj_on_image_mem_iff Diff_subset)
  qed
  note disk = saved_ok [OF d(1) d(2) refl this, of nms ems u]
  have keys: "\<forall>(k, v) \<in> set (AList.update uid u (ur_users r)). u_uid v = k"
    unfolding update_set [OF d(1)] using d(3) uid by auto
  show ?thesis
    unfolding registry_ok_def
  proof (intro conjI)
    show "disk_ok L (save_user L uid (r\<lparr>ur_users := AList.update uid u (ur_users r), ur_emails := ems,
      ur_usernames := nms\<rparr>))" by (rule disk)
  qed (use keys e nm distinct_update [OF d(1)] in \<open>simp_all add: update_conv'\<close>)
qed

lemma map_of_field: "map_of (ur_users r) k = Some u \<Longrightarrow> registry_ok L r \<Longrightarrow> u_uid u = k \<and> k \<in> fst ` set (ur_users r)"
  by (auto simp: registry_ok_def image_iff dest!: map_of_SomeD intro: bexI [of _ "(k, u)"])

lemma new_not_mapped: "new_id L r uid \<Longrightarrow> map_of (ur_users r) uid = None"
  by (simp add: new_id_def map_of_eq_None_iff)

lemma registry_okD:
  "registry_ok L r \<Longrightarrow> indexes (ur_emails r) (map_of (ur_users r)) u_email"
  "registry_ok L r \<Longrightarrow> indexes (ur_usernames r) (map_of (ur_users r)) name_field"
  by (simp_all add: registry_ok_def)

lemma validated_nonempty: "validate_username L s = Inr n \<Longrightarrow> n \<noteq> []"
  by (auto simp: validate_username_def Let_def split: if_splits)

lemma registered_ok:
  assumes ok: "registry_ok L r" and new: "new_id L r uid"
  shows "registry_ok L (snd (register_user L uid now email name r))"
proof -
  note free = new_not_mapped [OF new]
  show ?thesis
  proof (cases "validate_username L name")
    case (Inr n)
    note ne = validated_nonempty [OF Inr]
    show ?thesis
    proof (cases "validate_email L email")
      case em: (Inr em)
      let ?u = "\<lparr>u_uid = uid, u_username = n, u_email = Some em, u_active = True, u_created_ms = now\<rparr>"
      show ?thesis
      proof (cases "ur_usernames r n \<noteq> None \<or> ur_emails r em \<noteq> None")
        case True
        then show ?thesis using ok by (auto simp: register_user_def Inr em)
      next
        case False
        have "indexes ((ur_emails r)(em \<mapsto> uid)) ((map_of (ur_users r))(uid \<mapsto> ?u)) u_email"
          using indexes_move [OF registry_okD(1) [OF ok], of ?u em uid] free False
          by (simp add: old_value_def free_old_def)
        moreover have "indexes ((ur_usernames r)(n \<mapsto> uid)) ((map_of (ur_users r))(uid \<mapsto> ?u)) name_field"
          using indexes_move [OF registry_okD(2) [OF ok], of ?u n uid] free False ne
          by (simp add: old_value_def free_old_def name_field_def)
        ultimately show ?thesis
          using registry_ok_write [OF ok, of ?u uid] new False
          by (simp add: register_user_def Inr em Let_def)
      qed
    qed (use ok in \<open>simp add: register_user_def Inr\<close>)
  qed (use ok in \<open>simp add: register_user_def\<close>)
qed

lemma email_set_ok:
  assumes ok: "registry_ok L r"
  shows "registry_ok L (snd (set_email L uid email r))"
proof (cases "validate_email L email")
  case (Inr em)
  show ?thesis
  proof (cases "map_of (ur_users r) uid")
    case (Some u)
    note u = map_of_field [OF Some ok]
    let ?f = "free_old (ur_emails r) (u_email u)"
    have freed: "(case u_email u of Some old \<Rightarrow> (ur_emails r)(old := None) | None \<Rightarrow> ur_emails r) = ?f"
      by (simp add: free_old_def)
    have restored: "r\<lparr>ur_emails := (case u_email u of Some old \<Rightarrow> ?f(old \<mapsto> uid) | None \<Rightarrow> ?f)\<rparr> = r"
    proof -
      have "ur_emails r old = Some uid" if "u_email u = Some old" for old
        using indexesD [OF registry_okD(1) [OF ok]] Some that by blast
      then have "(case u_email u of Some old \<Rightarrow> ?f(old \<mapsto> uid) | None \<Rightarrow> ?f) = ur_emails r"
        by (auto simp: free_old_def fun_eq_iff split: option.splits)
      then show ?thesis by simp
    qed
    show ?thesis
    proof (cases "u_email u = Some em \<or> ?f em \<noteq> None")
      case True
      then show ?thesis using ok restored by (auto simp: set_email_def Inr Some freed Let_def)
    next
      case False
      let ?u = "u\<lparr>u_email := Some em\<rparr>"
      have "indexes (?f(em \<mapsto> uid)) ((map_of (ur_users r))(uid \<mapsto> ?u)) u_email"
        using indexes_move [OF registry_okD(1) [OF ok], of ?u em uid] False
        by (simp add: old_value_def Some)
      moreover have "indexes (ur_usernames r) ((map_of (ur_users r))(uid \<mapsto> ?u)) name_field"
        using indexes_same [OF registry_okD(2) [OF ok], of ?u uid]
        by (simp add: old_value_def Some name_field_def)
      ultimately show ?thesis
        using registry_ok_write [OF ok, of ?u uid "?f(em \<mapsto> uid)" "ur_usernames r"] u False
        by (simp add: set_email_def Inr Some freed Let_def)
    qed
  qed (use ok in \<open>simp add: set_email_def Inr\<close>)
qed (use ok in \<open>simp add: set_email_def\<close>)

lemma username_set_ok:
  assumes ok: "registry_ok L r"
  shows "registry_ok L (snd (set_username L uid name r))"
proof (cases "validate_username L name")
  case (Inr n)
  note ne = validated_nonempty [OF Inr]
  show ?thesis
  proof (cases "map_of (ur_users r) uid")
    case (Some u)
    note u = map_of_field [OF Some ok]
    let ?taken = "case ur_usernames r n of Some owner \<Rightarrow> owner \<noteq> uid | None \<Rightarrow> False"
    show ?thesis
    proof (cases "u_username u = n \<or> ?taken")
      case True
      then show ?thesis using ok by (auto simp: set_username_def Inr Some)
    next
      case False
      let ?u = "u\<lparr>u_username := n\<rparr>" let ?f = "free_old (ur_usernames r) (name_field u)"
      have freed: "(if u_username u = [] then ur_usernames r else (ur_usernames r)(u_username u := None)) = ?f"
        by (simp add: free_old_def name_field_def)
      have "ur_usernames r n \<noteq> Some uid"
        using indexesD [OF registry_okD(2) [OF ok], of n uid] Some False
        by (auto simp: name_field_def split: if_splits)
      with False have "ur_usernames r n = None" by (auto split: option.splits)
      then have free: "?f n = None" by (simp add: free_old_def split: option.splits)
      have "indexes (?f(n \<mapsto> uid)) ((map_of (ur_users r))(uid \<mapsto> ?u)) name_field"
        using indexes_move [OF registry_okD(2) [OF ok], of ?u n uid] free ne
        by (simp add: old_value_def Some name_field_def)
      moreover have "indexes (ur_emails r) ((map_of (ur_users r))(uid \<mapsto> ?u)) u_email"
        using indexes_same [OF registry_okD(1) [OF ok], of ?u uid] by (simp add: old_value_def Some)
      ultimately show ?thesis
        using registry_ok_write [OF ok, of ?u uid "ur_emails r" "?f(n \<mapsto> uid)"] u False
        by (simp add: set_username_def Inr Some freed Let_def)
    qed
  qed (use ok in \<open>simp add: set_username_def Inr\<close>)
qed (use ok in \<open>simp add: set_username_def\<close>)

lemma root_ok:
  assumes ok: "registry_ok L r" and new: "new_id L r uid"
  shows "registry_ok L (ensure_root L uid now r)"
proof (cases "ur_usernames r root_username")
  case None
  let ?u = "\<lparr>u_uid = uid, u_username = root_username, u_email = None, u_active = True, u_created_ms = now\<rparr>"
  have "indexes ((ur_usernames r)(root_username \<mapsto> uid)) ((map_of (ur_users r))(uid \<mapsto> ?u)) name_field"
    using indexes_move [OF registry_okD(2) [OF ok], of ?u root_username uid] None new_not_mapped [OF new]
    by (simp add: old_value_def free_old_def name_field_def root_username_def cps_def)
  moreover have "indexes (ur_emails r) ((map_of (ur_users r))(uid \<mapsto> ?u)) u_email"
    using indexes_same [OF registry_okD(1) [OF ok], of ?u uid] new_not_mapped [OF new]
    by (simp add: old_value_def)
  ultimately show ?thesis
    using registry_ok_write [OF ok, of ?u uid "ur_emails r"] new None by (simp add: ensure_root_def)
qed (use ok in \<open>simp add: ensure_root_def\<close>)

lemma step_ok: "registry_step L r r' \<Longrightarrow> registry_ok L r \<Longrightarrow> registry_ok L r'"
  by (induction rule: registry_step.induct)
    (simp_all add: registered_ok email_set_ok username_set_ok root_ok)

lemma steps_ok: "(registry_step L)\<^sup>*\<^sup>* r r' \<Longrightarrow> registry_ok L r \<Longrightarrow> registry_ok L r'"
  by (induction rule: rtranclp_induct) (simp_all add: step_ok)


subsection \<open>Loading what was stored\<close>

definition add_index :: "(utext \<rightharpoonup> utext) \<Rightarrow> utext option \<Rightarrow> utext \<Rightarrow> utext \<rightharpoonup> utext" where
  "add_index ix v k = (case v of Some x \<Rightarrow> ix(x \<mapsto> k) | None \<Rightarrow> ix)"

lemma index_user_fields:
  "ur_users (index_user k u r) = AList.update k u (ur_users r)"
  "ur_emails (index_user k u r) = add_index (ur_emails r) (u_email u) k"
  "ur_usernames (index_user k u r) = add_index (ur_usernames r) (name_field u) k"
  "ur_namespace (index_user k u r) = ur_namespace r"
  by (auto simp: index_user_def add_index_def name_field_def)

lemma indexes_grow:
  assumes i: "indexes ix m f" and sub: "m \<subseteq>\<^sub>m M" and I: "indexes IX M f" and k: "M k = Some u"
  shows "indexes (add_index ix (f u) k) (m(k \<mapsto> u)) f"
proof (cases "m k")
  case None
  show ?thesis
  proof (cases "f u")
    case v: None
    with None show ?thesis using indexes_same [OF i, of u k] by (simp add: add_index_def old_value_def)
  next
    case (Some x)
    have "ix x = None"
    proof (rule ccontr)
      assume "ix x \<noteq> None"
      then obtain j v where j: "m j = Some v" "f v = Some x" using indexesD [OF i] by auto
      have Mj: "M j = Some v" using sub j(1) by (metis domI map_le_def)
      have "IX x = Some j" using indexesD [OF I] Mj j(2) by blast
      moreover have "IX x = Some k" using indexesD [OF I] k Some by blast
      ultimately show False using None j(1) by simp
    qed
    with indexes_move [OF i Some, of k] None show ?thesis
      by (simp add: add_index_def Some old_value_def free_old_def)
  qed
next
  case (Some w)
  then have w: "w = u" using sub k by (metis domI map_le_def option.inject)
  have "add_index ix (f u) k = ix"
  proof (cases "f u")
    case v: (Some x)
    then have "ix x = Some k" using indexesD [OF i] Some w by blast
    then show ?thesis by (simp add: add_index_def v fun_upd_idem)
  qed (simp add: add_index_def)
  with i Some w show ?thesis by (simp add: fun_upd_idem)
qed

definition covers :: "registry \<Rightarrow> utext set \<Rightarrow> registry \<Rightarrow> bool" where
  "covers r C s \<longleftrightarrow> map_of (ur_users s) = map_of (ur_users r) |` C
     \<and> indexes (ur_emails s) (map_of (ur_users s)) u_email
     \<and> indexes (ur_usernames s) (map_of (ur_users s)) name_field
     \<and> ur_namespace s = ur_namespace r"

lemma covers_step:
  assumes ok: "registry_ok L r" and c: "covers r C s" and k: "map_of (ur_users r) k = Some u"
  shows "covers r (insert k C) (index_user k u s)"
proof -
  have sub: "map_of (ur_users s) \<subseteq>\<^sub>m map_of (ur_users r)" using c by (simp add: covers_def map_le_def)
  have m: "map_of (AList.update k u (ur_users s)) = (map_of (ur_users s))(k \<mapsto> u)" by (simp add: update_conv')
  have "(map_of (ur_users s))(k \<mapsto> u) = map_of (ur_users r) |` insert k C"
    using c k by (auto simp: covers_def restrict_map_def fun_eq_iff)
  moreover have "indexes (add_index (ur_emails s) (u_email u) k) ((map_of (ur_users s))(k \<mapsto> u)) u_email"
    "indexes (add_index (ur_usernames s) (name_field u) k) ((map_of (ur_users s))(k \<mapsto> u)) name_field"
    using c indexes_grow [OF _ sub registry_okD(1) [OF ok] k] indexes_grow [OF _ sub registry_okD(2) [OF ok] k]
    by (auto simp: covers_def)
  ultimately show ?thesis using c unfolding covers_def index_user_fields m by simp
qed

lemma covers_fold:
  assumes ok: "registry_ok L r" and ds: "\<forall>p \<in> set ds. map_of (ur_users r) (u_uid (snd p)) = Some (snd p)"
  shows "covers r C s \<Longrightarrow> covers r (C \<union> (\<lambda>p. u_uid (snd p)) ` set ds)
    (fold (\<lambda>p. index_user (u_uid (snd p)) (snd p)) ds s)"
  using ds
proof (induction ds arbitrary: C s)
  case (Cons p ds)
  then have "covers r (insert (u_uid (snd p)) C) (index_user (u_uid (snd p)) (snd p) s)"
    by (intro covers_step [OF ok]) simp_all
  from Cons.IH [OF this] Cons.prems(2) show ?case by simp
qed simp

lemma reload_covers:
  assumes ok: "registry_ok L r" and d: "ur_disk r = Some d"
  shows "covers r (dom (map_of (ur_users r)))
    (fold (\<lambda>p. index_user (u_uid (snd p)) (snd p)) d (empty_registry (ur_namespace r) (Some d)))"
proof -
  have set_d: "set d = (\<lambda>(k, u). (tl_dir L k, u)) ` set (ur_users r)"
    and dist: "distinct (map fst (ur_users r))" and keys: "\<forall>(k, u) \<in> set (ur_users r). u_uid u = k"
    using ok d by (simp_all add: registry_ok_def disk_ok_def)
  have "\<forall>p \<in> set d. map_of (ur_users r) (u_uid (snd p)) = Some (snd p)"
    unfolding set_d using keys dist by (auto simp: map_of_eq_Some_iff)
  moreover have "(\<lambda>p. u_uid (snd p)) ` set d = dom (map_of (ur_users r))"
    unfolding set_d dom_map_of_conv_image_fst image_image using keys by (intro image_cong) auto
  moreover have "covers r {} (empty_registry (ur_namespace r) (Some d))"
    by (simp add: covers_def empty_registry_def indexes_def)
  ultimately show ?thesis using covers_fold [OF ok, of d "{}"] by simp
qed

lemma via_index_iff:
  assumes "indexes ix (map_of us) f"
  shows "via_index ix us x = Some u \<longleftrightarrow> (\<exists>k. map_of us k = Some u \<and> f u = Some x)"
proof
  assume "via_index ix us x = Some u"
  then obtain k where "ix x = Some k" "map_of us k = Some u"
    by (auto simp: via_index_def split: option.splits)
  with indexesD [OF assms] show "\<exists>k. map_of us k = Some u \<and> f u = Some x" by fastforce
next
  assume "\<exists>k. map_of us k = Some u \<and> f u = Some x"
  then obtain k where "map_of us k = Some u" "f u = Some x" by blast
  with indexesD [OF assms, of x k] show "via_index ix us x = Some u" by (simp add: via_index_def)
qed

lemma name_field_iff: "name_field u = Some x \<longleftrightarrow> u_username u = x \<and> x \<noteq> []"
  by (auto simp: name_field_def)

lemma reload_index:
  assumes ok: "registry_ok L r" and c: "covers r (dom (map_of (ur_users r))) s"
  shows "map_of (ur_users s) = map_of (ur_users r)" "ur_emails s = ur_emails r" "ur_usernames s = ur_usernames r"
proof -
  have "map_of (ur_users r) |` dom (map_of (ur_users r)) = map_of (ur_users r)"
    by (rule ext) (simp add: restrict_map_def domIff)
  with c show m: "map_of (ur_users s) = map_of (ur_users r)" by (simp add: covers_def)
  with c ok show "ur_emails s = ur_emails r" "ur_usernames s = ur_usernames r"
    by (auto simp: covers_def registry_ok_def intro: indexes_unique)
qed

subsection \<open>Properties\<close>

lemma empty_ok: "d = None \<or> d = Some [] \<Longrightarrow> registry_ok L (empty_registry ns d)"
  by (auto simp: registry_ok_def empty_registry_def indexes_def disk_ok_def)

text \<open>C18: Whatever is registered, renamed or re-addressed, in any order and with the failures included,
  no two users share a user name or an e-mail address, and looking one up finds exactly its holder.\<close>

theorem registry_unique_names:
  assumes "(registry_step L)\<^sup>*\<^sup>* (empty_registry ns d) r" "d = None \<or> d = Some []"
  shows "(find_by_username L r n = Some u \<longleftrightarrow>
      (\<exists>k. map_of (ur_users r) k = Some u \<and> u_username u = normalize L n \<and> normalize L n \<noteq> []))
    \<and> (find_by_email L r e = Some u \<longleftrightarrow>
      (\<exists>k. map_of (ur_users r) k = Some u \<and> u_email u = Some (normalize L e)))"
proof -
  have ok: "registry_ok L r" by (rule steps_ok [OF assms(1) empty_ok [OF assms(2)]])
  show ?thesis
    using via_index_iff [OF registry_okD(1) [OF ok]] via_index_iff [OF registry_okD(2) [OF ok]]
    by (simp add: find_by_username_def find_by_email_def name_field_iff)
qed

text \<open>ASCII lower case, and the id as its own directory.\<close>

definition plain_text :: text_lib where
  "plain_text = \<lparr>tl_lower = map lower_cp, tl_dir = (\<lambda>s. s)\<rparr>"

definition ann :: user where
  "ann = \<lparr>u_uid = cps ''ns/u/1'', u_username = cps ''ann'', u_email = Some (cps ''a@b''), u_active = True,
     u_created_ms = 7\<rparr>"

definition with_ann :: "(utext \<times> user) list option \<Rightarrow> registry" where
  "with_ann d = snd (register_user plain_text (cps ''ns/u/1'') 7 (cps ''A@b'') (cps '' Ann '')
     (empty_registry (cps ''ns'') d))"

lemma with_ann_eq:
  "with_ann d = \<lparr>ur_users = [(cps ''ns/u/1'', ann)], ur_emails = [cps ''a@b'' \<mapsto> cps ''ns/u/1''],
     ur_usernames = [cps ''ann'' \<mapsto> cps ''ns/u/1''], ur_namespace = cps ''ns'',
     ur_disk = map_option (AList.update (cps ''ns/u/1'') ann) d\<rparr>"
proof -
  have v: "validate_username plain_text (cps '' Ann '') = Inr (cps ''ann'')"
    "validate_email plain_text (cps ''A@b'') = Inr (cps ''a@b'')"
    by (simp_all add: validate_username_def validate_email_def normalize_def plain_text_def Let_def cps_def
      trim_def trim_start_def trim_start_of_def trim_end_def trim_end_of_def is_space_def lower_cp_def
      char_cost_def username_char_def reserved_usernames_def)
  have "tl_dir plain_text = (\<lambda>s. s)" by (simp add: plain_text_def)
  then show ?thesis
    by (cases d) (simp_all add: with_ann_def register_user_def v Let_def empty_registry_def save_user_def
      ann_def)
qed

lemma with_ann_reached: "(registry_step plain_text)\<^sup>*\<^sup>* (empty_registry (cps ''ns'') d) (with_ann d)"
  unfolding with_ann_def
  by (intro r_into_rtranclp registry_step.registered) (simp add: new_id_def empty_registry_def)

theorem registry_unique_names_witness:
  "(find_by_username plain_text (with_ann (Some [])) (cps ''ANN'') = Some ann \<longleftrightarrow>
      (\<exists>k. map_of (ur_users (with_ann (Some []))) k = Some ann
         \<and> u_username ann = normalize plain_text (cps ''ANN'') \<and> normalize plain_text (cps ''ANN'') \<noteq> []))
    \<and> (find_by_email plain_text (with_ann (Some [])) (cps ''a@B'') = Some ann \<longleftrightarrow>
      (\<exists>k. map_of (ur_users (with_ann (Some []))) k = Some ann
         \<and> u_email ann = Some (normalize plain_text (cps ''a@B''))))"
  by (rule registry_unique_names [OF with_ann_reached]) simp

text \<open>A restart restores the registry: after any operations on an empty store, loading its directory
  gives back every user and both indexes, so that every lookup answers as before.\<close>

theorem registry_reload:
  assumes "(registry_step L)\<^sup>*\<^sup>* (empty_registry ns (Some [])) r" "ur_disk r = Some d"
    and "ur_users r \<noteq> [] \<or> legacy = None"
  shows "find_by_username L (load_registry (ur_namespace r) d legacy) n = find_by_username L r n
    \<and> find_by_email L (load_registry (ur_namespace r) d legacy) e = find_by_email L r e
    \<and> username_of (load_registry (ur_namespace r) d legacy) i = username_of r i"
proof -
  have ok: "registry_ok L r" by (rule steps_ok [OF assms(1) empty_ok]) simp
  have "d = [] \<longleftrightarrow> ur_users r = []"
    using ok assms(2) by (auto simp: registry_ok_def disk_ok_def)
  with assms(3) have load: "load_registry (ur_namespace r) d legacy
      = fold (\<lambda>p. index_user (u_uid (snd p)) (snd p)) d (empty_registry (ur_namespace r) (Some d))"
    by (auto simp: load_registry_def Let_def)
  have ns: "ur_namespace (load_registry (ur_namespace r) d legacy) = ur_namespace r"
    using reload_covers [OF ok assms(2)] by (simp add: load covers_def)
  note same = reload_index [OF ok reload_covers [OF ok assms(2)], folded load]
  show ?thesis
    by (simp add: find_by_username_def find_by_email_def via_index_def username_of_def uid_of_def same ns
        cong: option.case_cong)
qed

theorem registry_reload_witness:
  "find_by_username plain_text (load_registry (cps ''ns'') [(cps ''ns/u/1'', ann)] None) (cps ''ann'')
      = find_by_username plain_text (with_ann (Some [])) (cps ''ann'')
    \<and> find_by_email plain_text (load_registry (cps ''ns'') [(cps ''ns/u/1'', ann)] None) (cps ''a@b'')
      = find_by_email plain_text (with_ann (Some [])) (cps ''a@b'')
    \<and> username_of (load_registry (cps ''ns'') [(cps ''ns/u/1'', ann)] None) (cps ''ns/u/1'')
      = username_of (with_ann (Some [])) (cps ''ns/u/1'')"
  using registry_reload [OF with_ann_reached, of "[(cps ''ns/u/1'', ann)]" None "cps ''ann''" "cps ''a@b''" "cps ''ns/u/1''"]
  by (simp add: with_ann_eq)

text \<open>The user name \<open>root\<close> cannot be registered or taken over by renaming; \<open>ensure_root\<close> creates it once.\<close>

theorem root_reserved:
  assumes "normalize L name = root_username"
  shows "fst (register_user L uid now email name r) = Inl (Reserved_Username root_username)"
    "fst (set_username L uid name r) = Some (Reserved_Username root_username)"
  using assms by (simp_all add: register_user_def set_username_def validate_username_def Let_def
    root_username_def reserved_usernames_def cps_def username_char_def char_cost_def)

end
