(* ===== verification/Mention.thy ===== *)
theory Mention
  imports User_Registry
begin

text \<open>
  \<open>agents/mention.rs\<close>: \<open>@name\<close> in a user's text becomes a \<open><ref id="..."/>\<close> tag for the agent, and a tag in
  the agent's answer becomes \<open>@name\<close> again, in one piece or chunk by chunk.  What the two directions
  need of the registry is the locale \<open>mention_directory\<close>.
\<close>

definition open_tag :: utext where "open_tag = cps ''<ref id='' @ [34]"
definition ref_tag :: "utext \<Rightarrow> utext" where "ref_tag i = open_tag @ i @ [34] @ cps ''/>''"

subsection \<open>Rendering\<close>

function render_refs :: "(utext \<Rightarrow> utext) \<Rightarrow> utext \<Rightarrow> utext" where
  "render_refs R rest =
     (case str_find open_tag rest of
        None \<Rightarrow> rest
      | Some i \<Rightarrow>
          let after = drop (i + length open_tag) rest in
          (case position (\<lambda>c. c = 34) after of
             None \<Rightarrow> take i rest @ drop i rest
           | Some q \<Rightarrow>
               (case strip_prefix (cps ''/>'') (drop (Suc q) after) of
                  Some rest' \<Rightarrow> take i rest @ R (take q after) @ render_refs R rest'
                | None \<Rightarrow> take i rest @ drop i rest)))"
  by pat_completeness auto
termination
proof (relation "measure (\<lambda>(R, rest). length rest)", goal_cases)
  case 1
  show ?case by simp
next
  case (2 R rest i after q rest')
  have "length open_tag = 9" by (simp add: open_tag_def cps_def)
  moreover have "i + length open_tag \<le> length rest" using str_find_SomeD [OF 2(1)] by simp
  moreover have "length rest' \<le> length after" using 2 by (auto simp: strip_prefix_def split: if_splits)
  ultimately show ?case using 2(2) by simp
qed

declare render_refs.simps [simp del]

definition render_one_ref :: "registry \<Rightarrow> utext \<Rightarrow> utext" where
  "render_one_ref r i =
     (if \<not> prefix (user_prefix (ur_namespace r)) i then ref_tag i
      else case username_of r i of Some n \<Rightarrow> 64 # n | None \<Rightarrow> ref_tag i)"

text \<open>The streaming renderer: the text to show and the pending tail.\<close>

definition renderer_push :: "(utext \<Rightarrow> utext) \<Rightarrow> utext \<Rightarrow> utext \<Rightarrow> utext \<times> utext" where
  "renderer_push R pending delta =
     (let p = pending @ delta in
      case rposition (\<lambda>c. c = 60) p of
        Some lt \<Rightarrow>
          (if 62 \<notin> set (drop lt p) \<and> prefix (cps ''<ref'') (drop lt p)
           then (render_refs R (take lt p), drop lt p)
           else (render_refs R p, []))
      | None \<Rightarrow> (render_refs R p, []))"

definition renderer_flush :: "utext \<Rightarrow> utext \<times> utext" where
  "renderer_flush pending = (pending, [])"

primrec render_stream :: "(utext \<Rightarrow> utext) \<Rightarrow> utext \<Rightarrow> utext list \<Rightarrow> utext \<times> utext" where
  "render_stream R pending [] = ([], pending)"
| "render_stream R pending (d # ds) =
     (case renderer_push R pending d of (out, p) \<Rightarrow>
        (case render_stream R p ds of (outs, p') \<Rightarrow> (out @ outs, p')))"

subsection \<open>Resolution\<close>

definition ends_token :: "nat \<Rightarrow> bool" where
  "ends_token c \<longleftrightarrow> is_space c \<or> c \<in> set (cps ''!?,.;:()[]<>~`|^=+*&#%/-'')
     \<or> c \<in> {34, 39, 92, 0xFF0C, 0x3002, 0xFF01, 0xFF1F, 0xFF08, 0xFF09, 0x300A, 0x300B, 0x3001, 0x3010, 0x3011}"

definition take_mention_token :: "utext \<Rightarrow> utext" where
  "take_mention_token s = takeWhile (\<lambda>c. \<not> ends_token c) s"

definition is_email_local_char :: "nat \<Rightarrow> bool" where
  "is_email_local_char c \<longleftrightarrow> (48 \<le> c \<and> c \<le> 57) \<or> (65 \<le> c \<and> c \<le> 90) \<or> (97 \<le> c \<and> c \<le> 122)
     \<or> c \<in> set (cps ''._%+-'')"

definition not_found_reply :: "utext \<Rightarrow> utext" where
  "not_found_reply token = [0x672A, 0x627E, 0x5230] @ cps '' @'' @ token @ [0xFF0C] @ cps ''ta ''
     @ [0x5C1A, 0x672A, 0x4E0E, 0x672C] @ cps '' bot '' @ [0x4E92, 0x52A8, 0xFF0C, 0x65E0, 0x6CD5, 0x901A, 0x77E5, 0xFF1B, 0x53EF, 0x8BA9]
     @ cps '' ta '' @ [0x5148, 0x53D1, 0x6761, 0x6D88, 0x606F, 0x6216] @ cps '' /register'' @ [0x3002]"

text \<open>Resolved to an id, or not; the left result is the reply for the user.\<close>

function resolve_loop :: "(utext \<Rightarrow> utext option) \<Rightarrow> utext \<Rightarrow> utext + utext" where
  "resolve_loop F rest =
     (case position (\<lambda>c. c = 64) rest of
        None \<Rightarrow> Inr rest
      | Some a \<Rightarrow>
          let before = take a rest; after = drop (Suc a) rest; token = take_mention_token after in
          if (before \<noteq> [] \<and> is_email_local_char (last before)) \<or> token = []
          then map_sum id (\<lambda>out. before @ [64] @ out) (resolve_loop F after)
          else case F token of
            Some i \<Rightarrow> map_sum id (\<lambda>out. before @ ref_tag i @ out) (resolve_loop F (drop (length token) after))
          | None \<Rightarrow> Inl (not_found_reply token))"
  by pat_completeness auto
termination
  by (relation "measure (\<lambda>(F, rest). length rest)") (auto simp: position_Some_iff)

declare resolve_loop.simps [simp del]

definition resolve_one :: "text_lib \<Rightarrow> registry \<Rightarrow> utext \<Rightarrow> utext option" where
  "resolve_one L r token =
     map_option (\<lambda>u. user_id (ur_namespace r) (u_uid u)) (find_by_username L r token)"

definition resolve_mentions :: "text_lib \<Rightarrow> registry \<Rightarrow> utext \<Rightarrow> utext + utext" where
  "resolve_mentions L r text' = resolve_loop (resolve_one L r) text'"

subsection \<open>Facts about rendering\<close>

lemma open_tag_simps: "open_tag = 60 # cps ''ref id='' @ [34]" "length open_tag = 9"
  by (simp_all add: open_tag_def cps_def)

lemma str_find_skip:
  "60 \<notin> set p \<Longrightarrow> str_find open_tag (p @ s) = map_option (\<lambda>i. length p + i) (str_find open_tag s)"
proof (induction p)
  case Nil
  then show ?case by (simp add: option.map_ident)
next
  case (Cons c p)
  have "\<not> prefix open_tag (c # p @ s)" using Cons.prems by (simp add: open_tag_simps)
  with Cons show ?case by (simp add: option.map_comp comp_def)
qed

lemma render_skip: "60 \<notin> set p \<Longrightarrow> render_refs R (p @ s) = p @ render_refs R s"
  by (subst (1 2) render_refs.simps) (simp add: str_find_skip Let_def split: option.splits)

lemma render_plain: "60 \<notin> set p \<Longrightarrow> render_refs R p = p"
proof -
  assume p: "60 \<notin> set p"
  have "render_refs R [] = []" by (subst render_refs.simps) (simp add: open_tag_simps)
  with render_skip [OF p, of R "[]"] show ?thesis by simp
qed

lemma position_quote: "34 \<notin> set i \<Longrightarrow> position (\<lambda>c. c = 34) (i @ 34 # s) = Some (length i)"
  by (induction i) auto

lemma render_tag: "34 \<notin> set i \<Longrightarrow> render_refs R (ref_tag i @ s) = R i @ render_refs R s"
proof -
  assume i: "34 \<notin> set i"
  have f: "str_find open_tag (ref_tag i @ s) = Some 0"
    by (simp add: ref_tag_def open_tag_simps(1))
  have d: "drop (length open_tag) (ref_tag i @ s) = i @ 34 # cps ''/>'' @ s"
    by (simp add: ref_tag_def)
  show ?thesis
    by (subst render_refs.simps, unfold f option.case Let_def add_0 d position_quote [OF i])
      (simp add: strip_prefix_def)
qed


text \<open>A tag that arrives in pieces, the first of them at least \<open><ref\<close>.\<close>

lemma tag_tail:
  assumes "60 \<notin> set i" "62 \<notin> set i" "ref_tag i = p @ q" "prefix (cps ''<ref'') p" "q \<noteq> []"
  shows "62 \<notin> set p" "rposition (\<lambda>c. c = 60) p = Some 0"
proof -
  have b: "ref_tag i = butlast (ref_tag i) @ [62]" "butlast (ref_tag i) = 60 # cps ''ref id='' @ [34] @ i @ [34, 47]"
    by (simp_all add: ref_tag_def open_tag_def cps_def butlast_append)
  have "last q = 62" using assms(3,5) b(1) by (metis last_appendR last_snoc)
  then obtain q' where q: "q = q' @ [62]" using assms(5) by (metis append_butlast_last_id)
  with assms(3) b(1) have pq: "butlast (ref_tag i) = p @ q'" by (metis butlast_snoc append_assoc)
  then have "set p \<subseteq> set (butlast (ref_tag i))" by simp
  moreover have "62 \<notin> set (butlast (ref_tag i))" using assms(2) unfolding b(2) by (simp add: cps_def)
  ultimately show "62 \<notin> set p" by blast
  obtain p' where p: "p = 60 # p'" using assms(4) by (cases p) (simp_all add: cps_def)
  have "p' @ q' = cps ''ref id='' @ [34] @ i @ [34, 47]" using pq p b(2) by simp
  then have "set p' \<subseteq> set (cps ''ref id='' @ [34] @ i @ [34, 47])" by (metis set_append Un_upper1)
  then have "\<forall>y \<in> set p'. \<not> y = 60" using assms(1) by (auto simp: cps_def)
  from rposition_last [of "\<lambda>c. c = 60" 60 p' "[]"] this
  show "rposition (\<lambda>c. c = 60) p = Some 0" by (simp add: p)
qed

lemma tag_stream:
  assumes i: "60 \<notin> set i" "62 \<notin> set i" "34 \<notin> set i"
  shows "prefix (cps ''<ref'') p \<Longrightarrow> ref_tag i = p @ concat ds \<Longrightarrow> [] \<notin> set ds \<Longrightarrow> ds \<noteq> []
    \<Longrightarrow> render_stream R p ds = (R i, [])"
proof (induction ds arbitrary: p)
  case (Cons d ds)
  have whole: "ref_tag i = (p @ d) @ concat ds" using Cons.prems(2) by simp
  have pre: "prefix (cps ''<ref'') (p @ d)" using Cons.prems(1) by (rule prefix_prefix)
  show ?case
  proof (cases "ds = []")
    case True
    have last: "62 \<in> set (ref_tag i)" by (simp add: ref_tag_def cps_def)
    have rp: "rposition (\<lambda>c. c = 60) (ref_tag i) = Some 0"
    proof -
      have "\<forall>y \<in> set (cps ''ref id='' @ [34] @ i @ [34] @ cps ''/>''). \<not> y = 60"
        using i(1) by (auto simp: cps_def)
      from rposition_last [of "\<lambda>c. c = 60" 60 _ "[]", OF _ this]
      show ?thesis by (simp add: ref_tag_def open_tag_simps(1))
    qed
    have "renderer_push R p d = (render_refs R (ref_tag i), [])"
      using whole True last rp by (simp add: renderer_push_def Let_def)
    moreover have "render_refs R (ref_tag i) = R i"
      using render_tag [OF i(3), of R "[]"] render_plain [of "[]" R] by simp
    ultimately show ?thesis by (simp add: True)
  next
    case False
    then have "concat ds \<noteq> []" using Cons.prems(3) by (cases ds) auto
    note t = tag_tail [OF i(1,2) whole pre this]
    have "renderer_push R p d = ([], p @ d)"
      using t pre render_plain [of "[]" R] by (simp add: renderer_push_def Let_def)
    with Cons.IH [OF pre whole _ False] Cons.prems(3) show ?thesis by simp
  qed
qed simp

lemma token_split: "take_mention_token s @ drop (length (take_mention_token s)) s = s"
  by (simp add: take_mention_token_def dropWhile_eq_drop [symmetric])

subsection \<open>What rendering and resolution need of a registry\<close>

locale mention_directory =
  fixes ok :: "'r \<Rightarrow> bool" and lookup :: "'r \<Rightarrow> utext \<Rightarrow> utext option"
    and show_id :: "'r \<Rightarrow> utext \<Rightarrow> utext" and norm :: "utext \<Rightarrow> utext"
  assumes found: "ok r \<Longrightarrow> lookup r t = Some i \<Longrightarrow> 34 \<notin> set i \<and> show_id r i = 64 # norm t"
begin

lemma resolve_render:
  assumes "ok r"
  shows "resolve_loop (lookup r) rest = Inr out \<Longrightarrow> 60 \<notin> set rest
    \<Longrightarrow> (\<And>t. sublist t rest \<Longrightarrow> lookup r t \<noteq> None \<Longrightarrow> norm t = t)
    \<Longrightarrow> render_refs (show_id r) out = rest"
proof (induction "lookup r" rest arbitrary: out rule: resolve_loop.induct)
  case (1 rest)
  note res = "1.prems"(1) [unfolded resolve_loop.simps [of "lookup r" rest]]
  show ?case
  proof (cases "position (\<lambda>c. c = 64) rest")
    case None
    with res have "out = rest" by simp
    with "1.prems"(2) show ?thesis by (simp add: render_plain)
  next
    case (Some a)
    let ?before = "take a rest" let ?after = "drop (Suc a) rest" let ?token = "take_mention_token ?after"
    have a: "a < length rest" "rest ! a = 64" using Some by (simp_all add: position_Some_iff)
    have rest: "rest = ?before @ 64 # ?after" using a by (metis id_take_nth_drop)
    have nb: "60 \<notin> set ?before" "60 \<notin> set ?after"
      using "1.prems"(2) by (auto dest: in_set_takeD in_set_dropD)
    have sub: "sublist t rest" if "sublist t ?after" for t
      using sublist_order.order_trans [OF that sublist_drop] .
    show ?thesis
    proof (cases "(?before \<noteq> [] \<and> is_email_local_char (last ?before)) \<or> ?token = []")
      case True
      with res Some obtain o1 where o1: "resolve_loop (lookup r) ?after = Inr o1"
        "out = ?before @ [64] @ o1"
        by (cases "resolve_loop (lookup r) ?after"; simp add: Let_def)
      have "render_refs (show_id r) o1 = ?after"
        using "1.hyps"(1) [OF Some refl refl refl True o1(1) nb(2)] "1.prems"(3) sub by blast
      moreover have "60 \<notin> set (?before @ [64])" using nb by simp
      ultimately show ?thesis
        using render_skip [of "?before @ [64]" "show_id r" o1] o1(2) rest by simp
    next
      case False
      then obtain i where i: "lookup r ?token = Some i"
        using res Some by (auto simp: Let_def split: option.splits)
      let ?rest = "drop (length ?token) ?after"
      have "map_sum id (\<lambda>out. ?before @ ref_tag i @ out) (resolve_loop (lookup r) ?rest) = Inr out"
        using res unfolding Some option.case Let_def if_not_P [OF False] i .
      then obtain o1 where o1: "resolve_loop (lookup r) ?rest = Inr o1"
        "out = ?before @ ref_tag i @ o1"
        by (cases "resolve_loop (lookup r) ?rest") auto
      have after: "?after = ?token @ ?rest"
        by (rule token_split [symmetric])
      have nr: "60 \<notin> set ?rest" using nb(2) set_drop_subset [of "length ?token" ?after] by blast
      have "sublist ?token ?after" by (subst (2) after) simp
      then have norm: "norm ?token = ?token" using "1.prems"(3) sub i by simp
      have "sublist t rest" if "sublist t ?rest" for t
        using sub [OF sublist_order.order_trans [OF that sublist_drop]] .
      then have IH: "render_refs (show_id r) o1 = ?rest"
        using "1.hyps"(2) [OF Some refl refl refl False i o1(1) nr] "1.prems"(3) by blast
      have "render_refs (show_id r) out = ?before @ (64 # ?token) @ ?rest"
        using found [OF assms i] norm nb(1) IH by (simp add: o1(2) render_skip render_tag)
      then show ?thesis using after rest by simp
    qed
  qed
qed

end


text \<open>The ids the registry draws: the prefix of its namespace and a uuid.\<close>

definition ids_ok :: "registry \<Rightarrow> bool" where
  "ids_ok r \<longleftrightarrow> (\<forall>k \<in> fst ` set (ur_users r). 34 \<notin> set k
     \<and> (\<exists>v. k = user_prefix (ur_namespace r) @ v \<and> \<not> prefix (user_prefix (ur_namespace r)) v))"

lemma resolve_one_shown:
  assumes ok: "registry_ok L r" "ids_ok r" and t: "resolve_one L r t = Some i"
  shows "34 \<notin> set i \<and> render_one_ref r i = 64 # normalize L t"
proof -
  from t obtain u where u: "find_by_username L r t = Some u" "i = user_id (ur_namespace r) (u_uid u)"
    by (auto simp: resolve_one_def)
  with via_index_iff [OF registry_okD(2) [OF ok(1)]] obtain k where k: "map_of (ur_users r) k = Some u"
    "u_username u = normalize L t" "normalize L t \<noteq> []"
    by (auto simp: find_by_username_def name_field_iff)
  note uid = map_of_field [OF k(1) ok(1)]
  then obtain v where v: "k = user_prefix (ur_namespace r) @ v" "\<not> prefix (user_prefix (ur_namespace r)) v"
    "34 \<notin> set k"
    using ok(2) by (auto simp: ids_ok_def)
  have i: "i = k" using u(2) uid v(1) by (simp add: user_id_def)
  have "username_of r k = Some (u_username u)"
    using v(1,2) k by (simp add: username_of_def uid_of_def strip_prefix_def)
  then show ?thesis using v k(2) by (simp add: i render_one_ref_def)
qed

interpretation registry_mentions: mention_directory "\<lambda>r. registry_ok L r \<and> ids_ok r" "resolve_one L"
  render_one_ref "normalize L" for L
  by unfold_locales (use resolve_one_shown in blast)

subsection \<open>Properties\<close>

text \<open>A mention survives the way to the agent and back: when a user's text holds no \<open><\<close> and its
  mentions resolve, rendering the text the agent was given shows the user's text again.\<close>

theorem mention_roundtrip:
  assumes "registry_ok L r" "ids_ok r" "resolve_mentions L r t = Inr out" "60 \<notin> set t"
    and "\<And>n. sublist n t \<Longrightarrow> resolve_one L r n \<noteq> None \<Longrightarrow> normalize L n = n"
  shows "render_refs (render_one_ref r) out = t"
  using assms registry_mentions.resolve_render [of L r t out] by (simp add: resolve_mentions_def)

lemma with_ann_ok: "registry_ok plain_text (with_ann None)" "ids_ok (with_ann None)"
proof -
  show "registry_ok plain_text (with_ann None)"
    by (rule steps_ok [OF with_ann_reached empty_ok]) simp
  show "ids_ok (with_ann None)"
    by (simp add: with_ann_eq ids_ok_def user_prefix_def cps_def)
qed

lemma normalize_plain:
  assumes "\<forall>c \<in> set n. \<not> is_space c \<and> lower_cp c = c"
  shows "normalize plain_text n = n"
proof -
  have "dropWhile is_space (rev n) = rev n" "dropWhile is_space n = n"
    using assms by (auto simp: dropWhile_eq_self_iff hd_rev)
  then show ?thesis using assms
    by (simp add: normalize_def plain_text_def trim_def trim_start_def trim_start_of_def trim_end_def
      trim_end_of_def map_idI)
qed

definition hi_ann :: utext where "hi_ann = cps ''a@b.c,@ann!''"

lemma hi_ann_resolved:
  "resolve_mentions plain_text (with_ann None) hi_ann = Inr (cps ''a@b.c,'' @ ref_tag (cps ''ns/u/1'') @ cps ''!'')"
proof -
  have "normalize plain_text (cps ''ann'') = cps ''ann''"
    by (rule normalize_plain) (simp add: cps_def is_space_def lower_cp_def)
  then have "resolve_one plain_text (with_ann None) [97, 110, 110] = Some (cps ''ns/u/1'')"
    by (simp add: resolve_one_def find_by_username_def via_index_def with_ann_eq user_id_def user_prefix_def
      ann_def cps_def)
  then show ?thesis
    by (simp add: resolve_mentions_def hi_ann_def cps_def resolve_loop.simps Let_def is_email_local_char_def
      take_mention_token_def ends_token_def is_space_def)
qed

theorem mention_roundtrip_witness:
  "render_refs (render_one_ref (with_ann None)) (cps ''a@b.c,'' @ ref_tag (cps ''ns/u/1'') @ cps ''!'') = hi_ann"
proof (rule mention_roundtrip [OF with_ann_ok hi_ann_resolved])
  show "60 \<notin> set hi_ann" by (simp add: hi_ann_def cps_def)
  show "normalize plain_text n = n" if "sublist n hi_ann" for n
  proof (rule normalize_plain)
    have "set n \<subseteq> set hi_ann" using that by (rule set_mono_sublist)
    moreover have "\<forall>c \<in> set hi_ann. \<not> is_space c \<and> lower_cp c = c"
      by (simp add: hi_ann_def cps_def is_space_def lower_cp_def)
    ultimately show "\<forall>c \<in> set n. \<not> is_space c \<and> lower_cp c = c" by blast
  qed
qed

lemma push_cut: "prefix (cps ''<ref'') p \<Longrightarrow> 62 \<notin> set p \<Longrightarrow> rposition (\<lambda>c. c = 60) p = Some 0
    \<Longrightarrow> renderer_push R [] p = ([], p)"
  using render_plain [of "[]" R] by (simp add: renderer_push_def Let_def)

text \<open>A tag that the model's stream cuts in two is shown as a name only when the first piece reaches
  \<open><ref\<close>; cut inside its first three characters, it reaches the user as raw markup, although the same
  text in one piece is rendered.\<close>

theorem split_tag_rendering:
  assumes "60 \<notin> set i" "62 \<notin> set i" "34 \<notin> set i" "0 < n" "n < length (ref_tag i)"
  shows "render_stream R [] [take n (ref_tag i), drop n (ref_tag i)]
      = (if n < 4 then ref_tag i else R i, [])
    \<and> render_refs R (ref_tag i) = R i"
proof
  let ?p = "take n (ref_tag i)" let ?q = "drop n (ref_tag i)"
  show whole: "render_refs R (ref_tag i) = R i"
    using render_tag [OF assms(3), of R "[]"] render_plain [of "[]" R] by simp
  have pq: "ref_tag i = ?p @ ?q" "?q \<noteq> []" using assms(5) by simp_all
  have tag: "ref_tag i = 60 # 114 # 101 # 102 # 32 # cps ''id='' @ [34] @ i @ [34, 47, 62]"
    by (simp add: ref_tag_def open_tag_def cps_def)
  show "render_stream R [] [?p, ?q] = (if n < 4 then ref_tag i else R i, [])"
  proof (cases "n < 4")
    case False
    then have "prefix (cps ''<ref'') ?p" by (simp add: tag cps_def take_Cons')
    moreover note tag_tail [OF assms(1,2) pq(1) this pq(2)]
    ultimately show ?thesis
      using False push_cut [of ?p R] tag_stream [OF assms(1-3), of ?p "[?q]" R] pq by simp
  next
    case True
    have q: "60 \<notin> set ?q" using assms(1,4) by (cases n) (auto simp: tag cps_def dest!: in_set_dropD)
    have "\<exists>p'. ?p = 60 # p' \<and> 60 \<notin> set p' \<and> length p' < 3"
      using assms(4) True by (cases n) (auto simp: tag cps_def take_Cons')
    then obtain p' where p': "?p = 60 # p'" "60 \<notin> set p'" "length p' < 3" by blast
    have "\<forall>y \<in> set p'. \<not> y = 60" using p'(2) by blast
    from rposition_last [of "\<lambda>c. c = 60" 60 p' "[]", OF refl this]
    have r: "rposition (\<lambda>c. c = 60) ?p = Some 0" by (simp add: p')
    have "length (cps ''<ref'') = 4" by (simp add: cps_def)
    then have np: "\<not> prefix (cps ''<ref'') ?p" using p'(3) by (auto dest!: prefix_length_le simp: p'(1))
    have "str_find open_tag ?p = None"
    proof (rule ccontr)
      assume "str_find open_tag ?p \<noteq> None"
      then obtain k where "str_find open_tag ?p = Some k" by blast
      from str_find_SomeD [OF this] have "length open_tag \<le> length ?p" by simp
      with p'(1,3) show False by (simp add: open_tag_simps(2))
    qed
    then have "render_refs R ?p = ?p" by (subst render_refs.simps) simp
    then have push1: "renderer_push R [] ?p = (?p, [])" using r np by (simp add: renderer_push_def Let_def)
    have "rposition (\<lambda>c. c = 60) ?q = None" using q by (auto simp: rposition_None_iff)
    then have push2: "renderer_push R [] ?q = (?q, [])"
      using render_plain [OF q] by (simp add: renderer_push_def Let_def)
    show ?thesis using True push1 push2 pq(1) by simp
  qed
qed

theorem split_tag_rendering_witness:
  "render_stream (\<lambda>_. cps ''@ann'') [] [take 2 (ref_tag (cps ''ns/u/1'')), drop 2 (ref_tag (cps ''ns/u/1''))]
      = (ref_tag (cps ''ns/u/1''), [])
    \<and> render_refs (\<lambda>_. cps ''@ann'') (ref_tag (cps ''ns/u/1'')) = cps ''@ann''"
  using split_tag_rendering [of "cps ''ns/u/1''" 2 "\<lambda>_. cps ''@ann''"]
  by (simp add: cps_def ref_tag_def open_tag_def)

end
