(* ===== verification/Agent_Stream.thy ===== *)
theory Agent_Stream
  imports Mention Utf8 Error_Class Summarizer Tool_Executor
begin

text \<open>
  \<open>agents/agent/stream_collect.rs\<close> and \<open>agents/agent/retry.rs\<close>: one streamed answer of the model is
  read under three timeouts and shown while it arrives; a transient failure is retried on the same
  model.  A stream is the list of its events with the time each one takes, and what follows them.
  The provider, JSON and the success of a push to the screen are arguments.
\<close>

subsection \<open>What the user sees\<close>

datatype 'j turn_event =
    Ev_Chunk utext
  | Ev_Thinking utext
  | Ev_Tool_Call utext utext "'j option"
  | Ev_Tool_Result utext utext utext bool
  | Ev_Cancelled utext
  | Ev_Done utext
  | Ev_Empty_Response utext
  | Ev_Error utext

text \<open>The turn's stream: whether there still is one, the events it took, whether its preview is kept.\<close>

record 'j screen =
  sc_live :: bool
  sc_log :: "'j turn_event list"
  sc_deferred :: bool

definition push_or_drop :: "(nat \<Rightarrow> bool) \<Rightarrow> 'j turn_event \<Rightarrow> 'j screen \<Rightarrow> 'j screen" where
  "push_or_drop accepts e sc =
     (if \<not> sc_live sc then sc
      else if accepts (length (sc_log sc)) then sc\<lparr>sc_log := sc_log sc @ [e]\<rparr>
      else sc\<lparr>sc_live := False\<rparr>)"

subsection \<open>The locals of \<open>collect_stream\<close> and its result\<close>

record collected =
  co_text :: utext
  co_reasoning :: "utext option"
  co_signature :: "utext option"
  co_calls :: "stream_tool_call list"
  co_events :: nat
  co_stop :: stop_reason
  co_usage :: "chat_usage option"
  co_model :: "utext option"

definition collected_init :: collected where
  "collected_init = \<lparr>co_text = [], co_reasoning = None, co_signature = None, co_calls = [], co_events = 0,
     co_stop = EndTurn, co_usage = None, co_model = None\<rparr>"

datatype llm_error = Http_Error nat string | Text_Error string

definition first_chunk_timeout :: nat where "first_chunk_timeout = from_secs 300"
definition chunk_interval_timeout :: nat where "chunk_interval_timeout = from_secs 120"
definition total_timeout :: nat where "total_timeout = from_secs 500"

text \<open>A stream: each event with the time until it arrives; then it closes after some time, or stays
  silent (\<open>None\<close>).\<close>

record timed_stream =
  st_events :: "(nat \<times> stream_event) list"
  st_close :: "nat option"

definition wait_limit :: "bool \<Rightarrow> nat" where
  "wait_limit first = (if first then first_chunk_timeout else chunk_interval_timeout)"

definition wait_error :: "bool \<Rightarrow> llm_error" where
  "wait_error first = Text_Error (if first then ''stream chunk timeout after 300s, no data received''
     else ''stream stalled: no chunk for 120s mid-response'')"

text \<open>One event: the locals, the pending tail of the renderer, the screen.\<close>

definition show_delta ::
  "(utext \<Rightarrow> utext) option \<Rightarrow> (nat \<Rightarrow> bool) \<Rightarrow> utext \<Rightarrow> utext \<Rightarrow> 'j screen \<Rightarrow> utext \<times> 'j screen" where
  "show_delta R accepts pending t sc =
     (case R of
        Some r \<Rightarrow> (case renderer_push r pending t of (out, p) \<Rightarrow> (p, push_or_drop accepts (Ev_Chunk out) sc))
      | None \<Rightarrow> (pending, push_or_drop accepts (Ev_Chunk t) sc))"

fun collect_event ::
  "(utext \<Rightarrow> utext) option \<Rightarrow> (nat \<Rightarrow> bool) \<Rightarrow> stream_event \<Rightarrow> collected \<times> utext \<times> 'j screen
    \<Rightarrow> collected \<times> utext \<times> 'j screen" where
  "collect_event R accepts (Delta t) (c, p, sc) =
     (let d = utf8_chars t in (c\<lparr>co_text := co_text c @ d\<rparr>, show_delta R accepts p d sc))"
| "collect_event R accepts (Thinking t) (c, p, sc) =
     (let d = utf8_chars t in
      if d = [] then (c, p, sc)
      else (c\<lparr>co_reasoning := Some ((case co_reasoning c of Some r \<Rightarrow> r | None \<Rightarrow> []) @ d)\<rparr>, p,
            push_or_drop accepts (Ev_Thinking d) sc))"
| "collect_event R accepts (ThinkingSignature g) (c, p, sc) =
     (c\<lparr>co_signature := Some (utf8_chars g)\<rparr>, p, sc)"
| "collect_event R accepts (ToolCallStart i n a) (c, p, sc) =
     (c\<lparr>co_events := co_events c + 1,
        co_calls := co_calls c @ [\<lparr>tc_id = i, tc_name = n, tc_arguments = a\<rparr>]\<rparr>, p, sc)"
| "collect_event R accepts (ToolCallDelta idx i n d) (c, p, sc) =
     (c\<lparr>co_events := co_events c + 1, co_calls := apply_call_delta idx i n d (co_calls c)\<rparr>, p, sc)"
| "collect_event R accepts (ToolCallEnd i n a) (c, p, sc) =
     (c\<lparr>co_events := co_events c + 1, co_calls := finish_call i n a (co_calls c)\<rparr>, p, sc)"
| "collect_event R accepts (Usage u) (c, p, sc) =
     (c\<lparr>co_usage := Some (merge_usage (co_usage c) u)\<rparr>, p, sc)"
| "collect_event R accepts (ModelUsed m) (c, p, sc) = (c\<lparr>co_model := Some (utf8_chars m)\<rparr>, p, sc)"
| "collect_event R accepts _ st = st"

fun collect_loop ::
  "(utext \<Rightarrow> utext) option \<Rightarrow> (nat \<Rightarrow> bool) \<Rightarrow> nat option \<Rightarrow> (nat \<times> stream_event) list \<Rightarrow> bool \<Rightarrow> nat
    \<Rightarrow> collected \<times> utext \<times> 'j screen \<Rightarrow> (llm_error + stop_reason) \<times> collected \<times> utext \<times> 'j screen" where
  "collect_loop R accepts close [] first elapsed st =
     (if total_timeout < elapsed then (Inl (Text_Error ''stream total timeout after 500s''), st)
      else if (case close of Some d \<Rightarrow> wait_limit first < d | None \<Rightarrow> True) then (Inl (wait_error first), st)
      else (Inl (Text_Error ''stream ended without a completion marker (provider truncated the response)''), st))"
| "collect_loop R accepts close ((d, e) # es) first elapsed st =
     (if total_timeout < elapsed then (Inl (Text_Error ''stream total timeout after 500s''), st)
      else if wait_limit first < d then (Inl (wait_error first), st)
      else case e of
        Done r \<Rightarrow> (Inr r, st)
      | HttpError s m \<Rightarrow> (Inl (Http_Error s m), st)
      | StreamError m \<Rightarrow> (Inl (Text_Error (''stream error: '' @ m)), st)
      | _ \<Rightarrow> collect_loop R accepts close es False (elapsed + d) (collect_event R accepts e st))"

definition collect_stream ::
  "(utext \<Rightarrow> utext) option \<Rightarrow> (nat \<Rightarrow> bool) \<Rightarrow> timed_stream \<Rightarrow> 'j screen
    \<Rightarrow> (llm_error + collected) \<times> 'j screen" where
  "collect_stream R accepts s sc =
     (case collect_loop R accepts (st_close s) (st_events s) True 0 (collected_init, [], sc) of
        (Inl e, _, _, sc') \<Rightarrow> (Inl e, sc')
      | (Inr r, c, p, sc') \<Rightarrow>
          (Inr (c\<lparr>co_stop := r,
              co_text := (case R of Some f \<Rightarrow> render_refs f (co_text c @ fst (renderer_flush p))
                          | None \<Rightarrow> co_text c)\<rparr>), sc'))"

subsection \<open>Retries\<close>

definition is_transient_llm_error :: "'j json_lib \<Rightarrow> nat option \<Rightarrow> llm_error \<Rightarrow> bool" where
  "is_transient_llm_error J unix_now e =
     (case e of
        Http_Error status m \<Rightarrow> should_same_model_retry (classify J unix_now [] status m)
      | Text_Error m \<Rightarrow>
          prefix ''stream error:'' m \<or> contains m ''stream chunk timeout'' \<or> contains m ''stream stalled''
          \<or> contains m ''stream total timeout'' \<or> contains m ''stream ended without a completion marker'')"

definition backoff_duration :: "nat \<Rightarrow> nat" where
  "backoff_duration attempt = from_secs (2 ^ min attempt 1)"

definition max_llm_retries :: nat where "max_llm_retries = 2"

text \<open>The provider answers the request of a number with a set-up error or a stream; the state keeps the
  requests, the sleeps and the screen.\<close>

record 'j llm_env =
  le_chat :: "nat \<Rightarrow> chat_message list \<Rightarrow> llm_error + timed_stream"
  le_json :: "'j json_lib"
  le_unix_now :: "nat \<Rightarrow> nat option"
  le_render :: "(utext \<Rightarrow> utext) option"
  le_accepts :: "nat \<Rightarrow> bool"

record 'j llm_state =
  ls_requests :: "chat_message list list"
  ls_slept :: "nat list"
  ls_screen :: "'j screen"

function chat_with_retry ::
  "'j llm_env \<Rightarrow> chat_message list \<Rightarrow> nat \<Rightarrow> 'j llm_state \<Rightarrow> (llm_error + collected) \<times> 'j llm_state" where
  "chat_with_retry L messages attempt st =
     (let k = length (ls_requests st); st1 = st\<lparr>ls_requests := ls_requests st @ [messages]\<rparr> in
      case le_chat L k messages of
        Inl e \<Rightarrow> (Inl e, st1)
      | Inr s \<Rightarrow>
          (case collect_stream (le_render L) (le_accepts L) s (ls_screen st1) of
             (Inr r, sc) \<Rightarrow> (Inr r, st1\<lparr>ls_screen := sc\<rparr>)
           | (Inl e, sc) \<Rightarrow>
               if attempt < max_llm_retries \<and> is_transient_llm_error (le_json L) (le_unix_now L k) e
               then chat_with_retry L messages (Suc attempt)
                      (st1\<lparr>ls_screen := sc, ls_slept := ls_slept st1 @ [backoff_duration (Suc attempt)]\<rparr>)
               else (Inl e, st1\<lparr>ls_screen := sc\<rparr>)))"
  by pat_completeness auto
termination
  by (relation "measure (\<lambda>(L, m, a, st). Suc max_llm_retries - a)") (auto simp: max_llm_retries_def)

declare chat_with_retry.simps [simp del]


subsection \<open>Requests and waits of the retries\<close>

lemma backoff_retry: "backoff_duration (Suc attempt) = from_secs 2"
  by (simp add: backoff_duration_def)

lemma retry_requests:
  "attempt \<le> max_llm_retries \<Longrightarrow> chat_with_retry L messages attempt st = (res, st') \<Longrightarrow>
   \<exists>n. n + attempt \<le> max_llm_retries \<and> ls_requests st' = ls_requests st @ replicate (Suc n) messages
     \<and> ls_slept st' = ls_slept st @ replicate n (from_secs 2)"
proof (induction L messages attempt st arbitrary: res st' rule: chat_with_retry.induct)
  case (1 L messages attempt st)
  let ?k = "length (ls_requests st)"
  let ?st1 = "st\<lparr>ls_requests := ls_requests st @ [messages]\<rparr>"
  note res = 1(3) [unfolded chat_with_retry.simps [of L messages attempt st] Let_def]
  show ?case
  proof (cases "le_chat L ?k messages")
    case (Inl e)
    with res 1(2) show ?thesis by (intro exI [of _ 0]) auto
  next
    case (Inr s)
    obtain r sc where c: "collect_stream (le_render L) (le_accepts L) s (ls_screen ?st1) = (r, sc)"
      by fastforce
    show ?thesis
    proof (cases "\<exists>e. r = Inl e \<and> attempt < max_llm_retries
        \<and> is_transient_llm_error (le_json L) (le_unix_now L ?k) e")
      case False
      with res Inr c 1(2) show ?thesis by (intro exI [of _ 0]) (auto split: sum.splits if_splits)
    next
      case True
      then obtain e where r: "r = Inl e" "attempt < max_llm_retries"
        "is_transient_llm_error (le_json L) (le_unix_now L ?k) e" by blast
      let ?st2 = "?st1\<lparr>ls_screen := sc, ls_slept := ls_slept ?st1 @ [backoff_duration (Suc attempt)]\<rparr>"
      have rec: "chat_with_retry L messages (Suc attempt) ?st2 = (res, st')"
        using res Inr c r by simp
      have "\<exists>n. n + Suc attempt \<le> max_llm_retries
          \<and> ls_requests st' = ls_requests ?st2 @ replicate (Suc n) messages
          \<and> ls_slept st' = ls_slept ?st2 @ replicate n (from_secs 2)"
        using 1(1) [OF refl refl Inr c [symmetric] r(1) _ _ rec] r(2,3) by auto
      then obtain n where n: "n + Suc attempt \<le> max_llm_retries"
        "ls_requests st' = ls_requests ?st2 @ replicate (Suc n) messages"
        "ls_slept st' = ls_slept ?st2 @ replicate n (from_secs 2)" by blast
      show ?thesis
        using n by (intro exI [of _ "Suc n"]) (simp add: backoff_retry)
    qed
  qed
qed

subsection \<open>What is shown and what is kept\<close>

primrec chunk_text :: "'j turn_event list \<Rightarrow> utext" where
  "chunk_text [] = []"
| "chunk_text (e # es) = (case e of Ev_Chunk t \<Rightarrow> t | _ \<Rightarrow> []) @ chunk_text es"

abbreviation shown :: "'j screen \<Rightarrow> utext" where "shown sc \<equiv> chunk_text (sc_log sc)"

lemma chunk_text_append [simp]: "chunk_text (xs @ ys) = chunk_text xs @ chunk_text ys"
  by (induction xs) auto

lemma push_shows:
  "sc_live (push_or_drop accepts e sc) \<Longrightarrow>
   sc_live sc \<and> shown (push_or_drop accepts e sc) = shown sc @ chunk_text [e]"
  by (auto simp: push_or_drop_def split: if_splits)

lemma collect_event_shows:
  "collect_event None accepts e (c, p, sc) = (c', p', sc') \<Longrightarrow> sc_live sc' \<Longrightarrow>
   sc_live sc \<and> (\<exists>t. co_text c' = co_text c @ t \<and> shown sc' = shown sc @ t)"
  by (cases e) (auto simp: Let_def show_delta_def dest!: push_shows split: if_splits)

lemma collect_loop_shows:
  "collect_loop None accepts close es first elapsed (c, p, sc) = (r, c', p', sc') \<Longrightarrow> sc_live sc' \<Longrightarrow>
   sc_live sc \<and> (\<exists>t. co_text c' = co_text c @ t \<and> shown sc' = shown sc @ t)"
proof (induction es arbitrary: first elapsed c p sc)
  case Nil
  then show ?case by (auto split: if_splits option.splits)
next
  case (Cons de es)
  obtain d e where de: "de = (d, e)" by fastforce
  obtain c1 p1 sc1 where ev: "collect_event None accepts e (c, p, sc) = (c1, p1, sc1)"
    by (cases "collect_event None accepts e (c, p, sc)") auto
  show ?case
  proof (cases "(c', p', sc') = (c, p, sc)")
    case True
    with Cons.prems(2) show ?thesis by simp
  next
    case False
    have "collect_loop None accepts close es False (elapsed + d) (c1, p1, sc1) = (r, c', p', sc')"
      using Cons.prems(1) False de ev by (auto split: if_splits stream_event.splits)
    from Cons.IH [OF this Cons.prems(2)] collect_event_shows [OF ev]
    show ?thesis by auto
  qed
qed

lemma collect_stream_shows:
  assumes "collect_stream None accepts s sc = (r, sc')" and "sc_live sc'"
  shows "sc_live sc \<and> (\<exists>t. shown sc' = shown sc @ t \<and> (case r of Inr c \<Rightarrow> t = co_text c | Inl _ \<Rightarrow> True))"
proof -
  obtain q c p sc1 where l:
    "collect_loop None accepts (st_close s) (st_events s) True 0 (collected_init, [], sc) = (q, c, p, sc1)"
    by (cases "collect_loop None accepts (st_close s) (st_events s) True 0 (collected_init, [], sc)") auto
  have sc: "sc1 = sc'" using assms(1) l by (auto simp: collect_stream_def split: sum.splits)
  from collect_loop_shows [OF l] assms(2) sc
  obtain t where "sc_live sc" "co_text c = t" "shown sc' = shown sc @ t"
    by (auto simp: collected_init_def)
  with assms(1) l show ?thesis by (auto simp: collect_stream_def split: sum.splits)
qed

lemma retry_shows:
  "chat_with_retry L messages attempt st = (Inr c, st') \<Longrightarrow> le_render L = None \<Longrightarrow> sc_live (ls_screen st') \<Longrightarrow>
   sc_live (ls_screen st) \<and> (\<exists>earlier. shown (ls_screen st') = shown (ls_screen st) @ earlier @ co_text c
     \<and> (length (ls_requests st') = Suc (length (ls_requests st)) \<longrightarrow> earlier = []))"
proof (induction L messages attempt st rule: chat_with_retry.induct)
  case (1 L messages attempt st)
  let ?k = "length (ls_requests st)"
  let ?st1 = "st\<lparr>ls_requests := ls_requests st @ [messages]\<rparr>"
  note res = 1(2) [unfolded chat_with_retry.simps [of L messages attempt st] Let_def]
  from res obtain s where s: "le_chat L ?k messages = Inr s" by (cases "le_chat L ?k messages") auto
  obtain r sc where c: "collect_stream (le_render L) (le_accepts L) s (ls_screen ?st1) = (r, sc)"
    by fastforce
  then have c': "collect_stream None (le_accepts L) s (ls_screen st) = (r, sc)" using 1(3) by simp
  show ?case
  proof (cases r)
    case (Inr x)
    with res s c have "x = c" "st' = ?st1\<lparr>ls_screen := sc\<rparr>" by auto
    with collect_stream_shows [OF c'] 1(4) Inr show ?thesis by (intro conjI exI [of _ "[]"]) auto
  next
    case (Inl e)
    let ?st2 = "?st1\<lparr>ls_screen := sc, ls_slept := ls_slept ?st1 @ [backoff_duration (Suc attempt)]\<rparr>"
    from res s c Inl have go: "attempt < max_llm_retries \<and> is_transient_llm_error (le_json L) (le_unix_now L ?k) e"
      and rec: "chat_with_retry L messages (Suc attempt) ?st2 = (Inr c, st')" by (auto split: if_splits)
    from 1(1) [OF refl refl s c [symmetric] Inl go rec 1(3,4)]
    obtain f where f: "sc_live sc" "shown (ls_screen st') = shown sc @ f @ co_text c" by auto
    with collect_stream_shows [OF c'] obtain t where t: "sc_live (ls_screen st)" "shown sc = shown (ls_screen st) @ t"
      by auto
    have "length (ls_requests st') \<noteq> Suc ?k" using retry_requests [OF _ rec] go by auto
    with f t show ?thesis by (intro conjI exI [of _ "t @ f"]) auto
  qed
qed

text \<open>Whatever the provider answers, one answer of the model costs one to three requests, all with the
  same messages, and two seconds of sleep before each one after the first.\<close>

theorem retry_bounded:
  assumes "chat_with_retry L messages 0 st = (res, st')"
  shows "\<exists>n \<le> 2. ls_requests st' = ls_requests st @ replicate (Suc n) messages
    \<and> ls_slept st' = ls_slept st @ replicate n (from_secs 2)"
  using retry_requests [OF _ assms] by (auto simp: max_llm_retries_def)

text \<open>Without a user registry, a user whose screen stays alive sees the whole stored answer last; it is
  all that is added when no request was retried.\<close>

theorem answer_shown_last:
  assumes "chat_with_retry L messages 0 st = (Inr c, st')" and "le_render L = None"
    and "sc_live (ls_screen st')"
  shows "\<exists>earlier. shown (ls_screen st') = shown (ls_screen st) @ earlier @ co_text c
    \<and> (length (ls_requests st') = Suc (length (ls_requests st)) \<longrightarrow> earlier = [])"
  using retry_shows [OF assms] by blast

text \<open>A connection that breaks after half of the answer, then a whole answer.\<close>

definition half_then_whole :: "nat llm_env" where
  "half_then_whole =
     \<lparr>le_chat = (\<lambda>k _. Inr (if k = 0
          then \<lparr>st_events = [(0, Delta (utf8_bytes (cps ''Hi''))), (0, StreamError ''reset'')], st_close = Some 0\<rparr>
          else \<lparr>st_events = [(0, Delta (utf8_bytes (cps ''Hi you''))), (0, Done EndTurn)], st_close = Some 0\<rparr>)),
      le_json = sample_json, le_unix_now = (\<lambda>_. None), le_render = None, le_accepts = (\<lambda>_. True)\<rparr>"

definition fresh_llm :: "nat llm_state" where
  "fresh_llm = \<lparr>ls_requests = [], ls_slept = [], ls_screen = \<lparr>sc_live = True, sc_log = [], sc_deferred = False\<rparr>\<rparr>"

lemma half_then_whole_run:
  "chat_with_retry half_then_whole [] 0 fresh_llm =
     (Inr (collected_init\<lparr>co_text := cps ''Hi you''\<rparr>),
      \<lparr>ls_requests = [[], []], ls_slept = [from_secs 2],
       ls_screen = \<lparr>sc_live = True, sc_log = [Ev_Chunk (cps ''Hi''), Ev_Chunk (cps ''Hi you'')], sc_deferred = False\<rparr>\<rparr>)"
proof -
  have u: "utf8_chars (utf8_bytes (cps ''Hi'')) = cps ''Hi''" "utf8_chars (utf8_bytes (cps ''Hi you'')) = cps ''Hi you''"
    by (simp_all add: utf8_chars_bytes cps_def scalar_def)
  show ?thesis
    by (simp add: chat_with_retry.simps half_then_whole_def fresh_llm_def collect_stream_def collected_init_def
        u show_delta_def push_or_drop_def total_timeout_def wait_limit_def first_chunk_timeout_def
        chunk_interval_timeout_def is_transient_llm_error_def max_llm_retries_def backoff_duration_def Let_def)
qed

theorem retry_bounded_witness:
  "\<exists>n \<le> 2. ls_requests (snd (chat_with_retry half_then_whole [] 0 fresh_llm)) = replicate (Suc n) []
    \<and> ls_slept (snd (chat_with_retry half_then_whole [] 0 fresh_llm)) = replicate n (from_secs 2)"
  using retry_bounded [OF prod.collapse [symmetric], of half_then_whole "[]" fresh_llm]
  by (simp add: fresh_llm_def)

text \<open>The chunk of the failed attempt stays on the screen: the user reads it twice.\<close>

theorem answer_shown_last_witness:
  "\<exists>earlier. shown (ls_screen (snd (chat_with_retry half_then_whole [] 0 fresh_llm)))
     = earlier @ cps ''Hi you''"
proof -
  have "le_render half_then_whole = None" by (simp add: half_then_whole_def)
  from answer_shown_last [OF half_then_whole_run this] show ?thesis
    unfolding half_then_whole_run by (auto simp: collected_init_def fresh_llm_def)
qed

subsection \<open>An unclosed tag at the end\<close>

lemma render_refs_unclosed: "62 \<notin> set s \<Longrightarrow> render_refs R s = s"
proof -
  assume s: "62 \<notin> set s"
  have "strip_prefix (cps ''/>'') (drop n s) = None" for n
    using s by (auto simp: strip_prefix_def cps_def prefix_def dest: in_set_dropD dest!: arg_cong [of _ _ set])
  then have "strip_prefix (cps ''/>'') (drop (Suc q) (drop i s)) = None" for i q by (metis drop_drop)
  then show ?thesis
    by (subst render_refs.simps) (simp add: Let_def split: option.splits)
qed

text \<open>An answer that ends in an unclosed reference tag is stored with that tail twice: the tail the
  renderer holds back is appended to a text that already contains it.\<close>

theorem unclosed_tag_doubled:
  assumes "utf8_chars x = t @ tail" and "60 \<notin> set t" and "tail = cps ''<ref'' @ u"
    and "60 \<notin> set u" and "62 \<notin> set u"
    and "d1 \<le> first_chunk_timeout" and "d2 \<le> chunk_interval_timeout"
  shows "\<exists>c sc'. collect_stream (Some R) accepts \<lparr>st_events = [(d1, Delta x), (d2, Done r)], st_close = e\<rparr> sc = (Inr c, sc')
    \<and> co_text c = t @ tail @ tail"
proof -
  have tail: "tail = 60 # cps ''ref'' @ u" using assms(3) by (simp add: cps_def)
  have "\<forall>y \<in> set (cps ''ref'' @ u). \<not> y = 60" using assms(4) by (auto simp: cps_def)
  from rposition_last [of "\<lambda>c. c = 60" 60 "cps ''ref'' @ u" t, OF refl this]
  have rp: "rposition (\<lambda>c. c = 60) (t @ tail) = Some (length t)" by (simp add: tail)
  have nogt: "62 \<notin> set tail" using assms(5) by (simp add: tail cps_def)
  have push: "renderer_push R [] (t @ tail) = (t, tail)"
    using rp nogt assms(3) render_plain [OF assms(2), of R] by (simp add: renderer_push_def)
  have out: "render_refs R (t @ tail @ tail) = t @ tail @ tail"
    using render_skip [OF assms(2), of R "tail @ tail"] render_refs_unclosed [of "tail @ tail" R] nogt by simp
  have "\<not> total_timeout < d1" using assms(6) by (simp add: total_timeout_def first_chunk_timeout_def from_secs_def)
  with push out assms(1,6,7) show ?thesis
    by (simp add: collect_stream_def collected_init_def show_delta_def wait_limit_def renderer_flush_def Let_def)
qed

theorem unclosed_tag_doubled_witness:
  "\<exists>c sc'. collect_stream (Some (\<lambda>_. [])) (\<lambda>_. True)
       \<lparr>st_events = [(0, Delta (utf8_bytes (cps ''see <ref''))), (0, Done EndTurn)], st_close = None\<rparr>
       (ls_screen fresh_llm) = (Inr c, sc')
    \<and> co_text c = cps ''see <ref<ref''"
  using unclosed_tag_doubled [of "utf8_bytes (cps ''see <ref'')" "cps ''see ''" "cps ''<ref''" "[]" 0 0
      "\<lambda>_. []" "\<lambda>_. True" EndTurn None "ls_screen fresh_llm"]
  by (simp add: utf8_chars_bytes cps_def scalar_def)

end
