(* ===== verification/Agent_Mail.thy ===== *)
theory Agent_Mail
  imports Tokens
begin

text \<open>
  The inbox of a sub-agent (\<open>agents/delegation.rs\<close>, \<open>api/agent_mail.rs\<close>): before each request the mails
  that fit a token budget are injected, newest first, and the older ones wait.  The rendering of a
  timestamp (chrono) is an argument.
\<close>

record agent_mail =
  ml_id :: utext
  ml_sender :: utext
  ml_text :: utext
  ml_timestamp :: nat

definition injection_budget :: nat where "injection_budget = 2048"

definition render_mail_line :: "(nat \<Rightarrow> utext) \<Rightarrow> agent_mail \<Rightarrow> utext" where
  "render_mail_line T m =
     cps ''- ['' @ [0x6765, 0x81EA] @ cps '' '' @ ml_sender m @ cps ''] '' @ T (ml_timestamp m) @ [10] @ ml_text m"

definition mail_cost :: "(nat \<Rightarrow> utext) \<Rightarrow> agent_mail \<Rightarrow> nat" where
  "mail_cost T m = estimate_tokens (render_mail_line T m) + 1"

text \<open>The loop over the indices from the last one down: \<open>i\<close> mails are left to look at, \<open>start\<close> is
  \<open>kept_start\<close>.\<close>

fun keep_from :: "(nat \<Rightarrow> utext) \<Rightarrow> agent_mail list \<Rightarrow> nat \<Rightarrow> nat \<Rightarrow> nat \<Rightarrow> nat" where
  "keep_from T mails 0 total' start = start"
| "keep_from T mails (Suc i) total' start =
     (let cost = mail_cost T (mails ! i) in
      if injection_budget < total' + cost \<and> start < length mails then start
      else keep_from T mails i (total' + cost) i)"

definition select_within_injection_budget ::
  "(nat \<Rightarrow> utext) \<Rightarrow> agent_mail list \<Rightarrow> agent_mail list \<times> agent_mail list" where
  "select_within_injection_budget T mails =
     (let s = keep_from T mails (length mails) 0 (length mails) in (drop s mails, take s mails))"

primrec join_mails :: "utext list \<Rightarrow> utext" where
  "join_mails [] = []"
| "join_mails (l # ls) = (if ls = [] then l else l @ [10, 10] @ join_mails ls)"

definition render_agent_mail_reminder :: "(nat \<Rightarrow> utext) \<Rightarrow> agent_mail list \<Rightarrow> utext" where
  "render_agent_mail_reminder T mails =
     cps ''<system-reminder>'' @ [10] @ cps ''['' @ [0x6765, 0x81EA, 0x4E3B] @ cps '' agent ''
     @ [0x7684, 0x6D88, 0x606F, 0xFF0C, 0x5171] @ cps '' '' @ cps (show_nat (length mails)) @ cps '' ''
     @ [0x6761, 0x3002, 0x8BF7, 0x5904, 0x7406, 0x8FD9, 0x4E9B, 0x6D88, 0x606F, 0x5E76, 0x7EE7, 0x7EED,
        0x4F60, 0x7684, 0x4EFB, 0x52A1, 0x3002] @ cps '']'' @ [10]
     @ join_mails (map (render_mail_line T) mails) @ [10] @ cps ''</system-reminder>''"

subsection \<open>The budget\<close>

abbreviation cost_of :: "(nat \<Rightarrow> utext) \<Rightarrow> agent_mail list \<Rightarrow> nat" where
  "cost_of T ms \<equiv> sum_list (map (mail_cost T) ms)"

lemma keep_from_spec:
  assumes "i \<le> length mails" "start = i" "total' = cost_of T (drop i mails)"
    and "i < length mails \<longrightarrow> cost_of T (drop i mails) \<le> injection_budget \<or> i = length mails - 1"
  shows "keep_from T mails i total' start \<le> i
    \<and> (mails \<noteq> [] \<longrightarrow> keep_from T mails i total' start < length mails)
    \<and> (keep_from T mails i total' start < length mails \<longrightarrow>
         cost_of T (drop (keep_from T mails i total' start) mails) \<le> injection_budget
         \<or> keep_from T mails i total' start = length mails - 1)
    \<and> (0 < keep_from T mails i total' start \<longrightarrow> mails \<noteq> [] \<longrightarrow>
         injection_budget < cost_of T (drop (keep_from T mails i total' start - 1) mails))"
  using assms
proof (induction i arbitrary: total' start)
  case 0
  then show ?case by auto
next
  case (Suc i)
  have d: "drop i mails = mails ! i # drop (Suc i) mails" using Suc.prems(1) by (simp add: Cons_nth_drop_Suc)
  have c: "cost_of T (drop i mails) = total' + mail_cost T (mails ! i)" using d Suc.prems(3) by simp
  show ?case
  proof (cases "injection_budget < total' + mail_cost T (mails ! i) \<and> Suc i < length mails")
    case True
    then show ?thesis using Suc.prems c by (simp add: Let_def)
  next
    case False
    then have "cost_of T (drop i mails) \<le> injection_budget \<or> i = length mails - 1"
      using c Suc.prems(1) by linarith
    then have "i < length mails \<longrightarrow> cost_of T (drop i mails) \<le> injection_budget \<or> i = length mails - 1" by blast
    from Suc.IH [OF _ refl c [symmetric] this] Suc.prems(1,2) False show ?thesis
      by (auto simp: Let_def)
  qed
qed

text \<open>No mail is lost, reordered or cut: the deferred mails and the kept ones are the batch in its order.  The
  newest mail is always kept; the kept ones fit the budget unless there is only one, and one more
  would not have fitted.\<close>

lemma injection_budget_exact:
  assumes "select_within_injection_budget T mails = (kept, deferred)"
  shows "deferred @ kept = mails \<and> (mails \<noteq> [] \<longrightarrow> kept \<noteq> [])
    \<and> (cost_of T kept \<le> injection_budget \<or> length kept = 1)
    \<and> (deferred = [] \<or> injection_budget < cost_of T (last deferred # kept))"
proof -
  let ?s = "keep_from T mails (length mails) 0 (length mails)"
  have kd: "kept = drop ?s mails" "deferred = take ?s mails"
    using assms by (simp_all add: select_within_injection_budget_def Let_def)
  have spec: "?s \<le> length mails" "mails \<noteq> [] \<longrightarrow> ?s < length mails"
    "?s < length mails \<longrightarrow> cost_of T (drop ?s mails) \<le> injection_budget \<or> ?s = length mails - 1"
    "0 < ?s \<longrightarrow> mails \<noteq> [] \<longrightarrow> injection_budget < cost_of T (drop (?s - 1) mails)"
    using keep_from_spec [of "length mails" mails "length mails" 0 T] by simp_all
  have fits: "cost_of T kept \<le> injection_budget \<or> length kept = 1"
  proof (cases "mails = []")
    case False
    then show ?thesis using spec(2,3) kd(1) by auto
  qed (simp add: kd)
  have next': "deferred = [] \<or> injection_budget < cost_of T (last deferred # kept)"
  proof (cases "deferred = []")
    case False
    then have s: "0 < ?s" "mails \<noteq> []" using kd(2) by auto
    have "drop (?s - 1) mails = mails ! (?s - 1) # drop ?s mails"
      using s spec(1) Cons_nth_drop_Suc [of "?s - 1" mails] by simp
    moreover have "last deferred = mails ! (?s - 1)"
      using s spec(1) by (simp add: kd(2) last_conv_nth)
    ultimately have "drop (?s - 1) mails = last deferred # kept" by (simp add: kd(1))
    with spec(4) s show ?thesis by simp
  qed simp
  show ?thesis using fits next' spec(2) kd by auto
qed

end
