(* ===== verification/Agent_Turn.thy ===== *)
theory Agent_Turn
  imports Agent_Stream Agent_Mail Compaction Tool_Executor Loop_Breaker
begin

text \<open>
  One turn of an agent (\<open>agents/agent/mod.rs\<close>, \<open>tool_phase.rs\<close>, \<open>finalize.rs\<close>, \<open>injections.rs\<close>,
  \<open>exec_marker.rs\<close>, \<open>turn_state.rs\<close>): the loop of requests and tool batches.  The state threads the
  session with its compactions, the requests and the screen, the flags and the loop breaker of the
  turn, the request's messages, the marker file, and logs of what was persisted, run, notified and
  forked.  Providers, tools, clocks, the channel, the attachments' reminder and the other tasks that
  act while a yield is parked are an environment, asked by number where an answer may vary.  Writes
  to the disk succeed.
\<close>

subsection \<open>State and environment\<close>

record turn_flags =
  tf_empty_retries :: nat
  tf_overflow_retries :: nat
  tf_called_memory :: bool
  tf_had_error :: bool
  tf_async_spawned :: bool
  tf_shell_spawned :: bool

definition fresh_flags :: turn_flags where
  "fresh_flags = \<lparr>tf_empty_retries = 0, tf_overflow_retries = 0, tf_called_memory = False, tf_had_error = False,
     tf_async_spawned = False, tf_shell_spawned = False\<rparr>"

definition has_pending :: "turn_flags \<Rightarrow> bool" where
  "has_pending f \<longleftrightarrow> tf_async_spawned f \<or> tf_shell_spawned f"

record turn_result =
  tu_text :: utext
  tu_stop :: stop_reason
  tu_pending_retry :: "utext option"
  tu_has_pending :: bool

datatype turn_error = Llm_Failed llm_error | Loop_Broken loop_break_reason | No_Provider utext

datatype tool_event = Tool_Start utext utext | Tool_End utext utext bool

datatype fork = Memory_Fork "chat_message list" | Skill_Fork "chat_message list"

text \<open>How a parked yield ends: an event is already queued, the waiter is woken with one, or it is
  dropped; while it waits, other tasks change the session.\<close>

datatype 'm park_answer =
    Already_Queued utext
  | Woken "'m session \<Rightarrow> 'm session" utext
  | Dropped "'m session \<Rightarrow> 'm session"

record ('m, 'j) turn_env =
  te_llm :: "'j llm_env"
  te_engine :: engine_env
  te_system :: utext
  te_model :: utext
  te_override :: "utext option"
  te_specs :: "tool_spec list"
  te_provider_id :: "utext \<Rightarrow> utext option"
  te_hook :: persist_hook
  te_exec :: "nat \<Rightarrow> 'j exec_env"
  te_permission :: permission_mode
  te_clock :: "nat \<Rightarrow> nat"
  te_stopped :: "nat \<Rightarrow> bool \<times> bool \<times> bool"
  te_reminder :: "nat \<Rightarrow> 'm session \<Rightarrow> utext option"
  te_deadline :: "delegation_deadline option"
  te_unix :: "nat \<Rightarrow> int"
  te_mails :: "nat \<Rightarrow> agent_mail list"
  te_time_text :: "nat \<Rightarrow> utext"
  te_channel :: bool
  te_sessions_dir :: bool
  te_park :: "nat \<Rightarrow> 'm park_answer option"
  te_silenced :: bool
  te_owner_fqid :: utext

record ('m, 'j) turn_state =
  tn_engine :: "'m engine_state"
  tn_llm :: "'j llm_state"
  tn_flags :: turn_flags
  tn_counter :: loop_counter
  tn_messages :: "chat_message list"
  tn_marker :: "utext option"
  tn_inbox :: "agent_mail list option"
  tn_injections :: "utext list"
  tn_round :: nat
  tn_rows :: "chat_message list"
  tn_saved_tokens :: "nat list"
  tn_ran :: "tool_call list"
  tn_progress :: "tool_event list"
  tn_forks :: "fork list"
  tn_requeued :: "utext list"

abbreviation tn_session :: "('m, 'j) turn_state \<Rightarrow> 'm session" where
  "tn_session st \<equiv> es_session (tn_engine st)"

definition on_session :: "('m session \<Rightarrow> 'm session) \<Rightarrow> ('m, 'j) turn_state \<Rightarrow> ('m, 'j) turn_state" where
  "on_session f st = st\<lparr>tn_engine := (tn_engine st)\<lparr>es_session := f (tn_session st)\<rparr>\<rparr>"

definition show_event :: "('m, 'j) turn_env \<Rightarrow> 'j turn_event \<Rightarrow> ('m, 'j) turn_state \<Rightarrow> ('m, 'j) turn_state" where
  "show_event E e st =
     st\<lparr>tn_llm := (tn_llm st)\<lparr>ls_screen := push_or_drop (le_accepts (te_llm E)) e (ls_screen (tn_llm st))\<rparr>\<rparr>"

definition notify :: "('m, 'j) turn_env \<Rightarrow> tool_event \<Rightarrow> ('m, 'j) turn_state \<Rightarrow> ('m, 'j) turn_state" where
  "notify E e st = (if te_channel E then st\<lparr>tn_progress := tn_progress st @ [e]\<rparr> else st)"

text \<open>\<open>persist_last\<close>, with the rows the hook received.\<close>

definition persist_turn :: "('m, 'j) turn_env \<Rightarrow> ('m, 'j) turn_state \<Rightarrow> ('m, 'j) turn_state" where
  "persist_turn E st =
     (if te_hook E = None \<or> s_history (tn_session st) = [] then st
      else (on_session (persist_last (te_hook E)) st)\<lparr>tn_rows := tn_rows st @ [last (s_history (tn_session st))]\<rparr>)"

definition marker_write :: "('m, 'j) turn_env \<Rightarrow> utext \<Rightarrow> ('m, 'j) turn_state \<Rightarrow> ('m, 'j) turn_state" where
  "marker_write E i st = (if te_sessions_dir E then st\<lparr>tn_marker := Some i\<rparr> else st)"

definition marker_read :: "('m, 'j) turn_env \<Rightarrow> ('m, 'j) turn_state \<Rightarrow> utext option" where
  "marker_read E st = (if te_sessions_dir E then tn_marker st else None)"

definition marker_clear :: "('m, 'j) turn_env \<Rightarrow> ('m, 'j) turn_state \<Rightarrow> ('m, 'j) turn_state" where
  "marker_clear E st = (if te_sessions_dir E then st\<lparr>tn_marker := None\<rparr> else st)"

definition last_user_text :: "'m session \<Rightarrow> utext" where
  "last_user_text s = (case find is_user (rev (s_history s)) of Some m \<Rightarrow> text_content m | None \<Rightarrow> [])"

primrec stop_debug :: "stop_reason \<Rightarrow> utext" where
  "stop_debug EndTurn = cps ''EndTurn''"
| "stop_debug MaxTokens = cps ''MaxTokens''"
| "stop_debug StopSequence = cps ''StopSequence''"
| "stop_debug ContentFilter = cps ''ContentFilter''"
| "stop_debug ToolUse = cps ''ToolUse''"
| "stop_debug StopTimeout = cps ''Timeout''"
| "stop_debug StopContextOverflow = cps ''ContextOverflow''"
| "stop_debug Continue = cps ''Continue''"

definition llm_usage :: "collected \<Rightarrow> utext option \<Rightarrow> utext \<Rightarrow> message_usage option" where
  "llm_usage r provider model =
     (if co_usage r = None \<and> provider = None \<and> model = [] then None
      else let u = co_usage r in
        Some \<lparr>mu_provider = provider, mu_model = Some model,
          mu_input_tokens = (case u of Some x \<Rightarrow> input_tokens x | None \<Rightarrow> None),
          mu_cached_input_tokens = (case u of Some x \<Rightarrow> cached_input_tokens x | None \<Rightarrow> None),
          mu_output_tokens = (case u of Some x \<Rightarrow> output_tokens x | None \<Rightarrow> None),
          mu_reasoning_tokens = (case u of Some x \<Rightarrow> reasoning_tokens x | None \<Rightarrow> None),
          mu_cache_write_tokens = (case u of Some x \<Rightarrow> cache_write_tokens x | None \<Rightarrow> None),
          mu_stop_reason = Some (stop_debug (co_stop r))\<rparr>)"

definition effective_model :: "('m, 'j) turn_env \<Rightarrow> collected \<Rightarrow> utext" where
  "effective_model E r = (case co_model r of Some m \<Rightarrow> m | None \<Rightarrow> te_model E)"

definition response_calls :: "collected \<Rightarrow> tool_call list" where
  "response_calls r = map (decode_call utf8_chars) (co_calls r)"

subsection \<open>Injections before a request\<close>

definition reinject_after_compaction ::
  "('m, 'j) turn_env \<Rightarrow> ('m, 'j) turn_state \<Rightarrow> ('m, 'j) turn_state run" where
  "reinject_after_compaction E st =
     map_run (\<lambda>(res, es). let st1 = st\<lparr>tn_engine := es\<rparr> in
         case res of
           None \<Rightarrow> st1
         | Some compacted \<Rightarrow>
             st1\<lparr>tn_messages :=
               (case te_reminder E (tn_round st) (es_session es) of
                  None \<Rightarrow> compacted
                | Some t \<Rightarrow>
                    if 1 < length compacted then take 1 compacted @ user_text t # drop 1 compacted
                    else compacted @ [user_text t])\<rparr>)
       (compact_until_fit (te_engine E) (te_system E) (te_specs E) False (tn_engine st))"

definition inject_deadline :: "('m, 'j) turn_env \<Rightarrow> ('m, 'j) turn_state \<Rightarrow> ('m, 'j) turn_state" where
  "inject_deadline E st =
     (case te_deadline E of
        Some d \<Rightarrow>
          if 0 < remaining_secs (te_unix E (tn_round st)) d
          then st\<lparr>tn_messages := tn_messages st @ [user_text (render_reminder (te_unix E (tn_round st)) d)]\<rparr>
          else st
      | None \<Rightarrow> st)"

definition inject_inbox :: "('m, 'j) turn_env \<Rightarrow> ('m, 'j) turn_state \<Rightarrow> ('m, 'j) turn_state" where
  "inject_inbox E st =
     (case tn_inbox st of
        None \<Rightarrow> st
      | Some waiting \<Rightarrow>
          let pending = waiting @ te_mails E (tn_round st) in
          if pending = [] then st
          else case select_within_injection_budget (te_time_text E) pending of (kept, deferred) \<Rightarrow>
            st\<lparr>tn_inbox := Some deferred,
               tn_messages := tn_messages st
                 @ (if kept \<noteq> [] then [user_text (render_agent_mail_reminder (te_time_text E) kept)] else [])\<rparr>)"

definition inject_per_round :: "('m, 'j) turn_env \<Rightarrow> ('m, 'j) turn_state \<Rightarrow> ('m, 'j) turn_state" where
  "inject_per_round E st =
     (let st1 = inject_inbox E (inject_deadline E st)
      in st1\<lparr>tn_messages := tn_messages st1 @ map user_text (tn_injections st1), tn_injections := []\<rparr>)"

subsection \<open>A yield waiting in the frame\<close>

definition fill_yield :: "('m, 'j) turn_env \<Rightarrow> utext \<Rightarrow> utext \<Rightarrow> ('m, 'j) turn_state \<Rightarrow> ('m, 'j) turn_state" where
  "fill_yield E i content st =
     persist_turn E (on_session (\<lambda>s. add_tool_result i (cps ''sessions_yield'') content False
       (s\<lparr>s_pending_yield := None\<rparr>)) st)"

definition park_for_yield ::
  "('m, 'j) turn_env \<Rightarrow> 'm park_answer \<Rightarrow> utext \<Rightarrow> ('m, 'j) turn_state \<Rightarrow> bool \<times> ('m, 'j) turn_state" where
  "park_for_yield E a i st =
     (case a of
        Already_Queued content \<Rightarrow> (True, fill_yield E i content st)
      | Dropped others \<Rightarrow> (False, on_session others st)
      | Woken others content \<Rightarrow>
          let st1 = on_session others st in
          (case s_pending_yield (tn_session st1) of
             Some p \<Rightarrow>
               if py_tool_call_id p = i then (True, fill_yield E i content st1)
               else (False, st1\<lparr>tn_requeued := tn_requeued st1 @ [content]\<rparr>)
           | None \<Rightarrow> (False, st1\<lparr>tn_requeued := tn_requeued st1 @ [content]\<rparr>)))"

subsection \<open>The tool batch\<close>

datatype batch_outcome =
    Batch_Continue
  | Batch_End turn_result
  | Batch_Abort turn_error
  | Batch_Superseded

definition assistant_request :: "collected \<Rightarrow> chat_message" where
  "assistant_request r =
     (assistant_text (co_text r))
       \<lparr>cm_tool_calls := Some (response_calls r),
        cm_parts := (case co_reasoning r of
            Some th \<Rightarrow> [Thinking_Part th (co_signature r), Text_Part (co_text r)]
          | None \<Rightarrow> [Text_Part (co_text r)])\<rparr>"

text \<open>The append before the calls.\<close>

definition open_batch :: "('m, 'j) turn_env \<Rightarrow> collected \<Rightarrow> ('m, 'j) turn_state \<Rightarrow> ('m, 'j) turn_state" where
  "open_batch E r st =
     persist_turn E (on_session (add_assistant_with_tools (co_text r) (response_calls r) (co_reasoning r)
         (co_signature r) (Some (effective_model E r))
         (llm_usage r (te_provider_id E (effective_model E r)) (effective_model E r)))
       (st\<lparr>tn_messages := tn_messages st @ [assistant_request r]\<rparr>))"

text \<open>Up to the execution of a call: a crash while the tool runs finds this state.\<close>

definition begin_call :: "('m, 'j) turn_env \<Rightarrow> tool_call \<Rightarrow> ('m, 'j) turn_state \<Rightarrow> ('m, 'j) turn_state" where
  "begin_call E c st =
     (let st1 = (if call_name c = cps ''memory_manage''
                 then st\<lparr>tn_flags := (tn_flags st)\<lparr>tf_called_memory := True\<rparr>\<rparr> else st);
          args = json_from_str (le_json (te_llm E)) (utf8_bytes (call_arguments c))
      in marker_write E (call_id c)
           (notify E (Tool_Start (call_name c) (call_id c))
             (show_event E (Ev_Tool_Call (call_id c) (call_name c) args) st1)))"

definition result_of :: "(utext + tool_result) \<Rightarrow> utext \<times> bool" where
  "result_of r =
     (case r of
        Inr t \<Rightarrow> ((case tr_error t of
                    Some e \<Rightarrow> if tr_output t = [] then cps ''error: '' @ e else tr_output t
                  | None \<Rightarrow> tr_output t), \<not> tr_success t)
      | Inl e \<Rightarrow> (cps ''error: '' @ e, True))"

definition sent_result :: "tool_call \<Rightarrow> utext \<Rightarrow> bool \<Rightarrow> chat_message" where
  "sent_result c content err =
     (text_message ''tool'' content)\<lparr>cm_tool_call_id := Some (call_id c), cm_is_error := Some err\<rparr>"

definition run_call ::
  "('m, 'j) turn_env \<Rightarrow> tool_call \<Rightarrow> ('m, 'j) turn_state \<Rightarrow> ((utext \<times> bool) \<times> ('m, 'j) turn_state) run" where
  "run_call E c st =
     map_run (\<lambda>(r, _).
         let (content, err) = result_of r;
             st1 = marker_clear E (st\<lparr>tn_ran := tn_ran st @ [c]\<rparr>);
             f1 = (if err then (tn_flags st1)\<lparr>tf_had_error := True\<rparr> else tn_flags st1);
             f2 = (if call_name c = cps ''shell'' \<and> \<not> err \<and> prefix (cps ''state=running'') content
                   then f1\<lparr>tf_shell_spawned := True\<rparr> else f1)
         in ((content, err), st1\<lparr>tn_flags := f2\<rparr>))
       (execute_tool (te_exec E (length (tn_ran st))) (Some (te_permission E)) c)"

definition is_yield :: "tool_call \<Rightarrow> bool" where
  "is_yield c \<longleftrightarrow> call_name c = cps ''sessions_yield''"

definition superseded_text :: utext where
  "superseded_text = cps ''A newer sessions_yield call superseded this one before it received any update. Anything that was in flight will be delivered via the newer yield instead.''"

definition record_result ::
  "('m, 'j) turn_env \<Rightarrow> tool_call \<Rightarrow> utext \<Rightarrow> bool \<Rightarrow> ('m, 'j) turn_state \<Rightarrow> ('m, 'j) turn_state" where
  "record_result E c content err st =
     (if is_yield c \<and> \<not> err then
        (let st1 = (case s_pending_yield (tn_session st) of
             None \<Rightarrow> st
           | Some p \<Rightarrow> persist_turn E (on_session (\<lambda>s. add_tool_result (py_tool_call_id p) (cps ''sessions_yield'')
                 superseded_text False (s\<lparr>s_pending_yield := None\<rparr>)) st))
         in on_session (\<lambda>s. s\<lparr>s_pending_yield := Some \<lparr>py_tool_call_id = call_id c, py_implicit = False\<rparr>\<rparr>) st1)
      else persist_turn E (on_session (add_tool_result (call_id c) (call_name c) content err)
             (st\<lparr>tn_messages := tn_messages st @ [sent_result c content err]\<rparr>)))"

definition async_mode :: "('m, 'j) turn_env \<Rightarrow> tool_call \<Rightarrow> bool" where
  "async_mode E c \<longleftrightarrow>
     (let J = le_json (te_llm E) in
      case json_from_str J (utf8_bytes (call_arguments c)) of
        Some v \<Rightarrow> (case json_get J v ''mode'' of Some m \<Rightarrow> json_as_str J m = Some ''async'' | None \<Rightarrow> False)
      | None \<Rightarrow> False)"

definition after_result ::
  "('m, 'j) turn_env \<Rightarrow> tool_call \<Rightarrow> utext \<Rightarrow> bool \<Rightarrow> ('m, 'j) turn_state \<Rightarrow> ('m, 'j) turn_state" where
  "after_result E c content err st =
     (let st1 = notify E (Tool_End (call_name c) (call_id c) (\<not> err))
                  (show_event E (Ev_Tool_Result (call_id c) (call_name c) content err) st)
      in if call_name c = cps ''agent_delegate'' \<and> \<not> err \<and> async_mode E c
         then st1\<lparr>tn_flags := (tn_flags st1)\<lparr>tf_async_spawned := True\<rparr>\<rparr> else st1)"

definition yield_in_frame ::
  "('m, 'j) turn_env \<Rightarrow> collected \<Rightarrow> tool_call \<Rightarrow> ('m, 'j) turn_state \<Rightarrow> batch_outcome \<times> ('m, 'j) turn_state" where
  "yield_in_frame E r c st =
     (case te_park E (length (tn_ran st)) of
        Some a \<Rightarrow>
          (case park_for_yield E a (call_id c) st of
             (True, st1) \<Rightarrow> (Batch_Continue, st1)
           | (False, st1) \<Rightarrow> (Batch_Superseded, st1))
      | None \<Rightarrow>
          (Batch_End \<lparr>tu_text = co_text r, tu_stop = EndTurn, tu_pending_retry = None,
             tu_has_pending = has_pending (tn_flags st)\<rparr>, st))"

fun run_batch ::
  "('m, 'j) turn_env \<Rightarrow> collected \<Rightarrow> tool_call list \<Rightarrow> ('m, 'j) turn_state
    \<Rightarrow> (batch_outcome \<times> ('m, 'j) turn_state) run" where
  "run_batch E r [] st = Ret (Batch_Continue, st)"
| "run_batch E r (c # cs) st =
     bind_run (run_call E c (begin_call E c st)) (\<lambda>((content, err), st1).
       case record_and_check (te_clock E (length (tn_ran st1))) (utf8_bytes (call_name c))
              (utf8_bytes (call_arguments c)) (utf8_bytes content) (tn_counter st1) of
         (Detected reason', k) \<Rightarrow>
           Ret (Batch_Abort (Loop_Broken reason'),
             persist_turn E (on_session (strip_trailing_tool_calls (length cs))
               (on_session (add_tool_result (call_id c) (call_name c) content err)
                 (st1\<lparr>tn_counter := k, tn_messages := tn_messages st1 @ [sent_result c content err]\<rparr>))))
       | (NoLoop, k) \<Rightarrow>
           let st2 = after_result E c content err (record_result E c content err (st1\<lparr>tn_counter := k\<rparr>)) in
           if is_yield c \<and> \<not> err then
             Ret (yield_in_frame E r c (on_session (strip_trailing_tool_calls (length cs)) st2))
           else if max_tool_calls (config k) \<le> total_calls k then
             Ret (Batch_Abort (Loop_Broken (MaxCalls (total_calls k) (max_tool_calls (config k)))),
               on_session (strip_trailing_tool_calls (length cs)) st2)
           else run_batch E r cs st2)"

definition execute_tool_batch ::
  "('m, 'j) turn_env \<Rightarrow> collected \<Rightarrow> ('m, 'j) turn_state \<Rightarrow> (batch_outcome \<times> ('m, 'j) turn_state) run" where
  "execute_tool_batch E r st = run_batch E r (response_calls r) (open_batch E r st)"

end
