(* ===== verification/Agent_Config.thy ===== *)
theory Agent_Config
  imports Tool_Filter Truncation
begin

text \<open>
  The capability filters of an agent (\<open>config/filters.rs\<close>, \<open>config/sub_agent.rs\<close>) and the tools they
  leave it (\<open>allowed_tools\<close> of \<open>agents/agent/tool_filter.rs\<close>).
\<close>

datatype name_filter = All_Keyword "string list" | Allow "string list" | Deny "string list"

definition all_names :: name_filter where "all_names = All_Keyword [''all'']"

primrec filter_allows :: "name_filter \<Rightarrow> string \<Rightarrow> bool" where
  "filter_allows (All_Keyword l) name \<longleftrightarrow> ''all'' \<in> set l \<or> name \<in> set l"
| "filter_allows (Allow l) name \<longleftrightarrow> name \<in> set l"
| "filter_allows (Deny except) name \<longleftrightarrow> name \<notin> set except"

fun filter_is_all :: "name_filter \<Rightarrow> bool" where
  "filter_is_all (All_Keyword l) = (''all'' \<in> set l)"
| "filter_is_all _ = False"

datatype agent_isolation = Shared | Worktree

record sub_agent_config =
  sa_name :: utext
  sa_system_prompt :: utext
  sa_tools :: name_filter
  sa_skills :: name_filter
  sa_mcp :: name_filter
  sa_max_tool_calls :: "nat option"
  sa_description :: "utext option"
  sa_model :: "utext option"
  sa_isolation :: agent_isolation
  sa_timeout :: "nat option"

definition allows_tool :: "sub_agent_config \<Rightarrow> string \<Rightarrow> bool" where
  "allows_tool c name = filter_allows (sa_tools c) name"

definition allows_skill :: "sub_agent_config \<Rightarrow> string \<Rightarrow> bool" where
  "allows_skill c name = filter_allows (sa_skills c) name"

definition allows_mcp :: "sub_agent_config \<Rightarrow> string \<Rightarrow> bool" where
  "allows_mcp c server = filter_allows (sa_mcp c) server"

text \<open>Slicing a string at a byte that is not a character boundary panics.\<close>

definition agent_description :: "sub_agent_config \<Rightarrow> utext run" where
  "agent_description c =
     (case sa_description c of
        Some d \<Rightarrow> Ret d
      | None \<Rightarrow>
          if 80 < byte_len (sa_system_prompt c) then map_run fst (byte_split 80 (sa_system_prompt c))
          else Ret (sa_system_prompt c))"

text \<open>A registered tool: its name and the MCP server it comes from, if any.\<close>

record registered_tool =
  rt_name :: string
  rt_mcp :: "string option"

definition keeps_tool :: "sub_agent_config \<Rightarrow> registered_tool \<Rightarrow> bool" where
  "keeps_tool c t \<longleftrightarrow>
     (if allows_tool c (rt_name t) then True
      else case rt_mcp t of Some server \<Rightarrow> allows_mcp c server | None \<Rightarrow> False)"

definition allowed_tools :: "sub_agent_config \<Rightarrow> registered_tool list \<Rightarrow> registered_tool list" where
  "allowed_tools c tools = filter (keeps_tool c) tools"

subsection \<open>Properties\<close>

lemma is_all_allows: "filter_is_all f \<Longrightarrow> filter_allows f name"
  by (cases f) auto

text \<open>Without a description, a prompt of more than 80 bytes whose byte 80 is inside a character (a prompt in
  Chinese, say) panics.\<close>

lemma description_panics:
  "sa_description c = None \<Longrightarrow> agent_description c = Panic \<longleftrightarrow>
     80 < byte_len (sa_system_prompt c) \<and> \<not> is_char_boundary (sa_system_prompt c) 80"
  by (auto simp: agent_description_def is_char_boundary_def)

text \<open>The filters of an agent are joined, not intersected: the tools of an MCP server survive although the
  tool filter rejects each of them, and a server the MCP filter rejects keeps every tool the tool
  filter accepts.  In particular, with the default tool filter the MCP filter has no effect at all.\<close>

theorem mcp_filter_joined:
  "(t \<in> set (allowed_tools c tools) \<longleftrightarrow> t \<in> set tools
     \<and> (allows_tool c (rt_name t) \<or> (\<exists>server. rt_mcp t = Some server \<and> allows_mcp c server)))
   \<and> allowed_tools (c\<lparr>sa_tools := all_names\<rparr>) tools = tools"
proof
  have "keeps_tool (c\<lparr>sa_tools := all_names\<rparr>) = (\<lambda>_. True)"
    by (simp add: fun_eq_iff keeps_tool_def allows_tool_def all_names_def)
  then show "allowed_tools (c\<lparr>sa_tools := all_names\<rparr>) tools = tools" by (simp add: allowed_tools_def)
qed (auto simp: allowed_tools_def keeps_tool_def split: option.splits)

end
