(* ===== verification/Agent_Loop.thy ===== *)
theory Agent_Loop
  imports Agent_Turn Agent_Config
begin

text \<open>
  The loop of a turn: its preparation, one round (\<open>run_inner\<close> of \<open>agents/agent/mod.rs\<close>), its end
  (\<open>agents/agent/finalize.rs\<close>) and the recovery of an interrupted one
  (\<open>agents/agent/run_recovery.rs\<close>).  The loop is a partial function: that it ends is proved when the
  loop breaker has a limit.
\<close>

subsection \<open>The end of a turn\<close>

definition quiet_result :: turn_result where
  "quiet_result = \<lparr>tu_text = [], tu_stop = EndTurn, tu_pending_retry = None, tu_has_pending = False\<rparr>"

definition finalize_turn ::
  "('m, 'j) turn_env \<Rightarrow> collected \<Rightarrow> ('m, 'j) turn_state \<Rightarrow> turn_result \<times> ('m, 'j) turn_state" where
  "finalize_turn E r st =
     (let msg = (assistant_text (co_text r))\<lparr>cm_model := Some (effective_model E r),
            cm_usage := llm_usage r (te_provider_id E (effective_model E r)) (effective_model E r)\<rparr>;
          st1 = (if has_pending (tn_flags st) \<and> \<not> te_silenced E \<and> sc_live (ls_screen (tn_llm st))
                 then st\<lparr>tn_llm := (tn_llm st)\<lparr>ls_screen := (ls_screen (tn_llm st))\<lparr>sc_deferred := True\<rparr>\<rparr>\<rparr>
                 else st);
          st2 = persist_turn E (on_session (push_message msg) (show_event E (Ev_Done (co_text r)) st1));
          main = (s_parent (tn_session st2) = None);
          memory = (if \<not> tf_called_memory (tn_flags st) \<and> main then [Memory_Fork (tn_messages st @ [msg])] else []);
          skill = (if \<not> tf_had_error (tn_flags st) \<and> 5 \<le> total_calls (tn_counter st) \<and> main
                     \<and> te_owner_fqid E \<noteq> [] then [Skill_Fork (tn_messages st @ [msg])] else [])
      in (\<lparr>tu_text = co_text r, tu_stop = co_stop r, tu_pending_retry = None,
            tu_has_pending = has_pending (tn_flags st)\<rparr>,
          st2\<lparr>tn_forks := tn_forks st2 @ memory @ skill\<rparr>))"

definition overflow_text :: utext where
  "overflow_text = [0x26A0, 0xFE0F] @ cps '' '' @ [0x5F53, 0x524D, 0x5BF9, 0x8BDD, 0x5DF2, 0x8D85, 0x51FA, 0x8BE5,
     0x6A21, 0x578B, 0x7684, 0x4E0A, 0x4E0B, 0x6587, 0x4E0A, 0x9650, 0xFF0C, 0x538B, 0x7F29, 0x540E, 0x4ECD, 0x65E0,
     0x6CD5, 0x5BB9, 0x7EB3, 0x3002, 0x8BF7, 0x4F7F, 0x7528] @ cps '' /new '' @ [0x5F00, 0x542F, 0x65B0, 0x4F1A,
     0x8BDD, 0xFF0C, 0x6216, 0x7CBE, 0x7B80, 0x540E, 0x91CD, 0x8BD5, 0x3002]"

definition max_overflow_retries :: nat where "max_overflow_retries = 3"
definition max_empty_retries :: nat where "max_empty_retries = 3"

datatype overflow_recovery = Not_Overflow | Compacted "chat_message list" | Give_Up turn_result

definition handle_context_overflow ::
  "('m, 'j) turn_env \<Rightarrow> bool \<Rightarrow> ('m, 'j) turn_state \<Rightarrow> (overflow_recovery \<times> ('m, 'j) turn_state) run" where
  "handle_context_overflow E is_overflow st =
     (if \<not> is_overflow then Ret (Not_Overflow, st)
      else
        let n = Suc (tf_overflow_retries (tn_flags st));
            st1 = st\<lparr>tn_flags := (tn_flags st)\<lparr>tf_overflow_retries := n\<rparr>\<rparr>
        in bind_run (if n \<le> max_overflow_retries
             then compact_until_fit (te_engine E) (te_system E) (te_specs E) True (tn_engine st1)
             else Ret (None, tn_engine st1)) (\<lambda>(recovered, es). let st2 = st1\<lparr>tn_engine := es\<rparr> in
               case recovered of
                 Some compacted \<Rightarrow> Ret (Compacted compacted, st2)
               | None \<Rightarrow> Ret (Give_Up \<lparr>tu_text = overflow_text, tu_stop = StopContextOverflow,
                     tu_pending_retry = None, tu_has_pending = False\<rparr>,
                   persist_turn E (on_session (add_assistant overflow_text) st2))))"

definition msg_empty_default :: utext where
  "msg_empty_default = [0x26A0, 0xFE0F] @ cps '' '' @ [0x6A21, 0x578B, 0x591A, 0x6B21, 0x8FD4, 0x56DE, 0x7A7A, 0x56DE,
     0x590D, 0xFF0C, 0x672A, 0x80FD, 0x751F, 0x6210, 0x6709, 0x6548, 0x5185, 0x5BB9, 0x3002, 10, 10, 0x8BF7, 0x91CD,
     0x65B0, 0x5B8C, 0x6574, 0x63CF, 0x8FF0, 0x4F60, 0x7684, 0x95EE, 0x9898, 0x540E, 0x53D1, 0x9001, 0xFF1B, 0x82E5,
     0x521A, 0x53D1, 0x8FC7, 0x56FE, 0xFF0C, 0x8BF7, 0x914D, 0x4E0A, 0x6587, 0x5B57, 0x8BF4, 0x660E, 0x3002, 10,
     0x4E5F, 0x53EF, 0x4F7F, 0x7528] @ cps '' /model '' @ [0x5207, 0x6362, 0x6A21, 0x578B, 0x540E, 0x91CD, 0x8BD5, 0x3002]"

definition msg_empty_response :: "utext option \<Rightarrow> utext" where
  "msg_empty_response ov =
     (case ov of
        Some m \<Rightarrow> if m \<noteq> [] then
            [0x26A0, 0xFE0F] @ cps '' '' @ [0x6A21, 0x578B] @ cps '' '' @ [96] @ m @ [96] @ cps '' ''
            @ [0x591A, 0x6B21, 0x8FD4, 0x56DE, 0x7A7A, 0x56DE, 0x590D, 0xFF0C, 0x672A, 0x80FD, 0x751F, 0x6210, 0x6709,
               0x6548, 0x5185, 0x5BB9, 0x3002, 10, 10, 0x5F53, 0x524D, 0x4F1A, 0x8BDD, 0x5DF2, 0x9501, 0x5B9A, 0x8BE5,
               0x6A21, 0x578B, 0xFF08, 0x4E0D, 0x4F1A, 0x81EA, 0x52A8, 0x964D, 0x7EA7, 0xFF09, 0x3002, 0x53EF, 0x9009,
               0xFF1A, 10, 0x2022] @ cps '' '' @ [0x91CD, 0x65B0, 0x5B8C, 0x6574, 0x63CF, 0x8FF0, 0x95EE, 0x9898, 0x540E,
               0x53D1, 0x9001, 0xFF08, 0x52FF, 0x53EA, 0x53D1, 0x300C, 0x7EE7, 0x7EED, 0x300D, 0xFF09, 10, 0x2022]
            @ cps '' '' @ [96] @ cps ''/model off'' @ [96] @ cps '' '' @ [0x6062, 0x590D, 0x9ED8, 0x8BA4, 0x8DEF, 0x7531,
               10, 0x2022] @ cps '' '' @ [96] @ cps ''/model <'' @ [0x540D, 0x79F0] @ cps ''>'' @ [96] @ cps '' ''
            @ [0x5207, 0x6362, 0x5176, 0x4ED6, 0x6A21, 0x578B]
          else msg_empty_default
      | None \<Rightarrow> msg_empty_default)"

subsection \<open>One round\<close>

datatype round_outcome = Next_Round | Turn_Over "turn_error + turn_result"

definition note_usage :: "('m, 'j) turn_env \<Rightarrow> collected \<Rightarrow> ('m, 'j) turn_state \<Rightarrow> ('m, 'j) turn_state" where
  "note_usage E r st =
     (case co_usage r of
        None \<Rightarrow> st
      | Some u \<Rightarrow>
          let n = (\<lambda>x. case x of Some k \<Rightarrow> k | None \<Rightarrow> 0);
              st1 = on_session (\<lambda>s. s\<lparr>s_tracker := update_from_usage (n (input_tokens u)) (n (output_tokens u))
                      (n (cached_input_tokens u)) (s_tracker s)\<rparr>) st
          in if te_hook E = None then st1
             else st1\<lparr>tn_saved_tokens := tn_saved_tokens st1 @ [total_tokens (s_tracker (tn_session st1))]\<rparr>)"

definition empty_answer ::
  "('m, 'j) turn_env \<Rightarrow> collected \<Rightarrow> ('m, 'j) turn_state \<Rightarrow> round_outcome \<times> ('m, 'j) turn_state" where
  "empty_answer E r st =
     (let n = Suc (tf_empty_retries (tn_flags st));
          st1 = st\<lparr>tn_flags := (tn_flags st)\<lparr>tf_empty_retries := n\<rparr>\<rparr>
      in if max_empty_retries < n then
           let msg = msg_empty_response (te_override E);
               st2 = persist_turn E (on_session (add_assistant msg) (show_event E (Ev_Done msg) st1))
           in (Turn_Over (Inr \<lparr>tu_text = msg, tu_stop = co_stop r,
                 tu_pending_retry = Some (last_user_text (tn_session st2)), tu_has_pending = False\<rparr>), st2)
         else (Next_Round, st1))"

definition batch_round :: "collected \<Rightarrow> batch_outcome \<times> ('m, 'j) turn_state \<Rightarrow> round_outcome \<times> ('m, 'j) turn_state" where
  "batch_round r = (\<lambda>(b, st).
     (case b of
        Batch_Continue \<Rightarrow> Next_Round
      | Batch_End tr \<Rightarrow> Turn_Over (Inr tr)
      | Batch_Superseded \<Rightarrow> Turn_Over (Inr \<lparr>tu_text = co_text r, tu_stop = EndTurn, tu_pending_retry = None,
          tu_has_pending = has_pending (tn_flags st)\<rparr>)
      | Batch_Abort e \<Rightarrow> Turn_Over (Inl e), st))"

definition after_response ::
  "('m, 'j) turn_env \<Rightarrow> collected \<Rightarrow> ('m, 'j) turn_state \<Rightarrow> (round_outcome \<times> ('m, 'j) turn_state) run" where
  "after_response E r st =
     bind_run (handle_context_overflow E (co_stop r = StopContextOverflow) st) (\<lambda>(o', st1).
       case o' of
         Compacted ms \<Rightarrow> Ret (Next_Round, st1\<lparr>tn_messages := ms\<rparr>)
       | Give_Up tr \<Rightarrow> Ret (Turn_Over (Inr tr), st1)
       | Not_Overflow \<Rightarrow>
           if response_calls r = [] then
             if trim (co_text r) = [] then Ret (empty_answer E r st1)
             else Ret (case finalize_turn E r st1 of (tr, st2) \<Rightarrow> (Turn_Over (Inr tr), st2))
           else map_run (batch_round r) (execute_tool_batch E r st1))"

definition turn_round ::
  "('m, 'j) turn_env \<Rightarrow> ('m, 'j) turn_state \<Rightarrow> (round_outcome \<times> ('m, 'j) turn_state) run" where
  "turn_round E st =
     (case te_stopped E (tn_round st) of (shutdown, stream_cancelled, cancelled) \<Rightarrow>
        if shutdown \<or> (sc_live (ls_screen (tn_llm st)) \<and> stream_cancelled) \<or> cancelled
        then Ret (Turn_Over (Inr quiet_result), st)
        else bind_run (reinject_after_compaction E st) (\<lambda>st1.
          let st2 = (inject_per_round E st1)\<lparr>tn_round := Suc (tn_round st)\<rparr> in
          case chat_with_retry (te_llm E) (tn_messages st2) 0 (tn_llm st2) of
            (Inl e, l) \<Rightarrow> Ret (Turn_Over (Inl (Llm_Failed e)), st2\<lparr>tn_llm := l\<rparr>)
          | (Inr r, l) \<Rightarrow> after_response E r (note_usage E r (st2\<lparr>tn_llm := l\<rparr>))))"

partial_function (option) turn_loop ::
  "('m, 'j) turn_env \<Rightarrow> ('m, 'j) turn_state \<Rightarrow> ((turn_error + turn_result) \<times> ('m, 'j) turn_state) run option" where
  "turn_loop E st =
     (case turn_round E st of
        Panic \<Rightarrow> Some Panic
      | Ret (o', st1) \<Rightarrow>
          (case o' of Turn_Over res \<Rightarrow> Some (Ret (res, st1)) | Next_Round \<Rightarrow> turn_loop E st1))"

subsection \<open>Preparation\<close>

text \<open>What the runtime knows when a turn starts: the registered tools, the agent's filters, the models.\<close>

record turn_setup =
  su_tools :: "registered_tool list"
  su_config :: sub_agent_config
  su_allowlist :: "string list option"
  su_channel :: "channel_info option"
  su_by_model :: "utext \<Rightarrow> utext option"
  su_default_model :: "utext + utext"
  su_policy :: "utext \<Rightarrow> media_policy option"
  su_spec :: "string \<Rightarrow> tool_spec"
  su_breaker :: loop_breaker_config
  su_shell_summary :: "(utext \<times> bool) option"
  su_hot_switch :: bool

definition resolve_model :: "('m, 'j) turn_env \<Rightarrow> turn_setup \<Rightarrow> utext + utext" where
  "resolve_model E S =
     (case te_override E of
        Some m \<Rightarrow> (case su_by_model S m of
            Some i \<Rightarrow> Inr i
          | None \<Rightarrow> Inl (cps ''model '' @ [39] @ m @ [39] @ cps '' not found in registry''))
      | None \<Rightarrow> su_default_model S)"

definition restrict_tools :: "string list \<Rightarrow> 'j exec_env \<Rightarrow> 'j exec_env" where
  "restrict_tools names X = X\<lparr>ex_allowed := filter (\<lambda>t. td_name t \<in> set (map cps names)) (ex_allowed X)\<rparr>"

definition prepare_turn ::
  "('m, 'j) turn_env \<Rightarrow> turn_setup \<Rightarrow> ('m, 'j) turn_state
    \<Rightarrow> turn_error + (('m, 'j) turn_env \<times> ('m, 'j) turn_state)" where
  "prepare_turn E S st =
     (let scoped = filter_turn_scoped_tools (su_allowlist S) (tn_session st) (su_channel S)
            (map rt_name (allowed_tools (su_config S) (su_tools S)))
      in case resolve_model E S of
        Inl e \<Rightarrow> Inl (No_Provider e)
      | Inr model \<Rightarrow>
          let counter = (case sa_max_tool_calls (su_config S) of
                Some n \<Rightarrow> new_counter_with_max (su_breaker S) n | None \<Rightarrow> new_counter (su_breaker S));
              fs = en_fs (te_engine E);
              st1 = on_session (\<lambda>s. if is_fresh (s_tracker s)
                then s\<lparr>s_tracker := seed_from_history fs (te_system E) (s_history s) (s_tracker s)\<rparr> else s) st;
              ms = sanitize_history (system_text (te_system E) # s_history (tn_session st1));
              names = (case su_policy S model of
                Some p \<Rightarrow> filter_modality_redundant_tools fs p ms scoped | None \<Rightarrow> scoped);
              specs = map (su_spec S) names;
              sent = map ts_name specs;
              ms' = fold_absent_tool sent (cps ''send_media'') media_label
                      (fold_absent_tool sent (cps ''send_message'') message_label ms)
          in Inr (E\<lparr>te_model := model, te_specs := specs, te_exec := (\<lambda>k. restrict_tools names (te_exec E k))\<rparr>,
                  st1\<lparr>tn_messages := ms', tn_counter := counter, tn_flags := fresh_flags\<rparr>))"

definition run_inner ::
  "('m, 'j) turn_env \<Rightarrow> turn_setup \<Rightarrow> ('m, 'j) turn_state
    \<Rightarrow> ((turn_error + turn_result) \<times> ('m, 'j) turn_state) run option" where
  "run_inner E S st =
     (case prepare_turn E S st of
        Inl e \<Rightarrow> Some (Ret (Inl e, st))
      | Inr (E', st') \<Rightarrow> turn_loop E' st')"

subsection \<open>Recovery\<close>

text \<open>The walk back from the end: the calls without a result, whether there are results after them, and
  whether a user message comes first.\<close>

fun recovery_walk :: "chat_message list \<Rightarrow> utext set \<Rightarrow> bool \<Rightarrow> tool_call list \<times> bool \<times> bool" where
  "recovery_walk [] completed tools = ([], tools, False)"
| "recovery_walk (m # ms) completed tools =
     (if is_tool m then
        recovery_walk ms (case cm_tool_call_id m of Some t \<Rightarrow> insert t completed | None \<Rightarrow> completed) True
      else if is_assistant m then (filter (\<lambda>c. call_id c \<notin> completed) (calls_of m), tools, False)
      else ([], tools, is_user m))"

definition interrupted_restart_cause :: "bool \<Rightarrow> utext" where
  "interrupted_restart_cause hot = (if hot then cps ''a deployment hot-switch restart'' else cps ''a daemon crash/restart'')"

definition interrupted_text :: "bool \<Rightarrow> utext" where
  "interrupted_text hot =
     cps ''[recovery] This tool call was in flight during '' @ interrupted_restart_cause hot @ cps '' '' @ [0x2014]
     @ cps '' its completion status is unknown and it will not be automatically re-executed, since re-running it could duplicate side effects it may have already produced. Check the actual state (e.g. the relevant files, git log, or logs) before deciding whether to retry.''"

definition interrupted_result ::
  "('m, 'j) turn_env \<Rightarrow> turn_setup \<Rightarrow> utext option \<Rightarrow> tool_call \<Rightarrow> utext \<times> bool" where
  "interrupted_result E S interrupted c =
     (case (if interrupted = Some (call_id c) \<and> call_name c = cps ''shell'' \<and> te_sessions_dir E
            then su_shell_summary S else None) of
        Some (d, err) \<Rightarrow> (cps ''[recovery] '' @ d, err)
      | None \<Rightarrow> (interrupted_text (su_hot_switch S), True))"

definition close_interrupted ::
  "('m, 'j) turn_env \<Rightarrow> turn_setup \<Rightarrow> utext option \<Rightarrow> tool_call \<Rightarrow> ('m, 'j) turn_state \<Rightarrow> ('m, 'j) turn_state" where
  "close_interrupted E S interrupted c st =
     (case interrupted_result E S interrupted c of (msg, err) \<Rightarrow>
        persist_turn E (on_session (add_tool_result (call_id c) (call_name c) msg err) st))"

definition close_orphans ::
  "('m, 'j) turn_env \<Rightarrow> turn_setup \<Rightarrow> tool_call list \<Rightarrow> ('m, 'j) turn_state \<Rightarrow> ('m, 'j) turn_state" where
  "close_orphans E S pending st =
     (let interrupted = marker_read E st;
          st1 = fold (close_interrupted E S interrupted) pending st
      in if list_ex (\<lambda>c. interrupted = Some (call_id c)) pending then marker_clear E st1 else st1)"

text \<open>\<open>Inr None\<close>: nothing to recover.\<close>

definition run_recovery ::
  "('m, 'j) turn_env \<Rightarrow> turn_setup \<Rightarrow> ('m, 'j) turn_state
    \<Rightarrow> ((turn_error + turn_result option) \<times> ('m, 'j) turn_state) run option" where
  "run_recovery E S st =
     (let inner = (\<lambda>s. map_option (map_run (\<lambda>(res, s'). (map_sum id Some res, s'))) (run_inner E S s)) in
      if s_history (tn_session st) = [] then Some (Ret (Inr None, st))
      else case recovery_walk (rev (s_history (tn_session st))) {} False of (pending, tools, user) \<Rightarrow>
        if pending = [] \<and> \<not> tools \<and> \<not> user then Some (Ret (Inr None, st))
        else if length pending = 1 \<and> is_yield (hd pending)
            \<and> (case s_pending_yield (tn_session st) of Some p \<Rightarrow> py_tool_call_id p = call_id (hd pending) | None \<Rightarrow> False)
        then (case te_park E (length (tn_ran st)) of
            Some a \<Rightarrow>
              (case park_for_yield E a (call_id (hd pending)) st of
                 (True, st1) \<Rightarrow> inner st1
               | (False, st1) \<Rightarrow> Some (Ret (Inr (Some quiet_result), st1)))
          | None \<Rightarrow> Some (Ret (Inr None, st)))
        else inner (if pending \<noteq> [] then close_orphans E S pending st else st))"

definition run_turn ::
  "('m, 'j) turn_env \<Rightarrow> turn_setup \<Rightarrow> ('m, 'j) turn_state
    \<Rightarrow> ((turn_error + turn_result) \<times> ('m, 'j) turn_state) run option" where
  "run_turn E S st =
     (case run_recovery E S st of
        None \<Rightarrow> None
      | Some Panic \<Rightarrow> Some Panic
      | Some (Ret (Inl e, st1)) \<Rightarrow> Some (Ret (Inl e, st1))
      | Some (Ret (Inr (Some tr), st1)) \<Rightarrow> Some (Ret (Inr tr, st1))
      | Some (Ret (Inr None, st1)) \<Rightarrow> run_inner E S st1)"

end
