(* ===== verification/Agent_Turn_Facts.thy ===== *)
theory Agent_Turn_Facts
  imports Agent_Loop
begin

text \<open>
  What a turn keeps and how long it lasts.  The first part says which fields the small steps leave
  alone; the measure of the loop follows from them.
\<close>

subsection \<open>Fields the steps leave alone\<close>

named_theorems turn_frame "fields that a step of the turn leaves unchanged"

lemma on_session_frame [turn_frame]:
  "tn_counter (on_session f st) = tn_counter st" "tn_flags (on_session f st) = tn_flags st"
  "tn_llm (on_session f st) = tn_llm st" "tn_messages (on_session f st) = tn_messages st"
  "tn_ran (on_session f st) = tn_ran st" "tn_rows (on_session f st) = tn_rows st"
  "tn_marker (on_session f st) = tn_marker st" "tn_round (on_session f st) = tn_round st"
  "tn_session (on_session f st) = f (tn_session st)"
  by (simp_all add: on_session_def)

lemma persist_turn_frame [turn_frame]:
  "tn_counter (persist_turn E st) = tn_counter st" "tn_flags (persist_turn E st) = tn_flags st"
  "tn_llm (persist_turn E st) = tn_llm st" "tn_messages (persist_turn E st) = tn_messages st"
  "tn_ran (persist_turn E st) = tn_ran st" "tn_marker (persist_turn E st) = tn_marker st"
  "tn_round (persist_turn E st) = tn_round st"
  by (simp_all add: persist_turn_def turn_frame)

lemma persist_last_keeps [turn_frame]:
  "s_history (persist_last hook s) = s_history s" "s_pending_yield (persist_last hook s) = s_pending_yield s"
  "s_parent (persist_last hook s) = s_parent s"
  by (simp_all add: persist_last_def split: option.split)

lemma persist_turn_session [turn_frame]:
  "s_history (tn_session (persist_turn E st)) = s_history (tn_session st)"
  "s_pending_yield (tn_session (persist_turn E st)) = s_pending_yield (tn_session st)"
  by (simp_all add: persist_turn_def turn_frame)

lemma show_event_frame [turn_frame]:
  "tn_counter (show_event E e st) = tn_counter st" "tn_flags (show_event E e st) = tn_flags st"
  "tn_engine (show_event E e st) = tn_engine st" "tn_messages (show_event E e st) = tn_messages st"
  "tn_ran (show_event E e st) = tn_ran st" "tn_rows (show_event E e st) = tn_rows st"
  "tn_marker (show_event E e st) = tn_marker st" "tn_round (show_event E e st) = tn_round st"
  "ls_requests (tn_llm (show_event E e st)) = ls_requests (tn_llm st)"
  by (simp_all add: show_event_def)

lemma notify_frame [turn_frame]:
  "tn_counter (notify E e st) = tn_counter st" "tn_flags (notify E e st) = tn_flags st"
  "tn_engine (notify E e st) = tn_engine st" "tn_messages (notify E e st) = tn_messages st"
  "tn_ran (notify E e st) = tn_ran st" "tn_rows (notify E e st) = tn_rows st"
  "tn_marker (notify E e st) = tn_marker st" "tn_llm (notify E e st) = tn_llm st"
  "tn_round (notify E e st) = tn_round st"
  by (simp_all add: notify_def)

lemma marker_frame [turn_frame]:
  "tn_counter (marker_write E i st) = tn_counter st" "tn_flags (marker_write E i st) = tn_flags st"
  "tn_engine (marker_write E i st) = tn_engine st" "tn_messages (marker_write E i st) = tn_messages st"
  "tn_ran (marker_write E i st) = tn_ran st" "tn_rows (marker_write E i st) = tn_rows st"
  "tn_llm (marker_write E i st) = tn_llm st"
  "tn_counter (marker_clear E st) = tn_counter st" "tn_flags (marker_clear E st) = tn_flags st"
  "tn_engine (marker_clear E st) = tn_engine st" "tn_messages (marker_clear E st) = tn_messages st"
  "tn_ran (marker_clear E st) = tn_ran st" "tn_rows (marker_clear E st) = tn_rows st"
  "tn_llm (marker_clear E st) = tn_llm st"
  by (simp_all add: marker_write_def marker_clear_def)

text \<open>The retries, which only the loop changes, and the requests.\<close>

abbreviation empties :: "('m, 'j) turn_state \<Rightarrow> nat" where "empties st \<equiv> tf_empty_retries (tn_flags st)"
abbreviation overflows :: "('m, 'j) turn_state \<Rightarrow> nat" where "overflows st \<equiv> tf_overflow_retries (tn_flags st)"
abbreviation requests :: "('m, 'j) turn_state \<Rightarrow> nat" where "requests st \<equiv> length (ls_requests (tn_llm st))"

definition same_retries :: "('m, 'j) turn_state \<Rightarrow> ('m, 'j) turn_state \<Rightarrow> bool" where
  "same_retries st st' \<longleftrightarrow> empties st' = empties st \<and> overflows st' = overflows st \<and> requests st' = requests st"

lemma same_retries_refl [simp]: "same_retries st st"
  by (simp add: same_retries_def)

lemma same_retries_trans: "same_retries a b \<Longrightarrow> same_retries b c \<Longrightarrow> same_retries a c"
  by (simp add: same_retries_def)

lemma begin_call_frame [turn_frame]:
  "tn_counter (begin_call E c st) = tn_counter st" "tn_engine (begin_call E c st) = tn_engine st"
  "tn_messages (begin_call E c st) = tn_messages st" "tn_ran (begin_call E c st) = tn_ran st"
  "tn_rows (begin_call E c st) = tn_rows st"
  by (simp_all add: begin_call_def Let_def turn_frame)

lemma begin_call_retries [simp]: "same_retries st (begin_call E c st)"
  by (simp add: same_retries_def begin_call_def Let_def turn_frame)

lemma run_call_frame:
  assumes "run_call E c st = Ret (x, st')"
  shows "tn_counter st' = tn_counter st" "tn_engine st' = tn_engine st" "tn_messages st' = tn_messages st"
    "tn_ran st' = tn_ran st @ [c]" "tn_rows st' = tn_rows st" "same_retries st st'"
proof -
  obtain q where q: "execute_tool (te_exec E (length (tn_ran st))) (Some (te_permission E)) c = Ret q"
    using assms by (cases "execute_tool (te_exec E (length (tn_ran st))) (Some (te_permission E)) c")
      (simp_all add: run_call_def map_run_def)
  obtain r b where "q = (r, b)" by fastforce
  note eq = assms [unfolded run_call_def q map_run_def this, simplified]
  obtain content err where "result_of r = (content, err)" by fastforce
  with eq show "tn_counter st' = tn_counter st" "tn_engine st' = tn_engine st" "tn_messages st' = tn_messages st"
    "tn_ran st' = tn_ran st @ [c]" "tn_rows st' = tn_rows st" "same_retries st st'"
    by (auto simp: Let_def turn_frame same_retries_def)
qed

lemma record_result_frame [turn_frame]:
  "tn_counter (record_result E c content err st) = tn_counter st"
  "tn_flags (record_result E c content err st) = tn_flags st"
  "tn_llm (record_result E c content err st) = tn_llm st"
  "tn_ran (record_result E c content err st) = tn_ran st"
  by (simp_all add: record_result_def Let_def turn_frame split: option.split)

lemma after_result_frame [turn_frame]:
  "tn_counter (after_result E c content err st) = tn_counter st"
  "tn_engine (after_result E c content err st) = tn_engine st"
  "tn_messages (after_result E c content err st) = tn_messages st"
  "tn_ran (after_result E c content err st) = tn_ran st"
  "tn_rows (after_result E c content err st) = tn_rows st"
  by (simp_all add: after_result_def Let_def turn_frame)

lemma after_result_retries [simp]: "same_retries st (after_result E c content err st)"
  by (simp add: same_retries_def after_result_def Let_def turn_frame)

lemma fill_yield_frame [turn_frame]:
  "tn_counter (fill_yield E i content st) = tn_counter st" "tn_flags (fill_yield E i content st) = tn_flags st"
  "tn_llm (fill_yield E i content st) = tn_llm st" "tn_messages (fill_yield E i content st) = tn_messages st"
  "tn_ran (fill_yield E i content st) = tn_ran st"
  by (simp_all add: fill_yield_def turn_frame)

lemma park_frame:
  assumes "park_for_yield E a i st = (filled, st')"
  shows "tn_counter st' = tn_counter st" "tn_flags st' = tn_flags st" "tn_llm st' = tn_llm st"
    "tn_messages st' = tn_messages st" "tn_ran st' = tn_ran st"
  using assms by (auto simp: park_for_yield_def Let_def turn_frame split: park_answer.splits option.splits if_splits)

lemma yield_frame:
  assumes "yield_in_frame E r c st = (out, st')"
  shows "tn_counter st' = tn_counter st" "tn_flags st' = tn_flags st" "tn_llm st' = tn_llm st"
    "tn_messages st' = tn_messages st" "tn_ran st' = tn_ran st"
  using assms by (auto simp: yield_in_frame_def split: option.splits prod.splits bool.splits dest: park_frame)

lemma open_batch_frame [turn_frame]:
  "tn_counter (open_batch E r st) = tn_counter st" "tn_flags (open_batch E r st) = tn_flags st"
  "tn_llm (open_batch E r st) = tn_llm st" "tn_ran (open_batch E r st) = tn_ran st"
  "tn_messages (open_batch E r st) = tn_messages st @ [assistant_request r]"
  by (simp_all add: open_batch_def turn_frame)

subsection \<open>One call of a batch\<close>

text \<open>The three ways on after a call was run.\<close>

definition called ::
  "('m, 'j) turn_env \<Rightarrow> tool_call \<Rightarrow> utext \<Rightarrow> bool \<Rightarrow> loop_counter \<Rightarrow> ('m, 'j) turn_state \<Rightarrow> ('m, 'j) turn_state" where
  "called E c content err k st1 =
     after_result E c content err (record_result E c content err (st1\<lparr>tn_counter := k\<rparr>))"

definition broken ::
  "('m, 'j) turn_env \<Rightarrow> tool_call \<Rightarrow> nat \<Rightarrow> utext \<Rightarrow> bool \<Rightarrow> loop_counter \<Rightarrow> ('m, 'j) turn_state \<Rightarrow> ('m, 'j) turn_state" where
  "broken E c rest content err k st1 =
     persist_turn E (on_session (strip_trailing_tool_calls rest)
       (on_session (add_tool_result (call_id c) (call_name c) content err)
         (st1\<lparr>tn_counter := k, tn_messages := tn_messages st1 @ [sent_result c content err]\<rparr>)))"

lemma check_loops_limit: "check_loops k = NoLoop \<Longrightarrow> 0 < max_tool_calls (config k) \<Longrightarrow> total_calls k \<le> max_tool_calls (config k)"
  by (auto simp: check_loops_def split: if_splits)

lemma record_and_check_counter:
  "record_and_check now tool args result k = (b, k') \<Longrightarrow>
   total_calls k' = Suc (total_calls k) \<and> config k' = config k \<and> b = check_loops k'"
  by (auto simp: record_and_check_def push_invocation_def Let_def)

definition counted :: "loop_counter \<Rightarrow> loop_counter \<Rightarrow> bool" where
  "counted k k' \<longleftrightarrow> total_calls k' = Suc (total_calls k) \<and> config k' = config k"

lemma run_batch_cases [consumes 1, case_names loop yield limit more]:
  assumes "run_batch E r (c # cs) st = Ret (out, st')"
  obtains content err st1 k reason' where
    "run_call E c (begin_call E c st) = Ret ((content, err), st1)" "counted (tn_counter st) k"
    "out = Batch_Abort (Loop_Broken reason')" "st' = broken E c (length cs) content err k st1"
  | content st1 k where
    "run_call E c (begin_call E c st) = Ret ((content, False), st1)" "counted (tn_counter st) k"
    "check_loops k = NoLoop" "is_yield c"
    "yield_in_frame E r c (on_session (strip_trailing_tool_calls (length cs)) (called E c content False k st1))
       = (out, st')"
  | content err st1 k reason' where
    "run_call E c (begin_call E c st) = Ret ((content, err), st1)" "counted (tn_counter st) k"
    "\<not> (is_yield c \<and> \<not> err)" "max_tool_calls (config k) \<le> total_calls k"
    "out = Batch_Abort (Loop_Broken reason')"
    "st' = on_session (strip_trailing_tool_calls (length cs)) (called E c content err k st1)"
  | content err st1 k where
    "run_call E c (begin_call E c st) = Ret ((content, err), st1)" "counted (tn_counter st) k"
    "\<not> (is_yield c \<and> \<not> err)" "total_calls k < max_tool_calls (config k)"
    "run_batch E r cs (called E c content err k st1) = Ret (out, st')"
proof -
  obtain p where p: "run_call E c (begin_call E c st) = Ret p"
    using assms by (cases "run_call E c (begin_call E c st)") simp_all
  obtain content err st1 where q: "p = ((content, err), st1)" by (metis surj_pair)
  obtain b k where k: "record_and_check (te_clock E (length (tn_ran st1))) (utf8_bytes (call_name c))
      (utf8_bytes (call_arguments c)) (utf8_bytes content) (tn_counter st1) = (b, k)" by fastforce
  note rc = record_and_check_counter [OF k]
  have cnt: "tn_counter st1 = tn_counter st" using run_call_frame(1) [OF p [unfolded q]] by (simp add: turn_frame)
  then have cd: "counted (tn_counter st) k" using rc by (simp add: counted_def)
  note step = assms [unfolded run_batch.simps p q bind_run.simps prod.case k Let_def]
  note call = p [unfolded q]
  show thesis
  proof (cases b)
    case (Detected reason')
    then show thesis using step that(1) [OF call cd, of reason'] by (simp add: broken_def)
  next
    case NoLoop
    show thesis
    proof (cases "is_yield c \<and> \<not> err")
      case True
      then show thesis using step NoLoop rc call by (intro that(2) [OF _ cd]) (simp_all add: called_def)
    next
      case False
      show thesis
      proof (cases "max_tool_calls (config k) \<le> total_calls k")
        case lim: True
        then show thesis using step NoLoop False
          by (intro that(3) [OF call cd False lim]) (auto simp: called_def)
      next
        case lim: False
        then show thesis using step NoLoop False
          by (intro that(4) [OF call cd False]) (auto simp: called_def)
      qed
    qed
  qed
qed

lemma called_frame [turn_frame]:
  "tn_counter (called E c content err k st1) = k" "tn_ran (called E c content err k st1) = tn_ran st1"
  by (simp_all add: called_def turn_frame)

lemma called_retries: "same_retries st1 (called E c content err k st1)"
proof -
  have "same_retries st1 (record_result E c content err (st1\<lparr>tn_counter := k\<rparr>))"
    by (simp add: same_retries_def turn_frame)
  then show ?thesis unfolding called_def by (rule same_retries_trans) simp
qed

lemma broken_frame [turn_frame]:
  "tn_counter (broken E c n content err k st1) = k" "tn_ran (broken E c n content err k st1) = tn_ran st1"
  "tn_flags (broken E c n content err k st1) = tn_flags st1" "tn_llm (broken E c n content err k st1) = tn_llm st1"
  by (simp_all add: broken_def turn_frame)

text \<open>A batch makes no request; if the loop goes on after it, it counted calls and is within the limit.\<close>

definition call_limit :: "('m, 'j) turn_state \<Rightarrow> nat" where
  "call_limit st = max_tool_calls (config (tn_counter st))"

abbreviation calls_made :: "('m, 'j) turn_state \<Rightarrow> nat" where "calls_made st \<equiv> total_calls (tn_counter st)"

lemma run_batch_counts:
  "run_batch E r cs st = Ret (out, st') \<Longrightarrow>
   same_retries st st' \<and> call_limit st' = call_limit st
   \<and> (out = Batch_Continue \<longrightarrow> (cs = [] \<and> calls_made st' = calls_made st)
        \<or> (calls_made st < calls_made st' \<and> (0 < call_limit st \<longrightarrow> calls_made st' \<le> call_limit st)))"
proof (induction cs arbitrary: st)
  case Nil
  then show ?case by simp
next
  case (Cons c cs)
  have kept: "same_retries st st1" "same_retries st (called E c content err k st1)"
    if "run_call E c (begin_call E c st) = Ret ((content, err), st1)" for content err st1 k
    using same_retries_trans [OF begin_call_retries run_call_frame(6) [OF that]]
      same_retries_trans [OF _ called_retries] by blast+
  have lim: "call_limit (called E c content err k st1) = call_limit st" if "counted (tn_counter st) k" for content err st1 k
    using that by (simp add: call_limit_def turn_frame counted_def)
  from Cons.prems show ?case
  proof (cases rule: run_batch_cases)
    case (loop content err st1 k reason')
    then show ?thesis using kept(1) by (simp add: same_retries_def call_limit_def turn_frame counted_def)
  next
    case (yield content st1 k)
    note f = yield_frame [OF yield(5), simplified turn_frame]
    have "same_retries st st'" using kept(2) [OF yield(1), of k] f by (simp add: same_retries_def)
    moreover have "calls_made st' = Suc (calls_made st)" "call_limit st' = call_limit st"
      using yield(2) by (simp_all add: f call_limit_def counted_def)
    moreover have "0 < call_limit st \<longrightarrow> Suc (calls_made st) \<le> call_limit st"
      using check_loops_limit [OF yield(3)] yield(2) by (simp add: call_limit_def counted_def)
    ultimately show ?thesis by simp
  next
    case (limit content err st1 k reason')
    then show ?thesis using kept(2) [OF limit(1), of k] lim [OF limit(2)]
      by (simp add: same_retries_def call_limit_def turn_frame counted_def)
  next
    case (more content err st1 k)
    note ih = Cons.IH [OF more(5)]
    have "same_retries st st'" using same_retries_trans [OF kept(2) [OF more(1)]] ih by blast
    moreover have "call_limit st' = call_limit st" using ih lim [OF more(2)] by simp
    moreover have "calls_made (called E c content err k st1) = Suc (calls_made st)"
      using more(2) by (simp add: turn_frame counted_def)
    moreover have "Suc (calls_made st) < call_limit st"
      using more(2,4) by (simp add: call_limit_def counted_def)
    ultimately show ?thesis using ih lim [OF more(2)] by auto
  qed
qed

subsection \<open>How long a turn lasts\<close>

lemma reinject_frame:
  assumes "reinject_after_compaction E st = Ret st1"
  shows "tn_counter st1 = tn_counter st" "tn_flags st1 = tn_flags st" "tn_llm st1 = tn_llm st"
  using assms
  by (cases "compact_until_fit (te_engine E) (te_system E) (te_specs E) False (tn_engine st)";
      auto simp: reinject_after_compaction_def map_run_def Let_def split: option.splits)+

lemma inject_frame [turn_frame]:
  "tn_counter (inject_per_round E st) = tn_counter st" "tn_flags (inject_per_round E st) = tn_flags st"
  "tn_llm (inject_per_round E st) = tn_llm st"
proof -
  have d: "tn_counter (inject_deadline E st) = tn_counter st" "tn_flags (inject_deadline E st) = tn_flags st"
    "tn_llm (inject_deadline E st) = tn_llm st"
    by (auto simp: inject_deadline_def split: option.splits)
  have "tn_counter (inject_inbox E s) = tn_counter s" "tn_flags (inject_inbox E s) = tn_flags s"
    "tn_llm (inject_inbox E s) = tn_llm s" for s :: "('a, 'b) turn_state"
    by (auto simp: inject_inbox_def Let_def split: option.splits prod.splits)
  then show "tn_counter (inject_per_round E st) = tn_counter st" "tn_flags (inject_per_round E st) = tn_flags st"
    "tn_llm (inject_per_round E st) = tn_llm st"
    by (simp_all add: inject_per_round_def Let_def d)
qed

lemma note_usage_frame [turn_frame]:
  "tn_counter (note_usage E r st) = tn_counter st" "tn_flags (note_usage E r st) = tn_flags st"
  "tn_llm (note_usage E r st) = tn_llm st" "tn_messages (note_usage E r st) = tn_messages st"
  by (simp_all add: note_usage_def Let_def turn_frame split: option.split)

lemma overflow_cases [consumes 1, case_names none compacted give_up]:
  assumes "handle_context_overflow E b st = Ret (o', st')"
  obtains "\<not> b" "o' = Not_Overflow" "st' = st"
  | ms where "b" "o' = Compacted ms" "overflows st' = Suc (overflows st)" "Suc (overflows st) \<le> max_overflow_retries"
      "empties st' = empties st" "tn_counter st' = tn_counter st" "tn_llm st' = tn_llm st"
  | tr where "b" "o' = Give_Up tr" "tn_counter st' = tn_counter st" "tn_llm st' = tn_llm st"
proof (cases b)
  case False
  then show thesis using assms that(1) by (simp add: handle_context_overflow_def)
next
  case True
  let ?n = "Suc (overflows st)"
  let ?c = "if ?n \<le> max_overflow_retries then compact_until_fit (te_engine E) (te_system E) (te_specs E) True (tn_engine st)
     else Ret (None, tn_engine st)"
  let ?st1 = "st\<lparr>tn_flags := (tn_flags st)\<lparr>tf_overflow_retries := ?n\<rparr>\<rparr>"
  have step: "bind_run ?c (\<lambda>(recovered, es). case recovered of
        Some compacted \<Rightarrow> Ret (Compacted compacted, ?st1\<lparr>tn_engine := es\<rparr>)
      | None \<Rightarrow> Ret (Give_Up \<lparr>tu_text = overflow_text, tu_stop = StopContextOverflow, tu_pending_retry = None,
            tu_has_pending = False\<rparr>, persist_turn E (on_session (add_assistant overflow_text) (?st1\<lparr>tn_engine := es\<rparr>))))
      = Ret (o', st')"
    using assms True by (simp add: handle_context_overflow_def Let_def cong: if_cong)
  then obtain p where p: "?c = Ret p" by (cases ?c) simp_all
  obtain res es where q: "p = (res, es)" by fastforce
  note step = step [unfolded p q, simplified]
  show thesis
  proof (cases res)
    case None
    then show thesis using step True that(3) by (auto simp: turn_frame)
  next
    case (Some ms)
    have le: "?n \<le> max_overflow_retries" using p q Some by (auto split: if_splits)
    then show thesis using step True Some that(2) by auto
  qed
qed

definition rounds_left :: "('m, 'j) turn_state \<Rightarrow> nat" where
  "rounds_left st = (max_overflow_retries - overflows st) + (max_empty_retries - empties st)
     + (Suc (call_limit st) - calls_made st)"

lemma empty_answer_frame:
  assumes "empty_answer E r st = (o', st')"
  shows "requests st' = requests st" "tn_counter st' = tn_counter st" "overflows st' = overflows st"
    "empties st' = Suc (empties st)" "o' = Next_Round \<Longrightarrow> empties st < max_empty_retries"
  using assms by (auto simp: empty_answer_def Let_def turn_frame split: if_splits)

lemma finalize_requests: "finalize_turn E r st = (tr, st') \<Longrightarrow> requests st' = requests st"
  by (auto simp: finalize_turn_def Let_def turn_frame split: if_splits)

lemma after_response_bound:
  assumes "after_response E r st = Ret (o', st')"
  shows "requests st' = requests st \<and> (o' = Next_Round \<longrightarrow> call_limit st' = call_limit st
    \<and> (0 < call_limit st \<longrightarrow> rounds_left st' < rounds_left st))"
proof -
  let ?b = "co_stop r = StopContextOverflow"
  obtain p where "handle_context_overflow E ?b st = Ret p"
    using assms by (cases "handle_context_overflow E ?b st") (simp_all add: after_response_def)
  then obtain h st1 where h: "handle_context_overflow E ?b st = Ret (h, st1)" by (metis surj_pair)
  note step = assms [unfolded after_response_def h bind_run.simps prod.case]
  from h show ?thesis
  proof (cases rule: overflow_cases)
    case (compacted ms)
    with step have "o' = Next_Round" "st' = st1\<lparr>tn_messages := ms\<rparr>" by simp_all
    with compacted show ?thesis by (auto simp: rounds_left_def call_limit_def)
  next
    case (give_up tr)
    with step show ?thesis by auto
  next
    case none
    note step = step [unfolded none(2,3) overflow_recovery.case]
    show ?thesis
    proof (cases "response_calls r = []")
      case True
      show ?thesis
      proof (cases "trim (co_text r) = []")
        case empty: True
        have "empty_answer E r st = (o', st')" using step True empty by simp
        note f = empty_answer_frame [OF this]
        then show ?thesis by (auto simp: rounds_left_def call_limit_def)
      next
        case False
        obtain tr st2 where ft: "finalize_turn E r st = (tr, st2)" by fastforce
        then have "st' = st2" "o' = Turn_Over (Inr tr)" using step True False by simp_all
        with finalize_requests [OF ft] show ?thesis by simp
      qed
    next
      case False
      then obtain bs where "execute_tool_batch E r st = Ret bs" "batch_round r bs = (o', st')"
        using step by (cases "execute_tool_batch E r st") (auto simp: map_run_def)
      then obtain b where b: "run_batch E r (response_calls r) (open_batch E r st) = Ret (b, st')"
        and o': "o' = Next_Round \<longrightarrow> b = Batch_Continue"
        by (cases bs) (auto simp: execute_tool_batch_def batch_round_def split: batch_outcome.splits)
      from run_batch_counts [OF b] have "same_retries st st'" "call_limit st' = call_limit st"
        "b = Batch_Continue \<longrightarrow> calls_made st < calls_made st' \<and> (0 < call_limit st \<longrightarrow> calls_made st' \<le> call_limit st)"
        using False by (auto simp: same_retries_def call_limit_def turn_frame)
      then show ?thesis using o' by (auto simp: same_retries_def rounds_left_def)
    qed
  qed
qed

lemma turn_round_bound:
  assumes "turn_round E st = Ret (o', st')"
  shows "requests st' \<le> requests st + 3 \<and> (o' = Next_Round \<longrightarrow> call_limit st' = call_limit st
    \<and> (0 < call_limit st \<longrightarrow> rounds_left st' < rounds_left st))"
proof -
  obtain a b c where s: "te_stopped E (tn_round st) = (a, b, c)" by (metis surj_pair)
  show ?thesis
  proof (cases "a \<or> (sc_live (ls_screen (tn_llm st)) \<and> b) \<or> c")
    case True
    then show ?thesis using assms s by (auto simp: turn_round_def)
  next
    case False
    note step = assms [unfolded turn_round_def s prod.case Let_def, unfolded if_not_P [OF False]]
    then obtain st1 where r: "reinject_after_compaction E st = Ret st1"
      by (cases "reinject_after_compaction E st") simp_all
    let ?st2 = "(inject_per_round E st1)\<lparr>tn_round := Suc (tn_round st)\<rparr>"
    have s2: "tn_counter ?st2 = tn_counter st" "tn_flags ?st2 = tn_flags st" "tn_llm ?st2 = tn_llm st"
      using reinject_frame [OF r] by (simp_all add: turn_frame)
    obtain x l where c: "chat_with_retry (te_llm E) (tn_messages ?st2) 0 (tn_llm ?st2) = (x, l)" by fastforce
    have req: "length (ls_requests l) \<le> requests st + 3"
      using retry_requests [OF _ c] by (auto simp: s2 max_llm_retries_def)
    note step = step [unfolded r bind_run.simps c prod.case]
    show ?thesis
    proof (cases x)
      case (Inl e)
      with step req show ?thesis by auto
    next
      case (Inr res)
      with step have "after_response E res (note_usage E res (?st2\<lparr>tn_llm := l\<rparr>)) = Ret (o', st')" by simp
      from after_response_bound [OF this] req s2 show ?thesis
        by (auto simp: turn_frame rounds_left_def call_limit_def)
    qed
  qed
qed

lemma turn_loop_ends:
  "0 < call_limit st \<Longrightarrow> \<exists>x. turn_loop E st = Some x
     \<and> (\<forall>res st'. x = Ret (res, st') \<longrightarrow> requests st' \<le> requests st + 3 * Suc (rounds_left st))"
proof (induction "rounds_left st" arbitrary: st rule: less_induct)
  case less
  show ?case
  proof (cases "turn_round E st")
    case Panic
    then show ?thesis by (subst turn_loop.simps) simp
  next
    case (Ret p)
    obtain o' st1 where p: "turn_round E st = Ret (o', st1)" using Ret by (cases p) simp
    note rb = turn_round_bound [OF p]
    show ?thesis
    proof (cases o')
      case (Turn_Over res)
      then show ?thesis using p rb by (subst turn_loop.simps) simp
    next
      case Next_Round
      have eq: "turn_loop E st = turn_loop E st1" using p Next_Round by (subst turn_loop.simps) simp
      have lt: "rounds_left st1 < rounds_left st" using rb Next_Round less.prems by blast
      have "0 < call_limit st1" using rb Next_Round less.prems by simp
      from less.hyps [OF lt this] obtain x where x: "turn_loop E st1 = Some x"
        "\<forall>res st'. x = Ret (res, st') \<longrightarrow> requests st' \<le> requests st1 + 3 * Suc (rounds_left st1)" by blast
      have "requests st1 + 3 * Suc (rounds_left st1) \<le> requests st + 3 * Suc (rounds_left st)"
        using rb lt by simp
      then have "\<forall>res st'. x = Ret (res, st') \<longrightarrow> requests st' \<le> requests st + 3 * Suc (rounds_left st)"
        using x(2) le_trans by blast
      then show ?thesis unfolding eq x(1) by blast
    qed
  qed
qed

definition turn_limit :: "turn_setup \<Rightarrow> nat" where
  "turn_limit S = (case sa_max_tool_calls (su_config S) of Some n \<Rightarrow> n | None \<Rightarrow> max_tool_calls (su_breaker S))"

lemma prepare_fresh:
  assumes "prepare_turn E S st = Inr (E', st')"
  shows "requests st' = requests st" "call_limit st' = turn_limit S" "rounds_left st' = turn_limit S + 7"
  using assms
  by (auto simp: prepare_turn_def Let_def turn_frame turn_limit_def call_limit_def rounds_left_def fresh_flags_def
      new_counter_def new_counter_with_max_def max_overflow_retries_def max_empty_retries_def
      split: option.splits sum.splits)

lemma run_inner_ends:
  assumes "0 < turn_limit S"
  shows "\<exists>x. run_inner E S st = Some x
    \<and> (\<forall>res st'. x = Ret (res, st') \<longrightarrow> requests st' \<le> requests st + 3 * (turn_limit S + 8))"
proof (cases "prepare_turn E S st")
  case (Inl e)
  then show ?thesis by (simp add: run_inner_def)
next
  case (Inr q)
  then obtain E' st1 where p: "prepare_turn E S st = Inr (E', st1)" by (cases q) simp
  note f = prepare_fresh [OF p]
  have bound: "requests st + 3 * (turn_limit S + 8) = requests st1 + 3 * Suc (rounds_left st1)"
    using f by simp
  have "0 < call_limit st1" using f(2) assms by simp
  then show ?thesis unfolding bound run_inner_def p sum.case prod.case by (rule turn_loop_ends)
qed

lemma close_interrupted_frame [turn_frame]:
  "tn_llm (close_interrupted E S i c st) = tn_llm st" "tn_ran (close_interrupted E S i c st) = tn_ran st"
  by (simp_all add: close_interrupted_def turn_frame split: prod.split)

lemma close_orphans_frame [turn_frame]:
  "tn_llm (close_orphans E S pending st) = tn_llm st" "tn_ran (close_orphans E S pending st) = tn_ran st"
proof -
  have "tn_llm (fold (close_interrupted E S i) cs s) = tn_llm s" "tn_ran (fold (close_interrupted E S i) cs s) = tn_ran s"
    for i cs s
    by (induction cs arbitrary: s) (simp_all add: turn_frame)
  then show "tn_llm (close_orphans E S pending st) = tn_llm st" "tn_ran (close_orphans E S pending st) = tn_ran st"
    by (simp_all add: close_orphans_def Let_def marker_clear_def)
qed

lemma run_recovery_ends:
  assumes "0 < turn_limit S"
  shows "\<exists>x. run_recovery E S st = Some x
    \<and> (\<forall>res st'. x = Ret (res, st') \<longrightarrow> requests st' \<le> requests st + 3 * (turn_limit S + 8))
    \<and> (\<forall>st'. x = Ret (Inr None, st') \<longrightarrow> requests st' = requests st)"
proof -
  let ?inner = "\<lambda>s. map_option (map_run (\<lambda>(res, s'). (map_sum id Some res, s'))) (run_inner E S s)"
  have inner: "\<exists>x. ?inner s = Some x \<and> (\<forall>res st'. x = Ret (res, st') \<longrightarrow> requests st' \<le> requests s + 3 * (turn_limit S + 8))
    \<and> (\<forall>st'. x \<noteq> Ret (Inr None, st'))" for s :: "('a, 'b) turn_state"
  proof -
    obtain x where x: "run_inner E S s = Some x"
      "\<forall>res st'. x = Ret (res, st') \<longrightarrow> requests st' \<le> requests s + 3 * (turn_limit S + 8)"
      using run_inner_ends [OF assms] by blast
    show ?thesis
    proof (cases x)
      case Panic
      then show ?thesis using x(1) by (simp add: map_run_def)
    next
      case (Ret y)
      then show ?thesis using x by (cases y; cases "fst y") (auto simp: map_run_def)
    qed
  qed
  show ?thesis
  proof (cases "s_history (tn_session st) = []")
    case True
    then show ?thesis by (simp add: run_recovery_def)
  next
    case False
    obtain pending tools user where w: "recovery_walk (rev (s_history (tn_session st))) {} False = (pending, tools, user)"
      by (metis surj_pair)
    let ?quiet = "pending = [] \<and> \<not> tools \<and> \<not> user"
    let ?sole = "length pending = 1 \<and> is_yield (hd pending)
      \<and> (case s_pending_yield (tn_session st) of Some p \<Rightarrow> py_tool_call_id p = call_id (hd pending) | None \<Rightarrow> False)"
    have eq: "run_recovery E S st = (if ?quiet then Some (Ret (Inr None, st))
        else if ?sole then (case te_park E (length (tn_ran st)) of
            Some a \<Rightarrow> (case park_for_yield E a (call_id (hd pending)) st of
                 (True, st1) \<Rightarrow> ?inner st1 | (False, st1) \<Rightarrow> Some (Ret (Inr (Some quiet_result), st1)))
          | None \<Rightarrow> Some (Ret (Inr None, st)))
        else ?inner (if pending \<noteq> [] then close_orphans E S pending st else st))"
      unfolding run_recovery_def Let_def w prod.case by (simp only: False if_False)
    show ?thesis
    proof (cases "?quiet \<or> (?sole \<and> te_park E (length (tn_ran st)) = None)")
      case True
      then have "run_recovery E S st = Some (Ret (Inr None, st))" unfolding eq by auto
      then show ?thesis by simp
    next
      case go: False
      show ?thesis
      proof (cases ?sole)
        case True
        then obtain a where a: "te_park E (length (tn_ran st)) = Some a" using go by auto
        obtain filled st1 where pk: "park_for_yield E a (call_id (hd pending)) st = (filled, st1)" by fastforce
        have "run_recovery E S st = (if filled then ?inner st1 else Some (Ret (Inr (Some quiet_result), st1)))"
          unfolding eq using go True a pk by (cases filled) auto
        then show ?thesis using inner [of st1] park_frame(3) [OF pk] by (cases filled) auto
      next
        case False
        then have "run_recovery E S st = ?inner (if pending \<noteq> [] then close_orphans E S pending st else st)"
          unfolding eq using go by auto
        then show ?thesis using inner [of "if pending \<noteq> [] then close_orphans E S pending st else st"]
          by (auto simp: turn_frame)
      qed
    qed
  qed
qed

lemma run_turn_ends:
  assumes "0 < turn_limit S"
  shows "\<exists>x. run_turn E S st = Some x
    \<and> (\<forall>res st'. x = Ret (res, st') \<longrightarrow> requests st' \<le> requests st + 3 * (turn_limit S + 8))"
proof -
  obtain x where x: "run_recovery E S st = Some x"
    "\<forall>res st'. x = Ret (res, st') \<longrightarrow> requests st' \<le> requests st + 3 * (turn_limit S + 8)"
    "\<forall>st'. x = Ret (Inr None, st') \<longrightarrow> requests st' = requests st"
    using run_recovery_ends [OF assms, of E st] by blast
  show ?thesis
  proof (cases "\<exists>st1. x = Ret (Inr None, st1)")
    case True
    then obtain st1 where st1: "x = Ret (Inr None, st1)" by blast
    then have "run_turn E S st = run_inner E S st1" using x(1) by (simp add: run_turn_def)
    then show ?thesis using run_inner_ends [OF assms, of E st1] x(3) st1 by simp
  next
    case False
    then have "run_turn E S st = Some (map_run (\<lambda>(res, s'). (map_sum id the res, s')) x)"
      using x(1) by (cases x) (auto simp: run_turn_def map_run_def split: sum.splits option.splits)
    moreover have "\<forall>res st'. map_run (\<lambda>(res, s'). (map_sum id the res, s')) x = Ret (res, st')
        \<longrightarrow> requests st' \<le> requests st + 3 * (turn_limit S + 8)"
      using x(2) by (cases x) (auto simp: map_run_def)
    ultimately show ?thesis by blast
  qed
qed

text \<open>C19: With a positive limit on tool calls a turn always ends, recovery included, whatever the model
  answers, the tools do and the context overflows: after at most three overflow retries, three empty
  answers and the calls of the limit, so with at most \<open>3 * (limit + 8)\<close> requests.\<close>

theorem turn_ends:
  assumes "0 < turn_limit S"
  shows "\<exists>x. run_turn E S st = Some x
    \<and> (\<forall>res st'. x = Ret (res, st') \<longrightarrow> requests st' \<le> requests st + 3 * (turn_limit S + 8))"
  by (rule run_turn_ends [OF assms])

end
