(* ===== verification/Agent_Batch.thy ===== *)
theory Agent_Batch
  imports Agent_Turn_Facts
begin

text \<open>
  What a tool batch leaves in the history, in the next request and on disk, the yield that is filled in
  the frame, and what recovery makes of an interrupted batch.
\<close>

subsection \<open>The history of a batch\<close>

lemma strip_in_rev_tools:
  "list_all is_tool rs \<Longrightarrow> strip_in_rev n (rs @ ms) = rs @ strip_in_rev n ms"
  by (induction rs) auto

lemma strip_history:
  assumes "is_assistant a" "cm_tool_calls a = Some cs" "list_all is_tool rs" "s_history s = h @ a # rs"
  shows "s_history (strip_trailing_tool_calls n s)
    = h @ a\<lparr>cm_tool_calls := Some (take (length cs - n) cs)\<rparr> # rs"
proof (cases "n = 0")
  case True
  have "a\<lparr>cm_tool_calls := Some cs\<rparr> = a" using assms(2) by (cases a) simp
  then show ?thesis using True assms(4) by (simp add: strip_trailing_tool_calls_def)
next
  case False
  have "list_all is_tool (rev rs)" using assms(3) by (simp add: list_all_iff)
  from strip_in_rev_tools [OF this, of n "a # rev h"] assms(1,2,4) False
  show ?thesis by (simp add: strip_trailing_tool_calls_def)
qed

lemma add_tool_result_history [turn_frame]:
  "s_history (add_tool_result i n content err s) = s_history s @ [(text_message ''tool'' content)
     \<lparr>cm_tool_call_id := Some i, cm_name := Some n, cm_is_error := Some err\<rparr>]"
  by (simp add: add_tool_result_def push_message_def)

definition stored_result :: "tool_call \<Rightarrow> utext \<Rightarrow> bool \<Rightarrow> chat_message" where
  "stored_result c content err = (text_message ''tool'' content)
     \<lparr>cm_tool_call_id := Some (call_id c), cm_name := Some (call_name c), cm_is_error := Some err\<rparr>"

text \<open>The rows a hook receives: nothing without a hook.\<close>

definition rows_if :: "('m, 'j) turn_env \<Rightarrow> chat_message list \<Rightarrow> chat_message list" where
  "rows_if E ms = (if te_hook E = None then [] else ms)"

lemma persist_rows: "s_history (tn_session st) \<noteq> [] \<Longrightarrow>
    tn_rows (persist_turn E st) = tn_rows st @ rows_if E [last (s_history (tn_session st))]"
  by (simp add: persist_turn_def rows_if_def turn_frame)

lemma record_result_effect:
  assumes "\<not> (is_yield c \<and> \<not> err)"
  shows "s_history (tn_session (record_result E c content err st)) = s_history (tn_session st) @ [stored_result c content err]"
    "tn_messages (record_result E c content err st) = tn_messages st @ [sent_result c content err]"
    "tn_rows (record_result E c content err st) = tn_rows st @ rows_if E [stored_result c content err]"
  using assms by (auto simp: record_result_def turn_frame stored_result_def persist_rows)

lemma called_effect:
  assumes "\<not> (is_yield c \<and> \<not> err)"
  shows "s_history (tn_session (called E c content err k st)) = s_history (tn_session st) @ [stored_result c content err]"
    "tn_messages (called E c content err k st) = tn_messages st @ [sent_result c content err]"
    "tn_rows (called E c content err k st) = tn_rows st @ rows_if E [stored_result c content err]"
  using record_result_effect [OF assms, of E content "st\<lparr>tn_counter := k\<rparr>"] by (simp_all add: called_def turn_frame)

text \<open>The first \<open>k\<close> calls were run and answered, in order; the rest is gone from the history.\<close>

definition answered ::
  "('m, 'j) turn_env \<Rightarrow> chat_message list \<Rightarrow> chat_message \<Rightarrow> tool_call list \<Rightarrow> tool_call list
    \<Rightarrow> chat_message list \<Rightarrow> ('m, 'j) turn_state \<Rightarrow> nat \<Rightarrow> ('m, 'j) turn_state \<Rightarrow> bool" where
  "answered E h a before cs rs st k st' \<longleftrightarrow>
     (\<exists>outs. length outs = k \<and> k \<le> length cs
        \<and> s_history (tn_session st') = h @ a\<lparr>cm_tool_calls := Some (before @ take k cs)\<rparr> # rs
            @ map (\<lambda>(c, content, err). stored_result c content err) (zip (take k cs) outs)
        \<and> tn_messages st' = tn_messages st
            @ map (\<lambda>(c, content, err). sent_result c content err) (zip (take k cs) outs)
        \<and> tn_rows st' = tn_rows st
            @ rows_if E (map (\<lambda>(c, content, err). stored_result c content err) (zip (take k cs) outs))
        \<and> tn_ran st' = tn_ran st @ take k cs)"

lemma stored_is_tool [simp]: "is_tool (stored_result c content err)"
  by (simp add: stored_result_def text_message_def)

lemma run_batch_answers:
  assumes "run_batch E r cs st = Ret (out, st')" and "\<forall>c \<in> set cs. \<not> is_yield c"
    and "s_history (tn_session st) = h @ a # rs" and "is_assistant a" and "cm_tool_calls a = Some (before @ cs)"
    and "list_all is_tool rs"
  shows "\<exists>k. answered E h a before cs rs st k st' \<and> (cs \<noteq> [] \<longrightarrow> 0 < k) \<and> (out = Batch_Continue \<longrightarrow> k = length cs)
    \<and> (out \<noteq> Batch_Continue \<longrightarrow> (\<exists>e. out = Batch_Abort e))"
  using assms
proof (induction cs arbitrary: st before rs)
  case Nil
  have "a\<lparr>cm_tool_calls := Some before\<rparr> = a" using Nil.prems(5) by (cases a) simp
  with Nil show ?case by (auto simp: answered_def rows_if_def)
next
  case (Cons c cs)
  have y: "\<not> is_yield c" using Cons.prems(2) by simp
  have one: "answered E h a before (c # cs) rs st 1 st2"
    if "s_history (tn_session st2) = h @ a\<lparr>cm_tool_calls := Some (before @ [c])\<rparr> # rs @ [stored_result c content err]"
      "tn_messages st2 = tn_messages st @ [sent_result c content err]"
      "tn_rows st2 = tn_rows st @ rows_if E [stored_result c content err]" "tn_ran st2 = tn_ran st @ [c]"
    for st2 content err
    unfolding answered_def using that by (intro exI [of _ "[(content, err)]"]) simp
  have tools: "list_all is_tool (rs @ [stored_result c content err])" for content err
    using Cons.prems(6) by simp
  have strip: "length (before @ c # cs) - length cs = length (before @ [c])" by simp
  from Cons.prems(1) show ?case
  proof (cases rule: run_batch_cases)
    case (loop content err st1 k reason')
    note f = run_call_frame [OF loop(1), unfolded turn_frame]
    let ?s = "on_session (add_tool_result (call_id c) (call_name c) content err)
         (st1\<lparr>tn_counter := k, tn_messages := tn_messages st1 @ [sent_result c content err]\<rparr>)"
    have hist: "s_history (tn_session ?s) = h @ a # rs @ [stored_result c content err]"
      using f(2) Cons.prems(3) by (simp add: turn_frame stored_result_def)
    let ?s' = "on_session (strip_trailing_tool_calls (length cs)) ?s"
    have hist': "s_history (tn_session ?s') = h @ a\<lparr>cm_tool_calls := Some (before @ [c])\<rparr> # rs @ [stored_result c content err]"
      using strip_history [OF Cons.prems(4,5) tools hist, of "length cs"] strip by (simp add: turn_frame)
    have "answered E h a before (c # cs) rs st 1 st'"
      unfolding loop(4) broken_def
      by (rule one [of _ content err]) (use hist' f in \<open>simp_all add: turn_frame persist_rows\<close>)
    then show ?thesis using loop(3) by (intro exI [of _ 1]) simp
  next
    case (yield content st1 k)
    then show ?thesis using y by simp
  next
    case (limit content err st1 k reason')
    note f = run_call_frame [OF limit(1), unfolded turn_frame] and e = called_effect [OF limit(3)]
    have hist: "s_history (tn_session (called E c content err k st1)) = h @ a # rs @ [stored_result c content err]"
      using f(2) Cons.prems(3) e(1) [of E content k st1] by simp
    have "answered E h a before (c # cs) rs st 1 st'"
      unfolding limit(6)
      by (rule one [of _ content err])
        (use strip_history [OF Cons.prems(4,5) tools hist, of "length cs"] strip f e [of E content k st1] in \<open>simp_all add: turn_frame\<close>)
    then show ?thesis using limit(5) by (intro exI [of _ 1]) simp
  next
    case (more content err st1 k)
    note f = run_call_frame [OF more(1), unfolded turn_frame] and e = called_effect [OF more(3)]
    let ?st2 = "called E c content err k st1"
    have hist: "s_history (tn_session ?st2) = h @ a # (rs @ [stored_result c content err])"
      using f(2) Cons.prems(3) e(1) [of E content k st1] by simp
    have "cm_tool_calls a = Some ((before @ [c]) @ cs)" using Cons.prems(5) by simp
    from Cons.IH [OF more(5) _ hist Cons.prems(4) this tools] Cons.prems(2)
    obtain n where n: "answered E h a (before @ [c]) cs (rs @ [stored_result c content err]) ?st2 n st'"
      "out = Batch_Continue \<longrightarrow> n = length cs" "out \<noteq> Batch_Continue \<longrightarrow> (\<exists>e. out = Batch_Abort e)" by auto
    from n(1) obtain outs where o': "length outs = n" "n \<le> length cs"
      "s_history (tn_session st') = h @ a\<lparr>cm_tool_calls := Some ((before @ [c]) @ take n cs)\<rparr>
         # (rs @ [stored_result c content err]) @ map (\<lambda>(c, content, err). stored_result c content err) (zip (take n cs) outs)"
      "tn_messages st' = tn_messages ?st2 @ map (\<lambda>(c, content, err). sent_result c content err) (zip (take n cs) outs)"
      "tn_rows st' = tn_rows ?st2 @ rows_if E (map (\<lambda>(c, content, err). stored_result c content err) (zip (take n cs) outs))"
      "tn_ran st' = tn_ran ?st2 @ take n cs" unfolding answered_def by blast
    have "answered E h a before (c # cs) rs st (Suc n) st'"
      unfolding answered_def
      by (rule exI [of _ "(content, err) # outs"])
        (use o' f e [of E content k st1] in \<open>auto simp: turn_frame rows_if_def\<close>)
    then show ?thesis using n(2,3) by (intro exI [of _ "Suc n"]) simp
  qed
qed

definition stored_request :: "('m, 'j) turn_env \<Rightarrow> collected \<Rightarrow> chat_message" where
  "stored_request E r =
     (assistant_text (co_text r))
       \<lparr>cm_tool_calls := Some (response_calls r), cm_model := Some (effective_model E r),
        cm_usage := llm_usage r (te_provider_id E (effective_model E r)) (effective_model E r),
        cm_parts := (case (co_reasoning r, co_signature r) of
            (Some th, _) \<Rightarrow> [Thinking_Part th (co_signature r), Text_Part (co_text r)]
          | (None, Some g) \<Rightarrow> [Thinking_Part [] (Some g), Text_Part (co_text r)]
          | (None, None) \<Rightarrow> [Text_Part (co_text r)])\<rparr>"

lemma stored_request_calls [simp]: "is_assistant (stored_request E r)"
  "cm_tool_calls (stored_request E r) = Some (response_calls r)"
  by (simp_all add: stored_request_def assistant_text_def text_message_def)

lemma open_batch_effect:
  assumes "response_calls r \<noteq> []"
  shows "s_history (tn_session (open_batch E r st)) = s_history (tn_session st) @ [stored_request E r]"
    "tn_rows (open_batch E r st) = tn_rows st @ rows_if E [stored_request E r]"
proof -
  let ?s = "on_session (add_assistant_with_tools (co_text r) (response_calls r) (co_reasoning r)
         (co_signature r) (Some (effective_model E r))
         (llm_usage r (te_provider_id E (effective_model E r)) (effective_model E r)))
       (st\<lparr>tn_messages := tn_messages st @ [assistant_request r]\<rparr>)"
  have "s_history (tn_session ?s) = s_history (tn_session st) @ [stored_request E r]"
    using assms by (simp add: turn_frame add_assistant_with_tools_def push_message_def stored_request_def
        split: option.split)
  then show "s_history (tn_session (open_batch E r st)) = s_history (tn_session st) @ [stored_request E r]"
    "tn_rows (open_batch E r st) = tn_rows st @ rows_if E [stored_request E r]"
    by (simp_all add: open_batch_def turn_frame persist_rows)
qed

subsection \<open>Properties of a batch\<close>

text \<open>C20: A batch without a yield runs the first \<open>k\<close> calls of the answer, at least one, in their order, and
  the history then declares exactly these \<open>k\<close> calls and holds one result for each, in the same order;
  all calls are run unless the turn is aborted.  What was stored on disk, however, still declares every
  call of the answer, the ones that never ran included.\<close>

theorem batch_answers_calls:
  assumes "execute_tool_batch E r st = Ret (out, st')" and "response_calls r \<noteq> []"
    and "\<forall>c \<in> set (response_calls r). \<not> is_yield c"
  shows "\<exists>k outs. 0 < k \<and> k \<le> length (response_calls r) \<and> length outs = k
    \<and> (out = Batch_Continue \<longrightarrow> k = length (response_calls r)) \<and> (out \<noteq> Batch_Continue \<longrightarrow> (\<exists>e. out = Batch_Abort e))
    \<and> tn_ran st' = tn_ran st @ take k (response_calls r)
    \<and> s_history (tn_session st') = s_history (tn_session st)
        @ (stored_request E r)\<lparr>cm_tool_calls := Some (take k (response_calls r))\<rparr>
        # map (\<lambda>(c, content, err). stored_result c content err) (zip (take k (response_calls r)) outs)
    \<and> tn_rows st' = tn_rows st @ rows_if E (stored_request E r
        # map (\<lambda>(c, content, err). stored_result c content err) (zip (take k (response_calls r)) outs))"
proof -
  from run_batch_answers [OF assms(1) [unfolded execute_tool_batch_def] assms(3)
      open_batch_effect(1) [OF assms(2)], of "[]"]
  obtain k where k: "answered E (s_history (tn_session st)) (stored_request E r) [] (response_calls r) []
      (open_batch E r st) k st'" "0 < k" "out = Batch_Continue \<longrightarrow> k = length (response_calls r)"
    "out \<noteq> Batch_Continue \<longrightarrow> (\<exists>e. out = Batch_Abort e)" using assms(2) by auto
  from k(1) obtain outs where "length outs = k" "k \<le> length (response_calls r)"
    "s_history (tn_session st') = s_history (tn_session st)
        @ (stored_request E r)\<lparr>cm_tool_calls := Some (take k (response_calls r))\<rparr>
        # map (\<lambda>(c, content, err). stored_result c content err) (zip (take k (response_calls r)) outs)"
    "tn_rows st' = tn_rows (open_batch E r st)
        @ rows_if E (map (\<lambda>(c, content, err). stored_result c content err) (zip (take k (response_calls r)) outs))"
    "tn_ran st' = tn_ran st @ take k (response_calls r)"
    by (auto simp: answered_def turn_frame)
  then show ?thesis using k(2-4) open_batch_effect(2) [OF assms(2), of E st]
    by (intro exI [of _ k] exI [of _ outs]) (auto simp: rows_if_def)
qed

text \<open>A yield that is the only call of an answer and is filled in the frame is answered in the history but not in
  the messages of the turn: these gain the declaration of the call only.  The next request is built from them, unless
  a compaction rebuilds them from the history first.\<close>

theorem filled_yield_not_sent:
  assumes "response_calls r = [c]" and "is_yield c"
    and "run_call E c (begin_call E c (open_batch E r st)) = Ret ((content, False), st1)"
    and "execute_tool_batch E r st = Ret (Batch_Continue, st')"
  shows "tn_messages st' = tn_messages st @ [assistant_request r]
    \<and> (\<exists>answer. last (s_history (tn_session st')) = stored_result c answer False)
    \<and> s_pending_yield (tn_session st') = None"
proof -
  have cn: "call_name c = cps ''sessions_yield''" using assms(2) by (simp add: is_yield_def)
  have fill: "s_pending_yield (tn_session (fill_yield E (call_id c) x s)) = None"
    "last (s_history (tn_session (fill_yield E (call_id c) x s))) = stored_result c x False" for x s
    by (simp_all add: fill_yield_def turn_frame stored_result_def cn)
       (simp add: add_tool_result_def push_message_def)
  note run = assms(4) [unfolded execute_tool_batch_def assms(1)]
  from run show ?thesis
  proof (cases rule: run_batch_cases)
    case (loop content' err st2 k reason')
    then show ?thesis by simp
  next
    case (yield content' st2 k)
    note f = run_call_frame [OF yield(1), unfolded turn_frame]
    let ?s = "on_session (strip_trailing_tool_calls 0) (called E c content' False k st2)"
    obtain a filled where a: "te_park E (length (tn_ran ?s)) = Some a"
      "park_for_yield E a (call_id c) ?s = (filled, st')" "filled"
      using yield(5) by (auto simp: yield_in_frame_def split: option.splits prod.splits bool.splits)
    have ms: "tn_messages ?s = tn_messages st @ [assistant_request r]"
      using f(3) assms(2) by (simp add: called_def record_result_def Let_def turn_frame split: option.split)
    have "(\<exists>x s. st' = fill_yield E (call_id c) x s)"
      using a(2,3) by (auto simp: park_for_yield_def Let_def split: park_answer.splits option.splits if_splits)
    then show ?thesis using park_frame(4) [OF a(2)] ms fill by auto
  next
    case (limit content' err st2 k reason')
    then show ?thesis by simp
  next
    case (more content' err st2 k)
    then show ?thesis using assms(2,3) by simp
  qed
qed

text \<open>A limit of zero, which the configuration documents as no limit, aborts every batch after its first
  call unless that call is a yield.\<close>

theorem zero_limit_aborts:
  assumes "execute_tool_batch E r st = Ret (out, st')" and "response_calls r = c # cs"
    and "call_limit st = 0" and "\<not> is_yield c"
  shows "(\<exists>e. out = Batch_Abort (Loop_Broken e)) \<and> tn_ran st' = tn_ran st @ [c]"
proof -
  note run = assms(1) [unfolded execute_tool_batch_def assms(2)]
  have lim: "max_tool_calls (config (tn_counter (open_batch E r st))) = 0"
    using assms(3) by (simp add: call_limit_def turn_frame)
  from run show ?thesis
  proof (cases rule: run_batch_cases)
    case (loop content err st1 k reason')
    then show ?thesis using run_call_frame(4) [OF loop(1)] by (simp add: turn_frame)
  next
    case (yield content st1 k)
    then show ?thesis using assms(4) by simp
  next
    case (limit content err st1 k reason')
    then show ?thesis using run_call_frame(4) [OF limit(1)] by (simp add: turn_frame)
  next
    case (more content err st1 k)
    then show ?thesis using lim by (simp add: counted_def)
  qed
qed

subsection \<open>Recovery\<close>

text \<open>The result recovery stores for a call; \<open>i\<close>: the call the marker file names.\<close>

definition recovery_result :: "('m, 'j) turn_env \<Rightarrow> turn_setup \<Rightarrow> utext option \<Rightarrow> tool_call \<Rightarrow> chat_message" where
  "recovery_result E S i c = stored_result c (fst (interrupted_result E S i c)) (snd (interrupted_result E S i c))"

lemma close_interrupted_history:
  "s_history (tn_session (close_interrupted E S i c st)) = s_history (tn_session st) @ [recovery_result E S i c]"
  by (simp add: close_interrupted_def recovery_result_def turn_frame stored_result_def split: prod.split)

lemma close_fold_history:
  "s_history (tn_session (fold (close_interrupted E S i) cs st))
     = s_history (tn_session st) @ map (recovery_result E S i) cs"
  by (induction cs arbitrary: st) (simp_all add: close_interrupted_history)

lemma close_fold_marker: "tn_marker (fold (close_interrupted E S i) cs st) = tn_marker st"
  by (induction cs arbitrary: st) (simp_all add: close_interrupted_def turn_frame split: prod.split)

lemma close_orphans_history:
  "s_history (tn_session (close_orphans E S pending st))
     = s_history (tn_session st) @ map (recovery_result E S (marker_read E st)) pending"
  using close_fold_history [of E S "marker_read E st" pending st]
  by (simp add: close_orphans_def Let_def turn_frame)

lemma recovery_result_simps [simp]:
  "cm_role (recovery_result E S i c) = ''tool''" "cm_tool_call_id (recovery_result E S i c) = Some (call_id c)"
  by (simp_all add: recovery_result_def stored_result_def text_message_def)

text \<open>The calls of a message that none of the results behind it answers.\<close>

definition open_calls :: "chat_message \<Rightarrow> chat_message list \<Rightarrow> tool_call list" where
  "open_calls m results = filter (\<lambda>c. \<forall>r \<in> set results. cm_tool_call_id r \<noteq> Some (call_id c)) (calls_of m)"

lemma walk_open:
  assumes "list_all is_tool ts" "is_assistant m"
  shows "recovery_walk (rev (a @ m # ts)) C T =
     (filter (\<lambda>c. call_id c \<notin> C \<and> (\<forall>r \<in> set ts. cm_tool_call_id r \<noteq> Some (call_id c))) (calls_of m), T \<or> ts \<noteq> [], False)"
  using assms
proof (induction ts arbitrary: C T rule: rev_induct)
  case (snoc r ts)
  show ?case
  proof (cases "cm_tool_call_id r")
    case None
    then show ?thesis using snoc by (auto intro!: filter_cong)
  next
    case (Some i)
    then show ?thesis using snoc by (auto intro!: filter_cong)
  qed
qed simp

text \<open>C21: A turn interrupted in its tools is recovered without running a tool.  When the history ends in an assistant
  message and results behind it that leave calls of it open (and the one open call is not the yield the session
  waits on), recovery appends exactly one result for each open call, in the order of the calls: an error saying
  that the call was interrupted, or the fate of the shell command the marker file names.  Then every call of
  the message has a result and nothing is open; the marker file is consumed only when it names an open call;
  and the loop runs on the repaired history.\<close>

theorem recovery_answers_orphans:
  assumes "s_history (tn_session st) = a @ m # ts" "is_assistant m" "list_all is_tool ts" "pending = open_calls m ts" "pending \<noteq> []"
    and "\<not> (length pending = 1 \<and> is_yield (hd pending)
        \<and> (case s_pending_yield (tn_session st) of Some p \<Rightarrow> py_tool_call_id p = call_id (hd pending) | None \<Rightarrow> False))"
  shows "\<exists>st1 new. run_recovery E S st = map_option (map_run (\<lambda>(res, s'). (map_sum id Some res, s'))) (run_inner E S st1)
    \<and> tn_ran st1 = tn_ran st
    \<and> s_history (tn_session st1) = a @ m # ts @ new
    \<and> new = map (recovery_result E S (marker_read E st)) pending
    \<and> open_calls m (ts @ new) = []
    \<and> tn_marker st1 = (if te_sessions_dir E \<and> list_ex (\<lambda>c. tn_marker st = Some (call_id c)) pending
                        then None else tn_marker st)"
proof -
  let ?st1 = "close_orphans E S pending st" and ?new = "map (recovery_result E S (marker_read E st)) pending"
  have walk: "recovery_walk (rev (s_history (tn_session st))) {} False = (pending, ts \<noteq> [], False)"
    unfolding assms(1) walk_open [OF assms(3,2)] by (simp add: assms(4) open_calls_def)
  have "s_history (tn_session st) \<noteq> []" using assms(1) by simp
  then have "run_recovery E S st = map_option (map_run (\<lambda>(res, s'). (map_sum id Some res, s'))) (run_inner E S ?st1)"
    using assms(5) unfolding run_recovery_def Let_def walk prod.case if_not_P [OF assms(6)] by simp
  moreover have "open_calls m (ts @ ?new) = []"
    by (auto simp: assms(4) open_calls_def filter_empty_conv bex_Un)
  moreover have "tn_marker ?st1 = (if te_sessions_dir E \<and> list_ex (\<lambda>c. tn_marker st = Some (call_id c)) pending
      then None else tn_marker st)"
    by (auto simp: close_orphans_def Let_def marker_read_def marker_clear_def close_fold_marker list_ex_iff)
  moreover have "s_history (tn_session ?st1) = a @ m # ts @ ?new"
    using assms(1) by (simp add: close_orphans_history)
  ultimately show ?thesis by (intro exI [of _ ?st1] exI [of _ ?new]) (simp add: turn_frame)
qed

lemma recovery_walk_tail:
  "recovery_walk ms C T = (p, t, u) \<Longrightarrow> tail_walk ms C T = (p, t) \<and> (T \<longrightarrow> t)
     \<and> (u \<longrightarrow> t \<or> (ms \<noteq> [] \<and> is_user (hd ms)))"
proof (induction ms arbitrary: C T)
  case (Cons m ms)
  show ?case
  proof (cases "is_tool m")
    case True
    then have "recovery_walk ms (case cm_tool_call_id m of Some t \<Rightarrow> insert t C | None \<Rightarrow> C) True = (p, t, u)"
      using Cons.prems by simp
    from Cons.IH [OF this] True show ?thesis by simp
  next
    case False
    then show ?thesis using Cons.prems by (auto split: if_splits)
  qed
qed simp

text \<open>The recovery of a turn and the flag computed when a session is loaded agree on which histories end in
  the middle of a turn.\<close>

theorem recovery_iff_incomplete:
  "(case recovery_walk (rev h) {} False of (pending, tools, user) \<Rightarrow> pending \<noteq> [] \<or> tools \<or> user)
    = history_has_incomplete_turn h"
proof (cases "h = []")
  case True
  then show ?thesis by (simp add: history_has_incomplete_turn_def)
next
  case False
  then obtain m ms where h: "rev h = m # ms" "last h = m" by (cases "rev h") (auto simp: last_conv_nth hd_rev [symmetric])
  obtain p t u where w: "recovery_walk (rev h) {} False = (p, t, u)" by (metis surj_pair)
  note tw = recovery_walk_tail [OF w]
  show ?thesis
  proof (cases "is_user m")
    case True
    then have "u" using w h by auto
    then show ?thesis using w True h(2) False by (simp add: history_has_incomplete_turn_def)
  next
    case False
    then have "u \<longrightarrow> t" using tw h(1) by simp
    then show ?thesis using w tw h False \<open>h \<noteq> []\<close> by (auto simp: history_has_incomplete_turn_def)
  qed
qed

subsection \<open>Concrete turns\<close>

text \<open>An agent with two tools, a model that answers in the end, a hook, and a yield that finds an event waiting.\<close>

definition demo_tool :: "string \<Rightarrow> nat tool_def" where
  "demo_tool n = \<lparr>td_name = cps n, td_preferred_secs = None, td_blocks_on_human = False, td_max_output_tokens = 100,
     td_run = (\<lambda>_. (0, Inr \<lparr>tr_success = True, tr_output = [], tr_error = None\<rparr>))\<rparr>"

definition demo_exec :: "nat exec_env" where
  "demo_exec = \<lparr>ex_args = \<lparr>aj_parse = (\<lambda>_. Some 0), aj_command = (\<lambda>_. None), aj_empty = 0, aj_raw = (\<lambda>_. 0)\<rparr>,
     ex_approval = \<lparr>ap_router = False, ap_channel_sends = None, ap_reply_target = None, ap_reply = None\<rparr>,
     ex_meminfo = None, ex_timeout_secs = 0, ex_allowed = map demo_tool [''look'', ''sessions_yield'']\<rparr>"

definition demo_env :: "(unit, nat) turn_env" where
  "demo_env = \<lparr>te_llm = half_then_whole, te_engine = sample_env, te_system = [], te_model = cps ''m'', te_override = None,
     te_specs = [], te_provider_id = (\<lambda>_. None), te_hook = Some (\<lambda>_ _. None), te_exec = (\<lambda>_. demo_exec),
     te_permission = Full, te_clock = (\<lambda>n. n), te_stopped = (\<lambda>_. (False, False, False)), te_reminder = (\<lambda>_ _. None),
     te_deadline = None, te_unix = (\<lambda>_. 0), te_mails = (\<lambda>_. []), te_time_text = (\<lambda>_. []), te_channel = False,
     te_sessions_dir = True, te_park = (\<lambda>_. Some (Already_Queued (cps ''news''))), te_silenced = False,
     te_owner_fqid = []\<rparr>"

definition demo_state :: "nat \<Rightarrow> chat_message list \<Rightarrow> (unit, nat) turn_state" where
  "demo_state limit h = \<lparr>tn_engine = \<lparr>es_session = (new_session (cps ''s''))\<lparr>s_history := h\<rparr>,
       es_log = \<lparr>sl_requests = 0, sl_tools = []\<rparr>, es_persisted = []\<rparr>,
     tn_llm = fresh_llm, tn_flags = fresh_flags, tn_counter = new_counter_with_max default_config limit,
     tn_messages = h, tn_marker = None, tn_inbox = None, tn_injections = [], tn_round = 0, tn_rows = [],
     tn_saved_tokens = [], tn_ran = [], tn_progress = [], tn_forks = [], tn_requeued = []\<rparr>"

definition demo_setup :: "nat \<Rightarrow> turn_setup" where
  "demo_setup limit = \<lparr>su_tools = [], su_config = \<lparr>sa_name = [], sa_system_prompt = [], sa_tools = all_names,
       sa_skills = all_names, sa_mcp = all_names, sa_max_tool_calls = Some limit, sa_description = None,
       sa_model = None, sa_isolation = Shared, sa_timeout = None\<rparr>,
     su_allowlist = None, su_channel = None, su_by_model = (\<lambda>_. None), su_default_model = Inr (cps ''m''),
     su_policy = (\<lambda>_. None), su_spec = (\<lambda>n. \<lparr>ts_name = cps n, ts_description = None, ts_schema = []\<rparr>),
     su_breaker = default_config, su_shell_summary = None, su_hot_switch = False\<rparr>"

definition demo_call :: "string \<Rightarrow> string \<Rightarrow> tool_call" where
  "demo_call i n = \<lparr>call_id = cps i, call_name = cps n, call_arguments = []\<rparr>"

definition demo_answer :: "(string \<times> string) list \<Rightarrow> collected" where
  "demo_answer cs = collected_init\<lparr>co_calls := map (\<lambda>(i, n). \<lparr>tc_id = utf8_bytes (cps i), tc_name = utf8_bytes (cps n),
     tc_arguments = utf8_bytes []\<rparr>) cs\<rparr>"

lemma demo_calls:
  "response_calls (demo_answer [(''a'', ''look''), (''b'', ''look'')]) = [demo_call ''a'' ''look'', demo_call ''b'' ''look'']"
  "response_calls (demo_answer [(''y'', ''sessions_yield'')]) = [demo_call ''y'' ''sessions_yield'']"
  by (simp_all add: response_calls_def demo_answer_def decode_call_def demo_call_def collected_init_def
      utf8_chars_bytes scalar_def cps_def)

lemma demo_runs:
  assumes "c = demo_call i n" "n = ''look'' \<or> n = ''sessions_yield''"
  shows "\<exists>st1. run_call demo_env c st = Ret (([], False), st1)"
proof -
  have "execute_tool demo_exec (Some Full) c = Ret (Inr \<lparr>tr_success = True, tr_output = [], tr_error = None\<rparr>, True)"
    using assms
    by (auto simp: execute_tool_def dispatch_tool_def demo_exec_def demo_call_def demo_tool_def run_tool_def
        parse_tool_args_def truncate_output_def approx_tokens_def map_run_def cps_def)
  then show ?thesis by (simp add: run_call_def demo_env_def result_of_def map_run_def Let_def)
qed

lemma run_batch_returns:
  "(\<And>c st. c \<in> set cs \<Longrightarrow> \<exists>x. run_call E c st = Ret x) \<Longrightarrow> \<exists>x. run_batch E r cs st = Ret x"
proof (induction cs arbitrary: st)
  case (Cons c cs)
  obtain content err st1 where rc: "run_call E c (begin_call E c st) = Ret ((content, err), st1)"
    using Cons.prems [of c] by (metis list.set_intros(1) surj_pair)
  obtain b k where k: "record_and_check (te_clock E (length (tn_ran st1))) (utf8_bytes (call_name c))
      (utf8_bytes (call_arguments c)) (utf8_bytes content) (tn_counter st1) = (b, k)" by fastforce
  have ih: "\<exists>x. run_batch E r cs s = Ret x" for s using Cons by simp
  have "\<exists>a b. run_batch E r cs s = Ret (a, b)" for s using ih [of s] by (metis surj_pair)
  then show ?case unfolding run_batch.simps rc bind_run.simps prod.case k Let_def
    by (cases b) (auto split: if_splits)
qed simp

lemma demo_batch_returns:
  "\<exists>out st'. execute_tool_batch demo_env (demo_answer [(''a'', ''look''), (''b'', ''look'')]) st = Ret (out, st')"
proof -
  have "\<exists>x. execute_tool_batch demo_env (demo_answer [(''a'', ''look''), (''b'', ''look'')]) st = Ret x"
    unfolding execute_tool_batch_def demo_calls
    by (rule run_batch_returns) (use demo_runs [of _ _ "''look''"] in fastforce)
  then show ?thesis by (metis surj_pair)
qed

lemma first_call_passes:
  "check_loops (push_invocation iv (new_counter_with_max default_config (Suc n))) = NoLoop"
  by (simp add: check_loops_def push_invocation_def new_counter_with_max_def new_counter_def default_config_def
      check_exact_repeat_def check_ping_pong_def check_no_progress_def no_progress_limit_def Let_def)

theorem batch_answers_calls_witness:
  "\<exists>out st' k. execute_tool_batch demo_env (demo_answer [(''a'', ''look''), (''b'', ''look'')]) (demo_state 1 [])
       = Ret (out, st')
    \<and> 0 < k \<and> tn_ran st' = take k [demo_call ''a'' ''look'', demo_call ''b'' ''look'']"
proof -
  let ?r = "demo_answer [(''a'', ''look''), (''b'', ''look'')]"
  obtain out st' where run: "execute_tool_batch demo_env ?r (demo_state 1 []) = Ret (out, st')"
    using demo_batch_returns by blast
  have "response_calls ?r \<noteq> []" "\<forall>c \<in> set (response_calls ?r). \<not> is_yield c"
    by (simp_all add: demo_calls demo_call_def is_yield_def cps_def)
  from batch_answers_calls [OF run this] obtain k
    where "0 < k" "tn_ran st' = tn_ran (demo_state 1 []) @ take k (response_calls ?r)" by blast
  moreover have "tn_ran (demo_state 1 []) = []" by (simp add: demo_state_def)
  ultimately show ?thesis using run demo_calls(1) by auto
qed

theorem filled_yield_not_sent_witness:
  "\<exists>st'. execute_tool_batch demo_env (demo_answer [(''y'', ''sessions_yield'')]) (demo_state 9 []) = Ret (Batch_Continue, st')
    \<and> tn_messages st' = [assistant_request (demo_answer [(''y'', ''sessions_yield'')])]
    \<and> s_pending_yield (tn_session st') = None"
proof -
  let ?r = "demo_answer [(''y'', ''sessions_yield'')]" and ?c = "demo_call ''y'' ''sessions_yield''"
  let ?st = "demo_state 9 []"
  obtain st1 where rc: "run_call demo_env ?c (begin_call demo_env ?c (open_batch demo_env ?r ?st)) = Ret (([], False), st1)"
    using demo_runs by blast
  have cnt: "tn_counter st1 = new_counter_with_max default_config (Suc 8)"
    using run_call_frame(1) [OF rc] by (simp add: turn_frame demo_state_def)
  have y: "is_yield ?c" by (simp add: is_yield_def demo_call_def)
  have "check_loops (push_invocation iv (tn_counter st1)) = NoLoop" for iv
    unfolding cnt by (rule first_call_passes)
  then obtain k where k: "record_and_check (te_clock demo_env (length (tn_ran st1))) (utf8_bytes (call_name ?c))
      (utf8_bytes (call_arguments ?c)) (utf8_bytes []) (tn_counter st1) = (NoLoop, k)"
    by (simp add: record_and_check_def Let_def)
  have park: "yield_in_frame demo_env ?r ?c s = (Batch_Continue, fill_yield demo_env (call_id ?c) (cps ''news'') s)" for s
    by (simp add: yield_in_frame_def park_for_yield_def demo_env_def)
  have "\<exists>st'. execute_tool_batch demo_env ?r ?st = Ret (Batch_Continue, st')"
    unfolding execute_tool_batch_def demo_calls run_batch.simps rc bind_run.simps prod.case k Let_def
    using y by (simp add: park)
  then obtain st' where run: "execute_tool_batch demo_env ?r ?st = Ret (Batch_Continue, st')" by blast
  from filled_yield_not_sent [OF demo_calls(2) y rc run] run show ?thesis by (auto simp: demo_state_def)
qed

theorem zero_limit_aborts_witness:
  "\<exists>out st' e. execute_tool_batch demo_env (demo_answer [(''a'', ''look''), (''b'', ''look'')]) (demo_state 0 [])
       = Ret (out, st') \<and> out = Batch_Abort (Loop_Broken e) \<and> tn_ran st' = [demo_call ''a'' ''look'']"
proof -
  let ?r = "demo_answer [(''a'', ''look''), (''b'', ''look'')]"
  obtain out st' where run: "execute_tool_batch demo_env ?r (demo_state 0 []) = Ret (out, st')"
    using demo_batch_returns by blast
  have "call_limit (demo_state 0 []) = 0" "\<not> is_yield (demo_call ''a'' ''look'')"
    by (simp_all add: call_limit_def demo_state_def new_counter_with_max_def new_counter_def demo_call_def is_yield_def cps_def)
  from zero_limit_aborts [OF run demo_calls(1) this] run show ?thesis by (auto simp: demo_state_def)
qed

theorem recovery_answers_orphans_witness:
  "\<exists>st1. run_recovery demo_env (demo_setup 5) (demo_state 5 [user_text [], (assistant_text [])\<lparr>cm_tool_calls := Some [demo_call ''a'' ''look'']\<rparr>])
      = map_option (map_run (\<lambda>(res, s'). (map_sum id Some res, s'))) (run_inner demo_env (demo_setup 5) st1)
    \<and> tn_ran st1 = [] \<and> length (s_history (tn_session st1)) = 3"
proof -
  let ?m = "(assistant_text [])\<lparr>cm_tool_calls := Some [demo_call ''a'' ''look'']\<rparr>"
  have h: "s_history (tn_session (demo_state 5 [user_text [], ?m])) = [user_text []] @ ?m # []" by (simp add: demo_state_def)
  have o': "open_calls ?m [] = [demo_call ''a'' ''look'']" by (simp add: open_calls_def calls_of_def)
  have y: "\<not> is_yield (demo_call ''a'' ''look'')" by (simp add: demo_call_def is_yield_def cps_def)
  have "is_assistant ?m" "list_all is_tool []" by simp_all
  from recovery_answers_orphans [OF h this refl, of demo_env "demo_setup 5"] o' y
  show ?thesis by (fastforce simp: demo_state_def)
qed

theorem turn_ends_witness:
  "\<exists>x. run_turn demo_env (demo_setup 5) (demo_state 5 [user_text []]) = Some x
    \<and> (\<forall>res st'. x = Ret (res, st') \<longrightarrow> requests st' \<le> 39)"
proof -
  have "0 < turn_limit (demo_setup 5)" by (simp add: turn_limit_def demo_setup_def)
  from turn_ends [OF this, of demo_env "demo_state 5 [user_text []]"] show ?thesis
    by (simp add: demo_state_def fresh_llm_def turn_limit_def demo_setup_def)
qed

end
