(* ===== verification/Suspension.thy ===== *)
theory Suspension
  imports Agent_Loop
begin

text \<open>
  The suspension of a session's turn on asynchronous work (\<open>agents/turn.rs\<close>,
  \<open>agents/session_context/mod.rs\<close>, \<open>suspension.rs\<close>): tasks are registered, their terminal events
  collected, and the suspension is dropped when nothing is pending.  The state holds the content of
  \<open>suspension.json\<close>; writing a value and parsing it back gives the value, and writes succeed.
  Instants are nanoseconds.
\<close>

subsection \<open>Data\<close>

datatype sub_status = Sub_Completed | Sub_Failed | Sub_Timed_Out

record sub_result =
  sr_id :: utext
  sr_status :: sub_status
  sr_content :: utext
  sr_sent :: nat
  sr_progress :: "utext list"

record fold_candidate =
  fc_msg_id :: utext
  fc_text :: utext
  fc_thinking_steps :: nat
  fc_tool_count :: nat
  fc_commentary_notes :: nat
  fc_started_at :: "nat option"

record preview_state =
  pv_reply_target :: utext
  pv_msg_id :: utext
  pv_text :: utext
  pv_thinking_steps :: nat
  pv_tool_count :: nat
  pv_commentary_notes :: nat
  pv_started_at :: "nat option"

record turn_suspension =
  su_origin :: nat
  su_at :: nat
  su_pending :: "utext list"
  su_results :: "sub_result list"
  su_progress :: "utext \<rightharpoonup> utext list"
  su_preview :: "preview_state option"

definition new_suspension :: "nat \<Rightarrow> utext \<Rightarrow> turn_suspension" where
  "new_suspension now i =
     \<lparr>su_origin = 0, su_at = now, su_pending = [i], su_results = [], su_progress = Map.empty, su_preview = None\<rparr>"

definition add_pending :: "utext \<Rightarrow> turn_suspension \<Rightarrow> turn_suspension" where
  "add_pending i s = (if i \<in> set (su_pending s) then s else s\<lparr>su_pending := su_pending s @ [i]\<rparr>)"

record delegation_notice =
  dn_id :: utext
  dn_content :: utext
  dn_silenced :: "bool option"

text \<open>A file of one field: absent or empty, not parseable, or a value.\<close>

datatype 'a field_file = No_File | Bad_Json | Json 'a

definition restore_field :: "bool \<Rightarrow> 'a field_file \<Rightarrow> 'a option" where
  "restore_field hook f = (if \<not> hook then None else case f of Json x \<Rightarrow> Some x | _ \<Rightarrow> None)"

definition persist_field :: "bool \<Rightarrow> 'a option \<Rightarrow> 'a field_file \<Rightarrow> 'a field_file" where
  "persist_field hook v f = (if \<not> hook then f else case v of Some x \<Rightarrow> Json x | None \<Rightarrow> No_File)"

record susp_state =
  sx_hook :: bool
  sx_suspension :: "turn_suspension option"
  sx_file :: "turn_suspension field_file"
  sx_notice_turns :: nat
  sx_notices :: "delegation_notice list"
  sx_recent :: "(utext \<times> nat) list"

text \<open>A context made for a session, at the start and after a restart.\<close>

definition new_context :: "bool \<Rightarrow> turn_suspension field_file \<Rightarrow> susp_state" where
  "new_context hook f =
     \<lparr>sx_hook = hook, sx_suspension = restore_field hook f, sx_file = f, sx_notice_turns = 0,
      sx_notices = [], sx_recent = []\<rparr>"

definition persist_suspension :: "susp_state \<Rightarrow> susp_state" where
  "persist_suspension st = st\<lparr>sx_file := persist_field (sx_hook st) (sx_suspension st) (sx_file st)\<rparr>"

subsection \<open>Operations\<close>

definition add_pending_task :: "nat \<Rightarrow> utext \<Rightarrow> susp_state \<Rightarrow> susp_state" where
  "add_pending_task now i st =
     persist_suspension (st\<lparr>sx_suspension := (case sx_suspension st of
         Some s \<Rightarrow> Some (add_pending i s)
       | None \<Rightarrow> Some (new_suspension now i))\<rparr>)"

definition has_pending_async_work :: "susp_state \<Rightarrow> bool" where
  "has_pending_async_work st = (case sx_suspension st of Some s \<Rightarrow> su_pending s \<noteq> [] | None \<Rightarrow> False)"

text \<open>The counter is a 64-bit \<open>usize\<close>: the increment wraps, the decrement saturates.\<close>

definition bump_notice_turn :: "susp_state \<Rightarrow> susp_state" where
  "bump_notice_turn st = st\<lparr>sx_notice_turns := (sx_notice_turns st + 1) mod 2 ^ 64\<rparr>"

definition finish_notice_turn :: "susp_state \<Rightarrow> susp_state" where
  "finish_notice_turn st = st\<lparr>sx_notice_turns := sx_notice_turns st - 1\<rparr>"

definition has_notice_turns_in_flight :: "susp_state \<Rightarrow> bool" where
  "has_notice_turns_in_flight st \<longleftrightarrow> 0 < sx_notice_turns st \<or> sx_notices st \<noteq> []"

definition enqueue_delegation_notice :: "delegation_notice \<Rightarrow> susp_state \<Rightarrow> susp_state" where
  "enqueue_delegation_notice n st = st\<lparr>sx_notices := sx_notices st @ [n]\<rparr>"

definition take_delegation_notices :: "susp_state \<Rightarrow> delegation_notice list \<times> susp_state" where
  "take_delegation_notices st = (sx_notices st, st\<lparr>sx_notices := []\<rparr>)"

definition has_queued_delegation_notices :: "susp_state \<Rightarrow> bool" where
  "has_queued_delegation_notices st \<longleftrightarrow> sx_notices st \<noteq> []"

definition add_progress :: "utext \<Rightarrow> utext \<Rightarrow> susp_state \<Rightarrow> susp_state" where
  "add_progress i t st =
     persist_suspension (st\<lparr>sx_suspension := map_option (\<lambda>s. s\<lparr>su_progress := (su_progress s)
         (i \<mapsto> (case su_progress s i of Some ts \<Rightarrow> ts | None \<Rightarrow> []) @ [t])\<rparr>) (sx_suspension st)\<rparr>)"

datatype terminal_record = Term_Recorded turn_suspension | Term_Duplicate | Term_No_Suspension

definition recent_window :: nat where "recent_window = from_secs 3600"

definition currently_pending :: "utext \<Rightarrow> susp_state \<Rightarrow> bool" where
  "currently_pending i st = (case sx_suspension st of Some s \<Rightarrow> i \<in> set (su_pending s) | None \<Rightarrow> False)"

definition prune_recent :: "nat \<Rightarrow> susp_state \<Rightarrow> susp_state" where
  "prune_recent now st = st\<lparr>sx_recent := filter (\<lambda>(_, t). now - t \<le> recent_window) (sx_recent st)\<rparr>"

definition collect_terminal :: "utext \<Rightarrow> sub_status \<Rightarrow> utext \<Rightarrow> nat \<Rightarrow> turn_suspension \<Rightarrow> turn_suspension" where
  "collect_terminal i status content sent s =
     s\<lparr>su_pending := filter (\<lambda>t. t \<noteq> i) (su_pending s),
       su_progress := (su_progress s)(i := None),
       su_results := su_results s @ [\<lparr>sr_id = i, sr_status = status, sr_content = content, sr_sent = sent,
         sr_progress = (case su_progress s i of Some ts \<Rightarrow> ts | None \<Rightarrow> [])\<rparr>]\<rparr>"

definition record_terminal ::
  "nat \<Rightarrow> nat \<Rightarrow> utext \<Rightarrow> sub_status \<Rightarrow> utext \<Rightarrow> nat \<Rightarrow> susp_state \<Rightarrow> terminal_record \<times> susp_state" where
  "record_terminal now later i status content sent st =
     (let p = currently_pending i st;
          st1 = (if p then st else prune_recent now st)
      in if \<not> p \<and> i \<in> fst ` set (sx_recent st1) then (Term_Duplicate, st1)
         else case sx_suspension st1 of
           None \<Rightarrow> (Term_No_Suspension, st1)
         | Some s \<Rightarrow>
             if i \<notin> set (su_pending s) \<and> i \<in> sr_id ` set (su_results s) then (Term_Duplicate, st1)
             else let s' = collect_terminal i status content sent s;
                      st2 = persist_suspension (st1\<lparr>sx_suspension := Some s'\<rparr>)
                  in (Term_Recorded s', st2\<lparr>sx_recent := sx_recent st2 @ [(i, later)]\<rparr>))"

definition clear_suspension_if_collected :: "susp_state \<Rightarrow> susp_state" where
  "clear_suspension_if_collected st =
     persist_suspension (case sx_suspension st of
         Some s \<Rightarrow> if su_pending s = [] \<and> \<not> has_notice_turns_in_flight st then st\<lparr>sx_suspension := None\<rparr> else st
       | None \<Rightarrow> st)"

definition set_preview :: "utext \<Rightarrow> fold_candidate \<Rightarrow> susp_state \<Rightarrow> susp_state" where
  "set_preview target f st =
     persist_suspension (st\<lparr>sx_suspension := map_option (\<lambda>s. s\<lparr>su_preview := Some
         \<lparr>pv_reply_target = target, pv_msg_id = fc_msg_id f, pv_text = fc_text f,
          pv_thinking_steps = fc_thinking_steps f, pv_tool_count = fc_tool_count f,
          pv_commentary_notes = fc_commentary_notes f, pv_started_at = fc_started_at f\<rparr>\<rparr>) (sx_suspension st)\<rparr>)"

subsection \<open>Runs of operations\<close>

datatype susp_op =
    Add_Pending nat utext
  | Add_Progress utext utext
  | Terminal nat nat utext sub_status utext nat
  | Clear
  | Set_Preview utext fold_candidate
  | Bump
  | Finish
  | Enqueue delegation_notice
  | Take
  | Restart

primrec susp_step :: "susp_op \<Rightarrow> susp_state \<Rightarrow> susp_state" where
  "susp_step (Add_Pending now i) st = add_pending_task now i st"
| "susp_step (Add_Progress i t) st = add_progress i t st"
| "susp_step (Terminal now later i status content sent) st =
     snd (record_terminal now later i status content sent st)"
| "susp_step Clear st = clear_suspension_if_collected st"
| "susp_step (Set_Preview target f) st = set_preview target f st"
| "susp_step Bump st = bump_notice_turn st"
| "susp_step Finish st = finish_notice_turn st"
| "susp_step (Enqueue n) st = enqueue_delegation_notice n st"
| "susp_step Take st = snd (take_delegation_notices st)"
| "susp_step Restart st = new_context (sx_hook st) (sx_file st)"

definition run_susp :: "susp_op list \<Rightarrow> susp_state \<Rightarrow> susp_state" where
  "run_susp ops st = fold susp_step ops st"

lemma run_susp_simps [simp]:
  "run_susp [] st = st" "run_susp (p # ops) st = run_susp ops (susp_step p st)"
  by (simp_all add: run_susp_def)

primrec registers :: "utext \<Rightarrow> susp_op \<Rightarrow> bool" where
  "registers i (Add_Pending now j) \<longleftrightarrow> j = i"
| "registers i (Add_Progress j t) \<longleftrightarrow> False"
| "registers i (Terminal now later j status content sent) \<longleftrightarrow> False"
| "registers i Clear \<longleftrightarrow> False"
| "registers i (Set_Preview target f) \<longleftrightarrow> False"
| "registers i Bump \<longleftrightarrow> False"
| "registers i Finish \<longleftrightarrow> False"
| "registers i (Enqueue n) \<longleftrightarrow> False"
| "registers i Take \<longleftrightarrow> False"
| "registers i Restart \<longleftrightarrow> False"

definition collects :: "utext \<Rightarrow> susp_op \<Rightarrow> bool" where
  "collects i p = (case p of Terminal _ _ j _ _ _ \<Rightarrow> j = i | _ \<Rightarrow> False)"

definition no_later_than :: "nat \<Rightarrow> susp_op \<Rightarrow> bool" where
  "no_later_than deadline p = (case p of Terminal now _ _ _ _ _ \<Rightarrow> now \<le> deadline | _ \<Rightarrow> True)"

text \<open>With a hook, the file is the memory.\<close>

definition synced :: "susp_state \<Rightarrow> bool" where
  "synced st \<longleftrightarrow> sx_hook st \<and> restore_field True (sx_file st) = sx_suspension st"

definition pending_of :: "susp_state \<Rightarrow> utext list" where
  "pending_of st = (case sx_suspension st of Some s \<Rightarrow> su_pending s | None \<Rightarrow> [])"

definition result_ids :: "susp_state \<Rightarrow> utext set" where
  "result_ids st = (case sx_suspension st of Some s \<Rightarrow> sr_id ` set (su_results s) | None \<Rightarrow> {})"

named_theorems susp_defs "definitions of the operations on a suspension"

lemmas susp_operations [susp_defs] = add_pending_task_def add_progress_def clear_suspension_if_collected_def
  set_preview_def bump_notice_turn_def finish_notice_turn_def enqueue_delegation_notice_def
  take_delegation_notices_def persist_suspension_def add_pending_def new_suspension_def

lemma persist_synced: "sx_hook st \<Longrightarrow> synced (persist_suspension st)"
  by (simp add: synced_def persist_suspension_def persist_field_def restore_field_def split: option.split)

lemma hook_kept [simp]: "sx_hook (susp_step p st) = sx_hook st"
  by (cases p) (simp_all add: susp_defs record_terminal_def prune_recent_def new_context_def Let_def split: option.split)

lemma currently_pending_iff: "currently_pending i st \<longleftrightarrow> i \<in> set (pending_of st)"
  by (simp add: currently_pending_def pending_of_def split: option.split)

lemma new_context_synced: "synced st \<Longrightarrow> synced (new_context (sx_hook st) (sx_file st))"
  by (simp add: synced_def new_context_def)

lemma terminal_recorded:
  assumes "record_terminal now later i status content sent st = (Term_Recorded r, st')"
  shows "i \<notin> set (pending_of st')" "i \<in> result_ids st'" "(i, later) \<in> set (sx_recent st')"
    "sx_hook st \<Longrightarrow> synced st'"
  using assms
  by (auto simp: record_terminal_def Let_def pending_of_def result_ids_def collect_terminal_def prune_recent_def
      persist_suspension_def synced_def persist_field_def restore_field_def split: if_splits option.splits)

lemma terminal_duplicate:
  assumes "i \<notin> set (pending_of st)"
    and "(\<exists>t. (i, t) \<in> set (sx_recent st) \<and> now - t \<le> recent_window) \<or> i \<in> result_ids st"
  shows "fst (record_terminal now later i status content sent st) = Term_Duplicate"
proof -
  have p: "\<not> currently_pending i st" using assms(1) by (simp add: currently_pending_iff)
  have d: "(\<exists>t. (i, t) \<in> set (sx_recent st) \<and> now - t \<le> recent_window)
      \<longleftrightarrow> i \<in> fst ` set (sx_recent (prune_recent now st))"
    by (force simp: prune_recent_def)
  show ?thesis
  proof (cases "i \<in> fst ` set (sx_recent (prune_recent now st))")
    case True
    then show ?thesis by (simp add: record_terminal_def p)
  next
    case False
    with d assms(2) have "i \<in> result_ids st" by blast
    with False p assms(1) show ?thesis
      by (simp add: record_terminal_def result_ids_def pending_of_def prune_recent_def split: option.splits)
  qed
qed

lemma terminal_pending:
  "set (pending_of (snd (record_terminal now later j status content sent st))) =
     (if fst (record_terminal now later j status content sent st) \<in> {Term_Duplicate, Term_No_Suspension}
      then set (pending_of st) else set (pending_of st) - {j})"
  by (auto simp: record_terminal_def Let_def pending_of_def collect_terminal_def prune_recent_def
      persist_suspension_def split: option.splits)

lemma terminal_results: "result_ids st \<subseteq> result_ids (snd (record_terminal now later j status content sent st))"
  by (auto simp: record_terminal_def Let_def result_ids_def collect_terminal_def prune_recent_def
      persist_suspension_def split: option.splits)

lemma terminal_recent:
  assumes "(i, t) \<in> set (sx_recent st)" "now - t \<le> recent_window"
  shows "(i, t) \<in> set (sx_recent (snd (record_terminal now later j status content sent st)))"
  using assms by (auto simp: record_terminal_def Let_def prune_recent_def persist_suspension_def split: option.splits)

lemma terminal_synced: "synced st \<Longrightarrow> synced (snd (record_terminal now later j status content sent st))"
  by (auto simp: record_terminal_def Let_def prune_recent_def persist_suspension_def synced_def
      persist_field_def restore_field_def split: option.splits)

lemma terminal_distinct:
  "distinct (pending_of st) \<Longrightarrow> distinct (pending_of (snd (record_terminal now later j status content sent st)))"
  by (auto simp: record_terminal_def Let_def pending_of_def collect_terminal_def prune_recent_def
      persist_suspension_def split: option.splits)

subsection \<open>What a step keeps\<close>

lemma step_synced: "synced st \<Longrightarrow> synced (susp_step p st)"
proof (cases p)
  case (Terminal now later j status content sent)
  then show "synced st \<Longrightarrow> ?thesis" by (simp add: terminal_synced)
next
  case Restart
  then show "synced st \<Longrightarrow> ?thesis" by (simp add: new_context_synced)
qed (auto simp: susp_defs synced_def persist_field_def restore_field_def split: option.splits)

lemma restart_suspension: "synced st \<Longrightarrow> sx_suspension (new_context (sx_hook st) (sx_file st)) = sx_suspension st"
  by (simp add: synced_def new_context_def)

lemma step_not_pending:
  assumes "\<not> registers i p" "i \<notin> set (pending_of st)" "synced st \<or> p \<noteq> Restart"
  shows "i \<notin> set (pending_of (susp_step p st))"
proof (cases p)
  case (Terminal now later j status content sent)
  then show ?thesis using assms(2) terminal_pending [of now later j status content sent st] by (auto split: if_splits)
next
  case Restart
  then show ?thesis using assms restart_suspension [of st] by (simp add: pending_of_def)
qed (use assms in \<open>auto simp: susp_defs pending_of_def split: option.splits if_splits\<close>)

lemma step_recent:
  assumes "(i, t) \<in> set (sx_recent st)" "no_later_than (t + recent_window) p" "p \<noteq> Restart"
  shows "(i, t) \<in> set (sx_recent (susp_step p st))"
proof (cases p)
  case (Terminal now later j status content sent)
  then show ?thesis using assms(1,2) terminal_recent [OF assms(1)] by (simp add: no_later_than_def)
qed (use assms in \<open>auto simp: susp_defs split: option.splits\<close>)

lemma step_results:
  assumes "synced st" "p \<noteq> Clear"
  shows "result_ids st \<subseteq> result_ids (susp_step p st)"
proof (cases p)
  case (Terminal now later j status content sent)
  then show ?thesis by (simp add: terminal_results)
next
  case Restart
  then show ?thesis using assms(1) restart_suspension [of st] by (simp add: result_ids_def)
qed (use assms(2) in \<open>auto simp: susp_defs result_ids_def split: option.splits\<close>)

lemma step_pending:
  assumes "synced st" "i \<in> set (pending_of st)" "\<not> collects i p"
  shows "i \<in> set (pending_of (susp_step p st))"
proof (cases p)
  case (Terminal now later j status content sent)
  then show ?thesis
    using assms terminal_pending [of now later j status content sent st] by (auto simp: collects_def split: if_splits)
next
  case Restart
  then show ?thesis using assms restart_suspension [of st] by (simp add: pending_of_def)
next
  case Clear
  then show ?thesis
    using assms(2) by (cases "sx_suspension st") (auto simp: susp_defs pending_of_def)
qed (use assms(2) in \<open>auto simp: susp_defs pending_of_def split: option.splits if_splits\<close>)

lemma step_distinct:
  assumes "synced st" "distinct (pending_of st)"
  shows "distinct (pending_of (susp_step p st))"
proof (cases p)
  case (Terminal now later j status content sent)
  then show ?thesis using assms by (simp add: terminal_distinct)
next
  case Restart
  then show ?thesis using assms restart_suspension [of st] by (simp add: pending_of_def)
qed (use assms(2) in \<open>auto simp: susp_defs pending_of_def split: option.splits if_splits\<close>)

subsection \<open>Properties\<close>

lemma run_susp_guarded:
  assumes "\<forall>p \<in> set ops. \<not> registers i p" "i \<notin> set (pending_of st)" "(i, t) \<in> set (sx_recent st)"
    "Restart \<notin> set ops" "\<forall>p \<in> set ops. no_later_than (t + recent_window) p"
  shows "i \<notin> set (pending_of (run_susp ops st)) \<and> (i, t) \<in> set (sx_recent (run_susp ops st))"
  using assms by (induction ops arbitrary: st) (auto simp: step_not_pending step_recent)

lemma run_susp_kept:
  assumes "\<forall>p \<in> set ops. \<not> registers i p" "i \<notin> set (pending_of st)" "i \<in> result_ids st"
    "Clear \<notin> set ops" "synced st"
  shows "i \<notin> set (pending_of (run_susp ops st)) \<and> i \<in> result_ids (run_susp ops st)"
  using assms
proof (induction ops arbitrary: st)
  case (Cons p ops)
  have "i \<in> result_ids (susp_step p st)" using Cons.prems step_results [of st p] by auto
  with Cons show ?case by (simp add: step_not_pending step_synced)
qed simp

text \<open>C26: After a terminal event of a task was recorded, and as long as the task is not registered again, another terminal of the same task is a duplicate in two cases, whatever else happens in between: when no restart happens and the event comes within the hour, even if the suspension was dropped; and at any time and across restarts, when nothing asks to drop the suspension.  (A drop and a restart together forget the task: \<open>recorded_again\<close>.)\<close>

theorem terminal_recorded_once:
  assumes "record_terminal now later i status content sent st = (Term_Recorded r, st1)"
    and "\<forall>p \<in> set ops. \<not> registers i p"
    and "Restart \<notin> set ops \<and> (\<forall>p \<in> set ops. no_later_than (later + recent_window) p)
           \<and> now' \<le> later + recent_window
         \<or> sx_hook st \<and> Clear \<notin> set ops"
  shows "fst (record_terminal now' later' i status' content' sent' (run_susp ops st1)) = Term_Duplicate"
proof -
  note rec = terminal_recorded [OF assms(1)]
  from assms(3) show ?thesis
  proof
    assume A: "Restart \<notin> set ops \<and> (\<forall>p \<in> set ops. no_later_than (later + recent_window) p)
        \<and> now' \<le> later + recent_window"
    with run_susp_guarded [OF assms(2) rec(1,3)] show ?thesis
      by (intro terminal_duplicate) auto
  next
    assume B: "sx_hook st \<and> Clear \<notin> set ops"
    with run_susp_kept [OF assms(2) rec(1,2)] rec(4) show ?thesis
      by (intro terminal_duplicate) auto
  qed
qed

text \<open>The contexts of a session with a hook.\<close>

inductive reachable_context :: "susp_state \<Rightarrow> bool" where
  fresh_context: "reachable_context (new_context True No_File)"
| context_step: "reachable_context st \<Longrightarrow> reachable_context (susp_step p st)"

lemma reachable_context_inv:
  "reachable_context st \<Longrightarrow> synced st \<and> distinct (pending_of st)"
proof (induction rule: reachable_context.induct)
  case fresh_context
  then show ?case by (simp add: synced_def new_context_def restore_field_def pending_of_def)
qed (simp add: step_synced step_distinct)

text \<open>C27: In a reachable context the file holds exactly the suspension in memory and no task is pending twice; a pending task stays pending, and the session suspended, until a terminal event of that task arrives, across restarts and whatever else happens.\<close>

theorem pending_until_terminal:
  assumes "reachable_context st" "i \<in> set (pending_of st)" "\<forall>p \<in> set ops. \<not> collects i p"
  shows "i \<in> set (pending_of (run_susp ops st)) \<and> has_pending_async_work (run_susp ops st)
    \<and> distinct (pending_of (run_susp ops st))
    \<and> restore_field True (sx_file (run_susp ops st)) = sx_suspension (run_susp ops st)"
proof -
  have "synced (run_susp ops st) \<and> distinct (pending_of (run_susp ops st)) \<and> i \<in> set (pending_of (run_susp ops st))"
    using reachable_context_inv [OF assms(1)] assms(2,3)
    by (induction ops arbitrary: st) (simp_all add: step_synced step_distinct step_pending)
  then show ?thesis
    by (auto simp: synced_def has_pending_async_work_def pending_of_def split: option.splits)
qed

lemma no_suspension_not_noted:
  "sx_suspension st = None \<Longrightarrow> i \<notin> fst ` set (sx_recent st) \<Longrightarrow>
     record_terminal now later i status content sent st = (Term_No_Suspension, prune_recent now st)"
  by (force simp: record_terminal_def Let_def prune_recent_def currently_pending_def)

subsection \<open>Instances\<close>

definition one_task :: susp_state where
  "one_task = susp_step (Add_Pending 5 (cps ''t1'')) (new_context True No_File)"

lemma terminal_recorded_once_witness:
  "fst (record_terminal 10 10 (cps ''t1'') Sub_Completed (cps ''again'') 0
     (run_susp [Clear, Add_Pending 6 (cps ''t2''), Terminal 7 7 (cps ''t2'') Sub_Failed [] 0]
       (snd (record_terminal 0 0 (cps ''t1'') Sub_Completed (cps ''done'') 0 one_task)))) = Term_Duplicate
   \<and> fst (record_terminal (from_secs 9000) 10 (cps ''t1'') Sub_Completed (cps ''again'') 0
     (run_susp [Restart, Bump, Finish]
       (snd (record_terminal 0 0 (cps ''t1'') Sub_Completed (cps ''done'') 0 one_task)))) = Term_Duplicate"
proof -
  obtain r st1 where r: "record_terminal 0 0 (cps ''t1'') Sub_Completed (cps ''done'') 0 one_task = (Term_Recorded r, st1)"
    by (simp add: record_terminal_def one_task_def susp_defs new_context_def restore_field_def currently_pending_def Let_def)
  have h: "sx_hook one_task" by (simp add: one_task_def susp_defs new_context_def)
  have ne: "cps ''t2'' \<noteq> cps ''t1''" by (simp add: cps_def)
  show ?thesis
    using terminal_recorded_once [OF r, of "[Clear, Add_Pending 6 (cps ''t2''), Terminal 7 7 (cps ''t2'') Sub_Failed [] 0]"
        10 10 Sub_Completed "cps ''again''" 0]
      terminal_recorded_once [OF r, of "[Restart, Bump, Finish]" "from_secs 9000" 10 Sub_Completed "cps ''again''" 0]
    by (simp add: r h ne no_later_than_def recent_window_def from_secs_def)
qed

text \<open>The list of recent terminals lives in memory, the results in the suspension: once the suspension is dropped and
  the process restarted, a repeat is recorded again as soon as another task is waited for.\<close>

lemma recorded_again:
  "\<exists>r. fst (record_terminal 10 10 (cps ''t1'') Sub_Completed (cps ''again'') 0
     (run_susp [Clear, Restart, Add_Pending 6 (cps ''t2'')]
       (snd (record_terminal 0 0 (cps ''t1'') Sub_Completed (cps ''done'') 0 one_task)))) = Term_Recorded r"
proof -
  have ne: "cps ''t1'' \<noteq> cps ''t2''" by (simp add: cps_def)
  show ?thesis
    by (simp add: record_terminal_def one_task_def susp_defs new_context_def restore_field_def persist_field_def
        currently_pending_def collect_terminal_def has_notice_turns_in_flight_def prune_recent_def ne Let_def)
qed

lemma pending_until_terminal_witness:
  "has_pending_async_work (run_susp [Bump, Add_Pending 6 (cps ''t2''), Terminal 7 7 (cps ''t2'') Sub_Failed [] 0, Restart, Clear]
     one_task)"
proof -
  have "reachable_context one_task" unfolding one_task_def by (intro context_step fresh_context)
  moreover have "cps ''t1'' \<in> set (pending_of one_task)"
    by (simp add: one_task_def susp_defs new_context_def restore_field_def pending_of_def)
  moreover have "cps ''t2'' \<noteq> cps ''t1''" by (simp add: cps_def)
  ultimately show ?thesis
    using pending_until_terminal [of one_task "cps ''t1''"
        "[Bump, Add_Pending 6 (cps ''t2''), Terminal 7 7 (cps ''t2'') Sub_Failed [] 0, Restart, Clear]"]
    by (simp add: collects_def)
qed

end
