(* ===== verification/Yield_Queue.thy ===== *)
theory Yield_Queue
  imports Suspension Agent_Turn_Facts
begin

text \<open>
  The events waiting for a \<open>sessions_yield\<close> of a session (\<open>agents/session_context/mod.rs\<close>): the
  queue and its file, the live waiter of a parked task, and the tasks that write the result of the
  pending call.  A step is one section under the session's lock, from taking it to releasing it;
  steps of several tasks interleave.  A section's own short locks (queue, waiter) are not
  interleaved with an enqueue.  Clocks, UUIDs and the persistence hook are arguments.
\<close>

subsection \<open>The queue\<close>

record yield_event =
  ye_content :: utext
  ye_at :: nat

definition fresh_event :: "int \<Rightarrow> utext \<Rightarrow> yield_event" where
  "fresh_event now c = \<lparr>ye_content = c, ye_at = nat (max now 0)\<rparr>"

definition yield_expiry :: nat where "yield_expiry = 24 * 3600"
definition fill_limit :: nat where "fill_limit = 20"

definition format_events :: "yield_event list \<Rightarrow> utext" where
  "format_events es =
     (case es of
        [e] \<Rightarrow> ye_content e
      | _ \<Rightarrow> cps ''Since you yielded, the following happened:'' @ [10]
              @ concat (map (\<lambda>e. cps ''- '' @ ye_content e @ [10]) es))"

text \<open>What a task parked on its oneshot channel sees.\<close>

datatype chan = Waiting | Sent utext | Closed

record 'm yield_ctx =
  yc_session :: "'m session"
  yc_events :: "yield_event list"
  yc_file :: "yield_event list field_file"
  yc_waiter :: "(utext \<times> nat) option"
  yc_chans :: "nat \<rightharpoonup> utext \<times> chan"
  yc_swaps :: nat
  yc_replay :: bool

definition persist_events :: "persist_hook \<Rightarrow> 'm yield_ctx \<Rightarrow> 'm yield_ctx" where
  "persist_events H x =
     x\<lparr>yc_file := persist_field (H \<noteq> None) (if yc_events x = [] then None else Some (yc_events x)) (yc_file x)\<rparr>"

definition enqueue_event :: "persist_hook \<Rightarrow> yield_event \<Rightarrow> 'm yield_ctx \<Rightarrow> 'm yield_ctx" where
  "enqueue_event H e x = persist_events H (x\<lparr>yc_events := yc_events x @ [e]\<rparr>)"

definition take_events :: "persist_hook \<Rightarrow> 'm yield_ctx \<Rightarrow> yield_event list \<times> 'm yield_ctx" where
  "take_events H x = (yc_events x, persist_events H (x\<lparr>yc_events := []\<rparr>))"

text \<open>A context made anew for a loaded session.\<close>

definition new_yield_ctx :: "persist_hook \<Rightarrow> yield_event list field_file \<Rightarrow> 'm session \<Rightarrow> 'm yield_ctx" where
  "new_yield_ctx H f s =
     \<lparr>yc_session = s, yc_events = (case restore_field (H \<noteq> None) f of Some es \<Rightarrow> es | None \<Rightarrow> []),
      yc_file = f, yc_waiter = None, yc_chans = Map.empty, yc_swaps = 0, yc_replay = False\<rparr>"

definition has_live_yield_waiter :: "'m yield_ctx \<Rightarrow> bool" where
  "has_live_yield_waiter x \<longleftrightarrow> yc_waiter x \<noteq> None"

definition stale :: "int \<Rightarrow> yield_event \<Rightarrow> bool" where
  "stale now e \<longleftrightarrow> ye_at e = 0 \<or> yield_expiry < nat (max now 0) - ye_at e"

definition folded_text :: "nat \<Rightarrow> utext" where
  "folded_text n = [0xFF08, 0x53E6, 0x6709] @ cps '' '' @ cps (show_nat n) @ cps '' ''
     @ [0x6761, 0x8FC7, 0x671F, 0x901A, 0x77E5, 0x5DF2, 0x6298, 0x53E0, 0xFF0C, 0x4E0D, 0x518D, 0x5C55, 0x5F00, 0xFF09]"

definition fill_content :: "yield_event list \<Rightarrow> nat \<Rightarrow> utext" where
  "fill_content kept expired =
     (let c = (if kept = [] then [] else format_events kept)
      in if expired = 0 then c else c @ (if c = [] then [] else [10]) @ folded_text expired)"

definition drain_for_fill :: "persist_hook \<Rightarrow> int \<Rightarrow> 'm yield_ctx \<Rightarrow> utext option \<times> 'm yield_ctx" where
  "drain_for_fill H now x =
     (case take_events H x of (events, x1) \<Rightarrow>
        if events = [] then (None, x1)
        else let current = filter (\<lambda>e. \<not> stale now e) events;
                 expired = filter (stale now) events
             in (Some (fill_content (take fill_limit current) (length expired)),
                 fold (enqueue_event H) (drop fill_limit current) x1))"

subsection \<open>The sections\<close>

text \<open>The one way a result of a pending yield gets into the history.\<close>

definition fill_session :: "persist_hook \<Rightarrow> utext \<Rightarrow> utext \<Rightarrow> 'm session \<Rightarrow> 'm session" where
  "fill_session H i content s =
     persist_last H (add_tool_result i (cps ''sessions_yield'') content False (s\<lparr>s_pending_yield := None\<rparr>))"

definition on_yield_session :: "('m session \<Rightarrow> 'm session) \<Rightarrow> 'm yield_ctx \<Rightarrow> 'm yield_ctx" where
  "on_yield_session f x = x\<lparr>yc_session := f (yc_session x)\<rparr>"

text \<open>Dropping the sender ends the wait of a task that has not been answered.\<close>

definition drop_waiter :: "'m yield_ctx \<Rightarrow> 'm yield_ctx" where
  "drop_waiter x =
     (case yc_waiter x of
        None \<Rightarrow> x
      | Some (i, k) \<Rightarrow> x\<lparr>yc_waiter := None,
          yc_chans := (case yc_chans x k of Some (j, Waiting) \<Rightarrow> (yc_chans x)(k \<mapsto> (j, Closed)) | _ \<Rightarrow> yc_chans x)\<rparr>)"

datatype fill_outcome = Fill_None | Fill_Woken | Fill_Replay | Fill_Resume

text \<open>\<open>waiter.tx.send\<close>: a receiver that is gone loses the content.\<close>

definition send_waiter :: "utext \<Rightarrow> nat \<Rightarrow> 'm yield_ctx \<Rightarrow> 'm yield_ctx" where
  "send_waiter content k x =
     x\<lparr>yc_chans := (case yc_chans x k of Some (j, Waiting) \<Rightarrow> (yc_chans x)(k \<mapsto> (j, Sent content)) | _ \<Rightarrow> yc_chans x)\<rparr>"

definition try_fill_pending_yield :: "persist_hook \<Rightarrow> int \<Rightarrow> 'm yield_ctx \<Rightarrow> fill_outcome \<times> 'm yield_ctx" where
  "try_fill_pending_yield H now x =
     (case s_pending_yield (yc_session x) of
        None \<Rightarrow> (Fill_None, x)
      | Some p \<Rightarrow>
          if (case yc_waiter x of Some (i, k) \<Rightarrow> i = py_tool_call_id p | None \<Rightarrow> False) then
            (case drain_for_fill H now x of
               (None, x1) \<Rightarrow> (Fill_None, x1)
             | (Some content, x1) \<Rightarrow>
                 (case yc_waiter x1 of
                    Some (i, k) \<Rightarrow> (Fill_Woken, send_waiter content k (x1\<lparr>yc_waiter := None\<rparr>))
                  | None \<Rightarrow> (Fill_Woken, enqueue_event H (fresh_event now content) x1)))
          else if sole_sessions_yield_orphan (s_history (yc_session x)) (Some p) \<noteq> None
                  \<and> yc_events x \<noteq> [] \<and> \<not> yc_replay x then
            (Fill_Replay, x\<lparr>yc_swaps := Suc (yc_swaps x)\<rparr>)
          else
            (case drain_for_fill H now x of
               (None, x1) \<Rightarrow> (Fill_None, x1)
             | (Some content, x1) \<Rightarrow> (Fill_Resume, on_yield_session (fill_session H (py_tool_call_id p) content) x1)))"

text \<open>The spawn of a replay happens after the lock is released; only one of several sees the flag clear.\<close>

definition spawn_yield_replay :: "'m yield_ctx \<Rightarrow> bool \<times> 'm yield_ctx" where
  "spawn_yield_replay x = (\<not> yc_replay x, x\<lparr>yc_swaps := yc_swaps x - 1, yc_replay := True\<rparr>)"

text \<open>\<open>park_for_yield\<close> is two sections around the wait; \<open>k\<close> names the channel.\<close>

definition park_begin :: "persist_hook \<Rightarrow> int \<Rightarrow> nat \<Rightarrow> utext \<Rightarrow> 'm yield_ctx \<Rightarrow> bool \<times> 'm yield_ctx" where
  "park_begin H now k i x =
     (case drain_for_fill H now x of
        (Some content, x1) \<Rightarrow> (True, on_yield_session (fill_session H i content) x1)
      | (None, x1) \<Rightarrow>
          (False, (let x2 = drop_waiter x1 in x2\<lparr>yc_waiter := Some (i, k), yc_chans := (yc_chans x2)(k \<mapsto> (i, Waiting))\<rparr>)))"

definition park_end :: "persist_hook \<Rightarrow> int \<Rightarrow> nat \<Rightarrow> 'm yield_ctx \<Rightarrow> (bool \<times> 'm yield_ctx) option" where
  "park_end H now k x =
     (case yc_chans x k of
        None \<Rightarrow> None
      | Some (i, Waiting) \<Rightarrow> None
      | Some (i, Closed) \<Rightarrow> Some (False, x\<lparr>yc_chans := (yc_chans x)(k := None)\<rparr>)
      | Some (i, Sent content) \<Rightarrow>
          let x1 = x\<lparr>yc_chans := (yc_chans x)(k := None)\<rparr> in
          if (case s_pending_yield (yc_session x) of Some p \<Rightarrow> py_tool_call_id p = i | None \<Rightarrow> False)
          then Some (True, on_yield_session (fill_session H i content) x1)
          else Some (False, enqueue_event H (fresh_event now content) x1))"

text \<open>A user's message while a yield is pending (\<open>process_turn\<close>).\<close>

definition interruption :: "utext \<Rightarrow> utext" where
  "interruption content = cps ''The user interrupted the wait and said: '' @ content"

definition interject :: "persist_hook \<Rightarrow> utext \<Rightarrow> 'm yield_ctx \<Rightarrow> 'm yield_ctx" where
  "interject H content x =
     (case s_pending_yield (yc_session x) of
        None \<Rightarrow> x
      | Some p \<Rightarrow>
          on_yield_session (fill_session H (py_tool_call_id p) (interruption content))
            (case yc_waiter x of
               Some (i, k) \<Rightarrow> if i = py_tool_call_id p then drop_waiter x else x
             | None \<Rightarrow> x))"

text \<open>A new \<open>sessions_yield\<close> closes the pending one (\<open>execute_tool_batch\<close>).\<close>

definition yield_called :: "persist_hook \<Rightarrow> utext \<Rightarrow> 'm session \<Rightarrow> 'm session" where
  "yield_called H i s =
     (case s_pending_yield s of
        None \<Rightarrow> s
      | Some p \<Rightarrow> fill_session H (py_tool_call_id p) superseded_text s)
     \<lparr>s_pending_yield := Some \<lparr>py_tool_call_id = i, py_implicit = False\<rparr>\<rparr>"

subsection \<open>Interleavings\<close>

datatype 'm yield_label =
    Arrive int utext
  | Fill int
  | Swap
  | Replay_Done
  | Park int nat
  | Wake int nat
  | Abort nat
  | Interject utext
  | Yield_Call utext
  | Implicit utext
  | Say chat_message
  | Crash "'m session"

definition yield_result :: "chat_message \<Rightarrow> bool" where
  "yield_result m \<longleftrightarrow> is_tool m \<and> cm_name m = Some (cps ''sessions_yield'')"

definition result_calls :: "chat_message list \<Rightarrow> utext list" where
  "result_calls h = map (\<lambda>m. case cm_tool_call_id m of Some i \<Rightarrow> i | None \<Rightarrow> []) (filter yield_result h)"

text \<open>A new call id: neither pending nor answered nor waited for.\<close>

definition fresh_call :: "utext \<Rightarrow> 'm yield_ctx \<Rightarrow> bool" where
  "fresh_call i x \<longleftrightarrow> i \<notin> set (result_calls (s_history (yc_session x)))
     \<and> (case s_pending_yield (yc_session x) of Some p \<Rightarrow> py_tool_call_id p \<noteq> i | None \<Rightarrow> True)"

inductive yield_step :: "persist_hook \<Rightarrow> 'm yield_label \<Rightarrow> 'm yield_ctx \<Rightarrow> 'm yield_ctx \<Rightarrow> bool" for H where
  arrive: "yield_step H (Arrive now c) x (enqueue_event H (fresh_event now c) x)"
| fill: "yield_step H (Fill now) x (snd (try_fill_pending_yield H now x))"
| swap: "0 < yc_swaps x \<Longrightarrow> yield_step H Swap x (snd (spawn_yield_replay x))"
| replay_done: "yield_step H Replay_Done x (x\<lparr>yc_replay := False\<rparr>)"
| park: "s_pending_yield (yc_session x) = Some p \<Longrightarrow> yc_chans x k = None \<Longrightarrow>
     yield_step H (Park now k) x (snd (park_begin H now k (py_tool_call_id p) x))"
| wake: "park_end H now k x = Some (b, x') \<Longrightarrow> yield_step H (Wake now k) x x'"
| abort: "yield_step H (Abort k) x (x\<lparr>yc_chans := (yc_chans x)(k := None)\<rparr>)"
| interject: "yield_step H (Interject c) x (interject H c x)"
| yield_call: "fresh_call i x \<Longrightarrow> yield_step H (Yield_Call i) x (on_yield_session (yield_called H i) x)"
| implicit: "s_pending_yield (yc_session x) = None \<Longrightarrow> fresh_call (cps ''call_implicit_yield_'' @ u) x \<Longrightarrow>
     yield_step H (Implicit u) x (on_yield_session (insert_implicit_yield H u) x)"
| say: "\<not> yield_result m \<Longrightarrow> yield_step H (Say m) x (on_yield_session (\<lambda>s. persist_last H (push_message m s)) x)"
| crash: "yield_step H (Crash s) x (new_yield_ctx H (yc_file x) s)"

inductive yield_run :: "persist_hook \<Rightarrow> 'm yield_label list \<Rightarrow> 'm yield_ctx \<Rightarrow> 'm yield_ctx \<Rightarrow> bool" for H where
  run_nil: "yield_run H [] x x"
| run_step: "yield_step H l x x1 \<Longrightarrow> yield_run H ls x1 x2 \<Longrightarrow> yield_run H (l # ls) x x2"

inductive_cases yield_runE: "yield_run H (l # ls) x x2"
inductive_simps yield_run_Nil [simp]: "yield_run H [] x x2"


subsection \<open>The queue keeps what it is given\<close>

named_theorems yield_simps "what the queue operations change"

lemma persist_events_simps [yield_simps]:
  "yc_session (persist_events H x) = yc_session x" "yc_events (persist_events H x) = yc_events x"
  "yc_waiter (persist_events H x) = yc_waiter x" "yc_chans (persist_events H x) = yc_chans x"
  "yc_replay (persist_events H x) = yc_replay x" "yc_swaps (persist_events H x) = yc_swaps x"
  by (simp_all add: persist_events_def)

lemma enqueue_simps [yield_simps]:
  "yc_session (enqueue_event H e x) = yc_session x" "yc_events (enqueue_event H e x) = yc_events x @ [e]"
  "yc_waiter (enqueue_event H e x) = yc_waiter x" "yc_chans (enqueue_event H e x) = yc_chans x"
  "yc_replay (enqueue_event H e x) = yc_replay x" "yc_swaps (enqueue_event H e x) = yc_swaps x"
  by (simp_all add: enqueue_event_def yield_simps)

lemma fold_enqueue_simps [yield_simps]:
  "yc_session (fold (enqueue_event H) es x) = yc_session x"
  "yc_events (fold (enqueue_event H) es x) = yc_events x @ es"
  "yc_waiter (fold (enqueue_event H) es x) = yc_waiter x"
  "yc_chans (fold (enqueue_event H) es x) = yc_chans x"
  "yc_replay (fold (enqueue_event H) es x) = yc_replay x"
  "yc_swaps (fold (enqueue_event H) es x) = yc_swaps x"
  by (induction es arbitrary: x) (simp_all add: yield_simps)

lemma take_simps [yield_simps]:
  "fst (take_events H x) = yc_events x" "yc_session (snd (take_events H x)) = yc_session x"
  "yc_events (snd (take_events H x)) = []" "yc_waiter (snd (take_events H x)) = yc_waiter x"
  "yc_chans (snd (take_events H x)) = yc_chans x" "yc_replay (snd (take_events H x)) = yc_replay x"
  "yc_swaps (snd (take_events H x)) = yc_swaps x"
  by (simp_all add: take_events_def yield_simps)

lemma drain_simps [yield_simps]:
  "yc_session (snd (drain_for_fill H now x)) = yc_session x"
  "yc_waiter (snd (drain_for_fill H now x)) = yc_waiter x"
  "yc_chans (snd (drain_for_fill H now x)) = yc_chans x"
  "yc_replay (snd (drain_for_fill H now x)) = yc_replay x"
  "yc_swaps (snd (drain_for_fill H now x)) = yc_swaps x"
  "yc_events (snd (drain_for_fill H now x)) = drop fill_limit (filter (\<lambda>e. \<not> stale now e) (yc_events x))"
  "fst (drain_for_fill H now x) =
     (if yc_events x = [] then None
      else Some (fill_content (take fill_limit (filter (\<lambda>e. \<not> stale now e) (yc_events x)))
             (length (filter (stale now) (yc_events x)))))"
  by (simp_all add: drain_for_fill_def take_events_def yield_simps Let_def)

lemma sublist_left: "sublist a b \<Longrightarrow> sublist a (c @ b)"
  by (erule sublist_order.order_trans) (rule sublist_append_leftI)

lemma sublist_right: "sublist a b \<Longrightarrow> sublist a (b @ c)"
  by (erule sublist_order.order_trans) (rule sublist_append_rightI)

lemma sublist_concat_map: "e \<in> set es \<Longrightarrow> sublist (f e) (concat (map f es))"
proof (induction es)
  case (Cons a es)
  then show ?case by (auto intro: sublist_left sublist_right)
qed simp

lemma sublist_format: "e \<in> set es \<Longrightarrow> sublist (ye_content e) (format_events es)"
proof -
  assume e: "e \<in> set es"
  have "sublist (ye_content e) (cps ''- '' @ ye_content e @ [10])" by (simp add: sublist_appendI)
  also have "sublist (cps ''- '' @ ye_content e @ [10]) (concat (map (\<lambda>e. cps ''- '' @ ye_content e @ [10]) es))"
    by (rule sublist_concat_map [OF e])
  finally have s: "sublist (ye_content e) (concat (map (\<lambda>e. cps ''- '' @ ye_content e @ [10]) es))" .
  then have m: "sublist (ye_content e) (cps ''Since you yielded, the following happened:'' @ [10]
      @ concat (map (\<lambda>e. cps ''- '' @ ye_content e @ [10]) es))"
    by (intro sublist_left)
  show ?thesis
  proof (cases "\<exists>d. es = [d]")
    case True
    then show ?thesis using e by (auto simp: format_events_def)
  next
    case False
    then have "format_events es = cps ''Since you yielded, the following happened:'' @ [10]
        @ concat (map (\<lambda>e. cps ''- '' @ ye_content e @ [10]) es)"
      by (simp add: format_events_def split: list.split)
    with m show ?thesis by simp
  qed
qed

lemma sublist_fill: "e \<in> set kept \<Longrightarrow> sublist (ye_content e) (fill_content kept n)"
  using sublist_right [OF sublist_format [of e kept], of "[10] @ folded_text n"] sublist_format [of e kept]
    sublist_right [OF sublist_format [of e kept], of "folded_text n"]
  by (auto simp: fill_content_def Let_def)

lemma drain_keeps:
  assumes "e \<in> set (yc_events x)" "\<not> stale now e"
  obtains c where "fst (drain_for_fill H now x) = Some c"
    "sublist (ye_content e) c \<or> e \<in> set (yc_events (snd (drain_for_fill H now x)))"
proof -
  let ?cur = "filter (\<lambda>e. \<not> stale now e) (yc_events x)"
  have "e \<in> set (take fill_limit ?cur @ drop fill_limit ?cur)" using assms by simp
  then have "e \<in> set (take fill_limit ?cur) \<or> e \<in> set (drop fill_limit ?cur)" unfolding set_append by blast
  moreover have "yc_events x \<noteq> []" using assms by auto
  ultimately show ?thesis using that sublist_fill by (auto simp: yield_simps)
qed

subsection \<open>One result for each call\<close>

definition single_ok :: "'m yield_ctx \<Rightarrow> bool" where
  "single_ok x \<longleftrightarrow> distinct (result_calls (s_history (yc_session x)))
     \<and> (case s_pending_yield (yc_session x) of
          Some p \<Rightarrow> py_tool_call_id p \<notin> set (result_calls (s_history (yc_session x))) | None \<Rightarrow> True)"

definition session_ok :: "'m session \<Rightarrow> bool" where
  "session_ok s \<longleftrightarrow> distinct (result_calls (s_history s))
     \<and> (case s_pending_yield s of Some p \<Rightarrow> py_tool_call_id p \<notin> set (result_calls (s_history s)) | None \<Rightarrow> True)"

lemma single_ok_session: "single_ok x \<longleftrightarrow> session_ok (yc_session x)"
  by (simp add: single_ok_def session_ok_def)

lemma result_calls_append [simp]: "result_calls (h @ h') = result_calls h @ result_calls h'"
  by (simp add: result_calls_def)

lemma say_calls: "\<not> yield_result m \<Longrightarrow> result_calls [m] = []"
  by (simp add: result_calls_def)

lemma fill_session_pending [yield_simps]: "s_pending_yield (fill_session H i c s) = None"
  by (simp add: fill_session_def persist_last_keeps add_tool_result_def push_message_def)

lemma fill_session_history:
  "s_history (fill_session H i c s) = s_history s @ [(text_message ''tool'' c)
     \<lparr>cm_tool_call_id := Some i, cm_name := Some (cps ''sessions_yield''), cm_is_error := Some False\<rparr>]"
  by (simp_all add: fill_session_def persist_last_keeps add_tool_result_def push_message_def)

lemma yield_result_message [simp]:
  "yield_result ((text_message ''tool'' c)\<lparr>cm_tool_call_id := Some i, cm_name := Some (cps ''sessions_yield''), cm_is_error := Some b\<rparr>)"
  by (simp add: yield_result_def)

lemma fill_session_calls [yield_simps]:
  "result_calls (s_history (fill_session H i c s)) = result_calls (s_history s) @ [i]"
  unfolding fill_session_history result_calls_append by (simp add: result_calls_def)

lemma yield_called_simps [yield_simps]:
  "s_pending_yield (yield_called H i s) = Some \<lparr>py_tool_call_id = i, py_implicit = False\<rparr>"
  "result_calls (s_history (yield_called H i s)) = result_calls (s_history s)
     @ (case s_pending_yield s of None \<Rightarrow> [] | Some p \<Rightarrow> [py_tool_call_id p])"
  by (simp_all add: yield_called_def fill_session_calls split: option.split)

lemma implicit_simps [yield_simps]:
  "s_pending_yield (insert_implicit_yield H u s)
     = Some \<lparr>py_tool_call_id = cps ''call_implicit_yield_'' @ u, py_implicit = True\<rparr>"
  "result_calls (s_history (insert_implicit_yield H u s)) = result_calls (s_history s)"
proof -
  show "s_pending_yield (insert_implicit_yield H u s)
     = Some \<lparr>py_tool_call_id = cps ''call_implicit_yield_'' @ u, py_implicit = True\<rparr>"
    by (simp add: insert_implicit_yield_def Let_def)
  obtain m where "s_history (insert_implicit_yield H u s) = s_history s @ [m]" "is_assistant m"
    by (simp add: insert_implicit_yield_def Let_def persist_last_keeps add_assistant_with_tools_def push_message_def)
  then show "result_calls (s_history (insert_implicit_yield H u s)) = result_calls (s_history s)"
    by (simp add: result_calls_def yield_result_def)
qed

lemma fill_ok: "session_ok s \<Longrightarrow> s_pending_yield s = Some p \<Longrightarrow> session_ok (fill_session H (py_tool_call_id p) c s)"
  by (simp add: session_ok_def yield_simps)

lemma drop_waiter_simps [yield_simps]:
  "yc_session (drop_waiter x) = yc_session x" "yc_events (drop_waiter x) = yc_events x" "yc_waiter (drop_waiter x) = None"
  by (simp_all add: drop_waiter_def split: option.split prod.split)

lemma send_waiter_simps [yield_simps]:
  "yc_session (send_waiter c k x) = yc_session x" "yc_events (send_waiter c k x) = yc_events x"
  "yc_waiter (send_waiter c k x) = yc_waiter x"
  by (simp_all add: send_waiter_def)

lemma on_yield_session_simps [yield_simps]:
  "yc_session (on_yield_session f x) = f (yc_session x)" "yc_events (on_yield_session f x) = yc_events x"
  "yc_waiter (on_yield_session f x) = yc_waiter x" "yc_chans (on_yield_session f x) = yc_chans x"
  by (simp_all add: on_yield_session_def)

text \<open>What an attempt to fill does, by its outcome.\<close>

lemma try_fill_cases:
  assumes "try_fill_pending_yield H now x = (r, x')"
  obtains (untouched) "r = Fill_None" "yc_session x' = yc_session x" "yc_waiter x' = yc_waiter x" "yc_chans x' = yc_chans x"
      "yc_events x' = yc_events x" "s_pending_yield (yc_session x) = None \<or> yc_events x = []"
    | (woken) p c k where "r = Fill_Woken" "s_pending_yield (yc_session x) = Some p"
      "yc_waiter x = Some (py_tool_call_id p, k)" "fst (drain_for_fill H now x) = Some c"
      "x' = send_waiter c k ((snd (drain_for_fill H now x))\<lparr>yc_waiter := None\<rparr>)"
    | (replay) p where "r = Fill_Replay" "s_pending_yield (yc_session x) = Some p" "yc_events x \<noteq> []"
      "x' = x\<lparr>yc_swaps := Suc (yc_swaps x)\<rparr>"
    | (resume) p c where "r = Fill_Resume" "s_pending_yield (yc_session x) = Some p"
      "fst (drain_for_fill H now x) = Some c"
      "x' = on_yield_session (fill_session H (py_tool_call_id p) c) (snd (drain_for_fill H now x))"
proof (cases "s_pending_yield (yc_session x)")
  case None
  then show ?thesis using assms that(1) by (simp add: try_fill_pending_yield_def)
next
  case (Some p)
  obtain d x1 where d: "drain_for_fill H now x = (d, x1)" by (cases "drain_for_fill H now x")
  have w: "yc_waiter x1 = yc_waiter x" using drain_simps(2) [of H now x] d by simp
  have quiet: "yc_session x1 = yc_session x" "yc_chans x1 = yc_chans x" "d = None \<Longrightarrow> yc_events x = [] \<and> yc_events x1 = []"
    using drain_simps(1,3,6,7) [of H now x] d by (auto split: if_splits)
  show ?thesis
  proof (cases "case yc_waiter x of Some (i, k) \<Rightarrow> i = py_tool_call_id p | None \<Rightarrow> False")
    case True
    then obtain k where k: "yc_waiter x = Some (py_tool_call_id p, k)" by (auto split: option.splits)
    show ?thesis
    proof (cases d)
      case None
      then show ?thesis
        using assms Some True d k w quiet that(1) by (simp add: try_fill_pending_yield_def)
    next
      case (Some c)
      then show ?thesis
        using assms \<open>s_pending_yield (yc_session x) = Some p\<close> d k w that(2) [of p k c]
        by (simp add: try_fill_pending_yield_def)
    qed
  next
    case False
    note step = assms [unfolded try_fill_pending_yield_def Some option.case if_not_P [OF False]]
    show ?thesis
    proof (cases "sole_sessions_yield_orphan (s_history (yc_session x)) (Some p) \<noteq> None \<and> yc_events x \<noteq> [] \<and> \<not> yc_replay x")
      case True
      then show ?thesis using step Some that(3) [of p] by simp
    next
      case False
      note step' = step [unfolded if_not_P [OF False] d prod.case]
      show ?thesis
      proof (cases d)
        case None
        then show ?thesis using step' w quiet that(1) by simp
      next
        case (Some c)
        then show ?thesis
          using step' \<open>s_pending_yield (yc_session x) = Some p\<close> d that(4) [of p c] by simp
      qed
    qed
  qed
qed

lemma park_begin_cases:
  assumes "park_begin H now k i x = (b, x')"
  obtains (filled) c where "b" "fst (drain_for_fill H now x) = Some c"
      "x' = on_yield_session (fill_session H i c) (snd (drain_for_fill H now x))"
    | (parked) x2 where "\<not> b" "yc_events x = []" "x2 = drop_waiter (snd (drain_for_fill H now x))"
      "x' = x2\<lparr>yc_waiter := Some (i, k), yc_chans := (yc_chans x2)(k \<mapsto> (i, Waiting))\<rparr>"
proof (cases "drain_for_fill H now x")
  case (Pair d x1)
  show ?thesis
  proof (cases d)
    case None
    then have "yc_events x = []" using drain_simps(7) [of H now x] Pair by (auto split: if_splits)
    then show ?thesis using assms Pair None that(2) by (simp add: park_begin_def Let_def)
  next
    case (Some c)
    then show ?thesis using assms Pair that(1) by (simp add: park_begin_def)
  qed
qed

lemma step_single:
  assumes "yield_step H l x x'" "session_ok (yc_session x)" "\<forall>s. l \<noteq> Crash s"
  shows "session_ok (yc_session x')"
  using assms
proof (cases rule: yield_step.cases)
  case (fill now)
  obtain r x1 where t: "try_fill_pending_yield H now x = (r, x1)" by (cases "try_fill_pending_yield H now x")
  then have "session_ok (yc_session x1)"
    by (cases rule: try_fill_cases) (use assms(2) in \<open>auto simp: yield_simps fill_ok\<close>)
  with t fill show ?thesis by simp
next
  case (park p k now)
  obtain b x1 where t: "park_begin H now k (py_tool_call_id p) x = (b, x1)"
    by (cases "park_begin H now k (py_tool_call_id p) x")
  then have "session_ok (yc_session x1)"
    by (cases rule: park_begin_cases) (use assms(2) park in \<open>auto simp: yield_simps fill_ok\<close>)
  with t park show ?thesis by simp
next
  case (wake now k b)
  then show ?thesis using assms(2)
    by (auto simp: park_end_def yield_simps Let_def fill_ok split: option.splits chan.splits if_splits)
next
  case (interject c)
  then show ?thesis using assms(2)
    by (auto simp: interject_def yield_simps fill_ok split: option.splits prod.splits)
next
  case (yield_call i)
  then show ?thesis using assms(2)
    by (auto simp: fresh_call_def yield_simps session_ok_def split: option.splits)
next
  case (implicit u)
  then show ?thesis using assms(2)
    by (auto simp: fresh_call_def yield_simps session_ok_def split: option.splits)
next
  case (say m)
  then show ?thesis using assms(2)
    by (simp add: yield_simps session_ok_def persist_last_keeps push_message_def say_calls cong: option.case_cong)
qed (use assms in \<open>auto simp: yield_simps spawn_yield_replay_def\<close>)

text \<open>C24: Over every interleaving of arrivals, fills, replays, parked tasks that wake or are aborted, user messages and new yields, each yield call gets at most one result, and the pending call has none yet.\<close>

theorem one_result_per_yield:
  assumes "yield_run H ls x x'" "distinct (result_calls (s_history (yc_session x)))"
    "s_pending_yield (yc_session x) = None" "\<forall>s. Crash s \<notin> set ls"
  shows "distinct (result_calls (s_history (yc_session x'))) \<and>
    (case s_pending_yield (yc_session x') of
       None \<Rightarrow> True | Some p \<Rightarrow> py_tool_call_id p \<notin> set (result_calls (s_history (yc_session x'))))"
proof -
  have "session_ok (yc_session x)" using assms(2,3) by (simp add: session_ok_def)
  with assms(1,4) have "session_ok (yc_session x')"
    by (induction rule: yield_run.induct) (auto intro: step_single)
  then show ?thesis by (simp add: session_ok_def)
qed

subsection \<open>Nothing is lost\<close>

definition answered :: "utext \<Rightarrow> 'm session \<Rightarrow> bool" where
  "answered c s \<longleftrightarrow> (\<exists>m \<in> set (s_history s). yield_result m \<and> sublist c (text_content m))"

definition queued :: "utext \<Rightarrow> 'm yield_ctx \<Rightarrow> bool" where
  "queued c x \<longleftrightarrow> (\<exists>e \<in> set (yc_events x). sublist c (ye_content e))"

definition on_the_way :: "utext \<Rightarrow> (nat \<rightharpoonup> utext \<times> chan) \<Rightarrow> bool" where
  "on_the_way c ch \<longleftrightarrow> (\<exists>k i t. ch k = Some (i, Sent t) \<and> sublist c t)"

definition held :: "utext \<Rightarrow> 'm yield_ctx \<Rightarrow> bool" where
  "held c x \<longleftrightarrow> queued c x \<or> on_the_way c (yc_chans x) \<or> answered c (yc_session x)"

definition waiter_ok :: "'m yield_ctx \<Rightarrow> bool" where
  "waiter_ok x \<longleftrightarrow> (case yc_waiter x of Some (i, k) \<Rightarrow> yc_chans x k = Some (i, Waiting) | None \<Rightarrow> True)"

definition stamped :: "nat \<Rightarrow> 'm yield_ctx \<Rightarrow> bool" where
  "stamped lo x \<longleftrightarrow> (\<forall>e \<in> set (yc_events x). lo \<le> ye_at e)"

primrec calm :: "nat \<Rightarrow> nat \<Rightarrow> 'm yield_label \<Rightarrow> bool" where
  "calm lo hi (Arrive now c) \<longleftrightarrow> int lo \<le> now \<and> now \<le> int hi"
| "calm lo hi (Fill now) \<longleftrightarrow> int lo \<le> now \<and> now \<le> int hi"
| "calm lo hi Swap \<longleftrightarrow> True"
| "calm lo hi Replay_Done \<longleftrightarrow> True"
| "calm lo hi (Park now k) \<longleftrightarrow> int lo \<le> now \<and> now \<le> int hi"
| "calm lo hi (Wake now k) \<longleftrightarrow> int lo \<le> now \<and> now \<le> int hi"
| "calm lo hi (Abort k) \<longleftrightarrow> False"
| "calm lo hi (Interject c) \<longleftrightarrow> True"
| "calm lo hi (Yield_Call i) \<longleftrightarrow> True"
| "calm lo hi (Implicit u) \<longleftrightarrow> True"
| "calm lo hi (Say m) \<longleftrightarrow> True"
| "calm lo hi (Crash s) \<longleftrightarrow> False"

lemma answered_fill: "answered c s \<or> sublist c t \<Longrightarrow> answered c (fill_session H i t s)"
  by (auto simp: answered_def fill_session_history text_content_def text_message_def yield_result_def)

lemma answered_pending [simp]: "answered c (s\<lparr>s_pending_yield := p\<rparr>) = answered c s"
  by (simp add: answered_def)

lemma answered_append:
  "answered c s \<Longrightarrow> s_history s' = s_history s @ ms \<Longrightarrow> answered c s'"
  by (auto simp: answered_def)

lemma answered_yield_called: "answered c s \<Longrightarrow> answered c (yield_called H i s)"
  by (auto simp: yield_called_def answered_fill split: option.split)

lemma answered_implicit: "answered c s \<Longrightarrow> answered c (insert_implicit_yield H u s)"
  by (erule answered_append [where ms = "[_]"])
     (simp add: insert_implicit_yield_def Let_def persist_last_keeps add_assistant_with_tools_def push_message_def)

lemma answered_say: "answered c s \<Longrightarrow> answered c (persist_last H (push_message m s))"
  by (erule answered_append [where ms = "[m]"]) (simp add: persist_last_keeps push_message_def)

lemma not_stale:
  "stamped lo x \<Longrightarrow> e \<in> set (yc_events x) \<Longrightarrow> 0 < lo \<Longrightarrow> now \<le> int hi \<Longrightarrow> hi \<le> lo + yield_expiry \<Longrightarrow> \<not> stale now e"
  by (fastforce simp: stamped_def stale_def)

text \<open>A drain moves each event into the content or leaves it queued.\<close>

lemma drain_held:
  assumes "stamped lo x" "0 < lo" "now \<le> int hi" "hi \<le> lo + yield_expiry" "fst (drain_for_fill H now x) = Some t"
    and "queued c x"
  shows "sublist c t \<or> queued c (snd (drain_for_fill H now x))"
proof -
  obtain e where e: "e \<in> set (yc_events x)" "sublist c (ye_content e)" using assms(6) unfolding queued_def by blast
  from drain_keeps [OF e(1) not_stale [OF assms(1) e(1) assms(2-4)]]
  obtain u where "fst (drain_for_fill H now x) = Some u"
      "sublist (ye_content e) u \<or> e \<in> set (yc_events (snd (drain_for_fill H now x)))" by blast
  with assms(5) e(2) show ?thesis unfolding queued_def using sublist_order.order_trans by auto
qed

lemma stamped_drain: "stamped lo x \<Longrightarrow> stamped lo (snd (drain_for_fill H now x))"
  by (auto simp: stamped_def yield_simps dest: in_set_dropD)

lemma on_the_way_other:
  "on_the_way c ch \<Longrightarrow> (\<And>i t. ch k \<noteq> Some (i, Sent t)) \<Longrightarrow> on_the_way c (ch(k := v))"
  unfolding on_the_way_def by (metis fun_upd_other)

lemma on_the_way_sent: "sublist c t \<Longrightarrow> on_the_way c (ch(k \<mapsto> (i, Sent t)))"
  unfolding on_the_way_def by (metis fun_upd_same)

lemma drop_waiter_way: "waiter_ok x \<Longrightarrow> on_the_way c (yc_chans x) \<Longrightarrow> on_the_way c (yc_chans (drop_waiter x))"
  by (auto simp: drop_waiter_def waiter_ok_def on_the_way_other split: option.splits prod.splits chan.splits)

lemma send_waiter_way:
  assumes "yc_chans x k = Some (i, Waiting)" "on_the_way c (yc_chans x) \<or> sublist c t"
  shows "on_the_way c (yc_chans (send_waiter t k x))"
  using assms by (auto simp: send_waiter_def on_the_way_other on_the_way_sent)

definition calm_ctx :: "nat \<Rightarrow> 'm yield_ctx \<Rightarrow> bool" where
  "calm_ctx lo x \<longleftrightarrow> waiter_ok x \<and> stamped lo x"

lemma waiter_ok_same:
  "waiter_ok x \<Longrightarrow> yc_waiter x' = yc_waiter x \<Longrightarrow> yc_chans x' = yc_chans x \<Longrightarrow> waiter_ok x'"
  by (simp only: waiter_ok_def)

lemma calm_same:
  "calm_ctx lo x \<Longrightarrow> yc_waiter x' = yc_waiter x \<Longrightarrow> yc_chans x' = yc_chans x \<Longrightarrow> stamped lo x' \<Longrightarrow> calm_ctx lo x'"
  using waiter_ok_same [of x x'] by (simp add: calm_ctx_def)

lemma calm_no_waiter: "yc_waiter x = None \<Longrightarrow> stamped lo x \<Longrightarrow> calm_ctx lo x"
  by (simp add: calm_ctx_def waiter_ok_def)

lemma stamped_same: "yc_events x' = yc_events x \<Longrightarrow> stamped lo x \<Longrightarrow> stamped lo x'"
  by (simp add: stamped_def)

lemma held_same:
  "yc_events x' = yc_events x \<Longrightarrow> yc_chans x' = yc_chans x \<Longrightarrow> yc_session x' = yc_session x \<Longrightarrow> held c x \<Longrightarrow> held c x'"
  by (simp add: held_def queued_def)

lemma try_fill_held:
  assumes t: "try_fill_pending_yield H now x = (r, x')" and ok: "calm_ctx lo x"
    and time: "0 < lo" "now \<le> int hi" "hi \<le> lo + yield_expiry"
  shows "calm_ctx lo x' \<and> (held c x \<longrightarrow> held c x')"
  using t
proof (cases rule: try_fill_cases)
  case untouched
  have "stamped lo x'" by (rule stamped_same [OF untouched(5)]) (use ok in \<open>simp add: calm_ctx_def\<close>)
  with calm_same [OF ok untouched(3,4)] held_same [OF untouched(5,4,2)] show ?thesis by blast
next
  case (woken p u k)
  have w: "yc_chans x k = Some (py_tool_call_id p, Waiting)" using ok woken by (simp add: calm_ctx_def waiter_ok_def)
  have s: "stamped lo x" using ok by (simp add: calm_ctx_def)
  let ?y = "(snd (drain_for_fill H now x))\<lparr>yc_waiter := None\<rparr>"
  have w': "yc_chans ?y k = Some (py_tool_call_id p, Waiting)" using w by (simp add: yield_simps)
  have "calm_ctx lo x'"
    using woken stamped_drain [OF s, of H now] by (simp add: calm_ctx_def waiter_ok_def stamped_def yield_simps)
  moreover have "held c x'" if h: "held c x"
  proof -
    have "queued c x \<Longrightarrow> sublist c u \<or> queued c (snd (drain_for_fill H now x))"
      by (rule drain_held [OF s time woken(4)])
    moreover have "yc_session x' = yc_session x" "queued c x' = queued c (snd (drain_for_fill H now x))"
      using woken by (simp_all add: yield_simps queued_def)
    moreover have "on_the_way c (yc_chans x) \<or> sublist c u \<Longrightarrow> on_the_way c (yc_chans x')"
      using send_waiter_way [OF w', of c u] woken by (simp add: yield_simps)
    ultimately show ?thesis using h unfolding held_def by auto
  qed
  ultimately show ?thesis by blast
next
  case (replay p)
  have same: "yc_waiter x' = yc_waiter x" "yc_chans x' = yc_chans x" "yc_events x' = yc_events x" "yc_session x' = yc_session x"
    using replay by simp_all
  have "stamped lo x'" by (rule stamped_same [OF same(3)]) (use ok in \<open>simp add: calm_ctx_def\<close>)
  with calm_same [OF ok same(1,2)] held_same [OF same(3,2,4)] show ?thesis by blast
next
  case (resume p u)
  have s: "stamped lo x" using ok by (simp add: calm_ctx_def)
  have "calm_ctx lo x'"
    by (rule calm_same [OF ok], use resume in \<open>simp_all only: yield_simps\<close>)
       (use stamped_drain [OF s, of H now] in \<open>simp add: stamped_def yield_simps\<close>)
  moreover have "held c x'" if h: "held c x"
  proof -
    have "queued c x \<Longrightarrow> sublist c u \<or> queued c (snd (drain_for_fill H now x))"
      by (rule drain_held [OF s time resume(3)])
    moreover have "answered c (yc_session x) \<or> sublist c u \<Longrightarrow> answered c (yc_session x')"
      using resume by (simp add: yield_simps answered_fill)
    moreover have "yc_chans x' = yc_chans x" "queued c x' = queued c (snd (drain_for_fill H now x))"
      using resume by (simp_all add: yield_simps queued_def)
    ultimately show ?thesis using h unfolding held_def by auto
  qed
  ultimately show ?thesis by blast
qed

lemma park_begin_held:
  assumes t: "park_begin H now k i x = (b, x')" and ok: "calm_ctx lo x" and k: "yc_chans x k = None"
    and time: "0 < lo" "now \<le> int hi" "hi \<le> lo + yield_expiry"
  shows "calm_ctx lo x' \<and> (held c x \<longrightarrow> held c x')"
  using t
proof (cases rule: park_begin_cases)
  case (filled u)
  have s: "stamped lo x" using ok by (simp add: calm_ctx_def)
  have "calm_ctx lo x'"
    by (rule calm_same [OF ok], use filled in \<open>simp_all only: yield_simps\<close>)
       (use stamped_drain [OF s, of H now] in \<open>simp add: stamped_def yield_simps\<close>)
  moreover have "held c x'" if h: "held c x"
  proof -
    have "queued c x \<Longrightarrow> sublist c u \<or> queued c (snd (drain_for_fill H now x))"
      by (rule drain_held [OF s time filled(2)])
    moreover have "answered c (yc_session x) \<or> sublist c u \<Longrightarrow> answered c (yc_session x')"
      using filled by (simp add: yield_simps answered_fill)
    moreover have "yc_chans x' = yc_chans x" "queued c x' = queued c (snd (drain_for_fill H now x))"
      using filled by (simp_all add: yield_simps queued_def)
    ultimately show ?thesis using h unfolding held_def by auto
  qed
  ultimately show ?thesis by blast
next
  case (parked x2)
  have w: "waiter_ok (snd (drain_for_fill H now x))"
    by (rule waiter_ok_same [of x]) (use ok in \<open>simp_all add: calm_ctx_def yield_simps\<close>)
  have n: "yc_chans x2 k = None" using parked k ok
    by (auto simp: drop_waiter_def yield_simps calm_ctx_def waiter_ok_def split: option.splits prod.splits)
  have e: "yc_events x' = []" using parked by (simp add: yield_simps)
  have "calm_ctx lo x'" using parked e by (simp add: calm_ctx_def waiter_ok_def stamped_def)
  moreover have "held c x'" if h: "held c x"
  proof -
    have "\<not> queued c x" using parked by (simp add: queued_def)
    moreover have "on_the_way c (yc_chans x) \<Longrightarrow> on_the_way c (yc_chans x')"
      using drop_waiter_way [OF w, of c] n parked by (simp add: on_the_way_other yield_simps)
    moreover have "yc_session x' = yc_session x" using parked by (simp add: yield_simps)
    ultimately show ?thesis using h unfolding held_def by auto
  qed
  ultimately show ?thesis by blast
qed

lemma stamped_enqueue: "stamped lo x \<Longrightarrow> int lo \<le> now \<Longrightarrow> stamped lo (enqueue_event H (fresh_event now c) x)"
  by (auto simp: stamped_def yield_simps fresh_event_def)

lemma queued_enqueue: "queued c (enqueue_event H (fresh_event now t) x) \<longleftrightarrow> queued c x \<or> sublist c t"
  by (auto simp: queued_def yield_simps fresh_event_def)

lemma held_session:
  "held c x \<Longrightarrow> (answered c (yc_session x) \<Longrightarrow> answered c (f (yc_session x))) \<Longrightarrow> held c (on_yield_session f x)"
  by (auto simp: held_def queued_def yield_simps)

lemma calm_session: "calm_ctx lo x \<Longrightarrow> calm_ctx lo (on_yield_session f x)"
  by (rule calm_same [of lo x]) (simp_all add: yield_simps stamped_def calm_ctx_def)

lemma on_the_way_gone:
  "on_the_way c (yc_chans x) \<Longrightarrow> on_the_way c ((yc_chans x)(k := None)) \<or> (\<exists>i t. yc_chans x k = Some (i, Sent t) \<and> sublist c t)"
  unfolding on_the_way_def by (metis fun_upd_other)

lemma park_end_held:
  assumes t: "park_end H now k x = Some (b, x')" and ok: "calm_ctx lo x" and time: "int lo \<le> now"
  shows "calm_ctx lo x' \<and> (held c x \<longrightarrow> held c x')"
proof -
  let ?x1 = "x\<lparr>yc_chans := (yc_chans x)(k := None)\<rparr>"
  obtain i ch where ch: "yc_chans x k = Some (i, ch)" "ch \<noteq> Waiting"
    using t by (auto simp: park_end_def split: option.splits chan.splits)
  have ok1: "calm_ctx lo ?x1"
    using ok ch by (auto simp: calm_ctx_def waiter_ok_def stamped_def split: option.splits)
  have q1: "queued c ?x1 = queued c x" by (simp add: queued_def)
  show ?thesis
  proof (cases ch)
    case Waiting
    with ch(2) show ?thesis by blast
  next
    case (Sent u)
    have way: "on_the_way c (yc_chans x) \<Longrightarrow> on_the_way c (yc_chans ?x1) \<or> sublist c u"
      using on_the_way_gone [of c x k] ch(1) Sent by auto
    show ?thesis
    proof (cases "case s_pending_yield (yc_session x) of Some p \<Rightarrow> py_tool_call_id p = i | None \<Rightarrow> False")
      case True
      then have x': "x' = on_yield_session (fill_session H i u) ?x1"
        using t ch(1) Sent by (simp add: park_end_def)
      have "answered c (yc_session x) \<or> sublist c u \<Longrightarrow> answered c (yc_session x')"
        by (simp add: x' yield_simps answered_fill)
      moreover have "queued c x' = queued c x" "yc_chans x' = yc_chans ?x1"
        by (simp_all add: x' queued_def yield_simps)
      ultimately show ?thesis
        using way calm_session [OF ok1, of "fill_session H i u"] by (auto simp: x' held_def)
    next
      case False
      then have x': "x' = enqueue_event H (fresh_event now u) ?x1"
        using t ch(1) Sent by (simp add: park_end_def if_not_P [OF False])
      have "calm_ctx lo x'"
        by (rule calm_same [OF ok1]) (use stamped_enqueue [of lo ?x1 now H u] ok1 time in \<open>simp_all add: x' yield_simps calm_ctx_def\<close>)
      moreover have "yc_session x' = yc_session x" "yc_chans x' = yc_chans ?x1" by (simp_all add: x' yield_simps)
      moreover have "queued c x' \<longleftrightarrow> queued c x \<or> sublist c u" by (simp add: x' queued_enqueue q1)
      ultimately show ?thesis using way by (auto simp: held_def)
    qed
  next
    case Closed
    then have x': "x' = ?x1" using t ch(1) by (simp add: park_end_def)
    have "on_the_way c (yc_chans x) \<Longrightarrow> on_the_way c (yc_chans ?x1)"
      using on_the_way_gone [of c x k] ch(1) Closed by auto
    then show ?thesis using ok1 q1 by (auto simp: x' held_def)
  qed
qed

lemma interject_held:
  assumes ok: "calm_ctx lo x"
  shows "calm_ctx lo (interject H t x) \<and> (held c x \<longrightarrow> held c (interject H t x))"
proof -
  have d: "calm_ctx lo (drop_waiter x)" "held c x \<Longrightarrow> held c (drop_waiter x)"
    using ok drop_waiter_way [of x c]
    by (auto simp: yield_simps calm_ctx_def held_def queued_def stamped_def waiter_ok_def)
  show ?thesis
  proof (cases "s_pending_yield (yc_session x)")
    case None
    then show ?thesis using ok by (simp add: interject_def)
  next
    case (Some p)
    then obtain y where y: "interject H t x = on_yield_session (fill_session H (py_tool_call_id p) (interruption t)) y"
      "y = x \<or> y = drop_waiter x"
      by (auto simp: interject_def split: option.splits prod.splits)
    from y(2) d ok have y2: "calm_ctx lo y \<and> (held c x \<longrightarrow> held c y)" by blast
    have a: "\<And>s. answered c s \<Longrightarrow> answered c (fill_session H (py_tool_call_id p) (interruption t) s)"
      by (simp add: answered_fill)
    have "held c y \<Longrightarrow> held c (on_yield_session (fill_session H (py_tool_call_id p) (interruption t)) y)"
      by (rule held_session) (simp_all add: a)
    with y2 show ?thesis unfolding y(1) using calm_session by blast
  qed
qed

lemma step_held:
  assumes "yield_step H l x x'" "calm_ctx lo x" "calm lo hi l" "0 < lo" "hi \<le> lo + yield_expiry"
  shows "calm_ctx lo x' \<and> (held c x \<longrightarrow> held c x')"
  using assms(1)
proof (cases rule: yield_step.cases)
  case (arrive now d)
  have "calm_ctx lo x'" unfolding arrive
    by (rule calm_same [OF assms(2)])
       (use stamped_enqueue [of lo x now H d] assms(2,3) arrive in \<open>simp_all add: yield_simps calm_ctx_def\<close>)
  then show ?thesis unfolding arrive by (simp add: held_def queued_enqueue yield_simps)
next
  case (fill now)
  obtain r x1 where t: "try_fill_pending_yield H now x = (r, x1)" by (cases "try_fill_pending_yield H now x")
  have "now \<le> int hi" using assms(3) fill by simp
  from try_fill_held [OF t assms(2,4) this assms(5)] t fill show ?thesis by simp
next
  case swap
  have "calm_ctx lo x'" by (rule calm_same [OF assms(2)]) (use swap assms(2) in \<open>simp_all add: spawn_yield_replay_def calm_ctx_def stamped_def\<close>)
  then show ?thesis using swap by (simp add: spawn_yield_replay_def held_def queued_def)
next
  case replay_done
  have "calm_ctx lo x'" by (rule calm_same [OF assms(2)]) (use replay_done assms(2) in \<open>simp_all add: calm_ctx_def stamped_def\<close>)
  then show ?thesis using replay_done by (simp add: held_def queued_def)
next
  case (park p k now)
  obtain b x1 where t: "park_begin H now k (py_tool_call_id p) x = (b, x1)"
    by (cases "park_begin H now k (py_tool_call_id p) x")
  have "now \<le> int hi" using assms(3) park by simp
  from park_begin_held [OF t assms(2) park(4) assms(4) this assms(5)] t park show ?thesis by simp
next
  case (wake now k b)
  have "int lo \<le> now" using assms(3) wake by simp
  from park_end_held [OF wake(2) assms(2) this] show ?thesis by simp
next
  case (interject d)
  then show ?thesis using interject_held [OF assms(2)] by simp
next
  case (yield_call i)
  then show ?thesis using held_session [of c x "yield_called H i"] calm_session [OF assms(2), of "yield_called H i"]
      answered_yield_called [of c "yc_session x" H i] by auto
next
  case (implicit u)
  then show ?thesis using held_session [of c x "insert_implicit_yield H u"] calm_session [OF assms(2), of "insert_implicit_yield H u"]
      answered_implicit [of c "yc_session x" H u] by auto
next
  case (say m)
  then show ?thesis
    using held_session [of c x "\<lambda>s. persist_last H (push_message m s)"] calm_session [OF assms(2), of "\<lambda>s. persist_last H (push_message m s)"]
      answered_say [of c "yc_session x" H m] by auto
qed (use assms(3) in simp_all)

lemma run_held:
  assumes "yield_run H ls x x'" "calm_ctx lo x" "\<forall>l \<in> set ls. calm lo hi l" "0 < lo" "hi \<le> lo + yield_expiry" "held c x"
  shows "held c x'"
  using assms
proof (induction rule: yield_run.induct)
  case (run_step l x x1 ls x2)
  have "calm lo hi l" using run_step.prems(2) by simp
  from step_held [OF run_step.hyps(1) run_step.prems(1) this run_step.prems(3,4)] run_step
  show ?case by simp
qed simp

lemma run_arrived:
  assumes "yield_run H ls x x'" "calm_ctx lo x" "\<forall>l \<in> set ls. calm lo hi l" "0 < lo" "hi \<le> lo + yield_expiry"
    "Arrive now c \<in> set ls"
  shows "held c x'"
  using assms
proof (induction rule: yield_run.induct)
  case (run_step l x x1 ls x2)
  have l: "calm lo hi l" using run_step.prems(2) by simp
  note x1 = step_held [OF run_step.hyps(1) run_step.prems(1) l run_step.prems(3,4)]
  show ?case
  proof (cases "l = Arrive now c")
    case True
    with run_step.hyps(1) have "x1 = enqueue_event H (fresh_event now c) x" by (auto elim: yield_step.cases)
    then have "held c x1" by (simp add: held_def queued_enqueue)
    with run_held [OF run_step.hyps(2) _ _ run_step.prems(3,4)] x1 run_step.prems(2) show ?thesis by simp
  next
    case False
    with run_step x1 show ?thesis by simp
  qed
qed simp

text \<open>C23: An event that arrives is never lost while the process runs: over every interleaving of arrivals, fills, replays, parks, wakes, user messages and new yields within the expiry time, its content stays in the queue, is on its way to a parked task, or is part of the result of a yield in the history.\<close>

theorem no_event_lost:
  assumes "yield_run H ls (new_yield_ctx H No_File s) x" "Arrive now c \<in> set ls"
    and "\<forall>l \<in> set ls. calm lo hi l" "0 < lo" "hi \<le> lo + yield_expiry"
  shows "queued c x \<or> on_the_way c (yc_chans x) \<or> answered c (yc_session x)"
proof -
  have "calm_ctx lo (new_yield_ctx H No_File s)"
    by (rule calm_no_waiter) (simp_all add: new_yield_ctx_def stamped_def restore_field_def)
  from run_arrived [OF assms(1) this assms(3-5,2)] show ?thesis by (simp add: held_def)
qed

text \<open>The yield \<open>p\<close> has its result: it ends the history, holds the text, and nothing is pending.\<close>

definition result_holds :: "utext \<Rightarrow> utext \<Rightarrow> 'm yield_ctx \<Rightarrow> bool" where
  "result_holds i c x \<longleftrightarrow>
     (let m = last (s_history (yc_session x)) in
      yield_result m \<and> cm_tool_call_id m = Some i \<and> sublist c (text_content m) \<and> s_pending_yield (yc_session x) = None)"

definition awaits :: "utext \<Rightarrow> 'm yield_ctx \<Rightarrow> bool" where
  "awaits i x \<longleftrightarrow> (case s_pending_yield (yc_session x) of Some p \<Rightarrow> py_tool_call_id p = i | None \<Rightarrow> False)"

lemma result_holds_fill: "sublist c t \<Longrightarrow> result_holds i c (on_yield_session (fill_session H i t) x)"
  by (simp add: result_holds_def on_yield_session_simps fill_session_history fill_session_pending text_content_def
      text_message_def yield_result_def)

lemma result_holds_same: "yc_session x' = yc_session x \<Longrightarrow> result_holds i c x' = result_holds i c x"
  by (simp add: result_holds_def)

text \<open>A task whose channel was sent a text writes it as the result when its yield is still pending, and queues
  it again when the yield was closed meanwhile.\<close>

lemma woken_task:
  assumes "yc_chans y k = Some (i, Sent t)" "sublist c t"
  shows "\<exists>y'. park_end H now k y = Some (awaits i y, y') \<and> (if awaits i y then result_holds i c y' else queued c y')"
proof (cases "awaits i y")
  case True
  let ?y = "on_yield_session (fill_session H i t) (y\<lparr>yc_chans := (yc_chans y)(k := None)\<rparr>)"
  have "park_end H now k y = Some (True, ?y)"
    using assms(1) True by (simp add: park_end_def Let_def awaits_def)
  then show ?thesis using True result_holds_fill [OF assms(2)] by (intro exI [of _ ?y]) simp
next
  case False
  let ?y = "enqueue_event H (fresh_event now t) (y\<lparr>yc_chans := (yc_chans y)(k := None)\<rparr>)"
  have "park_end H now k y = Some (False, ?y)"
    using assms(1) False by (simp add: park_end_def Let_def awaits_def)
  moreover have "queued c ?y" using assms(2) by (simp add: queued_enqueue)
  ultimately show ?thesis using False by (intro exI [of _ ?y]) simp
qed


text \<open>A drained event is in neither the file nor the history until the parked task has run: a crash
  in between loses it.\<close>

lemma crash_loses_drained:
  assumes "try_fill_pending_yield H now x = (Fill_Woken, x')" "H \<noteq> None" "yc_events x = [e]" "\<not> stale now e"
  shows "yc_file x' = No_File \<and> yc_events (new_yield_ctx H (yc_file x') s) = []"
proof -
  have "yc_file x' = yc_file (snd (drain_for_fill H now x))"
    using assms(1) by (cases rule: try_fill_cases) (auto simp: send_waiter_def)
  moreover have "yc_file (snd (drain_for_fill H now x)) = No_File"
    using assms(2-4) by (simp add: drain_for_fill_def take_events_def persist_events_def persist_field_def fill_limit_def)
  ultimately show ?thesis by (simp add: new_yield_ctx_def restore_field_def)
qed

text \<open>The turn of an agent changes the session in the same way.\<close>

lemma record_result_yield:
  "is_yield c \<Longrightarrow> tn_session (record_result E c content False st) = yield_called (te_hook E) (call_id c) (tn_session st)"
  by (auto simp: record_result_def yield_called_def fill_session_def on_session_def persist_turn_def persist_last_def
      add_tool_result_def push_message_def split: option.splits)

lemma fill_yield_session:
  "tn_session (fill_yield E i content st) = fill_session (te_hook E) i content (tn_session st)"
  by (auto simp: fill_yield_def fill_session_def on_session_def persist_turn_def persist_last_def
      add_tool_result_def push_message_def split: option.splits)

subsection \<open>Instances\<close>

definition plain_hook :: persist_hook where
  "plain_hook = Some (\<lambda>_ _. Some 1)"

definition empty_ctx :: "unit yield_ctx" where
  "empty_ctx = new_yield_ctx plain_hook No_File (new_session (cps ''s''))"

definition yielded_ctx :: "unit yield_ctx" where
  "yielded_ctx = on_yield_session (yield_called plain_hook (cps ''y1'')) empty_ctx"

definition parked_ctx :: "unit yield_ctx" where
  "parked_ctx = snd (park_begin plain_hook 100 0 (cps ''y1'') yielded_ctx)"

definition sample_labels :: "unit yield_label list" where
  "sample_labels = [Yield_Call (cps ''y1''), Park 100 0, Arrive 100 (cps ''done''), Fill 100, Interject (cps ''stop'')]"

lemma yielded_simps:
  "yc_waiter yielded_ctx = None" "yc_chans yielded_ctx = Map.empty" "yc_events yielded_ctx = []"
  "s_pending_yield (yc_session yielded_ctx) = Some \<lparr>py_tool_call_id = cps ''y1'', py_implicit = False\<rparr>"
  by (simp_all add: yielded_ctx_def empty_ctx_def new_yield_ctx_def yield_simps restore_field_def)

lemma parked_simps:
  "yc_waiter parked_ctx = Some (cps ''y1'', 0)" "yc_chans parked_ctx = [0 \<mapsto> (cps ''y1'', Waiting)]"
  "yc_events parked_ctx = []"
  "s_pending_yield (yc_session parked_ctx) = Some \<lparr>py_tool_call_id = cps ''y1'', py_implicit = False\<rparr>"
proof -
  obtain x1 where x1: "drain_for_fill plain_hook 100 yielded_ctx = (None, x1)"
    using drain_simps(7) [of plain_hook 100 yielded_ctx] yielded_simps(3)
    by (cases "drain_for_fill plain_hook 100 yielded_ctx") auto
  have "yc_waiter x1 = None" "yc_chans x1 = Map.empty" "yc_events x1 = []" "yc_session x1 = yc_session yielded_ctx"
    using drain_simps [of plain_hook 100 yielded_ctx] x1 yielded_simps by auto
  then show "yc_waiter parked_ctx = Some (cps ''y1'', 0)" "yc_chans parked_ctx = [0 \<mapsto> (cps ''y1'', Waiting)]"
    "yc_events parked_ctx = []"
    "s_pending_yield (yc_session parked_ctx) = Some \<lparr>py_tool_call_id = cps ''y1'', py_implicit = False\<rparr>"
    using yielded_simps(4) by (simp_all add: parked_ctx_def park_begin_def x1 Let_def drop_waiter_def)
qed

lemma sample_run: "\<exists>x. yield_run plain_hook sample_labels empty_ctx x"
proof -
  have "fresh_call (cps ''y1'') empty_ctx"
    by (simp add: fresh_call_def empty_ctx_def new_yield_ctx_def new_session_def result_calls_def)
  then have "yield_step plain_hook (Yield_Call (cps ''y1'')) empty_ctx yielded_ctx"
    unfolding yielded_ctx_def by (rule yield_step.yield_call)
  moreover have "yield_step plain_hook (Park 100 0) yielded_ctx parked_ctx"
    using yield_step.park [of yielded_ctx _ 0 plain_hook 100] yielded_simps unfolding parked_ctx_def by fastforce
  ultimately show ?thesis unfolding sample_labels_def
    by (meson yield_run.intros yield_step.arrive yield_step.fill yield_step.interject)
qed

lemma one_result_per_yield_witness:
  "\<exists>x. yield_run plain_hook sample_labels empty_ctx x \<and> distinct (result_calls (s_history (yc_session x)))"
proof -
  obtain x where x: "yield_run plain_hook sample_labels empty_ctx x" using sample_run by blast
  have "distinct (result_calls (s_history (yc_session empty_ctx)))" "s_pending_yield (yc_session empty_ctx) = None"
    by (simp_all add: empty_ctx_def new_yield_ctx_def new_session_def result_calls_def)
  moreover have "\<forall>s. Crash s \<notin> set sample_labels" by (simp add: sample_labels_def)
  ultimately show ?thesis using one_result_per_yield [OF x] x by blast
qed

lemma no_event_lost_witness:
  "\<exists>x. yield_run plain_hook sample_labels empty_ctx x
    \<and> (queued (cps ''done'') x \<or> on_the_way (cps ''done'') (yc_chans x) \<or> answered (cps ''done'') (yc_session x))"
proof -
  obtain x where x: "yield_run plain_hook sample_labels empty_ctx x" using sample_run by blast
  have "Arrive 100 (cps ''done'') \<in> set sample_labels" "\<forall>l \<in> set sample_labels. calm 1 200 l"
    by (simp_all add: sample_labels_def)
  with no_event_lost [OF x [unfolded empty_ctx_def], of 100 "cps ''done''" 1 200] x show ?thesis
    unfolding empty_ctx_def by (auto simp: yield_expiry_def)
qed


end
