(* ===== verification/Skills.thy ===== *)
theory Skills
  imports Str_Utils Ids "HOL-Library.AList" "HOL-Library.Multiset" "HOL-Library.List_Lexorder"
begin

text \<open>
  The skills of an agent: \<open>SKILL.md\<close> files and their directories
  (\<open>agents/workspace/skill_loader.rs\<close>), the layered manager (\<open>agents/workspace/skills.rs\<close>) and the
  throttled reminder of unreviewed drafts (\<open>agents/skill_draft_reminder.rs\<close>).  A directory is the
  list of its entries as \<open>read_dir\<close> yields them; hash maps are association lists without duplicate
  keys, their order that of the list.  Log messages are left out.
\<close>

subsection \<open>Skill files\<close>

record skill_definition =
  sd_name :: utext
  sd_description :: utext
  sd_keywords :: "utext list"
  sd_prompt_body :: utext
  sd_source_path :: utext
  sd_version :: "utext option"
  sd_when_to_use :: "utext option"
  sd_argument_hint :: "utext option"
  sd_arguments :: "utext list"
  sd_user_invocable :: bool
  sd_agent_invocable :: bool
  sd_status :: "utext option"
  sd_source_layer :: utext

text \<open>The second reading of a field happens only when the first finds nothing.\<close>

definition dual_string :: "utext \<Rightarrow> utext option \<Rightarrow> string \<Rightarrow> utext option run" where
  "dual_string level0 metadata k =
     bind_run (extract_yaml_string level0 (cps k)) (\<lambda>v. case v of
       Some x \<Rightarrow> Ret (Some x)
     | None \<Rightarrow> (case metadata of Some m \<Rightarrow> extract_yaml_string m (cps k) | None \<Rightarrow> Ret None))"

definition dual_list :: "utext \<Rightarrow> utext option \<Rightarrow> string \<Rightarrow> utext list run" where
  "dual_list level0 metadata k =
     bind_run (extract_yaml_list level0 (cps k)) (\<lambda>v.
       if v \<noteq> [] then Ret v
       else case metadata of Some m \<Rightarrow> extract_yaml_list m (cps k) | None \<Rightarrow> Ret [])"

definition dual_bool :: "utext \<Rightarrow> utext option \<Rightarrow> string \<Rightarrow> bool option run" where
  "dual_bool level0 metadata k =
     bind_run (extract_yaml_bool level0 (cps k)) (\<lambda>v. case v of
       Some b \<Rightarrow> Ret (Some b)
     | None \<Rightarrow> (case metadata of Some m \<Rightarrow> extract_yaml_bool m (cps k) | None \<Rightarrow> Ret None))"

definition validate_and_resolve_name :: "utext option \<Rightarrow> utext \<Rightarrow> utext" where
  "validate_and_resolve_name front dir =
     (let name = (case front of Some n \<Rightarrow> n | None \<Rightarrow> dir) in if name \<noteq> dir then dir else name)"

definition skill_path :: "utext \<Rightarrow> utext" where
  "skill_path dir = dir @ cps ''/SKILL.md''"

definition parse_skill_file :: "utext \<Rightarrow> utext \<Rightarrow> skill_definition run" where
  "parse_skill_file dir content =
     (case parse_front_matter content of (fm, body) \<Rightarrow>
        bind_run (extract_yaml_string fm (cps ''name'')) (\<lambda>raw.
        bind_run (extract_yaml_string fm (cps ''description'')) (\<lambda>description.
        bind_run (extract_yaml_block fm (cps ''metadata'')) (\<lambda>metadata.
        let level0 = strip_yaml_block fm (cps ''metadata'') in
        bind_run (dual_list level0 metadata ''keywords'') (\<lambda>keywords.
        bind_run (dual_string level0 metadata ''version'') (\<lambda>version.
        bind_run (dual_string level0 metadata ''when_to_use'') (\<lambda>when_to_use.
        bind_run (dual_string level0 metadata ''argument_hint'') (\<lambda>argument_hint.
        bind_run (dual_list level0 metadata ''arguments'') (\<lambda>arguments.
        bind_run (dual_bool level0 metadata ''user_invocable'') (\<lambda>user_invocable.
        bind_run (dual_bool level0 metadata ''agent_invocable'') (\<lambda>agent_invocable.
        bind_run (dual_string level0 metadata ''status'') (\<lambda>status.
        Ret \<lparr>sd_name = validate_and_resolve_name raw dir,
             sd_description = (case description of Some d \<Rightarrow> d | None \<Rightarrow> []),
             sd_keywords = keywords, sd_prompt_body = trim body, sd_source_path = skill_path dir,
             sd_version = version, sd_when_to_use = when_to_use, sd_argument_hint = argument_hint,
             sd_arguments = arguments,
             sd_user_invocable = (case user_invocable of Some b \<Rightarrow> b | None \<Rightarrow> True),
             sd_agent_invocable = (case agent_invocable of Some b \<Rightarrow> b | None \<Rightarrow> True),
             sd_status = status, sd_source_layer = cps ''unknown''\<rparr>))))))))))))"

subsection \<open>Directories\<close>

text \<open>An entry of a skills directory: its \<open>SKILL.md\<close> is missing, cannot be read as text, or has a content.\<close>

datatype skill_md = No_Md | Unreadable_Md | Md utext

record skill_entry =
  de_name :: utext
  de_is_dir :: bool
  de_md :: skill_md

text \<open>\<open>None\<close>: the directory does not exist or cannot be read.\<close>

type_synonym skills_dir = "skill_entry list option"

definition is_draft :: "skill_definition \<Rightarrow> bool" where
  "is_draft d \<longleftrightarrow> sd_status d = Some (cps ''draft'')"

primrec parse_entries :: "skill_entry list \<Rightarrow> skill_definition list run" where
  "parse_entries [] = Ret []"
| "parse_entries (e # es) =
     (if \<not> de_is_dir e then parse_entries es
      else case de_md e of
        Md content \<Rightarrow>
          bind_run (parse_skill_file (de_name e) content) (\<lambda>d. map_run (Cons d) (parse_entries es))
      | _ \<Rightarrow> parse_entries es)"

definition load_skills_from_dir :: "skills_dir \<Rightarrow> skill_definition list run" where
  "load_skills_from_dir dir =
     (case dir of
        None \<Rightarrow> Ret []
      | Some es \<Rightarrow> map_run (\<lambda>ds. sort_key sd_name (filter (\<lambda>d. \<not> is_draft d) ds)) (parse_entries es))"

definition list_draft_skill_names :: "skills_dir \<Rightarrow> utext list run" where
  "list_draft_skill_names dir =
     (case dir of
        None \<Rightarrow> Ret []
      | Some es \<Rightarrow> map_run (\<lambda>ds. sort (map sd_name (filter is_draft ds))) (parse_entries es))"

definition in_layer :: "string \<Rightarrow> skill_definition list \<Rightarrow> skill_definition list" where
  "in_layer layer = map (\<lambda>d. d\<lparr>sd_source_layer := cps layer\<rparr>)"

text \<open>The users' directories; \<open>None\<close> for an entry that is not a directory.\<close>

primrec load_all_users_skills ::
  "(string \<times> skills_dir option) list \<Rightarrow> (string \<times> skill_definition list) list run" where
  "load_all_users_skills [] = Ret []"
| "load_all_users_skills (u # us) =
     (case u of
        (i, Some (Some es)) \<Rightarrow>
          bind_run (load_skills_from_dir (Some es)) (\<lambda>ds.
            map_run (Cons (i, in_layer ''user'' ds)) (load_all_users_skills us))
      | _ \<Rightarrow> load_all_users_skills us)"

definition merge_layers ::
  "skill_definition list \<Rightarrow> skill_definition list \<Rightarrow> skill_definition list \<Rightarrow> skill_definition list" where
  "merge_layers user agent shared =
     (let agent' = filter (\<lambda>d. sd_name d \<notin> sd_name ` set user) agent;
          local_names = sd_name ` set user \<union> sd_name ` set agent'
      in sort_key sd_name (filter (\<lambda>d. sd_name d \<notin> local_names) shared @ agent' @ user))"

definition load_skills_layered ::
  "skills_dir option \<Rightarrow> skills_dir \<Rightarrow> skills_dir option \<Rightarrow> skill_definition list run" where
  "load_skills_layered user_dir agent_dir shared_dir =
     bind_run (case user_dir of Some d \<Rightarrow> load_skills_from_dir d | None \<Rightarrow> Ret []) (\<lambda>user.
     bind_run (load_skills_from_dir agent_dir) (\<lambda>agent.
     bind_run (case shared_dir of Some d \<Rightarrow> load_skills_from_dir d | None \<Rightarrow> Ret []) (\<lambda>shared.
       Ret (merge_layers (in_layer ''user'' user) (in_layer ''agent'' agent) (in_layer ''shared'' shared)))))"

subsection \<open>The manager\<close>

record skill =
  sk_name :: utext
  sk_description :: utext
  sk_keywords :: "utext list"
  sk_prompt_body :: utext
  sk_version :: "utext option"
  sk_when_to_use :: "utext option"
  sk_argument_hint :: "utext option"
  sk_arguments :: "utext list"
  sk_user_invocable :: bool
  sk_agent_invocable :: bool
  sk_dir :: "utext option"
  sk_source_layer :: utext

definition skill_from_definition :: "skill_definition \<Rightarrow> skill" where
  "skill_from_definition d =
     \<lparr>sk_name = sd_name d, sk_description = sd_description d, sk_keywords = sd_keywords d,
      sk_prompt_body = sd_prompt_body d, sk_version = sd_version d, sk_when_to_use = sd_when_to_use d,
      sk_argument_hint = sd_argument_hint d, sk_arguments = sd_arguments d,
      sk_user_invocable = sd_user_invocable d, sk_agent_invocable = sd_agent_invocable d,
      sk_dir = Some (take (length (sd_source_path d) - length (skill_path [])) (sd_source_path d)),
      sk_source_layer = sd_source_layer d\<rparr>"

definition max_injected_description :: nat where "max_injected_description = 1024"

definition injected_summary :: "skill \<Rightarrow> utext" where
  "injected_summary s =
     (if length (sk_description s) \<le> max_injected_description then sk_description s
      else truncate_chars (sk_description s) (max_injected_description - 3) @ cps ''...'')"

type_synonym skill_map = "(utext \<times> skill) list"

record skill_manager =
  mg_user :: "(string \<times> skill_map) list"
  mg_agent :: skill_map
  mg_shared :: skill_map

definition new_skill_manager :: skill_manager where
  "new_skill_manager = \<lparr>mg_user = [], mg_agent = [], mg_shared = []\<rparr>"

definition register_skill :: "skill \<Rightarrow> skill_manager \<Rightarrow> skill_manager" where
  "register_skill s M = M\<lparr>mg_agent := AList.update (sk_name s) s (mg_agent M)\<rparr>"

definition register_definition :: "skill_definition \<Rightarrow> skill_manager \<Rightarrow> skill_manager" where
  "register_definition d = register_skill (skill_from_definition d)"

definition skill_count :: "skill_manager \<Rightarrow> nat" where
  "skill_count M = length (mg_agent M) + length (mg_shared M)"

definition owner_skills :: "'u uuid_lib \<Rightarrow> skill_manager \<Rightarrow> string option \<Rightarrow> skill_map option" where
  "owner_skills U M owner = (case owner of Some i \<Rightarrow> map_of (mg_user M) (bare_dir_name U i) | None \<Rightarrow> None)"

definition total_skill_count :: "'u uuid_lib \<Rightarrow> skill_manager \<Rightarrow> string option \<Rightarrow> nat" where
  "total_skill_count U M owner =
     skill_count M + (case owner_skills U M owner of Some u \<Rightarrow> length u | None \<Rightarrow> 0)"

definition put_all :: "skill_map \<Rightarrow> skill_map \<Rightarrow> skill_map" where
  "put_all m = fold (\<lambda>(k, v). AList.update k v) m"

definition skills_iter :: "'u uuid_lib \<Rightarrow> skill_manager \<Rightarrow> string option \<Rightarrow> skill_map" where
  "skills_iter U M owner =
     (let all = put_all (mg_agent M) (put_all (mg_shared M) [])
      in case owner_skills U M owner of Some u \<Rightarrow> put_all u all | None \<Rightarrow> all)"

definition agent_skills_iter :: "'u uuid_lib \<Rightarrow> skill_manager \<Rightarrow> string option \<Rightarrow> skill_map" where
  "agent_skills_iter U M owner = filter (\<lambda>(_, s). sk_agent_invocable s) (skills_iter U M owner)"

definition get_skill :: "'u uuid_lib \<Rightarrow> skill_manager \<Rightarrow> utext \<Rightarrow> string option \<Rightarrow> skill option" where
  "get_skill U M name owner =
     (case (case owner_skills U M owner of Some u \<Rightarrow> map_of u name | None \<Rightarrow> None) of
        Some s \<Rightarrow> Some s
      | None \<Rightarrow> (case map_of (mg_agent M) name of Some s \<Rightarrow> Some s | None \<Rightarrow> map_of (mg_shared M) name))"

definition skill_dir :: "'u uuid_lib \<Rightarrow> skill_manager \<Rightarrow> utext \<Rightarrow> string option \<Rightarrow> utext option" where
  "skill_dir U M name owner = Option.bind (get_skill U M name owner) sk_dir"

definition skill_prompts :: "'u uuid_lib \<Rightarrow> skill_manager \<Rightarrow> string option \<Rightarrow> (utext \<times> utext) list" where
  "skill_prompts U M owner =
     map (\<lambda>(n, s). (n, sk_prompt_body s)) (filter (\<lambda>(_, s). sk_prompt_body s \<noteq> []) (skills_iter U M owner))"

definition skills_of :: "skill_definition list \<Rightarrow> skill_map" where
  "skills_of ds = put_all (map (\<lambda>d. (sd_name d, skill_from_definition d)) ds) []"

definition reload_user_agent_layers ::
  "'u uuid_lib \<Rightarrow> (string \<times> skill_definition list) list \<Rightarrow> skill_definition list
    \<Rightarrow> skill_manager \<Rightarrow> skill_manager" where
  "reload_user_agent_layers U users agent M =
     M\<lparr>mg_user := fold (\<lambda>(i, ds). AList.update (bare_dir_name U i) (skills_of ds)) users [],
       mg_agent := skills_of agent\<rparr>"

definition reload_from_definitions ::
  "'u uuid_lib \<Rightarrow> (string \<times> skill_definition list) list \<Rightarrow> skill_definition list \<Rightarrow> skill_definition list
    \<Rightarrow> skill_manager \<Rightarrow> skill_manager" where
  "reload_from_definitions U users agent shared M =
     (reload_user_agent_layers U users agent M)\<lparr>mg_shared := skills_of shared\<rparr>"

subsection \<open>The reminder of drafts\<close>

definition draft_threshold :: nat where "draft_threshold = 5"

text \<open>A scope's root: the date in its state file, \<open>None\<close> when the file is missing, unreadable or without
  a date; its drafts' directory; and whether the state can be written.\<close>

record draft_scope =
  ds_reminded :: "utext option"
  ds_skills :: skills_dir
  ds_writable :: bool

definition check_scope :: "utext \<Rightarrow> draft_scope \<Rightarrow> (utext list option \<times> draft_scope) run" where
  "check_scope today s =
     (if ds_reminded s = Some today then Ret (None, s)
      else bind_run (list_draft_skill_names (ds_skills s)) (\<lambda>drafts.
        if length drafts < draft_threshold then Ret (None, s)
        else Ret (Some drafts, if ds_writable s then s\<lparr>ds_reminded := Some today\<rparr> else s)))"

text \<open>The user's scope is checked when there is an owner, the agent's in the operator's sessions.\<close>

definition check_and_arm ::
  "utext \<Rightarrow> draft_scope option \<Rightarrow> bool \<Rightarrow> draft_scope
    \<Rightarrow> ((utext list \<times> utext list) option \<times> draft_scope option \<times> draft_scope) run" where
  "check_and_arm today user is_operator agent =
     bind_run (case user of
         Some s \<Rightarrow> map_run (\<lambda>(r, s'). (r, Some s')) (check_scope today s)
       | None \<Rightarrow> Ret (None, None)) (\<lambda>(u, user').
     bind_run (if is_operator then check_scope today agent else Ret (None, agent)) (\<lambda>(a, agent').
       let ul = (case u of Some ns \<Rightarrow> ns | None \<Rightarrow> []); al = (case a of Some ns \<Rightarrow> ns | None \<Rightarrow> [])
       in Ret (if ul = [] \<and> al = [] then None else Some (ul, al), user', agent')))"

subsection \<open>Lookup\<close>

definition latest :: "skill_definition list \<Rightarrow> utext \<Rightarrow> skill_definition option" where
  "latest ds n = find (\<lambda>d. sd_name d = n) (rev ds)"

lemma put_all_simps [simp]: "put_all [] m = m" "put_all (p # ps) m = put_all ps (AList.update (fst p) (snd p) m)"
  by (simp_all add: put_all_def case_prod_beta)

lemma map_of_put_all: "map_of (put_all ps m) n = (case map_of (rev ps) n of Some s \<Rightarrow> Some s | None \<Rightarrow> map_of m n)"
  by (induction ps arbitrary: m) (auto simp: update_conv' map_add_def split: option.splits)

lemma distinct_put_all: "distinct (map fst m) \<Longrightarrow> distinct (map fst (put_all ps m))"
  by (induction ps arbitrary: m) (simp_all add: distinct_update)

lemma map_of_rev: "distinct (map fst m) \<Longrightarrow> map_of (rev m) = map_of m"
  by (intro map_of_eqI) (auto simp: map_of_eq_Some_iff rev_map [symmetric] distinct_rev)

lemma map_of_skills_of: "map_of (skills_of ds) n = map_option skill_from_definition (latest ds n)"
proof -
  have "map_of (map (\<lambda>d. (sd_name d, skill_from_definition d)) xs) n
      = map_option skill_from_definition (find (\<lambda>d. sd_name d = n) xs)" for xs
    by (induction xs) auto
  then show ?thesis by (simp add: skills_of_def map_of_put_all latest_def rev_map split: option.split)
qed

lemma distinct_skills_of: "distinct (map fst (skills_of ds))"
  by (simp add: skills_of_def distinct_put_all)

lemma iter_lookup:
  assumes "distinct (map fst (mg_agent M))" "distinct (map fst (mg_shared M))"
    and "\<And>u. owner_skills U M owner = Some u \<Longrightarrow> distinct (map fst u)"
  shows "map_of (skills_iter U M owner) n = get_skill U M n owner \<and> distinct (map fst (skills_iter U M owner))"
proof (cases "owner_skills U M owner")
  case None
  then show ?thesis using assms(1,2)
    by (auto simp: skills_iter_def get_skill_def map_of_put_all map_of_rev distinct_put_all split: option.splits)
next
  case (Some u)
  then show ?thesis using assms(1,2) assms(3) [OF Some]
    by (auto simp: skills_iter_def get_skill_def map_of_put_all map_of_rev distinct_put_all split: option.splits)
qed

lemma reload_user:
  "map_of (fold (\<lambda>(i, ds). AList.update (bare_dir_name U i) (skills_of ds)) users m) k =
     (case find (\<lambda>p. bare_dir_name U (fst p) = k) (rev users) of
        Some p \<Rightarrow> Some (skills_of (snd p)) | None \<Rightarrow> map_of m k)"
proof (induction users arbitrary: m)
  case (Cons p users)
  have f: "find P (xs @ [p]) = (case find P xs of Some y \<Rightarrow> Some y | None \<Rightarrow> if P p then Some p else None)" for P xs
    by (induction xs) auto
  show ?case
    by (auto simp: Cons.IH [unfolded case_prod_beta] f update_conv' case_prod_beta split: option.splits)
qed simp

definition user_definitions ::
  "'u uuid_lib \<Rightarrow> (string \<times> skill_definition list) list \<Rightarrow> string option \<Rightarrow> skill_definition list" where
  "user_definitions U users owner =
     (case owner of
        None \<Rightarrow> []
      | Some i \<Rightarrow> (case find (\<lambda>p. bare_dir_name U (fst p) = bare_dir_name U i) (rev users) of
          Some p \<Rightarrow> snd p | None \<Rightarrow> []))"

lemma reload_owner:
  "owner_skills U (reload_from_definitions U users agent shared M) owner =
     (case owner of
        None \<Rightarrow> None
      | Some i \<Rightarrow> map_option (\<lambda>p. skills_of (snd p)) (find (\<lambda>p. bare_dir_name U (fst p) = bare_dir_name U i) (rev users)))"
  by (auto simp: owner_skills_def reload_from_definitions_def reload_user_agent_layers_def reload_user split: option.splits)

text \<open>C31: After a reload a skill is looked up in the owner's definitions, then the agent's, then the shared ones, the last definition of a name in a layer counting, whatever form of the owner's id is used; iterating over the skills lists each name once, with the skill the lookup finds.\<close>

theorem skill_lookup_layered:
  "get_skill U (reload_from_definitions U users agent shared M) n owner =
     map_option skill_from_definition
       (case latest (user_definitions U users owner) n of Some d \<Rightarrow> Some d
        | None \<Rightarrow> (case latest agent n of Some d \<Rightarrow> Some d | None \<Rightarrow> latest shared n))
   \<and> map_of (skills_iter U (reload_from_definitions U users agent shared M) owner) n
     = get_skill U (reload_from_definitions U users agent shared M) n owner
   \<and> distinct (map fst (skills_iter U (reload_from_definitions U users agent shared M) owner))"
proof -
  let ?M = "reload_from_definitions U users agent shared M"
  have l: "mg_agent ?M = skills_of agent" "mg_shared ?M = skills_of shared"
    by (simp_all add: reload_from_definitions_def reload_user_agent_layers_def)
  have u: "(case owner_skills U ?M owner of Some u \<Rightarrow> map_of u n | None \<Rightarrow> None)
      = map_option skill_from_definition (latest (user_definitions U users owner) n)"
    by (auto simp: reload_owner user_definitions_def map_of_skills_of latest_def split: option.splits)
  have "get_skill U ?M n owner = map_option skill_from_definition
      (case latest (user_definitions U users owner) n of Some d \<Rightarrow> Some d
       | None \<Rightarrow> (case latest agent n of Some d \<Rightarrow> Some d | None \<Rightarrow> latest shared n))"
    unfolding get_skill_def u l map_of_skills_of by (simp split: option.split)
  moreover have "distinct (map fst u)" if "owner_skills U ?M owner = Some u" for u
    using that by (auto simp: reload_owner distinct_skills_of split: option.splits)
  ultimately show ?thesis using iter_lookup [of ?M U owner n] by (simp add: l distinct_skills_of)
qed

subsection \<open>Loading\<close>

lemma resolved_name: "validate_and_resolve_name front dir = dir"
  by (simp add: validate_and_resolve_name_def Let_def)

lemma bind_run_Ret: "bind_run r f = Ret y \<longleftrightarrow> (\<exists>x. r = Ret x \<and> f x = Ret y)"
  by (cases r) simp_all

lemma map_run_Ret: "map_run f r = Ret y \<longleftrightarrow> (\<exists>x. r = Ret x \<and> y = f x)"
  by (cases r) (auto simp: map_run_def)

lemma parsed_name: "parse_skill_file dir content = Ret d \<Longrightarrow> sd_name d = dir"
  by (auto simp: parse_skill_file_def bind_run_Ret resolved_name Let_def split: prod.splits)

definition skill_dirs :: "skill_entry list \<Rightarrow> utext list" where
  "skill_dirs es = map de_name (filter (\<lambda>e. de_is_dir e \<and> (\<exists>c. de_md e = Md c)) es)"

lemma parse_entries_names: "parse_entries es = Ret ds \<Longrightarrow> map sd_name ds = skill_dirs es"
proof (induction es arbitrary: ds)
  case (Cons e es)
  then show ?case
    by (auto simp: skill_dirs_def bind_run_Ret map_run_Ret parsed_name split: if_splits skill_md.splits)
qed (simp add: skill_dirs_def)

text \<open>A skill is named by its directory whatever its front matter says; loading a directory and listing its drafts give each skill file of the directory exactly once, sorted by name, the drafts only to the listing.\<close>

theorem drafts_kept_apart:
  assumes "load_skills_from_dir (Some es) = Ret ds" "list_draft_skill_names (Some es) = Ret ns"
  shows "mset (map sd_name ds) + mset ns = mset (skill_dirs es)
    \<and> sorted (map sd_name ds) \<and> sorted ns \<and> (\<forall>d \<in> set ds. \<not> is_draft d)"
proof -
  obtain all where p: "parse_entries es = Ret all" and ds: "ds = sort_key sd_name (filter (\<lambda>d. \<not> is_draft d) all)"
    and ns: "ns = sort (map sd_name (filter is_draft all))"
    using assms by (auto simp: load_skills_from_dir_def list_draft_skill_names_def map_run_Ret)
  have "mset (map sd_name ds) + mset ns
      = mset (map sd_name (filter (\<lambda>d. \<not> is_draft d) all)) + mset (map sd_name (filter is_draft all))"
    by (simp add: ds ns)
  also have "\<dots> = mset (map sd_name all)" by (induction all) auto
  finally show ?thesis using parse_entries_names [OF p] by (simp add: ds ns)
qed

definition names_in :: "skills_dir option \<Rightarrow> utext list" where
  "names_in dir = (case dir of Some (Some es) \<Rightarrow> map de_name es | _ \<Rightarrow> [])"

lemma distinct_sort_names: "distinct (map sd_name (sort_key sd_name xs)) \<longleftrightarrow> distinct (map sd_name xs)"
  by (rule mset_eq_imp_distinct_iff) simp

lemma load_distinct:
  assumes "load_skills_from_dir dir = Ret ds" "distinct (names_in (Some dir))"
  shows "distinct (map sd_name ds)"
proof (cases dir)
  case None
  then show ?thesis using assms by (simp add: load_skills_from_dir_def)
next
  case (Some es)
  then obtain all where p: "parse_entries es = Ret all" and ds: "ds = sort_key sd_name (filter (\<lambda>d. \<not> is_draft d) all)"
    using assms(1) by (auto simp: load_skills_from_dir_def map_run_Ret)
  have "distinct (map sd_name all)"
    using assms(2) Some unfolding parse_entries_names [OF p] skill_dirs_def names_in_def
    by (simp add: distinct_map_filter)
  then have "distinct (map sd_name (filter (\<lambda>d. \<not> is_draft d) all))" by (rule distinct_map_filter)
  then show ?thesis unfolding ds distinct_sort_names .
qed

definition named :: "skill_definition list \<Rightarrow> utext \<Rightarrow> skill_definition option" where
  "named ds n = find (\<lambda>d. sd_name d = n) ds"

lemma named_Some: "distinct (map sd_name ds) \<Longrightarrow> named ds n = Some d \<longleftrightarrow> d \<in> set ds \<and> sd_name d = n"
  by (induction ds) (auto simp: named_def)

lemma named_None: "named ds n = None \<longleftrightarrow> n \<notin> sd_name ` set ds"
  by (induction ds) (auto simp: named_def)

lemma in_layer_names [simp]: "map sd_name (in_layer l ds) = map sd_name ds" "sd_name ` set (in_layer l ds) = sd_name ` set ds"
  by (auto simp: in_layer_def image_def)

lemma merge_distinct:
  assumes "distinct (map sd_name user)" "distinct (map sd_name agent)" "distinct (map sd_name shared)"
  shows "distinct (map sd_name (merge_layers user agent shared))"
proof -
  let ?a = "filter (\<lambda>d. sd_name d \<notin> sd_name ` set user) agent"
  let ?s = "filter (\<lambda>d. sd_name d \<notin> sd_name ` set user \<union> sd_name ` set ?a) shared"
  have "distinct (map sd_name ?a)" "distinct (map sd_name ?s)"
    by (rule distinct_map_filter [OF assms(2)], rule distinct_map_filter [OF assms(3)])
  moreover have "set (map sd_name ?s) \<inter> set (map sd_name (?a @ user)) = {}"
    "set (map sd_name ?a) \<inter> set (map sd_name user) = {}" by auto
  ultimately have "distinct (map sd_name (?s @ ?a @ user))"
    using assms(1) by (simp only: map_append distinct_append simp_thms)
  then show ?thesis unfolding merge_layers_def Let_def distinct_sort_names .
qed

lemma merge_set:
  "set (merge_layers user agent shared) = set user \<union> {d \<in> set agent. sd_name d \<notin> sd_name ` set user}
     \<union> {d \<in> set shared. sd_name d \<notin> sd_name ` set user \<and> sd_name d \<notin> sd_name ` set agent}"
  by (auto simp: merge_layers_def Let_def)

text \<open>Loading the layers gives a list sorted by name without duplicates in which each name comes from the user's directory if it has it, else from the agent's, else from the shared library.\<close>

theorem skills_layered_priority:
  assumes "load_skills_from_dir u = Ret U" "load_skills_from_dir a = Ret A" "load_skills_from_dir s = Ret S"
    and "distinct (names_in (Some u))" "distinct (names_in (Some a))" "distinct (names_in (Some s))"
  shows "\<exists>ds. load_skills_layered (Some u) a (Some s) = Ret ds \<and> distinct (map sd_name ds) \<and> sorted (map sd_name ds)
    \<and> (\<forall>n. named ds n = (case named (in_layer ''user'' U) n of Some d \<Rightarrow> Some d
           | None \<Rightarrow> (case named (in_layer ''agent'' A) n of Some d \<Rightarrow> Some d
           | None \<Rightarrow> named (in_layer ''shared'' S) n)))"
proof -
  let ?U = "in_layer ''user'' U" and ?A = "in_layer ''agent'' A" and ?S = "in_layer ''shared'' S"
  let ?ds = "merge_layers ?U ?A ?S"
  have load: "load_skills_layered (Some u) a (Some s) = Ret ?ds"
    using assms(1-3) by (simp add: load_skills_layered_def)
  have d: "distinct (map sd_name ?U)" "distinct (map sd_name ?A)" "distinct (map sd_name ?S)"
    using assms by (simp_all add: load_distinct)
  have dd: "distinct (map sd_name ?ds)" by (rule merge_distinct [OF d])
  have "named ?ds n = (case named ?U n of Some d \<Rightarrow> Some d
      | None \<Rightarrow> (case named ?A n of Some d \<Rightarrow> Some d | None \<Rightarrow> named ?S n))" for n
  proof (cases "named ?U n")
    case (Some x)
    then have "x \<in> set ?ds \<and> sd_name x = n" unfolding named_Some [OF d(1)] merge_set by blast
    then have "named ?ds n = Some x" unfolding named_Some [OF dd] .
    with Some show ?thesis by simp
  next
    case nU: None
    then have nu: "n \<notin> sd_name ` set ?U" by (simp only: named_None simp_thms)
    show ?thesis
    proof (cases "named ?A n")
      case (Some x)
      then have "x \<in> set ?ds \<and> sd_name x = n" using nu unfolding named_Some [OF d(2)] merge_set by blast
      then have "named ?ds n = Some x" unfolding named_Some [OF dd] .
      with Some nU show ?thesis by simp
    next
      case nA: None
      then have na: "n \<notin> sd_name ` set ?A" by (simp only: named_None simp_thms)
      show ?thesis
      proof (cases "named ?S n")
        case (Some x)
        then have "x \<in> set ?ds \<and> sd_name x = n" using nu na unfolding named_Some [OF d(3)] merge_set by blast
        then have "named ?ds n = Some x" unfolding named_Some [OF dd] .
        with Some nU nA show ?thesis by simp
      next
        case None
        then have "n \<notin> sd_name ` set ?ds" using nu na unfolding named_None merge_set by blast
        then have "named ?ds n = None" unfolding named_None .
        with None nU nA show ?thesis by simp
      qed
    qed
  qed
  moreover have "sorted (map sd_name ?ds)" by (simp add: merge_layers_def Let_def)
  ultimately show ?thesis using load dd by blast
qed

text \<open>A scope whose state can be written reminds once a day.\<close>

lemma reminded_once:
  "check_scope today s = Ret (Some ns, s') \<Longrightarrow> ds_writable s \<Longrightarrow>
     draft_threshold \<le> length ns \<and> check_scope today s' = Ret (None, s')"
  by (auto simp: check_scope_def bind_run_Ret split: if_splits)

subsection \<open>Instances\<close>

definition sample_entries :: "skill_entry list" where
  "sample_entries =
     [\<lparr>de_name = cps ''b'', de_is_dir = True, de_md = Md (cps ''---'' @ [10] @ cps ''status: draft'' @ [10] @ cps ''---'' @ [10] @ cps ''text'')\<rparr>,
      \<lparr>de_name = cps ''a'', de_is_dir = True, de_md = Md (cps ''text'')\<rparr>,
      \<lparr>de_name = cps ''c'', de_is_dir = True, de_md = No_Md\<rparr>]"

lemmas text_eval = cps_def trim_def trim_start_def trim_end_def trim_start_of_def trim_end_of_def is_space_def
  chomp_cr_def strip_prefix_def

lemmas skill_eval = parse_skill_file_def parse_front_matter_def extract_yaml_string_def extract_yaml_block_def
  extract_yaml_list_def extract_yaml_bool_def strip_yaml_block_def starts_blank_def is_opener_def opener_rest_def
  key_value_def dual_string_def dual_list_def dual_bool_def map_run_def Let_def resolved_name unquote_def

lemma draft_file:
  "parse_skill_file dir (cps ''---'' @ [10] @ cps ''status: draft'' @ [10] @ cps ''---'' @ [10] @ cps ''text'') =
     Ret \<lparr>sd_name = dir, sd_description = [], sd_keywords = [], sd_prompt_body = cps ''text'',
       sd_source_path = skill_path dir, sd_version = None, sd_when_to_use = None, sd_argument_hint = None,
       sd_arguments = [], sd_user_invocable = True, sd_agent_invocable = True, sd_status = Some (cps ''draft''),
       sd_source_layer = cps ''unknown''\<rparr>"
  by (simp add: skill_eval text_eval)

lemma plain_file:
  "parse_skill_file dir (cps ''text'') =
     Ret \<lparr>sd_name = dir, sd_description = [], sd_keywords = [], sd_prompt_body = cps ''text'',
       sd_source_path = skill_path dir, sd_version = None, sd_when_to_use = None, sd_argument_hint = None,
       sd_arguments = [], sd_user_invocable = True, sd_agent_invocable = True, sd_status = None,
       sd_source_layer = cps ''unknown''\<rparr>"
  by (simp add: skill_eval text_eval)

lemma sample_loads:
  "(case load_skills_from_dir (Some sample_entries) of Ret ds \<Rightarrow> map sd_name ds = [cps ''a''] | Panic \<Rightarrow> False)
   \<and> list_draft_skill_names (Some sample_entries) = Ret [cps ''b'']"
  by (simp add: sample_entries_def load_skills_from_dir_def list_draft_skill_names_def draft_file [simplified] plain_file
      is_draft_def map_run_def)

lemma drafts_kept_apart_witness:
  "\<exists>ds ns. load_skills_from_dir (Some sample_entries) = Ret ds \<and> list_draft_skill_names (Some sample_entries) = Ret ns
     \<and> mset (map sd_name ds) + mset ns = mset (skill_dirs sample_entries)"
proof -
  obtain ds where "load_skills_from_dir (Some sample_entries) = Ret ds"
    using sample_loads by (cases "load_skills_from_dir (Some sample_entries)") auto
  with drafts_kept_apart [OF this, of "[cps ''b'']"] sample_loads show ?thesis by auto
qed

lemma skills_layered_priority_witness:
  "\<exists>ds. load_skills_layered (Some (Some sample_entries)) None (Some (Some sample_entries)) = Ret ds
    \<and> distinct (map sd_name ds)"
proof -
  obtain ds where ds: "load_skills_from_dir (Some sample_entries) = Ret ds"
    using sample_loads by (cases "load_skills_from_dir (Some sample_entries)") auto
  have "load_skills_from_dir None = Ret []" by (simp add: load_skills_from_dir_def)
  moreover have "distinct (names_in (Some (Some sample_entries)))"
    by (simp add: names_in_def sample_entries_def cps_def)
  moreover have "distinct (names_in (Some None))" by (simp add: names_in_def)
  ultimately show ?thesis using skills_layered_priority [OF ds _ ds, of None "[]"] by blast
qed

text \<open>A file with a lone quote as a value stops the loading of its directory.\<close>

lemma lone_quote_stops_loading:
  "load_skills_from_dir (Some [\<lparr>de_name = cps ''q'', de_is_dir = True,
      de_md = Md (cps ''---'' @ [10] @ cps ''version: '' @ [34] @ [10] @ cps ''---'')\<rparr>, \<lparr>de_name = cps ''a'', de_is_dir = True, de_md = Md (cps ''text'')\<rparr>]) = Panic"
  by (simp add: load_skills_from_dir_def skill_eval text_eval)

end
