(* ===== verification/Attachments.thy ===== *)
theory Attachments
  imports Skills Session_History
begin

text \<open>
  The \<open><system-reminder>\<close> of a turn (\<open>agents/attachment.rs\<close>): what has been announced is parsed
  back from the history, compared with the present skills, agents, servers, memories, date and
  autonomy, and the differences are rendered in front of the user's message.  Sets are lists without
  duplicates, their order that of the list; the local date and its weekday are arguments.
\<close>

subsection \<open>State\<close>

datatype attachment_kind =
    Skill_Listing | Agent_Listing | Mcp_Instructions | Memory_Listing | Date_Injection | Autonomy_Notice
  | Skill_Draft_Backlog

record delta =
  dl_added :: "utext list"
  dl_removed :: "utext list"

record announced_state =
  an_skills :: "utext list"
  an_agents :: "utext list"
  an_mcp :: "utext list"

record attachments =
  at_pending :: "attachment_kind \<rightharpoonup> delta"
  at_memory_index :: "utext option"
  at_last_date :: "utext option"
  at_owner :: "string option"
  at_draft_agent_layer :: "utext list"

definition new_attachments :: attachments where
  "new_attachments = \<lparr>at_pending = Map.empty, at_memory_index = None, at_last_date = None, at_owner = None,
     at_draft_agent_layer = []\<rparr>"

definition put_pending :: "attachment_kind \<Rightarrow> delta \<Rightarrow> attachments \<Rightarrow> attachments" where
  "put_pending k d A = A\<lparr>at_pending := (at_pending A)(k \<mapsto> d)\<rparr>"

definition clear_pending :: "attachments \<Rightarrow> attachments" where
  "clear_pending A = A\<lparr>at_pending := Map.empty, at_draft_agent_layer := []\<rparr>"

subsection \<open>What has been announced\<close>

datatype listing = In_Skills | In_Agents | In_Mcp

definition set_insert :: "utext \<Rightarrow> utext list \<Rightarrow> utext list" where
  "set_insert x xs = (if x \<in> set xs then xs else xs @ [x])"

definition set_remove :: "utext \<Rightarrow> utext list \<Rightarrow> utext list" where
  "set_remove x xs = filter (\<lambda>y. y \<noteq> x) xs"

definition reminder_open :: utext where "reminder_open = cps ''<system-reminder>''"
definition reminder_close :: utext where "reminder_close = cps ''</system-reminder>''"

fun change_listing ::
  "(utext list \<Rightarrow> utext list) \<Rightarrow> listing option \<Rightarrow> announced_state \<Rightarrow> announced_state" where
  "change_listing f (Some In_Skills) a = a\<lparr>an_skills := f (an_skills a)\<rparr>"
| "change_listing f (Some In_Agents) a = a\<lparr>an_agents := f (an_agents a)\<rparr>"
| "change_listing f (Some In_Mcp) a = a\<lparr>an_mcp := f (an_mcp a)\<rparr>"
| "change_listing f None a = a"

definition struck :: utext where "struck = cps ''~~''"
definition bold :: utext where "bold = cps ''**''"

text \<open>The line is trimmed.  \<open>strip_prefix("- ~~").unwrap().strip_suffix("~~").unwrap()\<close> panics when
  the two marks overlap.\<close>

definition parse_line ::
  "utext \<Rightarrow> listing option \<times> announced_state \<Rightarrow> (listing option \<times> announced_state) run" where
  "parse_line l = (\<lambda>(sec, a).
     if prefix (cps ''## Skills'') l then Ret (Some In_Skills, a)
     else if prefix (cps ''## Available Sub-Agents'') l then Ret (Some In_Agents, a)
     else if prefix (cps ''## MCP Server Instructions'') l then Ret (Some In_Mcp, a)
     else if prefix (cps ''## '') l then Ret (None, a)
     else if prefix (cps ''- ~~'') l \<and> suffix struck l then
       (if suffix struck (drop 4 l) then
          let inner = trim (take (length l - 6) (drop 4 l))
          in Ret (sec, if inner = [] then a else change_listing (set_remove inner) sec a)
        else Panic)
     else if prefix (cps ''- **'') l then
       Ret (sec, case str_find bold (drop 4 l) of
           None \<Rightarrow> a
         | Some e \<Rightarrow>
             let raw = take e (drop 4 l) in
             if raw = [] then a
             else (case sec of
                 Some In_Skills \<Rightarrow> change_listing (set_insert raw) sec a
               | Some In_Agents \<Rightarrow> change_listing (set_insert (trim (takeWhile (\<lambda>c. c \<noteq> 58) raw))) sec a
               | _ \<Rightarrow> a))
     else if sec = Some In_Mcp \<and> prefix (cps ''### '') l then
       Ret (sec, let name = trim (drop 4 l) in if name = [] then a else change_listing (set_insert name) sec a)
     else Ret (sec, a))"

primrec parse_lines ::
  "utext list \<Rightarrow> listing option \<times> announced_state \<Rightarrow> (listing option \<times> announced_state) run" where
  "parse_lines [] s = Ret s"
| "parse_lines (l # ls) s = bind_run (parse_line (trim l) s) (parse_lines ls)"

primrec rebuild_from :: "chat_message list \<Rightarrow> announced_state \<Rightarrow> announced_state run" where
  "rebuild_from [] a = Ret a"
| "rebuild_from (m # ms) a =
     (if \<not> prefix reminder_open (text_content m) \<or> \<not> is_user m then rebuild_from ms a
      else bind_run (parse_lines (text_lines (text_content m)) (None, a)) (\<lambda>(_, a'). rebuild_from ms a'))"

definition rebuild_from_history :: "chat_message list \<Rightarrow> announced_state run" where
  "rebuild_from_history h = rebuild_from h \<lparr>an_skills = [], an_agents = [], an_mcp = []\<rparr>"

subsection \<open>Differences\<close>

definition difference :: "utext list \<Rightarrow> utext list \<Rightarrow> utext list" where
  "difference xs ys = filter (\<lambda>x. x \<notin> set ys) xs"

definition put_difference :: "attachment_kind \<Rightarrow> utext list \<Rightarrow> utext list \<Rightarrow> attachments \<Rightarrow> attachments" where
  "put_difference k added removed A =
     (if added \<noteq> [] \<or> removed \<noteq> [] then put_pending k \<lparr>dl_added = added, dl_removed = removed\<rparr> A else A)"

definition diff_skills ::
  "'u uuid_lib \<Rightarrow> skill_manager \<Rightarrow> string option \<Rightarrow> chat_message list \<Rightarrow> attachments \<Rightarrow> attachments run" where
  "diff_skills U M owner h A =
     map_run (\<lambda>a. let current = map fst (agent_skills_iter U M owner)
         in put_difference Skill_Listing (difference current (an_skills a)) (difference (an_skills a) current)
              (A\<lparr>at_owner := owner\<rparr>))
       (rebuild_from_history h)"

definition diff_agents ::
  "(utext \<times> utext) list \<Rightarrow> chat_message list \<Rightarrow> attachments \<Rightarrow> attachments run" where
  "diff_agents agents h A =
     map_run (\<lambda>a.
         let current = remdups (map fst agents);
             describe = (\<lambda>n. case map_of (rev agents) n of
                 None \<Rightarrow> n
               | Some d \<Rightarrow> if d = [] then n else n @ cps '': '' @ d)
         in put_difference Agent_Listing (map describe (difference current (an_agents a)))
              (difference (an_agents a) current) A)
       (rebuild_from_history h)"

definition diff_mcp ::
  "(utext \<times> utext) list \<Rightarrow> chat_message list \<Rightarrow> attachments \<Rightarrow> attachments run" where
  "diff_mcp servers h A =
     map_run (\<lambda>a. put_difference Mcp_Instructions
           (map (\<lambda>(n, i). cps ''### '' @ n @ [10] @ i)
             (filter (\<lambda>(n, i). n \<notin> set (an_mcp a) \<and> i \<noteq> []) servers))
           (difference (an_mcp a) (remdups (map fst servers))) A)
       (rebuild_from_history h)"

text \<open>The index of the memories; \<open>join\<close> of lines.\<close>

record index_entry =
  ie_name :: utext
  ie_mem_type :: utext
  ie_inject :: utext
  ie_description :: utext
  ie_tags :: "utext list"
  ie_link_count :: nat

definition should_inject :: "utext \<Rightarrow> bool" where
  "should_inject i \<longleftrightarrow> i = cps ''always''"

primrec join_with :: "utext \<Rightarrow> utext list \<Rightarrow> utext" where
  "join_with d [] = []"
| "join_with d (l # ls) = (if ls = [] then l else l @ d @ join_with d ls)"

definition memory_key :: "index_entry list \<Rightarrow> utext" where
  "memory_key es = join_with (cps '','') (map (\<lambda>e. ie_name e @ cps ''|'' @ ie_mem_type e @ cps ''|'' @ ie_description e
     @ cps ''|'' @ join_with (cps '';'') (ie_tags e) @ cps ''|'' @ cps (show_nat (ie_link_count e))) es)"

definition entry_lines :: "index_entry \<Rightarrow> utext list" where
  "entry_lines e =
     (cps ''- **'' @ ie_name e @ bold
       @ (if ie_tags e = [] then [] else cps '' ['' @ join_with (cps '', '') (ie_tags e) @ cps '']''))
     # (if ie_description e = [] then [] else [cps ''  '' @ ie_description e])"

definition memory_lines :: "index_entry list \<Rightarrow> utext list" where
  "memory_lines es =
     (let ls = concat (map (\<lambda>t. (cps ''### '' @ t) # concat (map entry_lines (filter (\<lambda>e. ie_mem_type e = t) es)))
                (remdups_adj (sort (map ie_mem_type es))))
      in if ls = [] then [cps ''No user preferences or feedback stored.''] else ls)"

definition diff_memory :: "index_entry list \<Rightarrow> chat_message list \<Rightarrow> attachments \<Rightarrow> attachments" where
  "diff_memory all h A =
     (let es = filter (\<lambda>e. should_inject (ie_inject e)) all;
          same = (memory_key es = (case at_memory_index A of Some i \<Rightarrow> i | None \<Rightarrow> []));
          present = list_ex (\<lambda>m. contains (text_content m) reminder_open \<and> contains (text_content m) (cps ''## Memory'')) h
      in if same \<and> present then A
         else if \<not> same \<and> at_memory_index A = None \<and> present then A\<lparr>at_memory_index := Some (memory_key es)\<rparr>
         else (put_pending Memory_Listing \<lparr>dl_added = memory_lines es, dl_removed = []\<rparr> A)
                \<lparr>at_memory_index := Some (memory_key es)\<rparr>)"

definition show_int :: "int \<Rightarrow> string" where
  "show_int i = (if i < 0 then CHR ''-'' # show_nat (nat (- i)) else show_nat (nat i))"

definition date_marker :: "utext \<Rightarrow> utext" where
  "date_marker date = cps ''Current date: '' @ date"

definition diff_date :: "utext \<Rightarrow> utext \<Rightarrow> int \<Rightarrow> chat_message list \<Rightarrow> attachments \<Rightarrow> attachments" where
  "diff_date date weekday tz h A =
     (if list_ex (\<lambda>m. contains (text_content m) reminder_open \<and> contains (text_content m) (date_marker date)) h
      then A\<lparr>at_last_date := Some date\<rparr>
      else (put_pending Date_Injection \<lparr>dl_added = [
          if at_last_date A \<noteq> None
          then cps ''The date has changed. Today'' @ [39] @ cps ''s date is now '' @ date @ cps '' ('' @ weekday @ cps '').''
          else date_marker date @ cps '' ('' @ weekday @ cps '', UTC''
            @ (if 0 \<le> tz then cps ''+'' @ cps (show_int tz) else cps (show_int tz))
            @ cps ''). Use this for any date-relative references.''], dl_removed = []\<rparr> A)\<lparr>at_last_date := Some date\<rparr>)"

primrec autonomy_label :: "permission_mode \<Rightarrow> utext" where
  "autonomy_label Full = cps ''full''"
| "autonomy_label Default = cps ''default''"
| "autonomy_label Read_Only = cps ''read_only''"

definition autonomy_marker :: "permission_mode \<Rightarrow> utext" where
  "autonomy_marker p = cps ''Current autonomy: **'' @ autonomy_label p @ bold"

definition diff_autonomy :: "permission_mode \<Rightarrow> chat_message list \<Rightarrow> attachments \<Rightarrow> attachments" where
  "diff_autonomy p h A =
     (if list_ex (\<lambda>m. contains (text_content m) reminder_open \<and> contains (text_content m) (autonomy_marker p)) h then A
      else put_pending Autonomy_Notice \<lparr>dl_added = [autonomy_label p], dl_removed = []\<rparr> A)"

definition push_skill_draft_reminder :: "utext list \<Rightarrow> utext list \<Rightarrow> attachments \<Rightarrow> attachments" where
  "push_skill_draft_reminder user_layer agent_layer A =
     put_pending Skill_Draft_Backlog \<lparr>dl_added = user_layer, dl_removed = []\<rparr>
       (A\<lparr>at_draft_agent_layer := agent_layer\<rparr>)"

subsection \<open>Rendering\<close>

text \<open>\<open>split_whitespace\<close>.\<close>

function words_of :: "utext \<Rightarrow> utext list" where
  "words_of s =
     (let r = dropWhile is_space s in
      if r = [] then [] else takeWhile (\<lambda>c. \<not> is_space c) r # words_of (dropWhile (\<lambda>c. \<not> is_space c) r))"
  by pat_completeness auto
termination
proof (relation "measure length", simp)
  fix s x assume "x = dropWhile is_space s" "x \<noteq> []"
  then have "\<not> is_space (hd x)" using hd_dropWhile [of is_space s] by simp
  with \<open>x \<noteq> []\<close> have "length (dropWhile (\<lambda>c. \<not> is_space c) x) < length x"
    by (cases x) (auto simp: le_imp_less_Suc length_dropWhile_le)
  also have "length x \<le> length s" using \<open>x = dropWhile is_space s\<close> by (simp add: length_dropWhile_le)
  finally show "(dropWhile (\<lambda>c. \<not> is_space c) x, s) \<in> measure length" by simp
qed

declare words_of.simps [simp del]

definition struck_line :: "utext \<Rightarrow> utext" where
  "struck_line n = cps ''- ~~'' @ n @ struck"

definition skill_line :: "'u uuid_lib \<Rightarrow> skill_manager \<Rightarrow> string option \<Rightarrow> utext \<Rightarrow> utext" where
  "skill_line U M owner n =
     (let sk = get_skill U M n owner;
          summary = join_with (cps '' '') (words_of (case sk of Some s \<Rightarrow> injected_summary s | None \<Rightarrow> []))
      in cps ''- **'' @ n @ bold @ (if summary = [] then [] else cps '': '' @ summary)
         @ (case sk of
              Some s \<Rightarrow> (case sk_when_to_use s of Some w \<Rightarrow> cps '' (trigger: '' @ w @ cps '')'' | None \<Rightarrow> [])
            | None \<Rightarrow> []))"

definition removed_lines :: "utext \<Rightarrow> utext list \<Rightarrow> utext list" where
  "removed_lines what ns =
     (if ns = [] then [] else what # map struck_line ns @ [[]])"

definition skills_intro :: utext where
  "skills_intro = cps ''Skills provide behavioral instructions for specific tasks. Use the '' @ [96] @ cps ''skill_view''
     @ [96] @ cps '' tool to load a skill'' @ [39] @ cps ''s full instructions when needed.''"

definition render_skills :: "'u uuid_lib \<Rightarrow> skill_manager \<Rightarrow> string option \<Rightarrow> delta \<Rightarrow> utext list" where
  "render_skills U M owner d =
     cps ''## Skills'' # removed_lines (cps ''The following skills are no longer available:'') (dl_removed d)
       @ (if dl_added d = [] then [] else skills_intro # map (skill_line U M owner) (dl_added d))"

definition agents_intro :: utext where
  "agents_intro = cps ''Use '' @ [96] @ cps ''agent_delegate(agent='' @ [34] @ cps ''name'' @ [34] @ cps '', task='' @ [34]
     @ cps ''...'' @ [34] @ cps '', mode='' @ [34] @ cps ''sync'' @ [34] @ cps ''/'' @ [34] @ cps ''async'' @ [34] @ cps '')''
     @ [96] @ cps '' to delegate.''"

definition render_agents :: "delta \<Rightarrow> utext list" where
  "render_agents d =
     cps ''## Available Sub-Agents'' # removed_lines (cps ''The following sub-agents are no longer available:'') (dl_removed d)
       @ (if dl_added d = [] then [] else agents_intro # map (\<lambda>e. cps ''- **'' @ e @ bold) (dl_added d))"

definition render_memory :: "delta \<Rightarrow> utext list" where
  "render_memory d =
     [cps ''## Memory'', cps ''The following memories are loaded and must be obeyed. For project context and reference docs, use memory_list() to browse, memory_search(query) to find.'']
     @ dl_added d"

definition render_mcp :: "delta \<Rightarrow> utext list" where
  "render_mcp d =
     cps ''## MCP Server Instructions'' # dl_added d
       @ (if dl_removed d = [] then []
          else [[], cps ''The following MCP servers are no longer connected:''] @ map struck_line (dl_removed d))"

definition render_date :: "delta \<Rightarrow> utext list" where
  "render_date d = dl_added d"

definition autonomy_text :: "utext \<Rightarrow> utext" where
  "autonomy_text level =
     (if level = cps ''full'' then cps ''All tools are permitted. No restrictions apply.''
      else if level = cps ''read_only'' then
        cps ''Autonomy is now READ-ONLY. You may only use read-only tools (file_read, list_dir, search, web_search, etc.). Shell execution, file writes, HTTP calls, and agent delegation are blocked.''
      else cps ''Autonomy is set to default. Safe tools are permitted; avoid destructive operations without user confirmation.'')"

definition render_autonomy :: "delta \<Rightarrow> utext list" where
  "render_autonomy d =
     (let level = (case dl_added d of [] \<Rightarrow> cps ''default'' | l # _ \<Rightarrow> l)
      in [cps ''## Autonomy Level Changed'', [], cps ''Current autonomy: **'' @ level @ cps ''**. '' @ autonomy_text level])"

definition render_skill_draft_backlog :: "utext list \<Rightarrow> delta \<Rightarrow> utext list" where
  "render_skill_draft_backlog agent_layer d =
     cps ''## Draft Skills Pending Review''
     # (if dl_added d = [] then [] else
         [cps (show_nat (length (dl_added d)))
          @ cps '' draft skill(s) have accumulated, hidden from normal loading until reviewed: ''
          @ join_with (cps '', '') (dl_added d)
          @ cps ''. Mention this backlog to the user and offer to triage it '' @ [0x2014] @ cps '' view each with '' @ [96]
          @ cps ''skill_view'' @ [96] @ cps '', propose promote (drop '' @ [96] @ cps ''status: draft'' @ [96]
          @ cps '') / merge into an existing skill / delete, and apply only after the user confirms.''])
     @ (if agent_layer = [] then [] else
         [cps (show_nat (length agent_layer))
          @ cps '' agent layer drafts have accumulated in the shared agent layer (skills visible to every user), hidden from normal loading until reviewed: ''
          @ join_with (cps '', '') agent_layer
          @ cps ''. You are seeing these because this is the operator'' @ [39] @ cps ''s session '' @ [0x2014]
          @ cps '' propose promote / merge / delete and apply only after the user confirms.''])"

text \<open>A section is its lines joined by newlines; sections are separated by a blank line.\<close>

definition sections :: "'u uuid_lib \<Rightarrow> skill_manager \<Rightarrow> attachments \<Rightarrow> utext list" where
  "sections U M A =
     (let sec = (\<lambda>k f. case at_pending A k of Some d \<Rightarrow> [join_with [10] (f d)] | None \<Rightarrow> [])
      in sec Date_Injection render_date @ sec Autonomy_Notice render_autonomy
         @ sec Skill_Listing (render_skills U M (at_owner A)) @ sec Agent_Listing render_agents
         @ sec Mcp_Instructions render_mcp @ sec Memory_Listing render_memory
         @ sec Skill_Draft_Backlog (render_skill_draft_backlog (at_draft_agent_layer A)))"

definition build_text :: "'u uuid_lib \<Rightarrow> skill_manager \<Rightarrow> attachments \<Rightarrow> utext option" where
  "build_text U M A =
     (if sections U M A = [] then None
      else Some (reminder_open @ [10] @ join_with [10, 10] (sections U M A) @ [10] @ reminder_close))"

definition build_message :: "'u uuid_lib \<Rightarrow> skill_manager \<Rightarrow> attachments \<Rightarrow> chat_message option" where
  "build_message U M A = map_option user_text (build_text U M A)"

text \<open>The reminder in front of the user's words, as \<open>process_turn\<close> puts it.\<close>

definition with_reminder :: "utext option \<Rightarrow> utext \<Rightarrow> utext" where
  "with_reminder r t = (case r of Some rem \<Rightarrow> rem @ [10, 10] @ t | None \<Rightarrow> t)"

end
