(* ===== verification/Session_Turn.thy ===== *)
theory Session_Turn
  imports Yield_Queue Attachments
begin

text \<open>
  A turn of a session from the inbound message to the delivered answer
  (\<open>process_turn\<close>, \<open>run_and_deliver\<close>, \<open>resume_after_yield\<close> of
  \<open>agents/session_context/mod.rs\<close>, \<open>helpers.rs\<close>, \<open>suspension.rs\<close>): the agent's turn
  is \<open>run_turn\<close> of \<open>Agent_Loop\<close>.  The stream's acknowledgements, the speech synthesis, what other tasks
  do to the suspension while a turn runs, and how a parked yield ends are arguments.  Of an outbound
  message the text is kept.
\<close>

subsection \<open>Helpers\<close>

definition decide_silenced :: "bool option \<Rightarrow> bool" where
  "decide_silenced intent = (case intent of Some b \<Rightarrow> b | None \<Rightarrow> False)"

definition semantic_stop_reason :: "bool \<Rightarrow> bool \<Rightarrow> stop_reason \<Rightarrow> stop_reason" where
  "semantic_stop_reason silenced pending r = (if silenced \<and> pending \<and> r = EndTurn then Continue else r)"

definition continue_cues :: "utext list" where
  "continue_cues = [[0x7EE7, 0x7EED], [0x7E7C, 0x7E8C], [0x63A5, 0x7740], [0x63A5, 0x7740, 0x505A], [0x63A5, 0x7740, 0x6765], [0x63A5,
     0x7740, 0x8BF4], [0x7EE7, 0x7EED, 0x5427], [0x7EE7, 0x7EED, 0x554A], [0x7EE7, 0x7EED, 0x3002], [0x7EE7, 0x7EED,
     0xFF01]]
     @ map cps [''continue'', ''Continue'', ''CONTINUE'', ''go on'', ''Go on'', ''keep going'', ''Keep going'']"

definition is_bare_continue :: "utext \<Rightarrow> bool" where
  "is_bare_continue t \<longleftrightarrow> trim t \<noteq> [] \<and> trim t \<in> set continue_cues"

definition history_looks_incomplete :: "chat_message list \<Rightarrow> bool" where
  "history_looks_incomplete h \<longleftrightarrow>
     h \<noteq> [] \<and> (is_user (last h) \<or> (is_assistant (last h) \<and> calls_of (last h) \<noteq> []) \<or> is_tool (last h))"

text \<open>Aging, with the rows sent to the hook; a missing id counts as 0.\<close>

fun age_rows :: "fs_env \<Rightarrow> bool \<Rightarrow> chat_message list \<Rightarrow> int list \<Rightarrow> chat_message list \<times> (int \<times> chat_message) list" where
  "age_rows F hook [] ids = ([], [])"
| "age_rows F hook (m # ms) ids =
     (let i = (case ids of [] \<Rightarrow> 0 | i # _ \<Rightarrow> i); r = age_rows F hook ms (tl ids)
      in if is_user m then
           (case age_media_in_message F m of
              (True, m') \<Rightarrow> (m' # fst r, (if 0 < i \<and> hook then [(i, m')] else []) @ snd r)
            | (False, _) \<Rightarrow> (m # fst r, snd r))
         else (m # fst r, snd r))"

definition msg_bare_continue :: utext where
  "msg_bare_continue = [0x26A0, 0xFE0F] @ cps '' '' @ [0x5F53, 0x524D, 0x6CA1, 0x6709, 0x6E05, 0x6670, 0x7684, 0x672A, 0x5B8C, 0x6210,
     0x4EFB, 0x52A1, 0x53EF, 0x300C, 0x7EE7, 0x7EED, 0x300D, 0x3002, 10, 0x8BF7, 0x5B8C, 0x6574, 0x91CD, 0x8FF0, 0x4F60,
     0x7684, 0x95EE, 0x9898, 0x6216, 0x76EE, 0x6807, 0x540E, 0x518D, 0x53D1, 0x9001, 0xFF08, 0x907F, 0x514D, 0x53EA,
     0x53D1, 0x300C, 0x7EE7, 0x7EED, 0x300D, 0xFF09, 0x3002, 10, 0x82E5, 0x4E0A, 0x4E0B, 0x6587, 0x5DF2, 0x4E71, 0xFF0C,
     0x53EF, 0x7528] @ cps '' /new '' @ [0x5F00, 0x65B0, 0x4F1A, 0x8BDD, 0x3002]"

definition msg_image_only_hint :: utext where
  "msg_image_only_hint = [0xFF08, 0x7CFB, 0x7EDF, 0x63D0, 0x793A, 0xFF1A, 0x672C, 0x8F6E, 0x4EC5, 0x6536, 0x5230, 0x56FE, 0x7247, 0x3001,
     0x65E0, 0x7528, 0x6237, 0x6587, 0x5B57, 0x8BF4, 0x660E, 0x3002, 0x8BF7, 0x5148, 0x6839, 0x636E, 0x56FE, 0x7247,
     0x5185, 0x5BB9, 0x4F5C, 0x7B54, 0xFF1B, 0x82E5, 0x65E0, 0x6CD5, 0x5224, 0x65AD, 0x610F, 0x56FE, 0xFF0C, 0x8BF7,
     0x5411, 0x7528, 0x6237, 0x786E, 0x8BA4, 0x8981, 0x505A, 0x4EC0, 0x4E48, 0xFF0C, 0x52FF, 0x865A, 0x6784, 0x672A,
     0x63D0, 0x51FA, 0x7684, 0x4EFB, 0x52A1, 0x3002, 0xFF09]"

subsection \<open>State and environment\<close>

datatype stream_delivery = Delivery_Pending | Delivery_Visible | Final_Delivered

datatype outbound = On_Thinking | On_Done | On_Error | Text_Out utext | Voice_Out utext | Stream_Aborted

text \<open>A file of a message: whether its body can be read, where the session's storage puts it, and the
  adapter's own path.\<close>

record inbound_file =
  if_name :: utext
  if_mime :: "utext option"
  if_size :: "nat option"
  if_readable :: bool
  if_saved :: "utext option"
  if_hint :: "utext option"

record 'm inbound =
  im_text :: utext
  im_files :: "inbound_file list"
  im_receiver :: utext
  im_silenced :: "bool option"
  im_mode :: run_mode
  im_message :: 'm

text \<open>What the reminder of a turn compares with.\<close>

record 'u reminder_env =
  rv_ids :: "'u uuid_lib"
  rv_skills :: skill_manager
  rv_owner :: string
  rv_agents :: "(utext \<times> utext) list"
  rv_date :: utext
  rv_weekday :: utext
  rv_timezone :: int
  rv_operator :: bool
  rv_memory :: "index_entry list option"

record ('m, 'j, 'u) conv_env =
  cv_env :: "('m, 'j) turn_env"
  cv_setup :: turn_setup
  cv_build_prompt :: "permission_mode \<Rightarrow> run_mode \<Rightarrow> utext"
  cv_default_permission :: permission_mode
  cv_reminder :: "'u reminder_env"
  cv_channel :: bool
  cv_target :: utext
  cv_stream :: "preview_state option \<Rightarrow> bool"
  cv_finish :: "nat \<Rightarrow> stream_delivery"
  cv_fold :: "nat \<Rightarrow> fold_candidate option"
  cv_auto_tts :: bool
  cv_tts_enabled :: bool
  cv_tts_text :: "utext \<Rightarrow> utext"
  cv_voice :: "utext \<Rightarrow> utext option"
  cv_uuid :: "nat \<Rightarrow> utext"
  cv_others :: "nat \<Rightarrow> susp_op list"
  cv_park :: "nat \<Rightarrow> 'm park_answer option"

record ('m, 'j) conv_state =
  cs_turn :: "('m, 'j) turn_state"
  cs_susp :: susp_state
  cs_attach :: attachments
  cs_user_scope :: "draft_scope option"
  cs_agent_scope :: draft_scope
  cs_pending_retry :: "utext option"
  cs_silenced :: bool
  cs_takeover :: bool
  cs_out :: "outbound list"
  cs_updates :: "(int \<times> chat_message) list"

datatype conv_error = File_Unreadable | Turn_Failed turn_error

abbreviation cs_session :: "('m, 'j) conv_state \<Rightarrow> 'm session" where
  "cs_session st \<equiv> tn_session (cs_turn st)"

definition on_turn :: "(('m, 'j) turn_state \<Rightarrow> ('m, 'j) turn_state) \<Rightarrow> ('m, 'j) conv_state \<Rightarrow> ('m, 'j) conv_state" where
  "on_turn f st = st\<lparr>cs_turn := f (cs_turn st)\<rparr>"

definition on_susp :: "(susp_state \<Rightarrow> susp_state) \<Rightarrow> ('m, 'j) conv_state \<Rightarrow> ('m, 'j) conv_state" where
  "on_susp f st = st\<lparr>cs_susp := f (cs_susp st)\<rparr>"

definition emit :: "('m, 'j, 'u) conv_env \<Rightarrow> outbound \<Rightarrow> ('m, 'j) conv_state \<Rightarrow> ('m, 'j) conv_state" where
  "emit C e st = (if cv_channel C then st\<lparr>cs_out := cs_out st @ [e]\<rparr> else st)"

definition set_screen :: "'j screen \<Rightarrow> ('m, 'j) turn_state \<Rightarrow> ('m, 'j) turn_state" where
  "set_screen sc t = t\<lparr>tn_llm := (tn_llm t)\<lparr>ls_screen := sc\<rparr>\<rparr>"

text \<open>The stream is taken from the session at the end of each run of the agent.\<close>

definition stream_live :: "('m, 'j) conv_state \<Rightarrow> bool" where
  "stream_live st = sc_live (ls_screen (tn_llm (cs_turn st)))"

definition take_stream :: "('m, 'j) conv_state \<Rightarrow> ('m, 'j) conv_state" where
  "take_stream = on_turn (\<lambda>t. set_screen ((ls_screen (tn_llm t))\<lparr>sc_live := False\<rparr>) t)"

definition finish_guard :: "bool \<Rightarrow> ('m, 'j) conv_state \<Rightarrow> ('m, 'j) conv_state" where
  "finish_guard active = (if active then on_susp finish_notice_turn else (\<lambda>st. st))"

subsection \<open>After a run of the agent\<close>

definition last_id :: "'m session \<Rightarrow> int" where
  "last_id s = (if s_message_ids s = [] then 0 else last (s_message_ids s))"

text \<open>\<open>EndTurn\<close> becomes \<open>Continue\<close>, in the row of the last message too.\<close>

definition mark_continue :: "bool \<Rightarrow> ('m, 'j) conv_state \<Rightarrow> ('m, 'j) conv_state" where
  "mark_continue hook st =
     (let s = cs_session st in
      if s_history s = [] \<or> \<not> is_assistant (last (s_history s)) then st
      else
        let m = last (s_history s);
            m' = m\<lparr>cm_usage := map_option (\<lambda>u. u\<lparr>mu_stop_reason := Some (cps ''Continue'')\<rparr>) (cm_usage m)\<rparr>;
            st1 = on_turn (on_session (\<lambda>s. s\<lparr>s_history := butlast (s_history s) @ [m']\<rparr>)) st
        in if 0 < last_id s \<and> hook then st1\<lparr>cs_updates := cs_updates st1 @ [(last_id s, m')]\<rparr> else st1)"

definition age_session_media :: "fs_env \<Rightarrow> bool \<Rightarrow> ('m, 'j) conv_state \<Rightarrow> ('m, 'j) conv_state" where
  "age_session_media F hook st =
     (case age_rows F hook (s_history (cs_session st)) (s_message_ids (cs_session st)) of (h, rows) \<Rightarrow>
        (on_turn (on_session (\<lambda>s. s\<lparr>s_history := h\<rparr>)) st)\<lparr>cs_updates := cs_updates st @ rows\<rparr>)"

definition fallback_due :: "stream_delivery \<Rightarrow> bool \<Rightarrow> bool" where
  "fallback_due d suspended \<longleftrightarrow> d \<noteq> Final_Delivered \<and> (d = Delivery_Pending \<or> \<not> suspended)"

definition speak :: "('m, 'j, 'u) conv_env \<Rightarrow> bool \<Rightarrow> turn_result \<Rightarrow> ('m, 'j) conv_state \<Rightarrow> ('m, 'j) conv_state" where
  "speak C silenced tr st =
     (if cv_auto_tts C \<and> cv_channel C \<and> cv_tts_enabled C \<and> \<not> silenced \<and> \<not> tu_has_pending tr \<and> trim (tu_text tr) \<noteq> [] then
        let t = cv_tts_text C (trim (tu_text tr)) in
        if t \<noteq> [] \<and> length t \<le> 2000 then (case cv_voice C t of Some a \<Rightarrow> emit C (Voice_Out a) st | None \<Rightarrow> st) else st
      else st)"

definition implicit_yield :: "('m, 'j) turn_env \<Rightarrow> utext \<Rightarrow> ('m, 'j) turn_state \<Rightarrow> ('m, 'j) turn_state" where
  "implicit_yield E u t =
     (let t1 = on_session (insert_implicit_yield (te_hook E) u) t
      in if te_hook E = None then t1 else t1\<lparr>tn_rows := tn_rows t1 @ [last (s_history (tn_session t1))]\<rparr>)"

definition settle_turn ::
  "('m, 'j, 'u) conv_env \<Rightarrow> bool \<Rightarrow> bool \<Rightarrow> turn_result \<Rightarrow> ('m, 'j) conv_state \<Rightarrow> turn_result \<times> ('m, 'j) conv_state" where
  "settle_turn C silenced notice tr st =
     (let hook = (te_hook (cv_env C) \<noteq> None);
          tr1 = tr\<lparr>tu_has_pending := tu_has_pending tr \<or> silenced\<rparr>;
          st1 = on_susp clear_suspension_if_collected (finish_guard notice st);
          stop = semantic_stop_reason silenced (tu_has_pending tr1) (tu_stop tr1);
          st2 = (if stop \<noteq> tu_stop tr1 then mark_continue hook st1 else st1);
          tr2 = tr1\<lparr>tu_stop := stop\<rparr>;
          st3 = (if silenced then st2 else emit C On_Done st2);
          st4 = (if stop \<noteq> StopContextOverflow then age_session_media (en_fs (te_engine (cv_env C))) hook st3 else st3)
      in (tr2, case tu_pending_retry tr2 of Some r \<Rightarrow> st4\<lparr>cs_pending_retry := Some r\<rparr> | None \<Rightarrow> st4))"

definition deliver_answer ::
  "('m, 'j, 'u) conv_env \<Rightarrow> nat \<Rightarrow> bool \<Rightarrow> bool \<Rightarrow> turn_result \<Rightarrow> ('m, 'j) conv_state \<Rightarrow> ('m, 'j) conv_state" where
  "deliver_answer C k live silenced tr st =
     (let d = (if live then cv_finish C k else Delivery_Pending);
          suspended = (silenced \<or> tu_has_pending tr);
          st1 = (if suspended then
                   (case (if live then cv_fold C k else None) of
                      Some f \<Rightarrow> on_susp (set_preview (cv_target C) f) st
                    | None \<Rightarrow> st)
                 else st);
          st2 = (if fallback_due d suspended \<and> trim (tu_text tr) \<noteq> [] then emit C (Text_Out (tu_text tr)) st1 else st1);
          st3 = speak C silenced tr st2
      in if tu_has_pending tr \<and> s_pending_yield (cs_session st3) = None
         then on_turn (implicit_yield (cv_env C) (cv_uuid C k)) st3 else st3)"

text \<open>A failed turn: the guard is dropped with the frame.\<close>

definition turn_failed :: "('m, 'j, 'u) conv_env \<Rightarrow> bool \<Rightarrow> bool \<Rightarrow> ('m, 'j) conv_state \<Rightarrow> ('m, 'j) conv_state" where
  "turn_failed C live notice st =
     finish_guard notice (emit C On_Error (if live then st\<lparr>cs_out := cs_out st @ [Stream_Aborted]\<rparr> else st))"

type_synonym ('m, 'j) conv_result = "((conv_error + turn_result) \<times> ('m, 'j) conv_state) run option"

text \<open>The loop over parked yields; \<open>k\<close> counts the runs.\<close>

definition after_run ::
  "('m, 'j, 'u) conv_env \<Rightarrow> nat \<Rightarrow> bool \<Rightarrow> bool \<Rightarrow> turn_result \<Rightarrow> ('m, 'j) conv_state \<Rightarrow> turn_result \<times> ('m, 'j) conv_state" where
  "after_run C k silenced notice tr st =
     (case settle_turn C silenced notice tr (take_stream st) of
        (tr', st') \<Rightarrow> (tr', deliver_answer C k (stream_live st) silenced tr' st'))"

definition start_run :: "('m, 'j, 'u) conv_env \<Rightarrow> nat \<Rightarrow> bool \<Rightarrow> ('m, 'j) conv_state \<Rightarrow> ('m, 'j) conv_state" where
  "start_run C k silenced st = on_susp (run_susp (cv_others C k)) (if silenced then st else emit C On_Thinking st)"

datatype ('m, 'j) deliver_next =
    Run_Again "('m, 'j) conv_state"
  | Conv_Over "conv_error + turn_result" "('m, 'j) conv_state"
  | Conv_Panic
  | Never_Woken

definition deliver_round ::
  "('m, 'j, 'u) conv_env \<Rightarrow> nat \<Rightarrow> bool \<Rightarrow> bool \<Rightarrow> ('m, 'j) conv_state \<Rightarrow> ('m, 'j) deliver_next" where
  "deliver_round C k silenced notice st =
     (let st0 = start_run C k silenced st in
      case run_turn (cv_env C) (cv_setup C) (cs_turn st0) of
        None \<Rightarrow> Never_Woken
      | Some Panic \<Rightarrow> Conv_Panic
      | Some (Ret (Inl e, t)) \<Rightarrow>
          (let st1 = st0\<lparr>cs_turn := t\<rparr>
           in Conv_Over (Inl (Turn_Failed e)) (turn_failed C (stream_live st1) notice (take_stream st1)))
      | Some (Ret (Inr tr, t)) \<Rightarrow>
          (case after_run C k silenced notice tr (st0\<lparr>cs_turn := t\<rparr>) of (tr', st1) \<Rightarrow>
             (case s_pending_yield (cs_session st1) of
                None \<Rightarrow> Conv_Over (Inr tr') st1
              | Some p \<Rightarrow>
                  (case cv_park C k of
                     None \<Rightarrow> Never_Woken
                   | Some a \<Rightarrow>
                       (case park_for_yield (cv_env C) a (py_tool_call_id p) (cs_turn st1) of
                          (filled, t') \<Rightarrow>
                            if filled then Run_Again (st1\<lparr>cs_turn := t'\<rparr>) else Conv_Over (Inr tr') (st1\<lparr>cs_turn := t'\<rparr>))))))"

partial_function (option) run_and_deliver ::
  "('m, 'j, 'u) conv_env \<Rightarrow> nat \<Rightarrow> bool \<Rightarrow> bool \<Rightarrow> ('m, 'j) conv_state \<Rightarrow> ('m, 'j) conv_result" where
  "run_and_deliver C k silenced notice st =
     (case deliver_round C k silenced notice st of
        Run_Again st' \<Rightarrow> run_and_deliver C (Suc k) False False st'
      | Conv_Over r st' \<Rightarrow> Some (Ret (r, st'))
      | Conv_Panic \<Rightarrow> Some Panic
      | Never_Woken \<Rightarrow> None)"

subsection \<open>A message\<close>

text \<open>\<open>None\<close>: a body that cannot be read ends the turn at once; a file that is stored nowhere is left out.\<close>

definition stored_path :: "bool \<Rightarrow> inbound_file \<Rightarrow> utext option" where
  "stored_path hook f = (if hook then (case if_saved f of Some p \<Rightarrow> Some p | None \<Rightarrow> if_hint f) else if_hint f)"

primrec media_parts :: "bool \<Rightarrow> inbound_file list \<Rightarrow> content_part list option" where
  "media_parts hook [] = Some []"
| "media_parts hook (f # fs) =
     (if hook \<and> \<not> if_readable f then None
      else map_option (\<lambda>ps. (case stored_path hook f of
          Some p \<Rightarrow> [File_Part p (if_mime f) (Some (if_name f)) (if_size f)] | None \<Rightarrow> []) @ ps)
        (media_parts hook fs))"

definition turn_reminder ::
  "'u reminder_env \<Rightarrow> permission_mode \<Rightarrow> ('m, 'j) conv_state \<Rightarrow> (utext option \<times> ('m, 'j) conv_state) run" where
  "turn_reminder R pm st =
     (let h = s_history (cs_session st) in
      bind_run (diff_skills (rv_ids R) (rv_skills R) (Some (rv_owner R)) h (cs_attach st)) (\<lambda>A1.
      bind_run (diff_agents (rv_agents R) h A1) (\<lambda>A2.
      let A4 = diff_autonomy pm h (diff_date (rv_date R) (rv_weekday R) (rv_timezone R) h A2) in
      bind_run (check_and_arm (rv_date R) (cs_user_scope st) (rv_operator R) (cs_agent_scope st)) (\<lambda>(backlog, us, as).
      let A5 = (case backlog of Some (ul, al) \<Rightarrow> push_skill_draft_reminder ul al A4 | None \<Rightarrow> A4);
          A6 = (case rv_memory R of Some es \<Rightarrow> diff_memory es h A5 | None \<Rightarrow> A5)
      in Ret (build_text (rv_ids R) (rv_skills R) A6,
              st\<lparr>cs_attach := clear_pending A6, cs_user_scope := us, cs_agent_scope := as\<rparr>)))))"

definition turn_env_for :: "('m, 'j, 'u) conv_env \<Rightarrow> run_mode \<Rightarrow> 'm session \<Rightarrow> ('m, 'j, 'u) conv_env" where
  "turn_env_for C mode s =
     (let pm = (case so_permission_mode (s_override s) of Some p \<Rightarrow> p | None \<Rightarrow> cv_default_permission C)
      in C\<lparr>cv_env := (cv_env C)\<lparr>te_permission := pm, te_override := so_model (s_override s),
          te_system := (case so_system_prompt (s_override s) of Some c \<Rightarrow> c | None \<Rightarrow> cv_build_prompt C pm mode)\<rparr>\<rparr>)"

definition in_env :: "bool \<Rightarrow> ('m, 'j, 'u) conv_env \<Rightarrow> ('m, 'j, 'u) conv_env" where
  "in_env silenced C = C\<lparr>cv_env := (cv_env C)\<lparr>te_silenced := silenced\<rparr>\<rparr>"

text \<open>The state when the turn owns the session: the message recorded and the stream opened.\<close>

definition open_turn :: "('m, 'j, 'u) conv_env \<Rightarrow> 'm inbound \<Rightarrow> ('m, 'j) conv_state \<Rightarrow> ('m, 'j) conv_state" where
  "open_turn C im st =
     (let silenced = decide_silenced (im_silenced im);
          fold = (if im_silenced im \<noteq> None then Option.bind (sx_suspension (cs_susp st)) su_preview else None);
          live = (cv_channel C \<and> cv_stream C fold)
      in (on_turn (\<lambda>t. set_screen \<lparr>sc_live = live, sc_log = [], sc_deferred = silenced \<and> live\<rparr>
            (on_session (\<lambda>s. record_inbound (im_receiver im) (im_message im) (s\<lparr>s_incomplete_turn := False\<rparr>)) t)) st)
         \<lparr>cs_silenced := silenced, cs_takeover := fold \<noteq> None \<and> \<not> silenced \<and> live\<rparr>)"

definition add_message ::
  "('m, 'j) turn_env \<Rightarrow> utext option \<Rightarrow> utext \<Rightarrow> content_part list \<Rightarrow> ('m, 'j) turn_state \<Rightarrow> ('m, 'j) turn_state" where
  "add_message E reminder content media t =
     (let words = (if media \<noteq> [] \<and> trim content = [] then msg_image_only_hint else content);
          u = with_reminder reminder words
      in persist_turn E (on_session (if media = [] then add_user u else add_user_with_media u media) t))"

definition nothing_open :: "bool \<Rightarrow> ('m, 'j) conv_state \<Rightarrow> bool" where
  "nothing_open was_incomplete st \<longleftrightarrow>
     \<not> (was_incomplete \<or> cs_pending_retry st \<noteq> None \<or> history_looks_incomplete (s_history (cs_session st)))"

definition bare_answer :: "('m, 'j, 'u) conv_env \<Rightarrow> bool \<Rightarrow> ('m, 'j) conv_state \<Rightarrow> ('m, 'j) conv_result" where
  "bare_answer C notice st =
     (let st1 = take_stream (if stream_live st then st\<lparr>cs_out := cs_out st @ [Stream_Aborted]\<rparr> else st)
      in Some (Ret (Inr \<lparr>tu_text = msg_bare_continue, tu_stop = EndTurn, tu_pending_retry = None, tu_has_pending = False\<rparr>,
           finish_guard notice (emit C (Text_Out msg_bare_continue) st1))))"

definition process_turn :: "('m, 'j, 'u) conv_env \<Rightarrow> 'm inbound \<Rightarrow> ('m, 'j) conv_state \<Rightarrow> ('m, 'j) conv_result" where
  "process_turn C0 im st =
     (let content = neutralize_spoofing (im_text im);
          notice = (im_silenced im \<noteq> None);
          hook = (te_hook (cv_env C0) \<noteq> None)
      in case media_parts hook (im_files im) of
           None \<Rightarrow> Some (Ret (Inl File_Unreadable, finish_guard notice st))
         | Some media \<Rightarrow>
             let was_incomplete = s_incomplete_turn (cs_session st);
                 st1 = open_turn C0 im st;
                 silenced = decide_silenced (im_silenced im);
                 C = in_env silenced (turn_env_for C0 (im_mode im) (cs_session st1))
             in if media = [] \<and> s_pending_yield (cs_session st1) \<noteq> None then
                  run_and_deliver C 0 silenced notice
                    (on_turn (fill_yield (cv_env C) (py_tool_call_id (the (s_pending_yield (cs_session st1))))
                       (interruption content)) st1)
                else case turn_reminder (cv_reminder C) (te_permission (cv_env C)) st1 of
                  Panic \<Rightarrow> Some Panic
                | Ret (reminder, st2) \<Rightarrow>
                    if media = [] \<and> is_bare_continue content \<and> nothing_open was_incomplete st2
                    then bare_answer C notice st2
                    else run_and_deliver C 0 silenced notice (on_turn (add_message (cv_env C) reminder content media) st2))"

text \<open>\<open>resume_after_yield\<close>: no message; the marker of silence is the one the last message left.\<close>

definition resume_after_yield :: "('m, 'j, 'u) conv_env \<Rightarrow> ('m, 'j) conv_state \<Rightarrow> ('m, 'j) conv_result" where
  "resume_after_yield C st =
     run_and_deliver (in_env (cs_silenced st) (turn_env_for C Interactive (cs_session st))) 0 False False st"

end
