(* ===== verification/Announcements.thy ===== *)
theory Announcements
  imports Attachments
begin

text \<open>
  What the reminders of \<open>agents/attachment.rs\<close> achieve: when parsing the history back panics, that an
  announced listing is read back as announced, and when date and autonomy are announced again.
\<close>

subsection \<open>Lines of a text\<close>

lemma text_lines_newline: "10 \<notin> set l \<Longrightarrow> text_lines (l @ 10 # t) = chomp_cr l # text_lines t"
proof (cases l)
  case Nil
  then show ?thesis by (simp add: Let_def)
next
  case (Cons c s)
  assume n: "10 \<notin> set l"
  have "takeWhile (\<lambda>x. x \<noteq> 10) (l @ 10 # t) = l"
    by (subst takeWhile_append2) (use n in auto)
  with Cons show ?thesis by (simp add: Let_def)
qed

definition lines_text :: "utext list \<Rightarrow> utext" where
  "lines_text ls = concat (map (\<lambda>l. l @ [10]) ls)"

lemma text_lines_lines:
  "\<forall>l \<in> set ls. 10 \<notin> set l \<Longrightarrow> text_lines (lines_text ls @ t) = map chomp_cr ls @ text_lines t"
  by (induction ls) (simp_all add: lines_text_def text_lines_newline)

lemma text_lines_tail: "set (text_lines t) \<subseteq> set (text_lines (a @ 10 # t))"
proof (induction "length a" arbitrary: a rule: less_induct)
  case less
  define l where "l = takeWhile (\<lambda>x. x \<noteq> 10) a"
  have n: "10 \<notin> set l" using set_takeWhileD by (fastforce simp: l_def)
  show ?case
  proof (cases "10 \<in> set a")
    case False
    then show ?thesis using text_lines_newline [of a t] by auto
  next
    case True
    then have "dropWhile (\<lambda>x. x \<noteq> 10) a \<noteq> []" by (auto simp: dropWhile_eq_Nil_conv)
    then obtain b where b: "dropWhile (\<lambda>x. x \<noteq> 10) a = 10 # b"
      using hd_dropWhile [of "\<lambda>x. x \<noteq> 10" a] by (cases "dropWhile (\<lambda>x. x \<noteq> 10) a") auto
    then have a: "a = l @ 10 # b" using takeWhile_dropWhile_id [of "\<lambda>x. x \<noteq> 10" a] by (simp add: l_def)
    have "length b < length a" using a by simp
    from less [OF this] show ?thesis
      unfolding a append_assoc append_Cons text_lines_newline [OF n] by auto
  qed
qed

lemma join_lines_text: "ls \<noteq> [] \<Longrightarrow> join_with [10] ls @ [10] = lines_text ls"
  by (induction ls) (auto simp: lines_text_def)

lemma space_13 [simp]: "is_space 13" "is_space 10" "is_space 32" "\<not> is_space 42" "\<not> is_space 45" "\<not> is_space 126" "\<not> is_space 35" "\<not> is_space 60"
  by (simp_all add: is_space_def)

lemma trim_chomp [simp]: "trim (chomp_cr l) = trim l"
proof (cases "l \<noteq> [] \<and> last l = 13")
  case True
  then obtain k where "l = k @ [13]" by (metis append_butlast_last_id)
  then show ?thesis by (simp add: chomp_cr_def trim_def trim_end_def trim_end_of_def)
qed (auto simp: chomp_cr_def)

lemma trim_end_append: "trim_end (p @ q) = (if trim_end q = [] then trim_end p else p @ trim_end q)"
  by (auto simp: trim_end_def trim_end_of_def dropWhile_append dropWhile_eq_Nil_conv)

lemma trim_marked:
  assumes "p \<noteq> []" "\<not> is_space (hd p)" "\<not> is_space (last p)"
  shows "trim (p @ q) = p @ trim_end q"
proof -
  have p: "trim_end p = p"
    using assms by (cases p rule: rev_cases) (simp_all add: trim_end_def trim_end_of_def)
  have "trim_end (p @ q) = p @ trim_end q" unfolding trim_end_append p by simp
  moreover have "trim_start (p @ r) = p @ r" for r
    using assms by (cases p) (simp_all add: trim_start_def trim_start_of_def)
  ultimately show ?thesis by (simp add: trim_def)
qed

lemma trim_marked_id: "p \<noteq> [] \<Longrightarrow> \<not> is_space (hd p) \<Longrightarrow> \<not> is_space (last p) \<Longrightarrow> trim p = p"
  using trim_marked [of p "[]"] by (simp add: trim_end_def trim_end_of_def)

subsection \<open>When parsing panics\<close>

definition overlapping :: "utext \<Rightarrow> bool" where
  "overlapping l \<longleftrightarrow> l = cps ''- ~~'' \<or> l = cps ''- ~~~''"

lemma parse_line_panics: "parse_line l s = Panic \<longleftrightarrow> overlapping l"
proof -
  have cps: "cps ''- ~~'' = [45, 32, 126, 126]" "cps ''- ~~~'' = [45, 32, 126, 126, 126]" "struck = [126, 126]"
    by (simp_all add: cps_def struck_def)
  have "prefix [45, 32, 126, 126] l \<and> suffix [126, 126] l \<and> \<not> suffix [126, 126] (drop 4 l) \<longleftrightarrow> overlapping l"
  proof
    assume a: "prefix [45, 32, 126, 126] l \<and> suffix [126, 126] l \<and> \<not> suffix [126, 126] (drop 4 l)"
    then obtain r where r: "l = [45, 32, 126, 126] @ r" by (auto simp: prefix_def)
    have "\<not> suffix [126, 126] r" using a r by simp
    moreover have "suffix [126, 126] (126 # 126 # r)" using a r by (auto simp: suffix_Cons)
    ultimately have "r = [] \<or> r = [126]" by (auto simp: suffix_Cons)
    then show "overlapping l" using r by (auto simp: overlapping_def cps)
  qed (auto simp: overlapping_def cps suffix_def)
  then have "prefix (cps ''- ~~'') l \<Longrightarrow> suffix struck l \<Longrightarrow> \<not> overlapping l \<Longrightarrow> suffix struck (drop 4 l)"
    unfolding cps by blast
  then show ?thesis
  proof (cases "overlapping l")
    case True
    then show ?thesis
      by (cases s) (auto simp: overlapping_def parse_line_def cps_def struck_def suffix_def)
  next
    case False
    with \<open>prefix (cps ''- ~~'') l \<Longrightarrow> suffix struck l \<Longrightarrow> \<not> overlapping l \<Longrightarrow> suffix struck (drop 4 l)\<close>
    show ?thesis by (cases s) (simp add: parse_line_def Let_def)
  qed
qed

lemma parse_lines_panics: "parse_lines ls s = Panic \<longleftrightarrow> (\<exists>l \<in> set ls. overlapping (trim l))"
proof (induction ls arbitrary: s)
  case (Cons l ls)
  show ?case
    by (cases "parse_line (trim l) s") (use Cons parse_line_panics [of "trim l" s] in auto)
qed simp

definition reminder_message :: "chat_message \<Rightarrow> bool" where
  "reminder_message m \<longleftrightarrow> is_user m \<and> prefix reminder_open (text_content m)"

lemma rebuild_panics:
  "rebuild_from h a = Panic \<longleftrightarrow>
     (\<exists>m \<in> set h. reminder_message m \<and> (\<exists>l \<in> set (text_lines (text_content m)). overlapping (trim l)))"
proof (induction h arbitrary: a)
  case (Cons m h)
  show ?case
  proof (cases "reminder_message m")
    case True
    show ?thesis
      by (cases "parse_lines (text_lines (text_content m)) (None, a)")
         (use Cons True parse_lines_panics [of "text_lines (text_content m)" "(None, a)"] in \<open>auto simp: reminder_message_def\<close>)
  next
    case False
    then show ?thesis using Cons by (auto simp: reminder_message_def)
  qed
qed simp

text \<open>Comparing the skills with the history crashes the turn exactly when some user message that starts with a reminder has a line \<open>- ~~\<close> or \<open>- ~~~\<close>; since the user's own words follow the reminder in the same message, a user who sends such a line after a reminder makes every later turn of the session crash.\<close>

theorem struck_line_bricks_session:
  "(diff_skills U M owner h A = Panic \<longleftrightarrow>
      (\<exists>m \<in> set h. reminder_message m \<and> (\<exists>l \<in> set (text_lines (text_content m)). overlapping (trim l))))
   \<and> (case build_text U' M' B of
        Some r \<Rightarrow> diff_skills U M owner (h @ user_text (with_reminder (Some r) (cps ''- ~~'')) # h') A = Panic
      | None \<Rightarrow> True)"
proof
  have p: "diff_skills U M owner k A = Panic \<longleftrightarrow>
      (\<exists>m \<in> set k. reminder_message m \<and> (\<exists>l \<in> set (text_lines (text_content m)). overlapping (trim l)))" for k
    unfolding diff_skills_def map_run_Panic rebuild_from_history_def rebuild_panics ..
  then show "diff_skills U M owner h A = Panic \<longleftrightarrow>
      (\<exists>m \<in> set h. reminder_message m \<and> (\<exists>l \<in> set (text_lines (text_content m)). overlapping (trim l)))" .
  show "case build_text U' M' B of
        Some r \<Rightarrow> diff_skills U M owner (h @ user_text (with_reminder (Some r) (cps ''- ~~'')) # h') A = Panic
      | None \<Rightarrow> True"
  proof (cases "build_text U' M' B")
    case (Some r)
    let ?t = "cps ''- ~~''" and ?m = "user_text (with_reminder (Some r) (cps ''- ~~''))"
    have "?t \<in> set (text_lines (r @ [10] @ 10 # ?t))"
      using text_lines_tail [of ?t "r @ [10]"] by (auto simp: cps_def Let_def)
    then have l: "?t \<in> set (text_lines (text_content ?m))" by (simp add: with_reminder_def user_text_def)
    have o': "overlapping (trim ?t)" by (simp add: cps_def trim_marked_id overlapping_def)
    have "reminder_message ?m"
      using Some by (auto simp: reminder_message_def with_reminder_def build_text_def user_text_def prefix_def split: if_splits)
    then have "\<exists>m \<in> set (h @ ?m # h'). reminder_message m \<and> (\<exists>l \<in> set (text_lines (text_content m)). overlapping (trim l))"
      using l o' by (intro bexI [of _ ?m] conjI bexI [of _ ?t]) simp_all
    with Some show ?thesis unfolding p by simp
  qed simp
qed

subsection \<open>A listing is announced once\<close>

definition plain_name :: "utext \<Rightarrow> bool" where
  "plain_name n \<longleftrightarrow> n \<noteq> [] \<and> 42 \<notin> set n \<and> 10 \<notin> set n \<and> trim n = n"

definition one_line_trigger :: "'u uuid_lib \<Rightarrow> skill_manager \<Rightarrow> string option \<Rightarrow> utext \<Rightarrow> bool" where
  "one_line_trigger U M owner n =
     (case get_skill U M n owner of
        Some s \<Rightarrow> (case sk_when_to_use s of Some w \<Rightarrow> 10 \<notin> set w | None \<Rightarrow> True)
      | None \<Rightarrow> True)"

text \<open>A user's words that no listing takes for its own.\<close>

definition no_marks :: "utext \<Rightarrow> bool" where
  "no_marks l \<longleftrightarrow> \<not> prefix (cps ''- **'') (trim l) \<and> \<not> prefix (cps ''- ~~'') (trim l)"

lemma parse_line_neutral:
  assumes "\<not> prefix (cps ''- **'') l" "\<not> prefix (cps ''- ~~'') l"
  shows "\<exists>sec' a'. parse_line l (sec, a) = Ret (sec', a') \<and> an_skills a' = an_skills a"
  using assms by (auto simp: parse_line_def Let_def)

lemma parse_lines_append: "parse_lines (xs @ ys) s = bind_run (parse_lines xs s) (parse_lines ys)"
proof (induction xs arbitrary: s)
  case (Cons x xs)
  then show ?case by (cases "parse_line (trim x) s") simp_all
qed simp

lemma parse_lines_neutral:
  "\<forall>l \<in> set ls. no_marks l \<Longrightarrow> \<exists>sec' a'. parse_lines ls (sec, a) = Ret (sec', a') \<and> an_skills a' = an_skills a"
proof (induction ls arbitrary: sec a)
  case (Cons l ls)
  have n: "no_marks l" using Cons.prems by simp
  obtain sec1 a1 where l: "parse_line (trim l) (sec, a) = Ret (sec1, a1)" "an_skills a1 = an_skills a"
    using parse_line_neutral [of "trim l" sec a] n unfolding no_marks_def by blast
  have "\<exists>sec' a'. parse_lines ls (sec1, a1) = Ret (sec', a') \<and> an_skills a' = an_skills a1"
    using Cons by simp
  with l show ?case by simp
qed simp

lemma parse_lines_chomp [simp]: "parse_lines (map chomp_cr ls) s = parse_lines ls s"
proof (induction ls arbitrary: s)
  case (Cons l ls)
  then show ?case by (cases "parse_line (trim l) s") simp_all
qed simp

lemma str_find_bold: "42 \<notin> set n \<Longrightarrow> str_find bold (n @ bold @ r) = Some (length n)"
  by (induction n) (auto simp: bold_def cps_def)

lemma parse_skill_line:
  assumes "plain_name n"
  shows "parse_line (trim (skill_line U M owner n)) (Some In_Skills, a) = Ret (Some In_Skills, a\<lparr>an_skills := set_insert n (an_skills a)\<rparr>)"
proof -
  obtain rest where r: "skill_line U M owner n = (cps ''- **'' @ n @ bold) @ rest"
    by (simp add: skill_line_def Let_def)
  have t: "trim (skill_line U M owner n) = (cps ''- **'' @ n @ bold) @ trim_end rest"
    unfolding r by (rule trim_marked) (simp_all add: cps_def bold_def)
  have d: "drop 4 ((cps ''- **'' @ n @ bold) @ q) = n @ bold @ q" for q by (simp add: cps_def)
  have f: "str_find bold (n @ bold @ q) = Some (length n)" for q
    using assms by (simp add: str_find_bold plain_name_def)
  show ?thesis
    unfolding t parse_line_def d f using assms
    by (simp add: cps_def plain_name_def)
qed

lemma parse_struck_line:
  assumes "plain_name n"
  shows "parse_line (trim (struck_line n)) (Some In_Skills, a) = Ret (Some In_Skills, a\<lparr>an_skills := set_remove n (an_skills a)\<rparr>)"
proof -
  have t: "trim (struck_line n) = struck_line n"
    unfolding struck_line_def by (rule trim_marked_id) (simp_all add: cps_def struck_def)
  have d: "drop 4 (struck_line n) = n @ struck" "take (length (struck_line n) - 6) (n @ struck) = n"
    by (simp_all add: struck_line_def cps_def struck_def)
  have s: "suffix struck (struck_line n)" "suffix struck (n @ struck)" "prefix (cps ''- ~~'') (struck_line n)"
    by (simp_all add: struck_line_def suffix_def)
  show ?thesis
    unfolding t parse_line_def d
    by (simp add: s d Let_def) (use assms in \<open>simp add: struck_line_def cps_def plain_name_def\<close>)
qed

lemma parse_skill_lines:
  "\<forall>n \<in> set ns. plain_name n \<Longrightarrow>
     parse_lines (map (skill_line U M owner) ns) (Some In_Skills, a) = Ret (Some In_Skills, a\<lparr>an_skills := fold set_insert ns (an_skills a)\<rparr>)"
  by (induction ns arbitrary: a) (simp_all add: parse_skill_line)

lemma parse_struck_lines:
  "\<forall>n \<in> set ns. plain_name n \<Longrightarrow>
     parse_lines (map struck_line ns) (Some In_Skills, a) = Ret (Some In_Skills, a\<lparr>an_skills := fold set_remove ns (an_skills a)\<rparr>)"
  by (induction ns arbitrary: a) (simp_all add: parse_struck_line)

lemma set_fold_insert: "set (fold set_insert ns xs) = set xs \<union> set ns"
  by (induction ns arbitrary: xs) (auto simp: set_insert_def)

lemma set_fold_remove: "set (fold set_remove ns xs) = set xs - set ns"
  by (induction ns arbitrary: xs) (auto simp: set_remove_def)

lemma words_no_space: "w \<in> set (words_of s) \<Longrightarrow> c \<in> set w \<Longrightarrow> \<not> is_space c"
proof (induction s rule: words_of.induct)
  case (1 s)
  let ?r = "dropWhile is_space s"
  have "words_of s = (if ?r = [] then [] else takeWhile (\<lambda>c. \<not> is_space c) ?r # words_of (dropWhile (\<lambda>c. \<not> is_space c) ?r))"
    using words_of.simps [of s] by (simp only: Let_def)
  with 1 show ?case by (auto split: if_splits dest: set_takeWhileD)
qed

lemma set_join_with: "set (join_with d ls) \<subseteq> set d \<union> (\<Union>l \<in> set ls. set l)"
  by (induction ls) auto

lemma skill_line_one_line:
  assumes "plain_name n" "one_line_trigger U M owner n"
  shows "10 \<notin> set (skill_line U M owner n)"
proof -
  have "10 \<notin> set (join_with (cps '' '') (words_of x))" for x
    using set_join_with [of "cps '' ''" "words_of x"] words_no_space [of _ x 10] by (fastforce simp: cps_def)
  with assms show ?thesis
    by (auto simp: skill_line_def Let_def plain_name_def one_line_trigger_def cps_def bold_def split: option.splits)
qed

lemma no_marks_first: "\<not> is_space c \<Longrightarrow> c \<noteq> 45 \<Longrightarrow> no_marks (c # q)"
  using trim_marked [of "[c]" q] by (simp add: no_marks_def cps_def)

lemma neutral_constants:
  "no_marks reminder_open" "no_marks []" "no_marks reminder_close" "no_marks skills_intro"
  "no_marks (cps ''The following skills are no longer available:'')"
  by (simp_all add: reminder_open_def reminder_close_def skills_intro_def cps_def no_marks_first is_space_def)
     (simp add: no_marks_def cps_def trim_def trim_end_def trim_end_of_def trim_start_def trim_start_of_def)

lemma constants_one_line:
  "10 \<notin> set reminder_open" "10 \<notin> set reminder_close" "10 \<notin> set skills_intro" "10 \<notin> set (cps ''## Skills'')"
  "10 \<notin> set (cps ''The following skills are no longer available:'')"
  by (simp_all add: reminder_open_def reminder_close_def skills_intro_def cps_def)

lemma parse_skills_header: "parse_line (trim (cps ''## Skills'')) (sec, a) = Ret (Some In_Skills, a)"
  by (simp add: parse_line_def cps_def trim_marked_id is_space_def)

lemma parse_neutral1:
  assumes "no_marks l" "\<forall>sec' a'. parse_line (trim l) (Some In_Skills, a) = Ret (sec', a') \<longrightarrow> sec' = Some In_Skills \<and> a' = a"
  shows "parse_line (trim l) (Some In_Skills, a) = Ret (Some In_Skills, a)"
  using parse_line_neutral [of "trim l" "Some In_Skills" a] assms unfolding no_marks_def by blast

lemma parse_plain_line:
  assumes "no_marks l" "\<not> prefix (cps ''## '') (trim l)"
  shows "parse_line (trim l) (Some In_Skills, a) = Ret (Some In_Skills, a)"
proof -
  have "\<not> prefix (cps ''## '' @ q) (trim l)" for q using assms(2) by (auto simp: prefix_def)
  from this [of "cps ''Skills''"] this [of "cps ''Available Sub-Agents''"] this [of "cps ''MCP Server Instructions''"]
  have "\<not> prefix (cps ''## Skills'') (trim l)" "\<not> prefix (cps ''## Available Sub-Agents'') (trim l)"
    "\<not> prefix (cps ''## MCP Server Instructions'') (trim l)" by (simp_all add: cps_def)
  with assms show ?thesis by (simp add: parse_line_def no_marks_def)
qed

lemma plain_constants:
  "\<not> prefix (cps ''## '') (trim skills_intro)" "\<not> prefix (cps ''## '') (trim [])"
  "\<not> prefix (cps ''## '') (trim (cps ''The following skills are no longer available:''))"
proof -
  have "\<not> is_space c \<Longrightarrow> c \<noteq> 35 \<Longrightarrow> \<not> prefix (cps ''## '') (trim (c # q))" for c q
    using trim_marked [of "[c]" q] by (simp add: cps_def)
  then show "\<not> prefix (cps ''## '') (trim skills_intro)"
    "\<not> prefix (cps ''## '') (trim (cps ''The following skills are no longer available:''))"
    by (simp_all add: skills_intro_def cps_def is_space_def)
  show "\<not> prefix (cps ''## '') (trim [])"
    by (simp add: cps_def trim_def trim_end_def trim_end_of_def trim_start_def trim_start_of_def)
qed

text \<open>A rendered listing, parsed back.\<close>

lemma parse_render_skills:
  assumes "\<forall>n \<in> set (dl_added d) \<union> set (dl_removed d). plain_name n"
  shows "parse_lines (render_skills U M owner d) (sec, a) =
    Ret (Some In_Skills, a\<lparr>an_skills := fold set_insert (dl_added d) (fold set_remove (dl_removed d) (an_skills a))\<rparr>)"
proof -
  have r: "parse_lines (removed_lines (cps ''The following skills are no longer available:'') (dl_removed d)) (Some In_Skills, a)
      = Ret (Some In_Skills, a\<lparr>an_skills := fold set_remove (dl_removed d) (an_skills a)\<rparr>)" for a
    using assms
    by (simp add: removed_lines_def parse_lines_append parse_struck_lines parse_plain_line neutral_constants plain_constants)
  have i: "parse_lines (if dl_added d = [] then [] else skills_intro # map (skill_line U M owner) (dl_added d)) (Some In_Skills, a)
      = Ret (Some In_Skills, a\<lparr>an_skills := fold set_insert (dl_added d) (an_skills a)\<rparr>)" for a
    using assms by (simp add: parse_skill_lines parse_plain_line neutral_constants plain_constants)
  show ?thesis by (simp add: render_skills_def parse_skills_header parse_lines_append r i)
qed

lemma render_one_line:
  assumes "\<forall>n \<in> set (dl_added d) \<union> set (dl_removed d). plain_name n" "\<forall>n \<in> set (dl_added d). one_line_trigger U M owner n"
  shows "\<forall>l \<in> set (render_skills U M owner d). 10 \<notin> set l"
proof -
  have "10 \<notin> set (struck_line n)" if "plain_name n" for n
    using that by (simp add: struck_line_def plain_name_def cps_def struck_def)
  then show ?thesis
    using assms constants_one_line by (auto simp: render_skills_def removed_lines_def skill_line_one_line split: if_splits)
qed

text \<open>The message of a turn in which only the skills changed.\<close>

lemma parse_skill_message:
  assumes "\<forall>n \<in> set (dl_added d) \<union> set (dl_removed d). plain_name n" "\<forall>n \<in> set (dl_added d). one_line_trigger U M owner n"
    and "at_pending A = [Skill_Listing \<mapsto> d]" "at_owner A = owner" "\<forall>l \<in> set (text_lines t). no_marks l"
  shows "\<exists>sec' a'. parse_lines (text_lines (with_reminder (build_text U M A) t)) (None, a) = Ret (sec', a')
    \<and> an_skills a' = fold set_insert (dl_added d) (fold set_remove (dl_removed d) (an_skills a))"
proof -
  let ?R = "render_skills U M owner d"
  let ?L = "reminder_open # ?R @ [reminder_close, []]"
  have "sections U M A = [join_with [10] ?R]" using assms(3,4) by (simp add: sections_def)
  then have "with_reminder (build_text U M A) t = reminder_open @ [10] @ (join_with [10] ?R @ [10]) @ reminder_close @ [10, 10] @ t"
    by (simp add: build_text_def with_reminder_def)
  moreover have "join_with [10] ?R @ [10] = lines_text ?R" by (rule join_lines_text) (simp add: render_skills_def)
  ultimately have whole: "with_reminder (build_text U M A) t = lines_text ?L @ t"
    by (simp add: lines_text_def)
  have "\<forall>l \<in> set ?L. 10 \<notin> set l"
    using render_one_line [OF assms(1,2)] constants_one_line by auto
  then have lines: "text_lines (with_reminder (build_text U M A) t) = map chomp_cr ?L @ text_lines t"
    unfolding whole by (rule text_lines_lines)
  obtain sec1 a1 where o1: "parse_line (trim reminder_open) (None, a) = Ret (sec1, a1)" "an_skills a1 = an_skills a"
    using parse_line_neutral [of "trim reminder_open" None a] neutral_constants(1) unfolding no_marks_def by blast
  let ?a2 = "a1\<lparr>an_skills := fold set_insert (dl_added d) (fold set_remove (dl_removed d) (an_skills a1))\<rparr>"
  have "\<forall>l \<in> set ([reminder_close, []] @ text_lines t). no_marks l" using assms(5) neutral_constants by simp
  from parse_lines_neutral [OF this, of "Some In_Skills" ?a2]
  obtain sec3 a3 where o3: "parse_lines ([reminder_close, []] @ text_lines t) (Some In_Skills, ?a2) = Ret (sec3, a3)"
      "an_skills a3 = an_skills ?a2" by blast
  have "parse_lines (text_lines (with_reminder (build_text U M A) t)) (None, a)
      = parse_lines (reminder_open # ?R @ [reminder_close, []] @ text_lines t) (None, a)"
  proof -
    have "parse_lines (map chomp_cr ?L @ text_lines t) (None, a) = parse_lines (?L @ text_lines t) (None, a)"
      by (simp only: parse_lines_append parse_lines_chomp)
    then show ?thesis unfolding lines by (simp del: list.map parse_lines.simps)
  qed
  also have "\<dots> = bind_run (parse_lines (?R @ [reminder_close, []] @ text_lines t) (sec1, a1)) Ret"
    by (simp add: o1) (cases "parse_lines (?R @ reminder_close # [] # text_lines t) (sec1, a1)"; simp)
  also have "\<dots> = Ret (sec3, a3)"
    unfolding parse_lines_append [of ?R] parse_render_skills [OF assms(1)] bind_run.simps o3(1) ..
  finally show ?thesis using o3(2) o1(2) by simp
qed

lemma parse_skill_names: "\<forall>l \<in> set ls. no_marks l \<Longrightarrow> \<exists>sec' a'. parse_lines ls s = Ret (sec', a') \<and> an_skills a' = an_skills (snd s)"
  using parse_lines_neutral [of ls "fst s" "snd s"] by simp

text \<open>A change of the skills that is the only thing a reminder announces is announced once: when no other announcement is pending, the names are plain, the added skills' triggers have one line and the user's words have no lines of the listings' form, the skills read back after the turn are exactly the present ones, and the next comparison with the same skills announces no skill.  (Of the other announcements a changed date can repeat every turn.)\<close>

theorem skills_announced_once:
  assumes "rebuild_from_history h = Ret a"
    and "\<forall>n \<in> set (map fst (agent_skills_iter U M owner)) \<union> set (an_skills a). plain_name n"
    and "\<forall>n \<in> set (map fst (agent_skills_iter U M owner)). one_line_trigger U M owner n"
    and "at_pending A = Map.empty" "\<forall>l \<in> set (text_lines t). no_marks l"
    and "diff_skills U M owner h A = Ret A'"
  shows "\<exists>b. rebuild_from_history (h @ [user_text (with_reminder (build_text U M A') t)]) = Ret b
    \<and> set (an_skills b) = set (map fst (agent_skills_iter U M owner))
    \<and> map_run (\<lambda>A''. at_pending A'')
        (diff_skills U M owner (h @ [user_text (with_reminder (build_text U M A') t)]) (clear_pending A')) = Ret Map.empty"
proof -
  let ?cur = "map fst (agent_skills_iter U M owner)" and ?m = "user_text (with_reminder (build_text U M A') t)"
  let ?d = "\<lparr>dl_added = difference ?cur (an_skills a), dl_removed = difference (an_skills a) ?cur\<rparr>"
  have A': "A' = put_difference Skill_Listing (dl_added ?d) (dl_removed ?d) (A\<lparr>at_owner := owner\<rparr>)"
    using assms(1,6) by (simp add: diff_skills_def map_run_def Let_def)
  have "\<exists>b. rebuild_from [?m] a = Ret b \<and> set (an_skills b) = set ?cur"
  proof (cases "dl_added ?d = [] \<and> dl_removed ?d = []")
    case True
    then have "build_text U M A' = None"
      using A' assms(4) by (simp add: put_difference_def build_text_def sections_def)
    moreover have "set ?cur = set (an_skills a)" using True by (auto simp: difference_def filter_empty_conv)
    moreover obtain sec' a' where "parse_lines (text_lines t) (None, a) = Ret (sec', a')" "an_skills a' = an_skills a"
      using parse_lines_neutral [of "text_lines t" None a] assms(5) by blast
    ultimately show ?thesis by (simp add: with_reminder_def user_text_def)
  next
    case False
    then have pend: "at_pending A' = [Skill_Listing \<mapsto> ?d]" "at_owner A' = owner"
      using A' assms(4) by (auto simp: put_difference_def put_pending_def)
    have plain: "\<forall>n \<in> set (dl_added ?d) \<union> set (dl_removed ?d). plain_name n"
      "\<forall>n \<in> set (dl_added ?d). one_line_trigger U M owner n"
      using assms(2,3) by (auto simp: difference_def)
    obtain sec' a' where p: "parse_lines (text_lines (with_reminder (build_text U M A') t)) (None, a) = Ret (sec', a')"
        "an_skills a' = fold set_insert (dl_added ?d) (fold set_remove (dl_removed ?d) (an_skills a))"
      using parse_skill_message [OF plain pend assms(5), of a] by blast
    have "set (an_skills a') = set ?cur"
      unfolding p(2) set_fold_insert set_fold_remove by (auto simp: difference_def)
    moreover have "prefix reminder_open (text_content ?m)"
      using pend by (simp add: build_text_def sections_def with_reminder_def user_text_def)
    ultimately show ?thesis using p(1) by (simp add: user_text_def)
  qed
  then obtain b where b: "rebuild_from [?m] a = Ret b" "set (an_skills b) = set ?cur" by blast
  have app: "rebuild_from (h @ [?m]) a0 = bind_run (rebuild_from h a0) (rebuild_from [?m])" for a0
  proof (induction h arbitrary: a0)
    case (Cons x h)
    then show ?case by (cases "parse_lines (text_lines (text_content x)) (None, a0)") (auto split: prod.split)
  qed simp
  have r: "rebuild_from_history (h @ [?m]) = Ret b"
    using assms(1) app b(1) by (simp add: rebuild_from_history_def)
  have "difference ?cur (an_skills b) = []" "difference (an_skills b) ?cur = []"
    using b(2) by (auto simp: difference_def filter_empty_conv)
  then have "map_run (\<lambda>A''. at_pending A'') (diff_skills U M owner (h @ [?m]) (clear_pending A')) = Ret Map.empty"
    using r by (simp add: diff_skills_def map_run_def put_difference_def clear_pending_def)
  with r b(2) show ?thesis by blast
qed

subsection \<open>Date and autonomy\<close>

lemma sublist_after: "sublist (c # p) (r @ t) \<Longrightarrow> c \<notin> set r \<Longrightarrow> sublist (c # p) t"
  by (induction r) (auto simp: sublist_Cons_right)

definition announces_date :: "utext \<Rightarrow> chat_message \<Rightarrow> bool" where
  "announces_date date m \<longleftrightarrow> contains (text_content m) reminder_open \<and> contains (text_content m) (date_marker date)"

lemma diff_date_cases:
  "diff_date date weekday tz h A =
     (if list_ex (announces_date date) h then A\<lparr>at_last_date := Some date\<rparr>
      else (put_pending Date_Injection (\<lparr>dl_added = [
          if at_last_date A \<noteq> None
          then cps ''The date has changed. Today'' @ [39] @ cps ''s date is now '' @ date @ cps '' ('' @ weekday @ cps '').''
          else date_marker date @ cps '' ('' @ weekday @ cps '', UTC''
            @ (if 0 \<le> tz then cps ''+'' @ cps (show_int tz) else cps (show_int tz))
            @ cps ''). Use this for any date-relative references.''], dl_removed = []\<rparr>) A)\<lparr>at_last_date := Some date\<rparr>)"
  unfolding diff_date_def announces_date_def [abs_def] ..

text \<open>The first date of a session is announced once; after a change of the date the notice is announced again at every turn of the new day, because it lacks the text that the check looks for.\<close>

theorem changed_date_repeats:
  assumes "\<not> list_ex (announces_date date) h" "at_pending A = Map.empty"
    and "67 \<notin> set date" "67 \<notin> set weekday" "\<not> contains t (date_marker date)"
    and "m = user_text (with_reminder (build_text U M (diff_date date weekday tz h A)) t)"
    and "B = diff_date date weekday tz (h @ [m]) (clear_pending (diff_date date weekday tz h A))"
  shows "(at_last_date A = None \<longrightarrow> at_pending B = Map.empty)
    \<and> (at_last_date A \<noteq> None \<longrightarrow> at_pending B = at_pending (diff_date date weekday tz h A)
         \<and> at_pending B Date_Injection \<noteq> None)"
proof -
  let ?A1 = "diff_date date weekday tz h A"
  let ?changed = "cps ''The date has changed. Today'' @ [39] @ cps ''s date is now '' @ date @ cps '' ('' @ weekday @ cps '').''"
  obtain line where line: "?A1 = (put_pending Date_Injection \<lparr>dl_added = [line], dl_removed = []\<rparr> A)\<lparr>at_last_date := Some date\<rparr>"
    "at_last_date A = None \<Longrightarrow> \<exists>q. line = date_marker date @ q" "at_last_date A \<noteq> None \<Longrightarrow> line = ?changed"
    using assms(1) by (auto simp: diff_date_cases)
  have pend: "at_pending ?A1 = [Date_Injection \<mapsto> \<lparr>dl_added = [line], dl_removed = []\<rparr>]"
    using assms(2) by (simp add: line(1) put_pending_def)
  then have tc: "text_content m = (reminder_open @ [10] @ line @ [10] @ reminder_close @ [10, 10]) @ t"
    by (simp add: assms(6) build_text_def sections_def render_date_def with_reminder_def user_text_def)
  have B: "at_pending B = (if announces_date date m then Map.empty
      else at_pending (put_pending Date_Injection \<lparr>dl_added = [?changed], dl_removed = []\<rparr> (clear_pending ?A1)))"
    using assms(1) by (simp add: assms(7) diff_date_cases [of _ _ _ "h @ [m]"] clear_pending_def line(1))
  show ?thesis
  proof (cases "at_last_date A")
    case None
    then obtain q where q: "line = date_marker date @ q" using line(2) by blast
    have s1: "text_content m = [] @ reminder_open @ ([10] @ line @ [10] @ reminder_close @ [10, 10] @ t)"
      by (simp add: tc)
    have s2: "text_content m = (reminder_open @ [10]) @ date_marker date @ (q @ [10] @ reminder_close @ [10, 10] @ t)"
      by (simp add: tc q)
    have "sublist reminder_open (text_content m)" unfolding s1 by (rule sublist_appendI)
    moreover have "sublist (date_marker date) (text_content m)" unfolding s2 by (rule sublist_appendI)
    ultimately have "announces_date date m" by (simp add: announces_date_def contains_sublist)
    with None B show ?thesis by simp
  next
    case (Some d)
    then have l: "line = ?changed" using line(3) by simp
    have "67 \<notin> set (reminder_open @ [10] @ line @ [10] @ reminder_close @ [10, 10])"
      using assms(3,4) by (simp add: l reminder_open_def reminder_close_def cps_def)
    then have "\<not> sublist (date_marker date) (text_content m)"
      unfolding tc using sublist_after [of 67 _ "reminder_open @ [10] @ line @ [10] @ reminder_close @ [10, 10]" t] assms(5)
      by (auto simp: date_marker_def cps_def contains_sublist)
    then have "\<not> announces_date date m" by (simp add: announces_date_def contains_sublist)
    with Some B pend l show ?thesis by (simp add: put_pending_def clear_pending_def)
  qed
qed

text \<open>A level that was announced at any time is not announced again, so a switch back is silent.\<close>

lemma autonomy_switch_back_silent:
  assumes "build_text U M (diff_autonomy p [] new_attachments) = Some r1"
  shows "diff_autonomy p (user_text r1 # h) A = A"
proof -
  have "r1 = (reminder_open @ [10] @ cps ''## Autonomy Level Changed'' @ [10, 10]) @ autonomy_marker p
      @ cps ''. '' @ autonomy_text (autonomy_label p) @ [10] @ reminder_close"
    using assms by (simp add: diff_autonomy_def new_attachments_def put_pending_def build_text_def sections_def
      render_autonomy_def autonomy_marker_def bold_def cps_def Let_def)
  then have "r1 = [] @ reminder_open @ ([10] @ cps ''## Autonomy Level Changed'' @ [10, 10] @ autonomy_marker p
        @ cps ''. '' @ autonomy_text (autonomy_label p) @ [10] @ reminder_close)"
    "\<exists>a b. r1 = a @ autonomy_marker p @ b" by (simp, blast)
  then have "sublist (autonomy_marker p) r1" "sublist reminder_open r1"
    by (auto intro: sublist_appendI)
  then show ?thesis by (simp add: diff_autonomy_def contains_sublist user_text_def)
qed

subsection \<open>Instances\<close>

definition notes_skill :: skill where
  "notes_skill = \<lparr>sk_name = cps ''notes'', sk_description = [], sk_keywords = [], sk_prompt_body = [],
     sk_version = None, sk_when_to_use = Some (cps ''on request''), sk_argument_hint = None, sk_arguments = [],
     sk_user_invocable = True, sk_agent_invocable = True, sk_dir = None, sk_source_layer = cps ''agent''\<rparr>"

definition one_skill :: skill_manager where
  "one_skill = register_skill notes_skill new_skill_manager"

lemma one_skill_simps:
  "agent_skills_iter U one_skill None = [(cps ''notes'', notes_skill)]"
  "get_skill U one_skill (cps ''notes'') None = Some notes_skill"
  by (simp_all add: one_skill_def register_skill_def new_skill_manager_def agent_skills_iter_def skills_iter_def
      owner_skills_def get_skill_def notes_skill_def)

lemma skills_announced_once_witness:
  "\<exists>A' b. diff_skills string_uuid one_skill None [] new_attachments = Ret A' \<and> build_text string_uuid one_skill A' \<noteq> None
    \<and> rebuild_from_history [user_text (with_reminder (build_text string_uuid one_skill A') (cps ''hello''))] = Ret b
    \<and> set (an_skills b) = {cps ''notes''}"
proof -
  have r: "rebuild_from_history [] = Ret \<lparr>an_skills = [], an_agents = [], an_mcp = []\<rparr>" by (simp add: rebuild_from_history_def)
  obtain A' where A': "diff_skills string_uuid one_skill None [] new_attachments = Ret A'" and n: "at_pending A' Skill_Listing \<noteq> None"
    by (simp add: diff_skills_def r map_run_def one_skill_simps difference_def put_difference_def put_pending_def Let_def)
  from n have "build_text string_uuid one_skill A' \<noteq> None" by (auto simp: build_text_def sections_def)
  moreover have "plain_name (cps ''notes'')" by (simp add: plain_name_def cps_def trim_marked_id is_space_def)
  moreover have "one_line_trigger string_uuid one_skill None (cps ''notes'')"
    unfolding one_line_trigger_def one_skill_simps by (simp add: notes_skill_def cps_def)
  moreover have "\<forall>l \<in> set (text_lines (cps ''hello'')). no_marks l"
    by (simp add: cps_def no_marks_first is_space_def Let_def)
  ultimately show ?thesis
    using skills_announced_once [OF r _ _ _ _ A', of "cps ''hello''"] A'
    by (auto simp: one_skill_simps new_attachments_def)
qed

definition old_session :: attachments where
  "old_session = new_attachments\<lparr>at_last_date := Some (cps ''2026-01-01'')\<rparr>"

definition new_day :: "attachments \<Rightarrow> attachments" where
  "new_day A = diff_date (cps ''2026-01-02'') (cps ''Friday'') 8 [] A"

lemma changed_date_repeats_witness:
  "at_pending (diff_date (cps ''2026-01-02'') (cps ''Friday'') 8
      ([] @ [user_text (with_reminder (build_text string_uuid new_skill_manager (new_day old_session)) (cps ''hi''))])
      (clear_pending (new_day old_session))) Date_Injection \<noteq> None"
proof -
  have c: "\<not> contains (cps ''hi'') (date_marker (cps ''2026-01-02''))"
    by (simp add: contains_sublist date_marker_def cps_def sublist_Cons_right)
  show ?thesis unfolding new_day_def
    by (rule changed_date_repeats [OF _ _ _ _ c refl refl, THEN conjunct2, THEN mp, THEN conjunct2])
       (simp_all add: old_session_def new_attachments_def cps_def)
qed

end
