(* ===== verification/Session_Turn_Facts.thy ===== *)
theory Session_Turn_Facts
  imports Session_Turn Announcements Agent_Batch
begin

text \<open>
  What holds of a whole turn of a session: how an answer reaches the user, the counter of notice turns,
  what a silenced turn leaves behind, and a history that crashes every turn.
\<close>

subsection \<open>What a run leaves alone\<close>

lemma on_turn_frame [simp]:
  "cs_susp (on_turn f st) = cs_susp st" "cs_silenced (on_turn f st) = cs_silenced st" "cs_out (on_turn f st) = cs_out st"
  by (simp_all add: on_turn_def)

lemma on_susp_frame [simp]:
  "cs_susp (on_susp g st) = g (cs_susp st)" "cs_silenced (on_susp g st) = cs_silenced st" "cs_out (on_susp g st) = cs_out st"
  by (simp_all add: on_susp_def)

lemma emit_frame [simp]: "cs_susp (emit C e st) = cs_susp st" "cs_silenced (emit C e st) = cs_silenced st"
  by (simp_all add: emit_def)

lemma emit_out: "cs_out (emit C e st) = (if cv_channel C then cs_out st @ [e] else cs_out st)"
  by (simp add: emit_def)

lemma take_stream_frame [simp]:
  "cs_susp (take_stream st) = cs_susp st" "cs_silenced (take_stream st) = cs_silenced st" "cs_out (take_stream st) = cs_out st"
  by (simp_all add: take_stream_def)

lemma mark_continue_frame [simp]:
  "cs_susp (mark_continue hook st) = cs_susp st" "cs_silenced (mark_continue hook st) = cs_silenced st"
  "cs_out (mark_continue hook st) = cs_out st"
  by (simp_all add: mark_continue_def Let_def)

lemma age_frame [simp]:
  "cs_susp (age_session_media F hook st) = cs_susp st" "cs_silenced (age_session_media F hook st) = cs_silenced st"
  "cs_out (age_session_media F hook st) = cs_out st"
  by (simp_all add: age_session_media_def split: prod.split)

lemma speak_frame [simp]: "cs_susp (speak C silenced tr st) = cs_susp st" "cs_silenced (speak C silenced tr st) = cs_silenced st"
  by (simp_all add: speak_def Let_def split: option.split)

lemma speak_out: "\<exists>v. cs_out (speak C silenced tr st) = cs_out st @ v"
  by (simp add: speak_def Let_def emit_out split: option.split)

lemma guard_frame [simp]:
  "cs_silenced (finish_guard active st) = cs_silenced st" "cs_out (finish_guard active st) = cs_out st"
  by (simp_all add: finish_guard_def)

text \<open>The counter of notice turns.\<close>

abbreviation notices :: "('m, 'j) conv_state \<Rightarrow> nat" where
  "notices st \<equiv> sx_notice_turns (cs_susp st)"

lemma persist_notices [simp]: "sx_notice_turns (persist_suspension x) = sx_notice_turns x"
  by (simp add: persist_suspension_def)

lemma clear_notices [simp]: "sx_notice_turns (clear_suspension_if_collected x) = sx_notice_turns x"
  by (simp add: clear_suspension_if_collected_def split: option.split)

lemma preview_notices [simp]: "sx_notice_turns (set_preview t f x) = sx_notice_turns x"
  by (simp add: set_preview_def)

lemma guard_notices [simp]: "notices (finish_guard active st) = notices st - (if active then 1 else 0)"
  by (simp add: finish_guard_def finish_notice_turn_def)

text \<open>What other tasks may do to the counter: nothing, or what \<open>counts\<close> says.\<close>

definition leaves_counter :: "susp_op \<Rightarrow> bool" where
  "leaves_counter p \<longleftrightarrow> p \<noteq> Bump \<and> p \<noteq> Finish \<and> p \<noteq> Restart"

lemma terminal_notices [simp]: "sx_notice_turns (snd (record_terminal now later i status content sent x)) = sx_notice_turns x"
  by (simp add: record_terminal_def prune_recent_def Let_def split: option.split)

lemma step_notices: "leaves_counter p \<Longrightarrow> sx_notice_turns (susp_step p x) = sx_notice_turns x"
  by (cases p) (simp_all add: leaves_counter_def add_pending_task_def add_progress_def enqueue_delegation_notice_def
      take_delegation_notices_def)

lemma run_notices: "\<forall>p \<in> set ps. leaves_counter p \<Longrightarrow> sx_notice_turns (run_susp ps x) = sx_notice_turns x"
  by (induction ps arbitrary: x) (simp_all add: step_notices)

subsection \<open>After a run\<close>

lemma settle_state:
  "notices (snd (settle_turn C silenced notice tr st)) = notices st - (if notice then 1 else 0)"
  "cs_silenced (snd (settle_turn C silenced notice tr st)) = cs_silenced st"
  "cs_out (snd (settle_turn C silenced notice tr st)) = cs_out st @ (if silenced \<or> \<not> cv_channel C then [] else [On_Done])"
  unfolding settle_turn_def Let_def
  by (simp_all add: emit_out split: option.split)

lemma settle_result:
  "tu_text (fst (settle_turn C silenced notice tr st)) = tu_text tr"
  "tu_has_pending (fst (settle_turn C silenced notice tr st)) = (tu_has_pending tr \<or> silenced)"
  "tu_stop (fst (settle_turn C silenced notice tr st)) = (if silenced \<and> tu_stop tr = EndTurn then Continue else tu_stop tr)"
  unfolding settle_turn_def Let_def
  by (simp_all add: semantic_stop_reason_def)

lemma settle_frame:
  assumes "settle_turn C silenced notice tr st = (tr', st')"
  shows "notices st' = notices st - (if notice then 1 else 0)" "cs_silenced st' = cs_silenced st"
    "cs_out st' = cs_out st @ (if silenced \<or> \<not> cv_channel C then [] else [On_Done])"
    "tu_text tr' = tu_text tr" "tu_has_pending tr' = (tu_has_pending tr \<or> silenced)"
    "tu_stop tr' = (if silenced \<and> tu_stop tr = EndTurn then Continue else tu_stop tr)"
  using settle_state [of C silenced notice tr st] settle_result [of C silenced notice tr st] unfolding assms by simp_all

lemma deliver_steps:
  obtains st1 where "notices st1 = notices st" "cs_silenced st1 = cs_silenced st" "cs_out st1 = cs_out st"
    "\<And>st2 st3. st2 = (if fallback_due (if live then cv_finish C k else Delivery_Pending) (silenced \<or> tu_has_pending tr)
          \<and> trim (tu_text tr) \<noteq> [] then emit C (Text_Out (tu_text tr)) st1 else st1) \<Longrightarrow>
        st3 = speak C silenced tr st2 \<Longrightarrow>
        deliver_answer C k live silenced tr st = (if tu_has_pending tr \<and> s_pending_yield (cs_session st3) = None
          then on_turn (implicit_yield (cv_env C) (cv_uuid C k)) st3 else st3)"
proof (rule that)
  let ?st1 = "if silenced \<or> tu_has_pending tr then (case if live then cv_fold C k else None of
            Some f \<Rightarrow> on_susp (set_preview (cv_target C) f) st | None \<Rightarrow> st) else st"
  show "notices ?st1 = notices st" "cs_silenced ?st1 = cs_silenced st" "cs_out ?st1 = cs_out st"
    by (cases "if live then cv_fold C k else None"; simp)+
  show "deliver_answer C k live silenced tr st = (if tu_has_pending tr \<and> s_pending_yield (cs_session st3) = None
          then on_turn (implicit_yield (cv_env C) (cv_uuid C k)) st3 else st3)"
    if a: "st2 = (if fallback_due (if live then cv_finish C k else Delivery_Pending) (silenced \<or> tu_has_pending tr)
          \<and> trim (tu_text tr) \<noteq> [] then emit C (Text_Out (tu_text tr)) ?st1 else ?st1)"
      and b: "st3 = speak C silenced tr st2" for st2 st3
    unfolding b a deliver_answer_def Let_def by (rule refl)
qed

lemma deliver_frame:
  "notices (deliver_answer C k live silenced tr st) = notices st" (is ?N)
  "cs_silenced (deliver_answer C k live silenced tr st) = cs_silenced st" (is ?S)
  "\<exists>v. cs_out (deliver_answer C k live silenced tr st) =
     cs_out st @ (if cv_channel C \<and> fallback_due (if live then cv_finish C k else Delivery_Pending) (silenced \<or> tu_has_pending tr)
         \<and> trim (tu_text tr) \<noteq> [] then [Text_Out (tu_text tr)] else []) @ v" (is ?O)
proof -
  obtain st1 where st1: "notices st1 = notices st" "cs_silenced st1 = cs_silenced st" "cs_out st1 = cs_out st"
    and d: "\<And>st2 st3. st2 = (if fallback_due (if live then cv_finish C k else Delivery_Pending) (silenced \<or> tu_has_pending tr)
          \<and> trim (tu_text tr) \<noteq> [] then emit C (Text_Out (tu_text tr)) st1 else st1) \<Longrightarrow>
        st3 = speak C silenced tr st2 \<Longrightarrow>
        deliver_answer C k live silenced tr st = (if tu_has_pending tr \<and> s_pending_yield (cs_session st3) = None
          then on_turn (implicit_yield (cv_env C) (cv_uuid C k)) st3 else st3)"
    using deliver_steps [where st = st and live = live and C = C and k = k and silenced = silenced and tr = tr] by blast
  define st2 where "st2 = (if fallback_due (if live then cv_finish C k else Delivery_Pending) (silenced \<or> tu_has_pending tr)
          \<and> trim (tu_text tr) \<noteq> [] then emit C (Text_Out (tu_text tr)) st1 else st1)"
  have st2: "notices st2 = notices st1" "cs_silenced st2 = cs_silenced st1"
    "cs_out st2 = cs_out st1 @ (if cv_channel C \<and> fallback_due (if live then cv_finish C k else Delivery_Pending)
      (silenced \<or> tu_has_pending tr) \<and> trim (tu_text tr) \<noteq> [] then [Text_Out (tu_text tr)] else [])"
    by (simp_all add: st2_def emit_out)
  define st3 where "st3 = speak C silenced tr st2"
  obtain v where st3: "notices st3 = notices st2" "cs_silenced st3 = cs_silenced st2" "cs_out st3 = cs_out st2 @ v"
    using speak_out [of C silenced tr st2] by (auto simp: st3_def)
  show ?N ?S using d [OF st2_def st3_def] st1 st2 st3 by simp_all
  have "cs_out (deliver_answer C k live silenced tr st) = cs_out st3" using d [OF st2_def st3_def] by simp
  with st1 st2(3) st3(3) show ?O by (intro exI [of _ v]) simp
qed

lemma after_run_frame:
  assumes "after_run C k silenced notice tr st = (tr', st')"
  shows "notices st' = notices st - (if notice then 1 else 0)" "cs_silenced st' = cs_silenced st"
proof -
  obtain tr1 st1 where s: "settle_turn C silenced notice tr (take_stream st) = (tr1, st1)" by fastforce
  with assms have "st' = deliver_answer C k (stream_live st) silenced tr1 st1" unfolding after_run_def by (auto split: prod.splits)
  with settle_frame [OF s] show "notices st' = notices st - (if notice then 1 else 0)" "cs_silenced st' = cs_silenced st"
    by (simp_all add: deliver_frame(1,2))
qed

text \<open>C22: The answer of a turn that is neither silenced nor suspended reaches the user: unless the live stream reports that it delivered the final text, the text is sent to the channel, once and right after the status Done.\<close>

theorem answer_reaches_user:
  assumes "after_run C k False notice tr st = (tr', st')" "cv_channel C" "\<not> tu_has_pending tr" "trim (tu_text tr) \<noteq> []"
  shows "tu_text tr' = tu_text tr \<and> tu_stop tr' = tu_stop tr
    \<and> (stream_live st \<and> cv_finish C k = Final_Delivered
       \<or> (\<exists>v. cs_out st' = cs_out st @ [On_Done, Text_Out (tu_text tr)] @ v))"
proof -
  obtain tr1 st1 where s: "settle_turn C False notice tr (take_stream st) = (tr1, st1)" by fastforce
  with assms(1) have r: "tr' = tr1" "st' = deliver_answer C k (stream_live st) False tr1 st1"
    unfolding after_run_def by auto
  note f = settle_frame [OF s]
  obtain v where v: "cs_out st' = cs_out st1 @ (if cv_channel C \<and> fallback_due (if stream_live st then cv_finish C k else Delivery_Pending)
        (False \<or> tu_has_pending tr1) \<and> trim (tu_text tr1) \<noteq> [] then [Text_Out (tu_text tr1)] else []) @ v"
    using deliver_frame(3) [of C k "stream_live st" False tr1 st1] unfolding r(2) by blast
  show ?thesis
  proof (cases "stream_live st \<and> cv_finish C k = Final_Delivered")
    case False
    then have "fallback_due (if stream_live st then cv_finish C k else Delivery_Pending) False"
      by (auto simp: fallback_due_def)
    with v f assms(2-4) have "cs_out st' = cs_out st @ [On_Done, Text_Out (tu_text tr)] @ v" by simp
    moreover have "tu_text tr' = tu_text tr \<and> tu_stop tr' = tu_stop tr" using r(1) f(4,6) by simp
    ultimately show ?thesis by blast
  next
    case True
    then show ?thesis using r(1) f(4,6) by simp
  qed
qed

lemma speak_silenced [simp]: "speak C True tr st = st"
  by (simp add: speak_def)

text \<open>A silenced turn stays open: it is reported with pending work and never as ended, it leaves a pending yield behind (an implicit one if the model did not call the tool), and when its stream has shown the text nothing else is sent.\<close>

theorem silenced_turn_waits:
  assumes "after_run C k True notice tr st = (tr', st')"
  shows "tu_has_pending tr' \<and> tu_stop tr' \<noteq> EndTurn \<and> s_pending_yield (cs_session st') \<noteq> None
    \<and> (stream_live st \<and> cv_finish C k \<noteq> Delivery_Pending \<longrightarrow> cs_out st' = cs_out st)"
proof -
  obtain tr1 st1 where s: "settle_turn C True notice tr (take_stream st) = (tr1, st1)" by fastforce
  with assms have r: "tr' = tr1" "st' = deliver_answer C k (stream_live st) True tr1 st1"
    unfolding after_run_def by auto
  note f = settle_frame [OF s]
  have p: "tu_has_pending tr1" "tu_stop tr1 \<noteq> EndTurn" using f(5,6) by auto
  have i: "s_pending_yield (insert_implicit_yield h u x) \<noteq> None" for h u x
    by (simp add: insert_implicit_yield_def Let_def)
  have y: "s_pending_yield (cs_session (on_turn (implicit_yield E u) x)) \<noteq> None" for E u x
    using i by (auto simp: on_turn_def implicit_yield_def on_session_def Let_def)
  obtain st2 where st2: "cs_out st2 = cs_out st1" and
    d: "\<And>st3 st4. st3 = (if fallback_due (if stream_live st then cv_finish C k else Delivery_Pending) (True \<or> tu_has_pending tr1)
          \<and> trim (tu_text tr1) \<noteq> [] then emit C (Text_Out (tu_text tr1)) st2 else st2) \<Longrightarrow>
        st4 = speak C True tr1 st3 \<Longrightarrow>
        deliver_answer C k (stream_live st) True tr1 st1 = (if tu_has_pending tr1 \<and> s_pending_yield (cs_session st4) = None
          then on_turn (implicit_yield (cv_env C) (cv_uuid C k)) st4 else st4)"
    using deliver_steps [where st = st1 and live = "stream_live st" and C = C and k = k and silenced = True and tr = tr1] by metis
  define st3 where "st3 = (if fallback_due (if stream_live st then cv_finish C k else Delivery_Pending) (True \<or> tu_has_pending tr1)
          \<and> trim (tu_text tr1) \<noteq> [] then emit C (Text_Out (tu_text tr1)) st2 else st2)"
  have e: "st' = (if tu_has_pending tr1 \<and> s_pending_yield (cs_session st3) = None
          then on_turn (implicit_yield (cv_env C) (cv_uuid C k)) st3 else st3)"
    using d [OF st3_def refl] r(2) by simp
  have "s_pending_yield (cs_session st') \<noteq> None" using e y p(1) by (cases "s_pending_yield (cs_session st3)") auto
  moreover have "cs_out st' = cs_out st" if "stream_live st" "cv_finish C k \<noteq> Delivery_Pending"
  proof -
    have "st3 = st2" unfolding st3_def using that by (simp add: fallback_due_def)
    with e st2 f(3) show ?thesis by simp
  qed
  ultimately show ?thesis using p r(1) by blast
qed

subsection \<open>A whole turn\<close>

text \<open>What a state hands to the next run: the marker of silence and the counter, less the notice that was finished.\<close>

definition turn_kept :: "bool \<Rightarrow> ('m, 'j) conv_state \<Rightarrow> ('m, 'j) conv_state \<Rightarrow> bool" where
  "turn_kept notice st st' \<longleftrightarrow>
     cs_silenced st' = cs_silenced st \<and> notices st' = notices st - (if notice then 1 else 0)"

lemma kept_simps [simp]:
  "turn_kept notice st (st'\<lparr>cs_turn := t\<rparr>) = turn_kept notice st st'"
  "turn_kept notice (st\<lparr>cs_turn := t\<rparr>) st' = turn_kept notice st st'"
  "turn_kept notice (take_stream st) st' = turn_kept notice st st'"
  by (simp_all add: turn_kept_def)

lemma kept_trans: "turn_kept notice st st1 \<Longrightarrow> turn_kept False st1 st2 \<Longrightarrow> turn_kept notice st st2"
  by (simp add: turn_kept_def)

lemma start_kept: "\<forall>p \<in> set (cv_others C k). leaves_counter p \<Longrightarrow> turn_kept False st (start_run C k silenced st)"
  by (simp add: start_run_def turn_kept_def run_notices)

lemma start_then: "turn_kept False st st1 \<Longrightarrow> turn_kept notice st1 st2 \<Longrightarrow> turn_kept notice st st2"
  by (simp add: turn_kept_def)

lemma failed_kept: "turn_kept notice st (turn_failed C live notice st)"
  by (simp add: turn_failed_def turn_kept_def)

lemma round_kept:
  assumes o: "\<forall>p \<in> set (cv_others C k). leaves_counter p"
  shows "deliver_round C k silenced notice st = Run_Again st' \<Longrightarrow> turn_kept notice st st'"
    and "deliver_round C k silenced notice st = Conv_Over r st' \<Longrightarrow> turn_kept notice st st'"
proof -
  define st0 where "st0 = start_run C k silenced st"
  have k0: "turn_kept False st st0" unfolding st0_def by (rule start_kept [OF o])
  have r: "deliver_round C k silenced notice st = Run_Again st' \<or> deliver_round C k silenced notice st = Conv_Over r st'
      \<Longrightarrow> turn_kept notice st0 st'"
  proof -
    assume a: "deliver_round C k silenced notice st = Run_Again st' \<or> deliver_round C k silenced notice st = Conv_Over r st'"
    note d = a [unfolded deliver_round_def Let_def st0_def [symmetric]]
    then obtain x t where x: "run_turn (cv_env C) (cv_setup C) (cs_turn st0) = Some (Ret (x, t))"
      by (cases "run_turn (cv_env C) (cv_setup C) (cs_turn st0)" rule: option.exhaust)
         (auto split: run.splits)
    show "turn_kept notice st0 st'"
    proof (cases x)
      case (Inl e)
      with d x have "st' = turn_failed C (stream_live (st0\<lparr>cs_turn := t\<rparr>)) notice (take_stream (st0\<lparr>cs_turn := t\<rparr>))" by simp
      then show ?thesis using failed_kept [of notice "take_stream (st0\<lparr>cs_turn := t\<rparr>)"] by simp
    next
      case (Inr tr)
      obtain tr' st1 where s1: "after_run C k silenced notice tr (st0\<lparr>cs_turn := t\<rparr>) = (tr', st1)" by fastforce
      have k1: "turn_kept notice st0 st1" using after_run_frame [OF s1] by (simp add: turn_kept_def)
      from d x Inr s1 have "st' = st1 \<or> (\<exists>t'. st' = st1\<lparr>cs_turn := t'\<rparr>)"
        by (auto split: option.splits prod.splits if_splits)
      with k1 show ?thesis by auto
    qed
  qed
  show "deliver_round C k silenced notice st = Run_Again st' \<Longrightarrow> turn_kept notice st st'"
    and "deliver_round C k silenced notice st = Conv_Over r st' \<Longrightarrow> turn_kept notice st st'"
    using r start_then [OF k0] by blast+
qed

lemma run_and_deliver_kept:
  assumes o: "\<forall>k. \<forall>p \<in> set (cv_others C k). leaves_counter p"
  shows "run_and_deliver C k silenced notice st = Some (Ret (r, st')) \<Longrightarrow> turn_kept notice st st'"
proof -
  have "C0 = C \<longrightarrow> (\<forall>r st'. y = Ret (r, st') \<longrightarrow> turn_kept notice st st')"
    if "run_and_deliver C0 k silenced notice st = Some y" for C0 y
    using that
  proof (induction C0 k silenced notice st y rule: run_and_deliver.raw_induct [rotated, consumes 1])
    case (1 rec C0 k silenced notice st y)
    show ?case
    proof (intro impI allI)
      fix r st' assume C: "C0 = C" and y: "y = Ret (r, st')"
      have ok: "\<forall>p \<in> set (cv_others C k). leaves_counter p" using o by blast
      show "turn_kept notice st st'"
      proof (cases "deliver_round C k silenced notice st")
        case (Run_Again st1)
        with 1(2) C have "rec C (Suc k) False False st1 = Some y" by simp
        from 1(1) [OF this] y have "turn_kept False st1 st'" by simp
        with round_kept(1) [OF ok Run_Again] show ?thesis by (rule kept_trans)
      next
        case (Conv_Over r1 st1)
        with 1(2) C y have "st1 = st'" by simp
        with round_kept(2) [OF ok Conv_Over] show ?thesis by simp
      qed (use 1(2) C y in simp_all)
    qed
  qed
  then show "run_and_deliver C k silenced notice st = Some (Ret (r, st')) \<Longrightarrow> turn_kept notice st st'" by blast
qed

lemma env_others [simp]:
  "cv_others (in_env b C) = cv_others C" "cv_others (turn_env_for C mode s) = cv_others C"
  "cv_reminder (in_env b C) = cv_reminder C" "cv_reminder (turn_env_for C mode s) = cv_reminder C"
  "cv_channel (in_env b C) = cv_channel C" "cv_channel (turn_env_for C mode s) = cv_channel C"
  by (simp_all add: in_env_def turn_env_for_def Let_def)

lemma open_frame:
  "cs_susp (open_turn C im st) = cs_susp st" "cs_silenced (open_turn C im st) = decide_silenced (im_silenced im)"
  "s_history (cs_session (open_turn C im st)) = s_history (cs_session st)"
  "s_pending_yield (cs_session (open_turn C im st)) = s_pending_yield (cs_session st)"
  "cs_attach (open_turn C im st) = cs_attach st" "cs_user_scope (open_turn C im st) = cs_user_scope st"
  "cs_pending_retry (open_turn C im st) = cs_pending_retry st"
  by (simp_all add: open_turn_def Let_def record_inbound_def on_turn_def set_screen_def on_session_def)

lemma reminder_frame:
  assumes "turn_reminder R pm st = Ret (reminder, st')"
  shows "cs_susp st' = cs_susp st" "cs_silenced st' = cs_silenced st" "cs_turn st' = cs_turn st" "cs_out st' = cs_out st"
  using assms by (auto simp: turn_reminder_def Let_def bind_run_Ret)

lemma bare_kept:
  assumes "bare_answer C notice st = Some (Ret (r, st'))"
  shows "turn_kept notice st st'" "r \<noteq> Inl File_Unreadable"
  using assms by (cases "stream_live st"; auto simp: bare_answer_def Let_def turn_kept_def)+

text \<open>C28: However a turn ends, it counts down the notices in flight exactly once when its message is a delegation notice and not at all otherwise; and it leaves its marker of silence on the session, which is not cleared at the end of the turn.\<close>

theorem notice_turns_balanced:
  assumes t: "process_turn C im st = Some (Ret (r, st'))"
    and o: "\<forall>k. \<forall>p \<in> set (cv_others C k). leaves_counter p"
  shows "sx_notice_turns (cs_susp st') = sx_notice_turns (cs_susp st) - (if im_silenced im = None then 0 else 1)
    \<and> (r = Inl File_Unreadable \<or> cs_silenced st' = decide_silenced (im_silenced im))"
proof -
  define C1 where "C1 = in_env (decide_silenced (im_silenced im))
    (turn_env_for C (im_mode im) (cs_session (open_turn C im st)))"
  let ?n = "im_silenced im \<noteq> None" and ?st1 = "open_turn C im st"
  have rd: "turn_kept ?n x st'" if "run_and_deliver C1 0 s ?n x = Some (Ret (r, st'))" for s x
    by (rule run_and_deliver_kept [OF _ that]) (use o in \<open>simp add: C1_def\<close>)
  have fin: ?thesis if "turn_kept ?n x st'" "cs_susp x = cs_susp ?st1" "cs_silenced x = cs_silenced ?st1" for x
    using that by (auto simp: turn_kept_def open_frame)
  show ?thesis
  proof (cases "media_parts (te_hook (cv_env C) \<noteq> None) (im_files im)")
    case None
    with t show ?thesis by (auto simp: process_turn_def)
  next
    case (Some media)
    show ?thesis
    proof (cases "media = [] \<and> s_pending_yield (cs_session ?st1) \<noteq> None")
      case True
      with t Some have "run_and_deliver C1 0 (decide_silenced (im_silenced im)) ?n (on_turn (fill_yield (cv_env C1)
          (py_tool_call_id (the (s_pending_yield (cs_session ?st1)))) (interruption (neutralize_spoofing (im_text im)))) ?st1)
          = Some (Ret (r, st'))"
        by (simp add: process_turn_def Let_def C1_def)
      from fin [OF rd [OF this]] show ?thesis by simp
    next
      case False
      with t Some obtain reminder st2 where
        rem: "turn_reminder (cv_reminder C1) (te_permission (cv_env C1)) ?st1 = Ret (reminder, st2)"
        by (cases "turn_reminder (cv_reminder C1) (te_permission (cv_env C1)) ?st1")
           (auto simp: process_turn_def Let_def C1_def)
      note f = reminder_frame [OF rem]
      have "run_and_deliver C1 0 (decide_silenced (im_silenced im)) ?n
              (on_turn (add_message (cv_env C1) reminder (neutralize_spoofing (im_text im)) media) st2) = Some (Ret (r, st'))
          \<or> bare_answer C1 ?n st2 = Some (Ret (r, st'))"
        using t Some False rem by (simp add: process_turn_def Let_def C1_def split: if_splits)
      then show ?thesis
      proof
        assume "run_and_deliver C1 0 (decide_silenced (im_silenced im)) ?n
              (on_turn (add_message (cv_env C1) reminder (neutralize_spoofing (im_text im)) media) st2) = Some (Ret (r, st'))"
        from fin [OF rd [OF this]] f show ?thesis by simp
      next
        assume "bare_answer C1 ?n st2 = Some (Ret (r, st'))"
        from fin [OF bare_kept(1) [OF this]] f show ?thesis by simp
      qed
    qed
  qed
qed

text \<open>So a turn resumed after a silenced one runs silenced.\<close>

lemma silence_resumes:
  "cs_silenced st \<Longrightarrow> resume_after_yield C st =
     run_and_deliver (in_env True (turn_env_for C Interactive (cs_session st))) 0 False False st"
  by (simp add: resume_after_yield_def)

text \<open>A bare \<open>continue\<close> with nothing open is answered without a message in the history, although the
  reminder was built: the daily reminder of the drafts is used up unseen.\<close>

lemma bare_continue_drops_drafts:
  assumes "im_files im = []" "s_pending_yield (cs_session st) = None" "is_bare_continue (neutralize_spoofing (im_text im))"
    and n: "\<not> s_incomplete_turn (cs_session st)" "cs_pending_retry st = None" "\<not> history_looks_incomplete (s_history (cs_session st))"
    and r: "turn_reminder (cv_reminder C) (te_permission (cv_env (turn_env_for C (im_mode im) (cs_session (open_turn C im st)))))
        (open_turn C im st) = Ret (reminder, st2)"
  shows "\<exists>tr st'. process_turn C im st = Some (Ret (Inr tr, st')) \<and> s_history (cs_session st') = s_history (cs_session st)
    \<and> cs_user_scope st' = cs_user_scope st2 \<and> cs_attach st' = cs_attach st2"
proof -
  have p: "cs_pending_retry st2 = None" "cs_turn st2 = cs_turn (open_turn C im st)"
    using r n(2) by (auto simp: turn_reminder_def Let_def bind_run_Ret open_frame)
  have o: "nothing_open (s_incomplete_turn (cs_session st)) st2"
    using n p by (simp add: nothing_open_def open_frame)
  have t: "te_permission (cv_env (in_env b D)) = te_permission (cv_env D)" for b D by (simp add: in_env_def)
  show ?thesis
    using assms(1-3) r o p(2)
    by (simp add: process_turn_def Let_def open_frame t bare_answer_def finish_guard_def on_susp_def emit_def take_stream_def
        on_turn_def set_screen_def)
qed

text \<open>The closing of a yield in a turn is the one of the queue's model.\<close>

lemma turn_fill_is_queue_fill:
  "tn_session (fill_yield E i content t) = fill_session (te_hook E) i content (tn_session t)"
  by (simp add: fill_yield_def fill_session_def persist_turn_def on_session_def add_tool_result_def persist_last_def push_message_def)

text \<open>C30: A user who sends the line \<open>- ~~\<close> in a message that a reminder precedes ends the session: while that message stays in the history, every turn that does not answer a pending yield panics before the model is asked.\<close>

theorem poisoned_session_crashes:
  assumes files: "media_parts (te_hook (cv_env C) \<noteq> None) (im_files im) = Some media"
    and idle: "media \<noteq> [] \<or> s_pending_yield (cs_session st) = None"
    and told: "build_text U M B = Some r"
    and said: "s_history (cs_session st) = h @ user_text (with_reminder (Some r) (cps ''- ~~'')) # h'"
  shows "process_turn C im st = Some Panic"
proof -
  have "case build_text U M B of
        Some r \<Rightarrow> diff_skills (rv_ids (cv_reminder C)) (rv_skills (cv_reminder C)) (Some (rv_owner (cv_reminder C)))
          (h @ user_text (with_reminder (Some r) (cps ''- ~~'')) # h') (cs_attach (open_turn C im st)) = Panic
      | None \<Rightarrow> True"
    by (rule struck_line_bricks_session [THEN conjunct2])
  then have "turn_reminder (cv_reminder C) pm (open_turn C im st) = Panic" for pm
    using told said by (simp add: turn_reminder_def Let_def open_frame)
  then show ?thesis using files idle by (auto simp: process_turn_def Let_def open_frame)
qed

subsection \<open>Termination\<close>

definition runs_out :: "('m, 'j, 'u) conv_env \<Rightarrow> nat \<Rightarrow> bool" where
  "runs_out C n \<longleftrightarrow> (\<forall>k < n. cv_park C k \<noteq> None) \<and> (\<exists>f. cv_park C n = Some (Dropped f))"

lemma round_returns:
  assumes l: "0 < turn_limit (cv_setup C)" and p: "cv_park C k \<noteq> None"
  shows "deliver_round C k silenced notice st \<noteq> Never_Woken"
    and "cv_park C k = Some (Dropped f) \<Longrightarrow> deliver_round C k silenced notice st \<noteq> Run_Again st'"
proof -
  obtain x where x: "run_turn (cv_env C) (cv_setup C) (cs_turn (start_run C k silenced st)) = Some x"
    using run_turn_ends [OF l] by blast
  show "deliver_round C k silenced notice st \<noteq> Never_Woken"
    using p by (auto simp: deliver_round_def Let_def x split: run.splits sum.splits prod.splits option.splits)
  assume "cv_park C k = Some (Dropped f)"
  then show "deliver_round C k silenced notice st \<noteq> Run_Again st'"
    by (auto simp: deliver_round_def Let_def x park_for_yield_def split: run.splits sum.splits prod.splits option.splits)
qed

lemma deliver_ends:
  assumes l: "0 < turn_limit (cv_setup C)" and n: "runs_out C n"
  shows "k \<le> n \<Longrightarrow> run_and_deliver C k silenced notice st \<noteq> None"
proof (induction "n - k" arbitrary: k silenced notice st)
  case 0
  then obtain f where f: "cv_park C k = Some (Dropped f)" using n by (auto simp: runs_out_def)
  show ?case
    using round_returns(1) [OF l, of k silenced notice st] round_returns(2) [OF l _ f, of silenced notice st] f
    by (cases "deliver_round C k silenced notice st") (auto simp: run_and_deliver.simps [of C k])
next
  case (Suc d)
  then have "cv_park C k \<noteq> None" using n by (simp add: runs_out_def)
  from round_returns(1) [OF l this, of silenced notice st] Suc(1) [of "Suc k"] Suc(2)
  show ?case by (cases "deliver_round C k silenced notice st") (simp_all add: run_and_deliver.simps [of C k])
qed

text \<open>C29: A turn of a session returns: with a positive limit on tool calls, and if the yields it parks are filled at most \<open>n\<close> times before one is dropped, the message is answered, fails or panics, whatever the model and the tools do.\<close>

theorem conversation_returns:
  assumes "0 < turn_limit (cv_setup C)" "runs_out C n"
  shows "process_turn C im st \<noteq> None"
proof -
  let ?C = "in_env (decide_silenced (im_silenced im)) (turn_env_for C (im_mode im) (cs_session (open_turn C im st)))"
  have "0 < turn_limit (cv_setup ?C)" "runs_out ?C n"
    using assms by (simp_all add: in_env_def turn_env_for_def Let_def runs_out_def)
  note e = deliver_ends [OF this, of 0]
  show ?thesis
    using e by (auto simp: process_turn_def bare_answer_def Let_def split: option.splits run.splits)
qed

subsection \<open>Instances\<close>

definition demo_reminder :: "string reminder_env" where
  "demo_reminder = \<lparr>rv_ids = string_uuid, rv_skills = new_skill_manager, rv_owner = ''o'', rv_agents = [],
     rv_date = cps ''2026-01-02'', rv_weekday = cps ''Friday'', rv_timezone = 8, rv_operator = False, rv_memory = None\<rparr>"

definition demo_conv :: "(unit, nat, string) conv_env" where
  "demo_conv = \<lparr>cv_env = demo_env, cv_setup = demo_setup 5, cv_build_prompt = (\<lambda>_ _. []), cv_default_permission = Full,
     cv_reminder = demo_reminder, cv_channel = True, cv_target = cps ''u'', cv_stream = (\<lambda>_. False),
     cv_finish = (\<lambda>_. Delivery_Pending), cv_fold = (\<lambda>_. None), cv_auto_tts = False, cv_tts_enabled = False,
     cv_tts_text = id, cv_voice = (\<lambda>_. None), cv_uuid = (\<lambda>_. []), cv_others = (\<lambda>_. [Clear]),
     cv_park = (\<lambda>_. Some (Dropped id))\<rparr>"

definition demo_conv_state :: "chat_message list \<Rightarrow> (unit, nat) conv_state" where
  "demo_conv_state h = \<lparr>cs_turn = demo_state 5 h, cs_susp = bump_notice_turn (new_context False No_File),
     cs_attach = new_attachments, cs_user_scope = None,
     cs_agent_scope = \<lparr>ds_reminded = None, ds_skills = None, ds_writable = True\<rparr>, cs_pending_retry = None,
     cs_silenced = False, cs_takeover = False, cs_out = [], cs_updates = []\<rparr>"

definition demo_inbound :: "string \<Rightarrow> bool option \<Rightarrow> unit inbound" where
  "demo_inbound t b = \<lparr>im_text = cps t, im_files = [], im_receiver = [], im_silenced = b, im_mode = Interactive, im_message = ()\<rparr>"

definition demo_hello :: turn_result where
  "demo_hello = \<lparr>tu_text = cps ''hello'', tu_stop = EndTurn, tu_pending_retry = None, tu_has_pending = False\<rparr>"

theorem answer_reaches_user_witness:
  "\<exists>tr' st' v. after_run demo_conv 0 False True demo_hello (demo_conv_state []) = (tr', st')
    \<and> cs_out st' = [On_Done, Text_Out (cps ''hello'')] @ v"
proof -
  obtain tr' st' where r: "after_run demo_conv 0 False True demo_hello (demo_conv_state []) = (tr', st')" by fastforce
  have "trim (tu_text demo_hello) \<noteq> []" by (simp add: demo_hello_def cps_def trim_marked_id is_space_def)
  with answer_reaches_user [OF r] show ?thesis
    using r by (auto simp: demo_conv_def demo_hello_def demo_conv_state_def)
qed

lemma silenced_turn_waits_witness:
  "\<exists>tr' st'. after_run demo_conv 0 True True demo_hello (demo_conv_state []) = (tr', st')
    \<and> tu_stop tr' \<noteq> EndTurn \<and> s_pending_yield (cs_session st') \<noteq> None"
proof -
  obtain tr' st' where r: "after_run demo_conv 0 True True demo_hello (demo_conv_state []) = (tr', st')" by fastforce
  from silenced_turn_waits [OF this] r show ?thesis by blast
qed

lemma conversation_returns_witness:
  "process_turn demo_conv (demo_inbound ''hi'' None) (demo_conv_state []) \<noteq> None"
  by (rule conversation_returns [of _ 0])
     (simp_all add: demo_conv_def turn_limit_def demo_setup_def runs_out_def)

lemma poisoned_session_crashes_witness:
  "\<exists>r. build_text string_uuid new_skill_manager (new_day old_session) = Some r
    \<and> process_turn demo_conv (demo_inbound ''hi'' None)
        (demo_conv_state [user_text (with_reminder (Some r) (cps ''- ~~''))]) = Some Panic"
proof -
  have "build_text string_uuid new_skill_manager (new_day old_session) \<noteq> None"
    by (simp add: build_text_def sections_def new_day_def diff_date_def put_pending_def)
  then obtain r where r: "build_text string_uuid new_skill_manager (new_day old_session) = Some r" by blast
  have "process_turn demo_conv (demo_inbound ''hi'' None)
        (demo_conv_state [user_text (with_reminder (Some r) (cps ''- ~~''))]) = Some Panic"
    by (rule poisoned_session_crashes [OF _ _ r, of _ _ "[]" _ "[]"])
       (simp_all add: demo_inbound_def demo_conv_state_def demo_state_def new_session_def)
  with r show ?thesis by blast
qed

lemma demo_turn_reminder:
  assumes "s_history (cs_session x) = []" "cs_user_scope x = None"
  shows "\<exists>r st2. turn_reminder demo_reminder pm x = Ret (r, st2)
    \<and> cs_pending_retry st2 = cs_pending_retry x \<and> cs_turn st2 = cs_turn x"
  using assms
  by (simp add: turn_reminder_def Let_def diff_skills_def diff_agents_def map_run_def rebuild_from_history_def
      check_and_arm_def demo_reminder_def)

lemma demo_bare:
  "\<exists>r st'. process_turn demo_conv (demo_inbound ''continue'' (Some True)) (demo_conv_state []) = Some (Ret (Inr r, st'))"
proof -
  let ?im = "demo_inbound ''continue'' (Some True)" and ?st = "demo_conv_state []"
  let ?C = "in_env True (turn_env_for demo_conv Interactive (cs_session (open_turn demo_conv ?im ?st)))"
  have f: "im_files ?im = []" "im_silenced ?im = Some True" "im_mode ?im = Interactive" by (simp_all add: demo_inbound_def)
  have c: "neutralize_spoofing (im_text ?im) = cps ''continue''"
    by (simp add: demo_inbound_def neutralize_spoofing_def cps_def is_spoofing_def)
  have b: "is_bare_continue (cps ''continue'')"
    by (simp add: is_bare_continue_def continue_cues_def cps_def trim_marked_id is_space_def)
  have p: "s_pending_yield (cs_session (open_turn demo_conv ?im ?st)) = None"
    by (simp add: open_frame demo_conv_state_def demo_state_def new_session_def)
  have "\<exists>r st2. turn_reminder demo_reminder pm (open_turn demo_conv ?im ?st) = Ret (r, st2)
      \<and> cs_pending_retry st2 = None \<and> cs_turn st2 = cs_turn (open_turn demo_conv ?im ?st)" for pm
    using demo_turn_reminder [of "open_turn demo_conv ?im ?st" pm]
    by (simp add: open_frame demo_conv_state_def demo_state_def)
  then obtain r st2 where r: "turn_reminder (cv_reminder ?C) (te_permission (cv_env ?C)) (open_turn demo_conv ?im ?st) = Ret (r, st2)"
    and s: "cs_pending_retry st2 = None" "cs_turn st2 = cs_turn (open_turn demo_conv ?im ?st)"
    by (fastforce simp: demo_conv_def)
  have "s_history (cs_session st2) = []" using s(2) by (simp add: open_frame demo_conv_state_def demo_state_def)
  then have n: "nothing_open False st2" using s(1) by (simp add: nothing_open_def history_looks_incomplete_def)
  then show ?thesis
    unfolding process_turn_def Let_def f c
    using r b p n by (simp add: bare_answer_def Let_def decide_silenced_def demo_conv_state_def demo_state_def new_session_def)
qed

lemma notice_turns_balanced_witness:
  "\<exists>r st'. process_turn demo_conv (demo_inbound ''continue'' (Some True)) (demo_conv_state []) = Some (Ret (Inr r, st'))
    \<and> sx_notice_turns (cs_susp (demo_conv_state [])) = 1 \<and> sx_notice_turns (cs_susp st') = 0 \<and> cs_silenced st'"
proof -
  obtain r st' where t: "process_turn demo_conv (demo_inbound ''continue'' (Some True)) (demo_conv_state []) = Some (Ret (Inr r, st'))"
    using demo_bare by blast
  have o: "\<forall>k. \<forall>p \<in> set (cv_others demo_conv k). leaves_counter p" by (simp add: demo_conv_def leaves_counter_def)
  have n: "sx_notice_turns (cs_susp (demo_conv_state [])) = 1"
    by (simp add: demo_conv_state_def bump_notice_turn_def new_context_def)
  show ?thesis using notice_turns_balanced [OF t o] t n by (auto simp: demo_inbound_def decide_silenced_def)
qed

end
