(* ===== verification/Delegation.thy ===== *)
theory Delegation
  imports Agent_Loop Attachments Suspension
begin

text \<open>
  The coordinator of background sub-agents (\<open>agents/delegation_coordinator\<close>, \<open>agents/delegation.rs\<close>,
  \<open>api/delegation.rs\<close>): the depth of delegations, the running table, inboxes and checkpoints, and the
  sections of a background task that run without interruption.  The sub-agent's turn itself, the git commands of a
  worktree and the clock are arguments; a write to the disk succeeds.  \<open>Delegation_Run\<close> has the
  interleavings.
\<close>

subsection \<open>Vocabulary\<close>

datatype deleg_status =
    Ds_Running | Ds_Idle | Ds_Completed | Ds_Failed | Ds_Timed_Out | Ds_Cancelled | Ds_Checkpointed

primrec is_terminal :: "deleg_status \<Rightarrow> bool" where
  "is_terminal Ds_Running = False"
| "is_terminal Ds_Idle = False"
| "is_terminal Ds_Completed = True"
| "is_terminal Ds_Failed = True"
| "is_terminal Ds_Timed_Out = True"
| "is_terminal Ds_Cancelled = True"
| "is_terminal Ds_Checkpointed = False"

primrec status_str :: "deleg_status \<Rightarrow> utext" where
  "status_str Ds_Running = cps ''running''"
| "status_str Ds_Idle = cps ''idle''"
| "status_str Ds_Completed = cps ''completed''"
| "status_str Ds_Failed = cps ''failed''"
| "status_str Ds_Timed_Out = cps ''timed_out''"
| "status_str Ds_Cancelled = cps ''cancelled''"
| "status_str Ds_Checkpointed = cps ''checkpointed''"

datatype message_kind = Final_Message | Progress_Message

record agent_message =
  am_id :: utext
  am_sender :: utext
  am_sub :: utext
  am_parent :: utext
  am_text :: utext
  am_kind :: message_kind

datatype deleg_event =
    Ev_Completed utext utext utext nat nat
  | Ev_Failed utext utext utext
  | Ev_Timed_Out utext utext nat nat
  | Ev_Message agent_message

text \<open>An error that can still be recognised as a timeout, or one that is only its text.\<close>

datatype deleg_error = Deleg_Timeout utext nat | Deleg_Error utext

definition quoted :: "utext \<Rightarrow> utext" where "quoted t = [39] @ t @ [39]"

primrec error_text :: "deleg_error \<Rightarrow> utext" where
  "error_text (Deleg_Timeout a n) = cps ''sub-agent '' @ quoted a @ cps '' timed out after '' @ cps (show_nat n) @ cps ''s''"
| "error_text (Deleg_Error t) = t"

type_synonym task_result = "deleg_error + utext"

definition timeout_max :: nat where "timeout_max = 1800"
definition timeout_default :: nat where "timeout_default = 1200"
definition inbox_capacity :: nat where "inbox_capacity = 64"

definition resolve_timeout :: "nat option \<Rightarrow> nat option \<Rightarrow> nat" where
  "resolve_timeout tool conf =
     min (case tool of Some t \<Rightarrow> t | None \<Rightarrow> (case conf of Some c \<Rightarrow> c | None \<Rightarrow> timeout_default)) timeout_max"

definition should_gc_sub_session :: "bool \<Rightarrow> bool \<Rightarrow> bool" where
  "should_gc_sub_session is_async ok \<longleftrightarrow> ok \<and> \<not> is_async"

definition sent_header :: utext where
  "sent_header = cps ''['' @ [0x5B50, 0x4EE3, 0x7406, 0x6D88, 0x606F] @ cps '']'' @ [0xFF1A, 10]"

definition undelivered_note :: "utext list \<Rightarrow> utext" where
  "undelivered_note ms = cps ''['' @ [0x4E3B] @ cps '' agent '' @ [0x6709] @ cps '' '' @ cps (show_nat (length ms)) @ cps '' ''
     @ [0x6761, 0x6D88, 0x606F, 0x5728, 0x4EFB, 0x52A1, 0x7ED3, 0x675F, 0x540E, 0x5230, 0x8FBE, 0xFF0C, 0x672A, 0x5904, 0x7406]
     @ cps '']'' @ [0xFF1A, 10] @ join_with ([10] @ cps ''---'' @ [10]) ms"

definition undelivered_detail :: "utext list \<Rightarrow> utext" where
  "undelivered_detail ms = [10] @ cps ''('' @ [0x53E6, 0x6709] @ cps '' '' @ cps (show_nat (length ms)) @ cps '' ''
     @ [0x6761, 0x4E3B] @ cps '' agent ''
     @ [0x6D88, 0x606F, 0x5728, 0x4EFB, 0x52A1, 0x7ED3, 0x675F, 0x540E, 0x5230, 0x8FBE, 0xFF0C, 0x672A, 0x5904, 0x7406, 0xFF1A]
     @ join_with (cps '' | '') ms @ cps '')''"

definition compose_result :: "task_result \<Rightarrow> utext list \<Rightarrow> utext list \<Rightarrow> task_result" where
  "compose_result r sent undelivered =
     (let sent_part = sent_header @ join_with ([10] @ cps ''---'' @ [10]) sent in
      case r of
        Inr t \<Rightarrow> Inr (join_with [10, 10] ([t] @ (if sent = [] then [] else [sent_part])
            @ (if undelivered = [] then [] else [undelivered_note undelivered])))
      | Inl e \<Rightarrow>
          (let detail = (if sent = [] then [] else [10] @ sent_part)
                 @ (if undelivered = [] then [] else undelivered_detail undelivered)
           in if detail = [] then Inl e else Inl (Deleg_Error (error_text e @ detail))))"

definition existing_final_text :: "'m session \<Rightarrow> utext option" where
  "existing_final_text s =
     (if s_history s = [] then None
      else let m = last (s_history s) in
        if \<not> is_assistant m \<or> calls_of m \<noteq> [] then None
        else let t = trim (text_content m) in if t = [] then None else Some t)"

subsection \<open>The state of the coordinator\<close>

record checkpoint =
  cp_parent :: utext
  cp_sub :: utext
  cp_agent :: utext
  cp_status :: utext
  cp_started :: int
  cp_timeout :: nat
  cp_tools :: "utext list option"
  cp_last :: "int option"

record running_entry =
  re_handle :: nat
  re_status :: deleg_status
  re_agent :: utext
  re_parent :: utext
  re_sent :: nat
  re_timeout :: "nat option"
  re_started :: int
  re_tools :: "utext list option"

text \<open>\<open>dc_inbox\<close> is the channel of each live receiver, \<open>dc_mailboxes\<close> the senders that are registered;
  \<open>dc_parents\<close> has the stored sessions with their parents.  \<open>dc_susp\<close> is the context of a session, with its file:
  live when the session is in \<open>dc_registered\<close> or a running sub-agent; of any other session only the file counts.\<close>

record coord =
  dc_agents :: "(utext \<times> sub_agent_config) list"
  dc_max_depth :: nat
  dc_runtime :: bool
  dc_wired :: bool
  dc_running :: "utext \<rightharpoonup> running_entry"
  dc_mailboxes :: "utext set"
  dc_inbox :: "utext \<rightharpoonup> agent_mail list"
  dc_sent :: "utext \<rightharpoonup> utext list"
  dc_checkpoints :: "utext \<rightharpoonup> checkpoint"
  dc_args :: "utext \<rightharpoonup> nat \<times> utext list option"
  dc_parents :: "utext \<rightharpoonup> utext option"
  dc_registered :: "utext set"
  dc_susp :: "utext \<Rightarrow> susp_state"
  dc_events :: "deleg_event list"
  dc_killed :: "utext list"

definition find_agent :: "coord \<Rightarrow> utext \<Rightarrow> sub_agent_config option" where
  "find_agent c n = map_of (dc_agents c) n"

definition send_event :: "deleg_event \<Rightarrow> coord \<Rightarrow> coord" where
  "send_event e c = (if dc_wired c then c\<lparr>dc_events := dc_events c @ [e]\<rparr> else c)"

definition set_checkpoint_status :: "utext \<Rightarrow> deleg_status \<Rightarrow> coord \<Rightarrow> coord" where
  "set_checkpoint_status i s c =
     (case dc_checkpoints c i of
        Some cp \<Rightarrow> c\<lparr>dc_checkpoints := (dc_checkpoints c)(i \<mapsto> cp\<lparr>cp_status := status_str s\<rparr>)\<rparr>
      | None \<Rightarrow> c)"

definition delete_checkpoint :: "utext \<Rightarrow> coord \<Rightarrow> coord" where
  "delete_checkpoint i c = c\<lparr>dc_checkpoints := (dc_checkpoints c)(i := None)\<rparr>"

text \<open>A context that is not registered is made anew from the file, and of what is done to it the file remains.\<close>

definition fresh_susp :: "susp_state \<Rightarrow> susp_state" where
  "fresh_susp st = new_context (sx_hook st) (sx_file st)"

definition load_susp :: "coord \<Rightarrow> utext \<Rightarrow> susp_state" where
  "load_susp c p = (if p \<in> dc_registered c then dc_susp c p else fresh_susp (dc_susp c p))"

definition store_susp :: "utext \<Rightarrow> susp_state \<Rightarrow> coord \<Rightarrow> coord" where
  "store_susp p st c =
     c\<lparr>dc_susp := (dc_susp c)(p := if p \<in> dc_registered c then st else (dc_susp c p)\<lparr>sx_file := sx_file st\<rparr>)\<rparr>"

subsection \<open>Depth\<close>

fun depth_loop :: "nat \<Rightarrow> (utext \<rightharpoonup> utext option) \<Rightarrow> utext option \<Rightarrow> nat \<Rightarrow> nat" where
  "depth_loop 0 P cur d = d"
| "depth_loop (Suc n) P None d = d"
| "depth_loop (Suc n) P (Some i) d =
     (case P i of Some (Some p) \<Rightarrow> depth_loop n P (Some p) (d + 1) | _ \<Rightarrow> d)"

definition session_depth :: "coord \<Rightarrow> utext \<Rightarrow> nat" where
  "session_depth c i = depth_loop 64 (dc_parents c) (Some i) 1"

definition depth_error :: "nat \<Rightarrow> nat \<Rightarrow> utext" where
  "depth_error d m = cps ''maximum delegation depth exceeded: depth '' @ cps (show_nat d) @ cps '' > max_depth '' @ cps (show_nat m)
     @ cps '' (main agent = depth 1; raise [delegation] max_depth to allow deeper nesting)''"

definition check_depth :: "coord \<Rightarrow> utext \<Rightarrow> utext option" where
  "check_depth c parent =
     (let child = session_depth c parent + 1
      in if dc_max_depth c < child then Some (depth_error child (dc_max_depth c)) else None)"

subsection \<open>A background task\<close>

definition register_pending :: "nat \<Rightarrow> utext \<Rightarrow> utext \<Rightarrow> coord \<Rightarrow> coord" where
  "register_pending now parent i c =
     (if parent \<in> dc_registered c
      then c\<lparr>dc_susp := (dc_susp c)(parent := add_pending_task now i (dc_susp c parent))\<rparr> else c)"

text \<open>Up to the spawn of the task; the entry of the running table is inserted after it.\<close>

definition unknown_agent :: "coord \<Rightarrow> utext \<Rightarrow> utext" where
  "unknown_agent c n = cps ''Unknown sub-agent '' @ quoted n @ cps ''. Available: '' @ join_with (cps '', '') (map fst (dc_agents c))"

definition spawn_async :: "nat \<Rightarrow> utext \<Rightarrow> utext \<Rightarrow> utext \<Rightarrow> coord \<Rightarrow> utext + coord" where
  "spawn_async now agent parent i c =
     (if find_agent c agent = None then Inl (unknown_agent c agent)
      else case check_depth c parent of Some e \<Rightarrow> Inl e | None \<Rightarrow>
      if dc_parents c parent = None then Inl (cps ''parent session not found'')
      else
        let c1 = register_pending now parent i (c\<lparr>dc_parents := (dc_parents c)(i \<mapsto> Some parent), dc_susp := (dc_susp c)(i := new_context True No_File)\<rparr>)
        in Inr (c1\<lparr>dc_mailboxes := insert i (dc_mailboxes c1), dc_inbox := (dc_inbox c1)(i \<mapsto> [])\<rparr>))"

definition new_entry :: "nat \<Rightarrow> utext \<Rightarrow> utext \<Rightarrow> nat \<Rightarrow> int \<Rightarrow> utext list option \<Rightarrow> running_entry" where
  "new_entry h agent parent timeout now tools =
     \<lparr>re_handle = h, re_status = Ds_Running, re_agent = agent, re_parent = parent, re_sent = 0, re_timeout = Some timeout,
      re_started = now, re_tools = tools\<rparr>"

definition insert_entry :: "utext \<Rightarrow> running_entry \<Rightarrow> coord \<Rightarrow> coord" where
  "insert_entry i e c = c\<lparr>dc_running := (dc_running c)(i \<mapsto> e)\<rparr>"

definition workspace_missing :: "sub_agent_config \<Rightarrow> utext" where
  "workspace_missing g = cps ''agent '' @ quoted (sa_name g) @ cps '' uses worktree isolation: the '' @ quoted (cps ''workspace'')
     @ cps '' parameter is required (git repo root where the sub-agent'' @ [39] @ cps ''s worktree is created and merged back)''"

definition runtime_missing :: utext where
  "runtime_missing = cps ''DelegationCoordinator: runtime not installed''"

text \<open>\<open>delegate_with_parent\<close> before the turn: \<open>git\<close> is the error of the worktree's creation, if any.\<close>

definition deleg_begin ::
  "utext \<Rightarrow> utext \<Rightarrow> utext \<Rightarrow> nat \<Rightarrow> utext list option \<Rightarrow> utext option \<Rightarrow> utext option \<Rightarrow> int \<Rightarrow> coord \<Rightarrow> deleg_error option \<times> coord" where
  "deleg_begin agent parent i timeout tools workspace git now c =
     (case check_depth c parent of Some e \<Rightarrow> (Some (Deleg_Error e), c) | None \<Rightarrow>
      case find_agent c agent of
        None \<Rightarrow> (Some (Deleg_Error (unknown_agent c agent)), c)
      | Some g \<Rightarrow>
          if sa_isolation g = Worktree \<and> workspace = None then (Some (Deleg_Error (workspace_missing g)), c)
          else case (if sa_isolation g = Worktree then git else None) of
            Some e \<Rightarrow> (Some (Deleg_Error e), c)
          | None \<Rightarrow>
              let c1 = c\<lparr>dc_args := (dc_args c)(i \<mapsto> (timeout, tools)),
                     dc_checkpoints := (dc_checkpoints c)(i \<mapsto>
                       \<lparr>cp_parent = parent, cp_sub = i, cp_agent = agent, cp_status = status_str Ds_Running, cp_started = now,
                        cp_timeout = timeout, cp_tools = tools, cp_last = None\<rparr>)\<rparr>
              in if dc_runtime c1 then (None, c1) else (Some (Deleg_Error runtime_missing), c1))"

text \<open>How the turn ends, and how its branch is merged back.\<close>

datatype turn_outcome = Turn_Text utext | Turn_Error utext | Turn_Timeout

datatype merge_outcome = No_Merge | Merged | Merge_Conflict utext | Checkout_Failed utext

definition drain_inbox :: "utext \<Rightarrow> coord \<Rightarrow> utext list \<times> coord" where
  "drain_inbox i c = (case dc_inbox c i of Some ms \<Rightarrow> (map ml_text ms, c\<lparr>dc_inbox := (dc_inbox c)(i \<mapsto> [])\<rparr>) | None \<Rightarrow> ([], c))"

definition take_sent :: "utext \<Rightarrow> coord \<Rightarrow> utext list \<times> coord" where
  "take_sent i c = (case dc_sent c i of Some ts \<Rightarrow> ts | None \<Rightarrow> [], c\<lparr>dc_sent := (dc_sent c)(i := None)\<rparr>)"

definition settle_status :: "task_result \<Rightarrow> deleg_status" where
  "settle_status r = (case r of Inr _ \<Rightarrow> Ds_Completed | Inl (Deleg_Timeout _ _) \<Rightarrow> Ds_Timed_Out | Inl (Deleg_Error _) \<Rightarrow> Ds_Failed)"

definition settle_checkpoint :: "utext \<Rightarrow> task_result \<Rightarrow> coord \<Rightarrow> coord" where
  "settle_checkpoint i r c =
     (if settle_status r = Ds_Completed then delete_checkpoint i c else set_checkpoint_status i (settle_status r) c)"

definition deleg_end ::
  "bool \<Rightarrow> utext \<Rightarrow> utext \<Rightarrow> nat \<Rightarrow> turn_outcome \<Rightarrow> merge_outcome \<Rightarrow> coord \<Rightarrow> task_result \<times> coord" where
  "deleg_end is_async name i timeout out merge c =
     (let r = (case out of Turn_Text t \<Rightarrow> Inr t | Turn_Error e \<Rightarrow> Inl (Deleg_Error e) | Turn_Timeout \<Rightarrow> Inl (Deleg_Timeout name timeout));
          c1 = (if out = Turn_Timeout then c\<lparr>dc_killed := dc_killed c @ [i]\<rparr> else c);
          failed = (\<lambda>e. (Inl (Deleg_Error e), if is_async then c1 else set_checkpoint_status i Ds_Failed c1))
      in case merge of
           Merge_Conflict e \<Rightarrow> failed e
         | Checkout_Failed e \<Rightarrow> failed e
         | _ \<Rightarrow>
             (case drain_inbox i c1 of (undelivered, c2) \<Rightarrow>
              (case take_sent i c2 of (sent, c3) \<Rightarrow>
                 let r' = compose_result r sent undelivered;
                     c4 = (if should_gc_sub_session is_async (\<exists>t. r' = Inr t) then c3\<lparr>dc_parents := (dc_parents c3)(i := None)\<rparr> else c3)
                 in (r', if is_async then c4 else settle_checkpoint i r' c4))))"

text \<open>The wrapper of an asynchronous task, after its body has returned: first the terminal event, then the cleanup.\<close>

definition terminal_event :: "utext \<Rightarrow> utext \<Rightarrow> nat \<Rightarrow> nat \<Rightarrow> task_result \<Rightarrow> deleg_event" where
  "terminal_event i parent duration sent r =
     (case r of
        Inr t \<Rightarrow> Ev_Completed i parent t duration sent
      | Inl (Deleg_Timeout a n) \<Rightarrow> Ev_Timed_Out i parent n duration
      | Inl (Deleg_Error e) \<Rightarrow> Ev_Failed i parent e)"

definition panic_result :: "utext \<Rightarrow> task_result" where
  "panic_result m = Inl (Deleg_Error (cps ''sub-agent panicked: '' @ m))"

definition emit_terminal :: "utext \<Rightarrow> utext \<Rightarrow> nat \<Rightarrow> task_result \<Rightarrow> coord \<Rightarrow> coord" where
  "emit_terminal i parent duration r c =
     send_event (terminal_event i parent duration (case dc_running c i of Some e \<Rightarrow> re_sent e | None \<Rightarrow> 0) r) c"

definition settle_task :: "utext \<Rightarrow> task_result \<Rightarrow> coord \<Rightarrow> coord" where
  "settle_task i r c =
     settle_checkpoint i r
       (c\<lparr>dc_running := (dc_running c)(i := None), dc_mailboxes := dc_mailboxes c - {i}, dc_inbox := (dc_inbox c)(i := None)\<rparr>)"

subsection \<open>Cancelling\<close>

text \<open>\<open>cancel\<close> up to its first await, with the parent it keeps, and after it.\<close>

definition cancel_begin :: "utext \<Rightarrow> coord \<Rightarrow> running_entry option \<times> coord" where
  "cancel_begin i c =
     (case dc_running c i of
        None \<Rightarrow> (None, c)
      | Some e \<Rightarrow> (Some e, set_checkpoint_status i Ds_Cancelled
          (c\<lparr>dc_running := (dc_running c)(i \<mapsto> e\<lparr>re_status := Ds_Cancelled\<rparr>)\<rparr>)))"

definition cancel_end :: "utext \<Rightarrow> utext \<Rightarrow> coord \<Rightarrow> coord" where
  "cancel_end i parent c =
     send_event (Ev_Failed i parent (cps ''cancelled''))
       (c\<lparr>dc_killed := dc_killed c @ [i], dc_running := (dc_running c)(i := None)\<rparr>)"

text \<open>Shutdown: every entry of the running table leaves a checkpoint to resume from.\<close>

definition shutdown_checkpoint :: "utext \<Rightarrow> int \<Rightarrow> running_entry \<Rightarrow> checkpoint option \<Rightarrow> checkpoint" where
  "shutdown_checkpoint i now e old =
     (case old of
        Some cp \<Rightarrow> cp\<lparr>cp_status := status_str Ds_Checkpointed, cp_last := Some now\<rparr>
      | None \<Rightarrow> \<lparr>cp_parent = re_parent e, cp_sub = i, cp_agent = re_agent e, cp_status = status_str Ds_Checkpointed,
          cp_started = re_started e, cp_timeout = (case re_timeout e of Some t \<Rightarrow> t | None \<Rightarrow> timeout_default),
          cp_tools = re_tools e, cp_last = Some now\<rparr>)"

definition checkpoint_and_cancel_all :: "int \<Rightarrow> coord \<Rightarrow> coord" where
  "checkpoint_and_cancel_all now c =
     c\<lparr>dc_running := Map.empty,
       dc_checkpoints := (\<lambda>i. case dc_running c i of
           Some e \<Rightarrow> Some (shutdown_checkpoint i now e (dc_checkpoints c i))
         | None \<Rightarrow> dc_checkpoints c i)\<rparr>"

subsection \<open>Resuming\<close>

definition timed_out_checkpoints :: "coord \<Rightarrow> utext \<rightharpoonup> checkpoint" where
  "timed_out_checkpoints c i =
     (case dc_checkpoints c i of
        Some cp \<Rightarrow> if cp_status cp = status_str Ds_Timed_Out then Some cp else None
      | None \<Rightarrow> None)"

definition resume_budget :: "nat option \<Rightarrow> nat \<Rightarrow> nat" where
  "resume_budget extra old =
     max 1 (min (case extra of Some x \<Rightarrow> x | None \<Rightarrow> max (min (old * 2) (2 ^ 64 - 1)) 600) timeout_max)"

text \<open>Up to the spawn of the recovering task, whose entry, too, is inserted after it; the result tells whether a task
  was spawned.\<close>

definition recover_async :: "utext \<Rightarrow> coord \<Rightarrow> bool \<times> coord" where
  "recover_async i c =
     (let c1 = c\<lparr>dc_mailboxes := insert i (dc_mailboxes c), dc_inbox := (dc_inbox c)(i \<mapsto> [])\<rparr>
      in if dc_runtime c1 then (True, c1) else (False, c1\<lparr>dc_inbox := dc_inbox c\<rparr>))"

definition already_running :: "utext \<Rightarrow> utext" where
  "already_running i = cps ''sub-agent '' @ quoted i @ cps '' is already running''"

definition no_checkpoint :: "utext \<Rightarrow> utext" where
  "no_checkpoint i = cps ''no delegation checkpoint for '' @ quoted i"

definition not_resumable :: "utext \<Rightarrow> utext \<Rightarrow> utext" where
  "not_resumable i status = cps ''sub-agent '' @ quoted i @ cps '' is not resumable (checkpoint status: '' @ quoted status
     @ cps ''; only timed_out delegations can be resumed)''"

definition parent_not_found :: "utext \<Rightarrow> utext \<Rightarrow> utext" where
  "parent_not_found p i = cps ''parent session '' @ quoted p @ cps '' not found for sub-agent '' @ quoted i"

definition sub_session_not_found :: "utext \<Rightarrow> utext" where
  "sub_session_not_found i = cps ''sub-agent session '' @ quoted i @ cps '' not found''"

definition resumed_checkpoint :: "nat option \<Rightarrow> int \<Rightarrow> utext \<Rightarrow> checkpoint \<Rightarrow> checkpoint" where
  "resumed_checkpoint extra now i cp =
     cp\<lparr>cp_sub := i, cp_status := status_str Ds_Running, cp_started := now,
        cp_timeout := resume_budget extra (cp_timeout cp), cp_last := None\<rparr>"

definition resume_timed_out :: "nat \<Rightarrow> utext \<Rightarrow> nat option \<Rightarrow> int \<Rightarrow> coord \<Rightarrow> (utext + bool) \<times> coord" where
  "resume_timed_out tick i extra now c =
     (if dc_running c i \<noteq> None then (Inl (already_running i), c)
      else case dc_checkpoints c i of None \<Rightarrow> (Inl (no_checkpoint i), c)
      | Some cp \<Rightarrow>
          if cp_status cp \<noteq> status_str Ds_Timed_Out then (Inl (not_resumable i (cp_status cp)), c)
          else if cp_parent cp \<notin> dc_registered c \<and> dc_parents c (cp_parent cp) = None
          then (Inl (parent_not_found (cp_parent cp) i), c)
          else
            let c1 = store_susp (cp_parent cp) (add_pending_task tick i (load_susp c (cp_parent cp))) c
            in if dc_parents c1 i = None then (Inl (sub_session_not_found i), c1)
               else
                 let c2 = c1\<lparr>dc_checkpoints := (dc_checkpoints c1)(i \<mapsto> resumed_checkpoint extra now i cp),
                            dc_susp := (dc_susp c1)(i := fresh_susp (dc_susp c1 i))\<rparr>
                 in (case recover_async i c2 of (spawned, c3) \<Rightarrow> (Inr spawned, c3)))"

text \<open>How a recovered turn ends; the history is the one it leaves.\<close>

datatype recovery_outcome = Rec_Text utext | Rec_None | Rec_Error utext | Rec_Timeout

definition recovery_result :: "utext \<Rightarrow> nat \<Rightarrow> 'm session \<Rightarrow> recovery_outcome \<Rightarrow> task_result" where
  "recovery_result agent timeout s out =
     (let empty_text = Inl (Deleg_Error (cps ''no recovery needed or empty text'')) in
      case out of
        Rec_Text t \<Rightarrow> if t \<noteq> [] then Inr t else empty_text
      | Rec_None \<Rightarrow> (case existing_final_text s of Some t \<Rightarrow> Inr t | None \<Rightarrow> empty_text)
      | Rec_Error e \<Rightarrow> Inl (Deleg_Error e)
      | Rec_Timeout \<Rightarrow> Inl (Deleg_Timeout agent timeout))"

text \<open>A notice turn that ran outside the task.\<close>

definition reconcile_notice_completed :: "utext \<Rightarrow> utext \<Rightarrow> nat \<Rightarrow> coord \<Rightarrow> coord" where
  "reconcile_notice_completed i summary duration c =
     (case dc_running c i of
        None \<Rightarrow> c
      | Some e \<Rightarrow> send_event (Ev_Completed i (re_parent e) summary duration (re_sent e))
          (c\<lparr>dc_running := (dc_running c)(i := None), dc_mailboxes := dc_mailboxes c - {i}\<rparr>))"

subsection \<open>Messages between a sub-agent and its parent\<close>

definition undelivered_mail :: utext where
  "undelivered_mail = [0x6D88, 0x606F, 0x6295, 0x9012, 0x5931, 0x8D25, 0xFF08, 0x5B50, 0x4EE3, 0x7406, 0x6536, 0x4EF6, 0x7BB1,
     0x5DF2, 0x6EE1, 0x6216, 0x5DF2, 0x5173, 0x95ED, 0xFF09, 0xFF1A]"

definition no_such_sub_agent :: "utext \<Rightarrow> utext" where
  "no_such_sub_agent i = cps ''sub_session_id '' @ quoted i @ cps '' ''
     @ [0x4E0D, 0x5B58, 0x5728, 0x6216, 0x5B50, 0x4EE3, 0x7406, 0x5DF2, 0x7ED3, 0x675F, 0xFF08, 0x4EC5] @ cps '' async ''
     @ [0x5B50, 0x4EE3, 0x7406, 0x53EF, 0x63A5, 0x6536, 0x6D88, 0x606F, 0xFF09]"

definition send_to_sub_agent :: "utext \<Rightarrow> agent_mail \<Rightarrow> coord \<Rightarrow> utext option \<times> coord" where
  "send_to_sub_agent i mail c =
     (if i \<notin> dc_mailboxes c then (Some (no_such_sub_agent i), c)
      else case dc_inbox c i of
        None \<Rightarrow> (Some (undelivered_mail @ cps ''channel closed''), c)
      | Some ms \<Rightarrow>
          if length ms < inbox_capacity then (None, c\<lparr>dc_inbox := (dc_inbox c)(i \<mapsto> ms @ [mail])\<rparr>)
          else (Some (undelivered_mail @ cps ''no available capacity''), c))"

definition send_to_parent :: "agent_message \<Rightarrow> coord \<Rightarrow> bool \<times> coord" where
  "send_to_parent m c =
     (case dc_running c (am_sub m) of
        None \<Rightarrow> (True,
          if am_kind m = Progress_Message then c
          else c\<lparr>dc_sent := (dc_sent c)(am_sub m \<mapsto>
                 (case dc_sent c (am_sub m) of Some ts \<Rightarrow> ts @ [am_text m] | None \<Rightarrow> [am_text m]))\<rparr>)
      | Some e \<Rightarrow>
          if dc_wired c
          then (True, (send_event (Ev_Message m) c)\<lparr>dc_running := (dc_running c)
                 (am_sub m \<mapsto> e\<lparr>re_sent := (re_sent e + 1) mod 2 ^ 64\<rparr>)\<rparr>)
          else (False, c))"

end
