(* ===== verification/Notices.thy ===== *)
theory Notices
  imports Delegation
begin

text \<open>
  Notices of background work (\<open>agents/orchestrator/delegation\<close>, \<open>api/channel_registry.rs\<close>): what a delegation
  event or a finished shell command says, how it is recorded in the suspension of its session, where the notice
  is routed, and the batch of queued notices.  The turn a notice starts, and whether channels and live contexts
  exist, are arguments.
\<close>

subsection \<open>Session keys\<close>

record session_key =
  sk_channel :: utext
  sk_account :: utext
  sk_sender :: utext

definition split_colon :: "utext \<Rightarrow> (utext \<times> utext) option" where
  "split_colon t = (if 58 \<in> set t then Some (takeWhile (\<lambda>c. c \<noteq> 58) t, drop 1 (dropWhile (\<lambda>c. c \<noteq> 58) t)) else None)"

definition session_key_parse :: "utext \<Rightarrow> session_key option" where
  "session_key_parse t =
     (case split_colon t of None \<Rightarrow> None
      | Some (c, r) \<Rightarrow> (case split_colon r of None \<Rightarrow> None
         | Some (a, s) \<Rightarrow>
             if c = [] \<or> a = [] \<or> s = [] then None
             else Some \<lparr>sk_channel = c, sk_account = a, sk_sender = s\<rparr>))"

definition session_key_str :: "session_key \<Rightarrow> utext" where
  "session_key_str k = sk_channel k @ [58] @ sk_account k @ [58] @ sk_sender k"

definition account_key :: "session_key \<Rightarrow> utext \<times> utext" where
  "account_key k = (sk_channel k, sk_account k)"

lemma split_colon_Some: "split_colon t = Some (a, b) \<longleftrightarrow> 58 \<notin> set a \<and> t = a @ 58 # b"
proof
  assume s: "split_colon t = Some (a, b)"
  then have m: "58 \<in> set t" and a: "a = takeWhile (\<lambda>c. c \<noteq> 58) t" and b: "b = drop 1 (dropWhile (\<lambda>c. c \<noteq> 58) t)"
    by (auto simp: split_colon_def split: if_splits)
  have n: "58 \<notin> set a" unfolding a by (auto dest: set_takeWhileD)
  have d: "dropWhile (\<lambda>c. c \<noteq> 58) t \<noteq> []" using m by (auto simp: dropWhile_eq_Nil_conv)
  then have "hd (dropWhile (\<lambda>c. c \<noteq> 58) t) = 58" using hd_dropWhile by blast
  with d have "dropWhile (\<lambda>c. c \<noteq> 58) t = 58 # b" unfolding b by (cases "dropWhile (\<lambda>c. c \<noteq> 58) t") auto
  then have "t = a @ 58 # b" unfolding a by (metis takeWhile_dropWhile_id)
  with n show "58 \<notin> set a \<and> t = a @ 58 # b" by simp
next
  assume t: "58 \<notin> set a \<and> t = a @ 58 # b"
  then have "\<forall>c \<in> set a. c \<noteq> 58" by auto
  with t show "split_colon t = Some (a, b)"
    by (simp add: split_colon_def takeWhile_append2 dropWhile_append2)
qed

lemma session_key_roundtrip:
  "session_key_parse t = Some k \<longleftrightarrow>
     t = session_key_str k \<and> 58 \<notin> set (sk_channel k) \<and> 58 \<notin> set (sk_account k)
     \<and> sk_channel k \<noteq> [] \<and> sk_account k \<noteq> [] \<and> sk_sender k \<noteq> []"
proof
  assume "session_key_parse t = Some k"
  then show "t = session_key_str k \<and> 58 \<notin> set (sk_channel k) \<and> 58 \<notin> set (sk_account k)
     \<and> sk_channel k \<noteq> [] \<and> sk_account k \<noteq> [] \<and> sk_sender k \<noteq> []"
    by (auto simp: session_key_parse_def session_key_str_def split_colon_Some split: option.splits if_splits)
next
  assume r: "t = session_key_str k \<and> 58 \<notin> set (sk_channel k) \<and> 58 \<notin> set (sk_account k)
     \<and> sk_channel k \<noteq> [] \<and> sk_account k \<noteq> [] \<and> sk_sender k \<noteq> []"
  then have "split_colon t = Some (sk_channel k, sk_account k @ 58 # sk_sender k)"
    and "split_colon (sk_account k @ 58 # sk_sender k) = Some (sk_account k, sk_sender k)"
    by (simp_all add: split_colon_Some session_key_str_def)
  with r show "session_key_parse t = Some k" by (simp add: session_key_parse_def)
qed

subsection \<open>What an event says\<close>

definition silence_guidance :: utext where
  "silence_guidance =
     cps ''[''
     @ [0x7CFB, 0x7EDF, 0x63D0, 0x793A]
     @ cps ''] ''
     @ [0x672C, 0x8F6E, 0x4E3A, 0x4E2D, 0x95F4, 0x6062, 0x590D, 0x8F6E, 0xFF1A, 0x4EFB, 0x52A1, 0x5C1A, 0x672A,
       0x5168, 0x90E8, 0x5B8C, 0x6210, 0xFF0C, 0x4F60, 0x7684, 0x672C, 0x8F6E, 0x8F93, 0x51FA, 0x5C06, 0x4F5C,
       0x4E3A, 0x8FDB, 0x5EA6, 0x8BF4, 0x660E, 0x5C55, 0x793A, 0x7ED9, 0x7528, 0x6237, 0x3002, 0x4F60, 0x53EF,
       0x4EE5, 0x7EE7, 0x7EED, 0x5904, 0x7406, 0x5176, 0x4ED6, 0x4EFB, 0x52A1, 0xFF1B, 0x82E5, 0x9700, 0x8981,
       0x7B49, 0x5F85, 0x5B50, 0x4EE3, 0x7406]
     @ cps ''/''
     @ [0x540E, 0x53F0, 0x4EFB, 0x52A1, 0x7ED3, 0x679C, 0xFF0C, 0x8BF7, 0x8C03, 0x7528]
     @ cps '' sessions_yield ''
     @ [0x7ED3, 0x675F, 0x5F53, 0x524D, 0x8F6E, 0x2014, 0x2014, 0x5B8C, 0x6210, 0x65F6, 0x4F1A, 0x81EA, 0x52A8,
       0x5524, 0x9192, 0x4F60, 0x5E76, 0x628A, 0x7ED3, 0x679C, 0x4F5C, 0x4E3A, 0x4E0B, 0x4E00, 0x6761, 0x6D88,
       0x606F, 0x6CE8, 0x5165, 0x3002, 0x7EDD, 0x4E0D, 0x8F6E, 0x8BE2, 0xFF08, 0x4E0D, 0x8981, 0x53CD, 0x590D,
       0x67E5, 0x8BE2, 0x72B6, 0x6001, 0xFF09, 0x3002]"

definition maybe_append_silence_guidance :: "susp_state option \<Rightarrow> utext \<Rightarrow> utext" where
  "maybe_append_silence_guidance st t =
     (case st of Some s \<Rightarrow> if has_pending_async_work s then t @ [10, 10] @ silence_guidance else t | None \<Rightarrow> t)"

definition finished_prefix :: "utext \<Rightarrow> nat \<Rightarrow> utext" where
  "finished_prefix i duration = cps ''[system notice] The sub-agent finished its background task (session_id: '' @ i
     @ cps '', duration: '' @ cps (show_nat duration) @ cps ''s). ''"

definition completed_text :: "utext \<Rightarrow> utext \<Rightarrow> nat \<Rightarrow> nat \<Rightarrow> utext" where
  "completed_text i summary duration sent =
     finished_prefix i duration
     @ (if 0 < sent then cps ''The result was already streamed via sub-agent messages.'' else cps ''Result:'' @ [10] @ summary)"

definition failed_text :: "utext \<Rightarrow> utext \<Rightarrow> utext" where
  "failed_text i e = cps ''[system notice] The sub-agent'' @ [39] @ cps ''s background task failed (session_id: '' @ i
     @ cps ''). Error:'' @ [10] @ e"

definition timed_out_text :: "utext \<Rightarrow> nat \<Rightarrow> nat \<Rightarrow> utext" where
  "timed_out_text i timeout duration =
     cps ''[system notice] The sub-agent'' @ [39] @ cps ''s background task timed out (session_id: '' @ i
     @ cps '', timeout: '' @ cps (show_nat timeout) @ cps ''s, ran: '' @ cps (show_nat duration) @ cps ''s) and was aborted. ''
     @ cps ''The sub-session'' @ [39]
     @ cps ''s completed work is preserved: to continue this task, use the agent_resume tool with its session_id ''
     @ cps ''(it gets a fresh time budget and continues from where it left off); to redo it instead, just delegate again.''"

definition message_text :: "agent_message \<Rightarrow> utext" where
  "message_text m = cps ''[sub-agent message] From sub-agent '' @ quoted (am_sender m) @ cps '' (session_id: '' @ am_sub m
     @ cps ''):'' @ [10] @ am_text m"

record notice_parts =
  np_sub :: utext
  np_parent :: utext
  np_status :: "sub_status option"
  np_sent :: nat
  np_content :: utext
  np_synthetic :: utext

primrec event_parts :: "deleg_event \<Rightarrow> notice_parts" where
  "event_parts (Ev_Completed i p summary duration sent) =
     \<lparr>np_sub = i, np_parent = p, np_status = Some Sub_Completed, np_sent = sent,
      np_content = completed_text i summary duration sent, np_synthetic = cps ''delegation:'' @ i\<rparr>"
| "event_parts (Ev_Failed i p e) =
     \<lparr>np_sub = i, np_parent = p, np_status = Some Sub_Failed, np_sent = 0,
      np_content = failed_text i e, np_synthetic = cps ''delegation:'' @ i\<rparr>"
| "event_parts (Ev_Timed_Out i p timeout duration) =
     \<lparr>np_sub = i, np_parent = p, np_status = Some Sub_Timed_Out, np_sent = 0,
      np_content = timed_out_text i timeout duration, np_synthetic = cps ''delegation:'' @ i\<rparr>"
| "event_parts (Ev_Message m) =
     \<lparr>np_sub = am_sub m, np_parent = am_parent m, np_status = None, np_sent = 0,
      np_content = message_text m, np_synthetic = cps ''delegation-msg:'' @ am_id m\<rparr>"

subsection \<open>Recording an event\<close>

definition progress_log :: "utext \<Rightarrow> turn_suspension \<Rightarrow> utext" where
  "progress_log i s =
     (case filter (\<lambda>r. sr_id r = i) (su_results s) of
        [] \<Rightarrow> []
      | rs \<Rightarrow> if sr_progress (last rs) = [] then []
              else [10, 10] @ cps ''Task progress log:'' @ [10]
                   @ concat (map (\<lambda>l. cps ''- '' @ l @ [10]) (sr_progress (last rs))))"

definition context_known :: "coord \<Rightarrow> utext \<Rightarrow> bool" where
  "context_known c p \<longleftrightarrow> p \<in> dc_registered c \<or> dc_parents c p \<noteq> None"

definition is_progress :: "deleg_event \<Rightarrow> bool" where
  "is_progress e = (case e of Ev_Message m \<Rightarrow> am_kind m = Progress_Message | _ \<Rightarrow> False)"

text \<open>The notice to route, if any: its session, content and synthetic id.\<close>

definition wake_terminal ::
  "nat \<Rightarrow> nat \<Rightarrow> notice_parts \<Rightarrow> sub_status \<Rightarrow> coord \<Rightarrow> (utext \<times> utext \<times> utext) option \<times> coord" where
  "wake_terminal now later n status c =
     (let p = np_parent n in
      if \<not> context_known c p then (Some (p, np_content n, np_synthetic n), c)
      else
        (case record_terminal now later (np_sub n) status (np_content n) (np_sent n) (load_susp c p) of
           (res, st) \<Rightarrow>
             (case res of
                Term_Recorded s \<Rightarrow> Some (p, np_content n @ progress_log (np_sub n) s, np_synthetic n)
              | _ \<Rightarrow> None,
              store_susp p st c)))"

definition wake :: "nat \<Rightarrow> nat \<Rightarrow> deleg_event \<Rightarrow> coord \<Rightarrow> (utext \<times> utext \<times> utext) option \<times> coord" where
  "wake now later e c =
     (if is_progress e
      then (None, case e of
          Ev_Message m \<Rightarrow>
            if am_parent m \<in> dc_registered c
            then c\<lparr>dc_susp := (dc_susp c)(am_parent m := add_progress (am_sub m) (am_text m) (dc_susp c (am_parent m)))\<rparr>
            else c
        | _ \<Rightarrow> c)
      else
        let n = event_parts e in
        case np_status n of
          Some status \<Rightarrow> wake_terminal now later n status c
        | None \<Rightarrow> (Some (np_parent n, np_content n, np_synthetic n), c))"

definition shell_status :: "int option \<Rightarrow> sub_status" where
  "shell_status code = (case code of Some n \<Rightarrow> if n = 0 then Sub_Completed else Sub_Failed | None \<Rightarrow> Sub_Completed)"

text \<open>The context of a running sub-agent is reached through its task.  The completion of a shell command is routed
  also when nothing is suspended on it.\<close>

definition live_susp :: "coord \<Rightarrow> utext \<Rightarrow> susp_state" where
  "live_susp c i = (if i \<notin> dc_registered c \<and> dc_running c i \<noteq> None then dc_susp c i else load_susp c i)"

definition store_live :: "utext \<Rightarrow> susp_state \<Rightarrow> coord \<Rightarrow> coord" where
  "store_live i st c =
     (if i \<notin> dc_registered c \<and> dc_running c i \<noteq> None then c\<lparr>dc_susp := (dc_susp c)(i := st)\<rparr> else store_susp i st c)"

definition route_shell_completion ::
  "nat \<Rightarrow> nat \<Rightarrow> utext \<Rightarrow> utext \<Rightarrow> int option \<Rightarrow> utext \<Rightarrow> coord \<Rightarrow> (utext \<times> utext \<times> utext) option \<times> coord" where
  "route_shell_completion now later process session code content c =
     (let routed = Some (session, content, cps ''shell:'' @ process) in
      if \<not> context_known c session \<and> dc_running c session = None then (routed, c)
      else
        (case record_terminal now later process (shell_status code) content 0 (live_susp c session) of
           (res, st) \<Rightarrow> (if res = Term_Duplicate then None else routed, store_live session st c)))"

subsection \<open>Routing a notice\<close>

text \<open>\<open>rt_session\<close> gives the owner of a session and the receiver of its last message.\<close>

record route_env =
  rt_session :: "utext \<rightharpoonup> utext \<times> utext option"
  rt_active :: "utext \<rightharpoonup> utext"
  rt_channels :: "(utext \<times> utext) set"
  rt_parked :: "utext \<Rightarrow> bool"

record notice_message =
  nm_id :: "utext option"
  nm_sender :: utext
  nm_receiver :: utext
  nm_content :: utext
  nm_silenced :: "bool option"

datatype notice_route =
    To_Nobody
  | To_Parked_Yield utext
  | To_Yield_Queue utext
  | To_Turn notice_message
  | To_Non_Active notice_message

definition notice_receiver :: "utext option \<Rightarrow> utext \<Rightarrow> utext" where
  "notice_receiver last_receiver sender =
     (case last_receiver of Some r \<Rightarrow> if r \<noteq> [] then r else sender | None \<Rightarrow> sender)"

definition notice_fallback_sender :: "utext \<Rightarrow> utext" where
  "notice_fallback_sender owner = (case session_key_parse owner of Some k \<Rightarrow> sk_sender k | None \<Rightarrow> cps ''system'')"

text \<open>The synthetic message of a session that is not active; a missing id stands for a generated one.\<close>

definition process_non_active ::
  "coord \<Rightarrow> route_env \<Rightarrow> utext \<Rightarrow> utext \<Rightarrow> utext \<Rightarrow> bool option \<Rightarrow> utext option \<Rightarrow> notice_route" where
  "process_non_active c E i sender content silenced notice =
     (case rt_session E i of None \<Rightarrow> To_Nobody
      | Some (owner, last_receiver) \<Rightarrow>
          To_Non_Active \<lparr>nm_id = notice, nm_sender = cps ''system'', nm_receiver = notice_receiver last_receiver sender,
            nm_content = content, nm_silenced = silenced\<rparr>)"

definition known_susp :: "coord \<Rightarrow> utext \<Rightarrow> susp_state option" where
  "known_susp c i =
     (if context_known c i \<or> dc_running c i \<noteq> None then Some (live_susp c i) else None)"

definition route_non_active :: "coord \<Rightarrow> route_env \<Rightarrow> utext \<Rightarrow> utext \<Rightarrow> utext \<Rightarrow> notice_route" where
  "route_non_active c E i sender content =
     (let st = known_susp c i in
      process_non_active c E i sender (maybe_append_silence_guidance st content) (map_option has_pending_async_work st) None)"

definition route_notice :: "coord \<Rightarrow> route_env \<Rightarrow> utext \<Rightarrow> utext \<Rightarrow> utext \<Rightarrow> notice_route" where
  "route_notice c E i content synthetic =
     (case rt_session E i of None \<Rightarrow> To_Nobody
      | Some (owner, last_receiver) \<Rightarrow>
          if i \<notin> dc_registered c \<and> dc_running c i \<noteq> None \<and> rt_parked E i then To_Parked_Yield content
          else if rt_active E owner = Some i then
            (case session_key_parse owner of None \<Rightarrow> To_Nobody
             | Some k \<Rightarrow>
                 if account_key k \<notin> rt_channels E then route_non_active c E i (sk_sender k) content
                 else if known_susp c i \<noteq> None then To_Yield_Queue content
                 else To_Turn \<lparr>nm_id = Some synthetic, nm_sender = sk_sender k,
                        nm_receiver = notice_receiver last_receiver (sk_sender k), nm_content = content, nm_silenced = None\<rparr>)
          else route_non_active c E i (notice_fallback_sender owner) content)"

subsection \<open>Draining the queued notices of a session\<close>

fun dedup_notices :: "utext list \<Rightarrow> delegation_notice list \<Rightarrow> delegation_notice list" where
  "dedup_notices seen [] = []"
| "dedup_notices seen (n # ns) =
     (if dn_id n \<in> set seen then dedup_notices seen ns else n # dedup_notices (dn_id n # seen) ns)"

definition split_batch_ids :: "delegation_notice list \<Rightarrow> utext \<times> utext list" where
  "split_batch_ids batch = (dn_id (hd batch), map dn_id (tl batch))"

definition batch_separator :: utext where
  "batch_separator = [10, 10] @ cps ''---'' @ [10, 10]"

text \<open>The merged turn, the other ids it marks delivered, and the state with the notice turn counted.\<close>

definition dispatch_notice_batch ::
  "session_key \<Rightarrow> utext option \<Rightarrow> delegation_notice list \<Rightarrow> susp_state \<Rightarrow> notice_message \<times> utext list \<times> susp_state" where
  "dispatch_notice_batch k last_receiver batch st =
     (let st1 = bump_notice_turn st; (first, rest) = split_batch_ids batch in
      (\<lparr>nm_id = Some first, nm_sender = sk_sender k, nm_receiver = notice_receiver last_receiver (sk_sender k),
        nm_content = join_with batch_separator (map dn_content batch), nm_silenced = Some (has_pending_async_work st1)\<rparr>,
       rest, st1))"

datatype drain_outcome = Drain_Nothing | Drain_Batch notice_message "utext list" | Drain_Non_Active "notice_route list"

definition drain_delegation_notices :: "coord \<Rightarrow> route_env \<Rightarrow> utext \<Rightarrow> drain_outcome \<times> coord" where
  "drain_delegation_notices c E i =
     (case rt_session E i of None \<Rightarrow> (Drain_Nothing, c)
      | Some (owner, last_receiver) \<Rightarrow>
          if i \<notin> dc_registered c then (Drain_Nothing, c)
          else case take_delegation_notices (dc_susp c i) of (notices, st) \<Rightarrow>
            let c1 = c\<lparr>dc_susp := (dc_susp c)(i := st)\<rparr>; batch = dedup_notices [] notices in
            if notices = [] then (Drain_Nothing, c1)
            else case session_key_parse owner of None \<Rightarrow> (Drain_Nothing, c1)
            | Some k \<Rightarrow>
                if rt_active E owner = Some i \<and> account_key k \<in> rt_channels E
                then (case dispatch_notice_batch k last_receiver batch st of
                        (m, extra, st2) \<Rightarrow> (Drain_Batch m extra, c1\<lparr>dc_susp := (dc_susp c1)(i := st2)\<rparr>))
                else (Drain_Non_Active (map (\<lambda>n. process_non_active c1 E i (sk_sender k) (dn_content n) (dn_silenced n) (Some (dn_id n))) batch), c1))"

end
