(* ===== verification/Delegation_Run.thy ===== *)
theory Delegation_Run
  imports Notices
begin

text \<open>
  The interleavings of background delegations: the tasks the coordinator spawns, the two sections of a
  cancellation, the events on their way to the parents and what sessions do meanwhile.  A task is known by the
  handle its running-table entry holds.  Proved: no delegation is lost, and delegations nest at most as deep as
  configured.
\<close>

subsection \<open>Tasks\<close>

text \<open>Before the body has begun, in the sub-agent's turn, in a recovered turn, with a result, and after the
  terminal event was sent.\<close>

datatype deleg_phase =
    Ph_Starting
  | Ph_Turn
  | Ph_Recovery
  | Ph_Result task_result
  | Ph_Sent task_result

record deleg_task =
  tk_id :: utext
  tk_agent :: utext
  tk_parent :: utext
  tk_timeout :: nat
  tk_tools :: "utext list option"
  tk_phase :: deleg_phase

text \<open>\<open>dr_detached\<close> are bodies whose wrapper was aborted, \<open>dr_inserting\<close> the entries not yet in the running table,
  \<open>dr_cancels\<close> the cancellations between their two sections.\<close>

record drun =
  dr_c :: coord
  dr_tasks :: "nat \<rightharpoonup> deleg_task"
  dr_detached :: "nat \<rightharpoonup> deleg_task"
  dr_inserting :: "nat \<rightharpoonup> utext \<times> running_entry"
  dr_cancels :: "(utext \<times> utext) list"
  dr_next :: nat

definition set_phase :: "nat \<Rightarrow> deleg_task \<Rightarrow> deleg_phase \<Rightarrow> coord \<Rightarrow> drun \<Rightarrow> drun" where
  "set_phase h t ph c s = s\<lparr>dr_c := c, dr_tasks := (dr_tasks s)(h \<mapsto> t\<lparr>tk_phase := ph\<rparr>)\<rparr>"

definition end_task :: "nat \<Rightarrow> coord \<Rightarrow> drun \<Rightarrow> drun" where
  "end_task h c s = s\<lparr>dr_c := c, dr_tasks := (dr_tasks s)(h := None)\<rparr>"

text \<open>Aborting a wrapper: a body that has started runs on by itself, a wrapper that has only to clean up does so.
  \<open>late\<close> tells that the body has been spawned, or that the event is sent before the abort takes effect.\<close>

definition abort_task :: "bool \<Rightarrow> nat \<Rightarrow> drun \<Rightarrow> drun" where
  "abort_task late h s =
     (case dr_tasks s h of
        None \<Rightarrow> s
      | Some t \<Rightarrow>
          let gone = s\<lparr>dr_tasks := (dr_tasks s)(h := None)\<rparr>;
              detached = gone\<lparr>dr_detached := (dr_detached s)(h \<mapsto> t)\<rparr>
          in case tk_phase t of
               Ph_Starting \<Rightarrow> if late then detached else gone
             | Ph_Turn \<Rightarrow> detached
             | Ph_Recovery \<Rightarrow> gone
             | Ph_Result r \<Rightarrow> if late then s else gone
             | Ph_Sent r \<Rightarrow> s)"

definition begin_task ::
  "deleg_task \<Rightarrow> utext option \<Rightarrow> utext option \<Rightarrow> int \<Rightarrow> coord \<Rightarrow> deleg_error option \<times> coord" where
  "begin_task t workspace git now c =
     deleg_begin (tk_agent t) (tk_parent t) (tk_id t) (tk_timeout t) (tk_tools t) workspace git now c"

definition new_task :: "utext \<Rightarrow> utext \<Rightarrow> utext \<Rightarrow> nat \<Rightarrow> utext list option \<Rightarrow> deleg_phase \<Rightarrow> deleg_task" where
  "new_task i agent parent timeout tools ph =
     \<lparr>tk_id = i, tk_agent = agent, tk_parent = parent, tk_timeout = timeout, tk_tools = tools, tk_phase = ph\<rparr>"

subsection \<open>Steps\<close>

definition open_session :: "utext \<Rightarrow> coord \<Rightarrow> coord" where
  "open_session p c = c\<lparr>dc_parents := (dc_parents c)(p \<mapsto> None), dc_susp := (dc_susp c)(p := new_context True No_File)\<rparr>"

text \<open>The sessions with a live context change.\<close>

definition switch_to :: "utext set \<Rightarrow> coord \<Rightarrow> coord" where
  "switch_to R c =
     c\<lparr>dc_registered := R,
       dc_susp := (\<lambda>p. if p \<in> R \<and> p \<notin> dc_registered c then fresh_susp (dc_susp c p) else dc_susp c p)\<rparr>"

inductive deleg_step :: "drun \<Rightarrow> drun \<Rightarrow> bool" where
  Spawn: "dc_parents (dr_c s) i = None \<Longrightarrow> spawn_async tick agent parent i (dr_c s) = Inr c \<Longrightarrow>
    deleg_step s (s\<lparr>dr_c := c, dr_next := dr_next s + 1,
      dr_tasks := (dr_tasks s)(dr_next s \<mapsto> new_task i agent parent timeout tools Ph_Starting),
      dr_inserting := (dr_inserting s)(dr_next s \<mapsto> (i, new_entry (dr_next s) agent parent timeout now tools))\<rparr>)"
| Insert: "dr_inserting s h = Some (i, e) \<Longrightarrow>
    deleg_step s (s\<lparr>dr_c := insert_entry i e (dr_c s), dr_inserting := (dr_inserting s)(h := None)\<rparr>)"
| Begin: "dr_tasks s h = Some t \<Longrightarrow> tk_phase t = Ph_Starting \<Longrightarrow> begin_task t workspace git now (dr_c s) = (err, c) \<Longrightarrow>
    deleg_step s (set_phase h t (case err of None \<Rightarrow> Ph_Turn | Some e \<Rightarrow> Ph_Result (Inl e)) c s)"
| Turn_Over: "dr_tasks s h = Some t \<Longrightarrow> tk_phase t = Ph_Turn \<Longrightarrow>
    deleg_end True (tk_agent t) (tk_id t) (tk_timeout t) out merge (dr_c s) = (r, c) \<Longrightarrow>
    deleg_step s (set_phase h t (Ph_Result r) c s)"
| Panic: "dr_tasks s h = Some t \<Longrightarrow> tk_phase t \<in> {Ph_Starting, Ph_Turn} \<Longrightarrow>
    deleg_step s (set_phase h t (Ph_Result (panic_result m)) (dr_c s) s)"
| Recovered: "dr_tasks s h = Some t \<Longrightarrow> tk_phase t = Ph_Recovery \<Longrightarrow>
    deleg_step s (set_phase h t (Ph_Result (recovery_result (tk_agent t) (tk_timeout t) (session :: unit session) out)) (dr_c s) s)"
| Emit: "dr_tasks s h = Some t \<Longrightarrow> tk_phase t = Ph_Result r \<Longrightarrow>
    deleg_step s (set_phase h t (Ph_Sent r) (emit_terminal (tk_id t) (tk_parent t) duration r (dr_c s)) s)"
| Settle: "dr_tasks s h = Some t \<Longrightarrow> tk_phase t = Ph_Sent r \<Longrightarrow>
    deleg_step s (end_task h (settle_task (tk_id t) r (dr_c s)) s)"
| Detached_Begin: "dr_detached s h = Some t \<Longrightarrow> tk_phase t = Ph_Starting \<Longrightarrow>
    begin_task t workspace git now (dr_c s) = (err, c) \<Longrightarrow>
    deleg_step s (s\<lparr>dr_c := c,
      dr_detached := (dr_detached s)(h := if err = None then Some (t\<lparr>tk_phase := Ph_Turn\<rparr>) else None)\<rparr>)"
| Detached_Over: "dr_detached s h = Some t \<Longrightarrow> tk_phase t = Ph_Turn \<Longrightarrow>
    deleg_end True (tk_agent t) (tk_id t) (tk_timeout t) out merge (dr_c s) = (r, c) \<Longrightarrow>
    deleg_step s (s\<lparr>dr_c := c, dr_detached := (dr_detached s)(h := None)\<rparr>)"
| Cancel_Begin: "cancel_begin i (dr_c s) = (Some e, c) \<Longrightarrow>
    deleg_step s (abort_task late (re_handle e) (s\<lparr>dr_c := c, dr_cancels := (i, re_parent e) # dr_cancels s\<rparr>))"
| Cancel_End: "(i, p) \<in> set (dr_cancels s) \<Longrightarrow>
    deleg_step s (s\<lparr>dr_c := cancel_end i p (dr_c s), dr_cancels := remove1 (i, p) (dr_cancels s)\<rparr>)"
| Wake: "dc_events (dr_c s) = e # es \<Longrightarrow> wake now later e ((dr_c s)\<lparr>dc_events := es\<rparr>) = (notice, c) \<Longrightarrow>
    deleg_step s (s\<lparr>dr_c := c\<rparr>)"
| Resume: "dc_checkpoints (dr_c s) i = Some cp \<Longrightarrow> resume_timed_out tick i extra now (dr_c s) = (Inr True, c) \<Longrightarrow>
    deleg_step s (s\<lparr>dr_c := c, dr_next := dr_next s + 1,
      dr_tasks := (dr_tasks s)(dr_next s \<mapsto>
        new_task i (cp_agent cp) (cp_parent cp) (resume_budget extra (cp_timeout cp)) (cp_tools cp) Ph_Recovery),
      dr_inserting := (dr_inserting s)(dr_next s \<mapsto>
        (i, new_entry (dr_next s) (cp_agent cp) (cp_parent cp) (resume_budget extra (cp_timeout cp)) now (cp_tools cp)))\<rparr>)"
| Resume_Refused: "resume_timed_out tick i extra now (dr_c s) = (Inl err, c) \<Longrightarrow> deleg_step s (s\<lparr>dr_c := c\<rparr>)"
| To_Parent: "send_to_parent m (dr_c s) = (ok, c) \<Longrightarrow> deleg_step s (s\<lparr>dr_c := c\<rparr>)"
| To_Sub_Agent: "send_to_sub_agent i mail (dr_c s) = (err, c) \<Longrightarrow> deleg_step s (s\<lparr>dr_c := c\<rparr>)"
| Reconcile: "deleg_step s (s\<lparr>dr_c := reconcile_notice_completed i summary duration (dr_c s)\<rparr>)"
| Other: "p \<in> dc_registered (dr_c s) \<Longrightarrow> \<forall>i. \<not> registers i a \<Longrightarrow> a \<noteq> Restart \<Longrightarrow>
    deleg_step s (s\<lparr>dr_c := (dr_c s)\<lparr>dc_susp := (dc_susp (dr_c s))(p := susp_step a (dc_susp (dr_c s) p))\<rparr>\<rparr>)"
| Open: "dc_parents (dr_c s) p = None \<Longrightarrow> deleg_step s (s\<lparr>dr_c := open_session p (dr_c s)\<rparr>)"
| Switch: "R \<subseteq> dom (dc_parents (dr_c s)) \<Longrightarrow> deleg_step s (s\<lparr>dr_c := switch_to R (dr_c s)\<rparr>)"

text \<open>A daemon that has just wired its coordinator, without checkpoints and with sessions of users only.\<close>

definition deleg_start :: "coord \<Rightarrow> bool" where
  "deleg_start c \<longleftrightarrow> dc_runtime c \<and> dc_wired c \<and> dc_events c = [] \<and> dc_running c = Map.empty \<and> dc_checkpoints c = Map.empty
     \<and> ran (dc_parents c) \<subseteq> {None} \<and> dc_registered c \<subseteq> dom (dc_parents c)
     \<and> (\<forall>p. dc_susp c p = new_context True No_File)"

definition start_run_of :: "coord \<Rightarrow> drun" where
  "start_run_of c = \<lparr>dr_c = c, dr_tasks = Map.empty, dr_detached = Map.empty, dr_inserting = Map.empty, dr_cancels = [], dr_next = 0\<rparr>"

inductive deleg_reach :: "drun \<Rightarrow> bool" where
  deleg_init: "deleg_start c \<Longrightarrow> deleg_reach (start_run_of c)"
| deleg_next: "deleg_reach s \<Longrightarrow> deleg_step s s' \<Longrightarrow> deleg_reach s'"

end
