(* ===== verification/Delegation_Inv.thy ===== *)
theory Delegation_Inv
  imports Delegation_Run
begin

subsection \<open>What the operations keep\<close>

definition pend :: "coord \<Rightarrow> utext \<Rightarrow> utext set" where
  "pend c p = set (pending_of (load_susp c p))"

definition susps_ok :: "coord \<Rightarrow> bool" where
  "susps_ok c \<longleftrightarrow> (\<forall>p. sx_hook (dc_susp c p) \<and> (p \<in> dc_registered c \<longrightarrow> synced (dc_susp c p)))"

definition coord_ok :: "coord \<Rightarrow> bool" where
  "coord_ok c \<longleftrightarrow> dc_wired c \<and> dc_runtime c \<and> susps_ok c \<and> dc_registered c \<subseteq> dom (dc_parents c)
     \<and> (\<forall>p. pend c p \<noteq> {} \<longrightarrow> dc_parents c p \<noteq> None) \<and> dom (dc_checkpoints c) \<subseteq> dom (dc_parents c)"

definition same_entry :: "running_entry \<Rightarrow> running_entry \<Rightarrow> bool" where
  "same_entry e e' \<longleftrightarrow> re_handle e = re_handle e' \<and> re_parent e = re_parent e'"

definition calm :: "coord \<Rightarrow> coord \<Rightarrow> bool" where
  "calm c c' \<longleftrightarrow> coord_ok c' \<and> dom (dc_parents c) \<subseteq> dom (dc_parents c') \<and> set (dc_events c) \<subseteq> set (dc_events c')
     \<and> (\<forall>p. pend c' p \<subseteq> pend c p)
     \<and> (\<forall>i e'. dc_running c' i = Some e' \<longrightarrow> (\<exists>e. dc_running c i = Some e \<and> same_entry e e'))"

lemma same_entry_simps [simp]:
  "same_entry e e" "same_entry e (e\<lparr>re_status := x\<rparr>)" "same_entry e (e\<lparr>re_sent := n\<rparr>)"
  by (simp_all add: same_entry_def)

lemma same_entry_trans: "same_entry e f \<Longrightarrow> same_entry f g \<Longrightarrow> same_entry e g"
  by (simp add: same_entry_def)

lemma calm_refl: "coord_ok c \<Longrightarrow> calm c c"
  by (auto simp: calm_def)

lemma calm_trans: "calm c d \<Longrightarrow> calm d f \<Longrightarrow> calm c f"
  unfolding calm_def by (meson order_trans same_entry_trans)

lemma load_susp_frame:
  "dc_susp d = dc_susp c \<Longrightarrow> dc_registered d = dc_registered c \<Longrightarrow> load_susp d p = load_susp c p"
  by (simp add: load_susp_def)

text \<open>An operation that leaves contexts and registrations alone.\<close>

lemma calmI:
  assumes "coord_ok c" "dc_susp d = dc_susp c" "dc_registered d = dc_registered c" "dc_wired d = dc_wired c"
    "dc_runtime d = dc_runtime c" "dc_parents d = dc_parents c"
    "\<And>i cp. dc_checkpoints d i = Some cp \<Longrightarrow> \<exists>x. dc_parents c i = Some x"
    "set (dc_events c) \<subseteq> set (dc_events d)"
    "\<And>i e'. dc_running d i = Some e' \<Longrightarrow> \<exists>e. dc_running c i = Some e \<and> same_entry e e'"
  shows "calm c d"
proof -
  have p: "pend d p = pend c p" for p
    using load_susp_frame [OF assms(2,3)] by (simp add: pend_def)
  have "dom (dc_checkpoints d) \<subseteq> dom (dc_parents c)" using assms(7) by auto
  with assms show ?thesis by (auto simp: calm_def coord_ok_def susps_ok_def p)
qed

lemma checkpoint_known: "coord_ok c \<Longrightarrow> dc_checkpoints c i = Some cp \<Longrightarrow> \<exists>x. dc_parents c i = Some x"
  by (auto simp: coord_ok_def)

lemma set_checkpoint_dom [simp]: "dom (dc_checkpoints (set_checkpoint_status i x c)) = dom (dc_checkpoints c)"
  by (auto simp: set_checkpoint_status_def split: option.splits)

lemma set_checkpoint_frame [simp]:
  "dc_susp (set_checkpoint_status i x c) = dc_susp c" "dc_registered (set_checkpoint_status i x c) = dc_registered c"
  "dc_wired (set_checkpoint_status i x c) = dc_wired c" "dc_runtime (set_checkpoint_status i x c) = dc_runtime c"
  "dc_parents (set_checkpoint_status i x c) = dc_parents c" "dc_events (set_checkpoint_status i x c) = dc_events c"
  "dc_running (set_checkpoint_status i x c) = dc_running c" "dc_inbox (set_checkpoint_status i x c) = dc_inbox c"
  "dc_agents (set_checkpoint_status i x c) = dc_agents c" "dc_max_depth (set_checkpoint_status i x c) = dc_max_depth c"
  by (auto simp: set_checkpoint_status_def split: option.split)

lemma set_checkpoint_known:
  "dc_checkpoints (set_checkpoint_status i x c) j = Some cp \<Longrightarrow> \<exists>cp. dc_checkpoints c j = Some cp"
  using set_checkpoint_dom [of i x c] by (metis domD domI)

lemma calm_set_checkpoint: "coord_ok c \<Longrightarrow> calm c (set_checkpoint_status i x c)"
  by (rule calmI) (auto dest!: set_checkpoint_known dest: checkpoint_known)

lemma calm_send_event: "coord_ok c \<Longrightarrow> calm c (send_event e c)"
  by (rule calmI) (auto simp: send_event_def dest: checkpoint_known split: if_splits)

lemma calm_begin:
  assumes "coord_ok c" "tk_id t \<in> dom (dc_parents c)" "begin_task t workspace git now c = (err, d)"
  shows "calm c d"
  using assms(3)
  by (intro calmI [OF assms(1)])
    (use assms(2) checkpoint_known [OF assms(1)] in
      \<open>auto simp: begin_task_def deleg_begin_def Let_def split: option.splits if_splits prod.splits\<close>)

lemma deleg_end_frame:
  assumes "deleg_end True a i n out merge c = (r, d)"
  shows "dc_susp d = dc_susp c" "dc_registered d = dc_registered c" "dc_wired d = dc_wired c" "dc_runtime d = dc_runtime c"
    "dc_parents d = dc_parents c" "dc_checkpoints d = dc_checkpoints c" "dc_events d = dc_events c" "dc_running d = dc_running c"
  using assms
  by (auto simp: deleg_end_def Let_def drain_inbox_def take_sent_def should_gc_sub_session_def
      split: merge_outcome.splits option.splits if_splits)

lemma calm_end: "coord_ok c \<Longrightarrow> deleg_end True a i n out merge c = (r, d) \<Longrightarrow> calm c d"
  by (rule calmI) (auto simp: deleg_end_frame dest: checkpoint_known)

lemma calm_settle: "coord_ok c \<Longrightarrow> calm c (settle_task i r c)"
  by (rule calmI)
    (auto simp: settle_task_def settle_checkpoint_def delete_checkpoint_def dest!: set_checkpoint_known dest: checkpoint_known
      split: if_splits)

lemma calm_emit: "coord_ok c \<Longrightarrow> calm c (emit_terminal i p n r c)"
  by (simp add: emit_terminal_def calm_send_event)

lemma calm_cancel_begin:
  assumes "coord_ok c" "cancel_begin i c = (x, d)"
  shows "calm c d"
proof (cases "dc_running c i")
  case None
  with assms show ?thesis by (simp add: cancel_begin_def calm_refl)
next
  case (Some e)
  then have d: "d = set_checkpoint_status i Ds_Cancelled (c\<lparr>dc_running := (dc_running c)(i \<mapsto> e\<lparr>re_status := Ds_Cancelled\<rparr>)\<rparr>)"
    using assms(2) by (simp add: cancel_begin_def)
  show ?thesis
    unfolding d by (rule calmI [OF assms(1)])
      (use Some in \<open>auto dest!: set_checkpoint_known dest: checkpoint_known [OF assms(1)] split: if_splits\<close>)
qed

lemma calm_cancel_end: "coord_ok c \<Longrightarrow> calm c (cancel_end i p c)"
  by (rule calmI) (auto simp: cancel_end_def send_event_def dest: checkpoint_known split: if_splits)

lemma calm_reconcile: "coord_ok c \<Longrightarrow> calm c (reconcile_notice_completed i m n c)"
  by (rule calmI)
    (auto simp: reconcile_notice_completed_def send_event_def dest: checkpoint_known split: if_splits option.splits)

lemma calm_to_parent: "coord_ok c \<Longrightarrow> send_to_parent m c = (ok, d) \<Longrightarrow> calm c d"
  by (rule calmI)
    (auto simp: send_to_parent_def send_event_def dest: checkpoint_known split: if_splits option.splits)

lemma calm_to_sub_agent: "coord_ok c \<Longrightarrow> send_to_sub_agent i m c = (err, d) \<Longrightarrow> calm c d"
  by (rule calmI) (auto simp: send_to_sub_agent_def dest: checkpoint_known split: if_splits option.splits)

subsection \<open>The board of pending tasks\<close>

text \<open>What the coordinator and a restart need of the suspension of a session: tasks are put on its board, and the
  terminal event of a task takes it off.\<close>

locale task_board =
  fixes ok :: "'s \<Rightarrow> bool"
    and pending :: "'s \<Rightarrow> 'i set"
    and arm :: "'t \<Rightarrow> 'i \<Rightarrow> 's \<Rightarrow> 's"
    and collect :: "'x \<Rightarrow> 'i \<Rightarrow> 's \<Rightarrow> 's"
  assumes ok_arm: "ok s \<Longrightarrow> ok (arm t i s)"
    and pending_arm: "pending (arm t i s) = insert i (pending s)"
    and ok_collect: "ok s \<Longrightarrow> ok (collect x i s)"
    and collect_gone: "i \<notin> pending (collect x i s)"
    and collect_sub: "pending (collect x i s) \<subseteq> pending s"
begin

lemma collect_all_ok: "ok s \<Longrightarrow> ok (fold (\<lambda>i. collect (f i) i) ids s)"
  by (induction ids arbitrary: s) (simp_all add: ok_collect)

lemma collect_all: "pending (fold (\<lambda>i. collect (f i) i) ids s) \<subseteq> pending s - set ids"
proof (induction ids arbitrary: s)
  case (Cons i ids)
  from Cons [of "collect (f i) i s"] collect_gone [of i "f i" s] collect_sub [of "f i" i s] show ?case by auto
qed simp

lemma arm_collect: "pending (collect x i (arm t i s)) \<subseteq> pending s"
  using collect_gone [of i x "arm t i s"] collect_sub [of x i "arm t i s"] by (auto simp: pending_arm)

end

lemma terminal_hook: "sx_hook (snd (record_terminal now later j x t n st)) = sx_hook st"
  using hook_kept [of "Terminal now later j x t n" st] by simp

lemma terminal_over: "j \<notin> set (pending_of (snd (record_terminal now later j x t n st)))"
proof (cases "fst (record_terminal now later j x t n st) \<in> {Term_Duplicate, Term_No_Suspension}")
  case True
  then have "j \<notin> set (pending_of st)"
    by (auto simp: record_terminal_def Let_def currently_pending_iff [symmetric] currently_pending_def split: option.splits if_splits)
  then show ?thesis using terminal_pending [of now later j x t n st] by (auto split: if_splits)
qed (simp add: terminal_pending)

text \<open>A report: two readings of the clock, the status, the text and the number of messages sent.\<close>

type_synonym report = "nat \<times> nat \<times> sub_status \<times> utext \<times> nat"

definition collect_report :: "report \<Rightarrow> utext \<Rightarrow> susp_state \<Rightarrow> susp_state" where
  "collect_report = (\<lambda>(now, later, status, content, sent) i st. snd (record_terminal now later i status content sent st))"

definition susp_ok :: "susp_state \<Rightarrow> bool" where
  "susp_ok st \<longleftrightarrow> sx_hook st \<and> synced st"

interpretation board: task_board susp_ok "\<lambda>st. set (pending_of st)" add_pending_task collect_report
proof unfold_locales
  fix st t i
  show "susp_ok st \<Longrightarrow> susp_ok (add_pending_task t i st)"
    using hook_kept [of "Add_Pending t i" st] step_synced [of st "Add_Pending t i"] by (simp add: susp_ok_def)
  show "set (pending_of (add_pending_task t i st)) = insert i (set (pending_of st))"
    by (auto simp: susp_defs pending_of_def split: option.split)
next
  fix st x i
  show "susp_ok st \<Longrightarrow> susp_ok (collect_report x i st)"
    by (simp add: susp_ok_def collect_report_def terminal_hook terminal_synced split: prod.split)
  show "i \<notin> set (pending_of (collect_report x i st))"
    by (simp add: collect_report_def terminal_over split: prod.split)
  show "set (pending_of (collect_report x i st)) \<subseteq> set (pending_of st)"
    using terminal_pending by (auto simp: collect_report_def split: prod.splits if_splits)
qed

subsection \<open>Contexts\<close>

lemma fresh_susp_ok:
  assumes "sx_hook st"
  shows "sx_hook (fresh_susp st)" "synced (fresh_susp st)"
  using assms by (simp_all add: fresh_susp_def new_context_def synced_def)

lemma fresh_susp_pending: "synced st \<Longrightarrow> pending_of (fresh_susp st) = pending_of st"
  using restart_suspension [of st] by (simp add: fresh_susp_def pending_of_def)

lemma load_susp_ok:
  assumes "susps_ok c"
  shows "sx_hook (load_susp c p)" "synced (load_susp c p)"
  using assms fresh_susp_ok [of "dc_susp c p"] by (auto simp: load_susp_def susps_ok_def)

lemma store_susp_frame [simp]:
  "dc_registered (store_susp p st c) = dc_registered c" "dc_wired (store_susp p st c) = dc_wired c"
  "dc_runtime (store_susp p st c) = dc_runtime c" "dc_parents (store_susp p st c) = dc_parents c"
  "dc_checkpoints (store_susp p st c) = dc_checkpoints c" "dc_events (store_susp p st c) = dc_events c"
  "dc_running (store_susp p st c) = dc_running c" "q \<noteq> p \<Longrightarrow> dc_susp (store_susp p st c) q = dc_susp c q"
  by (simp_all add: store_susp_def)

lemma store_susps_ok: "susps_ok c \<Longrightarrow> sx_hook st \<Longrightarrow> synced st \<Longrightarrow> susps_ok (store_susp p st c)"
  by (simp add: susps_ok_def store_susp_def)

lemma pend_store:
  assumes "susps_ok c" "sx_hook st" "synced st"
  shows "pend (store_susp p st c) q = (if q = p then set (pending_of st) else pend c q)"
proof -
  have "pending_of (fresh_susp ((dc_susp c p)\<lparr>sx_file := sx_file st\<rparr>)) = pending_of st"
    using assms by (simp add: fresh_susp_def new_context_def pending_of_def synced_def susps_ok_def)
  then show ?thesis by (simp add: pend_def load_susp_def store_susp_def)
qed

lemma calm_store:
  assumes "coord_ok c" "sx_hook st" "synced st" "set (pending_of st) \<subseteq> pend c p"
  shows "calm c (store_susp p st c)"
proof -
  have s: "susps_ok c" using assms(1) by (simp add: coord_ok_def)
  have sub: "pend (store_susp p st c) q \<subseteq> pend c q" for q
    using assms(4) by (simp add: pend_store [OF s assms(2,3)])
  then show ?thesis
    using assms(1) by (fastforce simp: calm_def coord_ok_def store_susps_ok [OF s assms(2,3)])
qed

definition event_terminal :: "deleg_event \<Rightarrow> (utext \<times> utext) option" where
  "event_terminal e = (case e of
       Ev_Completed i p _ _ _ \<Rightarrow> Some (i, p) | Ev_Failed i p _ \<Rightarrow> Some (i, p) | Ev_Timed_Out i p _ _ \<Rightarrow> Some (i, p)
     | Ev_Message _ \<Rightarrow> None)"

lemma event_terminal_parts: "event_terminal e = (if np_status (event_parts e) = None then None else Some (np_sub (event_parts e), np_parent (event_parts e)))"
  by (cases e) (simp_all add: event_terminal_def)

lemma wake_terminal_calm:
  assumes "coord_ok c" "wake_terminal now later n x c = (notice, d)"
  shows "calm c d" "context_known c (np_parent n) \<Longrightarrow> np_sub n \<notin> pend d (np_parent n)"
proof -
  let ?p = "np_parent n"
  let ?st = "snd (record_terminal now later (np_sub n) x (np_content n) (np_sent n) (load_susp c ?p))"
  have s: "susps_ok c" using assms(1) by (simp add: coord_ok_def)
  have r: "?st = collect_report (now, later, x, np_content n, np_sent n) (np_sub n) (load_susp c ?p)"
    by (simp add: collect_report_def)
  have st: "sx_hook ?st" "synced ?st"
    using load_susp_ok [OF s, of ?p] board.ok_collect unfolding r by (simp_all add: susp_ok_def)
  have sub: "set (pending_of ?st) \<subseteq> pend c ?p" unfolding r pend_def by (rule board.collect_sub)
  have d: "d = (if context_known c ?p then store_susp ?p ?st c else c)"
    using assms(2) by (auto simp: wake_terminal_def Let_def split: prod.splits if_splits)
  show "calm c d" using calm_store [OF assms(1) st sub] calm_refl [OF assms(1)] d by simp
  assume "context_known c ?p"
  then show "np_sub n \<notin> pend d ?p" using d pend_store [OF s st, of ?p ?p] board.collect_gone [of "np_sub n"] unfolding r by simp
qed

lemma wake_calm:
  assumes "coord_ok c" "wake now later e c = (notice, d)"
  shows "calm c d" "event_terminal e = Some (i, p) \<Longrightarrow> context_known c p \<Longrightarrow> i \<notin> pend d p"
proof -
  have s: "susps_ok c" using assms(1) by (simp add: coord_ok_def)
  have n: "(event_parts e) = n \<Longrightarrow> np_status n = Some x \<Longrightarrow> wake_terminal now later n x c = (notice, d)" for n x
    using assms(2) by (cases e) (auto simp: wake_def is_progress_def Let_def)
  have m: "np_status (event_parts e) = None \<Longrightarrow> calm c d"
  proof (cases "is_progress e")
    case True
    assume "np_status (event_parts e) = None"
    then obtain m where e: "e = Ev_Message m" by (cases e) auto
    let ?p = "am_parent m"
    let ?st = "add_progress (am_sub m) (am_text m) (dc_susp c ?p)"
    have r: "calm c (c\<lparr>dc_susp := (dc_susp c)(?p := ?st)\<rparr>)" if r: "?p \<in> dc_registered c"
    proof -
      have h: "sx_hook ?st" "synced ?st"
        using s r hook_kept [of "Add_Progress (am_sub m) (am_text m)" "dc_susp c ?p"]
          step_synced [of "dc_susp c ?p" "Add_Progress (am_sub m) (am_text m)"] by (simp_all add: susps_ok_def)
      have "set (pending_of ?st) \<subseteq> pend c ?p"
        using r by (auto simp: pend_def load_susp_def susp_defs pending_of_def split: option.splits)
      from calm_store [OF assms(1) h this] r show ?thesis by (simp add: store_susp_def)
    qed
    from assms(2) True show ?thesis
      using calm_refl [OF assms(1)] by (auto simp: wake_def e r split: if_splits)
  next
    case False
    assume "np_status (event_parts e) = None"
    with False assms(2) show ?thesis using calm_refl [OF assms(1)] by (auto simp: wake_def Let_def)
  qed
  show "calm c d"
  proof (cases "np_status (event_parts e)")
    case None
    then show ?thesis by (rule m)
  next
    case (Some x)
    then show ?thesis using n [OF refl Some] wake_terminal_calm(1) [OF assms(1)] by blast
  qed
  show "event_terminal e = Some (i, p) \<Longrightarrow> context_known c p \<Longrightarrow> i \<notin> pend d p"
    using n [OF refl] wake_terminal_calm(2) [OF assms(1)] by (fastforce simp: event_terminal_parts split: if_splits)
qed

subsection \<open>The invariant\<close>

primrec awaiting :: "deleg_phase \<Rightarrow> bool" where
  "awaiting Ph_Starting = True"
| "awaiting Ph_Turn = True"
| "awaiting Ph_Recovery = True"
| "awaiting (Ph_Result r) = True"
| "awaiting (Ph_Sent r) = False"

definition answer_coming :: "drun \<Rightarrow> utext \<Rightarrow> utext \<Rightarrow> bool" where
  "answer_coming s i p \<longleftrightarrow>
     (\<exists>h t. dr_tasks s h = Some t \<and> tk_id t = i \<and> tk_parent t = p \<and> awaiting (tk_phase t))
     \<or> (\<exists>e \<in> set (dc_events (dr_c s)). event_terminal e = Some (i, p))
     \<or> (i, p) \<in> set (dr_cancels s)"

definition tasks_ok :: "drun \<Rightarrow> bool" where
  "tasks_ok s \<longleftrightarrow> (\<forall>h t. dr_tasks s h = Some t \<or> dr_detached s h = Some t \<longrightarrow>
     h < dr_next s \<and> tk_id t \<in> dom (dc_parents (dr_c s)))"

definition entry_ok :: "drun \<Rightarrow> utext \<Rightarrow> running_entry \<Rightarrow> bool" where
  "entry_ok s i e \<longleftrightarrow> re_handle e < dr_next s
     \<and> (\<forall>t. dr_tasks s (re_handle e) = Some t \<longrightarrow> tk_id t = i \<and> tk_parent t = re_parent e)"

definition entries_ok :: "drun \<Rightarrow> bool" where
  "entries_ok s \<longleftrightarrow> (\<forall>i e. dc_running (dr_c s) i = Some e \<longrightarrow> entry_ok s i e)
     \<and> (\<forall>h i e. dr_inserting s h = Some (i, e) \<longrightarrow> entry_ok s i e)"

definition deleg_inv :: "drun \<Rightarrow> bool" where
  "deleg_inv s \<longleftrightarrow> coord_ok (dr_c s) \<and> tasks_ok s \<and> entries_ok s
     \<and> (\<forall>p. \<forall>i \<in> pend (dr_c s) p. answer_coming s i p)"

lemma deleg_invD:
  assumes "deleg_inv s"
  shows "coord_ok (dr_c s)" "tasks_ok s" "entries_ok s" "i \<in> pend (dr_c s) p \<Longrightarrow> answer_coming s i p"
  using assms by (auto simp: deleg_inv_def)

text \<open>A step that changes the coordinator calmly, and tasks only so that every answer still comes.\<close>

lemma calm_step:
  assumes "deleg_inv s" "calm (dr_c s) (dr_c s')" "dr_next s' = dr_next s"
    and task: "\<And>h t'. dr_tasks s' h = Some t' \<Longrightarrow> \<exists>t. dr_tasks s h = Some t \<and> tk_id t = tk_id t' \<and> tk_parent t = tk_parent t'"
    and detached: "\<And>h t'. dr_detached s' h = Some t' \<Longrightarrow>
      \<exists>t. (dr_tasks s h = Some t \<or> dr_detached s h = Some t) \<and> tk_id t = tk_id t'"
    and inserting: "\<And>h x. dr_inserting s' h = Some x \<Longrightarrow> dr_inserting s h = Some x"
    and coming: "\<And>i p. i \<in> pend (dr_c s') p \<Longrightarrow> answer_coming s i p \<Longrightarrow> answer_coming s' i p"
  shows "deleg_inv s'"
proof -
  note inv = deleg_invD [OF assms(1)]
  note c = assms(2) [unfolded calm_def]
  have entry: "entry_ok s' i e'" if "entry_ok s i e" "same_entry e e'" for i e e'
    using that task by (fastforce simp: entry_ok_def same_entry_def assms(3))
  have "tasks_ok s'" unfolding tasks_ok_def
  proof (intro allI impI)
    fix h t' assume "dr_tasks s' h = Some t' \<or> dr_detached s' h = Some t'"
    then obtain t where "dr_tasks s h = Some t \<or> dr_detached s h = Some t" "tk_id t = tk_id t'"
      using task detached by blast
    with inv(2) c show "h < dr_next s' \<and> tk_id t' \<in> dom (dc_parents (dr_c s'))"
      by (metis assms(3) subsetD tasks_ok_def)
  qed
  moreover have "entries_ok s'"
    unfolding entries_ok_def
  proof (intro conjI allI impI)
    fix i e' assume "dc_running (dr_c s') i = Some e'"
    then obtain e where "dc_running (dr_c s) i = Some e" "same_entry e e'" using c by blast
    moreover from this(1) have "entry_ok s i e" using inv(3) by (auto simp: entries_ok_def)
    ultimately show "entry_ok s' i e'" by (intro entry)
  next
    fix h i e assume "dr_inserting s' h = Some (i, e)"
    then have "dr_inserting s h = Some (i, e)" by (rule inserting)
    then have "entry_ok s i e" using inv(3) by (auto simp: entries_ok_def)
    then show "entry_ok s' i e" by (rule entry) simp
  qed
  moreover have "\<forall>p. \<forall>i \<in> pend (dr_c s') p. answer_coming s' i p"
    using inv(4) c coming by blast
  ultimately show ?thesis using c by (simp add: deleg_inv_def)
qed

lemma coming_mono:
  assumes "answer_coming s i p" "set (dc_events (dr_c s)) \<subseteq> set (dc_events (dr_c s'))" "set (dr_cancels s) \<subseteq> set (dr_cancels s')"
    "\<And>h t. dr_tasks s h = Some t \<Longrightarrow> awaiting (tk_phase t) \<Longrightarrow> tk_id t = i \<Longrightarrow> tk_parent t = p \<Longrightarrow> answer_coming s' i p"
  shows "answer_coming s' i p"
  using assms by (auto simp: answer_coming_def)

lemma calm_only:
  assumes "deleg_inv s" "calm (dr_c s) c"
  shows "deleg_inv (s\<lparr>dr_c := c\<rparr>)"
  using assms(2)
  by (intro calm_step [OF assms(1)]) (auto simp: answer_coming_def calm_def)

lemma set_phase_inv:
  assumes "deleg_inv s" "dr_tasks s h = Some t" "calm (dr_c s) c"
    "awaiting ph \<or> (\<exists>e \<in> set (dc_events c). event_terminal e = Some (tk_id t, tk_parent t))"
  shows "deleg_inv (set_phase h t ph c s)"
proof (rule calm_step [OF assms(1)])
  fix i p assume a: "answer_coming s i p"
  show "answer_coming (set_phase h t ph c s) i p"
  proof (rule coming_mono [OF a])
    fix h' t' assume t: "dr_tasks s h' = Some t'" "awaiting (tk_phase t')" "tk_id t' = i" "tk_parent t' = p"
    show "answer_coming (set_phase h t ph c s) i p"
    proof (cases "h' = h")
      case True
      with t assms(2) have "t' = t" by simp
      with t assms(4) show ?thesis
      proof (elim disjE)
        assume "awaiting ph"
        with t \<open>t' = t\<close> show ?thesis unfolding answer_coming_def set_phase_def
          by (intro disjI1 exI [of _ h] exI [of _ "t\<lparr>tk_phase := ph\<rparr>"]) simp
      qed (auto simp: answer_coming_def set_phase_def)
    next
      case False
      with t show ?thesis unfolding answer_coming_def set_phase_def
        by (intro disjI1 exI [of _ h'] exI [of _ t']) simp
    qed
  qed (use assms(3) in \<open>auto simp: set_phase_def calm_def\<close>)
qed (use assms(2,3) in \<open>auto simp: set_phase_def calm_def split: if_splits\<close>)

lemma abort_frame [simp]:
  "dr_c (abort_task late h s) = dr_c s" "dr_next (abort_task late h s) = dr_next s"
  "dr_inserting (abort_task late h s) = dr_inserting s" "dr_cancels (abort_task late h s) = dr_cancels s"
  by (auto simp: abort_task_def Let_def split: option.split deleg_phase.split)

lemma abort_tasks:
  assumes "dr_tasks (abort_task late h s) h' = Some t"
  shows "dr_tasks s h' = Some t"
  using assms by (auto simp: abort_task_def Let_def split: option.splits deleg_phase.splits if_splits)

lemma abort_others: "h' \<noteq> h \<Longrightarrow> dr_tasks (abort_task late h s) h' = dr_tasks s h'"
  by (auto simp: abort_task_def Let_def split: option.splits deleg_phase.splits)

lemma abort_detached:
  "dr_detached (abort_task late h s) h' = Some t \<Longrightarrow> dr_tasks s h' = Some t \<or> dr_detached s h' = Some t"
  by (auto simp: abort_task_def Let_def split: option.splits deleg_phase.splits if_splits)

text \<open>A new task, with the pending entry of its parent.\<close>

lemma new_task_inv:
  assumes "deleg_inv s" "coord_ok c"
    and "dom (dc_parents (dr_c s)) \<subseteq> dom (dc_parents c)" "set (dc_events (dr_c s)) \<subseteq> set (dc_events c)"
    and pending: "\<And>j p. j \<in> pend c p \<Longrightarrow> j \<in> pend (dr_c s) p \<or> j = tk_id t \<and> p = tk_parent t"
    and running: "\<And>j e. dc_running c j = Some e \<Longrightarrow>
      dc_running (dr_c s) j = Some e \<or> j = tk_id t \<and> re_handle e = dr_next s \<and> re_parent e = tk_parent t"
    and "awaiting (tk_phase t)" "tk_id t \<in> dom (dc_parents c)"
    and "J = dr_inserting s \<or> (\<exists>e. J = (dr_inserting s)(dr_next s \<mapsto> (tk_id t, e)) \<and> re_handle e = dr_next s \<and> re_parent e = tk_parent t)"
  shows "deleg_inv (s\<lparr>dr_c := c, dr_next := dr_next s + 1, dr_tasks := (dr_tasks s)(dr_next s \<mapsto> t), dr_inserting := J\<rparr>)" (is "deleg_inv ?s")
proof -
  note inv = deleg_invD [OF assms(1)]
  have old: "entry_ok ?s j e" if "entry_ok s j e" for j e using that by (auto simp: entry_ok_def)
  have new: "entry_ok ?s (tk_id t) e" if "re_handle e = dr_next s" "re_parent e = tk_parent t" for e
    using that by (simp add: entry_ok_def)
  have "tasks_ok ?s" using inv(2) assms(3,8) unfolding tasks_ok_def by (fastforce split: if_splits)
  moreover have "entries_ok ?s"
    unfolding entries_ok_def
  proof (intro conjI allI impI)
    fix j e assume "dc_running (dr_c ?s) j = Some e"
    then show "entry_ok ?s j e" using running [of j e] inv(3) old new by (auto simp: entries_ok_def)
  next
    fix h j e assume "dr_inserting ?s h = Some (j, e)"
    then show "entry_ok ?s j e" using assms(9) inv(3) old new by (auto simp: entries_ok_def split: if_splits)
  qed
  moreover have "answer_coming ?s j p" if "j \<in> pend (dr_c ?s) p" for j p
  proof -
    from that have "j \<in> pend (dr_c s) p \<or> j = tk_id t \<and> p = tk_parent t" by (intro pending) simp
    then show ?thesis
  proof (elim disjE)
    assume "j \<in> pend (dr_c s) p"
    with inv(4) have a: "answer_coming s j p" by blast
    show ?thesis
    proof (rule coming_mono [OF a])
      fix h t' assume t: "dr_tasks s h = Some t'" "awaiting (tk_phase t')" "tk_id t' = j" "tk_parent t' = p"
      then have "h \<noteq> dr_next s" using inv(2) by (auto simp: tasks_ok_def)
      with t show "answer_coming ?s j p" by (auto simp: answer_coming_def)
    qed (use assms(4) in auto)
  next
    assume "j = tk_id t \<and> p = tk_parent t"
    then show ?thesis using assms(7) unfolding answer_coming_def
      by (intro disjI1 exI [of _ "dr_next s"] exI [of _ t]) simp
  qed
  qed
  ultimately show ?thesis using assms(2) by (simp add: deleg_inv_def)
qed

text \<open>Arming a parent.\<close>

lemma store_pending:
  assumes "coord_ok c" "dc_parents c p \<noteq> None"
    and d_def: "d = store_susp p (add_pending_task tick i (load_susp c p)) c"
  shows "coord_ok d" "j \<in> pend d q \<longleftrightarrow> j \<in> pend c q \<or> j = i \<and> q = p"
proof -
  have s: "susps_ok c" using assms(1) by (simp add: coord_ok_def)
  have st: "sx_hook (add_pending_task tick i (load_susp c p))" "synced (add_pending_task tick i (load_susp c p))"
    using board.ok_arm [of "load_susp c p" tick i] load_susp_ok [OF s, of p] by (simp_all add: susp_ok_def)
  show p: "j \<in> pend d q \<longleftrightarrow> j \<in> pend c q \<or> j = i \<and> q = p" for j q
    unfolding d_def pend_store [OF s st(1,2)] board.pending_arm by (auto simp: pend_def)
  have "pend d q \<noteq> {} \<longrightarrow> dc_parents d q \<noteq> None" for q
    using p assms(1,2) by (fastforce simp: coord_ok_def d_def)
  then show "coord_ok d" using assms(1) store_susps_ok [OF s st(1,2)] by (auto simp: coord_ok_def d_def)
qed

text \<open>A new session, of a user or a sub-agent.\<close>

lemma new_session:
  assumes "coord_ok c" "dc_parents c i = None"
    and d_def: "d = c\<lparr>dc_parents := (dc_parents c)(i \<mapsto> x), dc_susp := (dc_susp c)(i := new_context True No_File)\<rparr>"
  shows "coord_ok d" "pend d p = pend c p"
proof -
  have i: "i \<notin> dc_registered c" "pend c i = {}" using assms(1,2) by (auto simp: coord_ok_def)
  then show p: "pend d p = pend c p" for p
    by (simp add: d_def pend_def load_susp_def fresh_susp_def new_context_def pending_of_def restore_field_def)
  have "susps_ok d" using assms(1) i by (auto simp: coord_ok_def susps_ok_def d_def new_context_def)
  then show "coord_ok d" using assms(1) unfolding coord_ok_def p by (auto simp: d_def)
qed

lemma spawn_inv:
  assumes "deleg_inv s" "dc_parents (dr_c s) i = None" "spawn_async tick agent parent i (dr_c s) = Inr c"
  shows "deleg_inv (s\<lparr>dr_c := c, dr_next := dr_next s + 1,
      dr_tasks := (dr_tasks s)(dr_next s \<mapsto> new_task i agent parent timeout tools Ph_Starting),
      dr_inserting := (dr_inserting s)(dr_next s \<mapsto> (i, new_entry (dr_next s) agent parent timeout now tools))\<rparr>)"
proof -
  note inv = deleg_invD [OF assms(1)]
  define d where "d = (dr_c s)\<lparr>dc_parents := (dc_parents (dr_c s))(i \<mapsto> Some parent), dc_susp := (dc_susp (dr_c s))(i := new_context True No_File)\<rparr>"
  note d = new_session [OF inv(1) assms(2) d_def]
  from assms(3) have parent: "dc_parents (dr_c s) parent \<noteq> None"
    and c: "c = (register_pending tick parent i d)\<lparr>dc_mailboxes := insert i (dc_mailboxes (register_pending tick parent i d)),
         dc_inbox := (dc_inbox (register_pending tick parent i d))(i \<mapsto> [])\<rparr>"
    by (auto simp: spawn_async_def Let_def d_def split: if_splits option.splits)
  then have dp: "dc_parents d parent \<noteq> None" by (simp add: d_def)
  define f where "f = register_pending tick parent i d"
  have f: "f = (if parent \<in> dc_registered d then store_susp parent (add_pending_task tick i (load_susp d parent)) d else d)"
    by (simp add: f_def register_pending_def store_susp_def load_susp_def)
  have same: "coord_ok c = coord_ok f" "pend c p = pend f p" "dc_parents c = dc_parents f" "dc_events c = dc_events f"
    "dc_running c = dc_running f" for p
    by (simp_all add: c f_def [symmetric] coord_ok_def susps_ok_def pend_def load_susp_def)
  have pf: "j \<in> pend f p \<Longrightarrow> j \<in> pend (dr_c s) p \<or> j = i \<and> p = parent" for j p
    using store_pending(2) [OF d(1) dp refl] d(2) by (auto simp: f split: if_splits)
  have ok: "coord_ok c" using store_pending(1) [OF d(1) dp refl] d(1) by (simp add: same f)
  have frame: "dc_running f = dc_running (dr_c s)" "dc_events f = dc_events (dr_c s)"
    "dc_parents f = (dc_parents (dr_c s))(i \<mapsto> Some parent)"
    by (simp_all add: f d_def store_susp_def)
  show ?thesis
    by (rule new_task_inv [OF assms(1) ok])
      (use pf in \<open>auto simp: same frame new_task_def new_entry_def\<close>)
qed

lemma resume_inv:
  assumes "deleg_inv s" "dc_checkpoints (dr_c s) i = Some cp"
    and "resume_timed_out tick i extra now (dr_c s) = (Inr True, c)"
  shows "deleg_inv (s\<lparr>dr_c := c, dr_next := dr_next s + 1,
      dr_tasks := (dr_tasks s)(dr_next s \<mapsto>
        new_task i (cp_agent cp) (cp_parent cp) (resume_budget extra (cp_timeout cp)) (cp_tools cp) Ph_Recovery),
      dr_inserting := (dr_inserting s)(dr_next s \<mapsto>
        (i, new_entry (dr_next s) (cp_agent cp) (cp_parent cp) (resume_budget extra (cp_timeout cp)) now (cp_tools cp)))\<rparr>)"
proof -
  note inv = deleg_invD [OF assms(1)]
  let ?p = "cp_parent cp"
  define d where "d = store_susp ?p (add_pending_task tick i (load_susp (dr_c s) ?p)) (dr_c s)"
  have parent: "dc_parents (dr_c s) ?p \<noteq> None" and sub: "dc_parents d i \<noteq> None"
    using assms(2,3) inv(1) by (auto simp: resume_timed_out_def Let_def d_def coord_ok_def split: if_splits)
  note d = store_pending [OF inv(1) parent d_def]
  have run: "dc_running (dr_c s) i = None" "cp_status cp = status_str Ds_Timed_Out"
    using assms(2,3) by (auto simp: resume_timed_out_def split: if_splits)
  define f where "f = d\<lparr>dc_checkpoints := (dc_checkpoints d)(i \<mapsto> resumed_checkpoint extra now i cp), dc_susp := (dc_susp d)(i := fresh_susp (dc_susp d i))\<rparr>"
  have c: "recover_async i f = (True, c)"
    using assms(2,3) run parent sub
    by (auto simp: resume_timed_out_def Let_def d_def [symmetric] f_def split: if_splits prod.splits)
  have hook: "sx_hook (dc_susp d i)" using d(1) by (simp add: coord_ok_def susps_ok_def)
  have pf: "pend f p = pend d p" for p
  proof -
    have "pending_of (fresh_susp (fresh_susp st)) = pending_of (fresh_susp st)" if "sx_hook st" for st
      using fresh_susp_pending [OF fresh_susp_ok(2) [OF that]] .
    moreover have "i \<in> dc_registered d \<Longrightarrow> synced (dc_susp d i)" using d(1) by (simp add: coord_ok_def susps_ok_def)
    ultimately show ?thesis using hook fresh_susp_pending by (simp add: pend_def load_susp_def f_def)
  qed
  have "susps_ok f" using d(1) fresh_susp_ok [OF hook] by (auto simp: coord_ok_def susps_ok_def f_def)
  then have okf: "coord_ok f" using d(1) sub unfolding coord_ok_def pf by (auto simp: f_def)
  have c': "c = f\<lparr>dc_mailboxes := insert i (dc_mailboxes f), dc_inbox := (dc_inbox f)(i \<mapsto> [])\<rparr>"
    using c by (simp add: recover_async_def Let_def split: if_splits)
  have same: "coord_ok c = coord_ok f" "pend c p = pend f p" "dc_parents c = dc_parents f" "dc_events c = dc_events f"
    "dc_running c = dc_running f" for p
    by (simp_all add: c' coord_ok_def susps_ok_def pend_def load_susp_def)
  have frame: "dc_running f = dc_running (dr_c s)" "dc_events f = dc_events (dr_c s)" "dc_parents f = dc_parents (dr_c s)"
    by (simp_all add: f_def d_def store_susp_def)
  show ?thesis
    by (rule new_task_inv [OF assms(1)])
      (use okf sub d(2) in \<open>auto simp: same frame pf new_task_def new_entry_def d_def split: if_splits\<close>)
qed

lemma resume_refused_calm:
  assumes "coord_ok c" "resume_timed_out tick i extra now c = (Inl err, d)"
  shows "d = c"
  using assms checkpoint_known [OF assms(1), of i]
  by (auto simp: resume_timed_out_def Let_def split: option.splits if_splits prod.splits)

lemma other_calm:
  assumes "coord_ok c" "p \<in> dc_registered c" "\<forall>i. \<not> registers i a" "a \<noteq> Restart"
  shows "calm c (c\<lparr>dc_susp := (dc_susp c)(p := susp_step a (dc_susp c p))\<rparr>)"
proof -
  let ?st = "susp_step a (dc_susp c p)"
  have "sx_hook ?st" "synced ?st" using assms(1,2) step_synced by (auto simp: coord_ok_def susps_ok_def)
  moreover have "set (pending_of ?st) \<subseteq> pend c p"
    using assms(2-4) step_not_pending [of _ a "dc_susp c p"] by (auto simp: pend_def load_susp_def)
  ultimately have "calm c (store_susp p ?st c)" by (intro calm_store assms(1)) (use assms(1) in \<open>auto simp: coord_ok_def susps_ok_def\<close>)
  with assms(2) show ?thesis by (simp add: store_susp_def)
qed

lemma open_calm:
  assumes "coord_ok c" "dc_parents c p = None"
  shows "calm c (open_session p c)"
  using new_session [OF assms, of _ None] unfolding calm_def open_session_def by auto

lemma switch_calm:
  assumes "coord_ok c" "R \<subseteq> dom (dc_parents c)"
  shows "calm c (switch_to R c)"
proof -
  have h: "sx_hook (dc_susp c p)" "p \<in> dc_registered c \<Longrightarrow> synced (dc_susp c p)" for p
    using assms(1) by (auto simp: coord_ok_def susps_ok_def)
  have p: "pend (switch_to R c) p = pend c p" for p
    using h [of p] fresh_susp_pending by (simp add: pend_def load_susp_def switch_to_def)
  have "susps_ok (switch_to R c)" using h fresh_susp_ok by (auto simp: susps_ok_def switch_to_def)
  with assms have "coord_ok (switch_to R c)" unfolding coord_ok_def p by (auto simp: switch_to_def)
  then show ?thesis unfolding calm_def p by (auto simp: switch_to_def)
qed

lemma cancel_begin_entry: "cancel_begin i c = (Some e, d) \<Longrightarrow> dc_running c i = Some e"
  by (auto simp: cancel_begin_def split: option.splits)

lemma cancel_inv:
  assumes "deleg_inv s" "cancel_begin i (dr_c s) = (Some e, c)"
  shows "deleg_inv (abort_task late (re_handle e) (s\<lparr>dr_c := c, dr_cancels := (i, re_parent e) # dr_cancels s\<rparr>))"
    (is "deleg_inv (abort_task late _ ?s)")
proof -
  note inv = deleg_invD [OF assms(1)]
  have e: "entry_ok s i e" using inv(3) cancel_begin_entry [OF assms(2)] by (auto simp: entries_ok_def)
  have c: "calm (dr_c s) c" using calm_cancel_begin [OF inv(1) assms(2)] .
  show ?thesis
  proof (rule calm_step [OF assms(1)])
    fix j p assume a: "answer_coming s j p"
    show "answer_coming (abort_task late (re_handle e) ?s) j p"
    proof (rule coming_mono [OF a])
      fix h t assume t: "dr_tasks s h = Some t" "awaiting (tk_phase t)" "tk_id t = j" "tk_parent t = p"
      show "answer_coming (abort_task late (re_handle e) ?s) j p"
      proof (cases "h = re_handle e")
        case True
        with t e show ?thesis by (auto simp: answer_coming_def entry_ok_def)
      next
        case False
        from t abort_others [OF this, of late ?s] show ?thesis unfolding answer_coming_def
          by (intro disjI1 exI [of _ h] exI [of _ t]) simp
      qed
    qed (use c in \<open>auto simp: calm_def\<close>)
  qed (use c in \<open>auto dest!: abort_tasks abort_detached\<close>)
qed

lemma wake_inv:
  assumes "deleg_inv s" "dc_events (dr_c s) = e # es" "wake now later e ((dr_c s)\<lparr>dc_events := es\<rparr>) = (notice, c)"
  shows "deleg_inv (s\<lparr>dr_c := c\<rparr>)"
proof -
  note inv = deleg_invD [OF assms(1)]
  let ?c = "(dr_c s)\<lparr>dc_events := es\<rparr>"
  have pe: "pend ?c p = pend (dr_c s) p" for p by (simp add: pend_def load_susp_def)
  have ok: "coord_ok ?c" using inv(1) unfolding coord_ok_def pe by (simp add: susps_ok_def)
  note w = wake_calm [OF ok assms(3)]
  have tasks: "tasks_ok (s\<lparr>dr_c := c\<rparr>)" using inv(2) w(1) by (auto simp: tasks_ok_def calm_def subset_iff)
  have entries: "entries_ok (s\<lparr>dr_c := c\<rparr>)"
    unfolding entries_ok_def
  proof (intro conjI allI impI)
    fix i x assume "dc_running (dr_c (s\<lparr>dr_c := c\<rparr>)) i = Some x"
    then have "\<exists>y. dc_running (dr_c s) i = Some y \<and> same_entry y x" using w(1) by (simp add: calm_def)
    then obtain y where "dc_running (dr_c s) i = Some y" "same_entry y x" by blast
    moreover from this(1) have "entry_ok s i y" using inv(3) by (auto simp: entries_ok_def)
    ultimately show "entry_ok (s\<lparr>dr_c := c\<rparr>) i x" by (simp add: entry_ok_def same_entry_def)
  next
    fix h i x assume "dr_inserting (s\<lparr>dr_c := c\<rparr>) h = Some (i, x)"
    then have "entry_ok s i x" using inv(3) by (auto simp: entries_ok_def)
    then show "entry_ok (s\<lparr>dr_c := c\<rparr>) i x" by (simp add: entry_ok_def)
  qed
  have "answer_coming (s\<lparr>dr_c := c\<rparr>) i p" if i: "i \<in> pend c p" for i p
  proof -
    have old: "i \<in> pend (dr_c s) p" using i w(1) pe [of p] unfolding calm_def by blast
    then have "context_known ?c p" using inv(1) by (auto simp: coord_ok_def context_known_def)
    then have "event_terminal e \<noteq> Some (i, p)" using w(2) [of i p] i by auto
    moreover have "answer_coming s i p" using old inv(4) by blast
    moreover have "set es \<subseteq> set (dc_events c)" using w(1) by (simp add: calm_def)
    ultimately show ?thesis using assms(2) by (auto simp: answer_coming_def)
  qed
  with tasks entries w(1) show ?thesis by (simp add: deleg_inv_def calm_def)
qed

lemma emitted: "dc_wired c \<Longrightarrow> \<exists>e \<in> set (dc_events (emit_terminal i p n r c)). event_terminal e = Some (i, p)"
  by (simp add: emit_terminal_def send_event_def terminal_event_def event_terminal_def split: sum.split deleg_error.split)

lemma cancel_emitted: "dc_wired c \<Longrightarrow> \<exists>e \<in> set (dc_events (cancel_end i p c)). event_terminal e = Some (i, p)"
  by (simp add: cancel_end_def send_event_def event_terminal_def)

lemma end_task_inv:
  assumes "deleg_inv s" "dr_tasks s h = Some t" "calm (dr_c s) c" "\<not> awaiting (tk_phase t)"
  shows "deleg_inv (end_task h c s)"
proof (rule calm_step [OF assms(1)])
  fix i p assume a: "answer_coming s i p"
  show "answer_coming (end_task h c s) i p"
  proof (rule coming_mono [OF a])
    fix h' t' assume t: "dr_tasks s h' = Some t'" "awaiting (tk_phase t')" "tk_id t' = i" "tk_parent t' = p"
    then have "h' \<noteq> h" using assms(2,4) by auto
    with t show "answer_coming (end_task h c s) i p" unfolding answer_coming_def end_task_def
      by (intro disjI1 exI [of _ h'] exI [of _ t']) simp
  qed (use assms(3) in \<open>auto simp: end_task_def calm_def\<close>)
qed (use assms(3) in \<open>auto simp: end_task_def split: if_splits\<close>)

lemma cancel_end_inv:
  assumes "deleg_inv s"
  shows "deleg_inv (s\<lparr>dr_c := cancel_end i p (dr_c s), dr_cancels := remove1 (i, p) (dr_cancels s)\<rparr>)" (is "deleg_inv ?s")
proof -
  note inv = deleg_invD [OF assms]
  have c: "calm (dr_c s) (cancel_end i p (dr_c s))" by (rule calm_cancel_end [OF inv(1)])
  have e: "\<exists>e \<in> set (dc_events (cancel_end i p (dr_c s))). event_terminal e = Some (i, p)"
    by (rule cancel_emitted) (use inv(1) in \<open>simp add: coord_ok_def\<close>)
  show ?thesis
  proof (rule calm_step [OF assms])
    fix j q assume "answer_coming s j q"
    with c e show "answer_coming ?s j q"
      by (cases "(j, q) = (i, p)") (auto simp: answer_coming_def calm_def in_set_remove1)
  qed (use c in auto)
qed

lemma detached_inv:
  assumes "deleg_inv s" "dr_detached s h = Some t" "calm (dr_c s) c" "x = None \<or> (\<exists>ph. x = Some (t\<lparr>tk_phase := ph\<rparr>))"
  shows "deleg_inv (s\<lparr>dr_c := c, dr_detached := (dr_detached s)(h := x)\<rparr>)" (is "deleg_inv ?s")
proof (rule calm_step [OF assms(1)])
  fix i p assume "answer_coming s i p"
  then show "answer_coming ?s i p" using assms(3) by (auto simp: answer_coming_def calm_def)
qed (use assms in \<open>auto split: if_splits\<close>)

lemma insert_inv:
  assumes "deleg_inv s" "dr_inserting s h = Some (i, e)"
  shows "deleg_inv (s\<lparr>dr_c := insert_entry i e (dr_c s), dr_inserting := (dr_inserting s)(h := None)\<rparr>)" (is "deleg_inv ?s")
proof -
  note inv = deleg_invD [OF assms(1)]
  have p: "pend (dr_c ?s) p = pend (dr_c s) p" for p by (simp add: pend_def load_susp_def insert_entry_def)
  have "coord_ok (dr_c ?s)" using inv(1) unfolding coord_ok_def p by (simp add: susps_ok_def insert_entry_def)
  moreover have "tasks_ok ?s" using inv(2) by (auto simp: tasks_ok_def insert_entry_def)
  moreover have "entries_ok ?s" using inv(3) assms(2) by (auto simp: entries_ok_def entry_ok_def insert_entry_def)
  moreover have "answer_coming ?s j q" if "j \<in> pend (dr_c ?s) q" for j q
    using inv(4) [of j q] that unfolding p by (auto simp: answer_coming_def insert_entry_def)
  ultimately show ?thesis by (simp add: deleg_inv_def)
qed

lemma deleg_step_inv: "deleg_step s s' \<Longrightarrow> deleg_inv s \<Longrightarrow> deleg_inv s'"
proof (induction rule: deleg_step.induct)
  case (Spawn s i tick agent parent c timeout tools now)
  then show ?case by (intro spawn_inv)
next
  case (Insert s h i e)
  then show ?case by (intro insert_inv)
next
  case (Begin s h t workspace git now err c)
  note inv = deleg_invD [OF Begin.prems]
  have "tk_id t \<in> dom (dc_parents (dr_c s))" using inv(2) Begin.hyps(1) by (auto simp: tasks_ok_def)
  from calm_begin [OF inv(1) this Begin.hyps(3)] Begin show ?case
    by (intro set_phase_inv) (auto split: option.split)
next
  case (Turn_Over s h t out merge r c)
  then show ?case by (intro set_phase_inv) (auto intro: calm_end deleg_invD)
next
  case (Panic s h t m)
  then show ?case by (intro set_phase_inv) (auto intro: calm_refl deleg_invD)
next
  case (Recovered s h t session out)
  then show ?case by (intro set_phase_inv) (auto intro: calm_refl deleg_invD)
next
  case (Emit s h t r duration)
  then show ?case
    by (intro set_phase_inv disjI2 emitted) (auto intro: calm_emit deleg_invD simp: deleg_inv_def coord_ok_def)
next
  case (Settle s h t r)
  then show ?case by (intro end_task_inv) (auto intro: calm_settle deleg_invD)
next
  case (Detached_Begin s h t workspace git now err c)
  note inv = deleg_invD [OF Detached_Begin.prems]
  have "tk_id t \<in> dom (dc_parents (dr_c s))" using inv(2) Detached_Begin.hyps(1) by (auto simp: tasks_ok_def)
  from calm_begin [OF inv(1) this Detached_Begin.hyps(3)] Detached_Begin show ?case
    by (intro detached_inv) auto
next
  case (Detached_Over s h t out merge r c)
  then show ?case by (intro detached_inv) (auto intro: calm_end deleg_invD)
next
  case (Cancel_Begin i s e c late)
  then show ?case by (intro cancel_inv)
next
  case (Cancel_End i p s)
  then show ?case by (intro cancel_end_inv)
next
  case (Wake s e es now later notice c)
  then show ?case by (intro wake_inv)
next
  case (Resume s i cp tick extra now c)
  then show ?case by (intro resume_inv)
next
  case (Resume_Refused s tick i extra now err c)
  then show ?case using resume_refused_calm [OF deleg_invD(1) Resume_Refused.hyps] by simp
next
  case (To_Parent m s ok c)
  then show ?case by (intro calm_only) (auto intro: calm_to_parent deleg_invD)
next
  case (To_Sub_Agent i mail s err c)
  then show ?case by (intro calm_only) (auto intro: calm_to_sub_agent deleg_invD)
next
  case (Reconcile s i summary duration)
  then show ?case by (intro calm_only) (auto intro: calm_reconcile deleg_invD)
next
  case (Other p s a)
  then show ?case by (intro calm_only other_calm) (auto intro: deleg_invD)
next
  case (Open s p)
  then show ?case by (intro calm_only open_calm) (auto intro: deleg_invD)
next
  case (Switch R s)
  then show ?case by (intro calm_only switch_calm) (auto intro: deleg_invD)
qed

lemma deleg_start_inv: "deleg_start c \<Longrightarrow> deleg_inv (start_run_of c)"
proof -
  assume c: "deleg_start c"
  have p: "pend c p = {}" for p
    using c by (simp add: deleg_start_def pend_def load_susp_def fresh_susp_def new_context_def pending_of_def restore_field_def)
  have "coord_ok c" unfolding coord_ok_def p
    using c by (simp add: deleg_start_def susps_ok_def new_context_def synced_def restore_field_def)
  then show ?thesis
    using c p by (simp add: deleg_inv_def start_run_of_def tasks_ok_def entries_ok_def deleg_start_def)
qed

lemma deleg_reach_inv: "deleg_reach s \<Longrightarrow> deleg_inv s"
  by (induction rule: deleg_reach.induct) (simp_all add: deleg_start_inv deleg_step_inv)

text \<open>C32: No delegation is lost: in every state reached by any interleaving of spawned tasks, resumed tasks, cancellations in their two sections, panics, messages, session switches and notices, a delegation that a session still waits for has a task that will report, a terminal event on its way to that very session, or a cancellation about to send one.\<close>

theorem no_delegation_lost:
  assumes "deleg_reach s" "i \<in> set (pending_of (load_susp (dr_c s) p))"
  shows "(\<exists>h t. dr_tasks s h = Some t \<and> tk_id t = i \<and> tk_parent t = p \<and> awaiting (tk_phase t))
     \<or> (\<exists>e \<in> set (dc_events (dr_c s)). event_terminal e = Some (i, p)) \<or> (i, p) \<in> set (dr_cancels s)"
  using deleg_invD(4) [OF deleg_reach_inv [OF assms(1)], of i p] assms(2) by (simp add: pend_def answer_coming_def)

end
