(* ===== verification/Delegation_Facts.thy ===== *)
theory Delegation_Facts
  imports Delegation_Inv
begin

text \<open>
  What the coordinator guarantees beyond the way of its events: the depth of nested delegations, the budget of a
  resumed task, and three ways in which the end of a task is recorded wrongly.
\<close>

subsection \<open>Depth\<close>

inductive nests :: "(utext \<rightharpoonup> utext option) \<Rightarrow> utext \<Rightarrow> nat \<Rightarrow> bool" for P where
  nests_top: "P i = Some None \<Longrightarrow> nests P i 1"
| nests_under: "P i = Some (Some p) \<Longrightarrow> nests P p n \<Longrightarrow> nests P i (n + 1)"

lemma nests_pos: "nests P i n \<Longrightarrow> 1 \<le> n"
  by (induction rule: nests.induct) auto

lemma nests_known: "nests P i n \<Longrightarrow> P i \<noteq> None"
  by (induction rule: nests.induct) auto

lemma depth_loop_nests: "nests P i n \<Longrightarrow> depth_loop k P (Some i) d = d + min (n - 1) k"
proof (induction arbitrary: k d rule: nests.induct)
  case (nests_top i)
  then show ?case by (cases k) auto
next
  case (nests_under i p n)
  then show ?case using nests_pos [of P p n] by (cases k) auto
qed

lemma session_depth_nests: "nests (dc_parents c) p n \<Longrightarrow> session_depth c p = 1 + min (n - 1) 64"
  by (simp add: session_depth_def depth_loop_nests)

lemma depth_loop_bound: "depth_loop k P cur d \<le> d + k"
proof (induction k arbitrary: cur d)
  case (Suc k)
  then show ?case
    by (cases cur) (auto split: option.split intro: le_trans [OF Suc.IH])
qed simp

lemma check_depth_unbounded: "66 \<le> dc_max_depth c \<Longrightarrow> check_depth c p = None"
  using depth_loop_bound [of 64 "dc_parents c" "Some p" 1] by (simp add: check_depth_def session_depth_def Let_def)

definition closed_parents :: "(utext \<rightharpoonup> utext option) \<Rightarrow> bool" where
  "closed_parents P \<longleftrightarrow> (\<forall>i p. P i = Some (Some p) \<longrightarrow> P p \<noteq> None)"

lemma nests_new:
  assumes "nests (P(i \<mapsto> x)) j n" "closed_parents P" "P i = None" "j \<noteq> i"
  shows "nests P j n"
  using assms(1,4)
proof (induction rule: nests.induct)
  case (nests_top j)
  then show ?case using nests.nests_top [of P j] by simp
next
  case (nests_under j p n)
  then have j: "P j = Some (Some p)" by simp
  then have "P p \<noteq> None" using assms(2) unfolding closed_parents_def by blast
  then have "p \<noteq> i" using assms(3) by blast
  with nests_under have "nests P p n" by blast
  from nests.nests_under [of P, OF j this] show ?case .
qed

text \<open>How a step changes the sessions.\<close>

definition parents_step :: "coord \<Rightarrow> coord \<Rightarrow> bool" where
  "parents_step c d \<longleftrightarrow> dc_max_depth d = dc_max_depth c
     \<and> (dc_parents d = dc_parents c
        \<or> (\<exists>i. dc_parents c i = None \<and> (dc_parents d = (dc_parents c)(i \<mapsto> None)
            \<or> (\<exists>p. check_depth c p = None \<and> dc_parents c p \<noteq> None \<and> dc_parents d = (dc_parents c)(i \<mapsto> Some p)))))"

named_theorems parents_frame "operations that keep the sessions and the depth limit"

lemma parents_frames [parents_frame]:
  "dc_parents (set_checkpoint_status i x c) = dc_parents c" "dc_max_depth (set_checkpoint_status i x c) = dc_max_depth c"
  "dc_parents (store_susp p st c) = dc_parents c" "dc_max_depth (store_susp p st c) = dc_max_depth c"
  "dc_parents (send_event e c) = dc_parents c" "dc_max_depth (send_event e c) = dc_max_depth c"
  "dc_parents (insert_entry i x2 c) = dc_parents c" "dc_max_depth (insert_entry i x2 c) = dc_max_depth c"
  "dc_parents (register_pending n p i c) = dc_parents c" "dc_max_depth (register_pending n p i c) = dc_max_depth c"
  "dc_parents (delete_checkpoint i c) = dc_parents c" "dc_max_depth (delete_checkpoint i c) = dc_max_depth c"
  by (auto simp: set_checkpoint_status_def store_susp_def send_event_def insert_entry_def register_pending_def
      delete_checkpoint_def split: option.split)

lemma parents_begin [parents_frame]:
  "begin_task t workspace git now c = (err, d) \<Longrightarrow> dc_parents d = dc_parents c"
  "begin_task t workspace git now c = (err, d) \<Longrightarrow> dc_max_depth d = dc_max_depth c"
  by (auto simp: begin_task_def deleg_begin_def Let_def split: option.splits if_splits)

lemma parents_end [parents_frame]:
  "deleg_end True a i n out merge c = (r, d) \<Longrightarrow> dc_parents d = dc_parents c"
  "deleg_end True a i n out merge c = (r, d) \<Longrightarrow> dc_max_depth d = dc_max_depth c"
  by (auto simp: deleg_end_def Let_def drain_inbox_def take_sent_def should_gc_sub_session_def
      split: merge_outcome.splits option.splits if_splits)

lemma parents_ops [parents_frame]:
  "dc_parents (emit_terminal i p n r c) = dc_parents c" "dc_max_depth (emit_terminal i p n r c) = dc_max_depth c"
  "dc_parents (settle_task i r c) = dc_parents c" "dc_max_depth (settle_task i r c) = dc_max_depth c"
  "dc_parents (cancel_end i p c) = dc_parents c" "dc_max_depth (cancel_end i p c) = dc_max_depth c"
  "dc_parents (reconcile_notice_completed i m n c) = dc_parents c"
  "dc_max_depth (reconcile_notice_completed i m n c) = dc_max_depth c"
  "dc_parents (switch_to R c) = dc_parents c" "dc_max_depth (switch_to R c) = dc_max_depth c"
  by (auto simp: emit_terminal_def settle_task_def settle_checkpoint_def cancel_end_def reconcile_notice_completed_def
      switch_to_def parents_frames split: option.split)

lemma parents_cancel [parents_frame]:
  "cancel_begin i c = (x, d) \<Longrightarrow> dc_parents d = dc_parents c"
  "cancel_begin i c = (x, d) \<Longrightarrow> dc_max_depth d = dc_max_depth c"
  by (cases "dc_running c i"; auto simp: cancel_begin_def)+

lemma parents_messages [parents_frame]:
  "send_to_parent m c = (ok, d) \<Longrightarrow> dc_parents d = dc_parents c"
  "send_to_parent m c = (ok, d) \<Longrightarrow> dc_max_depth d = dc_max_depth c"
  "send_to_sub_agent i mail c = (err, d) \<Longrightarrow> dc_parents d = dc_parents c"
  "send_to_sub_agent i mail c = (err, d) \<Longrightarrow> dc_max_depth d = dc_max_depth c"
  by (auto simp: send_to_parent_def send_to_sub_agent_def parents_frames split: option.splits if_splits)

lemma parents_wake [parents_frame]:
  assumes "wake now later e c = (notice, d)"
  shows "dc_parents d = dc_parents c" "dc_max_depth d = dc_max_depth c"
  using assms
  by (cases e; auto simp: wake_def wake_terminal_def Let_def is_progress_def parents_frames split: if_splits prod.splits)+

lemma parents_resume [parents_frame]:
  assumes "resume_timed_out tick i extra now c = (r, d)"
  shows "dc_parents d = dc_parents c" "dc_max_depth d = dc_max_depth c"
  using assms
  by (auto simp: resume_timed_out_def recover_async_def Let_def parents_frames split: if_splits prod.splits option.splits)

lemma spawn_parents:
  assumes "spawn_async tick agent parent i c = Inr d"
  shows "dc_parents d = (dc_parents c)(i \<mapsto> Some parent)" "dc_max_depth d = dc_max_depth c"
    "check_depth c parent = None" "dc_parents c parent \<noteq> None"
  using assms by (auto simp: spawn_async_def Let_def parents_frames split: if_splits option.splits)

lemma set_phase_c [simp]: "dr_c (set_phase h t ph c s) = c" "dr_c (end_task h c s) = c"
  by (simp_all add: set_phase_def end_task_def)

lemma deleg_step_parents: "deleg_step s s' \<Longrightarrow> parents_step (dr_c s) (dr_c s')"
proof (induction rule: deleg_step.induct)
  case (Spawn s i tick agent parent c timeout tools now)
  from Spawn(1) spawn_parents [OF Spawn(2)] show ?case by (auto simp: parents_step_def)
next
  case (Wake s e es now later notice c)
  from parents_wake [OF Wake(2)] show ?case by (simp add: parents_step_def)
next
  case (Open s p)
  then show ?case by (auto simp: parents_step_def open_session_def)
qed (auto simp: parents_step_def parents_frame)

definition depth_inv :: "coord \<Rightarrow> bool" where
  "depth_inv c \<longleftrightarrow> closed_parents (dc_parents c)
     \<and> (dc_max_depth c \<le> 65 \<longrightarrow> (\<forall>i n. nests (dc_parents c) i n \<longrightarrow> n \<le> max 1 (dc_max_depth c)))"

lemma depth_step:
  assumes "depth_inv c" "parents_step c d"
  shows "depth_inv d"
proof -
  note old = assms(1) [unfolded depth_inv_def]
  from assms(2) consider (same) "dc_parents d = dc_parents c"
    | (new) i x where "dc_parents c i = None" "dc_parents d = (dc_parents c)(i \<mapsto> x)"
        "\<And>p. x = Some p \<Longrightarrow> check_depth c p = None \<and> dc_parents c p \<noteq> None"
    by (fastforce simp: parents_step_def)
  then show ?thesis
  proof cases
    case same
    with assms show ?thesis by (auto simp: depth_inv_def parents_step_def)
  next
    case new
    have closed: "closed_parents (dc_parents d)"
      using old new by (auto simp: closed_parents_def split: if_splits)
    have bound: "n \<le> max 1 (dc_max_depth c)" if m: "dc_max_depth c \<le> 65" and n: "nests (dc_parents d) j n" for j n
    proof (cases "j = i")
      case False
      from nests_new [OF n [unfolded new(2)] _ new(1) False] old m show ?thesis by blast
    next
      case True
      from n show ?thesis
      proof cases
        case (nests_under p k)
        then have x: "x = Some p" using True new(2) by simp
        with new have pi: "p \<noteq> i" by auto
        have k: "nests (dc_parents c) p k"
          using nests_new [OF nests_under(3) [unfolded new(2)] _ new(1) pi] old by blast
        have "check_depth c p = None" using new(3) [OF x] by blast
        then have "min (k - 1) 64 + 2 \<le> dc_max_depth c"
          using session_depth_nests [OF k] by (simp add: check_depth_def Let_def split: if_splits)
        with m nests_under(1) nests_pos [OF k] show ?thesis by (auto simp: min_def split: if_splits)
      qed simp
    qed
    show ?thesis using closed bound assms(2) by (simp add: depth_inv_def parents_step_def)
  qed
qed

lemma deleg_reach_depth: "deleg_reach s \<Longrightarrow> depth_inv (dr_c s)"
proof (induction rule: deleg_reach.induct)
  case (deleg_init c)
  then have none: "dc_parents c i \<noteq> Some (Some p)" for i p by (auto simp: deleg_start_def ran_def)
  have "n = 1" if "nests (dc_parents c) i n" for i n using that none by cases auto
  with none show ?case by (auto simp: depth_inv_def closed_parents_def start_run_of_def)
next
  case (deleg_next s s')
  with deleg_step_parents depth_step show ?case by blast
qed

text \<open>C35: Delegations nest at most \<open>max_depth\<close> deep, the main agent being at depth 1, whatever sessions are opened and tasks spawned - as long as the limit is at most 65.  The walk up the parents stops after 64, so a limit above 65 refuses nothing.\<close>

theorem depth_bounded:
  assumes "deleg_reach s" "nests (dc_parents (dr_c s)) i n"
  shows "if dc_max_depth (dr_c s) \<le> 65 then n \<le> max 1 (dc_max_depth (dr_c s)) else check_depth (dr_c s) i = None"
  using deleg_reach_depth [OF assms(1)] assms(2) check_depth_unbounded [of "dr_c s" i]
  by (simp add: depth_inv_def)

subsection \<open>The budget of a resumed task\<close>

text \<open>The budget of a delegation is never above the ceiling of 1800 seconds, whatever tool and configuration ask for; the budget of a resumed one is also at least a second, and without a request of its own it is not below what the task had before.\<close>

lemma resumed_budget_grows:
  "resolve_timeout tool conf \<le> timeout_max \<and> resume_budget extra old \<le> timeout_max \<and> 1 \<le> resume_budget extra old
   \<and> resolve_timeout tool conf \<le> resume_budget None (resolve_timeout tool conf)"
  by (auto simp: resolve_timeout_def resume_budget_def timeout_max_def timeout_default_def min_def max_def split: option.split)

subsection \<open>A timeout that is recorded as a failure\<close>

lemma compose_timeout:
  "compose_result (Inl (Deleg_Timeout a n)) sent undelivered =
     (if sent = [] \<and> undelivered = [] then Inl (Deleg_Timeout a n)
      else Inl (Deleg_Error (error_text (Deleg_Timeout a n)
        @ (if sent = [] then [] else [10] @ sent_header @ join_with ([10] @ cps ''---'' @ [10]) sent)
        @ (if undelivered = [] then [] else undelivered_detail undelivered))))"
  by (auto simp: compose_result_def Let_def undelivered_detail_def sent_header_def)

definition unread :: "coord \<Rightarrow> utext \<Rightarrow> bool" where
  "unread c i \<longleftrightarrow> (\<exists>m ms. dc_inbox c i = Some (m # ms)) \<or> (\<exists>t ts. dc_sent c i = Some (t # ts))"

text \<open>The branch of a worktree could not be merged back.\<close>

definition unmerged :: "merge_outcome \<Rightarrow> bool" where
  "unmerged m \<longleftrightarrow> (\<exists>e. m = Merge_Conflict e \<or> m = Checkout_Failed e)"

lemma timeout_end:
  assumes "deleg_end True name i n Turn_Timeout merge c = (r, d)"
  shows "settle_status r = (if unmerged merge \<or> unread c i then Ds_Failed else Ds_Timed_Out)"
    "dc_checkpoints d = dc_checkpoints c" "dc_parents d = dc_parents c" "dc_registered d = dc_registered c" "dc_runtime d = dc_runtime c"
proof -
  obtain und c2 where u: "drain_inbox i (c\<lparr>dc_killed := dc_killed c @ [i]\<rparr>) = (und, c2)" by fastforce
  obtain sent c3 where t: "take_sent i c2 = (sent, c3)" by fastforce
  have e: "\<exists>e. r = Inl (Deleg_Error e)" if "unmerged merge" using assms that by (auto simp: deleg_end_def unmerged_def Let_def)
  have c: "r = compose_result (Inl (Deleg_Timeout name n)) sent und" if "\<not> unmerged merge"
    using assms u t that by (cases merge) (auto simp: deleg_end_def unmerged_def Let_def)
  have "und \<noteq> [] \<longleftrightarrow> (\<exists>m ms. dc_inbox c i = Some (m # ms))"
    using u by (auto simp: drain_inbox_def neq_Nil_conv split: option.splits)
  moreover have "sent \<noteq> [] \<longleftrightarrow> (\<exists>t ts. dc_sent c i = Some (t # ts))"
    using u t by (auto simp: drain_inbox_def take_sent_def neq_Nil_conv split: option.splits)
  ultimately show "settle_status r = (if unmerged merge \<or> unread c i then Ds_Failed else Ds_Timed_Out)"
    using e c by (cases "unmerged merge") (auto simp: compose_timeout settle_status_def unread_def)
qed (use deleg_end_frame [OF assms] in auto)

text \<open>C36: When the task of a background delegation with a stored checkpoint, a known parent and a stored session has run into its time limit and is settled, it can be resumed if and only if there was nothing else to report: a message of the parent it had not read, one of its own kept for the result, or a worktree that could not be merged back turns the timeout into a plain failure, and its checkpoint refuses to be resumed.\<close>

theorem late_mail_hides_timeout:
  assumes "deleg_end True name i n Turn_Timeout merge c = (r, d)" "dc_checkpoints c i = Some cp"
    and "context_known c (cp_parent cp)" "dc_parents c i \<noteq> None" "dc_runtime c"
  shows "fst (resume_timed_out tick i extra now (settle_task i r d)) =
    (if unmerged merge \<or> unread c i then Inl (not_resumable i (status_str Ds_Failed)) else Inr True)"
proof -
  note e = timeout_end [OF assms(1)]
  let ?x = "if unmerged merge \<or> unread c i then Ds_Failed else Ds_Timed_Out"
  let ?f = "settle_task i r d"
  have cp: "dc_checkpoints ?f i = Some (cp\<lparr>cp_status := status_str ?x\<rparr>)" "dc_running ?f i = None"
    "dc_parents ?f = dc_parents c" "dc_registered ?f = dc_registered c" "dc_runtime ?f = dc_runtime c"
    using e assms(2) by (auto simp: settle_task_def settle_checkpoint_def set_checkpoint_status_def)
  have ne: "status_str Ds_Failed \<noteq> status_str Ds_Timed_Out" by (simp add: cps_def)
  show ?thesis
  proof (cases "unmerged merge \<or> unread c i")
    case True
    with cp ne show ?thesis by (simp add: resume_timed_out_def)
  next
    case False
    with cp assms(3-5) show ?thesis
      by (auto simp: resume_timed_out_def recover_async_def Let_def context_known_def store_susp_def split: prod.split)
  qed
qed

subsection \<open>A cancelled task whose checkpoint says it runs\<close>

definition startable :: "coord \<Rightarrow> deleg_task \<Rightarrow> bool" where
  "startable c t \<longleftrightarrow> check_depth c (tk_parent t) = None
     \<and> (\<exists>g. find_agent c (tk_agent t) = Some g \<and> sa_isolation g = Shared)"

definition says_running :: "coord \<Rightarrow> utext \<Rightarrow> bool" where
  "says_running c i \<longleftrightarrow> (\<exists>cp. dc_checkpoints c i = Some cp \<and> cp_status cp = status_str Ds_Running)"

lemma startable_frame:
  "dc_parents d = dc_parents c \<Longrightarrow> dc_max_depth d = dc_max_depth c \<Longrightarrow> dc_agents d = dc_agents c \<Longrightarrow> startable d t = startable c t"
  by (simp add: startable_def check_depth_def session_depth_def find_agent_def)

lemma begin_running:
  assumes "startable c t" "dc_runtime c"
  obtains d where "begin_task t workspace git now c = (None, d)" "says_running d (tk_id t)" "dc_events d = dc_events c"
    "dc_running d = dc_running c"
  using assms by (auto simp: begin_task_def deleg_begin_def startable_def says_running_def Let_def)

lemma detached_runs_on:
  assumes "dr_detached s h = Some t" "tk_phase t = Ph_Starting" "startable (dr_c s) t" "dc_runtime (dr_c s)"
  obtains s' where "deleg_step\<^sup>*\<^sup>* s s'" "dr_tasks s' = dr_tasks s" "dr_detached s' h = None"
    "dc_events (dr_c s') = dc_events (dr_c s)" "dc_running (dr_c s') = dc_running (dr_c s)" "says_running (dr_c s') (tk_id t)"
proof -
  obtain c where c: "begin_task t None None 0 (dr_c s) = (None, c)" "says_running c (tk_id t)" "dc_events c = dc_events (dr_c s)"
      "dc_running c = dc_running (dr_c s)"
    using begin_running [OF assms(3,4)] by blast
  define s1 where "s1 = s\<lparr>dr_c := c, dr_detached := (dr_detached s)(h \<mapsto> t\<lparr>tk_phase := Ph_Turn\<rparr>)\<rparr>"
  have r1: "deleg_step s s1"
    using Detached_Begin [OF assms(1,2) c(1)] by (simp add: s1_def)
  obtain r d where d: "deleg_end True (tk_agent t) (tk_id t) (tk_timeout t) (Turn_Text []) No_Merge c = (r, d)" by fastforce
  define s2 where "s2 = s1\<lparr>dr_c := d, dr_detached := (dr_detached s1)(h := None)\<rparr>"
  have "deleg_step s1 s2" unfolding s2_def
    by (rule Detached_Over [of s1 h "t\<lparr>tk_phase := Ph_Turn\<rparr>"]) (use d in \<open>auto simp: s1_def\<close>)
  with r1 have "deleg_step\<^sup>*\<^sup>* s s2" by (meson converse_rtranclp_into_rtranclp r_into_rtranclp)
  moreover have "says_running d (tk_id t)" using c(2) deleg_end_frame(6) [OF d] by (simp add: says_running_def)
  ultimately show thesis using that [of s2] c(3,4) deleg_end_frame(7,8) [OF d] by (simp add: s2_def s1_def)
qed

text \<open>Cancelling stops the wrapper of a delegation and not its body.  When a delegation is cancelled after its body was spawned and before the body has written the checkpoint, the run can go on, from the very state the cancellation leaves, like this: the parent is told that the delegation is cancelled, its entry, its wrapper and its body are gone, and its checkpoint says that it is running - the status a restart resumes.  (Before the body is spawned, the abort leaves nothing behind.)\<close>

theorem cancelled_looks_running:
  assumes "deleg_reach s" "dr_tasks s h = Some t" "tk_phase t = Ph_Starting" "startable (dr_c s) t"
    and "dc_running (dr_c s) (tk_id t) = Some e" "re_handle e = h"
    and "cancel_begin (tk_id t) (dr_c s) = (Some e, c)"
    and s1_def: "s1 = abort_task True h (s\<lparr>dr_c := c, dr_cancels := (tk_id t, tk_parent t) # dr_cancels s\<rparr>)"
  shows "deleg_step s s1 \<and> (\<exists>s'. deleg_step\<^sup>*\<^sup>* s1 s' \<and> dr_tasks s' h = None \<and> dr_detached s' h = None
    \<and> dc_running (dr_c s') (tk_id t) = None
    \<and> Ev_Failed (tk_id t) (tk_parent t) (cps ''cancelled'') \<in> set (dc_events (dr_c s'))
    \<and> says_running (dr_c s') (tk_id t))"
proof -
  let ?i = "tk_id t"
  note inv = deleg_invD [OF deleg_reach_inv [OF assms(1)]]
  note c = assms(7)
  have parent: "re_parent e = tk_parent t" using inv(3) assms(2,5,6) by (auto simp: entries_ok_def entry_ok_def)
  have c': "c = set_checkpoint_status ?i Ds_Cancelled
      ((dr_c s)\<lparr>dc_running := (dc_running (dr_c s))(?i \<mapsto> e\<lparr>re_status := Ds_Cancelled\<rparr>)\<rparr>)"
    using assms(5) c by (simp add: cancel_begin_def)
  have s1: "dr_c s1 = c" "dr_tasks s1 h = None" "dr_detached s1 h = Some t" "dr_cancels s1 = (?i, tk_parent t) # dr_cancels s"
    using assms(2,3) by (simp_all add: s1_def abort_task_def Let_def)
  have r1: "deleg_step s s1"
    using Cancel_Begin [OF c, of True] by (simp add: s1_def assms(6) parent)
  define s2 where "s2 = s1\<lparr>dr_c := cancel_end ?i (tk_parent t) c, dr_cancels := remove1 (?i, tk_parent t) (dr_cancels s1)\<rparr>"
  have r2: "deleg_step s1 s2"
    using Cancel_End [of ?i "tk_parent t" s1] by (simp add: s1 s2_def)
  have wired: "dc_wired c" "dc_runtime c" using inv(1) by (simp_all add: coord_ok_def c')
  have e2: "Ev_Failed ?i (tk_parent t) (cps ''cancelled'') \<in> set (dc_events (dr_c s2))"
    by (simp add: s2_def cancel_end_def send_event_def wired)
  have st: "startable (dr_c s2) t"
    using assms(4) startable_frame [of "dr_c s2" "dr_c s" t] by (simp add: s2_def cancel_end_def send_event_def c')
  have n2: "dc_running (dr_c s2) ?i = None" by (simp add: s2_def cancel_end_def send_event_def)
  have rt: "dc_runtime (dr_c s2)" using wired by (simp add: s2_def cancel_end_def send_event_def)
  have d2: "dr_detached s2 h = Some t" "dr_tasks s2 h = None" using s1 by (simp_all add: s2_def)
  obtain s3 where s3: "deleg_step\<^sup>*\<^sup>* s2 s3" "dr_tasks s3 = dr_tasks s2" "dr_detached s3 h = None"
    "dc_events (dr_c s3) = dc_events (dr_c s2)" "dc_running (dr_c s3) = dc_running (dr_c s2)" "says_running (dr_c s3) ?i"
    by (rule detached_runs_on [OF d2(1) assms(3) st rt])
  with r2 have "deleg_step\<^sup>*\<^sup>* s1 s3" by (meson converse_rtranclp_into_rtranclp)
  with r1 s3 d2 e2 n2 show ?thesis by (intro conjI exI [of _ s3]) simp_all
qed

subsection \<open>A parent without a live context\<close>

lemma wake_nothing:
  assumes "event_terminal e = Some (i, p)" "context_known c p" "sx_suspension (load_susp c p) = None"
  shows "fst (wake now later e c) = None"
proof -
  have w: "fst (wake_terminal now later m x c) = None" if m: "np_sub m = i" "np_parent m = p" for m x
  proof -
    obtain r st where r: "record_terminal now later i x (np_content m) (np_sent m) (load_susp c p) = (r, st)" by fastforce
    then have "r \<in> {Term_Duplicate, Term_No_Suspension}"
      using assms(3) by (auto simp: record_terminal_def Let_def prune_recent_def split: if_splits)
    then show ?thesis using assms(2) by (auto simp: wake_terminal_def Let_def m r)
  qed
  from assms(1) show ?thesis
    by (cases e) (simp_all add: event_terminal_def wake_def is_progress_def Let_def w)
qed

text \<open>A session stays apart when it has no registered context and no timed-out delegation, which a resume could put on
  its board; it hears nothing when moreover no suspension of it is stored.\<close>

definition apart :: "utext \<Rightarrow> drun \<Rightarrow> bool" where
  "apart p s \<longleftrightarrow> p \<notin> dc_registered (dr_c s)
     \<and> (\<forall>i cp. dc_checkpoints (dr_c s) i = Some cp \<longrightarrow> cp_parent cp = p \<longrightarrow> cp_status cp \<noteq> status_str Ds_Timed_Out)"

definition unstored :: "susp_state \<Rightarrow> bool" where
  "unstored st \<longleftrightarrow> restore_field (sx_hook st) (sx_file st) = None"

lemma unstored_fresh [simp]: "unstored (fresh_susp st) = unstored st"
  by (simp add: unstored_def fresh_susp_def new_context_def)

lemma unstored_suspension: "p \<notin> dc_registered c \<Longrightarrow> sx_suspension (load_susp c p) = None \<longleftrightarrow> unstored (dc_susp c p)"
  by (simp add: load_susp_def fresh_susp_def new_context_def unstored_def)

lemma susp_frames:
  "dc_susp (settle_task i r c) = dc_susp c" "dc_susp (emit_terminal i p n r c) = dc_susp c"
  "dc_susp (cancel_end i p c) = dc_susp c" "dc_susp (reconcile_notice_completed i m n c) = dc_susp c"
  "dc_susp (insert_entry i x c) = dc_susp c"
  "begin_task t workspace git now c = (err, d) \<Longrightarrow> dc_susp d = dc_susp c"
  "cancel_begin i c = (y, d) \<Longrightarrow> dc_susp d = dc_susp c"
  "send_to_parent am c = (ok, d) \<Longrightarrow> dc_susp d = dc_susp c"
  "send_to_sub_agent i mail c = (err', d) \<Longrightarrow> dc_susp d = dc_susp c"
  by (auto simp: settle_task_def settle_checkpoint_def delete_checkpoint_def emit_terminal_def send_event_def cancel_end_def
      reconcile_notice_completed_def insert_entry_def begin_task_def deleg_begin_def cancel_begin_def send_to_parent_def
      send_to_sub_agent_def Let_def split: option.splits if_splits)

lemma wake_unstored:
  assumes "wake now later e c = (notice, d)" "p \<notin> dc_registered c" "unstored (dc_susp c p)"
  shows "unstored (dc_susp d p)"
proof -
  have t: "unstored (dc_susp (snd (wake_terminal now later n x c)) p)" for n x
  proof -
    obtain r st where r: "record_terminal now later (np_sub n) x (np_content n) (np_sent n) (load_susp c (np_parent n)) = (r, st)"
      by fastforce
    have "sx_file st = sx_file (dc_susp c p)" if "np_parent n = p"
      using r that assms(2,3) unstored_suspension [of p c]
      by (auto simp: record_terminal_def Let_def prune_recent_def load_susp_def fresh_susp_def new_context_def split: if_splits)
    with r assms(2,3) show ?thesis
      by (auto simp: wake_terminal_def Let_def store_susp_def unstored_def)
  qed
  show ?thesis
  proof (cases "is_progress e")
    case True
    with assms show ?thesis by (cases e) (auto simp: wake_def split: if_splits)
  next
    case False
    with assms(1,3) t [of "event_parts e"] show ?thesis
      by (auto simp: wake_def Let_def split: option.splits) (metis snd_conv)
  qed
qed

lemma spawn_unstored:
  assumes "spawn_async tick agent parent i c = Inr d" "p \<notin> dc_registered c" "p \<noteq> i"
  shows "dc_susp d p = dc_susp c p"
  using assms by (auto simp: spawn_async_def Let_def register_pending_def split: if_splits option.splits)

lemma resume_unstored:
  assumes "resume_timed_out tick i extra now c = (r, d)" "unstored (dc_susp c p)"
    and "\<And>cp. dc_checkpoints c i = Some cp \<Longrightarrow> cp_parent cp = p \<Longrightarrow> cp_status cp \<noteq> status_str Ds_Timed_Out"
  shows "unstored (dc_susp d p)"
  using assms
  by (auto simp: resume_timed_out_def recover_async_def Let_def store_susp_def split: option.splits if_splits)

lemma apart_step:
  assumes "deleg_step s s'" "apart p s" "apart p s'" "dc_parents (dr_c s) p \<noteq> None" "unstored (dc_susp (dr_c s) p)"
  shows "unstored (dc_susp (dr_c s') p)"
  using assms
proof (induction rule: deleg_step.induct)
  case (Spawn s i tick agent parent c timeout tools now)
  have "p \<noteq> i" using Spawn(1,5) by auto
  with spawn_unstored [OF Spawn(2), of p] Spawn(3,6) show ?case by (simp add: apart_def)
next
  case (Wake s e es now later notice c)
  then show ?case using wake_unstored [OF Wake(2), of p] by (simp add: apart_def)
next
  case (Resume s i cp tick extra now c)
  then show ?case using resume_unstored [OF Resume(2), of p] by (simp add: apart_def)
next
  case (Resume_Refused s tick i extra now err c)
  then show ?case using resume_unstored [OF Resume_Refused(1), of p] by (simp add: apart_def)
next
  case (Other p' s a)
  then show ?case by (auto simp: apart_def)
next
  case (Open s p')
  then show ?case by (auto simp: open_session_def)
next
  case (Switch R s)
  then show ?case by (auto simp: switch_to_def apart_def)
qed (auto simp: susp_frames deleg_end_frame set_phase_def end_task_def)

lemma apart_run:
  assumes "(\<lambda>s s'. deleg_step s s' \<and> apart p s')\<^sup>*\<^sup>* s s'" "apart p s" "dc_parents (dr_c s) p \<noteq> None" "unstored (dc_susp (dr_c s) p)"
  shows "apart p s' \<and> dc_parents (dr_c s') p \<noteq> None \<and> unstored (dc_susp (dr_c s') p)"
  using assms(1)
proof (induction rule: rtranclp_induct)
  case (step s1 s2)
  from step(2) have "parents_step (dr_c s1) (dr_c s2)" using deleg_step_parents by blast
  then have "dc_parents (dr_c s2) p \<noteq> None" using step(3) by (auto simp: parents_step_def)
  with step apart_step [of s1 s2 p] show ?case by blast
qed (use assms(2-4) in simp)


subsection \<open>Instances\<close>

definition demo_agent :: sub_agent_config where
  "demo_agent = \<lparr>sa_name = [99], sa_system_prompt = [], sa_tools = all_names, sa_skills = all_names, sa_mcp = all_names,
     sa_max_tool_calls = None, sa_description = None, sa_model = None, sa_isolation = Shared, sa_timeout = None\<rparr>"

definition demo_coord :: coord where
  "demo_coord = \<lparr>dc_agents = [([99], demo_agent)], dc_max_depth = 3, dc_runtime = True, dc_wired = True,
     dc_running = Map.empty, dc_mailboxes = {}, dc_inbox = Map.empty, dc_sent = Map.empty, dc_checkpoints = Map.empty,
     dc_args = Map.empty, dc_parents = [[109] \<mapsto> None], dc_registered = {[109]},
     dc_susp = (\<lambda>p. new_context True No_File), dc_events = [], dc_killed = []\<rparr>"

lemma demo_start: "deleg_start demo_coord"
  by (simp add: deleg_start_def demo_coord_def)

text \<open>The main agent delegates to a sub-agent.\<close>

definition spawned_coord :: coord where
  "spawned_coord = projr (spawn_async 5 [99] [109] [115] demo_coord)"

lemma demo_check: "check_depth demo_coord [109] = None"
proof -
  have "nests (dc_parents demo_coord) [109] 1" by (rule nests_top) (simp add: demo_coord_def)
  from session_depth_nests [OF this] show ?thesis by (simp add: check_depth_def demo_coord_def)
qed

lemma demo_fields:
  "dc_agents demo_coord = [([99], demo_agent)]" "dc_max_depth demo_coord = 3" "dc_runtime demo_coord" "dc_wired demo_coord"
  "dc_running demo_coord = Map.empty" "dc_checkpoints demo_coord = Map.empty" "dc_parents demo_coord = [[109] \<mapsto> None]"
  "dc_registered demo_coord = {[109]}" "dc_susp demo_coord = (\<lambda>p. new_context True No_File)" "dc_events demo_coord = []"
  by (simp_all add: demo_coord_def)

lemmas spawn_simps = spawn_async_def demo_check demo_fields find_agent_def Let_def register_pending_def

lemma spawned_coord: "spawn_async 5 [99] [109] [115] demo_coord = Inr spawned_coord"
  unfolding spawned_coord_def by (simp add: spawn_simps)

definition spawned_run :: drun where
  "spawned_run =
     (start_run_of demo_coord)\<lparr>dr_c := spawned_coord, dr_next := 1,
      dr_tasks := [0 \<mapsto> new_task [115] [99] [109] 600 None Ph_Starting],
      dr_inserting := [0 \<mapsto> ([115], new_entry 0 [99] [109] 600 7 None)]\<rparr>"

lemma spawned_reach: "deleg_reach spawned_run"
proof -
  have "deleg_step (start_run_of demo_coord) spawned_run"
    using deleg_step.Spawn [where s = "start_run_of demo_coord" and i = "[115]" and tick = 5 and agent = "[99]" and parent = "[109]"
        and c = spawned_coord and timeout = 600 and tools = None and now = 7] spawned_coord
    by (simp add: spawned_run_def start_run_of_def demo_coord_def)
  then show ?thesis by (rule deleg_next [OF deleg_init [OF demo_start]])
qed

lemma spawned_fields:
  "dc_parents spawned_coord = [[109] \<mapsto> None, [115] \<mapsto> Some [109]]" "dc_max_depth spawned_coord = 3"
  "dc_agents spawned_coord = [([99], demo_agent)]" "dc_runtime spawned_coord" "dc_wired spawned_coord"
  "dc_events spawned_coord = []" "dc_running spawned_coord = Map.empty" "dc_checkpoints spawned_coord = Map.empty"
  "pending_of (load_susp spawned_coord [109]) = [[115]]"
  unfolding spawned_coord_def
  by (simp_all add: spawn_simps load_susp_def susp_defs pending_of_def new_context_def restore_field_def)

lemma no_delegation_lost_witness: "\<exists>h t. dr_tasks spawned_run h = Some t \<and> tk_id t = [115] \<and> tk_parent t = [109]"
proof -
  have "[115] \<in> set (pending_of (load_susp (dr_c spawned_run) [109]))" by (simp add: spawned_run_def spawned_fields)
  from no_delegation_lost [OF spawned_reach this] show ?thesis
    by (auto simp: spawned_run_def start_run_of_def spawned_fields split: if_splits)
qed

lemma depth_bounded_witness: "nests (dc_parents (dr_c spawned_run)) [115] 2 \<and> dc_max_depth (dr_c spawned_run) = 3 \<and> (2::nat) \<le> 3"
proof -
  have "nests (dc_parents (dr_c spawned_run)) [109] 1" by (rule nests_top) (simp add: spawned_run_def spawned_fields)
  then have n: "nests (dc_parents (dr_c spawned_run)) [115] 2"
    using nests_under [of "dc_parents (dr_c spawned_run)" "[115]" "[109]" 1]
    by (simp add: spawned_run_def spawned_fields numeral_2_eq_2)
  from depth_bounded [OF spawned_reach n] n show ?thesis by (simp add: spawned_run_def spawned_fields numeral_2_eq_2)
qed

text \<open>The entry is in the running table before the body starts.\<close>

definition inserted_run :: drun where
  "inserted_run = spawned_run\<lparr>dr_c := insert_entry [115] (new_entry 0 [99] [109] 600 7 None) spawned_coord, dr_inserting := Map.empty\<rparr>"

lemma inserted_reach: "deleg_reach inserted_run"
proof -
  have "deleg_step spawned_run inserted_run"
    using deleg_step.Insert [of spawned_run 0 "[115]" "new_entry 0 [99] [109] 600 7 None"]
    by (simp add: inserted_run_def spawned_run_def)
  with spawned_reach show ?thesis by (rule deleg_next)
qed

lemma cancelled_looks_running_witness:
  "\<exists>s'. deleg_step\<^sup>*\<^sup>* inserted_run s' \<and> Ev_Failed [115] [109] (cps ''cancelled'') \<in> set (dc_events (dr_c s'))
     \<and> says_running (dr_c s') [115]"
proof -
  let ?t = "new_task [115] [99] [109] 600 None Ph_Starting" and ?e = "new_entry 0 [99] [109] 600 7 None"
  have "startable (dr_c inserted_run) ?t"
    using demo_check
    by (simp add: startable_def inserted_run_def insert_entry_def new_task_def find_agent_def spawned_fields demo_agent_def
        check_depth_def session_depth_def demo_fields eval_nat_numeral)
  moreover have r: "dc_running (dr_c inserted_run) (tk_id ?t) = Some ?e"
    by (simp add: inserted_run_def insert_entry_def new_task_def)
  moreover have "dr_tasks inserted_run 0 = Some ?t" "tk_phase ?t = Ph_Starting" "re_handle ?e = 0"
    by (simp_all add: inserted_run_def spawned_run_def new_task_def new_entry_def)
  moreover obtain c where "cancel_begin (tk_id ?t) (dr_c inserted_run) = (Some ?e, c)"
    using r by (simp add: cancel_begin_def)
  ultimately obtain s1 s' where "deleg_step inserted_run s1" "deleg_step\<^sup>*\<^sup>* s1 s'"
    "Ev_Failed (tk_id ?t) (tk_parent ?t) (cps ''cancelled'') \<in> set (dc_events (dr_c s'))" "says_running (dr_c s') (tk_id ?t)"
    using cancelled_looks_running [OF inserted_reach, of 0 ?t ?e c, OF _ _ _ _ _ _ refl] by blast
  then show ?thesis by (intro exI [of _ s']) (auto simp: new_task_def intro: converse_rtranclp_into_rtranclp)
qed

definition demo_mail :: agent_mail where
  "demo_mail = \<lparr>ml_id = [], ml_sender = [109], ml_text = [104], ml_timestamp = 0\<rparr>"

definition timed_out_coord :: "agent_mail list \<Rightarrow> coord" where
  "timed_out_coord ms = demo_coord\<lparr>dc_parents := [[109] \<mapsto> None, [115] \<mapsto> Some [109]], dc_inbox := [[115] \<mapsto> ms],
     dc_checkpoints := [[115] \<mapsto> \<lparr>cp_parent = [109], cp_sub = [115], cp_agent = [99], cp_status = status_str Ds_Running,
       cp_started = 0, cp_timeout = 600, cp_tools = None, cp_last = None\<rparr>]\<rparr>"

lemma late_mail_hides_timeout_witness:
  "fst (resume_timed_out 9 [115] None 9 (settle_task [115] (fst (deleg_end True [99] [115] 600 Turn_Timeout No_Merge (timed_out_coord [])))
      (snd (deleg_end True [99] [115] 600 Turn_Timeout No_Merge (timed_out_coord []))))) = Inr True
   \<and> fst (resume_timed_out 9 [115] None 9 (settle_task [115] (fst (deleg_end True [99] [115] 600 Turn_Timeout No_Merge (timed_out_coord [demo_mail])))
      (snd (deleg_end True [99] [115] 600 Turn_Timeout No_Merge (timed_out_coord [demo_mail]))))) = Inl (not_resumable [115] (status_str Ds_Failed))"
  using late_mail_hides_timeout [of "[99]" "[115]" 600 No_Merge "timed_out_coord []", OF surjective_pairing, where tick = 9 and extra = None and now = 9]
    late_mail_hides_timeout [of "[99]" "[115]" 600 No_Merge "timed_out_coord [demo_mail]", OF surjective_pairing, where tick = 9 and extra = None and now = 9]
  by (simp add: timed_out_coord_def unread_def unmerged_def context_known_def demo_coord_def)


end
