(* ===== verification/Startup.thy ===== *)
theory Startup
  imports Delegation_Facts
begin

text \<open>
  What happens to background work when the daemon starts again (\<open>agents/startup_recovery.rs\<close>,
  \<open>agents/orchestrator/turn_recovery.rs\<close>): unfinished sub-agents are found and resumed, skipped or failed, the
  suspensions on disk are settled and the sessions to recover chosen.  Sessions are looked up in a map; the shell
  registry, the clock and the recovered turns are arguments.
\<close>

subsection \<open>Unfinished sub-agents\<close>

record unfinished =
  uf_agent :: utext
  uf_preview :: utext
  uf_parent :: utext
  uf_sub :: utext
  uf_key :: utext
  uf_target :: utext
  uf_timeout :: nat
  uf_tools :: "utext list option"

definition may_need_recovery :: "'m session \<Rightarrow> bool" where
  "may_need_recovery s \<longleftrightarrow> s_incomplete_turn s
     \<or> s_history s \<noteq> [] \<and> (is_user (last (s_history s)) \<or> is_tool (last (s_history s)))"

definition task_preview :: "'m session \<Rightarrow> utext" where
  "task_preview s = (case filter is_user (s_history s) of [] \<Rightarrow> [] | m # ms \<Rightarrow> take 200 (text_content m))"

definition unfinished_of ::
  "(utext \<rightharpoonup> 'm session) \<Rightarrow> ('m \<Rightarrow> utext option) \<Rightarrow> (utext \<rightharpoonup> nat \<times> utext list option) \<Rightarrow> 'm session \<Rightarrow> utext \<Rightarrow> unfinished" where
  "unfinished_of store target args s parent =
     (case (case args (s_id s) of Some a \<Rightarrow> a | None \<Rightarrow> (600, None)) of (timeout, tools) \<Rightarrow>
      \<lparr>uf_agent = s_agent_name s, uf_preview = task_preview s, uf_parent = parent, uf_sub = s_id s,
       uf_key = (case store parent of Some p \<Rightarrow> s_owner p | None \<Rightarrow> []),
       uf_target = (case store parent of
           Some p \<Rightarrow> (case s_last_message p of Some m \<Rightarrow> (case target m of Some t \<Rightarrow> t | None \<Rightarrow> []) | None \<Rightarrow> [])
         | None \<Rightarrow> []),
       uf_timeout = timeout, uf_tools = tools\<rparr>)"

primrec scan_unfinished ::
  "(utext \<rightharpoonup> 'm session) \<Rightarrow> ('m \<Rightarrow> utext option) \<Rightarrow> (utext \<rightharpoonup> nat \<times> utext list option) \<Rightarrow> utext list \<Rightarrow> unfinished list" where
  "scan_unfinished store target args [] = []"
| "scan_unfinished store target args (i # ids) =
     (case store i of
        None \<Rightarrow> []
      | Some s \<Rightarrow> (case s_parent s of
            None \<Rightarrow> []
          | Some p \<Rightarrow> if p \<noteq> [] \<and> may_need_recovery s then [unfinished_of store target args s p] else []))
     @ scan_unfinished store target args ids"

subsection \<open>Tombstones\<close>

definition is_terminal_checkpoint_status :: "utext \<Rightarrow> bool" where
  "is_terminal_checkpoint_status t \<longleftrightarrow> t \<in> {cps ''completed'', cps ''failed'', cps ''timed_out'', cps ''cancelled''}"

definition terminal_checkpoint_ids :: "coord \<Rightarrow> utext set" where
  "terminal_checkpoint_ids c = {i. \<exists>cp. dc_checkpoints c i = Some cp \<and> is_terminal_checkpoint_status (cp_status cp)}"

lemma terminal_status: "is_terminal_checkpoint_status (status_str x) \<longleftrightarrow> is_terminal x"
  by (cases x) (simp_all add: is_terminal_checkpoint_status_def cps_def)

subsection \<open>Resuming the sub-agents\<close>

definition remaining_secs :: "int \<Rightarrow> checkpoint \<Rightarrow> nat" where
  "remaining_secs now cp = max 1 (cp_timeout cp - nat (max 0 (now - cp_started cp)))"

datatype sub_decision = Sub_Skip | Sub_Tombstone | Sub_Fail utext | Sub_Resume nat

definition needs_recovery :: "'m session option \<Rightarrow> bool" where
  "needs_recovery s = (case s of Some x \<Rightarrow> s_history x \<noteq> [] \<and> history_has_incomplete_turn (s_history x) | None \<Rightarrow> False)"

definition no_recovery_reason :: "'m session option \<Rightarrow> utext" where
  "no_recovery_reason s =
     (case s of
        None \<Rightarrow> cps ''daemon ''
     @ [0x91CD, 0x542F, 0xFF0C, 0x5B50, 0x4EE3, 0x7406, 0x4F1A, 0x8BDD, 0x672A, 0x627E, 0x5230]
      | Some x \<Rightarrow>
          if s_history x = []
          then cps ''daemon ''
     @ [0x91CD, 0x542F, 0xFF0C, 0x5B50, 0x4EE3, 0x7406, 0x4F1A, 0x8BDD, 0x5386, 0x53F2, 0x4E3A, 0x7A7A]
          else cps ''daemon ''
     @ [0x91CD, 0x542F, 0xFF0C, 0x5B50, 0x4EE3, 0x7406, 0x4EFB, 0x52A1, 0x5DF2, 0x5B8C, 0x6210])"

definition decide_sub ::
  "bool \<Rightarrow> utext set \<Rightarrow> int \<Rightarrow> checkpoint option \<Rightarrow> 'm session option \<Rightarrow> unfinished \<Rightarrow> sub_decision" where
  "decide_sub delegator terminal now cp s sa =
     (if uf_sub sa = [] \<or> uf_parent sa = [] then Sub_Skip
      else if uf_sub sa \<in> terminal then Sub_Tombstone
      else if \<not> needs_recovery s then Sub_Fail (no_recovery_reason s)
      else if delegator then Sub_Resume (case cp of Some x \<Rightarrow> remaining_secs now x | None \<Rightarrow> uf_timeout sa)
      else Sub_Fail (cps ''daemon restarts, sub-agents disabled''))"

text \<open>A failure is told through the coordinator, when there is one.\<close>

definition sink_fail :: "bool \<Rightarrow> unfinished \<Rightarrow> utext \<Rightarrow> coord \<Rightarrow> coord" where
  "sink_fail delegator sa e c = (if delegator then send_event (Ev_Failed (uf_sub sa) (uf_parent sa) e) c else c)"

definition start_sub :: "bool \<Rightarrow> int \<Rightarrow> nat \<Rightarrow> unfinished \<Rightarrow> sub_decision \<Rightarrow> coord \<Rightarrow> coord" where
  "start_sub delegator now h sa d c =
     (case d of
        Sub_Skip \<Rightarrow> c
      | Sub_Tombstone \<Rightarrow> delete_checkpoint (uf_sub sa) c
      | Sub_Fail e \<Rightarrow> sink_fail delegator sa e c
      | Sub_Resume n \<Rightarrow>
          (case recover_async (uf_sub sa) c of (spawned, c1) \<Rightarrow>
             if spawned then insert_entry (uf_sub sa) (new_entry h (uf_agent sa) (uf_parent sa) n now (uf_tools sa)) c1 else c1))"

primrec start_subs ::
  "bool \<Rightarrow> (utext \<rightharpoonup> 'm session) \<Rightarrow> utext set \<Rightarrow> int \<Rightarrow> nat \<Rightarrow> unfinished list \<Rightarrow> coord \<Rightarrow> coord" where
  "start_subs delegator store terminal now h [] c = c"
| "start_subs delegator store terminal now h (sa # sas) c =
     start_subs delegator store terminal now (h + 1) sas
       (start_sub delegator now h sa
          (decide_sub delegator terminal now (dc_checkpoints c (uf_sub sa)) (store (uf_sub sa)) sa) c)"

subsection \<open>Settling a suspension\<close>

definition is_shell_process_id :: "utext \<Rightarrow> bool" where
  "is_shell_process_id i \<longleftrightarrow> take 3 i = cps ''sh_''"

text \<open>What the shell registry knows of a process, when there is a registry.\<close>

record shell_view =
  sw_running :: "utext \<Rightarrow> bool"
  sw_age :: "utext \<Rightarrow> nat option"
  sw_lost :: "utext \<Rightarrow> utext"

definition stale_after_secs :: nat where "stale_after_secs = 3600"

text \<open>The age of the output file of a registered process, if it can be read.\<close>

definition is_stale_lost_notice :: "shell_view \<Rightarrow> utext \<Rightarrow> bool" where
  "is_stale_lost_notice w i = (case sw_age w i of Some n \<Rightarrow> stale_after_secs < n | None \<Rightarrow> False)"

definition is_stale_completion_notice :: "nat \<Rightarrow> nat \<Rightarrow> bool" where
  "is_stale_completion_notice now enqueued \<longleftrightarrow> stale_after_secs < now - enqueued"

definition unknown_shell :: "utext \<Rightarrow> utext" where
  "unknown_shell i = cps ''[''
     @ [0x7CFB, 0x7EDF, 0x901A, 0x77E5]
     @ cps ''] ''
     @ [0x540E, 0x53F0, 0x547D, 0x4EE4, 0x72B6, 0x6001, 0x672A, 0x77E5]
     @ cps '' (process_id: '' @ i
     @ cps ''): daemon ''
     @ [0x91CD, 0x542F, 0xFF0C, 0x65E0, 0x6CD5, 0x67E5, 0x8BE2, 0x8BE5, 0x8FDB, 0x7A0B, 0x8BB0, 0x5F55, 0x3002,
       0x82E5, 0x4ECD, 0x9700, 0x8981, 0x8FD9, 0x6B21, 0x4EFB, 0x52A1, 0x7684, 0x7ED3, 0x679C, 0xFF0C, 0x8BF7,
       0x91CD, 0x65B0, 0x6267, 0x884C, 0x3002]"

definition interrupted_sub_agent :: "utext \<Rightarrow> utext list \<Rightarrow> utext" where
  "interrupted_sub_agent i progress =
     cps ''[''
     @ [0x7CFB, 0x7EDF, 0x901A, 0x77E5]
     @ cps ''] ''
     @ [0x5B50, 0x4EE3, 0x7406, 0x540E, 0x53F0, 0x4EFB, 0x52A1, 0x4E2D, 0x65AD]
     @ cps '' (session_id: '' @ i
     @ cps ''): daemon ''
     @ [0x91CD, 0x542F, 0xFF0C, 0x5B50, 0x4EE3, 0x7406, 0x8FDB, 0x7A0B, 0x5DF2, 0x7EC8, 0x6B62, 0x3002, 0x8BF7,
       0x91CD, 0x65B0, 0x59D4, 0x6258, 0x8BE5, 0x4EFB, 0x52A1, 0x3002]
     @ (if progress = [] then []
        else [10, 10] @ [0x4EFB, 0x52A1, 0x8FC7, 0x7A0B, 0x8BB0, 0x5F55, 0xFF1A] @ [10] @ concat (map (\<lambda>l. cps ''- '' @ l @ [10]) progress))"

definition suspension_recovery_notice :: "int \<Rightarrow> utext \<Rightarrow> utext" where
  "suspension_recovery_notice secs merged =
     cps ''[''
     @ [0x7CFB, 0x7EDF, 0x901A, 0x77E5]
     @ cps ''] daemon ''
     @ [0x91CD, 0x542F, 0xFF0C, 0x4EE5, 0x4E0B, 0x6302, 0x8D77, 0x4E2D, 0x7684, 0x540E, 0x53F0, 0x4EFB, 0x52A1,
       0x5904, 0x7406, 0x7ED3, 0x679C, 0x5982, 0x4E0B, 0xFF08, 0x6302, 0x8D77, 0x65F6, 0x957F, 0x7EA6]
     @ cps '' '' @ cps (show_int secs) @ cps ''s''
     @ [0xFF09, 0xFF1A] @ [10] @ merged"

text \<open>One pending task: whether something else will answer it, and otherwise what is recorded and whether it is told.\<close>

definition answered_elsewhere :: "shell_view option \<Rightarrow> utext set \<Rightarrow> utext \<Rightarrow> bool" where
  "answered_elsewhere W covered i \<longleftrightarrow>
     (if is_shell_process_id i then (case W of Some w \<Rightarrow> sw_running w i | None \<Rightarrow> False) else i \<in> covered)"

definition lost_text :: "shell_view option \<Rightarrow> turn_suspension \<Rightarrow> utext \<Rightarrow> utext" where
  "lost_text W snapshot i =
     (if is_shell_process_id i then (case W of Some w \<Rightarrow> sw_lost w i | None \<Rightarrow> unknown_shell i)
      else interrupted_sub_agent i (case su_progress snapshot i of Some ls \<Rightarrow> ls | None \<Rightarrow> []))"

definition untold :: "shell_view option \<Rightarrow> utext \<Rightarrow> bool" where
  "untold W i \<longleftrightarrow> is_shell_process_id i \<and> (case W of Some w \<Rightarrow> is_stale_lost_notice w i | None \<Rightarrow> False)"

primrec fail_pending ::
  "shell_view option \<Rightarrow> utext set \<Rightarrow> turn_suspension \<Rightarrow> nat \<Rightarrow> utext list \<Rightarrow> susp_state \<Rightarrow> utext list \<times> susp_state" where
  "fail_pending W covered snapshot now [] st = ([], st)"
| "fail_pending W covered snapshot now (i # ids) st =
     (if answered_elsewhere W covered i then fail_pending W covered snapshot now ids st
      else case record_terminal now now i Sub_Failed (lost_text W snapshot i) 0 st of (r, st1) \<Rightarrow>
        (case fail_pending W covered snapshot now ids st1 of (failed, st2) \<Rightarrow>
           (case r of Term_Recorded s \<Rightarrow> if untold W i then failed else lost_text W snapshot i # failed | _ \<Rightarrow> failed, st2)))"

definition recover_suspension ::
  "shell_view option \<Rightarrow> utext set \<Rightarrow> nat \<Rightarrow> int \<Rightarrow> utext \<Rightarrow> coord \<Rightarrow> utext option \<times> coord" where
  "recover_suspension W covered now wall p c =
     (case sx_suspension (load_susp c p) of
        None \<Rightarrow> (None, c)
      | Some snapshot \<Rightarrow>
          (case fail_pending W covered snapshot now (su_pending snapshot) (load_susp c p) of (failed, st) \<Rightarrow>
             (if failed = [] then None
              else Some (suspension_recovery_notice (wall - int (su_at snapshot))
                     (concat (map (\<lambda>t. cps ''- '' @ t @ [10]) failed))),
              store_susp p st c)))"

subsection \<open>The whole start\<close>

definition suspended_on_disk :: "coord \<Rightarrow> utext \<Rightarrow> bool" where
  "suspended_on_disk c i = (case sx_file (dc_susp c i) of Json s \<Rightarrow> su_pending s \<noteq> [] | _ \<Rightarrow> False)"

definition should_recover_active_session :: "utext option \<Rightarrow> utext \<Rightarrow> chat_message list \<Rightarrow> bool \<Rightarrow> bool" where
  "should_recover_active_session active i h suspended \<longleftrightarrow>
     active = Some i \<and> h \<noteq> [] \<and> history_has_incomplete_turn h \<and> \<not> suspended"

text \<open>One session per owner, in the order of the sessions, with a channel to answer on.\<close>

primrec active_recoveries ::
  "(utext \<Rightarrow> 'm session) \<Rightarrow> (utext \<rightharpoonup> utext) \<Rightarrow> (utext \<times> utext) set \<Rightarrow> (utext \<Rightarrow> bool) \<Rightarrow> utext list \<Rightarrow> utext list \<Rightarrow> session_key list" where
  "active_recoveries current active channels suspended seen [] = []"
| "active_recoveries current active channels suspended seen (owner # owners) =
     (if owner \<in> set seen then active_recoveries current active channels suspended seen owners
      else
        (if should_recover_active_session (active owner) (s_id (current owner)) (s_history (current owner)) (suspended (s_id (current owner)))
         then (case session_key_parse owner of
                 Some k \<Rightarrow> if account_key k \<in> channels then [k] else []
               | None \<Rightarrow> [])
         else [])
        @ active_recoveries current active channels suspended (owner # seen) owners)"

primrec recover_suspensions ::
  "shell_view option \<Rightarrow> utext set \<Rightarrow> nat \<Rightarrow> int \<Rightarrow> utext list \<Rightarrow> coord \<Rightarrow> (utext \<times> utext) list \<times> coord" where
  "recover_suspensions W covered now wall [] c = ([], c)"
| "recover_suspensions W covered now wall (p # ps) c =
     (if \<not> context_known c p then recover_suspensions W covered now wall ps c
      else
        (case recover_suspension W covered now wall p c of (notice, c1) \<Rightarrow>
           (case recover_suspensions W covered now wall ps c1 of (notices, c2) \<Rightarrow>
              ((case notice of Some t \<Rightarrow> [(p, t)] | None \<Rightarrow> []) @ notices, c2))))"

definition covered_ids :: "coord \<Rightarrow> unfinished list \<Rightarrow> utext set" where
  "covered_ids c sas = uf_sub ` {sa \<in> set sas. uf_sub sa \<notin> terminal_checkpoint_ids c}"

definition run_startup ::
  "bool \<Rightarrow> (utext \<rightharpoonup> 'm session) \<Rightarrow> shell_view option \<Rightarrow> nat \<Rightarrow> int \<Rightarrow> nat \<Rightarrow> unfinished list \<Rightarrow> utext list \<Rightarrow> coord
     \<Rightarrow> (utext \<times> utext) list \<times> coord" where
  "run_startup delegator store W now wall h sas ids c =
     recover_suspensions W (covered_ids c sas) now wall (filter (suspended_on_disk c) ids)
       (start_subs delegator store (terminal_checkpoint_ids c) wall h sas c)"

subsection \<open>Settled suspensions\<close>

lemma fail_pending_collects:
  "snd (fail_pending W covered sn now ids st) =
     fold (\<lambda>i. collect_report (now, now, Sub_Failed, lost_text W sn i, 0) i)
       (filter (\<lambda>i. \<not> answered_elsewhere W covered i) ids) st"
proof (induction ids arbitrary: st)
  case (Cons i ids)
  have "snd (fail_pending W covered sn now (i # ids) st) =
      (if answered_elsewhere W covered i then snd (fail_pending W covered sn now ids st)
       else snd (fail_pending W covered sn now ids (collect_report (now, now, Sub_Failed, lost_text W sn i, 0) i st)))"
    by (simp add: collect_report_def split: prod.split)
  then show ?case using Cons by simp
qed simp

lemma fail_pending_frame:
  assumes "sx_hook st" "synced st"
  shows "sx_hook (snd (fail_pending W covered sn now ids st))" "synced (snd (fail_pending W covered sn now ids st))"
  using board.collect_all_ok [of st] assms unfolding fail_pending_collects by (simp_all add: susp_ok_def)

lemma fail_pending_sub: "set (pending_of (snd (fail_pending W covered sn now ids st))) \<subseteq> set (pending_of st)"
  unfolding fail_pending_collects using board.collect_all by fast

lemma fail_pending_gone:
  assumes "i \<in> set ids" "\<not> answered_elsewhere W covered i"
  shows "i \<notin> set (pending_of (snd (fail_pending W covered sn now ids st)))"
proof -
  have "i \<in> set (filter (\<lambda>i. \<not> answered_elsewhere W covered i) ids)" using assms by simp
  then show ?thesis unfolding fail_pending_collects using board.collect_all by fast
qed

lemma recover_suspension_settles:
  assumes "susps_ok c" "i \<in> pend c p" "\<not> answered_elsewhere W covered i"
  shows "i \<notin> pend (snd (recover_suspension W covered now wall p c)) p"
proof -
  obtain sn where sn: "sx_suspension (load_susp c p) = Some sn" "i \<in> set (su_pending sn)"
    using assms(2) by (cases "sx_suspension (load_susp c p)") (auto simp: pend_def pending_of_def)
  let ?st = "snd (fail_pending W covered sn now (su_pending sn) (load_susp c p))"
  have "snd (recover_suspension W covered now wall p c) = store_susp p ?st c"
    by (simp add: recover_suspension_def sn split: prod.split)
  moreover have "sx_hook ?st" "synced ?st" using load_susp_ok [OF assms(1), of p] by (simp_all add: fail_pending_frame)
  ultimately show ?thesis
    using pend_store [OF assms(1), of ?st p p] fail_pending_gone [OF sn(2) assms(3)] by simp
qed

lemma recover_suspension_frame:
  assumes "susps_ok c" and d_def: "d = snd (recover_suspension W covered now wall p c)"
  shows "susps_ok d" "pend d q \<subseteq> pend c q" "dc_events d = dc_events c" "dc_running d = dc_running c"
    "dc_registered d = dc_registered c" "dc_parents d = dc_parents c" "dc_checkpoints d = dc_checkpoints c"
proof -
  have "susps_ok d \<and> pend d q \<subseteq> pend c q \<and> dc_events d = dc_events c \<and> dc_running d = dc_running c
      \<and> dc_registered d = dc_registered c \<and> dc_parents d = dc_parents c \<and> dc_checkpoints d = dc_checkpoints c"
  proof (cases "sx_suspension (load_susp c p)")
    case None
    then show ?thesis using assms by (simp add: recover_suspension_def)
  next
    case (Some sn)
    let ?st = "snd (fail_pending W covered sn now (su_pending sn) (load_susp c p))"
    have d: "d = store_susp p ?st c" by (simp add: d_def recover_suspension_def Some split: prod.split)
    have st: "sx_hook ?st" "synced ?st" using load_susp_ok [OF assms(1), of p] by (simp_all add: fail_pending_frame)
    have "set (pending_of ?st) \<subseteq> pend c p"
      using fail_pending_sub [of W covered sn now "su_pending sn" "load_susp c p"] by (simp add: pend_def)
    then show ?thesis using pend_store [OF assms(1) st] store_susps_ok [OF assms(1) st] by (auto simp: d)
  qed
  then show "susps_ok d" "pend d q \<subseteq> pend c q" "dc_events d = dc_events c" "dc_running d = dc_running c"
    "dc_registered d = dc_registered c" "dc_parents d = dc_parents c" "dc_checkpoints d = dc_checkpoints c" by auto
qed

lemma recover_suspensions_frame:
  assumes "susps_ok c"
  shows "dc_events (snd (recover_suspensions W covered now wall ps c)) = dc_events c
    \<and> dc_running (snd (recover_suspensions W covered now wall ps c)) = dc_running c
    \<and> pend (snd (recover_suspensions W covered now wall ps c)) q \<subseteq> pend c q"
  using assms
proof (induction ps arbitrary: c)
  case (Cons p ps)
  let ?d = "snd (recover_suspension W covered now wall p c)"
  note fr = recover_suspension_frame [OF Cons.prems refl, where W = W and covered = covered and now = now and wall = wall and p = p]
  have e: "snd (recover_suspensions W covered now wall (p # ps) c) =
      snd (recover_suspensions W covered now wall ps (if context_known c p then ?d else c))"
    by (simp split: prod.split)
  show ?case
  proof (cases "context_known c p")
    case True
    with Cons.IH [OF fr(1)] fr(3,4) order_trans [OF _ fr(2)] show ?thesis unfolding e by simp
  next
    case False
    with Cons.IH [OF Cons.prems] show ?thesis unfolding e by simp
  qed
qed simp

lemma recover_suspensions_settle:
  assumes "susps_ok c" "p \<in> set ps" "context_known c p" "i \<in> pend c p" "\<not> answered_elsewhere W covered i"
  shows "i \<notin> pend (snd (recover_suspensions W covered now wall ps c)) p"
  using assms
proof (induction ps arbitrary: c)
  case (Cons q ps)
  let ?d = "snd (recover_suspension W covered now wall q c)"
  note fr = recover_suspension_frame [OF Cons.prems(1) refl, where W = W and covered = covered and now = now and wall = wall and p = q]
  have e: "snd (recover_suspensions W covered now wall (q # ps) c) =
      snd (recover_suspensions W covered now wall ps (if context_known c q then ?d else c))"
    by (simp split: prod.split)
  show ?case
  proof (cases "q = p")
    case True
    then have "i \<notin> pend ?d p" using recover_suspension_settles [OF Cons.prems(1,4,5)] by simp
    moreover have "pend (snd (recover_suspensions W covered now wall ps ?d)) p \<subseteq> pend ?d p"
      using recover_suspensions_frame [OF fr(1)] by blast
    ultimately show ?thesis unfolding e using True Cons.prems(3) by auto
  next
    case False
    show ?thesis
    proof (cases "i \<in> pend ?d p")
      case True
      have "context_known ?d p" using Cons.prems(3) fr(5,6) by (simp add: context_known_def)
      with True False Cons fr(1) show ?thesis unfolding e by auto
    next
      case gone: False
      moreover have "pend (snd (recover_suspensions W covered now wall ps ?d)) p \<subseteq> pend ?d p"
        using recover_suspensions_frame [OF fr(1)] by blast
      ultimately show ?thesis using False Cons unfolding e by auto
    qed
  qed
qed simp

subsection \<open>Covered sub-agents\<close>

text \<open>The task \<open>i\<close> runs for the session \<open>p\<close>, or its terminal event is on the way to that session.\<close>

definition will_report :: "coord \<Rightarrow> utext \<Rightarrow> utext \<Rightarrow> bool" where
  "will_report c i p \<longleftrightarrow> (\<exists>e. dc_running c i = Some e \<and> re_parent e = p)
     \<or> (\<exists>e \<in> set (dc_events c). event_terminal e = Some (i, p))"

text \<open>What each decision does to the coordinator.\<close>

definition coord_grows :: "coord \<Rightarrow> coord \<Rightarrow> bool" where
  "coord_grows c d \<longleftrightarrow> dc_wired d = dc_wired c \<and> dc_runtime d = dc_runtime c \<and> dc_susp d = dc_susp c
     \<and> dc_registered d = dc_registered c \<and> dc_parents d = dc_parents c \<and> set (dc_events c) \<subseteq> set (dc_events d)"

lemma coord_grows_trans: "coord_grows c d \<Longrightarrow> coord_grows d f \<Longrightarrow> coord_grows c f"
  unfolding coord_grows_def by (metis order_trans)

lemma start_sub_grows: "coord_grows c (start_sub delegator now h sa d c)"
  by (auto simp: coord_grows_def start_sub_def delete_checkpoint_def sink_fail_def send_event_def recover_async_def
      insert_entry_def Let_def split: sub_decision.split)

lemma start_subs_grow: "coord_grows c (start_subs delegator store terminal now h sas c)"
proof (induction sas arbitrary: c h)
  case (Cons sa sas)
  show ?case unfolding start_subs.simps by (rule coord_grows_trans [OF start_sub_grows Cons.IH])
qed (simp add: coord_grows_def)

lemma start_sub_running:
  "dc_running (start_sub delegator now h sa d c) i = dc_running c i
   \<or> uf_sub sa = i \<and> (\<exists>e. dc_running (start_sub delegator now h sa d c) i = Some e \<and> re_parent e = uf_parent sa)"
  by (auto simp: start_sub_def delete_checkpoint_def sink_fail_def send_event_def recover_async_def insert_entry_def
      new_entry_def Let_def split: sub_decision.split)

text \<open>Sub-agents found twice are found with the same parent.\<close>

lemma will_report_kept:
  assumes "will_report c i p" "uf_sub sa = i \<longrightarrow> uf_parent sa = p"
  shows "will_report (start_sub delegator now h sa d c) i p"
  using assms start_sub_running [of delegator now h sa d c i] start_sub_grows [of c delegator now h sa d]
  by (auto simp: will_report_def coord_grows_def)

lemma will_report_all:
  assumes "will_report c i p" "\<forall>sa \<in> set sas. uf_sub sa = i \<longrightarrow> uf_parent sa = p"
  shows "will_report (start_subs delegator store terminal now h sas c) i p"
  using assms
proof (induction sas arbitrary: c h)
  case (Cons sa sas)
  then show ?case using will_report_kept [OF Cons.prems(1), of sa] by simp
qed simp

lemma start_sub_reports:
  assumes "uf_sub sa \<notin> terminal" "uf_sub sa \<noteq> []" "uf_parent sa \<noteq> []" "dc_wired c" "dc_runtime c"
  shows "will_report (start_sub True now h sa (decide_sub True terminal now cp s sa) c) (uf_sub sa) (uf_parent sa)"
  using assms
  by (simp add: decide_sub_def start_sub_def sink_fail_def send_event_def will_report_def event_terminal_def
      recover_async_def insert_entry_def new_entry_def Let_def)

lemma start_subs_report:
  assumes "sa \<in> set sas" "uf_sub sa \<notin> terminal" "uf_sub sa \<noteq> []" "uf_parent sa \<noteq> []" "dc_wired c" "dc_runtime c"
    and "\<forall>sb \<in> set sas. uf_sub sb = uf_sub sa \<longrightarrow> uf_parent sb = uf_parent sa"
  shows "will_report (start_subs True store terminal now h sas c) (uf_sub sa) (uf_parent sa)"
  using assms
proof (induction sas arbitrary: c h)
  case Nil
  from Nil.prems(1) show ?case by simp
next
  case (Cons sb sas)
  let ?d = "start_sub True now h sb (decide_sub True terminal now (dc_checkpoints c (uf_sub sb)) (store (uf_sub sb)) sb) c"
  have g: "coord_grows c ?d" by (rule start_sub_grows)
  show ?case
  proof (cases "sb = sa")
    case True
    then have "will_report ?d (uf_sub sa) (uf_parent sa)"
      using start_sub_reports [OF Cons.prems(2-6)] by simp
    moreover have "\<forall>sb \<in> set sas. uf_sub sb = uf_sub sa \<longrightarrow> uf_parent sb = uf_parent sa"
      using Cons.prems(7) by (meson list.set_intros(2))
    ultimately show ?thesis unfolding start_subs.simps by (rule will_report_all)
  next
    case False
    then have m: "sa \<in> set sas" using Cons.prems(1) by auto
    have c: "\<forall>sb \<in> set sas. uf_sub sb = uf_sub sa \<longrightarrow> uf_parent sb = uf_parent sa"
      using Cons.prems(7) by (meson list.set_intros(2))
    from Cons.prems(5,6) g have w: "dc_wired ?d" "dc_runtime ?d" by (simp_all add: coord_grows_def)
    show ?thesis unfolding start_subs.simps by (rule Cons.IH [OF m Cons.prems(2-4) w c])
  qed
qed

text \<open>What the scan finds comes from the stored sessions.\<close>

lemma scan_found:
  "sa \<in> set (scan_unfinished store target args ids) \<Longrightarrow>
     \<exists>j s. store j = Some s \<and> s_parent s = Some (uf_parent sa) \<and> uf_sub sa = s_id s \<and> uf_parent sa \<noteq> []"
proof (induction ids)
  case (Cons j ids)
  have "uf_parent (unfinished_of store target args s q) = q" "uf_sub (unfinished_of store target args s q) = s_id s" for s q
    by (simp_all add: unfinished_of_def split: prod.split)
  moreover have "sa \<in> set (scan_unfinished store target args ids)
      \<or> (\<exists>s q. store j = Some s \<and> s_parent s = Some q \<and> q \<noteq> [] \<and> sa = unfinished_of store target args s q)"
    using Cons.prems by (cases "store j"; cases "s_parent (the (store j))") (auto split: if_splits)
  ultimately show ?case using Cons.IH by metis
qed simp

lemma scan_parent:
  assumes "\<forall>j s. store j = Some s \<longrightarrow> s_id s = j" "\<forall>s. store i = Some s \<longrightarrow> s_parent s = Some p"
    and "sa \<in> set (scan_unfinished store target args ids)" "uf_sub sa = i"
  shows "uf_parent sa = p" "uf_parent sa \<noteq> []"
proof -
  obtain j s where j: "store j = Some s" "s_parent s = Some (uf_parent sa)" "uf_sub sa = s_id s" "uf_parent sa \<noteq> []"
    using scan_found [OF assms(3)] by auto
  then have "j = i" using assms(1,4) by auto
  with j assms(2) show "uf_parent sa = p" "uf_parent sa \<noteq> []" by auto
qed

text \<open>C33: A restart with a coordinator leaves no delegation waiting in vain: for any stored sessions - of which the one of a task has as its parent the session that waits for it -, checkpoints and suspensions, after startup each task that a suspended session was waiting for is either settled in that suspension, or answered by a shell process that still runs, or it was found unfinished and now runs for the very session that waits, or its terminal event is on the way to that session.  (Without a coordinator nothing resumes what the scan found, and nothing fails it.)\<close>

theorem startup_answers_pending:
  assumes "dc_wired c" "dc_runtime c" "susps_ok c" "p \<in> set ids" "suspended_on_disk c p" "context_known c p"
    and "i \<in> set (pending_of (load_susp c p))"
    and "\<forall>j s. store j = Some s \<longrightarrow> s_id s = j" "\<forall>s. store i = Some s \<longrightarrow> s_parent s = Some p" "i \<noteq> []"
    and "d = snd (run_startup True store W now wall h (scan_unfinished store target args ids) ids c)"
  shows "i \<notin> set (pending_of (load_susp d p))
    \<or> is_shell_process_id i \<and> (\<exists>w. W = Some w \<and> sw_running w i)
    \<or> will_report d i p"
proof -
  let ?T = "terminal_checkpoint_ids c" and ?sas = "scan_unfinished store target args ids"
  let ?c1 = "start_subs True store ?T wall h ?sas c"
  let ?ps = "filter (suspended_on_disk c) ids"
  let ?c2 = "snd (recover_suspensions W (covered_ids c ?sas) now wall ?ps ?c1)"
  have r: "d = ?c2" by (simp add: assms(11) run_startup_def)
  note g = start_subs_grow [of c True store ?T wall h ?sas, unfolded coord_grows_def]
  have ok: "susps_ok ?c1" using g assms(3) by (simp add: susps_ok_def)
  have i: "i \<in> pend ?c1 p" using assms(7) load_susp_frame [of ?c1 c p] g by (simp add: pend_def)
  have known: "context_known ?c1 p" using g assms(6) by (simp add: context_known_def)
  have p: "p \<in> set ?ps" using assms(4,5) by simp
  show ?thesis
  proof (cases "answered_elsewhere W (covered_ids c ?sas) i")
    case False
    then show ?thesis using recover_suspensions_settle [OF ok p known i False] unfolding r by (simp add: pend_def)
  next
    case True
    show ?thesis
    proof (cases "is_shell_process_id i")
      case True
      with \<open>answered_elsewhere W (covered_ids c ?sas) i\<close> show ?thesis by (auto simp: answered_elsewhere_def split: option.splits)
    next
      case False
      with True have "i \<in> covered_ids c ?sas" by (simp add: answered_elsewhere_def)
      then obtain sa where sa: "sa \<in> set ?sas" "uf_sub sa = i" "uf_sub sa \<notin> ?T" by (auto simp: covered_ids_def)
      note q = scan_parent [OF assms(8,9)]
      have "will_report ?c1 (uf_sub sa) (uf_parent sa)"
        by (rule start_subs_report [OF sa(1,3) _ _ assms(1,2)]) (use sa q assms(10) in auto)
      with q(1) [OF sa(1,2)] sa(2) have "will_report ?c1 i p" by simp
      then have "will_report ?c2 i p" using recover_suspensions_frame [OF ok] by (simp add: will_report_def)
      then show ?thesis unfolding r by blast
    qed
  qed
qed

subsection \<open>Tombstones last for one restart\<close>

lemma start_sub_checkpoints:
  "dc_checkpoints (start_sub delegator now h sa d c) = (if d = Sub_Tombstone then (dc_checkpoints c)(uf_sub sa := None) else dc_checkpoints c)"
  by (auto simp: start_sub_def delete_checkpoint_def sink_fail_def send_event_def recover_async_def insert_entry_def Let_def
      split: sub_decision.split)

lemma start_subs_checkpoint_None:
  "dc_checkpoints c i = None \<Longrightarrow> dc_checkpoints (start_subs delegator store terminal now h sas c) i = None"
  by (induction sas arbitrary: c h) (auto simp: start_sub_checkpoints)

lemma start_subs_tombstone:
  assumes "sa \<in> set sas" "uf_sub sa \<noteq> []" "uf_parent sa \<noteq> []" "uf_sub sa \<in> terminal"
  shows "dc_checkpoints (start_subs delegator store terminal now h sas c) (uf_sub sa) = None"
  using assms
proof (induction sas arbitrary: c h)
  case (Cons sb sas)
  show ?case
  proof (cases "sb = sa")
    case True
    with Cons.prems have "decide_sub delegator terminal now cp s sb = Sub_Tombstone" for cp and s :: "'a session option"
      by (simp add: decide_sub_def)
    with True show ?thesis by (simp add: start_subs_checkpoint_None start_sub_checkpoints)
  next
    case False
    with Cons show ?thesis by simp
  qed
qed simp

text \<open>C34: The tombstone of a finished delegation protects it from being run again for one restart only.  A sub-agent that failed, timed out or was cancelled in the middle of its turn is skipped by the first startup, which deletes its checkpoint: it can no longer be resumed on request, and the next startup takes it for a crash and runs it again with its full time budget.\<close>

theorem tombstone_lasts_one_restart:
  assumes "sa \<in> set sas" "uf_sub sa \<noteq> []" "uf_parent sa \<noteq> []"
    and "dc_checkpoints c (uf_sub sa) = Some cp" "cp_status cp = status_str x" "is_terminal x"
    and "needs_recovery (store (uf_sub sa))"
    and c1_def: "c1 = start_subs True store (terminal_checkpoint_ids c) now h sas c"
  shows "decide_sub True (terminal_checkpoint_ids c) now (dc_checkpoints c (uf_sub sa)) (store (uf_sub sa)) sa = Sub_Tombstone
    \<and> (dc_running c1 (uf_sub sa) = None \<longrightarrow> fst (resume_timed_out tick (uf_sub sa) extra later c1) = Inl (no_checkpoint (uf_sub sa)))
    \<and> decide_sub True (terminal_checkpoint_ids c1) later (dc_checkpoints c1 (uf_sub sa)) (store (uf_sub sa)) sa = Sub_Resume (uf_timeout sa)"
proof -
  have t: "uf_sub sa \<in> terminal_checkpoint_ids c" using assms(4-6) terminal_status [of x] by (auto simp: terminal_checkpoint_ids_def)
  have n: "dc_checkpoints c1 (uf_sub sa) = None" unfolding c1_def by (rule start_subs_tombstone [OF assms(1-3) t])
  then have "uf_sub sa \<notin> terminal_checkpoint_ids c1" by (simp add: terminal_checkpoint_ids_def)
  with t n assms(2,3,7) show ?thesis by (simp add: decide_sub_def resume_timed_out_def)
qed

subsection \<open>Instances\<close>

text \<open>A main agent suspended on one sub-agent, which had called a tool when the daemon stopped.\<close>

definition stopped_session :: "unit session" where
  "stopped_session = (new_session [115])\<lparr>s_parent := Some [109], s_history := [user_text [104]]\<rparr>"

definition stopped_store :: "utext \<rightharpoonup> unit session" where
  "stopped_store = [[109] \<mapsto> new_session [109], [115] \<mapsto> stopped_session]"

definition stopped_subs :: "unfinished list" where
  "stopped_subs = scan_unfinished stopped_store (\<lambda>_. None) (\<lambda>_. None) [[109], [115]]"

definition stopped_coord :: "deleg_status \<Rightarrow> coord" where
  "stopped_coord x = demo_coord\<lparr>dc_parents := [[109] \<mapsto> None, [115] \<mapsto> Some [109]], dc_registered := {},
     dc_susp := (\<lambda>p. (new_context True No_File)\<lparr>sx_file := if p = [109] then Json (new_suspension 5 [115]) else No_File\<rparr>),
     dc_checkpoints := [[115] \<mapsto> \<lparr>cp_parent = [109], cp_sub = [115], cp_agent = [99], cp_status = status_str x,
       cp_started = 0, cp_timeout = 600, cp_tools = None, cp_last = None\<rparr>]\<rparr>"

lemma stopped_subs: "stopped_subs = [unfinished_of stopped_store (\<lambda>_. None) (\<lambda>_. None) stopped_session [109]]"
  by (simp add: stopped_subs_def stopped_store_def new_session_def may_need_recovery_def stopped_session_def user_text_def)

lemma stopped_sub: "\<forall>sa \<in> set stopped_subs. uf_sub sa = [115] \<and> uf_parent sa = [109] \<and> uf_timeout sa = 600"
  by (simp add: stopped_subs unfinished_of_def stopped_session_def new_session_def)

lemma startup_answers_pending_witness:
  "[115] \<in> - set (pending_of (load_susp (snd (run_startup True stopped_store None 0 9 0 stopped_subs [[109], [115]] (stopped_coord Ds_Running))) [109]))
   \<or> will_report (snd (run_startup True stopped_store None 0 9 0 stopped_subs [[109], [115]] (stopped_coord Ds_Running))) [115] [109]"
proof -
  have "dc_wired (stopped_coord Ds_Running)" "dc_runtime (stopped_coord Ds_Running)" "susps_ok (stopped_coord Ds_Running)"
    "[109] \<in> set [[109], [115 :: nat]]" "suspended_on_disk (stopped_coord Ds_Running) [109]" "context_known (stopped_coord Ds_Running) [109]"
    "[115] \<in> set (pending_of (load_susp (stopped_coord Ds_Running) [109]))"
    by (simp_all add: stopped_coord_def demo_coord_def susps_ok_def new_context_def suspended_on_disk_def context_known_def
      load_susp_def fresh_susp_def pending_of_def restore_field_def new_suspension_def)
  moreover have "\<forall>j s. stopped_store j = Some s \<longrightarrow> s_id s = j" "\<forall>s. stopped_store [115] = Some s \<longrightarrow> s_parent s = Some [109]" "[115 :: nat] \<noteq> []"
    by (simp_all add: stopped_store_def stopped_session_def new_session_def)
  ultimately have "[115] \<notin> set (pending_of (load_susp (snd (run_startup True stopped_store None 0 9 0
        (scan_unfinished stopped_store (\<lambda>_. None) (\<lambda>_. None) [[109], [115]]) [[109], [115]] (stopped_coord Ds_Running))) [109]))
      \<or> is_shell_process_id [115] \<and> (\<exists>w. (None :: shell_view option) = Some w \<and> sw_running w [115])
      \<or> will_report (snd (run_startup True stopped_store None 0 9 0
        (scan_unfinished stopped_store (\<lambda>_. None) (\<lambda>_. None) [[109], [115]]) [[109], [115]] (stopped_coord Ds_Running))) [115] [109]"
    by (rule startup_answers_pending [OF _ _ _ _ _ _ _ _ _ _ refl])
  then show ?thesis unfolding stopped_subs_def by blast
qed

lemma tombstone_lasts_one_restart_witness:
  "\<exists>sa \<in> set stopped_subs. decide_sub True
     (terminal_checkpoint_ids (start_subs True stopped_store (terminal_checkpoint_ids (stopped_coord Ds_Cancelled)) 9 0 stopped_subs (stopped_coord Ds_Cancelled)))
     99 (dc_checkpoints (start_subs True stopped_store (terminal_checkpoint_ids (stopped_coord Ds_Cancelled)) 9 0 stopped_subs (stopped_coord Ds_Cancelled)) (uf_sub sa))
     (stopped_store (uf_sub sa)) sa = Sub_Resume 600"
proof -
  obtain sa where sa: "sa \<in> set stopped_subs" by (auto simp: stopped_subs)
  with stopped_sub have f: "uf_sub sa = [115]" "uf_parent sa = [109]" "uf_timeout sa = 600" by auto
  have "needs_recovery (stopped_store (uf_sub sa))"
    by (simp add: f stopped_store_def needs_recovery_def stopped_session_def history_has_incomplete_turn_def user_text_def)
  moreover have "dc_checkpoints (stopped_coord Ds_Cancelled) (uf_sub sa) = Some \<lparr>cp_parent = [109], cp_sub = [115], cp_agent = [99],
      cp_status = status_str Ds_Cancelled, cp_started = 0, cp_timeout = 600, cp_tools = None, cp_last = None\<rparr>"
    by (simp add: f stopped_coord_def)
  ultimately show ?thesis
    using tombstone_lasts_one_restart [OF sa, where c = "stopped_coord Ds_Cancelled" and x = Ds_Cancelled and store = stopped_store
        and now = 9 and h = 0 and later = 99] f sa
    by (intro bexI [OF _ sa]) simp
qed

end
