(* ===== verification/Json_Value.thy ===== *)
theory Json_Value
  imports Unicode
begin

text \<open>
  JSON values as the scheduler, its tool and the webhook server read them: the constructors of
  \<open>serde_json::Value\<close> the source matches on, a number being its text and its reading as \<open>u64\<close>, and the
  accessors \<open>get\<close>, \<open>as_str\<close>, \<open>as_bool\<close>, \<open>as_u64\<close>, \<open>as_array\<close> and \<open>as_object\<close>.  Parsing and printing are
  arguments of the operations that need them.
\<close>

datatype json =
    JNull
  | JBool bool
  | JNumber utext "nat option"
  | JString utext
  | JArray "json list"
  | JObject "(utext \<times> json) list"

fun as_object :: "json \<Rightarrow> (utext \<times> json) list option" where
  "as_object (JObject kvs) = Some kvs"
| "as_object _ = None"

fun as_array :: "json \<Rightarrow> json list option" where
  "as_array (JArray vs) = Some vs"
| "as_array _ = None"

fun as_str :: "json \<Rightarrow> utext option" where
  "as_str (JString t) = Some t"
| "as_str _ = None"

fun as_bool :: "json \<Rightarrow> bool option" where
  "as_bool (JBool b) = Some b"
| "as_bool _ = None"

fun as_u64 :: "json \<Rightarrow> nat option" where
  "as_u64 (JNumber t n) = n"
| "as_u64 _ = None"

definition jget :: "json \<Rightarrow> utext \<Rightarrow> json option" where
  "jget v k = (case as_object v of Some kvs \<Rightarrow> map_of kvs k | None \<Rightarrow> None)"

definition jindex :: "json \<Rightarrow> nat \<Rightarrow> json option" where
  "jindex v i = (case as_array v of Some vs \<Rightarrow> if i < length vs then Some (vs ! i) else None | None \<Rightarrow> None)"

definition get_str :: "json \<Rightarrow> string \<Rightarrow> utext option" where
  "get_str v k = Option.bind (jget v (cps k)) as_str"

definition get_bool :: "json \<Rightarrow> string \<Rightarrow> bool option" where
  "get_bool v k = Option.bind (jget v (cps k)) as_bool"

definition get_u64 :: "json \<Rightarrow> string \<Rightarrow> nat option" where
  "get_u64 v k = Option.bind (jget v (cps k)) as_u64"

lemma jget_simps [simp]:
  "jget (JObject kvs) k = map_of kvs k" "jget JNull k = None" "jget (JBool b) k = None"
  "jget (JNumber t n) k = None" "jget (JString t) k = None" "jget (JArray vs) k = None"
  by (simp_all add: jget_def)

text \<open>Insertion into and removal from an object.\<close>

definition put_key :: "utext \<Rightarrow> json \<Rightarrow> (utext \<times> json) list \<Rightarrow> (utext \<times> json) list" where
  "put_key k v kvs = (if k \<in> fst ` set kvs then map (\<lambda>p. if fst p = k then (k, v) else p) kvs else kvs @ [(k, v)])"

definition remove_key :: "utext \<Rightarrow> (utext \<times> json) list \<Rightarrow> (utext \<times> json) list" where
  "remove_key k kvs = filter (\<lambda>p. fst p \<noteq> k) kvs"

lemma map_of_replace:
  "map_of (map (\<lambda>p. if fst p = k then (k, v) else p) kvs) x
     = (if x = k then map_option (\<lambda>_. v) (map_of kvs x) else map_of kvs x)"
  by (induction kvs) auto

lemma map_of_put_key: "map_of (put_key k v kvs) = (map_of kvs)(k \<mapsto> v)"
proof
  fix x
  show "map_of (put_key k v kvs) x = ((map_of kvs)(k \<mapsto> v)) x"
  proof (cases "k \<in> fst ` set kvs")
    case True
    then obtain u where "map_of kvs k = Some u" by (cases "map_of kvs k") (auto simp: map_of_eq_None_iff)
    with True show ?thesis by (simp add: put_key_def map_of_replace)
  next
    case False
    then have "map_of kvs k = None" by (simp add: map_of_eq_None_iff)
    with False show ?thesis by (auto simp: put_key_def map_add_def split: option.split)
  qed
qed

lemma map_of_remove_key: "map_of (remove_key k kvs) = (map_of kvs)(k := None)"
  by (rule ext) (induction kvs; simp add: remove_key_def)

end
