(* ===== verification/Schedule.thy ===== *)
theory Schedule
  imports Json_Value Ids Fold
begin

text \<open>
  The data of a scheduled job and the pure functions on it (\<open>scheduling_types/cron_types.rs\<close>,
  \<open>scheduling_types/job_types.rs\<close>, \<open>scheduling_runtime/scheduler/timing.rs\<close>).  The crates chrono, chrono-tz and
  cron are the record \<open>time_lib\<close>: RFC 3339 texts are parsed to and printed from nanoseconds since the epoch.
\<close>

subsection \<open>Data\<close>

datatype delivery_mode = Mode_Last | Mode_None | Mode_Fixed

record delivery_config =
  dl_mode :: delivery_mode
  dl_channel :: "utext option"
  dl_account :: "utext option"
  dl_to :: "utext option"
  dl_thread :: "utext option"

definition default_delivery :: delivery_config where
  "default_delivery = \<lparr>dl_mode = Mode_Last, dl_channel = None, dl_account = None, dl_to = None, dl_thread = None\<rparr>"

record retry_config =
  rc_attempts :: nat
  rc_backoff :: "nat list"

definition default_retry :: retry_config where
  "default_retry = \<lparr>rc_attempts = 3, rc_backoff = [30000, 60000, 300000]\<rparr>"

record failure_alert =
  fa_after :: nat
  fa_cooldown :: nat
  fa_skipped :: bool

definition default_failure_alert :: failure_alert where
  "default_failure_alert = \<lparr>fa_after = 3, fa_cooldown = 3600, fa_skipped = False\<rparr>"

datatype run_status = Run_Ok | Run_Error | Run_Timeout | Run_Skipped

primrec run_status_str :: "run_status \<Rightarrow> utext" where
  "run_status_str Run_Ok = cps ''ok''"
| "run_status_str Run_Error = cps ''error''"
| "run_status_str Run_Timeout = cps ''timeout''"
| "run_status_str Run_Skipped = cps ''skipped''"

record run_record =
  rr_run_at :: utext
  rr_status :: run_status
  rr_trigger :: "utext option"
  rr_duration :: nat
  rr_preview :: utext
  rr_error :: "utext option"
  rr_input :: nat
  rr_output :: nat
  rr_payload :: "utext option"
  rr_prompt_head :: "utext option"

definition with_error :: "utext \<Rightarrow> run_record \<Rightarrow> run_record" where
  "with_error e r = r\<lparr>rr_error := Some e\<rparr>"

definition with_duration :: "nat \<Rightarrow> run_record \<Rightarrow> run_record" where
  "with_duration ms r = r\<lparr>rr_duration := ms\<rparr>"

definition with_output_preview :: "utext \<Rightarrow> run_record \<Rightarrow> run_record" where
  "with_output_preview t r = r\<lparr>rr_preview := take 200 t\<rparr>"

definition with_trigger :: "utext \<Rightarrow> run_record \<Rightarrow> run_record" where
  "with_trigger t r = r\<lparr>rr_trigger := Some t\<rparr>"

datatype schedule_kind =
    Cron utext
  | Every nat
  | At utext

datatype schedule_spec =
    Legacy utext
  | Kind schedule_kind

definition cron_spec :: "utext \<Rightarrow> schedule_spec" where
  "cron_spec e = Kind (Cron e)"

primrec spec_kind :: "schedule_spec \<Rightarrow> schedule_kind" where
  "spec_kind (Legacy s) = Cron s"
| "spec_kind (Kind k) = k"

definition spec_is_at :: "schedule_spec \<Rightarrow> bool" where
  "spec_is_at s = (case spec_kind s of At _ \<Rightarrow> True | _ \<Rightarrow> False)"

definition spec_at_time :: "schedule_spec \<Rightarrow> utext option" where
  "spec_at_time s = (case s of Kind (At a) \<Rightarrow> Some a | _ \<Rightarrow> None)"

definition spec_describe :: "schedule_spec \<Rightarrow> utext" where
  "spec_describe s =
     (case spec_kind s of
        Cron e \<Rightarrow> e
      | Every ms \<Rightarrow> cps ''every '' @ cps (show_nat ms) @ cps ''ms''
      | At a \<Rightarrow> cps ''at '' @ a)"

record webhook_filter =
  wf_field :: utext
  wf_equals :: "utext option"
  wf_matches :: "utext option"
  wf_not :: bool

record webhook_def =
  wd_auth :: utext
  wd_secret :: utext
  wd_events :: "utext list option"
  wd_filters :: "webhook_filter list option"
  wd_payload_off :: bool

datatype context_policy = Inject | Isolated

record job_entry =
  je_id :: string
  je_schedule :: "schedule_spec option"
  je_prompt :: utext
  je_name :: "utext option"
  je_tz :: "utext option"
  je_hours :: "utext option"
  je_enabled :: bool
  je_last_run :: "utext option"
  je_next_run :: "utext option"
  je_created :: "utext option"
  je_delivery :: delivery_config
  je_last_runs :: "run_record list"
  je_allow :: "utext list option"
  je_deny :: "utext list option"
  je_retry :: "retry_config option"
  je_alert :: "failure_alert option"
  je_errors :: nat
  je_skipped :: nat
  je_max_runs :: "nat option"
  je_completed :: nat
  je_delete_after :: bool
  je_model :: "utext option"
  je_provider :: "utext option"
  je_last_alert :: "utext option"
  je_policy :: context_policy
  je_webhook :: "webhook_def option"
  je_creator :: "utext option"

record job_update =
  ju_name :: "utext option"
  ju_schedule :: "schedule_spec option option"
  ju_schedule_changed :: bool
  ju_webhook :: "webhook_def option option"
  ju_webhook_changed :: bool
  ju_prompt :: "utext option"
  ju_tz :: "utext option"
  ju_hours :: "utext option"
  ju_enabled :: "bool option"
  ju_delivery :: "delivery_config option"
  ju_allow :: "utext list option"
  ju_deny :: "utext list option"
  ju_retry :: "retry_config option"
  ju_alert :: "failure_alert option"
  ju_max_runs :: "nat option option"
  ju_delete_after :: "bool option"
  ju_model :: "utext option option"
  ju_provider :: "utext option option"
  ju_trigger_now :: bool

definition no_update :: job_update where
  "no_update = \<lparr>ju_name = None, ju_schedule = None, ju_schedule_changed = False, ju_webhook = None,
     ju_webhook_changed = False, ju_prompt = None, ju_tz = None, ju_hours = None, ju_enabled = None,
     ju_delivery = None, ju_allow = None, ju_deny = None, ju_retry = None, ju_alert = None,
     ju_max_runs = None, ju_delete_after = None, ju_model = None, ju_provider = None, ju_trigger_now = False\<rparr>"

record removal_audit =
  ra_id :: string
  ra_name :: utext
  ra_count :: nat
  ra_status :: "utext option"
  ra_preview :: "utext option"

definition capture_audit :: "string \<Rightarrow> utext option \<Rightarrow> run_record list \<Rightarrow> removal_audit" where
  "capture_audit i name runs =
     \<lparr>ra_id = i, ra_name = (case name of Some n \<Rightarrow> n | None \<Rightarrow> cps i), ra_count = length runs,
      ra_status = (case runs of [] \<Rightarrow> None | r # _ \<Rightarrow> Some (run_status_str (rr_status r))),
      ra_preview = (case runs of [] \<Rightarrow> None | r # _ \<Rightarrow> Some (rr_preview r))\<rparr>"

subsection \<open>Prompt scan\<close>

definition role_hijack :: "utext list" where
  "role_hijack =
     [cps ''ignore previous'', cps ''ignore all instructions'', cps ''you are now'', cps ''system prompt'',
      [0x5FFD, 0x7565, 0x4E4B, 0x524D], [0x5FFD, 0x7565, 0x6240, 0x6709], [0x4F60, 0x73B0, 0x5728, 0x662F], [0x4F60, 0x7684, 0x65B0, 0x89D2, 0x8272],
      cps ''disregard your'', cps ''override your instructions'', cps ''forget your instructions'', cps ''new instructions'']"

definition exfiltration :: "utext list" where
  "exfiltration =
     [cps ''send to http'', cps ''post to http'', cps ''curl -x post'', cps ''wget --post'',
      [0x53D1, 0x9001, 0x5230] @ cps ''http'', [0x4E0A, 0x4F20, 0x5230] @ cps ''http'']"

text \<open>The lower case of a character outside ASCII is never one of the letters of these patterns (the
  Kelvin sign gives a \<open>k\<close>, the dotted capital I an \<open>i\<close> with a combining dot after it), so that ASCII lower
  case decides.\<close>

definition scan_prompt_injection :: "utext \<Rightarrow> utext + unit" where
  "scan_prompt_injection prompt =
     (let low = map lower_cp prompt in
      case find (contains low) role_hijack of
        Some p \<Rightarrow> Inl (cps ''prompt injection detected (role hijack): '' @ [39] @ p @ [39])
      | None \<Rightarrow>
          (case find (contains low) exfiltration of
             Some p \<Rightarrow> Inl (cps ''prompt injection detected (exfiltration): '' @ [39] @ p @ [39])
           | None \<Rightarrow> Inr ()))"

subsection \<open>Weekdays\<close>

text \<open>\<open>split_whitespace\<close>, and \<open>parse::<uN>\<close> of a text.\<close>

function split_ws :: "utext \<Rightarrow> utext list" where
  "split_ws [] = []"
| "split_ws (c # s) =
     (if is_space c then split_ws s
      else (c # takeWhile (\<lambda>x. \<not> is_space x) s) # split_ws (dropWhile (\<lambda>x. \<not> is_space x) s))"
  by pat_completeness auto
termination
  by (relation "measure length") (auto simp: le_imp_less_Suc length_dropWhile_le)

definition parse_num :: "nat \<Rightarrow> utext \<Rightarrow> nat option" where
  "parse_num w t = (if list_all (\<lambda>c. c < 128) t then parse_uint w (map char_of t) else None)"

definition shift_weekday_num :: "nat \<Rightarrow> nat" where
  "shift_weekday_num n = (if n = 0 \<or> n = 7 then 1 else if n \<le> 6 then n + 1 else n)"

definition shift_weekday_item :: "utext \<Rightarrow> utext" where
  "shift_weekday_item item =
     (case split_once 45 item of
        Some (s, e) \<Rightarrow>
          (case (parse_num 32 s, parse_num 32 e) of
             (Some a, Some b) \<Rightarrow> cps (show_nat (shift_weekday_num a)) @ 45 # cps (show_nat (shift_weekday_num b))
           | _ \<Rightarrow> item)
      | None \<Rightarrow>
          (case parse_num 32 item of
             Some n \<Rightarrow> cps (show_nat (shift_weekday_num n))
           | None \<Rightarrow> item))"

definition shift_weekday_segment :: "utext \<Rightarrow> utext" where
  "shift_weekday_segment s = join_with [44] (map shift_weekday_item (split_on 44 s))"

definition shift_weekday_field :: "utext \<Rightarrow> utext" where
  "shift_weekday_field w =
     join_with [47] (map (\<lambda>(i, s). if i = (1::nat) then s else shift_weekday_segment s) (enumerate 0 (split_on 47 w)))"

definition normalize_weekday_unix :: "utext \<Rightarrow> utext" where
  "normalize_weekday_unix schedule =
     (case split_ws schedule of
        [a, b, c, d, e, w] \<Rightarrow>
          if w = [42] then schedule
          else join_with [32] [a, b, c, d, e, shift_weekday_field w]
      | _ \<Rightarrow> schedule)"

subsection \<open>Time\<close>

record ('z, 'c) time_lib =
  tl_parse :: "utext \<Rightarrow> int option"
  tl_parse_error :: "utext \<Rightarrow> utext"
  tl_show :: "int \<Rightarrow> utext"
  tl_millis_ok :: "int \<Rightarrow> bool"
  tl_tz :: "utext \<Rightarrow> 'z option"
  tl_utc :: 'z
  tl_hour :: "'z \<Rightarrow> int \<Rightarrow> nat"
  tl_minute :: "'z \<Rightarrow> int \<Rightarrow> nat"
  tl_cron :: "utext \<Rightarrow> 'c option"
  tl_cron_error :: "utext \<Rightarrow> utext"
  tl_after :: "'c \<Rightarrow> 'z \<Rightarrow> int \<Rightarrow> int option"

definition validate_schedule :: "('z, 'c) time_lib \<Rightarrow> utext \<Rightarrow> utext + unit" where
  "validate_schedule T schedule =
     (let normalized = normalize_weekday_unix schedule in
      case tl_cron T normalized of
        Some _ \<Rightarrow> Inr ()
      | None \<Rightarrow> Inl (cps ''invalid cron expression '' @ [39] @ schedule @ [39] @ cps '': '' @ tl_cron_error T normalized))"

definition validate_at_timestamp :: "('z, 'c) time_lib \<Rightarrow> int \<Rightarrow> utext \<Rightarrow> utext + unit" where
  "validate_at_timestamp T now a =
     (case tl_parse T a of
        None \<Rightarrow> Inl (cps ''invalid ISO 8601 timestamp '' @ [39] @ a @ [39] @ cps '': '' @ tl_parse_error T a)
      | Some t \<Rightarrow>
          if t \<le> now then Inl (cps ''one-shot timestamp '' @ [39] @ a @ [39] @ cps '' is in the past'') else Inr ())"

definition validate_tz :: "('z, 'c) time_lib \<Rightarrow> utext \<Rightarrow> utext + unit" where
  "validate_tz T z = (case tl_tz T z of None \<Rightarrow> Inl (cps ''invalid IANA timezone '' @ [39] @ z @ [39]) | Some _ \<Rightarrow> Inr ())"

definition resolve_tz :: "('z, 'c) time_lib \<Rightarrow> utext \<Rightarrow> 'z" where
  "resolve_tz T z = (case tl_tz T z of Some x \<Rightarrow> x | None \<Rightarrow> tl_utc T)"

definition parse_hhmm :: "utext \<Rightarrow> nat option" where
  "parse_hhmm s =
     (case split_once 58 s of
        None \<Rightarrow> None
      | Some (h, m) \<Rightarrow>
          (case (parse_num 32 (trim h), parse_num 32 (trim m)) of
             (Some hours, Some mins) \<Rightarrow>
               if hours > 24 \<or> mins \<ge> 60 \<or> (hours = 24 \<and> mins > 0) then None
               else Some (hours * 60 + mins)
           | _ \<Rightarrow> None))"

definition parse_hours :: "utext \<Rightarrow> (nat \<times> nat) option" where
  "parse_hours s =
     (case split_once 45 s of
        None \<Rightarrow> None
      | Some (a, b) \<Rightarrow>
          (case (parse_hhmm (trim a), parse_hhmm (trim b)) of
             (Some x, Some y) \<Rightarrow> Some (x, y)
           | _ \<Rightarrow> None))"

definition validate_active_hours :: "utext \<Rightarrow> utext + unit" where
  "validate_active_hours hours =
     (case parse_hours hours of
        Some (a, b) \<Rightarrow>
          if a \<ge> b then Inl (cps ''active_hours start ('' @ cps (show_nat a) @ cps '') must be before end ('' @ cps (show_nat b) @ cps '')'')
          else Inr ()
      | None \<Rightarrow> Inl (cps ''invalid active_hours format '' @ [39] @ hours @ [39] @ cps '', expected '' @ [39] @ cps ''HH:MM-HH:MM'' @ [39]))"

definition is_active_hours :: "('z, 'c) time_lib \<Rightarrow> int \<Rightarrow> utext option \<Rightarrow> utext \<Rightarrow> bool" where
  "is_active_hours T now active_hours tz_name =
     (case active_hours of
        None \<Rightarrow> True
      | Some hours \<Rightarrow>
          (case parse_hours hours of
             None \<Rightarrow> True
           | Some (a, b) \<Rightarrow>
               let tz = resolve_tz T tz_name; now_mins = tl_hour T tz now * 60 + tl_minute T tz now in
               now_mins \<ge> a \<and> now_mins < b))"

definition parse_interval :: "utext \<Rightarrow> nat option" where
  "parse_interval t =
     (let s = trim t in
      if s = [48] then None
      else
        (case (if s \<noteq> [] \<and> last s = 115 then (butlast s, 1)
               else if s \<noteq> [] \<and> last s = 109 then (butlast s, 60)
               else if s \<noteq> [] \<and> last s = 104 then (butlast s, 3600)
               else (s, 60)) of
           (num, multiplier) \<Rightarrow> map_option (\<lambda>n. from_secs ((n * multiplier) mod 2 ^ 64)) (parse_num 64 num)))"

text \<open>The interval is added to the milliseconds of the base as \<open>u64\<close>, which wraps, and the sum is read
  back as \<open>i64\<close>.\<close>

definition millis_of :: "int \<Rightarrow> 64 word" where
  "millis_of t = of_int (t div 1000000)"

definition every_next :: "('z, 'c) time_lib \<Rightarrow> nat \<Rightarrow> int \<Rightarrow> int option" where
  "every_next T ms base =
     (let m = sint (millis_of base + of_nat ms) in
      if tl_millis_ok T m then Some (m * 1000000) else None)"

definition last_run_time :: "('z, 'c) time_lib \<Rightarrow> int \<Rightarrow> utext option \<Rightarrow> int" where
  "last_run_time T now last_run =
     (case last_run of
        Some ts \<Rightarrow> (case tl_parse T ts of Some t \<Rightarrow> t | None \<Rightarrow> now)
      | None \<Rightarrow> now)"

definition compute_next_run ::
  "('z, 'c) time_lib \<Rightarrow> int \<Rightarrow> schedule_spec option \<Rightarrow> utext option \<Rightarrow> utext \<Rightarrow> utext option" where
  "compute_next_run T now spec last_run tz_name =
     (case spec of
        None \<Rightarrow> None
      | Some s \<Rightarrow>
          (case spec_kind s of
             Every ms \<Rightarrow> map_option (tl_show T) (every_next T ms (last_run_time T now last_run))
           | At a \<Rightarrow> if last_run \<noteq> None then None else map_option (tl_show T) (tl_parse T a)
           | Cron e \<Rightarrow>
               (case tl_cron T (normalize_weekday_unix e) of
                  None \<Rightarrow> None
                | Some c \<Rightarrow>
                    map_option (tl_show T) (tl_after T c (resolve_tz T tz_name) (last_run_time T now last_run)))))"

subsection \<open>Delivery\<close>

definition is_route_slug :: "utext \<Rightarrow> bool" where
  "is_route_slug s \<longleftrightarrow> s \<noteq> [] \<and> measure_text Bytes s \<le> 64
     \<and> list_all (\<lambda>c. (97 \<le> c \<and> c \<le> 122) \<or> (48 \<le> c \<and> c \<le> 57) \<or> c = 45) s"

definition parse_target_string :: "utext \<Rightarrow> delivery_config" where
  "parse_target_string target =
     (if target = cps ''none'' then default_delivery\<lparr>dl_mode := Mode_None\<rparr>
      else if target = cps ''last'' \<or> target = [] then default_delivery
      else
        (case (case split_once 58 target of Some (ch, acc) \<Rightarrow> (ch, Some acc) | None \<Rightarrow> (target, None)) of
           (channel, account) \<Rightarrow>
             default_delivery\<lparr>dl_mode := Mode_Fixed, dl_channel := Some channel, dl_account := account\<rparr>))"

record target =
  tg_channel :: "utext option"
  tg_account :: "utext option"
  tg_recipient :: "utext option"
  tg_thread :: "utext option"
  tg_suppressed :: bool

definition default_account :: utext where
  "default_account = cps ''default''"

definition cron_delivery_fields :: "delivery_config \<Rightarrow> target" where
  "cron_delivery_fields d =
     (case dl_mode d of
        Mode_None \<Rightarrow> \<lparr>tg_channel = None, tg_account = None, tg_recipient = None, tg_thread = None, tg_suppressed = True\<rparr>
      | Mode_Fixed \<Rightarrow>
          \<lparr>tg_channel = dl_channel d, tg_account = Some (case dl_account d of Some a \<Rightarrow> a | None \<Rightarrow> default_account),
           tg_recipient = dl_to d, tg_thread = dl_thread d, tg_suppressed = False\<rparr>
      | Mode_Last \<Rightarrow>
          \<lparr>tg_channel = None, tg_account = None, tg_recipient = dl_to d, tg_thread = dl_thread d, tg_suppressed = False\<rparr>)"

end
