(* ===== verification/Scheduler.thy ===== *)
theory Scheduler
  imports Schedule Str_Utils "HOL-Library.List_Lexorder" "HOL-Library.Char_ord"
begin

text \<open>
  The scheduler (\<open>scheduling_runtime/scheduler\<close>): the jobs in memory, the directory that stores them, the
  operations on them and the sections of the timer tick.  The state is the record \<open>sched\<close>; the outcome of
  every write to the disk, the clock and fresh ids are arguments.  serde's reading and printing of jobs and run
  records is the record \<open>store_lib\<close>.  The modification time of the jobs directory is a counter that moves when
  an entry of the directory is created or removed, and only then.
\<close>

subsection \<open>The jobs directory\<close>

datatype meta_file = No_Meta | Unreadable_Meta | Meta utext

record job_dir =
  jd_meta :: meta_file
  jd_log :: "utext option"

record jobs_disk =
  jk_dirs :: "(string \<times> job_dir) list"
  jk_mtime :: "nat option"
  jk_shared :: "string \<rightharpoonup> utext"
  jk_legacy :: "utext option"

record store_lib =
  sl_value :: "utext \<Rightarrow> json option"
  sl_job :: "json \<Rightarrow> job_entry option"
  sl_jobs :: "json \<Rightarrow> job_entry list option"
  sl_show :: "job_entry \<Rightarrow> utext"
  sl_delivery :: "delivery_config \<Rightarrow> json"
  sl_record :: "utext \<Rightarrow> run_record option"
  sl_show_record :: "run_record \<Rightarrow> utext"

definition normalize_spec :: "job_entry \<Rightarrow> job_entry" where
  "normalize_spec j = j\<lparr>je_schedule := map_option (\<lambda>s. Kind (spec_kind s)) (je_schedule j)\<rparr>"

definition normalize_schedule_specs :: "job_entry list \<Rightarrow> job_entry list" where
  "normalize_schedule_specs = map normalize_spec"

definition fold_one_schedule_kind :: "json \<Rightarrow> json" where
  "fold_one_schedule_kind v =
     (case as_object v of
        None \<Rightarrow> v
      | Some obj \<Rightarrow>
          let legacy = (case map_of obj (cps ''schedule_kind'') of
                None \<Rightarrow> None | Some k \<Rightarrow> if k = JNull then None else Some k);
              rest = remove_key (cps ''schedule_kind'') obj in
          (case (legacy, map_of rest (cps ''schedule'')) of
             (Some k, _) \<Rightarrow> JObject (put_key (cps ''schedule'') k rest)
           | (None, Some (JString s)) \<Rightarrow>
               if s = [] then JObject rest
               else JObject (put_key (cps ''schedule'')
                      (JObject [(cps ''kind'', JString (cps ''cron'')), (cps ''expr'', JString s)]) rest)
           | _ \<Rightarrow> JObject rest))"

definition fold_one_target_delivery :: "store_lib \<Rightarrow> json \<Rightarrow> json" where
  "fold_one_target_delivery S v =
     (case as_object v of
        None \<Rightarrow> v
      | Some obj \<Rightarrow>
          if Option.bind (map_of obj (cps ''delivery'')) (\<lambda>d. jget d (cps ''mode'')) \<noteq> None then v
          else
            (case get_str v ''target'' of
               None \<Rightarrow> v
             | Some t \<Rightarrow>
                 let merged = parse_target_string t;
                     old = Option.bind (map_of obj (cps ''delivery'')) as_object;
                     old_str = (\<lambda>k. Option.bind (Option.bind old (\<lambda>o'. map_of o' (cps k))) as_str);
                     m1 = (case old_str ''to'' of Some x \<Rightarrow> merged\<lparr>dl_to := Some x\<rparr> | None \<Rightarrow> merged);
                     m2 = (case old_str ''thread_id'' of Some x \<Rightarrow> m1\<lparr>dl_thread := Some x\<rparr> | None \<Rightarrow> m1) in
                 JObject (put_key (cps ''delivery'') (sl_delivery S m2) obj)))"

definition fold_jobs_document :: "(json \<Rightarrow> json) \<Rightarrow> json \<Rightarrow> json" where
  "fold_jobs_document f v =
     (case as_object v of
        Some obj \<Rightarrow>
          (case Option.bind (map_of obj (cps ''jobs'')) as_array of
             Some vs \<Rightarrow> JObject (put_key (cps ''jobs'') (JArray (map f vs)) obj)
           | None \<Rightarrow> v)
      | None \<Rightarrow>
          (case as_array v of Some vs \<Rightarrow> JArray (map f vs) | None \<Rightarrow> v))"

definition fold_schedule_kind :: "json \<Rightarrow> json" where
  "fold_schedule_kind = fold_jobs_document fold_one_schedule_kind"

definition fold_target_delivery :: "store_lib \<Rightarrow> json \<Rightarrow> json" where
  "fold_target_delivery S = fold_jobs_document (fold_one_target_delivery S)"

definition blank_name :: "utext option \<Rightarrow> bool" where
  "blank_name n \<longleftrightarrow> (case n of Some x \<Rightarrow> trim x = [] | None \<Rightarrow> True)"

definition load_meta :: "store_lib \<Rightarrow> 'u uuid_lib \<Rightarrow> meta_file \<Rightarrow> job_entry option" where
  "load_meta S U m =
     (case m of
        Meta content \<Rightarrow>
          Option.bind (sl_value S content) (\<lambda>v.
          map_option (\<lambda>job.
              if blank_name (je_name job) then job\<lparr>je_name := Some (cps (bare_dir_name U (je_id job)))\<rparr> else job)
            (sl_job S (fold_one_target_delivery S (fold_one_schedule_kind v))))
      | _ \<Rightarrow> None)"

text \<open>\<open>readable\<close>: whether the directory can be listed.\<close>

definition load_jobs_from_dirs :: "store_lib \<Rightarrow> 'u uuid_lib \<Rightarrow> bool \<Rightarrow> jobs_disk \<Rightarrow> job_entry list" where
  "load_jobs_from_dirs S U readable d =
     (if readable \<and> jk_mtime d \<noteq> None
      then sort_key je_id (List.map_filter (\<lambda>p. load_meta S U (jd_meta (snd p))) (jk_dirs d))
      else [])"

definition load_legacy :: "store_lib \<Rightarrow> jobs_disk \<Rightarrow> job_entry list option" where
  "load_legacy S d =
     Option.bind (jk_legacy d) (\<lambda>content.
     Option.bind (sl_value S content) (\<lambda>v.
     map_option normalize_schedule_specs (sl_jobs S (fold_target_delivery S (fold_schedule_kind v)))))"

definition load_store :: "store_lib \<Rightarrow> 'u uuid_lib \<Rightarrow> bool \<Rightarrow> jobs_disk \<Rightarrow> job_entry list" where
  "load_store S U readable d =
     (case load_jobs_from_dirs S U readable d of
        [] \<Rightarrow> (case load_legacy S d of Some js \<Rightarrow> js | None \<Rightarrow> [])
      | js \<Rightarrow> js)"

definition bump :: "nat option \<Rightarrow> nat option" where
  "bump m = Some (case m of Some n \<Rightarrow> Suc n | None \<Rightarrow> 0)"

definition find_dir :: "string \<Rightarrow> jobs_disk \<Rightarrow> job_dir option" where
  "find_dir n d = map_of (jk_dirs d) n"

definition touch_dir :: "string \<Rightarrow> jobs_disk \<Rightarrow> jobs_disk" where
  "touch_dir n d =
     (if n \<in> fst ` set (jk_dirs d) then d
      else d\<lparr>jk_dirs := jk_dirs d @ [(n, \<lparr>jd_meta = No_Meta, jd_log = None\<rparr>)], jk_mtime := bump (jk_mtime d)\<rparr>)"

definition change_dir :: "string \<Rightarrow> (job_dir \<Rightarrow> job_dir) \<Rightarrow> jobs_disk \<Rightarrow> jobs_disk" where
  "change_dir n f d = d\<lparr>jk_dirs := map (\<lambda>p. if fst p = n then (n, f (snd p)) else p) (jk_dirs d)\<rparr>"

definition put_meta :: "string \<Rightarrow> utext \<Rightarrow> jobs_disk \<Rightarrow> jobs_disk" where
  "put_meta n t d = change_dir n (\<lambda>x. x\<lparr>jd_meta := Meta t\<rparr>) (touch_dir n d)"

text \<open>A save may fail at the root, at the directory or at the file of a job, in the listing, and each
  removal may fail.\<close>

datatype write_fault = Fault_Dir | Fault_Meta

record save_io =
  si_root :: bool
  si_fault :: "string \<Rightarrow> write_fault option"
  si_listed :: bool
  si_stuck :: "string \<Rightarrow> bool"
  si_error :: utext

definition good_io :: save_io where
  "good_io = \<lparr>si_root = True, si_fault = (\<lambda>_. None), si_listed = True, si_stuck = (\<lambda>_. False), si_error = []\<rparr>"

primrec write_jobs :: "store_lib \<Rightarrow> save_io \<Rightarrow> job_entry list \<Rightarrow> jobs_disk \<Rightarrow> bool \<times> jobs_disk" where
  "write_jobs S io [] d = (True, d)"
| "write_jobs S io (j # js) d =
     (let n = dir_name (je_id j) in
      case si_fault io n of
        Some Fault_Dir \<Rightarrow> (False, d)
      | Some Fault_Meta \<Rightarrow> (False, touch_dir n d)
      | None \<Rightarrow> write_jobs S io js (put_meta n (sl_show S j) d))"

definition kept_dir :: "save_io \<Rightarrow> string set \<Rightarrow> string \<times> job_dir \<Rightarrow> bool" where
  "kept_dir io seen p \<longleftrightarrow> jd_meta (snd p) = No_Meta \<or> fst p \<in> seen \<or> si_stuck io (fst p)"

definition prune_dirs :: "save_io \<Rightarrow> string set \<Rightarrow> jobs_disk \<Rightarrow> jobs_disk" where
  "prune_dirs io seen d =
     (if si_listed io \<and> \<not> list_all (kept_dir io seen) (jk_dirs d)
      then d\<lparr>jk_dirs := filter (kept_dir io seen) (jk_dirs d), jk_mtime := bump (jk_mtime d)\<rparr>
      else d)"

definition save_to_disk :: "store_lib \<Rightarrow> save_io \<Rightarrow> job_entry list \<Rightarrow> jobs_disk \<Rightarrow> bool \<times> jobs_disk" where
  "save_to_disk S io jobs d =
     (if \<not> si_root io then (False, d)
      else
        let d0 = (if jk_mtime d = None then d\<lparr>jk_mtime := Some 0\<rparr> else d) in
        (case write_jobs S io jobs d0 of
           (False, d1) \<Rightarrow> (False, d1)
         | (True, d1) \<Rightarrow> (True, prune_dirs io ((\<lambda>j. dir_name (je_id j)) ` set jobs) d1)))"

subsection \<open>Run logs\<close>

definition log_file :: "string \<Rightarrow> string" where
  "log_file i = dir_name i @ ''.jsonl''"

definition per_job_log :: "string \<Rightarrow> jobs_disk \<Rightarrow> utext option" where
  "per_job_log i d = Option.bind (find_dir (dir_name i) d) jd_log"

definition log_is_shared :: "string \<Rightarrow> jobs_disk \<Rightarrow> bool" where
  "log_is_shared i d \<longleftrightarrow> per_job_log i d = None \<and> jk_shared d (log_file i) \<noteq> None"

definition run_log :: "string \<Rightarrow> jobs_disk \<Rightarrow> utext option" where
  "run_log i d = (if log_is_shared i d then jk_shared d (log_file i) else per_job_log i d)"

definition read_run_log :: "store_lib \<Rightarrow> string \<Rightarrow> nat \<Rightarrow> jobs_disk \<Rightarrow> run_record list" where
  "read_run_log S i limit d =
     (case run_log i d of
        None \<Rightarrow> []
      | Some content \<Rightarrow>
          take limit (rev (List.map_filter (sl_record S) (filter (\<lambda>l. trim l \<noteq> []) (text_lines content)))))"

definition usize_max :: nat where
  "usize_max = 2 ^ 64 - 1"

definition append_log :: "utext \<Rightarrow> utext option \<Rightarrow> utext" where
  "append_log line old = (case old of Some t \<Rightarrow> t | None \<Rightarrow> []) @ line @ [10]"

definition append_run_log :: "store_lib \<Rightarrow> bool \<Rightarrow> string \<Rightarrow> run_record \<Rightarrow> jobs_disk \<Rightarrow> jobs_disk" where
  "append_run_log S ok i r d =
     (let line = sl_show_record S r; n = dir_name i in
      if log_is_shared i d then
        (if ok then d\<lparr>jk_shared := (jk_shared d)(log_file i \<mapsto> append_log line (jk_shared d (log_file i)))\<rparr> else d)
      else
        let d1 = touch_dir n d in
        if ok then change_dir n (\<lambda>x. x\<lparr>jd_log := Some (append_log line (jd_log x))\<rparr>) d1 else d1)"

subsection \<open>The scheduler\<close>

record cron_trigger =
  ct_session :: utext
  ct_prompt :: utext
  ct_target :: target
  ct_job :: string
  ct_model :: "utext option"
  ct_policy :: context_policy
  ct_creator :: "utext option"

datatype sched_event = Cron_Event cron_trigger | Distill_Event | Propose_Event

record idle_config =
  ic_idle_secs :: nat
  ic_interval_secs :: nat

record sched =
  sc_jobs :: "job_entry list"
  sc_disk :: jobs_disk
  sc_last_mtime :: "nat option"
  sc_tz :: utext
  sc_distill :: "idle_config option"
  sc_proposer :: "idle_config option"
  sc_last_inbound :: nat
  sc_events :: "sched_event list"
  sc_closed :: bool
  sc_last_channel :: "utext option"
  sc_last_recipient :: "utext option"
  sc_channel_file :: utext
  sc_recipient_file :: utext

definition remembered :: "utext \<Rightarrow> utext option" where
  "remembered content = (let t = trim content in if t = [] then None else Some t)"

definition open_scheduler ::
  "store_lib \<Rightarrow> 'u uuid_lib \<Rightarrow> bool \<Rightarrow> utext \<Rightarrow> idle_config option \<Rightarrow> idle_config option \<Rightarrow> utext \<Rightarrow> utext \<Rightarrow> jobs_disk \<Rightarrow> sched" where
  "open_scheduler S U readable tz distill proposer channel_file recipient_file d =
     (let jobs = load_store S U readable d in
      \<lparr>sc_jobs = jobs, sc_disk = d, sc_last_mtime = (if jobs = [] then None else jk_mtime d),
       sc_tz = tz, sc_distill = distill, sc_proposer = proposer, sc_last_inbound = 0, sc_events = [], sc_closed = False,
       sc_last_channel = remembered channel_file, sc_last_recipient = remembered recipient_file,
       sc_channel_file = channel_file, sc_recipient_file = recipient_file\<rparr>)"

definition record_user_message :: "nat \<Rightarrow> utext \<Rightarrow> utext \<Rightarrow> sched \<Rightarrow> sched" where
  "record_user_message now_secs channel_key reply_target s =
     (let s1 = (if sc_last_channel s \<noteq> Some channel_key
                then s\<lparr>sc_last_channel := Some channel_key, sc_channel_file := channel_key\<rparr> else s);
          s2 = (if sc_last_recipient s1 \<noteq> Some reply_target
                then s1\<lparr>sc_last_recipient := Some reply_target, sc_recipient_file := reply_target\<rparr> else s1) in
      s2\<lparr>sc_last_inbound := now_secs\<rparr>)"

definition should_run :: "sched \<Rightarrow> bool" where
  "should_run s \<longleftrightarrow> sc_distill s \<noteq> None \<or> sc_proposer s \<noteq> None \<or> sc_jobs s \<noteq> []"

definition send_sched :: "sched_event \<Rightarrow> sched \<Rightarrow> sched" where
  "send_sched e s = (if sc_closed s then s else s\<lparr>sc_events := sc_events s @ [e]\<rparr>)"

definition idle_enough :: "nat \<Rightarrow> idle_config \<Rightarrow> sched \<Rightarrow> bool" where
  "idle_enough now_secs cfg s \<longleftrightarrow> sc_last_inbound s = 0 \<or> now_secs - sc_last_inbound s \<ge> ic_idle_secs cfg"

definition maybe_fire_distill :: "nat \<Rightarrow> sched \<Rightarrow> sched" where
  "maybe_fire_distill now_secs s =
     (case sc_distill s of
        None \<Rightarrow> s
      | Some cfg \<Rightarrow> if idle_enough now_secs cfg s then send_sched Distill_Event s else s)"

definition maybe_fire_proposer :: "nat \<Rightarrow> sched \<Rightarrow> sched" where
  "maybe_fire_proposer now_secs s =
     (case sc_proposer s of
        None \<Rightarrow> s
      | Some cfg \<Rightarrow> if idle_enough now_secs cfg s then send_sched Propose_Event s else s)"

definition job_tz :: "utext \<Rightarrow> job_entry \<Rightarrow> utext" where
  "job_tz tz j = (case je_tz j of Some z \<Rightarrow> z | None \<Rightarrow> tz)"

definition retime :: "('z, 'c) time_lib \<Rightarrow> int \<Rightarrow> utext \<Rightarrow> job_entry \<Rightarrow> job_entry" where
  "retime T now tz j = j\<lparr>je_next_run := compute_next_run T now (je_schedule j) (je_last_run j) (job_tz tz j)\<rparr>"

primrec update_first :: "('a \<Rightarrow> bool) \<Rightarrow> ('a \<Rightarrow> 'a) \<Rightarrow> 'a list \<Rightarrow> 'a list" where
  "update_first P f [] = []"
| "update_first P f (x # xs) = (if P x then f x # xs else x # update_first P f xs)"

definition find_job :: "string \<Rightarrow> sched \<Rightarrow> job_entry option" where
  "find_job i s = find (\<lambda>j. je_id j = i) (sc_jobs s)"

definition change_job :: "string \<Rightarrow> (job_entry \<Rightarrow> job_entry) \<Rightarrow> sched \<Rightarrow> sched" where
  "change_job i f s = s\<lparr>sc_jobs := update_first (\<lambda>j. je_id j = i) f (sc_jobs s)\<rparr>"

definition persist_jobs :: "store_lib \<Rightarrow> save_io \<Rightarrow> sched \<Rightarrow> bool \<times> sched" where
  "persist_jobs S io s =
     (case save_to_disk S io (sc_jobs s) (sc_disk s) of (ok, d) \<Rightarrow> (ok, s\<lparr>sc_disk := d\<rparr>))"

definition name_required :: utext where
  "name_required = cps ''job name is required (design '' @ [0x00A7] @ cps ''3.4)''"

definition filled_entry :: "('z, 'c) time_lib \<Rightarrow> int \<Rightarrow> utext \<Rightarrow> string \<Rightarrow> job_entry \<Rightarrow> job_entry" where
  "filled_entry T now tz fresh entry =
     (let e1 = (if je_id entry = [] then entry\<lparr>je_id := fresh\<rparr> else entry);
          e2 = (if je_created e1 = None then e1\<lparr>je_created := Some (tl_show T now)\<rparr> else e1) in
      e2\<lparr>je_next_run := compute_next_run T now (je_schedule e2) None (job_tz tz e2)\<rparr>)"

definition add_job ::
  "store_lib \<Rightarrow> ('z, 'c) time_lib \<Rightarrow> save_io \<Rightarrow> int \<Rightarrow> string \<Rightarrow> job_entry \<Rightarrow> sched \<Rightarrow> (utext + string) \<times> sched" where
  "add_job S T io now fresh entry s =
     (if blank_name (je_name entry) then (Inl name_required, s)
      else
        let e = filled_entry T now (sc_tz s) fresh entry in
        (case persist_jobs S io (s\<lparr>sc_jobs := sc_jobs s @ [e]\<rparr>) of
           (ok, s1) \<Rightarrow> (if ok then Inr (je_id e) else Inl (si_error io), s1)))"

definition set_opt :: "'a option \<Rightarrow> ('a \<Rightarrow> 'b \<Rightarrow> 'b) \<Rightarrow> 'b \<Rightarrow> 'b" where
  "set_opt o' f j = (case o' of Some x \<Rightarrow> f x j | None \<Rightarrow> j)"

definition update_timing :: "('z, 'c) time_lib \<Rightarrow> int \<Rightarrow> utext \<Rightarrow> job_update \<Rightarrow> job_entry \<Rightarrow> job_entry" where
  "update_timing T now tz u j =
     (let j1 = set_opt (ju_name u) (\<lambda>x j. j\<lparr>je_name := Some x\<rparr>) j;
          j2 = (if ju_schedule_changed u
                then retime T now tz (j1\<lparr>je_schedule := (case ju_schedule u of Some x \<Rightarrow> x | None \<Rightarrow> None)\<rparr>) else j1);
          j3 = set_opt (ju_prompt u) (\<lambda>x j. j\<lparr>je_prompt := x\<rparr>) j2;
          j4 = set_opt (ju_tz u) (\<lambda>x j. retime T now tz (j\<lparr>je_tz := Some x\<rparr>)) j3;
          j5 = set_opt (ju_hours u) (\<lambda>x j. j\<lparr>je_hours := Some x\<rparr>) j4 in
      set_opt (ju_enabled u)
        (\<lambda>x j. if x then retime T now tz (j\<lparr>je_enabled := True\<rparr>) else j\<lparr>je_enabled := False, je_next_run := None\<rparr>) j5)"

definition update_fields :: "('z, 'c) time_lib \<Rightarrow> int \<Rightarrow> utext \<Rightarrow> job_update \<Rightarrow> job_entry \<Rightarrow> job_entry" where
  "update_fields T now tz u j =
     (let j1 = set_opt (ju_delivery u) (\<lambda>x j. j\<lparr>je_delivery := x\<rparr>) (update_timing T now tz u j);
          j2 = (if ju_webhook_changed u then j1\<lparr>je_webhook := (case ju_webhook u of Some x \<Rightarrow> x | None \<Rightarrow> None)\<rparr> else j1);
          j3 = set_opt (ju_allow u) (\<lambda>x j. j\<lparr>je_allow := Some x\<rparr>) j2;
          j4 = set_opt (ju_deny u) (\<lambda>x j. j\<lparr>je_deny := Some x\<rparr>) j3;
          j5 = set_opt (ju_retry u) (\<lambda>x j. j\<lparr>je_retry := Some x\<rparr>) j4;
          j6 = set_opt (ju_alert u) (\<lambda>x j. j\<lparr>je_alert := Some x\<rparr>) j5;
          j7 = set_opt (ju_max_runs u) (\<lambda>x j. j\<lparr>je_max_runs := x\<rparr>) j6;
          j8 = set_opt (ju_delete_after u) (\<lambda>x j. j\<lparr>je_delete_after := x\<rparr>) j7;
          j9 = set_opt (ju_model u) (\<lambda>x j. j\<lparr>je_model := x\<rparr>) j8 in
      set_opt (ju_provider u) (\<lambda>x j. j\<lparr>je_provider := x\<rparr>) j9)"

definition paused_error :: "string \<Rightarrow> utext" where
  "paused_error i = cps ''job '' @ [39] @ cps i @ [39] @ cps '' is paused; resume it first''"

definition no_timer_error :: "string \<Rightarrow> utext option \<Rightarrow> utext" where
  "no_timer_error i name =
     cps ''job '' @ [39] @ cps i
     @ [39] @ cps '' has no schedule (webhook-only): '' @ [39] @ cps ''run'' @ [39] @ cps '' needs a timer channel '' @ [0x2014] @ cps '' POST its /hooks/''
     @ (case name of Some n \<Rightarrow> n | None \<Rightarrow> [63]) @ cps '' route instead''"

text \<open>The fields are changed in place before the check of a manual trigger, so that a refused trigger
  leaves them changed in memory.\<close>

definition update_job ::
  "store_lib \<Rightarrow> ('z, 'c) time_lib \<Rightarrow> save_io \<Rightarrow> int \<Rightarrow> string \<Rightarrow> job_update \<Rightarrow> sched \<Rightarrow> (utext + bool) \<times> sched" where
  "update_job S T io now i u s =
     (case find_job i s of
        None \<Rightarrow> (Inr False, s)
      | Some j \<Rightarrow>
          let j1 = update_fields T now (sc_tz s) u j; s1 = change_job i (\<lambda>_. j1) s in
          if ju_trigger_now u \<and> \<not> je_enabled j1 then (Inl (paused_error i), s1)
          else if ju_trigger_now u \<and> je_schedule j1 = None then (Inl (no_timer_error i (je_name j1)), s1)
          else
            let s2 = (if ju_trigger_now u then change_job i (\<lambda>j. j\<lparr>je_next_run := Some (tl_show T now)\<rparr>) s1 else s1) in
            (case persist_jobs S io s2 of
               (ok, s3) \<Rightarrow> (if ok then Inr True else Inl (si_error io), s3)))"

definition set_enabled ::
  "store_lib \<Rightarrow> ('z, 'c) time_lib \<Rightarrow> save_io \<Rightarrow> int \<Rightarrow> string \<Rightarrow> bool \<Rightarrow> sched \<Rightarrow> (utext + bool) \<times> sched" where
  "set_enabled S T io now i b s = update_job S T io now i (no_update\<lparr>ju_enabled := Some b\<rparr>) s"

text \<open>\<open>remove_job\<close> reads the audit under the read lock and removes under the write lock.\<close>

definition removal_audit_of :: "store_lib \<Rightarrow> string \<Rightarrow> sched \<Rightarrow> removal_audit option" where
  "removal_audit_of S i s =
     map_option (\<lambda>j. capture_audit (je_id j) (je_name j) (read_run_log S i usize_max (sc_disk s))) (find_job i s)"

definition remove_found :: "store_lib \<Rightarrow> save_io \<Rightarrow> string \<Rightarrow> removal_audit \<Rightarrow> sched \<Rightarrow> (utext + removal_audit option) \<times> sched" where
  "remove_found S io i audit s =
     (let rest = filter (\<lambda>j. je_id j \<noteq> i) (sc_jobs s) in
      if length rest < length (sc_jobs s) then
        (case persist_jobs S io (s\<lparr>sc_jobs := rest\<rparr>) of
           (ok, s1) \<Rightarrow> (if ok then Inr (Some audit) else Inl (si_error io), s1))
      else (Inr None, s))"

definition remove_job :: "store_lib \<Rightarrow> save_io \<Rightarrow> string \<Rightarrow> sched \<Rightarrow> (utext + removal_audit option) \<times> sched" where
  "remove_job S io i s =
     (case removal_audit_of S i s of
        None \<Rightarrow> (Inr None, s)
      | Some audit \<Rightarrow> remove_found S io i audit s)"

subsection \<open>Run results\<close>

definition count_status :: "run_status \<Rightarrow> job_entry \<Rightarrow> job_entry" where
  "count_status x j =
     (case x of
        Run_Ok \<Rightarrow> j\<lparr>je_errors := 0, je_skipped := 0\<rparr>
      | Run_Error \<Rightarrow> j\<lparr>je_errors := je_errors j + 1, je_skipped := 0\<rparr>
      | Run_Timeout \<Rightarrow> j\<lparr>je_errors := je_errors j + 1, je_skipped := 0\<rparr>
      | Run_Skipped \<Rightarrow>
          let j1 = j\<lparr>je_skipped := je_skipped j + 1\<rparr> in
          if (case je_alert j of Some a \<Rightarrow> fa_skipped a | None \<Rightarrow> False) then j1\<lparr>je_errors := je_errors j1 + 1\<rparr> else j1)"

text \<open>\<open>cooldown_secs as i64\<close>, and \<open>chrono::Duration::seconds\<close>, which panics when the milliseconds leave \<open>i64\<close>.\<close>

definition cooldown_duration :: "nat \<Rightarrow> int run" where
  "cooldown_duration secs =
     (let n = sint (of_nat secs :: 64 word) in
      if \<bar>n\<bar> > 9223372036854775 then Panic else Ret (n * 1000000000))"

definition day_ns :: int where
  "day_ns = 24 * 3600 * 1000000000"

definition should_alert :: "('z, 'c) time_lib \<Rightarrow> int \<Rightarrow> failure_alert \<Rightarrow> utext option \<Rightarrow> bool run" where
  "should_alert T now a last_alert =
     (case last_alert of
        None \<Rightarrow> Ret True
      | Some t \<Rightarrow>
          let last_dt = (case tl_parse T t of Some x \<Rightarrow> x | None \<Rightarrow> now - day_ns) in
          map_run (\<lambda>cooldown. now - last_dt \<ge> cooldown) (cooldown_duration (fa_cooldown a)))"

definition alert_text :: "job_entry \<Rightarrow> run_record \<Rightarrow> utext" where
  "alert_text j r =
     [0x26A0, 0xFE0F] @ cps '' Cron job '' @ [39] @ (case je_name j of Some n \<Rightarrow> n | None \<Rightarrow> cps (je_id j)) @ [39] @ cps '' ('' @ cps (je_id j)
     @ cps '') has failed '' @ cps (show_nat (je_errors j)) @ cps '' consecutive times. Last error: ''
     @ (case rr_error r of Some e \<Rightarrow> e | None \<Rightarrow> cps ''unknown'')"

definition check_alert :: "('z, 'c) time_lib \<Rightarrow> int \<Rightarrow> run_record \<Rightarrow> job_entry \<Rightarrow> (utext option \<times> job_entry) run" where
  "check_alert T now r j =
     (case je_alert j of
        None \<Rightarrow> Ret (None, j)
      | Some a \<Rightarrow>
          if je_errors j \<ge> fa_after a then
            map_run (\<lambda>b. if b then (Some (alert_text j r), j\<lparr>je_last_alert := Some (tl_show T now)\<rparr>) else (None, j))
              (should_alert T now a (je_last_alert j))
          else Ret (None, j))"

definition keep_last :: "nat \<Rightarrow> 'a list \<Rightarrow> 'a list" where
  "keep_last n xs = drop (length xs - n) xs"

definition reached_max :: "job_entry \<Rightarrow> bool" where
  "reached_max j \<longleftrightarrow> (case je_max_runs j of Some m \<Rightarrow> je_completed j \<ge> m | None \<Rightarrow> False)"

definition count_run :: "run_record \<Rightarrow> job_entry \<Rightarrow> job_entry" where
  "count_run r j =
     (let j1 = j\<lparr>je_last_runs := keep_last 10 (je_last_runs j @ [r]), je_completed := je_completed j + 1\<rparr>;
          j2 = (if reached_max j1 \<and> \<not> je_delete_after j1 then j1\<lparr>je_enabled := False, je_next_run := None\<rparr> else j1) in
      if (case je_schedule j2 of Some x \<Rightarrow> spec_is_at x | None \<Rightarrow> False) then j2\<lparr>je_enabled := False\<rparr> else j2)"

definition mark_timing :: "('z, 'c) time_lib \<Rightarrow> int \<Rightarrow> utext \<Rightarrow> run_record \<Rightarrow> job_entry \<Rightarrow> job_entry" where
  "mark_timing T now tz r j = count_status (rr_status r) (retime T now tz (j\<lparr>je_last_run := Some (rr_run_at r)\<rparr>))"

text \<open>A panic leaves the job with its new times and counters, in memory only.\<close>

definition mark_run_result ::
  "store_lib \<Rightarrow> ('z, 'c) time_lib \<Rightarrow> save_io \<Rightarrow> bool \<Rightarrow> int \<Rightarrow> string \<Rightarrow> run_record \<Rightarrow> sched \<Rightarrow> utext option run \<times> sched" where
  "mark_run_result S T io log_ok now i r s =
     (case find_job i s of
        None \<Rightarrow> (Ret None, s)
      | Some j \<Rightarrow>
          let j1 = mark_timing T now (sc_tz s) r j in
          (case check_alert T now r j1 of
             Panic \<Rightarrow> (Panic, change_job i (\<lambda>_. j1) s)
           | Ret (msg, j2) \<Rightarrow>
               let s1 = snd (persist_jobs S io (change_job i (\<lambda>_. count_run r j2) s)) in
               (Ret msg, s1\<lparr>sc_disk := append_run_log S log_ok i r (sc_disk s1)\<rparr>)))"

definition record_webhook_run :: "store_lib \<Rightarrow> bool \<Rightarrow> string \<Rightarrow> run_record \<Rightarrow> sched \<Rightarrow> sched" where
  "record_webhook_run S log_ok i r s = s\<lparr>sc_disk := append_run_log S log_ok i r (sc_disk s)\<rparr>"

definition expired :: "job_entry \<Rightarrow> bool" where
  "expired j \<longleftrightarrow> reached_max j \<and> je_delete_after j"

definition drain_auto_delete :: "store_lib \<Rightarrow> save_io \<Rightarrow> sched \<Rightarrow> removal_audit list \<times> sched" where
  "drain_auto_delete S io s =
     (let gone = filter expired (sc_jobs s) in
      if gone = [] then ([], s)
      else
        (map (\<lambda>j. capture_audit (je_id j) (je_name j) (read_run_log S (je_id j) usize_max (sc_disk s))) gone,
         snd (persist_jobs S io (s\<lparr>sc_jobs := filter (\<lambda>j. je_id j \<notin> je_id ` set gone) (sc_jobs s)\<rparr>))))"

subsection \<open>The tick\<close>

definition maybe_reload :: "store_lib \<Rightarrow> 'u uuid_lib \<Rightarrow> bool \<Rightarrow> sched \<Rightarrow> sched" where
  "maybe_reload S U readable s =
     (if jk_mtime (sc_disk s) = sc_last_mtime s then s
      else s\<lparr>sc_jobs := load_store S U readable (sc_disk s), sc_last_mtime := jk_mtime (sc_disk s)\<rparr>)"

definition is_due :: "('z, 'c) time_lib \<Rightarrow> int \<Rightarrow> job_entry \<Rightarrow> bool" where
  "is_due T now j \<longleftrightarrow> (case Option.bind (je_next_run j) (tl_parse T) of Some t \<Rightarrow> t \<le> now | None \<Rightarrow> False)"

definition fires :: "('z, 'c) time_lib \<Rightarrow> int \<Rightarrow> utext \<Rightarrow> job_entry \<Rightarrow> bool" where
  "fires T now tz j \<longleftrightarrow> je_enabled j \<and> je_schedule j \<noteq> None \<and> is_due T now j
     \<and> is_active_hours T now (je_hours j) (job_tz tz j)"

definition due_jobs :: "('z, 'c) time_lib \<Rightarrow> int \<Rightarrow> sched \<Rightarrow> job_entry list" where
  "due_jobs T now s = filter (fires T now (sc_tz s)) (sc_jobs s)"

definition job_session :: "'u uuid_lib \<Rightarrow> string \<Rightarrow> utext" where
  "job_session U i = cps ''_job_'' @ cps (bare_dir_name U i)"

definition trigger_of :: "'u uuid_lib \<Rightarrow> job_entry \<Rightarrow> cron_trigger" where
  "trigger_of U j =
     \<lparr>ct_session = job_session U (je_id j), ct_prompt = je_prompt j, ct_target = cron_delivery_fields (je_delivery j),
      ct_job = je_id j, ct_model = je_model j, ct_policy = je_policy j, ct_creator = je_creator j\<rparr>"

definition tick_begin ::
  "store_lib \<Rightarrow> 'u uuid_lib \<Rightarrow> ('z, 'c) time_lib \<Rightarrow> save_io \<Rightarrow> bool \<Rightarrow> int \<Rightarrow> sched \<Rightarrow> job_entry list \<times> sched" where
  "tick_begin S U T io readable now s =
     (let s1 = maybe_reload S U readable (snd (drain_auto_delete S io s)) in (due_jobs T now s1, s1))"

definition tick_send :: "'u uuid_lib \<Rightarrow> job_entry \<Rightarrow> sched \<Rightarrow> sched" where
  "tick_send U j s = send_sched (Cron_Event (trigger_of U j)) s"

definition mark_fired :: "('z, 'c) time_lib \<Rightarrow> int \<Rightarrow> utext \<Rightarrow> job_entry \<Rightarrow> job_entry" where
  "mark_fired T now tz j = retime T now tz (j\<lparr>je_last_run := Some (tl_show T now)\<rparr>)"

definition tick_mark :: "store_lib \<Rightarrow> ('z, 'c) time_lib \<Rightarrow> save_io \<Rightarrow> int \<Rightarrow> string list \<Rightarrow> sched \<Rightarrow> sched" where
  "tick_mark S T io now ids s =
     (if ids = [] then s
      else snd (persist_jobs S io (fold (\<lambda>i. change_job i (mark_fired T now (sc_tz s))) ids s)))"

text \<open>A tick during which nothing else runs.\<close>

definition run_tick ::
  "store_lib \<Rightarrow> 'u uuid_lib \<Rightarrow> ('z, 'c) time_lib \<Rightarrow> save_io \<Rightarrow> bool \<Rightarrow> int \<Rightarrow> sched \<Rightarrow> sched" where
  "run_tick S U T io readable now s =
     (case tick_begin S U T io readable now s of
        (due, s1) \<Rightarrow> tick_mark S T io now (map je_id due) (fold (tick_send U) due s1))"

subsection \<open>Webhook routes\<close>

datatype webhook_auth = Hmac | Bearer

definition auth_kind :: "webhook_def \<Rightarrow> webhook_auth" where
  "auth_kind w = (if wd_auth w = cps ''bearer'' then Bearer else Hmac)"

record webhook_job =
  wj_id :: string
  wj_route :: utext
  wj_secret :: utext
  wj_auth :: webhook_auth
  wj_delivery :: delivery_config
  wj_template :: utext
  wj_events :: "utext list option"
  wj_filters :: "webhook_filter list option"
  wj_payload_off :: bool

definition project_webhook :: "job_entry \<Rightarrow> webhook_def \<Rightarrow> utext \<Rightarrow> webhook_job" where
  "project_webhook j w route =
     \<lparr>wj_id = je_id j, wj_route = route, wj_secret = wd_secret w, wj_auth = auth_kind w, wj_delivery = je_delivery j,
      wj_template = je_prompt j, wj_events = wd_events w, wj_filters = wd_filters w, wj_payload_off = wd_payload_off w\<rparr>"

definition reserved_route :: "utext \<Rightarrow> bool" where
  "reserved_route r \<longleftrightarrow> r = cps ''agent'' \<or> r = cps ''wake''"

definition route_of :: "job_entry \<Rightarrow> utext option" where
  "route_of j =
     (case (je_webhook j, je_name j) of
        (Some _, Some n) \<Rightarrow> if n \<noteq> [] \<and> \<not> reserved_route n \<and> is_route_slug n then Some n else None
      | _ \<Rightarrow> None)"

primrec project_routes :: "utext set \<Rightarrow> job_entry list \<Rightarrow> webhook_job list" where
  "project_routes seen [] = []"
| "project_routes seen (j # js) =
     (case (je_webhook j, route_of j) of
        (Some w, Some route) \<Rightarrow>
          if route \<in> seen then project_routes seen js
          else if wd_secret w = [] then project_routes (insert route seen) js
          else project_webhook j w route # project_routes (insert route seen) js
      | _ \<Rightarrow> project_routes seen js)"

definition webhook_jobs :: "sched \<Rightarrow> webhook_job list" where
  "webhook_jobs s = project_routes {} (sc_jobs s)"

definition resolve_delivery :: "delivery_config \<Rightarrow> sched \<Rightarrow> (utext \<times> utext \<times> utext option) option" where
  "resolve_delivery d s =
     map_option (\<lambda>(ch, acc). (ch, acc, (case dl_to d of Some t \<Rightarrow> Some t | None \<Rightarrow> sc_last_recipient s)))
       (case dl_mode d of
          Mode_None \<Rightarrow> None
        | Mode_Fixed \<Rightarrow>
            map_option (\<lambda>ch. (ch, case dl_account d of Some a \<Rightarrow> a | None \<Rightarrow> default_account)) (dl_channel d)
        | Mode_Last \<Rightarrow> Option.bind (sc_last_channel s) (split_once 58))"

subsection \<open>Jobs from markdown files\<close>

record cron_file =
  cf_stem :: utext
  cf_ext :: "utext option"
  cf_content :: "utext option"

definition markdown_job :: "string \<Rightarrow> utext \<Rightarrow> utext \<Rightarrow> utext \<Rightarrow> utext \<Rightarrow> utext option \<Rightarrow> job_entry" where
  "markdown_job i schedule prompt name t hours =
     \<lparr>je_id = i, je_schedule = Some (cron_spec schedule), je_prompt = prompt, je_name = Some name, je_tz = None,
      je_hours = hours, je_enabled = True, je_last_run = None, je_next_run = None, je_created = None,
      je_delivery = parse_target_string t, je_last_runs = [], je_allow = None, je_deny = None, je_retry = None,
      je_alert = None, je_errors = 0, je_skipped = 0, je_max_runs = None, je_completed = 0, je_delete_after = False,
      je_model = None, je_provider = None, je_last_alert = None, je_policy = Inject, je_webhook = None, je_creator = None\<rparr>"

definition same_job :: "utext \<Rightarrow> utext \<Rightarrow> job_entry \<Rightarrow> bool" where
  "same_job schedule prompt j \<longleftrightarrow> map_option spec_describe (je_schedule j) = Some schedule \<and> je_prompt j = prompt"

definition migrate_file :: "string \<Rightarrow> cron_file \<Rightarrow> job_entry list \<Rightarrow> job_entry list run" where
  "migrate_file fresh f jobs =
     (if cf_ext f \<noteq> Some (cps ''md'') then Ret jobs
      else case cf_content f of
        None \<Rightarrow> Ret jobs
      | Some content \<Rightarrow>
          (case parse_front_matter content of
             (front, body) \<Rightarrow>
               bind_run (extract_yaml_string front (cps ''schedule'')) (\<lambda>sch.
               case sch of
                 None \<Rightarrow> Ret jobs
               | Some schedule \<Rightarrow>
                   bind_run (extract_yaml_string front (cps ''target'')) (\<lambda>t.
                   let prompt = trim body in
                   if prompt = [] then Ret jobs
                   else bind_run (extract_yaml_string front (cps ''active_hours'')) (\<lambda>hours.
                     if list_ex (same_job schedule prompt) jobs then Ret jobs
                     else Ret (jobs @ [markdown_job fresh schedule prompt (cf_stem f)
                                 (case t of Some x \<Rightarrow> x | None \<Rightarrow> cps ''last'') hours]))))))"

primrec migrate_files :: "(nat \<Rightarrow> string) \<Rightarrow> cron_file list \<Rightarrow> job_entry list \<Rightarrow> job_entry list run" where
  "migrate_files fresh [] jobs = Ret jobs"
| "migrate_files fresh (f # fs) jobs =
     bind_run (migrate_file (fresh (length fs)) f jobs) (\<lambda>js. migrate_files fresh fs js)"

definition migrate_from_markdown ::
  "store_lib \<Rightarrow> save_io \<Rightarrow> (nat \<Rightarrow> string) \<Rightarrow> cron_file list \<Rightarrow> sched \<Rightarrow> (nat \<times> sched) run" where
  "migrate_from_markdown S io fresh fs s =
     map_run (\<lambda>js.
         let n = length js - length (sc_jobs s); s1 = s\<lparr>sc_jobs := js\<rparr> in
         (n, if n > 0 then snd (persist_jobs S io s1) else s1))
       (migrate_files fresh fs (sc_jobs s))"

end
