(* ===== verification/Scheduled_Turn.thy ===== *)
theory Scheduled_Turn
  imports Scheduler
begin

text \<open>
  What the orchestrator does with a cron trigger (\<open>agents/orchestrator/scheduled.rs\<close>) and the interleavings of
  the scheduler's tick with the tool, the webhook server and the runs in progress.  The turn itself is
  \<open>process_turn\<close>; its outcome, the channels and the clock are arguments.
\<close>

subsection \<open>Sessions of scheduled turns\<close>

record turn_session =
  ts_model :: "utext option"
  ts_owner :: utext

definition init_session :: "utext option \<Rightarrow> turn_session \<Rightarrow> turn_session" where
  "init_session model c = (case model of Some m \<Rightarrow> c\<lparr>ts_model := Some m\<rparr> | None \<Rightarrow> c)"

definition attribute_session :: "utext \<Rightarrow> utext option \<Rightarrow> turn_session \<Rightarrow> turn_session" where
  "attribute_session session_key creator c =
     (case creator of
        Some u \<Rightarrow> if ts_owner c = [] \<or> ts_owner c = session_key then c\<lparr>ts_owner := u\<rparr> else c
      | None \<Rightarrow> c)"

text \<open>\<open>load\<close>: what a session without a live context is made of.\<close>

definition prepare_scheduled_turn ::
  "(utext \<Rightarrow> turn_session) \<Rightarrow> utext \<Rightarrow> utext option \<Rightarrow> utext option \<Rightarrow> (utext \<rightharpoonup> turn_session) \<Rightarrow> (utext \<rightharpoonup> turn_session)" where
  "prepare_scheduled_turn load session_key model creator ctxs =
     (let c0 = (case ctxs session_key of Some c \<Rightarrow> c | None \<Rightarrow> init_session model (load session_key));
          c1 = init_session model c0 in
      ctxs(session_key \<mapsto> attribute_session session_key creator c1))"

record scheduled_inbound =
  si_id :: utext
  si_sender :: utext
  si_text :: utext
  si_timestamp :: nat
  si_background :: bool

definition scheduled_message :: "nat \<Rightarrow> utext \<Rightarrow> utext \<Rightarrow> scheduled_inbound" where
  "scheduled_message now_secs session_key prompt =
     \<lparr>si_id = cps ''scheduled:'' @ session_key, si_sender = cps ''scheduler:'' @ session_key, si_text = prompt,
      si_timestamp = now_secs, si_background = True\<rparr>"

subsection \<open>Delivery\<close>

record outgoing =
  og_channel :: utext
  og_account :: utext
  og_recipient :: utext
  og_thread :: "utext option"
  og_text :: utext

text \<open>\<open>orch.scheduler\<close> may be absent.\<close>

definition last_channel_of :: "sched option \<Rightarrow> utext option" where
  "last_channel_of so = Option.bind so sc_last_channel"

definition last_recipient_of :: "sched option \<Rightarrow> utext option" where
  "last_recipient_of so = Option.bind so sc_last_recipient"

definition resolve_user_routing_key :: "sched option \<Rightarrow> utext option \<Rightarrow> utext option \<Rightarrow> utext option" where
  "resolve_user_routing_key so target_channel target_recipient =
     (case (case target_channel of
              Some ch \<Rightarrow> Some (ch, default_account)
            | None \<Rightarrow> Option.bind (last_channel_of so) (split_once 58)) of
        None \<Rightarrow> None
      | Some (ch, acc) \<Rightarrow>
          map_option (\<lambda>r. ch @ [58] @ acc @ [58] @ r)
            (case target_recipient of Some r \<Rightarrow> Some r | None \<Rightarrow> last_recipient_of so))"

definition send_to_target_internal ::
  "(utext \<times> utext \<Rightarrow> bool) \<Rightarrow> sched option \<Rightarrow> target \<Rightarrow> utext \<Rightarrow> outgoing list" where
  "send_to_target_internal channels so t content =
     (case (case (tg_channel t, tg_account t) of
              (Some ch, Some acc) \<Rightarrow> Some (ch, acc)
            | (Some ch, None) \<Rightarrow> Some (ch, default_account)
            | (None, _) \<Rightarrow> Option.bind (last_channel_of so) (split_once 58)) of
        None \<Rightarrow> []
      | Some (ch, acc) \<Rightarrow>
          if channels (ch, acc) then
            [\<lparr>og_channel = ch, og_account = acc,
              og_recipient = (case tg_recipient t of Some r \<Rightarrow> r
                | None \<Rightarrow> (case last_recipient_of so of Some r \<Rightarrow> r | None \<Rightarrow> [])),
              og_thread = tg_thread t, og_text = content\<rparr>]
          else [])"

subsection \<open>A cron task\<close>

definition effective_session_key :: "sched option \<Rightarrow> cron_trigger \<Rightarrow> utext" where
  "effective_session_key so t =
     (if ct_policy t = Inject then
        (case resolve_user_routing_key so (tg_channel (ct_target t)) (tg_recipient (ct_target t)) of
           Some k \<Rightarrow> k
         | None \<Rightarrow> ct_session t)
      else ct_session t)"

definition run_record_now :: "('z, 'c) time_lib \<Rightarrow> int \<Rightarrow> run_status \<Rightarrow> run_record" where
  "run_record_now T now x =
     \<lparr>rr_run_at = tl_show T now, rr_status = x, rr_trigger = None, rr_duration = 0, rr_preview = [], rr_error = None,
      rr_input = 0, rr_output = 0, rr_payload = None, rr_prompt_head = None\<rparr>"

definition cron_record :: "('z, 'c) time_lib \<Rightarrow> int \<Rightarrow> nat \<Rightarrow> utext + utext \<Rightarrow> run_record" where
  "cron_record T now ms result =
     (case result of
        Inr response \<Rightarrow> with_trigger (cps ''cron'') (with_output_preview response (with_duration ms (run_record_now T now Run_Ok)))
      | Inl e \<Rightarrow> with_trigger (cps ''cron'') (with_error e (with_duration ms (run_record_now T now Run_Error))))"

definition deliver_result ::
  "(utext \<times> utext \<Rightarrow> bool) \<Rightarrow> sched option \<Rightarrow> target \<Rightarrow> utext + utext \<Rightarrow> utext option \<Rightarrow> outgoing list" where
  "deliver_result channels so t result alert =
     (case result of
        Inr response \<Rightarrow>
          if \<not> tg_suppressed t \<and> trim response \<noteq> [] then send_to_target_internal channels so t response else []
      | Inl _ \<Rightarrow> [])
     @ (case alert of Some a \<Rightarrow> send_to_target_internal channels so t a | None \<Rightarrow> [])"

text \<open>From the end of the turn on: a panic in \<open>mark_run_result\<close> ends the task before anything is sent.\<close>

definition finish_cron_task ::
  "store_lib \<Rightarrow> ('z, 'c) time_lib \<Rightarrow> save_io \<Rightarrow> bool \<Rightarrow> (utext \<times> utext \<Rightarrow> bool) \<Rightarrow> int \<Rightarrow> nat \<Rightarrow> cron_trigger \<Rightarrow> utext + utext
    \<Rightarrow> sched \<Rightarrow> outgoing list \<times> sched" where
  "finish_cron_task S T io log_ok channels now ms t result s =
     (case mark_run_result S T io log_ok now (ct_job t) (cron_record T now ms result) s of
        (Panic, s1) \<Rightarrow> ([], s1)
      | (Ret alert, s1) \<Rightarrow> (deliver_result channels (Some s1) (ct_target t) result alert, s1))"

subsection \<open>Interleavings\<close>

datatype tick_phase = Waiting | Sending "job_entry list" "string list"

record sched_run =
  sr_s :: sched
  sr_phase :: tick_phase
  sr_running :: "cron_trigger list"
  sr_now :: int
  sr_out :: "outgoing list"

text \<open>The faults of a step are those of its writes.\<close>

datatype sched_op =
    Op_Wait nat
  | Op_Tick_Begin save_io bool
  | Op_Tick_Send
  | Op_Tick_Mark save_io
  | Op_Take
  | Op_Finish nat save_io bool nat "utext + utext"
  | Op_Add save_io string job_entry
  | Op_Update save_io string job_update
  | Op_Remove save_io string
  | Op_Webhook_Run bool string run_record
  | Op_Message utext utext
  | Op_Distill
  | Op_Propose

definition on_sched :: "(sched \<Rightarrow> sched) \<Rightarrow> sched_run \<Rightarrow> sched_run" where
  "on_sched f r = r\<lparr>sr_s := f (sr_s r)\<rparr>"

definition now_secs_of :: "int \<Rightarrow> nat" where
  "now_secs_of t = nat (t div 1000000000)"

definition begin_tick :: "store_lib \<Rightarrow> 'u uuid_lib \<Rightarrow> ('z, 'c) time_lib \<Rightarrow> save_io \<Rightarrow> bool \<Rightarrow> sched_run \<Rightarrow> sched_run" where
  "begin_tick S U T io readable r =
     (case sr_phase r of
        Waiting \<Rightarrow>
          (case tick_begin S U T io readable (sr_now r) (sr_s r) of
             (due, s1) \<Rightarrow> r\<lparr>sr_s := s1, sr_phase := Sending due []\<rparr>)
      | Sending _ _ \<Rightarrow> r)"

definition send_tick :: "'u uuid_lib \<Rightarrow> sched_run \<Rightarrow> sched_run" where
  "send_tick U r =
     (case sr_phase r of
        Sending (j # js) ids \<Rightarrow> r\<lparr>sr_s := tick_send U j (sr_s r), sr_phase := Sending js (ids @ [je_id j])\<rparr>
      | _ \<Rightarrow> r)"

definition mark_tick :: "store_lib \<Rightarrow> ('z, 'c) time_lib \<Rightarrow> save_io \<Rightarrow> sched_run \<Rightarrow> sched_run" where
  "mark_tick S T io r =
     (case sr_phase r of
        Sending [] ids \<Rightarrow> r\<lparr>sr_s := tick_mark S T io (sr_now r) ids (sr_s r), sr_phase := Waiting\<rparr>
      | _ \<Rightarrow> r)"

definition take_event :: "sched_run \<Rightarrow> sched_run" where
  "take_event r =
     (case sc_events (sr_s r) of
        [] \<Rightarrow> r
      | e # es \<Rightarrow>
          let r1 = on_sched (\<lambda>s. s\<lparr>sc_events := es\<rparr>) r in
          (case e of Cron_Event t \<Rightarrow> r1\<lparr>sr_running := sr_running r1 @ [t]\<rparr> | _ \<Rightarrow> r1))"

definition finish_run ::
  "store_lib \<Rightarrow> ('z, 'c) time_lib \<Rightarrow> (utext \<times> utext \<Rightarrow> bool) \<Rightarrow> nat \<Rightarrow> save_io \<Rightarrow> bool \<Rightarrow> nat \<Rightarrow> utext + utext \<Rightarrow> sched_run \<Rightarrow> sched_run" where
  "finish_run S T channels k io log_ok ms result r =
     (if k < length (sr_running r) then
        (case finish_cron_task S T io log_ok channels (sr_now r) ms (sr_running r ! k) result (sr_s r) of
           (out, s1) \<Rightarrow> r\<lparr>sr_s := s1, sr_running := take k (sr_running r) @ drop (Suc k) (sr_running r),
                          sr_out := sr_out r @ out\<rparr>)
      else r)"

primrec sched_step ::
  "store_lib \<Rightarrow> 'u uuid_lib \<Rightarrow> ('z, 'c) time_lib \<Rightarrow> (utext \<times> utext \<Rightarrow> bool) \<Rightarrow> sched_op \<Rightarrow> sched_run \<Rightarrow> sched_run" where
  "sched_step S U T channels (Op_Wait n) r = r\<lparr>sr_now := sr_now r + int n\<rparr>"
| "sched_step S U T channels (Op_Tick_Begin io readable) r = begin_tick S U T io readable r"
| "sched_step S U T channels Op_Tick_Send r = send_tick U r"
| "sched_step S U T channels (Op_Tick_Mark io) r = mark_tick S T io r"
| "sched_step S U T channels Op_Take r = take_event r"
| "sched_step S U T channels (Op_Finish k io log_ok ms result) r = finish_run S T channels k io log_ok ms result r"
| "sched_step S U T channels (Op_Add io fresh e) r = on_sched (\<lambda>s. snd (add_job S T io (sr_now r) fresh e s)) r"
| "sched_step S U T channels (Op_Update io i u) r = on_sched (\<lambda>s. snd (update_job S T io (sr_now r) i u s)) r"
| "sched_step S U T channels (Op_Remove io i) r = on_sched (\<lambda>s. snd (remove_job S io i s)) r"
| "sched_step S U T channels (Op_Webhook_Run log_ok i w) r = on_sched (record_webhook_run S log_ok i w) r"
| "sched_step S U T channels (Op_Message c t) r = on_sched (record_user_message (now_secs_of (sr_now r)) c t) r"
| "sched_step S U T channels Op_Distill r = on_sched (maybe_fire_distill (now_secs_of (sr_now r))) r"
| "sched_step S U T channels Op_Propose r = on_sched (maybe_fire_proposer (now_secs_of (sr_now r))) r"

definition run_sched ::
  "store_lib \<Rightarrow> 'u uuid_lib \<Rightarrow> ('z, 'c) time_lib \<Rightarrow> (utext \<times> utext \<Rightarrow> bool) \<Rightarrow> sched_op list \<Rightarrow> sched_run \<Rightarrow> sched_run" where
  "run_sched S U T channels ops r = fold (sched_step S U T channels) ops r"

end
