(* ===== verification/Webhook.thy ===== *)
theory Webhook
  imports Scheduled_Turn Utf8
begin

text \<open>
  The webhook server (\<open>scheduling_runtime/webhook\<close>): templates, filters, the guard against bursts and
  repeated deliveries, the authentication and the handler of a request, from its method to the turn it
  starts.  A request is its method, path, headers and the frames of its body.  serde\_json, the regex engine,
  HMAC-SHA256 and the clocks are arguments.
\<close>

subsection \<open>Templates and filters\<close>

record http_lib =
  hl_json :: "nat list \<Rightarrow> json option"
  hl_pretty :: "json \<Rightarrow> utext"
  hl_compact :: "json \<Rightarrow> utext"
  hl_regex :: "utext \<Rightarrow> utext \<Rightarrow> bool option"
  hl_hmac :: "nat list \<Rightarrow> nat list \<Rightarrow> nat list"
  hl_timestamp :: "int \<Rightarrow> bool"

definition bool_text :: "bool \<Rightarrow> utext" where
  "bool_text b = (if b then cps ''true'' else cps ''false'')"

primrec index_path :: "utext list \<Rightarrow> json \<Rightarrow> json option" where
  "index_path [] v = Some v"
| "index_path (p # ps) v =
     (if p = [] then index_path ps v
      else case parse_num 64 (dropWhile (\<lambda>c. c = 91) p) of
        None \<Rightarrow> None
      | Some i \<Rightarrow> (case jindex v i of None \<Rightarrow> None | Some w \<Rightarrow> index_path ps w))"

definition step_segment :: "utext \<Rightarrow> json \<Rightarrow> json option" where
  "step_segment seg v =
     (case position (\<lambda>c. c = 91) seg of
        Some b \<Rightarrow>
          (case (if take b seg = [] then Some v else jget v (take b seg)) of
             None \<Rightarrow> None
           | Some w \<Rightarrow> index_path (split_on 93 (drop b seg)) w)
      | None \<Rightarrow> jget v seg)"

primrec navigate_segments :: "utext list \<Rightarrow> json \<Rightarrow> json option" where
  "navigate_segments [] v = Some v"
| "navigate_segments (s # ss) v = (case step_segment s v of None \<Rightarrow> None | Some w \<Rightarrow> navigate_segments ss w)"

definition navigate_json_value :: "json \<Rightarrow> utext \<Rightarrow> json option" where
  "navigate_json_value v path = navigate_segments (split_on 46 path) v"

definition template_value :: "http_lib \<Rightarrow> json option \<Rightarrow> utext" where
  "template_value L v =
     (case v of
        None \<Rightarrow> []
      | Some JNull \<Rightarrow> []
      | Some (JString s) \<Rightarrow> s
      | Some (JNumber t _) \<Rightarrow> t
      | Some (JBool b) \<Rightarrow> bool_text b
      | Some w \<Rightarrow> hl_compact L w)"

definition braces_open :: utext where "braces_open = [123, 123]"
definition braces_close :: utext where "braces_close = [125, 125]"

text \<open>The search goes on behind the replacement, so that what a value holds is not rendered again.\<close>

function render_template :: "http_lib \<Rightarrow> json \<Rightarrow> utext \<Rightarrow> utext" where
  "render_template L payload t =
     (case str_find braces_open t of
        None \<Rightarrow> t
      | Some a \<Rightarrow>
          (case str_find braces_close (drop a t) of
             None \<Rightarrow> t
           | Some n \<Rightarrow>
               take a t @ template_value L (navigate_json_value payload (trim (drop 2 (take n (drop a t)))))
               @ render_template L payload (drop (a + n + 2) t)))"
  by pat_completeness auto
termination
proof (relation "measure (\<lambda>(L, p, t). length t)", simp)
  fix L :: http_lib and payload t a n
  assume "str_find braces_open t = Some a"
  then have "t \<noteq> []" by (cases t) (auto simp: braces_open_def)
  then show "((L, payload, drop (a + n + 2) t), L, payload, t) \<in> measure (\<lambda>(L, p, t). length t)" by simp
qed

declare render_template.simps [simp del]

definition pretty_payload :: "http_lib \<Rightarrow> json \<Rightarrow> nat \<Rightarrow> utext" where
  "pretty_payload L payload max_chars =
     (let s = hl_pretty L payload in
      if length s \<le> max_chars then s else take max_chars s @ [10, 0x2026] @ cps ''[truncated]'')"

definition extract_event_type :: "utext option \<Rightarrow> json \<Rightarrow> utext option" where
  "extract_event_type event_header payload =
     (case event_header of
        Some h \<Rightarrow> if h \<noteq> [] then Some h
          else Option.bind (or_else (jget payload (cps ''event_type'')) (jget payload (cps ''type''))) as_str
      | None \<Rightarrow> Option.bind (or_else (jget payload (cps ''event_type'')) (jget payload (cps ''type''))) as_str)"

primrec follow :: "utext list \<Rightarrow> json \<Rightarrow> json option" where
  "follow [] v = Some v"
| "follow (s # ss) v = (case jget v s of None \<Rightarrow> None | Some w \<Rightarrow> follow ss w)"

definition scalar_text :: "json \<Rightarrow> utext option" where
  "scalar_text v =
     (case v of JString s \<Rightarrow> Some s | JNumber t _ \<Rightarrow> Some t | JBool b \<Rightarrow> Some (bool_text b) | _ \<Rightarrow> None)"

definition filter_matches :: "http_lib \<Rightarrow> webhook_filter \<Rightarrow> json \<Rightarrow> bool" where
  "filter_matches L f payload =
     (case Option.bind (follow (split_on 46 (wf_field f)) payload) scalar_text of
        None \<Rightarrow> wf_not f
      | Some actual \<Rightarrow>
          let matched = (case wf_equals f of
                Some e \<Rightarrow> actual = e
              | None \<Rightarrow> (case wf_matches f of
                    Some re \<Rightarrow> (case hl_regex L re actual of Some b \<Rightarrow> b | None \<Rightarrow> False)
                  | None \<Rightarrow> True)) in
          matched \<noteq> wf_not f)"

definition ignore_reason :: "http_lib \<Rightarrow> webhook_job \<Rightarrow> utext option \<Rightarrow> json \<Rightarrow> utext option" where
  "ignore_reason L job event_type payload =
     or_else
       (case wj_events job of
          Some events \<Rightarrow>
            let et = (case event_type of Some e \<Rightarrow> e | None \<Rightarrow> []) in
            if et \<in> set events then None else Some (cps ''event '' @ [39] @ et @ [39] @ cps '' not in whitelist'')
        | None \<Rightarrow> None)
       (case wj_filters job of
          Some fs \<Rightarrow> if list_all (\<lambda>f. filter_matches L f payload) fs then None else Some (cps ''filters not satisfied'')
        | None \<Rightarrow> None)"

definition payload_tag :: utext where
  "payload_tag = braces_open @ cps ''payload'' @ braces_close"

definition event_tag :: utext where
  "event_tag = braces_open @ cps ''event_type'' @ braces_close"

definition webhook_prompt :: "http_lib \<Rightarrow> webhook_job \<Rightarrow> utext option \<Rightarrow> json \<Rightarrow> utext" where
  "webhook_prompt L job event_type payload =
     (let p0 = render_template L payload (wj_template job);
          p1 = (if contains p0 payload_tag then replace_all payload_tag (pretty_payload L payload 4000) p0
                else case event_type of Some et \<Rightarrow> replace_all event_tag et p0 | None \<Rightarrow> p0);
          appendix = pretty_payload L payload 4000 in
      if \<not> wj_payload_off job \<and> \<not> contains (wj_template job) payload_tag \<and> appendix \<noteq> []
      then p1 @ [10, 10] @ cps ''--- webhook payload ---'' @ [10] @ appendix else p1)"

subsection \<open>The guard\<close>

text \<open>Instants are nanoseconds of the monotonic clock.\<close>

record guard =
  wg_rate :: "utext \<times> utext \<Rightarrow> int list"
  wg_inflight :: "utext \<Rightarrow> nat"
  wg_deliveries :: "utext \<rightharpoonup> int"

definition empty_guard :: guard where
  "empty_guard = \<lparr>wg_rate = (\<lambda>_. []), wg_inflight = (\<lambda>_. 0), wg_deliveries = Map.empty\<rparr>"

definition rate_max :: nat where "rate_max = 120"
definition rate_window :: int where "rate_window = 60 * 1000000000"
definition concurrency_max :: nat where "concurrency_max = 8"
definition delivery_ttl :: int where "delivery_ttl = 3600"
definition body_limit :: nat where "body_limit = 256 * 1024"
definition max_skew :: int where "max_skew = 300"

definition check_rate :: "int \<Rightarrow> utext \<Rightarrow> utext \<Rightarrow> guard \<Rightarrow> bool \<times> guard" where
  "check_rate t route ip g =
     (let win = dropWhile (\<lambda>x. x < t - rate_window) (wg_rate g (route, ip)) in
      if length win \<ge> rate_max then (False, g\<lparr>wg_rate := (wg_rate g)((route, ip) := win)\<rparr>)
      else (True, g\<lparr>wg_rate := (wg_rate g)((route, ip) := win @ [t])\<rparr>))"

definition acquire :: "utext \<Rightarrow> guard \<Rightarrow> bool \<times> guard" where
  "acquire route g =
     (if wg_inflight g route \<ge> concurrency_max then (False, g)
      else (True, g\<lparr>wg_inflight := (wg_inflight g)(route := wg_inflight g route + 1)\<rparr>))"

definition release :: "utext \<Rightarrow> guard \<Rightarrow> guard" where
  "release route g = g\<lparr>wg_inflight := (wg_inflight g)(route := wg_inflight g route - 1)\<rparr>"

text \<open>\<open>duration_since\<close> saturates at zero.\<close>

definition fresh_delivery :: "int \<Rightarrow> int \<Rightarrow> bool" where
  "fresh_delivery t seen \<longleftrightarrow> max 0 (t - seen) div 1000000000 < delivery_ttl"

definition check_delivery :: "int \<Rightarrow> utext \<Rightarrow> guard \<Rightarrow> bool \<times> guard" where
  "check_delivery t i g =
     (let m = (\<lambda>k. case wg_deliveries g k of Some x \<Rightarrow> if fresh_delivery t x then Some x else None | None \<Rightarrow> None) in
      if m i \<noteq> None then (False, g\<lparr>wg_deliveries := m\<rparr>) else (True, g\<lparr>wg_deliveries := m(i \<mapsto> t)\<rparr>))"

subsection \<open>Authentication\<close>

definition hex_lower :: "nat \<Rightarrow> nat" where
  "hex_lower d = (if d < 10 then 48 + d else 87 + d)"

definition hex_text :: "nat list \<Rightarrow> utext" where
  "hex_text bs = concat (map (\<lambda>b. [hex_lower (b div 16), hex_lower (b mod 16)]) bs)"

text \<open>The comparison that takes the same time wherever the texts differ.\<close>

definition ct_equal :: "8 word list \<Rightarrow> 8 word list \<Rightarrow> bool" where
  "ct_equal a b \<longleftrightarrow> length a = length b \<and> fold (\<lambda>(x, y) d. or d (xor x y)) (zip a b) 0 = 0"

definition byte_words :: "utext \<Rightarrow> 8 word list" where
  "byte_words t = map of_nat (encode t)"

definition verify_hmac_signature :: "http_lib \<Rightarrow> nat list \<Rightarrow> utext \<Rightarrow> utext \<Rightarrow> bool" where
  "verify_hmac_signature L body secret header =
     ct_equal (byte_words (cps ''sha256='' @ hex_text (hl_hmac L (encode secret) body))) (byte_words header)"

definition parse_i64 :: "utext \<Rightarrow> int option" where
  "parse_i64 t =
     (case t of
        [] \<Rightarrow> None
      | c # r \<Rightarrow>
          if c = 45 then
            (if r = [] \<or> hd r = 43 then None
             else case parse_num 64 r of Some n \<Rightarrow> if n \<le> 2 ^ 63 then Some (- int n) else None | None \<Rightarrow> None)
          else (case parse_num 63 t of Some n \<Rightarrow> Some (int n) | None \<Rightarrow> None))"

definition skew_of :: "http_lib \<Rightarrow> int \<Rightarrow> utext \<Rightarrow> int option" where
  "skew_of L now ts =
     Option.bind (parse_i64 ts) (\<lambda>t. if hl_timestamp L t then Some (\<bar>now - t * 1000000000\<bar> div 1000000000) else None)"

text \<open>\<open>String::from_utf8_lossy\<close>: each maximal invalid sequence is one replacement character.\<close>

function lossy :: "nat list \<Rightarrow> utext" where
  "lossy bs =
     (if bs = [] then []
      else case decode_one bs of
        Chr c w \<Rightarrow> c # lossy (drop w bs)
      | Cut \<Rightarrow> [0xFFFD]
      | Bad n \<Rightarrow> 0xFFFD # lossy (drop n bs))"
  by pat_completeness auto
termination
  by (relation "measure length") (auto dest: decode_one_width)

declare lossy.simps [simp del]

definition signed_v2 :: "utext \<Rightarrow> nat list \<Rightarrow> nat list" where
  "signed_v2 ts body = encode (cps ''v2:'' @ ts @ [58] @ lossy body)"

text \<open>\<open>None\<close>: authenticated.\<close>

definition hmac_refusal :: "http_lib \<Rightarrow> int \<Rightarrow> utext \<Rightarrow> utext option \<Rightarrow> utext option \<Rightarrow> nat list \<Rightarrow> utext option" where
  "hmac_refusal L now secret ts_header sig_header body =
     (case ts_header of
        Some ts \<Rightarrow>
          if (case skew_of L now ts of Some k \<Rightarrow> k > max_skew | None \<Rightarrow> True) then Some (cps ''stale timestamp'')
          else if (case sig_header of Some sig \<Rightarrow> verify_hmac_signature L (signed_v2 ts body) secret sig | None \<Rightarrow> False)
          then None else Some (cps ''invalid signature'')
      | None \<Rightarrow>
          (case sig_header of
             Some sig \<Rightarrow> if verify_hmac_signature L body secret sig then None else Some (cps ''invalid signature'')
           | None \<Rightarrow> Some (cps ''missing signature'')))"

definition bearer_of :: "utext \<Rightarrow> utext" where
  "bearer_of secret = cps ''Bearer '' @ secret"

definition auth_refusal ::
  "http_lib \<Rightarrow> int \<Rightarrow> webhook_job \<Rightarrow> utext option \<Rightarrow> utext option \<Rightarrow> utext option \<Rightarrow> nat list \<Rightarrow> utext option" where
  "auth_refusal L now job ts_header sig_header auth_header body =
     (case wj_auth job of
        Hmac \<Rightarrow> hmac_refusal L now (wj_secret job) ts_header sig_header body
      | Bearer \<Rightarrow> if auth_header = Some (bearer_of (wj_secret job)) then None else Some (cps ''invalid token''))"

subsection \<open>Requests\<close>

datatype header_value = Readable utext | Opaque

datatype frame = Data "nat list" | Trailer | Frame_Error utext

record http_request =
  hr_post :: bool
  hr_path :: utext
  hr_headers :: "string \<rightharpoonup> header_value"
  hr_frames :: "frame list"
  hr_slow :: bool
  hr_ip :: utext

fun readable_header :: "header_value option \<Rightarrow> utext option" where
  "readable_header (Some (Readable t)) = Some t"
| "readable_header _ = None"

definition header :: "http_request \<Rightarrow> string \<Rightarrow> utext option" where
  "header q n = readable_header (hr_headers q n)"

definition acceptable_content_type :: "utext option \<Rightarrow> bool" where
  "acceptable_content_type ct =
     (case ct of
        None \<Rightarrow> False
      | Some c \<Rightarrow>
          let mime = map lower_cp (trim (takeWhile (\<lambda>x. x \<noteq> 59) c)) in
          mime = cps ''application/json'' \<or> prefix (cps ''text/'') mime \<or> mime = cps ''application/x-www-form-urlencoded'')"

definition json_content_type :: "utext option \<Rightarrow> bool" where
  "json_content_type ct =
     (case ct of None \<Rightarrow> False | Some c \<Rightarrow> map lower_cp (trim (takeWhile (\<lambda>x. x \<noteq> 59) c)) = cps ''application/json'')"

fun read_capped :: "nat list \<Rightarrow> frame list \<Rightarrow> utext + nat list" where
  "read_capped buf [] = Inr buf"
| "read_capped buf (Data c # fs) =
     (if c = [] then read_capped buf fs
      else if length buf + length c > body_limit then Inl (cps ''too large'') else read_capped (buf @ c) fs)"
| "read_capped buf (Trailer # fs) = read_capped buf fs"
| "read_capped buf (Frame_Error e # fs) = Inl e"

definition collect_body_capped :: "http_request \<Rightarrow> utext + nat list" where
  "collect_body_capped q = (if hr_slow q then Inl (cps ''body read timeout'') else read_capped [] (hr_frames q))"

fun collect_body :: "frame list \<Rightarrow> nat list option" where
  "collect_body [] = Some []"
| "collect_body (Data c # fs) = map_option (\<lambda>r. c @ r) (collect_body fs)"
| "collect_body (Trailer # fs) = collect_body fs"
| "collect_body (Frame_Error e # fs) = None"

datatype status =
    S200 | S202 | S400 | S401 | S404 | S405 | S408 | S413 | S415 | S429 | S500 | S503

type_synonym http_response = "status \<times> utext"

definition body_error_response :: "utext \<Rightarrow> http_response" where
  "body_error_response e =
     (if contains e (cps ''too large'') then (S413, cps ''body too large'')
      else if contains e (cps ''timeout'') then (S408, cps ''body read timeout'')
      else (S400, cps ''failed to read body''))"

datatype hook_effect =
    No_Effect
  | Webhook_Turn webhook_job utext utext json
  | Agent_Run utext delivery_config

definition wrong_token :: "utext option \<Rightarrow> http_request \<Rightarrow> bool" where
  "wrong_token global_secret q \<longleftrightarrow>
     (case global_secret of Some secret \<Rightarrow> header q ''Authorization'' \<noteq> Some (bearer_of secret) | None \<Rightarrow> False)"

text \<open>\<open>None\<close>: the connection ends with an error instead of a response.\<close>

definition handle_hooks_agent :: "http_lib \<Rightarrow> utext option \<Rightarrow> http_request \<Rightarrow> http_response option \<times> hook_effect" where
  "handle_hooks_agent L global_secret q =
     (if \<not> json_content_type (header q ''Content-Type'')
      then (Some (S415, cps ''Content-Type must be application/json''), No_Effect)
      else if wrong_token global_secret q then (Some (S401, cps ''invalid token''), No_Effect)
      else case collect_body (hr_frames q) of
        None \<Rightarrow> (None, No_Effect)
      | Some body \<Rightarrow>
          (case hl_json L body of
             None \<Rightarrow> (Some (S400, cps ''invalid JSON''), No_Effect)
           | Some payload \<Rightarrow>
               let text' = (case get_str payload ''message'' of Some m \<Rightarrow> m | None \<Rightarrow> []);
                   t = (case get_str payload ''target'' of Some x \<Rightarrow> x | None \<Rightarrow> cps ''last'') in
               if text' = [] then (Some (S400, cps ''missing '' @ [39] @ cps ''message'' @ [39] @ cps '' field''), No_Effect)
               else (Some (S202, cps ''accepted''), Agent_Run text' (parse_target_string t))))"

definition handle_hooks_wake :: "http_lib \<Rightarrow> utext option \<Rightarrow> http_request \<Rightarrow> http_response option \<times> hook_effect" where
  "handle_hooks_wake L global_secret q =
     (if wrong_token global_secret q then (Some (S401, cps ''invalid token''), No_Effect)
      else case collect_body (hr_frames q) of
        None \<Rightarrow> (None, No_Effect)
      | Some body \<Rightarrow>
          (case hl_json L body of
             None \<Rightarrow> (Some (S400, cps ''invalid JSON''), No_Effect)
           | Some payload \<Rightarrow> (Some (S200, cps ''wake acknowledged''), No_Effect)))"

definition skipped_record :: "http_lib \<Rightarrow> ('z, 'c) time_lib \<Rightarrow> int \<Rightarrow> utext \<Rightarrow> json \<Rightarrow> run_record" where
  "skipped_record L T now why payload =
     (run_record_now T now Run_Skipped)\<lparr>rr_trigger := Some (cps ''webhook''), rr_error := Some why,
        rr_payload := Some (pretty_payload L payload 8192)\<rparr>"

definition delivery_id :: "http_request \<Rightarrow> utext option" where
  "delivery_id q =
     readable_header (or_else (hr_headers q ''X-GitHub-Delivery'')
       (or_else (hr_headers q ''svix-id'') (hr_headers q ''X-Request-ID'')))"

definition event_header :: "http_request \<Rightarrow> utext option" where
  "event_header q = readable_header (or_else (hr_headers q ''X-GitHub-Event'') (hr_headers q ''X-GitLab-Event''))"

definition declared_too_large :: "http_request \<Rightarrow> bool" where
  "declared_too_large q \<longleftrightarrow>
     (case Option.bind (header q ''Content-Length'') (parse_num 64) of Some n \<Rightarrow> n > body_limit | None \<Rightarrow> False)"

text \<open>An authenticated and first delivery: it is filtered or starts a turn, which keeps its slot.\<close>

definition accept_delivery ::
  "http_lib \<Rightarrow> 'u uuid_lib \<Rightarrow> store_lib \<Rightarrow> ('z, 'c) time_lib \<Rightarrow> bool \<Rightarrow> int \<Rightarrow> webhook_job \<Rightarrow> utext option \<Rightarrow> nat list \<Rightarrow> sched
    \<Rightarrow> http_response \<times> hook_effect \<times> sched" where
  "accept_delivery L U S T log_ok now job event body s =
     (let payload = (case hl_json L body of Some v \<Rightarrow> v | None \<Rightarrow> JString (lossy body));
          event_type = extract_event_type event payload in
      case ignore_reason L job event_type payload of
        Some why \<Rightarrow>
          ((S200, cps ''ignored''), No_Effect, record_webhook_run S log_ok (wj_id job) (skipped_record L T now why payload) s)
      | None \<Rightarrow>
          ((S202, cps ''accepted''),
           Webhook_Turn job (job_session U (wj_id job)) (webhook_prompt L job event_type payload) payload, s))"

text \<open>With a slot of the route: the size, the body, the credentials and the delivery id.\<close>

definition handle_slot ::
  "http_lib \<Rightarrow> 'u uuid_lib \<Rightarrow> store_lib \<Rightarrow> ('z, 'c) time_lib \<Rightarrow> bool \<Rightarrow> int \<Rightarrow> int \<Rightarrow> webhook_job \<Rightarrow> http_request \<Rightarrow> guard \<times> sched
    \<Rightarrow> http_response \<times> hook_effect \<times> guard \<times> sched" where
  "handle_slot L U S T log_ok now t job q gs =
     (case gs of (g, s) \<Rightarrow>
      if declared_too_large q then ((S413, cps ''body too large''), No_Effect, g, s)
      else case collect_body_capped q of
        Inl e \<Rightarrow> (body_error_response e, No_Effect, g, s)
      | Inr body \<Rightarrow>
          if wj_secret job = [] then ((S500, cps ''route misconfigured''), No_Effect, g, s)
          else (case auth_refusal L now job (header q ''X-MyClaw-Timestamp'') (header q ''X-Hub-Signature-256'')
                       (header q ''Authorization'') body of
             Some why \<Rightarrow> ((S401, why), No_Effect, g, s)
           | None \<Rightarrow>
               (case (case delivery_id q of Some i \<Rightarrow> check_delivery t i g | None \<Rightarrow> (True, g)) of
                  (False, g1) \<Rightarrow> ((S200, cps ''duplicate''), No_Effect, g1, s)
                | (True, g1) \<Rightarrow>
                    (case accept_delivery L U S T log_ok now job (event_header q) body s of
                       (resp, eff, s1) \<Rightarrow> (resp, eff, g1, s1)))))"

text \<open>Before the body is read: the content type, the rate of the sender and a slot of the route; \<open>None\<close> for a
  request that has got its slot.\<close>

definition admit :: "int \<Rightarrow> webhook_job \<Rightarrow> http_request \<Rightarrow> guard \<Rightarrow> http_response option \<times> guard" where
  "admit t job q g =
     (if \<not> acceptable_content_type (header q ''Content-Type'')
      then (Some (S415, cps ''Content-Type must be application/json, text/* or application/x-www-form-urlencoded''), g)
      else case check_rate t (wj_route job) (hr_ip q) g of
        (False, g1) \<Rightarrow> (Some (S429, cps ''rate limit exceeded''), g1)
      | (True, g1) \<Rightarrow>
          (case acquire (wj_route job) g1 of
             (False, g2) \<Rightarrow> (Some (S503, cps ''route busy''), g2)
           | (True, g2) \<Rightarrow> (None, g2)))"

text \<open>An admitted request gives its slot back unless its turn takes it over.\<close>

definition serve_admitted ::
  "http_lib \<Rightarrow> 'u uuid_lib \<Rightarrow> store_lib \<Rightarrow> ('z, 'c) time_lib \<Rightarrow> bool \<Rightarrow> int \<Rightarrow> int \<Rightarrow> webhook_job \<Rightarrow> http_request \<Rightarrow> guard \<times> sched
    \<Rightarrow> http_response \<times> hook_effect \<times> guard \<times> sched" where
  "serve_admitted L U S T log_ok now t job q gs =
     (case handle_slot L U S T log_ok now t job q gs of
        (resp, eff, g, s) \<Rightarrow>
          (resp, eff, (case eff of Webhook_Turn _ _ _ _ \<Rightarrow> g | _ \<Rightarrow> release (wj_route job) g), s))"

definition handle_route ::
  "http_lib \<Rightarrow> 'u uuid_lib \<Rightarrow> store_lib \<Rightarrow> ('z, 'c) time_lib \<Rightarrow> bool \<Rightarrow> int \<Rightarrow> int \<Rightarrow> webhook_job \<Rightarrow> http_request \<Rightarrow> guard \<times> sched
    \<Rightarrow> http_response \<times> hook_effect \<times> guard \<times> sched" where
  "handle_route L U S T log_ok now t job q gs =
     (case gs of (g, s) \<Rightarrow>
      case admit t job q g of
        (Some resp, g1) \<Rightarrow> (resp, No_Effect, g1, s)
      | (None, g1) \<Rightarrow> serve_admitted L U S T log_ok now t job q (g1, s))"

text \<open>The job of the route a path names, in the projection of the moment.\<close>

definition hook_job :: "http_request \<Rightarrow> sched \<Rightarrow> webhook_job option" where
  "hook_job q s =
     (case strip_prefix (cps ''/hooks/'') (hr_path q) of
        None \<Rightarrow> None
      | Some route \<Rightarrow> if 47 \<in> set route then None else find (\<lambda>j. wj_route j = route) (webhook_jobs s))"

definition handle_request ::
  "http_lib \<Rightarrow> 'u uuid_lib \<Rightarrow> store_lib \<Rightarrow> ('z, 'c) time_lib \<Rightarrow> utext option \<Rightarrow> bool \<Rightarrow> int \<Rightarrow> int \<Rightarrow> http_request \<Rightarrow> guard \<times> sched
    \<Rightarrow> http_response option \<times> hook_effect \<times> guard \<times> sched" where
  "handle_request L U S T global_secret log_ok now t q gs =
     (if \<not> hr_post q then (Some (S405, cps ''POST only''), No_Effect, gs)
      else if hr_path q = cps ''/hooks/agent'' then (case handle_hooks_agent L global_secret q of (r, e) \<Rightarrow> (r, e, gs))
      else if hr_path q = cps ''/hooks/wake'' then (case handle_hooks_wake L global_secret q of (r, e) \<Rightarrow> (r, e, gs))
      else case hook_job q (snd gs) of
        None \<Rightarrow> (Some (S404, cps ''no webhook at this path''), No_Effect, gs)
      | Some job \<Rightarrow> (case handle_route L U S T log_ok now t job q gs of (r, e, gs1) \<Rightarrow> (Some r, e, gs1)))"

subsection \<open>The turn of a webhook\<close>

definition send_to_target :: "(utext \<times> utext \<Rightarrow> bool) \<Rightarrow> sched \<Rightarrow> delivery_config \<Rightarrow> utext \<Rightarrow> outgoing list" where
  "send_to_target channels s d content =
     (case resolve_delivery d s of
        None \<Rightarrow> []
      | Some (ch, acc, recipient) \<Rightarrow>
          if channels (ch, acc) then
            [\<lparr>og_channel = ch, og_account = acc, og_recipient = (case recipient of Some r \<Rightarrow> r | None \<Rightarrow> []),
              og_thread = dl_thread d, og_text = content\<rparr>]
          else [])"

definition webhook_record ::
  "http_lib \<Rightarrow> ('z, 'c) time_lib \<Rightarrow> int \<Rightarrow> nat \<Rightarrow> utext \<Rightarrow> json \<Rightarrow> utext + utext \<Rightarrow> run_record" where
  "webhook_record L T now ms prompt payload result =
     (let r = (run_record_now T now (case result of Inr _ \<Rightarrow> Run_Ok | Inl _ \<Rightarrow> Run_Error))
            \<lparr>rr_trigger := Some (cps ''webhook''), rr_duration := ms, rr_payload := Some (pretty_payload L payload 8192),
             rr_prompt_head := Some (take 512 prompt)\<rparr> in
      case result of Inr response \<Rightarrow> with_output_preview response r | Inl e \<Rightarrow> with_error e r)"

definition finish_webhook_turn ::
  "http_lib \<Rightarrow> store_lib \<Rightarrow> ('z, 'c) time_lib \<Rightarrow> (utext \<times> utext \<Rightarrow> bool) \<Rightarrow> bool \<Rightarrow> int \<Rightarrow> nat \<Rightarrow> webhook_job \<Rightarrow> utext \<Rightarrow> json
    \<Rightarrow> utext + utext \<Rightarrow> guard \<times> sched \<Rightarrow> outgoing list \<times> guard \<times> sched" where
  "finish_webhook_turn L S T channels log_ok now ms job prompt payload result gs =
     (case gs of (g, s) \<Rightarrow>
      let s1 = record_webhook_run S log_ok (wj_id job) (webhook_record L T now ms prompt payload result) s in
      ((case result of
          Inr response \<Rightarrow> if trim response \<noteq> [] then send_to_target channels s1 (wj_delivery job) response else []
        | Inl _ \<Rightarrow> []),
       release (wj_route job) g, s1))"

definition finish_agent_run ::
  "(utext \<times> utext \<Rightarrow> bool) \<Rightarrow> delivery_config \<Rightarrow> utext + utext \<Rightarrow> sched \<Rightarrow> outgoing list" where
  "finish_agent_run channels d result s =
     (case result of Inr response \<Rightarrow> if trim response \<noteq> [] then send_to_target channels s d response else [] | Inl _ \<Rightarrow> [])"

end
