(* ===== verification/Cron_Tool.thy ===== *)
theory Cron_Tool
  imports Webhook "HOL-Library.Option_ord"
begin

text \<open>
  The tool that manages jobs (\<open>tools/cronjob_tool.rs\<close>): its arguments are a JSON object, its answer is a text,
  \<open>Inl\<close> for a failure.  The printing of a text by \<open>{:?}\<close> and the user behind the session are arguments.
\<close>

subsection \<open>Arguments\<close>

definition parse_duration_to_ms :: "utext \<Rightarrow> utext + nat" where
  "parse_duration_to_ms t =
     (let s = trim t;
          read = (\<lambda>suffix factor what.
            (case parse_num 64 (take (length s - length suffix) s) of
               Some n \<Rightarrow> Inr ((n * factor) mod 2 ^ 64)
             | None \<Rightarrow> Inl (what @ cps '': '' @ [39] @ s @ [39]))) in
      if suffix (cps ''ms'') s then read (cps ''ms'') 1 (cps ''invalid ms value'')
      else if suffix (cps ''s'') s then read (cps ''s'') 1000 (cps ''invalid seconds'')
      else if suffix (cps ''m'') s then read (cps ''m'') 60000 (cps ''invalid minutes'')
      else if suffix (cps ''h'') s then read (cps ''h'') 3600000 (cps ''invalid hours'')
      else Inl (cps ''expected duration like '' @ [39] @ cps ''30s'' @ [39] @ cps '', '' @ [39] @ cps ''5m'' @ [39] @ cps '', '' @ [39] @ cps ''1h'' @ [39] @ cps '', got: '' @ [39] @ s @ [39]))"

definition parse_schedule_input :: "('z, 'c) time_lib \<Rightarrow> utext \<Rightarrow> utext + schedule_spec" where
  "parse_schedule_input T input =
     (let trimmed = trim input in
      case strip_prefix (cps ''every '') trimmed of
        Some r \<Rightarrow> map_sum id (\<lambda>ms. Kind (Every ms)) (parse_duration_to_ms r)
      | None \<Rightarrow>
          (case strip_prefix (cps ''at '') trimmed of
             Some r \<Rightarrow>
               (case tl_parse T r of
                  None \<Rightarrow> Inl (cps ''invalid datetime '' @ [39] @ r @ [39] @ cps '': '' @ tl_parse_error T r)
                | Some _ \<Rightarrow> Inr (Kind (At r)))
           | None \<Rightarrow>
               (case validate_schedule T trimmed of
                  Inl e \<Rightarrow> Inl e
                | Inr _ \<Rightarrow> Inr (cron_spec trimmed))))"

definition parse_string_array :: "json option \<Rightarrow> utext list option" where
  "parse_string_array v = map_option (List.map_filter as_str) (Option.bind v as_array)"

definition parse_retry_config :: "json \<Rightarrow> retry_config" where
  "parse_retry_config v =
     \<lparr>rc_attempts = (case get_u64 v ''max_attempts'' of Some n \<Rightarrow> n | None \<Rightarrow> 3) mod 2 ^ 32,
      rc_backoff = (case Option.bind (jget v (cps ''backoff_ms'')) as_array of
          Some vs \<Rightarrow> List.map_filter as_u64 vs | None \<Rightarrow> [30000, 60000, 300000])\<rparr>"

definition parse_failure_alert :: "json \<Rightarrow> failure_alert" where
  "parse_failure_alert v =
     \<lparr>fa_after = (case get_u64 v ''after'' of Some n \<Rightarrow> n | None \<Rightarrow> 3) mod 2 ^ 32,
      fa_cooldown = (case get_u64 v ''cooldown_secs'' of Some n \<Rightarrow> n | None \<Rightarrow> 3600),
      fa_skipped = (case get_bool v ''include_skipped'' of Some b \<Rightarrow> b | None \<Rightarrow> False)\<rparr>"

definition parse_delivery_object :: "json \<Rightarrow> utext + delivery_config" where
  "parse_delivery_object v =
     (let mode = (case get_str v ''mode'' of
            None \<Rightarrow> Inr Mode_Last
          | Some m \<Rightarrow>
              if m = cps ''last'' then Inr Mode_Last
              else if m = cps ''none'' then Inr Mode_None
              else if m = cps ''fixed'' then Inr Mode_Fixed
              else Inl (cps ''delivery.mode must be '' @ [39] @ cps ''last'' @ [39] @ cps '', '' @ [39] @ cps ''none'' @ [39] @ cps '', or '' @ [39] @ cps ''fixed'' @ [39] @ cps '' (got '' @ [39] @ m @ [39] @ cps '')'')) in
      case mode of
        Inl e \<Rightarrow> Inl e
      | Inr md \<Rightarrow>
          if md = Mode_Fixed \<and> get_str v ''channel'' = None then Inl (cps ''delivery.mode '' @ [39] @ cps ''fixed'' @ [39] @ cps '' requires '' @ [39] @ cps ''channel'' @ [39])
          else Inr \<lparr>dl_mode = md, dl_channel = get_str v ''channel'', dl_account = get_str v ''account_id'',
                    dl_to = get_str v ''to'', dl_thread = get_str v ''thread_id''\<rparr>)"

definition resolve_delivery_for_update :: "json \<Rightarrow> utext + delivery_config option" where
  "resolve_delivery_for_update args =
     (case jget args (cps ''delivery'') of
        Some v \<Rightarrow> map_sum id Some (parse_delivery_object v)
      | None \<Rightarrow> Inr (map_option parse_target_string (get_str args ''target'')))"

definition resolve_delivery_for_create :: "json \<Rightarrow> utext + delivery_config" where
  "resolve_delivery_for_create args =
     (case jget args (cps ''delivery'') of
        Some v \<Rightarrow> parse_delivery_object v
      | None \<Rightarrow> Inr (case get_str args ''target'' of Some t \<Rightarrow> parse_target_string t | None \<Rightarrow> default_delivery))"

primrec parse_filters :: "json list \<Rightarrow> utext + webhook_filter list" where
  "parse_filters [] = Inr []"
| "parse_filters (v # vs) =
     (case as_object v of
        None \<Rightarrow> Inl (cps ''Each filter must be an object {field, equals/matches, not?}'')
      | Some _ \<Rightarrow>
          (case get_str v ''field'' of
             None \<Rightarrow> Inl (cps ''Webhook filter requires a '' @ [39] @ cps ''field'' @ [39] @ cps '' property (string)'')
           | Some f \<Rightarrow>
               map_sum id (\<lambda>fs. \<lparr>wf_field = f, wf_equals = get_str v ''equals'', wf_matches = get_str v ''matches'',
                  wf_not = (case get_bool v ''not'' of Some b \<Rightarrow> b | None \<Rightarrow> False)\<rparr> # fs) (parse_filters vs)))"

definition bad_filter :: "webhook_filter \<Rightarrow> bool" where
  "bad_filter f \<longleftrightarrow> wf_field f = [] \<or> wf_equals f = None \<and> wf_matches f = None"

definition webhook_filters :: "json \<Rightarrow> utext + webhook_filter list option" where
  "webhook_filters wh =
     (case Option.bind (jget wh (cps ''filters'')) as_array of
        None \<Rightarrow> Inr None
      | Some vs \<Rightarrow>
          (case parse_filters vs of
             Inl e \<Rightarrow> Inl e
           | Inr fs \<Rightarrow>
               (case find bad_filter fs of
                  Some f \<Rightarrow> Inl (cps ''invalid webhook filter on '' @ [39] @ wf_field f @ [39] @ cps '': needs '' @ [39] @ cps ''equals'' @ [39] @ cps '' or '' @ [39] @ cps ''matches'' @ [39])
                | None \<Rightarrow> Inr (Some fs))))"

text \<open>\<open>dbg\<close>: \<open>{:?}\<close> of a text.\<close>

definition parse_webhook_object :: "(utext \<Rightarrow> utext) \<Rightarrow> json \<Rightarrow> utext option \<Rightarrow> utext + webhook_def" where
  "parse_webhook_object dbg wh name =
     (let secret = (case get_str wh ''secret'' of Some s \<Rightarrow> s | None \<Rightarrow> []);
          auth = (case get_str wh ''auth'' of Some a \<Rightarrow> a | None \<Rightarrow> cps ''hmac'');
          route = (case name of Some n \<Rightarrow> n | None \<Rightarrow> []) in
      if secret = [] then Inl ([39] @ cps ''webhook.secret'' @ [39] @ cps '' is required (HMAC key or Bearer token)'')
      else if auth \<noteq> cps ''hmac'' \<and> auth \<noteq> cps ''bearer''
      then Inl (cps ''invalid '' @ [39] @ cps ''webhook.auth'' @ [39] @ cps '' '' @ [39] @ auth @ [39] @ cps '': use '' @ [34] @ cps ''hmac'' @ [34] @ cps '' or '' @ [34] @ cps ''bearer'' @ [34])
      else if \<not> is_route_slug route
      then Inl (cps ''a URL-safe slug '' @ [39] @ cps ''name'' @ [39] @ cps '' ([a-z0-9-], 1-64 chars) is required for webhook jobs: got '' @ [39] @ dbg route
             @ [39] @ cps '' '' @ [0x2014] @ cps '' the name IS the route (POST /hooks/{name})'')
      else if reserved_route route
      then Inl ([39] @ route @ [39] @ cps '' is a reserved built-in route (/hooks/agent, /hooks/wake): pick another name'')
      else case webhook_filters wh of
        Inl e \<Rightarrow> Inl e
      | Inr fs \<Rightarrow>
          Inr \<lparr>wd_auth = auth, wd_secret = secret,
               wd_events = parse_string_array (jget wh (cps ''events'')), wd_filters = fs,
               wd_payload_off = (case get_bool wh ''payload_off'' of Some b \<Rightarrow> b | None \<Rightarrow> False)\<rparr>)"

definition parse_webhook_channel :: "(utext \<Rightarrow> utext) \<Rightarrow> json \<Rightarrow> utext option \<Rightarrow> utext + webhook_def option" where
  "parse_webhook_channel dbg args name =
     (case jget args (cps ''webhook'') of
        None \<Rightarrow> Inr None
      | Some wh \<Rightarrow>
          (case as_object wh of
             None \<Rightarrow> Inl ([39] @ cps ''webhook'' @ [39] @ cps '' must be an object: { auth?, secret, events?, filters?, payload_off? }'')
           | Some obj \<Rightarrow> if obj = [] then Inr None else map_sum id Some (parse_webhook_object dbg wh name)))"

subsection \<open>Texts\<close>

definition describe_delivery :: "delivery_config \<Rightarrow> utext" where
  "describe_delivery d =
     (let mode_desc = (case dl_mode d of
            Mode_None \<Rightarrow> cps ''none''
          | Mode_Last \<Rightarrow> cps ''last''
          | Mode_Fixed \<Rightarrow>
              let ch = (case dl_channel d of Some c \<Rightarrow> c | None \<Rightarrow> [63]) in
              (case dl_account d of Some a \<Rightarrow> ch @ [58] @ a | None \<Rightarrow> ch)) in
      case dl_to d of Some t \<Rightarrow> mode_desc @ [0x2192] @ t | None \<Rightarrow> mode_desc)"

definition job_label :: "job_entry \<Rightarrow> utext" where
  "job_label j = (case je_name j of Some n \<Rightarrow> n | None \<Rightarrow> cps (je_id j))"

definition schedule_label :: "job_entry \<Rightarrow> utext" where
  "schedule_label j = (case je_schedule j of Some s \<Rightarrow> spec_describe s | None \<Rightarrow> cps ''(webhook-only)'')"

definition listing_cap :: nat where "listing_cap = 20"

definition format_unknown_job_listing :: "(utext \<Rightarrow> utext) \<Rightarrow> job_entry list \<Rightarrow> utext" where
  "format_unknown_job_listing dbg jobs =
     (if jobs = [] then cps '' No cron jobs configured.''
      else
        let sorted = rev (sort_key je_created (rev jobs));
            shown = map (\<lambda>j. cps ''  '' @ cps (je_id j) @ cps '' name='' @
                       dbg (case je_name j of Some n \<Rightarrow> n | None \<Rightarrow> cps ''(unnamed)'') @ cps '' status='' @
                       (if je_enabled j then cps ''enabled'' else cps ''disabled'')) (take listing_cap sorted);
            omitted = length jobs - length shown in
        cps '' Configured cron jobs (use cronjob action='' @ [34] @ cps ''list'' @ [34] @ cps '' for details):'' @ [10] @ join_with [10] shown
        @ (if omitted > 0 then [10] @ cps ''  ... and '' @ cps (show_nat omitted) @ cps '' more'' else []))"

definition not_found :: "(utext \<Rightarrow> utext) \<Rightarrow> utext \<Rightarrow> sched \<Rightarrow> utext" where
  "not_found dbg i s = cps ''Job '' @ [39] @ i @ [39] @ cps '' not found.'' @ format_unknown_job_listing dbg (sc_jobs s)"

text \<open>\<open>&run_at[..19.min(run_at.len())]\<close> slices bytes and panics inside a character.\<close>

fun take_bytes :: "nat \<Rightarrow> utext \<Rightarrow> utext run" where
  "take_bytes n [] = Ret []"
| "take_bytes n (c # s) =
     (if n = 0 then Ret [] else if char_cost Bytes c \<le> n then map_run (Cons c) (take_bytes (n - char_cost Bytes c) s) else Panic)"

definition format_run_record :: "nat \<Rightarrow> run_record \<Rightarrow> utext run" where
  "format_run_record i r =
     map_run (\<lambda>ts. cps (show_nat i) @ cps ''. ['' @ ts @ cps ''] '' @ run_status_str (rr_status r) @ cps '' '' @ [0x2014] @ cps '' ''
         @ cps (show_nat (rr_duration r)) @ cps ''ms'' @ (case rr_error r of Some e \<Rightarrow> cps '' '' @ [0x2014] @ cps '' '' @ e | None \<Rightarrow> []) @ [10])
       (take_bytes 19 (rr_run_at r))"

primrec format_records :: "nat \<Rightarrow> run_record list \<Rightarrow> utext run" where
  "format_records i [] = Ret []"
| "format_records i (r # rs) =
     bind_run (format_run_record i r) (\<lambda>a. map_run (\<lambda>b. a @ b) (format_records (Suc i) rs))"

subsection \<open>Handlers\<close>

definition missing :: "string \<Rightarrow> utext" where
  "missing f = cps ''Missing required field: '' @ cps f"

definition create_details ::
  "utext \<Rightarrow> string \<Rightarrow> job_entry \<Rightarrow> utext" where
  "create_details name i e =
     join_with [10]
       ([cps ''Created job '' @ [39] @ name @ [39] @ cps '' (id: '' @ cps i @ [41]]
        @ (case je_schedule e of Some s \<Rightarrow> [cps ''  schedule: '' @ spec_describe s] | None \<Rightarrow> [])
        @ (case je_webhook e of
             Some w \<Rightarrow> [cps ''  webhook: POST /hooks/'' @ name @ cps '' (auth: '' @ wd_auth w
               @ (if wd_payload_off w then cps '', payload off'' else []) @ [41]]
           | None \<Rightarrow> [])
        @ (case je_model e of Some m \<Rightarrow> [cps ''  model: '' @ m] | None \<Rightarrow> [])
        @ (case je_provider e of Some p \<Rightarrow> [cps ''  provider: '' @ p] | None \<Rightarrow> [])
        @ (if je_schedule e = None \<and> je_webhook e = None
           then [cps ''  note: no trigger channel (no schedule, no webhook) '' @ [0x2014] @ cps '' this job never fires until one is added; equivalent to an archived/disabled job'']
           else [])
        @ (case je_max_runs e of
             Some n \<Rightarrow> [cps ''  max_runs: '' @ cps (show_nat n) @ (if je_delete_after e then cps '' (auto-delete)'' else cps '' (auto-disable)'')]
           | None \<Rightarrow> []))"

definition check_time_args ::
  "('z, 'c) time_lib \<Rightarrow> int \<Rightarrow> json \<Rightarrow> utext + schedule_spec option" where
  "check_time_args T now args =
     (case (case get_str args ''schedule'' of
              None \<Rightarrow> Inr None
            | Some input \<Rightarrow> map_sum id Some (parse_schedule_input T input)) of
        Inl e \<Rightarrow> Inl e
      | Inr spec \<Rightarrow>
          (case (case Option.bind spec spec_at_time of Some a \<Rightarrow> validate_at_timestamp T now a | None \<Rightarrow> Inr ()) of
             Inl e \<Rightarrow> Inl e
           | Inr _ \<Rightarrow>
               (case (case get_str args ''tz'' of Some z \<Rightarrow> validate_tz T z | None \<Rightarrow> Inr ()) of
                  Inl e \<Rightarrow> Inl e
                | Inr _ \<Rightarrow>
                    (case (case get_str args ''active_hours'' of Some h \<Rightarrow> validate_active_hours h | None \<Rightarrow> Inr ()) of
                       Inl e \<Rightarrow> Inl e
                     | Inr _ \<Rightarrow> Inr spec))))"

definition new_entry ::
  "json \<Rightarrow> utext \<Rightarrow> utext \<Rightarrow> schedule_spec option \<Rightarrow> webhook_def option \<Rightarrow> delivery_config \<Rightarrow> utext \<Rightarrow> job_entry" where
  "new_entry args prompt name spec webhook delivery creator =
     \<lparr>je_id = [], je_schedule = spec, je_prompt = prompt, je_name = Some name, je_tz = get_str args ''tz'',
      je_hours = get_str args ''active_hours'', je_enabled = True, je_last_run = None, je_next_run = None,
      je_created = None, je_delivery = delivery, je_last_runs = [],
      je_allow = parse_string_array (jget args (cps ''enabled_tools'')),
      je_deny = parse_string_array (jget args (cps ''disabled_tools'')),
      je_retry = map_option parse_retry_config (jget args (cps ''retry'')),
      je_alert = map_option parse_failure_alert (jget args (cps ''failure_alert'')),
      je_errors = 0, je_skipped = 0, je_max_runs = map_option (\<lambda>n. n mod 2 ^ 32) (get_u64 args ''max_runs''),
      je_completed = 0,
      je_delete_after = (case get_bool args ''delete_after_run'' of Some b \<Rightarrow> b | None \<Rightarrow> False),
      je_model = get_str args ''model'', je_provider = get_str args ''provider'', je_last_alert = None,
      je_policy = Inject, je_webhook = webhook, je_creator = Some creator\<rparr>"

definition create_entry ::
  "('z, 'c) time_lib \<Rightarrow> (utext \<Rightarrow> utext) \<Rightarrow> int \<Rightarrow> utext \<Rightarrow> json \<Rightarrow> utext + utext \<times> job_entry" where
  "create_entry T dbg now creator args =
     (case get_str args ''prompt'' of
        None \<Rightarrow> Inl (missing ''prompt'')
      | Some prompt \<Rightarrow>
          (case scan_prompt_injection prompt of
             Inl e \<Rightarrow> Inl (cps ''Prompt rejected: '' @ e)
           | Inr _ \<Rightarrow>
               (case get_str args ''name'' of
                  None \<Rightarrow> Inl (missing ''name (job name; for webhook jobs it is also the route POST /hooks/{name})'')
                | Some n \<Rightarrow>
                    if trim n = [] then Inl (missing ''name (job name; for webhook jobs it is also the route POST /hooks/{name})'')
                    else
                      (case check_time_args T now args of
                         Inl e \<Rightarrow> Inl e
                       | Inr spec \<Rightarrow>
                           (case parse_webhook_channel dbg args (Some (trim n)) of
                              Inl e \<Rightarrow> Inl e
                            | Inr webhook \<Rightarrow>
                                (case resolve_delivery_for_create args of
                                   Inl e \<Rightarrow> Inl e
                                 | Inr delivery \<Rightarrow>
                                     Inr (trim n, new_entry args prompt (trim n) spec webhook delivery creator)))))))"

definition handle_create ::
  "store_lib \<Rightarrow> ('z, 'c) time_lib \<Rightarrow> (utext \<Rightarrow> utext) \<Rightarrow> save_io \<Rightarrow> int \<Rightarrow> string \<Rightarrow> utext \<Rightarrow> json \<Rightarrow> sched
    \<Rightarrow> (utext + utext) \<times> sched" where
  "handle_create S T dbg io now fresh creator args s =
     (case create_entry T dbg now creator args of
        Inl e \<Rightarrow> (Inl e, s)
      | Inr (name, e) \<Rightarrow>
          (case add_job S T io now fresh e s of
             (Inr i, s1) \<Rightarrow> (Inr (create_details name i e), s1)
           | (Inl err, s1) \<Rightarrow> (Inl (cps ''Failed to create job: '' @ err), s1)))"

definition update_schedule_arg ::
  "('z, 'c) time_lib \<Rightarrow> int \<Rightarrow> json \<Rightarrow> utext + schedule_spec option option" where
  "update_schedule_arg T now args =
     (case jget args (cps ''schedule'') of
        None \<Rightarrow> Inr None
      | Some v \<Rightarrow>
          if v = JNull then Inr (Some None)
          else (case as_str v of
             None \<Rightarrow> Inr None
           | Some input \<Rightarrow>
               if trim input = [] then Inl ([39] @ cps ''schedule'' @ [39] @ cps '' must be a cron/every/at expression or null (to clear).'')
               else (case parse_schedule_input T input of
                  Inl e \<Rightarrow> Inl e
                | Inr spec \<Rightarrow>
                    (case (case spec_at_time spec of Some a \<Rightarrow> validate_at_timestamp T now a | None \<Rightarrow> Inr ()) of
                       Inl e \<Rightarrow> Inl e
                     | Inr _ \<Rightarrow> Inr (Some (Some spec))))))"

definition update_webhook_arg ::
  "(utext \<Rightarrow> utext) \<Rightarrow> utext \<Rightarrow> json \<Rightarrow> sched \<Rightarrow> utext + webhook_def option option" where
  "update_webhook_arg dbg i args s =
     (case jget args (cps ''webhook'') of
        None \<Rightarrow> Inr None
      | Some v \<Rightarrow>
          let current_name = or_else (get_str args ''name'')
                (Option.bind (find (\<lambda>j. cps (je_id j) = i) (sc_jobs s)) je_name) in
          if v = JNull then Inr (Some None)
          else (case parse_webhook_channel dbg (JObject [(cps ''webhook'', v)]) current_name of
             Inl e \<Rightarrow> Inl e
           | Inr None \<Rightarrow> Inr None
           | Inr (Some w) \<Rightarrow> Inr (Some (Some w))))"

definition update_of_args ::
  "('z, 'c) time_lib \<Rightarrow> (utext \<Rightarrow> utext) \<Rightarrow> int \<Rightarrow> utext \<Rightarrow> json \<Rightarrow> sched \<Rightarrow> utext + job_update" where
  "update_of_args T dbg now i args s =
     (case (case get_str args ''prompt'' of Some p \<Rightarrow> scan_prompt_injection p | None \<Rightarrow> Inr ()) of
        Inl e \<Rightarrow> Inl (cps ''Prompt rejected: '' @ e)
      | Inr _ \<Rightarrow>
      (case (case get_str args ''active_hours'' of Some h \<Rightarrow> validate_active_hours h | None \<Rightarrow> Inr ()) of
        Inl e \<Rightarrow> Inl e
      | Inr _ \<Rightarrow>
      (case (case get_str args ''tz'' of Some z \<Rightarrow> validate_tz T z | None \<Rightarrow> Inr ()) of
        Inl e \<Rightarrow> Inl e
      | Inr _ \<Rightarrow>
      (case resolve_delivery_for_update args of
        Inl e \<Rightarrow> Inl e
      | Inr delivery \<Rightarrow>
      (case update_schedule_arg T now args of
        Inl e \<Rightarrow> Inl e
      | Inr schedule \<Rightarrow>
      (case update_webhook_arg dbg i args s of
        Inl e \<Rightarrow> Inl e
      | Inr webhook \<Rightarrow>
          Inr \<lparr>ju_name = get_str args ''name'', ju_schedule = schedule, ju_schedule_changed = (schedule \<noteq> None),
               ju_webhook = webhook, ju_webhook_changed = (webhook \<noteq> None), ju_prompt = get_str args ''prompt'',
               ju_tz = get_str args ''tz'', ju_hours = get_str args ''active_hours'', ju_enabled = get_bool args ''enabled'',
               ju_delivery = delivery,
               ju_allow = parse_string_array (jget args (cps ''enabled_tools'')),
               ju_deny = parse_string_array (jget args (cps ''disabled_tools'')),
               ju_retry = map_option parse_retry_config (jget args (cps ''retry'')),
               ju_alert = map_option parse_failure_alert (jget args (cps ''failure_alert'')),
               ju_max_runs = map_option (\<lambda>n. Some (n mod 2 ^ 32)) (get_u64 args ''max_runs''),
               ju_delete_after = get_bool args ''delete_after_run'',
               ju_model = map_option Some (get_str args ''model''),
               ju_provider = map_option Some (get_str args ''provider''), ju_trigger_now = False\<rparr>))))))"

definition changed_fields :: "job_update \<Rightarrow> utext list" where
  "changed_fields u =
     (if ju_name u \<noteq> None then [cps ''name''] else []) @ (if ju_schedule_changed u then [cps ''schedule''] else [])
     @ (if ju_webhook_changed u then [cps ''webhook''] else []) @ (if ju_prompt u \<noteq> None then [cps ''prompt''] else [])
     @ (if ju_tz u \<noteq> None then [cps ''tz''] else []) @ (if ju_hours u \<noteq> None then [cps ''active_hours''] else [])
     @ (if ju_enabled u \<noteq> None then [cps ''enabled''] else []) @ (if ju_delivery u \<noteq> None then [cps ''delivery''] else [])
     @ (if ju_allow u \<noteq> None then [cps ''enabled_tools''] else []) @ (if ju_deny u \<noteq> None then [cps ''disabled_tools''] else [])
     @ (if ju_retry u \<noteq> None then [cps ''retry''] else []) @ (if ju_alert u \<noteq> None then [cps ''failure_alert''] else [])
     @ (if ju_max_runs u \<noteq> None then [cps ''max_runs''] else [])
     @ (if ju_delete_after u \<noteq> None then [cps ''delete_after_run''] else [])
     @ (if ju_model u \<noteq> None then [cps ''model''] else []) @ (if ju_provider u \<noteq> None then [cps ''provider''] else [])
     @ (if ju_trigger_now u then [cps ''trigger_now''] else [])"

text \<open>An id that is not the text of a stored id is found by no operation.\<close>

definition known_id :: "utext \<Rightarrow> sched \<Rightarrow> string option" where
  "known_id i s = map_option je_id (find (\<lambda>j. cps (je_id j) = i) (sc_jobs s))"

definition handle_update ::
  "store_lib \<Rightarrow> ('z, 'c) time_lib \<Rightarrow> (utext \<Rightarrow> utext) \<Rightarrow> save_io \<Rightarrow> int \<Rightarrow> json \<Rightarrow> sched \<Rightarrow> (utext + utext) \<times> sched" where
  "handle_update S T dbg io now args s =
     (case get_str args ''id'' of
        None \<Rightarrow> (Inl (missing ''id''), s)
      | Some i \<Rightarrow>
          (case update_of_args T dbg now i args s of
             Inl e \<Rightarrow> (Inl e, s)
           | Inr u \<Rightarrow>
               if changed_fields u = []
               then (Inl (cps ''No fields to update. Provide at least one field besides '' @ [39] @ cps ''id'' @ [39] @ cps '' and '' @ [39] @ cps ''action'' @ [39] @ cps ''.''), s)
               else (case known_id i s of
                  None \<Rightarrow> (Inl (not_found dbg i s), s)
                | Some k \<Rightarrow>
                    (case update_job S T io now k u s of
                       (Inr True, s1) \<Rightarrow> (Inr (cps ''Job '' @ [39] @ i @ [39] @ cps '' updated: '' @ join_with (cps '', '') (changed_fields u) @ [46]), s1)
                     | (Inr False, s1) \<Rightarrow> (Inl (not_found dbg i s1), s1)
                     | (Inl e, s1) \<Rightarrow> (Inl (cps ''Failed to update job: '' @ e), s1)))))"

definition opt_info :: "string \<Rightarrow> utext option \<Rightarrow> utext" where
  "opt_info label v = (case v of Some x \<Rightarrow> cps label @ x | None \<Rightarrow> [])"

definition list_line :: "store_lib \<Rightarrow> (utext \<Rightarrow> utext) \<Rightarrow> sched \<Rightarrow> job_entry \<Rightarrow> utext" where
  "list_line S dbg s j =
     (if je_enabled j then [0x2705] else [0x23F8, 0xFE0F]) @ cps '' ['' @ cps (je_id j) @ cps ''] '' @ job_label j
     @ cps '' '' @ [0x2014] @ cps '' schedule: '' @ dbg (schedule_label j)
     @ cps '', next: '' @ (case je_next_run j of Some t \<Rightarrow> t | None \<Rightarrow> cps ''none'')
     @ cps '', last: '' @ (case je_last_run j of Some t \<Rightarrow> t | None \<Rightarrow> cps ''never'')
     @ cps '', delivery: '' @ describe_delivery (je_delivery j)
     @ (case (je_allow j, je_deny j) of
          (Some w, _) \<Rightarrow> cps '', tools: whitelist('' @ cps (show_nat (length w)) @ [41]
        | (None, Some b) \<Rightarrow> cps '', tools: blacklist('' @ cps (show_nat (length b)) @ [41]
        | _ \<Rightarrow> [])
     @ (case read_run_log S (je_id j) 1 (sc_disk s) of r # _ \<Rightarrow> cps '', last_run: '' @ run_status_str (rr_status r) | [] \<Rightarrow> [])
     @ opt_info '', model: '' (je_model j)
     @ opt_info '', retry: max '' (map_option (\<lambda>r. cps (show_nat (rc_attempts r))) (je_retry j))
     @ opt_info '', progress: '' (map_option (\<lambda>m. cps (show_nat (je_completed j)) @ [47] @ cps (show_nat m)) (je_max_runs j))
     @ (if je_errors j > 0 then cps '', '' @ [0x26A0, 0xFE0F] @ cps '' '' @ cps (show_nat (je_errors j)) @ cps '' consecutive errors'' else [])"

definition handle_list :: "store_lib \<Rightarrow> (utext \<Rightarrow> utext) \<Rightarrow> json \<Rightarrow> sched \<Rightarrow> utext + utext" where
  "handle_list S dbg args s =
     (let limit = (case get_u64 args ''limit'' of Some n \<Rightarrow> n | None \<Rightarrow> 20);
          offset = (case get_u64 args ''offset'' of Some n \<Rightarrow> n | None \<Rightarrow> 0);
          jobs = sc_jobs s; page = take limit (drop offset jobs) in
      if jobs = [] then Inr (cps ''No cron jobs configured.'')
      else Inr (join_with [10]
        ((if offset > 0 \<or> length jobs > limit
          then [cps ''Showing '' @ cps (show_nat ((offset + 1) mod 2 ^ 64)) @ [45] @ cps (show_nat ((offset + length page) mod 2 ^ 64)) @ cps '' of ''
                  @ cps (show_nat (length jobs)) @ cps '' jobs'', []]
          else [])
         @ map (list_line S dbg s) page)))"

definition handle_set_enabled ::
  "store_lib \<Rightarrow> ('z, 'c) time_lib \<Rightarrow> (utext \<Rightarrow> utext) \<Rightarrow> save_io \<Rightarrow> int \<Rightarrow> bool \<Rightarrow> json \<Rightarrow> sched \<Rightarrow> (utext + utext) \<times> sched" where
  "handle_set_enabled S T dbg io now b args s =
     (let word = (if b then cps ''resumed'' else cps ''paused'') in
      case get_str args ''id'' of
        None \<Rightarrow> (Inl (missing ''id''), s)
      | Some i \<Rightarrow>
          (case known_id i s of
             None \<Rightarrow> (Inl (not_found dbg i s), s)
           | Some k \<Rightarrow>
               (case set_enabled S T io now k b s of
                  (Inr True, s1) \<Rightarrow> (Inr (cps ''Job '' @ i @ [32] @ word @ [46]), s1)
                | (Inr False, s1) \<Rightarrow> (Inl (not_found dbg i s1), s1)
                | (Inl e, s1) \<Rightarrow> (Inl (cps ''Failed to '' @ word @ cps '' job: '' @ e), s1))))"

definition shanghai :: utext where "shanghai = cps ''Asia/Shanghai''"

definition handle_run ::
  "store_lib \<Rightarrow> ('z, 'c) time_lib \<Rightarrow> (utext \<Rightarrow> utext) \<Rightarrow> save_io \<Rightarrow> int \<Rightarrow> json \<Rightarrow> sched \<Rightarrow> (utext + utext) \<times> sched" where
  "handle_run S T dbg io now args s =
     (case get_str args ''id'' of
        None \<Rightarrow> (Inl (missing ''id''), s)
      | Some i \<Rightarrow>
          (case find (\<lambda>j. cps (je_id j) = i) (sc_jobs s) of
             None \<Rightarrow> (Inl (not_found dbg i s), s)
           | Some j \<Rightarrow>
               (case update_job S T io now (je_id j) (no_update\<lparr>ju_trigger_now := True\<rparr>) s of
                  (Inr True, s1) \<Rightarrow>
                    (Inr (cps ''Job '' @ [39] @ job_label j @ [39] @ cps '' ('' @ cps (je_id j)
                       @ cps '') scheduled for immediate execution: fires on the next scheduler tick (within ~30s).'' @ [10] @ cps ''Schedule: '' @ schedule_label j @ [10] @ cps ''Delivery: '' @ describe_delivery (je_delivery j)
                       @ (if is_active_hours T now (je_hours j) (job_tz shanghai j) then []
                          else [10] @ cps ''Note: active_hours ('' @ (case je_hours j of Some h \<Rightarrow> h | None \<Rightarrow> [63])
                            @ cps '') excludes the current time '' @ [0x2014] @ cps '' it stays queued until the window opens.'')), s1)
                | (Inr False, s1) \<Rightarrow> (Inl (not_found dbg i s1), s1)
                | (Inl e, s1) \<Rightarrow> (Inl (cps ''Failed to trigger job: '' @ e), s1))))"

definition handle_remove ::
  "store_lib \<Rightarrow> (utext \<Rightarrow> utext) \<Rightarrow> save_io \<Rightarrow> json \<Rightarrow> sched \<Rightarrow> (utext + utext) \<times> sched" where
  "handle_remove S dbg io args s =
     (case get_str args ''id'' of
        None \<Rightarrow> (Inl (missing ''id''), s)
      | Some i \<Rightarrow>
          (case known_id i s of
             None \<Rightarrow> (Inl (not_found dbg i s), s)
           | Some k \<Rightarrow>
               (case remove_job S io k s of
                  (Inr (Some a), s1) \<Rightarrow>
                    (Inr (cps ''Job '' @ [39] @ ra_name a @ [39] @ cps '' removed ('' @ cps (show_nat (ra_count a)) @ cps '' run log entries deleted).''), s1)
                | (Inr None, s1) \<Rightarrow> (Inl (not_found dbg i s1), s1)
                | (Inl e, s1) \<Rightarrow> (Inl (cps ''Failed to remove job: '' @ e), s1))))"

definition log_title :: "utext \<Rightarrow> utext" where
  "log_title n = [0x1F4CB] @ cps '' Run log for '' @ [39] @ n @ [39] @ cps '':'' @ [10, 10]"

text \<open>\<open>path\<close>: the id as the name of a log file, for an id no job has.\<close>

definition handle_log :: "store_lib \<Rightarrow> (utext \<Rightarrow> utext) \<Rightarrow> json \<Rightarrow> sched \<Rightarrow> (utext + utext) run" where
  "handle_log S dbg args s =
     (let limit = (case get_u64 args ''limit'' of Some n \<Rightarrow> n | None \<Rightarrow> 10) in
      case get_str args ''id'' of
        None \<Rightarrow> Ret (Inl (missing ''id''))
      | Some i \<Rightarrow>
          let job = find (\<lambda>j. cps (je_id j) = i) (sc_jobs s);
              records = read_run_log S (utf8_bytes i) limit (sc_disk s) in
          (if records = [] then
             (case job of
                None \<Rightarrow> Ret (Inl (not_found dbg i s))
              | Some j \<Rightarrow>
                  if je_last_runs j = [] then Ret (Inr (cps ''Job '' @ [39] @ job_label j @ [39] @ cps '' has no run history.''))
                  else map_run (\<lambda>t. Inr (log_title (job_label j) @ t)) (format_records 1 (take limit (rev (je_last_runs j)))))
           else
             map_run (\<lambda>t. Inr (log_title (case Option.bind job je_name of Some n \<Rightarrow> n | None \<Rightarrow> i) @ t
                 @ [10, 40] @ cps (show_nat (length records)) @ cps '' entries from persistent log)''))
               (format_records 1 records)))"

definition execute ::
  "store_lib \<Rightarrow> ('z, 'c) time_lib \<Rightarrow> (utext \<Rightarrow> utext) \<Rightarrow> save_io \<Rightarrow> int \<Rightarrow> string \<Rightarrow> utext \<Rightarrow> json \<Rightarrow> sched
    \<Rightarrow> (utext + utext) run \<times> sched" where
  "execute S T dbg io now fresh creator args s =
     (let action = (case get_str args ''action'' of Some a \<Rightarrow> a | None \<Rightarrow> []);
          ret = (\<lambda>(r, s1). (Ret r, s1)) in
      if action = cps ''create'' then ret (handle_create S T dbg io now fresh creator args s)
      else if action = cps ''update'' then ret (handle_update S T dbg io now args s)
      else if action = cps ''list'' then (Ret (handle_list S dbg args s), s)
      else if action = cps ''pause'' then ret (handle_set_enabled S T dbg io now False args s)
      else if action = cps ''resume'' then ret (handle_set_enabled S T dbg io now True args s)
      else if action = cps ''run'' then ret (handle_run S T dbg io now args s)
      else if action = cps ''remove'' then ret (handle_remove S dbg io args s)
      else if action = cps ''log'' then (handle_log S dbg args s, s)
      else (Ret (Inl (cps ''Unknown action '' @ [39] @ action @ [39] @ cps ''. Use: create, update, list, pause, resume, run, remove, log'')), s))"

end
