(* ===== verification/Schedule_Facts.thy ===== *)
theory Schedule_Facts
  imports Schedule
begin

text \<open>
  What is proved of schedules: how the translation of weekdays reads, when a timer moves on and when the
  sum of an interval wraps, and that a validated window of hours is neither empty nor ignored.
\<close>

subsection \<open>The laws of the clock library\<close>

text \<open>RFC 3339 has four digits for the year: instants from 1970 to the end of 9999 are read back as they were
  printed, and their milliseconds are a date; the next time of a cron schedule is later (the crate's
  years end at 2100).\<close>

definition last_milli :: int where "last_milli = 253402300800000"

definition time_ok :: "('z, 'c) time_lib \<Rightarrow> bool" where
  "time_ok T \<longleftrightarrow> (\<forall>t. 0 \<le> t \<and> t < last_milli * 1000000 \<longrightarrow> tl_parse T (tl_show T t) = Some t)
     \<and> (\<forall>m. 0 \<le> m \<and> m < last_milli \<longrightarrow> tl_millis_ok T m)
     \<and> (\<forall>c z t u. tl_after T c z t = Some u \<longrightarrow> t < u \<and> u < last_milli * 1000000)"

lemma time_okD:
  "time_ok T \<Longrightarrow> 0 \<le> t \<Longrightarrow> t < last_milli * 1000000 \<Longrightarrow> tl_parse T (tl_show T t) = Some t"
  "time_ok T \<Longrightarrow> 0 \<le> m \<Longrightarrow> m < last_milli \<Longrightarrow> tl_millis_ok T m"
  "time_ok T \<Longrightarrow> tl_after T c z t = Some u \<Longrightarrow> t < u \<and> u < last_milli * 1000000"
  by (auto simp: time_ok_def)

text \<open>An instant printed as one number, one time zone, and a cron schedule that is due every second.\<close>

definition plain_time :: "(unit, unit) time_lib" where
  "plain_time =
     \<lparr>tl_parse = (\<lambda>t. case t of [n] \<Rightarrow> Some (int n) | _ \<Rightarrow> None), tl_parse_error = (\<lambda>_. []), tl_show = (\<lambda>t. [nat t]),
      tl_millis_ok = (\<lambda>m. 0 \<le> m \<and> m < last_milli), tl_tz = (\<lambda>_. Some ()), tl_utc = (),
      tl_hour = (\<lambda>_ t. nat (t div 3600000000000) mod 24), tl_minute = (\<lambda>_ t. nat (t div 60000000000) mod 60),
      tl_cron = (\<lambda>t. if length (split_ws t) = 6 then Some () else None), tl_cron_error = (\<lambda>_. []),
      tl_after = (\<lambda>_ _ t. if t + 1000000000 < last_milli * 1000000 then Some (t + 1000000000) else None)\<rparr>"

lemma plain_time_ok: "time_ok plain_time"
  by (simp add: time_ok_def plain_time_def)

subsection \<open>Intervals\<close>

lemma sint_word64: "sint (word_of_int k :: 64 word) = signed_take_bit 63 k"
  by (simp add: sint_sbintrunc')

lemma every_sum: "sint (millis_of t + of_nat ms) = signed_take_bit 63 (t div 1000000 + int ms)"
proof -
  have s: "millis_of t + of_nat ms = word_of_int (t div 1000000 + int ms)" by (simp add: millis_of_def)
  show ?thesis unfolding s by (rule sint_word64)
qed

lemma every_next_small:
  assumes "time_ok T" "0 \<le> t" "t div 1000000 + int ms < last_milli"
  shows "every_next T ms t = Some ((t div 1000000 + int ms) * 1000000)"
proof -
  let ?m = "t div 1000000 + int ms"
  have m: "0 \<le> ?m" "?m < 2 ^ 63" using assms(2,3) by (simp_all add: last_milli_def pos_imp_zdiv_nonneg_iff)
  then have "signed_take_bit 63 ?m = ?m" by (simp add: signed_take_bit_int_eq_self_iff)
  with m assms show ?thesis
    by (simp add: every_next_def every_sum pos_imp_zdiv_nonneg_iff time_okD(2))
qed

lemma every_next_wrapped:
  assumes "time_ok T" "0 \<le> t" "t div 1000000 < last_milli" "2 ^ 64 \<le> t div 1000000 + int ms" "ms < 2 ^ 64"
  shows "every_next T ms t = Some ((t div 1000000 + int ms - 2 ^ 64) * 1000000)"
proof -
  let ?m = "t div 1000000 + int ms"
  have m: "0 \<le> ?m - 2 ^ 64" "?m - 2 ^ 64 < last_milli" using assms by simp_all
  then have "?m - 2 ^ 64 < 2 ^ 63" by (simp add: last_milli_def)
  with m(1) have "signed_take_bit 63 (?m - 2 ^ 64) = ?m - 2 ^ 64" by (simp add: signed_take_bit_int_eq_self_iff)
  moreover have "signed_take_bit 63 ?m = signed_take_bit 63 (?m - 2 ^ 64)"
  proof -
    have "take_bit 64 ?m = take_bit 64 (?m - 2 ^ 64)" by (simp add: take_bit_eq_mod)
    then show ?thesis by (simp add: signed_take_bit_eq_iff_take_bit_eq)
  qed
  ultimately show ?thesis
    using m assms by (simp add: every_next_def every_sum pos_imp_zdiv_nonneg_iff time_okD(2))
qed

subsection \<open>Weekdays\<close>

lemma parse_num_show: "n < 2 ^ w \<Longrightarrow> parse_num w (cps (show_nat n)) = Some n"
proof -
  assume n: "n < 2 ^ w"
  have "list_all (\<lambda>c. c < 128) (cps (show_nat n))"
    using show_nat_digits(1) [of n] by (auto simp: cps_def list_all_iff is_digit_def Let_def)
  moreover have "map char_of (cps (show_nat n)) = show_nat n" by (simp add: cps_def comp_def)
  ultimately show ?thesis using parse_show_nat [OF n] by (simp add: parse_num_def)
qed

lemma no_dash_in_number: "45 \<notin> set (cps (show_nat n))"
  using show_nat_digits(1) [of n] by (auto simp: cps_def list_all_iff is_digit_def)

text \<open>The days of a range in the two numberings, Sunday being 0: Unix has 0 and 7 for it, the crate 1.\<close>

definition unix_days :: "nat \<Rightarrow> nat \<Rightarrow> nat set" where
  "unix_days a b = (\<lambda>d. d mod 7) ` {a..b}"

definition crate_days :: "nat \<Rightarrow> nat \<Rightarrow> nat set" where
  "crate_days a b = (\<lambda>d. d - 1) ` {a..b}"

lemma shift_range_text:
  assumes "a < 2 ^ 32" "b < 2 ^ 32"
  shows "shift_weekday_item (cps (show_nat a) @ 45 # cps (show_nat b))
    = cps (show_nat (shift_weekday_num a)) @ 45 # cps (show_nat (shift_weekday_num b))"
  using assms by (simp add: shift_weekday_item_def split_once_first no_dash_in_number parse_num_show)

lemma days_shifted: "a \<le> b \<Longrightarrow> b < 7 \<Longrightarrow> crate_days (a + 1) (b + 1) = unix_days a b"
  unfolding crate_days_def unix_days_def
proof -
  assume b: "a \<le> b" "b < 7"
  have "{a + 1..b + 1} = Suc ` {a..b}" by simp
  then have "(\<lambda>d. d - 1) ` {a + 1..b + 1} = {a..b}" by (simp only: image_image) simp
  moreover have "(\<lambda>d. d mod 7) ` {a..b} = (\<lambda>d. d) ` {a..b}" using b by (intro image_cong) auto
  ultimately show "(\<lambda>d. d - 1) ` {a + 1..b + 1} = (\<lambda>d. d mod 7) ` {a..b}" by simp
qed

lemma days_to_seven: "a < 7 \<Longrightarrow> crate_days (shift_weekday_num a) 1 \<noteq> unix_days a 7"
proof -
  assume a: "a < 7"
  have "6 \<in> unix_days a 7" using a unfolding unix_days_def by (intro image_eqI [of _ _ 6]) auto
  moreover have "6 \<notin> crate_days (shift_weekday_num a) 1" by (auto simp: crate_days_def)
  ultimately show ?thesis by metis
qed

text \<open>A range of weekdays is translated into the numbering of the cron crate and keeps its days exactly when it does not end at 7 (or is the single day 7): 1-5 stays Monday to Friday, but 0-7 becomes Sunday alone and 5-7 a range from 6 down to 1.\<close>

theorem weekday_range_exact:
  assumes "a \<le> b" "b \<le> 7"
  shows "shift_weekday_item (cps (show_nat a) @ 45 # cps (show_nat b))
      = cps (show_nat (shift_weekday_num a)) @ 45 # cps (show_nat (shift_weekday_num b))
    \<and> (crate_days (shift_weekday_num a) (shift_weekday_num b) = unix_days a b \<longleftrightarrow> b < 7 \<or> a = 7)"
proof -
  have t: "shift_weekday_item (cps (show_nat a) @ 45 # cps (show_nat b))
      = cps (show_nat (shift_weekday_num a)) @ 45 # cps (show_nat (shift_weekday_num b))"
    using assms by (intro shift_range_text) auto
  have "crate_days (shift_weekday_num a) (shift_weekday_num b) = unix_days a b \<longleftrightarrow> b < 7 \<or> a = 7"
  proof (cases "b = 7")
    case True
    then show ?thesis
      using days_to_seven [of a] assms by (cases "a = 7") (auto simp: shift_weekday_num_def crate_days_def unix_days_def)
  next
    case False
    then have "b < 7" using assms by simp
    then show ?thesis
    proof (cases "a = 0 \<and> b = 0 \<or> 0 < a \<or> 0 < b")
      case True
      have "shift_weekday_num a = a + 1" "shift_weekday_num b = b + 1"
        using assms \<open>b < 7\<close> by (auto simp: shift_weekday_num_def)
      with days_shifted [OF assms(1) \<open>b < 7\<close>] \<open>b < 7\<close> show ?thesis by simp
    qed auto
  qed
  with t show ?thesis by simp
qed

lemma weekday_range_exact_witness:
  "crate_days (shift_weekday_num 1) (shift_weekday_num 5) = unix_days 1 5
   \<and> crate_days (shift_weekday_num 0) (shift_weekday_num 7) \<noteq> unix_days 0 7"
  using weekday_range_exact [of 1 5] weekday_range_exact [of 0 7] by simp

subsection \<open>Hours\<close>

text \<open>A window the tool accepts is not empty, and the test follows it at every minute.\<close>

lemma valid_hours_exact:
  assumes "validate_active_hours hours = Inr ()"
  shows "\<exists>a b. parse_hours hours = Some (a, b) \<and> a < b \<and> b \<le> 1440
    \<and> (is_active_hours T now (Some hours) tz \<longleftrightarrow>
        (let z = resolve_tz T tz in a \<le> tl_hour T z now * 60 + tl_minute T z now \<and> tl_hour T z now * 60 + tl_minute T z now < b))"
proof -
  have hh: "parse_hhmm t = Some n \<Longrightarrow> n \<le> 1440" for t n
    by (auto simp: parse_hhmm_def split: option.splits if_splits prod.splits)
  show ?thesis
    using assms hh
    by (auto simp: validate_active_hours_def is_active_hours_def parse_hours_def Let_def
        split: option.splits if_splits prod.splits)
qed

end
