(* ===== verification/Scheduler_Facts.thy ===== *)
theory Scheduler_Facts
  imports Scheduled_Turn Schedule_Facts
begin

text \<open>
  What is proved of the scheduler: a fired job moves on to a later time, a removed job never fires again over
  any interleaving, and the ways a job comes back, disappears or is never run.
\<close>

subsection \<open>Basic facts\<close>

lemma find_update_first:
  assumes "\<And>x. P x \<Longrightarrow> P (f x)"
  shows "find P (update_first P f xs) = map_option f (find P xs)"
  by (induction xs) (auto simp: assms)

lemma find_change_job:
  "(\<And>j. je_id j = i \<Longrightarrow> je_id (f j) = i) \<Longrightarrow> find_job i (change_job i f s) = map_option f (find_job i s)"
  by (simp add: find_job_def change_job_def find_update_first)

lemma update_first_ids:
  "(\<And>j. je_id j = i \<Longrightarrow> je_id (f j) = i) \<Longrightarrow> map je_id (update_first (\<lambda>j. je_id j = i) f js) = map je_id js"
  by (induction js) auto

lemma change_job_ids:
  "(\<And>j. je_id j = i \<Longrightarrow> je_id (f j) = i) \<Longrightarrow> map je_id (sc_jobs (change_job i f s)) = map je_id (sc_jobs s)"
  by (simp add: change_job_def update_first_ids)

lemma change_job_frame [simp]:
  "sc_disk (change_job i f s) = sc_disk s" "sc_events (change_job i f s) = sc_events s" "sc_tz (change_job i f s) = sc_tz s"
  "sc_last_mtime (change_job i f s) = sc_last_mtime s" "sc_closed (change_job i f s) = sc_closed s"
  by (simp_all add: change_job_def)

lemma persist_frame [simp]:
  "sc_jobs (snd (persist_jobs S io s)) = sc_jobs s" "sc_events (snd (persist_jobs S io s)) = sc_events s"
  "sc_tz (snd (persist_jobs S io s)) = sc_tz s" "sc_last_mtime (snd (persist_jobs S io s)) = sc_last_mtime s"
  by (simp_all add: persist_jobs_def split: prod.split)

lemma find_job_persist [simp]: "find_job i (snd (persist_jobs S io s)) = find_job i s"
  by (simp add: find_job_def)

lemma snd_case_pair [simp]: "snd (case p of (a, b) \<Rightarrow> (f a b, b)) = snd p"
  by (cases p) simp

lemma filled_entry_id [simp]: "je_id (filled_entry T now tz fresh e) = (if je_id e = [] then fresh else je_id e)"
  by (simp add: filled_entry_def Let_def)

lemma add_job_state:
  "snd (add_job S T io now fresh e s) =
     (if blank_name (je_name e) then s
      else snd (persist_jobs S io (s\<lparr>sc_jobs := sc_jobs s @ [filled_entry T now (sc_tz s) fresh e]\<rparr>)))"
  by (simp add: add_job_def Let_def)

lemma update_job_state:
  assumes "find_job i s = Some j"
    and s1_def: "s1 = change_job i (\<lambda>_. update_fields T now (sc_tz s) u j) s"
  shows "snd (update_job S T io now i u s) \<in> {s1, snd (persist_jobs S io s1),
    snd (persist_jobs S io (change_job i (\<lambda>j. j\<lparr>je_next_run := Some (tl_show T now)\<rparr>) s1))}"
  using assms(1) by (simp add: update_job_def Let_def s1_def)

lemma remove_found_state:
  "snd (remove_found S io i a s) \<in> {s, snd (persist_jobs S io (s\<lparr>sc_jobs := filter (\<lambda>j. je_id j \<noteq> i) (sc_jobs s)\<rparr>))}"
  by (simp add: remove_found_def Let_def)

lemma find_job_id: "find_job i s = Some j \<Longrightarrow> je_id j = i"
  by (auto simp: find_job_def find_Some_iff)

lemma retime_fields [simp]:
  "je_id (retime T now tz j) = je_id j" "je_last_run (retime T now tz j) = je_last_run j"
  "je_enabled (retime T now tz j) = je_enabled j" "je_schedule (retime T now tz j) = je_schedule j"
  "je_hours (retime T now tz j) = je_hours j" "je_tz (retime T now tz j) = je_tz j"
  "je_next_run (retime T now tz j) = compute_next_run T now (je_schedule j) (je_last_run j) (job_tz tz j)"
  "je_alert (retime T now tz j) = je_alert j" "je_last_alert (retime T now tz j) = je_last_alert j"
  "je_name (retime T now tz j) = je_name j" "je_errors (retime T now tz j) = je_errors j"
  by (simp_all add: retime_def)

lemma set_opt_id: "(\<And>x j. g (f x j) = g j) \<Longrightarrow> g (set_opt o' f j) = g j"
  by (simp add: set_opt_def split: option.split)

lemma update_fields_id [simp]: "je_id (update_fields T now tz u j) = je_id j"
  by (simp add: update_fields_def update_timing_def set_opt_id Let_def)

lemma count_status_fields [simp]:
  "je_id (count_status x j) = je_id j" "je_next_run (count_status x j) = je_next_run j"
  "je_schedule (count_status x j) = je_schedule j" "je_alert (count_status x j) = je_alert j"
  "je_last_alert (count_status x j) = je_last_alert j"
  by (simp_all add: count_status_def Let_def split: run_status.split)

lemma mark_timing_id [simp]: "je_id (mark_timing T now tz r j) = je_id j"
  by (simp add: mark_timing_def)

lemma mark_fired_id [simp]: "je_id (mark_fired T now tz j) = je_id j"
  by (simp add: mark_fired_def)

lemma count_run_id [simp]: "je_id (count_run r j) = je_id j"
  by (simp add: count_run_def Let_def)

lemma check_alert_id: "check_alert T now r j = Ret (m, j') \<Longrightarrow> je_id j' = je_id j"
  by (cases "should_alert T now (the (je_alert j)) (je_last_alert j)")
    (auto simp: check_alert_def map_run_def split: option.splits if_splits)

subsection \<open>Timers\<close>

text \<open>What lies ahead of a job after it was marked at \<open>now\<close>.\<close>

definition moves_on :: "int \<Rightarrow> schedule_spec \<Rightarrow> bool" where
  "moves_on now spec \<longleftrightarrow>
     (case spec_kind spec of Every ms \<Rightarrow> 0 < ms \<and> now div 1000000 + int ms < last_milli | _ \<Rightarrow> True)"

lemma next_run_later:
  assumes "time_ok T" "0 \<le> now" "now < last_milli * 1000000" "moves_on now spec"
    and "compute_next_run T now' (Some spec) (Some (tl_show T now)) z = Some n"
  shows "\<exists>u. tl_parse T n = Some u \<and> now < u"
proof -
  have l: "last_run_time T now' (Some (tl_show T now)) = now"
    using assms(1-3) by (simp add: last_run_time_def time_okD(1))
  show ?thesis
  proof (cases "spec_kind spec")
    case (Cron e)
    with assms(5) l obtain c u where "tl_after T c (resolve_tz T z) now = Some u" "n = tl_show T u"
      by (auto simp: compute_next_run_def split: option.splits)
    with time_okD(3) [OF assms(1)] time_okD(1) [OF assms(1), of u] assms(2) show ?thesis by fastforce
  next
    case (Every ms)
    let ?m = "now div 1000000 + int ms"
    have m: "0 < ms" "?m < last_milli" using assms(4) Every by (simp_all add: moves_on_def)
    then have n: "n = tl_show T (?m * 1000000)"
      using assms(1,2,5) l Every by (simp add: compute_next_run_def every_next_small)
    have "now < (now div 1000000 + 1) * 1000000" by presburger
    also have "\<dots> \<le> ?m * 1000000" using m(1) by simp
    finally have "now < ?m * 1000000" .
    with m assms(2) show ?thesis unfolding n by (intro exI [of _ "?m * 1000000"]) (simp add: time_okD(1) [OF assms(1)])
  next
    case (At a)
    with assms(5) show ?thesis by (simp add: compute_next_run_def)
  qed
qed

text \<open>A job that fired moves on: after a tick has marked it, it does not fire again before a moment strictly later, whatever its schedule, as long as an interval is positive and its sum stays a date.\<close>

theorem timer_moves_on:
  assumes "time_ok T" "0 \<le> now" "now < last_milli * 1000000"
    and "je_schedule j = Some spec" "moves_on now spec" "fires T t tz (mark_fired T now tz j)"
  shows "now < t"
proof -
  let ?j = "mark_fired T now tz j"
  obtain n u where n: "je_next_run ?j = Some n" "tl_parse T n = Some u" "u \<le> t"
    using assms(6) by (auto simp: fires_def is_due_def Option.bind_eq_Some_conv split: option.splits)
  then have "compute_next_run T now (Some spec) (Some (tl_show T now)) (job_tz tz ?j) = Some n"
    using assms(4) by (simp add: mark_fired_def job_tz_def)
  from next_run_later [OF assms(1-3,5) this] n show ?thesis by auto
qed

text \<open>An interval whose sum with the clock passes 64 bits wraps: such a job, meant to run once in half a billion years, is due again at the very moment it was marked, and so fires at every tick.\<close>

theorem huge_interval_fires_every_tick:
  assumes "time_ok T" "0 \<le> now" "now < last_milli * 1000000"
    and "je_schedule j = Some spec" "spec_kind spec = Every ms" "ms < 2 ^ 64" "2 ^ 64 \<le> now div 1000000 + int ms"
    and "je_enabled j" "is_active_hours T now (je_hours j) (job_tz tz j)"
  shows "fires T now tz (mark_fired T now tz j)"
proof -
  let ?m = "now div 1000000 + int ms - 2 ^ 64"
  have l: "last_run_time T now (Some (tl_show T now)) = now"
    using assms(1-3) by (simp add: last_run_time_def time_okD(1))
  have d: "now div 1000000 < last_milli" using assms(3) by simp
  have n: "every_next T ms now = Some (?m * 1000000)" using every_next_wrapped [OF assms(1,2) d assms(7,6)] .
  have m: "0 \<le> ?m" "?m < now div 1000000" using assms(6,7) by simp_all
  have s: "0 \<le> k * 1000000 \<and> k * 1000000 \<le> now" if "0 \<le> k" "k < now div 1000000" for k
    using that by presburger
  have k: "0 \<le> ?m * 1000000" "?m * 1000000 \<le> now" using s [OF m] by simp_all
  then have "tl_parse T (tl_show T (?m * 1000000)) = Some (?m * 1000000)"
    by (rule time_okD(1) [OF assms(1) _ order_le_less_trans [OF _ assms(3)]])
  with k show ?thesis
    using assms(4,5,8,9) l n by (simp add: fires_def is_due_def mark_fired_def compute_next_run_def job_tz_def)
qed

lemma update_job_ok:
  assumes "find_job i s = Some j" "\<not> ju_trigger_now u" "update_job S T io now i u s = (r, s1)"
  shows "s1 = snd (persist_jobs S io (change_job i (\<lambda>_. update_fields T now (sc_tz s) u j) s))"
  using assms by (auto simp: update_job_def Let_def split: prod.splits)

lemma set_opt_None [simp]: "set_opt None f j = j"
  by (simp add: set_opt_def)

lemma no_update_simps [simp]:
  "ju_name no_update = None" "ju_schedule no_update = None" "\<not> ju_schedule_changed no_update"
  "ju_webhook no_update = None" "\<not> ju_webhook_changed no_update" "ju_prompt no_update = None"
  "ju_tz no_update = None" "ju_hours no_update = None" "ju_enabled no_update = None" "ju_delivery no_update = None"
  "ju_allow no_update = None" "ju_deny no_update = None" "ju_retry no_update = None" "ju_alert no_update = None"
  "ju_max_runs no_update = None" "ju_delete_after no_update = None" "ju_model no_update = None"
  "ju_provider no_update = None" "\<not> ju_trigger_now no_update"
  by (simp_all add: no_update_def)

lemma update_schedule_only:
  "update_fields T now tz (no_update\<lparr>ju_schedule := Some x, ju_schedule_changed := True\<rparr>) j = retime T now tz (j\<lparr>je_schedule := x\<rparr>)"
  by (simp add: update_fields_def update_timing_def)

text \<open>A one-shot job that is given a new moment after it has run once answers that it was updated and never fires again.\<close>

theorem rescheduled_at_never_fires:
  assumes "find_job i s = Some j" "je_last_run j \<noteq> None"
    and "update_job S T io now i (no_update\<lparr>ju_schedule := Some (Some (Kind (At a))), ju_schedule_changed := True\<rparr>) s = (Inr True, s1)"
  shows "\<exists>j1. find_job i s1 = Some j1 \<and> je_schedule j1 = Some (Kind (At a)) \<and> \<not> fires T t tz j1"
proof -
  let ?u = "no_update\<lparr>ju_schedule := Some (Some (Kind (At a))), ju_schedule_changed := True\<rparr>"
  let ?j = "update_fields T now (sc_tz s) ?u j"
  have "s1 = snd (persist_jobs S io (change_job i (\<lambda>_. ?j) s))"
    using assms(1,3) by (intro update_job_ok) auto
  then have "find_job i s1 = Some ?j"
    using assms(1) find_job_id [OF assms(1)] by (simp add: find_change_job)
  then show ?thesis
    using assms(2) by (simp add: update_schedule_only fires_def is_due_def compute_next_run_def)
qed

subsection \<open>Removal\<close>

text \<open>serde: what was printed is read back under its id.\<close>

definition keeps_ids :: "store_lib \<Rightarrow> 'u uuid_lib \<Rightarrow> bool" where
  "keeps_ids S U \<longleftrightarrow> (\<forall>j j'. load_meta S U (Meta (sl_show S j)) = Some j' \<longrightarrow> je_id j' = je_id j)"

definition loaded_ids :: "store_lib \<Rightarrow> 'u uuid_lib \<Rightarrow> jobs_disk \<Rightarrow> string set" where
  "loaded_ids S U d = {je_id j |j. \<exists>p \<in> set (jk_dirs d). load_meta S U (jd_meta (snd p)) = Some j}"

definition legacy_ids :: "store_lib \<Rightarrow> jobs_disk \<Rightarrow> string set" where
  "legacy_ids S d = (case load_legacy S d of Some js \<Rightarrow> je_id ` set js | None \<Rightarrow> {})"

lemma load_meta_No_Meta [simp]: "load_meta S U No_Meta = None"
  by (simp add: load_meta_def)

lemma load_store_ids: "je_id ` set (load_store S U readable d) \<subseteq> loaded_ids S U d \<union> legacy_ids S d"
proof -
  have "je_id ` set (load_jobs_from_dirs S U readable d) \<subseteq> loaded_ids S U d"
    by (auto simp: load_jobs_from_dirs_def loaded_ids_def map_filter_def)
  then show ?thesis
    by (auto simp: load_store_def legacy_ids_def split: list.splits option.splits)
qed

lemma touch_dir_ids [simp]: "loaded_ids S U (touch_dir n d) = loaded_ids S U d"
  by (auto simp: touch_dir_def loaded_ids_def)

lemma touch_dir_legacy [simp]: "jk_legacy (touch_dir n d) = jk_legacy d"
  by (simp add: touch_dir_def)

lemma change_dir_legacy [simp]: "jk_legacy (change_dir n f d) = jk_legacy d"
  by (simp add: change_dir_def)

lemma legacy_ids_cong: "jk_legacy d = jk_legacy d' \<Longrightarrow> legacy_ids S d = legacy_ids S d'"
  by (simp add: legacy_ids_def load_legacy_def)

lemma put_meta_dirs:
  "p \<in> set (jk_dirs (put_meta n t d)) \<Longrightarrow> fst p = n \<and> jd_meta (snd p) = Meta t \<or> fst p \<noteq> n \<and> p \<in> set (jk_dirs d)"
  by (auto simp: put_meta_def change_dir_def touch_dir_def split: if_splits)

lemma put_meta_legacy [simp]: "jk_legacy (put_meta n t d) = jk_legacy d"
  by (simp add: put_meta_def)

lemma write_jobs_dirs:
  "p \<in> set (jk_dirs (snd (write_jobs S io js d))) \<Longrightarrow>
     (\<exists>j \<in> set js. jd_meta (snd p) = Meta (sl_show S j)) \<or> jd_meta (snd p) = No_Meta \<or> p \<in> set (jk_dirs d)"
proof (induction js arbitrary: d)
  case (Cons j js)
  show ?case
  proof (cases "si_fault io (dir_name (je_id j))")
    case None
    with Cons.prems have "p \<in> set (jk_dirs (snd (write_jobs S io js (put_meta (dir_name (je_id j)) (sl_show S j) d))))"
      by (simp add: Let_def)
    from Cons.IH [OF this] put_meta_dirs [of p "dir_name (je_id j)" "sl_show S j" d] show ?thesis by auto
  next
    case (Some x)
    with Cons.prems show ?thesis by (cases x) (auto simp: touch_dir_def Let_def split: if_splits)
  qed
qed simp

lemma write_jobs_all:
  "write_jobs S io js d = (True, d') \<Longrightarrow> p \<in> set (jk_dirs d') \<Longrightarrow> fst p \<in> (\<lambda>j. dir_name (je_id j)) ` set js \<Longrightarrow>
     \<exists>j \<in> set js. jd_meta (snd p) = Meta (sl_show S j)"
proof (induction js arbitrary: d)
  case (Cons j js)
  let ?d = "put_meta (dir_name (je_id j)) (sl_show S j) d"
  have w: "write_jobs S io js ?d = (True, d')"
    using Cons.prems(1) by (auto simp: Let_def split: option.splits write_fault.splits)
  show ?case
  proof (cases "fst p \<in> (\<lambda>j. dir_name (je_id j)) ` set js")
    case True
    with Cons.IH [OF w Cons.prems(2)] show ?thesis by auto
  next
    case False
    then have n: "fst p = dir_name (je_id j)" using Cons.prems(3) by auto
    have "\<And>d. write_jobs S io js d = (True, d') \<Longrightarrow> fst p \<notin> (\<lambda>j. dir_name (je_id j)) ` set js \<Longrightarrow> p \<in> set (jk_dirs d)"
      using Cons.prems(2)
    proof (induction js)
      case (Cons k ks)
      have "write_jobs S io ks (put_meta (dir_name (je_id k)) (sl_show S k) d) = (True, d')"
        using Cons.prems(1) by (auto simp: Let_def split: option.splits write_fault.splits)
      from Cons.IH [OF this] Cons.prems(2,3) put_meta_dirs [of p "dir_name (je_id k)" "sl_show S k" d] show ?case by auto
    qed simp
    from this [OF w False] put_meta_dirs [of p "dir_name (je_id j)" "sl_show S j" d] n show ?thesis by auto
  qed
qed simp

lemma write_jobs_legacy [simp]: "jk_legacy (snd (write_jobs S io js d)) = jk_legacy d"
  by (induction js arbitrary: d) (auto simp: Let_def split: option.split write_fault.split)

lemma prune_dirs_sub: "set (jk_dirs (prune_dirs io seen d)) \<subseteq> set (jk_dirs d)" "jk_legacy (prune_dirs io seen d) = jk_legacy d"
  by (auto simp: prune_dirs_def)

lemma save_cases:
  obtains d0 where "jk_dirs d0 = jk_dirs d" "jk_legacy d0 = jk_legacy d"
    "snd (save_to_disk S io js d) \<in> {d, snd (write_jobs S io js d0),
       prune_dirs io ((\<lambda>j. dir_name (je_id j)) ` set js) (snd (write_jobs S io js d0))}"
    "fst (save_to_disk S io js d) \<longrightarrow> fst (write_jobs S io js d0) \<and> snd (save_to_disk S io js d)
       = prune_dirs io ((\<lambda>j. dir_name (je_id j)) ` set js) (snd (write_jobs S io js d0))"
proof -
  let ?d0 = "if jk_mtime d = None then d\<lparr>jk_mtime := Some 0\<rparr> else d"
  show ?thesis
  proof (rule that [of ?d0])
    show "jk_dirs ?d0 = jk_dirs d" "jk_legacy ?d0 = jk_legacy d" by simp_all
    obtain ok d1 where w: "write_jobs S io js ?d0 = (ok, d1)" by fastforce
    then show "snd (save_to_disk S io js d) \<in> {d, snd (write_jobs S io js ?d0),
        prune_dirs io ((\<lambda>j. dir_name (je_id j)) ` set js) (snd (write_jobs S io js ?d0))}"
      by (cases ok) (simp_all add: save_to_disk_def Let_def)
    from w show "fst (save_to_disk S io js d) \<longrightarrow> fst (write_jobs S io js ?d0) \<and> snd (save_to_disk S io js d)
        = prune_dirs io ((\<lambda>j. dir_name (je_id j)) ` set js) (snd (write_jobs S io js ?d0))"
      by (cases ok) (simp_all add: save_to_disk_def Let_def)
  qed
qed

lemma save_legacy [simp]: "jk_legacy (snd (save_to_disk S io js d)) = jk_legacy d"
  by (rule save_cases [of d S io js]) (auto simp: prune_dirs_sub(2))

lemma save_ids:
  assumes "keeps_ids S U"
  shows "loaded_ids S U (snd (save_to_disk S io js d)) \<subseteq> loaded_ids S U d \<union> je_id ` set js"
proof
  fix x
  assume "x \<in> loaded_ids S U (snd (save_to_disk S io js d))"
  then obtain p j where p: "p \<in> set (jk_dirs (snd (save_to_disk S io js d)))" "load_meta S U (jd_meta (snd p)) = Some j" "x = je_id j"
    by (auto simp: loaded_ids_def)
  obtain d0 where d0: "jk_dirs d0 = jk_dirs d" "snd (save_to_disk S io js d) \<in> {d, snd (write_jobs S io js d0),
       prune_dirs io ((\<lambda>j. dir_name (je_id j)) ` set js) (snd (write_jobs S io js d0))}"
    by (rule save_cases [of d S io js])
  have "p \<in> set (jk_dirs d) \<or> p \<in> set (jk_dirs (snd (write_jobs S io js d0)))"
    using p(1) d0(2) prune_dirs_sub(1) by fastforce
  with write_jobs_dirs [of p S io js d0] d0(1)
  have "p \<in> set (jk_dirs d) \<or> (\<exists>k \<in> set js. jd_meta (snd p) = Meta (sl_show S k)) \<or> jd_meta (snd p) = No_Meta" by auto
  with p(2,3) assms show "x \<in> loaded_ids S U d \<union> je_id ` set js"
    by (auto simp: loaded_ids_def keeps_ids_def)
qed

definition clean_io :: "save_io \<Rightarrow> bool" where
  "clean_io io \<longleftrightarrow> si_listed io \<and> (\<forall>n. \<not> si_stuck io n)"

lemma save_exact:
  assumes "keeps_ids S U" "clean_io io" "save_to_disk S io js d = (True, d')"
  shows "loaded_ids S U d' \<subseteq> je_id ` set js"
proof
  fix x
  assume "x \<in> loaded_ids S U d'"
  then obtain p j where p: "p \<in> set (jk_dirs d')" "load_meta S U (jd_meta (snd p)) = Some j" "x = je_id j"
    by (auto simp: loaded_ids_def)
  let ?seen = "(\<lambda>j. dir_name (je_id j)) ` set js"
  obtain d0 where d0: "fst (write_jobs S io js d0)" "d' = prune_dirs io ?seen (snd (write_jobs S io js d0))"
    using assms(3) by (metis (no_types, lifting) save_cases fst_conv snd_conv)
  have "list_all (kept_dir io ?seen) (jk_dirs d')"
    using assms(2) by (auto simp: d0(2) prune_dirs_def clean_io_def list_all_iff)
  with p(1,2) assms(2) have "fst p \<in> ?seen" by (auto simp: list_all_iff kept_dir_def clean_io_def)
  moreover have "p \<in> set (jk_dirs (snd (write_jobs S io js d0)))" using p(1) d0(2) prune_dirs_sub(1) by fastforce
  moreover have "write_jobs S io js d0 = (True, snd (write_jobs S io js d0))" using d0(1) by (metis prod.collapse)
  ultimately obtain k where "k \<in> set js" "jd_meta (snd p) = Meta (sl_show S k)" using write_jobs_all by blast
  with p(2,3) assms(1) show "x \<in> je_id ` set js" by (auto simp: keeps_ids_def)
qed

lemma append_log_ids [simp]:
  "loaded_ids S U (append_run_log S ok i r d) = loaded_ids S U d" "jk_legacy (append_run_log S ok i r d) = jk_legacy d"
proof -
  have c: "loaded_ids S U (change_dir n f d1) = loaded_ids S U d1" if "\<And>x. jd_meta (f x) = jd_meta x" for n f d1
  proof -
    have e: "loaded_ids S U e = {je_id j |j. \<exists>m \<in> set (map (\<lambda>p. jd_meta (snd p)) (jk_dirs e)). load_meta S U m = Some j}" for e
      by (simp add: loaded_ids_def)
    have "map (\<lambda>p. jd_meta (snd p)) (jk_dirs (change_dir n f d1)) = map (\<lambda>p. jd_meta (snd p)) (jk_dirs d1)"
      using that by (simp add: change_dir_def)
    then show ?thesis by (simp only: e)
  qed
  have "loaded_ids S U (change_dir n (\<lambda>x. x\<lparr>jd_log := Some (append_log l (jd_log x))\<rparr>) (touch_dir n d)) = loaded_ids S U d" for n l
    by (simp add: c)
  then show "loaded_ids S U (append_run_log S ok i r d) = loaded_ids S U d"
    by (simp add: append_run_log_def Let_def) (simp add: loaded_ids_def)
  show "jk_legacy (append_run_log S ok i r d) = jk_legacy d" by (simp add: append_run_log_def Let_def)
qed

text \<open>A job that is neither in memory nor on the disk.\<close>

definition gone :: "store_lib \<Rightarrow> 'u uuid_lib \<Rightarrow> string \<Rightarrow> sched \<Rightarrow> bool" where
  "gone S U i s \<longleftrightarrow> i \<notin> je_id ` set (sc_jobs s) \<and> i \<notin> loaded_ids S U (sc_disk s) \<and> i \<notin> legacy_ids S (sc_disk s)"

lemma gone_frame: "gone S U i s \<Longrightarrow> sc_jobs s' = sc_jobs s \<Longrightarrow> sc_disk s' = sc_disk s \<Longrightarrow> gone S U i s'"
  by (simp add: gone_def)

lemma gone_jobs:
  "gone S U i s \<Longrightarrow> i \<notin> je_id ` set js \<Longrightarrow> gone S U i (s\<lparr>sc_jobs := js\<rparr>)"
  by (simp add: gone_def)

lemma gone_persist: "keeps_ids S U \<Longrightarrow> gone S U i s \<Longrightarrow> gone S U i (snd (persist_jobs S io s))"
  using save_ids [of S U io "sc_jobs s" "sc_disk s"] legacy_ids_cong [OF save_legacy [of S io "sc_jobs s" "sc_disk s"]]
  by (auto simp: gone_def persist_jobs_def split: prod.splits)

lemma gone_change:
  assumes "gone S U i s" "\<And>j. je_id j = k \<Longrightarrow> je_id (f j) = k"
  shows "gone S U i (change_job k f s)"
proof -
  have "je_id ` set (sc_jobs (change_job k f s)) = je_id ` set (sc_jobs s)"
    using change_job_ids [of k f s] assms(2) by (metis list.set_map)
  with assms(1) show ?thesis by (simp add: gone_def)
qed

lemma gone_find: "gone S U i s \<Longrightarrow> find_job i s = None"
  by (force simp: gone_def find_job_def find_None_iff)

subsection \<open>Removal over interleavings\<close>

definition in_flight :: "sched_run \<Rightarrow> cron_trigger list" where
  "in_flight r = List.map_filter (\<lambda>e. case e of Cron_Event t \<Rightarrow> Some t | _ \<Rightarrow> None) (sc_events (sr_s r)) @ sr_running r"

definition triggers_of :: "string \<Rightarrow> sched_run \<Rightarrow> nat" where
  "triggers_of i r = length (filter (\<lambda>t. ct_job t = i) (in_flight r))"

fun phase_free :: "string \<Rightarrow> tick_phase \<Rightarrow> bool" where
  "phase_free i Waiting \<longleftrightarrow> True"
| "phase_free i (Sending js ids) \<longleftrightarrow> i \<notin> je_id ` set js"

fun spares :: "string \<Rightarrow> sched_op \<Rightarrow> bool" where
  "spares i (Op_Add io fresh e) \<longleftrightarrow> fresh \<noteq> i \<and> je_id e \<noteq> i"
| "spares i _ \<longleftrightarrow> True"

definition settled_gone :: "store_lib \<Rightarrow> 'u uuid_lib \<Rightarrow> string \<Rightarrow> sched_run \<Rightarrow> bool" where
  "settled_gone S U i r \<longleftrightarrow> gone S U i (sr_s r) \<and> phase_free i (sr_phase r)"

lemma gone_drain: "keeps_ids S U \<Longrightarrow> gone S U i s \<Longrightarrow> gone S U i (snd (drain_auto_delete S io s))"
proof -
  assume k: "keeps_ids S U" and g: "gone S U i s"
  then have "gone S U i (s\<lparr>sc_jobs := filter P (sc_jobs s)\<rparr>)" for P
    by (intro gone_jobs [OF g]) (auto simp: gone_def)
  from gone_persist [OF k this] g show ?thesis by (simp add: drain_auto_delete_def Let_def)
qed

lemma gone_reload: "gone S U i s \<Longrightarrow> gone S U i (maybe_reload S U readable s)"
  using load_store_ids [of S U readable "sc_disk s"] by (auto simp: maybe_reload_def gone_def)

lemma gone_tick_begin:
  assumes "keeps_ids S U" "gone S U i s" "tick_begin S U T io readable now s = (due, s')"
  shows "gone S U i s' \<and> i \<notin> je_id ` set due"
proof -
  have s': "s' = maybe_reload S U readable (snd (drain_auto_delete S io s))" and due: "due = due_jobs T now s'"
    using assms(3) by (auto simp: tick_begin_def Let_def)
  have "gone S U i s'" unfolding s' by (intro gone_reload gone_drain assms(1,2))
  then show ?thesis by (auto simp: gone_def due due_jobs_def)
qed

lemma gone_fold_change:
  assumes "gone S U i s" "\<And>k j. je_id (f k j) = je_id j"
  shows "gone S U i (fold (\<lambda>k. change_job k (f k)) ks s)"
  using assms by (induction ks arbitrary: s) (simp_all add: gone_change)

lemma gone_tick_mark: "keeps_ids S U \<Longrightarrow> gone S U i s \<Longrightarrow> gone S U i (tick_mark S T io now ids s)"
  using gone_persist [OF _ gone_fold_change [of S U i s "\<lambda>_. mark_fired T now (sc_tz s)" ids]]
  by (simp add: tick_mark_def)

lemma gone_add:
  assumes "keeps_ids S U" "gone S U i s" "fresh \<noteq> i" "je_id e \<noteq> i"
  shows "gone S U i (snd (add_job S T io now fresh e s))"
proof -
  have "gone S U i (s\<lparr>sc_jobs := sc_jobs s @ [filled_entry T now (sc_tz s) fresh e]\<rparr>)"
    using assms(2-4) by (intro gone_jobs) (auto simp: gone_def)
  from gone_persist [OF assms(1) this] assms(2) show ?thesis by (simp add: add_job_state)
qed

lemma gone_update: "keeps_ids S U \<Longrightarrow> gone S U i s \<Longrightarrow> gone S U i (snd (update_job S T io now k u s))"
proof -
  assume k: "keeps_ids S U" and g: "gone S U i s"
  show ?thesis
  proof (cases "find_job k s")
    case (Some j)
    let ?s1 = "change_job k (\<lambda>_. update_fields T now (sc_tz s) u j) s"
    have s1: "gone S U i ?s1" using gone_change [OF g] find_job_id [OF Some] by simp
    have s2: "gone S U i (change_job k (\<lambda>j. j\<lparr>je_next_run := x\<rparr>) ?s1)" for x by (rule gone_change [OF s1]) simp
    from update_job_state [OF Some refl, of S T io now u] s1 gone_persist [OF k s1] gone_persist [OF k s2]
    show ?thesis by (elim insertE) simp_all
  qed (simp add: update_job_def g)
qed

lemma gone_remove: "keeps_ids S U \<Longrightarrow> gone S U i s \<Longrightarrow> gone S U i (snd (remove_job S io k s))"
proof -
  assume k: "keeps_ids S U" and g: "gone S U i s"
  have f: "gone S U i (s\<lparr>sc_jobs := filter (\<lambda>j. je_id j \<noteq> k) (sc_jobs s)\<rparr>)" using g by (intro gone_jobs) (auto simp: gone_def)
  have "gone S U i (snd (remove_found S io k a s))" for a
    using remove_found_state [of S io k a s] g gone_persist [OF k f] by (elim insertE) simp_all
  with g show ?thesis by (simp add: remove_job_def split: option.split)
qed

lemma gone_append: "gone S U i s \<Longrightarrow> gone S U i (s\<lparr>sc_disk := append_run_log S ok k r (sc_disk s)\<rparr>)"
  using legacy_ids_cong [OF append_log_ids(2) [of S ok k r "sc_disk s"]] by (simp add: gone_def)

lemma gone_mark_run: "keeps_ids S U \<Longrightarrow> gone S U i s \<Longrightarrow> gone S U i (snd (mark_run_result S T io log_ok now k r s))"
proof -
  assume k: "keeps_ids S U" and g: "gone S U i s"
  show ?thesis
  proof (cases "find_job k s")
    case (Some j)
    let ?j = "mark_timing T now (sc_tz s) r j"
    show ?thesis
    proof (cases "check_alert T now r ?j")
      case Panic
      with Some gone_change [OF g, of k "\<lambda>_. ?j"] find_job_id [OF Some] show ?thesis by (simp add: mark_run_result_def)
    next
      case (Ret x)
      obtain m j2 where x: "x = (m, j2)" by fastforce
      have "gone S U i (change_job k (\<lambda>_. count_run r j2) s)"
        using gone_change [OF g] check_alert_id [OF Ret [unfolded x]] find_job_id [OF Some] by simp
      from gone_append [OF gone_persist [OF k this]] Some Ret x show ?thesis by (simp add: mark_run_result_def Let_def)
    qed
  qed (simp add: mark_run_result_def g)
qed

lemma mark_run_events: "sc_events (snd (mark_run_result S T io log_ok now k r s)) = sc_events s"
  by (simp add: mark_run_result_def Let_def split: option.split run.split prod.split)

lemma change_events [simp]:
  "sc_events (snd (update_job S T io now k u s)) = sc_events s"
  "sc_events (snd (add_job S T io now fresh e s)) = sc_events s"
  "sc_events (snd (remove_job S io k s)) = sc_events s"
proof -
  show "sc_events (snd (update_job S T io now k u s)) = sc_events s"
  proof (cases "find_job k s")
    case (Some j)
    from update_job_state [OF this refl, of S T io now u] show ?thesis by (elim insertE) simp_all
  qed (simp add: update_job_def)
  show "sc_events (snd (add_job S T io now fresh e s)) = sc_events s" by (simp add: add_job_state)
  have "sc_events (snd (remove_found S io k a s)) = sc_events s" for a
    using remove_found_state [of S io k a s] by (elim insertE) simp_all
  then show "sc_events (snd (remove_job S io k s)) = sc_events s" by (simp add: remove_job_def split: option.split)
qed

lemma fold_change_events: "sc_events (fold (\<lambda>k. change_job k f) ks s) = sc_events s"
  by (induction ks arbitrary: s) simp_all

lemma tick_events:
  "sc_events (tick_mark S T io now ids s) = sc_events s"
  "tick_begin S U T io readable now s = (due, s') \<Longrightarrow> sc_events s' = sc_events s"
  by (auto simp: tick_mark_def fold_change_events tick_begin_def maybe_reload_def drain_auto_delete_def Let_def)

definition count_of :: "string \<Rightarrow> cron_trigger list \<Rightarrow> nat" where
  "count_of i ts = length (filter (\<lambda>t. ct_job t = i) ts)"

definition event_triggers :: "sched_event list \<Rightarrow> cron_trigger list" where
  "event_triggers es = List.map_filter (\<lambda>e. case e of Cron_Event t \<Rightarrow> Some t | _ \<Rightarrow> None) es"

lemma triggers_split: "triggers_of i r = count_of i (event_triggers (sc_events (sr_s r))) + count_of i (sr_running r)"
  by (simp add: triggers_of_def in_flight_def count_of_def event_triggers_def)

lemma event_triggers_simps [simp]:
  "event_triggers [] = []" "event_triggers (es @ fs) = event_triggers es @ event_triggers fs"
  "event_triggers (e # es) = (case e of Cron_Event t \<Rightarrow> [t] | _ \<Rightarrow> []) @ event_triggers es"
  by (simp_all add: event_triggers_def map_filter_def split: sched_event.split)

lemma count_of_simps [simp]:
  "count_of i [] = 0" "count_of i (ts @ us) = count_of i ts + count_of i us"
  "count_of i (t # ts) = (if ct_job t = i then 1 else 0) + count_of i ts"
  by (simp_all add: count_of_def)

lemma send_other: "(\<forall>t. e = Cron_Event t \<longrightarrow> ct_job t \<noteq> i) \<Longrightarrow> count_of i (event_triggers (sc_events (send_sched e s))) = count_of i (event_triggers (sc_events s))"
  by (cases e) (simp_all add: send_sched_def)

lemma take_event_same: "triggers_of i (take_event r) = triggers_of i r"
  by (cases "sc_events (sr_s r)")
    (auto simp: take_event_def triggers_split on_sched_def Let_def split: sched_event.split)

lemma count_drop: "k < length ts \<Longrightarrow> count_of i (take k ts @ drop (Suc k) ts) \<le> count_of i ts"
  using id_take_nth_drop [of k ts] count_of_simps(2,3) by (metis add_le_cancel_left le_add2)

lemma step_settled:
  assumes "keeps_ids S U" "settled_gone S U i r" "spares i op"
  shows "settled_gone S U i (sched_step S U T channels op r) \<and> triggers_of i (sched_step S U T channels op r) \<le> triggers_of i r"
proof -
  have g: "gone S U i (sr_s r)" and ph: "phase_free i (sr_phase r)" using assms(2) by (simp_all add: settled_gone_def)
  have on: "settled_gone S U i (on_sched f r) \<and> triggers_of i (on_sched f r) \<le> triggers_of i r"
    if "gone S U i (f (sr_s r))" "count_of i (event_triggers (sc_events (f (sr_s r)))) = count_of i (event_triggers (sc_events (sr_s r)))" for f
    using that ph by (simp add: settled_gone_def on_sched_def triggers_split)
  show ?thesis
  proof (cases op)
    case (Op_Wait n)
    with assms(2) show ?thesis by (simp add: settled_gone_def triggers_split)
  next
    case (Op_Tick_Begin io readable)
    obtain due s' where t: "tick_begin S U T io readable (sr_now r) (sr_s r) = (due, s')" by fastforce
    from gone_tick_begin [OF assms(1) g t] tick_events(2) [OF t] assms(2) show ?thesis
      unfolding Op_Tick_Begin by (cases "sr_phase r") (simp_all add: begin_tick_def t settled_gone_def triggers_split)
  next
    case Op_Tick_Send
    show ?thesis
    proof (cases "\<exists>j js ids. sr_phase r = Sending (j # js) ids")
      case True
      then obtain j js ids where p: "sr_phase r = Sending (j # js) ids" by blast
      with ph have n: "je_id j \<noteq> i" "i \<notin> je_id ` set js" by auto
      have "sc_jobs (tick_send U j (sr_s r)) = sc_jobs (sr_s r)" "sc_disk (tick_send U j (sr_s r)) = sc_disk (sr_s r)"
        by (simp_all add: tick_send_def send_sched_def)
      with gone_frame [OF g] have "gone S U i (tick_send U j (sr_s r))" by blast
      moreover have "count_of i (event_triggers (sc_events (tick_send U j (sr_s r)))) = count_of i (event_triggers (sc_events (sr_s r)))"
        unfolding tick_send_def using n(1) by (intro send_other) (simp add: trigger_of_def)
      ultimately show ?thesis
        using n(2) unfolding Op_Tick_Send by (simp add: send_tick_def p settled_gone_def triggers_split)
    next
      case False
      then have "send_tick U r = r" by (auto simp: send_tick_def split: tick_phase.split list.split)
      with assms(2) show ?thesis by (simp add: Op_Tick_Send)
    qed
  next
    case (Op_Tick_Mark io)
    from gone_tick_mark [OF assms(1) g] assms(2) show ?thesis
      unfolding Op_Tick_Mark by (auto simp: mark_tick_def settled_gone_def triggers_split tick_events split: tick_phase.split list.split)
  next
    case Op_Take
    have "sc_jobs (sr_s (take_event r)) = sc_jobs (sr_s r)" "sc_disk (sr_s (take_event r)) = sc_disk (sr_s r)"
      "sr_phase (take_event r) = sr_phase r"
      by (auto simp: take_event_def on_sched_def Let_def split: list.split sched_event.split)
    with gone_frame [OF g] ph take_event_same [of i r] show ?thesis by (simp add: Op_Take settled_gone_def)
  next
    case (Op_Finish k io log_ok ms result)
    show ?thesis
    proof (cases "k < length (sr_running r)")
      case True
      let ?t = "sr_running r ! k"
      let ?m = "mark_run_result S T io log_ok (sr_now r) (ct_job ?t) (cron_record T (sr_now r) ms result) (sr_s r)"
      have "snd (finish_cron_task S T io log_ok channels (sr_now r) ms ?t result (sr_s r)) = snd ?m"
        by (simp add: finish_cron_task_def split: prod.split run.split)
      then obtain out where f: "finish_cron_task S T io log_ok channels (sr_now r) ms ?t result (sr_s r) = (out, snd ?m)"
        by (metis prod.collapse)
      from ph count_drop [OF True, of i] show ?thesis
        unfolding Op_Finish
        by (simp add: finish_run_def True f settled_gone_def triggers_split gone_mark_run [OF assms(1) g] mark_run_events)
    qed (use assms(2) in \<open>simp add: Op_Finish finish_run_def\<close>)
  next
    case (Op_Add io fresh e)
    with assms(3) have "fresh \<noteq> i" "je_id e \<noteq> i" by simp_all
    with on [of "\<lambda>s. snd (add_job S T io (sr_now r) fresh e s)"] gone_add [OF assms(1) g, of fresh e T io "sr_now r"]
    show ?thesis by (simp add: Op_Add)
  next
    case (Op_Update io k u)
    from on [of "\<lambda>s. snd (update_job S T io (sr_now r) k u s)"] gone_update [OF assms(1) g, of T io "sr_now r" k u]
    show ?thesis by (simp add: Op_Update)
  next
    case (Op_Remove io k)
    from on [of "\<lambda>s. snd (remove_job S io k s)"] gone_remove [OF assms(1) g, of io k]
    show ?thesis by (simp add: Op_Remove)
  next
    case (Op_Webhook_Run log_ok k w)
    from on [of "record_webhook_run S log_ok k w"] gone_append [OF g, of log_ok k w]
    show ?thesis by (simp add: Op_Webhook_Run record_webhook_run_def)
  next
    case (Op_Message c t)
    have "gone S U i (record_user_message (now_secs_of (sr_now r)) c t (sr_s r))"
      by (rule gone_frame [OF g]) (simp_all add: record_user_message_def Let_def)
    with on [of "record_user_message (now_secs_of (sr_now r)) c t"] show ?thesis
      by (simp add: Op_Message record_user_message_def Let_def)
  next
    case Op_Distill
    have "gone S U i (maybe_fire_distill (now_secs_of (sr_now r)) (sr_s r))"
      by (rule gone_frame [OF g]) (simp_all add: maybe_fire_distill_def send_sched_def split: option.split)
    moreover have "count_of i (event_triggers (sc_events (maybe_fire_distill (now_secs_of (sr_now r)) (sr_s r))))
        = count_of i (event_triggers (sc_events (sr_s r)))"
      by (simp add: maybe_fire_distill_def send_sched_def split: option.split)
    ultimately show ?thesis using on [of "maybe_fire_distill (now_secs_of (sr_now r))"] by (simp add: Op_Distill)
  next
    case Op_Propose
    have "gone S U i (maybe_fire_proposer (now_secs_of (sr_now r)) (sr_s r))"
      by (rule gone_frame [OF g]) (simp_all add: maybe_fire_proposer_def send_sched_def split: option.split)
    moreover have "count_of i (event_triggers (sc_events (maybe_fire_proposer (now_secs_of (sr_now r)) (sr_s r))))
        = count_of i (event_triggers (sc_events (sr_s r)))"
      by (simp add: maybe_fire_proposer_def send_sched_def split: option.split)
    ultimately show ?thesis using on [of "maybe_fire_proposer (now_secs_of (sr_now r))"] by (simp add: Op_Propose)
  qed
qed

lemma run_settled:
  assumes "keeps_ids S U" "settled_gone S U i r" "list_all (spares i) ops"
  shows "settled_gone S U i (run_sched S U T channels ops r) \<and> triggers_of i (run_sched S U T channels ops r) \<le> triggers_of i r"
  using assms(2,3)
proof (induction ops arbitrary: r)
  case (Cons op ops)
  from step_settled [OF assms(1) Cons.prems(1), of op T channels] Cons.prems(2)
  have s: "settled_gone S U i (sched_step S U T channels op r)" "triggers_of i (sched_step S U T channels op r) \<le> triggers_of i r" by auto
  from Cons.IH [OF s(1)] Cons.prems(2) s(2) show ?case by (auto simp: run_sched_def)
qed (simp add: run_sched_def)

lemma remove_gone:
  assumes "keeps_ids S U" "clean_io io" "i \<notin> legacy_ids S (sc_disk s)" "remove_job S io i s = (Inr (Some a), s1)"
  shows "gone S U i s1"
proof -
  let ?s = "s\<lparr>sc_jobs := filter (\<lambda>j. je_id j \<noteq> i) (sc_jobs s)\<rparr>"
  have p: "persist_jobs S io ?s = (True, s1)"
    using assms(4) by (auto simp: remove_job_def remove_found_def Let_def split: option.splits prod.splits if_splits)
  have "save_to_disk S io (sc_jobs ?s) (sc_disk s) = (True, sc_disk s1)" and j: "sc_jobs s1 = sc_jobs ?s"
    using p by (auto simp: persist_jobs_def split: prod.splits)
  from save_exact [OF assms(1,2) this(1)] legacy_ids_cong [OF save_legacy [of S io "sc_jobs ?s" "sc_disk s"]] this(1) j assms(3)
  show ?thesis by (auto simp: gone_def)
qed


end
