(* ===== verification/Scheduler_Loss.thy ===== *)
theory Scheduler_Loss
  imports Scheduler_Facts
begin

text \<open>
  The ways in which the scheduler loses or revives a job, a trigger or a result, alerts and their cooldown, and
  the instances of the theorems on schedules.
\<close>

subsection \<open>The store\<close>

text \<open>\<open>daemon/mod.rs\<close>: the old markdown jobs are migrated when the store looks empty.\<close>

definition migrates_at_start :: "jobs_disk \<Rightarrow> bool" where
  "migrates_at_start d \<longleftrightarrow> jk_legacy d = None \<and> jk_dirs d = []"

lemma save_nothing:
  assumes "jk_mtime d \<noteq> None" "si_root io"
  shows "save_to_disk S io [] d = (True, prune_dirs io {} d)"
  using assms by (auto simp: save_to_disk_def Let_def)

lemma remove_last:
  assumes "sc_jobs s = [j]" "jk_mtime (sc_disk s) \<noteq> None" "remove_job S io (je_id j) s = (Inr (Some a), s1)"
  shows "sc_jobs s1 = [] \<and> sc_disk s1 = prune_dirs io {} (sc_disk s) \<and> sc_last_mtime s1 = sc_last_mtime s"
proof -
  have f: "remove_found S io (je_id j) b s =
      (case persist_jobs S io (s\<lparr>sc_jobs := []\<rparr>) of (ok, s1) \<Rightarrow> (if ok then Inr (Some b) else Inl (si_error io), s1))" for b
    using assms(1) by (simp add: remove_found_def)
  with assms(3) have p: "persist_jobs S io (s\<lparr>sc_jobs := []\<rparr>) = (True, s1)"
    by (auto simp: remove_job_def split: option.splits prod.splits if_splits)
  then have "si_root io" by (auto simp: persist_jobs_def save_to_disk_def split: if_splits)
  from save_nothing [OF assms(2) this] p show ?thesis by (auto simp: persist_jobs_def)
qed

lemma prune_all:
  assumes "clean_io io" "(n, x) \<in> set (jk_dirs d)" "jd_meta x \<noteq> No_Meta"
  shows "jk_mtime (prune_dirs io {} d) = bump (jk_mtime d)"
    "\<forall>p \<in> set (jk_dirs (prune_dirs io {} d)). jd_meta (snd p) = No_Meta"
proof -
  have k: "kept_dir io {} p \<longleftrightarrow> jd_meta (snd p) = No_Meta" for p
    using assms(1) by (simp add: kept_dir_def clean_io_def)
  then have "\<not> list_all (kept_dir io {}) (jk_dirs d)" using assms(2,3) by (force simp: list_all_iff)
  with assms(1) have "prune_dirs io {} d = d\<lparr>jk_dirs := filter (kept_dir io {}) (jk_dirs d), jk_mtime := bump (jk_mtime d)\<rparr>"
    by (simp add: prune_dirs_def clean_io_def)
  with k show "jk_mtime (prune_dirs io {} d) = bump (jk_mtime d)"
    "\<forall>p \<in> set (jk_dirs (prune_dirs io {} d)). jd_meta (snd p) = No_Meta" by simp_all
qed

lemma bump_other [simp]: "bump m \<noteq> m" "m \<noteq> bump m"
  by (cases m; simp add: bump_def)+

text \<open>Removing the last job brings back the jobs of the legacy single file: the store of directories is empty then, its modification time has moved, and the next tick loads the file that was only meant for stores never migrated.\<close>

theorem last_removal_revives_legacy:
  assumes "sc_jobs s = [j]" "load_legacy S (sc_disk s) = Some js" "sc_last_mtime s = jk_mtime (sc_disk s)"
    and "jk_mtime (sc_disk s) \<noteq> None" "(n, x) \<in> set (jk_dirs (sc_disk s))" "jd_meta x \<noteq> No_Meta"
    and "clean_io io" "remove_job S io (je_id j) s = (Inr (Some a), s1)"
  shows "sc_jobs (snd (tick_begin S U T io' True now s1)) = js"
proof -
  let ?d = "prune_dirs io {} (sc_disk s)"
  have s1: "sc_jobs s1 = []" "sc_disk s1 = ?d" "sc_last_mtime s1 = sc_last_mtime s"
    using remove_last [OF assms(1,4,8)] by simp_all
  have m: "jk_mtime ?d = bump (jk_mtime (sc_disk s))" and e: "\<forall>p \<in> set (jk_dirs ?d). jd_meta (snd p) = No_Meta"
    using prune_all [OF assms(7,5,6)] by blast+
  have "List.map_filter (\<lambda>p. load_meta S U (jd_meta (snd p))) (jk_dirs ?d) = []"
    using e by (simp add: map_filter_def filter_empty_conv)
  then have "load_jobs_from_dirs S U True ?d = []" by (simp add: load_jobs_from_dirs_def)
  moreover have "load_legacy S ?d = Some js" using assms(2) prune_dirs_sub(2) [of io "{}" "sc_disk s"] by (simp add: load_legacy_def)
  ultimately have "load_store S U True ?d = js" by (simp add: load_store_def)
  then show ?thesis
    using s1 m assms(3) by (simp add: tick_begin_def drain_auto_delete_def maybe_reload_def Let_def)
qed

lemma last_removal_migrates_again:
  assumes "sc_jobs s = [j]" "jk_mtime (sc_disk s) \<noteq> None" "jk_legacy (sc_disk s) = None"
    and "(n, x) \<in> set (jk_dirs (sc_disk s))" "\<forall>p \<in> set (jk_dirs (sc_disk s)). jd_meta (snd p) \<noteq> No_Meta"
    and "clean_io io" "remove_job S io (je_id j) s = (Inr (Some a), s1)"
  shows "migrates_at_start (sc_disk s1)"
proof -
  let ?d = "prune_dirs io {} (sc_disk s)"
  have "\<forall>p \<in> set (jk_dirs ?d). jd_meta (snd p) = No_Meta"
    using prune_all(2) [OF assms(6,4)] assms(4,5) by fastforce
  moreover have "set (jk_dirs ?d) \<subseteq> set (jk_dirs (sc_disk s))" by (rule prune_dirs_sub(1))
  ultimately have "set (jk_dirs ?d) = {}" using assms(5) by (meson all_not_in_conv subsetD)
  then show ?thesis
    using remove_last [OF assms(1,2,7)] assms(3) prune_dirs_sub(2) [of io "{}" "sc_disk s"] by (simp add: migrates_at_start_def)
qed

lemma write_jobs_frame:
  "p \<in> set (jk_dirs (snd (write_jobs S io js d))) \<Longrightarrow> fst p \<notin> (\<lambda>j. dir_name (je_id j)) ` set js \<Longrightarrow> p \<in> set (jk_dirs d)"
proof (induction js arbitrary: d)
  case (Cons j js)
  show ?case
  proof (cases "si_fault io (dir_name (je_id j))")
    case None
    with Cons.prems(1) have i: "p \<in> set (jk_dirs (snd (write_jobs S io js (put_meta (dir_name (je_id j)) (sl_show S j) d))))"
      by (simp add: Let_def)
    have "p \<in> set (jk_dirs (put_meta (dir_name (je_id j)) (sl_show S j) d))"
      using Cons.IH [OF i] Cons.prems(2) by simp
    from put_meta_dirs [OF this] Cons.prems(2) show ?thesis by auto
  next
    case (Some y)
    with Cons.prems show ?thesis by (cases y) (auto simp: touch_dir_def Let_def split: if_splits)
  qed
qed simp

text \<open>A job whose file cannot be read or parsed (one character lost in an edit is enough) is skipped when the store is loaded, and the next successful save of any other job deletes its directory together with its run log.\<close>

theorem malformed_job_deleted:
  assumes "(n, x) \<in> set (jk_dirs d)" "jd_meta x \<noteq> No_Meta"
    and "\<forall>p \<in> set (jk_dirs d). fst p = n \<longrightarrow> jd_meta (snd p) \<noteq> No_Meta"
    and s_def: "s = open_scheduler S U True tz distill proposer cf rf d"
    and "\<forall>j \<in> set (sc_jobs s). dir_name (je_id j) \<noteq> n" "clean_io io"
    and "add_job S T io now fresh e s = (Inr k, s1)" "dir_name k \<noteq> n"
  shows "find_dir n d \<noteq> None \<and> find_dir n (sc_disk s1) = None"
proof -
  let ?e = "filled_entry T now (sc_tz s) fresh e" and ?js = "sc_jobs s @ [filled_entry T now (sc_tz s) fresh e]"
  have d: "sc_disk s = d" by (simp add: s_def open_scheduler_def Let_def)
  have p: "persist_jobs S io (s\<lparr>sc_jobs := ?js\<rparr>) = (True, s1)" and k: "k = je_id ?e"
    using assms(7) by (auto simp: add_job_def Let_def split: if_splits prod.splits)
  have n: "n \<notin> (\<lambda>j. dir_name (je_id j)) ` set ?js" using assms(5,8) k by auto
  have sv: "save_to_disk S io ?js d = (True, sc_disk s1)" using p d by (auto simp: persist_jobs_def split: prod.splits)
  let ?seen = "(\<lambda>j. dir_name (je_id j)) ` set ?js"
  obtain d0 where d0: "jk_dirs d0 = jk_dirs d" "fst (write_jobs S io ?js d0)"
      "sc_disk s1 = prune_dirs io ?seen (snd (write_jobs S io ?js d0))"
    using sv save_cases [of d S io ?js] by (metis (no_types, lifting) fst_conv snd_conv)
  have "n \<notin> fst ` set (jk_dirs (sc_disk s1))"
  proof
    assume "n \<in> fst ` set (jk_dirs (sc_disk s1))"
    then obtain q where q: "q \<in> set (jk_dirs (sc_disk s1))" "fst q = n" by auto
    then have "kept_dir io ?seen q"
      using assms(6) d0(3) by (auto simp: prune_dirs_def clean_io_def list_all_iff split: if_splits)
    with q(2) n assms(6) have "jd_meta (snd q) = No_Meta" by (auto simp: kept_dir_def clean_io_def)
    moreover have "q \<in> set (jk_dirs (snd (write_jobs S io ?js d0)))" using q(1) d0(3) prune_dirs_sub(1) by fastforce
    with write_jobs_frame [of q S io ?js d0] n q(2) d0(1) have "q \<in> set (jk_dirs d)" by auto
    ultimately show False using assms(3) q(2) by blast
  qed
  then have "find_dir n (sc_disk s1) = None" by (auto simp: find_dir_def map_of_eq_None_iff)
  moreover have "find_dir n d \<noteq> None" using assms(1) by (auto simp: find_dir_def dest: weak_map_of_SomeI)
  ultimately show ?thesis by simp
qed

subsection \<open>Triggers\<close>

lemma update_trigger_only: "update_fields T now tz (no_update\<lparr>ju_trigger_now := True\<rparr>) j = j"
  by (simp add: update_fields_def update_timing_def)

lemma trigger_state:
  assumes "find_job i s = Some j" "update_job S T io now i (no_update\<lparr>ju_trigger_now := True\<rparr>) s = (Inr True, s1)"
  shows "find_job i s1 = Some (j\<lparr>je_next_run := Some (tl_show T now)\<rparr>) \<and> je_enabled j \<and> je_schedule j \<noteq> None"
proof -
  let ?s2 = "change_job i (\<lambda>j. j\<lparr>je_next_run := Some (tl_show T now)\<rparr>) (change_job i (\<lambda>_. j) s)"
  have "je_enabled j \<and> je_schedule j \<noteq> None \<and> s1 = snd (persist_jobs S io ?s2)"
    using assms by (auto simp: update_job_def update_trigger_only Let_def split: if_splits prod.splits)
  moreover have "find_job i ?s2 = Some (j\<lparr>je_next_run := Some (tl_show T now)\<rparr>)"
    using assms(1) find_job_id [OF assms(1)] by (simp add: find_change_job)
  ultimately show ?thesis by simp
qed

lemma mark_run_state:
  assumes "find_job i s = Some j" "mark_run_result S T io log_ok now i r s = (res, s1)"
  shows "\<exists>j1. find_job i s1 = Some j1 \<and> je_schedule j1 = je_schedule j
    \<and> (je_next_run j1 = None \<or> je_next_run j1 = compute_next_run T now (je_schedule j) (Some (rr_run_at r)) (job_tz (sc_tz s) j))"
proof -
  let ?j = "mark_timing T now (sc_tz s) r j"
  have id: "je_id j = i" by (rule find_job_id [OF assms(1)])
  have n: "je_next_run ?j = compute_next_run T now (je_schedule j) (Some (rr_run_at r)) (job_tz (sc_tz s) j)" "je_schedule ?j = je_schedule j"
    by (simp_all add: mark_timing_def job_tz_def)
  show ?thesis
  proof (cases "check_alert T now r ?j")
    case Panic
    with assms id n show ?thesis by (auto simp: mark_run_result_def find_change_job)
  next
    case (Ret x)
    obtain m j2 where x: "x = (m, j2)" by fastforce
    have c: "je_id j2 = je_id ?j" "je_next_run j2 = je_next_run ?j" "je_schedule j2 = je_schedule ?j"
      using Ret x by (cases "should_alert T now (the (je_alert ?j)) (je_last_alert ?j)";
        auto simp: check_alert_def map_run_def split: option.splits if_splits)+
    have "find_job i s1 = Some (count_run r j2)"
      using assms Ret x id c(1)
      by (auto simp: mark_run_result_def Let_def find_job_def change_job_def find_update_first)
    then show ?thesis using c n by (simp add: count_run_def Let_def)
  qed
qed

text \<open>A manual trigger is due from the moment it is answered, but it is lost when a run of the job that was already in progress ends before the next tick: recording that run computes the next time from its schedule again, so the job does not fire until then.\<close>

theorem manual_trigger_lost:
  assumes "time_ok T" "0 \<le> now" "now < last_milli * 1000000" "find_job i s = Some j" "je_schedule j = Some spec"
    and "update_job S T io now i (no_update\<lparr>ju_trigger_now := True\<rparr>) s = (Inr True, s1)"
    and "now \<le> done_at" "done_at < last_milli * 1000000" "moves_on done_at spec" "rr_run_at r = tl_show T done_at"
    and "mark_run_result S T io' log_ok done_at i r s1 = (res, s2)"
  shows "(\<exists>j1. find_job i s1 = Some j1 \<and> je_enabled j1 \<and> is_due T now j1)
    \<and> (\<exists>j2. find_job i s2 = Some j2 \<and> (fires T t tz j2 \<longrightarrow> done_at < t))"
proof -
  note tr = trigger_state [OF assms(4,6)]
  then have "is_due T now (j\<lparr>je_next_run := Some (tl_show T now)\<rparr>)"
    using assms(1-3) by (simp add: is_due_def time_okD(1))
  with tr have a: "\<exists>j1. find_job i s1 = Some j1 \<and> je_enabled j1 \<and> is_due T now j1" by auto
  obtain j2 where j2: "find_job i s2 = Some j2"
      "je_next_run j2 = None \<or> je_next_run j2 = compute_next_run T done_at (Some spec) (Some (tl_show T done_at))
         (job_tz (sc_tz s1) (j\<lparr>je_next_run := Some (tl_show T now)\<rparr>))"
    using mark_run_state [OF conjunct1 [OF tr] assms(11)] assms(5,10) by auto
  have "done_at < t" if f: "fires T t tz j2"
  proof -
    obtain n u where n: "je_next_run j2 = Some n" "tl_parse T n = Some u" "u \<le> t"
      using f by (auto simp: fires_def is_due_def Option.bind_eq_Some_conv split: option.splits)
    with j2(2) have "compute_next_run T done_at (Some spec) (Some (tl_show T done_at))
         (job_tz (sc_tz s1) (j\<lparr>je_next_run := Some (tl_show T now)\<rparr>)) = Some n" by simp
    from next_run_later [OF assms(1) order_trans [OF assms(2,7)] assms(8,9) this] n show ?thesis by auto
  qed
  with a j2(1) show ?thesis by blast
qed

subsection \<open>Alerts\<close>

lemma cooldown_small: "n \<le> 9223372036854775 \<Longrightarrow> cooldown_duration n = Ret (int n * 1000000000)"
proof -
  assume n: "n \<le> 9223372036854775"
  have "sint (of_nat n :: 64 word) = signed_take_bit 63 (int n)" using sint_word64 [of "int n"] by simp
  also have "\<dots> = int n" using n by (simp add: signed_take_bit_int_eq_self_iff)
  finally show ?thesis using n by (simp add: cooldown_duration_def)
qed

lemma cooldown_huge: "9223372036854775 < n \<Longrightarrow> n < 2 ^ 63 \<Longrightarrow> cooldown_duration n = Panic"
proof -
  assume n: "9223372036854775 < n" "n < 2 ^ 63"
  have "sint (of_nat n :: 64 word) = signed_take_bit 63 (int n)" using sint_word64 [of "int n"] by simp
  also have "\<dots> = int n" using n by (simp add: signed_take_bit_int_eq_self_iff)
  finally show ?thesis using n by (simp add: cooldown_duration_def)
qed

lemma alert_sent:
  assumes "find_job i s = Some j" "mark_run_result S T io log_ok now i r s = (Ret (Some m), s1)"
  shows "\<exists>a j1. je_alert j = Some a \<and> should_alert T now a (je_last_alert j) = Ret True \<and> find_job i s1 = Some j1
    \<and> je_alert j1 = Some a \<and> je_last_alert j1 = Some (tl_show T now)"
proof -
  let ?j = "mark_timing T now (sc_tz s) r j"
  have id: "je_id j = i" by (rule find_job_id [OF assms(1)])
  have f: "je_alert ?j = je_alert j" "je_last_alert ?j = je_last_alert j" by (simp_all add: mark_timing_def)
  obtain j2 where c: "check_alert T now r ?j = Ret (Some m, j2)"
    and s1: "find_job i s1 = find_job i (change_job i (\<lambda>_. count_run r j2) s)"
    using assms by (auto simp: mark_run_result_def Let_def find_job_def split: run.splits prod.splits)
  from c f obtain a where a: "je_alert j = Some a" "should_alert T now a (je_last_alert j) = Ret True"
      "j2 = ?j\<lparr>je_last_alert := Some (tl_show T now)\<rparr>"
    by (cases "should_alert T now (the (je_alert j)) (je_last_alert j)")
      (auto simp: check_alert_def map_run_def split: option.splits if_splits)
  have "find_job i s1 = Some (count_run r j2)"
    using assms(1) s1 id a(3) by (simp add: find_change_job)
  moreover have "je_alert (count_run r j2) = Some a" "je_last_alert (count_run r j2) = Some (tl_show T now)"
    using a f by (simp_all add: count_run_def Let_def)
  ultimately show ?thesis using a by blast
qed

text \<open>Two failure alerts of a job are at least the configured cooldown apart, for every cooldown the clock library can represent.\<close>

theorem alerts_keep_cooldown:
  assumes "time_ok T" "0 \<le> t1" "t1 < last_milli * 1000000"
    and "find_job i s = Some j" "je_alert j = Some a" "fa_cooldown a \<le> 9223372036854775"
    and "mark_run_result S T io log_ok t1 i r1 s = (Ret (Some m1), s1)"
    and "mark_run_result S T io' log_ok' t2 i r2 s1 = (Ret (Some m2), s2)"
  shows "t2 - t1 \<ge> int (fa_cooldown a) * 1000000000"
proof -
  obtain j1 where j1: "find_job i s1 = Some j1" "je_alert j1 = Some a" "je_last_alert j1 = Some (tl_show T t1)"
    using alert_sent [OF assms(4,7)] assms(5) by auto
  have "should_alert T t2 a (Some (tl_show T t1)) = Ret True" using alert_sent [OF j1(1) assms(8)] j1 by auto
  then show ?thesis
    using assms(6) time_okD(1) [OF assms(1-3)] by (simp add: should_alert_def cooldown_small map_run_def)
qed

text \<open>A cooldown that is too large for the clock library (the tool accepts any number) makes the second failure past the threshold panic: the run leaves no trace on the disk, and neither its answer nor an alert is sent.\<close>

theorem huge_cooldown_loses_run:
  assumes "find_job (ct_job t) s = Some j" "je_alert j = Some a" "je_last_alert j = Some x"
    and "9223372036854775 < fa_cooldown a" "fa_cooldown a < 2 ^ 63" "fa_after a \<le> je_errors j + 1"
  shows "\<exists>s1. finish_cron_task S T io log_ok channels now ms t (Inl e) s = ([], s1) \<and> sc_disk s1 = sc_disk s"
proof -
  let ?r = "cron_record T now ms (Inl e :: utext + utext)"
  let ?j = "mark_timing T now (sc_tz s) ?r j"
  have "rr_status ?r = Run_Error"
    by (simp add: cron_record_def with_trigger_def with_error_def with_duration_def run_record_now_def)
  then have "je_errors ?j = je_errors j + 1" "je_alert ?j = Some a" "je_last_alert ?j = Some x"
    using assms(2,3) by (simp_all add: mark_timing_def count_status_def)
  then have "check_alert T now ?r ?j = Panic"
    using assms(4-6) by (simp add: check_alert_def should_alert_def cooldown_huge map_run_def)
  then have "mark_run_result S T io log_ok now (ct_job t) ?r s = (Panic, change_job (ct_job t) (\<lambda>_. ?j) s)"
    using assms(1) by (simp add: mark_run_result_def)
  then show ?thesis by (simp add: finish_cron_task_def)
qed

subsection \<open>Targets\<close>

text \<open>A job that injects into a user's session and delivers to a named account talks to two different people's sessions: the turn runs in the session of the account called default, the answer goes out through the account that was configured.\<close>

theorem injected_into_default_account:
  assumes "dl_mode d = Mode_Fixed" "dl_channel d = Some ch" "dl_account d = Some acc" "dl_to d = Some u"
    and "ct_policy t = Inject" "ct_target t = cron_delivery_fields d" "channels (ch, acc)"
  shows "effective_session_key so t = ch @ [58] @ default_account @ [58] @ u
    \<and> map og_account (send_to_target_internal channels so (ct_target t) content) = [acc]"
  using assms
  by (simp add: effective_session_key_def resolve_user_routing_key_def cron_delivery_fields_def send_to_target_internal_def)

subsection \<open>Instances\<close>

text \<open>A store whose files hold an id behind one character, and jobs that differ in their id only.\<close>

definition plain_job :: "string \<Rightarrow> job_entry" where
  "plain_job i = markdown_job i (cps ''0 0 9 * * *'') [112] [110] [] None"

definition plain_store :: store_lib where
  "plain_store =
     \<lparr>sl_value = (\<lambda>t. case t of [] \<Rightarrow> None | _ # r \<Rightarrow> Some (JObject [(cps ''id'', JString r)])),
      sl_job = (\<lambda>v. map_option (\<lambda>t. plain_job (map char_of t)) (get_str v ''id'')),
      sl_jobs = (\<lambda>v. Some [plain_job ''old'']), sl_show = (\<lambda>j. 7 # cps (je_id j)), sl_delivery = (\<lambda>_. JNull),
      sl_record = (\<lambda>_. None), sl_show_record = (\<lambda>_. [])\<rparr>"

lemma plain_job_simps [simp]:
  "je_id (plain_job i) = i" "je_schedule (plain_job i) = Some (cron_spec (cps ''0 0 9 * * *''))" "je_enabled (plain_job i)"
  "je_last_run (plain_job i) = None" "je_name (plain_job i) = Some [110]" "je_hours (plain_job i) = None"
  "je_tz (plain_job i) = None" "je_max_runs (plain_job i) = None"
  by (simp_all add: plain_job_def markdown_job_def)

lemma plain_store_simps [simp]:
  "sl_value plain_store [] = None" "sl_value plain_store (c # r) = Some (JObject [(cps ''id'', JString r)])"
  "sl_job plain_store v = map_option (\<lambda>t. plain_job (map char_of t)) (get_str v ''id'')"
  "sl_jobs plain_store v = Some [plain_job ''old'']" "sl_show plain_store j = 7 # cps (je_id j)"
  by (simp_all add: plain_store_def)

lemma plain_load: "load_meta plain_store U (Meta (7 # cps i)) = Some (plain_job i)"
proof -
  have k: "cps ''id'' \<noteq> cps ''schedule_kind''" "cps ''id'' \<noteq> cps ''schedule''" "cps ''id'' \<noteq> cps ''delivery''" "cps ''id'' \<noteq> cps ''mode''"
    "cps ''id'' \<noteq> cps ''target''"
    by (simp_all add: cps_def)
  have f1: "fold_one_schedule_kind (JObject [(cps ''id'', JString (cps i))]) = JObject [(cps ''id'', JString (cps i))]"
    using k by (simp add: fold_one_schedule_kind_def remove_key_def)
  have f2: "fold_one_target_delivery plain_store (JObject [(cps ''id'', JString (cps i))]) = JObject [(cps ''id'', JString (cps i))]"
    using k by (simp add: fold_one_target_delivery_def get_str_def)
  have b: "\<not> blank_name (Some [110])" by (simp add: blank_name_def trim_def trim_start_def trim_end_def trim_start_of_def trim_end_of_def is_space_def)
  have g: "get_str (JObject [(cps ''id'', JString (cps i))]) ''id'' = Some (cps i)" by (simp add: get_str_def)
  have c: "map char_of (cps i) = i" by (simp add: cps_def comp_def)
  show ?thesis
    using b by (simp add: load_meta_def f1 f2 g c)
qed

lemma plain_keeps_ids: "keeps_ids plain_store U"
  by (simp add: keeps_ids_def plain_load)

text \<open>One job, in memory and on the disk.\<close>

definition plain_disk :: "utext option \<Rightarrow> jobs_disk" where
  "plain_disk legacy = \<lparr>jk_dirs = [(''a'', \<lparr>jd_meta = Meta (7 # cps ''a''), jd_log = None\<rparr>)], jk_mtime = Some 0,
     jk_shared = Map.empty, jk_legacy = legacy\<rparr>"

definition plain_sched :: "utext option \<Rightarrow> job_entry \<Rightarrow> sched" where
  "plain_sched legacy j =
     \<lparr>sc_jobs = [j], sc_disk = plain_disk legacy, sc_last_mtime = Some 0, sc_tz = [], sc_distill = None, sc_proposer = None,
      sc_last_inbound = 0, sc_events = [], sc_closed = False, sc_last_channel = None, sc_last_recipient = None,
      sc_channel_file = [], sc_recipient_file = []\<rparr>"

lemma clean_good: "clean_io good_io"
  by (simp add: clean_io_def good_io_def)

lemma good_saves: "jk_mtime (sc_disk s) \<noteq> None \<Longrightarrow> fst (persist_jobs S good_io s)"
proof -
  have "fst (write_jobs S good_io js d)" for js d
    by (induction js arbitrary: d) (simp_all add: good_io_def Let_def)
  then show "fst (persist_jobs S good_io s)"
    by (auto simp: persist_jobs_def save_to_disk_def good_io_def Let_def split: prod.split bool.split) (metis fst_conv)+
qed

lemma fst_case_pair: "fst (case p of (ok, x) \<Rightarrow> (if ok then a else b, x)) = (if fst p then a else b)"
  by (cases p) simp

lemma good_update:
  assumes "find_job i s = Some j" "jk_mtime (sc_disk s) \<noteq> None"
    and "ju_trigger_now u \<longrightarrow> je_enabled (update_fields T now (sc_tz s) u j) \<and> je_schedule (update_fields T now (sc_tz s) u j) \<noteq> None"
  shows "\<exists>s1. update_job S T good_io now i u s = (Inr True, s1)"
proof -
  have "fst (update_job S T good_io now i u s) = Inr True"
    using assms by (simp add: update_job_def Let_def fst_case_pair good_saves)
  then show ?thesis by (metis prod.collapse)
qed

lemma plain_remove: "\<exists>a s1. remove_job plain_store good_io ''a'' (plain_sched legacy (plain_job ''a'')) = (Inr (Some a), s1)"
proof -
  let ?s = "plain_sched legacy (plain_job ''a'')"
  have "fst (persist_jobs plain_store good_io (?s\<lparr>sc_jobs := []\<rparr>))"
    by (rule good_saves) (simp add: plain_sched_def plain_disk_def)
  moreover have "find_job ''a'' ?s = Some (plain_job ''a'')" "filter (\<lambda>j. je_id j \<noteq> ''a'') (sc_jobs ?s) = []" "length (sc_jobs ?s) = 1"
    by (simp_all add: find_job_def plain_sched_def)
  ultimately show ?thesis
    by (auto simp: remove_job_def removal_audit_of_def remove_found_def split: prod.splits)
qed

lemma timer_moves_on_witness:
  "fires plain_time 1000000000 [] (mark_fired plain_time 0 [] (plain_job ''a'')) \<and> (0::int) < 1000000000"
proof -
  have n: "normalize_weekday_unix (cps ''0 0 9 * * *'') = cps ''0 0 9 * * *''"
    by (simp add: normalize_weekday_unix_def cps_def is_space_def)
  have l: "length (split_ws (cps ''0 0 9 * * *'')) = 6" by (simp add: cps_def is_space_def)
  have s: "spec_kind (cron_spec (cps ''0 0 9 * * *'')) = Cron (cps ''0 0 9 * * *'')" by (simp add: cron_spec_def)
  have f: "fires plain_time 1000000000 [] (mark_fired plain_time 0 [] (plain_job ''a''))"
    by (simp add: fires_def is_due_def mark_fired_def compute_next_run_def s n l plain_time_def last_milli_def
        last_run_time_def is_active_hours_def job_tz_def)
  moreover have "(0::int) < 1000000000"
    by (rule timer_moves_on [OF plain_time_ok _ _ _ _ f, of "cron_spec (cps ''0 0 9 * * *'')"]) (simp_all add: last_milli_def moves_on_def cron_spec_def)
  ultimately show ?thesis by blast
qed

definition every_job :: "nat \<Rightarrow> job_entry" where
  "every_job ms = (plain_job ''a'')\<lparr>je_schedule := Some (Kind (Every ms))\<rparr>"

lemma huge_interval_fires_every_tick_witness:
  "fires plain_time 5000000 [] (mark_fired plain_time 5000000 [] (every_job (2 ^ 64 - 1)))"
  using huge_interval_fires_every_tick [OF plain_time_ok, of 5000000 "every_job (2 ^ 64 - 1)" "Kind (Every (2 ^ 64 - 1))" "2 ^ 64 - 1" "[]"]
  by (simp add: every_job_def last_milli_def is_active_hours_def)

lemma rescheduled_at_never_fires_witness:
  "\<exists>s1. \<exists>j1. find_job ''a'' s1 = Some j1 \<and> je_schedule j1 = Some (Kind (At [9])) \<and> \<not> fires plain_time 99 [] j1"
proof -
  let ?s = "plain_sched None ((plain_job ''a'')\<lparr>je_last_run := Some [1]\<rparr>)"
  let ?u = "no_update\<lparr>ju_schedule := Some (Some (Kind (At [9]))), ju_schedule_changed := True\<rparr>"
  have j: "find_job ''a'' ?s = Some ((plain_job ''a'')\<lparr>je_last_run := Some [1]\<rparr>)" by (simp add: find_job_def plain_sched_def)
  have "\<exists>s1. update_job plain_store plain_time good_io 5 ''a'' ?u ?s = (Inr True, s1)"
    by (rule good_update [OF j]) (simp_all add: plain_sched_def plain_disk_def)
  then obtain s1 where "update_job plain_store plain_time good_io 5 ''a'' ?u ?s = (Inr True, s1)" by blast
  from rescheduled_at_never_fires [OF j _ this, of 99 "[]"] show ?thesis by auto
qed

definition plain_run :: sched_run where
  "plain_run = \<lparr>sr_s = plain_sched None (plain_job ''a''), sr_phase = Waiting, sr_running = [], sr_now = 0, sr_out = []\<rparr>"


lemma last_removal_revives_legacy_witness:
  "\<exists>s1. sc_jobs (snd (tick_begin plain_store string_uuid plain_time good_io True 7 s1)) = [plain_job ''old'']"
proof -
  let ?s = "plain_sched (Some [1]) (plain_job ''a'')"
  obtain a s1 where r: "remove_job plain_store good_io (je_id (plain_job ''a'')) ?s = (Inr (Some a), s1)"
    using plain_remove [of "Some [1]"] by (simp only: plain_job_simps) blast
  have l: "load_legacy plain_store (sc_disk ?s) = Some [plain_job ''old'']"
    by (simp add: load_legacy_def plain_sched_def plain_disk_def normalize_schedule_specs_def normalize_spec_def)
      (simp add: plain_job_def markdown_job_def cron_spec_def)
  have "sc_jobs (snd (tick_begin plain_store string_uuid plain_time good_io True 7 s1)) = [plain_job ''old'']"
    by (rule last_removal_revives_legacy [OF _ l _ _ _ _ clean_good r]) (auto simp: plain_sched_def plain_disk_def)
  then show ?thesis by blast
qed

lemma malformed_job_deleted_witness:
  "\<exists>s1::sched. find_dir ''b'' (sc_disk s1) = None"
proof -
  let ?x = "\<lparr>jd_meta = Meta [], jd_log = Some [7]\<rparr>"
  let ?d = "(plain_disk None)\<lparr>jk_dirs := jk_dirs (plain_disk None) @ [(''b'', ?x)]\<rparr>"
  let ?s = "open_scheduler plain_store string_uuid True [] None None [] [] ?d"
  have b: "load_meta plain_store string_uuid (Meta []) = None" by (simp add: load_meta_def)
  have js: "sc_jobs ?s = [plain_job ''a'']"
    by (simp add: open_scheduler_def load_store_def load_jobs_from_dirs_def plain_disk_def plain_load [simplified] map_filter_def b Let_def)
  have nb: "\<forall>j \<in> set (sc_jobs ?s). dir_name (je_id j) \<noteq> ''b''"
    by (simp add: js dir_name_def)
  have n: "\<not> blank_name (je_name (plain_job ''c''))"
    by (simp add: blank_name_def trim_def trim_start_def trim_end_def trim_start_of_def trim_end_of_def is_space_def)
  have "fst (persist_jobs plain_store good_io (?s\<lparr>sc_jobs := js\<rparr>))" for js
    by (rule good_saves) (simp add: open_scheduler_def plain_disk_def Let_def)
  then have "fst (add_job plain_store plain_time good_io 5 ''d'' (plain_job ''c'') ?s) = Inr ''c''"
    using n by (simp add: add_job_def Let_def fst_case_pair)
  then obtain s1 where a: "add_job plain_store plain_time good_io 5 ''d'' (plain_job ''c'') ?s = (Inr ''c'', s1)"
    by (metis prod.collapse)
  have "find_dir ''b'' ?d \<noteq> None \<and> find_dir ''b'' (sc_disk s1) = None"
    by (rule malformed_job_deleted [OF _ _ _ refl nb clean_good a, of ?x]) (auto simp: plain_disk_def dir_name_def)
  then show ?thesis by blast
qed

lemma manual_trigger_lost_witness:
  "\<exists>s1 s2. (\<exists>j1. find_job ''a'' s1 = Some j1 \<and> is_due plain_time 5000000 j1)
     \<and> (\<exists>j2. find_job ''a'' s2 = Some j2 \<and> \<not> fires plain_time 6000000 [] j2)"
proof -
  let ?s = "plain_sched None (every_job 60000)" and ?u = "no_update\<lparr>ju_trigger_now := True\<rparr>"
  have j: "find_job ''a'' ?s = Some (every_job 60000)" by (simp add: find_job_def plain_sched_def every_job_def)
  have "\<exists>s1. update_job plain_store plain_time good_io 5000000 ''a'' ?u ?s = (Inr True, s1)"
    by (rule good_update [OF j]) (simp_all add: plain_sched_def plain_disk_def update_trigger_only every_job_def)
  then obtain s1 where u: "update_job plain_store plain_time good_io 5000000 ''a'' ?u ?s = (Inr True, s1)" by blast
  let ?r = "run_record_now plain_time 6000000 Run_Ok"
  obtain res s2 where m: "mark_run_result plain_store plain_time good_io True 6000000 ''a'' ?r s1 = (res, s2)" by fastforce
  have "(\<exists>j1. find_job ''a'' s1 = Some j1 \<and> je_enabled j1 \<and> is_due plain_time 5000000 j1)
    \<and> (\<exists>j2. find_job ''a'' s2 = Some j2 \<and> (fires plain_time 6000000 [] j2 \<longrightarrow> 6000000 < (6000000::int)))"
    by (rule manual_trigger_lost [OF plain_time_ok _ _ j _ u _ _ _ _ m, of "Kind (Every 60000)"])
      (simp_all add: last_milli_def every_job_def moves_on_def run_record_now_def)
  then show ?thesis by auto
qed

definition alert_job :: "nat \<Rightarrow> job_entry" where
  "alert_job n = (plain_job ''a'')\<lparr>je_alert := Some \<lparr>fa_after = 1, fa_cooldown = n, fa_skipped = False\<rparr>, je_last_alert := Some [0]\<rparr>"

lemma huge_cooldown_loses_run_witness:
  "\<exists>s1. finish_cron_task plain_store plain_time good_io True (\<lambda>_. True) 9 0 (trigger_of string_uuid (alert_job (10 ^ 16))) (Inl [101])
     (plain_sched None (alert_job (10 ^ 16))) = ([], s1)"
  using huge_cooldown_loses_run [of "trigger_of string_uuid (alert_job (10 ^ 16))" "plain_sched None (alert_job (10 ^ 16))" "alert_job (10 ^ 16)"
      "\<lparr>fa_after = 1, fa_cooldown = 10 ^ 16, fa_skipped = False\<rparr>" "[0]" plain_store plain_time good_io True "\<lambda>_. True" 9 0 "[101]"]
  by (auto simp: find_job_def plain_sched_def trigger_of_def alert_job_def)

end
