(* ===== verification/Scheduler_Restart.thy ===== *)
theory Scheduler_Restart
  imports Scheduler_Loss
begin

text \<open>
  A restart: what a successful save puts on the disk is what the next start loads, job for job, sorted by id.
\<close>

abbreviation dir_of :: "job_entry \<Rightarrow> string" where
  "dir_of j \<equiv> dir_name (je_id j)"

abbreviation dir_names :: "jobs_disk \<Rightarrow> string list" where
  "dir_names d \<equiv> map fst (jk_dirs d)"

lemma change_dir_names [simp]: "dir_names (change_dir n f d) = dir_names d"
  by (auto simp: change_dir_def comp_def)

lemma put_meta_distinct: "distinct (dir_names d) \<Longrightarrow> distinct (dir_names (put_meta n t d))"
  by (auto simp: put_meta_def touch_dir_def)

lemma write_jobs_distinct: "distinct (dir_names d) \<Longrightarrow> distinct (dir_names (snd (write_jobs S io js d)))"
proof (induction js arbitrary: d)
  case (Cons j js)
  have "distinct (dir_names (touch_dir n d))" for n using Cons.prems by (auto simp: touch_dir_def)
  then show ?case using Cons.IH [OF put_meta_distinct [OF Cons.prems]]
    by (auto simp: Let_def Cons.prems split: option.split write_fault.split)
qed simp

lemma put_meta_names: "fst ` set (jk_dirs (put_meta n t d)) = insert n (fst ` set (jk_dirs d))"
proof -
  have "fst ` set (jk_dirs (change_dir n f e)) = fst ` set (jk_dirs e)" for f e
    by (metis change_dir_names set_map)
  then show ?thesis by (auto simp: put_meta_def touch_dir_def)
qed

text \<open>Each job's directory exists and holds that job.\<close>

lemma write_jobs_has:
  "write_jobs S io js d = (True, d') \<Longrightarrow> dir_of ` set js \<union> fst ` set (jk_dirs d) \<subseteq> fst ` set (jk_dirs d')"
proof (induction js arbitrary: d)
  case (Cons j js)
  have w: "write_jobs S io js (put_meta (dir_of j) (sl_show S j) d) = (True, d')"
    using Cons.prems(1) by (auto simp: Let_def split: option.splits write_fault.splits)
  show ?case using Cons.IH [OF w] by (simp add: put_meta_names)
qed simp

lemma write_jobs_own:
  "write_jobs S io js d = (True, d') \<Longrightarrow> distinct (map dir_of js) \<Longrightarrow> p \<in> set (jk_dirs d') \<Longrightarrow> j \<in> set js \<Longrightarrow> fst p = dir_of j \<Longrightarrow>
     jd_meta (snd p) = Meta (sl_show S j)"
proof (induction js arbitrary: d)
  case (Cons k js)
  let ?d = "put_meta (dir_of k) (sl_show S k) d"
  have w: "write_jobs S io js ?d = (True, d')"
    using Cons.prems(1) by (auto simp: Let_def split: option.splits write_fault.splits)
  show ?case
  proof (cases "j \<in> set js")
    case True
    with Cons.IH [OF w] Cons.prems show ?thesis by simp
  next
    case False
    then have k: "j = k" using Cons.prems(4) by simp
    then have n: "fst p \<notin> dir_of ` set js" using Cons.prems(2,5) by auto
    have "p \<in> set (jk_dirs (snd (write_jobs S io js ?d)))" using w Cons.prems(3) by simp
    from put_meta_dirs [OF write_jobs_frame [OF this n]] Cons.prems(5) k show ?thesis by auto
  qed
qed simp

lemma prune_distinct: "distinct (dir_names d) \<Longrightarrow> distinct (dir_names (prune_dirs io seen d))"
  by (auto simp: prune_dirs_def distinct_map inj_on_def)

lemma put_meta_mtime: "jk_mtime d \<noteq> None \<Longrightarrow> jk_mtime (put_meta n t d) \<noteq> None"
  by (simp add: put_meta_def change_dir_def touch_dir_def bump_def)

lemma write_jobs_mtime: "jk_mtime d \<noteq> None \<Longrightarrow> jk_mtime (snd (write_jobs S io js d)) \<noteq> None"
proof (induction js arbitrary: d)
  case (Cons j js)
  have "jk_mtime (touch_dir n d) \<noteq> None" for n using Cons.prems by (simp add: touch_dir_def bump_def)
  then show ?case using Cons.IH [OF put_meta_mtime [OF Cons.prems]] Cons.prems
    by (auto simp: Let_def split: option.split write_fault.split)
qed simp

lemma save_mtime: "save_to_disk S io js d = (True, d') \<Longrightarrow> jk_mtime d' \<noteq> None"
proof -
  let ?d0 = "if jk_mtime d = None then d\<lparr>jk_mtime := Some 0\<rparr> else d"
  assume "save_to_disk S io js d = (True, d')"
  then obtain d1 where "write_jobs S io js ?d0 = (True, d1)" "d' = prune_dirs io (dir_of ` set js) d1"
    by (auto simp: save_to_disk_def Let_def split: if_splits prod.splits bool.splits)
  moreover have "jk_mtime ?d0 \<noteq> None" by simp
  ultimately show "jk_mtime d' \<noteq> None"
    using write_jobs_mtime [of ?d0 S io js] by (auto simp: prune_dirs_def bump_def)
qed

lemma map_filter_names:
  "(\<And>p j. p \<in> set ps \<Longrightarrow> f p = Some j \<Longrightarrow> g j = fst p) \<Longrightarrow>
     map g (List.map_filter f ps) = map fst (filter (\<lambda>p. f p \<noteq> None) ps)"
  by (induction ps) (auto simp: map_filter_simps split: option.splits)

lemma set_map_filter: "set (List.map_filter f ps) = {j. \<exists>p \<in> set ps. f p = Some j}"
  by (induction ps) (auto simp: map_filter_simps split: option.splits)

lemma sort_key_unique:
  assumes "set xs = set ys" "distinct (map k xs)" "distinct (map k ys)"
  shows "sort_key k xs = sort_key k (ys :: 'b list)"
proof (rule map_sorted_distinct_set_unique [of k])
  show "inj_on k (set (sort_key k xs) \<union> set (sort_key k ys))" using assms by (simp add: distinct_map)
  show "distinct (map k (sort_key k xs))" "distinct (map k (sort_key k ys))"
    using assms(2,3) by (simp_all add: distinct_map)
qed (simp_all add: assms(1))

text \<open>After a successful save, a start on that disk gives back exactly the jobs of memory, each once and sorted by id, whatever the disk held before: the files of other jobs are gone and those of these jobs are read as they were written.\<close>

theorem restart_keeps_jobs:
  assumes "save_to_disk S io js d = (True, d')" "clean_io io" "distinct (dir_names d)" "distinct (map dir_of js)" "js \<noteq> []"
    and "\<forall>j \<in> set js. load_meta S U (Meta (sl_show S j)) = Some j"
  shows "sc_jobs (open_scheduler S U True tz distill proposer cf rf d') = sort_key je_id js"
proof -
  let ?load = "\<lambda>p. load_meta S U (jd_meta (snd p))" and ?seen = "dir_of ` set js"
  obtain d0 where d0: "jk_dirs d0 = jk_dirs d" "fst (write_jobs S io js d0)" "d' = prune_dirs io ?seen (snd (write_jobs S io js d0))"
    using assms(1) save_cases [of d S io js] by (metis (no_types, lifting) fst_conv snd_conv)
  let ?d1 = "snd (write_jobs S io js d0)"
  have w: "write_jobs S io js d0 = (True, ?d1)" using d0(2) by (metis prod.collapse)
  have dist: "distinct (dir_names d')" using assms(3) d0(1,3) write_jobs_distinct [of d0] prune_distinct by simp
  have kept: "kept_dir io ?seen p" if "p \<in> set (jk_dirs d')" for p
    using that assms(2) by (auto simp: d0(3) prune_dirs_def clean_io_def list_all_iff split: if_splits)
  have sub: "p \<in> set (jk_dirs ?d1)" if "p \<in> set (jk_dirs d')" for p
    using that d0(3) prune_dirs_sub(1) by fastforce
  have own: "j \<in> set js \<and> dir_of j = fst p" if p: "p \<in> set (jk_dirs d')" and l: "?load p = Some j" for p j
  proof -
    have "fst p \<in> ?seen" using kept [OF p] l assms(2) by (auto simp: kept_dir_def clean_io_def)
    then obtain k where k: "k \<in> set js" "fst p = dir_of k" by auto
    from write_jobs_own [OF w assms(4) sub [OF p] k] l assms(6) k show ?thesis by simp
  qed
  have all: "\<exists>p \<in> set (jk_dirs d'). ?load p = Some j" if j: "j \<in> set js" for j
  proof -
    have "dir_of j \<in> dir_of ` set js" using j by simp
    then have "dir_of j \<in> fst ` set (jk_dirs ?d1)" using write_jobs_has [OF w] by blast
    then obtain p where p: "p \<in> set (jk_dirs ?d1)" "fst p = dir_of j" by (metis imageE)
    then have "kept_dir io ?seen p" using j by (auto simp: kept_dir_def)
    then have "p \<in> set (jk_dirs d')" using p(1) by (auto simp: d0(3) prune_dirs_def)
    with write_jobs_own [OF w assms(4) p(1) j p(2)] assms(6) j show ?thesis by force
  qed
  let ?L = "List.map_filter ?load (jk_dirs d')"
  have s: "set ?L = set js" using own all by (auto simp: set_map_filter)
  have "map dir_of ?L = map fst (filter (\<lambda>p. ?load p \<noteq> None) (jk_dirs d'))"
    by (rule map_filter_names) (use own in blast)
  then have "distinct (map dir_of ?L)" using dist by (simp add: distinct_map_filter)
  then have "distinct (map je_id ?L)" "distinct (map je_id js)"
    using assms(4) by (auto simp: distinct_map inj_on_def)
  from sort_key_unique [OF s this] have L: "sort_key je_id ?L = sort_key je_id js" .
  have "jk_mtime d' \<noteq> None" using save_mtime [OF assms(1)] .
  moreover have "sort_key je_id js \<noteq> []" using assms(5) by (metis set_empty set_sort)
  ultimately show ?thesis
    by (simp add: open_scheduler_def load_store_def load_jobs_from_dirs_def L Let_def split: list.split)
qed

lemma restart_keeps_jobs_witness:
  "\<exists>d'. sc_jobs (open_scheduler plain_store string_uuid True [] None None [] [] d') = [plain_job ''a'', plain_job ''b'']"
proof -
  let ?js = "[plain_job ''b'', plain_job ''a'']"
  have "fst (save_to_disk plain_store good_io ?js (plain_disk None))"
    by (simp add: save_to_disk_def good_io_def plain_disk_def Let_def)
  then obtain d' where d: "save_to_disk plain_store good_io ?js (plain_disk None) = (True, d')" by (metis prod.collapse)
  have "sc_jobs (open_scheduler plain_store string_uuid True [] None None [] [] d') = sort_key je_id ?js"
    by (rule restart_keeps_jobs [OF d clean_good]) (simp_all add: plain_load plain_disk_def dir_name_def)
  also have "sort_key je_id ?js = [plain_job ''a'', plain_job ''b'']" by (simp add: sort_key_def)
  finally show ?thesis by blast
qed

end
