(* ===== verification/Webhook_Facts.thy ===== *)
theory Webhook_Facts
  imports Webhook Scheduler_Loss
begin

text \<open>
  What the webhook server guarantees over any sequence of requests, turns that end and changes of the jobs: who
  may start a turn, how many requests and turns a route can have, and that a delivery starts one turn.
\<close>

subsection \<open>Credentials\<close>

lemma or_fold_zero:
  "fold (\<lambda>(x, y) d. or d (xor x y)) ps d = (0 :: 'a::len word) \<longleftrightarrow> d = 0 \<and> (\<forall>(x, y) \<in> set ps. x = y)"
proof (induction ps arbitrary: d)
  case (Cons p ps)
  have o: "or a b = 0 \<longleftrightarrow> a = 0 \<and> b = 0" for a b :: "'a word"
    by (metis or.left_neutral or.right_neutral word_bw_same(2) word_oa_dist or_eq_0_iff)
  have x: "xor a b = 0 \<longleftrightarrow> a = b" for a b :: "'a word"
    by (metis xor_self_eq xor.left_neutral xor.assoc xor.right_neutral)
  show ?case by (cases p) (auto simp: Cons.IH o x)
qed simp

lemma ct_equal_iff: "ct_equal a b \<longleftrightarrow> a = b"
proof -
  have "length a = length b \<Longrightarrow> (\<forall>(x, y) \<in> set (zip a b). x = y) \<longleftrightarrow> a = b"
    by (auto simp: set_zip list_eq_iff_nth_eq)
  then show ?thesis by (auto simp: ct_equal_def or_fold_zero)
qed

lemma read_capped_bound: "read_capped buf fs = Inr body \<Longrightarrow> length buf \<le> body_limit \<Longrightarrow> length body \<le> body_limit"
  by (induction buf fs rule: read_capped.induct) (auto split: if_splits)

definition signature_of :: "http_lib \<Rightarrow> utext \<Rightarrow> nat list \<Rightarrow> utext" where
  "signature_of L secret body = cps ''sha256='' @ hex_text (hl_hmac L (encode secret) body)"

text \<open>What the credentials of a request must be: the token of the route, or the signature of the body, with
  a recent time stamp when the request carries one.\<close>

definition authentic :: "http_lib \<Rightarrow> int \<Rightarrow> webhook_job \<Rightarrow> http_request \<Rightarrow> nat list \<Rightarrow> bool" where
  "authentic L now job q body \<longleftrightarrow>
     (case wj_auth job of
        Bearer \<Rightarrow> header q ''Authorization'' = Some (bearer_of (wj_secret job))
      | Hmac \<Rightarrow>
          (case header q ''X-MyClaw-Timestamp'' of
             None \<Rightarrow> map_option byte_words (header q ''X-Hub-Signature-256'') = Some (byte_words (signature_of L (wj_secret job) body))
           | Some ts \<Rightarrow>
               (\<exists>k. skew_of L now ts = Some k \<and> k \<le> max_skew)
               \<and> map_option byte_words (header q ''X-Hub-Signature-256'')
                 = Some (byte_words (signature_of L (wj_secret job) (signed_v2 ts body)))))"

lemma auth_refusal_None:
  "auth_refusal L now job (header q ''X-MyClaw-Timestamp'') (header q ''X-Hub-Signature-256'') (header q ''Authorization'') body = None
     \<longleftrightarrow> authentic L now job q body"
  by (auto simp: auth_refusal_def hmac_refusal_def authentic_def verify_hmac_signature_def signature_of_def ct_equal_iff
      split: webhook_auth.splits option.splits)

lemma accept_turn:
  "accept_delivery L U S T log_ok now job ev body s = (resp, Webhook_Turn j sess p v, s1) \<Longrightarrow>
     j = job \<and> s1 = s \<and> resp = (S202, cps ''accepted'') \<and> sess = job_session U (wj_id job)"
  by (auto simp: accept_delivery_def Let_def split: option.splits)

lemma slot_turn:
  assumes "handle_slot L U S T log_ok now t job q (g, s) = (resp, Webhook_Turn j sess p v, g1, s1)"
  shows "\<exists>body. collect_body_capped q = Inr body \<and> wj_secret job \<noteq> [] \<and> authentic L now job q body \<and> j = job \<and> s1 = s
           \<and> resp = (S202, cps ''accepted'')
           \<and> (case delivery_id q of Some i \<Rightarrow> check_delivery t i g = (True, g1) | None \<Rightarrow> g1 = g)"
  using assms
  by (auto simp: handle_slot_def auth_refusal_None split: if_splits sum.splits option.splits prod.splits bool.splits dest!: accept_turn)

lemma admitted_turn:
  assumes "serve_admitted L U S T log_ok now t job q (g, s) = (resp, Webhook_Turn j sess p v, g1, s1)"
  shows "handle_slot L U S T log_ok now t job q (g, s) = (resp, Webhook_Turn j sess p v, g1, s1)"
  using assms by (auto simp: serve_admitted_def split: prod.splits)

lemma route_turn:
  assumes "handle_route L U S T log_ok now t job q (g, s) = (resp, Webhook_Turn j sess p v, g1, s1)"
  obtains gb where "admit t job q g = (None, gb)"
    "handle_slot L U S T log_ok now t job q (gb, s) = (resp, Webhook_Turn j sess p v, g1, s1)"
  using assms by (auto simp: handle_route_def split: prod.splits option.splits dest: admitted_turn)

lemma hooks_no_turn [simp]:
  "handle_hooks_agent L gs q \<noteq> (r, Webhook_Turn j sess p v)" "handle_hooks_wake L gs q \<noteq> (r, Webhook_Turn j sess p v)"
  by (auto simp: handle_hooks_agent_def handle_hooks_wake_def Let_def split: option.splits)

lemma hook_job_Some: "hook_job q s = Some job \<Longrightarrow> job \<in> set (webhook_jobs s) \<and> hr_path q = cps ''/hooks/'' @ wj_route job"
  by (auto simp: hook_job_def find_Some_iff strip_prefix_def prefix_def split: option.splits if_splits)

lemma request_turn:
  assumes "handle_request L U S T gsec log_ok now t q (g, s) = (r, Webhook_Turn j sess p v, g1, s1)"
  shows "\<exists>resp. r = Some resp \<and> j \<in> set (webhook_jobs s) \<and> hr_path q = cps ''/hooks/'' @ wj_route j
           \<and> handle_route L U S T log_ok now t j q (g, s) = (resp, Webhook_Turn j sess p v, g1, s1)"
proof -
  obtain job resp where j: "hook_job q s = Some job" "r = Some resp"
      and h: "handle_route L U S T log_ok now t job q (g, s) = (resp, Webhook_Turn j sess p v, g1, s1)"
    using assms by (auto simp: handle_request_def split: if_splits option.splits prod.splits)
  have "j = job" using h by (auto elim!: route_turn dest: slot_turn)
  with j h hook_job_Some show ?thesis by blast
qed

text \<open>C38: A request starts the turn of a webhook only if it names the route of a projected job whose secret is not empty, its body is within 256 KB, and its credentials are those of that job: the bearer token, or the HMAC of the body, with a time stamp at most 300 seconds off when it carries one; the answer is then 202 and the jobs are as before.\<close>

theorem webhook_turn_authenticated:
  assumes "handle_request L U S T gsec log_ok now t q (g, s) = (r, Webhook_Turn j sess p v, g1, s1)"
  shows "\<exists>body. j \<in> set (webhook_jobs s) \<and> hr_path q = cps ''/hooks/'' @ wj_route j \<and> wj_secret j \<noteq> []
           \<and> collect_body_capped q = Inr body \<and> length body \<le> body_limit \<and> authentic L now j q body
           \<and> r = Some (S202, cps ''accepted'') \<and> s1 = s"
proof -
  obtain resp where r: "r = Some resp" "j \<in> set (webhook_jobs s)" "hr_path q = cps ''/hooks/'' @ wj_route j"
      "handle_route L U S T log_ok now t j q (g, s) = (resp, Webhook_Turn j sess p v, g1, s1)"
    using request_turn [OF assms] by blast
  obtain gb where "handle_slot L U S T log_ok now t j q (gb, s) = (resp, Webhook_Turn j sess p v, g1, s1)"
    using r(4) by (rule route_turn)
  from slot_turn [OF this] obtain body where b: "collect_body_capped q = Inr body" "wj_secret j \<noteq> []" "authentic L now j q body"
      "s1 = s" "resp = (S202, cps ''accepted'')" by blast
  moreover have "length body \<le> body_limit"
    using b(1) read_capped_bound [of "[]" "hr_frames q" body] by (simp add: collect_body_capped_def split: if_splits)
  ultimately show ?thesis using r by blast
qed

subsection \<open>Slots\<close>

text \<open>A bounded resource held by turns: taking a slot fails at the cap and counts one more, giving it back counts one less.\<close>

locale bounded_slots =
  fixes take_slot :: "'r \<Rightarrow> 'g \<Rightarrow> bool \<times> 'g"
    and give_slot :: "'r \<Rightarrow> 'g \<Rightarrow> 'g"
    and held :: "'g \<Rightarrow> 'r \<Rightarrow> nat"
    and cap :: nat
  assumes taken: "take_slot r g = (True, g') \<Longrightarrow> held g' = (held g)(r := held g r + 1) \<and> held g r < cap"
    and refused: "take_slot r g = (False, g') \<Longrightarrow> g' = g"
    and given: "held (give_slot r g) = (held g)(r := held g r - 1)"
begin

text \<open>The holders of a slot, as the list of their routes.\<close>

definition balanced :: "'g \<Rightarrow> 'r list \<Rightarrow> bool" where
  "balanced g rs \<longleftrightarrow> (\<forall>r. held g r = count_list rs r \<and> count_list rs r \<le> cap)"

lemma balanced_take: "balanced g rs \<Longrightarrow> take_slot r g = (True, g') \<Longrightarrow> balanced g' (r # rs)"
  using taken [of r g g'] by (auto simp: balanced_def)

lemma balanced_give:
  assumes "balanced g rs" "\<And>r'. count_list rs r' = count_list (r # rs') r'"
  shows "balanced (give_slot r g) rs'"
  unfolding balanced_def
proof
  fix r'
  have "held g r' = count_list (r # rs') r'" "count_list (r # rs') r' \<le> cap" using assms by (auto simp: balanced_def)
  then show "held (give_slot r g) r' = count_list rs' r' \<and> count_list rs' r' \<le> cap"
    using given [of r g] by (auto split: if_splits)
qed

lemma balanced_refused: "balanced g rs \<Longrightarrow> take_slot r g = (False, g') \<Longrightarrow> balanced g' rs"
  using refused [of r g g'] by simp

lemma balanced_perm: "balanced g rs \<Longrightarrow> (\<And>r. count_list rs r = count_list rs' r) \<Longrightarrow> balanced g rs'"
  by (simp add: balanced_def)

lemma balanced_cong: "balanced g rs \<Longrightarrow> held g' = held g \<Longrightarrow> balanced g' rs"
  by (simp add: balanced_def)

end

interpretation slots: bounded_slots acquire release wg_inflight concurrency_max
  by unfold_locales (auto simp: acquire_def release_def split: if_splits)

subsection \<open>Runs of the server\<close>

text \<open>A request is two sections, before and after its body was read; in between, and while its turn runs, it may be
  dropped.  \<open>Hook_Jobs\<close> is what the other components do to the scheduler.\<close>

datatype hook_op =
    Hook_Request http_request int
  | Hook_Body nat int int bool
  | Hook_Drop nat
  | Hook_Finish nat "utext + utext" int nat bool
  | Hook_Abort nat
  | Hook_Jobs sched

record hook_run =
  hk_guard :: guard
  hk_s :: sched
  hk_open :: "(webhook_job \<times> http_request) list"
  hk_running :: "(webhook_job \<times> utext \<times> json) list"
  hk_started :: "(utext option \<times> int) list"
  hk_out :: "outgoing list"

definition start_hooks :: "sched \<Rightarrow> hook_run" where
  "start_hooks s = \<lparr>hk_guard = empty_guard, hk_s = s, hk_open = [], hk_running = [], hk_started = [], hk_out = []\<rparr>"

definition drop_nth :: "nat \<Rightarrow> 'a list \<Rightarrow> 'a list" where
  "drop_nth n xs = take n xs @ drop (Suc n) xs"

definition for_route :: "http_request \<Rightarrow> bool" where
  "for_route q \<longleftrightarrow> hr_post q \<and> hr_path q \<noteq> cps ''/hooks/agent'' \<and> hr_path q \<noteq> cps ''/hooks/wake''"

fun hook_step ::
  "http_lib \<Rightarrow> 'u uuid_lib \<Rightarrow> store_lib \<Rightarrow> ('z, 'c) time_lib \<Rightarrow> (utext \<times> utext \<Rightarrow> bool) \<Rightarrow> hook_op \<Rightarrow> hook_run \<Rightarrow> hook_run" where
  "hook_step L U S T channels (Hook_Request q t) h =
     (case (if for_route q then hook_job q (hk_s h) else None) of
        None \<Rightarrow> h
      | Some job \<Rightarrow>
          (case admit t job q (hk_guard h) of
             (Some resp, g) \<Rightarrow> h\<lparr>hk_guard := g\<rparr>
           | (None, g) \<Rightarrow> h\<lparr>hk_guard := g, hk_open := (job, q) # hk_open h\<rparr>))"
| "hook_step L U S T channels (Hook_Body n now t log_ok) h =
     (if n < length (hk_open h) then
        (case hk_open h ! n of (job, q) \<Rightarrow>
           (case serve_admitted L U S T log_ok now t job q (hk_guard h, hk_s h) of
              (resp, e, g, s) \<Rightarrow>
                (let h1 = h\<lparr>hk_guard := g, hk_s := s, hk_open := drop_nth n (hk_open h)\<rparr> in
                 case e of
                   Webhook_Turn j _ p v \<Rightarrow>
                     h1\<lparr>hk_running := (j, p, v) # hk_running h, hk_started := hk_started h @ [(delivery_id q, t)]\<rparr>
                 | _ \<Rightarrow> h1)))
      else h)"
| "hook_step L U S T channels (Hook_Drop n) h =
     (if n < length (hk_open h) then
        h\<lparr>hk_guard := release (wj_route (fst (hk_open h ! n))) (hk_guard h), hk_open := drop_nth n (hk_open h)\<rparr>
      else h)"
| "hook_step L U S T channels (Hook_Finish n result now ms log_ok) h =
     (if n < length (hk_running h) then
        (case hk_running h ! n of (j, p, v) \<Rightarrow>
           (case finish_webhook_turn L S T channels log_ok now ms j p v result (hk_guard h, hk_s h) of
              (out, g, s) \<Rightarrow>
                h\<lparr>hk_guard := g, hk_s := s, hk_running := drop_nth n (hk_running h), hk_out := hk_out h @ out\<rparr>))
      else h)"
| "hook_step L U S T channels (Hook_Abort n) h =
     (if n < length (hk_running h) then
        h\<lparr>hk_guard := release (wj_route (fst (hk_running h ! n))) (hk_guard h), hk_running := drop_nth n (hk_running h)\<rparr>
      else h)"
| "hook_step L U S T channels (Hook_Jobs s) h = h\<lparr>hk_s := s\<rparr>"

definition run_hooks ::
  "http_lib \<Rightarrow> 'u uuid_lib \<Rightarrow> store_lib \<Rightarrow> ('z, 'c) time_lib \<Rightarrow> (utext \<times> utext \<Rightarrow> bool) \<Rightarrow> hook_op list \<Rightarrow> hook_run \<Rightarrow> hook_run" where
  "run_hooks L U S T channels ops h = fold (hook_step L U S T channels) ops h"

definition route_list :: "hook_run \<Rightarrow> utext list" where
  "route_list h = map (\<lambda>x. wj_route (fst x)) (hk_open h) @ map (\<lambda>x. wj_route (fst x)) (hk_running h)"

lemma rate_inflight: "check_rate t r ip g = (ok, g') \<Longrightarrow> wg_inflight g' = wg_inflight g \<and> wg_deliveries g' = wg_deliveries g"
  by (auto simp: check_rate_def Let_def split: if_splits)

lemma delivery_inflight: "check_delivery t i g = (ok, g') \<Longrightarrow> wg_inflight g' = wg_inflight g \<and> wg_rate g' = wg_rate g"
  by (auto simp: check_delivery_def Let_def split: if_splits)

lemma slot_frame:
  assumes "handle_slot L U S T log_ok now t job q (g, s) = (resp, e, g1, s1)"
  shows "wg_inflight g1 = wg_inflight g \<and> wg_rate g1 = wg_rate g"
  using assms
  by (auto simp: handle_slot_def dest!: delivery_inflight
      split: if_splits sum.splits option.splits prod.splits bool.splits)

lemma admit_balanced:
  assumes "admit t job q g = (x, g1)" "slots.balanced g rs"
  shows "slots.balanced g1 (if x = None then wj_route job # rs else rs)"
proof -
  obtain ok ga where r: "check_rate t (wj_route job) (hr_ip q) g = (ok, ga)" by fastforce
  obtain ok2 gb where a: "acquire (wj_route job) ga = (ok2, gb)" by fastforce
  have ga: "slots.balanced ga rs" using slots.balanced_cong [OF assms(2)] rate_inflight [OF r] by blast
  then have "ok2 \<Longrightarrow> slots.balanced gb (wj_route job # rs)" "\<not> ok2 \<Longrightarrow> slots.balanced gb rs"
    using slots.balanced_take [OF ga] slots.balanced_refused [OF ga] a by simp_all
  with assms ga r a show ?thesis
    by (cases ok; cases ok2) (auto simp: admit_def split: if_splits)
qed

lemma served_balanced:
  assumes "serve_admitted L U S T log_ok now t job q (g, s) = (resp, e, g1, s1)" "slots.balanced g rs"
    and "\<And>r. count_list rs r = count_list (wj_route job # rs') r"
  shows "slots.balanced g1 (case e of Webhook_Turn j _ _ _ \<Rightarrow> wj_route j # rs' | _ \<Rightarrow> rs')"
proof -
  obtain resp2 e2 gc s2 where k: "handle_slot L U S T log_ok now t job q (g, s) = (resp2, e2, gc, s2)" by (metis prod_cases4)
  have gc: "slots.balanced gc rs" using slots.balanced_cong [OF assms(2)] slot_frame [OF k] by blast
  have e: "e = e2" "g1 = (case e2 of Webhook_Turn _ _ _ _ \<Rightarrow> gc | _ \<Rightarrow> release (wj_route job) gc)"
    using assms(1) k by (auto simp: serve_admitted_def)
  show ?thesis
  proof (cases e2)
    case (Webhook_Turn j x p v)
    then have "j = job" using slot_turn k by blast
    with slots.balanced_perm [OF gc assms(3)] e Webhook_Turn show ?thesis by simp
  qed (use slots.balanced_give [OF gc assms(3)] e in simp_all)
qed

lemma count_drop_nth:
  assumes "n < length xs"
  shows "count_list (map f xs) r = count_list (f (xs ! n) # map f (drop_nth n xs)) r"
proof -
  have "map f xs = map f (take n xs) @ f (xs ! n) # map f (drop (Suc n) xs)"
    using assms by (metis id_take_nth_drop list.simps(9) map_append)
  then have "count_list (map f xs) r = count_list (map f (take n xs) @ f (xs ! n) # map f (drop (Suc n) xs)) r" by simp
  then show ?thesis by (simp add: drop_nth_def)
qed

lemma step_balanced:
  assumes "slots.balanced (hk_guard h) (route_list h)"
  shows "slots.balanced (hk_guard (hook_step L U S T channels x h)) (route_list (hook_step L U S T channels x h))"
proof -
  let ?o = "map (\<lambda>x. wj_route (fst x)) (hk_open h)" and ?r = "map (\<lambda>x. wj_route (fst x)) (hk_running h)"
  have b: "slots.balanced (hk_guard h) (?o @ ?r)" using assms by (simp add: route_list_def)
  have o: "count_list (?o @ ?r) r
      = count_list (wj_route (fst (hk_open h ! n)) # map (\<lambda>x. wj_route (fst x)) (drop_nth n (hk_open h)) @ ?r) r"
    if "n < length (hk_open h)" for n r
    using count_drop_nth [OF that, of "\<lambda>x. wj_route (fst x)" r] by simp
  have r: "count_list (?o @ ?r) r
      = count_list (wj_route (fst (hk_running h ! n)) # ?o @ map (\<lambda>x. wj_route (fst x)) (drop_nth n (hk_running h))) r"
    if "n < length (hk_running h)" for n r
    using count_drop_nth [OF that, of "\<lambda>x. wj_route (fst x)" r] by simp
  show ?thesis
  proof (cases x)
    case (Hook_Request q t)
    show ?thesis
    proof (cases "if for_route q then hook_job q (hk_s h) else None")
      case None
      with assms Hook_Request show ?thesis by simp
    next
      case (Some job)
      obtain y g where a: "admit t job q (hk_guard h) = (y, g)" by fastforce
      from admit_balanced [OF a b] Some Hook_Request a show ?thesis by (cases y) (simp_all add: route_list_def)
    qed
  next
    case (Hook_Body n now t log_ok)
    show ?thesis
    proof (cases "n < length (hk_open h)")
      case True
      obtain job q where j: "hk_open h ! n = (job, q)" by fastforce
      obtain resp e g s where a: "serve_admitted L U S T log_ok now t job q (hk_guard h, hk_s h) = (resp, e, g, s)"
        by (metis prod_cases4)
      let ?d = "map (\<lambda>x. wj_route (fst x)) (drop_nth n (hk_open h)) @ ?r"
      have bal: "slots.balanced g (case e of Webhook_Turn j _ _ _ \<Rightarrow> wj_route j # ?d | _ \<Rightarrow> ?d)"
        by (rule served_balanced [OF a b]) (use o [OF True] j in simp)
      show ?thesis
      proof (cases e)
        case (Webhook_Turn k y p v)
        have "slots.balanced g (wj_route k # ?d)" using bal Webhook_Turn by simp
        then have "slots.balanced g (map (\<lambda>x. wj_route (fst x)) (drop_nth n (hk_open h)) @ wj_route k # ?r)"
          by (rule slots.balanced_perm) simp
        with Hook_Body True j a Webhook_Turn show ?thesis by (simp add: route_list_def)
      qed (use Hook_Body True j a bal in \<open>simp_all add: route_list_def\<close>)
    qed (use Hook_Body assms in simp)
  next
    case (Hook_Drop n)
    with slots.balanced_give [OF b o [of n]] assms show ?thesis by (simp add: route_list_def)
  next
    case (Hook_Finish n result now ms log_ok)
    with slots.balanced_give [OF b r [of n]] assms show ?thesis
      by (auto simp: route_list_def finish_webhook_turn_def Let_def split: prod.split)
  next
    case (Hook_Abort n)
    with slots.balanced_give [OF b r [of n]] assms show ?thesis by (simp add: route_list_def)
  qed (use assms in \<open>simp add: route_list_def\<close>)
qed

lemma count_list_filter: "count_list (map f xs) r = length (filter (\<lambda>x. f x = r) xs)"
  by (induction xs) auto

text \<open>C39: Whatever requests arrive, end, are dropped while their body is read, are refused or start a turn, and however the turns end or die while the jobs change: the slots a route holds are exactly its requests that are being read and its turns that run, and these are never more than eight.  No branch of the handler leaks a slot or gives one back twice.\<close>

theorem webhook_slots_balanced:
  "let h = run_hooks L U S T channels ops (start_hooks s) in
     wg_inflight (hk_guard h) r
       = length (filter (\<lambda>x. wj_route (fst x) = r) (hk_open h)) + length (filter (\<lambda>x. wj_route (fst x) = r) (hk_running h))
     \<and> wg_inflight (hk_guard h) r \<le> 8"
proof -
  have "slots.balanced (hk_guard (fold (hook_step L U S T channels) ops h)) (route_list (fold (hook_step L U S T channels) ops h))"
    if "slots.balanced (hk_guard h) (route_list h)" for h
    using that by (induction ops arbitrary: h) (simp_all add: step_balanced)
  moreover have "slots.balanced (hk_guard (start_hooks s)) (route_list (start_hooks s))"
    by (simp add: slots.balanced_def start_hooks_def route_list_def empty_guard_def)
  ultimately have "slots.balanced (hk_guard (run_hooks L U S T channels ops (start_hooks s)))
      (route_list (run_hooks L U S T channels ops (start_hooks s)))"
    by (simp add: run_hooks_def)
  then have "\<forall>r. wg_inflight (hk_guard (run_hooks L U S T channels ops (start_hooks s))) r
        = count_list (route_list (run_hooks L U S T channels ops (start_hooks s))) r
      \<and> count_list (route_list (run_hooks L U S T channels ops (start_hooks s))) r \<le> concurrency_max"
    unfolding slots.balanced_def .
  then show ?thesis
    by (simp add: route_list_def count_list_filter concurrency_max_def Let_def)
qed

subsection \<open>Deliveries\<close>

definition body_time :: "hook_op \<Rightarrow> int option" where
  "body_time x = (case x of Hook_Body _ _ t _ \<Rightarrow> Some t | _ \<Rightarrow> None)"

definition hour_apart :: "utext option \<times> int \<Rightarrow> utext option \<times> int \<Rightarrow> bool" where
  "hour_apart a b \<longleftrightarrow> (fst a = fst b \<and> fst a \<noteq> None \<longrightarrow> snd a + 3600 * 1000000000 \<le> snd b)"

text \<open>Up to the moment \<open>t\<close>: the started deliveries are an hour apart, and each of the last hour is remembered.\<close>

definition delivered_ok :: "int \<Rightarrow> hook_run \<Rightarrow> bool" where
  "delivered_ok t h \<longleftrightarrow> sorted_wrt hour_apart (hk_started h)
     \<and> (\<forall>(x, u) \<in> set (hk_started h). \<forall>i. x = Some i \<longrightarrow>
          \<not> fresh_delivery t u \<or> (\<exists>u'. wg_deliveries (hk_guard h) i = Some u' \<and> u \<le> u'))"

lemma fresh_mono: "fresh_delivery t u \<Longrightarrow> t' \<le> t \<Longrightarrow> u \<le> u' \<Longrightarrow> fresh_delivery t' u'"
proof -
  assume f: "fresh_delivery t u" and l: "t' \<le> t" "u \<le> u'"
  have "max 0 (t' - u') div 1000000000 \<le> max 0 (t - u) div 1000000000" by (rule zdiv_mono1) (use l in auto)
  with f show ?thesis by (simp add: fresh_delivery_def)
qed

lemma stale_hour: "\<not> fresh_delivery t u \<Longrightarrow> u + 3600 * 1000000000 \<le> t"
  by (auto simp: fresh_delivery_def delivery_ttl_def max_def split: if_splits)

lemma check_delivery_keeps:
  assumes "check_delivery t i g = (ok, g')" "wg_deliveries g j = Some u" "fresh_delivery t u"
  shows "wg_deliveries g' j = Some u"
  using assms by (auto simp: check_delivery_def Let_def split: if_splits)

lemma check_delivery_new:
  assumes "check_delivery t i g = (True, g')"
  shows "wg_deliveries g' i = Some t" "wg_deliveries g i = Some u \<Longrightarrow> \<not> fresh_delivery t u"
  using assms by (auto simp: check_delivery_def Let_def split: if_splits)

lemma slot_deliveries:
  assumes "handle_slot L U S T log_ok now t job q (g, s) = (resp, e, g1, s1)"
  shows "g1 = g \<or> (\<exists>i ok. delivery_id q = Some i \<and> check_delivery t i g = (ok, g1))"
  using assms
  by (auto simp: handle_slot_def split: if_splits sum.splits option.splits prod.splits bool.splits)

lemma later_ok:
  assumes "delivered_ok t0 h" "t0 \<le> t" "hk_started h' = hk_started h"
    and "\<And>i u. wg_deliveries (hk_guard h) i = Some u \<Longrightarrow> fresh_delivery t u \<Longrightarrow> wg_deliveries (hk_guard h') i = Some u"
  shows "delivered_ok t h'"
proof -
  have "\<not> fresh_delivery t u \<or> (\<exists>u'. wg_deliveries (hk_guard h') i = Some u' \<and> u \<le> u')"
    if "(Some i, u) \<in> set (hk_started h)" for i u
  proof (rule disjCI)
    assume "\<not> (\<exists>u'. wg_deliveries (hk_guard h') i = Some u' \<and> u \<le> u')"
    moreover have "\<not> fresh_delivery t0 u \<or> (\<exists>u'. wg_deliveries (hk_guard h) i = Some u' \<and> u \<le> u')"
      using that assms(1) by (auto simp: delivered_ok_def)
    ultimately show "\<not> fresh_delivery t u"
      using assms(2) assms(4) [of i] fresh_mono [of t u t0 u] fresh_mono [of t u t] by blast
  qed
  with assms(1,3) show ?thesis by (auto simp: delivered_ok_def)
qed

lemma started_ok:
  assumes "delivered_ok t h" "hk_started h' = hk_started h @ [(x, t)]"
    and "case x of None \<Rightarrow> wg_deliveries (hk_guard h') = wg_deliveries g | Some i \<Rightarrow> check_delivery t i g = (True, hk_guard h')"
    and "wg_deliveries g = wg_deliveries (hk_guard h)"
  shows "delivered_ok t h'"
proof (cases x)
  case None
  with assms show ?thesis by (auto simp: delivered_ok_def sorted_wrt_append hour_apart_def)
next
  case (Some i)
  with assms(3) have c: "check_delivery t i g = (True, hk_guard h')" by simp
  have stale: "\<not> fresh_delivery t u" if "(Some i, u) \<in> set (hk_started h)" for u
    using that assms(1,4) check_delivery_new(2) [OF c] fresh_mono [of t u t] unfolding delivered_ok_def by fastforce
  have "sorted_wrt hour_apart (hk_started h')"
    using assms(1,2) stale stale_hour by (fastforce simp: delivered_ok_def sorted_wrt_append hour_apart_def Some)
  moreover have "\<not> fresh_delivery t u \<or> (\<exists>u'. wg_deliveries (hk_guard h') j = Some u' \<and> u \<le> u')"
    if "(Some j, u) \<in> set (hk_started h')" for j u
  proof (cases "(Some j, u) \<in> set (hk_started h)")
    case True
    then show ?thesis
      using assms(1,4) check_delivery_keeps [OF c, of j] fresh_mono [of t u t] unfolding delivered_ok_def by fastforce
  next
    case False
    with that assms(2) Some check_delivery_new(1) [OF c] show ?thesis by auto
  qed
  ultimately show ?thesis by (auto simp: delivered_ok_def)
qed

lemma delivery_frames [simp]:
  "wg_deliveries (release r g) = wg_deliveries g" "hk_started (h\<lparr>hk_guard := g\<rparr>) = hk_started h"
  by (simp_all add: release_def)

lemma admit_deliveries: "admit t job q g = (x, g') \<Longrightarrow> wg_deliveries g' = wg_deliveries g"
  by (auto simp: admit_def acquire_def dest: rate_inflight split: if_splits prod.splits bool.splits)

lemma step_delivered:
  assumes "delivered_ok t0 h" "\<And>t. body_time x = Some t \<Longrightarrow> t0 \<le> t"
  shows "delivered_ok (case body_time x of Some t \<Rightarrow> t | None \<Rightarrow> t0) (hook_step L U S T channels x h)"
proof (cases x)
  case (Hook_Body n now t log_ok)
  then have t: "t0 \<le> t" using assms(2) by (simp add: body_time_def)
  have h: "delivered_ok t h" using later_ok [OF assms(1) t refl] by blast
  show ?thesis
  proof (cases "n < length (hk_open h)")
    case True
    obtain job q where j: "hk_open h ! n = (job, q)" by fastforce
    obtain resp e g s where k: "handle_slot L U S T log_ok now t job q (hk_guard h, hk_s h) = (resp, e, g, s)" by (metis prod_cases4)
    let ?h = "hook_step L U S T channels x h"
    show ?thesis
    proof (cases "\<exists>i y p v. e = Webhook_Turn i y p v")
      case turn: True
      then obtain i y p v where e: "e = Webhook_Turn i y p v" by blast
      have "hk_started ?h = hk_started h @ [(delivery_id q, t)]" "hk_guard ?h = g"
        by (simp_all add: Hook_Body True j k e serve_admitted_def)
      with started_ok [OF h, of ?h "delivery_id q" "hk_guard h"] slot_turn [OF k [unfolded e]] show ?thesis
        by (auto simp: Hook_Body body_time_def split: option.splits)
    next
      case False
      then have st: "hk_started ?h = hk_started h" "wg_deliveries (hk_guard ?h) = wg_deliveries g"
        by (cases e; simp add: Hook_Body True j k serve_admitted_def Let_def)+
      have "wg_deliveries (hk_guard ?h) i = Some u" if "wg_deliveries (hk_guard h) i = Some u" "fresh_delivery t u" for i u
        using slot_deliveries [OF k] check_delivery_keeps that st(2) by auto
      with later_ok [OF h order_refl st(1)] show ?thesis by (simp add: Hook_Body body_time_def)
    qed
  next
    case False
    with h show ?thesis by (simp add: Hook_Body body_time_def)
  qed
next
  case (Hook_Request q t)
  have "hk_started (hook_step L U S T channels x h) = hk_started h
      \<and> wg_deliveries (hk_guard (hook_step L U S T channels x h)) = wg_deliveries (hk_guard h)"
    using admit_deliveries by (auto simp: Hook_Request split: option.split prod.split)
  with later_ok [OF assms(1) order_refl] show ?thesis by (simp add: Hook_Request body_time_def)
next
  case (Hook_Finish n result now ms log_ok)
  have "hk_started (hook_step L U S T channels x h) = hk_started h
      \<and> wg_deliveries (hk_guard (hook_step L U S T channels x h)) = wg_deliveries (hk_guard h)"
    by (auto simp: Hook_Finish finish_webhook_turn_def Let_def split: prod.split)
  with later_ok [OF assms(1) order_refl] show ?thesis by (simp add: Hook_Finish body_time_def)
qed (use later_ok [OF assms(1) order_refl] in \<open>simp_all add: body_time_def\<close>)

lemma run_delivered:
  assumes "delivered_ok t0 h" "sorted (t0 # List.map_filter body_time ops)"
  shows "\<exists>t. delivered_ok t (fold (hook_step L U S T channels) ops h)"
  using assms
proof (induction ops arbitrary: h t0)
  case (Cons x ops)
  let ?t = "case body_time x of Some t \<Rightarrow> t | None \<Rightarrow> t0"
  have "delivered_ok ?t (hook_step L U S T channels x h)"
    by (rule step_delivered [OF Cons.prems(1)]) (use Cons.prems(2) in simp)
  moreover have "sorted (?t # List.map_filter body_time ops)"
    using Cons.prems(2) by (cases "body_time x") auto
  ultimately show ?case using Cons.IH by simp
qed auto

text \<open>A delivery starts at most one turn in an hour: of two turns that were started by requests with the same
  delivery id the second began at least an hour after the first, whatever came between, as the clock is monotonic.\<close>

theorem delivery_starts_once:
  assumes "h = run_hooks L U S T channels ops (start_hooks s)" "sorted (List.map_filter body_time ops)"
    and "m < n" "n < length (hk_started h)" "fst (hk_started h ! m) = Some i" "fst (hk_started h ! n) = Some i"
  shows "snd (hk_started h ! m) + 3600 * 1000000000 \<le> snd (hk_started h ! n)"
proof -
  let ?t0 = "case List.map_filter body_time ops of t # ts \<Rightarrow> t | [] \<Rightarrow> 0"
  have "sorted (?t0 # List.map_filter body_time ops)" using assms(2) by (auto split: list.split)
  moreover have "delivered_ok ?t0 (start_hooks s)" by (simp add: delivered_ok_def start_hooks_def)
  ultimately obtain t where "delivered_ok t h" using run_delivered assms(1) unfolding run_hooks_def by blast
  then have "sorted_wrt hour_apart (hk_started h)" by (simp add: delivered_ok_def)
  from sorted_wrt_nth_less [OF this assms(3,4)] assms(5,6) show ?thesis by (simp add: hour_apart_def)
qed

subsection \<open>Instances\<close>

definition token_job :: job_entry where
  "token_job = (plain_job ''a'')\<lparr>je_webhook := Some \<lparr>wd_auth = cps ''bearer'', wd_secret = [115], wd_events = None,
     wd_filters = None, wd_payload_off = True\<rparr>\<rparr>"

definition token_request :: http_request where
  "token_request =
     \<lparr>hr_post = True, hr_path = cps ''/hooks/n'',
      hr_headers = [''Content-Type'' \<mapsto> Readable (cps ''text/plain''), ''Authorization'' \<mapsto> Readable (bearer_of [115])],
      hr_frames = [Data [104, 105]], hr_slow = False, hr_ip = []\<rparr>"

definition plain_http :: http_lib where
  "plain_http = \<lparr>hl_json = (\<lambda>_. None), hl_pretty = (\<lambda>_. []), hl_compact = (\<lambda>_. []), hl_regex = (\<lambda>_ _. None),
     hl_hmac = (\<lambda>_ _. []), hl_timestamp = (\<lambda>_. True)\<rparr>"

definition token_answer :: "http_response option \<times> hook_effect \<times> guard \<times> sched" where
  "token_answer = handle_request plain_http string_uuid plain_store plain_time None True 0 0 token_request
     (empty_guard, plain_sched None token_job)"

lemma token_projected:
  "webhook_jobs (plain_sched None token_job) = [project_webhook token_job \<lparr>wd_auth = cps ''bearer'', wd_secret = [115], wd_events = None,
     wd_filters = None, wd_payload_off = True\<rparr> [110]]"
  by (simp add: webhook_jobs_def plain_sched_def token_job_def route_of_def reserved_route_def is_route_slug_def cps_def char_cost_def measure_text_def)

lemma token_type: "acceptable_content_type (Some (cps ''text/plain''))"
  by (simp add: acceptable_content_type_def cps_def Let_def trim_def trim_end_def trim_start_def trim_start_of_def trim_end_of_def lower_cp_def is_space_def)

lemma token_turn: "\<exists>r j sess p v g s. token_answer = (r, Webhook_Turn j sess p v, g, s)"
proof -
  let ?j = "project_webhook token_job \<lparr>wd_auth = cps ''bearer'', wd_secret = [115], wd_events = None, wd_filters = None, wd_payload_off = True\<rparr> [110]"
  have h: "hook_job token_request (plain_sched None token_job) = Some ?j"
    unfolding hook_job_def token_projected by (simp add: token_request_def strip_prefix_def cps_def project_webhook_def)
  have "fst (admit 0 ?j token_request empty_guard) = None"
    using token_type
    by (simp add: admit_def token_request_def header_def check_rate_def empty_guard_def rate_max_def acquire_def concurrency_max_def Let_def)
  then obtain g where a: "admit 0 ?j token_request empty_guard = (None, g)" by (metis prod.collapse)
  have b: "collect_body_capped token_request = Inr [104, 105]"
    by (simp add: collect_body_capped_def token_request_def body_limit_def)
  have "auth_refusal plain_http 0 ?j (header token_request ''X-MyClaw-Timestamp'') (header token_request ''X-Hub-Signature-256'')
      (header token_request ''Authorization'') [104, 105] = None"
    by (simp add: auth_refusal_def project_webhook_def auth_kind_def header_def token_request_def)
  with h a b show ?thesis
    by (simp add: token_answer_def handle_request_def handle_route_def serve_admitted_def handle_slot_def declared_too_large_def
        header_def token_request_def delivery_id_def or_else_def accept_delivery_def ignore_reason_def project_webhook_def Let_def cps_def)
qed

lemma webhook_turn_authenticated_witness: "fst token_answer = Some (S202, cps ''accepted'')"
proof -
  obtain r j sess p v g s where t: "token_answer = (r, Webhook_Turn j sess p v, g, s)" using token_turn by blast
  from webhook_turn_authenticated [OF t [unfolded token_answer_def]] have r: "r = Some (S202, cps ''accepted'')" by blast
  show ?thesis unfolding t fst_conv by (rule r)
qed

end
