(* ===== verification/Spec2Isabelle.thy ===== *)
theory Spec2Isabelle
  imports
    Error_Class Credential_Pool Chat_Stream Fallback
    Loop_Breaker Completion_Queue Inbound_Spool Ask_Router Ids
    Chunking_Split Chunking_Fences Str_Utils
    Compaction Tool_Executor
    Utf8 User_Registry Mention Agent_Batch Session_Turn_Facts Startup
    Cron_Tool Scheduler_Restart Webhook_Facts
begin

text \<open>
  MyClaw is a daemon that runs LLM agents behind chat channels.  A message from a channel is
  written to a durable spool, dispatched to a session, and answered by a turn: the turn repairs and
  if need be compacts the history, asks a chain of LLM providers, runs tools under an approval gate
  and a loop breaker, may ask the user a question, and the answer is cut into chunks the channel
  accepts.  This development models the parts of that
  path that carry its logic and proves what they promise.  Paths are under \<open>src/src/\<close>.

  \<^bold>\<open>Theories.\<close>
  \<^item> \<open>Prelude\<close>: list positions, substring search, decimal numbers, durations and instants.
    Durations and instants are numbers of nanoseconds; \<open>instant_add\<close> is \<open>Instant + Duration\<close>, which
    panics (\<open>None\<close>) past the end of the platform's clock.
  \<^item> \<open>Error_Class\<close> (\<open>providers/error_class.rs\<close>): a provider failure, given as a status and a body, is
    classified into a category with recovery hints, a reason and a cooldown.  \<open>serde_json\<close> is a
    record of functions (\<open>json_lib\<close>), a parameter of every operation that reads a body.
  \<^item> \<open>Credential_Pool\<close> (\<open>providers/credential_pool.rs\<close>): the keys of a provider with their cooldowns
    per scope; the locale \<open>key_source\<close> is what the fallback chain relies on.
  \<^item> \<open>Chat_Stream\<close> (\<open>providers/capability_chat.rs\<close>): stream events and their collection into a
    response.
  \<^item> \<open>Fallback\<close> (\<open>providers/fallback.rs\<close>): the chain.  A run threads a state (the shared cooldown map and
    pools, the clock, the log of calls, the events sent); \<open>None\<close> is a panic.  The environment
    \<open>fb_env\<close> answers calls and may act for other tasks while a call or a sleep is in progress.
    The locale \<open>entry_relation\<close> lifts a relation on states from single calls to the chain; its
    two interpretations are the preservation of the pools and the steadiness of an entry.
  \<^item> \<open>Loop_Breaker\<close> (\<open>agents/loop_breaker.rs\<close>, \<open>api/loop_breaker.rs\<close>): the detectors of runaway tool calls
    over a window of 64-bit hashes.
  \<^item> \<open>Durable_Queue\<close>, \<open>Completion_Queue\<close>, \<open>Inbound_Spool\<close> (\<open>agents/orchestrator/completion_queue.rs\<close>,
    \<open>agents/orchestrator/inbound_spool.rs\<close> and the receive loop of \<open>agents/orchestrator/mod.rs\<close>):
    two queues over a directory of files.  Each disk operation takes its outcome as an argument,
    a crash is a reopening of the directory.  \<open>durable_queue\<close> is the contract of both,
    \<open>dedup_queue\<close> extends it with deduplication; both are interpreted on the models.
  \<^item> \<open>Ask_Router\<close> (\<open>agents/ask_router.rs\<close>): questions waiting for the user's reply, as a step relation
    over every interleaving of waits, replies, supersession and cancellation.
  \<^item> \<open>Ids\<close> (\<open>ids/mod.rs\<close>): qualified ids and their directory names.
  \<^item> \<open>Unicode\<close>, \<open>Chunking\<close>, \<open>Chunking_Split\<close>, \<open>Chunking_Fences\<close>
    (\<open>channels/message/chunking.rs\<close>): the splitter of outgoing messages, on code points.
    \<open>Chunking\<close> has the definitions, the other two what is proved of long and of short messages.
  \<^item> \<open>Str_Utils\<close> (\<open>str_utils.rs\<close>): truncation, neutralising of spoofing characters and the small YAML
    reader of skill and agent files.
  \<^item> \<open>Chat_Message\<close>, \<open>Media\<close>, \<open>Tokens\<close> (\<open>providers/capability_chat.rs\<close>, \<open>providers/media.rs\<close>,
    \<open>providers/tokens.rs\<close>): the messages of a history with their parts, the policy that sends a file
    inline or as a path marker, and the token estimates.  The file system is a record of functions.
  \<^item> \<open>Work_Unit\<close> (\<open>scheduling_runtime/work_unit.rs\<close>): the units a history is cut into.
  \<^item> \<open>History_Repair\<close> (\<open>agents/session/session_override.rs\<close>): \<open>sanitize_history\<close> and \<open>sanitize_paired\<close>.
  \<^item> \<open>Session_History\<close> (\<open>agents/session/types.rs\<close>, \<open>breakpoint_detect.rs\<close>, \<open>manager.rs\<close>): the record of a
    session, its operations as a datatype of commands run in any order, aborts, breakpoints,
    deadlines and the reload from the backend.
  \<^item> \<open>Tool_Filter\<close> (\<open>agents/agent/tool_filter.rs\<close>): the tools of a turn and the rebuild of a request.
  \<^item> \<open>Fold\<close>, \<open>Summarizer\<close>, \<open>Compaction\<close> (\<open>agents/compaction_engine\<close>): the deterministic fold and the
    evidence index, the summarizer's loop with its tool gate, and the engine.  The state of a run
    is the session, the log of requests and tools, and what was handed to the persistence hook; the
    provider answers each request with a stream of events or fails.
  \<^item> \<open>Truncation\<close>, \<open>Tool_Executor\<close> (\<open>tools/truncation.rs\<close>, \<open>agents/tool_executor.rs\<close>): the execution of one
    tool call under permission mode, approval gate, memory guard and watchdog.
  \<^item> \<open>Utf8\<close> (\<open>providers/infra.rs\<close>): the decoder of a byte stream that arrives in arbitrary chunks.
  \<^item> \<open>User_Registry\<close>, \<open>Mention\<close> (\<open>identity/user_registry.rs\<close>, \<open>agents/mention.rs\<close>): the users of the
    daemon with their unique names and addresses, every write and the reload of the directory; the
    replacement of mentions by reference tags and their rendering, in one piece and streamed.  The
    locale \<open>mention_directory\<close> is what the mentions need of the registry.
  \<^item> \<open>Agent_Stream\<close> (\<open>agents/agent/stream_collect.rs\<close>, \<open>agents/agent/retry.rs\<close>): one streamed answer read
    under three timeouts and shown while it arrives, and the retries of a transient failure.
  \<^item> \<open>Agent_Config\<close>, \<open>Agent_Mail\<close> (\<open>config/filters.rs\<close>, \<open>config/sub_agent.rs\<close>, \<open>agents/delegation.rs\<close>):
    the capability filters of an agent and its inbox.
  \<^item> \<open>Agent_Turn\<close>, \<open>Agent_Loop\<close> (\<open>agents/agent\<close>): one turn.  The state is the session with its compactions,
    the requests and the screen, the flags and the loop breaker, the messages of the request, the
    marker file and logs of rows, tools, notifications and forks; \<open>Agent_Turn\<close> has the steps of a
    tool batch with a yield parked in the frame, \<open>Agent_Loop\<close> the preparation, the rounds, the end and
    the recovery of a turn.  \<open>Agent_Turn_Facts\<close> proves that a turn ends, \<open>Agent_Batch\<close> what a batch and
    a recovery leave behind.
  \<^item> \<open>Suspension\<close>, \<open>Yield_Queue\<close> (\<open>agents/turn.rs\<close>, \<open>agents/session_context\<close>): the background tasks a session
    waits for, as operations run in any order with restarts; the events that wake a waiting session,
    as a step relation over the sections that hold its lock (\<open>yield_step\<close>), a channel per parked task.
  \<^item> \<open>Skills\<close> (\<open>agents/workspace\<close>, \<open>agents/skill_draft_reminder.rs\<close>): the skill files of three layers, their
    manager and the reminder of drafts.  A directory is a list of entries.
  \<^item> \<open>Attachments\<close>, \<open>Announcements\<close> (\<open>agents/attachment.rs\<close>): the reminder put in front of a message, built
    from what the history already announces; and what is proved of it.
  \<^item> \<open>Session_Turn\<close>, \<open>Session_Turn_Facts\<close> (\<open>agents/session_context\<close>): a message from its arrival to the
    delivered answer, with the turn of \<open>Agent_Loop\<close> inside, the suspension, the reminder and the parks.
  \<^item> \<open>Delegation\<close> (\<open>agents/delegation_coordinator\<close>, \<open>agents/delegation.rs\<close>): the coordinator of sub-agents; a
    delegation is spawned, suspended, cancelled, resumed and recovered, its checkpoints and its mail.
    \<open>Notices\<close> (\<open>agents/orchestrator/delegation\<close>): how a terminal event wakes the session that waits.
    \<open>Delegation_Run\<close> is the step relation of every interleaving of both (\<open>deleg_step\<close>), with the points
    at which a task may be aborted; \<open>Delegation_Inv\<close> its invariant.  The locale \<open>task_board\<close> is what
    the coordinator needs of a session's pending set, interpreted on the model of the suspension.
    \<open>Delegation_Facts\<close> holds the bound on the nesting and the faults.
  \<^item> \<open>Startup\<close> (\<open>agents/orchestrator/turn_recovery.rs\<close>, \<open>agents/orchestrator/sub_agent_recovery.rs\<close>): what a
    restart does with the sessions left suspended and the sub-agents left running.
  \<^item> \<open>Json_Value\<close>, \<open>Schedule\<close> (\<open>scheduling_types\<close>, \<open>scheduling_runtime/scheduler/timing.rs\<close>): JSON values as the
    source matches on them, and the data of a job with its schedules, weekdays, hours and delivery.
    The crates for dates, time zones and cron expressions are the record \<open>time_lib\<close>.
  \<^item> \<open>Scheduler\<close> (\<open>scheduling_runtime/scheduler\<close>): the jobs in memory and their directory, every operation
    on them and the tick in its three sections; each write takes its outcome as an argument.
    \<open>Scheduled_Turn\<close> (\<open>agents/orchestrator/scheduled.rs\<close>): what a trigger does, and the interleavings of
    ticks, runs and edits as a list of operations.  \<open>Schedule_Facts\<close>, \<open>Scheduler_Facts\<close>, \<open>Scheduler_Loss\<close>
    and \<open>Scheduler_Restart\<close> hold what is proved of them.
  \<^item> \<open>Webhook\<close>, \<open>Webhook_Facts\<close> (\<open>scheduling_runtime/webhook\<close>): a request from its method to the turn it
    starts, with the guard and the authentication.  The locale \<open>bounded_slots\<close> is the contract of the
    slots of a route, interpreted on the guard.
  \<^item> \<open>Cron_Tool\<close> (\<open>tools/cronjob_tool.rs\<close>): the tool by which an agent manages jobs.

  \<^bold>\<open>What is proved.\<close>  Queues: no accepted entry is lost or altered before it is acknowledged, over any
  history with crashes, and no message is accepted twice.  Chain: the number of calls is bounded, errors
  are shown only as the last event, cooling models are left alone, the first available entry
  answers, rotation installs an available key.  Pool: the key handed out is the strategy's choice among the available ones, exhaustion
  is scoped, round robin is fair, the next recovery is exact.  Classifier: every error it builds is
  coherent.  Breaker: the counter abstracts the history of the turn, the detectors meet their
  declarative specifications.  Router: a slot holds the ask registered last, a reply reaches it.
  Splitter: plain text is split into chunks within the limit that keep all that is visible, and a
  short message never leaves a fence open.  Histories: the repair closes every round but the
  live tail and merges what is not separated by a round, is idempotent and loses no part of a user message; ids stay parallel to messages over
  any run; aborts and reloads leave coherent sessions; breakpoints are exactly the unanswered calls;
  the work units partition the rounds and no boundary splits one.  Compaction: it never touches the
  open request, ends after a bounded number of requests, always succeeds when forced, and the
  summarizer runs only the tools it is granted.  Tools: nothing writes in read-only mode, a dangerous
  command is asked for, output is truncated at character boundaries within its budget.  Identity and text: user names and addresses stay unique and
  survive a reload, a mention is rendered back to what the user wrote, and bytes decode to the same
  text however they are cut.  Turns: with a limit on tool calls a turn ends after a bounded number of
  requests, the history declares exactly the calls that ran and answers each, recovery answers what
  was interrupted without running it.  Sessions: a terminal event is recorded once (within an hour, or until the
  suspension is dropped) and a task stays pending until then, no event is lost and no yield is answered twice over any interleaving, a notice
  is counted down once however its turn ends, an answer is sent unless the stream showed it, and a
  turn returns once its yields stop being filled.  Reminders: announced skills are read back from the
  history, skills are looked up in the order of their layers.  Delegations: none is lost over any
  interleaving, they nest no deeper than configured (for limits up to 65), and a restart with a
  coordinator settles or answers every task a session waited for.  Jobs: a fired job moves on, a removed job never
  fires again over any interleaving, and a restart reads back what a complete save wrote.  Webhooks: only
  an authenticated request starts a turn, a route holds at most eight slots and leaks none, and a
  delivery starts one turn in an hour.  Some
  theorems state faults of the code: a splitter
  that does not return, a fence left open after CR LF text, an answer appended to half of another,
  a panic on a huge retry delay, a notice lost after a failed write, a code found inside a longer
  one, a lone quote that panics, an abort that leaves a round open, a full fold that forgets its
  prefix, adjacent assistant messages after the folding of a tool, a recovery message before the
  system prompt, an approval prompt that panics, a reply that approves though it says no, a reference
  tag shown raw because a chunk ended inside it, an unclosed tag stored twice, a filled yield that the
  next request does not contain, calls stripped in memory but not on disk, a limit of zero that is no
  limit in the documentation and one call in the code, capability filters that are joined, a line of
  tildes that crashes a session for good, a date announced in every turn, a silence that outlives its
  turn, a draft reminder used up unseen, events drained before their result is stored, a
  finished sub-agent that only one restart remembers, a timeout that cannot be resumed because a
  message was unread, a cancelled delegation whose checkpoint says it runs, a parent without a
  context that is never told, a range of weekdays turned around, an interval that wraps, a moment that
  is never reached, a manual trigger lost, jobs of a legacy file that come back, a job deleted for a
  spelling error, a cooldown that panics.

  \<^bold>\<open>Bounds and partiality.\<close>  No fuel is used: the retry loops of the chain recurse on the attempts and
  rotations left, which the code bounds by constants.  The two loops of the splitter that need not
  end are \<open>partial_function (option)\<close>, so that a run that does not return is \<open>None\<close>, and that they
  return is part of what is proved; so is the loop of a turn.  64-bit hashes are words; sizes and counters that cannot
  reach their width in practice are natural numbers, and subtractions are written as the code
  saturates or wraps them.

  \<^bold>\<open>Not modelled.\<close>  Log lines, metrics and network input and output; the asynchronous runtime beyond
  the interleavings named above; storage, the channels' clients and the vendors' protocols.  JSON parsing, regular
  expressions, UUIDs and random numbers are parameters, with the documented laws a theorem needs
  as its hypotheses.
\<close>

end
